(* ===== verification/Prelude.thy ===== *)
theory Prelude
  imports Main "HOL-Library.Word" "HOL-Library.Char_ord" "HOL-Library.List_Lexorder"
    "HOL-Library.Sublist"
begin

text \<open>
  Shared vocabulary of the development: the machine types of the Go sources, the parts of
  \<^verbatim>\<open>fmt\<close>, \<^verbatim>\<open>strconv\<close>, \<^verbatim>\<open>strings\<close> and \<^verbatim>\<open>encoding/binary\<close> the sources use (decimal and
  hexadecimal printing, zero padding, parsing, big-endian words), the byte-wise
  lexicographic order on keys, and the generic lemmas the component theories rely on.

  A Go byte slice or string is a \<open>string\<close>: a list of 8-bit characters. Its order
  (\<open>List_Lexorder\<close> over \<open>Char_ord\<close>) is the byte-wise lexicographic order of
  \<^verbatim>\<open>bytes.Compare\<close>, by which the key-value store sorts its keys.
\<close>

named_theorems key_defs \<open>definitions of the storage keys\<close>
named_theorems guard_simps \<open>how the guards of an operation reduce\<close>
named_theorems inv_intros \<open>introduction rules for component invariants\<close>

type_synonym bytes = string
type_synonym u64 = "64 word"
type_synonym u32 = "32 word"
type_synonym hash = "256 word"
type_synonym address = "160 word"
type_synonym gotime = int

section \<open>Lexicographic order on byte strings\<close>

lemma less_list_append_same [simp]:
  "(p @ x < p @ y) \<longleftrightarrow> (x < (y :: 'a::linorder list))"
  by (induction p) auto

lemma le_list_append_same [simp]:
  "(p @ x \<le> p @ y) \<longleftrightarrow> (x \<le> (y :: 'a::linorder list))"
  by (induction p) auto

lemma less_list_append_eqlen:
  "length xs = length ys \<Longrightarrow>
   (xs @ us < ys @ vs) \<longleftrightarrow> (xs < ys \<or> xs = ys \<and> us < (vs :: 'a::linorder list))"
  by (induction xs ys rule: list_induct2) auto

lemma prefix_imp_le: "prefix p k \<Longrightarrow> p \<le> (k :: 'a::linorder list)"
proof -
  assume "prefix p k"
  then obtain s where "k = p @ s" by (auto simp: prefix_def)
  then show ?thesis using le_list_append_same [of p "[]" s] by simp
qed

section \<open>Fixed-width positional notation\<close>

text \<open>
  \<open>fixedDigits d b w n\<close> writes the \<open>w\<close> low-order base-\<open>b\<close> digits of \<open>n\<close>,
  most significant first, each rendered by \<open>d\<close>. Zero-padded decimal and hexadecimal
  numbers and big-endian machine words are instances.
\<close>

primrec fixedDigits :: "(nat \<Rightarrow> char) \<Rightarrow> nat \<Rightarrow> nat \<Rightarrow> nat \<Rightarrow> string" where
  "fixedDigits d b 0 n = []"
| "fixedDigits d b (Suc w) n = fixedDigits d b w (n div b) @ [d (n mod b)]"

lemma length_fixedDigits [simp]: "length (fixedDigits d b w n) = w"
  by (induction w arbitrary: n) auto

lemma fixedDigits_zero [simp]: "fixedDigits d b w 0 = replicate w (d 0)"
  by (induction w) (auto simp: replicate_append_same)

lemma fixedDigits_inj:
  assumes "inj_on d {..<b}" "0 < b" "n < b ^ w" "m < b ^ w"
    and "fixedDigits d b w n = fixedDigits d b w m"
  shows "n = m"
  using assms(3-5)
proof (induction w arbitrary: n m)
  case 0
  then show ?case by simp
next
  case (Suc w)
  have "n div b < b ^ w" "m div b < b ^ w"
    using Suc.prems(1,2) \<open>0 < b\<close> by (simp_all add: less_mult_imp_div_less mult.commute)
  moreover have "fixedDigits d b w (n div b) = fixedDigits d b w (m div b)"
    and last: "d (n mod b) = d (m mod b)"
    using Suc.prems(3) by simp_all
  ultimately have "n div b = m div b" by (intro Suc.IH)
  moreover have "n mod b = m mod b"
    using last \<open>inj_on d {..<b}\<close> \<open>0 < b\<close> by (auto dest: inj_onD)
  ultimately show ?case by (metis div_mult_mod_eq)
qed

lemma fixedDigits_less_iff:
  assumes mono: "\<And>x y. x < b \<Longrightarrow> y < b \<Longrightarrow> (d x < d y) = (x < y)"
    and "0 < b" "n < b ^ w" "m < b ^ w"
  shows "(fixedDigits d b w n < fixedDigits d b w m) \<longleftrightarrow> n < m"
  using assms(3,4)
proof (induction w arbitrary: n m)
  case 0
  then show ?case by simp
next
  case (Suc w)
  have "inj_on d {..<b}"
    by (auto intro!: inj_onI) (metis less_irrefl mono nat_neq_iff)
  have bn: "n div b < b ^ w" "m div b < b ^ w"
    using Suc.prems \<open>0 < b\<close> by (simp_all add: less_mult_imp_div_less mult.commute)
  have eq: "fixedDigits d b w (n div b) = fixedDigits d b w (m div b) \<longleftrightarrow> n div b = m div b"
    using fixedDigits_inj [OF \<open>inj_on d {..<b}\<close> \<open>0 < b\<close> bn] by auto
  have "n mod b < b" "m mod b < b" using \<open>0 < b\<close> by simp_all
  then have "(fixedDigits d b (Suc w) n < fixedDigits d b (Suc w) m) \<longleftrightarrow>
     n div b < m div b \<or> n div b = m div b \<and> n mod b < m mod b"
    by (simp add: less_list_append_eqlen Suc.IH [OF bn] eq mono)
  also have "\<dots> \<longleftrightarrow> n < m"
    by (metis \<open>0 < b\<close> div_le_mono div_less_mono div_mult_mod_eq less_le_not_le
        linorder_neqE_nat mod_less_divisor nat_add_left_cancel_less nat_less_le not_less)
  finally show ?case .
qed

text \<open>Reading a fixed-width number back: most significant digit first.\<close>

primrec readDigits :: "(char \<Rightarrow> nat) \<Rightarrow> nat \<Rightarrow> nat \<Rightarrow> string \<Rightarrow> nat" where
  "readDigits v b acc [] = acc"
| "readDigits v b acc (c # cs) = readDigits v b (acc * b + v c) cs"

lemma readDigits_append:
  "readDigits v b acc (xs @ ys) = readDigits v b (readDigits v b acc xs) ys"
  by (induction xs arbitrary: acc) auto

lemma readDigits_fixedDigits:
  assumes "\<And>x. x < b \<Longrightarrow> v (d x) = x" "0 < b"
  shows "readDigits v b 0 (fixedDigits d b w n) = n mod b ^ w"
proof (induction w arbitrary: n)
  case 0
  then show ?case by simp
next
  case (Suc w)
  have "readDigits v b 0 (fixedDigits d b (Suc w) n) = (n div b mod b ^ w) * b + n mod b"
    using assms by (simp add: readDigits_append Suc.IH)
  also have "\<dots> = n mod b ^ Suc w"
    by (simp add: mod_mult2_eq mult.commute)
  finally show ?case .
qed

lemma unat_u64_less: "unat (w :: u64) < 2 ^ 64"
  using unsigned_less [of w, where ?'a = nat] by simp

lemma word_of_nat_u64_inject:
  "i < 2 ^ 64 \<Longrightarrow> j < 2 ^ 64 \<Longrightarrow> (word_of_nat i :: u64) = word_of_nat j \<longleftrightarrow> i = j"
  by (simp add: word_of_nat_eq_iff take_bit_nat_eq_self)

lemma unat_of_nat_u64: "n < 2 ^ 64 \<Longrightarrow> unat (word_of_nat n :: u64) = n"
  by (simp add: unsigned_of_nat take_bit_nat_eq_self)

section \<open>Printing and parsing numbers\<close>

text \<open>\<open>digitChar\<close> renders one digit as the \<^verbatim>\<open>%d\<close> and \<^verbatim>\<open>%x\<close> verbs do (lower case).\<close>

definition digitChar :: "nat \<Rightarrow> char" where
  "digitChar n = char_of (if n < 10 then 48 + n else 87 + n)"

definition byteChar :: "nat \<Rightarrow> char" where
  "byteChar n = char_of n"

definition byteVal :: "char \<Rightarrow> nat" where
  "byteVal c = of_char c"

fun showBase :: "nat \<Rightarrow> nat \<Rightarrow> string" where
  "showBase b n =
     (if n < b \<or> b < 2 then [digitChar n] else showBase b (n div b) @ [digitChar (n mod b)])"

declare showBase.simps [simp del]

abbreviation showDec :: "nat \<Rightarrow> string" where
  "showDec \<equiv> showBase 10"

abbreviation showHex :: "nat \<Rightarrow> string" where
  "showHex \<equiv> showBase 16"

text \<open>
  Zero padding to a minimal width, as \<^verbatim>\<open>%020d\<close> and \<^verbatim>\<open>%016x\<close> do: a number with more
  digits than the width is printed in full.
\<close>

definition padBase :: "nat \<Rightarrow> nat \<Rightarrow> nat \<Rightarrow> string" where
  "padBase b w n = replicate (w - length (showBase b n)) (digitChar 0) @ showBase b n"

abbreviation padDec :: "nat \<Rightarrow> nat \<Rightarrow> string" where
  "padDec \<equiv> padBase 10"

abbreviation padHex :: "nat \<Rightarrow> nat \<Rightarrow> string" where
  "padHex \<equiv> padBase 16"

lemma of_char_byteChar [simp]: "n < 256 \<Longrightarrow> byteVal (byteChar n) = n"
  by (simp add: byteVal_def byteChar_def)

lemma byteVal_less [simp]: "byteVal c < 256"
  by (simp add: byteVal_def)

lemma byteChar_byteVal [simp]: "byteChar (byteVal c) = c"
  by (simp add: byteVal_def byteChar_def)

lemma byteChar_inject: "n < 256 \<Longrightarrow> m < 256 \<Longrightarrow> byteChar n = byteChar m \<longleftrightarrow> n = m"
  by (metis of_char_byteChar)

lemma char_less_iff: "(a < b) \<longleftrightarrow> byteVal a < byteVal b"
  by (simp add: less_char_def byteVal_def)

lemma byteChar_less [simp]: "n < 256 \<Longrightarrow> m < 256 \<Longrightarrow> (byteChar n < byteChar m) = (n < m)"
  by (simp add: char_less_iff)

lemma byteVal_digitChar: "n < 16 \<Longrightarrow> byteVal (digitChar n) = (if n < 10 then 48 + n else 87 + n)"
  by (simp add: byteVal_def digitChar_def)

lemma digitChar_less:
  "n < 16 \<Longrightarrow> m < 16 \<Longrightarrow> (digitChar n < digitChar m) = (n < m)"
  by (auto simp: char_less_iff byteVal_digitChar)

lemma showBase_nonempty [simp]: "showBase b n \<noteq> []"
  by (subst showBase.simps) simp

lemma length_showBase_pos [simp]: "0 < length (showBase b n)"
  by simp

text \<open>A printed number is the positional notation of its own length.\<close>

lemma showBase_fixedDigits:
  assumes "2 \<le> b"
  shows "showBase b n = fixedDigits digitChar b (length (showBase b n)) n"
  using assms
proof (induction b n rule: showBase.induct)
  case (1 b n)
  show ?case
  proof (cases "n < b")
    case True
    then show ?thesis by (simp add: showBase.simps [of b n])
  next
    case False
    then have "showBase b n = showBase b (n div b) @ [digitChar (n mod b)]"
      using "1.prems" by (simp add: showBase.simps [of b n])
    with "1.IH" False "1.prems" show ?thesis by simp
  qed
qed

lemma showBase_bound: "2 \<le> b \<Longrightarrow> n < b ^ length (showBase b n)"
proof (induction b n rule: showBase.induct)
  case (1 b n)
  show ?case
  proof (cases "n < b")
    case True
    then show ?thesis by (simp add: showBase.simps [of b n])
  next
    case False
    then have "n div b < b ^ length (showBase b (n div b))"
      using "1.IH" "1.prems" by simp
    then have "n < b * b ^ length (showBase b (n div b))"
      using "1.prems" by (metis div_less_iff_less_mult gr0I mult.commute not_numeral_le_zero)
    with False "1.prems" show ?thesis by (simp add: showBase.simps [of b n])
  qed
qed

lemma length_showBase_le: "2 \<le> b \<Longrightarrow> 0 < w \<Longrightarrow> n < b ^ w \<Longrightarrow> length (showBase b n) \<le> w"
proof (induction b n arbitrary: w rule: showBase.induct)
  case (1 b n)
  show ?case
  proof (cases "n < b")
    case True
    with "1.prems" show ?thesis by (simp add: showBase.simps [of b n])
  next
    case False
    then obtain w' where w: "w = Suc w'" "0 < w'"
      using "1.prems" by (cases w) (auto, cases "w - 1", auto)
    then have "n div b < b ^ w'"
      using "1.prems" by (simp add: less_mult_imp_div_less mult.commute)
    then have "length (showBase b (n div b)) \<le> w'"
      using "1.IH" False "1.prems" w by simp
    with False "1.prems" w show ?thesis by (simp add: showBase.simps [of b n])
  qed
qed

lemma fixedDigits_pad:
  "0 < b \<Longrightarrow> n < b ^ k \<Longrightarrow>
   fixedDigits d b (k + j) n = replicate j (d 0) @ fixedDigits d b k n"
proof (induction k arbitrary: n)
  case 0
  then show ?case by simp
next
  case (Suc k)
  then have "n div b < b ^ k"
    by (simp add: less_mult_imp_div_less mult.commute)
  with Suc show ?case by simp
qed

text \<open>Within its width a padded number is exactly the fixed-width notation.\<close>

lemma padBase_fixedDigits:
  assumes "2 \<le> b" "0 < w" "n < b ^ w"
  shows "padBase b w n = fixedDigits digitChar b w n"
proof -
  let ?k = "length (showBase b n)"
  have "?k \<le> w" using assms by (rule length_showBase_le)
  then obtain j where j: "w = ?k + j" by (auto dest: le_Suc_ex)
  have "fixedDigits digitChar b (?k + j) n
      = replicate j (digitChar 0) @ fixedDigits digitChar b ?k n"
    using assms(1) showBase_bound [OF assms(1)] by (intro fixedDigits_pad) auto
  with j showBase_fixedDigits [OF assms(1), of n] show ?thesis
    by (simp add: padBase_def)
qed

lemma length_padBase:
  "2 \<le> b \<Longrightarrow> 0 < w \<Longrightarrow> n < b ^ w \<Longrightarrow> length (padBase b w n) = w"
  by (simp add: padBase_fixedDigits)

lemma padBase_less_iff:
  assumes "2 \<le> b" "b \<le> 16" "0 < w" "n < b ^ w" "m < b ^ w"
  shows "(padBase b w n < padBase b w m) \<longleftrightarrow> n < m"
proof -
  have "(fixedDigits digitChar b w n < fixedDigits digitChar b w m) \<longleftrightarrow> n < m"
    using assms by (intro fixedDigits_less_iff) (auto simp: digitChar_less)
  then show ?thesis using assms by (simp add: padBase_fixedDigits)
qed

lemma padBase_inj:
  "2 \<le> b \<Longrightarrow> b \<le> 16 \<Longrightarrow> 0 < w \<Longrightarrow> n < b ^ w \<Longrightarrow> m < b ^ w \<Longrightarrow>
   padBase b w n = padBase b w m \<longleftrightarrow> n = m"
  by (metis less_irrefl linorder_neqE_nat padBase_less_iff)

text \<open>\<^verbatim>\<open>strconv.ParseUint(s, 10, 64)\<close>: every error (empty, not a digit, out of range) is None.\<close>

fun readDec :: "nat \<Rightarrow> string \<Rightarrow> nat option" where
  "readDec acc [] = Some acc"
| "readDec acc (c # cs) =
     (if 48 \<le> byteVal c \<and> byteVal c \<le> 57 then readDec (acc * 10 + (byteVal c - 48)) cs else None)"

definition ParseUint :: "string \<Rightarrow> u64 option" where
  "ParseUint s =
     (if s = [] then None
      else case readDec 0 s of
        None \<Rightarrow> None
      | Some n \<Rightarrow> if n < 2 ^ 64 then Some (word_of_nat n) else None)"

lemma readDec_append:
  "readDec acc (xs @ ys) = (case readDec acc xs of None \<Rightarrow> None | Some a \<Rightarrow> readDec a ys)"
  by (induction xs arbitrary: acc) auto

lemma readDec_showDec: "readDec 0 (showDec n) = Some n"
proof (induction n rule: less_induct)
  case (less n)
  show ?case
  proof (cases "n < 10")
    case True
    then show ?thesis by (simp add: showBase.simps [of 10 n] byteVal_digitChar)
  next
    case False
    then have "readDec 0 (showDec (n div 10)) = Some (n div 10)"
      by (intro less.IH) simp
    with False show ?thesis
      by (simp add: showBase.simps [of 10 n] readDec_append byteVal_digitChar)
  qed
qed

lemma ParseUint_showDec [simp]: "ParseUint (showDec (unat (w :: u64))) = Some w"
  using unat_u64_less [of w] by (simp add: ParseUint_def readDec_showDec)

lemma showDec_inject [simp]: "showDec n = showDec m \<longleftrightarrow> n = m"
  by (metis option.inject readDec_showDec)

section \<open>Separators\<close>

text \<open>\<^verbatim>\<open>strings.Split(s, c)\<close> for a one-character separator.\<close>

fun splitOn :: "char \<Rightarrow> string \<Rightarrow> string list" where
  "splitOn c [] = [[]]"
| "splitOn c (x # xs) =
     (if x = c then [] # splitOn c xs
      else case splitOn c xs of [] \<Rightarrow> [[x]] | y # ys \<Rightarrow> (x # y) # ys)"

lemma splitOn_no_sep: "c \<notin> set a \<Longrightarrow> splitOn c a = [a]"
  by (induction a) auto

lemma splitOn_append: "c \<notin> set a \<Longrightarrow> splitOn c (a @ c # b) = a # splitOn c b"
  by (induction a) auto

lemma sep_append_inject:
  assumes "c \<notin> set a" "c \<notin> set a'"
  shows "a @ c # b = a' @ c # b' \<longleftrightarrow> a = a' \<and> b = b'"
proof
  assume eq: "a @ c # b = a' @ c # b'"
  have "a = takeWhile (\<lambda>x. x \<noteq> c) (a @ c # b)"
    using assms(1) by (induction a) auto
  moreover have "a' = takeWhile (\<lambda>x. x \<noteq> c) (a' @ c # b')"
    using assms(2) by (induction a') auto
  ultimately show "a = a' \<and> b = b'" using eq by auto
qed simp

lemma eqlen_append_inject:
  "length a = length a' \<Longrightarrow> a @ b = a' @ b' \<longleftrightarrow> a = a' \<and> b = b'"
  by simp

lemma byteVal_slash [simp]: "byteVal CHR ''/'' = 47"
  by (simp add: byteVal_def)

lemma digitChar_not_slash: "n < 16 \<Longrightarrow> digitChar n \<noteq> CHR ''/''"
proof
  assume "n < 16" "digitChar n = CHR ''/''"
  then have "byteVal (digitChar n) = 47" by simp
  with \<open>n < 16\<close> show False by (simp add: byteVal_digitChar split: if_splits)
qed

lemma fixedDigits_no_slash:
  "0 < b \<Longrightarrow> b \<le> 16 \<Longrightarrow> CHR ''/'' \<notin> set (fixedDigits digitChar b w n)"
proof (induction w arbitrary: n)
  case (Suc w)
  have "n mod b < 16" using Suc.prems mod_less_divisor [of b n] by linarith
  then have "digitChar (n mod b) \<noteq> CHR ''/''" by (rule digitChar_not_slash)
  with Suc show ?case by auto
qed simp

lemma showBase_no_slash: "2 \<le> b \<Longrightarrow> b \<le> 16 \<Longrightarrow> CHR ''/'' \<notin> set (showBase b n)"
  using fixedDigits_no_slash [of b "length (showBase b n)" n] showBase_fixedDigits [of b n]
  by simp

lemma showDec_no_slash [simp]: "CHR ''/'' \<notin> set (showDec n)"
  by (rule showBase_no_slash) simp_all

lemma padBase_no_slash: "2 \<le> b \<Longrightarrow> b \<le> 16 \<Longrightarrow> CHR ''/'' \<notin> set (padBase b w n)"
  using digitChar_not_slash [of 0] showBase_no_slash [of b n] by (auto simp: padBase_def)

lemma padDec_no_slash [simp]: "CHR ''/'' \<notin> set (padDec w n)"
  by (rule padBase_no_slash) simp_all

lemma padHex_no_slash [simp]: "CHR ''/'' \<notin> set (padHex w n)"
  by (rule padBase_no_slash) simp_all

text \<open>The padded forms the schema uses are wide enough for every 64-bit number.\<close>

lemma u64_lt_20_digits [simp]: "unat (w :: u64) < 10 ^ 20"
  using unat_u64_less [of w] by simp

lemma u64_lt_16_hexdigits [simp]: "unat (w :: u64) < 16 ^ 16"
  using unat_u64_less [of w] by simp

lemma padDec20_less [simp]: "(padDec 20 (unat (v :: u64)) < padDec 20 (unat w)) \<longleftrightarrow> v < w"
  using padBase_less_iff [of 10 20 "unat v" "unat w"] u64_lt_20_digits [of v] u64_lt_20_digits [of w]
  by (simp add: word_less_nat_alt)

lemma padDec20_inject [simp]: "padDec 20 (unat (v :: u64)) = padDec 20 (unat w) \<longleftrightarrow> v = w"
  using padBase_inj [of 10 20 "unat v" "unat w"] u64_lt_20_digits [of v] u64_lt_20_digits [of w]
  by (simp add: word_unat_eq_iff)

lemma length_padDec20 [simp]: "length (padDec 20 (unat (w :: u64))) = 20"
  using length_padBase [of 10 20 "unat w"] u64_lt_20_digits [of w] by simp

lemma padHex16_less [simp]: "(padHex 16 (unat (v :: u64)) < padHex 16 (unat w)) \<longleftrightarrow> v < w"
  using padBase_less_iff [of 16 16 "unat v" "unat w"] u64_lt_16_hexdigits [of v]
    u64_lt_16_hexdigits [of w]
  by (simp add: word_less_nat_alt)

lemma padHex16_inject [simp]: "padHex 16 (unat (v :: u64)) = padHex 16 (unat w) \<longleftrightarrow> v = w"
  using padBase_inj [of 16 16 "unat v" "unat w"] u64_lt_16_hexdigits [of v]
    u64_lt_16_hexdigits [of w]
  by (simp add: word_unat_eq_iff)

lemma length_padHex16 [simp]: "length (padHex 16 (unat (w :: u64))) = 16"
  using length_padBase [of 16 16 "unat w"] u64_lt_16_hexdigits [of w] by simp

section \<open>Sorted entries\<close>

lemma sorted_kv_unique:
  fixes xs ys :: "('k::linorder \<times> 'v) list"
  assumes "sorted_wrt (<) (map fst xs)" "sorted_wrt (<) (map fst ys)" "set xs = set ys"
  shows "xs = ys"
proof (rule map_sorted_distinct_set_unique [of fst])
  show "inj_on fst (set xs \<union> set ys)"
    using assms by (simp add: strict_sorted_iff distinct_map)
qed (use assms in \<open>simp_all add: strict_sorted_iff\<close>)

section \<open>Counting in 64 bits\<close>

lemma unat_max_u64: "unat (- 1 :: u64) = 2 ^ 64 - 1"
  by (simp add: unsigned_minus_1_eq_mask mask_eq_exp_minus_1)

lemma unat_succ_u64: "(w :: u64) < - 1 \<Longrightarrow> unat (w + 1) = unat w + 1"
proof -
  assume "w < - 1"
  then have "1 + w \<noteq> 0" by (auto simp: add_eq_0_iff)
  from unatSuc [OF this] show ?thesis by (simp add: add.commute)
qed

lemma less_succ_u64: "height < - 1 \<Longrightarrow> h < height + 1 \<longleftrightarrow> h < height \<or> h = (height :: u64)"
  by (auto simp: word_less_nat_alt unat_succ_u64 word_unat_eq_iff)

lemma le_succ_u64: "height < - 1 \<Longrightarrow> lo \<le> height \<Longrightarrow> lo \<le> height + (1 :: u64)"
  by (simp add: word_le_nat_alt unat_succ_u64)

text \<open>Counting up from \<open>h\<close> to \<open>hi\<close>, below the largest height, ends.\<close>

lemma count_up_induct [consumes 2, case_names last step]:
  assumes "hi < - 1" "h \<le> hi + 1"
    and "P (hi + 1)"
    and "\<And>h. h \<le> hi \<Longrightarrow> h < - 1 \<Longrightarrow> P (h + 1) \<Longrightarrow> P (h :: u64)"
  shows "P h"
  using assms(2)
proof (induction "unat (hi + 1) - unat h" arbitrary: h)
  case 0
  then have "h = hi + 1" by (simp add: word_le_nat_alt word_unat_eq_iff)
  then show ?case using assms(3) by simp
next
  case (Suc n)
  have u: "unat (hi + 1) = unat hi + 1" using assms(1) by (rule unat_succ_u64)
  have le: "h \<le> hi" "h < - 1" using Suc u assms(1) by (auto simp: word_le_nat_alt word_less_nat_alt)
  moreover have "P (h + 1)"
    using Suc u le unat_succ_u64 [OF le(2)] by (intro Suc.hyps(1)) (auto simp: word_le_nat_alt)
  ultimately show ?case by (rule assms(4))
qed

section \<open>Sliding windows\<close>

definition lastN :: "nat \<Rightarrow> 'a list \<Rightarrow> 'a list" where
  "lastN n xs = drop (length xs - n) xs"

lemma lastN_snoc: "0 < n \<Longrightarrow> lastN n (xs @ [x]) =
    (if length xs < n then xs @ [x] else tl (lastN n xs) @ [x])"
  by (auto simp: lastN_def Suc_diff_le drop_Suc tl_drop)

lemma length_lastN: "length (lastN n xs) = min n (length xs)"
  by (simp add: lastN_def)

end
