(* ===== verification/Chain.thy ===== *)
theory Chain
  imports Prelude
begin

text \<open>
  The chain data the indexer handles and the third-party code it calls on them.

  Blocks, transactions, receipts and logs are go-ethereum structs; the records below hold the
  fields the modelled code reads. A field go-ethereum computes (a hash) is simply a field here,
  so every theorem holds whatever the hash function is.

  The functions of go-ethereum itself (hexadecimal rendering of hashes and addresses, RLP) are
  not part of the repository: they are the fields of the record \<open>geth\<close>, an argument of every
  definition that uses them. What the code relies on is stated by the locale \<open>geth_codec\<close>.
\<close>

record log =
  lAddress :: address
  lTopics :: "hash list"
  lData :: bytes
  lBlockNumber :: u64
  lTxHash :: hash
  lTxIndex :: u64
  lBlockHash :: hash
  lIndex :: u64
  lRemoved :: bool

record tx =
  tType :: nat
  tHash :: hash
  tFrom :: address
  tTo :: "address option"
  tValue :: int
  tGasPrice :: int
  tGas :: u64
  tNonce :: u64
  tData :: bytes

record receipt =
  rTxHash :: hash
  rStatus :: u64
  rCumulativeGasUsed :: u64
  rGasUsed :: u64
  rContractAddress :: address
  rLogs :: "log list"

record block =
  bNumber :: u64
  bHash :: hash
  bTime :: u64
  bCoinbase :: address
  bGasUsed :: u64
  bTxs :: "tx list"

text \<open>The contract that governs the validators (\<^verbatim>\<open>internal/constants\<close>).\<close>

definition GovValidatorAddress :: address where
  "GovValidatorAddress = 0x1001"

text \<open>\<^verbatim>\<open>storage.TxLocation\<close> (pkg/storage/encoder.go).\<close>

record TxLocation =
  BlockHeight :: u64
  TxIndex :: u64
  BlockHash :: hash

record geth =
  hashHex :: "hash \<Rightarrow> string"
  addrHex :: "address \<Rightarrow> string"
  addrBytes :: "address \<Rightarrow> bytes"
  bytesToAddr :: "bytes \<Rightarrow> address"
  bytesToHash :: "bytes \<Rightarrow> hash"
  hexToAddr :: "string \<Rightarrow> address"
  hexToHash :: "string \<Rightarrow> hash"
  rlpEncodeBlock :: "block \<Rightarrow> bytes option"
  rlpDecodeBlock :: "bytes \<Rightarrow> block option"
  rlpEncodeTx :: "tx \<Rightarrow> bytes option"
  rlpDecodeTx :: "bytes \<Rightarrow> tx option"
  rlpEncodeReceipt :: "receipt \<Rightarrow> bytes option"
  rlpDecodeReceipt :: "bytes \<Rightarrow> receipt option"
  rlpEncodeLoc :: "TxLocation \<Rightarrow> bytes option"
  rlpDecodeLoc :: "bytes \<Rightarrow> TxLocation option"
  rlpEncodeLog :: "log \<Rightarrow> bytes option"
  rlpDecodeLog :: "bytes \<Rightarrow> log option"

text \<open>
  The documented behaviour of go-ethereum the indexer relies on: hexadecimal renderings are
  injective, of fixed length (66 characters for a hash, 42 for an address) and contain no
  slash and only ASCII; an address is 20 bytes, and addresses and hashes are read back from their bytes and from
  their hexadecimal rendering; RLP decodes what it
  encoded, and never encodes to nothing; logs go through the struct \<^verbatim>\<open>storedLog\<close>, which has all
  fields. Of a receipt RLP keeps the consensus fields only: the
  status, the cumulative gas and the logs.
\<close>

locale geth_codec =
  fixes G :: geth
  assumes hashHex_inj: "hashHex G h = hashHex G h' \<Longrightarrow> h = h'"
    and hashHex_len: "length (hashHex G h) = 66"
    and hashHex_no_slash: "CHR ''/'' \<notin> set (hashHex G h)"
    and addrHex_inj: "addrHex G a = addrHex G a' \<Longrightarrow> a = a'"
    and addrHex_len: "length (addrHex G a) = 42"
    and addrHex_no_slash: "CHR ''/'' \<notin> set (addrHex G a)"
    and addrHex_ascii: "c \<in> set (addrHex G a) \<Longrightarrow> byteVal c < 128"
    and addrBytes_len: "length (addrBytes G a) = 20"
    and bytesToAddr: "bytesToAddr G (addrBytes G a) = a"
    and bytesToHash: "bytesToHash G (fixedDigits byteChar 256 32 (unat h)) = h"
    and hexToAddr: "hexToAddr G (addrHex G a) = a"
    and hexToHash: "hexToHash G (hashHex G h) = h"
    and rlp_block: "rlpEncodeBlock G b = Some e \<Longrightarrow> e \<noteq> [] \<and> rlpDecodeBlock G e = Some b"
    and rlp_tx: "rlpEncodeTx G t = Some e \<Longrightarrow> e \<noteq> [] \<and> rlpDecodeTx G e = Some t"
    and rlp_loc: "rlpEncodeLoc G l = Some e \<Longrightarrow> e \<noteq> [] \<and> rlpDecodeLoc G e = Some l"
    and rlp_log: "rlpEncodeLog G x = Some e \<Longrightarrow> e \<noteq> [] \<and> rlpDecodeLog G e = Some x"
    and rlp_receipt: "rlpEncodeReceipt G r = Some e \<Longrightarrow>
      e \<noteq> [] \<and> (\<exists>r'. rlpDecodeReceipt G e = Some r' \<and> rStatus r' = rStatus r \<and>
        rCumulativeGasUsed r' = rCumulativeGasUsed r)"
begin

lemma hashHex_inject [simp]: "hashHex G h = hashHex G h' \<longleftrightarrow> h = h'"
  by (blast dest: hashHex_inj)

lemma addrHex_inject [simp]: "addrHex G a = addrHex G a' \<longleftrightarrow> a = a'"
  by (blast dest: addrHex_inj)

lemma addrHex_append_inject [simp]:
  "addrHex G a @ x = addrHex G a' @ y \<longleftrightarrow> a = a' \<and> x = y"
  using eqlen_append_inject [of "addrHex G a" "addrHex G a'" x y] by (simp add: addrHex_len)

lemma hashHex_append_inject [simp]:
  "hashHex G h @ x = hashHex G h' @ y \<longleftrightarrow> h = h' \<and> x = y"
  using eqlen_append_inject [of "hashHex G h" "hashHex G h'" x y] by (simp add: hashHex_len)

end

section \<open>A reference instance\<close>

text \<open>
  A concrete go-ethereum: lower-case hexadecimal, big-endian addresses, and an RLP that knows a
  given table of one block, one transaction, one receipt, one location and one log and refuses every
  other value. It shows that the laws of \<open>geth_codec\<close> can hold together, and lets closed
  examples run.
\<close>

definition hex_of :: "nat \<Rightarrow> nat \<Rightarrow> string" where
  "hex_of w n = ''0x'' @ fixedDigits digitChar 16 w n"

definition hexVal :: "char \<Rightarrow> nat" where
  "hexVal c = (if byteVal c < 58 then byteVal c - 48 else byteVal c - 87)"

definition unhex :: "string \<Rightarrow> nat" where
  "unhex str = readDigits hexVal 16 0 (drop 2 str)"

definition sampleLog :: log where
  "sampleLog = \<lparr>lAddress = 8, lTopics = [1, 6], lData = [], lBlockNumber = 7, lTxHash = 21, lTxIndex = 0,
     lBlockHash = 77, lIndex = 0, lRemoved = False\<rparr>"

definition refGeth :: "block \<Rightarrow> tx \<Rightarrow> receipt \<Rightarrow> TxLocation \<Rightarrow> geth" where
  "refGeth b t r l =
     \<lparr>hashHex = (\<lambda>h. hex_of 64 (unat h)),
      addrHex = (\<lambda>a. hex_of 40 (unat a)),
      addrBytes = (\<lambda>a. fixedDigits byteChar 256 20 (unat a)),
      bytesToAddr = (\<lambda>x. word_of_nat (readDigits byteVal 256 0 x)),
      bytesToHash = (\<lambda>x. word_of_nat (readDigits byteVal 256 0 x)),
      hexToAddr = (\<lambda>x. word_of_nat (unhex x)),
      hexToHash = (\<lambda>x. word_of_nat (unhex x)),
      rlpEncodeBlock = (\<lambda>x. if x = b then Some ''B'' else None),
      rlpDecodeBlock = (\<lambda>e. if e = ''B'' then Some b else None),
      rlpEncodeTx = (\<lambda>x. if x = t then Some ''T'' else None),
      rlpDecodeTx = (\<lambda>e. if e = ''T'' then Some t else None),
      rlpEncodeReceipt = (\<lambda>x. if x = r then Some ''R'' else None),
      rlpDecodeReceipt = (\<lambda>e. if e = ''R''
         then Some (r\<lparr>rTxHash := 0, rContractAddress := 0\<rparr>) else None),
      rlpEncodeLoc = (\<lambda>x. if x = l then Some ''L'' else None),
      rlpDecodeLoc = (\<lambda>e. if e = ''L'' then Some l else None),
      rlpEncodeLog = (\<lambda>x. if x = sampleLog then Some ''G'' else None),
      rlpDecodeLog = (\<lambda>e. if e = ''G'' then Some sampleLog else None)\<rparr>"

lemma hex_of_inject:
  assumes "n < 16 ^ w" "m < 16 ^ w" "hex_of w n = hex_of w m"
  shows "n = m"
proof (rule fixedDigits_inj [of digitChar 16 n w m])
  show "inj_on digitChar {..<16}"
    by (auto intro!: inj_onI) (metis digitChar_less less_irrefl nat_neq_iff)
qed (use assms in \<open>auto simp: hex_of_def\<close>)

lemma hex_of_no_slash: "CHR ''/'' \<notin> set (hex_of w n)"
  using fixedDigits_no_slash [of 16 w n] by (simp add: hex_of_def)

lemma unat_hash_less: "unat (h :: hash) < 16 ^ 64"
  using unsigned_less [of h, where ?'a = nat] by simp

lemma unat_address_less: "unat (a :: address) < 16 ^ 40"
  using unsigned_less [of a, where ?'a = nat] by simp

lemma hex_of_ascii: "c \<in> set (hex_of w n) \<Longrightarrow> byteVal c < 128"
proof -
  have "byteVal d < 128" if "d \<in> set (fixedDigits digitChar 16 w n)" for d
    using that by (induction w arbitrary: n) (auto simp: byteVal_digitChar split: if_splits)
  then show "c \<in> set (hex_of w n) \<Longrightarrow> byteVal c < 128" by (auto simp: hex_of_def byteVal_def)
qed

lemma unhex_hex_of: "n < 16 ^ w \<Longrightarrow> unhex (hex_of w n) = n"
  by (simp add: unhex_def hex_of_def readDigits_fixedDigits hexVal_def byteVal_digitChar)

interpretation refGeth: geth_codec "refGeth b t r l"
proof
  show "h = h'" if "hashHex (refGeth b t r l) h = hashHex (refGeth b t r l) h'" for h h'
    using hex_of_inject [OF unat_hash_less unat_hash_less] that
    by (simp add: refGeth_def word_unat_eq_iff)
  show "a = a'" if "addrHex (refGeth b t r l) a = addrHex (refGeth b t r l) a'" for a a'
    using hex_of_inject [OF unat_address_less unat_address_less] that
    by (simp add: refGeth_def word_unat_eq_iff)
  show "bytesToAddr (refGeth b t r l) (addrBytes (refGeth b t r l) a) = a" for a
    using unsigned_less [of a, where ?'a = nat]
    by (simp add: refGeth_def readDigits_fixedDigits)
  show "byteVal c < 128" if "c \<in> set (addrHex (refGeth b t r l) a)" for c a
    using that hex_of_ascii by (simp add: refGeth_def)
  show "bytesToHash (refGeth b t r l) (fixedDigits byteChar 256 32 (unat h)) = h" for h
    using unsigned_less [of h, where ?'a = nat]
    by (simp add: refGeth_def readDigits_fixedDigits)
  show "hexToAddr (refGeth b t r l) (addrHex (refGeth b t r l) a) = a" for a
    using unat_address_less [of a] by (simp add: refGeth_def unhex_hex_of)
  show "hexToHash (refGeth b t r l) (hashHex (refGeth b t r l) h) = h" for h
    using unat_hash_less [of h] by (simp add: refGeth_def unhex_hex_of)
qed (auto simp: refGeth_def hex_of_def hex_of_no_slash [unfolded hex_of_def]
    fixedDigits_no_slash split: if_splits)

text \<open>A block with one transaction and its receipt, for the examples.\<close>

definition sampleTx :: tx where
  "sampleTx = \<lparr>tType = 2, tHash = 21, tFrom = 5, tTo = None, tValue = 0, tGasPrice = 2, tGas = 90, tNonce = 0,
     tData = []\<rparr>"

definition sampleBlock :: block where
  "sampleBlock = \<lparr>bNumber = 7, bHash = 77, bTime = 1000, bCoinbase = 9, bGasUsed = 40,
     bTxs = [sampleTx]\<rparr>"

definition sampleReceipt :: receipt where
  "sampleReceipt = \<lparr>rTxHash = 21, rStatus = 1, rCumulativeGasUsed = 40, rGasUsed = 40,
     rContractAddress = 33, rLogs = []\<rparr>"

definition sampleLoc :: TxLocation where
  "sampleLoc = \<lparr>BlockHeight = 7, TxIndex = 0, BlockHash = 77\<rparr>"

definition sampleGeth :: geth where
  "sampleGeth = refGeth sampleBlock sampleTx sampleReceipt sampleLoc"

lemmas sample_defs = sampleTx_def sampleBlock_def sampleReceipt_def

lemma geth_codec_sample: "geth_codec sampleGeth"
  by (simp add: sampleGeth_def refGeth.geth_codec_axioms)

end
