(* ===== verification/Schema.thy ===== *)
theory Schema
  imports Chain
begin

text \<open>
  The key schema of the store (pkg/storage/schema.go) and the prefix bounds of range scans
  (pkg/storage/pebble.go): one definition per key function, with the format string of the
  source written out as a concatenation. \<^verbatim>\<open>%d\<close> is \<open>showDec\<close>, \<^verbatim>\<open>%020d\<close> is
  \<open>padDec 20\<close>, \<^verbatim>\<open>%064x\<close> is \<open>padHex 64\<close>.

  The lemmas show that keys parse back, that keys of one family determine their arguments, that
  zero-padded families sort as their numbers do, and that a prefix scan visits exactly the keys
  with the prefix.
\<close>

section \<open>Prefixes\<close>

definition keyLatestHeight :: string where [key_defs]:
  "keyLatestHeight = ''/meta/lh''"

definition prefixBlocks :: string where [key_defs]:
  "prefixBlocks = ''/data/blocks/''"

definition prefixTxs :: string where [key_defs]:
  "prefixTxs = ''/data/txs/''"

definition prefixReceipts :: string where [key_defs]:
  "prefixReceipts = ''/data/receipts/''"

definition prefixContractAddr :: string where [key_defs]:
  "prefixContractAddr = ''/data/contractaddr/''"

definition prefixTxHash :: string where [key_defs]:
  "prefixTxHash = ''/index/txh/''"

definition prefixBlockHash :: string where [key_defs]:
  "prefixBlockHash = ''/index/blockh/''"

definition prefixAddr :: string where [key_defs]:
  "prefixAddr = ''/index/addr/''"

definition keyBlockCount :: string where [key_defs]:
  "keyBlockCount = ''/meta/bc''"

definition keyTransactionCount :: string where [key_defs]:
  "keyTransactionCount = ''/meta/tc''"

definition prefixSysMint :: string where [key_defs]:
  "prefixSysMint = ''/data/syscontracts/mint/''"

definition prefixSysBurn :: string where [key_defs]:
  "prefixSysBurn = ''/data/syscontracts/burn/''"

definition prefixSysMinterConfig :: string where [key_defs]:
  "prefixSysMinterConfig = ''/data/syscontracts/minterconfig/''"

definition prefixSysValidator :: string where [key_defs]:
  "prefixSysValidator = ''/data/syscontracts/validator/''"

definition prefixSysProposal :: string where [key_defs]:
  "prefixSysProposal = ''/data/syscontracts/proposal/''"

definition prefixSysVote :: string where [key_defs]:
  "prefixSysVote = ''/data/syscontracts/vote/''"

definition prefixSysBlacklist :: string where [key_defs]:
  "prefixSysBlacklist = ''/data/syscontracts/blacklist/''"

definition prefixSysMember :: string where [key_defs]:
  "prefixSysMember = ''/data/syscontracts/member/''"

definition prefixSysGasTip :: string where [key_defs]:
  "prefixSysGasTip = ''/data/syscontracts/gastip/''"

definition prefixSysEmergency :: string where [key_defs]:
  "prefixSysEmergency = ''/data/syscontracts/emergency/''"

definition prefixSysDepositMint :: string where [key_defs]:
  "prefixSysDepositMint = ''/data/syscontracts/depositmint/''"

definition prefixSysMaxProposals :: string where [key_defs]:
  "prefixSysMaxProposals = ''/data/syscontracts/maxproposals/''"

definition prefixSysProposalSkipped :: string where [key_defs]:
  "prefixSysProposalSkipped = ''/data/syscontracts/proposalskipped/''"

definition prefixSysAuthorizedAccounts :: string where [key_defs]:
  "prefixSysAuthorizedAccounts = ''/data/syscontracts/authorizedaccounts/''"

definition prefixIdxMintMinter :: string where [key_defs]:
  "prefixIdxMintMinter = ''/index/syscontracts/mint_minter/''"

definition prefixIdxBurnBurner :: string where [key_defs]:
  "prefixIdxBurnBurner = ''/index/syscontracts/burn_burner/''"

definition prefixIdxProposalStatus :: string where [key_defs]:
  "prefixIdxProposalStatus = ''/index/syscontracts/proposal_status/''"

definition prefixIdxBlacklistActive :: string where [key_defs]:
  "prefixIdxBlacklistActive = ''/index/syscontracts/blacklist_active/''"

definition prefixIdxMinterActive :: string where [key_defs]:
  "prefixIdxMinterActive = ''/index/syscontracts/minter_active/''"

definition prefixIdxValidatorActive :: string where [key_defs]:
  "prefixIdxValidatorActive = ''/index/syscontracts/validator_active/''"

definition prefixIdxTotalSupply :: string where [key_defs]:
  "prefixIdxTotalSupply = ''/index/syscontracts/total_supply''"

definition prefixWBFTExtra :: string where [key_defs]:
  "prefixWBFTExtra = ''/data/wbft/extra/''"

definition prefixWBFTEpoch :: string where [key_defs]:
  "prefixWBFTEpoch = ''/data/wbft/epoch/''"

definition keyLatestEpoch :: string where [key_defs]:
  "keyLatestEpoch = ''/meta/wbft/latest_epoch''"

definition prefixWBFTValidatorStats :: string where [key_defs]:
  "prefixWBFTValidatorStats = ''/data/wbft/validator/stats/''"

definition prefixWBFTValidatorActivity :: string where [key_defs]:
  "prefixWBFTValidatorActivity = ''/data/wbft/validator/activity/''"

definition prefixIdxWBFTSignerPrepare :: string where [key_defs]:
  "prefixIdxWBFTSignerPrepare = ''/index/wbft/signers/prepare/''"

definition prefixIdxWBFTSignerCommit :: string where [key_defs]:
  "prefixIdxWBFTSignerCommit = ''/index/wbft/signers/commit/''"

definition prefixContractCreation :: string where [key_defs]:
  "prefixContractCreation = ''/data/contract/creation/''"

definition prefixIdxContractCreator :: string where [key_defs]:
  "prefixIdxContractCreator = ''/index/contract/creator/''"

definition prefixIdxContractBlock :: string where [key_defs]:
  "prefixIdxContractBlock = ''/index/contract/block/''"

definition prefixInternalTx :: string where [key_defs]:
  "prefixInternalTx = ''/data/internal/''"

definition prefixIdxInternalFrom :: string where [key_defs]:
  "prefixIdxInternalFrom = ''/index/internal/from/''"

definition prefixIdxInternalTo :: string where [key_defs]:
  "prefixIdxInternalTo = ''/index/internal/to/''"

definition prefixIdxInternalBlock :: string where [key_defs]:
  "prefixIdxInternalBlock = ''/index/internal/block/''"

definition prefixERC20Transfer :: string where [key_defs]:
  "prefixERC20Transfer = ''/data/erc20/transfer/''"

definition prefixIdxERC20Token :: string where [key_defs]:
  "prefixIdxERC20Token = ''/index/erc20/token/''"

definition prefixIdxERC20From :: string where [key_defs]:
  "prefixIdxERC20From = ''/index/erc20/from/''"

definition prefixIdxERC20To :: string where [key_defs]:
  "prefixIdxERC20To = ''/index/erc20/to/''"

definition prefixERC721Transfer :: string where [key_defs]:
  "prefixERC721Transfer = ''/data/erc721/transfer/''"

definition prefixIdxERC721Token :: string where [key_defs]:
  "prefixIdxERC721Token = ''/index/erc721/token/''"

definition prefixIdxERC721From :: string where [key_defs]:
  "prefixIdxERC721From = ''/index/erc721/from/''"

definition prefixIdxERC721To :: string where [key_defs]:
  "prefixIdxERC721To = ''/index/erc721/to/''"

definition prefixIdxERC721TokenOwner :: string where [key_defs]:
  "prefixIdxERC721TokenOwner = ''/index/erc721/tokenowner/''"

definition prefixIdxERC721Owner :: string where [key_defs]:
  "prefixIdxERC721Owner = ''/index/erc721/owner/''"

definition prefixLogs :: string where [key_defs]:
  "prefixLogs = ''/data/logs/''"

definition prefixIdxLogsAddr :: string where [key_defs]:
  "prefixIdxLogsAddr = ''/index/logs/addr/''"

definition prefixIdxLogsTopic0 :: string where [key_defs]:
  "prefixIdxLogsTopic0 = ''/index/logs/topic0/''"

definition prefixIdxLogsTopic1 :: string where [key_defs]:
  "prefixIdxLogsTopic1 = ''/index/logs/topic1/''"

definition prefixIdxLogsTopic2 :: string where [key_defs]:
  "prefixIdxLogsTopic2 = ''/index/logs/topic2/''"

definition prefixIdxLogsTopic3 :: string where [key_defs]:
  "prefixIdxLogsTopic3 = ''/index/logs/topic3/''"

definition prefixIdxLogsBlock :: string where [key_defs]:
  "prefixIdxLogsBlock = ''/index/logs/block/''"

definition prefixIdxSetCodeTx :: string where [key_defs]:
  "prefixIdxSetCodeTx = ''/index/setcode/tx/''"

definition prefixTokenHolder :: string where [key_defs]:
  "prefixTokenHolder = ''/data/token/holder/''"

definition prefixTokenHolderStats :: string where [key_defs]:
  "prefixTokenHolderStats = ''/data/token/holderstats/''"

definition prefixIdxTokenHolderByToken :: string where [key_defs]:
  "prefixIdxTokenHolderByToken = ''/index/token/holder/token/''"

definition prefixIdxTokenHolderByHolder :: string where [key_defs]:
  "prefixIdxTokenHolderByHolder = ''/index/token/holder/holder/''"

definition prefixMeta :: string where [key_defs]:
  "prefixMeta = ''/meta/''"

definition prefixData :: string where [key_defs]:
  "prefixData = ''/data/''"

definition prefixIndex :: string where [key_defs]:
  "prefixIndex = ''/index/''"

section \<open>Key functions\<close>

definition LatestHeightKey :: "bytes" where [key_defs]:
  "LatestHeightKey = keyLatestHeight"

definition BlockKey :: "u64 \<Rightarrow> bytes" where [key_defs]:
  "BlockKey height = prefixBlocks @ showDec (unat height)"

definition TransactionKey :: "u64 \<Rightarrow> u64 \<Rightarrow> bytes" where [key_defs]:
  "TransactionKey height txIndex = prefixTxs @ showDec (unat height) @ ''/'' @ showDec (unat txIndex)"

definition ReceiptKey :: "geth \<Rightarrow> hash \<Rightarrow> bytes" where [key_defs]:
  "ReceiptKey G txHash = prefixReceipts @ hashHex G txHash"

definition ContractAddressKey :: "geth \<Rightarrow> hash \<Rightarrow> bytes" where [key_defs]:
  "ContractAddressKey G txHash = prefixContractAddr @ hashHex G txHash"

definition TransactionHashIndexKey :: "geth \<Rightarrow> hash \<Rightarrow> bytes" where [key_defs]:
  "TransactionHashIndexKey G txHash = prefixTxHash @ hashHex G txHash"

definition BlockHashIndexKey :: "geth \<Rightarrow> hash \<Rightarrow> bytes" where [key_defs]:
  "BlockHashIndexKey G blockHash = prefixBlockHash @ hashHex G blockHash"

definition AddressTransactionKey :: "geth \<Rightarrow> address \<Rightarrow> u64 \<Rightarrow> bytes" where [key_defs]:
  "AddressTransactionKey G addr seq = prefixAddr @ addrHex G addr @ ''/'' @ padDec 20 (unat seq)"

definition AddressTransactionKeyPrefix :: "geth \<Rightarrow> address \<Rightarrow> bytes" where [key_defs]:
  "AddressTransactionKeyPrefix G addr = prefixAddr @ addrHex G addr @ ''/''"

definition BlockTimestampKey :: "u64 \<Rightarrow> u64 \<Rightarrow> bytes" where [key_defs]:
  "BlockTimestampKey timestamp height = ''/index/time/'' @ padDec 20 (unat timestamp) @ ''/'' @ padDec 20 (unat height)"

definition BlockTimestampKeyPrefix :: "bytes" where [key_defs]:
  "BlockTimestampKeyPrefix = ''/index/time/''"

definition AddressBalanceKey :: "geth \<Rightarrow> address \<Rightarrow> u64 \<Rightarrow> bytes" where [key_defs]:
  "AddressBalanceKey G addr seq = ''/index/balance/'' @ addrHex G addr @ ''/history/'' @ padDec 20 (unat seq)"

definition AddressBalanceLatestKey :: "geth \<Rightarrow> address \<Rightarrow> bytes" where [key_defs]:
  "AddressBalanceLatestKey G addr = ''/index/balance/'' @ addrHex G addr @ ''/latest''"

definition AddressBalanceKeyPrefix :: "geth \<Rightarrow> address \<Rightarrow> bytes" where [key_defs]:
  "AddressBalanceKeyPrefix G addr = ''/index/balance/'' @ addrHex G addr @ ''/history/''"

definition BlockCountKey :: "bytes" where [key_defs]:
  "BlockCountKey = keyBlockCount"

definition TransactionCountKey :: "bytes" where [key_defs]:
  "TransactionCountKey = keyTransactionCount"

definition MintEventKey :: "u64 \<Rightarrow> u64 \<Rightarrow> u64 \<Rightarrow> bytes" where [key_defs]:
  "MintEventKey blockNumber txIndex logIndex = prefixSysMint @ padDec 20 (unat blockNumber) @ ''/'' @ showDec (unat txIndex) @ ''/'' @ showDec (unat logIndex)"

definition BurnEventKey :: "u64 \<Rightarrow> u64 \<Rightarrow> u64 \<Rightarrow> bytes" where [key_defs]:
  "BurnEventKey blockNumber txIndex logIndex = prefixSysBurn @ padDec 20 (unat blockNumber) @ ''/'' @ showDec (unat txIndex) @ ''/'' @ showDec (unat logIndex)"

definition MinterConfigEventKey :: "geth \<Rightarrow> address \<Rightarrow> u64 \<Rightarrow> bytes" where [key_defs]:
  "MinterConfigEventKey G minter blockNumber = prefixSysMinterConfig @ addrHex G minter @ ''/'' @ padDec 20 (unat blockNumber)"

definition ValidatorChangeEventKey :: "geth \<Rightarrow> address \<Rightarrow> u64 \<Rightarrow> bytes" where [key_defs]:
  "ValidatorChangeEventKey G validator blockNumber = prefixSysValidator @ addrHex G validator @ ''/'' @ padDec 20 (unat blockNumber)"

definition ProposalKey :: "geth \<Rightarrow> address \<Rightarrow> string \<Rightarrow> bytes" where [key_defs]:
  "ProposalKey G contract proposalId = prefixSysProposal @ addrHex G contract @ ''/'' @ proposalId"

definition ProposalVoteKey :: "geth \<Rightarrow> address \<Rightarrow> string \<Rightarrow> address \<Rightarrow> bytes" where [key_defs]:
  "ProposalVoteKey G contract proposalId voter = prefixSysVote @ addrHex G contract @ ''/'' @ proposalId @ ''/'' @ addrHex G voter"

definition BlacklistEventKey :: "geth \<Rightarrow> address \<Rightarrow> u64 \<Rightarrow> bytes" where [key_defs]:
  "BlacklistEventKey G address blockNumber = prefixSysBlacklist @ addrHex G address @ ''/'' @ padDec 20 (unat blockNumber)"

definition MemberChangeEventKey :: "geth \<Rightarrow> address \<Rightarrow> u64 \<Rightarrow> u64 \<Rightarrow> bytes" where [key_defs]:
  "MemberChangeEventKey G contract blockNumber txIndex = prefixSysMember @ addrHex G contract @ ''/'' @ padDec 20 (unat blockNumber) @ ''/'' @ showDec (unat txIndex)"

definition GasTipUpdateEventKey :: "u64 \<Rightarrow> u64 \<Rightarrow> bytes" where [key_defs]:
  "GasTipUpdateEventKey blockNumber txIndex = prefixSysGasTip @ padDec 20 (unat blockNumber) @ ''/'' @ showDec (unat txIndex)"

definition EmergencyPauseEventKey :: "geth \<Rightarrow> address \<Rightarrow> u64 \<Rightarrow> u64 \<Rightarrow> bytes" where [key_defs]:
  "EmergencyPauseEventKey G contract blockNumber txIndex = prefixSysEmergency @ addrHex G contract @ ''/'' @ padDec 20 (unat blockNumber) @ ''/'' @ showDec (unat txIndex)"

definition DepositMintProposalKey :: "string \<Rightarrow> bytes" where [key_defs]:
  "DepositMintProposalKey proposalId = prefixSysDepositMint @ proposalId"

definition MaxProposalsUpdateEventKey :: "geth \<Rightarrow> address \<Rightarrow> u64 \<Rightarrow> u64 \<Rightarrow> bytes" where [key_defs]:
  "MaxProposalsUpdateEventKey G contract blockNumber txIndex = prefixSysMaxProposals @ addrHex G contract @ ''/'' @ padDec 20 (unat blockNumber) @ ''/'' @ showDec (unat txIndex)"

definition MaxProposalsUpdateEventKeyPrefix :: "geth \<Rightarrow> address \<Rightarrow> bytes" where [key_defs]:
  "MaxProposalsUpdateEventKeyPrefix G contract = prefixSysMaxProposals @ addrHex G contract @ ''/''"

definition ProposalExecutionSkippedEventKey :: "geth \<Rightarrow> address \<Rightarrow> u64 \<Rightarrow> u64 \<Rightarrow> bytes" where [key_defs]:
  "ProposalExecutionSkippedEventKey G contract blockNumber txIndex = prefixSysProposalSkipped @ addrHex G contract @ ''/'' @ padDec 20 (unat blockNumber) @ ''/'' @ showDec (unat txIndex)"

definition ProposalExecutionSkippedEventKeyPrefix :: "geth \<Rightarrow> address \<Rightarrow> bytes" where [key_defs]:
  "ProposalExecutionSkippedEventKeyPrefix G contract = prefixSysProposalSkipped @ addrHex G contract @ ''/''"

definition AuthorizedAccountEventKey :: "geth \<Rightarrow> address \<Rightarrow> u64 \<Rightarrow> u64 \<Rightarrow> bytes" where [key_defs]:
  "AuthorizedAccountEventKey G contract blockNumber txIndex = prefixSysAuthorizedAccounts @ addrHex G contract @ ''/'' @ padDec 20 (unat blockNumber) @ ''/'' @ showDec (unat txIndex)"

definition AuthorizedAccountEventKeyPrefix :: "geth \<Rightarrow> address \<Rightarrow> bytes" where [key_defs]:
  "AuthorizedAccountEventKeyPrefix G contract = prefixSysAuthorizedAccounts @ addrHex G contract @ ''/''"

definition MintMinterIndexKey :: "geth \<Rightarrow> address \<Rightarrow> u64 \<Rightarrow> bytes" where [key_defs]:
  "MintMinterIndexKey G minter blockNumber = prefixIdxMintMinter @ addrHex G minter @ ''/'' @ padDec 20 (unat blockNumber)"

definition BurnBurnerIndexKey :: "geth \<Rightarrow> address \<Rightarrow> u64 \<Rightarrow> bytes" where [key_defs]:
  "BurnBurnerIndexKey G burner blockNumber = prefixIdxBurnBurner @ addrHex G burner @ ''/'' @ padDec 20 (unat blockNumber)"

definition ProposalStatusIndexKey :: "geth \<Rightarrow> address \<Rightarrow> 8 word \<Rightarrow> string \<Rightarrow> bytes" where [key_defs]:
  "ProposalStatusIndexKey G contract status proposalId = prefixIdxProposalStatus @ addrHex G contract @ ''/'' @ showDec (unat status) @ ''/'' @ proposalId"

definition BlacklistActiveIndexKey :: "geth \<Rightarrow> address \<Rightarrow> bytes" where [key_defs]:
  "BlacklistActiveIndexKey G address = prefixIdxBlacklistActive @ addrHex G address"

definition MinterActiveIndexKey :: "geth \<Rightarrow> address \<Rightarrow> bytes" where [key_defs]:
  "MinterActiveIndexKey G address = prefixIdxMinterActive @ addrHex G address"

definition ValidatorActiveIndexKey :: "geth \<Rightarrow> address \<Rightarrow> bytes" where [key_defs]:
  "ValidatorActiveIndexKey G address = prefixIdxValidatorActive @ addrHex G address"

definition TotalSupplyKey :: "bytes" where [key_defs]:
  "TotalSupplyKey = prefixIdxTotalSupply"

definition MintEventKeyPrefix :: "bytes" where [key_defs]:
  "MintEventKeyPrefix = prefixSysMint"

definition BurnEventKeyPrefix :: "bytes" where [key_defs]:
  "BurnEventKeyPrefix = prefixSysBurn"

definition MinterConfigEventKeyPrefix :: "geth \<Rightarrow> address \<Rightarrow> bytes" where [key_defs]:
  "MinterConfigEventKeyPrefix G minter = prefixSysMinterConfig @ addrHex G minter @ ''/''"

definition ValidatorChangeEventKeyPrefix :: "geth \<Rightarrow> address \<Rightarrow> bytes" where [key_defs]:
  "ValidatorChangeEventKeyPrefix G validator = prefixSysValidator @ addrHex G validator @ ''/''"

definition ProposalKeyPrefix :: "geth \<Rightarrow> address \<Rightarrow> bytes" where [key_defs]:
  "ProposalKeyPrefix G contract = prefixSysProposal @ addrHex G contract @ ''/''"

definition ProposalVoteKeyPrefix :: "geth \<Rightarrow> address \<Rightarrow> string \<Rightarrow> bytes" where [key_defs]:
  "ProposalVoteKeyPrefix G contract proposalId = prefixSysVote @ addrHex G contract @ ''/'' @ proposalId @ ''/''"

definition BlacklistEventKeyPrefix :: "geth \<Rightarrow> address \<Rightarrow> bytes" where [key_defs]:
  "BlacklistEventKeyPrefix G address = prefixSysBlacklist @ addrHex G address @ ''/''"

definition MemberChangeEventKeyPrefix :: "geth \<Rightarrow> address \<Rightarrow> bytes" where [key_defs]:
  "MemberChangeEventKeyPrefix G contract = prefixSysMember @ addrHex G contract @ ''/''"

definition GasTipUpdateEventKeyPrefix :: "bytes" where [key_defs]:
  "GasTipUpdateEventKeyPrefix = prefixSysGasTip"

definition EmergencyPauseEventKeyPrefix :: "geth \<Rightarrow> address \<Rightarrow> bytes" where [key_defs]:
  "EmergencyPauseEventKeyPrefix G contract = prefixSysEmergency @ addrHex G contract @ ''/''"

definition MintMinterIndexKeyPrefix :: "geth \<Rightarrow> address \<Rightarrow> bytes" where [key_defs]:
  "MintMinterIndexKeyPrefix G minter = prefixIdxMintMinter @ addrHex G minter @ ''/''"

definition BurnBurnerIndexKeyPrefix :: "geth \<Rightarrow> address \<Rightarrow> bytes" where [key_defs]:
  "BurnBurnerIndexKeyPrefix G burner = prefixIdxBurnBurner @ addrHex G burner @ ''/''"

definition ProposalStatusIndexKeyPrefix :: "geth \<Rightarrow> address \<Rightarrow> 8 word \<Rightarrow> bytes" where [key_defs]:
  "ProposalStatusIndexKeyPrefix G contract status = prefixIdxProposalStatus @ addrHex G contract @ ''/'' @ showDec (unat status) @ ''/''"

definition BlacklistActiveIndexKeyPrefix :: "bytes" where [key_defs]:
  "BlacklistActiveIndexKeyPrefix = prefixIdxBlacklistActive"

definition MinterActiveIndexKeyPrefix :: "bytes" where [key_defs]:
  "MinterActiveIndexKeyPrefix = prefixIdxMinterActive"

definition ValidatorActiveIndexKeyPrefix :: "bytes" where [key_defs]:
  "ValidatorActiveIndexKeyPrefix = prefixIdxValidatorActive"

definition WBFTBlockExtraKey :: "u64 \<Rightarrow> bytes" where [key_defs]:
  "WBFTBlockExtraKey blockNumber = prefixWBFTExtra @ padDec 20 (unat blockNumber)"

definition WBFTEpochKey :: "u64 \<Rightarrow> bytes" where [key_defs]:
  "WBFTEpochKey epochNumber = prefixWBFTEpoch @ padDec 20 (unat epochNumber)"

definition LatestEpochKey :: "bytes" where [key_defs]:
  "LatestEpochKey = keyLatestEpoch"

definition WBFTValidatorStatsKey :: "geth \<Rightarrow> address \<Rightarrow> u64 \<Rightarrow> u64 \<Rightarrow> bytes" where [key_defs]:
  "WBFTValidatorStatsKey G validator fromBlock toBlock = prefixWBFTValidatorStats @ addrHex G validator @ ''/'' @ padDec 20 (unat fromBlock) @ ''_'' @ padDec 20 (unat toBlock)"

definition WBFTValidatorActivityKey :: "geth \<Rightarrow> address \<Rightarrow> u64 \<Rightarrow> bytes" where [key_defs]:
  "WBFTValidatorActivityKey G validator blockNumber = prefixWBFTValidatorActivity @ addrHex G validator @ ''/'' @ padDec 20 (unat blockNumber)"

definition WBFTSignerPrepareIndexKey :: "geth \<Rightarrow> u64 \<Rightarrow> address \<Rightarrow> bytes" where [key_defs]:
  "WBFTSignerPrepareIndexKey G blockNumber validator = prefixIdxWBFTSignerPrepare @ padDec 20 (unat blockNumber) @ ''/'' @ addrHex G validator"

definition WBFTSignerCommitIndexKey :: "geth \<Rightarrow> u64 \<Rightarrow> address \<Rightarrow> bytes" where [key_defs]:
  "WBFTSignerCommitIndexKey G blockNumber validator = prefixIdxWBFTSignerCommit @ padDec 20 (unat blockNumber) @ ''/'' @ addrHex G validator"

definition WBFTBlockExtraKeyPrefix :: "bytes" where [key_defs]:
  "WBFTBlockExtraKeyPrefix = prefixWBFTExtra"

definition WBFTEpochKeyPrefix :: "bytes" where [key_defs]:
  "WBFTEpochKeyPrefix = prefixWBFTEpoch"

definition WBFTValidatorStatsKeyPrefix :: "geth \<Rightarrow> address \<Rightarrow> bytes" where [key_defs]:
  "WBFTValidatorStatsKeyPrefix G validator = prefixWBFTValidatorStats @ addrHex G validator @ ''/''"

definition WBFTValidatorActivityKeyPrefix :: "geth \<Rightarrow> address \<Rightarrow> bytes" where [key_defs]:
  "WBFTValidatorActivityKeyPrefix G validator = prefixWBFTValidatorActivity @ addrHex G validator @ ''/''"

definition WBFTValidatorActivityAllKeyPrefix :: "bytes" where [key_defs]:
  "WBFTValidatorActivityAllKeyPrefix = prefixWBFTValidatorActivity"

definition WBFTSignerPrepareIndexKeyPrefix :: "u64 \<Rightarrow> bytes" where [key_defs]:
  "WBFTSignerPrepareIndexKeyPrefix blockNumber = prefixIdxWBFTSignerPrepare @ padDec 20 (unat blockNumber) @ ''/''"

definition WBFTSignerCommitIndexKeyPrefix :: "u64 \<Rightarrow> bytes" where [key_defs]:
  "WBFTSignerCommitIndexKeyPrefix blockNumber = prefixIdxWBFTSignerCommit @ padDec 20 (unat blockNumber) @ ''/''"

definition ContractCreationKey :: "geth \<Rightarrow> address \<Rightarrow> bytes" where [key_defs]:
  "ContractCreationKey G contractAddress = prefixContractCreation @ addrHex G contractAddress"

definition ContractCreatorIndexKey :: "geth \<Rightarrow> address \<Rightarrow> u64 \<Rightarrow> hash \<Rightarrow> bytes" where [key_defs]:
  "ContractCreatorIndexKey G creator blockNumber txHash = prefixIdxContractCreator @ addrHex G creator @ ''/'' @ padDec 20 (unat blockNumber) @ ''/'' @ hashHex G txHash"

definition ContractBlockIndexKey :: "geth \<Rightarrow> u64 \<Rightarrow> address \<Rightarrow> bytes" where [key_defs]:
  "ContractBlockIndexKey G blockNumber contractAddress = prefixIdxContractBlock @ padDec 20 (unat blockNumber) @ ''/'' @ addrHex G contractAddress"

definition ContractCreatorIndexKeyPrefix :: "geth \<Rightarrow> address \<Rightarrow> bytes" where [key_defs]:
  "ContractCreatorIndexKeyPrefix G creator = prefixIdxContractCreator @ addrHex G creator @ ''/''"

text \<open>\<^verbatim>\<open>%0wd\<close> of a signed number: the sign counts for the width.\<close>

definition padDecInt :: "nat \<Rightarrow> int \<Rightarrow> string" where
  "padDecInt w n = (if n < 0 then ''-'' @ padDec (w - 1) (nat (- n)) else padDec w (nat n))"

definition InternalTransactionKey :: "geth \<Rightarrow> hash \<Rightarrow> int \<Rightarrow> bytes" where [key_defs]:
  "InternalTransactionKey G txHash index = prefixInternalTx @ hashHex G txHash @ ''/'' @ padDecInt 6 index"

definition InternalTransactionKeyPrefix :: "geth \<Rightarrow> hash \<Rightarrow> bytes" where [key_defs]:
  "InternalTransactionKeyPrefix G txHash = prefixInternalTx @ hashHex G txHash @ ''/''"

definition InternalTxFromIndexKey :: "geth \<Rightarrow> address \<Rightarrow> u64 \<Rightarrow> hash \<Rightarrow> bytes" where [key_defs]:
  "InternalTxFromIndexKey G fromA blockNumber txHash = prefixIdxInternalFrom @ addrHex G fromA @ ''/'' @ padDec 20 (unat blockNumber) @ ''/'' @ hashHex G txHash"

definition InternalTxToIndexKey :: "geth \<Rightarrow> address \<Rightarrow> u64 \<Rightarrow> hash \<Rightarrow> bytes" where [key_defs]:
  "InternalTxToIndexKey G toA blockNumber txHash = prefixIdxInternalTo @ addrHex G toA @ ''/'' @ padDec 20 (unat blockNumber) @ ''/'' @ hashHex G txHash"

definition InternalTxBlockIndexKey :: "geth \<Rightarrow> u64 \<Rightarrow> hash \<Rightarrow> bytes" where [key_defs]:
  "InternalTxBlockIndexKey G blockNumber txHash = prefixIdxInternalBlock @ padDec 20 (unat blockNumber) @ ''/'' @ hashHex G txHash"

definition InternalTxFromIndexKeyPrefix :: "geth \<Rightarrow> address \<Rightarrow> bytes" where [key_defs]:
  "InternalTxFromIndexKeyPrefix G fromA = prefixIdxInternalFrom @ addrHex G fromA @ ''/''"

definition InternalTxToIndexKeyPrefix :: "geth \<Rightarrow> address \<Rightarrow> bytes" where [key_defs]:
  "InternalTxToIndexKeyPrefix G toA = prefixIdxInternalTo @ addrHex G toA @ ''/''"

definition ERC20TransferKey :: "geth \<Rightarrow> hash \<Rightarrow> u64 \<Rightarrow> bytes" where [key_defs]:
  "ERC20TransferKey G txHash logIndex = prefixERC20Transfer @ hashHex G txHash @ ''/'' @ padDec 6 (unat logIndex)"

definition ERC20TokenIndexKey :: "geth \<Rightarrow> address \<Rightarrow> u64 \<Rightarrow> u64 \<Rightarrow> bytes" where [key_defs]:
  "ERC20TokenIndexKey G tokenAddress blockNumber logIndex = prefixIdxERC20Token @ addrHex G tokenAddress @ ''/'' @ padDec 20 (unat blockNumber) @ ''/'' @ padDec 6 (unat logIndex)"

definition ERC20FromIndexKey :: "geth \<Rightarrow> address \<Rightarrow> u64 \<Rightarrow> u64 \<Rightarrow> bytes" where [key_defs]:
  "ERC20FromIndexKey G fromA blockNumber logIndex = prefixIdxERC20From @ addrHex G fromA @ ''/'' @ padDec 20 (unat blockNumber) @ ''/'' @ padDec 6 (unat logIndex)"

definition ERC20ToIndexKey :: "geth \<Rightarrow> address \<Rightarrow> u64 \<Rightarrow> u64 \<Rightarrow> bytes" where [key_defs]:
  "ERC20ToIndexKey G toA blockNumber logIndex = prefixIdxERC20To @ addrHex G toA @ ''/'' @ padDec 20 (unat blockNumber) @ ''/'' @ padDec 6 (unat logIndex)"

definition ERC20TokenIndexKeyPrefix :: "geth \<Rightarrow> address \<Rightarrow> bytes" where [key_defs]:
  "ERC20TokenIndexKeyPrefix G tokenAddress = prefixIdxERC20Token @ addrHex G tokenAddress @ ''/''"

definition ERC20FromIndexKeyPrefix :: "geth \<Rightarrow> address \<Rightarrow> bytes" where [key_defs]:
  "ERC20FromIndexKeyPrefix G fromA = prefixIdxERC20From @ addrHex G fromA @ ''/''"

definition ERC20ToIndexKeyPrefix :: "geth \<Rightarrow> address \<Rightarrow> bytes" where [key_defs]:
  "ERC20ToIndexKeyPrefix G toA = prefixIdxERC20To @ addrHex G toA @ ''/''"

definition ERC721TransferKey :: "geth \<Rightarrow> hash \<Rightarrow> u64 \<Rightarrow> bytes" where [key_defs]:
  "ERC721TransferKey G txHash logIndex = prefixERC721Transfer @ hashHex G txHash @ ''/'' @ padDec 6 (unat logIndex)"

definition ERC721TokenIndexKey :: "geth \<Rightarrow> address \<Rightarrow> u64 \<Rightarrow> u64 \<Rightarrow> bytes" where [key_defs]:
  "ERC721TokenIndexKey G tokenAddress blockNumber logIndex = prefixIdxERC721Token @ addrHex G tokenAddress @ ''/'' @ padDec 20 (unat blockNumber) @ ''/'' @ padDec 6 (unat logIndex)"

definition ERC721FromIndexKey :: "geth \<Rightarrow> address \<Rightarrow> u64 \<Rightarrow> u64 \<Rightarrow> bytes" where [key_defs]:
  "ERC721FromIndexKey G fromA blockNumber logIndex = prefixIdxERC721From @ addrHex G fromA @ ''/'' @ padDec 20 (unat blockNumber) @ ''/'' @ padDec 6 (unat logIndex)"

definition ERC721ToIndexKey :: "geth \<Rightarrow> address \<Rightarrow> u64 \<Rightarrow> u64 \<Rightarrow> bytes" where [key_defs]:
  "ERC721ToIndexKey G toA blockNumber logIndex = prefixIdxERC721To @ addrHex G toA @ ''/'' @ padDec 20 (unat blockNumber) @ ''/'' @ padDec 6 (unat logIndex)"

definition ERC721TokenOwnerKey :: "geth \<Rightarrow> address \<Rightarrow> string \<Rightarrow> bytes" where [key_defs]:
  "ERC721TokenOwnerKey G tokenAddress tokenId = prefixIdxERC721TokenOwner @ addrHex G tokenAddress @ ''/'' @ tokenId"

definition ERC721TokenIndexKeyPrefix :: "geth \<Rightarrow> address \<Rightarrow> bytes" where [key_defs]:
  "ERC721TokenIndexKeyPrefix G tokenAddress = prefixIdxERC721Token @ addrHex G tokenAddress @ ''/''"

definition ERC721FromIndexKeyPrefix :: "geth \<Rightarrow> address \<Rightarrow> bytes" where [key_defs]:
  "ERC721FromIndexKeyPrefix G fromA = prefixIdxERC721From @ addrHex G fromA @ ''/''"

definition ERC721ToIndexKeyPrefix :: "geth \<Rightarrow> address \<Rightarrow> bytes" where [key_defs]:
  "ERC721ToIndexKeyPrefix G toA = prefixIdxERC721To @ addrHex G toA @ ''/''"

definition ERC721OwnerIndexKey :: "geth \<Rightarrow> address \<Rightarrow> address \<Rightarrow> string \<Rightarrow> bytes" where [key_defs]:
  "ERC721OwnerIndexKey G owner contractAddress tokenId = prefixIdxERC721Owner @ addrHex G owner @ ''/'' @ addrHex G contractAddress @ ''/'' @ tokenId"

definition ERC721OwnerIndexKeyPrefix :: "geth \<Rightarrow> address \<Rightarrow> bytes" where [key_defs]:
  "ERC721OwnerIndexKeyPrefix G owner = prefixIdxERC721Owner @ addrHex G owner @ ''/''"

definition LogKey :: "u64 \<Rightarrow> u64 \<Rightarrow> u64 \<Rightarrow> bytes" where [key_defs]:
  "LogKey blockNumber txIndex logIndex = prefixLogs @ padDec 20 (unat blockNumber) @ ''/'' @ padDec 6 (unat txIndex) @ ''/'' @ padDec 6 (unat logIndex)"

definition LogKeyPrefix :: "bytes" where [key_defs]:
  "LogKeyPrefix = prefixLogs"

definition LogBlockKeyPrefix :: "u64 \<Rightarrow> bytes" where [key_defs]:
  "LogBlockKeyPrefix blockNumber = prefixLogs @ padDec 20 (unat blockNumber) @ ''/''"

definition LogAddressIndexKey :: "geth \<Rightarrow> address \<Rightarrow> u64 \<Rightarrow> u64 \<Rightarrow> u64 \<Rightarrow> bytes" where [key_defs]:
  "LogAddressIndexKey G address blockNumber txIndex logIndex = prefixIdxLogsAddr @ addrHex G address @ ''/'' @ padDec 20 (unat blockNumber) @ ''/'' @ padDec 6 (unat txIndex) @ ''/'' @ padDec 6 (unat logIndex)"

definition LogAddressIndexKeyPrefix :: "geth \<Rightarrow> address \<Rightarrow> bytes" where [key_defs]:
  "LogAddressIndexKeyPrefix G address = prefixIdxLogsAddr @ addrHex G address @ ''/''"

definition LogTopic0IndexKey :: "geth \<Rightarrow> hash \<Rightarrow> u64 \<Rightarrow> u64 \<Rightarrow> u64 \<Rightarrow> bytes" where [key_defs]:
  "LogTopic0IndexKey G topic blockNumber txIndex logIndex = prefixIdxLogsTopic0 @ hashHex G topic @ ''/'' @ padDec 20 (unat blockNumber) @ ''/'' @ padDec 6 (unat txIndex) @ ''/'' @ padDec 6 (unat logIndex)"

definition LogTopic0IndexKeyPrefix :: "geth \<Rightarrow> hash \<Rightarrow> bytes" where [key_defs]:
  "LogTopic0IndexKeyPrefix G topic = prefixIdxLogsTopic0 @ hashHex G topic @ ''/''"

definition LogTopic1IndexKey :: "geth \<Rightarrow> hash \<Rightarrow> u64 \<Rightarrow> u64 \<Rightarrow> u64 \<Rightarrow> bytes" where [key_defs]:
  "LogTopic1IndexKey G topic blockNumber txIndex logIndex = prefixIdxLogsTopic1 @ hashHex G topic @ ''/'' @ padDec 20 (unat blockNumber) @ ''/'' @ padDec 6 (unat txIndex) @ ''/'' @ padDec 6 (unat logIndex)"

definition LogTopic1IndexKeyPrefix :: "geth \<Rightarrow> hash \<Rightarrow> bytes" where [key_defs]:
  "LogTopic1IndexKeyPrefix G topic = prefixIdxLogsTopic1 @ hashHex G topic @ ''/''"

definition LogTopic2IndexKey :: "geth \<Rightarrow> hash \<Rightarrow> u64 \<Rightarrow> u64 \<Rightarrow> u64 \<Rightarrow> bytes" where [key_defs]:
  "LogTopic2IndexKey G topic blockNumber txIndex logIndex = prefixIdxLogsTopic2 @ hashHex G topic @ ''/'' @ padDec 20 (unat blockNumber) @ ''/'' @ padDec 6 (unat txIndex) @ ''/'' @ padDec 6 (unat logIndex)"

definition LogTopic2IndexKeyPrefix :: "geth \<Rightarrow> hash \<Rightarrow> bytes" where [key_defs]:
  "LogTopic2IndexKeyPrefix G topic = prefixIdxLogsTopic2 @ hashHex G topic @ ''/''"

definition LogTopic3IndexKey :: "geth \<Rightarrow> hash \<Rightarrow> u64 \<Rightarrow> u64 \<Rightarrow> u64 \<Rightarrow> bytes" where [key_defs]:
  "LogTopic3IndexKey G topic blockNumber txIndex logIndex = prefixIdxLogsTopic3 @ hashHex G topic @ ''/'' @ padDec 20 (unat blockNumber) @ ''/'' @ padDec 6 (unat txIndex) @ ''/'' @ padDec 6 (unat logIndex)"

definition LogTopic3IndexKeyPrefix :: "geth \<Rightarrow> hash \<Rightarrow> bytes" where [key_defs]:
  "LogTopic3IndexKeyPrefix G topic = prefixIdxLogsTopic3 @ hashHex G topic @ ''/''"

definition LogBlockIndexKey :: "u64 \<Rightarrow> u64 \<Rightarrow> u64 \<Rightarrow> bytes" where [key_defs]:
  "LogBlockIndexKey blockNumber txIndex logIndex = prefixIdxLogsBlock @ padDec 20 (unat blockNumber) @ ''/'' @ padDec 6 (unat txIndex) @ ''/'' @ padDec 6 (unat logIndex)"

definition LogBlockIndexKeyPrefix :: "u64 \<Rightarrow> bytes" where [key_defs]:
  "LogBlockIndexKeyPrefix blockNumber = prefixIdxLogsBlock @ padDec 20 (unat blockNumber) @ ''/''"

definition LogBlockRangeIndexKeyPrefix :: "u64 \<Rightarrow> bytes" where [key_defs]:
  "LogBlockRangeIndexKeyPrefix fromBlock = prefixIdxLogsBlock @ padDec 20 (unat fromBlock) @ ''/''"

definition SetCodeTxIndexKeyPrefix :: "geth \<Rightarrow> hash \<Rightarrow> bytes" where [key_defs]:
  "SetCodeTxIndexKeyPrefix G txHash = prefixIdxSetCodeTx @ hashHex G txHash @ ''/''"

definition TokenHolderKey :: "geth \<Rightarrow> address \<Rightarrow> address \<Rightarrow> bytes" where [key_defs]:
  "TokenHolderKey G token holder = prefixTokenHolder @ addrHex G token @ ''/'' @ addrHex G holder"

definition TokenHolderKeyPrefix :: "geth \<Rightarrow> address \<Rightarrow> bytes" where [key_defs]:
  "TokenHolderKeyPrefix G token = prefixTokenHolder @ addrHex G token @ ''/''"

definition TokenHolderStatsKey :: "geth \<Rightarrow> address \<Rightarrow> bytes" where [key_defs]:
  "TokenHolderStatsKey G token = prefixTokenHolderStats @ addrHex G token"

definition TokenHolderByTokenIndexPrefix :: "geth \<Rightarrow> address \<Rightarrow> bytes" where [key_defs]:
  "TokenHolderByTokenIndexPrefix G token = prefixIdxTokenHolderByToken @ addrHex G token @ ''/''"

definition TokenHolderByHolderIndexKey :: "geth \<Rightarrow> address \<Rightarrow> address \<Rightarrow> bytes" where [key_defs]:
  "TokenHolderByHolderIndexKey G holder token = prefixIdxTokenHolderByHolder @ addrHex G holder @ ''/'' @ addrHex G token"

definition TokenHolderByHolderIndexPrefix :: "geth \<Rightarrow> address \<Rightarrow> bytes" where [key_defs]:
  "TokenHolderByHolderIndexPrefix G holder = prefixIdxTokenHolderByHolder @ addrHex G holder @ ''/''"

text \<open>
  The holder index sorts by balance, largest first: the key carries the balance subtracted from
  the largest 256-bit number, as 64 hexadecimal digits.
\<close>

definition maxUint256 :: int where
  "maxUint256 = 2 ^ 256 - 1"

text \<open>\<^verbatim>\<open>fmt.Sprintf("%064x", n)\<close> of a \<^verbatim>\<open>big.Int\<close>: a minus sign takes one place of the width.\<close>

definition padHexInt :: "nat \<Rightarrow> int \<Rightarrow> string" where
  "padHexInt w n = (if n < 0 then ''-'' @ padHex (w - 1) (nat (- n)) else padHex w (nat n))"

definition TokenHolderByTokenIndexKey :: "geth \<Rightarrow> address \<Rightarrow> address \<Rightarrow> int \<Rightarrow> bytes" where [key_defs]:
  "TokenHolderByTokenIndexKey G token holder balance =
     (let invertedBalance = maxUint256 - balance;
          balanceHex = padHexInt 64 invertedBalance
      in prefixIdxTokenHolderByToken @ addrHex G token @ ''/'' @ balanceHex @ ''/'' @ addrHex G holder)"

section \<open>Numbers and parsers\<close>

definition EncodeUint64 :: "u64 \<Rightarrow> bytes" where
  "EncodeUint64 n = fixedDigits byteChar 256 8 (unat n)"

datatype schema_error =
    InvalidUint64Length nat
  | InvalidBlockKeyPrefix
  | MissingHeight
  | InvalidBlockKey
  | InvalidTransactionKeyPrefix
  | InvalidTransactionKeyFormat
  | InvalidTransactionKeyHeight
  | InvalidTransactionKeyIndex

definition DecodeUint64 :: "bytes \<Rightarrow> schema_error + u64" where
  "DecodeUint64 data =
     (if length data \<noteq> 8 then Inl (InvalidUint64Length (length data))
      else Inr (word_of_nat (readDigits byteVal 256 0 data)))"

definition ParseBlockKey :: "bytes \<Rightarrow> schema_error + u64" where
  "ParseBlockKey key =
     (if \<not> prefix prefixBlocks key then Inl InvalidBlockKeyPrefix
      else let heightStr = drop (length prefixBlocks) key in
        if heightStr = [] then Inl MissingHeight
        else case ParseUint heightStr of
            None \<Rightarrow> Inl InvalidBlockKey
          | Some height \<Rightarrow> Inr height)"

definition ParseTransactionKey :: "bytes \<Rightarrow> schema_error + (u64 \<times> u64)" where
  "ParseTransactionKey key =
     (if \<not> prefix prefixTxs key then Inl InvalidTransactionKeyPrefix
      else case splitOn (CHR ''/'') (drop (length prefixTxs) key) of
          [s0, s1] \<Rightarrow>
            (case ParseUint s0 of
               None \<Rightarrow> Inl InvalidTransactionKeyHeight
             | Some height \<Rightarrow>
                 (case ParseUint s1 of
                    None \<Rightarrow> Inl InvalidTransactionKeyIndex
                  | Some txIndex \<Rightarrow> Inr (height, txIndex)))
        | _ \<Rightarrow> Inl InvalidTransactionKeyFormat)"

definition BlockKeyRange :: "u64 \<Rightarrow> u64 \<Rightarrow> bytes \<times> bytes" where
  "BlockKeyRange startHeight endHeight = (BlockKey startHeight, BlockKey (endHeight + 1))"

definition HasPrefix :: "bytes \<Rightarrow> bytes \<Rightarrow> bool" where
  "HasPrefix key p = prefix p key"

definition IsMetadataKey :: "bytes \<Rightarrow> bool" where
  "IsMetadataKey key = HasPrefix key prefixMeta"

definition IsDataKey :: "bytes \<Rightarrow> bool" where
  "IsDataKey key = HasPrefix key prefixData"

definition IsIndexKey :: "bytes \<Rightarrow> bool" where
  "IsIndexKey key = HasPrefix key prefixIndex"

section \<open>Prefix bounds\<close>

text \<open>
  The loops run from the last byte down; the first argument is the number of bytes left to
  inspect. \<open>None\<close> is the nil slice: a scan without an upper bound.
\<close>

fun prefixUpperBound_loop :: "nat \<Rightarrow> bytes \<Rightarrow> bytes option" where
  "prefixUpperBound_loop 0 upper = None"
| "prefixUpperBound_loop (Suc i) upper =
     (if byteVal (upper ! i) < 255
      then Some (take (Suc i) (upper[i := byteChar (byteVal (upper ! i) + 1)]))
      else prefixUpperBound_loop i upper)"

definition prefixUpperBound :: "bytes \<Rightarrow> bytes option" where
  "prefixUpperBound p = (if p = [] then None else prefixUpperBound_loop (length p) p)"

fun incrementPrefix_loop :: "nat \<Rightarrow> bytes \<Rightarrow> bytes" where
  "incrementPrefix_loop 0 result = result @ [byteChar 0]"
| "incrementPrefix_loop (Suc i) result =
     (if byteVal (result ! i) < 255
      then result[i := byteChar (byteVal (result ! i) + 1)]
      else incrementPrefix_loop i (result[i := byteChar 0]))"

definition incrementPrefix :: "bytes \<Rightarrow> bytes option" where
  "incrementPrefix p = (if p = [] then None else Some (incrementPrefix_loop (length p) p))"

text \<open>The keys a scan with these bounds visits: lower bound included, upper bound excluded.\<close>

definition inRange :: "bytes option \<Rightarrow> bytes option \<Rightarrow> bytes \<Rightarrow> bool" where
  "inRange lo hi k \<longleftrightarrow>
     (case lo of None \<Rightarrow> True | Some l \<Rightarrow> l \<le> k) \<and> (case hi of None \<Rightarrow> True | Some h \<Rightarrow> k < h)"

section \<open>Round trips\<close>

lemma length_EncodeUint64 [simp]: "length (EncodeUint64 n) = 8"
  by (simp add: EncodeUint64_def)

lemma DecodeUint64_EncodeUint64 [simp]: "DecodeUint64 (EncodeUint64 n) = Inr n"
  using unat_u64_less [of n]
  by (simp add: DecodeUint64_def EncodeUint64_def readDigits_fixedDigits)

lemma EncodeUint64_inject [simp]: "EncodeUint64 n = EncodeUint64 m \<longleftrightarrow> n = m"
  by (metis DecodeUint64_EncodeUint64 sum.inject(2))

lemma BlockKey_inject [simp]: "BlockKey h = BlockKey h' \<longleftrightarrow> h = h'"
  by (simp add: key_defs word_unat_eq_iff)

lemma TransactionKey_inject [simp]:
  "TransactionKey h i = TransactionKey h' i' \<longleftrightarrow> h = h' \<and> i = i'"
  by (simp add: TransactionKey_def sep_append_inject word_unat_eq_iff)

text \<open>Recursive form of the prefix bound, from the front of the prefix.\<close>

lemma prefixUpperBound_loop_Cons:
  "i \<le> length xs \<Longrightarrow> prefixUpperBound_loop (Suc i) (x # xs) =
     (case prefixUpperBound_loop i xs of
        Some u \<Rightarrow> Some (x # u)
      | None \<Rightarrow> if byteVal x < 255 then Some [byteChar (byteVal x + 1)] else None)"
  by (induction i) auto

lemma prefixUpperBound_Cons:
  "prefixUpperBound (x # xs) =
     (case prefixUpperBound xs of
        Some u \<Rightarrow> Some (x # u)
      | None \<Rightarrow> if byteVal x < 255 then Some [byteChar (byteVal x + 1)] else None)"
  using prefixUpperBound_loop_Cons [of "length xs" xs x] by (simp add: prefixUpperBound_def)

lemma prefixUpperBound_Nil [simp]: "prefixUpperBound [] = None"
  by (simp add: prefixUpperBound_def)

lemma char_le_iff: "(a \<le> b) \<longleftrightarrow> byteVal a \<le> byteVal b"
  by (metis char_less_iff linorder_not_le)

lemma char_less_succ: "byteVal x < 255 \<Longrightarrow> (c < byteChar (Suc (byteVal x))) \<longleftrightarrow> c \<le> x"
  by (simp add: char_less_iff char_le_iff less_Suc_eq_le)

lemma char_max: "\<not> byteVal x < 255 \<Longrightarrow> \<not> x < c"
  using byteVal_less [of c] by (simp add: char_less_iff del: byteVal_less)

lemma inRange_prefixUpperBound: "inRange (Some p) (prefixUpperBound p) k \<longleftrightarrow> prefix p k"
proof (induction p arbitrary: k)
  case Nil
  then show ?case by (simp add: inRange_def)
next
  case (Cons x xs)
  show ?case
  proof (cases k)
    case Nil
    then show ?thesis by (simp add: inRange_def)
  next
    case (Cons c cs)
    have IH: "inRange (Some xs) (prefixUpperBound xs) cs \<longleftrightarrow> prefix xs cs" by (rule Cons.IH)
    show ?thesis
      using IH
      by (auto simp: Cons inRange_def prefixUpperBound_Cons char_less_succ char_max
          split: option.splits if_splits)
  qed
qed

lemma prefixUpperBound_loop_last:
  "byteVal c < 255 \<Longrightarrow> prefixUpperBound_loop (Suc (length q)) (q @ [c])
     = Some (q @ [byteChar (byteVal c + 1)])"
  by simp

lemma incrementPrefix_eq_prefixUpperBound:
  "p \<noteq> [] \<Longrightarrow> byteVal (last p) < 255 \<Longrightarrow> incrementPrefix p = prefixUpperBound p"
  by (cases p rule: rev_cases)
     (simp_all add: incrementPrefix_def prefixUpperBound_def)

section \<open>Order of the padded families\<close>

lemma slash_less_iff [simp]:
  "length a = length b \<Longrightarrow>
   (a @ CHR ''/'' # x < b @ CHR ''/'' # y) \<longleftrightarrow> a < b \<or> a = b \<and> x < (y :: string)"
  by (simp add: less_list_append_eqlen)

lemma padDec6_less:
  "unat (v :: u64) < 10 ^ 6 \<Longrightarrow> unat (w :: u64) < 10 ^ 6 \<Longrightarrow>
   (padDec 6 (unat v) < padDec 6 (unat w)) \<longleftrightarrow> v < w"
  using padBase_less_iff [of 10 6 "unat v" "unat w"] by (simp add: word_less_nat_alt)

lemma padDec6_inject:
  "unat (v :: u64) < 10 ^ 6 \<Longrightarrow> unat (w :: u64) < 10 ^ 6 \<Longrightarrow>
   padDec 6 (unat v) = padDec 6 (unat w) \<longleftrightarrow> v = w"
  using padBase_inj [of 10 6 "unat v" "unat w"] by (simp add: word_unat_eq_iff)

lemma length_padDec6: "unat (v :: u64) < 10 ^ 6 \<Longrightarrow> length (padDec 6 (unat v)) = 6"
  using length_padBase [of 10 6 "unat v"] by simp

lemmas padDec6 = padDec6_less padDec6_inject length_padDec6

lemma padHexInt64_less:
  assumes "0 \<le> a" "a \<le> maxUint256" "0 \<le> b" "b \<le> maxUint256"
  shows "(padHexInt 64 a < padHexInt 64 b) \<longleftrightarrow> a < b"
proof -
  have "nat a < 16 ^ 64" "nat b < 16 ^ 64"
    using assms by (auto simp: maxUint256_def)
  then show ?thesis
    using assms padBase_less_iff [of 16 64 "nat a" "nat b"]
    by (auto simp: padHexInt_def nat_less_eq_zless)
qed

lemma length_padHexInt64: "0 \<le> a \<Longrightarrow> a \<le> maxUint256 \<Longrightarrow> length (padHexInt 64 a) = 64"
  using length_padBase [of 16 64 "nat a"] by (simp add: padHexInt_def maxUint256_def)

section \<open>Properties\<close>

text \<open>
  C32: a prefix scan is exact. The keys between a prefix and the bound
  \<open>prefixUpperBound\<close> computes for it are exactly the keys that have the prefix, for every
  prefix, the ones that end in 0xff bytes and the empty one included.
\<close>

theorem prefix_scan_exact: "inRange (Some p) (prefixUpperBound p) k \<longleftrightarrow> HasPrefix k p"
  by (simp add: inRange_prefixUpperBound HasPrefix_def)

text \<open>
  Parsing a transaction key gives back the height and the index it was built from, for all
  64-bit values, and parsing a block key gives back its height.
\<close>

theorem parse_keys_roundtrip:
  "ParseTransactionKey (TransactionKey h i) = Inr (h, i) \<and> ParseBlockKey (BlockKey h) = Inr h"
  by (simp add: ParseTransactionKey_def TransactionKey_def ParseBlockKey_def BlockKey_def
      prefixTxs_def prefixBlocks_def splitOn_append splitOn_no_sep)

text \<open>
  The index of blocks by time sorts by timestamp first and by height second, over the whole
  64-bit range of both: the byte order of two keys is the lexicographic order of the pairs.
\<close>

theorem timestamp_key_order:
  "BlockTimestampKey t h < BlockTimestampKey t' h' \<longleftrightarrow> t < t' \<or> t = t' \<and> h < h'"
  by (simp add: BlockTimestampKey_def less_list_append_eqlen)

text \<open>
  Logs sort by block, then transaction, then log index, as long as both indexes stay within
  the six digits the key reserves for them.
\<close>

theorem log_key_order:
  assumes "unat ti < 10 ^ 6" "unat ti' < 10 ^ 6" "unat li < 10 ^ 6" "unat li' < 10 ^ 6"
  shows "LogKey b ti li < LogKey b' ti' li' \<longleftrightarrow>
    b < b' \<or> b = b' \<and> (ti < ti' \<or> ti = ti' \<and> li < li')"
  using assms by (simp add: LogKey_def padDec6)

theorem log_key_order_witness:
  "unat (7 :: u64) < 10 ^ 6 \<and> unat (10 :: u64) < 10 ^ 6 \<and> LogKey 5 7 10 < LogKey 5 10 7"
proof -
  have h: "unat (7 :: u64) < 10 ^ 6" "unat (10 :: u64) < 10 ^ 6" by simp_all
  then show ?thesis using log_key_order [OF h(1) h(2) h(2) h(1), of 5 5] by simp
qed

text \<open>
  The holder index of a token sorts by balance, the largest first: of two holders of one
  token with balances that fit 256 bits, the one with more tokens has the smaller key.
\<close>

theorem holder_index_descending:
  assumes "0 \<le> b1" "b1 \<le> maxUint256" "0 \<le> b2" "b2 \<le> maxUint256" "b2 < b1"
  shows "TokenHolderByTokenIndexKey G token h1 b1 < TokenHolderByTokenIndexKey G token h2 b2"
proof -
  have "padHexInt 64 (maxUint256 - b1) < padHexInt 64 (maxUint256 - b2)"
    using assms by (simp add: padHexInt64_less)
  moreover have "length (padHexInt 64 (maxUint256 - b1)) = length (padHexInt 64 (maxUint256 - b2))"
    using assms by (simp add: length_padHexInt64)
  ultimately show ?thesis
    by (simp add: TokenHolderByTokenIndexKey_def Let_def)
qed

theorem holder_index_descending_witness:
  "(0 :: int) \<le> 9 \<and> (9 :: int) \<le> maxUint256 \<and> (5 :: int) < 9 \<and>
   TokenHolderByTokenIndexKey sampleGeth 1 2 9
     < TokenHolderByTokenIndexKey sampleGeth 1 3 5"
proof -
  have h: "(0 :: int) \<le> 9" "(9 :: int) \<le> maxUint256" "(0 :: int) \<le> 5" "(5 :: int) \<le> maxUint256"
    "(5 :: int) < 9"
    by (simp_all add: maxUint256_def)
  then show ?thesis using holder_index_descending [OF h] by simp
qed

text \<open>
  The bound of \<open>incrementPrefix\<close>, which \<^verbatim>\<open>DeleteByPrefix\<close> and \<^verbatim>\<open>CountByPrefix\<close> use, is
  the same as the exact one for every prefix whose last byte is not 0xff (all prefixes of the
  schema end in a slash), and is wrong when a carry happens: the scan of the prefix
  \<open>01 ff\<close> then includes the key \<open>02\<close>, and the scan of \<open>ff\<close> misses every key.
\<close>

lemma incrementPrefix_carry_includes_foreign_key:
  "inRange (Some [byteChar 1, byteChar 255]) (incrementPrefix [byteChar 1, byteChar 255])
     [byteChar 2]
   \<and> \<not> HasPrefix [byteChar 2] [byteChar 1, byteChar 255]"
  by (simp add: incrementPrefix_def inRange_def HasPrefix_def numeral_2_eq_2)

lemma incrementPrefix_all_ff_misses:
  "\<not> inRange (Some [byteChar 255]) (incrementPrefix [byteChar 255]) ([byteChar 255] @ s)"
  by (simp add: incrementPrefix_def inRange_def byteChar_inject)

text \<open>
  The scan behind \<^verbatim>\<open>DeleteByPrefix\<close> and \<^verbatim>\<open>CountByPrefix\<close> is exact for every prefix that
  does not end in a 0xff byte.
\<close>

theorem incrementPrefix_scan_exact:
  assumes "p \<noteq> []" "byteVal (last p) < 255"
  shows "inRange (Some p) (incrementPrefix p) k \<longleftrightarrow> HasPrefix k p"
  using assms by (simp add: incrementPrefix_eq_prefixUpperBound inRange_prefixUpperBound
      HasPrefix_def)

theorem incrementPrefix_scan_exact_witness:
  "prefixLogs \<noteq> [] \<and> byteVal (last prefixLogs) < 255 \<and>
   (inRange (Some prefixLogs) (incrementPrefix prefixLogs) (LogKey 3 0 0)
     \<longleftrightarrow> HasPrefix (LogKey 3 0 0) prefixLogs)"
proof -
  have h: "prefixLogs \<noteq> []" "byteVal (last prefixLogs) < 255"
    by (simp_all add: prefixLogs_def)
  then show ?thesis using incrementPrefix_scan_exact [OF h] by simp
qed

end
