(* ===== verification/Store.thy ===== *)
theory Store
  imports Schema
begin

text \<open>
  The storage engine (\<^verbatim>\<open>pkg/storage/storage.go\<close>, \<^verbatim>\<open>pkg/storage/pebble.go\<close>): its errors, its
  configuration, its state, the guards every operation starts with, and the raw key-value
  operations. The embedded database (\<^verbatim>\<open>cockroachdb/pebble\<close>) is a parameter: a record of
  functions on an unknown database type, whose documented behaviour is the locale
  \<open>pebble_db\<close>. An operation is a function from the state to a result and a state, so a
  failure half way keeps the effects made before it.
\<close>

section \<open>Errors and operations\<close>

text \<open>
  \<open>PNotFound\<close> is \<^verbatim>\<open>pebble.ErrNotFound\<close>. \<open>Wrap\<close> is \<^verbatim>\<open>fmt.Errorf\<close> with a \<^verbatim>\<open>%w\<close> verb: a wrapped
  error is not equal (\<^verbatim>\<open>==\<close>) to the one it wraps.
\<close>

datatype perror = PNotFound | PFault string

datatype serror =
    ErrNotFound
  | ErrClosed
  | ErrReadOnly
  | ErrInvalidReceipt
  | ErrContext
  | Errorf string
  | Panic string
  | Wrap string serror
  | FromPebble perror
  | FromSchema schema_error

type_synonym ('s, 'a) op = "'s \<Rightarrow> (serror + 'a) \<times> 's"

definition ret :: "'a \<Rightarrow> ('s, 'a) op" where
  "ret x = (\<lambda>s. (Inr x, s))"

definition throw :: "serror \<Rightarrow> ('s, 'a) op" where
  "throw e = (\<lambda>s. (Inl e, s))"

definition andThen :: "('s, 'a) op \<Rightarrow> ('a \<Rightarrow> ('s, 'b) op) \<Rightarrow> ('s, 'b) op" where
  "andThen m f = (\<lambda>s. case m s of (Inl e, s') \<Rightarrow> (Inl e, s') | (Inr x, s') \<Rightarrow> f x s')"

text \<open>\<open>catch m h\<close>: the error of \<open>m\<close> goes to the handler \<open>h\<close>.\<close>

definition catch :: "('s, 'a) op \<Rightarrow> (serror \<Rightarrow> ('s, 'a) op) \<Rightarrow> ('s, 'a) op" where
  "catch m h = (\<lambda>s. case m s of (Inl e, s') \<Rightarrow> h e s' | (Inr x, s') \<Rightarrow> (Inr x, s'))"

definition wrapping :: "string \<Rightarrow> ('s, 'a) op \<Rightarrow> ('s, 'a) op" where
  "wrapping msg m = catch m (\<lambda>e. throw (Wrap msg e))"

text \<open>An error is logged and forgotten.\<close>

definition attempt :: "('s, unit) op \<Rightarrow> ('s, unit) op" where
  "attempt m = catch m (\<lambda>e. ret ())"

definition fromOption :: "serror \<Rightarrow> 'a option \<Rightarrow> ('s, 'a) op" where
  "fromOption e x = (case x of None \<Rightarrow> throw e | Some v \<Rightarrow> ret v)"

text \<open>A \<^verbatim>\<open>for range\<close> loop that returns at the first error.\<close>

fun forEach :: "('a \<Rightarrow> ('s, unit) op) \<Rightarrow> 'a list \<Rightarrow> ('s, unit) op" where
  "forEach f [] = ret ()"
| "forEach f (x # xs) = andThen (f x) (\<lambda>_. forEach f xs)"

lemma ret_simp [simp]: "ret x s = (Inr x, s)"
  by (simp add: ret_def)

lemma throw_simp [simp]: "throw e s = (Inl e, s)"
  by (simp add: throw_def)

lemma andThen_Inr [simp]: "m s = (Inr x, s') \<Longrightarrow> andThen m f s = f x s'"
  by (simp add: andThen_def)

lemma andThen_Inl [simp]: "m s = (Inl e, s') \<Longrightarrow> andThen m f s = (Inl e, s')"
  by (simp add: andThen_def)

lemma andThen_eq_Inr:
  "andThen m f s = (Inr y, s'') \<longleftrightarrow> (\<exists>x s'. m s = (Inr x, s') \<and> f x s' = (Inr y, s''))"
  by (auto simp: andThen_def split: prod.splits sum.splits)

lemma catch_Inr [simp]: "m s = (Inr x, s') \<Longrightarrow> catch m h s = (Inr x, s')"
  by (simp add: catch_def)

lemma catch_Inl [simp]: "m s = (Inl e, s') \<Longrightarrow> catch m h s = h e s'"
  by (simp add: catch_def)

lemma wrapping_eq_Inr [simp]: "wrapping msg m s = (Inr x, s') \<longleftrightarrow> m s = (Inr x, s')"
  by (auto simp: wrapping_def catch_def split: prod.splits sum.splits)

lemma wrapping_Inl [simp]: "m s = (Inl e, s') \<Longrightarrow> wrapping msg m s = (Inl (Wrap msg e), s')"
  by (simp add: wrapping_def)

lemma andThen_eq_Inl:
  "andThen m f s = (Inl e, s'') \<longleftrightarrow>
     m s = (Inl e, s'') \<or> (\<exists>x s'. m s = (Inr x, s') \<and> f x s' = (Inl e, s''))"
  by (auto simp: andThen_def split: prod.splits sum.splits)

lemma wrapping_eq_Inl:
  "wrapping msg m s = (Inl e, s') \<longleftrightarrow> (\<exists>e'. e = Wrap msg e' \<and> m s = (Inl e', s'))"
  by (auto simp: wrapping_def catch_def split: prod.splits sum.splits)

lemma fromOption_eq_Inr [simp]: "fromOption e x s = (Inr v, s') \<longleftrightarrow> x = Some v \<and> s' = s"
  by (auto simp: fromOption_def split: option.splits)

lemma fromOption_None [simp]: "fromOption e None s = (Inl e, s)"
  by (simp add: fromOption_def)

text \<open>What an operation keeps: an invariant step rule for sequences, handlers and loops.\<close>

definition keeps :: "('s \<Rightarrow> 's \<Rightarrow> bool) \<Rightarrow> ('s, 'a) op \<Rightarrow> bool" where
  "keeps R m \<longleftrightarrow> (\<forall>s. R s (snd (m s)))"

lemma keeps_ret [inv_intros]: "reflp R \<Longrightarrow> keeps R (ret x)"
  by (simp add: keeps_def reflpD)

lemma keeps_throw [inv_intros]: "reflp R \<Longrightarrow> keeps R (throw e)"
  by (simp add: keeps_def reflpD)

lemma keeps_andThen [inv_intros]:
  "transp R \<Longrightarrow> keeps R m \<Longrightarrow> (\<And>x. keeps R (f x)) \<Longrightarrow> keeps R (andThen m f)"
  unfolding keeps_def andThen_def
  by (auto split: prod.splits sum.splits) (metis snd_conv transpE)+

lemma keeps_catch [inv_intros]:
  "transp R \<Longrightarrow> keeps R m \<Longrightarrow> (\<And>e. keeps R (h e)) \<Longrightarrow> keeps R (catch m h)"
  unfolding keeps_def catch_def
  by (auto split: prod.splits sum.splits) (metis snd_conv transpE)+

lemma keeps_wrapping [inv_intros]:
  "reflp R \<Longrightarrow> transp R \<Longrightarrow> keeps R m \<Longrightarrow> keeps R (wrapping msg m)"
  unfolding wrapping_def by (intro keeps_catch keeps_throw)

lemma keeps_attempt: "reflp R \<Longrightarrow> transp R \<Longrightarrow> keeps R m \<Longrightarrow> keeps R (attempt m)"
  unfolding attempt_def by (intro keeps_catch keeps_ret)

lemma keeps_fromOption [inv_intros]: "reflp R \<Longrightarrow> keeps R (fromOption e x)"
  by (cases x) (simp_all add: fromOption_def keeps_ret keeps_throw)

lemma keeps_forEach [inv_intros]:
  "reflp R \<Longrightarrow> transp R \<Longrightarrow> (\<And>x. keeps R (f x)) \<Longrightarrow> keeps R (forEach f xs)"
  by (induction xs) (auto intro: keeps_ret keeps_andThen)

section \<open>The embedded database\<close>

datatype batch_op = BSet bytes bytes | BDelete bytes

record 'db pebble =
  pb_get :: "'db \<Rightarrow> bytes \<Rightarrow> perror + bytes"
  pb_set :: "'db \<Rightarrow> bytes \<Rightarrow> bytes \<Rightarrow> perror option \<times> 'db"
  pb_delete :: "'db \<Rightarrow> bytes \<Rightarrow> perror option \<times> 'db"
  pb_record :: "batch_op list \<Rightarrow> batch_op \<Rightarrow> perror + batch_op list"
  pb_commit :: "'db \<Rightarrow> batch_op list \<Rightarrow> perror option \<times> 'db"
  pb_iter :: "'db \<Rightarrow> bytes option \<Rightarrow> bytes option \<Rightarrow>
    perror + (bytes \<times> bytes) list \<times> perror option"
  pb_flush :: "'db \<Rightarrow> perror option \<times> 'db"
  pb_compact :: "'db \<Rightarrow> bytes \<Rightarrow> bytes \<Rightarrow> perror option \<times> 'db"
  pb_close :: "'db \<Rightarrow> perror option \<times> 'db"

fun apply_op :: "(bytes \<Rightarrow> bytes option) \<Rightarrow> batch_op \<Rightarrow> (bytes \<Rightarrow> bytes option)" where
  "apply_op m (BSet k v) = m(k := Some v)"
| "apply_op m (BDelete k) = m(k := None)"

definition apply_ops :: "(bytes \<Rightarrow> bytes option) \<Rightarrow> batch_op list \<Rightarrow> (bytes \<Rightarrow> bytes option)" where
  "apply_ops = foldl apply_op"

lemma apply_ops_Nil [simp]: "apply_ops m [] = m"
  by (simp add: apply_ops_def)

lemma apply_ops_Cons [simp]: "apply_ops m (x # xs) = apply_ops (apply_op m x) xs"
  by (simp add: apply_ops_def)

lemma apply_ops_append [simp]: "apply_ops m (xs @ ys) = apply_ops (apply_ops m xs) ys"
  by (simp add: apply_ops_def)

text \<open>
  The database is a finite map from keys to values, \<open>view\<close>. Reads answer from it; a write
  that reports success has changed it, one that reports an error has not, and a batch is
  applied as a whole or not at all. Writes may fail at any time. An iterator sees the entries
  between its bounds in key order.
\<close>

locale pebble_db =
  fixes P :: "'db pebble" and view :: "'db \<Rightarrow> bytes \<Rightarrow> bytes option"
  assumes get: "pb_get P d k = (case view d k of None \<Rightarrow> Inl PNotFound | Some v \<Rightarrow> Inr v)"
    and set_ok: "pb_set P d k v = (None, d') \<Longrightarrow> view d' = (view d)(k := Some v)"
    and set_err: "pb_set P d k v = (Some e, d') \<Longrightarrow> view d' = view d"
    and delete_ok: "pb_delete P d k = (None, d') \<Longrightarrow> view d' = (view d)(k := None)"
    and delete_err: "pb_delete P d k = (Some e, d') \<Longrightarrow> view d' = view d"
    and record_ok: "pb_record P ops x = Inr ops' \<Longrightarrow> ops' = ops @ [x]"
    and commit_ok: "pb_commit P d ops = (None, d') \<Longrightarrow> view d' = apply_ops (view d) ops"
    and commit_err: "pb_commit P d ops = (Some e, d') \<Longrightarrow> view d' = view d"
    and flush_view: "view (snd (pb_flush P d)) = view d"
    and compact_view: "view (snd (pb_compact P d lo' hi')) = view d"
    and iter: "\<exists>es. pb_iter P d lo hi = Inr (es, None) \<and> sorted_wrt (<) (map fst es) \<and>
      (\<forall>k v. (k, v) \<in> set es \<longleftrightarrow> inRange lo hi k \<and> view d k = Some v)"

text \<open>
  A reference database: an association list, newest entry first. Its writes always succeed.
\<close>

definition memIter :: "(bytes \<times> bytes) list \<Rightarrow> bytes option \<Rightarrow> bytes option \<Rightarrow>
    (bytes \<times> bytes) list" where
  "memIter d lo hi =
     map (\<lambda>k. (k, the (map_of d k))) (sort (remdups (filter (inRange lo hi) (map fst d))))"

fun memApply :: "(bytes \<times> bytes) list \<Rightarrow> batch_op list \<Rightarrow> (bytes \<times> bytes) list" where
  "memApply d [] = d"
| "memApply d (BSet k v # xs) = memApply ((k, v) # d) xs"
| "memApply d (BDelete k # xs) = memApply (filter (\<lambda>e. fst e \<noteq> k) d) xs"

definition memPebble :: "((bytes \<times> bytes) list) pebble" where
  "memPebble =
     \<lparr>pb_get = (\<lambda>d k. case map_of d k of None \<Rightarrow> Inl PNotFound | Some v \<Rightarrow> Inr v),
      pb_set = (\<lambda>d k v. (None, (k, v) # d)),
      pb_delete = (\<lambda>d k. (None, filter (\<lambda>e. fst e \<noteq> k) d)),
      pb_record = (\<lambda>ops x. Inr (ops @ [x])),
      pb_commit = (\<lambda>d ops. (None, memApply d ops)),
      pb_iter = (\<lambda>d lo hi. Inr (memIter d lo hi, None)),
      pb_flush = (\<lambda>d. (None, d)),
      pb_compact = (\<lambda>d lo hi. (None, d)),
      pb_close = (\<lambda>d. (None, d))\<rparr>"

lemma map_of_filter_neq: "map_of (filter (\<lambda>e. fst e \<noteq> k) d) = (map_of d)(k := None)"
  by (induction d) (auto simp: fun_eq_iff)

lemma map_of_memApply: "map_of (memApply d ops) = apply_ops (map_of d) ops"
  by (induction d ops rule: memApply.induct) (simp_all add: map_of_filter_neq fun_upd_def)

lemma memIter_set:
  "(k, v) \<in> set (memIter d lo hi) \<longleftrightarrow> inRange lo hi k \<and> map_of d k = Some v"
proof -
  have "k \<in> fst ` set d \<longleftrightarrow> map_of d k \<noteq> None"
    by (simp add: map_of_eq_None_iff)
  then show ?thesis by (auto simp: memIter_def)
qed

lemma memIter_sorted: "sorted_wrt (<) (map fst (memIter d lo hi))"
  by (simp add: memIter_def o_def strict_sorted_iff)

interpretation memPebble: pebble_db memPebble map_of
proof
  show "\<exists>es. pb_iter memPebble d lo hi = Inr (es, None) \<and> sorted_wrt (<) (map fst es) \<and>
      (\<forall>k v. (k, v) \<in> set es \<longleftrightarrow> inRange lo hi k \<and> map_of d k = Some v)" for d lo hi
    by (simp add: memPebble_def memIter_set memIter_sorted)
qed (auto simp: memPebble_def map_of_filter_neq map_of_memApply fun_upd_def)

end
