(* ===== verification/PebbleStorage.thy ===== *)
theory PebbleStorage
  imports Store
begin

text \<open>
  The state of \<^verbatim>\<open>PebbleStorage\<close> and its raw key-value operations
  (\<^verbatim>\<open>pkg/storage/pebble.go\<close>): opening and closing, the guards, \<^verbatim>\<open>Put\<close>, \<^verbatim>\<open>Get\<close>,
  \<^verbatim>\<open>Delete\<close>, \<^verbatim>\<open>Has\<close>, \<^verbatim>\<open>Iterate\<close>, \<^verbatim>\<open>DeleteByPrefix\<close> and \<^verbatim>\<open>CountByPrefix\<close>. The contract of the
  \<^verbatim>\<open>KVStore\<close> interface is the locale \<open>kv_store\<close>; the operations are shown to meet it over
  every database that meets \<open>pebble_db\<close>.
\<close>

section \<open>Configuration and state\<close>

record Config =
  Path :: string
  Cache :: int
  MaxOpenFiles :: int
  WriteBuffer :: int
  DisableWAL :: bool
  ReadOnly :: bool
  CompactionConcurrency :: int

definition DefaultConfig :: "string \<Rightarrow> Config" where
  "DefaultConfig path =
     \<lparr>Path = path, Cache = 128, MaxOpenFiles = 1000, WriteBuffer = 64, DisableWAL = False,
      ReadOnly = False, CompactionConcurrency = 1\<rparr>"

definition Config_Validate :: "Config \<Rightarrow> serror option" where
  "Config_Validate c =
     (if Path c = [] then Some (Errorf ''path cannot be empty'')
      else if Cache c < 0 then Some (Errorf ''cache size cannot be negative'')
      else if MaxOpenFiles c < 0 then Some (Errorf ''max open files cannot be negative'')
      else if WriteBuffer c < 0 then Some (Errorf ''write buffer size cannot be negative'')
      else if CompactionConcurrency c < 1
        then Some (Errorf ''compaction concurrency must be at least 1'')
      else None)"

text \<open>
  The sequence counters are a Go map, whose missing entries read as 0. The logger and the token
  metadata fetcher do not take part in these operations.
\<close>

record 'db storage =
  db :: 'db
  config :: Config
  closed :: bool
  addrSeq :: "address \<Rightarrow> u64"
  txCount :: u64
  txCountReady :: bool

section \<open>Access to the database\<close>

definition dbGet :: "'db pebble \<Rightarrow> bytes \<Rightarrow> ('db storage, bytes) op" where
  "dbGet P k = (\<lambda>s. (case pb_get P (db s) k of Inl e \<Rightarrow> Inl (FromPebble e) | Inr v \<Rightarrow> Inr v, s))"

definition liftWrite :: "('db \<Rightarrow> perror option \<times> 'db) \<Rightarrow> ('db storage, unit) op" where
  "liftWrite w = (\<lambda>s. case w (db s) of
     (None, d) \<Rightarrow> (Inr (), s\<lparr>db := d\<rparr>)
   | (Some e, d) \<Rightarrow> (Inl (FromPebble e), s\<lparr>db := d\<rparr>))"

definition dbSet :: "'db pebble \<Rightarrow> bytes \<Rightarrow> bytes \<Rightarrow> ('db storage, unit) op" where
  "dbSet P k v = liftWrite (\<lambda>d. pb_set P d k v)"

definition dbDelete :: "'db pebble \<Rightarrow> bytes \<Rightarrow> ('db storage, unit) op" where
  "dbDelete P k = liftWrite (\<lambda>d. pb_delete P d k)"

definition dbCommit :: "'db pebble \<Rightarrow> batch_op list \<Rightarrow> ('db storage, unit) op" where
  "dbCommit P ops = liftWrite (\<lambda>d. pb_commit P d ops)"

definition dbIter :: "'db pebble \<Rightarrow> bytes option \<Rightarrow> bytes option \<Rightarrow>
    ('db storage, (bytes \<times> bytes) list \<times> perror option) op" where
  "dbIter P lo hi = (\<lambda>s.
     (case pb_iter P (db s) lo hi of Inl e \<Rightarrow> Inl (FromPebble e) | Inr r \<Rightarrow> Inr r, s))"

definition batchAdd :: "'db pebble \<Rightarrow> batch_op list \<Rightarrow> batch_op \<Rightarrow>
    ('s, batch_op list) op" where
  "batchAdd P ops x = (\<lambda>s.
     (case pb_record P ops x of Inl e \<Rightarrow> Inl (FromPebble e) | Inr ops' \<Rightarrow> Inr ops', s))"

text \<open>The reading idiom of the package: a missing key is \<open>ErrNotFound\<close>, another error is wrapped.\<close>

definition getKey :: "'db pebble \<Rightarrow> string \<Rightarrow> bytes \<Rightarrow> ('db storage, bytes) op" where
  "getKey P msg k = catch (dbGet P k)
     (\<lambda>e. if e = FromPebble PNotFound then throw ErrNotFound else throw (Wrap msg e))"

definition decodeU64 :: "string \<Rightarrow> bytes \<Rightarrow> ('s, u64) op" where
  "decodeU64 msg v = (case DecodeUint64 v of
     Inl e \<Rightarrow> throw (Wrap msg (FromSchema e)) | Inr n \<Rightarrow> ret n)"

section \<open>Guards, opening and closing\<close>

definition ensureNotClosed :: "('db storage, unit) op" where
  "ensureNotClosed = (\<lambda>s. if closed s then (Inl ErrClosed, s) else (Inr (), s))"

definition ensureNotReadOnly :: "('db storage, unit) op" where
  "ensureNotReadOnly = (\<lambda>s. if ReadOnly (config s) then (Inl ErrReadOnly, s) else (Inr (), s))"

definition writable :: "('db storage, 'a) op \<Rightarrow> ('db storage, 'a) op" where
  "writable m = andThen ensureNotClosed (\<lambda>_. andThen ensureNotReadOnly (\<lambda>_. m))"

definition loadAddressSequences :: "('db storage, unit) op" where
  "loadAddressSequences = ret ()"

definition loadTransactionCount :: "'db pebble \<Rightarrow> ('db storage, unit) op" where
  "loadTransactionCount P = (\<lambda>s.
     case dbGet P TransactionCountKey s of
       (Inl e, s) \<Rightarrow>
         if e = FromPebble PNotFound then (Inr (), s\<lparr>txCount := 0, txCountReady := True\<rparr>)
         else (Inl (Wrap ''failed to get transaction count'' e), s)
     | (Inr value, s) \<Rightarrow>
         (case DecodeUint64 value of
            Inl e \<Rightarrow> (Inl (Wrap ''failed to decode transaction count'' (FromSchema e)), s)
          | Inr count \<Rightarrow> (Inr (), s\<lparr>txCount := count, txCountReady := True\<rparr>)))"

text \<open>
  \<open>pbOpen\<close> is \<^verbatim>\<open>pebble.Open\<close>. On a failed load the database is closed again, and only the
  error is returned.
\<close>

definition NewPebbleStorage :: "'db pebble \<Rightarrow> (Config \<Rightarrow> perror + 'db) \<Rightarrow> Config option \<Rightarrow>
    serror + 'db storage" where
  "NewPebbleStorage P pbOpen cfg =
     (case cfg of
        None \<Rightarrow> Inl (Errorf ''config cannot be nil'')
      | Some c \<Rightarrow>
          (case Config_Validate c of
             Some e \<Rightarrow> Inl (Wrap ''invalid config'' e)
           | None \<Rightarrow>
               (case pbOpen c of
                  Inl e \<Rightarrow> Inl (Wrap ''failed to open database'' (FromPebble e))
                | Inr d \<Rightarrow>
                    let s = \<lparr>db = d, config = c, closed = False, addrSeq = (\<lambda>_. 0), txCount = 0,
                             txCountReady = False\<rparr>
                    in case andThen (wrapping ''failed to load address sequences''
                                       loadAddressSequences)
                              (\<lambda>_. wrapping ''failed to load transaction count''
                                       (loadTransactionCount P)) s of
                         (Inl e, s') \<Rightarrow> Inl e
                       | (Inr _, s') \<Rightarrow> Inr s')))"

definition Storage_Close :: "'db pebble \<Rightarrow> ('db storage, unit) op" where
  "Storage_Close P = (\<lambda>s.
     if closed s then (Inr (), s) else liftWrite (pb_close P) (s\<lparr>closed := True\<rparr>))"

definition Storage_Sync :: "'db pebble \<Rightarrow> ('db storage, unit) op" where
  "Storage_Sync P = andThen ensureNotClosed (\<lambda>_. liftWrite (pb_flush P))"

definition Storage_Compact :: "'db pebble \<Rightarrow> bytes \<Rightarrow> bytes \<Rightarrow> ('db storage, unit) op" where
  "Storage_Compact P lo hi =
     andThen ensureNotClosed (\<lambda>_. liftWrite (\<lambda>d. pb_compact P d lo hi))"

section \<open>Key-value operations\<close>

definition Put :: "'db pebble \<Rightarrow> bytes \<Rightarrow> bytes \<Rightarrow> ('db storage, unit) op" where
  "Put P key v = writable (dbSet P key v)"

definition Get :: "'db pebble \<Rightarrow> bytes \<Rightarrow> ('db storage, bytes) op" where
  "Get P key = andThen ensureNotClosed (\<lambda>_. catch (dbGet P key)
     (\<lambda>e. if e = FromPebble PNotFound then throw ErrNotFound else throw e))"

definition Delete :: "'db pebble \<Rightarrow> bytes \<Rightarrow> ('db storage, unit) op" where
  "Delete P key = writable (dbDelete P key)"

definition Has :: "'db pebble \<Rightarrow> bytes \<Rightarrow> ('db storage, bool) op" where
  "Has P key = andThen ensureNotClosed (\<lambda>_.
     catch (andThen (dbGet P key) (\<lambda>_. ret True))
       (\<lambda>e. if e = FromPebble PNotFound then ret False else throw e))"

text \<open>
  \<^verbatim>\<open>Iterate\<close>: \<open>done n\<close> says whether the context is cancelled at the \<open>n\<close>-th entry;
  \<open>fn\<close> is the callback with the variables it captures as an accumulator. The error and what
  the callback accumulated until then are both results.
\<close>

fun Iterate_loop :: "(nat \<Rightarrow> bool) \<Rightarrow> (bytes \<Rightarrow> bytes \<Rightarrow> 'acc \<Rightarrow> bool \<times> 'acc) \<Rightarrow> nat \<Rightarrow>
    (bytes \<times> bytes) list \<Rightarrow> 'acc \<Rightarrow> serror option \<times> 'acc" where
  "Iterate_loop dn fn n [] acc = (None, acc)"
| "Iterate_loop dn fn n ((k, v) # es) acc =
     (if dn n then (Some ErrContext, acc)
      else case fn k v acc of
        (True, acc') \<Rightarrow> Iterate_loop dn fn (Suc n) es acc'
      | (False, acc') \<Rightarrow> (None, acc'))"

definition Iterate :: "'db pebble \<Rightarrow> (nat \<Rightarrow> bool) \<Rightarrow> bytes \<Rightarrow>
    (bytes \<Rightarrow> bytes \<Rightarrow> 'acc \<Rightarrow> bool \<times> 'acc) \<Rightarrow> 'acc \<Rightarrow> ('db storage, serror option \<times> 'acc) op" where
  "Iterate P dn pfx fn acc =
     andThen ensureNotClosed (\<lambda>_.
     andThen (dbIter P (Some pfx) (prefixUpperBound pfx)) (\<lambda>(es, itErr).
       ret (case Iterate_loop dn fn 0 es acc of
              (Some e, acc') \<Rightarrow> (Some e, acc')
            | (None, acc') \<Rightarrow> (map_option FromPebble itErr, acc'))))"

text \<open>
  \<^verbatim>\<open>DeleteByPrefix\<close> deletes through batches committed every 10000 keys and returns the number of
  deletes it recorded, also when it fails.
\<close>

fun DeleteByPrefix_loop :: "'db pebble \<Rightarrow> (bytes \<times> bytes) list \<Rightarrow> batch_op list \<Rightarrow> nat \<Rightarrow>
    'db storage \<Rightarrow> (nat \<times> serror option) \<times> 'db storage" where
  "DeleteByPrefix_loop P [] ops count s =
     (if ops \<noteq> []
      then case dbCommit P ops s of
          (Inl e, s') \<Rightarrow> ((count, Some (Wrap ''failed to commit final batch'' e)), s')
        | (Inr _, s') \<Rightarrow> ((count, None), s')
      else ((count, None), s))"
| "DeleteByPrefix_loop P ((k, v) # es) ops count s =
     (case batchAdd P ops (BDelete k) s of
        (Inl e, s') \<Rightarrow> ((count, Some (Wrap ''failed to delete key'' e)), s')
      | (Inr ops', s') \<Rightarrow>
          if (count + 1) mod 10000 = 0
          then (case dbCommit P ops' s' of
              (Inl e, s'') \<Rightarrow> ((count + 1, Some (Wrap ''failed to commit batch'' e)), s'')
            | (Inr _, s'') \<Rightarrow> DeleteByPrefix_loop P es [] (count + 1) s'')
          else DeleteByPrefix_loop P es ops' (count + 1) s')"

definition DeleteByPrefix :: "'db pebble \<Rightarrow> bytes \<Rightarrow> 'db storage \<Rightarrow>
    (nat \<times> serror option) \<times> 'db storage" where
  "DeleteByPrefix P pfx s =
     (case writable (wrapping ''failed to create iterator''
              (dbIter P (Some pfx) (incrementPrefix pfx))) s of
        (Inl e, s') \<Rightarrow> ((0, Some e), s')
      | (Inr (es, itErr), s') \<Rightarrow> DeleteByPrefix_loop P es [] 0 s')"

definition CountByPrefix :: "'db pebble \<Rightarrow> bytes \<Rightarrow> ('db storage, nat) op" where
  "CountByPrefix P pfx =
     andThen ensureNotClosed (\<lambda>_.
     andThen (wrapping ''failed to create iterator'' (dbIter P (Some pfx) (incrementPrefix pfx)))
       (\<lambda>(es, itErr). ret (length es)))"

section \<open>How the guards reduce\<close>

lemma ensureNotClosed_open [guard_simps]: "\<not> closed s \<Longrightarrow> ensureNotClosed s = (Inr (), s)"
  by (simp add: ensureNotClosed_def)

lemma ensureNotClosed_closed [guard_simps]: "closed s \<Longrightarrow> ensureNotClosed s = (Inl ErrClosed, s)"
  by (simp add: ensureNotClosed_def)

lemma andThen_ensureNotClosed [guard_simps]:
  "andThen ensureNotClosed f s = (if closed s then (Inl ErrClosed, s) else f () s)"
  by (simp add: ensureNotClosed_def andThen_def)

lemma writable_apply [guard_simps]:
  "writable m s = (if closed s then (Inl ErrClosed, s)
     else if ReadOnly (config s) then (Inl ErrReadOnly, s) else m s)"
  by (simp add: writable_def ensureNotReadOnly_def andThen_def guard_simps)

lemma decodeU64_Encode [simp]: "decodeU64 msg (EncodeUint64 n) = ret n"
  by (simp add: decodeU64_def)

lemma liftWrite_fields [simp]:
  "closed (snd (liftWrite w s)) = closed s" "config (snd (liftWrite w s)) = config s"
  "addrSeq (snd (liftWrite w s)) = addrSeq s" "txCount (snd (liftWrite w s)) = txCount s"
  "txCountReady (snd (liftWrite w s)) = txCountReady s"
  by (auto simp: liftWrite_def split: prod.splits option.splits)

lemma batchAdd_state [simp]: "snd (batchAdd P ops x s) = s"
  by (simp add: batchAdd_def)

text \<open>
  \<open>ready s\<close>: the storage is open and may be written. The relation \<open>same_mode\<close> says that an
  operation neither opens nor closes the storage nor changes its configuration.
\<close>

definition ready :: "'db storage \<Rightarrow> bool" where
  "ready s \<longleftrightarrow> \<not> closed s \<and> \<not> ReadOnly (config s)"

definition same_mode :: "'db storage \<Rightarrow> 'db storage \<Rightarrow> bool" where
  "same_mode s s' \<longleftrightarrow> closed s' = closed s \<and> config s' = config s"

lemma reflp_same_mode [simp]: "reflp same_mode"
  by (simp add: reflp_def same_mode_def)

lemma transp_same_mode [simp]: "transp same_mode"
  by (simp add: transp_def same_mode_def)

lemma keeps_liftWrite [inv_intros]: "keeps same_mode (liftWrite w)"
  by (simp add: keeps_def same_mode_def)

lemma keeps_dbSet [inv_intros]: "keeps same_mode (dbSet P k v)"
  by (simp add: dbSet_def keeps_liftWrite)

lemma keeps_dbDelete [inv_intros]: "keeps same_mode (dbDelete P k)"
  by (simp add: dbDelete_def keeps_liftWrite)

lemma keeps_dbCommit [inv_intros]: "keeps same_mode (dbCommit P ops)"
  by (simp add: dbCommit_def keeps_liftWrite)

section \<open>Success and failure of single writes\<close>

text \<open>\<open>only_db\<close>: of the state, at most the database has changed.\<close>

definition only_db :: "'db storage \<Rightarrow> 'db storage \<Rightarrow> bool" where
  "only_db s s' \<longleftrightarrow> closed s' = closed s \<and> config s' = config s \<and> addrSeq s' = addrSeq s \<and>
     txCount s' = txCount s \<and> txCountReady s' = txCountReady s"

lemma only_db_refl [simp]: "only_db s s"
  by (simp add: only_db_def)

lemma only_db_trans: "only_db s s' \<Longrightarrow> only_db s' s'' \<Longrightarrow> only_db s s''"
  by (simp add: only_db_def)

lemma only_db_update [simp]: "only_db s (s\<lparr>db := d\<rparr>)"
  by (simp add: only_db_def)

context pebble_db
begin

lemma dbGet_eq: "dbGet P k s =
    (case view (db s) k of None \<Rightarrow> Inl (FromPebble PNotFound) | Some v \<Rightarrow> Inr v, s)"
  by (simp add: dbGet_def get split: option.splits)

lemma getKey_eq: "getKey P msg k s =
    (case view (db s) k of None \<Rightarrow> Inl ErrNotFound | Some v \<Rightarrow> Inr v, s)"
  by (simp add: getKey_def catch_def dbGet_eq split: option.splits)

lemma dbSet_Inr: "dbSet P k v s = (Inr u, s') \<Longrightarrow>
    only_db s s' \<and> view (db s') = (view (db s))(k := Some v)"
  by (auto simp: dbSet_def liftWrite_def set_ok split: prod.splits option.splits)

lemma dbSet_Inl: "dbSet P k v s = (Inl e, s') \<Longrightarrow>
    only_db s s' \<and> view (db s') = view (db s)"
  by (auto simp: dbSet_def liftWrite_def set_err split: prod.splits option.splits)

lemma dbDelete_Inr: "dbDelete P k s = (Inr u, s') \<Longrightarrow>
    only_db s s' \<and> view (db s') = (view (db s))(k := None)"
  by (auto simp: dbDelete_def liftWrite_def delete_ok split: prod.splits option.splits)

lemma dbDelete_Inl: "dbDelete P k s = (Inl e, s') \<Longrightarrow>
    only_db s s' \<and> view (db s') = view (db s)"
  by (auto simp: dbDelete_def liftWrite_def delete_err split: prod.splits option.splits)

lemma dbCommit_Inr: "dbCommit P ops s = (Inr u, s') \<Longrightarrow>
    only_db s s' \<and> view (db s') = apply_ops (view (db s)) ops"
  by (auto simp: dbCommit_def liftWrite_def commit_ok split: prod.splits option.splits)

lemma dbCommit_Inl: "dbCommit P ops s = (Inl e, s') \<Longrightarrow>
    only_db s s' \<and> view (db s') = view (db s)"
  by (auto simp: dbCommit_def liftWrite_def commit_err split: prod.splits option.splits)

lemma batchAdd_Inr: "batchAdd P ops x s = (Inr ops', s') \<Longrightarrow> s' = s \<and> ops' = ops @ [x]"
  by (auto simp: batchAdd_def record_ok split: sum.splits)

lemma batchAdd_cases:
  obtains e where "batchAdd P ops x s = (Inl e, s)"
  | "batchAdd P ops x s = (Inr (ops @ [x]), s)"
proof (cases "fst (batchAdd P ops x s)")
  case (Inl e)
  then have "batchAdd P ops x s = (Inl e, s)" by (simp add: prod_eq_iff)
  then show ?thesis by (rule that(1))
next
  case (Inr ops')
  then have "batchAdd P ops x s = (Inr ops', s)" by (simp add: prod_eq_iff)
  with batchAdd_Inr [OF this] that(2) show ?thesis by simp
qed

lemma dbIter_eq: "\<exists>es. dbIter P lo hi s = (Inr (es, None), s) \<and> sorted_wrt (<) (map fst es) \<and>
    (\<forall>k v. (k, v) \<in> set es \<longleftrightarrow> inRange lo hi k \<and> view (db s) k = Some v)"
proof -
  obtain es where "pb_iter P (db s) lo hi = Inr (es, None)" "sorted_wrt (<) (map fst es)"
    "\<forall>k v. (k, v) \<in> set es \<longleftrightarrow> inRange lo hi k \<and> view (db s) k = Some v"
    using iter by blast
  then show ?thesis by (intro exI [of _ es]) (simp add: dbIter_def)
qed

end

lemma apply_only_deletes:
  "(\<forall>x\<in>set ds. \<exists>k. x = BDelete k) \<Longrightarrow>
   apply_ops m ds = (\<lambda>k. if BDelete k \<in> set ds then None else m k)"
  by (induction ds arbitrary: m) (auto simp: fun_eq_iff split: if_splits)

section \<open>The key-value contract\<close>

text \<open>
  \<^verbatim>\<open>KVStore\<close> as its clients see it: a map \<open>contents\<close> behind five operations. A client may
  rely on what a read returns after a write, on a failed write leaving the map alone, and on
  an iteration visiting the entries with the prefix once each, in key order.
\<close>

locale kv_store =
  fixes put :: "bytes \<Rightarrow> bytes \<Rightarrow> ('s, unit) op"
    and kget :: "bytes \<Rightarrow> ('s, bytes) op"
    and del :: "bytes \<Rightarrow> ('s, unit) op"
    and has :: "bytes \<Rightarrow> ('s, bool) op"
    and iterate :: "(nat \<Rightarrow> bool) \<Rightarrow> bytes \<Rightarrow> (bytes \<Rightarrow> bytes \<Rightarrow> 'acc \<Rightarrow> bool \<times> 'acc) \<Rightarrow> 'acc \<Rightarrow>
      ('s, serror option \<times> 'acc) op"
    and isOpen :: "'s \<Rightarrow> bool"
    and contents :: "'s \<Rightarrow> bytes \<Rightarrow> bytes option"
  assumes kget_open: "isOpen s \<Longrightarrow>
      kget k s = (case contents s k of None \<Rightarrow> Inl ErrNotFound | Some v \<Rightarrow> Inr v, s)"
    and has_open: "isOpen s \<Longrightarrow> has k s = (Inr (contents s k \<noteq> None), s)"
    and put_Inr: "put k v s = (Inr u, s') \<Longrightarrow>
      isOpen s' \<and> contents s' = (contents s)(k := Some v)"
    and put_Inl: "put k v s = (Inl e, s') \<Longrightarrow> isOpen s' = isOpen s \<and> contents s' = contents s"
    and del_Inr: "del k s = (Inr u, s') \<Longrightarrow> isOpen s' \<and> contents s' = (contents s)(k := None)"
    and del_Inl: "del k s = (Inl e, s') \<Longrightarrow> isOpen s' = isOpen s \<and> contents s' = contents s"
    and iterate_open: "isOpen s \<Longrightarrow> \<exists>es. sorted_wrt (<) (map fst es) \<and>
      (\<forall>k v. (k, v) \<in> set es \<longleftrightarrow> HasPrefix k p \<and> contents s k = Some v) \<and>
      iterate dn p fn acc s = (Inr (Iterate_loop dn fn 0 es acc), s)"
begin

lemma get_after_put: "put k v s = (Inr u, s') \<Longrightarrow> kget k s' = (Inr v, s')"
  using put_Inr [of k v s u s'] by (simp add: kget_open)

lemma get_after_put_other:
  "isOpen s \<Longrightarrow> put k v s = (r, s') \<Longrightarrow> k' \<noteq> k \<Longrightarrow> fst (kget k' s') = fst (kget k' s)"
  using put_Inr [of k v s _ s'] put_Inl [of k v s _ s'] by (cases r) (simp_all add: kget_open)

lemma get_after_del: "del k s = (Inr u, s') \<Longrightarrow> kget k s' = (Inl ErrNotFound, s')"
  using del_Inr [of k s u s'] by (simp add: kget_open)

lemma has_iff_get: "isOpen s \<Longrightarrow> fst (has k s) = Inr (\<exists>v. kget k s = (Inr v, s))"
  by (auto simp: has_open kget_open split: option.splits)

lemma has_after_put: "put k v s = (Inr u, s') \<Longrightarrow> has k s' = (Inr True, s')"
  using put_Inr [of k v s u s'] by (simp add: has_open)

lemma failed_put_invisible:
  "isOpen s \<Longrightarrow> put k v s = (Inl e, s') \<Longrightarrow> fst (kget k' s') = fst (kget k' s)"
  using put_Inl [of k v s e s'] by (simp add: kget_open)

end

context pebble_db
begin

lemma Iterate_open:
  "\<not> closed s \<Longrightarrow> \<exists>es. sorted_wrt (<) (map fst es) \<and>
     (\<forall>k v. (k, v) \<in> set es \<longleftrightarrow> HasPrefix k p \<and> view (db s) k = Some v) \<and>
     Iterate P dn p fn acc s = (Inr (Iterate_loop dn fn 0 es acc), s)"
proof -
  assume "\<not> closed s"
  obtain es where es: "dbIter P (Some p) (prefixUpperBound p) s = (Inr (es, None), s)"
    "sorted_wrt (<) (map fst es)"
    "\<forall>k v. (k, v) \<in> set es \<longleftrightarrow> inRange (Some p) (prefixUpperBound p) k \<and> view (db s) k = Some v"
    using dbIter_eq by blast
  have "Iterate P dn p fn acc s = (Inr (Iterate_loop dn fn 0 es acc), s)"
    using \<open>\<not> closed s\<close> es(1) by (auto simp: Iterate_def guard_simps split: prod.splits option.splits)
  with es(2,3) show ?thesis by (intro exI [of _ es]) (simp add: inRange_prefixUpperBound HasPrefix_def)
qed

text \<open>
  A batch of deletes: every delete recorded is applied when the loop succeeds; when it fails, the
  deletes applied are some of those recorded.
\<close>

lemma DeleteByPrefix_loop_ok:
  "DeleteByPrefix_loop P es ops count s = ((n, None), s') \<Longrightarrow>
     n = count + length es \<and> only_db s s' \<and>
     view (db s') = apply_ops (view (db s)) (ops @ map (\<lambda>e. BDelete (fst e)) es)"
proof (induction es arbitrary: ops count s)
  case Nil
  show ?case
  proof (cases "ops = []")
    case True
    with Nil show ?thesis by simp
  next
    case False
    with Nil obtain u where "dbCommit P ops s = (Inr u, s')" "n = count"
      by (auto split: prod.splits sum.splits)
    with dbCommit_Inr show ?thesis by simp
  qed
next
  case (Cons e es)
  obtain k v where e: "e = (k, v)" by fastforce
  from batchAdd_cases [of ops "BDelete k" s] show ?case
  proof cases
    case (1 x)
    with Cons.prems e show ?thesis by simp
  next
    case 2
    show ?thesis
    proof (cases "Suc count mod 10000 = 0")
      case True
      then obtain u s2 where c: "dbCommit P (ops @ [BDelete k]) s = (Inr u, s2)"
        and rest: "DeleteByPrefix_loop P es [] (count + 1) s2 = ((n, None), s')"
        using Cons.prems 2 e by (simp split: prod.splits sum.splits)
      from Cons.IH [OF rest] dbCommit_Inr [OF c] e show ?thesis
        by (auto intro: only_db_trans simp del: apply_op.simps)
    next
      case False
      then have "DeleteByPrefix_loop P es (ops @ [BDelete k]) (count + 1) s = ((n, None), s')"
        using Cons.prems 2 e by simp
      from Cons.IH [OF this] e show ?thesis by simp
    qed
  qed
qed

lemma DeleteByPrefix_loop_frame:
  "DeleteByPrefix_loop P es ops count s = (r, s') \<Longrightarrow>
     \<exists>ds. set ds \<subseteq> set ops \<union> (\<lambda>e. BDelete (fst e)) ` set es \<and>
       view (db s') = apply_ops (view (db s)) ds"
proof (induction es arbitrary: ops count s)
  case Nil
  consider "ops = []" "s' = s" | x where "dbCommit P ops s = (Inl x, s')"
    | u where "dbCommit P ops s = (Inr u, s')"
    using Nil by (auto split: if_splits prod.splits sum.splits)
  then show ?case
  proof cases
    case 2
    then show ?thesis using dbCommit_Inl by (intro exI [of _ "[]"]) simp
  next
    case 3
    then show ?thesis using dbCommit_Inr by (intro exI [of _ ops]) simp
  qed (intro exI [of _ "[]"], simp)
next
  case (Cons e es)
  obtain k v where e: "e = (k, v)" by fastforce
  let ?ops = "ops @ [BDelete k]"
  from batchAdd_cases [of ops "BDelete k" s] show ?case
  proof cases
    case (1 x)
    with Cons.prems e show ?thesis by (intro exI [of _ "[]"]) simp
  next
    case 2
    consider (go) "Suc count mod 10000 \<noteq> 0"
      | (err) x s2 where "Suc count mod 10000 = 0" "dbCommit P ?ops s = (Inl x, s2)"
      | (ok) u s2 where "Suc count mod 10000 = 0" "dbCommit P ?ops s = (Inr u, s2)"
      by (metis old.sum.exhaust surj_pair)
    then show ?thesis
    proof cases
      case go
      then have "DeleteByPrefix_loop P es ?ops (count + 1) s = (r, s')"
        using Cons.prems 2 e by simp
      from Cons.IH [OF this] e show ?thesis by simp
    next
      case err
      with Cons.prems 2 e have "s' = s2" by simp
      with dbCommit_Inl [OF err(2)] show ?thesis by (intro exI [of _ "[]"]) simp
    next
      case ok
      have "DeleteByPrefix_loop P es [] (count + 1) s2 = (r, s')"
        using Cons.prems 2 e ok by simp
      then obtain ds where "set ds \<subseteq> (\<lambda>e. BDelete (fst e)) ` set es"
        "view (db s') = apply_ops (view (db s2)) ds"
        using Cons.IH [of "[]" "count + 1" s2] by auto
      with dbCommit_Inr [OF ok(2)] e show ?thesis
        by (intro exI [of _ "?ops @ ds"]) (auto simp del: apply_op.simps)
    qed
  qed
qed

end

lemma kv_store_of_pebble:
  assumes "pebble_db P view"
  shows "kv_store (Put P) (Get P) (Delete P) (Has P) (Iterate P) (\<lambda>s. \<not> closed s)
           (\<lambda>s. view (db s))"
proof unfold_locales
  fix s :: "'a storage" and s' k v u e p dn fn and acc :: 'b
  note [simp] = guard_simps only_db_def
  show "\<not> closed s \<Longrightarrow> Get P k s =
      (case view (db s) k of None \<Rightarrow> Inl ErrNotFound | Some v \<Rightarrow> Inr v, s)"
    by (simp add: Get_def catch_def pebble_db.dbGet_eq [OF assms] split: option.splits)
  show "\<not> closed s \<Longrightarrow> Has P k s = (Inr (view (db s) k \<noteq> None), s)"
    by (simp add: Has_def catch_def andThen_def pebble_db.dbGet_eq [OF assms] split: option.splits)
  show "Put P k v s = (Inr u, s') \<Longrightarrow> \<not> closed s' \<and> view (db s') = (view (db s))(k := Some v)"
    by (auto simp: Put_def dest!: pebble_db.dbSet_Inr [OF assms] split: if_splits)
  show "Put P k v s = (Inl e, s') \<Longrightarrow> (\<not> closed s') = (\<not> closed s) \<and> view (db s') = view (db s)"
    by (auto simp: Put_def dest!: pebble_db.dbSet_Inl [OF assms] split: if_splits)
  show "Delete P k s = (Inr u, s') \<Longrightarrow> \<not> closed s' \<and> view (db s') = (view (db s))(k := None)"
    by (auto simp: Delete_def dest!: pebble_db.dbDelete_Inr [OF assms] split: if_splits)
  show "Delete P k s = (Inl e, s') \<Longrightarrow>
      (\<not> closed s') = (\<not> closed s) \<and> view (db s') = view (db s)"
    by (auto simp: Delete_def dest!: pebble_db.dbDelete_Inl [OF assms] split: if_splits)
  show "\<not> closed s \<Longrightarrow> \<exists>es. sorted_wrt (<) (map fst es) \<and>
      (\<forall>k v. (k, v) \<in> set es \<longleftrightarrow> HasPrefix k p \<and> view (db s) k = Some v) \<and>
      Iterate P dn p fn acc s = (Inr (Iterate_loop dn fn 0 es acc), s)"
    by (rule pebble_db.Iterate_open [OF assms])
qed

sublocale pebble_db \<subseteq> kv: kv_store "Put P" "Get P" "Delete P" "Has P" "Iterate P"
  "\<lambda>s. \<not> closed s" "\<lambda>s. view (db s)"
  by (rule kv_store_of_pebble) unfold_locales

section \<open>A database whose writes succeed\<close>

text \<open>A hypothesis of theorems that follow a state through many operations.\<close>

definition neverFails :: "'db pebble \<Rightarrow> bool" where
  "neverFails P \<longleftrightarrow> (\<forall>d k v. fst (pb_set P d k v) = None) \<and> (\<forall>d k. fst (pb_delete P d k) = None)"

lemma neverFails_dbSet: "neverFails P \<Longrightarrow> fst (dbSet P k v s) = Inr ()"
  by (simp add: neverFails_def dbSet_def liftWrite_def split: prod.split option.split) (metis fst_conv option.distinct(1))

lemma neverFails_dbDelete: "neverFails P \<Longrightarrow> fst (dbDelete P k s) = Inr ()"
  by (simp add: neverFails_def dbDelete_def liftWrite_def split: prod.split option.split) (metis fst_conv option.distinct(1))

lemma neverFails_mem: "neverFails memPebble"
  by (simp add: neverFails_def memPebble_def)

section \<open>Properties\<close>

text \<open>
  C31: the storage keeps the \<^verbatim>\<open>KVStore\<close> contract over every database that behaves as documented:
  reads return the last successful write, a failed write changes nothing, and an iteration visits
  exactly the entries with its prefix, in key order, until the callback or the context stops it.
\<close>

theorem storage_refines_kv_store:
  assumes "pebble_db P view"
  shows "kv_store (Put P) (Get P) (Delete P) (Has P) (Iterate P) (\<lambda>s. \<not> closed s)
           (\<lambda>s. view (db s))"
  using assms by (rule kv_store_of_pebble)

definition emptyStorage :: "'db \<Rightarrow> 'db storage" where
  "emptyStorage d = \<lparr>db = d, config = DefaultConfig ''/data'', closed = False,
     addrSeq = (\<lambda>_. 0), txCount = 0, txCountReady = True\<rparr>"

theorem storage_refines_kv_store_witness:
  "kv_store (Put memPebble) (Get memPebble) (Delete memPebble) (Has memPebble)
     (Iterate memPebble :: _ \<Rightarrow> _ \<Rightarrow> (bytes \<Rightarrow> bytes \<Rightarrow> nat \<Rightarrow> bool \<times> nat) \<Rightarrow> _)
     (\<lambda>s. \<not> closed s) (\<lambda>s. map_of (db s))"
  by (rule storage_refines_kv_store) (rule memPebble.pebble_db_axioms)

text \<open>
  \<^verbatim>\<open>DeleteByPrefix\<close> that reports no error has deleted every key with the prefix, has kept
  every other entry, and returns how many keys it deleted; whatever it reports, a key without
  the prefix keeps its value and a key with the prefix keeps its value or is gone. The prefix
  must not end in a 0xff byte.
\<close>

theorem DeleteByPrefix_exact:
  assumes "pebble_db P view" "pfx \<noteq> []" "byteVal (last pfx) < 255"
    and "DeleteByPrefix P pfx s = ((n, err), s')"
  shows "(err = None \<longrightarrow> n = card {k. HasPrefix k pfx \<and> view (db s) k \<noteq> None} \<and>
            view (db s') = (\<lambda>k. if HasPrefix k pfx then None else view (db s) k))
       \<and> (\<forall>k. \<not> HasPrefix k pfx \<longrightarrow> view (db s') k = view (db s) k)
       \<and> (\<forall>k. view (db s') k = view (db s) k \<or> view (db s') k = None)"
proof (cases "closed s \<or> ReadOnly (config s)")
  case True
  then have "s' = s \<and> err \<noteq> None"
    using assms(4) by (auto simp: DeleteByPrefix_def guard_simps split: if_splits)
  then show ?thesis by auto
next
  case False
  obtain es where es: "dbIter P (Some pfx) (incrementPrefix pfx) s = (Inr (es, None), s)"
    "sorted_wrt (<) (map fst es)"
    "\<forall>k v. (k, v) \<in> set es \<longleftrightarrow> inRange (Some pfx) (incrementPrefix pfx) k \<and> view (db s) k = Some v"
    using pebble_db.dbIter_eq [OF assms(1)] by blast
  have loop: "DeleteByPrefix_loop P es [] 0 s = ((n, err), s')"
    using assms(4) False es(1) by (simp add: DeleteByPrefix_def guard_simps wrapping_def)
  have keys: "fst ` set es = {k. HasPrefix k pfx \<and> view (db s) k \<noteq> None}"
  proof -
    have "inRange (Some pfx) (incrementPrefix pfx) k \<longleftrightarrow> HasPrefix k pfx" for k
      using assms(2,3)
      by (simp add: incrementPrefix_eq_prefixUpperBound inRange_prefixUpperBound HasPrefix_def)
    with es(3) have "(k, v) \<in> set es \<longleftrightarrow> HasPrefix k pfx \<and> view (db s) k = Some v" for k v
      by simp
    moreover have "fst ` set es = {k. \<exists>v. (k, v) \<in> set es}" by force
    ultimately show ?thesis by simp
  qed
  have len: "length es = card (fst ` set es)"
    using es(2) distinct_card [of "map fst es"] by (simp add: strict_sorted_iff)
  obtain ds where ds: "set ds \<subseteq> (\<lambda>e. BDelete (fst e)) ` set es"
    "view (db s') = apply_ops (view (db s)) ds"
    using pebble_db.DeleteByPrefix_loop_frame [OF assms(1) loop] by auto
  then have view': "view (db s') = (\<lambda>k. if BDelete k \<in> set ds then None else view (db s) k)"
    by (subst ds(2), intro apply_only_deletes) auto
  have sub: "BDelete k \<in> set ds \<Longrightarrow> HasPrefix k pfx" for k
    using ds(1) keys by auto
  have "err = None \<longrightarrow> n = length es \<and>
      view (db s') = (\<lambda>k. if k \<in> fst ` set es then None else view (db s) k)"
    using pebble_db.DeleteByPrefix_loop_ok [OF assms(1), of es "[]" 0 s n s'] loop
    by (auto simp: apply_only_deletes image_iff)
  then have "err = None \<longrightarrow> n = card {k. HasPrefix k pfx \<and> view (db s) k \<noteq> None} \<and>
      view (db s') = (\<lambda>k. if HasPrefix k pfx then None else view (db s) k)"
    unfolding len keys by auto
  with view' sub show ?thesis by auto
qed

theorem DeleteByPrefix_exact_witness:
  "DeleteByPrefix memPebble ''a/'' (emptyStorage [(''a/1'', ''x''), (''b/1'', ''y''), (''a/2'', ''z'')])
     = ((2, None), emptyStorage [(''b/1'', ''y'')])
   \<and> map_of [(''b/1'', ''y'')] = (\<lambda>k. if HasPrefix k ''a/'' then None
         else map_of [(''a/1'', ''x''), (''b/1'', ''y''), (''a/2'', ''z'')] k)"
proof -
  let ?s = "emptyStorage [(''a/1'', ''x''), (''b/1'', ''y''), (''a/2'', ''z'')]"
  have run: "DeleteByPrefix memPebble ''a/'' ?s = ((2, None), emptyStorage [(''b/1'', ''y'')])"
    by code_simp
  have h: "''a/'' \<noteq> []" "byteVal (last ''a/'') < 255" by simp_all
  from DeleteByPrefix_exact [OF memPebble.pebble_db_axioms h run]
  have "map_of (db (emptyStorage [(''b/1'', ''y'')])) =
      (\<lambda>k. if HasPrefix k ''a/'' then None else map_of (db ?s) k)" by blast
  then have "map_of [(''b/1'', ''y'')] = (\<lambda>k. if HasPrefix k ''a/'' then None
      else map_of [(''a/1'', ''x''), (''b/1'', ''y''), (''a/2'', ''z'')] k)"
    by (simp only: emptyStorage_def storage.simps)
  with run show ?thesis by blast
qed

end
