(* ===== verification/BlockStore.thy ===== *)
theory BlockStore
  imports PebbleStorage
begin

text \<open>
  Blocks, transactions and receipts in the store (\<^verbatim>\<open>pkg/storage/encoder.go\<close>,
  \<^verbatim>\<open>pebble_blocks.go\<close>, \<^verbatim>\<open>pebble_transactions.go\<close>, \<^verbatim>\<open>pebble_receipts.go\<close>,
  \<^verbatim>\<open>pebble_batch.go\<close>): every read and write of the \<^verbatim>\<open>Reader\<close>, \<^verbatim>\<open>Writer\<close> and \<^verbatim>\<open>Batch\<close>
  interfaces for them. A Go pointer that the code compares with nil is an option.
\<close>

section \<open>Encoding\<close>

definition EncodeBlock :: "geth \<Rightarrow> block option \<Rightarrow> ('s, bytes) op" where
  "EncodeBlock G block =
     (case block of
        None \<Rightarrow> throw (Errorf ''block cannot be nil'')
      | Some b \<Rightarrow> fromOption (Errorf ''failed to encode block'') (rlpEncodeBlock G b))"

definition DecodeBlock :: "geth \<Rightarrow> bytes \<Rightarrow> ('s, block) op" where
  "DecodeBlock G data =
     (if data = [] then throw (Errorf ''data cannot be empty'')
      else fromOption (Errorf ''failed to decode block'') (rlpDecodeBlock G data))"

definition EncodeTransaction :: "geth \<Rightarrow> tx option \<Rightarrow> ('s, bytes) op" where
  "EncodeTransaction G t =
     (case t of
        None \<Rightarrow> throw (Errorf ''transaction cannot be nil'')
      | Some x \<Rightarrow> fromOption (Errorf ''failed to encode transaction'') (rlpEncodeTx G x))"

definition DecodeTransaction :: "geth \<Rightarrow> bytes \<Rightarrow> ('s, tx) op" where
  "DecodeTransaction G data =
     (if data = [] then throw (Errorf ''data cannot be empty'')
      else fromOption (Errorf ''failed to decode transaction'') (rlpDecodeTx G data))"

definition EncodeReceipt :: "geth \<Rightarrow> receipt option \<Rightarrow> ('s, bytes) op" where
  "EncodeReceipt G r =
     (case r of
        None \<Rightarrow> throw (Errorf ''receipt cannot be nil'')
      | Some x \<Rightarrow> fromOption (Errorf ''failed to encode receipt'') (rlpEncodeReceipt G x))"

definition DecodeReceipt :: "geth \<Rightarrow> bytes \<Rightarrow> ('s, receipt) op" where
  "DecodeReceipt G data =
     (if data = [] then throw (Errorf ''data cannot be empty'')
      else fromOption (Errorf ''failed to decode receipt'') (rlpDecodeReceipt G data))"

definition EncodeTxLocation :: "geth \<Rightarrow> TxLocation option \<Rightarrow> ('s, bytes) op" where
  "EncodeTxLocation G loc =
     (case loc of
        None \<Rightarrow> throw (Errorf ''location cannot be nil'')
      | Some x \<Rightarrow> fromOption (Errorf ''failed to encode location'') (rlpEncodeLoc G x))"

definition DecodeTxLocation :: "geth \<Rightarrow> bytes \<Rightarrow> ('s, TxLocation) op" where
  "DecodeTxLocation G data =
     (if data = [] then throw (Errorf ''data cannot be empty'')
      else fromOption (Errorf ''failed to decode location'') (rlpDecodeLoc G data))"

text \<open>A hash as its 32 bytes (\<^verbatim>\<open>hash[:]\<close>), and \<^verbatim>\<open>copy(hash[:], value)\<close> into a zero hash.\<close>

definition hashBytes :: "hash \<Rightarrow> bytes" where
  "hashBytes h = fixedDigits byteChar 256 32 (unat h)"

definition copyToHash :: "bytes \<Rightarrow> hash" where
  "copyToHash v = word_of_nat (readDigits byteVal 256 0
     (take 32 v @ replicate (32 - length v) (byteChar 0)))"

section \<open>Heights and blocks\<close>

definition GetLatestHeight :: "'db pebble \<Rightarrow> ('db storage, u64) op" where
  "GetLatestHeight P =
     andThen ensureNotClosed (\<lambda>_.
     andThen (getKey P ''failed to get latest height'' LatestHeightKey) (\<lambda>value.
     decodeU64 ''failed to decode height'' value))"

definition SetLatestHeight :: "'db pebble \<Rightarrow> u64 \<Rightarrow> ('db storage, unit) op" where
  "SetLatestHeight P height = writable (dbSet P LatestHeightKey (EncodeUint64 height))"

definition GetBlock :: "'db pebble \<Rightarrow> geth \<Rightarrow> u64 \<Rightarrow> ('db storage, block) op" where
  "GetBlock P G height =
     andThen ensureNotClosed (\<lambda>_.
     andThen (getKey P ''failed to get block'' (BlockKey height)) (\<lambda>value.
     wrapping ''failed to decode block'' (DecodeBlock G value)))"

definition GetBlockByHash :: "'db pebble \<Rightarrow> geth \<Rightarrow> hash \<Rightarrow> ('db storage, block) op" where
  "GetBlockByHash P G h =
     andThen ensureNotClosed (\<lambda>_.
     andThen (getKey P ''failed to get block hash index'' (BlockHashIndexKey G h)) (\<lambda>value.
     andThen (decodeU64 ''failed to decode block height'' value) (\<lambda>height.
     GetBlock P G height)))"

definition HasBlock :: "'db pebble \<Rightarrow> u64 \<Rightarrow> ('db storage, bool) op" where
  "HasBlock P height = Has P (BlockKey height)"

definition txLocationOf :: "block \<Rightarrow> nat \<Rightarrow> TxLocation" where
  "txLocationOf b i = \<lparr>BlockHeight = bNumber b, TxIndex = word_of_nat i, BlockHash = bHash b\<rparr>"

definition SetTransaction :: "'db pebble \<Rightarrow> geth \<Rightarrow> tx option \<Rightarrow> TxLocation option \<Rightarrow>
    ('db storage, unit) op" where
  "SetTransaction P G t location = writable
     (case t of
        None \<Rightarrow> throw (Errorf ''transaction cannot be nil'')
      | Some x \<Rightarrow>
          (case location of
             None \<Rightarrow> throw (Errorf ''location cannot be nil'')
           | Some loc \<Rightarrow>
               andThen (wrapping ''failed to encode transaction'' (EncodeTransaction G t)) (\<lambda>encoded.
               andThen (wrapping ''failed to encode location'' (EncodeTxLocation G location)) (\<lambda>locEncoded.
               andThen (wrapping ''failed to set transaction''
                 (dbSet P (TransactionKey (BlockHeight loc) (TxIndex loc)) encoded)) (\<lambda>_.
               andThen (wrapping ''failed to set transaction index''
                 (dbSet P (TransactionHashIndexKey G (tHash x)) locEncoded)) (\<lambda>_ s.
               let newCount = txCount s + 1 in
               wrapping ''failed to update transaction count''
                 (dbSet P TransactionCountKey (EncodeUint64 newCount)) (s\<lparr>txCount := newCount\<rparr>)))))))"

definition SetBlock :: "'db pebble \<Rightarrow> geth \<Rightarrow> block option \<Rightarrow> ('db storage, unit) op" where
  "SetBlock P G block = writable
     (case block of
        None \<Rightarrow> throw (Errorf ''block cannot be nil'')
      | Some b \<Rightarrow>
          andThen (wrapping ''failed to encode block'' (EncodeBlock G block)) (\<lambda>encoded.
          andThen (wrapping ''failed to set block'' (dbSet P (BlockKey (bNumber b)) encoded)) (\<lambda>_.
          andThen (wrapping ''failed to set block hash index''
            (dbSet P (BlockHashIndexKey G (bHash b)) (EncodeUint64 (bNumber b)))) (\<lambda>_.
          forEach (\<lambda>(txIndex, t). wrapping ''failed to store transaction''
              (SetTransaction P G (Some t) (Some (txLocationOf b txIndex))))
            (enumerate 0 (bTxs b))))))"

section \<open>Receipts\<close>

definition validateReceipt :: "receipt option \<Rightarrow> serror option" where
  "validateReceipt receipt =
     (case receipt of
        None \<Rightarrow> Some (Wrap ''receipt cannot be nil'' ErrInvalidReceipt)
      | Some r \<Rightarrow>
          if rTxHash r = 0 then Some (Wrap ''transaction hash is not set'' ErrInvalidReceipt)
          else if rStatus r > 1 then Some (Wrap ''invalid status'' ErrInvalidReceipt)
          else if rCumulativeGasUsed r < rGasUsed r
            then Some (Wrap ''cumulative gas used is less than gas used'' ErrInvalidReceipt)
          else None)"

definition check :: "serror option \<Rightarrow> ('s, unit) op" where
  "check e = (case e of None \<Rightarrow> ret () | Some x \<Rightarrow> throw x)"

definition GetReceipt :: "'db pebble \<Rightarrow> geth \<Rightarrow> hash \<Rightarrow> ('db storage, receipt) op" where
  "GetReceipt P G h =
     andThen ensureNotClosed (\<lambda>_.
     andThen (getKey P ''failed to get receipt'' (ReceiptKey G h)) (\<lambda>value.
     andThen (wrapping ''failed to decode receipt'' (DecodeReceipt G value)) (\<lambda>receipt.
     let receipt = receipt\<lparr>rTxHash := h\<rparr> in
     (\<lambda>s. case dbGet P (ContractAddressKey G h) s of
        (Inr contractAddrValue, s') \<Rightarrow>
          if length contractAddrValue = 20
          then (Inr (receipt\<lparr>rContractAddress := bytesToAddr G contractAddrValue\<rparr>), s')
          else (Inr receipt, s')
      | (Inl e, s') \<Rightarrow> (Inr receipt, s')))))"

definition SetReceipt :: "'db pebble \<Rightarrow> geth \<Rightarrow> receipt option \<Rightarrow> ('db storage, unit) op" where
  "SetReceipt P G receipt = writable
     (andThen (check (validateReceipt receipt)) (\<lambda>_.
      andThen (wrapping ''failed to encode receipt'' (EncodeReceipt G receipt)) (\<lambda>encoded.
      (case receipt of
         None \<Rightarrow> throw ErrInvalidReceipt
       | Some r \<Rightarrow>
           andThen (dbSet P (ReceiptKey G (rTxHash r)) encoded) (\<lambda>_.
           if rContractAddress r \<noteq> 0
           then wrapping ''failed to store contract address''
             (dbSet P (ContractAddressKey G (rTxHash r)) (addrBytes G (rContractAddress r)))
           else ret ())))))"

definition HasReceipt :: "'db pebble \<Rightarrow> geth \<Rightarrow> hash \<Rightarrow> ('db storage, bool) op" where
  "HasReceipt P G h = andThen ensureNotClosed (\<lambda>_.
     catch (andThen (dbGet P (ReceiptKey G h)) (\<lambda>_. ret True))
       (\<lambda>e. if e = FromPebble PNotFound then ret False
            else throw (Wrap ''failed to check receipt'' e)))"

text \<open>
  \<^verbatim>\<open>GetReceipts\<close> and \<^verbatim>\<open>GetTransactions\<close> return the slice and the first error side by side; a
  failed entry is nil.
\<close>

fun collectAll :: "('a \<Rightarrow> ('s, 'b) op) \<Rightarrow> 'a list \<Rightarrow> serror option \<Rightarrow> 's \<Rightarrow>
    ('b option list \<times> serror option) \<times> 's" where
  "collectAll f [] firstError s = (([], firstError), s)"
| "collectAll f (x # xs) firstError s =
     (case f x s of
        (Inl e, s') \<Rightarrow>
          (case collectAll f xs (if firstError = None then Some e else firstError) s' of
             ((ys, err), s'') \<Rightarrow> ((None # ys, err), s''))
      | (Inr y, s') \<Rightarrow>
          (case collectAll f xs firstError s' of ((ys, err), s'') \<Rightarrow> ((Some y # ys, err), s'')))"

definition GetReceipts :: "'db pebble \<Rightarrow> geth \<Rightarrow> hash list \<Rightarrow> 'db storage \<Rightarrow>
    (receipt option list \<times> serror option) \<times> 'db storage" where
  "GetReceipts P G hs s =
     (case ensureNotClosed s of
        (Inl e, s') \<Rightarrow> (([], Some e), s')
      | (Inr _, s') \<Rightarrow> collectAll (GetReceipt P G) hs None s')"

text \<open>The loop of \<^verbatim>\<open>GetReceiptsByBlockNumber\<close>: missing receipts are skipped, other errors end it.\<close>

fun receiptsOf :: "'db pebble \<Rightarrow> geth \<Rightarrow> tx list \<Rightarrow> ('db storage, receipt list) op" where
  "receiptsOf P G [] = ret []"
| "receiptsOf P G (t # ts) = (\<lambda>s.
     case GetReceipt P G (tHash t) s of
       (Inl e, s') \<Rightarrow>
         if e = ErrNotFound then receiptsOf P G ts s'
         else (Inl (Wrap ''failed to get receipt for tx'' e), s')
     | (Inr r, s') \<Rightarrow> andThen (receiptsOf P G ts) (\<lambda>rs. ret (r # rs)) s')"

definition GetReceiptsByBlockNumber :: "'db pebble \<Rightarrow> geth \<Rightarrow> u64 \<Rightarrow> ('db storage, receipt list) op" where
  "GetReceiptsByBlockNumber P G blockNumber =
     andThen ensureNotClosed (\<lambda>_.
     andThen (wrapping ''failed to get block'' (GetBlock P G blockNumber)) (\<lambda>block.
     receiptsOf P G (bTxs block)))"

definition GetReceiptsByBlockHash :: "'db pebble \<Rightarrow> geth \<Rightarrow> hash \<Rightarrow> ('db storage, receipt list) op" where
  "GetReceiptsByBlockHash P G blockHash =
     andThen ensureNotClosed (\<lambda>_.
     andThen (wrapping ''failed to get block'' (GetBlockByHash P G blockHash)) (\<lambda>block.
     GetReceiptsByBlockNumber P G (bNumber block)))"

fun missingOf :: "'db pebble \<Rightarrow> geth \<Rightarrow> tx list \<Rightarrow> ('db storage, hash list) op" where
  "missingOf P G [] = ret []"
| "missingOf P G (t # ts) =
     andThen (wrapping ''failed to check receipt for tx'' (HasReceipt P G (tHash t))) (\<lambda>exists.
     andThen (missingOf P G ts) (\<lambda>missing.
     ret (if exists then missing else tHash t # missing)))"

definition GetMissingReceipts :: "'db pebble \<Rightarrow> geth \<Rightarrow> u64 \<Rightarrow> ('db storage, hash list) op" where
  "GetMissingReceipts P G blockNumber =
     andThen ensureNotClosed (\<lambda>_.
     andThen (wrapping ''failed to get block'' (GetBlock P G blockNumber)) (\<lambda>block.
     missingOf P G (bTxs block)))"

section \<open>Transactions\<close>

definition GetTransaction :: "'db pebble \<Rightarrow> geth \<Rightarrow> hash \<Rightarrow> ('db storage, tx \<times> TxLocation) op" where
  "GetTransaction P G h =
     andThen ensureNotClosed (\<lambda>_.
     andThen (getKey P ''failed to get transaction location'' (TransactionHashIndexKey G h)) (\<lambda>locValue.
     andThen (wrapping ''failed to decode location'' (DecodeTxLocation G locValue)) (\<lambda>location.
     andThen (getKey P ''failed to get transaction''
       (TransactionKey (BlockHeight location) (TxIndex location))) (\<lambda>txValue.
     andThen (wrapping ''failed to decode transaction'' (DecodeTransaction G txValue)) (\<lambda>t.
     ret (t, location))))))"

definition GetTransactions :: "'db pebble \<Rightarrow> geth \<Rightarrow> hash list \<Rightarrow> 'db storage \<Rightarrow>
    ((tx \<times> TxLocation) option list \<times> serror option) \<times> 'db storage" where
  "GetTransactions P G hs s =
     (case ensureNotClosed s of
        (Inl e, s') \<Rightarrow> (([], Some e), s')
      | (Inr _, s') \<Rightarrow> collectAll (GetTransaction P G) hs None s')"

definition HasTransaction :: "'db pebble \<Rightarrow> geth \<Rightarrow> hash \<Rightarrow> ('db storage, bool) op" where
  "HasTransaction P G h = Has P (TransactionHashIndexKey G h)"

text \<open>
  The paging loop of \<^verbatim>\<open>GetTransactionsByAddress\<close>: \<open>cnt\<close> counts the entries skipped or taken,
  \<open>acc\<close> are the hashes taken so far. \<open>limit\<close> and \<open>offset\<close> are Go ints and may be negative.
\<close>

fun pageLoop :: "int \<Rightarrow> int \<Rightarrow> int \<Rightarrow> (bytes \<times> bytes) list \<Rightarrow> hash list \<Rightarrow> hash list" where
  "pageLoop limit offset cnt [] acc = acc"
| "pageLoop limit offset cnt ((k, v) # es) acc =
     (if cnt < offset then pageLoop limit offset (cnt + 1) es acc
      else if int (length acc) \<ge> limit then acc
      else pageLoop limit offset (cnt + 1) es (acc @ [copyToHash v]))"

definition GetTransactionsByAddress :: "'db pebble \<Rightarrow> geth \<Rightarrow> address \<Rightarrow> int \<Rightarrow> int \<Rightarrow>
    ('db storage, hash list) op" where
  "GetTransactionsByAddress P G addr limit offset =
     andThen ensureNotClosed (\<lambda>_.
     let pfx = AddressTransactionKeyPrefix G addr;
         upperBound = pfx @ [byteChar 255]
     in andThen (wrapping ''failed to create iterator'' (dbIter P (Some pfx) (Some upperBound)))
          (\<lambda>(es, itErr). case itErr of
             Some e \<Rightarrow> throw (Wrap ''iterator error'' (FromPebble e))
           | None \<Rightarrow> ret (pageLoop limit offset 0 es [])))"

definition AddTransactionToAddressIndex :: "'db pebble \<Rightarrow> geth \<Rightarrow> address \<Rightarrow> hash \<Rightarrow>
    ('db storage, unit) op" where
  "AddTransactionToAddressIndex P G addr txHash = writable (\<lambda>s.
     let sq = addrSeq s addr in
     dbSet P (AddressTransactionKey G addr sq) (hashBytes txHash)
       (s\<lparr>addrSeq := (addrSeq s)(addr := sq + 1)\<rparr>))"

section \<open>Writing a block with its receipts\<close>

text \<open>The receipt map: the last receipt of a transaction wins, nil receipts are skipped.\<close>

fun receiptMapOf :: "receipt option list \<Rightarrow> (hash \<Rightarrow> receipt option) \<Rightarrow> (hash \<Rightarrow> receipt option)" where
  "receiptMapOf [] m = m"
| "receiptMapOf (None # rs) m = receiptMapOf rs m"
| "receiptMapOf (Some r # rs) m = receiptMapOf rs (m(rTxHash r := Some r))"

definition addReceipt :: "'db pebble \<Rightarrow> geth \<Rightarrow> tx \<Rightarrow> receipt option \<Rightarrow> batch_op list \<Rightarrow>
    ('s, batch_op list) op" where
  "addReceipt P G t receipt ops =
     (case receipt of
        None \<Rightarrow> ret ops
      | Some r \<Rightarrow>
          andThen (wrapping ''invalid receipt for tx'' (check (validateReceipt receipt))) (\<lambda>_.
          andThen (wrapping ''failed to encode receipt'' (EncodeReceipt G receipt)) (\<lambda>receiptEncoded.
          andThen (wrapping ''failed to set receipt''
            (batchAdd P ops (BSet (ReceiptKey G (tHash t)) receiptEncoded))) (\<lambda>ops.
          if rContractAddress r \<noteq> 0
          then wrapping ''failed to set contract address''
            (batchAdd P ops
              (BSet (ContractAddressKey G (tHash t)) (addrBytes G (rContractAddress r))))
          else ret ops))))"

fun addTxs :: "'db pebble \<Rightarrow> geth \<Rightarrow> block \<Rightarrow> (hash \<Rightarrow> receipt option) \<Rightarrow> nat \<Rightarrow> tx list \<Rightarrow>
    batch_op list \<Rightarrow> ('s, batch_op list) op" where
  "addTxs P G b receiptMap i [] ops = ret ops"
| "addTxs P G b receiptMap i (t # ts) ops =
     andThen (wrapping ''failed to encode transaction'' (EncodeTransaction G (Some t))) (\<lambda>txEncoded.
     andThen (wrapping ''failed to encode location''
       (EncodeTxLocation G (Some (txLocationOf b i)))) (\<lambda>locEncoded.
     andThen (wrapping ''failed to set transaction''
       (batchAdd P ops (BSet (TransactionKey (bNumber b) (word_of_nat i)) txEncoded))) (\<lambda>ops.
     andThen (wrapping ''failed to set transaction index''
       (batchAdd P ops (BSet (TransactionHashIndexKey G (tHash t)) locEncoded))) (\<lambda>ops.
     andThen (addReceipt P G t (receiptMap (tHash t)) ops) (\<lambda>ops.
     addTxs P G b receiptMap (Suc i) ts ops)))))"

definition SetBlockWithReceipts :: "'db pebble \<Rightarrow> geth \<Rightarrow> block option \<Rightarrow> receipt option list \<Rightarrow>
    ('db storage, unit) op" where
  "SetBlockWithReceipts P G block receipts = writable
     (case block of
        None \<Rightarrow> throw (Errorf ''block cannot be nil'')
      | Some b \<Rightarrow>
          let receiptMap = receiptMapOf receipts (\<lambda>_. None) in
          andThen (wrapping ''failed to encode block'' (EncodeBlock G block)) (\<lambda>encoded.
          andThen (wrapping ''failed to set block''
            (batchAdd P [] (BSet (BlockKey (bNumber b)) encoded))) (\<lambda>ops.
          andThen (wrapping ''failed to set block hash index''
            (batchAdd P ops (BSet (BlockHashIndexKey G (bHash b)) (EncodeUint64 (bNumber b))))) (\<lambda>ops.
          andThen (addTxs P G b receiptMap 0 (bTxs b) ops) (\<lambda>ops s.
          let newCount = txCount s + word_of_nat (length (bTxs b)) in
          andThen (wrapping ''failed to update transaction count''
            (batchAdd P ops (BSet TransactionCountKey (EncodeUint64 newCount)))) (\<lambda>ops.
          andThen (wrapping ''failed to set latest height''
            (batchAdd P ops (BSet LatestHeightKey (EncodeUint64 (bNumber b))))) (\<lambda>ops.
          dbCommit P ops)) (s\<lparr>txCount := newCount\<rparr>))))))"

section \<open>Ranges and deletion\<close>

text \<open>
  \<^verbatim>\<open>GetBlocks\<close> first makes a slice of capacity \<open>endHeight - startHeight + 1\<close> modulo
  2^64; Go panics when that many pointers exceed the address space (2^48 bytes). The loop counts
  in 64 bits, so with the largest end height it does not end: no result is \<open>None\<close>.
\<close>

partial_function (option) GetBlocks_loop :: "'db pebble \<Rightarrow> geth \<Rightarrow> u64 \<Rightarrow> u64 \<Rightarrow> block list \<Rightarrow>
    'db storage \<Rightarrow> ((serror + block list) \<times> 'db storage) option" where
  "GetBlocks_loop P G height endHeight blocks s =
     (if height \<le> endHeight
      then case GetBlock P G height s of
          (Inr b, s') \<Rightarrow> GetBlocks_loop P G (height + 1) endHeight (blocks @ [b]) s'
        | (Inl e, s') \<Rightarrow>
            if e = ErrNotFound then GetBlocks_loop P G (height + 1) endHeight blocks s'
            else Some (Inl (Wrap ''failed to get block'' e), s')
      else Some (Inr blocks, s))"

definition GetBlocks :: "'db pebble \<Rightarrow> geth \<Rightarrow> u64 \<Rightarrow> u64 \<Rightarrow> 'db storage \<Rightarrow>
    ((serror + block list) \<times> 'db storage) option" where
  "GetBlocks P G startHeight endHeight s =
     (if closed s then Some (Inl ErrClosed, s)
      else if unat (endHeight - startHeight + 1) > 2 ^ 45
      then Some (Inl (Panic ''makeslice: cap out of range''), s)
      else GetBlocks_loop P G startHeight endHeight [] s)"

definition DeleteBlock :: "'db pebble \<Rightarrow> geth \<Rightarrow> u64 \<Rightarrow> ('db storage, unit) op" where
  "DeleteBlock P G height = writable (\<lambda>s.
     case GetBlock P G height s of
       (Inl e, s') \<Rightarrow>
         if e = ErrNotFound then (Inr (), s')
         else (Inl (Wrap ''failed to get block for deletion'' e), s')
     | (Inr b, s') \<Rightarrow>
         andThen (wrapping ''failed to delete block hash index''
           (dbDelete P (BlockHashIndexKey G (bHash b)))) (\<lambda>_.
         dbDelete P (BlockKey height)) s')"

section \<open>The key families are disjoint\<close>

lemma core_keys_distinct [simp]:
  "LatestHeightKey \<noteq> TransactionCountKey" "LatestHeightKey \<noteq> BlockKey n2"
  "LatestHeightKey \<noteq> BlockHashIndexKey G h2"
  "LatestHeightKey \<noteq> TransactionKey n2 m2"
  "LatestHeightKey \<noteq> TransactionHashIndexKey G h2"
  "LatestHeightKey \<noteq> ReceiptKey G h2" "LatestHeightKey \<noteq> ContractAddressKey G h2"
  "LatestHeightKey \<noteq> AddressTransactionKey G a2 m2"
  "TransactionCountKey \<noteq> LatestHeightKey" "TransactionCountKey \<noteq> BlockKey n2"
  "TransactionCountKey \<noteq> BlockHashIndexKey G h2"
  "TransactionCountKey \<noteq> TransactionKey n2 m2"
  "TransactionCountKey \<noteq> TransactionHashIndexKey G h2"
  "TransactionCountKey \<noteq> ReceiptKey G h2"
  "TransactionCountKey \<noteq> ContractAddressKey G h2"
  "TransactionCountKey \<noteq> AddressTransactionKey G a2 m2"
  "BlockKey n1 \<noteq> LatestHeightKey" "BlockKey n1 \<noteq> TransactionCountKey"
  "BlockKey n1 \<noteq> BlockHashIndexKey G h2" "BlockKey n1 \<noteq> TransactionKey n2 m2"
  "BlockKey n1 \<noteq> TransactionHashIndexKey G h2" "BlockKey n1 \<noteq> ReceiptKey G h2"
  "BlockKey n1 \<noteq> ContractAddressKey G h2"
  "BlockKey n1 \<noteq> AddressTransactionKey G a2 m2"
  "BlockHashIndexKey G h1 \<noteq> LatestHeightKey"
  "BlockHashIndexKey G h1 \<noteq> TransactionCountKey"
  "BlockHashIndexKey G h1 \<noteq> BlockKey n2"
  "BlockHashIndexKey G h1 \<noteq> TransactionKey n2 m2"
  "BlockHashIndexKey G h1 \<noteq> TransactionHashIndexKey G h2"
  "BlockHashIndexKey G h1 \<noteq> ReceiptKey G h2"
  "BlockHashIndexKey G h1 \<noteq> ContractAddressKey G h2"
  "BlockHashIndexKey G h1 \<noteq> AddressTransactionKey G a2 m2"
  "TransactionKey n1 m1 \<noteq> LatestHeightKey"
  "TransactionKey n1 m1 \<noteq> TransactionCountKey"
  "TransactionKey n1 m1 \<noteq> BlockKey n2"
  "TransactionKey n1 m1 \<noteq> BlockHashIndexKey G h2"
  "TransactionKey n1 m1 \<noteq> TransactionHashIndexKey G h2"
  "TransactionKey n1 m1 \<noteq> ReceiptKey G h2"
  "TransactionKey n1 m1 \<noteq> ContractAddressKey G h2"
  "TransactionKey n1 m1 \<noteq> AddressTransactionKey G a2 m2"
  "TransactionHashIndexKey G h1 \<noteq> LatestHeightKey"
  "TransactionHashIndexKey G h1 \<noteq> TransactionCountKey"
  "TransactionHashIndexKey G h1 \<noteq> BlockKey n2"
  "TransactionHashIndexKey G h1 \<noteq> BlockHashIndexKey G h2"
  "TransactionHashIndexKey G h1 \<noteq> TransactionKey n2 m2"
  "TransactionHashIndexKey G h1 \<noteq> ReceiptKey G h2"
  "TransactionHashIndexKey G h1 \<noteq> ContractAddressKey G h2"
  "TransactionHashIndexKey G h1 \<noteq> AddressTransactionKey G a2 m2"
  "ReceiptKey G h1 \<noteq> LatestHeightKey" "ReceiptKey G h1 \<noteq> TransactionCountKey"
  "ReceiptKey G h1 \<noteq> BlockKey n2" "ReceiptKey G h1 \<noteq> BlockHashIndexKey G h2"
  "ReceiptKey G h1 \<noteq> TransactionKey n2 m2"
  "ReceiptKey G h1 \<noteq> TransactionHashIndexKey G h2"
  "ReceiptKey G h1 \<noteq> ContractAddressKey G h2"
  "ReceiptKey G h1 \<noteq> AddressTransactionKey G a2 m2"
  "ContractAddressKey G h1 \<noteq> LatestHeightKey"
  "ContractAddressKey G h1 \<noteq> TransactionCountKey"
  "ContractAddressKey G h1 \<noteq> BlockKey n2"
  "ContractAddressKey G h1 \<noteq> BlockHashIndexKey G h2"
  "ContractAddressKey G h1 \<noteq> TransactionKey n2 m2"
  "ContractAddressKey G h1 \<noteq> TransactionHashIndexKey G h2"
  "ContractAddressKey G h1 \<noteq> ReceiptKey G h2"
  "ContractAddressKey G h1 \<noteq> AddressTransactionKey G a2 m2"
  "AddressTransactionKey G a1 m1 \<noteq> LatestHeightKey"
  "AddressTransactionKey G a1 m1 \<noteq> TransactionCountKey"
  "AddressTransactionKey G a1 m1 \<noteq> BlockKey n2"
  "AddressTransactionKey G a1 m1 \<noteq> BlockHashIndexKey G h2"
  "AddressTransactionKey G a1 m1 \<noteq> TransactionKey n2 m2"
  "AddressTransactionKey G a1 m1 \<noteq> TransactionHashIndexKey G h2"
  "AddressTransactionKey G a1 m1 \<noteq> ReceiptKey G h2"
  "AddressTransactionKey G a1 m1 \<noteq> ContractAddressKey G h2"
  by (simp_all add: key_defs)

section \<open>What a batch of writes leaves\<close>

lemma apply_ops_other:
  "\<forall>v. BSet k v \<notin> set ops \<Longrightarrow> BDelete k \<notin> set ops \<Longrightarrow> apply_ops m ops k = m k"
proof (induction ops arbitrary: m)
  case (Cons x xs)
  then show ?case by (cases x) auto
qed simp

lemma apply_ops_set:
  "BSet k v \<in> set ops \<Longrightarrow> \<forall>v'. BSet k v' \<in> set ops \<longrightarrow> v' = v \<Longrightarrow> BDelete k \<notin> set ops \<Longrightarrow>
   apply_ops m ops k = Some v"
proof (induction ops arbitrary: m)
  case (Cons x xs)
  show ?case
  proof (cases "\<exists>v'. BSet k v' \<in> set xs")
    case True
    then have "BSet k v \<in> set xs" using Cons.prems(2) by (metis list.set_intros(2))
    moreover have "\<forall>v'. BSet k v' \<in> set xs \<longrightarrow> v' = v" "BDelete k \<notin> set xs"
      using Cons.prems(2,3) by (meson list.set_intros(2))+
    ultimately have "apply_ops (apply_op m x) xs k = Some v" by (rule Cons.IH)
    then show ?thesis by simp
  next
    case False
    then have "x = BSet k v" "BDelete k \<notin> set xs" using Cons.prems(1,3) by auto
    with False show ?thesis by (simp add: apply_ops_other)
  qed
qed simp

text \<open>
  The writes of a block, as a list: the block and its hash index, then for each transaction its
  data, its hash index and its receipt.
\<close>

definition receiptOps :: "geth \<Rightarrow> hash \<Rightarrow> receipt option \<Rightarrow> batch_op list" where
  "receiptOps G h receipt =
     (case receipt of
        None \<Rightarrow> []
      | Some r \<Rightarrow> BSet (ReceiptKey G h) (the (rlpEncodeReceipt G r)) #
          (if rContractAddress r \<noteq> 0
           then [BSet (ContractAddressKey G h) (addrBytes G (rContractAddress r))] else []))"

definition txOps :: "geth \<Rightarrow> block \<Rightarrow> (hash \<Rightarrow> receipt option) \<Rightarrow> nat \<times> tx \<Rightarrow> batch_op list" where
  "txOps G b rm = (\<lambda>(i, t).
     BSet (TransactionKey (bNumber b) (word_of_nat i)) (the (rlpEncodeTx G t)) #
     BSet (TransactionHashIndexKey G (tHash t)) (the (rlpEncodeLoc G (txLocationOf b i))) #
     receiptOps G (tHash t) (rm (tHash t)))"

definition blockOps :: "geth \<Rightarrow> block \<Rightarrow> (hash \<Rightarrow> receipt option) \<Rightarrow> u64 \<Rightarrow> batch_op list" where
  "blockOps G b rm newCount =
     [BSet (BlockKey (bNumber b)) (the (rlpEncodeBlock G b)),
      BSet (BlockHashIndexKey G (bHash b)) (EncodeUint64 (bNumber b))] @
     concat (map (txOps G b rm) (enumerate 0 (bTxs b))) @
     [BSet TransactionCountKey (EncodeUint64 newCount),
      BSet LatestHeightKey (EncodeUint64 (bNumber b))]"

text \<open>What must be encodable, and which receipts must be valid, for the writes to be prepared.\<close>

definition receiptOk :: "geth \<Rightarrow> receipt option \<Rightarrow> bool" where
  "receiptOk G receipt \<longleftrightarrow> (\<forall>r. receipt = Some r \<longrightarrow>
     validateReceipt (Some r) = None \<and> rlpEncodeReceipt G r \<noteq> None)"

definition txOk :: "geth \<Rightarrow> block \<Rightarrow> (hash \<Rightarrow> receipt option) \<Rightarrow> nat \<times> tx \<Rightarrow> bool" where
  "txOk G b rm = (\<lambda>(i, t). rlpEncodeTx G t \<noteq> None \<and> rlpEncodeLoc G (txLocationOf b i) \<noteq> None \<and>
     receiptOk G (rm (tHash t)))"

lemma txOps_apply [simp]:
  "txOps G b rm (i, t) =
     BSet (TransactionKey (bNumber b) (word_of_nat i)) (the (rlpEncodeTx G t)) #
     BSet (TransactionHashIndexKey G (tHash t)) (the (rlpEncodeLoc G (txLocationOf b i))) #
     receiptOps G (tHash t) (rm (tHash t))"
  by (simp add: txOps_def)

lemma txOk_apply [simp]:
  "txOk G b rm (i, t) \<longleftrightarrow> rlpEncodeTx G t \<noteq> None \<and> rlpEncodeLoc G (txLocationOf b i) \<noteq> None \<and>
     receiptOk G (rm (tHash t))"
  by (simp add: txOk_def)

lemma check_eq_Inr [simp]: "check e s = (Inr u, s') \<longleftrightarrow> e = None \<and> s' = s"
  by (auto simp: check_def split: option.splits)

locale chain_store = pebble_db P view + geth_codec G
  for P :: "'db pebble" and view and G
begin

lemma batchAdd_Inr_iff [simp]:
  "batchAdd P ops x s = (Inr ops', s') \<longleftrightarrow> pb_record P ops x = Inr (ops @ [x]) \<and> ops' = ops @ [x] \<and> s' = s"
  by (auto simp: batchAdd_def dest: record_ok split: sum.splits)

lemma addReceipt_Inr:
  "addReceipt P G t receipt ops s = (Inr ops', s') \<Longrightarrow>
   s' = s \<and> receiptOk G receipt \<and> ops' = ops @ receiptOps G (tHash t) receipt"
  by (auto simp: addReceipt_def receiptOk_def receiptOps_def EncodeReceipt_def andThen_eq_Inr
      split: option.splits if_splits)

lemma addTxs_Inr:
  "addTxs P G b rm i ts ops s = (Inr ops', s') \<Longrightarrow>
   s' = s \<and> (\<forall>e\<in>set (enumerate i ts). txOk G b rm e) \<and>
   ops' = ops @ concat (map (txOps G b rm) (enumerate i ts))"
proof (induction ts arbitrary: i ops s)
  case (Cons t ts)
  from Cons.prems show ?case
    by (auto simp: andThen_eq_Inr EncodeTransaction_def EncodeTxLocation_def
        dest!: addReceipt_Inr Cons.IH)
qed simp

text \<open>A successful \<^verbatim>\<open>SetBlockWithReceipts\<close> has committed exactly \<open>blockOps\<close>.\<close>

lemma SetBlockWithReceipts_Inr:
  assumes "SetBlockWithReceipts P G (Some b) rs s = (Inr u, s')"
  defines "n \<equiv> txCount s + word_of_nat (length (bTxs b))"
    and "rm \<equiv> receiptMapOf rs (\<lambda>_. None)"
  shows "ready s \<and> rlpEncodeBlock G b \<noteq> None \<and>
    (\<forall>e\<in>set (enumerate 0 (bTxs b)). txOk G b rm e) \<and>
    view (db s') = apply_ops (view (db s)) (blockOps G b rm n) \<and>
    txCount s' = n \<and> closed s' = closed s \<and> config s' = config s \<and> addrSeq s' = addrSeq s"
proof -
  have r: "ready s"
    using assms(1) by (simp add: SetBlockWithReceipts_def guard_simps ready_def split: if_splits)
  obtain e ops ops1 ops2 where e: "rlpEncodeBlock G b = Some e"
    and tx: "addTxs P G b rm 0 (bTxs b)
        [BSet (BlockKey (bNumber b)) e, BSet (BlockHashIndexKey G (bHash b)) (EncodeUint64 (bNumber b))] s
        = (Inr ops, s)"
    and c: "dbCommit P (ops @ [BSet TransactionCountKey (EncodeUint64 n),
        BSet LatestHeightKey (EncodeUint64 (bNumber b))]) (s\<lparr>txCount := n\<rparr>) = (Inr u, s')"
    using assms(1) r
    by (auto simp: SetBlockWithReceipts_def guard_simps ready_def andThen_eq_Inr EncodeBlock_def
        Let_def n_def rm_def dest: addTxs_Inr)
  from addTxs_Inr [OF tx] dbCommit_Inr [OF c] r e show ?thesis
    by (simp add: only_db_def blockOps_def)
qed

text \<open>Which values the writes of a block give to a key.\<close>

lemma receiptOps_keys:
  "BSet k v \<in> set (receiptOps G h r) \<Longrightarrow> k = ReceiptKey G h \<or> k = ContractAddressKey G h"
  by (auto simp: receiptOps_def split: option.splits if_splits)

lemma txOps_BSet:
  "BSet k v \<in> set (concat (map (txOps G b rm) (enumerate i ts))) \<longleftrightarrow>
   (\<exists>j<length ts. BSet k v \<in> set (txOps G b rm (i + j, ts ! j)))"
proof -
  have "set (enumerate i ts) = (\<lambda>j. (i + j, ts ! j)) ` {..<length ts}"
    by (auto simp: in_set_conv_nth nth_enumerate_eq image_iff intro!: exI)
  then show ?thesis by auto
qed

lemma blockOps_no_delete: "BDelete k \<notin> set (blockOps G b rm n)"
  by (auto simp: blockOps_def txOps_def receiptOps_def split: option.splits if_splits prod.splits)

lemma ReceiptKey_inject [simp]: "ReceiptKey G h = ReceiptKey G h' \<longleftrightarrow> h = h'"
  by (simp add: ReceiptKey_def)

lemma ContractAddressKey_inject [simp]:
  "ContractAddressKey G h = ContractAddressKey G h' \<longleftrightarrow> h = h'"
  by (simp add: ContractAddressKey_def)

lemma TransactionHashIndexKey_inject [simp]:
  "TransactionHashIndexKey G h = TransactionHashIndexKey G h' \<longleftrightarrow> h = h'"
  by (simp add: TransactionHashIndexKey_def)

lemma BlockHashIndexKey_inject [simp]:
  "BlockHashIndexKey G h = BlockHashIndexKey G h' \<longleftrightarrow> h = h'"
  by (simp add: BlockHashIndexKey_def)

lemma blockOps_BSet:
  "BSet k v \<in> set (blockOps G b rm n) \<longleftrightarrow>
     k = BlockKey (bNumber b) \<and> v = the (rlpEncodeBlock G b) \<or>
     k = BlockHashIndexKey G (bHash b) \<and> v = EncodeUint64 (bNumber b) \<or>
     (\<exists>j<length (bTxs b). BSet k v \<in> set (txOps G b rm (j, bTxs b ! j))) \<or>
     k = TransactionCountKey \<and> v = EncodeUint64 n \<or>
     k = LatestHeightKey \<and> v = EncodeUint64 (bNumber b)"
  unfolding blockOps_def using txOps_BSet [of k v b rm 0 "bTxs b"] by auto

lemma blockOps_meta:
  "apply_ops m (blockOps G b rm n) (BlockKey (bNumber b)) = Some (the (rlpEncodeBlock G b))"
  "apply_ops m (blockOps G b rm n) (BlockHashIndexKey G (bHash b)) = Some (EncodeUint64 (bNumber b))"
  "apply_ops m (blockOps G b rm n) TransactionCountKey = Some (EncodeUint64 n)"
  "apply_ops m (blockOps G b rm n) LatestHeightKey = Some (EncodeUint64 (bNumber b))"
  by (intro apply_ops_set; auto simp: blockOps_BSet blockOps_no_delete dest!: receiptOps_keys)+

lemma blockOps_tx:
  assumes "i < length (bTxs b)" "distinct (map tHash (bTxs b))" "length (bTxs b) \<le> 2 ^ 64"
  shows "apply_ops m (blockOps G b rm n) (TransactionKey (bNumber b) (word_of_nat i))
      = Some (the (rlpEncodeTx G (bTxs b ! i)))"
    and "apply_ops m (blockOps G b rm n) (TransactionHashIndexKey G (tHash (bTxs b ! i)))
      = Some (the (rlpEncodeLoc G (txLocationOf b i)))"
proof -
  have inj: "(word_of_nat i :: u64) = word_of_nat j \<longleftrightarrow> j = i" if "j < length (bTxs b)" for j
    using that assms word_of_nat_u64_inject [of i j] by auto
  have hinj: "tHash (bTxs b ! i) = tHash (bTxs b ! j) \<longleftrightarrow> j = i" if "j < length (bTxs b)" for j
    using that assms nth_eq_iff_index_eq [OF assms(2), of i j] by auto
  show "apply_ops m (blockOps G b rm n) (TransactionKey (bNumber b) (word_of_nat i))
      = Some (the (rlpEncodeTx G (bTxs b ! i)))"
    using assms(1) inj
    by (intro apply_ops_set) (auto simp: blockOps_BSet blockOps_no_delete dest!: receiptOps_keys)
  show "apply_ops m (blockOps G b rm n) (TransactionHashIndexKey G (tHash (bTxs b ! i)))
      = Some (the (rlpEncodeLoc G (txLocationOf b i)))"
    using assms(1) hinj
    by (intro apply_ops_set) (auto simp: blockOps_BSet blockOps_no_delete dest!: receiptOps_keys)
qed

lemma blockOps_receipt:
  assumes "i < length (bTxs b)" "rm (tHash (bTxs b ! i)) = Some r"
  shows "apply_ops m (blockOps G b rm n) (ReceiptKey G (tHash (bTxs b ! i)))
      = Some (the (rlpEncodeReceipt G r))"
    and "rContractAddress r \<noteq> 0 \<Longrightarrow>
      apply_ops m (blockOps G b rm n) (ContractAddressKey G (tHash (bTxs b ! i)))
      = Some (addrBytes G (rContractAddress r))"
proof -
  have mem: "x \<in> set (receiptOps G (tHash (bTxs b ! i)) (Some r)) \<Longrightarrow> x \<in> set (blockOps G b rm n)" for x
    using assms by (cases x) (auto simp: blockOps_BSet receiptOps_def split: if_splits)
  have uniq: "BSet k v \<in> set (blockOps G b rm n) \<Longrightarrow>
      k = ReceiptKey G (tHash (bTxs b ! i)) \<or> k = ContractAddressKey G (tHash (bTxs b ! i)) \<Longrightarrow>
      BSet k v \<in> set (receiptOps G (tHash (bTxs b ! i)) (Some r))" for k v
    using assms(2)
    by (auto simp: blockOps_BSet) (auto simp: receiptOps_def split: option.splits if_splits)
  show "apply_ops m (blockOps G b rm n) (ReceiptKey G (tHash (bTxs b ! i)))
      = Some (the (rlpEncodeReceipt G r))"
    by (intro apply_ops_set mem) (auto simp: blockOps_no_delete receiptOps_def dest!: uniq split: if_splits)
  show "apply_ops m (blockOps G b rm n) (ContractAddressKey G (tHash (bTxs b ! i)))
      = Some (addrBytes G (rContractAddress r))" if "rContractAddress r \<noteq> 0"
    using that
    by (intro apply_ops_set mem) (auto simp: blockOps_no_delete receiptOps_def dest!: uniq split: if_splits)
qed

text \<open>Reading what is stored, once the stored bytes are known.\<close>

lemma GetBlock_stored:
  assumes "\<not> closed s" "view (db s) (BlockKey h) = Some e" "rlpEncodeBlock G b = Some e"
  shows "GetBlock P G h s = (Inr b, s)"
  using assms rlp_block [OF assms(3)]
  by (simp add: GetBlock_def guard_simps getKey_eq DecodeBlock_def andThen_def wrapping_def catch_def
      fromOption_def)

lemma GetBlock_absent:
  "\<not> closed s \<Longrightarrow> view (db s) (BlockKey h) = None \<Longrightarrow> GetBlock P G h s = (Inl ErrNotFound, s)"
  by (simp add: GetBlock_def guard_simps getKey_eq andThen_def)

lemma GetBlockByHash_stored:
  assumes "\<not> closed s" "view (db s) (BlockHashIndexKey G x) = Some (EncodeUint64 h)"
    "view (db s) (BlockKey h) = Some e" "rlpEncodeBlock G b = Some e"
  shows "GetBlockByHash P G x s = (Inr b, s)"
  using assms(1,2) GetBlock_stored [OF assms(1,3,4)]
  by (simp add: GetBlockByHash_def guard_simps getKey_eq andThen_def)

lemma GetLatestHeight_stored:
  "\<not> closed s \<Longrightarrow> view (db s) LatestHeightKey = Some (EncodeUint64 h) \<Longrightarrow>
   GetLatestHeight P s = (Inr h, s)"
  by (simp add: GetLatestHeight_def guard_simps getKey_eq andThen_def)

lemma GetTransaction_stored:
  assumes "\<not> closed s" "view (db s) (TransactionHashIndexKey G x) = Some l"
    "rlpEncodeLoc G loc = Some l"
    "view (db s) (TransactionKey (BlockHeight loc) (TxIndex loc)) = Some e" "rlpEncodeTx G t = Some e"
  shows "GetTransaction P G x s = (Inr (t, loc), s)"
  using assms rlp_tx [OF assms(5)] rlp_loc [OF assms(3)]
  by (simp add: GetTransaction_def guard_simps getKey_eq DecodeTransaction_def DecodeTxLocation_def
      andThen_def wrapping_def catch_def fromOption_def)

lemma GetReceipt_stored:
  assumes "\<not> closed s" "view (db s) (ReceiptKey G x) = Some e" "rlpEncodeReceipt G r = Some e"
  shows "\<exists>r'. GetReceipt P G x s = (Inr r', s) \<and> rTxHash r' = x \<and> rStatus r' = rStatus r \<and>
    rCumulativeGasUsed r' = rCumulativeGasUsed r \<and>
    (\<forall>a. view (db s) (ContractAddressKey G x) = Some (addrBytes G a) \<longrightarrow> rContractAddress r' = a)"
proof -
  obtain r' where "e \<noteq> []" "rlpDecodeReceipt G e = Some r'" "rStatus r' = rStatus r"
    "rCumulativeGasUsed r' = rCumulativeGasUsed r"
    using rlp_receipt [OF assms(3)] by blast
  then show ?thesis using assms
    by (auto simp: GetReceipt_def guard_simps getKey_eq dbGet_eq DecodeReceipt_def andThen_def
        wrapping_def catch_def fromOption_def Let_def bytesToAddr addrBytes_len split: option.splits)
qed

text \<open>The preparation of a batch does not touch the state, and a failed commit leaves the database.\<close>

lemma batchAdd_Inl: "batchAdd P ops x s = (Inl e, s') \<Longrightarrow> s' = s"
  using batchAdd_state [of P ops x s] by simp

lemma check_Inl: "check c s = (Inl e, s') \<Longrightarrow> s' = s"
  by (simp add: check_def split: option.splits)

lemma fromOption_Inl: "fromOption x c s = (Inl e, s') \<Longrightarrow> s' = s"
  by (simp add: fromOption_def split: option.splits)

lemma addReceipt_Inl: "addReceipt P G t r ops s = (Inl e, s') \<Longrightarrow> s' = s"
  by (auto simp: addReceipt_def EncodeReceipt_def andThen_eq_Inl wrapping_eq_Inl
      dest: batchAdd_Inl check_Inl fromOption_Inl split: option.splits if_splits)

lemma addTxs_Inl: "addTxs P G b rm i ts ops s = (Inl e, s') \<Longrightarrow> s' = s"
proof (induction ts arbitrary: i ops s)
  case (Cons t ts)
  from Cons.prems show ?case
    by (auto simp: andThen_eq_Inl wrapping_eq_Inl EncodeTransaction_def EncodeTxLocation_def
        dest: batchAdd_Inl fromOption_Inl addReceipt_Inl addReceipt_Inr Cons.IH)
qed simp

lemma SetBlockWithReceipts_Inl:
  assumes "SetBlockWithReceipts P G blk rs s = (Inl e, s')"
  shows "view (db s') = view (db s) \<and> closed s' = closed s \<and> config s' = config s"
proof (cases "ready s \<and> blk \<noteq> None")
  case False
  with assms show ?thesis
    by (auto simp: SetBlockWithReceipts_def guard_simps ready_def split: if_splits)
next
  case True
  then obtain b where b: "blk = Some b" by blast
  let ?n = "txCount s + word_of_nat (length (bTxs b))"
  have "s' = s \<or> s' = s\<lparr>txCount := ?n\<rparr> \<or> (\<exists>ops e'. dbCommit P ops (s\<lparr>txCount := ?n\<rparr>) = (Inl e', s'))"
    using assms True b
    by (auto simp: SetBlockWithReceipts_def guard_simps ready_def EncodeBlock_def Let_def
        andThen_eq_Inl wrapping_eq_Inl
        dest: batchAdd_Inl fromOption_Inl addTxs_Inl addTxs_Inr)
  then show ?thesis by (auto simp: only_db_def dest!: dbCommit_Inl)
qed

end

section \<open>Properties of blocks and transactions\<close>

lemma chain_store_intro: "pebble_db P view \<Longrightarrow> geth_codec G \<Longrightarrow> chain_store P view G"
  by (simp add: chain_store_def)

interpretation memChain: chain_store memPebble map_of "refGeth b t r l"
  by (intro chain_store_intro memPebble.pebble_db_axioms refGeth.geth_codec_axioms)

text \<open>
  C8: after \<^verbatim>\<open>SetBlockWithReceipts\<close> reports success the block is found by its height and by its
  hash, every transaction of it is found by its hash together with its place in the block, and
  the latest height is the height of the block. The transactions of a block have different
  hashes, and there are at most 2^64 of them.
\<close>

theorem SetBlockWithReceipts_readback:
  assumes "pebble_db P view" "geth_codec G"
    and "SetBlockWithReceipts P G (Some b) rs s = (Inr u, s')"
    and "distinct (map tHash (bTxs b))" "length (bTxs b) \<le> 2 ^ 64"
  shows "GetBlock P G (bNumber b) s' = (Inr b, s')
    \<and> GetBlockByHash P G (bHash b) s' = (Inr b, s')
    \<and> GetLatestHeight P s' = (Inr (bNumber b), s')
    \<and> (\<forall>i<length (bTxs b). GetTransaction P G (tHash (bTxs b ! i)) s'
          = (Inr (bTxs b ! i, txLocationOf b i), s'))"
proof -
  have cs: "chain_store P view G" using assms(1,2) by (rule chain_store_intro)
  note w = chain_store.SetBlockWithReceipts_Inr [OF cs assms(3)]
  then have o: "\<not> closed s'" by (simp add: ready_def)
  obtain e where e: "rlpEncodeBlock G b = Some e" using w by blast
  have "GetTransaction P G (tHash (bTxs b ! i)) s' = (Inr (bTxs b ! i, txLocationOf b i), s')"
    if "i < length (bTxs b)" for i
  proof (rule chain_store.GetTransaction_stored [OF cs o])
    have "(i, bTxs b ! i) \<in> set (enumerate 0 (bTxs b))"
      using that by (auto simp: in_set_enumerate_eq)
    then have "rlpEncodeTx G (bTxs b ! i) \<noteq> None" "rlpEncodeLoc G (txLocationOf b i) \<noteq> None"
      using w by force+
    then show "rlpEncodeTx G (bTxs b ! i) = Some (the (rlpEncodeTx G (bTxs b ! i)))"
      "rlpEncodeLoc G (txLocationOf b i) = Some (the (rlpEncodeLoc G (txLocationOf b i)))"
      by simp_all
  qed (use w that assms(4,5) chain_store.blockOps_tx [OF cs] in \<open>simp_all add: txLocationOf_def\<close>)
  with w e o show ?thesis
    by (simp add: chain_store.GetBlock_stored [OF cs] chain_store.GetBlockByHash_stored [OF cs]
        chain_store.GetLatestHeight_stored [OF cs] chain_store.blockOps_meta [OF cs])
qed

text \<open>The example block, stored in an empty database.\<close>

lemma sampleLoc_eq: "sampleLoc = txLocationOf sampleBlock 0"
  by (simp add: sampleLoc_def txLocationOf_def sampleBlock_def)

definition sampleStored :: "(serror + unit) \<times> ((bytes \<times> bytes) list) storage" where
  "sampleStored =
     SetBlockWithReceipts memPebble sampleGeth (Some sampleBlock) [Some sampleReceipt] (emptyStorage [])"

lemma sampleStored_ok:
  "SetBlockWithReceipts memPebble sampleGeth (Some sampleBlock) [Some sampleReceipt] (emptyStorage [])
     = (Inr (), snd sampleStored)"
proof -
  have "fst sampleStored = Inr ()"
    by (simp add: sampleStored_def SetBlockWithReceipts_def guard_simps emptyStorage_def
        DefaultConfig_def andThen_def wrapping_def catch_def EncodeBlock_def fromOption_def
        sampleGeth_def sampleLoc_eq refGeth_def batchAdd_def memPebble_def Let_def EncodeTransaction_def
        EncodeTxLocation_def addReceipt_def EncodeReceipt_def check_def validateReceipt_def
        sample_defs dbCommit_def liftWrite_def)
  then show ?thesis by (simp add: sampleStored_def prod_eq_iff)
qed

theorem SetBlockWithReceipts_readback_witness:
  "SetBlockWithReceipts memPebble sampleGeth (Some sampleBlock) [Some sampleReceipt] (emptyStorage [])
     = (Inr (), snd sampleStored)
   \<and> distinct (map tHash (bTxs sampleBlock)) \<and> length (bTxs sampleBlock) \<le> 2 ^ 64
   \<and> GetBlock memPebble sampleGeth (bNumber sampleBlock) (snd sampleStored)
       = (Inr sampleBlock, snd sampleStored)"
proof -
  have h: "distinct (map tHash (bTxs sampleBlock))" "length (bTxs sampleBlock) \<le> 2 ^ 64"
    by (simp_all add: sampleBlock_def)
  from SetBlockWithReceipts_readback
      [OF memPebble.pebble_db_axioms geth_codec_sample sampleStored_ok h] sampleStored_ok h
  show ?thesis by blast
qed

text \<open>
  C9: after \<^verbatim>\<open>SetBlockWithReceipts\<close> reports success, the receipt of every transaction that was
  given one is found by the transaction's hash, with that hash, its status, its cumulative gas
  and, for a contract creation, the address of the contract.
\<close>

theorem SetBlockWithReceipts_receipts:
  assumes "pebble_db P view" "geth_codec G"
    and "SetBlockWithReceipts P G (Some b) rs s = (Inr u, s')"
    and "i < length (bTxs b)" "receiptMapOf rs (\<lambda>_. None) (tHash (bTxs b ! i)) = Some r"
  shows "\<exists>r'. GetReceipt P G (tHash (bTxs b ! i)) s' = (Inr r', s') \<and>
    rTxHash r' = tHash (bTxs b ! i) \<and> rStatus r' = rStatus r \<and>
    rCumulativeGasUsed r' = rCumulativeGasUsed r \<and>
    (rContractAddress r \<noteq> 0 \<longrightarrow> rContractAddress r' = rContractAddress r)"
proof -
  have cs: "chain_store P view G" using assms(1,2) by (rule chain_store_intro)
  note w = chain_store.SetBlockWithReceipts_Inr [OF cs assms(3)]
  note stored = chain_store.blockOps_receipt
    [where rm = "receiptMapOf rs (\<lambda>_. None)", OF cs assms(4,5)]
  have "(i, bTxs b ! i) \<in> set (enumerate 0 (bTxs b))"
    using assms(4) by (auto simp: in_set_enumerate_eq)
  then have "receiptOk G (receiptMapOf rs (\<lambda>_. None) (tHash (bTxs b ! i)))" using w by force
  then obtain e where "rlpEncodeReceipt G r = Some e" using assms(5) by (auto simp: receiptOk_def)
  moreover have "\<not> closed s'" using w by (simp add: ready_def)
  moreover have "view (db s') (ReceiptKey G (tHash (bTxs b ! i))) = Some e"
    using w stored(1) \<open>rlpEncodeReceipt G r = Some e\<close> by simp
  ultimately obtain r' where "GetReceipt P G (tHash (bTxs b ! i)) s' = (Inr r', s')"
    "rTxHash r' = tHash (bTxs b ! i)" "rStatus r' = rStatus r"
    "rCumulativeGasUsed r' = rCumulativeGasUsed r"
    "\<forall>a. view (db s') (ContractAddressKey G (tHash (bTxs b ! i))) = Some (addrBytes G a) \<longrightarrow>
       rContractAddress r' = a"
    using chain_store.GetReceipt_stored [OF cs] by blast
  then show ?thesis using w stored(2) by auto
qed

theorem SetBlockWithReceipts_receipts_witness:
  "\<exists>r'. GetReceipt memPebble sampleGeth 21 (snd sampleStored) = (Inr r', snd sampleStored) \<and>
     rTxHash r' = 21 \<and> rStatus r' = 1 \<and> rCumulativeGasUsed r' = 40 \<and> rContractAddress r' = 33"
proof -
  have "0 < length (bTxs sampleBlock)"
    "receiptMapOf [Some sampleReceipt] (\<lambda>_. None) (tHash (bTxs sampleBlock ! 0)) = Some sampleReceipt"
    by (simp_all add: sample_defs)
  from SetBlockWithReceipts_receipts
      [OF memPebble.pebble_db_axioms geth_codec_sample sampleStored_ok this]
  show ?thesis by (simp add: sample_defs)
qed

text \<open>
  C12: \<^verbatim>\<open>SetBlockWithReceipts\<close> is all or nothing. On success exactly the writes of the block, its
  transactions, their receipts and the two counters have been applied; on any error, from the
  guards, an encoder, an invalid receipt, the batch or the commit, no key has changed.
\<close>

theorem SetBlockWithReceipts_atomic:
  assumes "pebble_db P view" "geth_codec G"
    and "SetBlockWithReceipts P G blk rs s = (res, s')"
  shows "case res of
      Inl e \<Rightarrow> view (db s') = view (db s)
    | Inr _ \<Rightarrow> \<exists>b. blk = Some b \<and> view (db s') = apply_ops (view (db s))
        (blockOps G b (receiptMapOf rs (\<lambda>_. None)) (txCount s + word_of_nat (length (bTxs b))))"
proof (cases res)
  case (Inl e)
  with assms(3) chain_store.SetBlockWithReceipts_Inl [OF chain_store_intro [OF assms(1,2)]]
  show ?thesis by simp
next
  case (Inr u)
  then obtain b where "blk = Some b"
    using assms(3)
    by (cases blk) (auto simp: SetBlockWithReceipts_def guard_simps split: if_splits)
  with Inr assms(3) chain_store.SetBlockWithReceipts_Inr [OF chain_store_intro [OF assms(1,2)]]
  show ?thesis by simp
qed

theorem SetBlockWithReceipts_atomic_witness:
  "map_of (db (snd sampleStored)) = apply_ops Map.empty
     (blockOps sampleGeth sampleBlock (receiptMapOf [Some sampleReceipt] (\<lambda>_. None)) 1)"
  using SetBlockWithReceipts_atomic
    [OF memPebble.pebble_db_axioms geth_codec_sample sampleStored_ok]
  by (simp add: emptyStorage_def sampleBlock_def)

end
