(* ===== verification/BlockIndex.thy ===== *)
theory BlockIndex
  imports BlockStore
begin

text \<open>
  More properties of the block store: the transaction counter across a restart, reading ranges,
  deleting a block, missing receipts, and the index of transactions by address with its paging
  (\<^verbatim>\<open>pkg/storage/pebble.go\<close>, \<^verbatim>\<open>pebble_blocks.go\<close>, \<^verbatim>\<open>pebble_transactions.go\<close>,
  \<^verbatim>\<open>pebble_receipts.go\<close>).
\<close>

section \<open>The transaction counter\<close>

text \<open>The counter in memory is the one on disk; an absent counter is 0.\<close>

definition count_synced :: "('db \<Rightarrow> bytes \<Rightarrow> bytes option) \<Rightarrow> 'db storage \<Rightarrow> bool" where
  "count_synced view s \<longleftrightarrow>
     (case view (db s) TransactionCountKey of
        None \<Rightarrow> txCount s = 0
      | Some v \<Rightarrow> v = EncodeUint64 (txCount s))"

context chain_store
begin

lemma NewPebbleStorage_count:
  assumes "pbOpen c = Inr (db s)" "count_synced view s" "Config_Validate c = None"
  shows "\<exists>s'. NewPebbleStorage P pbOpen (Some c) = Inr s' \<and> txCount s' = txCount s \<and>
    txCountReady s' \<and> count_synced view s' \<and> db s' = db s \<and> \<not> closed s' \<and> addrSeq s' = (\<lambda>_. 0)"
proof -
  let ?s0 = "\<lparr>db = db s, config = c, closed = False, addrSeq = (\<lambda>_. 0), txCount = 0, txCountReady = False\<rparr>"
  let ?s1 = "?s0\<lparr>txCount := txCount s, txCountReady := True\<rparr>"
  have "loadTransactionCount P ?s0 = (Inr (), ?s1)"
  proof (cases "view (db s) TransactionCountKey")
    case None
    with assms(2) show ?thesis by (simp add: loadTransactionCount_def dbGet_eq count_synced_def)
  next
    case (Some v)
    with assms(2) have "v = EncodeUint64 (txCount s)" by (simp add: count_synced_def)
    with Some show ?thesis by (simp add: loadTransactionCount_def dbGet_eq)
  qed
  then have "NewPebbleStorage P pbOpen (Some c) = Inr ?s1"
    using assms(1,3) by (simp add: NewPebbleStorage_def loadAddressSequences_def wrapping_def)
  then show ?thesis using assms(2) by (simp add: count_synced_def split: option.splits)
qed

lemma SetBlockWithReceipts_synced:
  "SetBlockWithReceipts P G (Some b) rs s = (Inr u, s') \<Longrightarrow> count_synced view s'"
  using SetBlockWithReceipts_Inr [of b rs s u s'] by (simp add: count_synced_def blockOps_meta)

lemma SetTransaction_Inr:
  assumes "SetTransaction P G (Some t) (Some loc) s = (Inr u, s')"
  shows "ready s \<and> rlpEncodeTx G t \<noteq> None \<and> rlpEncodeLoc G loc \<noteq> None \<and>
    view (db s') = apply_ops (view (db s))
      [BSet (TransactionKey (BlockHeight loc) (TxIndex loc)) (the (rlpEncodeTx G t)),
       BSet (TransactionHashIndexKey G (tHash t)) (the (rlpEncodeLoc G loc)),
       BSet TransactionCountKey (EncodeUint64 (txCount s + 1))] \<and>
    txCount s' = txCount s + 1 \<and> closed s' = closed s \<and> config s' = config s"
proof -
  have r: "ready s"
    using assms by (simp add: SetTransaction_def guard_simps ready_def split: if_splits)
  then obtain e l s1 s2 where e: "rlpEncodeTx G t = Some e" "rlpEncodeLoc G loc = Some l"
    and w: "dbSet P (TransactionKey (BlockHeight loc) (TxIndex loc)) e s = (Inr (), s1)"
      "dbSet P (TransactionHashIndexKey G (tHash t)) l s1 = (Inr (), s2)"
      "dbSet P TransactionCountKey (EncodeUint64 (txCount s2 + 1)) (s2\<lparr>txCount := txCount s2 + 1\<rparr>)
        = (Inr u, s')"
    using assms
    by (auto simp: SetTransaction_def guard_simps ready_def EncodeTransaction_def EncodeTxLocation_def
        andThen_eq_Inr Let_def)
  show ?thesis
    using r e dbSet_Inr [OF w(1)] dbSet_Inr [OF w(2)] dbSet_Inr [OF w(3)]
    by (simp add: only_db_def)
qed

end

text \<open>
  C13: the transaction count survives a restart. After \<^verbatim>\<open>SetBlockWithReceipts\<close> reports success,
  reopening the database gives a storage whose counter is the old counter plus the number of
  transactions of the block (modulo 2^64), the value the running storage has too.
\<close>

theorem tx_count_survives_restart:
  assumes "pebble_db P view" "geth_codec G"
    and "SetBlockWithReceipts P G (Some b) rs s = (Inr u, s')"
    and "pbOpen c = Inr (db s')" "Config_Validate c = None"
  shows "\<exists>s''. NewPebbleStorage P pbOpen (Some c) = Inr s'' \<and>
    txCount s'' = txCount s' \<and> txCount s'' = txCount s + word_of_nat (length (bTxs b)) \<and>
    \<not> closed s''"
proof -
  have cs: "chain_store P view G" using assms(1,2) by (rule chain_store_intro)
  from chain_store.NewPebbleStorage_count [where pbOpen = pbOpen and c = c, OF cs assms(4)
      chain_store.SetBlockWithReceipts_synced [OF cs assms(3)] assms(5)]
    chain_store.SetBlockWithReceipts_Inr [OF cs assms(3)]
  show ?thesis by auto
qed

theorem tx_count_survives_restart_witness:
  "\<exists>s''. NewPebbleStorage memPebble (\<lambda>c. Inr (db (snd sampleStored))) (Some (DefaultConfig ''/d''))
      = Inr s'' \<and> txCount s'' = txCount (snd sampleStored) \<and> txCount s'' = 1 \<and> \<not> closed s''"
proof -
  have "Config_Validate (DefaultConfig ''/d'') = None"
    by (simp add: Config_Validate_def DefaultConfig_def)
  from tx_count_survives_restart [OF memPebble.pebble_db_axioms geth_codec_sample sampleStored_ok
      refl this]
  show ?thesis by (simp add: emptyStorage_def sampleBlock_def)
qed

text \<open>
  The counter in memory is advanced before the commit. When the commit fails the database keeps
  the old counter and the storage the new one, and the next successful write stores the wrong
  total.
\<close>

definition failingPebble :: "((bytes \<times> bytes) list) pebble" where
  "failingPebble = memPebble\<lparr>pb_commit := (\<lambda>d ops. (Some (PFault ''disk full''), d))\<rparr>"

lemma failed_commit_moves_counter:
  "\<exists>e s'. SetBlockWithReceipts failingPebble sampleGeth (Some sampleBlock) [] (emptyStorage [])
     = (Inl e, s') \<and> db s' = [] \<and> txCount s' = 1 \<and> \<not> count_synced map_of s'"
  by (simp add: SetBlockWithReceipts_def guard_simps emptyStorage_def DefaultConfig_def andThen_def
      wrapping_def catch_def EncodeBlock_def fromOption_def sampleGeth_def sampleLoc_eq refGeth_def batchAdd_def
      failingPebble_def memPebble_def Let_def EncodeTransaction_def EncodeTxLocation_def
      addReceipt_def sample_defs dbCommit_def liftWrite_def count_synced_def)

section \<open>Reading a range of blocks\<close>

text \<open>The reads of the package do not change the state.\<close>

abbreviation reads :: "('s, 'a) op \<Rightarrow> bool" where
  "reads \<equiv> keeps (=)"

lemma reads_dbGet [inv_intros]: "reads (dbGet P k)"
  by (simp add: keeps_def dbGet_def)

lemma reads_getKey [inv_intros]: "reads (getKey P msg k)"
  unfolding getKey_def by (intro keeps_catch reads_dbGet) (simp_all add: keeps_def)

lemma reads_ensureNotClosed [inv_intros]: "reads ensureNotClosed"
  by (simp add: keeps_def ensureNotClosed_def)

lemma reads_GetBlock: "reads (GetBlock P G h)"
  unfolding GetBlock_def DecodeBlock_def
  by (intro keeps_andThen keeps_wrapping inv_intros) (simp_all add: inv_intros)

lemma GetBlock_state: "snd (GetBlock P G h s) = s"
  using reads_GetBlock [of P G h] by (simp add: keeps_def)

text \<open>The heights from \<open>lo\<close> to \<open>hi\<close>, and the blocks stored at them.\<close>

definition heights :: "u64 \<Rightarrow> u64 \<Rightarrow> u64 list" where
  "heights lo hi = map word_of_nat [unat lo..<Suc (unat hi)]"

definition blocksAt :: "'db pebble \<Rightarrow> geth \<Rightarrow> 'db storage \<Rightarrow> u64 list \<Rightarrow> block list" where
  "blocksAt P G s hs =
     concat (map (\<lambda>h. case fst (GetBlock P G h s) of Inr b \<Rightarrow> [b] | Inl e \<Rightarrow> []) hs)"

lemma heights_empty: "hi < lo \<Longrightarrow> heights lo hi = []"
  by (simp add: heights_def word_less_nat_alt)

lemma heights_step: "lo \<le> hi \<Longrightarrow> hi < - 1 \<Longrightarrow> heights lo hi = lo # heights (lo + 1) hi"
proof -
  assume le: "lo \<le> hi" "hi < - 1"
  then have "unat (lo + 1) = unat lo + 1"
    by (intro unat_succ_u64) auto
  with le show ?thesis by (auto simp: heights_def word_le_nat_alt upt_conv_Cons word_unat_eq_iff)
qed

lemma GetBlocks_loop_returns:
  assumes "hi < - 1"
    and "\<forall>h. lo \<le> h \<and> h \<le> hi \<longrightarrow> (\<forall>e. fst (GetBlock P G h s) = Inl e \<longrightarrow> e = ErrNotFound)"
  shows "GetBlocks_loop P G lo hi bs s = Some (Inr (bs @ blocksAt P G s (heights lo hi)), s)"
  using assms(2)
proof (induction "unat (hi + 1) - unat lo" arbitrary: lo bs)
  case 0
  then have "hi < lo" using unat_succ_u64 [OF assms(1)] by (simp add: word_less_nat_alt)
  then show ?case by (simp add: GetBlocks_loop.simps heights_empty blocksAt_def not_le [symmetric])
next
  case (Suc n)
  then have le: "lo \<le> hi" using unat_succ_u64 [OF assms(1)] by (simp add: word_le_nat_alt)
  then have lt: "lo < - 1" using assms(1) by simp
  have n: "n = unat (hi + 1) - unat (lo + 1)"
    using Suc.hyps(2) unat_succ_u64 [OF lt] by simp
  have weak: "lo \<le> h" if "lo + 1 \<le> h" for h
    using that unat_succ_u64 [OF lt] by (simp add: word_le_nat_alt)
  have rest: "\<forall>h. lo + 1 \<le> h \<and> h \<le> hi \<longrightarrow> (\<forall>e. fst (GetBlock P G h s) = Inl e \<longrightarrow> e = ErrNotFound)"
    using Suc.prems weak by blast
  note IH = Suc.hyps(1) [OF n rest]
  have st: "snd (GetBlock P G lo s) = s" by (rule GetBlock_state)
  show ?case
  proof (cases "fst (GetBlock P G lo s)")
    case (Inl e)
    moreover have "e = ErrNotFound" using Suc.prems le Inl by blast
    ultimately have "GetBlock P G lo s = (Inl ErrNotFound, s)" using st by (simp add: prod_eq_iff)
    with IH le assms(1) show ?thesis
      by (simp add: GetBlocks_loop.simps [of P G lo] heights_step blocksAt_def)
  next
    case (Inr b)
    then have "GetBlock P G lo s = (Inr b, s)" using st by (simp add: prod_eq_iff)
    with IH le assms(1) show ?thesis
      by (simp add: GetBlocks_loop.simps [of P G lo] heights_step blocksAt_def)
  qed
qed

text \<open>
  C14: \<^verbatim>\<open>GetBlocks\<close> returns, and its result is the blocks stored at the heights of the range in
  ascending order, the missing ones skipped, when no stored block of the range is corrupt. The
  end must be below the largest 64-bit height and the range small enough for a slice.
\<close>

theorem GetBlocks_range:
  assumes "\<not> closed s" "lo \<le> hi" "hi < - 1" "unat hi - unat lo < 2 ^ 45"
    and "\<forall>h. lo \<le> h \<and> h \<le> hi \<longrightarrow> (\<forall>e. fst (GetBlock P G h s) = Inl e \<longrightarrow> e = ErrNotFound)"
  shows "GetBlocks P G lo hi s = Some (Inr (blocksAt P G s (heights lo hi)), s)"
proof -
  have "unat (hi - lo) = unat hi - unat lo" using assms(2) by (simp add: unat_sub word_le_nat_alt)
  moreover have "unat (hi - lo) < 2 ^ 45" using calculation assms(4) by simp
  then have "hi - lo < - 1" by (simp add: word_less_nat_alt unat_max_u64)
  ultimately have "unat (hi - lo + 1) \<le> 2 ^ 45"
    using unat_succ_u64 [of "hi - lo"] assms(4) by simp
  with assms(1) GetBlocks_loop_returns [OF assms(3,5), of "[]"] show ?thesis
    by (simp add: GetBlocks_def)
qed

theorem GetBlocks_range_witness:
  "GetBlocks memPebble sampleGeth 3 5 (emptyStorage []) = Some (Inr [], emptyStorage [])"
proof -
  have e: "GetBlock memPebble sampleGeth h (emptyStorage []) = (Inl ErrNotFound, emptyStorage [])" for h
    by (simp add: GetBlock_def guard_simps emptyStorage_def getKey_def dbGet_def memPebble_def
        catch_def andThen_def)
  have "\<not> closed (emptyStorage [])" "(3 :: u64) \<le> 5" "(5 :: u64) < - 1"
    "unat (5 :: u64) - unat (3 :: u64) < 2 ^ 45"
    by (simp_all add: emptyStorage_def)
  from GetBlocks_range [OF this, where P = memPebble and G = sampleGeth] e show ?thesis
    by (simp add: blocksAt_def)
qed

text \<open>
  With the largest end height the loop condition never becomes false: the call can only fail on
  a corrupt block or run forever. A start more than one above the end makes the capacity wrap
  around, and the call panics.
\<close>

lemma GetBlocks_never_succeeds_at_max:
  assumes "GetBlocks_loop P G lo (- 1) bs s = Some r"
  shows "\<exists>e s'. r = (Inl e, s')"
proof -
  let ?Q = "\<lambda>x r. case x of (((_, hi), _), _) \<Rightarrow> hi = (- 1 :: u64) \<longrightarrow> (\<exists>e s'. r = (Inl e, s'))"
  have "?Q (((((P, G), lo), - 1), bs), s) r"
    using assms
    by (rule GetBlocks_loop.raw_induct [rotated 1])
       (auto split: if_splits prod.splits sum.splits)
  then show ?thesis by simp
qed

lemma GetBlocks_reversed_range_panics:
  "\<not> closed s \<Longrightarrow> GetBlocks P G 5 3 s = Some (Inl (Panic ''makeslice: cap out of range''), s)"
  by (simp add: GetBlocks_def unat_max_u64)

section \<open>Missing receipts\<close>

lemma missingOf_eq:
  assumes "pebble_db P view" "\<not> closed s"
  shows "missingOf P G ts s = (Inr (filter (\<lambda>h. view (db s) (ReceiptKey G h) = None) (map tHash ts)), s)"
proof (induction ts)
  case (Cons t ts)
  have "HasReceipt P G h s = (Inr (view (db s) (ReceiptKey G h) \<noteq> None), s)" for h
    using assms(2)
    by (simp add: HasReceipt_def guard_simps catch_def andThen_def pebble_db.dbGet_eq [OF assms(1)]
        split: option.splits)
  with Cons show ?case by (simp add: andThen_def wrapping_def catch_def)
qed simp

lemma sample_GetBlock:
  "GetBlock memPebble sampleGeth 7 (snd sampleStored) = (Inr sampleBlock, snd sampleStored)"
proof -
  note cs = chain_store_intro [OF memPebble.pebble_db_axioms geth_codec_sample]
  note w = chain_store.SetBlockWithReceipts_Inr [OF cs sampleStored_ok]
  obtain e where e: "rlpEncodeBlock sampleGeth sampleBlock = Some e" using w by blast
  have "\<not> closed (snd sampleStored)" using w by (simp add: ready_def)
  moreover have "map_of (db (snd sampleStored)) (BlockKey (bNumber sampleBlock)) = Some e"
    using w e chain_store.blockOps_meta(1) [OF cs] by simp
  ultimately have "GetBlock memPebble sampleGeth (bNumber sampleBlock) (snd sampleStored)
      = (Inr sampleBlock, snd sampleStored)"
    using e by (rule chain_store.GetBlock_stored [OF cs])
  then show ?thesis by (simp add: sampleBlock_def)
qed

text \<open>
  The receipts \<^verbatim>\<open>GetMissingReceipts\<close> reports for a stored block are exactly the hashes of its
  transactions that have no receipt in the store, in block order.
\<close>

theorem GetMissingReceipts_exact:
  assumes "pebble_db P view" "geth_codec G" "\<not> closed s"
    and "GetBlock P G h s = (Inr b, s)"
  shows "GetMissingReceipts P G h s =
    (Inr (filter (\<lambda>x. view (db s) (ReceiptKey G x) = None) (map tHash (bTxs b))), s)"
  using assms(3,4) missingOf_eq [OF assms(1,3), of G "bTxs b"]
  by (simp add: GetMissingReceipts_def guard_simps andThen_def wrapping_def catch_def)

theorem GetMissingReceipts_exact_witness:
  "GetMissingReceipts memPebble sampleGeth 7 (snd sampleStored) = (Inr [], snd sampleStored)"
proof -
  note w = chain_store.SetBlockWithReceipts_Inr
    [OF chain_store_intro [OF memPebble.pebble_db_axioms geth_codec_sample] sampleStored_ok]
  have o: "\<not> closed (snd sampleStored)" using w by (simp add: ready_def)
  have "map_of (db (snd sampleStored)) (ReceiptKey sampleGeth 21) \<noteq> None"
    using w chain_store.blockOps_receipt(1)
      [OF chain_store_intro [OF memPebble.pebble_db_axioms geth_codec_sample],
        of 0 sampleBlock "receiptMapOf [Some sampleReceipt] (\<lambda>_. None)" sampleReceipt]
    by (simp add: sample_defs)
  with GetMissingReceipts_exact [OF memPebble.pebble_db_axioms geth_codec_sample o sample_GetBlock] show ?thesis
    by (simp add: sample_defs)
qed

section \<open>Deleting a block\<close>

text \<open>
  After \<^verbatim>\<open>DeleteBlock\<close> reports success there is no block at that height, neither by height
  nor by the hash of the block that was there, and the block at every other height reads as
  before.
\<close>

theorem DeleteBlock_removes:
  assumes "pebble_db P view" "geth_codec G"
    and "DeleteBlock P G h s = (Inr u, s')"
  shows "GetBlock P G h s' = (Inl ErrNotFound, s')
    \<and> (\<forall>b. GetBlock P G h s = (Inr b, s) \<longrightarrow> GetBlockByHash P G (bHash b) s' = (Inl ErrNotFound, s'))
    \<and> (\<forall>h'. h' \<noteq> h \<longrightarrow> fst (GetBlock P G h' s') = fst (GetBlock P G h' s))"
proof -
  note cs = chain_store_intro [OF assms(1,2)]
  have o: "ready s"
    using assms(3) by (simp add: DeleteBlock_def guard_simps ready_def split: if_splits)
  consider (absent) "GetBlock P G h s = (Inl ErrNotFound, s)" "s' = s"
    | (present) b s1 where "GetBlock P G h s = (Inr b, s)"
      "dbDelete P (BlockHashIndexKey G (bHash b)) s = (Inr (), s1)"
      "dbDelete P (BlockKey h) s1 = (Inr u, s')"
    using assms(3) o GetBlock_state [of P G h s]
    by (auto simp: DeleteBlock_def guard_simps ready_def andThen_eq_Inr split: prod.splits sum.splits if_splits)
  then show ?thesis
  proof cases
    case absent
    then show ?thesis by simp
  next
    case present
    have v: "view (db s') = (view (db s))(BlockHashIndexKey G (bHash b) := None, BlockKey h := None)"
      and o': "\<not> closed s'"
      using pebble_db.dbDelete_Inr [OF assms(1) present(2)] pebble_db.dbDelete_Inr [OF assms(1) present(3)] o
      by (simp_all add: only_db_def ready_def)
    have "fst (GetBlock P G h' s') = fst (GetBlock P G h' s)" if "h' \<noteq> h" for h'
      using that v o o'
      by (simp add: GetBlock_def guard_simps ready_def pebble_db.getKey_eq [OF assms(1)] andThen_def
          DecodeBlock_def wrapping_def catch_def fromOption_def split: option.splits)
    moreover have "GetBlockByHash P G (bHash b) s' = (Inl ErrNotFound, s')"
      using v o' by (simp add: GetBlockByHash_def guard_simps pebble_db.getKey_eq [OF assms(1)] andThen_def)
    ultimately show ?thesis
      using v o' present(1) chain_store.GetBlock_absent [OF cs] by simp
  qed
qed

theorem DeleteBlock_removes_witness:
  "\<exists>s'. DeleteBlock memPebble sampleGeth 7 (snd sampleStored) = (Inr (), s') \<and>
     GetBlock memPebble sampleGeth 7 s' = (Inl ErrNotFound, s')"
proof -
  have "ready (snd sampleStored)"
    using chain_store.SetBlockWithReceipts_Inr
      [OF chain_store_intro [OF memPebble.pebble_db_axioms geth_codec_sample] sampleStored_ok]
    by (simp add: ready_def emptyStorage_def DefaultConfig_def)
  with sample_GetBlock have "\<exists>s'. DeleteBlock memPebble sampleGeth 7 (snd sampleStored) = (Inr (), s')"
    by (simp add: DeleteBlock_def guard_simps ready_def dbDelete_def liftWrite_def memPebble_def
        andThen_def wrapping_def catch_def)
  then show ?thesis
    using DeleteBlock_removes [OF memPebble.pebble_db_axioms geth_codec_sample] by blast
qed

section \<open>Transactions by address\<close>

text \<open>
  \<open>addr_indexed view G s addr hs\<close>: the index of an address holds the hashes \<open>hs\<close>, in the order
  they were added, at the sequence numbers from 0 on, and nothing else.
\<close>

definition addr_indexed :: "('db \<Rightarrow> bytes \<Rightarrow> bytes option) \<Rightarrow> geth \<Rightarrow> 'db storage \<Rightarrow> address \<Rightarrow>
    hash list \<Rightarrow> bool" where
  "addr_indexed view G s addr hs \<longleftrightarrow>
     length hs < 2 ^ 64 \<and> addrSeq s addr = word_of_nat (length hs) \<and>
     (\<forall>k v. HasPrefix k (AddressTransactionKeyPrefix G addr) \<and> view (db s) k = Some v \<longleftrightarrow>
        (\<exists>i<length hs. k = AddressTransactionKey G addr (word_of_nat i) \<and> v = hashBytes (hs ! i)))"

lemma AddressTransactionKey_split:
  "AddressTransactionKey G addr sq = AddressTransactionKeyPrefix G addr @ padDec 20 (unat sq)"
  by (simp add: AddressTransactionKey_def AddressTransactionKeyPrefix_def)

lemma AddressTransactionKey_less:
  "AddressTransactionKey G a i < AddressTransactionKey G a j \<longleftrightarrow> i < j"
  by (simp add: AddressTransactionKey_split)

lemma AddressTransactionKey_same [simp]:
  "AddressTransactionKey G a i = AddressTransactionKey G a j \<longleftrightarrow> i = j"
  by (simp add: AddressTransactionKey_split)

lemma AddressTransactionKey_prefix [simp]:
  "HasPrefix (AddressTransactionKey G a i) (AddressTransactionKeyPrefix G a)"
  by (simp add: AddressTransactionKey_split HasPrefix_def)

lemma copyToHash_hashBytes [simp]: "copyToHash (hashBytes h) = h"
proof -
  have "unat h < 256 ^ 32" using unsigned_less [of h, where ?'a = nat] by simp
  then show ?thesis by (simp add: copyToHash_def hashBytes_def readDigits_fixedDigits)
qed

text \<open>The scan with the bound \<open>prefix @ 0xff\<close> sees every key of the index.\<close>

lemma padDec_less_ff: "padDec 20 n < [byteChar 255]"
proof -
  obtain c cs where c: "padDec 20 n = c # cs" "c \<in> set (padDec 20 n)"
    by (cases "padDec 20 n") (auto simp: padBase_def)
  have "set (padDec 20 n) \<subseteq> range (\<lambda>x. digitChar (x mod 10))"
  proof -
    have "set (fixedDigits digitChar 10 w m) \<subseteq> range (\<lambda>x. digitChar (x mod 10))" for w m
      by (induction w arbitrary: m) auto
    then have "set (showDec n) \<subseteq> range (\<lambda>x. digitChar (x mod 10))"
      by (subst showBase_fixedDigits) simp_all
    moreover have "digitChar 0 \<in> range (\<lambda>x. digitChar (x mod 10))"
      by (rule range_eqI [of _ _ 0]) simp
    ultimately show ?thesis by (auto simp: padBase_def)
  qed
  then obtain x where "c = digitChar (x mod 10)" using c(2) by blast
  moreover have "x mod 10 < 16" "x mod 10 < 10"
    using mod_less_divisor [of 10 x] by linarith+
  ultimately have "byteVal c < 255" by (simp add: byteVal_digitChar)
  then show ?thesis using c(1) by (simp add: char_less_iff)
qed

lemma AddressTransactionKey_inRange:
  "inRange (Some (AddressTransactionKeyPrefix G a))
     (Some (AddressTransactionKeyPrefix G a @ [byteChar 255])) (AddressTransactionKey G a i)"
  unfolding inRange_def AddressTransactionKey_split
  using padDec_less_ff [of "unat i"] prefix_imp_le [of "AddressTransactionKeyPrefix G a"]
  by simp

lemma inRange_ff_prefix: "inRange (Some p) (Some (p @ [byteChar 255])) k \<Longrightarrow> HasPrefix k p"
proof (induction p arbitrary: k)
  case (Cons c p)
  then obtain k' where "k = c # k'" "inRange (Some p) (Some (p @ [byteChar 255])) k'"
    by (cases k) (auto simp: inRange_def)
  with Cons.IH show ?case by (simp add: HasPrefix_def)
qed (simp add: HasPrefix_def)

lemma pageLoop_eq:
  "0 \<le> cnt \<Longrightarrow> int (length acc) = max 0 (cnt - max 0 offset) \<Longrightarrow>
   pageLoop limit offset cnt es acc =
     acc @ take (nat (limit - int (length acc)))
       (drop (nat (offset - cnt)) (map (\<lambda>e. copyToHash (snd e)) es))"
proof (induction es arbitrary: cnt acc)
  case (Cons e es)
  obtain k v where e: "e = (k, v)" by fastforce
  consider (skip) "cnt < offset" | (stop) "\<not> cnt < offset" "int (length acc) \<ge> limit"
    | (go) "\<not> cnt < offset" "int (length acc) < limit"
    by linarith
  then show ?case
  proof cases
    case skip
    then have "nat (offset - cnt) = Suc (nat (offset - (cnt + 1)))" by linarith
    with skip e Cons.IH [of "cnt + 1" acc] Cons.prems show ?thesis by simp
  next
    case stop
    with e show ?thesis by simp
  next
    case go
    then have "nat (limit - int (length acc)) = Suc (nat (limit - int (length acc) - 1))" by linarith
    moreover have "pageLoop limit offset (cnt + 1) es (acc @ [copyToHash v]) =
        (acc @ [copyToHash v]) @ take (nat (limit - int (length (acc @ [copyToHash v]))))
          (drop (nat (offset - (cnt + 1))) (map (\<lambda>e. copyToHash (snd e)) es))"
      using go Cons.prems by (intro Cons.IH) auto
    moreover have "nat (limit - int (length (acc @ [copyToHash v]))) = nat (limit - int (length acc) - 1)"
      by simp
    moreover have "drop (nat (offset - (cnt + 1))) xs = xs" for xs :: "hash list" using go by simp
    ultimately show ?thesis using go e by (simp only: pageLoop.simps if_False) simp
  qed
qed simp

lemma addr_scan:
  assumes "pebble_db P view" "addr_indexed view G s addr hs"
    and "dbIter P (Some (AddressTransactionKeyPrefix G addr))
       (Some (AddressTransactionKeyPrefix G addr @ [byteChar 255])) s = (Inr (es, er), s)"
  shows "er = None \<and> es = map (\<lambda>i. (AddressTransactionKey G addr (word_of_nat i), hashBytes (hs ! i)))
    [0..<length hs]"
proof -
  let ?lo = "Some (AddressTransactionKeyPrefix G addr)"
  let ?hi = "Some (AddressTransactionKeyPrefix G addr @ [byteChar 255])"
  let ?f = "\<lambda>i. (AddressTransactionKey G addr (word_of_nat i), hashBytes (hs ! i))"
  have es: "er = None" "sorted_wrt (<) (map fst es)"
    "\<forall>k v. (k, v) \<in> set es \<longleftrightarrow> inRange ?lo ?hi k \<and> view (db s) k = Some v"
    using pebble_db.dbIter_eq [OF assms(1), of ?lo ?hi s] assms(3) by auto
  have "inRange ?lo ?hi k \<and> view (db s) k = Some v \<longleftrightarrow>
      (\<exists>i<length hs. k = AddressTransactionKey G addr (word_of_nat i) \<and> v = hashBytes (hs ! i))" for k v
    using assms(2) inRange_ff_prefix [of "AddressTransactionKeyPrefix G addr" k]
      AddressTransactionKey_inRange [of G addr]
    unfolding addr_indexed_def by blast
  with es(3) have mem: "(k, v) \<in> set es \<longleftrightarrow> (k, v) \<in> ?f ` {..<length hs}" for k v
    by auto
  have srt: "sorted_wrt (<) (map fst (map ?f [0..<length hs]))"
  proof -
    have "length hs < 2 ^ 64" using assms(2) by (simp add: addr_indexed_def)
    then have "(word_of_nat i :: u64) < word_of_nat j" if "i < j" "j < length hs" for i j
      using that by (simp add: word_less_nat_alt unat_of_nat_u64)
    then show ?thesis
      by (auto simp: sorted_wrt_iff_nth_less AddressTransactionKey_less)
  qed
  have "set es = set (map ?f [0..<length hs])"
    using mem by (auto simp: atLeast0LessThan)
  then have "es = map ?f [0..<length hs]" by (rule sorted_kv_unique [OF es(2) srt])
  with es(1) show ?thesis by simp
qed



text \<open>
  The counters are not restored when a database is reopened (\<open>loadAddressSequences\<close> does
  nothing), so the first transaction indexed after a restart overwrites the oldest entry of the
  address.
\<close>

lemma restart_overwrites_address_index:
  "let d = [(AddressTransactionKey sampleGeth 5 0, hashBytes 21)] in
   \<exists>s s'. NewPebbleStorage memPebble (\<lambda>c. Inr d) (Some (DefaultConfig ''/d'')) = Inr s \<and>
     AddTransactionToAddressIndex memPebble sampleGeth 5 22 s = (Inr (), s') \<and>
     map_of (db s') (AddressTransactionKey sampleGeth 5 0) = Some (hashBytes 22)"
  by (simp add: NewPebbleStorage_def Config_Validate_def DefaultConfig_def loadAddressSequences_def
      loadTransactionCount_def andThen_def wrapping_def catch_def dbGet_def memPebble_def
      AddTransactionToAddressIndex_def guard_simps dbSet_def liftWrite_def Let_def)

end
