(* ===== verification/BlockBatch.thy ===== *)
theory BlockBatch
  imports BlockIndex
begin

text \<open>
  The write batch of the storage (\<^verbatim>\<open>pkg/storage/pebble_batch.go\<close>) and the operations of the
  storage that go through it (\<^verbatim>\<open>SetBlocks\<close>, \<^verbatim>\<open>SetReceipts\<close>). A batch collects writes, counts the
  transactions it has seen, and applies everything at once. The mutex of the batch serialises its
  methods, so each one is a step on the pair of the storage and the batch; \<open>SetBlock\<close> and
  \<open>DeleteBlock\<close> release it around their calls, which are steps of the same kind.
\<close>

record pebbleBatch =
  bOps :: "batch_op list"
  bCount :: int
  bTxCount :: u64
  bClosed :: bool

type_synonym ('db, 'a) bop = "('db storage \<times> pebbleBatch, 'a) op"

definition NewBatch :: pebbleBatch where
  "NewBatch = \<lparr>bOps = [], bCount = 0, bTxCount = 0, bClosed = False\<rparr>"

definition ensureBatchOpen :: "('db, unit) bop" where
  "ensureBatchOpen = (\<lambda>(s, b). if bClosed b then (Inl ErrClosed, (s, b)) else (Inr (), (s, b)))"

definition bAdd :: "'db pebble \<Rightarrow> batch_op \<Rightarrow> ('db, unit) bop" where
  "bAdd P x = (\<lambda>(s, b). case pb_record P (bOps b) x of
     Inl e \<Rightarrow> (Inl (FromPebble e), (s, b))
   | Inr ops \<Rightarrow> (Inr (), (s, b\<lparr>bOps := ops\<rparr>)))"

definition bumpCount :: "int \<Rightarrow> u64 \<Rightarrow> ('db, unit) bop" where
  "bumpCount n t = (\<lambda>(s, b). (Inr (), (s, b\<lparr>bCount := bCount b + n, bTxCount := bTxCount b + t\<rparr>)))"

definition onStorage :: "('db storage, 'a) op \<Rightarrow> ('db, 'a) bop" where
  "onStorage m = (\<lambda>(s, b). case m s of (r, s') \<Rightarrow> (r, (s', b)))"

section \<open>Operations\<close>

definition batch_SetLatestHeight :: "'db pebble \<Rightarrow> u64 \<Rightarrow> ('db, unit) bop" where
  "batch_SetLatestHeight P height =
     andThen ensureBatchOpen (\<lambda>_.
     andThen (bAdd P (BSet LatestHeightKey (EncodeUint64 height))) (\<lambda>_. bumpCount 1 0))"

definition batch_SetTransaction :: "'db pebble \<Rightarrow> geth \<Rightarrow> tx option \<Rightarrow> TxLocation option \<Rightarrow>
    ('db, unit) bop" where
  "batch_SetTransaction P G t location =
     andThen ensureBatchOpen (\<lambda>_.
     andThen (wrapping ''failed to encode transaction'' (EncodeTransaction G t)) (\<lambda>encoded.
     andThen (wrapping ''failed to encode location'' (EncodeTxLocation G location)) (\<lambda>locEncoded.
     (case (t, location) of
        (Some x, Some loc) \<Rightarrow>
          andThen (bAdd P (BSet (TransactionKey (BlockHeight loc) (TxIndex loc)) encoded)) (\<lambda>_.
          andThen (bAdd P (BSet (TransactionHashIndexKey G (tHash x)) locEncoded)) (\<lambda>_.
          bumpCount 2 1))
      | _ \<Rightarrow> throw (Panic ''nil pointer dereference'')))))"

definition batch_SetBlock :: "'db pebble \<Rightarrow> geth \<Rightarrow> block option \<Rightarrow> ('db, unit) bop" where
  "batch_SetBlock P G block =
     andThen ensureBatchOpen (\<lambda>_.
     andThen (wrapping ''failed to encode block'' (EncodeBlock G block)) (\<lambda>encoded.
     (case block of
        None \<Rightarrow> throw (Panic ''nil pointer dereference'')
      | Some b \<Rightarrow>
          andThen (bAdd P (BSet (BlockKey (bNumber b)) encoded)) (\<lambda>_.
          andThen (bAdd P (BSet (BlockHashIndexKey G (bHash b)) (EncodeUint64 (bNumber b)))) (\<lambda>_.
          andThen (bumpCount 2 0) (\<lambda>_.
          forEach (\<lambda>(txIndex, t). wrapping ''failed to store transaction''
              (batch_SetTransaction P G (Some t) (Some (txLocationOf b txIndex))))
            (enumerate 0 (bTxs b))))))))"

definition batch_SetBlocks :: "'db pebble \<Rightarrow> geth \<Rightarrow> block option list \<Rightarrow> ('db, unit) bop" where
  "batch_SetBlocks P G blocks = forEach (batch_SetBlock P G) blocks"

definition batch_SetReceipt :: "'db pebble \<Rightarrow> geth \<Rightarrow> receipt option \<Rightarrow> ('db, unit) bop" where
  "batch_SetReceipt P G receipt =
     andThen ensureBatchOpen (\<lambda>_.
     andThen (check (validateReceipt receipt)) (\<lambda>_.
     andThen (wrapping ''failed to encode receipt'' (EncodeReceipt G receipt)) (\<lambda>encoded.
     (case receipt of
        None \<Rightarrow> throw (Panic ''nil pointer dereference'')
      | Some r \<Rightarrow>
          andThen (bAdd P (BSet (ReceiptKey G (rTxHash r)) encoded)) (\<lambda>_.
          andThen (if rContractAddress r \<noteq> 0
                   then bAdd P (BSet (ContractAddressKey G (rTxHash r)) (addrBytes G (rContractAddress r)))
                   else ret ()) (\<lambda>_.
          bumpCount 1 0))))))"

definition batch_SetReceipts :: "'db pebble \<Rightarrow> geth \<Rightarrow> receipt option list \<Rightarrow> ('db, unit) bop" where
  "batch_SetReceipts P G receipts = forEach (batch_SetReceipt P G) receipts"

definition batch_AddTransactionToAddressIndex :: "'db pebble \<Rightarrow> geth \<Rightarrow> address \<Rightarrow> hash \<Rightarrow>
    ('db, unit) bop" where
  "batch_AddTransactionToAddressIndex P G addr txHash =
     andThen ensureBatchOpen (\<lambda>_.
     andThen (\<lambda>(s, b). let sq = addrSeq s addr in
        (Inr sq, (s\<lparr>addrSeq := (addrSeq s)(addr := sq + 1)\<rparr>, b))) (\<lambda>sq.
     andThen (bAdd P (BSet (AddressTransactionKey G addr sq) (hashBytes txHash))) (\<lambda>_.
     bumpCount 1 0)))"

definition batch_DeleteBlock :: "'db pebble \<Rightarrow> geth \<Rightarrow> u64 \<Rightarrow> ('db, unit) bop" where
  "batch_DeleteBlock P G height =
     andThen ensureBatchOpen (\<lambda>_ sb.
     case onStorage (GetBlock P G height) sb of
       (Inl e, sb') \<Rightarrow>
         if e = ErrNotFound then (Inr (), sb')
         else (Inl (Wrap ''failed to get block for deletion'' e), sb')
     | (Inr b, sb') \<Rightarrow>
         andThen (bAdd P (BDelete (BlockHashIndexKey G (bHash b)))) (\<lambda>_.
         andThen (bAdd P (BDelete (BlockKey height))) (\<lambda>_.
         bumpCount 2 0)) sb')"

text \<open>
  \<^verbatim>\<open>Commit\<close> advances the storage's counter, records it in the batch, and commits. When the counter
  cannot be recorded it is taken back (adding the complement of \<open>txCount - 1\<close>); when the
  commit fails it is not.
\<close>

definition batch_Commit :: "'db pebble \<Rightarrow> ('db, unit) bop" where
  "batch_Commit P =
     andThen ensureBatchOpen (\<lambda>_.
     andThen (\<lambda>(s, b).
       if bTxCount b > 0
       then let newCount = txCount s + bTxCount b;
                s1 = s\<lparr>txCount := newCount\<rparr>
            in case bAdd P (BSet TransactionCountKey (EncodeUint64 newCount)) (s1, b) of
                 (Inl e, (s2, b2)) \<Rightarrow>
                   (Inl (Wrap ''failed to update transaction count'' e),
                    (s2\<lparr>txCount := txCount s2 + not (bTxCount b2 - 1)\<rparr>, b2))
               | (Inr _, sb) \<Rightarrow> (Inr (), sb)
       else (Inr (), (s, b))) (\<lambda>_ (s, b).
     onStorage (dbCommit P (bOps b)) (s, b)))"

definition batch_Reset :: "('db, unit) bop" where
  "batch_Reset = (\<lambda>(s, b). (Inr (), (s, b\<lparr>bOps := [], bCount := 0, bTxCount := 0\<rparr>)))"

definition batch_Count :: "pebbleBatch \<Rightarrow> int" where
  "batch_Count b = bCount b"

text \<open>\<open>closeErr\<close> is the result of closing the database's own batch.\<close>

definition batch_Close :: "perror option \<Rightarrow> ('db, unit) bop" where
  "batch_Close closeErr = (\<lambda>(s, b).
     if bClosed b then (Inr (), (s, b))
     else case closeErr of
         None \<Rightarrow> (Inr (), (s, b\<lparr>bClosed := True\<rparr>))
       | Some e \<Rightarrow> (Inl (FromPebble e), (s, b\<lparr>bClosed := True\<rparr>)))"

text \<open>The storage operations that run a whole batch; the deferred close discards its error.\<close>

definition runBatch :: "('db, unit) bop \<Rightarrow> ('db storage, unit) op" where
  "runBatch m = (\<lambda>s. case m (s, NewBatch) of (r, (s', b)) \<Rightarrow> (r, s'))"

definition SetBlocks :: "'db pebble \<Rightarrow> geth \<Rightarrow> block option list \<Rightarrow> ('db storage, unit) op" where
  "SetBlocks P G blocks = writable (runBatch
     (andThen (forEach (\<lambda>b. wrapping ''failed to add block to batch'' (batch_SetBlock P G b)) blocks)
       (\<lambda>_. batch_Commit P)))"

definition SetReceipts :: "'db pebble \<Rightarrow> geth \<Rightarrow> receipt option list \<Rightarrow> ('db storage, unit) op" where
  "SetReceipts P G receipts = writable (runBatch
     (andThen (forEach (\<lambda>r. wrapping ''failed to add receipt to batch'' (batch_SetReceipt P G r)) receipts)
       (\<lambda>_. batch_Commit P)))"

section \<open>Preparing a batch does not touch the storage\<close>

definition same_storage :: "'db storage \<times> pebbleBatch \<Rightarrow> 'db storage \<times> pebbleBatch \<Rightarrow> bool" where
  "same_storage x y \<longleftrightarrow> fst y = fst x \<and> bClosed (snd y) = bClosed (snd x)"

lemma reflp_same_storage [simp]: "reflp same_storage"
  by (simp add: reflp_def same_storage_def)

lemma transp_same_storage [simp]: "transp same_storage"
  by (simp add: transp_def same_storage_def)

lemma keeps_ensureBatchOpen [inv_intros]: "keeps same_storage ensureBatchOpen"
  by (simp add: keeps_def same_storage_def ensureBatchOpen_def split: prod.splits)

lemma keeps_bAdd [inv_intros]: "keeps same_storage (bAdd P x)"
  by (auto simp: keeps_def same_storage_def bAdd_def split: prod.splits sum.splits)

lemma keeps_bumpCount [inv_intros]: "keeps same_storage (bumpCount n t)"
  by (simp add: keeps_def same_storage_def bumpCount_def split: prod.splits)

lemma keeps_check [inv_intros]: "reflp R \<Longrightarrow> keeps R (check e)"
  by (cases e) (simp_all add: check_def keeps_ret keeps_throw)

lemma keeps_batch_SetTransaction [inv_intros]:
  "keeps same_storage (batch_SetTransaction P G t loc)"
  unfolding batch_SetTransaction_def EncodeTransaction_def EncodeTxLocation_def
  by (cases t; cases loc) (auto intro!: inv_intros)

lemma keeps_batch_SetBlock [inv_intros]: "keeps same_storage (batch_SetBlock P G b)"
  unfolding batch_SetBlock_def EncodeBlock_def
  by (cases b) (auto intro!: inv_intros split: prod.splits)

lemma keeps_batch_SetReceipt [inv_intros]: "keeps same_storage (batch_SetReceipt P G r)"
  unfolding batch_SetReceipt_def EncodeReceipt_def
  by (cases r) (auto intro!: inv_intros)

section \<open>What a prepared batch holds\<close>

definition setTxOps :: "geth \<Rightarrow> block \<Rightarrow> nat \<times> tx \<Rightarrow> batch_op list" where
  "setTxOps G b = txOps G b (\<lambda>_. None)"

definition setBlockOps :: "geth \<Rightarrow> block \<Rightarrow> batch_op list" where
  "setBlockOps G b =
     [BSet (BlockKey (bNumber b)) (the (rlpEncodeBlock G b)),
      BSet (BlockHashIndexKey G (bHash b)) (EncodeUint64 (bNumber b))] @
     concat (map (setTxOps G b) (enumerate 0 (bTxs b)))"

text \<open>\<open>grows x y ops n\<close>: from \<open>x\<close> to \<open>y\<close> the batch has gained \<open>ops\<close> and \<open>n\<close> transactions.\<close>

definition grows :: "'db storage \<times> pebbleBatch \<Rightarrow> 'db storage \<times> pebbleBatch \<Rightarrow> batch_op list \<Rightarrow>
    nat \<Rightarrow> bool" where
  "grows x y ops n \<longleftrightarrow> bOps (snd y) = bOps (snd x) @ ops \<and>
     bTxCount (snd y) = bTxCount (snd x) + word_of_nat n"

lemma grows_refl [simp]: "grows x x [] 0"
  by (simp add: grows_def)

lemma grows_trans: "grows x y a n \<Longrightarrow> grows y z b m \<Longrightarrow> grows x z (a @ b) (n + m)"
  by (simp add: grows_def)

context chain_store
begin

lemma bAdd_Inr: "bAdd P x sb = (Inr u, sb') \<Longrightarrow> grows sb sb' [x] 0"
  by (auto simp: bAdd_def grows_def dest: record_ok split: prod.splits sum.splits)

lemma ensureBatchOpen_Inr: "ensureBatchOpen sb = (Inr u, sb') \<Longrightarrow> sb' = sb \<and> \<not> bClosed (snd sb)"
  by (auto simp: ensureBatchOpen_def split: prod.splits if_splits)

lemma bumpCount_Inr: "bumpCount c t sb = (Inr u, sb') \<Longrightarrow>
    bOps (snd sb') = bOps (snd sb) \<and> bTxCount (snd sb') = bTxCount (snd sb) + t"
  by (auto simp: bumpCount_def split: prod.splits)

lemma batch_SetTransaction_Inr:
  "batch_SetTransaction P G (Some t) (Some (txLocationOf b i)) sb = (Inr u, sb') \<Longrightarrow>
   grows sb sb' (setTxOps G b (i, t)) 1 \<and> rlpEncodeTx G t \<noteq> None \<and> rlpEncodeLoc G (txLocationOf b i) \<noteq> None"
  by (auto simp: batch_SetTransaction_def EncodeTransaction_def EncodeTxLocation_def andThen_eq_Inr
      setTxOps_def receiptOps_def grows_def txLocationOf_def
      dest!: bAdd_Inr ensureBatchOpen_Inr bumpCount_Inr)

lemma batch_txs_Inr:
  "forEach (\<lambda>(txIndex, t). wrapping m
      (batch_SetTransaction P G (Some t) (Some (txLocationOf b txIndex)))) es sb = (Inr u, sb') \<Longrightarrow>
   grows sb sb' (concat (map (setTxOps G b) es)) (length es) \<and>
   (\<forall>(i, t)\<in>set es. rlpEncodeTx G t \<noteq> None \<and> rlpEncodeLoc G (txLocationOf b i) \<noteq> None)"
proof (induction es arbitrary: sb)
  case (Cons e es)
  obtain i t where e: "e = (i, t)" by fastforce
  obtain w sb1 where 1: "batch_SetTransaction P G (Some t) (Some (txLocationOf b i)) sb = (Inr w, sb1)"
    and 2: "forEach (\<lambda>(txIndex, t). wrapping m
      (batch_SetTransaction P G (Some t) (Some (txLocationOf b txIndex)))) es sb1 = (Inr u, sb')"
    using Cons.prems e by (auto simp: andThen_eq_Inr)
  from batch_SetTransaction_Inr [OF 1] Cons.IH [OF 2] e show ?case
    using grows_trans [of sb sb1 "setTxOps G b (i, t)" 1 sb' "concat (map (setTxOps G b) es)" "length es"]
    by auto
qed simp

lemma batch_SetBlock_Inr:
  assumes "batch_SetBlock P G (Some b) sb = (Inr u, sb')"
  shows "grows sb sb' (setBlockOps G b) (length (bTxs b)) \<and> rlpEncodeBlock G b \<noteq> None"
proof -
  obtain e sb1 sb2 sb3 where e: "rlpEncodeBlock G b = Some e"
    and w: "bAdd P (BSet (BlockKey (bNumber b)) e) sb = (Inr (), sb1)"
      "bAdd P (BSet (BlockHashIndexKey G (bHash b)) (EncodeUint64 (bNumber b))) sb1 = (Inr (), sb2)"
      "bumpCount 2 0 sb2 = (Inr (), sb3)"
      "forEach (\<lambda>(txIndex, t). wrapping ''failed to store transaction''
         (batch_SetTransaction P G (Some t) (Some (txLocationOf b txIndex))))
         (enumerate 0 (bTxs b)) sb3 = (Inr u, sb')"
    using assms
    by (auto simp: batch_SetBlock_def EncodeBlock_def andThen_eq_Inr dest!: ensureBatchOpen_Inr)
  from bAdd_Inr [OF w(1)] bAdd_Inr [OF w(2)] bumpCount_Inr [OF w(3)] batch_txs_Inr [OF w(4)] e
  show ?thesis by (simp add: grows_def setBlockOps_def)
qed

lemma batch_blocks_Inr:
  "forEach (\<lambda>b. wrapping m (batch_SetBlock P G b)) (map Some bs) sb = (Inr u, sb') \<Longrightarrow>
   grows sb sb' (concat (map (setBlockOps G) bs)) (sum_list (map (\<lambda>b. length (bTxs b)) bs)) \<and>
   (\<forall>b\<in>set bs. rlpEncodeBlock G b \<noteq> None)"
proof (induction bs arbitrary: sb)
  case (Cons b bs)
  obtain w sb1 where 1: "batch_SetBlock P G (Some b) sb = (Inr w, sb1)"
    and 2: "forEach (\<lambda>b. wrapping m (batch_SetBlock P G b)) (map Some bs) sb1 = (Inr u, sb')"
    using Cons.prems by (auto simp: andThen_eq_Inr)
  from batch_SetBlock_Inr [OF 1] Cons.IH [OF 2] show ?case
    by (auto intro: grows_trans)
qed simp

end

section \<open>Commit\<close>

definition countOps :: "'db storage \<Rightarrow> pebbleBatch \<Rightarrow> batch_op list" where
  "countOps s b = (if bTxCount b > 0
     then [BSet TransactionCountKey (EncodeUint64 (txCount s + bTxCount b))] else [])"

lemma batch_Commit_open:
  assumes "\<not> bClosed b"
  shows "batch_Commit P (s, b) =
    (if bTxCount b > 0
     then (case pb_record P (bOps b) (BSet TransactionCountKey (EncodeUint64 (txCount s + bTxCount b))) of
         Inl e \<Rightarrow> (Inl (Wrap ''failed to update transaction count'' (FromPebble e)), (s, b))
       | Inr ops \<Rightarrow> onStorage (dbCommit P ops) (s\<lparr>txCount := txCount s + bTxCount b\<rparr>, b\<lparr>bOps := ops\<rparr>))
     else onStorage (dbCommit P (bOps b)) (s, b))"
proof -
  have "txCount s + bTxCount b + not (bTxCount b - 1) = txCount s"
    by (simp add: not_eq_complement)
  with assms show ?thesis
    by (simp add: batch_Commit_def ensureBatchOpen_def andThen_def bAdd_def Let_def split: sum.splits)
qed

lemma batch_Commit_closed: "bClosed b \<Longrightarrow> batch_Commit P (s, b) = (Inl ErrClosed, (s, b))"
  by (simp add: batch_Commit_def ensureBatchOpen_def andThen_def)

context chain_store
begin

lemma onStorage_dbCommit:
  assumes "onStorage (dbCommit P ops) (s, b) = (r, (s', b'))"
  shows "case r of Inl e \<Rightarrow> view (db s') = view (db s)
    | Inr _ \<Rightarrow> view (db s') = apply_ops (view (db s)) ops \<and> only_db s s'"
  using assms dbCommit_Inr [of ops s] dbCommit_Inl [of ops s]
  by (cases "dbCommit P ops s") (auto simp: onStorage_def split: sum.splits)

lemma batch_Commit_cases:
  assumes "batch_Commit P (s, b) = (r, (s', b'))"
  shows "case r of Inl e \<Rightarrow> view (db s') = view (db s)
    | Inr _ \<Rightarrow> view (db s') = apply_ops (view (db s)) (bOps b @ countOps s b) \<and>
        txCount s' = txCount s + bTxCount b \<and> closed s' = closed s \<and> config s' = config s"
proof -
  consider (shut) "bClosed b" | (none) "\<not> bClosed b" "\<not> bTxCount b > 0"
    | (err) e where "\<not> bClosed b" "bTxCount b > 0" "pb_record P (bOps b)
        (BSet TransactionCountKey (EncodeUint64 (txCount s + bTxCount b))) = Inl e"
    | (rec) ops where "\<not> bClosed b" "bTxCount b > 0" "pb_record P (bOps b)
        (BSet TransactionCountKey (EncodeUint64 (txCount s + bTxCount b))) = Inr ops"
    by (metis old.sum.exhaust)
  then show ?thesis
  proof cases
    case shut
    with assms show ?thesis by (auto simp: batch_Commit_closed)
  next
    case none
    then have "bTxCount b = 0" by (simp add: word_neq_0_conv [symmetric])
    with none assms onStorage_dbCommit [of "bOps b" s b r s' b'] show ?thesis
      by (auto simp: batch_Commit_open countOps_def only_db_def split: sum.splits)
  next
    case err
    with assms show ?thesis by (auto simp: batch_Commit_open)
  next
    case rec
    with assms record_ok [OF rec(3)]
      onStorage_dbCommit [of ops "s\<lparr>txCount := txCount s + bTxCount b\<rparr>" "b\<lparr>bOps := ops\<rparr>" r s' b']
    show ?thesis
      by (auto simp: batch_Commit_open countOps_def only_db_def split: sum.splits)
  qed
qed

lemma runBatch_atomic:
  assumes "keeps same_storage m"
    and "runBatch (andThen m (\<lambda>_. batch_Commit P)) s = (r, s')"
  shows "case r of Inl e \<Rightarrow> view (db s') = view (db s)
    | Inr _ \<Rightarrow> \<exists>b w. m (s, NewBatch) = (Inr w, (s, b)) \<and>
        view (db s') = apply_ops (view (db s)) (bOps b @ countOps s b) \<and>
        txCount s' = txCount s + bTxCount b \<and> closed s' = closed s"
proof -
  obtain q s1 b1 where m: "m (s, NewBatch) = (q, (s1, b1))" by (metis surj_pair)
  have "s1 = s" using assms(1) m unfolding keeps_def same_storage_def by (metis fst_conv snd_conv)
  show ?thesis
  proof (cases q)
    case (Inl e)
    with m assms(2) \<open>s1 = s\<close> show ?thesis by (auto simp: runBatch_def)
  next
    case (Inr w)
    obtain q2 s2 b2 where c: "batch_Commit P (s, b1) = (q2, (s2, b2))" by (metis surj_pair)
    have "r = q2" "s' = s2" using m c Inr assms(2) \<open>s1 = s\<close> by (auto simp: runBatch_def)
    then show ?thesis
      using c m Inr \<open>s1 = s\<close> batch_Commit_cases [OF c] by (cases q2) auto
  qed
qed

end

section \<open>Properties\<close>

text \<open>
  \<^verbatim>\<open>SetBlocks\<close> is all or nothing. When it reports an error no key of the database has changed;
  when it reports success the writes of all its blocks, in order, and the new transaction count
  have been applied, and the counter has grown by the number of their transactions.
\<close>

theorem SetBlocks_atomic:
  assumes "pebble_db P view" "geth_codec G"
    and "SetBlocks P G (map Some bs) s = (r, s')"
  shows "case r of
      Inl e \<Rightarrow> view (db s') = view (db s)
    | Inr _ \<Rightarrow>
        (let n = word_of_nat (sum_list (map (\<lambda>b. length (bTxs b)) bs)) :: u64 in
         view (db s') = apply_ops (view (db s)) (concat (map (setBlockOps G) bs) @
           (if n > 0 then [BSet TransactionCountKey (EncodeUint64 (txCount s + n))] else []))
         \<and> txCount s' = txCount s + n)"
proof (cases "ready s")
  case False
  then show ?thesis
    using assms(3) by (auto simp: SetBlocks_def guard_simps ready_def split: if_splits)
next
  case True
  note cs = chain_store_intro [OF assms(1,2)]
  let ?m = "forEach (\<lambda>b. wrapping ''failed to add block to batch'' (batch_SetBlock P G b)) (map Some bs)"
  have run: "runBatch (andThen ?m (\<lambda>_. batch_Commit P)) s = (r, s')"
    using assms(3) True by (simp add: SetBlocks_def guard_simps ready_def)
  have "keeps same_storage ?m" by (auto intro!: inv_intros)
  note a = chain_store.runBatch_atomic [OF cs this run]
  show ?thesis
  proof (cases r)
    case (Inl e)
    with a show ?thesis by simp
  next
    case (Inr u)
    with a obtain b w where "?m (s, NewBatch) = (Inr w, (s, b))"
      "view (db s') = apply_ops (view (db s)) (bOps b @ countOps s b)"
      "txCount s' = txCount s + bTxCount b"
      by auto
    with chain_store.batch_blocks_Inr [OF cs this(1)] Inr show ?thesis
      by (simp add: grows_def NewBatch_def countOps_def Let_def)
  qed
qed

theorem SetBlocks_atomic_witness:
  "\<exists>s'. SetBlocks memPebble sampleGeth (map Some [sampleBlock]) (emptyStorage []) = (Inr (), s') \<and>
     txCount s' = 1 \<and> map_of (db s') = apply_ops Map.empty
       (setBlockOps sampleGeth sampleBlock @ [BSet TransactionCountKey (EncodeUint64 1)])"
proof -
  have "fst (SetBlocks memPebble sampleGeth (map Some [sampleBlock]) (emptyStorage [])) = Inr ()"
    by (simp add: SetBlocks_def guard_simps emptyStorage_def DefaultConfig_def runBatch_def
        batch_Commit_def ensureBatchOpen_def NewBatch_def andThen_def onStorage_def dbCommit_def
        liftWrite_def memPebble_def batch_SetBlock_def EncodeBlock_def batch_SetTransaction_def
        EncodeTransaction_def EncodeTxLocation_def bAdd_def bumpCount_def wrapping_def catch_def
        fromOption_def sampleGeth_def sampleLoc_eq refGeth_def sample_defs Let_def)
  then obtain s' where s': "SetBlocks memPebble sampleGeth (map Some [sampleBlock]) (emptyStorage [])
      = (Inr (), s')"
    by (metis prod.collapse)
  from SetBlocks_atomic [OF memPebble.pebble_db_axioms geth_codec_sample s'] s' show ?thesis
    by (simp add: emptyStorage_def sampleBlock_def)
qed

text \<open>
  C30: a batch whose counter update cannot be recorded takes the counter back exactly, also when
  it wrapped around: after the failed \<^verbatim>\<open>Commit\<close> the storage is as it was.
\<close>

theorem batch_Commit_rollback:
  assumes "\<not> bClosed b" "bTxCount b > 0"
    and "pb_record P (bOps b) (BSet TransactionCountKey (EncodeUint64 (txCount s + bTxCount b))) = Inl e"
  shows "batch_Commit P (s, b) =
    (Inl (Wrap ''failed to update transaction count'' (FromPebble e)), (s, b))"
  using assms by (simp add: batch_Commit_open)

theorem batch_Commit_rollback_witness:
  "batch_Commit (memPebble\<lparr>pb_record := (\<lambda>ops x. Inl (PFault ''batch too large''))\<rparr>)
     (emptyStorage []\<lparr>txCount := - 1\<rparr>, NewBatch\<lparr>bTxCount := 3\<rparr>)
   = (Inl (Wrap ''failed to update transaction count'' (FromPebble (PFault ''batch too large''))),
      (emptyStorage []\<lparr>txCount := - 1\<rparr>, NewBatch\<lparr>bTxCount := 3\<rparr>))"
  by (rule batch_Commit_rollback) (simp_all add: NewBatch_def)

end
