(* ===== verification/Gaps.thy ===== *)
theory Gaps
  imports BlockIndex
begin

text \<open>
  Gap detection and receipt recovery of the fetcher (\<^verbatim>\<open>pkg/fetch/fetcher_gaps.go\<close>). The fetcher
  sees the storage through an interface: the scans take its two queries as arguments, and the
  locale \<open>presence\<close> says what they answer. The node it asks for receipts is a parameter, a function
  from the height to the receipts, none of them nil, or an error. \<open>cancelled h\<close> says whether the context is done when
  the loop reaches \<open>h\<close>. Logging is left out.
\<close>

section \<open>Scanning for gaps\<close>

record GapRange =
  gStart :: u64
  gEnd :: u64

definition GapRange_Size :: "GapRange \<Rightarrow> u64" where
  "GapRange_Size g = (if gEnd g < gStart g then 0 else gEnd g - gStart g + 1)"

record ReceiptGapInfo =
  rgBlockNumber :: u64
  rgMissing :: "hash list"

text \<open>
  The loops count heights in 64 bits; with the largest end height the condition is always true, so
  they are partial functions, \<open>None\<close> standing for a run that does not end.
\<close>

partial_function (option) DetectGaps_loop :: "(u64 \<Rightarrow> ('s, bool) op) \<Rightarrow> (u64 \<Rightarrow> bool) \<Rightarrow> u64 \<Rightarrow> u64 \<Rightarrow>
    u64 \<Rightarrow> bool \<Rightarrow> GapRange list \<Rightarrow> 's \<Rightarrow> ((GapRange list \<times> serror option) \<times> 's) option" where
  "DetectGaps_loop hasBlock cancelled height endHeight gapStart inGap gaps s =
     (if height \<le> endHeight then
        if cancelled height then Some ((gaps, Some ErrContext), s)
        else case hasBlock height s of
            (Inl e, s') \<Rightarrow> Some (([], Some (Wrap ''failed to check block'' e)), s')
          | (Inr exists, s') \<Rightarrow>
              if \<not> exists then
                DetectGaps_loop hasBlock cancelled (height + 1) endHeight
                  (if inGap then gapStart else height) True gaps s'
              else if inGap then
                DetectGaps_loop hasBlock cancelled (height + 1) endHeight gapStart False
                  (gaps @ [\<lparr>gStart = gapStart, gEnd = height - 1\<rparr>]) s'
              else DetectGaps_loop hasBlock cancelled (height + 1) endHeight gapStart False gaps s'
      else if inGap then Some ((gaps @ [\<lparr>gStart = gapStart, gEnd = endHeight\<rparr>], None), s)
      else Some ((gaps, None), s))"

definition DetectGaps :: "(u64 \<Rightarrow> ('s, bool) op) \<Rightarrow> (u64 \<Rightarrow> bool) \<Rightarrow> u64 \<Rightarrow> u64 \<Rightarrow> 's \<Rightarrow>
    ((GapRange list \<times> serror option) \<times> 's) option" where
  "DetectGaps hasBlock cancelled startHeight endHeight s =
     DetectGaps_loop hasBlock cancelled startHeight endHeight 0 False [] s"

partial_function (option) DetectReceiptGaps_loop :: "(u64 \<Rightarrow> ('s, bool) op) \<Rightarrow> (u64 \<Rightarrow> ('s, hash list) op) \<Rightarrow>
    (u64 \<Rightarrow> bool) \<Rightarrow> u64 \<Rightarrow> u64 \<Rightarrow> ReceiptGapInfo list \<Rightarrow> 's \<Rightarrow>
    ((ReceiptGapInfo list \<times> serror option) \<times> 's) option" where
  "DetectReceiptGaps_loop hasBlock missing cancelled height endHeight gaps s =
     (if height \<le> endHeight then
        if cancelled height then Some ((gaps, Some ErrContext), s)
        else case hasBlock height s of
            (Inl e, s') \<Rightarrow> Some (([], Some (Wrap ''failed to check block'' e)), s')
          | (Inr exists, s') \<Rightarrow>
              if \<not> exists then
                DetectReceiptGaps_loop hasBlock missing cancelled (height + 1) endHeight gaps s'
              else case missing height s' of
                  (Inl e, s'') \<Rightarrow>
                    DetectReceiptGaps_loop hasBlock missing cancelled (height + 1) endHeight gaps s''
                | (Inr ms, s'') \<Rightarrow>
                    DetectReceiptGaps_loop hasBlock missing cancelled (height + 1) endHeight
                      (if ms \<noteq> [] then gaps @ [\<lparr>rgBlockNumber = height, rgMissing = ms\<rparr>] else gaps) s''
      else Some ((gaps, None), s))"

definition DetectReceiptGaps :: "(u64 \<Rightarrow> ('s, bool) op) \<Rightarrow> (u64 \<Rightarrow> ('s, hash list) op) \<Rightarrow> (u64 \<Rightarrow> bool) \<Rightarrow>
    u64 \<Rightarrow> u64 \<Rightarrow> 's \<Rightarrow> ((ReceiptGapInfo list \<times> serror option) \<times> 's) option" where
  "DetectReceiptGaps hasBlock missing cancelled startHeight endHeight s =
     DetectReceiptGaps_loop hasBlock missing cancelled startHeight endHeight [] s"

section \<open>Filling receipt gaps\<close>

text \<open>The lookup table by transaction hash; a later receipt replaces an earlier one.\<close>

fun receiptTable :: "receipt list \<Rightarrow> (hash \<Rightarrow> receipt option) \<Rightarrow> hash \<Rightarrow> receipt option" where
  "receiptTable [] m = m"
| "receiptTable (r # rs) m = receiptTable rs (m(rTxHash r := Some r))"

definition storeMissing :: "(receipt \<Rightarrow> ('s, unit) op) \<Rightarrow> (hash \<Rightarrow> receipt option) \<Rightarrow> hash list \<Rightarrow>
    ('s, unit) op" where
  "storeMissing setReceipt table = forEach (\<lambda>h.
     case table h of
       None \<Rightarrow> ret ()
     | Some r \<Rightarrow> wrapping ''failed to store receipt for tx'' (setReceipt r))"

definition FillReceiptGap :: "(u64 \<Rightarrow> serror + receipt list) \<Rightarrow> (receipt \<Rightarrow> ('s, unit) op) \<Rightarrow>
    ReceiptGapInfo \<Rightarrow> ('s, unit) op" where
  "FillReceiptGap getBlockReceipts setReceipt gap =
     (case getBlockReceipts (rgBlockNumber gap) of
        Inl e \<Rightarrow> throw (Wrap ''failed to fetch receipts for block'' e)
      | Inr receipts \<Rightarrow> storeMissing setReceipt (receiptTable receipts (\<lambda>_. None)) (rgMissing gap))"

text \<open>The context is looked at before every gap; \<open>cancelled i\<close> is its state before gap number \<open>i\<close>.\<close>

fun FillReceiptGaps :: "(u64 \<Rightarrow> serror + receipt list) \<Rightarrow> (receipt \<Rightarrow> ('s, unit) op) \<Rightarrow> (nat \<Rightarrow> bool) \<Rightarrow>
    nat \<Rightarrow> ReceiptGapInfo list \<Rightarrow> ('s, unit) op" where
  "FillReceiptGaps getBlockReceipts setReceipt cancelled i [] = ret ()"
| "FillReceiptGaps getBlockReceipts setReceipt cancelled i (gap # gaps) =
     (if cancelled i then throw ErrContext
      else andThen (wrapping ''failed to fill receipt gap'' (FillReceiptGap getBlockReceipts setReceipt gap))
        (\<lambda>_. FillReceiptGaps getBlockReceipts setReceipt cancelled (Suc i) gaps))"

section \<open>What the scans rely on\<close>

text \<open>
  While the storage is usable, the first query says whether a block is present and the second
  lists the receipts it lacks, neither changing the storage.
\<close>

locale presence =
  fixes hasBlock :: "u64 \<Rightarrow> ('s, bool) op" and missing :: "u64 \<Rightarrow> ('s, hash list) op"
    and usable :: "'s \<Rightarrow> bool" and present :: "'s \<Rightarrow> u64 \<Rightarrow> bool" and lacks :: "'s \<Rightarrow> u64 \<Rightarrow> hash list"
  assumes hasBlock: "usable s \<Longrightarrow> hasBlock h s = (Inr (present s h), s)"
    and missing: "usable s \<Longrightarrow> present s h \<Longrightarrow> missing h s = (Inr (lacks s h), s) \<or>
      (\<exists>e. missing h s = (Inl e, s)) \<and> lacks s h = []"

text \<open>The ranges found so far and the open one cover exactly the absent heights below the current one.\<close>

definition covered :: "GapRange list \<Rightarrow> u64 \<Rightarrow> bool" where
  "covered gaps h \<longleftrightarrow> (\<exists>g\<in>set gaps. gStart g \<le> h \<and> h \<le> gEnd g)"

definition separated :: "GapRange list \<Rightarrow> bool" where
  "separated gaps \<longleftrightarrow> sorted_wrt (\<lambda>a b. unat (gEnd a) + 1 < unat (gStart b)) gaps"

definition gap_inv :: "(u64 \<Rightarrow> bool) \<Rightarrow> u64 \<Rightarrow> u64 \<Rightarrow> u64 \<Rightarrow> bool \<Rightarrow> GapRange list \<Rightarrow> bool" where
  "gap_inv there lo height gapStart inGap gaps \<longleftrightarrow>
     lo \<le> height \<and> separated gaps \<and>
     (\<forall>g\<in>set gaps. lo \<le> gStart g \<and> gStart g \<le> gEnd g \<and>
        unat (gEnd g) + 1 < unat (if inGap then gapStart else height)) \<and>
     (inGap \<longrightarrow> lo \<le> gapStart \<and> gapStart < height) \<and>
     (\<forall>h. lo \<le> h \<and> h < height \<longrightarrow> (\<not> there h) = (covered gaps h \<or> inGap \<and> gapStart \<le> h))"

lemma covered_snoc [simp]:
  "covered (gaps @ [\<lparr>gStart = a, gEnd = b\<rparr>]) h \<longleftrightarrow> covered gaps h \<or> a \<le> h \<and> h \<le> b"
  by (auto simp: covered_def)

lemma covered_less:
  "(\<forall>g\<in>set gaps. unat (gEnd g) + 1 < unat x) \<Longrightarrow> x \<le> h + 1 \<Longrightarrow> h < - 1 \<Longrightarrow> \<not> covered gaps h"
  by (auto simp: covered_def word_le_nat_alt unat_succ_u64)

lemma gap_inv_absent:
  assumes "gap_inv there lo height gapStart inGap gaps" "height < - 1" "\<not> there height"
  shows "gap_inv there lo (height + 1) (if inGap then gapStart else height) True gaps"
proof -
  have s: "h < height + 1 \<longleftrightarrow> h < height \<or> h = height" for h using assms(2) by (rule less_succ_u64)
  have "lo \<le> height + 1" using assms by (auto simp: gap_inv_def intro: le_succ_u64)
  then show ?thesis using assms by (cases inGap) (auto simp: gap_inv_def s)
qed

lemma gap_inv_present:
  assumes "gap_inv there lo height gapStart False gaps" "height < - 1" "there height"
  shows "gap_inv there lo (height + 1) gapStart False gaps"
proof -
  have s: "h < height + 1 \<longleftrightarrow> h < height \<or> h = height" for h using assms(2) by (rule less_succ_u64)
  have "\<forall>g\<in>set gaps. unat (gEnd g) + 1 < unat height" using assms(1) by (simp add: gap_inv_def)
  moreover from this have "\<not> covered gaps height"
    by (auto simp: covered_def word_le_nat_alt)
  moreover have "lo \<le> height + 1" using assms by (auto simp: gap_inv_def intro: le_succ_u64)
  ultimately show ?thesis using assms by (auto simp: gap_inv_def s unat_succ_u64)
qed

lemma gap_inv_close:
  assumes "gap_inv there lo height gapStart True gaps" "height < - 1" "there height"
  shows "gap_inv there lo (height + 1) x False (gaps @ [\<lparr>gStart = gapStart, gEnd = height - 1\<rparr>])"
proof -
  have s: "h < height + 1 \<longleftrightarrow> h < height \<or> h = height" for h using assms(2) by (rule less_succ_u64)
  have g: "lo \<le> gapStart" "gapStart < height" "separated gaps"
    "\<forall>g\<in>set gaps. lo \<le> gStart g \<and> gStart g \<le> gEnd g \<and> unat (gEnd g) + 1 < unat gapStart"
    using assms(1) by (simp_all add: gap_inv_def)
  have m: "unat (height - 1) = unat height - 1" "0 < unat height"
  proof -
    show "0 < unat height" using g(2) by (simp add: word_less_nat_alt)
    then have "height \<noteq> 0" by auto
    then show "unat (height - 1) = unat height - 1" by (rule unat_minus_one)
  qed
  then have le: "h \<le> height - 1 \<longleftrightarrow> h < height" for h
    by (auto simp: word_le_nat_alt word_less_nat_alt)
  have "\<not> covered gaps height"
    using g(2,4) by (fastforce simp: covered_def word_le_nat_alt word_less_nat_alt)
  moreover have "lo \<le> height + 1" using assms by (auto simp: gap_inv_def intro: le_succ_u64)
  moreover have "separated (gaps @ [\<lparr>gStart = gapStart, gEnd = height - 1\<rparr>])"
    using g by (simp add: separated_def sorted_wrt_append)
  moreover have "\<forall>g\<in>set gaps. unat (gEnd g) + 1 < unat (height + 1)"
    using g(2,4) unat_succ_u64 [OF assms(2)] by (fastforce simp: word_less_nat_alt)
  ultimately show ?thesis using assms g m unat_succ_u64 [OF assms(2)]
    by (auto simp: gap_inv_def s le)
qed

text \<open>
  \<open>gaps_exact there lo hi gaps\<close>: the ranges lie between \<open>lo\<close> and \<open>hi\<close>, are in ascending order with a
  present height between each two, and hold exactly the absent heights. There is only one such list.
\<close>

definition gaps_exact :: "(u64 \<Rightarrow> bool) \<Rightarrow> u64 \<Rightarrow> u64 \<Rightarrow> GapRange list \<Rightarrow> bool" where
  "gaps_exact there lo hi gaps \<longleftrightarrow> separated gaps \<and>
     (\<forall>g\<in>set gaps. lo \<le> gStart g \<and> gStart g \<le> gEnd g \<and> gEnd g \<le> hi) \<and>
     (\<forall>h. lo \<le> h \<and> h \<le> hi \<longrightarrow> (\<not> there h) = covered gaps h)"

lemma gap_inv_end:
  assumes "gap_inv there lo (hi + 1) gapStart inGap gaps" "hi < - 1"
  shows "gaps_exact there lo hi (if inGap then gaps @ [\<lparr>gStart = gapStart, gEnd = hi\<rparr>] else gaps)"
proof -
  have s: "h < hi + 1 \<longleftrightarrow> h \<le> hi" for h using less_succ_u64 [OF assms(2), of h] by auto
  have u: "unat (hi + 1) = unat hi + 1" using assms(2) by (rule unat_succ_u64)
  show ?thesis
  proof (cases inGap)
    case True
    then have g: "lo \<le> gapStart" "gapStart \<le> hi" "separated gaps"
      "\<forall>g\<in>set gaps. lo \<le> gStart g \<and> gStart g \<le> gEnd g \<and> unat (gEnd g) + 1 < unat gapStart"
      using assms(1) by (simp_all add: gap_inv_def s)
    then have "\<forall>g\<in>set gaps. gEnd g \<le> hi" by (fastforce simp: word_le_nat_alt)
    then show ?thesis using True g assms(1)
      by (auto simp: gaps_exact_def gap_inv_def s separated_def sorted_wrt_append)
  next
    case False
    then have "\<forall>g\<in>set gaps. gEnd g \<le> hi" using assms(1) by (auto simp: gap_inv_def u word_le_nat_alt)
    then show ?thesis using False assms(1) by (auto simp: gaps_exact_def gap_inv_def s)
  qed
qed

context presence
begin

lemma DetectGaps_loop_exact:
  assumes "usable s" "hi < - 1" "height \<le> hi + 1" "\<forall>h. \<not> cancelled h"
    and "gap_inv (present s) lo height gapStart inGap gaps"
  shows "\<exists>gaps'. DetectGaps_loop hasBlock cancelled height hi gapStart inGap gaps s = Some ((gaps', None), s) \<and>
    gaps_exact (present s) lo hi gaps'"
  using assms(2,3,5)
proof (induction height arbitrary: gapStart inGap gaps rule: count_up_induct)
  case last
  have "\<not> hi + 1 \<le> hi" using less_succ_u64 [OF assms(2), of hi] by (simp add: not_le)
  then show ?case using gap_inv_end [OF last assms(2)] by (cases inGap) (simp_all add: DetectGaps_loop.simps)
next
  case (step h)
  note unfold = DetectGaps_loop.simps [of hasBlock cancelled h] hasBlock [OF assms(1)] assms(4) [rule_format, of h]
  show ?case
  proof (cases "present s h")
    case False
    with step.IH [OF gap_inv_absent [OF step.prems step.hyps(2) False]] step.hyps
    show ?thesis by (simp add: unfold)
  next
    case True
    show ?thesis
    proof (cases inGap)
      case True
      with step.IH [OF gap_inv_close [of "present s" lo h gapStart gaps]] step \<open>present s h\<close>
      show ?thesis by (simp add: unfold)
    next
      case False
      with step.IH [OF gap_inv_present [of "present s" lo h gapStart gaps]] step \<open>present s h\<close>
      show ?thesis by (simp add: unfold)
    qed
  qed
qed

lemma DetectGaps_exact:
  assumes "usable s" "hi < - 1" "lo \<le> hi + 1" "\<forall>h. \<not> cancelled h"
  shows "\<exists>gaps. DetectGaps hasBlock cancelled lo hi s = Some ((gaps, None), s) \<and>
    gaps_exact (present s) lo hi gaps"
  unfolding DetectGaps_def
  using assms by (intro DetectGaps_loop_exact) (auto simp: gap_inv_def separated_def)

text \<open>The blocks of a range that lack receipts.\<close>

lemma DetectReceiptGaps_loop_exact:
  assumes "usable s" "hi < - 1" "height \<le> hi + 1" "\<forall>h. \<not> cancelled h"
  shows "DetectReceiptGaps_loop hasBlock missing cancelled height hi gaps s =
    Some ((gaps @ map (\<lambda>h. \<lparr>rgBlockNumber = h, rgMissing = lacks s h\<rparr>)
      (filter (\<lambda>h. present s h \<and> lacks s h \<noteq> []) (heights height hi)), None), s)"
  using assms(2,3)
proof (induction height arbitrary: gaps rule: count_up_induct)
  case last
  have "\<not> hi + 1 \<le> hi" "hi < hi + 1" using less_succ_u64 [OF assms(2), of hi] by (simp_all add: not_le)
  then show ?case by (simp add: DetectReceiptGaps_loop.simps heights_empty)
next
  case (step h)
  then show ?case
    using missing [OF assms(1), of h]
    by (auto simp: DetectReceiptGaps_loop.simps [of hasBlock missing cancelled h] hasBlock [OF assms(1)]
        assms(4) [rule_format, of h]
        heights_step [OF step.hyps(1) assms(2)])
qed

end

section \<open>The storage answers the scans\<close>

text \<open>The hashes of the transactions of the block at \<open>h\<close> that have no receipt in the store.\<close>

definition lacking :: "'db pebble \<Rightarrow> geth \<Rightarrow> ('db \<Rightarrow> bytes \<Rightarrow> bytes option) \<Rightarrow> 'db storage \<Rightarrow> u64 \<Rightarrow> hash list" where
  "lacking P G view s h =
     (case fst (GetBlock P G h s) of
        Inl e \<Rightarrow> []
      | Inr b \<Rightarrow> filter (\<lambda>x. view (db s) (ReceiptKey G x) = None) (map tHash (bTxs b)))"

definition stored :: "('db \<Rightarrow> bytes \<Rightarrow> bytes option) \<Rightarrow> 'db storage \<Rightarrow> u64 \<Rightarrow> bool" where
  "stored view s h \<longleftrightarrow> view (db s) (BlockKey h) \<noteq> None"

lemma presence_of_storage:
  assumes "pebble_db P view"
  shows "presence (HasBlock P) (GetMissingReceipts P G) (\<lambda>s. \<not> closed s) (stored view) (lacking P G view)"
proof
  fix s :: "'a storage" and h
  assume o: "\<not> closed s"
  then show "HasBlock P h s = (Inr (stored view s h), s)"
    by (simp add: HasBlock_def Has_def guard_simps andThen_def catch_def stored_def
        pebble_db.dbGet_eq [OF assms] split: option.splits)
  have st: "snd (GetBlock P G h s) = s" by (rule GetBlock_state)
  show "GetMissingReceipts P G h s = (Inr (lacking P G view s h), s) \<or>
      (\<exists>e. GetMissingReceipts P G h s = (Inl e, s)) \<and> lacking P G view s h = []"
  proof (cases "fst (GetBlock P G h s)")
    case (Inl e)
    then have "GetBlock P G h s = (Inl e, s)" using st by (simp add: prod_eq_iff)
    with o show ?thesis by (simp add: GetMissingReceipts_def guard_simps andThen_def lacking_def)
  next
    case (Inr b)
    then have "GetBlock P G h s = (Inr b, s)" using st by (simp add: prod_eq_iff)
    with o missingOf_eq [OF assms o, of G "bTxs b"] show ?thesis
      by (simp add: GetMissingReceipts_def guard_simps andThen_def wrapping_def catch_def lacking_def)
  qed
qed

sublocale pebble_db \<subseteq> scan: presence "HasBlock P" "GetMissingReceipts P G" "\<lambda>s. \<not> closed s" "stored view"
    "lacking P G view" for G
  using presence_of_storage pebble_db_axioms by blast

text \<open>
  C21: gap detection. On an open storage a scan below the largest height returns, and its ranges are
  the maximal runs of missing blocks: in ascending order, inside the scanned range, with a stored
  block between any two, and together exactly the heights without a block.
\<close>

theorem DetectGaps_finds_gaps:
  assumes "pebble_db P view" "\<not> closed s" "hi < - 1" "lo \<le> hi + 1" "\<forall>h. \<not> cancelled h"
  shows "\<exists>gaps. DetectGaps (HasBlock P) cancelled lo hi s = Some ((gaps, None), s) \<and>
    gaps_exact (stored view s) lo hi gaps"
  using presence.DetectGaps_exact [OF presence_of_storage [OF assms(1)] assms(2-5)] .

theorem DetectGaps_finds_gaps_witness:
  "\<exists>gaps. DetectGaps (HasBlock memPebble) (\<lambda>_. False) 5 9 (snd sampleStored) = Some ((gaps, None), snd sampleStored) \<and>
    gaps_exact (stored map_of (snd sampleStored)) 5 9 gaps"
proof -
  have "\<not> closed (snd sampleStored)"
    using chain_store.SetBlockWithReceipts_Inr
      [OF chain_store_intro [OF memPebble.pebble_db_axioms geth_codec_sample] sampleStored_ok]
    by (simp add: ready_def)
  then show ?thesis by (intro DetectGaps_finds_gaps [OF memPebble.pebble_db_axioms]) simp_all
qed

section \<open>Recovery of receipts\<close>

text \<open>What storing receipts does to the database: keys are only added, and blocks stay as they are.\<close>

definition grown :: "('db \<Rightarrow> bytes \<Rightarrow> bytes option) \<Rightarrow> 'db storage \<Rightarrow> 'db storage \<Rightarrow> bool" where
  "grown view s s' \<longleftrightarrow> closed s' = closed s \<and>
     (\<forall>k. view (db s) k \<noteq> None \<longrightarrow> view (db s') k \<noteq> None) \<and>
     (\<forall>h. view (db s') (BlockKey h) = view (db s) (BlockKey h))"

lemma grown_refl: "grown view s s"
  by (simp add: grown_def)

lemma grown_trans: "grown view a b \<Longrightarrow> grown view b c \<Longrightarrow> grown view a c"
  by (simp add: grown_def)

lemma receiptTable_key:
  "receiptTable rs m h = Some r \<Longrightarrow> (\<And>h r. m h = Some r \<Longrightarrow> rTxHash r = h) \<Longrightarrow> rTxHash r = h"
proof (induction rs arbitrary: m)
  case (Cons a rs)
  have "receiptTable rs (m(rTxHash a := Some a)) h = Some r" using Cons.prems(1) by simp
  then show ?case
    by (rule Cons.IH) (use Cons.prems(2) in \<open>auto split: if_splits\<close>)
qed simp

lemma receiptTable_mono: "m h \<noteq> None \<Longrightarrow> receiptTable rs m h \<noteq> None"
  by (induction rs arbitrary: m) auto

lemma receiptTable_found: "h \<in> rTxHash ` set rs \<Longrightarrow> receiptTable rs m h \<noteq> None"
proof (induction rs arbitrary: m)
  case (Cons r rs)
  then show ?case using receiptTable_mono [of "m(rTxHash r := Some r)" h rs] by fastforce
qed simp

lemma grown_dbSet:
  "pebble_db P view \<Longrightarrow> dbSet P k v s = (Inr u, s') \<Longrightarrow> (\<And>h. k \<noteq> BlockKey h) \<Longrightarrow>
   grown view s s' \<and> view (db s') k \<noteq> None"
  using pebble_db.dbSet_Inr [of P view k v s u s'] by (auto simp: grown_def only_db_def)

lemma receipt_key_not_block: "ReceiptKey G x \<noteq> BlockKey h" "ContractAddressKey G x \<noteq> BlockKey h"
  using core_keys_distinct by metis+

lemma SetReceipt_grown:
  assumes "pebble_db P view" "SetReceipt P G (Some r) s = (Inr u, s')"
  shows "grown view s s' \<and> view (db s') (ReceiptKey G (rTxHash r)) \<noteq> None"
proof -
  obtain enc s1 where w: "dbSet P (ReceiptKey G (rTxHash r)) enc s = (Inr (), s1)"
    and c: "s1 = s' \<or> (\<exists>a. dbSet P (ContractAddressKey G (rTxHash r)) a s1 = (Inr u, s'))"
    using assms(2)
    by (auto simp: SetReceipt_def guard_simps andThen_eq_Inr EncodeReceipt_def split: if_splits)
  note g = grown_dbSet [OF assms(1) w receipt_key_not_block(1)]
  show ?thesis using c
  proof
    assume "\<exists>a. dbSet P (ContractAddressKey G (rTxHash r)) a s1 = (Inr u, s')"
    then have "grown view s1 s'"
      using grown_dbSet [OF assms(1) _ receipt_key_not_block(2)] by blast
    with g show ?thesis by (auto simp: grown_def)
  qed (use g in simp)
qed

lemma storeMissing_grown:
  assumes "pebble_db P view" "\<And>h r. table h = Some r \<Longrightarrow> rTxHash r = h"
    and "storeMissing (\<lambda>r. SetReceipt P G (Some r)) table hs s = (Inr u, s')"
  shows "grown view s s' \<and> (\<forall>h\<in>set hs. table h \<noteq> None \<longrightarrow> view (db s') (ReceiptKey G h) \<noteq> None)"
  using assms(3)
proof (induction hs arbitrary: s)
  case Nil
  then show ?case by (simp add: storeMissing_def grown_refl)
next
  case (Cons h hs)
  then obtain s1 where s1: "(case table h of None \<Rightarrow> ret () | Some r \<Rightarrow>
        wrapping ''failed to store receipt for tx'' (SetReceipt P G (Some r))) s = (Inr (), s1)"
    and rest: "storeMissing (\<lambda>r. SetReceipt P G (Some r)) table hs s1 = (Inr u, s')"
    by (auto simp: storeMissing_def andThen_eq_Inr)
  have "grown view s s1 \<and> (table h \<noteq> None \<longrightarrow> view (db s1) (ReceiptKey G h) \<noteq> None)"
  proof (cases "table h")
    case (Some r)
    then show ?thesis using s1 assms(2) [OF Some] SetReceipt_grown [OF assms(1), of G r s "()" s1] by simp
  qed (use s1 in \<open>simp add: grown_refl\<close>)
  with Cons.IH [OF rest] show ?case by (auto simp: grown_def)
qed

lemma FillReceiptGaps_grown:
  assumes "pebble_db P view"
    and "FillReceiptGaps getBlockReceipts (\<lambda>r. SetReceipt P G (Some r)) cancelled i gaps s = (Inr u, s')"
    and "\<forall>g\<in>set gaps. \<forall>rs. getBlockReceipts (rgBlockNumber g) = Inr rs \<longrightarrow> set (rgMissing g) \<subseteq> rTxHash ` set rs"
  shows "grown view s s' \<and> (\<forall>g\<in>set gaps. \<forall>h\<in>set (rgMissing g). view (db s') (ReceiptKey G h) \<noteq> None)"
  using assms(2,3)
proof (induction gaps arbitrary: i s)
  case Nil
  then show ?case by (simp add: grown_refl)
next
  case (Cons g gaps)
  then obtain s1 where s1: "FillReceiptGap getBlockReceipts (\<lambda>r. SetReceipt P G (Some r)) g s = (Inr (), s1)"
    and rest: "FillReceiptGaps getBlockReceipts (\<lambda>r. SetReceipt P G (Some r)) cancelled (Suc i) gaps s1 = (Inr u, s')"
    by (auto simp: andThen_eq_Inr split: if_splits)
  obtain rs where rs: "getBlockReceipts (rgBlockNumber g) = Inr rs"
    "storeMissing (\<lambda>r. SetReceipt P G (Some r)) (receiptTable rs (\<lambda>_. None)) (rgMissing g) s = (Inr (), s1)"
    using s1 by (auto simp: FillReceiptGap_def split: sum.splits)
  have "grown view s s1 \<and> (\<forall>h\<in>set (rgMissing g). receiptTable rs (\<lambda>_. None) h \<noteq> None \<longrightarrow>
      view (db s1) (ReceiptKey G h) \<noteq> None)"
    using assms(1) _ rs(2) by (rule storeMissing_grown) (auto dest: receiptTable_key)
  moreover have "\<forall>h\<in>set (rgMissing g). receiptTable rs (\<lambda>_. None) h \<noteq> None"
    using Cons.prems(2) rs(1) receiptTable_found [of _ rs "\<lambda>_. None"] by (auto simp: subset_iff)
  ultimately show ?case using Cons.IH [OF rest] Cons.prems(2) by (auto simp: grown_def)
qed

lemma grown_lacking:
  assumes "pebble_db P view" "\<not> closed s" "grown view s s'"
  shows "stored view s' = stored view s" "lacking P G view s' h = filter (\<lambda>x. view (db s') (ReceiptKey G x) = None) (lacking P G view s h)"
proof -
  have b: "view (db s') (BlockKey h) = view (db s) (BlockKey h)" for h using assms(3) by (simp add: grown_def)
  then show "stored view s' = stored view s" by (simp add: stored_def fun_eq_iff)
  have "fst (GetBlock P G h s') = fst (GetBlock P G h s)"
    using b assms by (simp add: GetBlock_def guard_simps grown_def pebble_db.getKey_eq [OF assms(1)] andThen_def
        DecodeBlock_def wrapping_def catch_def fromOption_def split: option.splits)
  moreover have "view (db s) (ReceiptKey G x) = None" if "view (db s') (ReceiptKey G x) = None" for x
    using that assms(3) by (auto simp: grown_def)
  ultimately show "lacking P G view s' h = filter (\<lambda>x. view (db s') (ReceiptKey G x) = None) (lacking P G view s h)"
    by (auto simp: lacking_def split: sum.splits intro!: filter_cong)
qed

text \<open>
  Receipt recovery. When a scan has listed the blocks that lack receipts, the node returns the
  listed receipts and filling reports success, then a second scan of the same range finds nothing.
\<close>

theorem receipt_gaps_recovered:
  assumes "pebble_db P view" "\<not> closed s" "hi < - 1" "lo \<le> hi + 1" "\<forall>h. \<not> cancelled h"
    and "DetectReceiptGaps (HasBlock P) (GetMissingReceipts P G) cancelled lo hi s = Some ((gaps, None), s)"
    and "\<forall>g\<in>set gaps. \<forall>rs. getBlockReceipts (rgBlockNumber g) = Inr rs \<longrightarrow> set (rgMissing g) \<subseteq> rTxHash ` set rs"
    and "FillReceiptGaps getBlockReceipts (\<lambda>r. SetReceipt P G (Some r)) stop 0 gaps s = (Inr u, s')"
  shows "DetectReceiptGaps (HasBlock P) (GetMissingReceipts P G) cancelled lo hi s' = Some (([], None), s')"
proof -
  note scan = presence.DetectReceiptGaps_loop_exact [OF presence_of_storage [OF assms(1)] _ assms(3-5), of _ G "[]"]
  have gaps: "gaps = map (\<lambda>h. \<lparr>rgBlockNumber = h, rgMissing = lacking P G view s h\<rparr>)
      (filter (\<lambda>h. stored view s h \<and> lacking P G view s h \<noteq> []) (heights lo hi))"
    using assms(6) scan [OF assms(2)] by (simp add: DetectReceiptGaps_def)
  note f = FillReceiptGaps_grown [OF assms(1,8,7)]
  have o: "\<not> closed s'" using f assms(2) by (simp add: grown_def)
  have "lacking P G view s' h = []" if "h \<in> set (heights lo hi)" "stored view s h" for h
    using f that gaps grown_lacking(2) [OF assms(1,2), of s' G h] by (auto simp: filter_empty_conv)
  then have "filter (\<lambda>h. stored view s' h \<and> lacking P G view s' h \<noteq> []) (heights lo hi) = []"
    using f grown_lacking(1) [OF assms(1,2), of s'] by (auto simp: filter_empty_conv)
  then show ?thesis using scan [OF o] by (simp add: DetectReceiptGaps_def)
qed

definition unreceipted :: "((bytes \<times> bytes) list) storage" where
  "unreceipted = emptyStorage [(BlockKey 7, ''B'')]"

lemma unreceipted_gap:
  "DetectReceiptGaps (HasBlock memPebble) (GetMissingReceipts memPebble sampleGeth) (\<lambda>_. False) 7 7 unreceipted =
     Some (([\<lparr>rgBlockNumber = 7, rgMissing = [21]\<rparr>], None), unreceipted)"
proof -
  have b: "GetBlock memPebble sampleGeth 7 unreceipted = (Inr sampleBlock, unreceipted)"
    by (rule chain_store.GetBlock_stored [OF chain_store_intro [OF memPebble.pebble_db_axioms geth_codec_sample]])
      (simp_all add: unreceipted_def emptyStorage_def sampleGeth_def refGeth_def)
  have "heights 7 7 = [7]" by (simp add: heights_def)
  moreover have "lacking memPebble sampleGeth map_of unreceipted 7 = [21]"
    using b receipt_key_not_block(1) [of sampleGeth 21 7]
    by (simp add: lacking_def unreceipted_def emptyStorage_def sample_defs)
  moreover have "stored map_of unreceipted 7" by (simp add: stored_def unreceipted_def emptyStorage_def)
  moreover have "\<not> closed unreceipted" by (simp add: unreceipted_def emptyStorage_def)
  ultimately show ?thesis
    using memPebble.scan.DetectReceiptGaps_loop_exact [of unreceipted 7 7 "\<lambda>_. False" sampleGeth "[]"]
    by (simp add: DetectReceiptGaps_def)
qed

theorem receipt_gaps_recovered_witness:
  "\<exists>s'. FillReceiptGaps (\<lambda>_. Inr [sampleReceipt]) (\<lambda>r. SetReceipt memPebble sampleGeth (Some r)) (\<lambda>_. False) 0
       [\<lparr>rgBlockNumber = 7, rgMissing = [21]\<rparr>] unreceipted = (Inr (), s') \<and>
     DetectReceiptGaps (HasBlock memPebble) (GetMissingReceipts memPebble sampleGeth) (\<lambda>_. False) 7 7 s' =
       Some (([], None), s')"
proof -
  obtain s' where s': "FillReceiptGaps (\<lambda>_. Inr [sampleReceipt]) (\<lambda>r. SetReceipt memPebble sampleGeth (Some r))
      (\<lambda>_. False) 0 [\<lparr>rgBlockNumber = 7, rgMissing = [21]\<rparr>] unreceipted = (Inr (), s')"
    by (simp add: FillReceiptGap_def storeMissing_def SetReceipt_def guard_simps andThen_def wrapping_def catch_def
        check_def validateReceipt_def EncodeReceipt_def fromOption_def sampleGeth_def refGeth_def sample_defs
        dbSet_def liftWrite_def memPebble_def unreceipted_def emptyStorage_def DefaultConfig_def)
  have "\<not> closed unreceipted" by (simp add: unreceipted_def emptyStorage_def)
  from receipt_gaps_recovered [OF memPebble.pebble_db_axioms this _ _ _ unreceipted_gap _ s'] s'
  show ?thesis by (simp add: sampleReceipt_def)
qed

end
