(* ===== verification/Balances.thy ===== *)
theory Balances
  imports BlockIndex
begin

text \<open>
  Balances and historical data (\<^verbatim>\<open>pkg/storage/pebble_historical.go\<close>, the snapshot codec of
  \<^verbatim>\<open>encoder.go\<close>): the history of the balance of an address with its latest value, the index of
  blocks by time, and the counts. Big integers are integers; a nil \<^verbatim>\<open>*big.Int\<close> is \<open>None\<close>.
\<close>

section \<open>Big integers as bytes\<close>

text \<open>\<^verbatim>\<open>big.Int.Bytes\<close>: the absolute value, big-endian, without leading zeros; zero is empty.\<close>

fun bigBytes :: "nat \<Rightarrow> bytes" where
  "bigBytes n = (if n = 0 then [] else bigBytes (n div 256) @ [byteChar (n mod 256)])"

declare bigBytes.simps [simp del]

definition SetBytes :: "bytes \<Rightarrow> int" where
  "SetBytes data = int (readDigits byteVal 256 0 data)"

definition EncodeBigInt :: "int option \<Rightarrow> bytes" where
  "EncodeBigInt n = (case n of None \<Rightarrow> [] | Some i \<Rightarrow> bigBytes (nat \<bar>i\<bar>))"

definition DecodeBigInt :: "bytes \<Rightarrow> int" where
  "DecodeBigInt data = (if data = [] then 0 else SetBytes data)"

record BalanceSnapshot =
  bsBlockNumber :: u64
  bsBalance :: "int option"
  bsDelta :: "int option"
  bsTxHash :: hash

definition EncodeBalanceSnapshot :: "BalanceSnapshot option \<Rightarrow> serror + bytes" where
  "EncodeBalanceSnapshot snapshot =
     (case snapshot of
        None \<Rightarrow> Inl (Errorf ''snapshot cannot be nil'')
      | Some sn \<Rightarrow>
          let balanceBytes = (case bsBalance sn of None \<Rightarrow> [] | Some b \<Rightarrow> bigBytes (nat \<bar>b\<bar>));
              deltaSign = (case bsDelta sn of None \<Rightarrow> 0 | Some d \<Rightarrow> if d < 0 then 1 else 0);
              deltaBytes = (case bsDelta sn of None \<Rightarrow> [] | Some d \<Rightarrow> bigBytes (nat \<bar>d\<bar>))
          in Inr (EncodeUint64 (bsBlockNumber sn) @
               EncodeUint64 (word_of_nat (length balanceBytes)) @ balanceBytes @
               [byteChar deltaSign] @
               EncodeUint64 (word_of_nat (length deltaBytes)) @ deltaBytes @
               hashBytes (bsTxHash sn)))"

text \<open>
  Reading back: \<open>be64\<close> is \<^verbatim>\<open>binary.BigEndian.Uint64\<close>. A length read from the data is converted to a
  signed int and added to the offset in 64 bits, so a large one can pass the check against the
  length of the data and then makes the slice expression panic.
\<close>

definition be64 :: "bytes \<Rightarrow> u64" where
  "be64 v = word_of_nat (readDigits byteVal 256 0 v)"

definition readVar :: "string \<Rightarrow> nat \<Rightarrow> u64 \<Rightarrow> bytes \<Rightarrow> serror + bytes" where
  "readVar msg offset n data =
     (let hi = sint (word_of_nat offset + n) in
      if hi > int (length data) then Inl (Errorf msg)
      else if hi < int offset then Inl (Panic ''slice bounds out of range'')
      else Inr (take (nat hi - offset) (drop offset data)))"

definition DecodeBalanceSnapshot :: "bytes \<Rightarrow> serror + BalanceSnapshot" where
  "DecodeBalanceSnapshot data =
     (if length data < 8 + 8 + 1 + 8 + 32 then Inl (Errorf ''data too short'')
      else let blockNumber = be64 (take 8 data);
               balanceLen = be64 (take 8 (drop 8 data))
      in case (if balanceLen > 0 then readVar ''invalid balance length'' 16 balanceLen data else Inr []) of
           Inl e \<Rightarrow> Inl e
         | Inr balanceBytes \<Rightarrow>
      let offset = 16 + length balanceBytes;
          balance = (if balanceLen > 0 then SetBytes balanceBytes else 0)
      in if offset \<ge> length data then Inl (Errorf ''data too short for delta sign'')
      else let deltaSign = data ! offset; offset = offset + 1
      in if offset + 8 > length data then Inl (Errorf ''data too short for delta length'')
      else let deltaLen = be64 (take 8 (drop offset data)); offset = offset + 8
      in case (if deltaLen > 0 then readVar ''invalid delta length'' offset deltaLen data else Inr []) of
           Inl e \<Rightarrow> Inl e
         | Inr deltaBytes \<Rightarrow>
      let offset = offset + length deltaBytes;
          delta = (if deltaLen > 0
            then if byteVal deltaSign = 1 then - SetBytes deltaBytes else SetBytes deltaBytes else 0)
      in if offset + 32 > length data then Inl (Errorf ''data too short for tx hash'')
      else Inr \<lparr>bsBlockNumber = blockNumber, bsBalance = Some balance, bsDelta = Some delta,
             bsTxHash = copyToHash (take 32 (drop offset data))\<rparr>)"

section \<open>Balance history\<close>

text \<open>The scans of this file end at the prefix followed by the byte 255.\<close>

definition scanPrefix :: "'db pebble \<Rightarrow> bytes \<Rightarrow> ('db storage, (bytes \<times> bytes) list \<times> perror option) op" where
  "scanPrefix P pfx = wrapping ''failed to create iterator'' (dbIter P (Some pfx) (Some (pfx @ [byteChar 255])))"

text \<open>After the loop over the entries, the error of the iterator is looked at.\<close>

definition loopThen :: "serror + 'a \<Rightarrow> perror option \<Rightarrow> ('s, 'a) op" where
  "loopThen r itErr = (case r of Inl e \<Rightarrow> throw e | Inr x \<Rightarrow>
     (case itErr of Some e \<Rightarrow> throw (Wrap ''iterator error'' (FromPebble e)) | None \<Rightarrow> ret x))"

fun balanceLoop :: "u64 \<Rightarrow> (bytes \<times> bytes) list \<Rightarrow> int \<Rightarrow> serror + int" where
  "balanceLoop blockNumber [] balance = Inr balance"
| "balanceLoop blockNumber ((k, v) # es) balance =
     (case DecodeBalanceSnapshot v of
        Inl e \<Rightarrow> Inl (Wrap ''failed to decode snapshot'' e)
      | Inr snapshot \<Rightarrow>
          if bsBlockNumber snapshot > blockNumber then Inr balance
          else balanceLoop blockNumber es (the (bsBalance snapshot)))"

definition GetAddressBalance :: "'db pebble \<Rightarrow> geth \<Rightarrow> address \<Rightarrow> u64 \<Rightarrow> ('db storage, int) op" where
  "GetAddressBalance P G addr blockNumber =
     andThen ensureNotClosed (\<lambda>_.
     if blockNumber = 0
     then catch (andThen (dbGet P (AddressBalanceLatestKey G addr)) (\<lambda>value. ret (DecodeBigInt value)))
       (\<lambda>e. if e = FromPebble PNotFound then ret 0 else throw (Wrap ''failed to get latest balance'' e))
     else andThen (scanPrefix P (AddressBalanceKeyPrefix G addr))
       (\<lambda>(es, itErr). loopThen (balanceLoop blockNumber es 0) itErr))"

fun historyLoop :: "u64 \<Rightarrow> u64 \<Rightarrow> int \<Rightarrow> int \<Rightarrow> (bytes \<times> bytes) list \<Rightarrow> int \<Rightarrow> BalanceSnapshot list \<Rightarrow>
    serror + BalanceSnapshot list" where
  "historyLoop fromBlock toBlock limit offset [] cnt snapshots = Inr snapshots"
| "historyLoop fromBlock toBlock limit offset ((k, v) # es) cnt snapshots =
     (if int (length snapshots) \<ge> limit then Inr snapshots
      else case DecodeBalanceSnapshot v of
          Inl e \<Rightarrow> Inl (Wrap ''failed to decode snapshot'' e)
        | Inr snapshot \<Rightarrow>
            if bsBlockNumber snapshot < fromBlock \<or> bsBlockNumber snapshot > toBlock
            then historyLoop fromBlock toBlock limit offset es cnt snapshots
            else if cnt < offset then historyLoop fromBlock toBlock limit offset es (cnt + 1) snapshots
            else historyLoop fromBlock toBlock limit offset es (cnt + 1) (snapshots @ [snapshot]))"

definition GetBalanceHistory :: "'db pebble \<Rightarrow> geth \<Rightarrow> address \<Rightarrow> u64 \<Rightarrow> u64 \<Rightarrow> int \<Rightarrow> int \<Rightarrow>
    ('db storage, BalanceSnapshot list) op" where
  "GetBalanceHistory P G addr fromBlock toBlock limit offset =
     andThen ensureNotClosed (\<lambda>_.
     if fromBlock > toBlock then throw (Errorf ''fromBlock cannot be greater than toBlock'')
     else andThen (scanPrefix P (AddressBalanceKeyPrefix G addr))
       (\<lambda>(es, itErr). loopThen (historyLoop fromBlock toBlock limit offset es 0 []) itErr))"

definition UpdateBalance :: "'db pebble \<Rightarrow> geth \<Rightarrow> address \<Rightarrow> u64 \<Rightarrow> int \<Rightarrow> hash \<Rightarrow> ('db storage, unit) op" where
  "UpdateBalance P G addr blockNumber delta txHash = writable
     (andThen (wrapping ''failed to get current balance'' (GetAddressBalance P G addr 0)) (\<lambda>currentBalance.
      let newBalance = currentBalance + delta in
      if newBalance < 0 then throw (Errorf ''balance cannot be negative'')
      else let snapshot = \<lparr>bsBlockNumber = blockNumber, bsBalance = Some newBalance,
             bsDelta = Some delta, bsTxHash = txHash\<rparr>
      in case EncodeBalanceSnapshot (Some snapshot) of
           Inl e \<Rightarrow> throw (Wrap ''failed to encode snapshot'' e)
         | Inr encoded \<Rightarrow> (\<lambda>s.
             let sq = addrSeq s addr in
             andThen (wrapping ''failed to set balance history'' (dbSet P (AddressBalanceKey G addr sq) encoded))
               (\<lambda>_. wrapping ''failed to set latest balance''
                  (dbSet P (AddressBalanceLatestKey G addr) (EncodeBigInt (Some newBalance))))
               (s\<lparr>addrSeq := (addrSeq s)(addr := sq + 1)\<rparr>))))"

definition Storage_SetBalance :: "'db pebble \<Rightarrow> geth \<Rightarrow> address \<Rightarrow> u64 \<Rightarrow> int \<Rightarrow> ('db storage, unit) op" where
  "Storage_SetBalance P G addr blockNumber balance = writable
     (andThen (wrapping ''failed to get current balance'' (GetAddressBalance P G addr 0)) (\<lambda>currentBalance.
      UpdateBalance P G addr blockNumber (balance - currentBalance) 0))"

section \<open>Blocks by time\<close>

definition SetBlockTimestamp :: "'db pebble \<Rightarrow> u64 \<Rightarrow> u64 \<Rightarrow> ('db storage, unit) op" where
  "SetBlockTimestamp P timestamp height =
     writable (dbSet P (BlockTimestampKey timestamp height) (EncodeUint64 height))"

fun timeLoop :: "'db pebble \<Rightarrow> geth \<Rightarrow> int \<Rightarrow> int \<Rightarrow> (bytes \<times> bytes) list \<Rightarrow> int \<Rightarrow> block list \<Rightarrow>
    ('db storage, block list) op" where
  "timeLoop P G limit offset [] cnt blocks = ret blocks"
| "timeLoop P G limit offset ((k, v) # es) cnt blocks =
     (if cnt < offset then timeLoop P G limit offset es (cnt + 1) blocks
      else if int (length blocks) \<ge> limit then ret blocks
      else case DecodeUint64 v of
          Inl e \<Rightarrow> throw (Wrap ''failed to decode height'' (FromSchema e))
        | Inr height \<Rightarrow> (\<lambda>s.
            case GetBlock P G height s of
              (Inl e, s') \<Rightarrow>
                if e = ErrNotFound then timeLoop P G limit offset es cnt blocks s'
                else (Inl (Wrap ''failed to get block'' e), s')
            | (Inr block, s') \<Rightarrow> timeLoop P G limit offset es (cnt + 1) (blocks @ [block]) s'))"

definition GetBlocksByTimeRange :: "'db pebble \<Rightarrow> geth \<Rightarrow> u64 \<Rightarrow> u64 \<Rightarrow> int \<Rightarrow> int \<Rightarrow>
    ('db storage, block list) op" where
  "GetBlocksByTimeRange P G fromTime toTime limit offset =
     andThen ensureNotClosed (\<lambda>_.
     if fromTime > toTime then throw (Errorf ''fromTime cannot be greater than toTime'')
     else andThen (wrapping ''failed to create iterator''
         (dbIter P (Some (BlockTimestampKey fromTime 0)) (Some (BlockTimestampKey (toTime + 1) 0))))
       (\<lambda>(es, itErr). andThen (timeLoop P G limit offset es 0 []) (\<lambda>blocks. loopThen (Inr blocks) itErr)))"

text \<open>
  \<^verbatim>\<open>SeekGE\<close> is the first entry at or after a key, \<^verbatim>\<open>Last\<close> the last one. The iterator of
  \<^verbatim>\<open>GetBlockByTimestamp\<close> has no upper bound.
\<close>

definition GetBlockByTimestamp :: "'db pebble \<Rightarrow> geth \<Rightarrow> u64 \<Rightarrow> ('db storage, block) op" where
  "GetBlockByTimestamp P G timestamp =
     andThen ensureNotClosed (\<lambda>_.
     andThen (wrapping ''failed to create iterator'' (dbIter P (Some BlockTimestampKeyPrefix) None))
       (\<lambda>(es, itErr).
          let target = BlockTimestampKey timestamp 0;
              candidate = (case filter (\<lambda>e. target \<le> fst e) es of
                  e # _ \<Rightarrow> Some e
                | [] \<Rightarrow> if es = [] then None else Some (last es))
          in case candidate of
               None \<Rightarrow> throw ErrNotFound
             | Some (k, v) \<Rightarrow>
                 andThen (decodeU64 ''failed to decode height'' v) (\<lambda>height. GetBlock P G height)))"

section \<open>Counts\<close>

definition GetBlockCount :: "'db pebble \<Rightarrow> ('db storage, u64) op" where
  "GetBlockCount P = andThen ensureNotClosed (\<lambda>_.
     catch (andThen (GetLatestHeight P) (\<lambda>height. ret (height + 1)))
       (\<lambda>e. if e = ErrNotFound then ret 0 else throw (Wrap ''failed to get latest height'' e)))"

definition GetTransactionCount :: "'db pebble \<Rightarrow> ('db storage, u64) op" where
  "GetTransactionCount P = andThen ensureNotClosed (\<lambda>_ s.
     if txCountReady s then (Inr (txCount s), s)
     else case dbGet P TransactionCountKey s of
         (Inl e, s') \<Rightarrow> if e = FromPebble PNotFound then (Inr 0, s')
           else (Inl (Wrap ''failed to get transaction count'' e), s')
       | (Inr value, s') \<Rightarrow> decodeU64 ''failed to decode transaction count'' value s')"

partial_function (option) countLoop :: "'db pebble \<Rightarrow> geth \<Rightarrow> u64 \<Rightarrow> u64 \<Rightarrow> u64 \<Rightarrow> 'db storage \<Rightarrow>
    ((serror + u64) \<times> 'db storage) option" where
  "countLoop P G height latestHeight totalTxCount s =
     (if height \<le> latestHeight
      then case GetBlock P G height s of
          (Inl e, s') \<Rightarrow>
            if e = ErrNotFound then countLoop P G (height + 1) latestHeight totalTxCount s'
            else Some (Inl (Wrap ''failed to get block'' e), s')
        | (Inr b, s') \<Rightarrow>
            countLoop P G (height + 1) latestHeight (totalTxCount + word_of_nat (length (bTxs b))) s'
      else Some (Inr totalTxCount, s))"

definition InitializeTransactionCount :: "'db pebble \<Rightarrow> geth \<Rightarrow> 'db storage \<Rightarrow>
    ((serror + unit) \<times> 'db storage) option" where
  "InitializeTransactionCount P G s =
     (case writable (wrapping ''failed to get latest height'' (GetLatestHeight P)) s of
        (Inl e, s') \<Rightarrow> Some (Inl e, s')
      | (Inr latestHeight, s') \<Rightarrow>
          (case countLoop P G 0 latestHeight 0 s' of
             None \<Rightarrow> None
           | Some (Inl e, s'') \<Rightarrow> Some (Inl e, s'')
           | Some (Inr totalTxCount, s'') \<Rightarrow>
               Some (andThen (wrapping ''failed to set transaction count''
                   (dbSet P TransactionCountKey (EncodeUint64 totalTxCount)))
                 (\<lambda>_ t. (Inr (), t\<lparr>txCount := totalTxCount, txCountReady := True\<rparr>)) s'')))"

definition determineBlockRange :: "u64 \<Rightarrow> u64 \<Rightarrow> u64 \<Rightarrow> u64 \<times> u64 \<times> bool" where
  "determineBlockRange fromBlock toBlock latestHeight =
     (let e = (if toBlock = 0 \<or> toBlock > latestHeight then latestHeight else toBlock) in
      if fromBlock > e then (0, 0, False) else (fromBlock, e, True))"

section \<open>The snapshot codec\<close>

lemma bigBytes_0 [simp]: "bigBytes 0 = []"
  by (simp add: bigBytes.simps)

lemma bigBytes_eq_Nil [simp]: "bigBytes n = [] \<longleftrightarrow> n = 0"
  by (subst bigBytes.simps) simp

lemma readDigits_bigBytes [simp]: "readDigits byteVal 256 0 (bigBytes n) = n"
proof (induction n rule: less_induct)
  case (less n)
  show ?case
  proof (cases "n = 0")
    case False
    then have "bigBytes n = bigBytes (n div 256) @ [byteChar (n mod 256)]" by (subst bigBytes.simps) simp
    then show ?thesis using False less [of "n div 256"] by (simp add: readDigits_append)
  qed simp
qed

lemma length_bigBytes_le: "length (bigBytes n) \<le> n"
proof (induction n rule: less_induct)
  case (less n)
  show ?case
  proof (cases "n = 0")
    case False
    then have "bigBytes n = bigBytes (n div 256) @ [byteChar (n mod 256)]" by (subst bigBytes.simps) simp
    moreover have "n div 256 < n" using False by simp
    moreover have "length (bigBytes (n div 256)) \<le> n div 256" using less [OF calculation(2)] .
    ultimately show ?thesis by simp
  qed simp
qed

lemma SetBytes_bigBytes [simp]: "SetBytes (bigBytes n) = int n"
  by (simp add: SetBytes_def)

lemma DecodeBigInt_EncodeBigInt [simp]: "DecodeBigInt (EncodeBigInt (Some n)) = \<bar>n\<bar>"
  by (simp add: DecodeBigInt_def EncodeBigInt_def)

lemma be64_EncodeUint64 [simp]: "be64 (EncodeUint64 w) = w"
proof -
  have "unat w < 256 ^ 8" using unat_u64_less [of w] by simp
  then show ?thesis by (simp add: be64_def EncodeUint64_def readDigits_fixedDigits)
qed

lemma sint_small: "n < 2 ^ 62 \<Longrightarrow> sint (word_of_nat n :: u64) = int n"
  by (simp add: signed_of_nat signed_take_bit_int_eq_self)

lemma readVar_app:
  assumes "length a = offset" "length a + length b < 2 ^ 62" "n = word_of_nat (length b)"
  shows "readVar msg offset n (a @ b @ c) = Inr b"
proof -
  have "sint (word_of_nat offset + n) = sint (word_of_nat (offset + length b) :: u64)"
    by (simp add: assms(3))
  also have "\<dots> = int (offset + length b)"
    using assms(1,2) by (intro sint_small) simp
  finally show ?thesis using assms(1) by (simp add: readVar_def)
qed

lemma DecodeBalanceSnapshot_parts:
  assumes "length e = 57 + length bb + length dd" "be64 (take 8 (drop 8 e)) = wb"
    "(if wb > 0 then readVar ''invalid balance length'' 16 wb e else Inr []) = Inr bb"
    "be64 (take 8 (drop (17 + length bb) e)) = wd"
    "(if wd > 0 then readVar ''invalid delta length'' (25 + length bb) wd e else Inr []) = Inr dd"
  shows "DecodeBalanceSnapshot e = Inr \<lparr>bsBlockNumber = be64 (take 8 e),
    bsBalance = Some (if wb > 0 then SetBytes bb else 0),
    bsDelta = Some (if wd > 0 then if byteVal (e ! (16 + length bb)) = 1 then - SetBytes dd else SetBytes dd else 0),
    bsTxHash = copyToHash (take 32 (drop (25 + length bb + length dd) e))\<rparr>"
  using assms(1,3,5) unfolding DecodeBalanceSnapshot_def Let_def assms(2) assms(3)
  by (simp add: assms(4) del: if_split_asm cong: if_cong)

lemma snapshot_decodes:
  assumes "0 \<le> b" "length (bigBytes (nat b)) < 2 ^ 61" "length (bigBytes (nat \<bar>d\<bar>)) < 2 ^ 60"
  shows "\<exists>e. EncodeBalanceSnapshot (Some \<lparr>bsBlockNumber = n, bsBalance = Some b, bsDelta = Some d, bsTxHash = h\<rparr>) = Inr e \<and>
    DecodeBalanceSnapshot e = Inr \<lparr>bsBlockNumber = n, bsBalance = Some b, bsDelta = Some d, bsTxHash = h\<rparr>"
proof -
  let ?b = "bigBytes (nat b)" and ?d = "bigBytes (nat \<bar>d\<bar>)"
  let ?sg = "byteChar (if d < 0 then 1 else 0)"
  let ?lb = "word_of_nat (length ?b) :: u64" and ?ld = "word_of_nat (length ?d) :: u64"
  let ?pre = "EncodeUint64 n @ EncodeUint64 ?lb"
  let ?mid = "?pre @ ?b @ [?sg] @ EncodeUint64 ?ld"
  let ?e = "?mid @ ?d @ hashBytes h"
  have len: "length ?pre = 16" "length ?mid = 25 + length ?b" "length (hashBytes h) = 32"
    by (simp_all add: hashBytes_def)
  have zero: "(0 < ?lb) = (?b \<noteq> [])" "(0 < ?ld) = (?d \<noteq> [])"
    using assms(2,3) by (simp_all add: word_less_nat_alt unat_of_nat_u64)
  have rb: "readVar ''invalid balance length'' 16 ?lb ?e = Inr ?b"
    using readVar_app [of ?pre 16 ?b ?lb _ "[?sg] @ EncodeUint64 ?ld @ ?d @ hashBytes h"] assms(2) by simp
  have rd: "readVar ''invalid delta length'' (25 + length ?b) ?ld ?e = Inr ?d"
    using readVar_app [of ?mid "25 + length ?b" ?d ?ld _ "hashBytes h"] assms(2,3) len(2) by simp
  have parts: "take 8 ?e = EncodeUint64 n" "take 8 (drop 8 ?e) = EncodeUint64 ?lb"
    "?e ! (16 + length ?b) = ?sg" "take 8 (drop (17 + length ?b) ?e) = EncodeUint64 ?ld"
    by (simp_all add: nth_append hashBytes_def)
  have "drop (25 + length ?b + length ?d) ((?mid @ ?d) @ hashBytes h) = hashBytes h"
    using len(2) by (simp only: drop_append length_append) simp
  then have last: "take 32 (drop (25 + length ?b + length ?d) ?e) = hashBytes h"
    using len(3) by simp
  have "(if ?lb > 0 then readVar ''invalid balance length'' 16 ?lb ?e else Inr []) = Inr ?b"
    "(if ?ld > 0 then readVar ''invalid delta length'' (25 + length ?b) ?ld ?e else Inr []) = Inr ?d"
    using rb rd zero by auto
  note dec = DecodeBalanceSnapshot_parts [OF _ _ this(1) _ this(2)]
  have "DecodeBalanceSnapshot ?e = Inr \<lparr>bsBlockNumber = be64 (take 8 ?e),
    bsBalance = Some (if ?lb > 0 then SetBytes ?b else 0),
    bsDelta = Some (if ?ld > 0 then if byteVal (?e ! (16 + length ?b)) = 1 then - SetBytes ?d else SetBytes ?d else 0),
    bsTxHash = copyToHash (take 32 (drop (25 + length ?b + length ?d) ?e))\<rparr>"
    by (rule dec) (use len parts in \<open>simp_all only: be64_EncodeUint64\<close>, simp)
  also have "\<dots> = Inr \<lparr>bsBlockNumber = n, bsBalance = Some b, bsDelta = Some d, bsTxHash = h\<rparr>"
    unfolding parts last zero using assms(1) by auto
  finally have "DecodeBalanceSnapshot ?e = Inr \<lparr>bsBlockNumber = n, bsBalance = Some b, bsDelta = Some d, bsTxHash = h\<rparr>" .
  moreover have "EncodeBalanceSnapshot (Some \<lparr>bsBlockNumber = n, bsBalance = Some b, bsDelta = Some d, bsTxHash = h\<rparr>) = Inr ?e"
    using assms(1) by (simp add: EncodeBalanceSnapshot_def Let_def)
  ultimately show ?thesis by blast
qed

text \<open>
  C29: a balance snapshot reads back as it was written: block number, balance, signed delta and
  transaction, for a balance that is not negative and numbers of less than 2^61 bytes.
\<close>

theorem snapshot_roundtrip:
  assumes "0 \<le> b" "length (bigBytes (nat b)) < 2 ^ 61" "length (bigBytes (nat \<bar>d\<bar>)) < 2 ^ 60"
  shows "\<exists>e. EncodeBalanceSnapshot (Some \<lparr>bsBlockNumber = n, bsBalance = Some b, bsDelta = Some d, bsTxHash = h\<rparr>) = Inr e \<and>
    DecodeBalanceSnapshot e = Inr \<lparr>bsBlockNumber = n, bsBalance = Some b, bsDelta = Some d, bsTxHash = h\<rparr>"
  using assms by (rule snapshot_decodes)

theorem snapshot_roundtrip_witness:
  "\<exists>e. EncodeBalanceSnapshot (Some \<lparr>bsBlockNumber = 7, bsBalance = Some 1000, bsDelta = Some (- 300), bsTxHash = 21\<rparr>) = Inr e \<and>
    DecodeBalanceSnapshot e = Inr \<lparr>bsBlockNumber = 7, bsBalance = Some 1000, bsDelta = Some (- 300), bsTxHash = 21\<rparr>"
proof (rule snapshot_roundtrip)
  show "length (bigBytes (nat 1000)) < 2 ^ 61"
    using length_bigBytes_le [of "nat 1000"] by (rule le_less_trans) simp
  show "length (bigBytes (nat \<bar>- 300\<bar>)) < 2 ^ 60"
    using length_bigBytes_le [of "nat \<bar>- 300\<bar>"] by (rule le_less_trans) simp
qed simp

section \<open>Scans of an index\<close>

text \<open>A list of entries in key order that is all there is under a prefix is what a scan returns.\<close>

lemma scanPrefix_eq:
  assumes "pebble_db P view" "sorted_wrt (<) (map fst es)"
    and "\<And>k v. (k, v) \<in> set es \<longleftrightarrow> HasPrefix k p \<and> view (db s) k = Some v"
    and "\<And>k v. (k, v) \<in> set es \<Longrightarrow> k < p @ [byteChar 255]"
  shows "scanPrefix P p s = (Inr (es, None), s)"
proof -
  obtain es' where it: "dbIter P (Some p) (Some (p @ [byteChar 255])) s = (Inr (es', None), s)"
    "sorted_wrt (<) (map fst es')"
    "\<forall>k v. (k, v) \<in> set es' \<longleftrightarrow> inRange (Some p) (Some (p @ [byteChar 255])) k \<and> view (db s) k = Some v"
    using pebble_db.dbIter_eq [OF assms(1)] by blast
  have "(k, v) \<in> set es' \<longleftrightarrow> (k, v) \<in> set es" for k v
  proof -
    have "inRange (Some p) (Some (p @ [byteChar 255])) k \<longleftrightarrow> HasPrefix k p \<and> k < p @ [byteChar 255]"
      using inRange_ff_prefix [of p k] prefix_imp_le [of p k] by (auto simp: inRange_def HasPrefix_def)
    then show ?thesis using it(3) assms(3) [of k v] assms(4) [of k v] by blast
  qed
  then have "es' = es" by (intro sorted_kv_unique [OF it(2) assms(2)]) auto
  with it(1) show ?thesis by (simp add: scanPrefix_def wrapping_def)
qed

section \<open>The history of a balance\<close>

definition snap_ok :: "BalanceSnapshot \<Rightarrow> bool" where
  "snap_ok sn \<longleftrightarrow> (\<exists>b d. bsBalance sn = Some b \<and> bsDelta sn = Some d \<and> 0 \<le> b \<and>
     length (bigBytes (nat b)) < 2 ^ 61 \<and> length (bigBytes (nat \<bar>d\<bar>)) < 2 ^ 60)"

definition encodeSnap :: "BalanceSnapshot \<Rightarrow> bytes" where
  "encodeSnap sn = (case EncodeBalanceSnapshot (Some sn) of Inr e \<Rightarrow> e | Inl _ \<Rightarrow> [])"

definition lastBalance :: "(u64 \<times> BalanceSnapshot) list \<Rightarrow> int" where
  "lastBalance hist = (if hist = [] then 0 else the (bsBalance (snd (last hist))))"

text \<open>
  \<open>hist_inv view G s addr hist\<close>: the history of \<open>addr\<close> in the database is \<open>hist\<close>, each snapshot at its
  sequence number, in ascending order and below the next number; the latest balance is that of the
  last snapshot.
\<close>

definition hist_inv :: "('db \<Rightarrow> bytes \<Rightarrow> bytes option) \<Rightarrow> geth \<Rightarrow> 'db storage \<Rightarrow> address \<Rightarrow>
    (u64 \<times> BalanceSnapshot) list \<Rightarrow> bool" where
  "hist_inv view G s addr hist \<longleftrightarrow>
     sorted_wrt (<) (map fst hist) \<and> (\<forall>x\<in>set hist. fst x < addrSeq s addr \<and> snap_ok (snd x)) \<and>
     (\<forall>k v. HasPrefix k (AddressBalanceKeyPrefix G addr) \<and> view (db s) k = Some v \<longleftrightarrow>
        (\<exists>x\<in>set hist. k = AddressBalanceKey G addr (fst x) \<and> v = encodeSnap (snd x))) \<and>
     view (db s) (AddressBalanceLatestKey G addr) =
       (if hist = [] then None else Some (EncodeBigInt (Some (lastBalance hist))))"

lemma AddressBalanceKey_split: "AddressBalanceKey G a q = AddressBalanceKeyPrefix G a @ padDec 20 (unat q)"
  by (simp add: AddressBalanceKey_def AddressBalanceKeyPrefix_def)

lemma AddressBalanceKey_less [simp]: "AddressBalanceKey G a q < AddressBalanceKey G a r \<longleftrightarrow> q < r"
  by (simp add: AddressBalanceKey_split)

lemma AddressBalanceKey_same [simp]: "AddressBalanceKey G a q = AddressBalanceKey G a r \<longleftrightarrow> q = r"
  by (simp add: AddressBalanceKey_split)

lemma AddressBalanceKey_prefix [simp]: "HasPrefix (AddressBalanceKey G a q) (AddressBalanceKeyPrefix G a)"
  by (simp add: AddressBalanceKey_split HasPrefix_def)

lemma AddressBalanceLatestKey_no_prefix [simp]:
  "\<not> HasPrefix (AddressBalanceLatestKey G a) (AddressBalanceKeyPrefix G a)"
  by (simp add: HasPrefix_def AddressBalanceLatestKey_def AddressBalanceKeyPrefix_def)

lemma AddressBalanceKey_not_latest [simp]: "AddressBalanceKey G a q \<noteq> AddressBalanceLatestKey G a"
  "AddressBalanceLatestKey G a \<noteq> AddressBalanceKey G a q"
  by (metis AddressBalanceKey_prefix AddressBalanceLatestKey_no_prefix)+

lemma snap_ok_roundtrip:
  "snap_ok sn \<Longrightarrow> EncodeBalanceSnapshot (Some sn) = Inr (encodeSnap sn) \<and> DecodeBalanceSnapshot (encodeSnap sn) = Inr sn"
proof -
  assume "snap_ok sn"
  then obtain b d where "bsBalance sn = Some b" "bsDelta sn = Some d" "0 \<le> b"
    "length (bigBytes (nat b)) < 2 ^ 61" "length (bigBytes (nat \<bar>d\<bar>)) < 2 ^ 60"
    by (auto simp: snap_ok_def)
  then have "\<exists>e. EncodeBalanceSnapshot (Some sn) = Inr e \<and> DecodeBalanceSnapshot e = Inr sn"
    using snapshot_decodes [of b d "bsBlockNumber sn" "bsTxHash sn"] by (cases sn) simp
  then show ?thesis by (auto simp: encodeSnap_def)
qed

lemma hist_scan:
  assumes "pebble_db P view" "hist_inv view G s addr hist"
  shows "scanPrefix P (AddressBalanceKeyPrefix G addr) s =
    (Inr (map (\<lambda>x. (AddressBalanceKey G addr (fst x), encodeSnap (snd x))) hist, None), s)"
proof (rule scanPrefix_eq [OF assms(1)])
  show "sorted_wrt (<) (map fst (map (\<lambda>x. (AddressBalanceKey G addr (fst x), encodeSnap (snd x))) hist))"
    using assms(2) by (simp add: hist_inv_def sorted_wrt_map)
  show "(k, v) \<in> set (map (\<lambda>x. (AddressBalanceKey G addr (fst x), encodeSnap (snd x))) hist) \<longleftrightarrow>
      HasPrefix k (AddressBalanceKeyPrefix G addr) \<and> view (db s) k = Some v" for k v
    using assms(2) by (auto simp: hist_inv_def)
  show "k < AddressBalanceKeyPrefix G addr @ [byteChar 255]"
    if "(k, v) \<in> set (map (\<lambda>x. (AddressBalanceKey G addr (fst x), encodeSnap (snd x))) hist)" for k v
    using that padDec_less_ff by (auto simp: AddressBalanceKey_split)
qed

lemma hist_inv_append:
  assumes "geth_codec G" "hist_inv view G s addr hist" "addrSeq s addr < - 1" "snap_ok sn"
    and "view (db s') = (view (db s))(AddressBalanceKey G addr (addrSeq s addr) := Some (encodeSnap sn),
      AddressBalanceLatestKey G addr := Some (EncodeBigInt (bsBalance sn)))"
    and "addrSeq s' = (addrSeq s)(addr := addrSeq s addr + 1)"
  shows "hist_inv view G s' addr (hist @ [(addrSeq s addr, sn)])"
proof -
  let ?q = "addrSeq s addr"
  have lt: "q < ?q + 1 \<longleftrightarrow> q < ?q \<or> q = ?q" for q
    using assms(3) by (auto simp: word_less_nat_alt unat_succ_u64 word_unat_eq_iff)
  obtain b where b: "bsBalance sn = Some b" using assms(4) by (auto simp: snap_ok_def)
  have old: "HasPrefix k (AddressBalanceKeyPrefix G addr) \<and> view (db s) k = Some w \<longleftrightarrow>
      (\<exists>x\<in>set hist. k = AddressBalanceKey G addr (fst x) \<and> w = encodeSnap (snd x))" for k w
    using assms(2) unfolding hist_inv_def by blast
  have fresh: "\<forall>x\<in>set hist. fst x \<noteq> ?q" using assms(2) by (auto simp: hist_inv_def)
  have "HasPrefix k (AddressBalanceKeyPrefix G addr) \<and> view (db s') k = Some w \<longleftrightarrow>
      (\<exists>x\<in>set (hist @ [(?q, sn)]). k = AddressBalanceKey G addr (fst x) \<and> w = encodeSnap (snd x))" for k w
  proof (cases "k = AddressBalanceKey G addr ?q")
    case True
    then show ?thesis using fresh by (auto simp: assms(5))
  next
    case False
    then show ?thesis using old [of k w] by (auto simp: assms(5))
  qed
  then show ?thesis
    using assms(2,4) b unfolding hist_inv_def
    by (simp add: sorted_wrt_append assms(5,6) lt lastBalance_def)
qed

lemma hist_inv_other:
  assumes "geth_codec G"
    and "view (db s') = (view (db s))(AddressBalanceKey G addr q := Some v, AddressBalanceLatestKey G addr := Some w)"
    and "addrSeq s' = (addrSeq s)(addr := p)" "a \<noteq> addr" "hist_inv view G s a ha"
  shows "hist_inv view G s' a ha"
proof -
  have "\<not> HasPrefix (AddressBalanceKey G addr q) (AddressBalanceKeyPrefix G a)"
    "\<not> HasPrefix (AddressBalanceLatestKey G addr) (AddressBalanceKeyPrefix G a)"
    "AddressBalanceLatestKey G a \<noteq> AddressBalanceLatestKey G addr"
    "AddressBalanceLatestKey G a \<noteq> AddressBalanceKey G addr q"
    using assms(4) geth_codec.addrHex_append_inject [OF assms(1)] geth_codec.addrHex_inject [OF assms(1)]
    by (auto simp: HasPrefix_def AddressBalanceKey_def AddressBalanceLatestKey_def AddressBalanceKeyPrefix_def prefix_def)
  then have "HasPrefix k (AddressBalanceKeyPrefix G a) \<and> view (db s') k = Some x \<longleftrightarrow>
      HasPrefix k (AddressBalanceKeyPrefix G a) \<and> view (db s) k = Some x"
    "view (db s') (AddressBalanceLatestKey G a) = view (db s) (AddressBalanceLatestKey G a)" for k x
    by (auto simp: assms(2))
  then show ?thesis using assms(3,4,5) unfolding hist_inv_def by simp
qed

lemma GetAddressBalance_latest:
  assumes "pebble_db P view" "hist_inv view G s addr hist" "\<not> closed s"
  shows "GetAddressBalance P G addr 0 s = (Inr (lastBalance hist), s)"
proof -
  have "0 \<le> lastBalance hist"
  proof (cases hist rule: rev_cases)
    case (snoc xs x)
    then have "snap_ok (snd x)" using assms(2) by (simp add: hist_inv_def)
    then show ?thesis using snoc by (auto simp: lastBalance_def snap_ok_def)
  qed (simp add: lastBalance_def)
  moreover have "lastBalance hist = 0" if "hist = []" using that by (simp add: lastBalance_def)
  ultimately show ?thesis using assms(2,3)
    by (auto simp: GetAddressBalance_def guard_simps catch_def andThen_def pebble_db.dbGet_eq [OF assms(1)]
        hist_inv_def)
qed

lemma balanceLoop_eq:
  assumes "\<forall>x\<in>set hist. snap_ok (snd x)" "sorted (map (\<lambda>x. bsBlockNumber (snd x)) hist)"
  shows "balanceLoop n (map (\<lambda>x. (kf x, encodeSnap (snd x))) hist) b =
    Inr (let xs = filter (\<lambda>x. bsBlockNumber (snd x) \<le> n) hist in if xs = [] then b else lastBalance xs)"
  using assms
proof (induction hist arbitrary: b)
  case (Cons x hist)
  have dec: "DecodeBalanceSnapshot (encodeSnap (snd x)) = Inr (snd x)"
    using snap_ok_roundtrip Cons.prems(1) by simp
  show ?case
  proof (cases "bsBlockNumber (snd x) \<le> n")
    case True
    then have "\<not> n < bsBlockNumber (snd x)" by simp
    with True show ?thesis using Cons dec by (simp add: Let_def lastBalance_def)
  next
    case False
    then have "filter (\<lambda>x. bsBlockNumber (snd x) \<le> n) (x # hist) = []"
      using Cons.prems(2) by (auto simp: filter_empty_conv)
    then show ?thesis using False dec by (simp add: not_le Let_def)
  qed
qed simp

text \<open>
  C28: the balance at a block is the balance after the last change at or before that block, and 0
  before the first one, when the history was written in the order of the blocks.
\<close>

theorem GetAddressBalance_at_block:
  assumes "pebble_db P view" "hist_inv view G s addr hist" "\<not> closed s" "n \<noteq> 0"
    and "sorted (map (\<lambda>x. bsBlockNumber (snd x)) hist)"
  shows "GetAddressBalance P G addr n s =
    (Inr (lastBalance (filter (\<lambda>x. bsBlockNumber (snd x) \<le> n) hist)), s)"
proof -
  have "\<forall>x\<in>set hist. snap_ok (snd x)" using assms(2) by (simp add: hist_inv_def)
  from balanceLoop_eq [OF this assms(5)] hist_scan [OF assms(1,2)] assms(3,4) show ?thesis
    by (simp add: GetAddressBalance_def guard_simps andThen_def loopThen_def lastBalance_def Let_def)
qed

lemma UpdateBalance_step:
  assumes "pebble_db P view" "geth_codec G" "hist_inv view G s addr hist" "addrSeq s addr < - 1"
    and "length (bigBytes (nat (lastBalance hist + delta))) < 2 ^ 61" "length (bigBytes (nat \<bar>delta\<bar>)) < 2 ^ 60"
    and "ready s" "UpdateBalance P G addr n delta h s = (r, s')"
  shows "(lastBalance hist + delta < 0 \<longrightarrow> s' = s \<and> r = Inl (Errorf ''balance cannot be negative'')) \<and>
    (r = Inr () \<longrightarrow> 0 \<le> lastBalance hist + delta \<and>
      hist_inv view G s' addr (hist @ [(addrSeq s addr, \<lparr>bsBlockNumber = n,
        bsBalance = Some (lastBalance hist + delta), bsDelta = Some delta, bsTxHash = h\<rparr>)]) \<and>
      GetAddressBalance P G addr 0 s' = (Inr (lastBalance hist + delta), s') \<and>
      (\<forall>a ha. a \<noteq> addr \<and> hist_inv view G s a ha \<longrightarrow> hist_inv view G s' a ha))"
proof -
  let ?new = "lastBalance hist + delta" and ?q = "addrSeq s addr"
  let ?sn = "\<lparr>bsBlockNumber = n, bsBalance = Some ?new, bsDelta = Some delta, bsTxHash = h\<rparr>"
  have o: "\<not> closed s" "\<not> ReadOnly (config s)" using assms(7) by (simp_all add: ready_def)
  note cur = GetAddressBalance_latest [OF assms(1,3) o(1)]
  show ?thesis
  proof (cases "?new < 0")
    case True
    then show ?thesis using assms(8) o cur
      by (auto simp: UpdateBalance_def guard_simps andThen_def wrapping_def Let_def)
  next
    case False
    then have ok: "snap_ok ?sn" using assms(5,6) by (simp add: snap_ok_def)
    have inv: "hist_inv view G s' addr (hist @ [(?q, ?sn)]) \<and> \<not> closed s' \<and>
        (\<forall>a ha. a \<noteq> addr \<and> hist_inv view G s a ha \<longrightarrow> hist_inv view G s' a ha)" if "r = Inr ()"
    proof -
      have "UpdateBalance P G addr n delta h s = (Inr (), s')" using assms(8) that by simp
      then obtain s1 where w: "dbSet P (AddressBalanceKey G addr ?q) (encodeSnap ?sn)
          (s\<lparr>addrSeq := (addrSeq s)(addr := ?q + 1)\<rparr>) = (Inr (), s1)"
        "dbSet P (AddressBalanceLatestKey G addr) (EncodeBigInt (Some ?new)) s1 = (Inr (), s')"
        using o cur False snap_ok_roundtrip [OF ok]
        by (auto simp: UpdateBalance_def guard_simps andThen_eq_Inr Let_def)
      have v: "view (db s') = (view (db s))(AddressBalanceKey G addr ?q := Some (encodeSnap ?sn),
          AddressBalanceLatestKey G addr := Some (EncodeBigInt (Some ?new)))"
        and sq: "addrSeq s' = (addrSeq s)(addr := ?q + 1)" and cl: "\<not> closed s'"
        using pebble_db.dbSet_Inr [OF assms(1) w(1)] pebble_db.dbSet_Inr [OF assms(1) w(2)] o(1)
        by (auto simp: only_db_def)
      have "hist_inv view G s' addr (hist @ [(?q, ?sn)])"
        using hist_inv_append [OF assms(2,3,4) ok _ sq] v by simp
      then show ?thesis using hist_inv_other [OF assms(2) v sq] cl by blast
    qed
    then show ?thesis using False GetAddressBalance_latest [OF assms(1), of G s' addr "hist @ [(?q, ?sn)]"]
      by (simp add: lastBalance_def)
  qed
qed

lemma historyLoop_eq:
  assumes "\<forall>x\<in>set hist. snap_ok (snd x)"
  shows "historyLoop lo hi limit offset (map (\<lambda>x. (kf x, encodeSnap (snd x))) hist) cnt acc =
    Inr (acc @ take (nat (limit - int (length acc))) (drop (nat (offset - cnt))
      (filter (\<lambda>sn. lo \<le> bsBlockNumber sn \<and> bsBlockNumber sn \<le> hi) (map snd hist))))"
  using assms
proof (induction hist arbitrary: cnt acc)
  case (Cons x hist)
  have dec: "DecodeBalanceSnapshot (encodeSnap (snd x)) = Inr (snd x)"
    using snap_ok_roundtrip Cons.prems by simp
  let ?n = "bsBlockNumber (snd x)"
  consider (full) "int (length acc) \<ge> limit" | (out) "int (length acc) < limit" "?n < lo \<or> ?n > hi"
    | (skip) "int (length acc) < limit" "\<not> (?n < lo \<or> ?n > hi)" "cnt < offset"
    | (keep) "int (length acc) < limit" "\<not> (?n < lo \<or> ?n > hi)" "\<not> cnt < offset" by linarith
  then show ?case
  proof cases
    case out
    then show ?thesis using Cons dec by (auto simp: not_le [symmetric])
  next
    case skip
    then have "nat (offset - cnt) = Suc (nat (offset - (cnt + 1)))" by linarith
    moreover have "lo \<le> ?n" "?n \<le> hi" "\<not> ?n < lo" "\<not> hi < ?n" using skip(2) by auto
    ultimately show ?thesis using skip Cons dec by simp
  next
    case keep
    then have "nat (limit - int (length acc)) = Suc (nat (limit - int (length (acc @ [snd x]))))" by simp
    moreover have "offset - cnt \<le> 0" "offset - (cnt + 1) \<le> 0" using keep by simp_all
    moreover have "lo \<le> ?n" "?n \<le> hi" "\<not> ?n < lo" "\<not> hi < ?n" using keep(2) by auto
    ultimately show ?thesis using keep Cons dec by simp
  qed simp
qed simp

lemma GetBalanceHistory_eq:
  assumes "pebble_db P view" "hist_inv view G s addr hist" "\<not> closed s" "lo \<le> hi"
  shows "GetBalanceHistory P G addr lo hi limit offset s = (Inr (take (nat limit) (drop (nat offset)
    (filter (\<lambda>sn. lo \<le> bsBlockNumber sn \<and> bsBlockNumber sn \<le> hi) (map snd hist)))), s)"
proof -
  have "\<forall>x\<in>set hist. snap_ok (snd x)" using assms(2) by (simp add: hist_inv_def)
  from historyLoop_eq [OF this] hist_scan [OF assms(1,2)] assms(3,4) show ?thesis
    by (simp add: GetBalanceHistory_def guard_simps andThen_def loopThen_def not_less)
qed

text \<open>
  C26: a balance update that reports success appends one snapshot to the history of the address,
  with the block, the signed change, the transaction and the new balance, which is the old one plus
  the change and not negative; the histories of the other addresses stay as they are. An update
  below zero is refused and changes nothing.
\<close>

theorem UpdateBalance_appends:
  assumes "pebble_db P view" "geth_codec G" "hist_inv view G s addr hist" "addrSeq s addr < - 1"
    and "length (bigBytes (nat (lastBalance hist + delta))) < 2 ^ 61" "length (bigBytes (nat \<bar>delta\<bar>)) < 2 ^ 60"
    and "ready s" "UpdateBalance P G addr n delta h s = (r, s')"
  shows "(lastBalance hist + delta < 0 \<longrightarrow> s' = s \<and> r = Inl (Errorf ''balance cannot be negative'')) \<and>
    (r = Inr () \<longrightarrow> 0 \<le> lastBalance hist + delta \<and>
      hist_inv view G s' addr (hist @ [(addrSeq s addr, \<lparr>bsBlockNumber = n,
        bsBalance = Some (lastBalance hist + delta), bsDelta = Some delta, bsTxHash = h\<rparr>)]) \<and>
      GetAddressBalance P G addr 0 s' = (Inr (lastBalance hist + delta), s') \<and>
      (\<forall>a ha. a \<noteq> addr \<and> hist_inv view G s a ha \<longrightarrow> hist_inv view G s' a ha))"
  using assms by (rule UpdateBalance_step)

lemma sample_hist:
  "hist_inv map_of sampleGeth (emptyStorage []) 5 []"
  by (simp add: hist_inv_def emptyStorage_def)

theorem UpdateBalance_appends_witness:
  "\<exists>s'. UpdateBalance memPebble sampleGeth 5 7 100 21 (emptyStorage []) = (Inr (), s') \<and>
     GetAddressBalance memPebble sampleGeth 5 0 s' = (Inr 100, s')"
proof -
  have b: "length (bigBytes 100) < 2 ^ 61" "length (bigBytes 100) < 2 ^ 60"
    by (rule le_less_trans [OF length_bigBytes_le], simp)+
  have "snap_ok \<lparr>bsBlockNumber = 7, bsBalance = Some 100, bsDelta = Some 100, bsTxHash = 21\<rparr>"
    using b by (simp add: snap_ok_def)
  from snap_ok_roundtrip [OF this]
  obtain s' where s': "UpdateBalance memPebble sampleGeth 5 7 100 21 (emptyStorage []) = (Inr (), s')"
    using GetAddressBalance_latest [OF memPebble.pebble_db_axioms sample_hist]
    by (simp add: UpdateBalance_def guard_simps emptyStorage_def DefaultConfig_def andThen_def wrapping_def
        catch_def lastBalance_def Let_def dbSet_def liftWrite_def memPebble_def)
  have "addrSeq (emptyStorage ([] :: (bytes \<times> bytes) list)) 5 < - 1"
    "ready (emptyStorage ([] :: (bytes \<times> bytes) list))"
    by (simp_all add: emptyStorage_def ready_def DefaultConfig_def word_less_nat_alt unat_max_u64)
  from UpdateBalance_appends [OF memPebble.pebble_db_axioms geth_codec_sample sample_hist this(1) _ _ this(2) s'] b s'
  show ?thesis by (simp add: lastBalance_def)
qed

theorem GetAddressBalance_at_block_witness:
  "\<exists>s. GetAddressBalance memPebble sampleGeth 5 6 s = (Inr 0, s) \<and>
     GetAddressBalance memPebble sampleGeth 5 9 s = (Inr 100, s)"
proof -
  let ?sn = "\<lparr>bsBlockNumber = 7, bsBalance = Some 100, bsDelta = Some 100, bsTxHash = 21\<rparr>"
  let ?s = "(emptyStorage [(AddressBalanceLatestKey sampleGeth 5, EncodeBigInt (Some 100)),
      (AddressBalanceKey sampleGeth 5 0, encodeSnap ?sn)])\<lparr>addrSeq := (\<lambda>_. 0)(5 := 1)\<rparr>"
  have b: "length (bigBytes 100) < 2 ^ 61" "length (bigBytes 100) < 2 ^ 60"
    by (rule le_less_trans [OF length_bigBytes_le], simp)+
  have z: "addrSeq (emptyStorage ([] :: (bytes \<times> bytes) list)) 5 = 0" "(0 :: u64) < - 1"
    by (simp_all add: emptyStorage_def word_less_nat_alt unat_max_u64)
  have "snap_ok ?sn" using b by (simp add: snap_ok_def)
  then have h: "hist_inv map_of sampleGeth ?s 5 [(0, ?sn)]"
    using hist_inv_append [OF geth_codec_sample sample_hist, of ?sn ?s] z
    by (simp add: emptyStorage_def fun_upd_def)
  have "\<not> closed ?s" by (simp add: emptyStorage_def)
  note at = GetAddressBalance_at_block [OF memPebble.pebble_db_axioms h this]
  show ?thesis using at [of 6] at [of 9] by (intro exI [of _ ?s]) (simp add: lastBalance_def)
qed

section \<open>The index of blocks by time\<close>

lemma common_prefix_range:
  "p @ x \<le> k \<Longrightarrow> k < p @ y \<Longrightarrow> HasPrefix (k :: bytes) p"
proof (induction p arbitrary: k)
  case (Cons c p)
  then obtain k' where "k = c # k'" "p @ x \<le> k'" "k' < p @ y" by (cases k) auto
  with Cons.IH show ?case by (simp add: HasPrefix_def)
qed (simp add: HasPrefix_def)

text \<open>\<open>time_inv view s ts\<close>: the index holds exactly the pairs \<open>ts\<close> of timestamp and height, in order.\<close>

definition time_inv :: "('db \<Rightarrow> bytes \<Rightarrow> bytes option) \<Rightarrow> 'db storage \<Rightarrow> (u64 \<times> u64) list \<Rightarrow> bool" where
  "time_inv view s ts \<longleftrightarrow>
     sorted_wrt (\<lambda>a b. fst a < fst b \<or> fst a = fst b \<and> snd a < snd b) ts \<and>
     (\<forall>k v. HasPrefix k BlockTimestampKeyPrefix \<and> view (db s) k = Some v \<longleftrightarrow>
        (\<exists>x\<in>set ts. k = BlockTimestampKey (fst x) (snd x) \<and> v = EncodeUint64 (snd x)))"

lemma BlockTimestampKey_less:
  "BlockTimestampKey t h < BlockTimestampKey t' h' \<longleftrightarrow> t < t' \<or> t = t' \<and> h < h'"
  by (simp add: BlockTimestampKey_def less_list_append_eqlen)

lemma BlockTimestampKey_le: "BlockTimestampKey t 0 \<le> BlockTimestampKey t' h' \<longleftrightarrow> t \<le> t'"
  using BlockTimestampKey_less [of t' h' t 0] by (auto simp: not_less [symmetric])

lemma time_scan:
  assumes "pebble_db P view" "time_inv view s ts" "to < - 1"
  shows "dbIter P (Some (BlockTimestampKey from 0)) (Some (BlockTimestampKey (to + 1) 0)) s =
    (Inr (map (\<lambda>x. (BlockTimestampKey (fst x) (snd x), EncodeUint64 (snd x)))
      (filter (\<lambda>x. from \<le> fst x \<and> fst x \<le> to) ts), None), s)"
proof -
  let ?lo = "BlockTimestampKey from 0" and ?hi = "BlockTimestampKey (to + 1) 0"
  let ?f = "\<lambda>x. (BlockTimestampKey (fst x) (snd x), EncodeUint64 (snd x))"
  let ?ts = "filter (\<lambda>x. from \<le> fst x \<and> fst x \<le> to) ts"
  obtain es where it: "dbIter P (Some ?lo) (Some ?hi) s = (Inr (es, None), s)" "sorted_wrt (<) (map fst es)"
    "\<forall>k v. (k, v) \<in> set es \<longleftrightarrow> inRange (Some ?lo) (Some ?hi) k \<and> view (db s) k = Some v"
    using pebble_db.dbIter_eq [OF assms(1)] by blast
  have pfx: "HasPrefix k BlockTimestampKeyPrefix" if "inRange (Some ?lo) (Some ?hi) k" for k
    using that common_prefix_range [of BlockTimestampKeyPrefix]
    by (fastforce simp: inRange_def BlockTimestampKey_def BlockTimestampKeyPrefix_def)
  have rng: "inRange (Some ?lo) (Some ?hi) (BlockTimestampKey t h) \<longleftrightarrow> from \<le> t \<and> t \<le> to" for t h
    using less_succ_u64 [OF assms(3), of t] BlockTimestampKey_less [of t h "to + 1" 0]
    by (auto simp: inRange_def BlockTimestampKey_le)
  have idx: "HasPrefix k BlockTimestampKeyPrefix \<and> view (db s) k = Some v \<longleftrightarrow>
      (\<exists>x\<in>set ts. k = BlockTimestampKey (fst x) (snd x) \<and> v = EncodeUint64 (snd x))" for k v
    using assms(2) unfolding time_inv_def by blast
  have "(k, v) \<in> set es \<longleftrightarrow> (k, v) \<in> set (map ?f ?ts)" for k v
    using it(3) pfx [of k] idx [of k v] rng by auto
  then have "set es = set (map ?f ?ts)" by auto
  moreover have "sorted_wrt (<) (map fst (map ?f ?ts))"
    using assms(2) unfolding time_inv_def
    by (simp add: sorted_wrt_map BlockTimestampKey_less sorted_wrt_filter)
  ultimately have "es = map ?f ?ts" by (intro sorted_kv_unique [OF it(2)])
  with it(1) show ?thesis by simp
qed

lemma timeLoop_eq:
  assumes "\<forall>x\<in>set ts. \<forall>e. fst (GetBlock P G (snd x) s) = Inl e \<longrightarrow> e = ErrNotFound"
  shows "timeLoop P G limit offset (map (\<lambda>x. (kf x, EncodeUint64 (snd x))) ts) cnt blocks s =
    (Inr (blocks @ take (nat (limit - int (length blocks)))
      (blocksAt P G s (drop (nat (offset - cnt)) (map snd ts)))), s)"
  using assms
proof (induction ts arbitrary: cnt blocks)
  case (Cons x ts)
  have st: "snd (GetBlock P G (snd x) s) = s" by (rule GetBlock_state)
  consider (skip) "cnt < offset" | (stop) "\<not> cnt < offset" "int (length blocks) \<ge> limit"
    | (missing) "\<not> cnt < offset" "int (length blocks) < limit" "GetBlock P G (snd x) s = (Inl ErrNotFound, s)"
    | (found) b where "\<not> cnt < offset" "int (length blocks) < limit" "GetBlock P G (snd x) s = (Inr b, s)"
    using Cons.prems st by (cases "fst (GetBlock P G (snd x) s)") (auto simp: prod_eq_iff, force+)
  then show ?case
  proof cases
    case skip
    then have "nat (offset - cnt) = Suc (nat (offset - (cnt + 1)))" by linarith
    with skip Cons show ?thesis by simp
  next
    case stop
    then show ?thesis by simp
  next
    case missing
    then show ?thesis using Cons by (simp add: blocksAt_def)
  next
    case found
    then have "nat (limit - int (length blocks)) = Suc (nat (limit - int (length (blocks @ [b]))))" by simp
    with found Cons show ?thesis by (simp add: blocksAt_def)
  qed
qed (simp add: blocksAt_def)

text \<open>
  The blocks of a time range are those stored at the heights the index has for the timestamps of
  the range, ordered by time and then height, from the offset on and as many as the limit allows;
  heights without a block are left out. The end of the range is below the largest timestamp.
\<close>

theorem GetBlocksByTimeRange_exact:
  assumes "pebble_db P view" "time_inv view s ts" "\<not> closed s" "from \<le> to" "to < - 1"
    and "\<forall>x\<in>set ts. \<forall>e. fst (GetBlock P G (snd x) s) = Inl e \<longrightarrow> e = ErrNotFound"
  shows "GetBlocksByTimeRange P G from to limit offset s =
    (Inr (take (nat limit) (blocksAt P G s (drop (nat offset)
      (map snd (filter (\<lambda>x. from \<le> fst x \<and> fst x \<le> to) ts))))), s)"
proof -
  have "\<forall>x\<in>set (filter (\<lambda>x. from \<le> fst x \<and> fst x \<le> to) ts). \<forall>e. fst (GetBlock P G (snd x) s) = Inl e \<longrightarrow> e = ErrNotFound"
    using assms(6) by auto
  note loop = timeLoop_eq [OF this, of limit offset _ 0 "[]"]
  have "\<not> to < from" using assms(4) by simp
  with assms(3) show ?thesis
    by (simp add: GetBlocksByTimeRange_def guard_simps andThen_def wrapping_def
        time_scan [OF assms(1,2,5)] loop loopThen_def)
qed

theorem GetBlocksByTimeRange_exact_witness:
  "\<exists>s. GetBlocksByTimeRange memPebble sampleGeth 900 1100 10 0 s = (Inr [sampleBlock], s)"
proof -
  let ?s = "emptyStorage [(BlockTimestampKey 1000 7, EncodeUint64 7), (BlockKey 7, ''B'')]"
  have t: "time_inv map_of ?s [(1000, 7)]"
    by (auto simp: time_inv_def emptyStorage_def HasPrefix_def BlockTimestampKey_def BlockTimestampKeyPrefix_def
        BlockKey_def prefixBlocks_def)
  have b: "GetBlock memPebble sampleGeth 7 ?s = (Inr sampleBlock, ?s)"
    by (rule chain_store.GetBlock_stored [OF chain_store_intro [OF memPebble.pebble_db_axioms geth_codec_sample]])
      (simp_all add: emptyStorage_def sampleGeth_def refGeth_def BlockTimestampKey_def BlockKey_def prefixBlocks_def)
  have "\<not> closed ?s" "(900 :: u64) \<le> 1100" "(1100 :: u64) < - 1"
    by (simp_all add: emptyStorage_def)
  from GetBlocksByTimeRange_exact [OF memPebble.pebble_db_axioms t this, of sampleGeth 10 0] b
  show ?thesis by (intro exI [of _ ?s]) (simp add: blocksAt_def)
qed

lemma SetBlockTimestamp_indexes:
  assumes "pebble_db P view" "time_inv view s ts" "SetBlockTimestamp P t h s = (Inr u, s')"
    and "sorted_wrt (\<lambda>a b. fst a < fst b \<or> fst a = fst b \<and> snd a < snd b) (xs @ (t, h) # ys)" "ts = xs @ ys"
  shows "time_inv view s' (xs @ (t, h) # ys)"
proof -
  have "dbSet P (BlockTimestampKey t h) (EncodeUint64 h) s = (Inr u, s')"
    using assms(3) by (auto simp: SetBlockTimestamp_def guard_simps split: if_splits)
  then have v: "view (db s') = (view (db s))(BlockTimestampKey t h := Some (EncodeUint64 h))"
    using pebble_db.dbSet_Inr [OF assms(1)] by blast
  have inj: "BlockTimestampKey a b = BlockTimestampKey c d \<longleftrightarrow> a = c \<and> b = d" for a b c d
    by (simp add: BlockTimestampKey_def eqlen_append_inject)
  have idx: "HasPrefix k BlockTimestampKeyPrefix \<and> view (db s) k = Some v \<longleftrightarrow>
      (\<exists>x\<in>set ts. k = BlockTimestampKey (fst x) (snd x) \<and> v = EncodeUint64 (snd x))" for k v
    using assms(2) unfolding time_inv_def by blast
  have new: "HasPrefix (BlockTimestampKey t h) BlockTimestampKeyPrefix"
    by (simp add: HasPrefix_def BlockTimestampKey_def BlockTimestampKeyPrefix_def)
  have "HasPrefix k BlockTimestampKeyPrefix \<and> view (db s') k = Some w \<longleftrightarrow>
      (\<exists>x\<in>set (xs @ (t, h) # ys). k = BlockTimestampKey (fst x) (snd x) \<and> w = EncodeUint64 (snd x))" for k w
    using idx [of k w] new inj assms(5) by (cases "k = BlockTimestampKey t h") (auto simp: v)
  then show ?thesis using assms(4) unfolding time_inv_def by blast
qed

text \<open>
  The iterator of \<^verbatim>\<open>GetBlockByTimestamp\<close> runs past the time index. With no block at or after the
  timestamp it finds a key of another index, here that of a transaction, and fails to read a
  height in it instead of falling back to the last block.
\<close>

lemma GetBlockByTimestamp_reads_foreign_key:
  "let s = emptyStorage [(BlockTimestampKey 1000 7, EncodeUint64 7), (TransactionHashIndexKey sampleGeth 21, ''L'')] in
   GetBlockByTimestamp memPebble sampleGeth 1001 s =
     (Inl (Wrap ''failed to decode height'' (FromSchema (InvalidUint64Length 1))), s)"
proof -
  let ?t = "BlockTimestampKey 1000 7" and ?x = "TransactionHashIndexKey sampleGeth 21"
  have r: "BlockTimestampKeyPrefix \<le> ?t" "BlockTimestampKeyPrefix \<le> ?x" "?t < ?x" "BlockTimestampKey 1001 0 \<le> ?x"
    by (simp_all add: BlockTimestampKey_def BlockTimestampKeyPrefix_def TransactionHashIndexKey_def
        prefixTxHash_def less_le_not_le)
  have n: "\<not> BlockTimestampKey 1001 0 \<le> ?t" by (simp add: BlockTimestampKey_le)
  have "memIter [(?t, EncodeUint64 7), (?x, ''L'')] (Some BlockTimestampKeyPrefix) None = [(?t, EncodeUint64 7), (?x, ''L'')]"
    using r by (auto simp: memIter_def inRange_def)
  then show ?thesis using r(4) n
    by (simp add: GetBlockByTimestamp_def guard_simps emptyStorage_def andThen_def wrapping_def catch_def dbIter_def
        memPebble_def decodeU64_def DecodeUint64_def Let_def)
qed

section \<open>The transaction count\<close>

definition txTotal :: "block list \<Rightarrow> u64" where
  "txTotal bs = word_of_nat (sum_list (map (\<lambda>b. length (bTxs b)) bs))"

lemma countLoop_eq:
  assumes "hi < - 1" "h \<le> hi + 1"
    and "\<forall>h. fst (GetBlock P G h s) \<in> {Inl ErrNotFound} \<union> range Inr"
  shows "countLoop P G h hi n s = Some (Inr (n + txTotal (blocksAt P G s (heights h hi))), s)"
  using assms(1,2)
proof (induction h arbitrary: n rule: count_up_induct)
  case last
  have "\<not> hi + 1 \<le> hi" "hi < hi + 1" using less_succ_u64 [OF assms(1), of hi] by (simp_all add: not_le)
  then show ?case by (simp add: countLoop.simps heights_empty blocksAt_def txTotal_def)
next
  case (step h)
  have st: "snd (GetBlock P G h s) = s" by (rule GetBlock_state)
  consider "GetBlock P G h s = (Inl ErrNotFound, s)" | b where "GetBlock P G h s = (Inr b, s)"
    using assms(3) st by (cases "GetBlock P G h s") (metis (no_types, lifting) Un_iff fst_conv rangeE singletonD snd_conv)
  then show ?case
    using step heights_step [OF step.hyps(1) assms(1)]
    by cases (simp_all add: countLoop.simps [of P G h] blocksAt_def txTotal_def)
qed

text \<open>
  Recounting: \<^verbatim>\<open>InitializeTransactionCount\<close> returns, and on success the counter in memory and the one on
  disk are the number of transactions of the stored blocks up to the latest height, modulo 2^64.
\<close>

lemma InitializeTransactionCount_counts:
  assumes "pebble_db P view" "ready s" "GetLatestHeight P s = (Inr hi, s)" "hi < - 1"
    and "\<forall>h. fst (GetBlock P G h s) \<in> {Inl ErrNotFound} \<union> range Inr"
  shows "\<exists>r s'. InitializeTransactionCount P G s = Some (r, s') \<and>
    (r = Inr () \<longrightarrow> txCount s' = txTotal (blocksAt P G s (heights 0 hi)) \<and> txCountReady s' \<and> count_synced view s')"
proof -
  let ?n = "txTotal (blocksAt P G s (heights 0 hi))"
  have "countLoop P G 0 hi 0 s = Some (Inr ?n, s)"
    using countLoop_eq [OF assms(4) _ assms(5), of 0 0] by simp
  then have i: "InitializeTransactionCount P G s = Some (andThen (wrapping ''failed to set transaction count''
      (dbSet P TransactionCountKey (EncodeUint64 ?n))) (\<lambda>_ t. (Inr (), t\<lparr>txCount := ?n, txCountReady := True\<rparr>)) s)"
    using assms(2,3) by (simp add: InitializeTransactionCount_def guard_simps ready_def wrapping_def)
  show ?thesis
  proof (cases "dbSet P TransactionCountKey (EncodeUint64 ?n) s")
    case (Pair r s1)
    then show ?thesis
    proof (cases r)
      case (Inr u)
      then show ?thesis using i Pair pebble_db.dbSet_Inr [OF assms(1), of TransactionCountKey "EncodeUint64 ?n" s u s1]
        by (simp add: andThen_def wrapping_def count_synced_def)
    qed (simp add: i andThen_def wrapping_def)
  qed
qed

end
