(* ===== verification/LogIndex.thy ===== *)
theory LogIndex
  imports BlockBatch Balances
begin

text \<open>
  The index of event logs (\<^verbatim>\<open>pkg/storage/pebble_logs.go\<close>): every log is stored once under its
  position and entered into an index by address, by each of its first four topics and by block.
  Queries scan an index between two positions, read the position back out of each key, and load
  the logs. The property theorems say that a query returns exactly the matching logs.
\<close>

section \<open>Reading a position out of a key\<close>

text \<open>
  \<^verbatim>\<open>fmt.Sscanf\<close> with the verb \<^verbatim>\<open>%0wd\<close> skips blanks, takes at most \<open>w\<close> digits and refuses a number
  of more than 64 bits; a slash of the format must be there. What follows the last verb is not
  looked at. (Of the blanks only the ASCII ones are written out.)
\<close>

definition isBlank :: "char \<Rightarrow> bool" where
  "isBlank c \<longleftrightarrow> byteVal c \<in> {9, 11, 12, 13, 32}"

definition isDecDigit :: "char \<Rightarrow> bool" where
  "isDecDigit c \<longleftrightarrow> 48 \<le> byteVal c \<and> byteVal c \<le> 57"

definition scanUint :: "nat \<Rightarrow> string \<Rightarrow> (u64 \<times> string) option" where
  "scanUint w str =
     (let str = dropWhile isBlank str; digits = takeWhile isDecDigit (take w str)
      in case ParseUint digits of
           None \<Rightarrow> None
         | Some n \<Rightarrow> Some (n, drop (length digits) str))"

definition scanSlash :: "string \<Rightarrow> string option" where
  "scanSlash str = (case str of [] \<Rightarrow> None | c # rest \<Rightarrow> if c = CHR ''/'' then Some rest else None)"

definition scanPair :: "string \<Rightarrow> (u64 \<times> u64) option" where
  "scanPair str =
     Option.bind (scanUint 6 str) (\<lambda>(txIndex, str).
     Option.bind (scanSlash str) (\<lambda>str.
     Option.bind (scanUint 6 str) (\<lambda>(logIndex, str). Some (txIndex, logIndex))))"

definition scanTriple :: "string \<Rightarrow> (u64 \<times> u64 \<times> u64) option" where
  "scanTriple str =
     Option.bind (scanUint 20 str) (\<lambda>(blockNum, str).
     Option.bind (scanSlash str) (\<lambda>str.
     Option.bind (scanPair str) (\<lambda>(txIndex, logIndex). Some (blockNum, txIndex, logIndex))))"

section \<open>Storing logs\<close>

definition EncodeLog :: "geth \<Rightarrow> log option \<Rightarrow> ('s, bytes) op" where
  "EncodeLog G x = (case x of
     None \<Rightarrow> throw (Errorf ''log cannot be nil'')
   | Some l \<Rightarrow> fromOption (Errorf ''failed to encode log'') (rlpEncodeLog G l))"

definition DecodeLog :: "geth \<Rightarrow> bytes \<Rightarrow> serror + log" where
  "DecodeLog G data =
     (if data = [] then Inl (Errorf ''data cannot be empty'')
      else case rlpDecodeLog G data of
          None \<Rightarrow> Inl (Errorf ''failed to decode log'')
        | Some l \<Rightarrow> Inr l)"

definition indexMark :: bytes where
  "indexMark = [byteChar 1]"

definition indexLogToBatch :: "'db pebble \<Rightarrow> geth \<Rightarrow> log option \<Rightarrow> ('db, unit) bop" where
  "indexLogToBatch P G log =
     (case log of
        None \<Rightarrow> throw (Errorf ''log cannot be nil'')
      | Some l \<Rightarrow>
          let b = lBlockNumber l; t = lTxIndex l; i = lIndex l; topics = lTopics l in
          andThen (wrapping ''failed to encode log'' (EncodeLog G (Some l))) (\<lambda>encoded.
          andThen (wrapping ''failed to store log data'' (bAdd P (BSet (LogKey b t i) encoded))) (\<lambda>_.
          andThen (wrapping ''failed to store address index''
            (bAdd P (BSet (LogAddressIndexKey G (lAddress l) b t i) indexMark))) (\<lambda>_.
          andThen (if length topics > 0 then wrapping ''failed to store topic0 index''
              (bAdd P (BSet (LogTopic0IndexKey G (topics ! 0) b t i) indexMark)) else ret ()) (\<lambda>_.
          andThen (if length topics > 1 then wrapping ''failed to store topic1 index''
              (bAdd P (BSet (LogTopic1IndexKey G (topics ! 1) b t i) indexMark)) else ret ()) (\<lambda>_.
          andThen (if length topics > 2 then wrapping ''failed to store topic2 index''
              (bAdd P (BSet (LogTopic2IndexKey G (topics ! 2) b t i) indexMark)) else ret ()) (\<lambda>_.
          andThen (if length topics > 3 then wrapping ''failed to store topic3 index''
              (bAdd P (BSet (LogTopic3IndexKey G (topics ! 3) b t i) indexMark)) else ret ()) (\<lambda>_.
          andThen (wrapping ''failed to store block index'' (bAdd P (BSet (LogBlockIndexKey b t i) indexMark))) (\<lambda>_.
          bumpCount (5 + int (length topics)) 0)))))))))"

definition IndexLogs :: "'db pebble \<Rightarrow> geth \<Rightarrow> log option list \<Rightarrow> ('db storage, unit) op" where
  "IndexLogs P G logs = writable (runBatch
     (andThen (forEach (\<lambda>l. wrapping ''failed to index log'' (indexLogToBatch P G l)) logs)
       (\<lambda>_. batch_Commit P)))"

definition IndexLog :: "'db pebble \<Rightarrow> geth \<Rightarrow> log option \<Rightarrow> ('db storage, unit) op" where
  "IndexLog P G l = writable (runBatch (andThen (indexLogToBatch P G l) (\<lambda>_. batch_Commit P)))"

section \<open>Queries\<close>

text \<open>
  The loop over the entries of an index: \<open>pos\<close> reads the position out of the rest of the key.
  A key that does not parse, a log that is not there and one that does not decode are skipped.
\<close>

fun logLoop :: "'db pebble \<Rightarrow> geth \<Rightarrow> (string \<Rightarrow> (u64 \<times> u64 \<times> u64) option) \<Rightarrow> bytes \<Rightarrow>
    (bytes \<times> bytes) list \<Rightarrow> log list \<Rightarrow> ('db storage, log list) op" where
  "logLoop P G pos pfx [] logs = ret logs"
| "logLoop P G pos pfx ((k, v) # es) logs =
     (case pos (drop (length pfx) k) of
        None \<Rightarrow> logLoop P G pos pfx es logs
      | Some (b, t, i) \<Rightarrow> (\<lambda>s.
          case dbGet P (LogKey b t i) s of
            (Inl e, s') \<Rightarrow> logLoop P G pos pfx es logs s'
          | (Inr logData, s') \<Rightarrow>
              (case DecodeLog G logData of
                 Inl e \<Rightarrow> logLoop P G pos pfx es logs s'
               | Inr log \<Rightarrow> logLoop P G pos pfx es (logs @ [log]) s')))"

definition logRange :: "'db pebble \<Rightarrow> geth \<Rightarrow> bytes \<Rightarrow> bytes \<Rightarrow> bytes \<Rightarrow> ('db storage, log list) op" where
  "logRange P G pfx startKey endKey =
     andThen (wrapping ''failed to create iterator'' (dbIter P (Some startKey) (Some endKey)))
       (\<lambda>(es, itErr). andThen (logLoop P G scanTriple pfx es []) (\<lambda>logs. loopThen (Inr logs) itErr))"

definition getLogsByAddressRange :: "'db pebble \<Rightarrow> geth \<Rightarrow> address \<Rightarrow> u64 \<Rightarrow> u64 \<Rightarrow> ('db storage, log list) op" where
  "getLogsByAddressRange P G address fromBlock toBlock =
     logRange P G (LogAddressIndexKeyPrefix G address)
       (LogAddressIndexKey G address fromBlock 0 0) (LogAddressIndexKey G address (toBlock + 1) 0 0)"

definition getLogsByTopicRange :: "'db pebble \<Rightarrow> geth \<Rightarrow> hash \<Rightarrow> int \<Rightarrow> u64 \<Rightarrow> u64 \<Rightarrow>
    ('db storage, log list) op" where
  "getLogsByTopicRange P G topic topicIndex fromBlock toBlock =
     (if topicIndex = 0 then logRange P G (LogTopic0IndexKeyPrefix G topic)
        (LogTopic0IndexKey G topic fromBlock 0 0) (LogTopic0IndexKey G topic (toBlock + 1) 0 0)
      else if topicIndex = 1 then logRange P G (LogTopic1IndexKeyPrefix G topic)
        (LogTopic1IndexKey G topic fromBlock 0 0) (LogTopic1IndexKey G topic (toBlock + 1) 0 0)
      else if topicIndex = 2 then logRange P G (LogTopic2IndexKeyPrefix G topic)
        (LogTopic2IndexKey G topic fromBlock 0 0) (LogTopic2IndexKey G topic (toBlock + 1) 0 0)
      else if topicIndex = 3 then logRange P G (LogTopic3IndexKeyPrefix G topic)
        (LogTopic3IndexKey G topic fromBlock 0 0) (LogTopic3IndexKey G topic (toBlock + 1) 0 0)
      else throw (Errorf ''invalid topic index''))"

definition GetLogsByBlock :: "'db pebble \<Rightarrow> geth \<Rightarrow> u64 \<Rightarrow> ('db storage, log list) op" where
  "GetLogsByBlock P G blockNumber =
     andThen ensureNotClosed (\<lambda>_.
     andThen (scanPrefix P (LogBlockIndexKeyPrefix blockNumber))
       (\<lambda>(es, itErr). andThen (logLoop P G (\<lambda>str. map_option (\<lambda>(t, i). (blockNumber, t, i)) (scanPair str))
            (LogBlockIndexKeyPrefix blockNumber) es [])
          (\<lambda>logs. loopThen (Inr logs) itErr)))"

definition GetLogsByAddress :: "'db pebble \<Rightarrow> geth \<Rightarrow> address \<Rightarrow> u64 \<Rightarrow> u64 \<Rightarrow> ('db storage, log list) op" where
  "GetLogsByAddress P G address fromBlock toBlock =
     andThen ensureNotClosed (\<lambda>_. getLogsByAddressRange P G address fromBlock toBlock)"

definition GetLogsByTopic :: "'db pebble \<Rightarrow> geth \<Rightarrow> hash \<Rightarrow> int \<Rightarrow> u64 \<Rightarrow> u64 \<Rightarrow> ('db storage, log list) op" where
  "GetLogsByTopic P G topic topicIndex fromBlock toBlock =
     andThen ensureNotClosed (\<lambda>_.
     if topicIndex < 0 \<or> topicIndex > 3 then throw (Errorf ''invalid topic index'')
     else getLogsByTopicRange P G topic topicIndex fromBlock toBlock)"

record LogFilter =
  lfFromBlock :: u64
  lfToBlock :: u64
  lfAddresses :: "address list"
  lfTopics :: "hash list list"

definition matchesTopicFilter :: "log \<Rightarrow> hash list list \<Rightarrow> bool" where
  "matchesTopicFilter log topicFilter \<longleftrightarrow>
     list_all (\<lambda>(i, topicOptions). topicOptions = [] \<or>
       i < length (lTopics log) \<and> list_ex (\<lambda>option. lTopics log ! i = option) topicOptions)
       (enumerate 0 topicFilter)"

definition filterLogsByTopics :: "log list \<Rightarrow> hash list list \<Rightarrow> log list" where
  "filterLogsByTopics logs topics =
     (if topics = [] then logs else filter (\<lambda>log. matchesTopicFilter log topics) logs)"

definition filterLogsByAddresses :: "log list \<Rightarrow> address list \<Rightarrow> log list" where
  "filterLogsByAddresses logs addresses =
     (if addresses = [] then logs else filter (\<lambda>log. lAddress log \<in> set addresses) logs)"

text \<open>Appending the results of one query per element, stopping at the first error.\<close>

fun collect :: "('a \<Rightarrow> ('s, 'b list) op) \<Rightarrow> 'a list \<Rightarrow> 'b list \<Rightarrow> ('s, 'b list) op" where
  "collect f [] acc = ret acc"
| "collect f (x # xs) acc = andThen (f x) (\<lambda>r. collect f xs (acc @ r))"

partial_function (option) blockScan :: "'db pebble \<Rightarrow> geth \<Rightarrow> u64 \<Rightarrow> u64 \<Rightarrow> log list \<Rightarrow> 'db storage \<Rightarrow>
    ((serror + log list) \<times> 'db storage) option" where
  "blockScan P G blockNum toBlock logs s =
     (if blockNum \<le> toBlock
      then case GetLogsByBlock P G blockNum s of
          (Inl e, s') \<Rightarrow>
            if e = ErrNotFound then blockScan P G (blockNum + 1) toBlock logs s'
            else Some (Inl e, s')
        | (Inr blockLogs, s') \<Rightarrow> blockScan P G (blockNum + 1) toBlock (logs @ blockLogs) s'
      else Some (Inr logs, s))"

definition GetLogs_toBlock :: "'db pebble \<Rightarrow> LogFilter option \<Rightarrow> ('db storage, u64) op" where
  "GetLogs_toBlock P flt =
     andThen ensureNotClosed (\<lambda>_.
     case flt of
       None \<Rightarrow> throw (Errorf ''filter cannot be nil'')
     | Some f \<Rightarrow>
         if lfToBlock f > 0 \<and> lfFromBlock f > lfToBlock f
         then throw (Errorf ''fromBlock cannot be greater than toBlock'')
         else andThen (if lfToBlock f = 0
             then catch (GetLatestHeight P)
               (\<lambda>e. if e = ErrNotFound then ret 0 else throw (Wrap ''failed to get latest height'' e))
             else ret (lfToBlock f)) (\<lambda>toBlock.
           if toBlock - lfFromBlock f > 10000 then throw (Errorf ''block range too large'')
           else ret toBlock))"

definition GetLogs :: "'db pebble \<Rightarrow> geth \<Rightarrow> LogFilter option \<Rightarrow> 'db storage \<Rightarrow>
    ((serror + log list) \<times> 'db storage) option" where
  "GetLogs P G flt s =
     (case (GetLogs_toBlock P flt s, flt) of
        ((Inr toBlock, s'), Some f) \<Rightarrow>
          map_option (\<lambda>(r, s''). (map_sum id (\<lambda>logs.
              let logs = filterLogsByTopics logs (lfTopics f) in
              if lfAddresses f = [] \<and> (lfTopics f \<noteq> [] \<or> logs \<noteq> [])
              then filterLogsByAddresses logs (lfAddresses f) else logs) r, s''))
            (if lfAddresses f \<noteq> []
             then Some (collect (\<lambda>addr. getLogsByAddressRange P G addr (lfFromBlock f) toBlock) (lfAddresses f) [] s')
             else if lfTopics f \<noteq> [] \<and> lfTopics f ! 0 \<noteq> []
             then Some (collect (\<lambda>topic. getLogsByTopicRange P G topic 0 (lfFromBlock f) toBlock) (lfTopics f ! 0) [] s')
             else blockScan P G (lfFromBlock f) toBlock [] s')
      | ((Inl e, s'), _) \<Rightarrow> Some (Inl e, s')
      | ((Inr _, s'), None) \<Rightarrow> Some (Inl (Panic ''nil pointer dereference''), s'))"

section \<open>Positions and index keys\<close>

definition logSuffix :: "u64 \<Rightarrow> u64 \<Rightarrow> u64 \<Rightarrow> bytes" where
  "logSuffix b t i = padDec 20 (unat b) @ ''/'' @ padDec 6 (unat t) @ ''/'' @ padDec 6 (unat i)"

text \<open>The index an entry belongs to, and its key prefix.\<close>

datatype logIdx = ByAddress address | ByTopic nat hash | ByBlock

fun idxPrefix :: "geth \<Rightarrow> logIdx \<Rightarrow> bytes" where
  "idxPrefix G (ByAddress a) = LogAddressIndexKeyPrefix G a"
| "idxPrefix G (ByTopic j h) =
     (if j = 0 then LogTopic0IndexKeyPrefix G h else if j = 1 then LogTopic1IndexKeyPrefix G h
      else if j = 2 then LogTopic2IndexKeyPrefix G h else LogTopic3IndexKeyPrefix G h)"
| "idxPrefix G ByBlock = prefixIdxLogsBlock"

definition idxOf :: "log \<Rightarrow> logIdx list" where
  "idxOf l = ByAddress (lAddress l) # map (\<lambda>j. ByTopic j (lTopics l ! j)) [0..<min 4 (length (lTopics l))] @ [ByBlock]"

definition validIdx :: "logIdx \<Rightarrow> bool" where
  "validIdx x = (case x of ByTopic j h \<Rightarrow> j < 4 | _ \<Rightarrow> True)"

abbreviation logKeyOf :: "log \<Rightarrow> bytes" where
  "logKeyOf l \<equiv> LogKey (lBlockNumber l) (lTxIndex l) (lIndex l)"

abbreviation suffixOf :: "log \<Rightarrow> bytes" where
  "suffixOf l \<equiv> logSuffix (lBlockNumber l) (lTxIndex l) (lIndex l)"

definition smallLog :: "log \<Rightarrow> bool" where
  "smallLog l \<longleftrightarrow> unat (lTxIndex l) < 10 ^ 6 \<and> unat (lIndex l) < 10 ^ 6"

definition logBefore :: "log \<Rightarrow> log \<Rightarrow> bool" where
  "logBefore l m \<longleftrightarrow> lBlockNumber l < lBlockNumber m \<or> lBlockNumber l = lBlockNumber m \<and>
     (lTxIndex l < lTxIndex m \<or> lTxIndex l = lTxIndex m \<and> lIndex l < lIndex m)"

lemma index_keys:
  "LogAddressIndexKey G a b t i = idxPrefix G (ByAddress a) @ logSuffix b t i"
  "LogTopic0IndexKey G h b t i = idxPrefix G (ByTopic 0 h) @ logSuffix b t i"
  "LogTopic1IndexKey G h b t i = idxPrefix G (ByTopic 1 h) @ logSuffix b t i"
  "LogTopic2IndexKey G h b t i = idxPrefix G (ByTopic 2 h) @ logSuffix b t i"
  "LogTopic3IndexKey G h b t i = idxPrefix G (ByTopic 3 h) @ logSuffix b t i"
  "LogBlockIndexKey b t i = idxPrefix G ByBlock @ logSuffix b t i"
  "LogKey b t i = prefixLogs @ logSuffix b t i"
  by (simp_all add: LogAddressIndexKey_def LogAddressIndexKeyPrefix_def LogTopic0IndexKey_def LogTopic1IndexKey_def
      LogTopic2IndexKey_def LogTopic3IndexKey_def LogTopic0IndexKeyPrefix_def LogTopic1IndexKeyPrefix_def
      LogTopic2IndexKeyPrefix_def LogTopic3IndexKeyPrefix_def LogBlockIndexKey_def LogKey_def logSuffix_def)

lemma length_logSuffix: "unat t < 10 ^ 6 \<Longrightarrow> unat i < 10 ^ 6 \<Longrightarrow> length (logSuffix b t i) = 34"
  by (simp add: logSuffix_def padDec6)

lemma logSuffix_less_iff:
  assumes "unat t < 10 ^ 6" "unat i < 10 ^ 6" "unat t' < 10 ^ 6" "unat i' < 10 ^ 6"
  shows "logSuffix b t i < logSuffix b' t' i' \<longleftrightarrow> b < b' \<or> b = b' \<and> (t < t' \<or> t = t' \<and> i < i')"
  using assms by (simp add: logSuffix_def padDec6 less_list_append_eqlen)

lemma logSuffix_less:
  "smallLog l \<Longrightarrow> smallLog m \<Longrightarrow> suffixOf l < suffixOf m \<longleftrightarrow> logBefore l m"
  by (simp add: smallLog_def logBefore_def logSuffix_less_iff)

lemma logSuffix_inject:
  "smallLog l \<Longrightarrow> smallLog m \<Longrightarrow> suffixOf l = suffixOf m \<longleftrightarrow>
     lBlockNumber l = lBlockNumber m \<and> lTxIndex l = lTxIndex m \<and> lIndex l = lIndex m"
  by (auto simp: smallLog_def logSuffix_def padDec6 eqlen_append_inject)

lemma zeroSuffix_le: "smallLog l \<Longrightarrow> logSuffix b 0 0 \<le> suffixOf l \<longleftrightarrow> b \<le> lBlockNumber l"
proof -
  assume s: "smallLog l"
  have "suffixOf l < logSuffix b 0 0 \<longleftrightarrow> lBlockNumber l < b"
    using s logSuffix_less_iff [of "lTxIndex l" "lIndex l" 0 0 "lBlockNumber l" b] by (simp add: smallLog_def)
  then show ?thesis by (simp add: not_less [symmetric])
qed

text \<open>No prefix of one index is the beginning of a key of another.\<close>

context geth_codec
begin

lemma idxPrefix_inject:
  assumes "validIdx x" "validIdx y" "idxPrefix G x @ a = idxPrefix G y @ b"
  shows "x = y \<and> a = b"
proof -
  have four: "j = 0 \<or> j = 1 \<or> j = 2 \<or> j = 3" if "j < 4" for j :: nat using that by linarith
  show ?thesis using assms
    by (cases x; cases y)
      (auto simp: validIdx_def key_defs dest!: four)
qed

end

lemma idxPrefix_logs: "HasPrefix (idxPrefix G x @ y) ''/index/logs/''"
  by (cases x) (auto simp: HasPrefix_def key_defs)

lemma idxOf_valid: "x \<in> set (idxOf l) \<Longrightarrow> validIdx x"
  by (auto simp: idxOf_def validIdx_def)

section \<open>Parsing positions\<close>

lemma readDec_digits: "readDec acc str = Some n \<Longrightarrow> c \<in> set str \<Longrightarrow> isDecDigit c"
  by (induction acc str rule: readDec.induct) (auto simp: isDecDigit_def split: if_splits)

lemma readDec_padDec: "readDec 0 (padDec w n) = Some n"
proof -
  have "readDec 0 (replicate k (digitChar 0) @ str) = readDec 0 str" for k str
    by (induction k) (simp_all add: byteVal_digitChar)
  then show ?thesis by (simp add: padBase_def readDec_showDec)
qed

lemma scanUint_padDec:
  assumes "length (padDec w (unat n)) = w" "0 < w"
  shows "scanUint w (padDec w (unat n) @ rest) = Some (n, rest)"
proof -
  have d: "isDecDigit c" if "c \<in> set (padDec w (unat n))" for c
    using readDec_digits [OF readDec_padDec that] .
  obtain c cs where c: "padDec w (unat n) = c # cs" using assms by (cases "padDec w (unat n)") auto
  then have "\<not> isBlank c" using d [of c] by (auto simp: isBlank_def isDecDigit_def)
  then have "dropWhile isBlank (padDec w (unat n) @ rest) = padDec w (unat n) @ rest" by (simp add: c)
  moreover have "takeWhile isDecDigit (padDec w (unat n)) = padDec w (unat n)"
    using d by (subst takeWhile_eq_all_conv) simp
  moreover have "ParseUint (padDec w (unat n)) = Some n"
    using unat_u64_less [of n] assms by (auto simp: ParseUint_def readDec_padDec)
  ultimately show ?thesis using assms(1) by (simp add: scanUint_def Let_def del: takeWhile_eq_all_conv)
qed

lemma scanPair_suffix:
  "unat t < 10 ^ 6 \<Longrightarrow> unat i < 10 ^ 6 \<Longrightarrow>
   scanPair (padDec 6 (unat t) @ ''/'' @ padDec 6 (unat i)) = Some (t, i)"
  using scanUint_padDec [of 6 i "[]"]
  by (simp add: scanPair_def scanUint_padDec padDec6 scanSlash_def)

lemma scanTriple_suffix:
  "unat t < 10 ^ 6 \<Longrightarrow> unat i < 10 ^ 6 \<Longrightarrow> scanTriple (logSuffix b t i) = Some (b, t, i)"
  using scanPair_suffix [of t i] by (simp add: scanTriple_def logSuffix_def scanUint_padDec scanSlash_def)

text \<open>
  An index of seven digits is cut after six: the key of transaction 1234567 does not parse, so
  its logs are in the index and never found.
\<close>

lemma scanPair_seven_digits: "scanPair (padDec 6 1234567 @ ''/'' @ padDec 6 0) = None"
proof -
  have "padDec 6 1234567 = ''1234567''" 
    by (simp add: padBase_def showBase.simps digitChar_def) code_simp
  moreover have "scanUint 6 (''1234567'' @ str) = map_option (\<lambda>n. (n, CHR ''7'' # str)) (ParseUint ''123456'')" for str
    by (cases "ParseUint ''123456''") (simp_all add: scanUint_def isBlank_def isDecDigit_def byteVal_def Let_def)
  ultimately show ?thesis
    by (cases "ParseUint ''123456''") (simp_all add: scanPair_def scanSlash_def del: append.simps)
qed

section \<open>The invariant of the index\<close>

text \<open>
  \<open>log_inv view G s ls\<close>: \<open>ls\<close> are the logs stored, in the order of their positions; each is
  stored under its position, and the keys under \<^verbatim>\<open>/index/logs/\<close> are exactly their index entries.
\<close>

definition log_inv :: "('db \<Rightarrow> bytes \<Rightarrow> bytes option) \<Rightarrow> geth \<Rightarrow> 'db storage \<Rightarrow> log list \<Rightarrow> bool" where
  "log_inv view G s ls \<longleftrightarrow> sorted_wrt logBefore ls \<and> (\<forall>l\<in>set ls. smallLog l) \<and>
     (\<forall>l\<in>set ls. \<exists>e. rlpEncodeLog G l = Some e \<and> view (db s) (logKeyOf l) = Some e) \<and>
     (\<forall>k v. HasPrefix k ''/index/logs/'' \<and> view (db s) k = Some v \<longleftrightarrow>
        (\<exists>l\<in>set ls. \<exists>x\<in>set (idxOf l). k = idxPrefix G x @ suffixOf l \<and> v = indexMark))"

lemma logLoop_eq:
  assumes "pebble_db P view" "geth_codec G"
    and "\<forall>l\<in>set xs. pos (drop (length pfx) (kf l)) = Some (lBlockNumber l, lTxIndex l, lIndex l) \<and>
      (\<exists>e. rlpEncodeLog G l = Some e \<and> view (db s) (logKeyOf l) = Some e)"
  shows "logLoop P G pos pfx (map (\<lambda>l. (kf l, v)) xs) acc s = (Inr (acc @ xs), s)"
  using assms(3)
proof (induction xs arbitrary: acc)
  case (Cons l xs)
  then obtain e where e: "rlpEncodeLog G l = Some e" "view (db s) (logKeyOf l) = Some e" by auto
  have "dbGet P (logKeyOf l) s = (Inr e, s)"
    using e(2) pebble_db.get [OF assms(1)] by (simp add: dbGet_def)
  moreover have "DecodeLog G e = Inr l"
    using geth_codec.rlp_log [OF assms(2) e(1)] by (simp add: DecodeLog_def)
  ultimately show ?case using Cons by simp
qed simp

text \<open>The scans: the entries of one index between two blocks, and those of one block.\<close>

lemma log_inv_entry:
  assumes "geth_codec G" "log_inv view G s ls" "validIdx x"
  shows "HasPrefix k (idxPrefix G x) \<and> view (db s) k = Some v \<longleftrightarrow>
    (\<exists>l\<in>set ls. x \<in> set (idxOf l) \<and> k = idxPrefix G x @ suffixOf l \<and> v = indexMark)"
proof -
  have idx: "HasPrefix k ''/index/logs/'' \<and> view (db s) k = Some v \<longleftrightarrow>
      (\<exists>l\<in>set ls. \<exists>y\<in>set (idxOf l). k = idxPrefix G y @ suffixOf l \<and> v = indexMark)"
    using assms(2) unfolding log_inv_def by blast
  have hp: "HasPrefix k (idxPrefix G x) \<longleftrightarrow> (\<exists>r. k = idxPrefix G x @ r)"
    by (auto simp: HasPrefix_def prefix_def)
  show ?thesis
  proof
    assume L: "HasPrefix k (idxPrefix G x) \<and> view (db s) k = Some v"
    then obtain r where r: "k = idxPrefix G x @ r" using hp by blast
    then obtain l y where ly: "l \<in> set ls" "y \<in> set (idxOf l)" "k = idxPrefix G y @ suffixOf l" "v = indexMark"
      using idx L idxPrefix_logs [of G x r] by blast
    then have "x = y" 
      using geth_codec.idxPrefix_inject [OF assms(1,3) idxOf_valid [OF ly(2)], of r "suffixOf l"] r by simp
    with ly show "\<exists>l\<in>set ls. x \<in> set (idxOf l) \<and> k = idxPrefix G x @ suffixOf l \<and> v = indexMark" by blast
  next
    assume "\<exists>l\<in>set ls. x \<in> set (idxOf l) \<and> k = idxPrefix G x @ suffixOf l \<and> v = indexMark"
    then show "HasPrefix k (idxPrefix G x) \<and> view (db s) k = Some v" using idx hp by blast
  qed
qed

abbreviation hits :: "logIdx \<Rightarrow> u64 \<Rightarrow> u64 \<Rightarrow> log \<Rightarrow> bool" where
  "hits x from to l \<equiv> x \<in> set (idxOf l) \<and> from \<le> lBlockNumber l \<and> lBlockNumber l \<le> to"

lemma sorted_log_keys:
  assumes "sorted_wrt logBefore ls" "\<forall>l\<in>set ls. smallLog l"
  shows "sorted_wrt (<) (map (\<lambda>l. p @ suffixOf l) ls)"
proof -
  have "sorted_wrt (\<lambda>l m. p @ suffixOf l < p @ suffixOf m) ls"
    using assms(1) by (rule sorted_wrt_mono_rel [rotated]) (use assms(2) in \<open>auto simp: logSuffix_less\<close>)
  then show ?thesis by (simp add: sorted_wrt_map)
qed

lemma index_scan:
  assumes "pebble_db P view" "geth_codec G" "log_inv view G s ls" "validIdx x" "to < - 1"
  shows "dbIter P (Some (idxPrefix G x @ logSuffix from 0 0)) (Some (idxPrefix G x @ logSuffix (to + 1) 0 0)) s =
    (Inr (map (\<lambda>l. (idxPrefix G x @ suffixOf l, indexMark)) (filter (hits x from to) ls), None), s)"
proof -
  let ?p = "idxPrefix G x"
  let ?lo = "?p @ logSuffix from 0 0" and ?hi = "?p @ logSuffix (to + 1) 0 0"
  let ?es = "map (\<lambda>l. (?p @ suffixOf l, indexMark)) (filter (hits x from to) ls)"
  obtain es where it: "dbIter P (Some ?lo) (Some ?hi) s = (Inr (es, None), s)" "sorted_wrt (<) (map fst es)"
    "\<forall>k v. (k, v) \<in> set es \<longleftrightarrow> inRange (Some ?lo) (Some ?hi) k \<and> view (db s) k = Some v"
    using pebble_db.dbIter_eq [OF assms(1)] by blast
  have inv: "sorted_wrt logBefore ls" "\<forall>l\<in>set ls. smallLog l" using assms(3) by (simp_all add: log_inv_def)
  have pfx: "HasPrefix k ?p" if "inRange (Some ?lo) (Some ?hi) k" for k
    using that common_prefix_range by (fastforce simp: inRange_def)
  have rng: "inRange (Some ?lo) (Some ?hi) (?p @ suffixOf l) \<longleftrightarrow> from \<le> lBlockNumber l \<and> lBlockNumber l \<le> to"
    if "l \<in> set ls" for l
    using inv(2) that zeroSuffix_le [of l "from"] zeroSuffix_le [of l "to + 1"] less_succ_u64 [OF assms(5), of "lBlockNumber l"]
    by (auto simp: inRange_def not_le [symmetric])
  have "(k, v) \<in> set es \<longleftrightarrow> (k, v) \<in> set ?es" for k v
    using it(3) pfx [of k] log_inv_entry [OF assms(2-4), of k v] rng by auto
  then have "set es = set ?es" by auto
  moreover have "sorted_wrt (<) (map fst ?es)"
    using sorted_log_keys [of "filter (hits x from to) ls" ?p] inv by (simp add: comp_def sorted_wrt_filter)
  ultimately have "es = ?es" by (intro sorted_kv_unique [OF it(2)])
  with it(1) show ?thesis by simp
qed

lemma logRange_eq:
  assumes "pebble_db P view" "geth_codec G" "log_inv view G s ls" "validIdx x" "to < - 1"
  shows "logRange P G (idxPrefix G x) (idxPrefix G x @ logSuffix from 0 0) (idxPrefix G x @ logSuffix (to + 1) 0 0) s =
    (Inr (filter (hits x from to) ls), s)"
proof -
  have "\<forall>l\<in>set (filter (hits x from to) ls).
      scanTriple (drop (length (idxPrefix G x)) (idxPrefix G x @ suffixOf l)) = Some (lBlockNumber l, lTxIndex l, lIndex l) \<and>
      (\<exists>e. rlpEncodeLog G l = Some e \<and> view (db s) (logKeyOf l) = Some e)"
    using assms(3) by (auto simp: log_inv_def smallLog_def scanTriple_suffix)
  from logLoop_eq [OF assms(1,2) this, of indexMark "[]"] show ?thesis
    by (simp add: logRange_def andThen_def index_scan [OF assms] wrapping_def loopThen_def)
qed

lemma by_address: "hits (ByAddress a) from to l \<longleftrightarrow> lAddress l = a \<and> from \<le> lBlockNumber l \<and> lBlockNumber l \<le> to"
  by (auto simp: idxOf_def)

lemma by_topic: "j < 4 \<Longrightarrow> hits (ByTopic j h) from to l \<longleftrightarrow>
    j < length (lTopics l) \<and> lTopics l ! j = h \<and> from \<le> lBlockNumber l \<and> lBlockNumber l \<le> to"
  by (auto simp: idxOf_def)

lemma getLogsByAddressRange_eq:
  assumes "pebble_db P view" "geth_codec G" "log_inv view G s ls" "to < - 1"
  shows "getLogsByAddressRange P G a from to s =
    (Inr (filter (\<lambda>l. lAddress l = a \<and> from \<le> lBlockNumber l \<and> lBlockNumber l \<le> to) ls), s)"
  using logRange_eq [OF assms(1-3) _ assms(4), of "ByAddress a" "from"]
  by (simp add: getLogsByAddressRange_def index_keys validIdx_def by_address)

lemma getLogsByTopicRange_eq:
  assumes "pebble_db P view" "geth_codec G" "log_inv view G s ls" "to < - 1" "j < 4"
  shows "getLogsByTopicRange P G h (int j) from to s =
    (Inr (filter (\<lambda>l. j < length (lTopics l) \<and> lTopics l ! j = h \<and> from \<le> lBlockNumber l \<and> lBlockNumber l \<le> to) ls), s)"
proof -
  have "j = 0 \<or> j = 1 \<or> j = 2 \<or> j = 3" using assms(5) by linarith
  moreover have "logRange P G (idxPrefix G (ByTopic j h)) (idxPrefix G (ByTopic j h) @ logSuffix from 0 0)
      (idxPrefix G (ByTopic j h) @ logSuffix (to + 1) 0 0) s = (Inr (filter (hits (ByTopic j h) from to) ls), s)"
    using assms(5) by (intro logRange_eq [OF assms(1-3) _ assms(4)]) (simp add: validIdx_def)
  ultimately show ?thesis
    by (auto simp: getLogsByTopicRange_def index_keys by_topic simp del: idxPrefix.simps) (simp_all)
qed

lemma padDec6_below_ff: "padDec 6 n @ r < [byteChar 255]"
proof -
  have "padDec 6 n \<noteq> []" by (simp add: padBase_def)
  then obtain c cs where c: "padDec 6 n = c # cs" by (cases "padDec 6 n") auto
  then have "isDecDigit c" using readDec_digits [OF readDec_padDec, of c 6 n] by simp
  then show ?thesis using c by (simp add: isDecDigit_def char_less_iff)
qed

lemma GetLogsByBlock_eq:
  assumes "pebble_db P view" "geth_codec G" "log_inv view G s ls" "\<not> closed s"
  shows "GetLogsByBlock P G b s = (Inr (filter (\<lambda>l. lBlockNumber l = b) ls), s)"
proof -
  let ?p = "LogBlockIndexKeyPrefix b" and ?xs = "filter (\<lambda>l. lBlockNumber l = b) ls"
  let ?kf = "\<lambda>l. idxPrefix G ByBlock @ suffixOf l"
  have inv: "sorted_wrt logBefore ls" "\<forall>l\<in>set ls. smallLog l" using assms(3) by (simp_all add: log_inv_def)
  have pfx: "?p = idxPrefix G ByBlock @ padDec 20 (unat b) @ ''/''" by (simp add: LogBlockIndexKeyPrefix_def)
  have hp: "HasPrefix (?kf l) ?p \<longleftrightarrow> lBlockNumber l = b" for l
    by (auto simp: pfx HasPrefix_def prefix_def logSuffix_def eqlen_append_inject simp del: idxPrefix.simps)
  have ent: "HasPrefix k (idxPrefix G ByBlock) \<and> view (db s) k = Some v \<longleftrightarrow>
      (\<exists>l\<in>set ls. ByBlock \<in> set (idxOf l) \<and> k = ?kf l \<and> v = indexMark)" for k v
    by (rule log_inv_entry [OF assms(2,3)]) (simp add: validIdx_def)
  have "scanPrefix P ?p s = (Inr (map (\<lambda>l. (?kf l, indexMark)) ?xs, None), s)"
  proof (rule scanPrefix_eq [OF assms(1)])
    show "sorted_wrt (<) (map fst (map (\<lambda>l. (?kf l, indexMark)) ?xs))"
      using sorted_log_keys [of ?xs "idxPrefix G ByBlock"] inv by (simp add: comp_def sorted_wrt_filter)
    have sub: "HasPrefix k (idxPrefix G ByBlock)" if "HasPrefix k ?p" for k
      using that by (auto simp: pfx HasPrefix_def prefix_def simp del: idxPrefix.simps)
    show "(k, v) \<in> set (map (\<lambda>l. (?kf l, indexMark)) ?xs) \<longleftrightarrow> HasPrefix k ?p \<and> view (db s) k = Some v" for k v
    proof -
      have "(k, v) \<in> set (map (\<lambda>l. (?kf l, indexMark)) ?xs) \<longleftrightarrow> (\<exists>l\<in>set ls. lBlockNumber l = b \<and> k = ?kf l \<and> v = indexMark)"
        by (auto simp del: idxPrefix.simps)
      moreover have "(\<exists>l\<in>set ls. lBlockNumber l = b \<and> k = ?kf l \<and> v = indexMark) \<longleftrightarrow>
          HasPrefix k ?p \<and> (\<exists>l\<in>set ls. ByBlock \<in> set (idxOf l) \<and> k = ?kf l \<and> v = indexMark)"
        using hp by (auto simp: idxOf_def simp del: idxPrefix.simps)
      ultimately show ?thesis using ent [of k v] sub [of k] by blast
    qed
    show "k < ?p @ [byteChar 255]" if m: "(k, v) \<in> set (map (\<lambda>l. (?kf l, indexMark)) ?xs)" for k v
    proof -
      obtain l where "lBlockNumber l = b" "k = ?kf l" using m by (auto simp del: idxPrefix.simps)
      then have "k = ?p @ padDec 6 (unat (lTxIndex l)) @ ''/'' @ padDec 6 (unat (lIndex l))"
        by (simp only: pfx logSuffix_def append_assoc)
      then show ?thesis using padDec6_below_ff by (simp only: less_list_append_same)
    qed
  qed
  moreover have "\<forall>l\<in>set ?xs. map_option (\<lambda>(t, i). (b, t, i)) (scanPair (drop (length ?p) (?kf l))) =
      Some (lBlockNumber l, lTxIndex l, lIndex l) \<and>
      (\<exists>e. rlpEncodeLog G l = Some e \<and> view (db s) (logKeyOf l) = Some e)"
    using assms(3) scanPair_suffix by (auto simp: log_inv_def smallLog_def pfx logSuffix_def simp del: idxPrefix.simps)
  note logLoop_eq [OF assms(1,2) this, of indexMark "[]"]
  ultimately show ?thesis using assms(4)
    by (simp add: GetLogsByBlock_def guard_simps andThen_def loopThen_def)
qed

section \<open>Writing\<close>

definition logOps :: "geth \<Rightarrow> log \<Rightarrow> batch_op list" where
  "logOps G l = BSet (logKeyOf l) (the (rlpEncodeLog G l)) #
     map (\<lambda>x. BSet (idxPrefix G x @ suffixOf l) indexMark) (idxOf l)"

lemma keeps_indexLogToBatch [inv_intros]: "keeps same_storage (indexLogToBatch P G l)"
  unfolding indexLogToBatch_def EncodeLog_def Let_def by (cases l) (auto intro!: inv_intros)

context chain_store
begin

lemma optAdd_Inr:
  "(if c then wrapping m (bAdd P x) else ret ()) sb = (Inr u, sb') \<Longrightarrow> grows sb sb' (if c then [x] else []) 0"
  by (auto dest: bAdd_Inr split: if_splits)

lemma idxOf_topics:
  "idxOf l = ByAddress (lAddress l) #
     (if length (lTopics l) > 0 then [ByTopic 0 (lTopics l ! 0)] else []) @
     (if length (lTopics l) > 1 then [ByTopic 1 (lTopics l ! 1)] else []) @
     (if length (lTopics l) > 2 then [ByTopic 2 (lTopics l ! 2)] else []) @
     (if length (lTopics l) > 3 then [ByTopic 3 (lTopics l ! 3)] else []) @ [ByBlock]"
proof -
  let ?n = "length (lTopics l)"
  consider "?n = 0" | "?n = 1" | "?n = 2" | "?n = 3" | "?n \<ge> 4" by linarith
  then show ?thesis by cases (auto simp: idxOf_def upt_rec numeral_2_eq_2 numeral_3_eq_3)
qed

lemma indexLogToBatch_Inr:
  assumes "indexLogToBatch P G (Some l) sb = (Inr u, sb')"
  shows "grows sb sb' (logOps G l) 0 \<and> rlpEncodeLog G l \<noteq> None"
proof -
  let ?s = "suffixOf l" and ?t = "lTopics l"
  let ?k = "\<lambda>x. BSet (idxPrefix G x @ ?s) indexMark"
  obtain e s1 s2 s3 s4 s5 s6 s7 where e: "rlpEncodeLog G l = Some e"
    and w: "bAdd P (BSet (logKeyOf l) e) sb = (Inr (), s1)" "bAdd P (?k (ByAddress (lAddress l))) s1 = (Inr (), s2)"
      "(if length ?t > 0 then wrapping ''failed to store topic0 index'' (bAdd P (?k (ByTopic 0 (?t ! 0)))) else ret ()) s2 = (Inr (), s3)"
      "(if length ?t > 1 then wrapping ''failed to store topic1 index'' (bAdd P (?k (ByTopic 1 (?t ! 1)))) else ret ()) s3 = (Inr (), s4)"
      "(if length ?t > 2 then wrapping ''failed to store topic2 index'' (bAdd P (?k (ByTopic 2 (?t ! 2)))) else ret ()) s4 = (Inr (), s5)"
      "(if length ?t > 3 then wrapping ''failed to store topic3 index'' (bAdd P (?k (ByTopic 3 (?t ! 3)))) else ret ()) s5 = (Inr (), s6)"
      "bAdd P (?k ByBlock) s6 = (Inr (), s7)" "bumpCount (5 + int (length ?t)) 0 s7 = (Inr u, sb')"
    using assms unfolding indexLogToBatch_def EncodeLog_def Let_def index_keys(1-6) [where G = G]
    by (simp add: andThen_eq_Inr del: idxPrefix.simps One_nat_def split del: if_split) blast
  from bAdd_Inr [OF w(1)] bAdd_Inr [OF w(2)] optAdd_Inr [OF w(3)] optAdd_Inr [OF w(4)] optAdd_Inr [OF w(5)]
    optAdd_Inr [OF w(6)] bAdd_Inr [OF w(7)] bumpCount_Inr [OF w(8)] e
  show ?thesis unfolding logOps_def idxOf_topics
    by (simp add: grows_def if_distrib [of "map ?k"] del: idxPrefix.simps One_nat_def split del: if_split
        cong: if_cong)
qed

lemma index_logs_Inr:
  "forEach (\<lambda>l. wrapping m (indexLogToBatch P G l)) (map Some ls) sb = (Inr u, sb') \<Longrightarrow>
   grows sb sb' (concat (map (logOps G) ls)) 0 \<and> (\<forall>l\<in>set ls. rlpEncodeLog G l \<noteq> None)"
proof (induction ls arbitrary: sb)
  case (Cons l ls)
  then obtain w sb1 where "indexLogToBatch P G (Some l) sb = (Inr w, sb1)"
    "forEach (\<lambda>l. wrapping m (indexLogToBatch P G l)) (map Some ls) sb1 = (Inr u, sb')"
    by (auto simp: andThen_eq_Inr)
  from indexLogToBatch_Inr [OF this(1)] Cons.IH [OF this(2)] show ?case
    using grows_trans [of sb sb1 "logOps G l" 0 sb' "concat (map (logOps G) ls)" 0] by auto
qed simp

lemma IndexLogs_cases:
  assumes "IndexLogs P G (map Some new) s = (r, s')"
  shows "case r of Inl e \<Rightarrow> view (db s') = view (db s)
    | Inr _ \<Rightarrow> view (db s') = apply_ops (view (db s)) (concat (map (logOps G) new)) \<and>
        (\<forall>l\<in>set new. rlpEncodeLog G l \<noteq> None)"
proof (cases "ready s")
  case False
  then show ?thesis using assms by (auto simp: IndexLogs_def guard_simps ready_def split: if_splits)
next
  case True
  let ?m = "forEach (\<lambda>l. wrapping ''failed to index log'' (indexLogToBatch P G l)) (map Some new)"
  have run: "runBatch (andThen ?m (\<lambda>_. batch_Commit P)) s = (r, s')"
    using assms True by (simp add: IndexLogs_def guard_simps ready_def)
  have "keeps same_storage ?m" by (auto intro!: inv_intros)
  note a = runBatch_atomic [OF this run]
  show ?thesis
  proof (cases r)
    case (Inr u)
    with a obtain b w where b: "?m (s, NewBatch) = (Inr w, (s, b))"
      "view (db s') = apply_ops (view (db s)) (bOps b @ countOps s b)" by auto
    from index_logs_Inr [OF b(1)] b(2) Inr show ?thesis
      by (auto simp: grows_def NewBatch_def countOps_def)
  qed (use a in simp)
qed

end

lemma logOps_BSet:
  "BSet k v \<in> set (concat (map (logOps G) new)) \<longleftrightarrow>
     (\<exists>l\<in>set new. k = logKeyOf l \<and> v = the (rlpEncodeLog G l) \<or>
        (\<exists>x\<in>set (idxOf l). k = idxPrefix G x @ suffixOf l \<and> v = indexMark))"
  by (auto simp: logOps_def)

lemma logOps_no_delete: "BDelete k \<notin> set (concat (map (logOps G) new))"
  by (auto simp: logOps_def)

lemma logKey_not_index: "\<not> HasPrefix (LogKey b t i) ''/index/logs/''"
  by (simp add: LogKey_def HasPrefix_def prefixLogs_def)

lemma logBefore_irrefl: "\<not> logBefore l l"
  by (simp add: logBefore_def)

lemma sorted_logs_inj:
  assumes "sorted_wrt logBefore ls" "l \<in> set ls" "m \<in> set ls" "lBlockNumber l = lBlockNumber m"
    "lTxIndex l = lTxIndex m" "lIndex l = lIndex m"
  shows "l = m"
proof (rule ccontr)
  assume "l \<noteq> m"
  obtain i j where ij: "i < length ls" "j < length ls" "ls ! i = l" "ls ! j = m"
    using assms(2,3) by (auto simp: in_set_conv_nth)
  with \<open>l \<noteq> m\<close> have "i \<noteq> j" by blast
  then have "i < j \<or> j < i" by linarith
  then have "logBefore l m \<or> logBefore m l" using ij assms(1) by (auto simp: sorted_wrt_iff_nth_less)
  then show False using assms(4-6) by (auto simp: logBefore_def)
qed

lemma log_inv_extend:
  assumes "geth_codec G" "log_inv view G s ls"
    and v: "view (db s') = apply_ops (view (db s)) (concat (map (logOps G) new))"
    and new: "\<forall>l\<in>set new. rlpEncodeLog G l \<noteq> None \<and> smallLog l"
    and ls': "sorted_wrt logBefore ls'" "set ls' = set ls \<union> set new"
  shows "log_inv view G s' ls'"
proof -
  let ?ops = "concat (map (logOps G) new)"
  have small: "\<forall>l\<in>set ls'. smallLog l" using assms(2) new ls'(2) by (auto simp: log_inv_def)
  have same: "m = l" if "l \<in> set ls'" "m \<in> set ls'" "logKeyOf m = logKeyOf l" for l m
    using that small sorted_logs_inj [OF ls'(1) that(2,1)] by (auto simp: index_keys logSuffix_inject)
  have data: "\<exists>e. rlpEncodeLog G l = Some e \<and> view (db s') (logKeyOf l) = Some e" if l: "l \<in> set ls'" for l
  proof -
    have only: "val = the (rlpEncodeLog G l)" if "BSet (logKeyOf l) val \<in> set ?ops" for val
    proof -
      consider m where "m \<in> set new" "logKeyOf l = logKeyOf m" "val = the (rlpEncodeLog G m)"
        | x m where "logKeyOf l = idxPrefix G x @ suffixOf m" using \<open>BSet _ _ \<in> _\<close> unfolding logOps_BSet by blast
      then show ?thesis
      proof cases
        case (1 m)
        then show ?thesis using same [OF l, of m] ls'(2) by auto
      next
        case (2 x m)
        have "HasPrefix (logKeyOf l) ''/index/logs/''" unfolding 2 by (rule idxPrefix_logs)
        then show ?thesis using logKey_not_index by blast
      qed
    qed
    obtain e where e: "rlpEncodeLog G l = Some e" "l \<notin> set new \<Longrightarrow> view (db s) (logKeyOf l) = Some e"
    proof (cases "l \<in> set ls")
      case True
      then show ?thesis using assms(2) that unfolding log_inv_def by blast
    next
      case False
      then show ?thesis using new l ls'(2) that by blast
    qed
    show ?thesis
    proof (cases "\<exists>val. BSet (logKeyOf l) val \<in> set ?ops")
      case True
      then obtain val where val: "BSet (logKeyOf l) val \<in> set ?ops" by blast
      have only': "\<forall>w. BSet (logKeyOf l) w \<in> set ?ops \<longrightarrow> w = e" using only e(1) by simp
      with val have "BSet (logKeyOf l) e \<in> set ?ops" by blast
      then have "apply_ops (view (db s)) ?ops (logKeyOf l) = Some e"
        using only' by (rule apply_ops_set [OF _ _ logOps_no_delete])
      with e v show ?thesis by simp
    next
      case False
      then have "l \<notin> set new" unfolding logOps_BSet by blast
      with False e v apply_ops_other [OF _ logOps_no_delete, of "logKeyOf l" G new "view (db s)"] show ?thesis by auto
    qed
  qed
  have idx: "HasPrefix k ''/index/logs/'' \<and> view (db s) k = Some w \<longleftrightarrow>
      (\<exists>l\<in>set ls. \<exists>x\<in>set (idxOf l). k = idxPrefix G x @ suffixOf l \<and> w = indexMark)" for k w
    using assms(2) unfolding log_inv_def by blast
  have "HasPrefix k ''/index/logs/'' \<and> view (db s') k = Some w \<longleftrightarrow>
      (\<exists>l\<in>set ls'. \<exists>x\<in>set (idxOf l). k = idxPrefix G x @ suffixOf l \<and> w = indexMark)" for k w
  proof (cases "\<exists>l\<in>set new. \<exists>x\<in>set (idxOf l). k = idxPrefix G x @ suffixOf l")
    case True
    then have hp: "HasPrefix k ''/index/logs/''" using idxPrefix_logs by blast
    have "BSet k indexMark \<in> set ?ops" using True unfolding logOps_BSet by blast
    moreover have "\<forall>val. BSet k val \<in> set ?ops \<longrightarrow> val = indexMark"
      unfolding logOps_BSet using hp logKey_not_index by blast
    ultimately have "view (db s') k = Some indexMark" unfolding v by (rule apply_ops_set [OF _ _ logOps_no_delete])
    with True hp ls'(2) show ?thesis by auto
  next
    case False
    have "view (db s') k = view (db s) k" if "HasPrefix k ''/index/logs/''"
      unfolding v using False that logKey_not_index
      by (intro apply_ops_other logOps_no_delete) (auto simp: logOps_BSet simp del: set_concat)
    with False ls'(2) idx [of k w] show ?thesis by (auto simp del: idxPrefix.simps)
  qed
  with data small ls'(1) show ?thesis unfolding log_inv_def by blast
qed

section \<open>Properties\<close>

text \<open>
  C23: indexing keeps the log index exact. When \<^verbatim>\<open>IndexLogs\<close> succeeds, the stored logs are the old ones
  and the new ones, whatever was indexed before (indexing a log again changes nothing), and every
  index has exactly their entries; when it fails, the index is as it was. Transaction and log
  indexes are within the six digits of the keys, and no two logs share a position.
\<close>

theorem IndexLogs_indexes:
  assumes "pebble_db P view" "geth_codec G" "log_inv view G s ls"
    and "IndexLogs P G (map Some new) s = (r, s')"
    and "\<forall>l\<in>set new. smallLog l" "sorted_wrt logBefore ls'" "set ls' = set ls \<union> set new"
  shows "case r of Inl e \<Rightarrow> log_inv view G s' ls | Inr _ \<Rightarrow> log_inv view G s' ls'"
proof -
  note c = chain_store.IndexLogs_cases [OF chain_store_intro [OF assms(1,2)] assms(4)]
  show ?thesis
  proof (cases r)
    case (Inl e)
    with c assms(3) show ?thesis by (simp add: log_inv_def)
  next
    case (Inr u)
    with c assms(5) log_inv_extend [OF assms(2,3) _ _ assms(6,7), of s'] show ?thesis by auto
  qed
qed

lemma log_inv_empty: "log_inv map_of G (emptyStorage ([] :: (bytes \<times> bytes) list)) []"
  by (simp add: log_inv_def emptyStorage_def)

definition sampleLogs :: "(serror + unit) \<times> (bytes \<times> bytes) list storage" where
  "sampleLogs = IndexLogs memPebble sampleGeth [Some sampleLog] (emptyStorage [])"

lemma sampleLogs_ok: "fst sampleLogs = Inr ()" "closed (snd sampleLogs) = False"
  by (simp_all add: sampleLogs_def IndexLogs_def guard_simps emptyStorage_def DefaultConfig_def runBatch_def andThen_def
      wrapping_def catch_def indexLogToBatch_def EncodeLog_def Let_def bAdd_def memPebble_def fromOption_def sampleGeth_def
      refGeth_def sampleLog_def bumpCount_def batch_Commit_def ensureBatchOpen_def NewBatch_def onStorage_def dbCommit_def
      liftWrite_def)

lemma sampleLogs_run: "IndexLogs memPebble sampleGeth (map Some [sampleLog]) (emptyStorage []) = (Inr (), snd sampleLogs)"
  using sampleLogs_ok(1) by (simp add: sampleLogs_def prod_eq_iff)

lemma sampleLogs_inv: "log_inv map_of sampleGeth (snd sampleLogs) [sampleLog]"
  using log_inv_extend [OF geth_codec_sample log_inv_empty, of "snd sampleLogs" "[sampleLog]" "[sampleLog]"]
    chain_store.IndexLogs_cases [OF chain_store_intro [OF memPebble.pebble_db_axioms geth_codec_sample] sampleLogs_run]
  by (simp add: smallLog_def sampleLog_def)

theorem IndexLogs_indexes_witness: "log_inv map_of sampleGeth (snd sampleLogs) [sampleLog]"
  using IndexLogs_indexes [OF memPebble.pebble_db_axioms geth_codec_sample log_inv_empty sampleLogs_run, of "[sampleLog]"]
  by (simp add: smallLog_def sampleLog_def)

text \<open>
  C24: the simple log queries are exact and ordered: by block, by address and block range, and by topic
  position and block range they return exactly the stored logs that match, in the order of block,
  transaction and log index, and leave the storage as it is. The range ends below the largest height.
\<close>

theorem log_queries_exact:
  assumes "pebble_db P view" "geth_codec G" "log_inv view G s ls" "\<not> closed s" "to < - 1" "j < 4"
  shows "GetLogsByBlock P G b s = (Inr (filter (\<lambda>l. lBlockNumber l = b) ls), s) \<and>
    GetLogsByAddress P G a from to s =
      (Inr (filter (\<lambda>l. lAddress l = a \<and> from \<le> lBlockNumber l \<and> lBlockNumber l \<le> to) ls), s) \<and>
    GetLogsByTopic P G h (int j) from to s =
      (Inr (filter (\<lambda>l. j < length (lTopics l) \<and> lTopics l ! j = h \<and>
        from \<le> lBlockNumber l \<and> lBlockNumber l \<le> to) ls), s)"
  using assms by (simp add: GetLogsByBlock_eq GetLogsByAddress_def GetLogsByTopic_def guard_simps andThen_def
      getLogsByAddressRange_eq getLogsByTopicRange_eq)

theorem log_queries_exact_witness:
  "let s = snd sampleLogs in
   GetLogsByBlock memPebble sampleGeth 7 s = (Inr [sampleLog], s) \<and>
   GetLogsByAddress memPebble sampleGeth 8 0 9 s = (Inr [sampleLog], s) \<and>
   GetLogsByTopic memPebble sampleGeth 6 1 0 9 s = (Inr [sampleLog], s) \<and>
   GetLogsByTopic memPebble sampleGeth 6 1 8 9 s = (Inr [], s)"
proof -
  have "\<not> closed (snd sampleLogs)" "(9 :: u64) < - 1" "1 < (4 :: nat)" using sampleLogs_ok(2) by simp_all
  note q = log_queries_exact [OF memPebble.pebble_db_axioms geth_codec_sample sampleLogs_inv this]
  show ?thesis using q [of 7 8 0 6] q [of 7 8 8 6] by (simp add: Let_def sampleLog_def)
qed

section \<open>The general query\<close>

lemma matchesTopicFilter_iff:
  "matchesTopicFilter l ts \<longleftrightarrow>
     (\<forall>i<length ts. ts ! i \<noteq> [] \<longrightarrow> i < length (lTopics l) \<and> lTopics l ! i \<in> set (ts ! i))"
  by (auto simp: matchesTopicFilter_def list_all_iff list_ex_iff in_set_enumerate_eq)

lemma filterLogsByTopics_eq: "filterLogsByTopics logs ts = filter (\<lambda>l. matchesTopicFilter l ts) logs"
  by (auto simp: filterLogsByTopics_def matchesTopicFilter_def)

lemma collect_eq:
  "(\<And>x. x \<in> set xs \<Longrightarrow> f x s = (Inr (g x), s)) \<Longrightarrow> collect f xs acc s = (Inr (acc @ concat (map g xs)), s)"
  by (induction xs arbitrary: acc) simp_all

lemma filter_first_block:
  assumes "sorted_wrt logBefore ls" "h \<le> hi" "hi < - 1"
  shows "filter (\<lambda>l. h \<le> lBlockNumber l \<and> lBlockNumber l \<le> hi) ls =
    filter (\<lambda>l. lBlockNumber l = h) ls @ filter (\<lambda>l. h + 1 \<le> lBlockNumber l \<and> lBlockNumber l \<le> hi) ls"
  using assms(1)
proof (induction ls)
  case (Cons l ls)
  have h: "h < - 1" using assms(2,3) by simp
  have nx: "h + 1 \<le> b \<longleftrightarrow> h < b" for b
    using less_succ_u64 [OF h, of b] by (auto simp: not_le [symmetric])
  have "filter (\<lambda>m. lBlockNumber m = h) ls = []" if "h < lBlockNumber l"
    using that Cons.prems by (force simp: filter_empty_conv logBefore_def)
  with Cons assms(2) nx show ?case by (auto simp: order.strict_iff_order)
qed simp

lemma blockScan_eq:
  assumes "pebble_db P view" "geth_codec G" "log_inv view G s ls" "\<not> closed s" "hi < - 1" "h \<le> hi + 1"
  shows "blockScan P G h hi acc s =
    Some (Inr (acc @ filter (\<lambda>l. h \<le> lBlockNumber l \<and> lBlockNumber l \<le> hi) ls), s)"
  using assms(5,6)
proof (induction h arbitrary: acc rule: count_up_induct)
  case last
  have "hi < hi + 1" using less_succ_u64 [OF assms(5), of hi] by simp
  then have "\<not> hi + 1 \<le> hi" "\<not> (hi + 1 \<le> b \<and> b \<le> hi)" for b by (auto dest: order_trans simp: not_le)
  then show ?case by (simp add: blockScan.simps)
next
  case (step h)
  have "sorted_wrt logBefore ls" using assms(3) by (simp add: log_inv_def)
  note split = filter_first_block [OF this step.hyps(1) assms(5)]
  from step show ?case
    by (simp add: blockScan.simps [of P G h] GetLogsByBlock_eq [OF assms(1-4)] split)
qed

lemma GetLogs_toBlock_eq:
  assumes "\<not> closed s" "lfToBlock f \<noteq> 0 \<and> to = lfToBlock f \<or> lfToBlock f = 0 \<and> GetLatestHeight P s = (Inr to, s)"
    "lfFromBlock f \<le> to" "to - lfFromBlock f \<le> 10000"
  shows "GetLogs_toBlock P (Some f) s = (Inr to, s)"
  using assms by (auto simp: GetLogs_toBlock_def guard_simps andThen_def catch_def not_less [symmetric])

text \<open>The logs the three strategies of \<^verbatim>\<open>GetLogs\<close> bring, before the topic filter.\<close>

definition candidates :: "LogFilter \<Rightarrow> u64 \<Rightarrow> log list \<Rightarrow> log list" where
  "candidates f to ls =
     (let inr = (\<lambda>l. lfFromBlock f \<le> lBlockNumber l \<and> lBlockNumber l \<le> to) in
      if lfAddresses f \<noteq> [] then concat (map (\<lambda>a. filter (\<lambda>l. lAddress l = a \<and> inr l) ls) (lfAddresses f))
      else if lfTopics f \<noteq> [] \<and> lfTopics f ! 0 \<noteq> []
      then concat (map (\<lambda>h. filter (\<lambda>l. 0 < length (lTopics l) \<and> lTopics l ! 0 = h \<and> inr l) ls) (lfTopics f ! 0))
      else filter inr ls)"

lemma GetLogs_eq:
  assumes "pebble_db P view" "geth_codec G" "log_inv view G s ls" "\<not> closed s" "to < - 1"
    "lfToBlock f \<noteq> 0 \<and> to = lfToBlock f \<or> lfToBlock f = 0 \<and> GetLatestHeight P s = (Inr to, s)"
    "lfFromBlock f \<le> to" "to - lfFromBlock f \<le> 10000"
  shows "GetLogs P G (Some f) s =
    Some (Inr (filter (\<lambda>l. matchesTopicFilter l (lfTopics f)) (candidates f to ls)), s)"
proof -
  note tb = GetLogs_toBlock_eq [OF assms(4,6-8)]
  note addr = getLogsByAddressRange_eq [OF assms(1-3,5), of _ "lfFromBlock f"]
  note topic = getLogsByTopicRange_eq [OF assms(1-3,5), of 0 _ "lfFromBlock f", simplified]
  have by_addr: "collect (\<lambda>a. getLogsByAddressRange P G a (lfFromBlock f) to) xs [] s =
      (Inr (concat (map (\<lambda>a. filter (\<lambda>l. lAddress l = a \<and> lfFromBlock f \<le> lBlockNumber l \<and> lBlockNumber l \<le> to) ls) xs)), s)" for xs
    by (simp add: collect_eq addr)
  have by_topic: "collect (\<lambda>h. getLogsByTopicRange P G h 0 (lfFromBlock f) to) xs [] s =
      (Inr (concat (map (\<lambda>h. filter (\<lambda>l. 0 < length (lTopics l) \<and> lTopics l ! 0 = h \<and> lfFromBlock f \<le> lBlockNumber l \<and>
        lBlockNumber l \<le> to) ls) xs)), s)" for xs
    by (simp add: collect_eq topic)
  have le: "lfFromBlock f \<le> to + 1" by (rule le_succ_u64 [OF assms(5,7)])
  note scan = blockScan_eq [OF assms(1-5) le]
  show ?thesis
    by (simp add: GetLogs_def tb by_addr by_topic scan candidates_def Let_def
        filterLogsByTopics_eq filterLogsByAddresses_def)
qed

lemma candidates_set:
  "set (filter (\<lambda>l. matchesTopicFilter l (lfTopics f)) (candidates f to ls)) =
   {l \<in> set ls. lfFromBlock f \<le> lBlockNumber l \<and> lBlockNumber l \<le> to \<and>
      (lfAddresses f = [] \<or> lAddress l \<in> set (lfAddresses f)) \<and> matchesTopicFilter l (lfTopics f)}"
proof -
  have "0 < length (lTopics l) \<and> lTopics l ! 0 \<in> set (lfTopics f ! 0)"
    if "matchesTopicFilter l (lfTopics f)" "lfTopics f \<noteq> []" "lfTopics f ! 0 \<noteq> []" for l
    using that by (auto simp: matchesTopicFilter_iff)
  then show ?thesis by (auto simp: candidates_def Let_def)
qed

lemma distinct_concat_filter:
  assumes "distinct ls" "distinct xs" "\<And>x y l. Q x l \<Longrightarrow> Q y l \<Longrightarrow> x = y"
  shows "distinct (concat (map (\<lambda>x. filter (Q x) ls) xs))"
  using assms(2) by (induction xs) (use assms(1,3) in \<open>auto\<close>)

lemma candidates_distinct:
  assumes "distinct ls" "distinct (lfAddresses f)" "\<forall>ts\<in>set (lfTopics f). distinct ts"
  shows "distinct (candidates f to ls)"
  using assms by (auto simp: candidates_def Let_def intro!: distinct_concat_filter)

lemma sorted_logs_distinct: "sorted_wrt logBefore ls \<Longrightarrow> distinct ls"
  by (induction ls) (auto simp: logBefore_irrefl)

text \<open>
  C22: the general log query returns, and its result is exactly the set of stored logs in the block
  range whose address is among the addresses of the filter, if it has any, and whose topics match
  position by position. With no address and no topic given twice, no log comes twice. The range has
  at most 10001 blocks and ends below the largest height; an end of zero stands for the latest height.
\<close>

theorem GetLogs_exact:
  assumes "pebble_db P view" "geth_codec G" "log_inv view G s ls" "\<not> closed s" "to < - 1"
    "lfToBlock f \<noteq> 0 \<and> to = lfToBlock f \<or> lfToBlock f = 0 \<and> GetLatestHeight P s = (Inr to, s)"
    "lfFromBlock f \<le> to" "to - lfFromBlock f \<le> 10000"
  shows "\<exists>logs. GetLogs P G (Some f) s = Some (Inr logs, s) \<and>
    set logs = {l \<in> set ls. lfFromBlock f \<le> lBlockNumber l \<and> lBlockNumber l \<le> to \<and>
      (lfAddresses f = [] \<or> lAddress l \<in> set (lfAddresses f)) \<and>
      (\<forall>i<length (lfTopics f). lfTopics f ! i \<noteq> [] \<longrightarrow>
         i < length (lTopics l) \<and> lTopics l ! i \<in> set (lfTopics f ! i))} \<and>
    (distinct (lfAddresses f) \<and> (\<forall>ts\<in>set (lfTopics f). distinct ts) \<longrightarrow> distinct logs)"
proof -
  have "distinct ls" using assms(3) sorted_logs_distinct by (auto simp: log_inv_def)
  with GetLogs_eq [OF assms] candidates_set [of f to ls] candidates_distinct [of ls f to] show ?thesis
    by (simp add: matchesTopicFilter_iff)
qed

theorem GetLogs_exact_witness:
  "\<exists>logs. GetLogs memPebble sampleGeth (Some \<lparr>lfFromBlock = 5, lfToBlock = 9, lfAddresses = [], lfTopics = [[], [5, 6]]\<rparr>)
      (snd sampleLogs) = Some (Inr logs, snd sampleLogs) \<and> set logs = {sampleLog} \<and> distinct logs"
proof -
  let ?f = "\<lparr>lfFromBlock = 5, lfToBlock = 9, lfAddresses = [], lfTopics = [[], [5, 6]]\<rparr>"
  have "\<not> closed (snd sampleLogs)" "(9 :: u64) < - 1"
    "lfToBlock ?f \<noteq> 0 \<and> 9 = lfToBlock ?f \<or> lfToBlock ?f = 0 \<and> GetLatestHeight memPebble (snd sampleLogs) = (Inr 9, snd sampleLogs)"
    "lfFromBlock ?f \<le> 9" "9 - lfFromBlock ?f \<le> 10000"
    using sampleLogs_ok(2) by simp_all
  from GetLogs_exact [OF memPebble.pebble_db_axioms geth_codec_sample sampleLogs_inv this] obtain logs
    where l: "GetLogs memPebble sampleGeth (Some ?f) (snd sampleLogs) = Some (Inr logs, snd sampleLogs)"
      "\<And>x. x \<in> set logs \<longleftrightarrow> x = sampleLog \<and> 5 \<le> lBlockNumber x \<and> lBlockNumber x \<le> 9 \<and>
        (\<forall>i<Suc (Suc 0). [[], [5, 6 :: hash]] ! i \<noteq> [] \<longrightarrow> i < length (lTopics x) \<and> lTopics x ! i \<in> set ([[], [5, 6]] ! i))"
      "distinct logs" by auto
  have "x \<in> set logs \<longleftrightarrow> x = sampleLog" for x
    unfolding l(2) by (auto simp: sampleLog_def less_Suc_eq)
  with l(1,3) show ?thesis by auto
qed

text \<open>An address given twice in the filter brings its logs twice.\<close>

lemma GetLogs_duplicates:
  "GetLogs memPebble sampleGeth (Some \<lparr>lfFromBlock = 5, lfToBlock = 9, lfAddresses = [8, 8], lfTopics = []\<rparr>)
     (snd sampleLogs) = Some (Inr [sampleLog, sampleLog], snd sampleLogs)"
proof -
  let ?f = "\<lparr>lfFromBlock = 5, lfToBlock = 9, lfAddresses = [8, 8], lfTopics = []\<rparr>"
  have "\<not> closed (snd sampleLogs)" "(9 :: u64) < - 1"
    "lfToBlock ?f \<noteq> 0 \<and> 9 = lfToBlock ?f \<or> lfToBlock ?f = 0 \<and> GetLatestHeight memPebble (snd sampleLogs) = (Inr 9, snd sampleLogs)"
    "lfFromBlock ?f \<le> 9" "9 - lfFromBlock ?f \<le> 10000"
    using sampleLogs_ok(2) by simp_all
  from GetLogs_eq [OF memPebble.pebble_db_axioms geth_codec_sample sampleLogs_inv this] show ?thesis
    by (simp add: candidates_def sampleLog_def matchesTopicFilter_def)
qed

end
