(* ===== verification/AddressIndex.thy ===== *)
theory AddressIndex
  imports LogIndex
begin

text \<open>
  Contract creations, token transfers and internal transactions by address
  (\<^verbatim>\<open>pkg/storage/address_index.go\<close>, \<^verbatim>\<open>pebble_address_index.go\<close>). Every record is stored as JSON
  under its own key and entered into indexes that a paged query walks. The JSON form of these
  structs is made by the text marshallers of go-ethereum, so the codec is a parameter with the law
  that decoding gives back what was encoded.
\<close>

section \<open>Records\<close>

record ContractCreation =
  ccContractAddress :: address
  ccCreator :: address
  ccTransactionHash :: hash
  ccBlockNumber :: u64
  ccTimestamp :: u64
  ccBytecodeSize :: int

record InternalTransaction =
  itTransactionHash :: hash
  itBlockNumber :: u64
  itIndex :: int
  itType :: string
  itFrom :: address
  itTo :: address
  itValue :: "int option"
  itGas :: u64
  itGasUsed :: u64
  itInput :: bytes
  itOutput :: bytes
  itError :: string
  itDepth :: int

record ERC20Transfer =
  e20ContractAddress :: address
  e20From :: address
  e20To :: address
  e20Value :: "int option"
  e20TransactionHash :: hash
  e20BlockNumber :: u64
  e20LogIndex :: u64
  e20Timestamp :: u64

record ERC721Transfer =
  e721ContractAddress :: address
  e721From :: address
  e721To :: address
  e721TokenId :: "int option"
  e721TransactionHash :: hash
  e721BlockNumber :: u64
  e721LogIndex :: u64
  e721Timestamp :: u64

record NFTOwnership =
  nftContractAddress :: address
  nftTokenId :: int
  nftOwner :: address

record addrJson =
  jsonCreation :: "ContractCreation \<Rightarrow> bytes option"
  unjsonCreation :: "bytes \<Rightarrow> ContractCreation option"
  jsonInternal :: "InternalTransaction \<Rightarrow> bytes option"
  unjsonInternal :: "bytes \<Rightarrow> InternalTransaction option"
  json20 :: "ERC20Transfer \<Rightarrow> bytes option"
  unjson20 :: "bytes \<Rightarrow> ERC20Transfer option"
  json721 :: "ERC721Transfer \<Rightarrow> bytes option"
  unjson721 :: "bytes \<Rightarrow> ERC721Transfer option"

locale addr_json =
  fixes J :: addrJson
  assumes json_creation: "jsonCreation J c = Some e \<Longrightarrow> e \<noteq> [] \<and> unjsonCreation J e = Some c"
    and json_internal: "jsonInternal J i = Some e \<Longrightarrow> e \<noteq> [] \<and> unjsonInternal J e = Some i"
    and json_20: "json20 J t = Some e \<Longrightarrow> e \<noteq> [] \<and> unjson20 J e = Some t"
    and json_721: "json721 J n = Some e \<Longrightarrow> e \<noteq> [] \<and> unjson721 J e = Some n"

text \<open>\<^verbatim>\<open>big.Int.String\<close> and \<^verbatim>\<open>big.Int.SetString\<close> in base ten.\<close>

definition showInt :: "int \<Rightarrow> string" where
  "showInt n = (if n < 0 then ''-'' @ showDec (nat (- n)) else showDec (nat n))"

definition SetString :: "string \<Rightarrow> int option" where
  "SetString str =
     (let digits = (\<lambda>ds. if ds = [] then None else map_option int (readDec 0 ds)) in
      case str of
        [] \<Rightarrow> None
      | c # cs \<Rightarrow> if c = CHR ''-'' then map_option uminus (digits cs)
          else if c = CHR ''+'' then digits cs else digits str)"

section \<open>Paged scans and batches\<close>

definition clampLimit :: "int \<Rightarrow> int" where
  "clampLimit limit = (let limit = (if limit \<le> 0 then 10 else limit) in if limit > 100 then 100 else limit)"

definition clampOffset :: "int \<Rightarrow> int" where
  "clampOffset offset = (if offset < 0 then 0 else offset)"

text \<open>The loop of a paged query: \<open>f\<close> makes an item of an entry, or skips it.\<close>

fun pageScan :: "(bytes \<times> bytes \<Rightarrow> ('s, 'a option) op) \<Rightarrow> int \<Rightarrow> int \<Rightarrow> (bytes \<times> bytes) list \<Rightarrow>
    int \<Rightarrow> int \<Rightarrow> 'a list \<Rightarrow> ('s, 'a list) op" where
  "pageScan f limit offset [] cnt skipped acc = ret acc"
| "pageScan f limit offset (e # es) cnt skipped acc =
     (if skipped < offset then pageScan f limit offset es cnt (skipped + 1) acc
      else if cnt \<ge> limit then ret acc
      else andThen (f e) (\<lambda>r. case r of
          None \<Rightarrow> pageScan f limit offset es cnt skipped acc
        | Some x \<Rightarrow> pageScan f limit offset es (cnt + 1) skipped (acc @ [x])))"

definition pagedQuery :: "'db pebble \<Rightarrow> bytes \<Rightarrow> (bytes \<times> bytes \<Rightarrow> ('db storage, 'a option) op) \<Rightarrow>
    int \<Rightarrow> int \<Rightarrow> ('db storage, 'a list) op" where
  "pagedQuery P pfx f limit offset =
     andThen ensureNotClosed (\<lambda>_.
     andThen (scanPrefix P pfx) (\<lambda>(es, itErr).
     andThen (pageScan f (clampLimit limit) (clampOffset offset) es 0 0 []) (\<lambda>xs. loopThen (Inr xs) itErr)))"

fun batchAll :: "'db pebble \<Rightarrow> (string \<times> batch_op) list \<Rightarrow> batch_op list \<Rightarrow> ('s, batch_op list) op" where
  "batchAll P [] ops = ret ops"
| "batchAll P ((msg, x) # xs) ops = andThen (wrapping msg (batchAdd P ops x)) (\<lambda>ops. batchAll P xs ops)"

definition unmarshal :: "string \<Rightarrow> (bytes \<Rightarrow> 'a option) \<Rightarrow> bytes \<Rightarrow> ('s, 'a) op" where
  "unmarshal msg dec value = fromOption (Errorf msg) (dec value)"

section \<open>Contract creations\<close>

definition GetContractCreation :: "'db pebble \<Rightarrow> geth \<Rightarrow> addrJson \<Rightarrow> address \<Rightarrow> ('db storage, ContractCreation) op" where
  "GetContractCreation P G J contractAddress =
     andThen ensureNotClosed (\<lambda>_.
     andThen (getKey P ''failed to get contract creation'' (ContractCreationKey G contractAddress)) (\<lambda>value.
     unmarshal ''failed to unmarshal contract creation'' (unjsonCreation J) value))"

definition GetContractsByCreator :: "'db pebble \<Rightarrow> geth \<Rightarrow> address \<Rightarrow> int \<Rightarrow> int \<Rightarrow> ('db storage, address list) op" where
  "GetContractsByCreator P G creator limit offset =
     pagedQuery P (ContractCreatorIndexKeyPrefix G creator)
       (\<lambda>(k, v). ret (if v \<noteq> [] then Some (bytesToAddr G v) else None)) limit offset"

definition SaveContractCreation :: "'db pebble \<Rightarrow> geth \<Rightarrow> addrJson \<Rightarrow> ContractCreation option \<Rightarrow>
    ('db storage, unit) op" where
  "SaveContractCreation P G J creation =
     andThen ensureNotClosed (\<lambda>_.
     case creation of
       None \<Rightarrow> throw (Errorf ''contract creation cannot be nil'')
     | Some c \<Rightarrow>
         if ccContractAddress c = 0 then throw (Errorf ''contract address cannot be zero'')
         else if ccCreator c = 0 then throw (Errorf ''creator address cannot be zero'')
         else if ccTransactionHash c = 0 then throw (Errorf ''transaction hash cannot be zero'')
         else andThen (fromOption (Errorf ''failed to marshal contract creation'') (jsonCreation J c)) (\<lambda>data.
           andThen (batchAll P
             [(''failed to save contract creation data'', BSet (ContractCreationKey G (ccContractAddress c)) data),
              (''failed to save creator index'',
                BSet (ContractCreatorIndexKey G (ccCreator c) (ccBlockNumber c) (ccTransactionHash c))
                  (addrBytes G (ccContractAddress c))),
              (''failed to save block index'',
                BSet (ContractBlockIndexKey G (ccBlockNumber c) (ccContractAddress c))
                  (addrBytes G (ccContractAddress c)))] []) (\<lambda>ops.
           wrapping ''failed to commit contract creation batch'' (dbCommit P ops))))"

fun loadContracts :: "'db pebble \<Rightarrow> geth \<Rightarrow> addrJson \<Rightarrow> address list \<Rightarrow> ContractCreation list \<Rightarrow>
    ('db storage, ContractCreation list) op" where
  "loadContracts P G J [] acc = ret acc"
| "loadContracts P G J (a # as) acc = (\<lambda>s.
     case GetContractCreation P G J a s of
       (Inl e, s') \<Rightarrow> loadContracts P G J as acc s'
     | (Inr c, s') \<Rightarrow> loadContracts P G J as (acc @ [c]) s')"

definition ListContracts :: "'db pebble \<Rightarrow> geth \<Rightarrow> addrJson \<Rightarrow> int \<Rightarrow> int \<Rightarrow>
    ('db storage, ContractCreation list) op" where
  "ListContracts P G J limit offset =
     andThen ensureNotClosed (\<lambda>_.
     andThen (scanPrefix P prefixIdxContractBlock) (\<lambda>(es, itErr).
     let contractAddrs = map (\<lambda>(k, v). bytesToAddr G v) (filter (\<lambda>(k, v). v \<noteq> []) (rev es)) in
     andThen (loopThen (Inr contractAddrs) itErr) (\<lambda>contractAddrs.
     let start = clampOffset offset; n = int (length contractAddrs) in
     if start \<ge> n then ret []
     else let stop = (if start + clampLimit limit > n then n else start + clampLimit limit)
       in loadContracts P G J (take (nat (stop - start)) (drop (nat start) contractAddrs)) [])))"

definition GetContractsCount :: "'db pebble \<Rightarrow> ('db storage, int) op" where
  "GetContractsCount P =
     andThen ensureNotClosed (\<lambda>_.
     andThen (scanPrefix P prefixContractCreation) (\<lambda>(es, itErr). loopThen (Inr (int (length es))) itErr))"

section \<open>Token transfers\<close>

text \<open>An index entry has the transaction as its value and the log index as the last six digits of its key.\<close>

definition transferEntry :: "geth \<Rightarrow> (hash \<Rightarrow> u64 \<Rightarrow> ('s, 't) op) \<Rightarrow> bytes \<times> bytes \<Rightarrow> ('s, 't option) op" where
  "transferEntry G load kv = (case kv of (k, v) \<Rightarrow>
     if v = [] then ret None
     else case scanUint 6 (drop (length k - 6) k) of
         None \<Rightarrow> ret None
       | Some (logIndex, rest) \<Rightarrow>
           catch (andThen (load (bytesToHash G v) logIndex) (\<lambda>t. ret (Some t))) (\<lambda>e. ret None))"

definition GetERC20Transfer :: "'db pebble \<Rightarrow> geth \<Rightarrow> addrJson \<Rightarrow> hash \<Rightarrow> u64 \<Rightarrow> ('db storage, ERC20Transfer) op" where
  "GetERC20Transfer P G J txHash logIndex =
     andThen ensureNotClosed (\<lambda>_.
     andThen (getKey P ''failed to get ERC20 transfer'' (ERC20TransferKey G txHash logIndex)) (\<lambda>value.
     unmarshal ''failed to unmarshal ERC20 transfer'' (unjson20 J) value))"

definition GetERC20TransfersByToken :: "'db pebble \<Rightarrow> geth \<Rightarrow> addrJson \<Rightarrow> address \<Rightarrow> int \<Rightarrow> int \<Rightarrow>
    ('db storage, ERC20Transfer list) op" where
  "GetERC20TransfersByToken P G J tokenAddress limit offset =
     pagedQuery P (ERC20TokenIndexKeyPrefix G tokenAddress)
       (transferEntry G (GetERC20Transfer P G J)) limit offset"

definition GetERC20TransfersByAddress :: "'db pebble \<Rightarrow> geth \<Rightarrow> addrJson \<Rightarrow> address \<Rightarrow> bool \<Rightarrow> int \<Rightarrow> int \<Rightarrow>
    ('db storage, ERC20Transfer list) op" where
  "GetERC20TransfersByAddress P G J address isFrom limit offset =
     pagedQuery P (if isFrom then ERC20FromIndexKeyPrefix G address else ERC20ToIndexKeyPrefix G address)
       (transferEntry G (GetERC20Transfer P G J)) limit offset"

definition SaveERC20Transfer :: "'db pebble \<Rightarrow> geth \<Rightarrow> addrJson \<Rightarrow> ERC20Transfer option \<Rightarrow> ('db storage, unit) op" where
  "SaveERC20Transfer P G J transfer =
     andThen ensureNotClosed (\<lambda>_.
     case transfer of
       None \<Rightarrow> throw (Errorf ''ERC20 transfer cannot be nil'')
     | Some t \<Rightarrow>
         if e20ContractAddress t = 0 then throw (Errorf ''contract address cannot be zero'')
         else if e20TransactionHash t = 0 then throw (Errorf ''transaction hash cannot be zero'')
         else if e20Value t = None then throw (Errorf ''value cannot be nil'')
         else andThen (fromOption (Errorf ''failed to marshal ERC20 transfer'') (json20 J t)) (\<lambda>data.
           let hb = hashBytes (e20TransactionHash t); b = e20BlockNumber t; i = e20LogIndex t in
           andThen (batchAll P
             [(''failed to save ERC20 transfer data'', BSet (ERC20TransferKey G (e20TransactionHash t) i) data),
              (''failed to save token index'', BSet (ERC20TokenIndexKey G (e20ContractAddress t) b i) hb),
              (''failed to save from index'', BSet (ERC20FromIndexKey G (e20From t) b i) hb),
              (''failed to save to index'', BSet (ERC20ToIndexKey G (e20To t) b i) hb)] []) (\<lambda>ops.
           wrapping ''failed to commit ERC20 transfer batch'' (dbCommit P ops))))"

definition GetERC721Transfer :: "'db pebble \<Rightarrow> geth \<Rightarrow> addrJson \<Rightarrow> hash \<Rightarrow> u64 \<Rightarrow> ('db storage, ERC721Transfer) op" where
  "GetERC721Transfer P G J txHash logIndex =
     andThen ensureNotClosed (\<lambda>_.
     andThen (getKey P ''failed to get ERC721 transfer'' (ERC721TransferKey G txHash logIndex)) (\<lambda>value.
     unmarshal ''failed to unmarshal ERC721 transfer'' (unjson721 J) value))"

definition GetERC721TransfersByToken :: "'db pebble \<Rightarrow> geth \<Rightarrow> addrJson \<Rightarrow> address \<Rightarrow> int \<Rightarrow> int \<Rightarrow>
    ('db storage, ERC721Transfer list) op" where
  "GetERC721TransfersByToken P G J tokenAddress limit offset =
     pagedQuery P (ERC721TokenIndexKeyPrefix G tokenAddress)
       (transferEntry G (GetERC721Transfer P G J)) limit offset"

definition GetERC721TransfersByAddress :: "'db pebble \<Rightarrow> geth \<Rightarrow> addrJson \<Rightarrow> address \<Rightarrow> bool \<Rightarrow> int \<Rightarrow> int \<Rightarrow>
    ('db storage, ERC721Transfer list) op" where
  "GetERC721TransfersByAddress P G J address isFrom limit offset =
     pagedQuery P (if isFrom then ERC721FromIndexKeyPrefix G address else ERC721ToIndexKeyPrefix G address)
       (transferEntry G (GetERC721Transfer P G J)) limit offset"

definition GetERC721Owner :: "'db pebble \<Rightarrow> geth \<Rightarrow> address \<Rightarrow> int option \<Rightarrow> ('db storage, address) op" where
  "GetERC721Owner P G tokenAddress tokenId =
     andThen ensureNotClosed (\<lambda>_.
     case tokenId of
       None \<Rightarrow> throw (Errorf ''tokenId cannot be nil'')
     | Some n \<Rightarrow>
         andThen (getKey P ''failed to get ERC721 owner'' (ERC721TokenOwnerKey G tokenAddress (showInt n))) (\<lambda>value.
         ret (bytesToAddr G value)))"

text \<open>The last slash splits the key; a slash at the front, or none, is no key.\<close>

definition splitNFTKey :: "string \<Rightarrow> (string \<times> string) option" where
  "splitNFTKey remaining =
     (let tokenId = rev (takeWhile (\<lambda>c. c \<noteq> CHR ''/'') (rev remaining));
          lastSlash = int (length remaining) - int (length tokenId) - 1
      in if lastSlash \<le> 0 then None else Some (take (nat lastSlash) remaining, tokenId))"

definition nftEntry :: "geth \<Rightarrow> bytes \<Rightarrow> address \<Rightarrow> bytes \<times> bytes \<Rightarrow> ('s, NFTOwnership option) op" where
  "nftEntry G pfx owner kv = (case splitNFTKey (drop (length pfx) (fst kv)) of
     None \<Rightarrow> ret None
   | Some (a, n) \<Rightarrow> (case SetString n of
       None \<Rightarrow> ret None
     | Some tokenId \<Rightarrow> ret (Some \<lparr>nftContractAddress = hexToAddr G a, nftTokenId = tokenId, nftOwner = owner\<rparr>)))"

definition GetNFTsByOwner :: "'db pebble \<Rightarrow> geth \<Rightarrow> address \<Rightarrow> int \<Rightarrow> int \<Rightarrow> ('db storage, NFTOwnership list) op" where
  "GetNFTsByOwner P G owner limit offset =
     pagedQuery P (ERC721OwnerIndexKeyPrefix G owner)
       (nftEntry G (ERC721OwnerIndexKeyPrefix G owner) owner) limit offset"

definition SaveERC721Transfer :: "'db pebble \<Rightarrow> geth \<Rightarrow> addrJson \<Rightarrow> ERC721Transfer option \<Rightarrow> ('db storage, unit) op" where
  "SaveERC721Transfer P G J transfer =
     andThen ensureNotClosed (\<lambda>_.
     case transfer of
       None \<Rightarrow> throw (Errorf ''ERC721 transfer cannot be nil'')
     | Some t \<Rightarrow>
         if e721ContractAddress t = 0 then throw (Errorf ''contract address cannot be zero'')
         else if e721TransactionHash t = 0 then throw (Errorf ''transaction hash cannot be zero'')
         else case e721TokenId t of
           None \<Rightarrow> throw (Errorf ''tokenId cannot be nil'')
         | Some n \<Rightarrow>
         andThen (fromOption (Errorf ''failed to marshal ERC721 transfer'') (json721 J t)) (\<lambda>data.
           let hb = hashBytes (e721TransactionHash t); b = e721BlockNumber t; i = e721LogIndex t;
               c = e721ContractAddress t in
           andThen (batchAll P
             [(''failed to save ERC721 transfer data'', BSet (ERC721TransferKey G (e721TransactionHash t) i) data),
              (''failed to save token index'', BSet (ERC721TokenIndexKey G c b i) hb),
              (''failed to save from index'', BSet (ERC721FromIndexKey G (e721From t) b i) hb),
              (''failed to save to index'', BSet (ERC721ToIndexKey G (e721To t) b i) hb),
              (''failed to save owner index'', BSet (ERC721TokenOwnerKey G c (showInt n)) (addrBytes G (e721To t)))]
             []) (\<lambda>ops.
           andThen (if e721From t \<noteq> 0
               then catch (batchAdd P ops (BDelete (ERC721OwnerIndexKey G (e721From t) c (showInt n)))) (\<lambda>e. ret ops)
               else ret ops) (\<lambda>ops.
           andThen (if e721To t \<noteq> 0
               then wrapping ''failed to save new owner index''
                 (batchAdd P ops (BSet (ERC721OwnerIndexKey G (e721To t) c (showInt n)) indexMark))
               else ret ops) (\<lambda>ops.
           wrapping ''failed to commit ERC721 transfer batch'' (dbCommit P ops))))))"

section \<open>Internal transactions\<close>

fun internalsOf :: "addrJson \<Rightarrow> (bytes \<times> bytes) list \<Rightarrow> InternalTransaction list" where
  "internalsOf J [] = []"
| "internalsOf J ((k, v) # es) =
     (if v = [] then internalsOf J es
      else case unjsonInternal J v of
          None \<Rightarrow> internalsOf J es
        | Some x \<Rightarrow> x # internalsOf J es)"

definition GetInternalTransactions :: "'db pebble \<Rightarrow> geth \<Rightarrow> addrJson \<Rightarrow> hash \<Rightarrow>
    ('db storage, InternalTransaction list) op" where
  "GetInternalTransactions P G J txHash =
     andThen ensureNotClosed (\<lambda>_.
     andThen (scanPrefix P (InternalTransactionKeyPrefix G txHash)) (\<lambda>(es, itErr).
     loopThen (Inr (internalsOf J es)) itErr))"

fun takeMatching :: "(InternalTransaction \<Rightarrow> bool) \<Rightarrow> int \<Rightarrow> InternalTransaction list \<Rightarrow> int \<Rightarrow>
    InternalTransaction list \<Rightarrow> int \<times> InternalTransaction list" where
  "takeMatching m limit [] cnt acc = (cnt, acc)"
| "takeMatching m limit (x # xs) cnt acc =
     (if m x then if cnt + 1 \<ge> limit then (cnt + 1, acc @ [x]) else takeMatching m limit xs (cnt + 1) (acc @ [x])
      else takeMatching m limit xs cnt acc)"

fun internalLoop :: "'db pebble \<Rightarrow> geth \<Rightarrow> addrJson \<Rightarrow> (InternalTransaction \<Rightarrow> bool) \<Rightarrow> int \<Rightarrow> int \<Rightarrow>
    (bytes \<times> bytes) list \<Rightarrow> int \<Rightarrow> int \<Rightarrow> hash list \<Rightarrow> InternalTransaction list \<Rightarrow>
    ('db storage, InternalTransaction list) op" where
  "internalLoop P G J m limit offset [] cnt skipped seen acc = ret acc"
| "internalLoop P G J m limit offset ((k, v) # es) cnt skipped seen acc =
     (if skipped < offset then internalLoop P G J m limit offset es cnt (skipped + 1) seen acc
      else if cnt \<ge> limit then ret acc
      else if length k < 66 then internalLoop P G J m limit offset es cnt skipped seen acc
      else let txHash = hexToHash G (drop (length k - 66) k) in
      if txHash \<in> set seen then internalLoop P G J m limit offset es cnt skipped seen acc
      else (\<lambda>s. case GetInternalTransactions P G J txHash s of
          (Inl e, s') \<Rightarrow> internalLoop P G J m limit offset es cnt skipped (txHash # seen) acc s'
        | (Inr txInternals, s') \<Rightarrow>
            (case takeMatching m limit txInternals cnt acc of (cnt', acc') \<Rightarrow>
               internalLoop P G J m limit offset es cnt' skipped (txHash # seen) acc' s')))"

definition GetInternalTransactionsByAddress :: "'db pebble \<Rightarrow> geth \<Rightarrow> addrJson \<Rightarrow> address \<Rightarrow> bool \<Rightarrow> int \<Rightarrow> int \<Rightarrow>
    ('db storage, InternalTransaction list) op" where
  "GetInternalTransactionsByAddress P G J address isFrom limit offset =
     andThen ensureNotClosed (\<lambda>_.
     andThen (scanPrefix P (if isFrom then InternalTxFromIndexKeyPrefix G address else InternalTxToIndexKeyPrefix G address))
       (\<lambda>(es, itErr).
     andThen (internalLoop P G J (\<lambda>x. if isFrom then itFrom x = address else itTo x = address)
         (clampLimit limit) (clampOffset offset) es 0 0 [] []) (\<lambda>xs. loopThen (Inr xs) itErr)))"

fun internalBatch :: "'db pebble \<Rightarrow> geth \<Rightarrow> addrJson \<Rightarrow> hash \<Rightarrow> InternalTransaction option list \<Rightarrow>
    batch_op list \<Rightarrow> ('s, batch_op list) op" where
  "internalBatch P G J txHash [] ops = ret ops"
| "internalBatch P G J txHash (None # xs) ops = internalBatch P G J txHash xs ops"
| "internalBatch P G J txHash (Some x # xs) ops =
     (if itTransactionHash x \<noteq> txHash then throw (Errorf ''internal transaction hash mismatch'')
      else andThen (fromOption (Errorf ''failed to marshal internal transaction'') (jsonInternal J x)) (\<lambda>data.
        andThen (batchAll P
          [(''failed to save internal transaction data'', BSet (InternalTransactionKey G txHash (itIndex x)) data),
           (''failed to save from index'', BSet (InternalTxFromIndexKey G (itFrom x) (itBlockNumber x) txHash) indexMark),
           (''failed to save to index'', BSet (InternalTxToIndexKey G (itTo x) (itBlockNumber x) txHash) indexMark),
           (''failed to save block index'', BSet (InternalTxBlockIndexKey G (itBlockNumber x) txHash) indexMark)] ops)
        (\<lambda>ops. internalBatch P G J txHash xs ops)))"

definition SaveInternalTransactions :: "'db pebble \<Rightarrow> geth \<Rightarrow> addrJson \<Rightarrow> hash \<Rightarrow> InternalTransaction option list \<Rightarrow>
    ('db storage, unit) op" where
  "SaveInternalTransactions P G J txHash internals =
     andThen ensureNotClosed (\<lambda>_.
     if txHash = 0 then throw (Errorf ''transaction hash cannot be zero'')
     else if internals = [] then ret ()
     else andThen (internalBatch P G J txHash internals []) (\<lambda>ops.
       wrapping ''failed to commit internal transactions batch'' (dbCommit P ops)))"

section \<open>What a paged scan returns\<close>

lemma pageScan_eq:
  assumes "\<And>x. x \<in> set xs \<Longrightarrow> f (kv x) s = (Inr (Some (g x)), s)"
  shows "pageScan f limit offset (map kv xs) cnt skipped acc s =
    (Inr (acc @ take (nat (limit - cnt)) (map g (drop (nat (offset - skipped)) xs))), s)"
  using assms
proof (induction xs arbitrary: cnt skipped acc)
  case (Cons x xs)
  consider (skip) "skipped < offset" | (stop) "\<not> skipped < offset" "cnt \<ge> limit"
    | (item) "\<not> skipped < offset" "cnt < limit" by linarith
  then show ?case
  proof cases
    case skip
    then have "nat (offset - skipped) = Suc (nat (offset - (skipped + 1)))" by linarith
    with skip Cons show ?thesis by simp
  next
    case stop
    then show ?thesis by simp
  next
    case item
    then have "nat (limit - cnt) = Suc (nat (limit - (cnt + 1)))" by linarith
    with item Cons show ?thesis by simp
  qed
qed simp

lemma pagedQuery_eq:
  assumes "\<not> closed s" "scanPrefix P pfx s = (Inr (map kv xs, None), s)"
    and "\<And>x. x \<in> set xs \<Longrightarrow> f (kv x) s = (Inr (Some (g x)), s)"
  shows "pagedQuery P pfx f limit offset s =
    (Inr (take (nat (clampLimit limit)) (drop (nat (clampOffset offset)) (map g xs))), s)"
  using assms(1,2) pageScan_eq [of xs f kv s g, OF assms(3)]
  by (simp add: pagedQuery_def guard_simps andThen_def loopThen_def drop_map)

lemma batchAll_Inr:
  assumes "pebble_db P view"
  shows "batchAll P xs ops s = (Inr ops', s') \<Longrightarrow> ops' = ops @ map snd xs \<and> s' = s"
proof (induction xs arbitrary: ops)
  case (Cons x xs)
  obtain m y where x: "x = (m, y)" by fastforce
  from Cons.prems x obtain o1 s1 where o: "batchAdd P ops y s = (Inr o1, s1)" "batchAll P xs o1 s1 = (Inr ops', s')"
    by (auto simp: andThen_eq_Inr)
  then have "o1 = ops @ [y]" "s1 = s" using pebble_db.record_ok [OF assms]
    by (auto simp: batchAdd_def split: sum.splits)
  with o(2) Cons.IH [of o1] x show ?case by simp
qed simp

section \<open>Token transfers: one contract for both standards\<close>

text \<open>
  ERC-20 and ERC-721 transfers are indexed alike: by token, by sender and by recipient. The record
  below collects what differs, the fields and keys, and the locale what the proofs need of them.
\<close>

datatype transferIdx = OfToken address | OfFrom address | OfTo address

record 't transferKind =
  tkHash :: "'t \<Rightarrow> hash"
  tkBlock :: "'t \<Rightarrow> u64"
  tkLog :: "'t \<Rightarrow> u64"
  tkIdx :: "'t \<Rightarrow> transferIdx list"
  tkPrefix :: "transferIdx \<Rightarrow> bytes"
  tkDataKey :: "hash \<Rightarrow> u64 \<Rightarrow> bytes"
  tkEnc :: "'t \<Rightarrow> bytes option"

definition posSuffix :: "u64 \<Rightarrow> u64 \<Rightarrow> bytes" where
  "posSuffix b i = padDec 20 (unat b) @ ''/'' @ padDec 6 (unat i)"

definition tkBefore :: "'t transferKind \<Rightarrow> 't \<Rightarrow> 't \<Rightarrow> bool" where
  "tkBefore T t u \<longleftrightarrow> tkBlock T t < tkBlock T u \<or> tkBlock T t = tkBlock T u \<and> tkLog T t < tkLog T u"

definition transferKey :: "'t transferKind \<Rightarrow> transferIdx \<Rightarrow> 't \<Rightarrow> bytes" where
  "transferKey T x t = tkPrefix T x @ posSuffix (tkBlock T t) (tkLog T t)"

text \<open>
  \<open>transfer_inv T view s ts\<close>: \<open>ts\<close> are the transfers stored, in the order of block and log index, and
  under every index prefix are exactly their entries.
\<close>

definition transfer_inv :: "'t transferKind \<Rightarrow> ('db \<Rightarrow> bytes \<Rightarrow> bytes option) \<Rightarrow> 'db storage \<Rightarrow> 't list \<Rightarrow> bool" where
  "transfer_inv T view s ts \<longleftrightarrow> sorted_wrt (tkBefore T) ts \<and>
     (\<forall>t\<in>set ts. unat (tkLog T t) < 10 ^ 6 \<and>
        (\<exists>e. tkEnc T t = Some e \<and> view (db s) (tkDataKey T (tkHash T t) (tkLog T t)) = Some e)) \<and>
     (\<forall>x k v. HasPrefix k (tkPrefix T x) \<and> view (db s) k = Some v \<longleftrightarrow>
        (\<exists>t\<in>set ts. x \<in> set (tkIdx T t) \<and> k = transferKey T x t \<and> v = hashBytes (tkHash T t)))"

definition transferOps :: "'t transferKind \<Rightarrow> 't \<Rightarrow> batch_op list" where
  "transferOps T t = BSet (tkDataKey T (tkHash T t) (tkLog T t)) (the (tkEnc T t)) #
     map (\<lambda>x. BSet (transferKey T x t) (hashBytes (tkHash T t))) (tkIdx T t)"

locale transfer_store = pebble_db P view + geth_codec G
  for P :: "'db pebble" and view and G +
  fixes T :: "'t transferKind" and load :: "hash \<Rightarrow> u64 \<Rightarrow> ('db storage, 't) op"
  assumes prefix_free: "tkPrefix T x @ a = tkPrefix T y @ b \<Longrightarrow> x = y \<and> a = b"
    and data_no_index: "\<not> HasPrefix (tkDataKey T h i) (tkPrefix T x)"
    and data_inject: "unat i < 10 ^ 6 \<Longrightarrow> unat j < 10 ^ 6 \<Longrightarrow> tkDataKey T h i = tkDataKey T h' j \<Longrightarrow> h = h' \<and> i = j"
    and load_stored: "\<not> closed s \<Longrightarrow> tkEnc T t = Some e \<Longrightarrow>
      view (db s) (tkDataKey T (tkHash T t) (tkLog T t)) = Some e \<Longrightarrow> load (tkHash T t) (tkLog T t) s = (Inr t, s)"
begin

lemma posSuffix_less:
  "unat i < 10 ^ 6 \<Longrightarrow> unat j < 10 ^ 6 \<Longrightarrow> posSuffix b i < posSuffix c j \<longleftrightarrow> b < c \<or> b = c \<and> i < j"
  by (simp add: posSuffix_def padDec6 less_list_append_eqlen)

lemma posSuffix_below_ff: "posSuffix b i < [byteChar 255]"
proof -
  have "padDec 20 (unat b) \<noteq> []" by (simp add: padBase_def)
  then obtain c cs where c: "padDec 20 (unat b) = c # cs" by (cases "padDec 20 (unat b)") auto
  then have "isDecDigit c" using readDec_digits [OF readDec_padDec, of c 20 "unat b"] by simp
  then show ?thesis using c by (simp add: posSuffix_def isDecDigit_def char_less_iff)
qed

lemma hasPrefix_iff: "HasPrefix k p \<longleftrightarrow> (\<exists>r. k = p @ r)"
  by (auto simp: HasPrefix_def prefix_def)

lemma transferKey_prefix: "HasPrefix (transferKey T x t) (tkPrefix T y) \<longleftrightarrow> x = y"
  by (auto simp: hasPrefix_iff transferKey_def dest: prefix_free)

lemma index_scan_transfers:
  assumes "transfer_inv T view s ts"
  shows "scanPrefix P (tkPrefix T x) s =
    (Inr (map (\<lambda>t. (transferKey T x t, hashBytes (tkHash T t))) (filter (\<lambda>t. x \<in> set (tkIdx T t)) ts), None), s)"
proof (rule scanPrefix_eq [OF pebble_db_axioms])
  let ?ts = "filter (\<lambda>t. x \<in> set (tkIdx T t)) ts"
  let ?es = "map (\<lambda>t. (transferKey T x t, hashBytes (tkHash T t))) ?ts"
  have small: "\<forall>t\<in>set ts. unat (tkLog T t) < 10 ^ 6" and so: "sorted_wrt (tkBefore T) ts"
    using assms by (auto simp: transfer_inv_def)
  have "sorted_wrt (\<lambda>t u. transferKey T x t < transferKey T x u) ts"
    by (rule sorted_wrt_mono_rel [OF _ so]) (use small in \<open>auto simp: transferKey_def posSuffix_less tkBefore_def\<close>)
  then show "sorted_wrt (<) (map fst ?es)" by (simp add: sorted_wrt_map sorted_wrt_filter)
  have "HasPrefix k (tkPrefix T x) \<and> view (db s) k = Some v \<longleftrightarrow>
      (\<exists>t\<in>set ts. x \<in> set (tkIdx T t) \<and> k = transferKey T x t \<and> v = hashBytes (tkHash T t))" for k v
    using assms unfolding transfer_inv_def by blast
  then show "(k, v) \<in> set ?es \<longleftrightarrow> HasPrefix k (tkPrefix T x) \<and> view (db s) k = Some v" for k v
    by auto
  show "k < tkPrefix T x @ [byteChar 255]" if "(k, v) \<in> set ?es" for k v
    using that posSuffix_below_ff by (auto simp: transferKey_def)
qed

lemma transferEntry_stored:
  assumes "transfer_inv T view s ts" "t \<in> set ts" "\<not> closed s"
  shows "transferEntry G load (transferKey T x t, hashBytes (tkHash T t)) s = (Inr (Some t), s)"
proof -
  obtain e where e: "tkEnc T t = Some e" "view (db s) (tkDataKey T (tkHash T t) (tkLog T t)) = Some e"
    and small: "unat (tkLog T t) < 10 ^ 6"
    using assms(1,2) unfolding transfer_inv_def by blast
  have "hashBytes (tkHash T t) \<noteq> []" by (simp add: hashBytes_def flip: length_0_conv)
  moreover have "drop (length (transferKey T x t) - 6) (transferKey T x t) = padDec 6 (unat (tkLog T t)) @ []"
    using small by (simp add: transferKey_def posSuffix_def padDec6)
  moreover have "scanUint 6 (padDec 6 (unat (tkLog T t)) @ []) = Some (tkLog T t, [])"
    using small by (intro scanUint_padDec) (simp_all add: padDec6)
  moreover have "bytesToHash G (hashBytes h) = h" for h by (simp add: hashBytes_def bytesToHash)
  ultimately show ?thesis using load_stored [OF assms(3) e] by (simp add: transferEntry_def)
qed

theorem index_query:
  assumes "transfer_inv T view s ts" "\<not> closed s"
  shows "pagedQuery P (tkPrefix T x) (transferEntry G load) limit offset s =
    (Inr (take (nat (clampLimit limit)) (drop (nat (clampOffset offset))
      (filter (\<lambda>t. x \<in> set (tkIdx T t)) ts))), s)"
proof -
  have "transferEntry G load (transferKey T x t, hashBytes (tkHash T t)) s = (Inr (Some (id t)), s)"
    if "t \<in> set (filter (\<lambda>t. x \<in> set (tkIdx T t)) ts)" for t
    using transferEntry_stored [OF assms(1) _ assms(2)] that by simp
  then show ?thesis
    using pagedQuery_eq [where g = id, OF assms(2) index_scan_transfers [OF assms(1), of x],
        of "transferEntry G load" limit offset] by simp
qed

lemma sorted_transfers_inj:
  assumes "sorted_wrt (tkBefore T) ts" "t \<in> set ts" "u \<in> set ts" "tkBlock T t = tkBlock T u" "tkLog T t = tkLog T u"
  shows "t = u"
proof (rule ccontr)
  assume "t \<noteq> u"
  obtain i j where ij: "i < length ts" "j < length ts" "ts ! i = t" "ts ! j = u"
    using assms(2,3) by (auto simp: in_set_conv_nth)
  with \<open>t \<noteq> u\<close> have "i \<noteq> j" by blast
  then have "i < j \<or> j < i" by linarith
  then have "tkBefore T t u \<or> tkBefore T u t" using ij assms(1) by (auto simp: sorted_wrt_iff_nth_less)
  then show False using assms(4,5) by (auto simp: tkBefore_def)
qed

text \<open>Operations that leave the transfers alone.\<close>

definition foreign :: "batch_op \<Rightarrow> bool" where
  "foreign op \<longleftrightarrow> (let k = (case op of BSet k v \<Rightarrow> k | BDelete k \<Rightarrow> k) in
     (\<forall>x. \<not> HasPrefix k (tkPrefix T x)) \<and> (\<forall>h i. k \<noteq> tkDataKey T h i))"

lemma apply_foreign:
  assumes "\<forall>op\<in>set extra. foreign op"
  shows "HasPrefix k (tkPrefix T x) \<Longrightarrow> apply_ops m extra k = m k"
    and "apply_ops m extra (tkDataKey T h i) = m (tkDataKey T h i)"
proof -
  have "\<not> foreign (BSet k v)" "\<not> foreign (BDelete k)" if "HasPrefix k (tkPrefix T x)" for v
    using that by (auto simp: foreign_def)
  then show "HasPrefix k (tkPrefix T x) \<Longrightarrow> apply_ops m extra k = m k"
    using assms by (intro apply_ops_other) blast+
  have "\<not> foreign (BSet (tkDataKey T h i) v)" "\<not> foreign (BDelete (tkDataKey T h i))" for v
    by (auto simp: foreign_def Let_def)
  then show "apply_ops m extra (tkDataKey T h i) = m (tkDataKey T h i)"
    using assms by (intro apply_ops_other) blast+
qed

theorem save_extends:
  assumes inv: "transfer_inv T view s ts"
    and v: "view (db s') = apply_ops (view (db s)) (transferOps T t @ extra)"
    and t: "tkEnc T t \<noteq> None" "unat (tkLog T t) < 10 ^ 6"
    and ts': "sorted_wrt (tkBefore T) ts'" "set ts' = insert t (set ts)"
    and uniq: "\<forall>u\<in>set ts. tkHash T u = tkHash T t \<and> tkLog T u = tkLog T t \<longrightarrow> u = t"
    and extra: "\<forall>op\<in>set extra. foreign op"
  shows "transfer_inv T view s' ts'"
proof -
  let ?D = "\<lambda>u. tkDataKey T (tkHash T u) (tkLog T u)"
  let ?ops = "transferOps T t"
  have noD: "BDelete k \<notin> set ?ops" for k by (auto simp: transferOps_def)
  have st: "\<forall>u\<in>set ts. unat (tkLog T u) < 10 ^ 6 \<and> (\<exists>e. tkEnc T u = Some e \<and> view (db s) (?D u) = Some e)"
    using inv unfolding transfer_inv_def by blast
  have key_no_data: "?D u \<noteq> transferKey T x w" for u x w
    using data_no_index [of "tkHash T u" "tkLog T u" x] transferKey_prefix [of x w x] by metis
  have data: "\<exists>e. tkEnc T u = Some e \<and> view (db s') (?D u) = Some e" if u: "u \<in> set ts'" for u
  proof (cases "?D u = ?D t")
    case True
    then have "u = t" using u ts'(2) uniq st t(2) data_inject [of "tkLog T u" "tkLog T t"] by auto
    obtain e where e: "tkEnc T t = Some e" using t(1) by auto
    have "apply_ops (view (db s)) ?ops (?D t) = Some e"
      using e key_no_data noD by (intro apply_ops_set) (auto simp: transferOps_def)
    with \<open>u = t\<close> e v apply_foreign(2) [OF extra] show ?thesis by simp
  next
    case False
    then have "u \<in> set ts" using u ts'(2) by auto
    moreover have "apply_ops (view (db s)) ?ops (?D u) = view (db s) (?D u)"
      using False key_no_data noD by (intro apply_ops_other) (auto simp: transferOps_def)
    ultimately show ?thesis using st v apply_foreign(2) [OF extra] by simp
  qed
  have idx: "HasPrefix k (tkPrefix T x) \<and> view (db s) k = Some w \<longleftrightarrow>
      (\<exists>u\<in>set ts. x \<in> set (tkIdx T u) \<and> k = transferKey T x u \<and> w = hashBytes (tkHash T u))" for x k w
    using inv unfolding transfer_inv_def by blast
  have small: "\<forall>u\<in>set ts'. unat (tkLog T u) < 10 ^ 6" using st t(2) ts'(2) by auto
  have same: "u = t" if "u \<in> set ts'" "transferKey T x u = transferKey T x t" for u x
    using that small t(2) ts'(2) sorted_transfers_inj [OF ts'(1) that(1), of t]
    by (auto simp: transferKey_def posSuffix_def padDec6 eqlen_append_inject)
  have "HasPrefix k (tkPrefix T x) \<and> view (db s') k = Some w \<longleftrightarrow>
      (\<exists>u\<in>set ts'. x \<in> set (tkIdx T u) \<and> k = transferKey T x u \<and> w = hashBytes (tkHash T u))" for x k w
  proof (cases "x \<in> set (tkIdx T t) \<and> k = transferKey T x t")
    case True
    then have hp: "HasPrefix k (tkPrefix T x)" using transferKey_prefix by simp
    have "k \<noteq> ?D t" using hp data_no_index by blast
    then have "\<forall>val. BSet k val \<in> set ?ops \<longrightarrow> val = hashBytes (tkHash T t)"
      by (auto simp: transferOps_def)
    moreover have "BSet k (hashBytes (tkHash T t)) \<in> set ?ops" using True by (auto simp: transferOps_def)
    ultimately have "apply_ops (view (db s)) ?ops k = Some (hashBytes (tkHash T t))"
      using apply_ops_set [OF _ _ noD] by blast
    then have "view (db s') k = Some (hashBytes (tkHash T t))" using v apply_foreign(1) [OF extra hp] by simp
    moreover have "(\<exists>u\<in>set ts'. x \<in> set (tkIdx T u) \<and> k = transferKey T x u \<and> w = hashBytes (tkHash T u)) \<longleftrightarrow>
        w = hashBytes (tkHash T t)"
      using True ts'(2) same [of _ x] by fastforce
    ultimately show ?thesis using hp by auto
  next
    case False
    have "view (db s') k = view (db s) k" if hp: "HasPrefix k (tkPrefix T x)"
    proof -
      have "k \<noteq> transferKey T y t" if "y \<in> set (tkIdx T t)" for y
        using that hp False transferKey_prefix [of y t x] by auto
      moreover have "k \<noteq> ?D t" using hp data_no_index by blast
      ultimately have "apply_ops (view (db s)) ?ops k = view (db s) k"
        using noD by (intro apply_ops_other) (auto simp: transferOps_def)
      then show ?thesis using v apply_foreign(1) [OF extra hp] by simp
    qed
    with False ts'(2) idx [of k x w] transferKey_prefix [of x] show ?thesis by auto
  qed
  with data small ts'(1) show ?thesis unfolding transfer_inv_def by blast
qed

end

section \<open>The two standards\<close>

definition erc20Kind :: "geth \<Rightarrow> addrJson \<Rightarrow> ERC20Transfer transferKind" where
  "erc20Kind G J = \<lparr>tkHash = e20TransactionHash, tkBlock = e20BlockNumber, tkLog = e20LogIndex,
     tkIdx = (\<lambda>t. [OfToken (e20ContractAddress t), OfFrom (e20From t), OfTo (e20To t)]),
     tkPrefix = (\<lambda>x. case x of OfToken a \<Rightarrow> ERC20TokenIndexKeyPrefix G a | OfFrom a \<Rightarrow> ERC20FromIndexKeyPrefix G a
       | OfTo a \<Rightarrow> ERC20ToIndexKeyPrefix G a),
     tkDataKey = ERC20TransferKey G, tkEnc = json20 J\<rparr>"

definition erc721Kind :: "geth \<Rightarrow> addrJson \<Rightarrow> ERC721Transfer transferKind" where
  "erc721Kind G J = \<lparr>tkHash = e721TransactionHash, tkBlock = e721BlockNumber, tkLog = e721LogIndex,
     tkIdx = (\<lambda>t. [OfToken (e721ContractAddress t), OfFrom (e721From t), OfTo (e721To t)]),
     tkPrefix = (\<lambda>x. case x of OfToken a \<Rightarrow> ERC721TokenIndexKeyPrefix G a | OfFrom a \<Rightarrow> ERC721FromIndexKeyPrefix G a
       | OfTo a \<Rightarrow> ERC721ToIndexKeyPrefix G a),
     tkDataKey = ERC721TransferKey G, tkEnc = json721 J\<rparr>"

locale addr_store = pebble_db P view + geth_codec G + addr_json J
  for P :: "'db pebble" and view and G and J

lemma addr_store_intro: "pebble_db P view \<Longrightarrow> geth_codec G \<Longrightarrow> addr_json J \<Longrightarrow> addr_store P view G J"
  by (simp add: addr_store_def)

lemmas erc_keys = erc20Kind_def erc721Kind_def ERC20TokenIndexKeyPrefix_def ERC20FromIndexKeyPrefix_def
  ERC20ToIndexKeyPrefix_def ERC20TransferKey_def ERC721TokenIndexKeyPrefix_def ERC721FromIndexKeyPrefix_def
  ERC721ToIndexKeyPrefix_def ERC721TransferKey_def prefixIdxERC20Token_def prefixIdxERC20From_def prefixIdxERC20To_def
  prefixERC20Transfer_def prefixIdxERC721Token_def prefixIdxERC721From_def prefixIdxERC721To_def prefixERC721Transfer_def

sublocale addr_store \<subseteq> erc20: transfer_store P view G "erc20Kind G J" "GetERC20Transfer P G J"
proof
  show "tkPrefix (erc20Kind G J) x @ a = tkPrefix (erc20Kind G J) y @ b \<Longrightarrow> x = y \<and> a = b" for x y a b
    by (cases x; cases y) (simp_all add: erc_keys)
  show "\<not> HasPrefix (tkDataKey (erc20Kind G J) h i) (tkPrefix (erc20Kind G J) x)" for h i x
    by (cases x) (simp_all add: erc_keys HasPrefix_def)
  show "h = h' \<and> i = j" if "unat i < 10 ^ 6" "unat j < 10 ^ 6"
    "tkDataKey (erc20Kind G J) h i = tkDataKey (erc20Kind G J) h' j" for h h' i j
    using that by (simp add: erc_keys padDec6)
  show "GetERC20Transfer P G J (tkHash (erc20Kind G J) t) (tkLog (erc20Kind G J) t) s = (Inr t, s)"
    if "\<not> closed s" "tkEnc (erc20Kind G J) t = Some e"
      "view (db s) (tkDataKey (erc20Kind G J) (tkHash (erc20Kind G J) t) (tkLog (erc20Kind G J) t)) = Some e" for s t e
    using that json_20 [of t e]
    by (simp add: GetERC20Transfer_def erc20Kind_def guard_simps getKey_eq andThen_def unmarshal_def fromOption_def)
qed

sublocale addr_store \<subseteq> erc721: transfer_store P view G "erc721Kind G J" "GetERC721Transfer P G J"
proof
  show "tkPrefix (erc721Kind G J) x @ a = tkPrefix (erc721Kind G J) y @ b \<Longrightarrow> x = y \<and> a = b" for x y a b
    by (cases x; cases y) (simp_all add: erc_keys)
  show "\<not> HasPrefix (tkDataKey (erc721Kind G J) h i) (tkPrefix (erc721Kind G J) x)" for h i x
    by (cases x) (simp_all add: erc_keys HasPrefix_def)
  show "h = h' \<and> i = j" if "unat i < 10 ^ 6" "unat j < 10 ^ 6"
    "tkDataKey (erc721Kind G J) h i = tkDataKey (erc721Kind G J) h' j" for h h' i j
    using that by (simp add: erc_keys padDec6)
  show "GetERC721Transfer P G J (tkHash (erc721Kind G J) t) (tkLog (erc721Kind G J) t) s = (Inr t, s)"
    if "\<not> closed s" "tkEnc (erc721Kind G J) t = Some e"
      "view (db s) (tkDataKey (erc721Kind G J) (tkHash (erc721Kind G J) t) (tkLog (erc721Kind G J) t)) = Some e" for s t e
    using that json_721 [of t e]
    by (simp add: GetERC721Transfer_def erc721Kind_def guard_simps getKey_eq andThen_def unmarshal_def fromOption_def)
qed

context addr_store
begin

lemmas erc20_store = erc20.transfer_store_axioms

lemmas erc721_store = erc721.transfer_store_axioms

end

text \<open>
  What the writers commit. Everything before the commit leaves the storage alone, so a writer that
  fails has changed no key.
\<close>

definition fails_clean :: "('db \<Rightarrow> bytes \<Rightarrow> bytes option) \<Rightarrow> ('db storage, 'a) op \<Rightarrow> bool" where
  "fails_clean view m \<longleftrightarrow> (\<forall>s e s'. m s = (Inl e, s') \<longrightarrow> view (db s') = view (db s))"

lemma fails_clean_throw [inv_intros]: "fails_clean view (throw e)"
  by (simp add: fails_clean_def)

lemma fails_clean_ret [inv_intros]: "fails_clean view (ret x)"
  by (simp add: fails_clean_def)

lemma fails_clean_andThen [inv_intros]:
  "reads m \<Longrightarrow> (\<And>x. fails_clean view (f x)) \<Longrightarrow> fails_clean view (andThen m f)"
  unfolding fails_clean_def keeps_def by (auto simp: andThen_eq_Inl) (metis snd_conv)+

lemma fails_clean_wrapping [inv_intros]: "fails_clean view m \<Longrightarrow> fails_clean view (wrapping msg m)"
  by (auto simp: fails_clean_def wrapping_eq_Inl)

lemma reads_batchAdd [inv_intros]: "reads (batchAdd P ops x)"
  by (auto simp: keeps_def batchAdd_def split: sum.splits)

lemma reads_batchAll [inv_intros]: "reads (batchAll P xs ops)"
proof (induction P xs ops rule: batchAll.induct)
  case (2 P msg x xs ops)
  then show ?case unfolding batchAll.simps by (intro inv_intros) auto
qed (simp add: keeps_def)

context pebble_db
begin

lemma fails_clean_dbCommit [inv_intros]: "fails_clean view (dbCommit P ops)"
  using dbCommit_Inl by (auto simp: fails_clean_def)

lemma SaveERC20Transfer_clean: "fails_clean view (SaveERC20Transfer P G J x)"
  unfolding SaveERC20Transfer_def Let_def
  by (auto intro!: inv_intros simp del: batchAll.simps split: option.splits)

lemma SaveERC721Transfer_clean: "fails_clean view (SaveERC721Transfer P G J x)"
  unfolding SaveERC721Transfer_def Let_def
  by (auto intro!: inv_intros simp del: batchAll.simps split: option.splits)

lemma SaveContractCreation_clean: "fails_clean view (SaveContractCreation P G J x)"
  unfolding SaveContractCreation_def
  by (auto intro!: inv_intros simp del: batchAll.simps split: option.splits)

end

lemma SaveERC20Transfer_Inr:
  assumes "pebble_db P view" "SaveERC20Transfer P G J (Some t) s = (Inr u, s')"
  shows "view (db s') = apply_ops (view (db s)) (transferOps (erc20Kind G J) t) \<and> json20 J t \<noteq> None \<and> only_db s s'"
proof -
  obtain e ops where e: "json20 J t = Some e"
    and b: "batchAll P
             [(''failed to save ERC20 transfer data'', BSet (ERC20TransferKey G (e20TransactionHash t) (e20LogIndex t)) e),
              (''failed to save token index'', BSet (ERC20TokenIndexKey G (e20ContractAddress t) (e20BlockNumber t) (e20LogIndex t)) (hashBytes (e20TransactionHash t))),
              (''failed to save from index'', BSet (ERC20FromIndexKey G (e20From t) (e20BlockNumber t) (e20LogIndex t)) (hashBytes (e20TransactionHash t))),
              (''failed to save to index'', BSet (ERC20ToIndexKey G (e20To t) (e20BlockNumber t) (e20LogIndex t)) (hashBytes (e20TransactionHash t)))] [] s = (Inr ops, s)"
    and c: "dbCommit P ops s = (Inr (), s')"
    using assms(2) batchAll_Inr [OF assms(1)]
    by (fastforce simp: SaveERC20Transfer_def guard_simps andThen_eq_Inr Let_def split: if_splits simp del: batchAll.simps)
  have "ops = transferOps (erc20Kind G J) t"
    using batchAll_Inr [OF assms(1) b] e
    by (simp add: transferOps_def erc20Kind_def transferKey_def posSuffix_def ERC20TokenIndexKey_def ERC20TokenIndexKeyPrefix_def
        ERC20FromIndexKey_def ERC20FromIndexKeyPrefix_def ERC20ToIndexKey_def ERC20ToIndexKeyPrefix_def)
  with e pebble_db.dbCommit_Inr [OF assms(1) c] show ?thesis by auto
qed

definition ownerOps :: "geth \<Rightarrow> ERC721Transfer \<Rightarrow> int \<Rightarrow> batch_op list" where
  "ownerOps G t n =
     [BSet (ERC721TokenOwnerKey G (e721ContractAddress t) (showInt n)) (addrBytes G (e721To t))] @
     (if e721From t \<noteq> 0 then [BDelete (ERC721OwnerIndexKey G (e721From t) (e721ContractAddress t) (showInt n))] else []) @
     (if e721To t \<noteq> 0 then [BSet (ERC721OwnerIndexKey G (e721To t) (e721ContractAddress t) (showInt n)) indexMark] else [])"

lemma SaveERC721Transfer_Inr:
  assumes "pebble_db P view" "SaveERC721Transfer P G J (Some t) s = (Inr u, s')" "e721TokenId t = Some n"
    and "\<forall>ops k. \<exists>ops'. pb_record P ops (BDelete k) = Inr ops'"
  shows "view (db s') = apply_ops (view (db s)) (transferOps (erc721Kind G J) t @ ownerOps G t n) \<and>
    json721 J t \<noteq> None \<and> only_db s s'"
proof -
  let ?h = "e721TransactionHash t" and ?b = "e721BlockNumber t" and ?i = "e721LogIndex t" and ?c = "e721ContractAddress t"
  let ?del = "BDelete (ERC721OwnerIndexKey G (e721From t) ?c (showInt n))"
  let ?xs = "\<lambda>e. [(''failed to save ERC721 transfer data'', BSet (ERC721TransferKey G ?h ?i) e),
              (''failed to save token index'', BSet (ERC721TokenIndexKey G ?c ?b ?i) (hashBytes ?h)),
              (''failed to save from index'', BSet (ERC721FromIndexKey G (e721From t) ?b ?i) (hashBytes ?h)),
              (''failed to save to index'', BSet (ERC721ToIndexKey G (e721To t) ?b ?i) (hashBytes ?h)),
              (''failed to save owner index'', BSet (ERC721TokenOwnerKey G ?c (showInt n)) (addrBytes G (e721To t)))]"
  let ?drop = "\<lambda>o1. if e721From t \<noteq> 0 then catch (batchAdd P o1 ?del) (\<lambda>e. ret o1) else ret o1"
  let ?new = "\<lambda>o2. if e721To t \<noteq> 0 then wrapping ''failed to save new owner index''
       (batchAdd P o2 (BSet (ERC721OwnerIndexKey G (e721To t) ?c (showInt n)) indexMark)) else ret o2"
  obtain e o1 o2 o3 s1 s2 s3 where e: "json721 J t = Some e" and b: "batchAll P (?xs e) [] s = (Inr o1, s1)"
    and d: "?drop o1 s1 = (Inr o2, s2)" and n: "?new o2 s2 = (Inr o3, s3)" and c: "dbCommit P o3 s3 = (Inr u, s')"
    using assms(2,3)
    by (fastforce simp: SaveERC721Transfer_def guard_simps andThen_eq_Inr Let_def simp del: batchAll.simps split: if_splits)
  have rd: "s2 = s1" if "reads m" "m s1 = (Inr o2, s2)" for m :: "('a storage, batch_op list) op" and o2 s1 s2
    using that unfolding keeps_def by (metis snd_conv)
  have "s1 = s" using batchAll_Inr [OF assms(1) b] by simp
  moreover have "s2 = s1" by (rule rd [of "?drop o1", OF _ d]) (auto intro!: inv_intros)
  moreover have "s3 = s2" by (rule rd [of "?new o2", OF _ n]) (auto intro!: inv_intros)
  ultimately have st: "s1 = s" "s2 = s" "s3 = s" by simp_all
  have 1: "o1 = transferOps (erc721Kind G J) t @ [BSet (ERC721TokenOwnerKey G ?c (showInt n)) (addrBytes G (e721To t))]"
    using batchAll_Inr [OF assms(1) b] e
    by (simp add: transferOps_def erc721Kind_def transferKey_def posSuffix_def ERC721TokenIndexKey_def ERC721TokenIndexKeyPrefix_def
        ERC721FromIndexKey_def ERC721FromIndexKeyPrefix_def ERC721ToIndexKey_def ERC721ToIndexKeyPrefix_def)
  obtain o' where "pb_record P o1 ?del = Inr o'" using assms(4) by blast
  then have 2: "o2 = o1 @ (if e721From t \<noteq> 0 then [?del] else [])"
    using d pebble_db.record_ok [OF assms(1)] by (auto simp: catch_def batchAdd_def split: if_splits)
  have 3: "o3 = o2 @ (if e721To t \<noteq> 0 then [BSet (ERC721OwnerIndexKey G (e721To t) ?c (showInt n)) indexMark] else [])"
    using n by (auto split: if_splits dest!: pebble_db.batchAdd_Inr [OF assms(1)])
  show ?thesis using pebble_db.dbCommit_Inr [OF assms(1) c] e by (simp add: 1 2 3 st ownerOps_def)
qed

section \<open>Who owns which token\<close>

lemma showInt_inject [simp]: "showInt n = showInt m \<longleftrightarrow> n = m"
proof -
  have "showDec k \<noteq> CHR ''-'' # r" for k r
    using readDec_showDec [of k] by (auto simp: byteVal_def)
  then show ?thesis by (auto simp: showInt_def dest: sym)
qed

lemma showInt_no_slash: "CHR ''/'' \<notin> set (showInt n)"
  by (simp add: showInt_def)

lemma SetString_showInt: "SetString (showInt n) = Some n"
proof (cases "n < 0")
  case True
  then show ?thesis by (simp add: SetString_def showInt_def readDec_showDec)
next
  case False
  obtain c cs where c: "showDec (nat n) = c # cs" using showBase_nonempty by (cases "showDec (nat n)") auto
  then have "isDecDigit c" using readDec_digits [OF readDec_showDec, of c "nat n"] by simp
  then have "c \<noteq> CHR ''-''" "c \<noteq> CHR ''+''" by (auto simp: isDecDigit_def byteVal_def)
  moreover have "readDec 0 (c # cs) = Some (nat n)" using readDec_showDec [of "nat n"] c by simp
  ultimately show ?thesis using False c by (simp add: SetString_def showInt_def del: readDec.simps)
qed

lemma splitNFTKey_key:
  assumes "geth_codec G"
  shows "splitNFTKey (addrHex G c @ ''/'' @ showInt n) = Some (addrHex G c, showInt n)"
proof -
  have t: "takeWhile (\<lambda>c. c \<noteq> CHR ''/'') (rev (addrHex G c @ ''/'' @ showInt n)) = rev (showInt n)"
    using showInt_no_slash by (simp add: takeWhile_append)
  then show ?thesis using geth_codec.addrHex_len [OF assms, of c] by (simp add: splitNFTKey_def Let_def)
qed

text \<open>
  \<open>owner_inv G view s own\<close>: \<open>own\<close> gives the owner of every token that was ever transferred (the zero
  address when it was burnt), and the two owner indexes both say so.
\<close>

definition owner_inv :: "geth \<Rightarrow> ('db \<Rightarrow> bytes \<Rightarrow> bytes option) \<Rightarrow> 'db storage \<Rightarrow> (address \<times> int \<Rightarrow> address option) \<Rightarrow> bool" where
  "owner_inv G view s own \<longleftrightarrow>
     (\<forall>c n. view (db s) (ERC721TokenOwnerKey G c (showInt n)) = map_option (addrBytes G) (own (c, n))) \<and>
     (\<forall>a k v. HasPrefix k (ERC721OwnerIndexKeyPrefix G a) \<and> view (db s) k = Some v \<longleftrightarrow>
        (\<exists>c n. own (c, n) = Some a \<and> a \<noteq> 0 \<and> k = ERC721OwnerIndexKey G a c (showInt n) \<and> v = indexMark))"

lemmas owner_keys = ERC721TokenOwnerKey_def ERC721OwnerIndexKey_def ERC721OwnerIndexKeyPrefix_def
  prefixIdxERC721TokenOwner_def prefixIdxERC721Owner_def

context geth_codec
begin

lemma owner_key_inject:
  "ERC721OwnerIndexKey G a c (showInt n) = ERC721OwnerIndexKey G a' c' (showInt n') \<longleftrightarrow> a = a' \<and> c = c' \<and> n = n'"
  "ERC721TokenOwnerKey G c (showInt n) = ERC721TokenOwnerKey G c' (showInt n') \<longleftrightarrow> c = c' \<and> n = n'"
  "ERC721TokenOwnerKey G c (showInt n) \<noteq> ERC721OwnerIndexKey G a' c' (showInt n')"
  by (auto simp: owner_keys)

lemma owner_key_prefix:
  "HasPrefix (ERC721OwnerIndexKey G a c x) (ERC721OwnerIndexKeyPrefix G b) \<longleftrightarrow> a = b"
  "\<not> HasPrefix (ERC721TokenOwnerKey G c x) (ERC721OwnerIndexKeyPrefix G b)"
  by (auto simp: HasPrefix_def owner_keys prefix_def)

end

lemma owner_ops_effect:
  assumes "geth_codec G"
  shows "apply_ops m (transferOps (erc721Kind G J) t @ ownerOps G t n) (ERC721TokenOwnerKey G c (showInt k)) =
      (if c = e721ContractAddress t \<and> k = n then Some (addrBytes G (e721To t)) else m (ERC721TokenOwnerKey G c (showInt k)))"
    and "HasPrefix key (ERC721OwnerIndexKeyPrefix G a) \<Longrightarrow>
      apply_ops m (transferOps (erc721Kind G J) t @ ownerOps G t n) key =
      (if key = ERC721OwnerIndexKey G (e721To t) (e721ContractAddress t) (showInt n) \<and> e721To t \<noteq> 0 then Some indexMark
       else if key = ERC721OwnerIndexKey G (e721From t) (e721ContractAddress t) (showInt n) \<and> e721From t \<noteq> 0 then None
       else m key)"
proof -
  let ?ops = "transferOps (erc721Kind G J) t"
  have other: "apply_ops m ?ops key = m key" if "HasPrefix key ''/index/erc721/tokenowner/'' \<or> HasPrefix key ''/index/erc721/owner/''" for key
    using that by (intro apply_ops_other) (auto simp: transferOps_def transferKey_def erc_keys HasPrefix_def)
  have tok: "HasPrefix (ERC721TokenOwnerKey G c (showInt k)) ''/index/erc721/tokenowner/''" for c k
    by (simp add: HasPrefix_def owner_keys)
  show "apply_ops m (?ops @ ownerOps G t n) (ERC721TokenOwnerKey G c (showInt k)) =
      (if c = e721ContractAddress t \<and> k = n then Some (addrBytes G (e721To t)) else m (ERC721TokenOwnerKey G c (showInt k)))"
    using other [of "ERC721TokenOwnerKey G c (showInt k)"] tok geth_codec.owner_key_inject [OF assms]
    by (auto simp: ownerOps_def)
  have idx: "HasPrefix key ''/index/erc721/owner/''" if "HasPrefix key (ERC721OwnerIndexKeyPrefix G a)"
    using that by (auto simp: HasPrefix_def owner_keys prefix_def)
  have "key \<noteq> ERC721TokenOwnerKey G c x" if "HasPrefix key (ERC721OwnerIndexKeyPrefix G a)" for c x
    using that geth_codec.owner_key_prefix(2) [OF assms] by blast
  then show "HasPrefix key (ERC721OwnerIndexKeyPrefix G a) \<Longrightarrow> apply_ops m (?ops @ ownerOps G t n) key =
      (if key = ERC721OwnerIndexKey G (e721To t) (e721ContractAddress t) (showInt n) \<and> e721To t \<noteq> 0 then Some indexMark
       else if key = ERC721OwnerIndexKey G (e721From t) (e721ContractAddress t) (showInt n) \<and> e721From t \<noteq> 0 then None
       else m key)"
    using other [of key] idx by (auto simp: ownerOps_def)
qed

lemma owner_inv_step:
  assumes "geth_codec G" "owner_inv G view s own"
    and v: "view (db s') = apply_ops (view (db s)) (transferOps (erc721Kind G J) t @ ownerOps G t n)"
    and prev: "own (e721ContractAddress t, n) = (if e721From t = 0 then None else Some (e721From t))"
  shows "owner_inv G view s' (own((e721ContractAddress t, n) \<mapsto> e721To t))"
proof -
  let ?c = "e721ContractAddress t" and ?own' = "own((e721ContractAddress t, n) \<mapsto> e721To t)"
  note eff = owner_ops_effect [OF assms(1)]
  have fwd: "view (db s) (ERC721TokenOwnerKey G c (showInt k)) = map_option (addrBytes G) (own (c, k))" for c k
    using assms(2) by (simp add: owner_inv_def)
  have rev: "HasPrefix k (ERC721OwnerIndexKeyPrefix G a) \<and> view (db s) k = Some w \<longleftrightarrow>
      (\<exists>c m. own (c, m) = Some a \<and> a \<noteq> 0 \<and> k = ERC721OwnerIndexKey G a c (showInt m) \<and> w = indexMark)" for a k w
    using assms(2) unfolding owner_inv_def by blast
  have "HasPrefix k (ERC721OwnerIndexKeyPrefix G a) \<and> view (db s') k = Some w \<longleftrightarrow>
      (\<exists>c m. ?own' (c, m) = Some a \<and> a \<noteq> 0 \<and> k = ERC721OwnerIndexKey G a c (showInt m) \<and> w = indexMark)" for a k w
  proof (cases "HasPrefix k (ERC721OwnerIndexKeyPrefix G a)")
    case True
    note inj = geth_codec.owner_key_inject(1) [OF assms(1)] and pre = geth_codec.owner_key_prefix(1) [OF assms(1)]
    consider (new) "k = ERC721OwnerIndexKey G (e721To t) ?c (showInt n)" "e721To t \<noteq> 0"
      | (old) "k = ERC721OwnerIndexKey G (e721From t) ?c (showInt n)" "e721From t \<noteq> 0"
          "\<not> (k = ERC721OwnerIndexKey G (e721To t) ?c (showInt n) \<and> e721To t \<noteq> 0)"
      | (other) "\<not> (k = ERC721OwnerIndexKey G (e721To t) ?c (showInt n) \<and> e721To t \<noteq> 0)"
          "\<not> (k = ERC721OwnerIndexKey G (e721From t) ?c (showInt n) \<and> e721From t \<noteq> 0)" by blast
    then show ?thesis
    proof cases
      case new
      then show ?thesis using True eff(2) [OF True] v by (auto simp: inj pre)
    next
      case old
      then show ?thesis using True eff(2) [OF True] v by (auto simp: inj pre)
    next
      case other
      then have "view (db s') k = view (db s) k" using eff(2) [OF True] v by auto
      moreover have "?own' (c, m) = Some a \<longleftrightarrow> own (c, m) = Some a"
        if "k = ERC721OwnerIndexKey G a c (showInt m)" "a \<noteq> 0" for c m
        using other prev that by (auto split: if_splits)
      then have "(\<exists>c m. ?own' (c, m) = Some a \<and> a \<noteq> 0 \<and> k = ERC721OwnerIndexKey G a c (showInt m) \<and> w = indexMark) \<longleftrightarrow>
          (\<exists>c m. own (c, m) = Some a \<and> a \<noteq> 0 \<and> k = ERC721OwnerIndexKey G a c (showInt m) \<and> w = indexMark)"
        by blast
      ultimately show ?thesis using rev [of k a w] by simp
    qed
  next
    case False
    then show ?thesis using geth_codec.owner_key_prefix(1) [OF assms(1)] by auto
  qed
  moreover have "view (db s') (ERC721TokenOwnerKey G c (showInt k)) = map_option (addrBytes G) (?own' (c, k))" for c k
    using eff(1) [of "view (db s)" J t n c k] fwd v by auto
  ultimately show ?thesis unfolding owner_inv_def by blast
qed

text \<open>What the owner queries answer.\<close>

lemma GetERC721Owner_eq:
  assumes "pebble_db P view" "geth_codec G" "owner_inv G view s own" "\<not> closed s"
  shows "GetERC721Owner P G c (Some n) s = (case own (c, n) of None \<Rightarrow> Inl ErrNotFound | Some a \<Rightarrow> Inr a, s)"
proof -
  have "view (db s) (ERC721TokenOwnerKey G c (showInt n)) = map_option (addrBytes G) (own (c, n))"
    using assms(3) by (simp add: owner_inv_def)
  then show ?thesis using assms(4)
    by (cases "own (c, n)") (simp_all add: GetERC721Owner_def guard_simps andThen_def pebble_db.getKey_eq [OF assms(1)]
        geth_codec.bytesToAddr [OF assms(2)])
qed

lemma GetNFTsByOwner_eq:
  assumes "pebble_db P view" "geth_codec G" "owner_inv G view s own" "\<not> closed s" "a \<noteq> 0"
  shows "\<exists>xs. distinct xs \<and> set xs = {x. own x = Some a} \<and>
    GetNFTsByOwner P G a limit offset s = (Inr (take (nat (clampLimit limit)) (drop (nat (clampOffset offset))
      (map (\<lambda>(c, n). \<lparr>nftContractAddress = c, nftTokenId = n, nftOwner = a\<rparr>) xs))), s)"
proof -
  let ?p = "ERC721OwnerIndexKeyPrefix G a"
  let ?f = "\<lambda>x. (ERC721OwnerIndexKey G a (fst x) (showInt (snd x)), indexMark)"
  have idx: "HasPrefix k ?p \<and> view (db s) k = Some v \<longleftrightarrow>
      (\<exists>c n. own (c, n) = Some a \<and> a \<noteq> 0 \<and> k = ERC721OwnerIndexKey G a c (showInt n) \<and> v = indexMark)" for k v
    using assms(3) unfolding owner_inv_def by blast
  have key: "ERC721OwnerIndexKey G a c x = ?p @ addrHex G c @ ''/'' @ x" for c x
    by (simp add: ERC721OwnerIndexKey_def ERC721OwnerIndexKeyPrefix_def)
  have below: "addrHex G c @ r < [byteChar 255]" for c r
  proof -
    obtain d ds where d: "addrHex G c = d # ds"
      using geth_codec.addrHex_len [OF assms(2), of c] by (cases "addrHex G c") auto
    then have "byteVal d < 128" using geth_codec.addrHex_ascii [OF assms(2), of d c] by simp
    then show ?thesis using d by (simp add: char_less_iff)
  qed
  obtain es where it: "dbIter P (Some ?p) (Some (?p @ [byteChar 255])) s = (Inr (es, None), s)" "sorted_wrt (<) (map fst es)"
    "\<forall>k v. (k, v) \<in> set es \<longleftrightarrow> inRange (Some ?p) (Some (?p @ [byteChar 255])) k \<and> view (db s) k = Some v"
    using pebble_db.dbIter_eq [OF assms(1)] by blast
  have mem: "e \<in> set es \<longleftrightarrow> (\<exists>x. own x = Some a \<and> e = ?f x)" for e
  proof -
    obtain k v where e: "e = (k, v)" by fastforce
    have "inRange (Some ?p) (Some (?p @ [byteChar 255])) (?p @ addrHex G c @ r)" for c r
      using below [of c r] by (simp add: inRange_def prefix_imp_le)
    then show ?thesis unfolding e using it(3) idx [of k v] inRange_ff_prefix [of ?p k] assms(5) key by fastforce
  qed
  then have "\<forall>e\<in>set es. \<exists>x. e = ?f x" by blast
  then obtain xs where xs: "es = map ?f xs" unfolding ex_map_conv [symmetric] by blast
  have inj: "?f x = ?f y \<longleftrightarrow> x = y" for x y
    using geth_codec.owner_key_inject(1) [OF assms(2)] by (auto simp: prod_eq_iff)
  have "distinct (map fst es)" using it(2) by (simp add: strict_sorted_iff)
  then have "distinct xs" unfolding xs by (simp add: distinct_map)
  moreover have "x \<in> set xs \<longleftrightarrow> own x = Some a" for x
  proof -
    have "x \<in> set xs \<longleftrightarrow> ?f x \<in> set es" unfolding xs using inj by auto
    also have "\<dots> \<longleftrightarrow> own x = Some a" unfolding mem inj by blast
    finally show ?thesis .
  qed
  moreover have "scanPrefix P ?p s = (Inr (map ?f xs, None), s)"
    using it(1) xs by (simp add: scanPrefix_def wrapping_def)
  moreover have "nftEntry G ?p a (?f x) s =
      (Inr (Some (case x of (c, n) \<Rightarrow> \<lparr>nftContractAddress = c, nftTokenId = n, nftOwner = a\<rparr>)), s)" for x
    using splitNFTKey_key [OF assms(2), of "fst x" "snd x"]
    by (simp add: nftEntry_def key SetString_showInt geth_codec.hexToAddr [OF assms(2)] split: prod.splits)
  ultimately show ?thesis
    using pagedQuery_eq [OF assms(4), of P ?p ?f xs "nftEntry G ?p a"
        "\<lambda>(c, n). \<lparr>nftContractAddress = c, nftTokenId = n, nftOwner = a\<rparr>" limit offset]
    by (intro exI [of _ xs]) (auto simp: GetNFTsByOwner_def)
qed

section \<open>A reference instance\<close>

definition sample20 :: ERC20Transfer where
  "sample20 = \<lparr>e20ContractAddress = 8, e20From = 5, e20To = 6, e20Value = Some 30, e20TransactionHash = 21,
     e20BlockNumber = 7, e20LogIndex = 0, e20Timestamp = 1000\<rparr>"

definition sample721 :: ERC721Transfer where
  "sample721 = \<lparr>e721ContractAddress = 9, e721From = 0, e721To = 6, e721TokenId = Some 12, e721TransactionHash = 21,
     e721BlockNumber = 7, e721LogIndex = 1, e721Timestamp = 1000\<rparr>"

text \<open>A codec that knows one value of each type and refuses the others.\<close>

definition refJson :: "ContractCreation \<Rightarrow> InternalTransaction \<Rightarrow> ERC20Transfer \<Rightarrow> ERC721Transfer \<Rightarrow> addrJson" where
  "refJson c i t n =
     \<lparr>jsonCreation = (\<lambda>x. if x = c then Some ''C'' else None), unjsonCreation = (\<lambda>e. if e = ''C'' then Some c else None),
      jsonInternal = (\<lambda>x. if x = i then Some ''I'' else None), unjsonInternal = (\<lambda>e. if e = ''I'' then Some i else None),
      json20 = (\<lambda>x. if x = t then Some ''F'' else None), unjson20 = (\<lambda>e. if e = ''F'' then Some t else None),
      json721 = (\<lambda>x. if x = n then Some ''N'' else None), unjson721 = (\<lambda>e. if e = ''N'' then Some n else None)\<rparr>"

interpretation refJson: addr_json "refJson c i t n"
  by unfold_locales (auto simp: refJson_def split: if_splits)

definition sampleCreation :: ContractCreation where
  "sampleCreation = \<lparr>ccContractAddress = 33, ccCreator = 5, ccTransactionHash = 21, ccBlockNumber = 7, ccTimestamp = 1000,
     ccBytecodeSize = 20\<rparr>"

definition sampleInternal :: InternalTransaction where
  "sampleInternal = \<lparr>itTransactionHash = 21, itBlockNumber = 7, itIndex = 0, itType = ''CALL'', itFrom = 5, itTo = 6,
     itValue = Some 1, itGas = 0, itGasUsed = 0, itInput = [], itOutput = [], itError = [], itDepth = 0\<rparr>"

definition sampleJson :: addrJson where
  "sampleJson = refJson sampleCreation sampleInternal sample20 sample721"

lemma addr_json_sample: "addr_json sampleJson"
  by (simp add: sampleJson_def refJson.addr_json_axioms)

lemma addr_store_sample: "addr_store memPebble map_of sampleGeth sampleJson"
  by (rule addr_store_intro [OF memPebble.pebble_db_axioms geth_codec_sample addr_json_sample])

lemma transfer_inv_empty: "transfer_inv T map_of (emptyStorage ([] :: (bytes \<times> bytes) list)) []"
  by (simp add: transfer_inv_def emptyStorage_def)

lemma owner_inv_empty: "owner_inv G map_of (emptyStorage ([] :: (bytes \<times> bytes) list)) (\<lambda>_. None)"
  by (simp add: owner_inv_def emptyStorage_def)

definition sample20Stored :: "(serror + unit) \<times> (bytes \<times> bytes) list storage" where
  "sample20Stored = SaveERC20Transfer memPebble sampleGeth sampleJson (Some sample20) (emptyStorage [])"

definition sample721Stored :: "(serror + unit) \<times> (bytes \<times> bytes) list storage" where
  "sample721Stored = SaveERC721Transfer memPebble sampleGeth sampleJson (Some sample721) (emptyStorage [])"

lemma sample20Stored_ok: "fst sample20Stored = Inr ()" "\<not> closed (snd sample20Stored)"
  by (simp_all add: sample20Stored_def SaveERC20Transfer_def guard_simps emptyStorage_def andThen_def wrapping_def catch_def
      sample20_def sampleJson_def refJson_def fromOption_def Let_def batchAdd_def memPebble_def dbCommit_def liftWrite_def)

lemma sample721Stored_ok: "fst sample721Stored = Inr ()"
  by (simp add: sample721Stored_def SaveERC721Transfer_def guard_simps emptyStorage_def andThen_def wrapping_def catch_def
      sample721_def sampleJson_def refJson_def fromOption_def Let_def batchAdd_def memPebble_def dbCommit_def liftWrite_def)

lemma sample20_run: "SaveERC20Transfer memPebble sampleGeth sampleJson (Some sample20) (emptyStorage []) = (Inr (), snd sample20Stored)"
  using sample20Stored_ok(1) by (simp add: sample20Stored_def prod_eq_iff)

lemma sample20_inv: "transfer_inv (erc20Kind sampleGeth sampleJson) map_of (snd sample20Stored) [sample20]"
  by (rule transfer_store.save_extends [OF addr_store.erc20_store [OF addr_store_sample] transfer_inv_empty, of _ sample20 "[]"])
    (use SaveERC20Transfer_Inr [OF memPebble.pebble_db_axioms sample20_run] in \<open>auto simp: erc20Kind_def sample20_def\<close>)

lemma sample20_no721: "transfer_inv (erc721Kind sampleGeth sampleJson) map_of (snd sample20Stored) []"
proof -
  have v: "map_of (db (snd sample20Stored)) = apply_ops (\<lambda>_. None) (transferOps (erc20Kind sampleGeth sampleJson) sample20)"
    using SaveERC20Transfer_Inr [OF memPebble.pebble_db_axioms sample20_run] by (simp add: emptyStorage_def)
  have "map_of (db (snd sample20Stored)) k = None" if "HasPrefix k (tkPrefix (erc721Kind sampleGeth sampleJson) x)" for k x
    unfolding v using that
    by (intro trans [OF apply_ops_other]; cases x) (auto simp: transferOps_def transferKey_def erc_keys HasPrefix_def)
  then show ?thesis by (auto simp: transfer_inv_def)
qed

section \<open>Properties\<close>

text \<open>
  C25: the transfer queries are exact. With the transfers \<open>ts\<close> stored, the queries by token, by
  sender and by recipient return, for ERC-20 and for ERC-721, the page of the limit (at most 100,
  ten when none is given) and the offset out of exactly the matching transfers in block and log order.
\<close>

theorem token_transfers_exact:
  assumes "addr_store P view G J" "\<not> closed s"
    and "transfer_inv (erc20Kind G J) view s ts" "transfer_inv (erc721Kind G J) view s us"
  shows "GetERC20TransfersByToken P G J a limit offset s =
      (Inr (take (nat (clampLimit limit)) (drop (nat (clampOffset offset)) (filter (\<lambda>t. e20ContractAddress t = a) ts))), s) \<and>
    GetERC20TransfersByAddress P G J a isFrom limit offset s =
      (Inr (take (nat (clampLimit limit)) (drop (nat (clampOffset offset))
        (filter (\<lambda>t. (if isFrom then e20From t else e20To t) = a) ts))), s) \<and>
    GetERC721TransfersByToken P G J a limit offset s =
      (Inr (take (nat (clampLimit limit)) (drop (nat (clampOffset offset)) (filter (\<lambda>t. e721ContractAddress t = a) us))), s) \<and>
    GetERC721TransfersByAddress P G J a isFrom limit offset s =
      (Inr (take (nat (clampLimit limit)) (drop (nat (clampOffset offset))
        (filter (\<lambda>t. (if isFrom then e721From t else e721To t) = a) us))), s)"
proof -
  note q20 = transfer_store.index_query [OF addr_store.erc20_store [OF assms(1)] assms(3,2)]
  note q721 = transfer_store.index_query [OF addr_store.erc721_store [OF assms(1)] assms(4,2)]
  have flip: "(a = x) = (x = a)" for x :: address by auto
  show ?thesis
    using q20 [of "OfToken a" limit offset] q20 [of "OfFrom a" limit offset] q20 [of "OfTo a" limit offset]
      q721 [of "OfToken a" limit offset] q721 [of "OfFrom a" limit offset] q721 [of "OfTo a" limit offset]
    by (simp add: GetERC20TransfersByToken_def GetERC20TransfersByAddress_def GetERC721TransfersByToken_def
        GetERC721TransfersByAddress_def erc20Kind_def erc721Kind_def flip)
qed

text \<open>
  Saving an ERC-20 transfer keeps the transfer index exact. On success the stored transfers are
  the old ones and the new one, on failure nothing has changed. The log index is within the six
  digits of the keys, and a transaction and log index identify a transfer.
\<close>

theorem SaveERC20Transfer_indexes:
  assumes "addr_store P view G J" "transfer_inv (erc20Kind G J) view s ts"
    and "SaveERC20Transfer P G J (Some t) s = (r, s')" "unat (e20LogIndex t) < 10 ^ 6"
    and "sorted_wrt (tkBefore (erc20Kind G J)) ts'" "set ts' = insert t (set ts)"
    and "\<forall>u\<in>set ts. e20TransactionHash u = e20TransactionHash t \<and> e20LogIndex u = e20LogIndex t \<longrightarrow> u = t"
  shows "case r of Inl e \<Rightarrow> transfer_inv (erc20Kind G J) view s' ts | Inr _ \<Rightarrow> transfer_inv (erc20Kind G J) view s' ts'"
proof (cases r)
  case (Inl e)
  have "pebble_db P view" using assms(1) by (simp add: addr_store_def)
  then have "view (db s') = view (db s)"
    using pebble_db.SaveERC20Transfer_clean assms(3) Inl unfolding fails_clean_def by blast
  with Inl assms(2) show ?thesis by (simp add: transfer_inv_def)
next
  case (Inr u)
  have "pebble_db P view" using assms(1) by (simp add: addr_store_def)
  note w = SaveERC20Transfer_Inr [OF this assms(3) [unfolded Inr]]
  have "transfer_inv (erc20Kind G J) view s' ts'"
    by (rule transfer_store.save_extends [OF addr_store.erc20_store [OF assms(1)] assms(2), of _ t "[]"])
      (use w assms(4-7) in \<open>auto simp: erc20Kind_def\<close>)
  with Inr show ?thesis by simp
qed

text \<open>
  Ownership of tokens. When a transfer of a token by its current owner (the zero address for a
  new one) has been saved, the recipient is the owner: the query for the owner of any token answers
  from the updated ownership map, and the query for the tokens of an address lists exactly the
  tokens it owns, each once. Recording a deletion in a batch does not fail.
\<close>

theorem SaveERC721Transfer_ownership:
  assumes "pebble_db P view" "geth_codec G" "owner_inv G view s own"
    and "SaveERC721Transfer P G J (Some t) s = (Inr u, s')" "e721TokenId t = Some n"
    and "own (e721ContractAddress t, n) = (if e721From t = 0 then None else Some (e721From t))"
    and "\<forall>ops k. \<exists>ops'. pb_record P ops (BDelete k) = Inr ops'"
  defines "own' \<equiv> own((e721ContractAddress t, n) \<mapsto> e721To t)"
  shows "owner_inv G view s' own' \<and>
    GetERC721Owner P G c (Some m) s' = (case own' (c, m) of None \<Rightarrow> Inl ErrNotFound | Some a \<Rightarrow> Inr a, s') \<and>
    (a \<noteq> 0 \<longrightarrow> (\<exists>xs. distinct xs \<and> set xs = {x. own' x = Some a} \<and>
      GetNFTsByOwner P G a limit offset s' = (Inr (take (nat (clampLimit limit)) (drop (nat (clampOffset offset))
        (map (\<lambda>(c, n). \<lparr>nftContractAddress = c, nftTokenId = n, nftOwner = a\<rparr>) xs))), s')))"
proof -
  note w = SaveERC721Transfer_Inr [OF assms(1,4,5,7)]
  have inv: "owner_inv G view s' own'"
    unfolding own'_def using w by (intro owner_inv_step [OF assms(2,3) _ assms(6)]) auto
  have "\<not> closed s"
    using assms(4) by (auto simp: SaveERC721Transfer_def guard_simps split: if_splits)
  then have "\<not> closed s'" using w by (simp add: only_db_def)
  with inv GetERC721Owner_eq [OF assms(1,2) inv] GetNFTsByOwner_eq [OF assms(1,2) inv] show ?thesis by blast
qed

theorem token_transfers_exact_witness:
  "GetERC20TransfersByToken memPebble sampleGeth sampleJson 8 10 0 (snd sample20Stored) = (Inr [sample20], snd sample20Stored) \<and>
   GetERC20TransfersByAddress memPebble sampleGeth sampleJson 5 False 10 0 (snd sample20Stored) = (Inr [], snd sample20Stored)"
  using token_transfers_exact [OF addr_store_sample sample20Stored_ok(2) sample20_inv sample20_no721, of 8 10 0]
    token_transfers_exact [OF addr_store_sample sample20Stored_ok(2) sample20_inv sample20_no721, of 5 10 0 False]
  by (simp add: sample20_def clampLimit_def clampOffset_def)

theorem SaveERC20Transfer_indexes_witness:
  "transfer_inv (erc20Kind sampleGeth sampleJson) map_of (snd sample20Stored) [sample20]"
proof -
  have "unat (e20LogIndex sample20) < 10 ^ 6" "sorted_wrt (tkBefore (erc20Kind sampleGeth sampleJson)) [sample20]"
    by (simp_all add: sample20_def)
  from SaveERC20Transfer_indexes [OF addr_store_sample transfer_inv_empty sample20_run this] show ?thesis by simp
qed

theorem SaveERC721Transfer_ownership_witness:
  "GetERC721Owner memPebble sampleGeth 9 (Some 12) (snd sample721Stored) = (Inr 6, snd sample721Stored) \<and>
   GetNFTsByOwner memPebble sampleGeth 6 10 0 (snd sample721Stored) =
     (Inr [\<lparr>nftContractAddress = 9, nftTokenId = 12, nftOwner = 6\<rparr>], snd sample721Stored)"
proof -
  have r: "SaveERC721Transfer memPebble sampleGeth sampleJson (Some sample721) (emptyStorage []) = (Inr (), snd sample721Stored)"
    using sample721Stored_ok by (simp add: sample721Stored_def prod_eq_iff)
  have "e721TokenId sample721 = Some 12"
    "(\<lambda>_. None) (e721ContractAddress sample721, 12 :: int) = (if e721From sample721 = 0 then None else Some (e721From sample721))"
    "\<forall>ops k. \<exists>ops'. pb_record memPebble ops (BDelete k) = Inr ops'"
    by (simp_all add: sample721_def memPebble_def)
  note th = SaveERC721Transfer_ownership [OF memPebble.pebble_db_axioms geth_codec_sample owner_inv_empty r this, of 9 12 6 10 0]
  have o: "GetERC721Owner memPebble sampleGeth 9 (Some 12) (snd sample721Stored) = (Inr 6, snd sample721Stored)"
    using th by (simp add: sample721_def)
  have e: "{x. ((\<lambda>_. None)((e721ContractAddress sample721, 12 :: int) \<mapsto> e721To sample721)) x = Some 6} = {(9, 12)}"
    by (auto simp: sample721_def)
  have six: "(6 :: address) \<noteq> 0" by simp
  obtain xs where xs: "distinct xs" "set xs = {(9, 12)}"
      "GetNFTsByOwner memPebble sampleGeth 6 10 0 (snd sample721Stored) =
        (Inr (take (nat (clampLimit 10)) (drop (nat (clampOffset 0))
          (map (\<lambda>(c, n). \<lparr>nftContractAddress = c, nftTokenId = n, nftOwner = 6\<rparr>) xs))), snd sample721Stored)"
    using th [THEN conjunct2, THEN conjunct2, THEN mp, OF six, unfolded e] by blast
  have "length xs = card (set xs)" using xs(1) by (simp add: distinct_card)
  then have "length xs = Suc 0" using xs(2) by simp
  then obtain y where y: "xs = [y]" unfolding length_Suc_conv length_0_conv by blast
  then have "xs = [(9, 12)]" using xs(2) by simp
  with o xs(3) show ?thesis by (simp add: clampLimit_def clampOffset_def)
qed

end
