(* ===== verification/Indexing.thy ===== *)
theory Indexing
  imports AddressIndex
begin

text \<open>
  What the fetcher derives from a block (\<^verbatim>\<open>pkg/fetch/fetcher_indexing.go\<close>): entries of the address
  indexes, contract creations and token transfers, and the balances of native coins. The derived
  data are best effort: a failing write is logged and the work goes on. The main theorem says that
  the tracking of balances follows a ledger.
\<close>

section \<open>The node, the collaborators and the state of the fetcher\<close>

text \<open>
  The RPC client (the interface \<^verbatim>\<open>Client\<close>) talks to a node of unknown state; every call may change it.
  \<open>cl_done\<close> looks at the context.
\<close>

record 'c client =
  cl_latest :: "('c, u64) op"
  cl_block :: "u64 \<Rightarrow> ('c, block option) op"
  cl_receipts :: "u64 \<Rightarrow> ('c, receipt option list) op"
  cl_balanceAt :: "address \<Rightarrow> u64 \<Rightarrow> ('c, int) op"
  cl_done :: "'c \<Rightarrow> bool"

text \<open>
  Optional collaborators of the fetcher: interfaces other packages implement (token indexer, block
  processors) and processors with theories of their own to come. Each is an operation on the storage.
\<close>

record 'db collab =
  coFeePayer :: "hash \<Rightarrow> ('db storage, address option) op"
  coToken :: "(address \<Rightarrow> u64 \<Rightarrow> ('db storage, unit) op) option"
  coSetCode :: "(tx \<Rightarrow> receipt \<Rightarrow> block \<Rightarrow> u64 \<Rightarrow> ('db storage, unit) op) option"
  coUserOps :: "(block \<Rightarrow> receipt option list \<Rightarrow> ('db storage, unit) op) option"
  coWBFT :: "block \<Rightarrow> ('db storage, unit) op"
  coFeeMeta :: "u64 \<Rightarrow> ('db storage, unit) op"
  coSysEvents :: "(log list \<Rightarrow> ('db storage, unit) op) option"
  coGenesisTokens :: "('db storage, unit) op"
  coProcessors :: "(block \<Rightarrow> receipt option list \<Rightarrow> ('db storage, unit) op) list"

record ('db, 'c) world =
  wStore :: "'db storage"
  wNode :: 'c

definition onStore :: "('db storage, 'a) op \<Rightarrow> (('db, 'c) world, 'a) op" where
  "onStore m = (\<lambda>w. case m (wStore w) of (r, s) \<Rightarrow> (r, w\<lparr>wStore := s\<rparr>))"

definition onNode :: "('c, 'a) op \<Rightarrow> (('db, 'c) world, 'a) op" where
  "onNode m = (\<lambda>w. case m (wNode w) of (r, c) \<Rightarrow> (r, w\<lparr>wNode := c\<rparr>))"

definition whenSome :: "'a option \<Rightarrow> ('a \<Rightarrow> ('s, unit) op) \<Rightarrow> ('s, unit) op" where
  "whenSome x f = (case x of None \<Rightarrow> ret () | Some y \<Rightarrow> f y)"

text \<open>\<^verbatim>\<open>buildReceiptMap\<close>: the last receipt of a transaction wins, nil is skipped.\<close>

definition buildReceiptMap :: "receipt option list \<Rightarrow> hash \<Rightarrow> receipt option" where
  "buildReceiptMap receipts = receiptMapOf receipts (\<lambda>_. None)"

section \<open>Address indexes\<close>

definition ERC20TransferTopic :: string where
  "ERC20TransferTopic = ''0xddf252ad1be2c89b69c2b068fc378daa952ba7f163c4a11628f55a4df523b3ef''"

definition indexTxAddresses :: "'db pebble \<Rightarrow> geth \<Rightarrow> 'db collab \<Rightarrow> tx \<Rightarrow> ('db storage, unit) op" where
  "indexTxAddresses P G H t =
     andThen (if tFrom t \<noteq> 0 then attempt (AddTransactionToAddressIndex P G (tFrom t) (tHash t)) else ret ()) (\<lambda>_.
     andThen (whenSome (tTo t) (\<lambda>to.
        if to \<noteq> tFrom t then attempt (AddTransactionToAddressIndex P G to (tHash t)) else ret ())) (\<lambda>_.
     if tType t = 22
     then andThen (catch (coFeePayer H (tHash t)) (\<lambda>e. ret None)) (\<lambda>fp. whenSome fp (\<lambda>feePayer.
        if feePayer \<noteq> tFrom t \<and> tTo t \<noteq> Some feePayer
        then attempt (AddTransactionToAddressIndex P G feePayer (tHash t)) else ret ()))
     else ret ()))"

definition indexCreation :: "'db pebble \<Rightarrow> geth \<Rightarrow> addrJson \<Rightarrow> 'db collab \<Rightarrow> block \<Rightarrow> tx \<Rightarrow> receipt \<Rightarrow>
    ('db storage, unit) op" where
  "indexCreation P G J H b t r =
     (if tTo t = None \<and> rContractAddress r \<noteq> 0
      then andThen (attempt (SaveContractCreation P G J (Some
            \<lparr>ccContractAddress = rContractAddress r, ccCreator = tFrom t, ccTransactionHash = tHash t,
             ccBlockNumber = bNumber b, ccTimestamp = bTime b, ccBytecodeSize = 20\<rparr>))) (\<lambda>_.
        whenSome (coToken H) (\<lambda>indexToken. attempt (indexToken (rContractAddress r) (bNumber b))))
      else ret ())"

definition transferOfLog20 :: "geth \<Rightarrow> u64 \<Rightarrow> log \<Rightarrow> ERC20Transfer" where
  "transferOfLog20 G blockTime l =
     \<lparr>e20ContractAddress = lAddress l, e20From = bytesToAddr G (hashBytes (lTopics l ! 1)),
      e20To = bytesToAddr G (hashBytes (lTopics l ! 2)), e20Value = Some (SetBytes (lData l)),
      e20TransactionHash = lTxHash l, e20BlockNumber = lBlockNumber l, e20LogIndex = lIndex l,
      e20Timestamp = blockTime\<rparr>"

definition transferOfLog721 :: "geth \<Rightarrow> u64 \<Rightarrow> log \<Rightarrow> ERC721Transfer" where
  "transferOfLog721 G blockTime l =
     \<lparr>e721ContractAddress = lAddress l, e721From = bytesToAddr G (hashBytes (lTopics l ! 1)),
      e721To = bytesToAddr G (hashBytes (lTopics l ! 2)),
      e721TokenId = Some (SetBytes (hashBytes (lTopics l ! 3))),
      e721TransactionHash = lTxHash l, e721BlockNumber = lBlockNumber l, e721LogIndex = lIndex l,
      e721Timestamp = blockTime\<rparr>"

definition indexTransferLog :: "'db pebble \<Rightarrow> geth \<Rightarrow> addrJson \<Rightarrow> u64 \<Rightarrow> log \<Rightarrow> ('db storage, unit) op" where
  "indexTransferLog P G J blockTime l =
     (if lTopics l = [] then ret ()
      else if hashHex G (lTopics l ! 0) \<noteq> ERC20TransferTopic then ret ()
      else if length (lTopics l) = 3
      then if length (lData l) < 32 then ret ()
           else attempt (SaveERC20Transfer P G J (Some (transferOfLog20 G blockTime l)))
      else if length (lTopics l) = 4
      then attempt (SaveERC721Transfer P G J (Some (transferOfLog721 G blockTime l)))
      else ret ())"

definition processAddressIndexing :: "'db pebble \<Rightarrow> geth \<Rightarrow> addrJson \<Rightarrow> 'db collab \<Rightarrow> block \<Rightarrow>
    receipt option list \<Rightarrow> ('db storage, unit) op" where
  "processAddressIndexing P G J H b receipts =
     andThen (forEach (\<lambda>(txIdx, t). case buildReceiptMap receipts (tHash t) of
          None \<Rightarrow> ret ()
        | Some r \<Rightarrow>
            andThen (indexTxAddresses P G H t) (\<lambda>_.
            andThen (indexCreation P G J H b t r) (\<lambda>_.
            andThen (forEach (indexTransferLog P G J (bTime b)) (rLogs r)) (\<lambda>_.
            whenSome (coSetCode H) (\<lambda>processSetCode.
              if tType t = 4 then attempt (processSetCode t r b (word_of_nat txIdx)) else ret ())))))
        (enumerate 0 (bTxs b))) (\<lambda>_.
     whenSome (coUserOps H) (\<lambda>processUserOps. attempt (processUserOps b receipts)))"

section \<open>Balances\<close>

definition ensureAddressBalanceInitialized :: "'db pebble \<Rightarrow> geth \<Rightarrow> 'c client \<Rightarrow> address \<Rightarrow> u64 \<Rightarrow>
    (('db, 'c) world, unit) op" where
  "ensureAddressBalanceInitialized P G C addr blockNumber =
     andThen (onStore (wrapping ''failed to check address balance'' (GetAddressBalance P G addr 0))) (\<lambda>currentBalance.
     if currentBalance \<noteq> 0 then ret ()
     else andThen (onStore (wrapping ''failed to check balance history''
         (GetBalanceHistory P G addr 0 blockNumber 1 0))) (\<lambda>history.
       if history \<noteq> [] then ret ()
       else andThen (catch (onNode (cl_balanceAt C addr (if blockNumber > 0 then blockNumber - 1 else 0)))
           (\<lambda>e. ret 0)) (\<lambda>rpcBalance.
         onStore (Storage_SetBalance P G addr blockNumber rpcBalance))))"

definition trackTx :: "'db pebble \<Rightarrow> geth \<Rightarrow> 'c client \<Rightarrow> u64 \<Rightarrow> (hash \<Rightarrow> receipt option) \<Rightarrow> tx \<Rightarrow>
    (('db, 'c) world, unit) op" where
  "trackTx P G C blockNumber receiptMap t =
     (case receiptMap (tHash t) of
        None \<Rightarrow> ret ()
      | Some r \<Rightarrow>
          if tFrom t = 0 then ret ()
          else let gasCost = int (unat (rGasUsed r)) * tGasPrice t;
                   totalDeduction = tValue t + gasCost;
                   to = (if tTo t = None \<and> rContractAddress r \<noteq> 0 then Some (rContractAddress r) else tTo t) in
          andThen (attempt (ensureAddressBalanceInitialized P G C (tFrom t) blockNumber)) (\<lambda>_.
          andThen (attempt (onStore (UpdateBalance P G (tFrom t) blockNumber (- totalDeduction) (tHash t)))) (\<lambda>_.
          whenSome to (\<lambda>a.
            if tValue t > 0
            then andThen (attempt (ensureAddressBalanceInitialized P G C a blockNumber)) (\<lambda>_.
              attempt (onStore (UpdateBalance P G a blockNumber (tValue t) (tHash t))))
            else ret ()))))"

definition processBalanceTracking :: "'db pebble \<Rightarrow> geth \<Rightarrow> 'c client \<Rightarrow> block \<Rightarrow> receipt option list \<Rightarrow>
    (('db, 'c) world, unit) op" where
  "processBalanceTracking P G C b receipts =
     forEach (trackTx P G C (bNumber b) (buildReceiptMap receipts)) (bTxs b)"

definition initializeGenesisBalances :: "'db pebble \<Rightarrow> geth \<Rightarrow> 'c client \<Rightarrow> block \<Rightarrow> (('db, 'c) world, unit) op" where
  "initializeGenesisBalances P G C b =
     (let miner = bCoinbase b in
      andThen (onStore (wrapping ''failed to check miner balance'' (GetAddressBalance P G miner 0))) (\<lambda>currentBalance.
      if currentBalance \<noteq> 0 then ret ()
      else andThen (onStore (wrapping ''failed to check miner balance history''
          (GetBalanceHistory P G miner 0 0 1 0))) (\<lambda>history.
        if history \<noteq> [] then ret ()
        else andThen (onNode (cl_balanceAt C miner 0)) (\<lambda>rpcBalance.
          if rpcBalance > 0
          then onStore (wrapping ''failed to set genesis miner balance'' (Storage_SetBalance P G miner 0 rpcBalance))
          else ret ()))))"

section \<open>The ledger\<close>

text \<open>
  The abstract view of balance tracking: an address is unknown until it is first seen; then it has
  the balance the chain had at the previous block. A sender pays value and gas if it can, a
  recipient gets the value.
\<close>

type_synonym ledger = "address \<Rightarrow> int option"

definition openAccount :: "(address \<Rightarrow> u64 \<Rightarrow> int) \<Rightarrow> u64 \<Rightarrow> address \<Rightarrow> ledger \<Rightarrow> ledger" where
  "openAccount chainBal n a bal =
     (if bal a = None then bal(a \<mapsto> chainBal a (if n > 0 then n - 1 else 0)) else bal)"

definition post :: "address \<Rightarrow> int \<Rightarrow> ledger \<Rightarrow> ledger" where
  "post a d bal = (case bal a of None \<Rightarrow> bal | Some x \<Rightarrow> if x + d < 0 then bal else bal(a \<mapsto> x + d))"

definition gasCost :: "tx \<Rightarrow> receipt \<Rightarrow> int" where
  "gasCost t r = int (unat (rGasUsed r)) * tGasPrice t"

definition receiver :: "tx \<Rightarrow> receipt \<Rightarrow> address option" where
  "receiver t r = (if tTo t = None \<and> rContractAddress r \<noteq> 0 then Some (rContractAddress r) else tTo t)"

definition ledgerTx :: "(address \<Rightarrow> u64 \<Rightarrow> int) \<Rightarrow> u64 \<Rightarrow> (hash \<Rightarrow> receipt option) \<Rightarrow> ledger \<Rightarrow> tx \<Rightarrow> ledger" where
  "ledgerTx chainBal n rm bal t =
     (case rm (tHash t) of
        None \<Rightarrow> bal
      | Some r \<Rightarrow>
          if tFrom t = 0 then bal
          else let bal = post (tFrom t) (- (tValue t + gasCost t r)) (openAccount chainBal n (tFrom t) bal) in
            case receiver t r of
              None \<Rightarrow> bal
            | Some a \<Rightarrow> if tValue t > 0 then post a (tValue t) (openAccount chainBal n a bal) else bal)"

text \<open>
  \<open>follows view G n s bal\<close>: the storage tracks the ledger \<open>bal\<close>, with no snapshot after block \<open>n\<close>;
  balances fit 256 bits.
\<close>

definition follows :: "('db \<Rightarrow> bytes \<Rightarrow> bytes option) \<Rightarrow> geth \<Rightarrow> u64 \<Rightarrow> 'db storage \<Rightarrow> ledger \<Rightarrow> bool" where
  "follows view G n s bal \<longleftrightarrow> ready s \<and>
     (\<forall>a. \<exists>hist. hist_inv view G s a hist \<and> (\<forall>x\<in>set hist. bsBlockNumber (snd x) \<le> n) \<and>
        bal a = (if hist = [] then None else Some (lastBalance hist))) \<and>
     (\<forall>a x. bal a = Some x \<longrightarrow> 0 \<le> x \<and> x < 2 ^ 256)"

definition reliable :: "'db pebble \<Rightarrow> bool" where
  "reliable P \<longleftrightarrow> (\<forall>d k v. fst (pb_set P d k v) = None)"

lemma length_bigBytes: "n < 256 ^ k \<Longrightarrow> length (bigBytes n) \<le> k"
proof (induction k arbitrary: n)
  case (Suc k)
  show ?case
  proof (cases "n = 0")
    case False
    then have "bigBytes n = bigBytes (n div 256) @ [byteChar (n mod 256)]" by (subst bigBytes.simps) simp
    moreover have "n div 256 < 256 ^ k" using Suc.prems by (simp add: div_less_iff_less_mult mult.commute)
    ultimately show ?thesis using Suc.IH by simp
  qed simp
qed simp

lemma bigBytes_small:
  assumes "\<bar>x\<bar> < 2 ^ 320"
  shows "length (bigBytes (nat \<bar>x\<bar>)) < 2 ^ 60" "length (bigBytes (nat \<bar>x\<bar>)) < 2 ^ 61"
proof -
  have "nat \<bar>x\<bar> < nat (2 ^ 320)" using assms by (simp add: nat_less_iff)
  also have "nat (2 ^ 320) = (256 :: nat) ^ 40" by (simp add: nat_power_eq)
  finally have "length (bigBytes (nat \<bar>x\<bar>)) \<le> 40" by (rule length_bigBytes)
  then show "length (bigBytes (nat \<bar>x\<bar>)) < 2 ^ 60" "length (bigBytes (nat \<bar>x\<bar>)) < 2 ^ 61" by simp_all
qed

lemma dbSet_reliable: "reliable P \<Longrightarrow> \<exists>s'. dbSet P k v s = (Inr (), s')"
  by (auto simp: reliable_def dbSet_def liftWrite_def split: prod.splits option.splits) (metis fst_conv option.distinct(1))

lemma UpdateBalance_reliable:
  assumes "pebble_db P view" "reliable P" "hist_inv view G s addr hist" "ready s" "0 \<le> lastBalance hist + delta"
    and "snap_ok \<lparr>bsBlockNumber = n, bsBalance = Some (lastBalance hist + delta), bsDelta = Some delta, bsTxHash = h\<rparr>"
  shows "\<exists>s'. UpdateBalance P G addr n delta h s = (Inr (), s') \<and> ready s' \<and> addrSeq s' = (addrSeq s)(addr := addrSeq s addr + 1)"
proof -
  let ?sn = "\<lparr>bsBlockNumber = n, bsBalance = Some (lastBalance hist + delta), bsDelta = Some delta, bsTxHash = h\<rparr>"
  let ?s0 = "s\<lparr>addrSeq := (addrSeq s)(addr := addrSeq s addr + 1)\<rparr>"
  have o: "\<not> closed s" "\<not> ReadOnly (config s)" using assms(4) by (simp_all add: ready_def)
  obtain s1 where 1: "dbSet P (AddressBalanceKey G addr (addrSeq s addr)) (encodeSnap ?sn) ?s0 = (Inr (), s1)"
    using dbSet_reliable [OF assms(2)] by blast
  obtain s2 where 2: "dbSet P (AddressBalanceLatestKey G addr) (EncodeBigInt (Some (lastBalance hist + delta))) s1 = (Inr (), s2)"
    using dbSet_reliable [OF assms(2)] by blast
  have "UpdateBalance P G addr n delta h s = (Inr (), s2)"
    using o assms(5) GetAddressBalance_latest [OF assms(1,3) o(1)] snap_ok_roundtrip [OF assms(6)] 1 2
    by (simp add: UpdateBalance_def guard_simps andThen_def wrapping_def Let_def)
  moreover have "ready s2 \<and> addrSeq s2 = (addrSeq s)(addr := addrSeq s addr + 1)"
    using pebble_db.dbSet_Inr [OF assms(1) 1] pebble_db.dbSet_Inr [OF assms(1) 2] assms(4)
    by (simp add: only_db_def ready_def)
  ultimately show ?thesis by blast
qed

text \<open>Room for \<open>k\<close> more entries under every address.\<close>

definition room :: "nat \<Rightarrow> 'db storage \<Rightarrow> bool" where
  "room k s \<longleftrightarrow> (\<forall>a. unat (addrSeq s a) + k < 2 ^ 64)"

lemma room_less:
  assumes "room (Suc k) s"
  shows "addrSeq s a < - 1"
proof -
  have "unat (addrSeq s a) + Suc k < 2 ^ 64" using assms by (simp only: room_def)
  then show ?thesis unfolding word_less_nat_alt unat_max_u64 by simp
qed

lemma room_mono:
  assumes "room k s" "j \<le> k"
  shows "room j s"
  unfolding room_def
proof
  fix a
  have "unat (addrSeq s a) + k < 2 ^ 64" using assms(1) by (simp only: room_def)
  with assms(2) show "unat (addrSeq s a) + j < 2 ^ 64" by linarith
qed

lemma room_step:
  assumes "room (Suc k) s" "addrSeq s' = addrSeq s \<or> addrSeq s' = (addrSeq s)(a := addrSeq s a + 1)"
  shows "room k s'"
  unfolding room_def
proof
  fix b
  have "unat (addrSeq s a + 1) = unat (addrSeq s a) + 1" using room_less [OF assms(1)] by (rule unat_succ_u64)
  then have "unat (addrSeq s' b) \<le> unat (addrSeq s b) + 1" using assms(2) by (cases "b = a") auto
  moreover have "unat (addrSeq s b) + Suc k < 2 ^ 64" using assms(1) by (simp only: room_def)
  ultimately show "unat (addrSeq s' b) + k < 2 ^ 64" by linarith
qed

text \<open>One update of the storage is one posting to the ledger.\<close>

lemma UpdateBalance_posts:
  assumes "pebble_db P view" "geth_codec G" "reliable P" "follows view G n s bal" "room (Suc k) s"
    and "x = (case bal a of None \<Rightarrow> 0 | Some y \<Rightarrow> y)" "\<bar>d\<bar> < 2 ^ 320" "0 \<le> x + d" "x + d < 2 ^ 256"
  shows "\<exists>s'. UpdateBalance P G a n d h s = (Inr (), s') \<and> follows view G n s' (bal(a \<mapsto> x + d)) \<and> room k s'"
proof -
  obtain hist where h: "hist_inv view G s a hist" "\<forall>y\<in>set hist. bsBlockNumber (snd y) \<le> n"
    "bal a = (if hist = [] then None else Some (lastBalance hist))"
    using assms(4) unfolding follows_def by blast
  then have x: "x = lastBalance hist" using assms(6) by (simp add: lastBalance_def split: if_splits)
  have rd: "ready s" using assms(4) by (simp add: follows_def)
  have "\<bar>x + d\<bar> < 2 ^ 320" "\<bar>d\<bar> < 2 ^ 320" using assms(7-9) by auto
  note sz = bigBytes_small [OF this(1)] bigBytes_small [OF this(2)]
  have sz': "length (bigBytes (nat (lastBalance hist + d))) < 2 ^ 61" using sz(2) assms(8) x by simp
  let ?sn = "\<lparr>bsBlockNumber = n, bsBalance = Some (lastBalance hist + d), bsDelta = Some d, bsTxHash = h\<rparr>"
  have "snap_ok ?sn" "0 \<le> lastBalance hist + d" using assms(8) sz(3) sz' x by (simp_all add: snap_ok_def)
  from UpdateBalance_reliable [OF assms(1,3) h(1) rd this(2,1)]
  obtain s' where r: "UpdateBalance P G a n d h s = (Inr (), s')" and ok: "ready s'"
    "addrSeq s' = (addrSeq s)(a := addrSeq s a + 1)" by blast
  note st = UpdateBalance_step [OF assms(1,2) h(1) room_less [OF assms(5)] sz' sz(3) rd r]
  have new: "hist_inv view G s' a (hist @ [(addrSeq s a, ?sn)])"
    and other: "\<And>b hb. b \<noteq> a \<Longrightarrow> hist_inv view G s b hb \<Longrightarrow> hist_inv view G s' b hb"
    using st by blast+
  have "\<exists>hist. hist_inv view G s' b hist \<and> (\<forall>x\<in>set hist. bsBlockNumber (snd x) \<le> n) \<and>
      (bal(a \<mapsto> x + d)) b = (if hist = [] then None else Some (lastBalance hist))" for b
  proof (cases "b = a")
    case True
    then show ?thesis using new h(2) x
      by (intro exI [of _ "hist @ [(addrSeq s a, ?sn)]"]) (auto simp: lastBalance_def)
  next
    case neq: False
    then show ?thesis using other [OF neq] assms(4) unfolding follows_def by (metis fun_upd_other)
  qed
  moreover have "0 \<le> y \<and> y < 2 ^ 256" if "(bal(a \<mapsto> x + d)) b = Some y" for b y
    using that assms(4,8,9) by (auto simp: follows_def split: if_splits)
  ultimately have "follows view G n s' (bal(a \<mapsto> x + d))" using ok(1) unfolding follows_def by blast
  moreover have "room k s'" using room_step [OF assms(5)] ok(2) by blast
  ultimately show ?thesis using r by blast
qed

lemma UpdateBalance_refused:
  assumes "pebble_db P view" "follows view G n s bal" "bal a = Some x" "x + d < 0"
  shows "UpdateBalance P G a m d h s = (Inl (Errorf ''balance cannot be negative''), s)"
proof -
  obtain hist where h: "hist_inv view G s a hist" "x = lastBalance hist"
    using assms(2,3) unfolding follows_def by (metis option.distinct(1) option.inject)
  have "\<not> closed s" "\<not> ReadOnly (config s)" using assms(2) by (simp_all add: follows_def ready_def)
  then show ?thesis using GetAddressBalance_latest [OF assms(1) h(1)] h(2) assms(4)
    by (simp add: UpdateBalance_def guard_simps andThen_def wrapping_def Let_def)
qed

text \<open>An honest node answers with the balance of the chain.\<close>

definition honest :: "'c client \<Rightarrow> (address \<Rightarrow> u64 \<Rightarrow> int) \<Rightarrow> bool" where
  "honest C chainBal \<longleftrightarrow> (\<forall>a n c. cl_balanceAt C a n c = (Inr (chainBal a n), c)) \<and>
     (\<forall>a n. 0 \<le> chainBal a n \<and> chainBal a n < 2 ^ 256)"

lemma ensureInitialized_follows:
  assumes "pebble_db P view" "geth_codec G" "reliable P" "honest C chainBal"
    "follows view G n (wStore w) bal" "room (Suc k) (wStore w)"
  shows "\<exists>w'. ensureAddressBalanceInitialized P G C a n w = (Inr (), w') \<and>
    follows view G n (wStore w') (openAccount chainBal n a bal) \<and> room k (wStore w')"
proof -
  obtain hist where h: "hist_inv view G (wStore w) a hist" "\<forall>y\<in>set hist. bsBlockNumber (snd y) \<le> n"
    "bal a = (if hist = [] then None else Some (lastBalance hist))"
    using assms(5) unfolding follows_def by blast
  have o: "\<not> closed (wStore w)" "\<not> ReadOnly (config (wStore w))" using assms(5) by (simp_all add: follows_def ready_def)
  note bal = GetAddressBalance_latest [OF assms(1) h(1) o(1)]
  have "filter (\<lambda>sn. 0 \<le> bsBlockNumber sn \<and> bsBlockNumber sn \<le> n) (map snd hist) = map snd hist"
    using h(2) by simp
  then have hq: "GetBalanceHistory P G a 0 n 1 0 (wStore w) = (Inr (take 1 (map snd hist)), wStore w)"
    using GetBalanceHistory_eq [OF assms(1) h(1) o(1), of 0 n 1 0] by simp
  have w: "w\<lparr>wStore := wStore w\<rparr> = w" "w\<lparr>wNode := wNode w\<rparr> = w" by simp_all
  have node: "catch (onNode (cl_balanceAt C a m)) (\<lambda>e. ret 0) w = (Inr (chainBal a m), w)" for m
    using assms(4) by (simp add: honest_def onNode_def catch_def)
  show ?thesis
  proof (cases "hist = []")
    case False
    then have "openAccount chainBal n a bal = bal" using h(3) by (simp add: openAccount_def)
    moreover have "ensureAddressBalanceInitialized P G C a n w = (Inr (), w)"
      using False bal hq by (cases hist) (simp_all add: ensureAddressBalanceInitialized_def andThen_def onStore_def wrapping_def catch_def)
    ultimately show ?thesis using assms(5) room_mono [OF assms(6), of k] by auto
  next
    case True
    let ?m = "if n > 0 then n - 1 else 0 :: u64"
    have none: "bal a = None" "lastBalance hist = 0" using True h(3) by (simp_all add: lastBalance_def)
    have ch: "0 \<le> chainBal a ?m" "chainBal a ?m < 2 ^ 256" using assms(4) by (simp_all add: honest_def)
    then obtain s' where s': "UpdateBalance P G a n (chainBal a ?m) 0 (wStore w) = (Inr (), s')"
      "follows view G n s' (bal(a \<mapsto> 0 + chainBal a ?m))" "room k s'"
      using UpdateBalance_posts [OF assms(1-3,5,6), of 0 a "chainBal a ?m" 0] none(1) by auto
    have "Storage_SetBalance P G a n (chainBal a ?m) (wStore w) = (Inr (), s')"
      using o bal none(2) s'(1) by (simp add: Storage_SetBalance_def guard_simps andThen_def wrapping_def)
    then have "ensureAddressBalanceInitialized P G C a n w = (Inr (), w\<lparr>wStore := s'\<rparr>)"
      using True bal hq node none(2)
      by (simp add: ensureAddressBalanceInitialized_def andThen_def onStore_def wrapping_def)
    then show ?thesis using s'(2,3) none(1) by (auto simp: openAccount_def)
  qed
qed

text \<open>
  A posting the ledger refuses is one the storage refuses: the attempt leaves the balances alone.
\<close>

definition bounded :: "ledger \<Rightarrow> bool" where
  "bounded bal \<longleftrightarrow> (\<forall>a x. bal a = Some x \<longrightarrow> x < 2 ^ 256)"

lemma attempt_eq: "m w = (r, w') \<Longrightarrow> attempt m w = (Inr (), w')"
  by (cases r) (auto simp: attempt_def catch_def)

lemma UpdateBalance_follows:
  assumes "pebble_db P view" "geth_codec G" "reliable P" "follows view G n (wStore w) bal"
    "room (Suc k) (wStore w)" "bal a = Some x" "\<bar>d\<bar> < 2 ^ 320" "bounded (post a d bal)"
  shows "\<exists>w'. attempt (onStore (UpdateBalance P G a n d h)) w = (Inr (), w') \<and>
    follows view G n (wStore w') (post a d bal) \<and> room k (wStore w')"
proof (cases "x + d < 0")
  case True
  then have "attempt (onStore (UpdateBalance P G a n d h)) w = (Inr (), w)"
    using UpdateBalance_refused [OF assms(1,4,6) True] by (intro attempt_eq) (simp add: onStore_def)
  then show ?thesis using True assms(4,6) room_mono [OF assms(5), of k] by (auto simp: post_def)
next
  case False
  then have p: "post a d bal = bal(a \<mapsto> x + d)" using assms(6) by (simp add: post_def)
  then have "x + d < 2 ^ 256" using assms(8) unfolding bounded_def by (metis fun_upd_same)
  then obtain s' where s': "UpdateBalance P G a n d h (wStore w) = (Inr (), s')"
    "follows view G n s' (post a d bal)" "room k s'"
    using UpdateBalance_posts [OF assms(1-5), of x a d h] assms(6,7) False p by auto
  then have "attempt (onStore (UpdateBalance P G a n d h)) w = (Inr (), w\<lparr>wStore := s'\<rparr>)"
    by (intro attempt_eq) (simp add: onStore_def)
  then show ?thesis using s'(2,3) by auto
qed

text \<open>Opening an account and posting to it, as \<^verbatim>\<open>processBalanceTracking\<close> does for either side.\<close>

lemma initialize_and_update_follows:
  assumes "pebble_db P view" "geth_codec G" "reliable P" "honest C chainBal"
    "follows view G n (wStore w) bal" "room (Suc (Suc k)) (wStore w)"
    "\<bar>d\<bar> < 2 ^ 320" "bounded (post a d (openAccount chainBal n a bal))"
  shows "\<exists>w'. andThen (attempt (ensureAddressBalanceInitialized P G C a n)) (\<lambda>_.
      attempt (onStore (UpdateBalance P G a n d h))) w = (Inr (), w') \<and>
    follows view G n (wStore w') (post a d (openAccount chainBal n a bal)) \<and> room k (wStore w')"
proof -
  obtain w1 where w1: "ensureAddressBalanceInitialized P G C a n w = (Inr (), w1)"
    "follows view G n (wStore w1) (openAccount chainBal n a bal)" "room (Suc k) (wStore w1)"
    using ensureInitialized_follows [OF assms(1-6)] by blast
  obtain x where "openAccount chainBal n a bal a = Some x" by (cases "bal a") (auto simp: openAccount_def)
  from UpdateBalance_follows [OF assms(1-3) w1(2,3) this assms(7,8)]
    attempt_eq [of "ensureAddressBalanceInitialized P G C a n", OF w1(1)]
  show ?thesis by (simp add: andThen_def)
qed

text \<open>What the chain guarantees of a transaction: value and price fit their 256-bit fields.\<close>

definition tx_fits :: "tx \<Rightarrow> bool" where
  "tx_fits t \<longleftrightarrow> 0 \<le> tValue t \<and> tValue t < 2 ^ 256 \<and> 0 \<le> tGasPrice t \<and> tGasPrice t < 2 ^ 255"

lemma deduction_small:
  assumes "tx_fits t"
  shows "0 \<le> tValue t + gasCost t r" "\<bar>tValue t + gasCost t r\<bar> < 2 ^ 320"
proof -
  have "int (unat (rGasUsed r)) \<le> int (2 ^ 64)"
    unfolding of_nat_le_iff using unat_u64_less [of "rGasUsed r"] by (rule less_imp_le)
  then have "int (unat (rGasUsed r)) \<le> 2 ^ 64" by simp
  then have "gasCost t r \<le> 2 ^ 64 * 2 ^ 255"
    unfolding gasCost_def using assms by (intro mult_mono) (simp_all add: tx_fits_def)
  moreover have "0 \<le> gasCost t r" using assms by (simp add: gasCost_def tx_fits_def)
  ultimately show "0 \<le> tValue t + gasCost t r" "\<bar>tValue t + gasCost t r\<bar> < 2 ^ 320"
    using assms by (simp_all add: tx_fits_def)
qed

lemma bounded_debit:
  assumes "honest C chainBal" "follows view G n s bal" "0 \<le> d"
  shows "bounded (post a (- d) (openAccount chainBal n a bal))"
proof -
  have "bounded (openAccount chainBal n a bal)"
    using assms(1,2) by (auto simp: bounded_def openAccount_def honest_def follows_def)
  then show ?thesis using assms(3) by (force simp: bounded_def post_def split: option.splits)
qed

lemma trackTx_follows:
  assumes "pebble_db P view" "geth_codec G" "reliable P" "honest C chainBal"
    "follows view G n (wStore w) bal" "room (k + 4) (wStore w)" "tx_fits t"
    "bounded (ledgerTx chainBal n rm bal t)"
  shows "\<exists>w'. trackTx P G C n rm t w = (Inr (), w') \<and>
    follows view G n (wStore w') (ledgerTx chainBal n rm bal t) \<and> room k (wStore w')"
proof (cases "rm (tHash t) = None \<or> tFrom t = 0")
  case True
  then show ?thesis using assms(5) room_mono [OF assms(6), of k]
    by (auto simp: trackTx_def ledgerTx_def split: option.splits)
next
  case False
  then obtain r where r: "rm (tHash t) = Some r" "tFrom t \<noteq> 0" by auto
  let ?d = "- (tValue t + gasCost t r)"
  let ?bal1 = "post (tFrom t) ?d (openAccount chainBal n (tFrom t) bal)"
  have "bounded ?bal1" using bounded_debit [OF assms(4,5) deduction_small(1) [OF assms(7)]] .
  moreover have "room (Suc (Suc (k + 2))) (wStore w)" using assms(6) by (simp add: numeral_eq_Suc)
  ultimately obtain w1 where w1: "andThen (attempt (ensureAddressBalanceInitialized P G C (tFrom t) n)) (\<lambda>_.
      attempt (onStore (UpdateBalance P G (tFrom t) n ?d (tHash t)))) w = (Inr (), w1)"
    "follows view G n (wStore w1) ?bal1" "room (k + 2) (wStore w1)"
    using initialize_and_update_follows [OF assms(1-5)] deduction_small(2) [OF assms(7), of r] by (metis abs_minus_cancel)
  have tr: "trackTx P G C n rm t w = (whenSome (receiver t r) (\<lambda>a. if tValue t > 0
        then andThen (attempt (ensureAddressBalanceInitialized P G C a n)) (\<lambda>_.
          attempt (onStore (UpdateBalance P G a n (tValue t) (tHash t)))) else ret ())) w1"
    using r w1(1) by (simp add: trackTx_def receiver_def gasCost_def Let_def andThen_def split: prod.splits sum.splits)
  show ?thesis
  proof (cases "\<exists>a. receiver t r = Some a \<and> tValue t > 0")
    case False
    then show ?thesis using r tr w1(2) room_mono [OF w1(3), of k]
      by (auto simp: ledgerTx_def whenSome_def Let_def split: option.splits)
  next
    case True
    then obtain a where a: "receiver t r = Some a" "tValue t > 0" by blast
    then have l: "ledgerTx chainBal n rm bal t = post a (tValue t) (openAccount chainBal n a ?bal1)"
      using r by (simp add: ledgerTx_def Let_def)
    have "room (Suc (Suc k)) (wStore w1)" using w1(3) by simp
    from initialize_and_update_follows [OF assms(1-4) w1(2) this, of "tValue t" a "tHash t"] assms(7,8) l
    show ?thesis using tr a by (simp add: whenSome_def tx_fits_def)
  qed
qed

lemma follows_GetAddressBalance:
  assumes "pebble_db P view" "follows view G n s bal"
  shows "GetAddressBalance P G a 0 s = (Inr (case bal a of None \<Rightarrow> 0 | Some x \<Rightarrow> x), s)"
proof -
  obtain hist where h: "hist_inv view G s a hist" "bal a = (if hist = [] then None else Some (lastBalance hist))"
    using assms(2) unfolding follows_def by blast
  have "\<not> closed s" using assms(2) by (simp add: follows_def ready_def)
  then show ?thesis using GetAddressBalance_latest [OF assms(1) h(1)] h(2) by (auto simp: lastBalance_def)
qed

lemma forEach_trackTx_follows:
  assumes "pebble_db P view" "geth_codec G" "reliable P" "honest C chainBal"
    "follows view G n (wStore w) bal" "room (4 * length ts) (wStore w)" "\<forall>t\<in>set ts. tx_fits t"
    "\<forall>j\<le>length ts. bounded (foldl (ledgerTx chainBal n rm) bal (take j ts))"
  shows "\<exists>w'. forEach (trackTx P G C n rm) ts w = (Inr (), w') \<and>
    follows view G n (wStore w') (foldl (ledgerTx chainBal n rm) bal ts)"
  using assms(5-)
proof (induction ts arbitrary: w bal)
  case (Cons t ts)
  have b: "bounded (foldl (ledgerTx chainBal n rm) (ledgerTx chainBal n rm bal t) (take j ts))" if "j \<le> length ts" for j
    using Cons.prems(4) that by (auto dest: spec [of _ "Suc j"])
  have r4: "room (4 * length ts + 4) (wStore w)" using Cons.prems(2) by (simp add: add.commute)
  have f1: "tx_fits t" "\<forall>t\<in>set ts. tx_fits t" using Cons.prems(3) by simp_all
  have b0: "bounded (ledgerTx chainBal n rm bal t)" using b [of 0] by simp
  from trackTx_follows [OF assms(1-4) Cons.prems(1) r4 f1(1) b0]
  obtain w' where w': "trackTx P G C n rm t w = (Inr (), w')"
    "follows view G n (wStore w') (ledgerTx chainBal n rm bal t)" "room (4 * length ts) (wStore w')" by blast
  with Cons.IH [OF w'(2,3) f1(2)] b show ?case by (simp add: andThen_def)
qed simp


text \<open>A block in which 5 pays 3 to 6, with a node that knows 100 for every address.\<close>

definition payment :: tx where
  "payment = sampleTx\<lparr>tTo := Some 6, tValue := 3\<rparr>"

definition wealthyNode :: "unit client" where
  "wealthyNode = \<lparr>cl_latest = ret 7, cl_block = (\<lambda>_. ret None), cl_receipts = (\<lambda>_. ret []),
     cl_balanceAt = (\<lambda>_ _. ret 100), cl_done = (\<lambda>_. False)\<rparr>"

lemma follows_empty: "follows map_of G n (emptyStorage ([] :: (bytes \<times> bytes) list)) (\<lambda>_. None)"
  by (auto simp: follows_def hist_inv_def emptyStorage_def ready_def DefaultConfig_def intro!: exI [of _ "[]"])


end
