(* ===== verification/Frame.thy ===== *)
theory Frame
  imports Indexing
begin

text \<open>
  What the writes of the derived data leave alone. The core tables of the storage are the latest
  height, the blocks and the receipts; the address index, the balances, the log index, contract
  creations and token transfers live under other keys. The rules here carry this through the
  operations of \<open>BlockStore\<close>, \<open>Balances\<close>, \<open>LogIndex\<close>, \<open>AddressIndex\<close> and \<open>Indexing\<close>.
\<close>

definition core :: "geth \<Rightarrow> bytes \<Rightarrow> bool" where
  "core G k \<longleftrightarrow> k = LatestHeightKey \<or> (\<exists>h. k = BlockKey h) \<or> (\<exists>x. k = ReceiptKey G x)"

text \<open>\<open>frame view X s s'\<close>: the keys in \<open>X\<close> have the values they had; so have the mode and the configuration.\<close>

definition frame :: "('db \<Rightarrow> bytes \<Rightarrow> bytes option) \<Rightarrow> (bytes \<Rightarrow> bool) \<Rightarrow> 'db storage \<Rightarrow> 'db storage \<Rightarrow> bool" where
  "frame view X s s' \<longleftrightarrow> closed s' = closed s \<and> config s' = config s \<and>
     (\<forall>k. X k \<longrightarrow> view (db s') k = view (db s) k)"

lemma reflp_frame [simp]: "reflp (frame view X)"
  by (simp add: reflp_def frame_def)

lemma transp_frame [simp]: "transp (frame view X)"
  by (auto simp: transp_def frame_def)

lemma frame_refl [simp]: "frame view X s s"
  by (simp add: frame_def)

lemma frame_trans: "frame view X a b \<Longrightarrow> frame view X b c \<Longrightarrow> frame view X a c"
  by (simp add: frame_def)

lemma frame_weaken: "frame view X s s' \<Longrightarrow> (\<And>k. Y k \<Longrightarrow> X k) \<Longrightarrow> frame view Y s s'"
  by (simp add: frame_def)

named_theorems frame_rules \<open>operations that leave the keys of a frame alone\<close>

lemmas keeps_frame_seq [frame_rules] =
  keeps_andThen [OF transp_frame] keeps_catch [OF transp_frame] keeps_ret [OF reflp_frame]
  keeps_throw [OF reflp_frame] keeps_wrapping [OF reflp_frame transp_frame]
  keeps_fromOption [OF reflp_frame] keeps_forEach [OF reflp_frame transp_frame]

lemma keeps_reads: "reads m \<Longrightarrow> reflp R \<Longrightarrow> keeps R m"
  by (simp add: keeps_def reflpD)

lemma keeps_frame_guards [frame_rules]:
  "keeps (frame view X) ensureNotClosed" "keeps (frame view X) ensureNotReadOnly"
  by (simp_all add: keeps_def ensureNotClosed_def ensureNotReadOnly_def)

lemma keeps_frame_writable [frame_rules]: "keeps (frame view X) m \<Longrightarrow> keeps (frame view X) (writable m)"
  unfolding writable_def by (intro frame_rules)

lemma keeps_frame_attempt [frame_rules]: "keeps (frame view X) m \<Longrightarrow> keeps (frame view X) (attempt m)"
  unfolding attempt_def by (intro frame_rules)

lemma keeps_frame_whenSome [frame_rules]:
  "(\<And>y. x = Some y \<Longrightarrow> keeps (frame view X) (f y)) \<Longrightarrow> keeps (frame view X) (whenSome x f)"
  by (cases x) (simp_all add: whenSome_def frame_rules)

lemma keeps_frame_if [frame_rules]:
  "(c \<Longrightarrow> keeps (frame view X) m) \<Longrightarrow> (\<not> c \<Longrightarrow> keeps (frame view X) m') \<Longrightarrow> keeps (frame view X) (if c then m else m')"
  by simp

lemma keeps_frame_option [frame_rules]:
  "(x = None \<Longrightarrow> keeps (frame view X) m) \<Longrightarrow> (\<And>y. x = Some y \<Longrightarrow> keeps (frame view X) (f y)) \<Longrightarrow>
   keeps (frame view X) (case x of None \<Rightarrow> m | Some y \<Rightarrow> f y)"
  by (cases x) simp_all

lemma frame_sum:
  "(\<And>e. x = Inl e \<Longrightarrow> keeps (frame view X) (f e)) \<Longrightarrow> (\<And>y. x = Inr y \<Longrightarrow> keeps (frame view X) (g y)) \<Longrightarrow>
   keeps (frame view X) (case x of Inl e \<Rightarrow> f e | Inr y \<Rightarrow> g y)"
  by (cases x) simp_all

text \<open>A batch that returns its list of writes: \<open>yields Q m\<close> says what \<open>m\<close> returns.\<close>

definition yields :: "('a \<Rightarrow> bool) \<Rightarrow> ('s, 'a) op \<Rightarrow> bool" where
  "yields Q m \<longleftrightarrow> (\<forall>s v s'. m s = (Inr v, s') \<longrightarrow> Q v)"

lemma keeps_andThen_yields:
  assumes "transp R" "keeps R m" "yields Q m" "\<And>x. Q x \<Longrightarrow> keeps R (f x)"
  shows "keeps R (andThen m f)"
  unfolding keeps_def
proof
  fix s
  obtain r s1 where m: "m s = (r, s1)" by (metis surj_pair)
  have 1: "R s s1" using assms(2) m by (metis keeps_def snd_conv)
  show "R s (snd (andThen m f s))"
  proof (cases r)
    case (Inr v)
    then have "R s1 (snd (f v s1))" using assms(3,4) m by (auto simp: yields_def keeps_def)
    with 1 Inr m show ?thesis using assms(1) by (auto simp: andThen_def dest: transpD)
  qed (use m 1 in \<open>simp add: andThen_def\<close>)
qed

lemma yields_seq:
  "Q x \<Longrightarrow> yields Q (ret x)" "yields Q m \<Longrightarrow> yields Q (wrapping msg m)"
  "yields Q m \<Longrightarrow> (\<And>e. yields Q (h e)) \<Longrightarrow> yields Q (catch m h)"
  unfolding yields_def by (auto simp: catch_def split: prod.splits sum.splits)

fun op_key :: "batch_op \<Rightarrow> bytes" where
  "op_key (BSet k v) = k"
| "op_key (BDelete k) = k"

definition avoids :: "(bytes \<Rightarrow> bool) \<Rightarrow> batch_op list \<Rightarrow> bool" where
  "avoids X ops \<longleftrightarrow> (\<forall>x\<in>set ops. \<not> X (op_key x))"

lemma apply_ops_avoids: "avoids X ops \<Longrightarrow> X k \<Longrightarrow> apply_ops m ops k = m k"
proof (induction ops arbitrary: m)
  case (Cons x ops)
  then show ?case by (cases x) (auto simp: avoids_def)
qed simp

context pebble_db
begin

lemma yields_batchAdd: "avoids X ops \<Longrightarrow> \<not> X (op_key x) \<Longrightarrow> yields (avoids X) (batchAdd P ops x)"
  by (auto simp: yields_def avoids_def dest!: batchAdd_Inr)

lemma yields_batchAll: "avoids X ops \<Longrightarrow> avoids X (map snd xs) \<Longrightarrow> yields (avoids X) (batchAll P xs ops)"
proof (induction xs arbitrary: ops)
  case (Cons y xs)
  obtain msg x where y: "y = (msg, x)" by (cases y)
  have "avoids X (ops @ [x])" "avoids X (map snd xs)" using Cons.prems y by (auto simp: avoids_def)
  from Cons.IH [OF this] y show ?case
    by (auto simp: yields_def andThen_eq_Inr dest!: batchAdd_Inr)
qed (simp add: yields_def)

lemma keeps_frame_dbSet [frame_rules]: "\<not> X k \<Longrightarrow> keeps (frame view X) (dbSet P k v)"
  unfolding keeps_def
proof
  fix s
  assume "\<not> X k"
  then show "frame view X s (snd (dbSet P k v s))"
    using dbSet_Inr [of k v s] dbSet_Inl [of k v s]
    by (cases "dbSet P k v s"; cases "fst (dbSet P k v s)") (auto simp: frame_def only_db_def)
qed

lemma keeps_frame_dbCommit [frame_rules]: "avoids X ops \<Longrightarrow> keeps (frame view X) (dbCommit P ops)"
  unfolding keeps_def
proof
  fix s
  assume "avoids X ops"
  then show "frame view X s (snd (dbCommit P ops s))"
    using dbCommit_Inr [of ops s] dbCommit_Inl [of ops s] apply_ops_avoids
    by (cases "dbCommit P ops s"; cases "fst (dbCommit P ops s)") (auto simp: frame_def only_db_def)
qed

end

text \<open>An operation that starts by advancing a counter in memory.\<close>

lemma keeps_frame_update:
  assumes "\<And>s. keeps (frame view X) (m s)"
  shows "keeps (frame view X) (\<lambda>s. m s (s\<lparr>addrSeq := f s\<rparr>))" "keeps (frame view X) (\<lambda>s. m s (s\<lparr>txCount := g s\<rparr>))"
proof -
  have "frame view X (s\<lparr>addrSeq := f s\<rparr>) (snd (m s (s\<lparr>addrSeq := f s\<rparr>)))"
    "frame view X (s\<lparr>txCount := g s\<rparr>) (snd (m s (s\<lparr>txCount := g s\<rparr>)))" for s
    using assms [of s] unfolding keeps_def by blast+
  then show "keeps (frame view X) (\<lambda>s. m s (s\<lparr>addrSeq := f s\<rparr>))" "keeps (frame view X) (\<lambda>s. m s (s\<lparr>txCount := g s\<rparr>))"
    by (simp_all add: keeps_def frame_def)
qed

section \<open>The derived data\<close>

lemma core_others [simp]:
  "\<not> core G (AddressTransactionKey G a n)" "\<not> core G (AddressBalanceKey G a n)" "\<not> core G (AddressBalanceLatestKey G a)"
  "\<not> core G (ContractCreationKey G a)" "\<not> core G (ContractCreatorIndexKey G a n h)" "\<not> core G (ContractBlockIndexKey G n a)"
  "\<not> core G (ERC20TransferKey G h n)" "\<not> core G (ERC20TokenIndexKey G a n m)" "\<not> core G (ERC20FromIndexKey G a n m)"
  "\<not> core G (ERC20ToIndexKey G a n m)" "\<not> core G (ERC721TransferKey G h n)" "\<not> core G (ERC721TokenIndexKey G a n m)"
  "\<not> core G (ERC721FromIndexKey G a n m)" "\<not> core G (ERC721ToIndexKey G a n m)" "\<not> core G (ERC721TokenOwnerKey G a t)"
  "\<not> core G (ERC721OwnerIndexKey G a c t)" "\<not> core G TransactionCountKey"
  "\<not> core G (LogKey n m i)" "\<not> core G (LogAddressIndexKey G a n m i)" "\<not> core G (LogTopic0IndexKey G h n m i)"
  "\<not> core G (LogTopic1IndexKey G h n m i)" "\<not> core G (LogTopic2IndexKey G h n m i)"
  "\<not> core G (LogTopic3IndexKey G h n m i)" "\<not> core G (LogBlockIndexKey n m i)"
  by (auto simp: core_def key_defs)

lemma core_core [simp]: "core G LatestHeightKey" "core G (BlockKey h)" "core G (ReceiptKey G x)"
  by (auto simp: core_def)

context pebble_db
begin

lemma frame_AddTransactionToAddressIndex [frame_rules]:
  "keeps (frame view (core G)) (AddTransactionToAddressIndex P G a h)"
  unfolding AddTransactionToAddressIndex_def Let_def
  by (rule keeps_frame_writable, rule keeps_frame_update(1), rule keeps_frame_dbSet) simp

lemma frame_batch:
  assumes "avoids X (map snd xs)" "\<And>ops. avoids X ops \<Longrightarrow> keeps (frame view X) (f ops)"
  shows "keeps (frame view X) (andThen (batchAll P xs []) f)"
proof (rule keeps_andThen_yields [OF transp_frame])
  show "yields (avoids X) (batchAll P xs [])" using assms(1) by (intro yields_batchAll) (simp_all add: avoids_def)
qed (use assms(2) keeps_reads [OF reads_batchAll reflp_frame] in blast)+

lemma frame_batch_more:
  assumes "avoids X ops" "\<not> X (op_key x)" "\<And>ops. avoids X ops \<Longrightarrow> keeps (frame view X) (f ops)"
  shows "keeps (frame view X) (andThen (if c then wrapping msg (batchAdd P ops x) else ret ops) f)"
    "keeps (frame view X) (andThen (if c then catch (batchAdd P ops x) (\<lambda>e. ret ops) else ret ops) f)"
proof -
  have r: "keeps (frame view X) (batchAdd P ops x)" by (rule keeps_reads [OF reads_batchAdd reflp_frame])
  have y': "yields (avoids X) (if c then wrapping msg (batchAdd P ops x) else ret ops)"
    "yields (avoids X) (if c then catch (batchAdd P ops x) (\<lambda>e. ret ops) else ret ops)"
    by (simp_all add: yields_seq yields_batchAdd assms(1,2))
  show "keeps (frame view X) (andThen (if c then wrapping msg (batchAdd P ops x) else ret ops) f)"
    by (rule keeps_andThen_yields [OF transp_frame _ y'(1) assms(3)]) (use r in \<open>simp add: frame_rules\<close>)
  show "keeps (frame view X) (andThen (if c then catch (batchAdd P ops x) (\<lambda>e. ret ops) else ret ops) f)"
    by (rule keeps_andThen_yields [OF transp_frame _ y'(2) assms(3)]) (use r in \<open>simp add: frame_rules\<close>)
qed

lemma frame_SaveContractCreation [frame_rules]:
  "keeps (frame view (core G)) (SaveContractCreation P G J c)"
  unfolding SaveContractCreation_def by (intro frame_batch frame_rules) (simp_all add: avoids_def)

lemma frame_SaveERC20Transfer [frame_rules]:
  "keeps (frame view (core G)) (SaveERC20Transfer P G J t)"
  unfolding SaveERC20Transfer_def Let_def by (intro frame_batch frame_rules) (simp_all add: avoids_def)

lemma frame_SaveERC721Transfer [frame_rules]:
  "keeps (frame view (core G)) (SaveERC721Transfer P G J t)"
  unfolding SaveERC721Transfer_def Let_def by (intro frame_batch frame_batch_more frame_rules) (simp_all add: avoids_def)

lemma frame_scan [frame_rules]: "keeps (frame view X) (scanPrefix P p)"
  unfolding scanPrefix_def dbIter_def by (intro frame_rules) (simp add: keeps_def)

lemma frame_loopThen [frame_rules]: "keeps (frame view X) (loopThen r e)"
  unfolding loopThen_def by (auto simp: keeps_def split: sum.splits option.splits)

lemma frame_dbGet [frame_rules]: "keeps (frame view X) (dbGet P k)"
  by (rule keeps_reads [OF reads_dbGet reflp_frame])

lemma frame_GetAddressBalance [frame_rules]: "keeps (frame view X) (GetAddressBalance P G a n)"
  unfolding GetAddressBalance_def case_prod_beta by (intro frame_rules)

lemma frame_GetBalanceHistory [frame_rules]: "keeps (frame view X) (GetBalanceHistory P G a lo hi l o')"
  unfolding GetBalanceHistory_def case_prod_beta by (intro frame_rules)

lemma frame_UpdateBalance [frame_rules]:
  "keeps (frame view (core G)) (UpdateBalance P G a n d h)"
  unfolding UpdateBalance_def Let_def
  by (intro frame_rules frame_sum; rule keeps_frame_update(1)) (intro frame_rules core_others)

lemma frame_SetBalance [frame_rules]: "keeps (frame view (core G)) (Storage_SetBalance P G a n b)"
  unfolding Storage_SetBalance_def by (intro frame_rules)


text \<open>A batch under construction: as long as its writes avoid \<open>X\<close>, so does what it commits.\<close>

definition bframe :: "(bytes \<Rightarrow> bool) \<Rightarrow> 'db storage \<times> pebbleBatch \<Rightarrow> 'db storage \<times> pebbleBatch \<Rightarrow> bool" where
  "bframe X x y \<longleftrightarrow> (avoids X (bOps (snd x)) \<longrightarrow> avoids X (bOps (snd y)) \<and> frame view X (fst x) (fst y))"

lemma bframe_refl: "reflp (bframe X)"
  by (simp add: reflp_def bframe_def)

lemma bframe_trans: "transp (bframe X)"
  unfolding transp_def bframe_def by (blast intro: frame_trans)

lemmas bframe_seq = keeps_andThen [OF bframe_trans] keeps_ret [OF bframe_refl] keeps_throw [OF bframe_refl]
  keeps_wrapping [OF bframe_refl bframe_trans] keeps_forEach [OF bframe_refl bframe_trans]
  keeps_fromOption [OF bframe_refl]

lemma bframe_bAdd: "\<not> X (op_key x) \<Longrightarrow> keeps (bframe X) (bAdd P x)"
  using record_ok by (auto simp: keeps_def bframe_def bAdd_def avoids_def split: prod.splits sum.splits dest!: record_ok)

lemma bframe_bumpCount: "keeps (bframe X) (bumpCount n t)"
  by (simp add: keeps_def bframe_def bumpCount_def split: prod.splits)

lemma bframe_indexLogToBatch: "keeps (bframe (core G)) (indexLogToBatch P G l)"
proof (cases l)
  case (Some x)
  have e: "keeps (bframe (core G)) (EncodeLog G (Some x))"
    by (simp add: EncodeLog_def bframe_seq)
  show ?thesis unfolding Some indexLogToBatch_def Let_def option.case
    by (intro bframe_seq bframe_bumpCount e; (simp add: bframe_seq bframe_bAdd)?)
qed (simp add: indexLogToBatch_def bframe_seq)


lemma bframe_commit: "keeps (bframe (core G)) (batch_Commit P)"
  unfolding batch_Commit_def
proof (intro bframe_seq)
  show "keeps (bframe (core G)) ensureBatchOpen"
    by (simp add: keeps_def bframe_def ensureBatchOpen_def split: prod.splits)
  show "keeps (bframe (core G)) (\<lambda>(s, b). if bTxCount b > 0
       then let newCount = txCount s + bTxCount b; s1 = s\<lparr>txCount := newCount\<rparr>
            in case bAdd P (BSet TransactionCountKey (EncodeUint64 newCount)) (s1, b) of
                 (Inl e, (s2, b2)) \<Rightarrow>
                   (Inl (Wrap ''failed to update transaction count'' e),
                    (s2\<lparr>txCount := txCount s2 + not (bTxCount b2 - 1)\<rparr>, b2))
               | (Inr _, sb) \<Rightarrow> (Inr (), sb)
       else (Inr (), (s, b)))"
    by (auto simp: keeps_def bframe_def bAdd_def Let_def avoids_def frame_def split: prod.splits sum.splits
        dest!: record_ok)
  show "keeps (bframe (core G)) (\<lambda>(s, b). onStorage (dbCommit P (bOps b)) (s, b))"
    using keeps_frame_dbCommit [of "core G"] unfolding keeps_def bframe_def onStorage_def
    by (auto split: prod.splits) (metis snd_conv)
qed

lemma frame_IndexLogs [frame_rules]: "keeps (frame view (core G)) (IndexLogs P G ls)"
proof -
  let ?m = "andThen (forEach (\<lambda>l. wrapping ''failed to index log'' (indexLogToBatch P G l)) ls) (\<lambda>_. batch_Commit P)"
  have "keeps (bframe (core G)) ?m" by (intro bframe_seq bframe_indexLogToBatch bframe_commit)
  then have "keeps (frame view (core G)) (runBatch ?m)"
    by (auto simp: keeps_def bframe_def runBatch_def NewBatch_def avoids_def split: prod.splits)
      (metis fst_conv snd_conv list.distinct(1) empty_iff list.set(1) pebbleBatch.select_convs(1))
  then show ?thesis unfolding IndexLogs_def by (rule keeps_frame_writable)
qed

end

section \<open>The steps of the fetcher\<close>

text \<open>Collaborators of the fetcher that leave the core tables alone.\<close>

definition tame :: "('db \<Rightarrow> bytes \<Rightarrow> bytes option) \<Rightarrow> geth \<Rightarrow> 'db collab \<Rightarrow> bool" where
  "tame view G H \<longleftrightarrow> (\<forall>h. keeps (frame view (core G)) (coFeePayer H h)) \<and>
     (\<forall>f. coToken H = Some f \<longrightarrow> (\<forall>a n. keeps (frame view (core G)) (f a n))) \<and>
     (\<forall>f. coSetCode H = Some f \<longrightarrow> (\<forall>t r b i. keeps (frame view (core G)) (f t r b i))) \<and>
     (\<forall>f. coUserOps H = Some f \<longrightarrow> (\<forall>b rs. keeps (frame view (core G)) (f b rs))) \<and>
     (\<forall>b. keeps (frame view (core G)) (coWBFT H b)) \<and> (\<forall>n. keeps (frame view (core G)) (coFeeMeta H n)) \<and>
     (\<forall>f. coSysEvents H = Some f \<longrightarrow> (\<forall>ls. keeps (frame view (core G)) (f ls))) \<and>
     keeps (frame view (core G)) (coGenesisTokens H) \<and>
     (\<forall>f\<in>set (coProcessors H). \<forall>b rs. keeps (frame view (core G)) (f b rs))"

context pebble_db
begin

lemma frame_indexTxAddresses: "tame view G H \<Longrightarrow> keeps (frame view (core G)) (indexTxAddresses P G H t)"
  unfolding indexTxAddresses_def tame_def by (elim conjE) (intro frame_rules, blast+)

lemma frame_indexCreation: "tame view G H \<Longrightarrow> keeps (frame view (core G)) (indexCreation P G J H b t r)"
  unfolding indexCreation_def tame_def by (elim conjE) (intro frame_rules, blast+)

lemma frame_indexTransferLog: "keeps (frame view (core G)) (indexTransferLog P G J n l)"
  unfolding indexTransferLog_def by (intro frame_rules)

lemma frame_processAddressIndexing:
  assumes "tame view G H"
  shows "keeps (frame view (core G)) (processAddressIndexing P G J H b rs)"
  unfolding processAddressIndexing_def case_prod_beta
  by (intro frame_rules frame_indexTxAddresses frame_indexCreation frame_indexTransferLog)
    (use assms in \<open>auto simp: tame_def\<close>)

end

end
