(* ===== verification/LargeBlock.thy ===== *)
theory LargeBlock
  imports Frame Gaps
begin

text \<open>
  Receipts of large blocks (\<^verbatim>\<open>pkg/fetch/large_block.go\<close>). A block with much gas, many receipts or a high
  memory estimate is handled in batches of 100 receipts by up to ten workers. \<open>canceled i\<close> is the state of the
  context when receipt \<open>i\<close> is reached. A nil receipt is a nil dereference, the error \<open>nilReceipt\<close>.
\<close>

definition largeBlockThreshold :: u64 where
  "largeBlockThreshold = 50000000"

definition receiptBatchSize :: nat where
  "receiptBatchSize = 100"

definition maxReceiptWorkers :: nat where
  "maxReceiptWorkers = 10"

definition nilReceipt :: serror where
  "nilReceipt = Panic ''invalid memory address or nil pointer dereference''"

section \<open>The decision\<close>

definition IsLargeBlock :: "block \<Rightarrow> bool" where
  "IsLargeBlock b \<longleftrightarrow> bGasUsed b \<ge> largeBlockThreshold"

fun countLogs :: "receipt option list \<Rightarrow> nat \<Rightarrow> nat option" where
  "countLogs [] n = Some n"
| "countLogs (None # rs) n = None"
| "countLogs (Some r # rs) n = countLogs rs (n + length (rLogs r))"

definition EstimateMemoryUsage :: "block \<Rightarrow> receipt option list \<Rightarrow> u64 option" where
  "EstimateMemoryUsage b receipts = (case countLogs receipts 0 of
     None \<Rightarrow> None
   | Some totalLogs \<Rightarrow> Some (500 + word_of_nat (length (bTxs b)) * 200 + word_of_nat (length receipts) * 300 +
       word_of_nat totalLogs * 150))"

definition ShouldProcessInBatches :: "block \<Rightarrow> receipt option list \<Rightarrow> ('s, bool) op" where
  "ShouldProcessInBatches b receipts =
     (if IsLargeBlock b then ret True
      else if length receipts > 1000 then ret True
      else case EstimateMemoryUsage b receipts of
          None \<Rightarrow> throw nilReceipt
        | Some estimatedMemory \<Rightarrow> ret (estimatedMemory > 100 * (1024 * 1024)))"

section \<open>One receipt, one batch\<close>

definition saveTransferLog :: "'db pebble \<Rightarrow> geth \<Rightarrow> addrJson \<Rightarrow> u64 \<Rightarrow> log \<Rightarrow> ('db storage, unit) op" where
  "saveTransferLog P G J blockTime l =
     (if lTopics l = [] then ret ()
      else if hashHex G (lTopics l ! 0) \<noteq> ERC20TransferTopic then ret ()
      else if length (lTopics l) = 3
      then if length (lData l) < 32 then ret ()
           else wrapping ''failed to save ERC20 transfer'' (SaveERC20Transfer P G J (Some (transferOfLog20 G blockTime l)))
      else if length (lTopics l) = 4
      then wrapping ''failed to save ERC721 transfer'' (SaveERC721Transfer P G J (Some (transferOfLog721 G blockTime l)))
      else ret ())"

text \<open>\<^verbatim>\<open>processAddressIndexing\<close> of the processor, for one transaction. Its first failing write ends it.\<close>

definition largeAddressIndexing :: "'db pebble \<Rightarrow> geth \<Rightarrow> addrJson \<Rightarrow> 'db collab \<Rightarrow> tx \<Rightarrow> receipt \<Rightarrow> u64 \<Rightarrow> u64 \<Rightarrow>
    ('db storage, unit) op" where
  "largeAddressIndexing P G J H t r blockNumber blockTime =
     andThen (indexTxAddresses P G H t) (\<lambda>_.
     andThen (if tTo t = None \<and> rContractAddress r \<noteq> 0
        then andThen (wrapping ''failed to save contract creation'' (SaveContractCreation P G J (Some
              \<lparr>ccContractAddress = rContractAddress r, ccCreator = tFrom t, ccTransactionHash = tHash t,
               ccBlockNumber = blockNumber, ccTimestamp = blockTime, ccBytecodeSize = 20\<rparr>))) (\<lambda>_.
          whenSome (coToken H) (\<lambda>indexToken. attempt (indexToken (rContractAddress r) blockNumber)))
        else ret ()) (\<lambda>_.
     forEach (saveTransferLog P G J blockTime) (rLogs r)))"

text \<open>\<^verbatim>\<open>txIndexMap\<close>: the last position of a transaction; a missing key reads as 0.\<close>

definition txIndexOf :: "tx list \<Rightarrow> hash \<Rightarrow> u64" where
  "txIndexOf ts h = foldl (\<lambda>acc (i, t). if tHash t = h then word_of_nat i else acc) 0 (enumerate 0 ts)"

definition indexReceipt :: "'db pebble \<Rightarrow> geth \<Rightarrow> addrJson \<Rightarrow> 'db collab \<Rightarrow> block \<Rightarrow> receipt \<Rightarrow> ('db storage, unit) op" where
  "indexReceipt P G J H b r =
     andThen (if rLogs r \<noteq> [] then attempt (IndexLogs P G (map Some (rLogs r))) else ret ()) (\<lambda>_.
     whenSome (find (\<lambda>t. tHash t = rTxHash r) (bTxs b)) (\<lambda>t.
       andThen (attempt (largeAddressIndexing P G J H t r (bNumber b) (bTime b))) (\<lambda>_.
       whenSome (coSetCode H) (\<lambda>processSetCode.
         if tType t = 4 then attempt (processSetCode t r b (txIndexOf (bTxs b) (tHash t))) else ret ()))))"

definition processReceipt :: "'db pebble \<Rightarrow> geth \<Rightarrow> addrJson \<Rightarrow> 'db collab \<Rightarrow> (nat \<Rightarrow> bool) \<Rightarrow> block \<Rightarrow>
    nat \<times> receipt option \<Rightarrow> ('db storage, unit) op" where
  "processReceipt P G J H canceled b ir =
     (if canceled (fst ir) then throw ErrContext
      else case snd ir of
          None \<Rightarrow> throw nilReceipt
        | Some r \<Rightarrow>
            andThen (wrapping ''failed to store receipt for tx'' (SetReceipt P G (Some r))) (\<lambda>_.
            indexReceipt P G J H b r))"

definition processBatch :: "'db pebble \<Rightarrow> geth \<Rightarrow> addrJson \<Rightarrow> 'db collab \<Rightarrow> (nat \<Rightarrow> bool) \<Rightarrow> block \<Rightarrow>
    (nat \<times> receipt option) list \<Rightarrow> ('db storage, unit) op" where
  "processBatch P G J H canceled b receipts =
     andThen (forEach (processReceipt P G J H canceled b) receipts) (\<lambda>_.
     whenSome (coUserOps H) (\<lambda>processUserOps. attempt (processUserOps b (map snd receipts))))"

section \<open>The pool\<close>

text \<open>The batches sent to the workers, in order.\<close>

function batchesFrom :: "nat \<Rightarrow> nat \<Rightarrow> (nat \<times> nat) list" where
  "batchesFrom n i = (if i < n then (i, min (i + receiptBatchSize) n) # batchesFrom n (i + receiptBatchSize) else [])"
  by auto
termination by (relation "measure (\<lambda>(n, i). n - i)") (auto simp: receiptBatchSize_def)

declare batchesFrom.simps [simp del]

definition sliceOf :: "'a list \<Rightarrow> nat \<times> nat \<Rightarrow> (nat \<times> 'a) list" where
  "sliceOf xs se = drop (fst se) (take (snd se) (enumerate 0 xs))"

text \<open>
  The pool. Each batch is taken by one of the workers that are left, and takes effect as a whole;
  \<open>order\<close> is the order in which the batches take effect, with the workers that take them. A worker that fails
  takes no more batches, so that a batch with a failed worker stands for one nobody takes. The first
  error is returned.
\<close>

fun runPool :: "((nat \<times> nat) \<Rightarrow> ('s, unit) op) \<Rightarrow> nat list \<Rightarrow> (nat \<times> (nat \<times> nat)) list \<Rightarrow> serror list \<Rightarrow> 's \<Rightarrow> serror list \<times> 's" where
  "runPool work failed [] errs s = (errs, s)"
| "runPool work failed ((worker, b) # order) errs s =
     (if worker \<in> set failed then runPool work failed order errs s
      else case work b s of
          (Inl e, s') \<Rightarrow> runPool work (worker # failed) order (errs @ [e]) s'
        | (Inr _, s') \<Rightarrow> runPool work failed order errs s')"

definition numWorkersFor :: "nat \<Rightarrow> nat" where
  "numWorkersFor n = (let numBatches = (n + receiptBatchSize - 1) div receiptBatchSize in min numBatches maxReceiptWorkers)"

definition ProcessReceiptsParallel :: "'db pebble \<Rightarrow> geth \<Rightarrow> addrJson \<Rightarrow> 'db collab \<Rightarrow> (nat \<Rightarrow> bool) \<Rightarrow>
    (nat \<Rightarrow> (nat \<times> nat) list \<Rightarrow> (nat \<times> (nat \<times> nat)) list) \<Rightarrow> block \<Rightarrow> receipt option list \<Rightarrow> ('db storage, unit) op" where
  "ProcessReceiptsParallel P G J H canceled schedule b receipts =
     (if receipts = [] then ret ()
      else (\<lambda>s.
        case runPool (\<lambda>se. if canceled (fst se) then throw ErrContext
                 else wrapping ''worker failed to process receipts'' (processBatch P G J H canceled b (sliceOf receipts se))) []
               (schedule (numWorkersFor (length receipts)) (batchesFrom (length receipts) 0)) [] s of
            ([], s') \<Rightarrow> (Inr (), s')
          | (e # _, s') \<Rightarrow> (Inl e, s')))"

section \<open>The batches cover the receipts\<close>

lemma drop_take_join:
  assumes "i \<le> j"
  shows "drop i (take j ys) @ drop j ys = drop i ys"
proof -
  have "drop i ys = drop i (take j ys @ drop j ys)" by simp
  also have "\<dots> = drop i (take j ys) @ drop (i - min (length ys) j) (drop j ys)" by (simp only: drop_append length_take)
  finally show ?thesis using assms by (cases "j \<le> length ys") simp_all
qed

lemma batchesFrom_cover:
  "i \<le> length xs \<Longrightarrow> concat (map (sliceOf xs) (batchesFrom (length xs) i)) = drop i (enumerate 0 xs)"
proof (induction "length xs" i rule: batchesFrom.induct)
  case (1 i)
  show ?case
  proof (cases "i < length xs")
    case True
    let ?j = "min (i + receiptBatchSize) (length xs)"
    have "concat (map (sliceOf xs) (batchesFrom (length xs) (i + receiptBatchSize))) = drop ?j (enumerate 0 xs)"
    proof (cases "i + receiptBatchSize \<le> length xs")
      case False
      then show ?thesis by (simp add: batchesFrom.simps)
    qed (use 1(1) True in \<open>simp add: min_def\<close>)
    moreover have "i \<le> ?j" using True by simp
    ultimately show ?thesis using True by (subst batchesFrom.simps) (simp add: sliceOf_def drop_take_join)
  qed (use 1(2) in \<open>simp add: batchesFrom.simps\<close>)
qed

lemma slice_length: "length (sliceOf xs (i, min (i + receiptBatchSize) n)) \<le> receiptBatchSize"
  by (auto simp: sliceOf_def min_def)

lemma batchesFrom_shape: "se \<in> set (batchesFrom n i) \<Longrightarrow> fst se < snd se \<and> snd se \<le> n \<and> snd se \<le> fst se + receiptBatchSize"
proof (induction n i rule: batchesFrom.induct)
  case (1 n i)
  then show ?case by (subst (asm) (2) batchesFrom.simps) (auto simp: receiptBatchSize_def split: if_splits)
qed

section \<open>Every receipt is stored\<close>

text \<open>\<open>receipts_grow\<close>: heights and blocks stay, receipts are only added.\<close>

definition receipts_grow :: "('db \<Rightarrow> bytes \<Rightarrow> bytes option) \<Rightarrow> geth \<Rightarrow> 'db storage \<Rightarrow> 'db storage \<Rightarrow> bool" where
  "receipts_grow view G s s' \<longleftrightarrow> frame view (\<lambda>k. k = LatestHeightKey \<or> (\<exists>h. k = BlockKey h)) s s' \<and>
     (\<forall>x. view (db s) (ReceiptKey G x) \<noteq> None \<longrightarrow> view (db s') (ReceiptKey G x) \<noteq> None)"

lemma receipts_grow_refl: "reflp (receipts_grow view G)"
  by (simp add: reflp_def receipts_grow_def)

lemma receipts_grow_trans: "transp (receipts_grow view G)"
  unfolding transp_def receipts_grow_def by (blast intro: frame_trans)

lemma grow_trans: "receipts_grow view G a b \<Longrightarrow> receipts_grow view G b c \<Longrightarrow> receipts_grow view G a c"
  using receipts_grow_trans by (rule transpD)

lemma grow_same: "receipts_grow view G s s"
  using receipts_grow_refl by (rule reflpD)

lemma grow_receipt:
  "receipts_grow view G s s' \<Longrightarrow> view (db s) (ReceiptKey G x) \<noteq> None \<Longrightarrow> view (db s') (ReceiptKey G x) \<noteq> None"
  by (simp add: receipts_grow_def)

lemma frame_receipts_grow: "frame view (core G) s s' \<Longrightarrow> receipts_grow view G s s'"
  using frame_weaken [of view "core G" s s'] by (auto simp: receipts_grow_def frame_def)

lemma keeps_frame_grow: "keeps (frame view (core G)) m \<Longrightarrow> keeps (receipts_grow view G) m"
  by (simp add: keeps_def frame_receipts_grow)

named_theorems grow_rules \<open>operations that leave heights and blocks alone and lose no receipt\<close>

lemmas grow_seq [grow_rules] =
  keeps_andThen [OF receipts_grow_trans] keeps_ret [OF receipts_grow_refl] keeps_throw [OF receipts_grow_refl]
  keeps_wrapping [OF receipts_grow_refl receipts_grow_trans] keeps_catch [OF receipts_grow_trans]
  keeps_forEach [OF receipts_grow_refl receipts_grow_trans] keeps_fromOption [OF receipts_grow_refl]

lemma grow_attempt [grow_rules]: "keeps (receipts_grow view G) m \<Longrightarrow> keeps (receipts_grow view G) (attempt m)"
  unfolding attempt_def by (intro grow_rules)

lemma grow_whenSome [grow_rules]:
  "(\<And>y. x = Some y \<Longrightarrow> keeps (receipts_grow view G) (f y)) \<Longrightarrow> keeps (receipts_grow view G) (whenSome x f)"
  by (cases x) (simp_all add: whenSome_def grow_rules)

lemma grow_if [grow_rules]:
  "(c \<Longrightarrow> keeps (receipts_grow view G) m) \<Longrightarrow> (\<not> c \<Longrightarrow> keeps (receipts_grow view G) m') \<Longrightarrow>
   keeps (receipts_grow view G) (if c then m else m')"
  by simp

lemma grow_option [grow_rules]:
  "(x = None \<Longrightarrow> keeps (receipts_grow view G) m) \<Longrightarrow> (\<And>y. x = Some y \<Longrightarrow> keeps (receipts_grow view G) (f y)) \<Longrightarrow>
   keeps (receipts_grow view G) (case x of None \<Rightarrow> m | Some y \<Rightarrow> f y)"
  by (cases x) simp_all

context pebble_db
begin

lemma grow_dbSet: "k \<noteq> LatestHeightKey \<Longrightarrow> (\<And>h. k \<noteq> BlockKey h) \<Longrightarrow> keeps (receipts_grow view G) (dbSet P k v)"
  unfolding keeps_def
proof
  fix s
  assume k: "k \<noteq> LatestHeightKey" "\<And>h. k \<noteq> BlockKey h"
  obtain r s' where s: "dbSet P k v s = (r, s')" by (metis surj_pair)
  show "receipts_grow view G s (snd (dbSet P k v s))"
    using k s dbSet_Inr [of k v s _ s'] dbSet_Inl [of k v s _ s']
    by (cases r) (auto simp: receipts_grow_def frame_def only_db_def)
qed

lemma grow_SetReceipt [grow_rules]: "keeps (receipts_grow view G) (SetReceipt P G r)"
proof -
  have c: "keeps (receipts_grow view G) (check e)" for e
    by (cases e) (simp_all add: check_def grow_rules)
  have e: "keeps (receipts_grow view G) (EncodeReceipt G x)" for x
    by (cases x) (simp_all add: EncodeReceipt_def grow_rules)
  have "keeps (receipts_grow view G) ensureNotClosed" "keeps (receipts_grow view G) ensureNotReadOnly"
    by (rule keeps_frame_grow, rule frame_rules)+
  then show ?thesis unfolding SetReceipt_def writable_def
    by (intro grow_rules c e grow_dbSet) (auto simp: receipt_key_not_block [symmetric])
qed

lemma SetReceipt_stores:
  "SetReceipt P G (Some r) s = (Inr u, s') \<Longrightarrow> view (db s') (ReceiptKey G (rTxHash r)) \<noteq> None"
  using SetReceipt_grown [OF pebble_db_axioms] by blast


lemma HasReceipt_present:
  "\<not> closed s \<Longrightarrow> view (db s) (ReceiptKey G x) \<noteq> None \<Longrightarrow> HasReceipt P G x s = (Inr True, s)"
  by (auto simp: HasReceipt_def guard_simps andThen_def catch_def dbGet_eq)

lemma frame_saveTransferLog: "keeps (frame view (core G)) (saveTransferLog P G J n l)"
  unfolding saveTransferLog_def by (intro frame_rules)

lemma frame_largeAddressIndexing:
  assumes "tame view G H"
  shows "keeps (frame view (core G)) (largeAddressIndexing P G J H t r n m)"
  unfolding largeAddressIndexing_def
  by (intro frame_rules frame_indexTxAddresses frame_saveTransferLog) (use assms in \<open>auto simp: tame_def\<close>)

lemma grow_indexReceipt:
  assumes "tame view G H"
  shows "keeps (receipts_grow view G) (indexReceipt P G J H b r)"
  unfolding indexReceipt_def
  by (intro grow_rules keeps_frame_grow [OF frame_IndexLogs] keeps_frame_grow [OF frame_largeAddressIndexing] assms
      keeps_frame_grow) (use assms in \<open>auto simp: tame_def\<close>)

lemma grow_processBatch:
  assumes "tame view G H"
  shows "keeps (receipts_grow view G) (processBatch P G J H canceled b rs)"
  unfolding processBatch_def processReceipt_def
  by (intro grow_rules grow_indexReceipt assms keeps_frame_grow) (use assms in \<open>auto simp: tame_def\<close>)

lemma processReceipt_stores:
  assumes "tame view G H" "processReceipt P G J H canceled b (i, Some r) s = (Inr u, s')"
  shows "receipts_grow view G s s' \<and> view (db s') (ReceiptKey G (rTxHash r)) \<noteq> None"
proof -
  obtain s1 where s1: "SetReceipt P G (Some r) s = (Inr (), s1)" "indexReceipt P G J H b r s1 = (Inr u, s')"
    using assms(2) by (auto simp: processReceipt_def andThen_eq_Inr split: if_splits)
  have "receipts_grow view G s1 s'" "receipts_grow view G s s1"
    using grow_indexReceipt [OF assms(1), of J b r] grow_SetReceipt [of G "Some r"] s1 unfolding keeps_def by (metis snd_conv)+
  then show ?thesis using SetReceipt_stores [OF s1(1)] grow_receipt grow_trans by blast
qed

lemma forEach_processReceipt_stores:
  assumes "tame view G H" "forEach (processReceipt P G J H canceled b) rs s = (Inr u, s')"
  shows "receipts_grow view G s s' \<and> (\<forall>i r. (i, Some r) \<in> set rs \<longrightarrow> view (db s') (ReceiptKey G (rTxHash r)) \<noteq> None)"
  using assms(2)
proof (induction rs arbitrary: s)
  case (Cons ir rs)
  then obtain s1 where s1: "processReceipt P G J H canceled b ir s = (Inr (), s1)"
    "forEach (processReceipt P G J H canceled b) rs s1 = (Inr u, s')" by (auto simp: andThen_eq_Inr)
  obtain i r where ir: "ir = (i, Some r)"
    using s1(1) by (cases ir; cases "snd ir") (auto simp: processReceipt_def split: if_splits)
  note p = processReceipt_stores [OF assms(1) s1(1) [unfolded ir]]
  from Cons.IH [OF s1(2)] p have "receipts_grow view G s s'" "view (db s') (ReceiptKey G (rTxHash r)) \<noteq> None"
    using grow_trans grow_receipt by blast+
  with Cons.IH [OF s1(2)] ir show ?case by auto
qed (simp add: grow_same)

lemma processBatch_stores:
  assumes "tame view G H" "processBatch P G J H canceled b rs s = (Inr u, s')"
  shows "receipts_grow view G s s' \<and> (\<forall>i r. (i, Some r) \<in> set rs \<longrightarrow> view (db s') (ReceiptKey G (rTxHash r)) \<noteq> None)"
proof -
  let ?u = "whenSome (coUserOps H) (\<lambda>processUserOps. attempt (processUserOps b (map snd rs)))"
  obtain s1 where s1: "forEach (processReceipt P G J H canceled b) rs s = (Inr (), s1)" "?u s1 = (Inr u, s')"
    using assms(2) by (auto simp: processBatch_def andThen_eq_Inr)
  have "keeps (receipts_grow view G) ?u"
    by (intro grow_rules keeps_frame_grow) (use assms(1) in \<open>auto simp: tame_def\<close>)
  then have "receipts_grow view G s1 s'" using s1(2) unfolding keeps_def by (metis snd_conv)
  with forEach_processReceipt_stores [OF assms(1) s1(1)] show ?thesis using grow_trans grow_receipt by meson
qed

end

lemma runPool_errors: "runPool work failed order errs s = (errs', s') \<Longrightarrow> \<exists>es. errs' = errs @ es"
proof (induction work failed order errs s rule: runPool.induct)
  case (2 work failed worker b order errs s)
  then show ?case by (auto split: if_splits prod.splits sum.splits)
qed simp

text \<open>A pool that ends without an error has done all the work it was given.\<close>

lemma runPool_all:
  assumes "\<And>b s s'. work b s = (Inr (), s') \<Longrightarrow> R s s' \<and> Q b s'" "\<And>b s s'. Q b s \<Longrightarrow> R s s' \<Longrightarrow> Q b s'" "reflp R" "transp R"
    and "runPool work [] order [] s = ([], s')"
  shows "R s s' \<and> (\<forall>b\<in>snd ` set order. Q b s')"
  using assms(5)
proof (induction order arbitrary: s)
  case (Cons wb order)
  obtain w b where wb: "wb = (w, b)" by (cases wb)
  obtain r s1 where r: "work b s = (r, s1)" by (metis surj_pair)
  have "\<exists>v. r = Inr v"
  proof (cases r)
    case (Inl e)
    then show ?thesis using Cons.prems runPool_errors [of work "[w]" order "[e]" s1 "[]" s'] wb r by simp
  qed simp
  then have ok: "work b s = (Inr (), s1)" "runPool work [] order [] s1 = ([], s')" using Cons.prems wb r by auto
  have "R s s1" "Q b s1" using assms(1) [OF ok(1)] by blast+
  with Cons.IH [OF ok(2)] assms(2,4) wb show ?case by (auto dest: transpD)
qed (use assms(3) in \<open>auto dest: reflpD\<close>)

lemma ProcessReceiptsParallel_present:
  assumes "pebble_db P view" "tame view G H"
    "set (batchesFrom (length receipts) 0) \<subseteq> snd ` set (schedule (numWorkersFor (length receipts)) (batchesFrom (length receipts) 0))"
    "ProcessReceiptsParallel P G J H canceled schedule b receipts s = (Inr u, s')"
  shows "receipts_grow view G s s' \<and> (\<forall>r. Some r \<in> set receipts \<longrightarrow> view (db s') (ReceiptKey G (rTxHash r)) \<noteq> None)"
proof (cases "receipts = []")
  case True
  then show ?thesis using assms(4) by (simp add: ProcessReceiptsParallel_def grow_same)
next
  case False
  let ?Q = "\<lambda>se s. \<forall>i r. (i, Some r) \<in> set (sliceOf receipts se) \<longrightarrow> view (db s) (ReceiptKey G (rTxHash r)) \<noteq> None"
  let ?work = "\<lambda>se. if canceled (fst se) then throw ErrContext
    else wrapping ''worker failed to process receipts'' (processBatch P G J H canceled b (sliceOf receipts se))"
  let ?order = "schedule (numWorkersFor (length receipts)) (batchesFrom (length receipts) 0)"
  have run: "runPool ?work [] ?order [] s = ([], s')"
    using assms(4) False
    by (auto simp: ProcessReceiptsParallel_def split: prod.splits list.splits)
  have step: "receipts_grow view G x y \<and> ?Q se y" if "?work se x = (Inr (), y)" for se x y
    using that pebble_db.processBatch_stores [OF assms(1,2)] by (simp split: if_splits)
  have keep: "?Q se y" if "?Q se x" "receipts_grow view G x y" for se x y
    using that grow_receipt by blast
  from runPool_all [of ?work "receipts_grow view G" ?Q, OF step keep receipts_grow_refl receipts_grow_trans run]
  have g: "receipts_grow view G s s'" and q: "\<forall>se\<in>set (batchesFrom (length receipts) 0). ?Q se s'"
    using assms(3) by auto
  have "view (db s') (ReceiptKey G (rTxHash r)) \<noteq> None" if r: "Some r \<in> set receipts" for r
  proof -
    obtain i where "i < length receipts" "receipts ! i = Some r" using r by (metis in_set_conv_nth)
    then have "(i, Some r) \<in> set (enumerate 0 receipts)" by (simp add: in_set_enumerate_eq)
    then have "(i, Some r) \<in> set (concat (map (sliceOf receipts) (batchesFrom (length receipts) 0)))"
      by (simp add: batchesFrom_cover)
    then show ?thesis using q by auto
  qed
  with g show ?thesis by blast
qed

lemma runPool_keeps:
  assumes "reflp R" "transp R" "\<And>b. keeps R (work b)"
  shows "R s (snd (runPool work failed order errs s))"
proof (induction order arbitrary: failed errs s)
  case (Cons wb order)
  obtain worker b where wb: "wb = (worker, b)" by (cases wb)
  obtain r s1 where w: "work b s = (r, s1)" by (metis surj_pair)
  have "R s s1" using assms(3) [of b] w unfolding keeps_def by (metis snd_conv)
  moreover have "R s1 (snd (runPool work failed' order errs' s1))" for failed' errs' by (rule Cons.IH)
  ultimately show ?case using Cons.IH wb w assms(2) by (auto split: sum.splits dest: transpD)
qed (use assms(1) in \<open>simp add: reflpD\<close>)

lemma grow_ProcessReceiptsParallel:
  assumes "pebble_db P view" "tame view G H"
  shows "keeps (receipts_grow view G) (ProcessReceiptsParallel P G J H canceled schedule b receipts)"
  unfolding keeps_def
proof
  fix s
  let ?work = "\<lambda>se. if canceled (fst se) then throw ErrContext
    else wrapping ''worker failed to process receipts'' (processBatch P G J H canceled b (sliceOf receipts se))"
  have "keeps (receipts_grow view G) (?work se)" for se
    by (simp add: grow_rules pebble_db.grow_processBatch [OF assms])
  note run = runPool_keeps [of "receipts_grow view G" ?work, OF receipts_grow_refl receipts_grow_trans this]
  show "receipts_grow view G s (snd (ProcessReceiptsParallel P G J H canceled schedule b receipts s))"
    using run [of s "[]" "schedule (numWorkersFor (length receipts)) (batchesFrom (length receipts) 0)" "[]"]
    by (auto simp: ProcessReceiptsParallel_def grow_same split: prod.splits list.splits)
qed

text \<open>
  Large blocks. Whatever the order in which the workers take the batches, if all batches are
  taken and \<^verbatim>\<open>ProcessReceiptsParallel\<close> reports success, then every receipt of the block is in the storage,
  no receipt that was there is lost, and blocks and latest height are as before.
\<close>

theorem ProcessReceiptsParallel_stores:
  assumes "pebble_db P view" "tame view G H" "\<not> closed s"
    "set (batchesFrom (length receipts) 0) \<subseteq> snd ` set (schedule (numWorkersFor (length receipts)) (batchesFrom (length receipts) 0))"
    "ProcessReceiptsParallel P G J H canceled schedule b receipts s = (Inr u, s')"
  shows "receipts_grow view G s s' \<and> (\<forall>r. Some r \<in> set receipts \<longrightarrow> HasReceipt P G (rTxHash r) s' = (Inr True, s'))"
proof -
  note p = ProcessReceiptsParallel_present [OF assms(1,2,4,5)]
  then have "\<not> closed s'" using assms(3) by (simp add: receipts_grow_def frame_def)
  then show ?thesis using p pebble_db.HasReceipt_present [OF assms(1)] by blast
qed

text \<open>Collaborators that do nothing.\<close>

definition quiet :: "'db collab" where
  "quiet = \<lparr>coFeePayer = (\<lambda>_. ret None), coToken = None, coSetCode = None, coUserOps = None, coWBFT = (\<lambda>_. ret ()),
     coFeeMeta = (\<lambda>_. ret ()), coSysEvents = None, coGenesisTokens = ret (), coProcessors = []\<rparr>"

lemma quiet_simps: "coToken quiet = None" "coSetCode quiet = None" "coUserOps quiet = None" "coFeePayer quiet h = ret None"
  "coWBFT quiet b = ret ()" "coFeeMeta quiet n = ret ()" "coSysEvents quiet = None" "coGenesisTokens quiet = ret ()"
  "coProcessors quiet = []"
  by (simp_all add: quiet_def)

lemma tame_quiet: "tame view G quiet"
  by (simp add: tame_def quiet_def frame_rules)

lemma attempt_Inr [simp]: "attempt m s = (Inr (), snd (m s))"
  by (auto simp: attempt_def catch_def split: prod.splits sum.splits)

theorem ProcessReceiptsParallel_stores_witness:
  "\<exists>s'. ProcessReceiptsParallel memPebble sampleGeth sampleJson quiet (\<lambda>_. False) (\<lambda>n. map (Pair 0)) sampleBlock
      [Some sampleReceipt] (emptyStorage []) = (Inr (), s') \<and>
    HasReceipt memPebble sampleGeth 21 s' = (Inr True, s')"
proof -
  let ?s = "emptyStorage ([] :: (bytes \<times> bytes) list)"
  obtain s1 where s1: "SetReceipt memPebble sampleGeth (Some sampleReceipt) ?s = (Inr (), s1)"
    by (simp add: SetReceipt_def guard_simps andThen_def wrapping_def catch_def
        check_def validateReceipt_def EncodeReceipt_def fromOption_def sampleGeth_def refGeth_def sample_defs
        dbSet_def liftWrite_def memPebble_def emptyStorage_def DefaultConfig_def)
  have b: "batchesFrom (Suc 0) 0 = [(0, Suc 0)]" by (simp add: batchesFrom.simps receiptBatchSize_def)
  have f: "find (\<lambda>t. tHash t = rTxHash sampleReceipt) (bTxs sampleBlock) = Some sampleTx" "rLogs sampleReceipt = []"
    by (simp_all add: sample_defs)
  obtain s' where "processBatch memPebble sampleGeth sampleJson quiet (\<lambda>_. False) sampleBlock [(0, Some sampleReceipt)] ?s =
      (Inr (), s')"
    using f by (simp add: processBatch_def processReceipt_def s1 andThen_def indexReceipt_def whenSome_def quiet_simps
        wrapping_def catch_def)
  then have s': "ProcessReceiptsParallel memPebble sampleGeth sampleJson quiet (\<lambda>_. False) (\<lambda>n. map (Pair 0)) sampleBlock
      [Some sampleReceipt] ?s = (Inr (), s')"
    by (simp add: ProcessReceiptsParallel_def b sliceOf_def wrapping_def catch_def)
  have "\<not> closed ?s" by (simp add: emptyStorage_def)
  from ProcessReceiptsParallel_stores [OF memPebble.pebble_db_axioms tame_quiet this _ s'] s'
  show ?thesis by (auto simp: sampleReceipt_def image_image)
qed

end
