(* ===== verification/Metrics.thy ===== *)
theory Metrics
  imports Prelude
begin

text \<open>
  Performance metrics of the fetcher and the adaptive optimizer
  (\<^verbatim>\<open>pkg/fetch/metrics.go\<close>, \<^verbatim>\<open>pkg/fetch/optimizer.go\<close>). Floating-point arithmetic is a
  parameter, the record \<open>floats\<close>: nothing here depends on how \<^verbatim>\<open>float64\<close> rounds. The clock is the
  argument \<open>now\<close>, in nanoseconds; an operation that reads it twice gets two arguments where it matters.
  The read-write mutex the metrics share is modelled in the last section.
\<close>

record 'f floats =
  flOfU64 :: "u64 \<Rightarrow> 'f"
  flOfInt :: "int \<Rightarrow> 'f"
  flSeconds :: "int \<Rightarrow> 'f"
  flHalf :: 'f
  flDiv :: "'f \<Rightarrow> 'f \<Rightarrow> 'f"
  flMul :: "'f \<Rightarrow> 'f \<Rightarrow> 'f"
  flSub :: "'f \<Rightarrow> 'f \<Rightarrow> 'f"
  flLess :: "'f \<Rightarrow> 'f \<Rightarrow> bool"
  flCeil :: "'f \<Rightarrow> int"

section \<open>The metrics\<close>

record 'f RPCMetrics =
  totalRequests :: u64
  successRequests :: u64
  errorRequests :: u64
  totalResponseTime :: u64
  minResponseTime :: u64
  maxResponseTime :: u64
  recentResponseTimes :: "u64 list"
  recentErrors :: "bool list"
  rateLimitErrors :: u64
  lastRateLimitTime :: gotime
  rateLimitDetected :: bool
  consecutiveErrors :: u64
  maxConsecutiveErrs :: u64
  blocksProcessed :: u64
  receiptsProcessed :: u64
  startTime :: gotime
  lastThroughputUpdate :: gotime
  currentThroughput :: 'f
  optimalWorkerCount :: int
  optimalBatchSize :: int
  windowSize :: nat
  rateLimitWindow :: int

definition NewRPCMetrics :: "'f floats \<Rightarrow> nat \<Rightarrow> int \<Rightarrow> gotime \<Rightarrow> 'f RPCMetrics" where
  "NewRPCMetrics F window limitWindow now =
     \<lparr>totalRequests = 0, successRequests = 0, errorRequests = 0, totalResponseTime = 0,
      minResponseTime = - 1, maxResponseTime = 0, recentResponseTimes = [], recentErrors = [],
      rateLimitErrors = 0, lastRateLimitTime = 0, rateLimitDetected = False, consecutiveErrors = 0,
      maxConsecutiveErrs = 0, blocksProcessed = 0, receiptsProcessed = 0, startTime = now,
      lastThroughputUpdate = now, currentThroughput = flOfInt F 0, optimalWorkerCount = 100,
      optimalBatchSize = 10, windowSize = window, rateLimitWindow = limitWindow\<rparr>"

text \<open>Appending to a sliding window drops the oldest entry of a full one.\<close>

definition slide :: "nat \<Rightarrow> 'a list \<Rightarrow> 'a \<Rightarrow> 'a list" where
  "slide n xs x = (let ys = xs @ [x] in if length ys > n then tl ys else ys)"

text \<open>\<^verbatim>\<open>Duration.Milliseconds\<close> rounds towards zero; the result is converted to 64 bits.\<close>

definition Milliseconds :: "int \<Rightarrow> u64" where
  "Milliseconds d = word_of_int (sgn d * (\<bar>d\<bar> div 1000000))"

definition RecordRequest :: "gotime \<Rightarrow> int \<Rightarrow> bool \<Rightarrow> bool \<Rightarrow> 'f RPCMetrics \<Rightarrow> 'f RPCMetrics" where
  "RecordRequest now responseTime isError isRateLimitError m =
     (let ms = Milliseconds responseTime;
          m = m\<lparr>totalRequests := totalRequests m + 1\<rparr>;
          m = (if isError
               then let m = m\<lparr>errorRequests := errorRequests m + 1, consecutiveErrors := consecutiveErrors m + 1\<rparr>
                    in if consecutiveErrors m > maxConsecutiveErrs m
                       then m\<lparr>maxConsecutiveErrs := consecutiveErrors m\<rparr> else m
               else m\<lparr>successRequests := successRequests m + 1, consecutiveErrors := 0\<rparr>);
          m = (if isRateLimitError
               then m\<lparr>rateLimitErrors := rateLimitErrors m + 1, lastRateLimitTime := now, rateLimitDetected := True\<rparr>
               else m);
          m = (if \<not> isError
               then m\<lparr>totalResponseTime := totalResponseTime m + ms,
                  minResponseTime := if ms < minResponseTime m then ms else minResponseTime m,
                  maxResponseTime := if ms > maxResponseTime m then ms else maxResponseTime m,
                  recentResponseTimes := slide (windowSize m) (recentResponseTimes m) ms\<rparr>
               else m);
          m = m\<lparr>recentErrors := slide (windowSize m) (recentErrors m) isError\<rparr>
      in if rateLimitDetected m \<and> now - lastRateLimitTime m > rateLimitWindow m
         then m\<lparr>rateLimitDetected := False\<rparr> else m)"

definition RecordBlockProcessed :: "'f floats \<Rightarrow> gotime \<Rightarrow> nat \<Rightarrow> 'f RPCMetrics \<Rightarrow> 'f RPCMetrics" where
  "RecordBlockProcessed F now receiptCount m =
     (let m = m\<lparr>blocksProcessed := blocksProcessed m + 1,
          receiptsProcessed := receiptsProcessed m + word_of_nat receiptCount\<rparr>
      in if now - lastThroughputUpdate m \<ge> 1000000000
         then let elapsed = flSeconds F (now - startTime m);
                  m = (if flLess F (flOfInt F 0) elapsed
                       then m\<lparr>currentThroughput := flDiv F (flOfU64 F (blocksProcessed m)) elapsed\<rparr> else m)
              in m\<lparr>lastThroughputUpdate := now\<rparr>
         else m)"

definition GetAverageResponseTime :: "'f RPCMetrics \<Rightarrow> u64" where
  "GetAverageResponseTime m = (if successRequests m = 0 then 0 else totalResponseTime m div successRequests m)"

definition GetRecentAverageResponseTime :: "'f RPCMetrics \<Rightarrow> u64" where
  "GetRecentAverageResponseTime m =
     (if recentResponseTimes m = [] then 0
      else foldl (+) 0 (recentResponseTimes m) div word_of_nat (length (recentResponseTimes m)))"

definition GetErrorRate :: "'f floats \<Rightarrow> 'f RPCMetrics \<Rightarrow> 'f" where
  "GetErrorRate F m = (if totalRequests m = 0 then flOfInt F 0
     else flDiv F (flOfU64 F (errorRequests m)) (flOfU64 F (totalRequests m)))"

definition GetRecentErrorRate :: "'f floats \<Rightarrow> 'f RPCMetrics \<Rightarrow> 'f" where
  "GetRecentErrorRate F m = (if recentErrors m = [] then flOfInt F 0
     else flDiv F (flOfInt F (int (length (filter id (recentErrors m))))) (flOfInt F (int (length (recentErrors m)))))"

definition GetSuccessRate :: "'f floats \<Rightarrow> 'f RPCMetrics \<Rightarrow> 'f" where
  "GetSuccessRate F m = flSub F (flOfInt F 1) (GetErrorRate F m)"

definition IsRateLimited :: "'f RPCMetrics \<Rightarrow> bool" where
  "IsRateLimited m = rateLimitDetected m"

definition SetOptimalWorkerCount :: "int \<Rightarrow> 'f RPCMetrics \<Rightarrow> 'f RPCMetrics" where
  "SetOptimalWorkerCount count m = m\<lparr>optimalWorkerCount := count\<rparr>"

definition SetOptimalBatchSize :: "int \<Rightarrow> 'f RPCMetrics \<Rightarrow> 'f RPCMetrics" where
  "SetOptimalBatchSize sz m = m\<lparr>optimalBatchSize := sz\<rparr>"

record 'f MetricsSnapshot =
  msTotalRequests :: u64
  msSuccessRequests :: u64
  msErrorRequests :: u64
  msErrorRate :: 'f
  msRecentErrorRate :: 'f
  msAverageResponseTime :: u64
  msRecentAvgResponseTime :: u64
  msMinResponseTime :: u64
  msMaxResponseTime :: u64
  msRateLimitErrors :: u64
  msRateLimitDetected :: bool
  msConsecutiveErrors :: u64
  msMaxConsecutiveErrors :: u64
  msBlocksProcessed :: u64
  msReceiptsProcessed :: u64
  msThroughput :: 'f
  msOptimalWorkerCount :: int
  msOptimalBatchSize :: int
  msUptime :: int

definition GetStats :: "'f floats \<Rightarrow> gotime \<Rightarrow> 'f RPCMetrics \<Rightarrow> 'f MetricsSnapshot" where
  "GetStats F now m =
     \<lparr>msTotalRequests = totalRequests m, msSuccessRequests = successRequests m,
      msErrorRequests = errorRequests m, msErrorRate = GetErrorRate F m,
      msRecentErrorRate = GetRecentErrorRate F m, msAverageResponseTime = GetAverageResponseTime m,
      msRecentAvgResponseTime = GetRecentAverageResponseTime m, msMinResponseTime = minResponseTime m,
      msMaxResponseTime = maxResponseTime m, msRateLimitErrors = rateLimitErrors m,
      msRateLimitDetected = rateLimitDetected m, msConsecutiveErrors = consecutiveErrors m,
      msMaxConsecutiveErrors = maxConsecutiveErrs m, msBlocksProcessed = blocksProcessed m,
      msReceiptsProcessed = receiptsProcessed m, msThroughput = currentThroughput m,
      msOptimalWorkerCount = optimalWorkerCount m, msOptimalBatchSize = optimalBatchSize m,
      msUptime = now - startTime m\<rparr>"

definition Metrics_Reset :: "'f floats \<Rightarrow> gotime \<Rightarrow> 'f RPCMetrics \<Rightarrow> 'f RPCMetrics" where
  "Metrics_Reset F now m =
     m\<lparr>totalRequests := 0, successRequests := 0, errorRequests := 0, totalResponseTime := 0,
       minResponseTime := - 1, maxResponseTime := 0, recentResponseTimes := [], recentErrors := [],
       rateLimitErrors := 0, rateLimitDetected := False, consecutiveErrors := 0,
       maxConsecutiveErrs := 0, blocksProcessed := 0, receiptsProcessed := 0, startTime := now,
       lastThroughputUpdate := now, currentThroughput := flOfInt F 0\<rparr>"

section \<open>The optimizer\<close>

record 'f AdaptiveOptimizer =
  minWorkers :: int
  maxWorkers :: int
  minBatchSize :: int
  maxBatchSize :: int
  adjustmentInterval :: int
  targetErrorRate :: 'f
  maxErrorRate :: 'f
  targetResponseTime :: u64
  rateLimitThreshold :: u64
  workerIncreaseFactor :: 'f
  workerDecreaseFactor :: 'f
  batchIncreaseFactor :: 'f
  batchDecreaseFactor :: 'f
  lastAdjustment :: gotime

record 'f OptimizerConfig =
  ocMinWorkers :: int
  ocMaxWorkers :: int
  ocMinBatchSize :: int
  ocMaxBatchSize :: int
  ocAdjustmentInterval :: int
  ocTargetErrorRate :: 'f
  ocMaxErrorRate :: 'f
  ocTargetResponseTime :: u64
  ocRateLimitThreshold :: u64
  ocWorkerIncreaseFactor :: 'f
  ocWorkerDecreaseFactor :: 'f
  ocBatchIncreaseFactor :: 'f
  ocBatchDecreaseFactor :: 'f

text \<open>The decimal constants are quotients of small integers, which \<^verbatim>\<open>float64\<close> rounds the same way.\<close>

definition DefaultOptimizerConfig :: "'f floats \<Rightarrow> 'f OptimizerConfig" where
  "DefaultOptimizerConfig F =
     \<lparr>ocMinWorkers = 1, ocMaxWorkers = 1000, ocMinBatchSize = 5, ocMaxBatchSize = 50,
      ocAdjustmentInterval = 30 * 1000000000,
      ocTargetErrorRate = flDiv F (flOfInt F 1) (flOfInt F 100),
      ocMaxErrorRate = flDiv F (flOfInt F 5) (flOfInt F 100),
      ocTargetResponseTime = 500, ocRateLimitThreshold = 10,
      ocWorkerIncreaseFactor = flDiv F (flOfInt F 12) (flOfInt F 10),
      ocWorkerDecreaseFactor = flDiv F (flOfInt F 8) (flOfInt F 10),
      ocBatchIncreaseFactor = flDiv F (flOfInt F 15) (flOfInt F 10),
      ocBatchDecreaseFactor = flDiv F (flOfInt F 75) (flOfInt F 100)\<rparr>"

definition NewAdaptiveOptimizer :: "'f floats \<Rightarrow> 'f OptimizerConfig option \<Rightarrow> gotime \<Rightarrow> 'f AdaptiveOptimizer" where
  "NewAdaptiveOptimizer F config now =
     (let c = (case config of None \<Rightarrow> DefaultOptimizerConfig F | Some c \<Rightarrow> c) in
      \<lparr>minWorkers = ocMinWorkers c, maxWorkers = ocMaxWorkers c, minBatchSize = ocMinBatchSize c,
       maxBatchSize = ocMaxBatchSize c, adjustmentInterval = ocAdjustmentInterval c,
       targetErrorRate = ocTargetErrorRate c, maxErrorRate = ocMaxErrorRate c,
       targetResponseTime = ocTargetResponseTime c, rateLimitThreshold = ocRateLimitThreshold c,
       workerIncreaseFactor = ocWorkerIncreaseFactor c, workerDecreaseFactor = ocWorkerDecreaseFactor c,
       batchIncreaseFactor = ocBatchIncreaseFactor c, batchDecreaseFactor = ocBatchDecreaseFactor c,
       lastAdjustment = now\<rparr>)"

definition ShouldAdjust :: "gotime \<Rightarrow> 'f AdaptiveOptimizer \<Rightarrow> bool" where
  "ShouldAdjust now opt \<longleftrightarrow> now - lastAdjustment opt \<ge> adjustmentInterval opt"

definition clampWorkers :: "'f AdaptiveOptimizer \<Rightarrow> int \<Rightarrow> int" where
  "clampWorkers opt count =
     (if count < minWorkers opt then minWorkers opt
      else if count > maxWorkers opt then maxWorkers opt else count)"

definition clampBatchSize :: "'f AdaptiveOptimizer \<Rightarrow> int \<Rightarrow> int" where
  "clampBatchSize opt sz =
     (if sz < minBatchSize opt then minBatchSize opt
      else if sz > maxBatchSize opt then maxBatchSize opt else sz)"

definition scaled :: "'f floats \<Rightarrow> int \<Rightarrow> 'f \<Rightarrow> int" where
  "scaled F n factor = flCeil F (flMul F (flOfInt F n) factor)"

definition calculateOptimalWorkers :: "'f floats \<Rightarrow> 'f AdaptiveOptimizer \<Rightarrow> 'f MetricsSnapshot \<Rightarrow> int" where
  "calculateOptimalWorkers F opt stats =
     (let current = msOptimalWorkerCount stats in
      if msRateLimitDetected stats then clampWorkers opt (scaled F current (flHalf F))
      else if msConsecutiveErrors stats \<ge> rateLimitThreshold opt
      then clampWorkers opt (scaled F current (workerDecreaseFactor opt))
      else if flLess F (maxErrorRate opt) (msRecentErrorRate stats)
      then clampWorkers opt (scaled F current (workerDecreaseFactor opt))
      else if flLess F (msRecentErrorRate stats) (targetErrorRate opt) \<and>
        msRecentAvgResponseTime stats < targetResponseTime opt
      then clampWorkers opt (scaled F current (workerIncreaseFactor opt))
      else if msRecentAvgResponseTime stats > targetResponseTime opt * 2
      then clampWorkers opt (scaled F current (workerDecreaseFactor opt))
      else current)"

definition calculateOptimalBatchSize :: "'f floats \<Rightarrow> 'f AdaptiveOptimizer \<Rightarrow> 'f MetricsSnapshot \<Rightarrow> int" where
  "calculateOptimalBatchSize F opt stats =
     (let current = msOptimalBatchSize stats in
      if msRateLimitDetected stats \<or> flLess F (maxErrorRate opt) (msRecentErrorRate stats)
      then clampBatchSize opt (scaled F current (batchDecreaseFactor opt))
      else if msRecentAvgResponseTime stats < targetResponseTime opt div 2 \<and>
        flLess F (msRecentErrorRate stats) (targetErrorRate opt)
      then clampBatchSize opt (scaled F current (batchIncreaseFactor opt))
      else if msRecentAvgResponseTime stats > targetResponseTime opt * 2
      then clampBatchSize opt (scaled F current (batchDecreaseFactor opt))
      else current)"

text \<open>The optimizer and the metrics it steers.\<close>

definition Optimize :: "'f floats \<Rightarrow> gotime \<Rightarrow> 'f AdaptiveOptimizer \<times> 'f RPCMetrics \<Rightarrow>
    'f AdaptiveOptimizer \<times> 'f RPCMetrics" where
  "Optimize F now om = (case om of (opt, m) \<Rightarrow>
     if \<not> ShouldAdjust now opt then (opt, m)
     else let stats = GetStats F now m;
              newWorkerCount = calculateOptimalWorkers F opt stats;
              newBatchSize = calculateOptimalBatchSize F opt stats
          in (opt\<lparr>lastAdjustment := now\<rparr>,
              SetOptimalBatchSize newBatchSize (SetOptimalWorkerCount newWorkerCount m)))"

text \<open>
  \<^verbatim>\<open>ForceAdjustment\<close> sets the time of the last adjustment to the zero time, the year 1; \<open>zeroTime\<close> is
  that moment on the clock of \<open>now\<close>.
\<close>

definition ForceAdjustment :: "'f floats \<Rightarrow> gotime \<Rightarrow> gotime \<Rightarrow> 'f AdaptiveOptimizer \<times> 'f RPCMetrics \<Rightarrow>
    'f AdaptiveOptimizer \<times> 'f RPCMetrics" where
  "ForceAdjustment F zeroTime now om =
     (case om of (opt, m) \<Rightarrow> Optimize F now (opt\<lparr>lastAdjustment := zeroTime\<rparr>, m))"

definition GetRecommendedWorkers :: "'f RPCMetrics \<Rightarrow> int" where
  "GetRecommendedWorkers m = optimalWorkerCount m"

definition GetRecommendedBatchSize :: "'f RPCMetrics \<Rightarrow> int" where
  "GetRecommendedBatchSize m = optimalBatchSize m"

section \<open>What the metrics say of the requests\<close>

record request =
  rqNow :: gotime
  rqTime :: int
  rqError :: bool
  rqRateLimit :: bool

definition record1 :: "'f RPCMetrics \<Rightarrow> request \<Rightarrow> 'f RPCMetrics" where
  "record1 m r = RecordRequest (rqNow r) (rqTime r) (rqError r) (rqRateLimit r) m"

definition successes :: "request list \<Rightarrow> request list" where
  "successes rs = filter (\<lambda>r. \<not> rqError r) rs"

lemma slide_lastN: "slide n (lastN n xs) x = lastN n (xs @ [x])"
proof (cases "n = 0")
  case False
  then show ?thesis using lastN_snoc [of n xs x] length_lastN [of n xs]
    by (auto simp: slide_def lastN_def)
qed (simp add: slide_def lastN_def)

text \<open>\<open>summary rs m\<close>: the counters and windows of \<open>m\<close> are those of the requests \<open>rs\<close>.\<close>

definition summary :: "request list \<Rightarrow> 'f RPCMetrics \<Rightarrow> bool" where
  "summary rs m \<longleftrightarrow>
     totalRequests m = word_of_nat (length rs) \<and>
     successRequests m = word_of_nat (length (successes rs)) \<and>
     errorRequests m = word_of_nat (length (filter rqError rs)) \<and>
     totalResponseTime m = sum_list (map (Milliseconds \<circ> rqTime) (successes rs)) \<and>
     minResponseTime m = fold min (map (Milliseconds \<circ> rqTime) (successes rs)) (- 1) \<and>
     maxResponseTime m = fold max (map (Milliseconds \<circ> rqTime) (successes rs)) 0 \<and>
     recentResponseTimes m = lastN (windowSize m) (map (Milliseconds \<circ> rqTime) (successes rs)) \<and>
     recentErrors m = lastN (windowSize m) (map rqError rs) \<and>
     consecutiveErrors m = word_of_nat (length (takeWhile rqError (rev rs))) \<and>
     rateLimitErrors m = word_of_nat (length (filter rqRateLimit rs))"

lemma RecordRequest_fields [simp]:
  "totalRequests (RecordRequest now t e l m) = totalRequests m + 1"
  "successRequests (RecordRequest now t e l m) = (if e then successRequests m else successRequests m + 1)"
  "errorRequests (RecordRequest now t e l m) = (if e then errorRequests m + 1 else errorRequests m)"
  "totalResponseTime (RecordRequest now t e l m) =
     (if e then totalResponseTime m else totalResponseTime m + Milliseconds t)"
  "minResponseTime (RecordRequest now t e l m) = (if e then minResponseTime m else min (minResponseTime m) (Milliseconds t))"
  "maxResponseTime (RecordRequest now t e l m) = (if e then maxResponseTime m else max (maxResponseTime m) (Milliseconds t))"
  "recentResponseTimes (RecordRequest now t e l m) =
     (if e then recentResponseTimes m else slide (windowSize m) (recentResponseTimes m) (Milliseconds t))"
  "recentErrors (RecordRequest now t e l m) = slide (windowSize m) (recentErrors m) e"
  "consecutiveErrors (RecordRequest now t e l m) = (if e then consecutiveErrors m + 1 else 0)"
  "maxConsecutiveErrs (RecordRequest now t e l m) =
     (if e then max (maxConsecutiveErrs m) (consecutiveErrors m + 1) else maxConsecutiveErrs m)"
  "rateLimitErrors (RecordRequest now t e l m) = (if l then rateLimitErrors m + 1 else rateLimitErrors m)"
  "windowSize (RecordRequest now t e l m) = windowSize m"
  "optimalWorkerCount (RecordRequest now t e l m) = optimalWorkerCount m"
  "optimalBatchSize (RecordRequest now t e l m) = optimalBatchSize m"
  by (auto simp: RecordRequest_def Let_def min_def max_def)

lemma summary_new: "summary [] (NewRPCMetrics F w lw now)"
  by (simp add: summary_def NewRPCMetrics_def successes_def lastN_def)

lemma summary_record1: "summary rs m \<Longrightarrow> summary (rs @ [r]) (record1 m r)"
  by (auto simp: summary_def record1_def successes_def slide_lastN add.commute min.commute max.commute)

lemma summary_foldl: "summary rs m \<Longrightarrow> summary (rs @ rs') (foldl record1 m rs')"
proof (induction rs' arbitrary: rs m)
  case (Cons r rs')
  from Cons.IH [OF summary_record1 [OF Cons.prems], of r] show ?case by simp
qed simp

text \<open>
  After any sequence of recorded requests the metrics are exactly the statistics of that
  sequence: the counters (modulo \<open>2^64\<close>), the least and greatest response time of a success, the two
  sliding windows with the last requests, as many as the window holds, and the length of the run of
  errors at the end.
\<close>

theorem RecordRequest_statistics:
  "summary rs (foldl record1 (NewRPCMetrics F w lw now) rs)"
  using summary_foldl [OF summary_new, of rs] by simp

section \<open>The optimizer stays within its bounds\<close>

definition in_limits :: "'f AdaptiveOptimizer \<Rightarrow> 'f RPCMetrics \<Rightarrow> bool" where
  "in_limits opt m \<longleftrightarrow> minWorkers opt \<le> optimalWorkerCount m \<and> optimalWorkerCount m \<le> maxWorkers opt \<and>
     minBatchSize opt \<le> optimalBatchSize m \<and> optimalBatchSize m \<le> maxBatchSize opt"

datatype metrics_op = ORecord request | OBlock gotime nat | OOptimize gotime | OForce gotime | OReset gotime

fun runOp :: "'f floats \<Rightarrow> metrics_op \<Rightarrow> 'f AdaptiveOptimizer \<times> 'f RPCMetrics \<Rightarrow> 'f AdaptiveOptimizer \<times> 'f RPCMetrics" where
  "runOp F (ORecord r) (opt, m) = (opt, record1 m r)"
| "runOp F (OBlock now n) (opt, m) = (opt, RecordBlockProcessed F now n m)"
| "runOp F (OOptimize now) om = Optimize F now om"
| "runOp F (OForce now) om = ForceAdjustment F 0 now om"
| "runOp F (OReset now) (opt, m) = (opt, Metrics_Reset F now m)"

lemma clamp_bounds:
  "minWorkers opt \<le> maxWorkers opt \<Longrightarrow> minWorkers opt \<le> clampWorkers opt n \<and> clampWorkers opt n \<le> maxWorkers opt"
  "minBatchSize opt \<le> maxBatchSize opt \<Longrightarrow>
     minBatchSize opt \<le> clampBatchSize opt n \<and> clampBatchSize opt n \<le> maxBatchSize opt"
  by (simp_all add: clampWorkers_def clampBatchSize_def)

lemma same_optimizer: "\<exists>t. opt = (opt :: 'f AdaptiveOptimizer)\<lparr>lastAdjustment := t\<rparr>"
  by (rule exI [of _ "lastAdjustment opt"]) simp

lemma in_limits_Optimize:
  assumes "in_limits opt m" "Optimize F now (opt, m) = (opt', m')"
  shows "in_limits opt' m' \<and> (\<exists>t. opt' = opt\<lparr>lastAdjustment := t\<rparr>)"
proof (cases "ShouldAdjust now opt")
  case True
  let ?st = "GetStats F now m"
  have o: "opt' = opt\<lparr>lastAdjustment := now\<rparr>" "optimalWorkerCount m' = calculateOptimalWorkers F opt ?st"
    "optimalBatchSize m' = calculateOptimalBatchSize F opt ?st"
    using True assms(2) by (auto simp: Optimize_def Let_def SetOptimalBatchSize_def SetOptimalWorkerCount_def)
  have c: "minWorkers opt \<le> clampWorkers opt n \<and> clampWorkers opt n \<le> maxWorkers opt"
    "minBatchSize opt \<le> clampBatchSize opt n \<and> clampBatchSize opt n \<le> maxBatchSize opt" for n
    using assms(1) by (intro clamp_bounds; simp add: in_limits_def)+
  have cur: "msOptimalWorkerCount ?st = optimalWorkerCount m" "msOptimalBatchSize ?st = optimalBatchSize m"
    by (simp_all add: GetStats_def)
  have "minWorkers opt \<le> optimalWorkerCount m' \<and> optimalWorkerCount m' \<le> maxWorkers opt"
    unfolding o(2) calculateOptimalWorkers_def Let_def using c(1) cur assms(1) by (simp add: in_limits_def)
  moreover have "minBatchSize opt \<le> optimalBatchSize m' \<and> optimalBatchSize m' \<le> maxBatchSize opt"
    unfolding o(3) calculateOptimalBatchSize_def Let_def using c(2) cur assms(1) by (simp add: in_limits_def)
  ultimately show ?thesis using o(1) by (auto simp: in_limits_def)
next
  case False
  then show ?thesis using assms by (auto simp: Optimize_def intro: same_optimizer)
qed

lemma in_limits_runOp:
  assumes "in_limits opt m" "runOp F x (opt, m) = (opt', m')"
  shows "in_limits opt' m' \<and> (\<exists>t. opt' = opt\<lparr>lastAdjustment := t\<rparr>)"
proof (cases x)
  case (OForce now)
  have "in_limits (opt\<lparr>lastAdjustment := 0\<rparr>) m" using assms(1) by (simp add: in_limits_def)
  with OForce assms(2) show ?thesis using in_limits_Optimize by (fastforce simp: ForceAdjustment_def)
next
  case (OOptimize now)
  then show ?thesis using in_limits_Optimize [OF assms(1)] assms(2) by simp
qed (use assms in \<open>auto simp: in_limits_def record1_def RecordBlockProcessed_def Metrics_Reset_def Let_def
    intro: same_optimizer\<close>)

lemma in_limits_runOps:
  "in_limits opt m \<Longrightarrow> foldl (\<lambda>om x. runOp F x om) (opt, m) ops = (opt', m') \<Longrightarrow>
   in_limits opt' m' \<and> (\<exists>t. opt' = opt\<lparr>lastAdjustment := t\<rparr>)"
proof (induction ops arbitrary: opt m)
  case (Cons x ops)
  obtain opt1 m1 where s: "runOp F x (opt, m) = (opt1, m1)" by (cases "runOp F x (opt, m)")
  from in_limits_runOp [OF Cons.prems(1) s] Cons.IH [of opt1 m1] Cons.prems(2) s show ?case by auto
qed (auto intro: same_optimizer)

text \<open>
  Whatever the metrics say and however floating point rounds, any sequence of recorded requests,
  processed blocks, resets and adjustments, forced or not, leaves the recommended number of workers
  and the batch size within the configured limits, if they were within them at the start, as the
  initial values are within the default limits. Nothing but the time of the last adjustment changes
  in the optimizer.
\<close>

theorem optimizer_bounds:
  assumes "in_limits opt m" "foldl (\<lambda>om x. runOp F x om) (opt, m) ops = (opt', m')"
  shows "minWorkers opt \<le> GetRecommendedWorkers m' \<and> GetRecommendedWorkers m' \<le> maxWorkers opt \<and>
    minBatchSize opt \<le> GetRecommendedBatchSize m' \<and> GetRecommendedBatchSize m' \<le> maxBatchSize opt \<and>
    (\<exists>t. opt' = opt\<lparr>lastAdjustment := t\<rparr>)"
  using in_limits_runOps [OF assms]
  by (auto simp: in_limits_def GetRecommendedWorkers_def GetRecommendedBatchSize_def)

text \<open>An instance of the floating-point parameter: numbers with three decimal places.\<close>

definition milliFloats :: "int floats" where
  "milliFloats = \<lparr>flOfU64 = (\<lambda>w. 1000 * int (unat w)), flOfInt = (\<lambda>n. 1000 * n), flSeconds = (\<lambda>d. d div 1000000),
     flHalf = 500, flDiv = (\<lambda>a b. 1000 * a div b), flMul = (\<lambda>a b. a * b div 1000), flSub = (-), flLess = (<),
     flCeil = (\<lambda>a. - ((- a) div 1000))\<rparr>"

theorem optimizer_bounds_witness:
  "\<exists>opt m. foldl (\<lambda>om x. runOp milliFloats x om)
      (NewAdaptiveOptimizer milliFloats None 0, NewRPCMetrics milliFloats 100 5 0)
      [ORecord \<lparr>rqNow = 3, rqTime = 7, rqError = True, rqRateLimit = True\<rparr>, OOptimize 40000000000] = (opt, m) \<and>
    1 \<le> GetRecommendedWorkers m \<and> GetRecommendedWorkers m \<le> 1000"
proof -
  let ?o = "NewAdaptiveOptimizer milliFloats None 0" and ?m = "NewRPCMetrics milliFloats 100 5 0"
  let ?ops = "[ORecord \<lparr>rqNow = 3, rqTime = 7, rqError = True, rqRateLimit = True\<rparr>, OOptimize 40000000000]"
  obtain opt m where r: "foldl (\<lambda>om x. runOp milliFloats x om) (?o, ?m) ?ops = (opt, m)"
    by (cases "foldl (\<lambda>om x. runOp milliFloats x om) (?o, ?m) ?ops") blast
  have "in_limits ?o ?m"
    by (simp add: in_limits_def NewAdaptiveOptimizer_def NewRPCMetrics_def DefaultOptimizerConfig_def Let_def)
  from optimizer_bounds [OF this r] r show ?thesis
    by (auto simp: NewAdaptiveOptimizer_def DefaultOptimizerConfig_def Let_def)
qed

section \<open>The mutex of the metrics\<close>

text \<open>
  \<^verbatim>\<open>sync.RWMutex\<close>: a writer first announces itself, which keeps new readers out, and then waits for
  the readers inside to leave. A thread is the list of lock actions it has still to do.
\<close>

datatype lock_act = RLock | RUnlock | Lock | Acquire | Unlock

record rwmutex =
  readers :: nat
  pending :: bool
  held :: bool

fun lockStep :: "lock_act \<Rightarrow> rwmutex \<Rightarrow> rwmutex option" where
  "lockStep RLock mu = (if pending mu \<or> held mu then None else Some (mu\<lparr>readers := readers mu + 1\<rparr>))"
| "lockStep RUnlock mu = Some (mu\<lparr>readers := readers mu - 1\<rparr>)"
| "lockStep Lock mu = (if pending mu \<or> held mu then None else Some (mu\<lparr>pending := True\<rparr>))"
| "lockStep Acquire mu = (if readers mu = 0 then Some (mu\<lparr>pending := False, held := True\<rparr>) else None)"
| "lockStep Unlock mu = Some (mu\<lparr>held := False\<rparr>)"

inductive locks :: "rwmutex \<times> lock_act list list \<Rightarrow> rwmutex \<times> lock_act list list \<Rightarrow> bool" where
  locks_step: "i < length ts \<Longrightarrow> ts ! i = a # rest \<Longrightarrow> lockStep a mu = Some mu' \<Longrightarrow>
     locks (mu, ts) (mu', ts[i := rest])"

inductive_cases locksE: "locks (mu, ts) st"

definition freeMutex :: rwmutex where
  "freeMutex = \<lparr>readers = 0, pending = False, held = False\<rparr>"

text \<open>The lock actions of the operations: a getter, a recorder, and \<^verbatim>\<open>GetStats\<close>, which calls four getters.\<close>

definition readSection :: "lock_act list" where
  "readSection = [RLock, RUnlock]"

definition writeSection :: "lock_act list" where
  "writeSection = [Lock, Acquire, Unlock]"

definition GetStats_locks :: "lock_act list" where
  "GetStats_locks = [RLock] @ readSection @ readSection @ readSection @ readSection @ [RUnlock]"

lemma GetStats_RecordRequest_deadlock:
  "\<exists>st. locks\<^sup>*\<^sup>* (freeMutex, [GetStats_locks, writeSection]) st \<and> \<not> (\<exists>st'. locks st st') \<and> snd st \<noteq> [[], []]"
proof -
  let ?g = "readSection @ readSection @ readSection @ readSection @ [RUnlock]"
  let ?s1 = "(\<lparr>readers = 1, pending = False, held = False\<rparr>, [?g, writeSection])"
  let ?s2 = "(\<lparr>readers = 1, pending = True, held = False\<rparr>, [?g, [Acquire, Unlock]])"
  have "locks (freeMutex, [GetStats_locks, writeSection]) ?s1"
    using locks_step [of 0 "[GetStats_locks, writeSection]" RLock ?g freeMutex]
    by (simp add: GetStats_locks_def freeMutex_def)
  moreover have "locks ?s1 ?s2"
    using locks_step [of 1 "[?g, writeSection]" Lock "[Acquire, Unlock]"] by (simp add: writeSection_def)
  ultimately have "locks\<^sup>*\<^sup>* (freeMutex, [GetStats_locks, writeSection]) ?s2" by simp
  moreover have "\<not> locks ?s2 st'" for st'
    by (auto elim!: locksE simp: less_Suc_eq readSection_def)
  ultimately show ?thesis by (intro exI [of _ ?s2]) auto
qed

text \<open>Without nesting there is no deadlock. The threads are runs of sections, the first one perhaps begun.\<close>

definition sections :: "lock_act list \<Rightarrow> bool" where
  "sections xs \<longleftrightarrow> (\<exists>ss. xs = concat ss \<and> set ss \<subseteq> {readSection, writeSection})"

definition begun :: "lock_act list \<Rightarrow> bool" where
  "begun xs \<longleftrightarrow> sections xs \<or> (\<exists>ys. sections ys \<and> (xs = RUnlock # ys \<or> xs = Acquire # Unlock # ys \<or> xs = Unlock # ys))"

definition next_is :: "lock_act \<Rightarrow> lock_act list \<Rightarrow> bool" where
  "next_is a xs \<longleftrightarrow> xs \<noteq> [] \<and> hd xs = a"

definition many :: "lock_act \<Rightarrow> lock_act list list \<Rightarrow> nat" where
  "many a ts = length (filter (next_is a) ts)"

definition mutex_inv :: "rwmutex \<times> lock_act list list \<Rightarrow> bool" where
  "mutex_inv st \<longleftrightarrow> (case st of (mu, ts) \<Rightarrow>
     (\<forall>t\<in>set ts. begun t) \<and> readers mu = many RUnlock ts \<and>
     many Acquire ts = of_bool (pending mu) \<and> many Unlock ts = of_bool (held mu) \<and>
     \<not> (pending mu \<and> held mu) \<and> (held mu \<longrightarrow> readers mu = 0))"

lemma sections_cases:
  assumes "sections xs"
  obtains "xs = []" | ys where "xs = RLock # RUnlock # ys" "sections ys"
    | ys where "xs = Lock # Acquire # Unlock # ys" "sections ys"
proof -
  obtain ss where ss: "xs = concat ss" "set ss \<subseteq> {readSection, writeSection}"
    using assms by (auto simp: sections_def)
  show thesis
  proof (cases ss)
    case (Cons u us)
    then have "sections (concat us)" "u = readSection \<or> u = writeSection" using ss by (auto simp: sections_def)
    with Cons ss that show ?thesis by (auto simp: readSection_def writeSection_def)
  qed (use ss that in auto)
qed

lemma sections_hd: "sections xs \<Longrightarrow> xs = [] \<or> hd xs = RLock \<or> hd xs = Lock"
  by (rule sections_cases) auto

lemma many_update:
  "i < length ts \<Longrightarrow> many a (ts[i := x]) + of_bool (next_is a (ts ! i)) = many a ts + of_bool (next_is a x)"
proof (induction ts arbitrary: i)
  case (Cons t ts)
  then show ?case by (cases i) (auto simp: many_def)
qed simp

lemma many_pos: "0 < many a ts \<longleftrightarrow> (\<exists>i<length ts. \<exists>rest. ts ! i = a # rest)"
proof
  assume "0 < many a ts"
  then obtain t where "t \<in> set ts" "next_is a t" by (auto simp: many_def filter_empty_conv)
  then obtain i where "i < length ts" "ts ! i = a # tl t" by (auto simp: next_is_def in_set_conv_nth)
  then show "\<exists>i<length ts. \<exists>rest. ts ! i = a # rest" by blast
next
  assume "\<exists>i<length ts. \<exists>rest. ts ! i = a # rest"
  then obtain i rest where "i < length ts" "ts ! i = a # rest" by blast
  then have "a # rest \<in> set ts" by (metis nth_mem)
  then show "0 < many a ts" by (auto simp: many_def filter_empty_conv next_is_def)
qed

lemma begun_step:
  assumes "begun (a # rest)"
  shows "begun rest \<and> next_is RUnlock rest = (a = RLock) \<and> next_is Acquire rest = (a = Lock) \<and> next_is Unlock rest = (a = Acquire)"
proof -
  have s: "begun ys \<and> \<not> next_is RUnlock ys \<and> \<not> next_is Acquire ys \<and> \<not> next_is Unlock ys" if "sections ys" for ys
    using sections_hd [OF that] that by (auto simp: begun_def next_is_def)
  consider "sections (a # rest)" | ys where "sections ys" "a = RUnlock" "rest = ys"
    | ys where "sections ys" "a = Acquire" "rest = Unlock # ys" | ys where "sections ys" "a = Unlock" "rest = ys"
    using assms by (auto simp: begun_def)
  then show ?thesis
  proof cases
    case 1
    then show ?thesis by (rule sections_cases) (auto simp: begun_def next_is_def)
  qed (use s in \<open>auto simp: begun_def next_is_def\<close>)
qed

lemma mutex_inv_step: "locks st st' \<Longrightarrow> mutex_inv st \<Longrightarrow> mutex_inv st'"
proof (induction rule: locks.induct)
  case (locks_step i ts a rest mu mu')
  have inv: "\<forall>t\<in>set ts. begun t" "readers mu = many RUnlock ts" "many Acquire ts = of_bool (pending mu)"
    "many Unlock ts = of_bool (held mu)" "\<not> (pending mu \<and> held mu)" "held mu \<longrightarrow> readers mu = 0"
    using locks_step.prems unfolding mutex_inv_def by auto
  have "begun (a # rest)" using inv(1) locks_step.hyps by (metis nth_mem)
  note b = begun_step [OF this]
  have m: "many c (ts[i := rest]) + of_bool (c = a) = many c ts + of_bool (next_is c rest)" for c
    using many_update [OF locks_step.hyps(1), of c rest] locks_step.hyps(2) by (simp add: next_is_def eq_commute)
  have bs: "\<forall>t\<in>set (ts[i := rest]). begun t" using inv(1) b by (auto dest!: set_update_subset_insert [THEN subsetD])
  show ?case using b inv m [of RUnlock] m [of Acquire] m [of Unlock] bs locks_step.hyps(3)
    by (cases a) (auto simp: mutex_inv_def of_bool_def split: if_splits)
qed

lemma mutex_inv_progress:
  assumes "mutex_inv (mu, us)" "\<exists>u\<in>set us. u \<noteq> []"
  shows "\<exists>st. locks (mu, us) st"
proof -
  have inv: "readers mu = many RUnlock us" "many Acquire us = of_bool (pending mu)" "many Unlock us = of_bool (held mu)"
    "held mu \<longrightarrow> readers mu = 0"
    using assms(1) unfolding mutex_inv_def by auto
  have go: "\<exists>st. locks (mu, us) st" if "0 < many a us" "lockStep a mu = Some mu'" for a mu'
    using that(1) locks_step [OF _ _ that(2)] unfolding many_pos by blast
  consider "held mu" | "pending mu" "readers mu = 0" | "0 < readers mu" | "\<not> held mu" "\<not> pending mu" "readers mu = 0"
    by auto
  then show ?thesis
  proof cases
    case 4
    obtain u where u: "u \<in> set us" "u \<noteq> []" using assms(2) by blast
    then have "0 < many (hd u) us" by (auto simp: many_def next_is_def filter_empty_conv)
    moreover have "hd u \<noteq> Acquire" "hd u \<noteq> Unlock" using calculation inv 4 by auto
    then obtain mu' where "lockStep (hd u) mu = Some mu'" using 4 by (cases "hd u") auto
    ultimately show ?thesis by (rule go)
  qed (use inv go [of Unlock] go [of Acquire] go [of RUnlock] in auto)
qed

text \<open>
  The lock discipline of the metrics. Threads that call the recorders and getters one after the
  other never block each other for good: in every reachable state either all are done or one can
  go on. \<^verbatim>\<open>GetStats\<close>, which takes the read lock again while it holds it, is outside this
  discipline, and \<open>GetStats_RecordRequest_deadlock\<close> shows that it can block.
\<close>

theorem metrics_locks_progress:
  assumes "\<forall>t\<in>set ts. sections t" "locks\<^sup>*\<^sup>* (freeMutex, ts) (mu, us)" "\<exists>u\<in>set us. u \<noteq> []"
  shows "\<exists>st. locks (mu, us) st"
proof -
  have z: "many a ts = 0" if "a = RUnlock \<or> a = Acquire \<or> a = Unlock" for a
    using assms(1) that by (auto simp: many_def filter_empty_conv next_is_def dest!: bspec sections_hd)
  then have "mutex_inv (freeMutex, ts)"
    using assms(1) by (simp add: mutex_inv_def freeMutex_def begun_def)
  with assms(2) have "mutex_inv (mu, us)"
    by (induction rule: rtranclp_induct) (auto intro: mutex_inv_step)
  then show ?thesis using assms(3) by (rule mutex_inv_progress)
qed

theorem metrics_locks_progress_witness:
  "\<exists>st. locks (\<lparr>readers = 1, pending = True, held = False\<rparr>, [[RUnlock], [Acquire, Unlock]]) st"
proof -
  let ?s1 = "(\<lparr>readers = 1, pending = False, held = False\<rparr>, [[RUnlock], writeSection])"
  let ?s2 = "(\<lparr>readers = 1, pending = True, held = False\<rparr>, [[RUnlock], [Acquire, Unlock]])"
  have "locks (freeMutex, [readSection, writeSection]) ?s1"
    using locks_step [of 0 "[readSection, writeSection]" RLock "[RUnlock]" freeMutex]
    by (simp add: readSection_def freeMutex_def)
  moreover have "locks ?s1 ?s2"
    using locks_step [of 1 "[[RUnlock], writeSection]" Lock "[Acquire, Unlock]"] by (simp add: writeSection_def)
  ultimately have r: "locks\<^sup>*\<^sup>* (freeMutex, [readSection, writeSection]) ?s2" by simp
  have "sections readSection" "sections writeSection"
    by (auto simp: sections_def intro: exI [of _ "[readSection]"] exI [of _ "[writeSection]"])
  then have "\<forall>t\<in>set [readSection, writeSection]. sections t" by simp
  from metrics_locks_progress [OF this r] show ?thesis by simp
qed

end
