(* ===== verification/EventFilter.thy ===== *)
theory EventFilter
  imports Chain
begin

text \<open>
  Events and subscription filters (\<^verbatim>\<open>pkg/events/types.go\<close>, \<^verbatim>\<open>pkg/events/filter.go\<close>). An event
  type the filter has no case for is \<open>OtherEvent\<close> with its type name. The value of a transaction
  event is a decimal string made from an integer; here it is that integer.
\<close>

section \<open>Events\<close>

text \<open>
  Values of type \<^verbatim>\<open>interface{}\<close>, in the data of an event and of a filter: only lists of strings are
  looked into.
\<close>

datatype custom_value =
    StringList "string list"
  | StringValue string
  | BoolValue bool
  | NumberValue u64
  | OtherValue

record BlockEvent =
  beBlock :: block
  beNumber :: u64
  beHash :: hash
  beCreatedAt :: gotime
  beTxCount :: nat

record TransactionEvent =
  teTx :: tx
  teHash :: hash
  teBlockNumber :: u64
  teBlockHash :: hash
  teIndex :: u64
  teFrom :: address
  teTo :: "address option"
  teValue :: int
  teReceipt :: "receipt option"
  teCreatedAt :: gotime

record LogEvent =
  leLog :: "log option"
  leCreatedAt :: gotime

record SystemContractEvent =
  seContract :: address
  seEventName :: string
  seBlockNumber :: u64
  seTxHash :: hash
  seLogIndex :: u64
  seData :: "(string \<times> custom_value) list"
  seCreatedAt :: gotime

datatype event =
    EBlock BlockEvent
  | ETransaction TransactionEvent
  | ELog "LogEvent option"
  | ESystemContract "SystemContractEvent option"
  | OtherEvent string

definition Event_Type :: "event \<Rightarrow> string" where
  "Event_Type e = (case e of
     EBlock _ \<Rightarrow> ''block'' | ETransaction _ \<Rightarrow> ''transaction'' | ELog _ \<Rightarrow> ''log''
   | ESystemContract _ \<Rightarrow> ''systemContract'' | OtherEvent t \<Rightarrow> t)"

definition NewBlockEvent :: "gotime \<Rightarrow> block \<Rightarrow> event" where
  "NewBlockEvent now b = EBlock \<lparr>beBlock = b, beNumber = bNumber b, beHash = bHash b, beCreatedAt = now,
     beTxCount = length (bTxs b)\<rparr>"

definition NewTransactionEvent :: "gotime \<Rightarrow> tx \<Rightarrow> u64 \<Rightarrow> hash \<Rightarrow> u64 \<Rightarrow> address \<Rightarrow> receipt option \<Rightarrow> event" where
  "NewTransactionEvent now t blockNumber blockHash index from rcpt = ETransaction
     \<lparr>teTx = t, teHash = tHash t, teBlockNumber = blockNumber, teBlockHash = blockHash, teIndex = index,
      teFrom = from, teTo = tTo t, teValue = tValue t, teReceipt = rcpt, teCreatedAt = now\<rparr>"

definition NewLogEvent :: "gotime \<Rightarrow> log option \<Rightarrow> event" where
  "NewLogEvent now l = ELog (Some \<lparr>leLog = l, leCreatedAt = now\<rparr>)"

definition NewSystemContractEvent :: "gotime \<Rightarrow> address \<Rightarrow> string \<Rightarrow> u64 \<Rightarrow> hash \<Rightarrow> u64 \<Rightarrow>
    (string \<times> custom_value) list \<Rightarrow> event" where
  "NewSystemContractEvent now contract eventName blockNumber txHash logIndex data = ESystemContract
     (Some \<lparr>seContract = contract, seEventName = eventName, seBlockNumber = blockNumber, seTxHash = txHash,
       seLogIndex = logIndex, seData = data, seCreatedAt = now\<rparr>)"

section \<open>Filters\<close>

record Filter =
  Addresses :: "address list"
  FromAddresses :: "address list"
  ToAddresses :: "address list"
  MinValue :: "int option"
  MaxValue :: "int option"
  FromBlock :: u64
  ToBlock :: u64
  Topics :: "hash list list"
  CustomData :: "(string \<times> custom_value) list"

definition NewFilter :: Filter where
  "NewFilter = \<lparr>Addresses = [], FromAddresses = [], ToAddresses = [], MinValue = None,
     MaxValue = None, FromBlock = 0, ToBlock = 0, Topics = [], CustomData = []\<rparr>"

datatype filter_error = MinAboveMax | FromAboveTo | NegativeMin | NegativeMax

definition Filter_Validate :: "Filter \<Rightarrow> filter_error option" where
  "Filter_Validate f =
     (if (case (MinValue f, MaxValue f) of (Some a, Some b) \<Rightarrow> a > b | _ \<Rightarrow> False) then Some MinAboveMax
      else if FromBlock f > 0 \<and> ToBlock f > 0 \<and> FromBlock f > ToBlock f then Some FromAboveTo
      else if (case MinValue f of Some a \<Rightarrow> a < 0 | None \<Rightarrow> False) then Some NegativeMin
      else if (case MaxValue f of Some b \<Rightarrow> b < 0 | None \<Rightarrow> False) then Some NegativeMax
      else None)"

definition blockInRange :: "Filter \<Rightarrow> u64 \<Rightarrow> bool" where
  "blockInRange f n \<longleftrightarrow> \<not> (FromBlock f > 0 \<and> n < FromBlock f) \<and> \<not> (ToBlock f > 0 \<and> n > ToBlock f)"

definition MatchBlock :: "Filter \<Rightarrow> BlockEvent \<Rightarrow> bool" where
  "MatchBlock f e = blockInRange f (beNumber e)"

definition MatchTransaction :: "Filter \<Rightarrow> TransactionEvent \<Rightarrow> bool" where
  "MatchTransaction f e =
     (if \<not> blockInRange f (teBlockNumber e) then False
      else if Addresses f \<noteq> [] \<and>
        \<not> list_ex (\<lambda>addr. teFrom e = addr \<or> teTo e = Some addr) (Addresses f) then False
      else if FromAddresses f \<noteq> [] \<and> \<not> list_ex (\<lambda>addr. teFrom e = addr) (FromAddresses f) then False
      else if ToAddresses f \<noteq> [] \<and>
        (case teTo e of None \<Rightarrow> True | Some t \<Rightarrow> \<not> list_ex (\<lambda>addr. t = addr) (ToAddresses f)) then False
      else if (case MinValue f of None \<Rightarrow> False | Some m \<Rightarrow> teValue e < m) then False
      else if (case MaxValue f of None \<Rightarrow> False | Some m \<Rightarrow> teValue e > m) then False
      else True)"

definition MatchSystemContract :: "Filter \<Rightarrow> SystemContractEvent option \<Rightarrow> bool" where
  "MatchSystemContract f ev =
     (case ev of
        None \<Rightarrow> False
      | Some e \<Rightarrow>
          if \<not> blockInRange f (seBlockNumber e) then False
          else if Addresses f \<noteq> [] \<and> \<not> list_ex (\<lambda>addr. seContract e = addr) (Addresses f) then False
          else case map_of (CustomData f) ''eventTypes'' of
              Some (StringList ets) \<Rightarrow> ets = [] \<or> list_ex (\<lambda>et. seEventName e = et) ets
            | _ \<Rightarrow> True)"

text \<open>The loop over topic positions: an empty set is a wildcard, a position the log lacks fails.\<close>

fun matchTopics :: "nat \<Rightarrow> hash list list \<Rightarrow> hash list \<Rightarrow> bool" where
  "matchTopics idx [] logTopics = True"
| "matchTopics idx (topicSet # rest) logTopics =
     (if topicSet = [] then matchTopics (Suc idx) rest logTopics
      else if idx \<ge> length logTopics then False
      else if \<not> list_ex (\<lambda>topic. logTopics ! idx = topic) topicSet then False
      else matchTopics (Suc idx) rest logTopics)"

definition MatchLog :: "Filter \<Rightarrow> LogEvent option \<Rightarrow> bool" where
  "MatchLog f ev =
     (case Option.bind ev leLog of
        None \<Rightarrow> False
      | Some l \<Rightarrow>
          if \<not> blockInRange f (lBlockNumber l) then False
          else if Addresses f \<noteq> [] \<and> \<not> list_ex (\<lambda>addr. lAddress l = addr) (Addresses f) then False
          else matchTopics 0 (Topics f) (lTopics l))"

definition Filter_Match :: "Filter \<Rightarrow> event \<Rightarrow> bool" where
  "Filter_Match f e = (case e of
     EBlock b \<Rightarrow> MatchBlock f b
   | ETransaction t \<Rightarrow> MatchTransaction f t
   | ELog l \<Rightarrow> MatchLog f l
   | ESystemContract c \<Rightarrow> MatchSystemContract f c
   | OtherEvent _ \<Rightarrow> False)"

definition Filter_IsEmpty :: "Filter \<Rightarrow> bool" where
  "Filter_IsEmpty f \<longleftrightarrow> Addresses f = [] \<and> FromAddresses f = [] \<and> ToAddresses f = [] \<and>
     MinValue f = None \<and> MaxValue f = None \<and> FromBlock f = 0 \<and> ToBlock f = 0 \<and> Topics f = [] \<and>
     CustomData f = []"

text \<open>\<^verbatim>\<open>Clone\<close> copies every field but the custom data.\<close>

definition Filter_Clone :: "Filter \<Rightarrow> Filter" where
  "Filter_Clone f =
     \<lparr>Addresses = Addresses f, FromAddresses = FromAddresses f, ToAddresses = ToAddresses f,
      MinValue = MinValue f, MaxValue = MaxValue f, FromBlock = FromBlock f, ToBlock = ToBlock f,
      Topics = Topics f, CustomData = []\<rparr>"

section \<open>Properties\<close>

lemma matchTopics_iff:
  "matchTopics n ts logTopics \<longleftrightarrow>
   (\<forall>i<length ts. ts ! i \<noteq> [] \<longrightarrow> n + i < length logTopics \<and> logTopics ! (n + i) \<in> set (ts ! i))"
proof (induction ts arbitrary: n)
  case (Cons t ts)
  have "(\<forall>i<length (t # ts). (t # ts) ! i \<noteq> [] \<longrightarrow>
        n + i < length logTopics \<and> logTopics ! (n + i) \<in> set ((t # ts) ! i)) \<longleftrightarrow>
      (t \<noteq> [] \<longrightarrow> n < length logTopics \<and> logTopics ! n \<in> set t) \<and>
      (\<forall>i<length ts. ts ! i \<noteq> [] \<longrightarrow> Suc n + i < length logTopics \<and> logTopics ! (Suc n + i) \<in> set (ts ! i))"
    by (simp add: All_less_Suc2)
  then show ?case using Cons by (auto simp: list_ex_iff)
qed simp

text \<open>
  A log passes a filter exactly when its block is in the range, its address is among the
  addresses if any are given, and at every topic position with a non-empty set the log has a topic
  of that set: the semantics of \<^verbatim>\<open>eth_subscribe\<close>. An empty filter passes every log.
\<close>

theorem MatchLog_semantics:
  "MatchLog f (Some \<lparr>leLog = Some l, leCreatedAt = t\<rparr>) \<longleftrightarrow>
     blockInRange f (lBlockNumber l) \<and> (Addresses f = [] \<or> lAddress l \<in> set (Addresses f)) \<and>
     (\<forall>i<length (Topics f). Topics f ! i \<noteq> [] \<longrightarrow>
        i < length (lTopics l) \<and> lTopics l ! i \<in> set (Topics f ! i))"
  by (auto simp: MatchLog_def matchTopics_iff list_ex_iff)

theorem MatchLog_semantics_witness:
  "MatchLog (NewFilter\<lparr>Topics := [[], [5, 6]], FromBlock := 3\<rparr>)
     (Some \<lparr>leLog = Some sampleLog, leCreatedAt = 0\<rparr>)"
  unfolding MatchLog_semantics by (simp add: NewFilter_def sampleLog_def blockInRange_def less_2_cases_iff All_less_Suc)

lemma Clone_matches:
  "map_of (CustomData f) ''eventTypes'' = None \<Longrightarrow> Filter_Match (Filter_Clone f) e = Filter_Match f e"
  by (cases e) (auto simp: Filter_Match_def Filter_Clone_def MatchBlock_def MatchTransaction_def MatchLog_def
      MatchSystemContract_def blockInRange_def split: option.splits)

text \<open>A clone loses the event types of a system-contract filter and then matches too much.\<close>

lemma Clone_drops_event_types:
  "let f = NewFilter\<lparr>CustomData := [(''eventTypes'', StringList [''Mint''])]\<rparr>;
       e = NewSystemContractEvent 0 1 ''Burn'' 5 2 0 []
   in \<not> Filter_Match f e \<and> Filter_Match (Filter_Clone f) e"
  by (simp add: Let_def NewFilter_def NewSystemContractEvent_def Filter_Match_def Filter_Clone_def MatchSystemContract_def
      blockInRange_def)

end
