(* ===== verification/EventBus.thy ===== *)
theory EventBus
  imports EventFilter
begin

text \<open>
  The event bus (\<^verbatim>\<open>pkg/events/bus.go\<close>): publishing through a bounded channel, a ring buffer of
  recent events for replay, and broadcast to the subscribers' bounded channels without blocking.

  A channel is its buffered events with its capacity; what a consumer takes out is a step of its
  own. The subscriber map is an association list with one entry per identifier; Go visits it in
  an unspecified order, and every subscriber is served independently of the others. The
  subscriptions whose channel has been closed are kept in \<open>closedSubs\<close>, so that closing is visible.
  The locks of the bus make each method a step. Prometheus metrics have no effect on the bus and
  are left out. An unbuffered channel, on which a send succeeds only while the other side waits, is
  read here as always full.
\<close>

section \<open>State\<close>

record Subscription =
  subID :: string
  subTypes :: "string list"
  subFilter :: "Filter option"
  subChan :: "event list"
  subCap :: nat
  subReceived :: u64
  subDropped :: u64
  subLastEventTime :: gotime
  subCreatedAt :: gotime

record EventBus =
  subscribers :: "(string \<times> Subscription) list"
  closedSubs :: "(string \<times> Subscription) list"
  publishCh :: "event list"
  publishCap :: nat
  stopped :: bool
  runDone :: bool
  eventHistory :: "event option list"
  eventHistorySize :: nat
  eventHistoryIdx :: nat
  totalEvents :: u64
  totalDeliveries :: u64
  droppedEvents :: u64

definition DefaultEventHistorySize :: nat where
  "DefaultEventHistorySize = 100"

definition NewEventBusWithHistory :: "nat \<Rightarrow> int \<Rightarrow> EventBus" where
  "NewEventBusWithHistory publishBufferSize historySize =
     (let n = (if historySize \<le> 0 then DefaultEventHistorySize else nat historySize) in
      \<lparr>subscribers = [], closedSubs = [], publishCh = [], publishCap = publishBufferSize,
       stopped = False, runDone = False,
       eventHistory = replicate n None, eventHistorySize = n, eventHistoryIdx = 0,
       totalEvents = 0, totalDeliveries = 0, droppedEvents = 0\<rparr>)"

definition NewEventBus :: "nat \<Rightarrow> nat \<Rightarrow> EventBus" where
  "NewEventBus publishBufferSize subscribeBufferSize =
     NewEventBusWithHistory publishBufferSize (int DefaultEventHistorySize)"

section \<open>History\<close>

definition storeEventInHistory :: "event \<Rightarrow> EventBus \<Rightarrow> EventBus" where
  "storeEventInHistory e eb =
     eb\<lparr>eventHistory := (eventHistory eb)[eventHistoryIdx eb := Some e],
        eventHistoryIdx := (eventHistoryIdx eb + 1) mod eventHistorySize eb\<rparr>"

definition wants :: "string list \<Rightarrow> Filter option \<Rightarrow> event \<Rightarrow> bool" where
  "wants types flt e \<longleftrightarrow> List.member types (Event_Type e) \<and>
     (case flt of None \<Rightarrow> True | Some f \<Rightarrow> Filter_Match f e)"

fun recentLoop :: "nat list \<Rightarrow> string list \<Rightarrow> Filter option \<Rightarrow> EventBus \<Rightarrow> event list" where
  "recentLoop [] types flt eb = []"
| "recentLoop (i # is) types flt eb =
     (let idx = (eventHistoryIdx eb + i) mod eventHistorySize eb in
      case eventHistory eb ! idx of
        None \<Rightarrow> recentLoop is types flt eb
      | Some e \<Rightarrow>
          if wants types flt e then e # recentLoop is types flt eb else recentLoop is types flt eb)"

definition getRecentEvents :: "int \<Rightarrow> string list \<Rightarrow> Filter option \<Rightarrow> EventBus \<Rightarrow> event list" where
  "getRecentEvents n types flt eb =
     (let n' = (if n \<le> 0 \<or> n > int (eventHistorySize eb) then eventHistorySize eb else nat n);
          matched = recentLoop [0..<eventHistorySize eb] types flt eb
      in if length matched > n' then drop (length matched - n') matched else matched)"

section \<open>Broadcast\<close>

definition trySend :: "event \<Rightarrow> Subscription \<Rightarrow> bool \<times> Subscription" where
  "trySend e sub =
     (if length (subChan sub) < subCap sub
      then (True, sub\<lparr>subChan := subChan sub @ [e]\<rparr>) else (False, sub))"

text \<open>One subscriber of a broadcast: the new subscription, deliveries and drops.\<close>

definition deliver :: "gotime \<Rightarrow> event \<Rightarrow> Subscription \<Rightarrow> Subscription \<times> u64 \<times> u64" where
  "deliver now e sub =
     (if \<not> wants (subTypes sub) (subFilter sub) e then (sub, 0, 0)
      else case trySend e sub of
          (True, s) \<Rightarrow> (s\<lparr>subReceived := subReceived s + 1, subLastEventTime := now\<rparr>, 1, 0)
        | (False, s) \<Rightarrow> (s\<lparr>subDropped := subDropped s + 1\<rparr>, 0, 1))"

fun broadcastLoop :: "gotime \<Rightarrow> event \<Rightarrow> (string \<times> Subscription) list \<Rightarrow>
    (string \<times> Subscription) list \<times> u64 \<times> u64" where
  "broadcastLoop now e [] = ([], 0, 0)"
| "broadcastLoop now e ((i, sub) # subs) =
     (case deliver now e sub of (sub', d, r) \<Rightarrow>
      case broadcastLoop now e subs of (subs', d', r') \<Rightarrow> ((i, sub') # subs', d + d', r + r'))"

definition broadcastEvent :: "gotime \<Rightarrow> event \<Rightarrow> EventBus \<Rightarrow> EventBus" where
  "broadcastEvent now e eb =
     (case broadcastLoop now e (subscribers eb) of
        (subs, d, r) \<Rightarrow> eb\<lparr>subscribers := subs, totalDeliveries := totalDeliveries eb + d,
          droppedEvents := droppedEvents eb + r\<rparr>)"

section \<open>Publishing and the main loop\<close>

definition Publish :: "event \<Rightarrow> EventBus \<Rightarrow> bool \<times> EventBus" where
  "Publish e eb =
     (if stopped eb then (False, eb)
      else if length (publishCh eb) < publishCap eb then (True, eb\<lparr>publishCh := publishCh eb @ [e]\<rparr>)
      else (False, eb))"

definition closeAllSubscriptions :: "EventBus \<Rightarrow> EventBus" where
  "closeAllSubscriptions eb = eb\<lparr>subscribers := [], closedSubs := closedSubs eb @ subscribers eb\<rparr>"

definition handleEvent :: "gotime \<Rightarrow> event \<Rightarrow> EventBus \<Rightarrow> EventBus" where
  "handleEvent now e eb =
     broadcastEvent now e (storeEventInHistory e (eb\<lparr>totalEvents := totalEvents eb + 1\<rparr>))"

text \<open>
  One iteration of \<^verbatim>\<open>Run\<close>: with the context done it may shut down, which ends the loop; with an
  event waiting it may handle it; Go chooses at random when both are possible.
\<close>

inductive run_step :: "gotime \<Rightarrow> EventBus \<Rightarrow> EventBus \<Rightarrow> bool" for now where
  run_event: "\<not> runDone eb \<Longrightarrow> publishCh eb = e # es \<Longrightarrow> run_step now eb (handleEvent now e (eb\<lparr>publishCh := es\<rparr>))"
| run_shutdown: "\<not> runDone eb \<Longrightarrow> stopped eb \<Longrightarrow>
    run_step now eb ((closeAllSubscriptions eb)\<lparr>runDone := True\<rparr>)"

inductive_simps run_step_iff: "run_step now eb eb'"

definition Bus_Stop :: "EventBus \<Rightarrow> EventBus" where
  "Bus_Stop eb = eb\<lparr>stopped := True\<rparr>"

section \<open>Subscriptions\<close>

fun replayLoop :: "gotime \<Rightarrow> event list \<Rightarrow> Subscription \<Rightarrow> Subscription" where
  "replayLoop now [] sub = sub"
| "replayLoop now (e # es) sub =
     (case trySend e sub of
        (True, s) \<Rightarrow> replayLoop now es (s\<lparr>subReceived := subReceived s + 1, subLastEventTime := now\<rparr>)
      | (False, s) \<Rightarrow> replayLoop now es (s\<lparr>subDropped := subDropped s + 1\<rparr>))"

text \<open>
  \<^verbatim>\<open>SubscribeWithOptions\<close> registers the subscription and then replays; a broadcast between the two
  would come first in the channel. Here both are one step.
\<close>

definition putSub :: "string \<Rightarrow> Subscription \<Rightarrow> (string \<times> Subscription) list \<Rightarrow> (string \<times> Subscription) list" where
  "putSub i sub subs = (i, sub) # filter (\<lambda>x. fst x \<noteq> i) subs"

definition SubscribeWithOptions :: "gotime \<Rightarrow> string \<Rightarrow> string list \<Rightarrow> Filter option \<Rightarrow> int \<Rightarrow> int \<Rightarrow>
    EventBus \<Rightarrow> Subscription option \<times> EventBus" where
  "SubscribeWithOptions now i types flt replayLast channelSize eb =
     (if stopped eb then (None, eb)
      else if (case flt of None \<Rightarrow> False | Some f \<Rightarrow> Filter_Validate f \<noteq> None) then (None, eb)
      else let flt' = map_option Filter_Clone flt;
               cap = (if channelSize \<le> 0 then 100 else nat channelSize);
               sub = \<lparr>subID = i, subTypes = types, subFilter = flt', subChan = [], subCap = cap,
                 subReceived = 0, subDropped = 0, subLastEventTime = 0, subCreatedAt = now\<rparr>;
               sub' = (if replayLast > 0
                 then replayLoop now (getRecentEvents replayLast types flt' eb) sub else sub)
           in (Some sub', eb\<lparr>subscribers := putSub i sub' (subscribers eb)\<rparr>))"

definition Bus_Subscribe :: "gotime \<Rightarrow> string \<Rightarrow> string list \<Rightarrow> Filter option \<Rightarrow> int \<Rightarrow> EventBus \<Rightarrow>
    Subscription option \<times> EventBus" where
  "Bus_Subscribe now i types flt channelSize eb = SubscribeWithOptions now i types flt 0 channelSize eb"

definition Unsubscribe :: "string \<Rightarrow> EventBus \<Rightarrow> EventBus" where
  "Unsubscribe i eb =
     (case map_of (subscribers eb) i of
        None \<Rightarrow> eb
      | Some sub \<Rightarrow> eb\<lparr>subscribers := filter (\<lambda>x. fst x \<noteq> i) (subscribers eb),
          closedSubs := closedSubs eb @ [(i, sub)]\<rparr>)"

definition SubscriberCount :: "EventBus \<Rightarrow> nat" where
  "SubscriberCount eb = length (subscribers eb)"

definition Bus_Stats :: "EventBus \<Rightarrow> u64 \<times> u64 \<times> u64" where
  "Bus_Stats eb = (totalEvents eb, totalDeliveries eb, droppedEvents eb)"

record SubscriberInfo =
  siID :: string
  siEventTypes :: "string list"
  siHasFilter :: bool
  siEventsReceived :: u64
  siEventsDropped :: u64
  siLastEventTime :: "gotime option"
  siCreatedAt :: gotime
  siUptime :: gotime

definition GetSubscriberInfo :: "gotime \<Rightarrow> string \<Rightarrow> EventBus \<Rightarrow> SubscriberInfo option" where
  "GetSubscriberInfo now i eb =
     (case map_of (subscribers eb) i of
        None \<Rightarrow> None
      | Some sub \<Rightarrow> Some \<lparr>siID = subID sub, siEventTypes = remdups (subTypes sub),
          siHasFilter = (subFilter sub \<noteq> None), siEventsReceived = subReceived sub,
          siEventsDropped = subDropped sub,
          siLastEventTime = (if subLastEventTime sub > 0 then Some (subLastEventTime sub) else None),
          siCreatedAt = subCreatedAt sub, siUptime = now - subCreatedAt sub\<rparr>)"

definition GetAllSubscriberInfo :: "gotime \<Rightarrow> EventBus \<Rightarrow> SubscriberInfo list" where
  "GetAllSubscriberInfo now eb =
     List.map_filter (\<lambda>x. GetSubscriberInfo now (fst x) eb) (subscribers eb)"

text \<open>A consumer takes the next event from its channel.\<close>

definition receive :: "string \<Rightarrow> EventBus \<Rightarrow> event option \<times> EventBus" where
  "receive i eb =
     (case map_of (subscribers eb) i of
        None \<Rightarrow> (None, eb)
      | Some sub \<Rightarrow>
          (case subChan sub of
             [] \<Rightarrow> (None, eb)
           | e # es \<Rightarrow> (Some e, eb\<lparr>subscribers :=
               map (\<lambda>x. if fst x = i then (i, sub\<lparr>subChan := es\<rparr>) else x) (subscribers eb)\<rparr>)))"

section \<open>The ring buffer is the list of the last events\<close>

definition chron :: "EventBus \<Rightarrow> event option list" where
  "chron eb = rotate (eventHistoryIdx eb) (eventHistory eb)"

text \<open>\<open>history_of eb evs\<close>: the buffer holds the last of the events \<open>evs\<close>, as many as fit.\<close>

definition history_of :: "EventBus \<Rightarrow> event list \<Rightarrow> bool" where
  "history_of eb evs \<longleftrightarrow> 0 < eventHistorySize eb \<and> length (eventHistory eb) = eventHistorySize eb \<and>
     eventHistoryIdx eb < eventHistorySize eb \<and>
     chron eb = replicate (eventHistorySize eb - length evs) None @ map Some (lastN (eventHistorySize eb) evs)"

lemma chron_store:
  assumes "length (eventHistory eb) = eventHistorySize eb" "eventHistoryIdx eb < eventHistorySize eb"
  shows "chron (storeEventInHistory e eb) = tl (chron eb) @ [Some e]"
proof (rule nth_equalityI)
  let ?n = "eventHistorySize eb" and ?i = "eventHistoryIdx eb"
  show "length (chron (storeEventInHistory e eb)) = length (tl (chron eb) @ [Some e])"
    using assms by (simp add: chron_def storeEventInHistory_def)
  fix m
  assume "m < length (chron (storeEventInHistory e eb))"
  then have m: "m < ?n" using assms by (simp add: chron_def storeEventInHistory_def)
  have l: "chron (storeEventInHistory e eb) ! m = (eventHistory eb)[?i := Some e] ! (((?i + 1) mod ?n + m) mod ?n)"
    using m assms by (simp add: chron_def storeEventInHistory_def nth_rotate)
  have idx: "((?i + 1) mod ?n + m) mod ?n = (?i + (m + 1)) mod ?n"
    by (simp add: mod_simps add.assoc)
  show "chron (storeEventInHistory e eb) ! m = (tl (chron eb) @ [Some e]) ! m"
  proof (cases "m + 1 = ?n")
    case True
    then have "(?i + (m + 1)) mod ?n = ?i" using assms by simp
    then have "chron (storeEventInHistory e eb) ! m = Some e" using l idx assms by simp
    moreover have "length (tl (chron eb)) = m" using True assms by (simp add: chron_def)
    ultimately show ?thesis by (metis nth_append_length)
  next
    case False
    then have lt: "m + 1 < ?n" using m by simp
    have "(?i + (m + 1)) mod ?n \<noteq> ?i"
    proof (cases "?i + (m + 1) < ?n")
      case True
      then show ?thesis by simp
    next
      case False
      then have "(?i + (m + 1)) mod ?n = ?i + (m + 1) - ?n"
        using assms lt by (simp add: mod_if)
      then show ?thesis using lt False by linarith
    qed
    moreover have "(tl (chron eb) @ [Some e]) ! m = eventHistory eb ! ((?i + (m + 1)) mod ?n)"
    proof -
      have "m < length (tl (chron eb))" using lt assms by (simp add: chron_def)
      then show ?thesis using lt assms by (simp add: nth_append nth_tl chron_def nth_rotate)
    qed
    ultimately show ?thesis using l idx assms by simp
  qed
qed

lemma history_of_store:
  assumes "history_of eb evs"
  shows "history_of (storeEventInHistory e eb) (evs @ [e])"
proof -
  let ?n = "eventHistorySize eb"
  have h: "0 < ?n" "length (eventHistory eb) = ?n" "eventHistoryIdx eb < ?n"
    "chron eb = replicate (?n - length evs) None @ map Some (lastN ?n evs)"
    using assms by (simp_all add: history_of_def)
  have "chron (storeEventInHistory e eb) = tl (chron eb) @ [Some e]"
    using h by (intro chron_store) simp_all
  also have "\<dots> = replicate (?n - length (evs @ [e])) None @ map Some (lastN ?n (evs @ [e]))"
  proof (cases "length evs < ?n")
    case True
    then obtain k where k: "?n - length evs = Suc k" by (metis Suc_diff_Suc)
    then have "?n - length (evs @ [e]) = k" by simp
    with True k h(4) show ?thesis by (simp add: lastN_def)
  next
    case False
    then have "lastN ?n evs \<noteq> []" using h(1) length_lastN [of ?n evs] by auto
    with False h show ?thesis by (simp add: lastN_snoc map_tl)
  qed
  finally show ?thesis using h by (simp add: history_of_def storeEventInHistory_def)
qed

lemma recentLoop_chron:
  assumes "length (eventHistory eb) = eventHistorySize eb"
  shows "recentLoop [0..<eventHistorySize eb] types flt eb =
    filter (wants types flt) (map the (filter (\<lambda>x. x \<noteq> None) (chron eb)))"
proof -
  have "recentLoop is types flt eb = filter (wants types flt) (map the (filter (\<lambda>x. x \<noteq> None)
      (map (\<lambda>i. eventHistory eb ! ((eventHistoryIdx eb + i) mod eventHistorySize eb)) is)))" for "is"
    by (induction "is") (auto simp: Let_def split: option.splits)
  moreover have "map (\<lambda>i. eventHistory eb ! ((eventHistoryIdx eb + i) mod eventHistorySize eb))
      [0..<eventHistorySize eb] = chron eb"
    using assms by (intro nth_equalityI) (simp_all add: chron_def nth_rotate)
  ultimately show ?thesis by simp
qed

lemma getRecentEvents_eq:
  assumes "history_of eb evs"
  shows "getRecentEvents n types flt eb =
    lastN (if n \<le> 0 \<or> n > int (eventHistorySize eb) then eventHistorySize eb else nat n)
      (filter (wants types flt) (lastN (eventHistorySize eb) evs))"
proof -
  have "recentLoop [0..<eventHistorySize eb] types flt eb =
      filter (wants types flt) (lastN (eventHistorySize eb) evs)"
    using assms by (simp add: recentLoop_chron history_of_def filter_map o_def)
  then show ?thesis by (simp add: getRecentEvents_def lastN_def Let_def)
qed

section \<open>Broadcast serves every subscriber\<close>

lemma broadcastLoop_map:
  "fst (broadcastLoop now e subs) = map (\<lambda>(i, s). (i, fst (deliver now e s))) subs"
  by (induction subs) (auto split: prod.splits)

lemma broadcastLoop_counts:
  "fst (snd (broadcastLoop now e subs)) + snd (snd (broadcastLoop now e subs)) =
     word_of_nat (length (filter (\<lambda>(i, s). wants (subTypes s) (subFilter s) e) subs))"
proof (induction subs)
  case (Cons x subs)
  obtain i s where x: "x = (i, s)" by fastforce
  obtain s' d r where d: "deliver now e s = (s', d, r)" by (metis prod_cases3)
  obtain t d' r' where b: "broadcastLoop now e subs = (t, d', r')" by (metis prod_cases3)
  have dr: "d + r = (if wants (subTypes s) (subFilter s) e then 1 else 0)"
    using d by (auto simp: deliver_def trySend_def split: if_splits)
  have "(d + d') + (r + r') = (d + r) + (d' + r')" by simp
  also have "d' + r' = word_of_nat (length (filter (\<lambda>(i, s). wants (subTypes s) (subFilter s) e) subs))"
    using Cons.IH b by simp
  finally have "(d + d') + (r + r') = (if wants (subTypes s) (subFilter s) e then 1 else 0) +
      word_of_nat (length (filter (\<lambda>(i, s). wants (subTypes s) (subFilter s) e) subs))"
    by (simp only: dr)
  with x d b show ?case by simp
qed simp

text \<open>The channel of a subscription after a sequence of events, nothing received in between.\<close>

fun deliverAll :: "(gotime \<times> event) list \<Rightarrow> Subscription \<Rightarrow> Subscription" where
  "deliverAll [] sub = sub"
| "deliverAll ((now, e) # es) sub = deliverAll es (fst (deliver now e sub))"

fun handleAll :: "(gotime \<times> event) list \<Rightarrow> EventBus \<Rightarrow> EventBus" where
  "handleAll [] eb = eb"
| "handleAll ((now, e) # es) eb = handleAll es (handleEvent now e eb)"

lemma handleEvent_subscribers:
  "subscribers (handleEvent now e eb) = map (\<lambda>(i, s). (i, fst (deliver now e s))) (subscribers eb)"
  using broadcastLoop_map [of now e "subscribers eb"]
  by (cases "broadcastLoop now e (subscribers eb)")
    (simp add: handleEvent_def broadcastEvent_def storeEventInHistory_def)

lemma handleAll_subscribers:
  "subscribers (handleAll es eb) = map (\<lambda>(i, s). (i, deliverAll es s)) (subscribers eb)"
  by (induction es eb rule: handleAll.induct) (auto simp: handleEvent_subscribers)

lemma deliver_fields:
  "subTypes (fst (deliver now e s)) = subTypes s" "subFilter (fst (deliver now e s)) = subFilter s"
  "subCap (fst (deliver now e s)) = subCap s"
  by (simp_all add: deliver_def trySend_def)

lemma deliverAll_chan:
  "length (subChan s) \<le> subCap s \<Longrightarrow>
   subChan (deliverAll es s) = subChan s @ take (subCap s - length (subChan s))
     (filter (wants (subTypes s) (subFilter s)) (map snd es))"
proof (induction es arbitrary: s)
  case (Cons x es)
  obtain now e where x: "x = (now, e)" by fastforce
  let ?s = "fst (deliver now e s)"
  have "length (subChan ?s) \<le> subCap ?s"
    using Cons.prems by (simp add: deliver_def trySend_def)
  note IH = Cons.IH [OF this]
  consider "\<not> wants (subTypes s) (subFilter s) e"
    | "wants (subTypes s) (subFilter s) e" "length (subChan s) < subCap s"
    | "wants (subTypes s) (subFilter s) e" "length (subChan s) = subCap s"
    using Cons.prems by linarith
  then show ?case
  proof cases
    case 1
    with IH x show ?thesis by (simp add: deliver_def)
  next
    case 2
    then obtain k where "subCap s - length (subChan s) = Suc k" "subCap s - Suc (length (subChan s)) = k"
      by (metis Suc_diff_Suc)
    with 2 IH x show ?thesis by (simp add: deliver_def trySend_def)
  next
    case 3
    with IH x show ?thesis by (simp add: deliver_def trySend_def)
  qed
qed simp

section \<open>Properties of the bus\<close>

lemma handleEvent_history:
  "history_of eb evs \<Longrightarrow> history_of (handleEvent now e eb) (evs @ [e])"
  using history_of_store [of "eb\<lparr>totalEvents := totalEvents eb + 1\<rparr>" evs e]
  by (cases "broadcastLoop now e (subscribers eb)")
    (simp add: handleEvent_def broadcastEvent_def storeEventInHistory_def history_of_def chron_def)

lemma handleAll_history:
  "history_of eb evs \<Longrightarrow> history_of (handleAll es eb) (evs @ map snd es)"
proof (induction es arbitrary: eb evs)
  case (Cons x es)
  then show ?case using handleEvent_history [of eb evs "fst x" "snd x"] by (cases x) fastforce
qed simp

lemma NewEventBus_history: "history_of (NewEventBusWithHistory cap n) []"
  by (auto simp: NewEventBusWithHistory_def history_of_def chron_def Let_def lastN_def
      DefaultEventHistorySize_def)

lemma handleEvent_size: "eventHistorySize (handleEvent now e eb) = eventHistorySize eb"
  by (cases "broadcastLoop now e (subscribers eb)")
    (simp add: handleEvent_def broadcastEvent_def storeEventInHistory_def)

lemma handleAll_size: "eventHistorySize (handleAll es eb) = eventHistorySize eb"
  by (induction es eb rule: handleAll.induct) (simp_all add: handleEvent_size)

text \<open>
  Replay. After a new bus has handled any sequence of events, the replay of the last \<open>n\<close> gives,
  oldest first, the last \<open>n\<close> of the events that match the subscription among the last
  \<open>eventHistorySize\<close> events handled; a count that is not positive or larger than the history means
  the whole history.
\<close>

theorem replay_last_matching:
  "getRecentEvents n types flt (handleAll es (NewEventBusWithHistory cap h)) =
   (let size = (if h \<le> 0 then DefaultEventHistorySize else nat h) in
    lastN (if n \<le> 0 \<or> n > int size then size else nat n)
      (filter (wants types flt) (lastN size (map snd es))))"
proof -
  have "history_of (handleAll es (NewEventBusWithHistory cap h)) (map snd es)"
    using handleAll_history [OF NewEventBus_history, of es cap h] by simp
  moreover have "eventHistorySize (handleAll es (NewEventBusWithHistory cap h)) =
      (if h \<le> 0 then DefaultEventHistorySize else nat h)"
    by (simp add: handleAll_size NewEventBusWithHistory_def Let_def)
  ultimately show ?thesis by (simp add: getRecentEvents_eq Let_def)
qed

lemma map_of_map_snd: "map_of (map (\<lambda>(i, s). (i, f s)) xs) k = map_option f (map_of xs k)"
  by (induction xs) auto

text \<open>
  C37: delivery. While a subscriber takes nothing out, handling a sequence of events appends to its
  channel exactly the events it asked for, in the order of publication, up to the free room; the
  rest of them are dropped, whatever the other subscribers do.
\<close>

theorem delivery_in_order:
  assumes "map_of (subscribers eb) i = Some s" "length (subChan s) \<le> subCap s"
  shows "\<exists>s'. map_of (subscribers (handleAll es eb)) i = Some s' \<and>
    subChan s' = subChan s @ take (subCap s - length (subChan s))
      (filter (wants (subTypes s) (subFilter s)) (map snd es))"
  using assms by (simp add: handleAll_subscribers map_of_map_snd deliverAll_chan)

definition sampleBus :: EventBus where
  "sampleBus = snd (Bus_Subscribe 0 ''a'' [''x''] None 2 (NewEventBus 10 10))"

theorem delivery_in_order_witness:
  "\<exists>s'. map_of (subscribers (handleAll [(1, OtherEvent ''x''), (2, OtherEvent ''y''),
      (3, OtherEvent ''x''), (4, OtherEvent ''x'')] sampleBus)) ''a'' = Some s' \<and>
    subChan s' = [OtherEvent ''x'', OtherEvent ''x'']"
proof -
  obtain s where s: "map_of (subscribers sampleBus) ''a'' = Some s" "subChan s = []" "subCap s = 2"
    "subTypes s = [''x'']" "subFilter s = None"
    by (simp add: sampleBus_def Bus_Subscribe_def SubscribeWithOptions_def NewEventBus_def
        NewEventBusWithHistory_def Let_def putSub_def)
  then show ?thesis
    using delivery_in_order [of sampleBus "''a''" s "[(1, OtherEvent ''x''), (2, OtherEvent ''y''),
      (3, OtherEvent ''x''), (4, OtherEvent ''x'')]"]
    by (simp add: wants_def Event_Type_def numeral_2_eq_2)
qed

lemma broadcast_stats:
  "totalDeliveries (handleEvent now e eb) + droppedEvents (handleEvent now e eb) =
     totalDeliveries eb + droppedEvents eb +
     word_of_nat (length (filter (\<lambda>(i, s). wants (subTypes s) (subFilter s) e) (subscribers eb)))"
proof -
  obtain t d r where b: "broadcastLoop now e (subscribers eb) = (t, d, r)" by (metis prod_cases3)
  have "(totalDeliveries eb + d) + (droppedEvents eb + r) = totalDeliveries eb + droppedEvents eb + (d + r)"
    by simp
  then show ?thesis using b broadcastLoop_counts [of now e "subscribers eb"]
    by (simp add: handleEvent_def broadcastEvent_def storeEventInHistory_def)
qed

section \<open>The bus as a state machine\<close>

inductive bus_step :: "EventBus \<Rightarrow> EventBus \<Rightarrow> bool" where
  bus_publish: "bus_step eb (snd (Publish e eb))"
| bus_subscribe: "bus_step eb (snd (SubscribeWithOptions now i types flt replayLast channelSize eb))"
| bus_unsubscribe: "bus_step eb (Unsubscribe i eb)"
| bus_receive: "bus_step eb (snd (receive i eb))"
| bus_stop: "bus_step eb (Bus_Stop eb)"
| bus_run: "run_step now eb eb' \<Longrightarrow> bus_step eb eb'"

definition sub_ok :: "string \<times> Subscription \<Rightarrow> bool" where
  "sub_ok x \<longleftrightarrow> subID (snd x) = fst x \<and> length (subChan (snd x)) \<le> subCap (snd x) \<and>
     (\<forall>e\<in>set (subChan (snd x)). wants (subTypes (snd x)) (subFilter (snd x)) e)"

text \<open>
  One subscription per identifier, no channel above its capacity, nothing in a channel that was not
  asked for, no live subscription once the main loop has ended, and no closed channel twice.
\<close>

definition bus_inv :: "EventBus \<Rightarrow> bool" where
  "bus_inv eb \<longleftrightarrow> distinct (map fst (subscribers eb)) \<and> list_all sub_ok (subscribers eb) \<and>
     list_all sub_ok (closedSubs eb) \<and> length (publishCh eb) \<le> publishCap eb \<and>
     (runDone eb \<longrightarrow> stopped eb \<and> subscribers eb = []) \<and> (\<exists>evs. history_of eb evs)"

lemma sub_ok_deliver: "sub_ok (i, s) \<Longrightarrow> sub_ok (i, fst (deliver now e s))"
  by (auto simp: sub_ok_def deliver_def trySend_def)

lemma handleEvent_frame:
  "closedSubs (handleEvent now e eb) = closedSubs eb" "publishCh (handleEvent now e eb) = publishCh eb"
  "publishCap (handleEvent now e eb) = publishCap eb" "runDone (handleEvent now e eb) = runDone eb"
  "stopped (handleEvent now e eb) = stopped eb"
  by (cases "broadcastLoop now e (subscribers eb)",
      simp add: handleEvent_def broadcastEvent_def storeEventInHistory_def)+

lemma map_fst_map: "map fst (map (\<lambda>(i, s). (i, f s)) xs) = map fst xs"
  by (induction xs) auto

lemma bus_inv_handleEvent: "bus_inv eb \<Longrightarrow> bus_inv (handleEvent now e eb)"
  by (auto simp: bus_inv_def handleEvent_frame handleEvent_subscribers map_fst_map
      list_all_iff sub_ok_deliver intro: exI handleEvent_history simp del: map_map)

lemma replayLoop_fields:
  "subTypes (replayLoop now es s) = subTypes s" "subFilter (replayLoop now es s) = subFilter s"
  "subCap (replayLoop now es s) = subCap s" "subID (replayLoop now es s) = subID s"
  by (induction now es s rule: replayLoop.induct) (auto simp: trySend_def)

lemma replayLoop_chan:
  "length (subChan s) \<le> subCap s \<Longrightarrow>
   subChan (replayLoop now es s) = subChan s @ take (subCap s - length (subChan s)) es"
proof (induction es arbitrary: s)
  case (Cons e es)
  show ?case
  proof (cases "length (subChan s) < subCap s")
    case True
    then obtain k where "subCap s - length (subChan s) = Suc k" "subCap s - Suc (length (subChan s)) = k"
      by (metis Suc_diff_Suc)
    with True Cons show ?thesis by (simp add: trySend_def)
  next
    case False
    with Cons show ?thesis by (simp add: trySend_def)
  qed
qed simp

lemma getRecentEvents_wants:
  "history_of eb evs \<Longrightarrow> e \<in> set (getRecentEvents n types flt eb) \<Longrightarrow> wants types flt e"
  by (auto simp: getRecentEvents_eq lastN_def dest!: in_set_dropD)

lemma history_of_subscribers:
  "history_of (eb\<lparr>subscribers := a, closedSubs := b\<rparr>) evs = history_of eb evs"
  "history_of (eb\<lparr>subscribers := a\<rparr>) evs = history_of eb evs"
  "history_of (eb\<lparr>publishCh := c\<rparr>) evs = history_of eb evs"
  "history_of (eb\<lparr>stopped := d\<rparr>) evs = history_of eb evs"
  "history_of (eb\<lparr>runDone := d\<rparr>) evs = history_of eb evs"
  by (simp_all add: history_of_def chron_def)

lemma bus_inv_putSub:
  "bus_inv eb \<Longrightarrow> sub_ok (i, s) \<Longrightarrow> \<not> stopped eb \<Longrightarrow>
   bus_inv (eb\<lparr>subscribers := putSub i s (subscribers eb)\<rparr>)"
  by (auto simp: bus_inv_def putSub_def list_all_iff history_of_subscribers distinct_map
      intro: inj_on_subset)

lemma bus_inv_subscribe:
  assumes "bus_inv eb"
  shows "bus_inv (snd (SubscribeWithOptions now i types flt replayLast channelSize eb))"
proof -
  obtain evs where h: "history_of eb evs" using assms by (auto simp: bus_inv_def)
  show ?thesis
    using assms
    by (auto simp: SubscribeWithOptions_def Let_def sub_ok_def replayLoop_fields replayLoop_chan
        intro!: bus_inv_putSub dest!: in_set_takeD dest: getRecentEvents_wants [OF h])
qed

lemma bus_inv_unsubscribe: "bus_inv eb \<Longrightarrow> bus_inv (Unsubscribe i eb)"
  by (auto simp: bus_inv_def Unsubscribe_def list_all_iff history_of_subscribers distinct_map
      split: option.splits intro: inj_on_subset dest: map_of_SomeD)

lemma bus_inv_receive:
  assumes "bus_inv eb"
  shows "bus_inv (snd (receive i eb))"
proof (cases "map_of (subscribers eb) i")
  case (Some s)
  show ?thesis
  proof (cases "subChan s")
    case (Cons e es)
    have "sub_ok (i, s)" using assms Some by (auto simp: bus_inv_def list_all_iff dest: map_of_SomeD)
    then have ok: "sub_ok (i, s\<lparr>subChan := es\<rparr>)" using Cons by (auto simp: sub_ok_def)
    have keys: "map fst (map (\<lambda>x. if fst x = i then (i, s\<lparr>subChan := es\<rparr>) else x) xs) = map fst xs"
      for xs :: "(string \<times> Subscription) list" by (induction xs) auto
    show ?thesis using assms Some Cons ok
      by (auto simp: bus_inv_def receive_def list_all_iff history_of_subscribers keys simp del: map_map)
  qed (use assms Some in \<open>simp add: receive_def\<close>)
qed (use assms in \<open>simp add: receive_def\<close>)

lemma bus_inv_run: "run_step now eb eb' \<Longrightarrow> bus_inv eb \<Longrightarrow> bus_inv eb'"
proof (induction rule: run_step.induct)
  case (run_event eb e es)
  then have "bus_inv (eb\<lparr>publishCh := es\<rparr>)" by (auto simp: bus_inv_def history_of_subscribers)
  then show ?case by (rule bus_inv_handleEvent)
next
  case (run_shutdown eb)
  then show ?case by (auto simp: bus_inv_def closeAllSubscriptions_def history_of_subscribers)
qed

lemma bus_inv_step: "bus_step eb eb' \<Longrightarrow> bus_inv eb \<Longrightarrow> bus_inv eb'"
  by (induction rule: bus_step.induct)
    (auto simp: bus_inv_subscribe bus_inv_unsubscribe bus_inv_receive bus_inv_run,
     auto simp: bus_inv_def Publish_def Bus_Stop_def history_of_subscribers)

lemma bus_inv_new: "bus_inv (NewEventBusWithHistory cap h)"
  using NewEventBus_history [of cap h] by (auto simp: bus_inv_def NewEventBusWithHistory_def Let_def)



text \<open>
  Subscribing again under an identifier in use takes the old subscription out of the bus without
  closing its channel: its consumer waits for ever.
\<close>

lemma resubscribe_leaks:
  "\<not> stopped eb \<Longrightarrow> map_of (subscribers eb) i = Some old \<Longrightarrow>
   closedSubs (snd (Bus_Subscribe now i types None n eb)) = closedSubs eb"
  by (simp add: Bus_Subscribe_def SubscribeWithOptions_def Let_def)

end
