(* ===== verification/Fetcher.thy ===== *)
theory Fetcher
  imports LargeBlock Metrics EventBus
begin

text \<open>
  The fetcher (\<^verbatim>\<open>pkg/fetch/fetcher.go\<close>, \<^verbatim>\<open>fetcher_processing.go\<close>, \<^verbatim>\<open>fetcher_events.go\<close> and the gap recovery of
  \<^verbatim>\<open>fetcher_gaps.go\<close>): fetching a block with retries, storing and indexing it, fetching ranges
  in sequence or with a pool of workers, and the main loop. It is the place where the node, the
  storage, the event bus and the metrics meet.
\<close>

section \<open>Configuration and state\<close>

record FetchConfig =
  fcStartHeight :: u64
  fcBatchSize :: int
  fcMaxRetries :: int
  fcRetryDelay :: u64
  fcNumWorkers :: int

definition FetchConfig_Validate :: "FetchConfig \<Rightarrow> string option" where
  "FetchConfig_Validate c =
     (if fcBatchSize c \<le> 0 then Some ''batch size must be positive''
      else if fcMaxRetries c \<le> 0 then Some ''max retries must be positive''
      else if sint (fcRetryDelay c) \<le> 0 then Some ''retry delay must be positive''
      else None)"

text \<open>
  The handler of system contracts of a chain adapter: which addresses are system contracts, and the
  name of the event a log parses to, if it parses.
\<close>

record adapter =
  adIsSystemContract :: "address \<Rightarrow> bool"
  adParseEvent :: "log \<Rightarrow> string option"

text \<open>
  What a fetcher is made with. \<open>feClient\<close> is the block source, the chain adapter's if there is
  one; \<open>fePoolDone\<close> looks at the context within the pool of the large-block processor and \<open>feSchedule\<close>
  is how that pool is scheduled. The signatures of the two membership events are hashes made by a
  library.
\<close>

record ('db, 'c, 'f) fenv =
  feDB :: "'db pebble"
  feGeth :: geth
  feJson :: addrJson
  feCollab :: "'db collab"
  feClient :: "'c client"
  feFloats :: "'f floats"
  feConfig :: FetchConfig
  feAdapter :: "adapter option"
  feSigMemberAdded :: hash
  feSigMemberRemoved :: hash
  fePoolDone :: "'c \<Rightarrow> nat \<Rightarrow> bool"
  feSchedule :: "nat \<Rightarrow> (nat \<times> nat) list \<Rightarrow> (nat \<times> (nat \<times> nat)) list"

record ('db, 'c, 'f) fetcher =
  fWorld :: "('db, 'c) world"
  fBus :: "EventBus option"
  fMetrics :: "'f RPCMetrics"
  fNow :: gotime

definition onWorld :: "(('db, 'c) world, 'a) op \<Rightarrow> (('db, 'c, 'f) fetcher, 'a) op" where
  "onWorld m = (\<lambda>f. case m (fWorld f) of (r, w) \<Rightarrow> (r, f\<lparr>fWorld := w\<rparr>))"

definition recordReq :: "gotime \<Rightarrow> bool \<Rightarrow> (('db, 'c, 'f) fetcher, unit) op" where
  "recordReq t0 isError = (\<lambda>f. (Inr (),
     f\<lparr>fMetrics := RecordRequest (fNow f) (fNow f - t0) isError False (fMetrics f)\<rparr>))"

definition sleep :: "int \<Rightarrow> (('db, 'c, 'f) fetcher, unit) op" where
  "sleep d = (\<lambda>f. (Inr (), f\<lparr>fNow := fNow f + max 0 d\<rparr>))"

text \<open>An event that does not fit the channel is dropped with a warning.\<close>

definition publish :: "(gotime \<Rightarrow> event) \<Rightarrow> (('db, 'c, 'f) fetcher, unit) op" where
  "publish e = (\<lambda>f. case fBus f of
     None \<Rightarrow> (Inr (), f)
   | Some bus \<Rightarrow> (Inr (), f\<lparr>fBus := Some (snd (Publish (e (fNow f)) bus))\<rparr>))"

section \<open>Fetching with retries\<close>

text \<open>The delay doubles from attempt to attempt, in 64 bits.\<close>

definition backoffDelay :: "FetchConfig \<Rightarrow> int \<Rightarrow> int" where
  "backoffDelay c att = sint (fcRetryDelay c * push_bit (nat (att - 1)) 1)"

function fetchBlockAndReceiptsWithRetry :: "('db, 'c, 'f) fenv \<Rightarrow> u64 \<Rightarrow> gotime \<Rightarrow> int \<Rightarrow> bool \<Rightarrow>
    (('db, 'c, 'f) fetcher, block option \<times> receipt option list \<times> bool) op" where
  "fetchBlockAndReceiptsWithRetry E height t0 att hadError f =
     (if att \<le> fcMaxRetries (feConfig E) then
        let f = (if att > 0 then snd (sleep (backoffDelay (feConfig E) att) f) else f) in
        case onWorld (onNode (cl_block (feClient E) height)) f of
          (Inl e, f1) \<Rightarrow>
            let f2 = snd (recordReq t0 True f1) in
            if att = fcMaxRetries (feConfig E) then (Inl (Wrap ''failed to fetch block'' e), f2)
            else fetchBlockAndReceiptsWithRetry E height t0 (att + 1) True f2
        | (Inr block, f1) \<Rightarrow>
            (case onWorld (onNode (cl_receipts (feClient E) height)) f1 of
               (Inl e, f2) \<Rightarrow>
                 let f3 = snd (recordReq t0 True f2) in
                 if att = fcMaxRetries (feConfig E) then (Inl (Wrap ''failed to fetch receipts'' e), f3)
                 else fetchBlockAndReceiptsWithRetry E height t0 (att + 1) True f3
             | (Inr receipts, f2) \<Rightarrow> (Inr (block, receipts, hadError), f2))
      else (Inr (None, [], hadError), f))"
  by pat_completeness auto
termination by (relation "measure (\<lambda>(E, h, t, a, b, f). nat (fcMaxRetries (feConfig E) + 1 - a))") auto

declare fetchBlockAndReceiptsWithRetry.simps [simp del]

section \<open>Storing and indexing one block\<close>

definition processBlockMetadata :: "('db, 'c, 'f) fenv \<Rightarrow> block \<Rightarrow> receipt option list \<Rightarrow> u64 \<Rightarrow>
    (('db, 'c) world, unit) op" where
  "processBlockMetadata E b receipts height =
     (let P = feDB E; G = feGeth E; H = feCollab E in
      andThen (onStore (wrapping ''failed to process WBFT metadata'' (coWBFT H b))) (\<lambda>_.
      andThen (onStore (wrapping ''failed to process address indexing''
        (processAddressIndexing P G (feJson E) H b receipts))) (\<lambda>_.
      andThen (wrapping ''failed to process balance tracking''
        (processBalanceTracking P G (feClient E) b receipts)) (\<lambda>_.
      if height = 0
      then andThen (attempt (initializeGenesisBalances P G (feClient E) b)) (\<lambda>_.
        attempt (onStore (coGenesisTokens H)))
      else ret ()))))"

definition parseSystemEvents :: "('db, 'c, 'f) fenv \<Rightarrow> receipt \<Rightarrow> ('db storage, unit) op" where
  "parseSystemEvents E r = whenSome (coSysEvents (feCollab E)) (\<lambda>parseAndIndex.
     if rLogs r \<noteq> [] then attempt (parseAndIndex (rLogs r)) else ret ())"

definition eachReceipt :: "(receipt \<Rightarrow> ('s, unit) op) \<Rightarrow> receipt option list \<Rightarrow> ('s, unit) op" where
  "eachReceipt work = forEach (\<lambda>x. case x of None \<Rightarrow> throw nilReceipt | Some r \<Rightarrow> work r)"

definition storeReceipt :: "('db, 'c, 'f) fenv \<Rightarrow> receipt \<Rightarrow> ('db storage, unit) op" where
  "storeReceipt E r =
     andThen (wrapping ''failed to store receipt for tx'' (SetReceipt (feDB E) (feGeth E) (Some r))) (\<lambda>_.
     if rLogs r \<noteq> [] then attempt (IndexLogs (feDB E) (feGeth E) (map Some (rLogs r))) else ret ())"

definition storeAndProcessReceipts :: "('db, 'c, 'f) fenv \<Rightarrow> block \<Rightarrow> receipt option list \<Rightarrow> (('db, 'c) world, unit) op" where
  "storeAndProcessReceipts E b receipts = (\<lambda>w. onStore
     (andThen (ShouldProcessInBatches b receipts) (\<lambda>large.
      if large
      then andThen (wrapping ''failed to process large block receipts''
          (ProcessReceiptsParallel (feDB E) (feGeth E) (feJson E) (feCollab E) (fePoolDone E (wNode w)) (feSchedule E)
            b receipts)) (\<lambda>_.
        whenSome (coSysEvents (feCollab E)) (\<lambda>_. eachReceipt (parseSystemEvents E) receipts))
      else eachReceipt (\<lambda>r. andThen (storeReceipt E r) (\<lambda>_. parseSystemEvents E r)) receipts)) w)"

section \<open>Events\<close>

text \<open>A change of the validator set is an event type without a filter of its own.\<close>

definition validatorSetEvent :: event where
  "validatorSetEvent = OtherEvent ''validatorSet''"

definition detectSystemEvents :: "('db, 'c, 'f) fenv \<Rightarrow> log \<Rightarrow> (('db, 'c, 'f) fetcher, unit) op" where
  "detectSystemEvents E l =
     (case feAdapter E of
        Some ad \<Rightarrow>
          if \<not> adIsSystemContract ad (lAddress l) then ret ()
          else if lTopics l = [] then ret ()
          else (case adParseEvent ad l of
              None \<Rightarrow> ret ()
            | Some eventName \<Rightarrow>
                if eventName = ''MemberAdded'' \<or> eventName = ''MemberRemoved''
                then publish (\<lambda>_. validatorSetEvent) else ret ())
      | None \<Rightarrow>
          if lAddress l \<noteq> GovValidatorAddress then ret ()
          else if lTopics l = [] then ret ()
          else if lTopics l ! 0 = feSigMemberAdded E
          then if length (lTopics l) \<ge> 2 then publish (\<lambda>_. validatorSetEvent) else ret ()
          else if lTopics l ! 0 = feSigMemberRemoved E
          then if length (lTopics l) \<ge> 2 then publish (\<lambda>_. validatorSetEvent) else ret ()
          else ret ())"

definition publishTxEvents :: "block \<Rightarrow> receipt option list \<Rightarrow> (('db, 'c, 'f) fetcher, unit) op" where
  "publishTxEvents b receipts = forEach (\<lambda>(i, t).
     publish (\<lambda>now. NewTransactionEvent now t (bNumber b) (bHash b) (word_of_nat i) (tFrom t)
       (buildReceiptMap receipts (tHash t)))) (enumerate 0 (bTxs b))"

definition publishBlockEvents :: "('db, 'c, 'f) fenv \<Rightarrow> block \<Rightarrow> receipt option list \<Rightarrow> (('db, 'c, 'f) fetcher, unit) op" where
  "publishBlockEvents E b receipts =
     andThen (publishTxEvents b receipts) (\<lambda>_.
     forEach (\<lambda>x. whenSome x (\<lambda>r.
       forEach (\<lambda>l. andThen (publish (\<lambda>now. NewLogEvent now (Some l))) (\<lambda>_. detectSystemEvents E l)) (rLogs r)))
       receipts)"

definition processBlockWithProcessors :: "('db, 'c, 'f) fenv \<Rightarrow> block \<Rightarrow> receipt option list \<Rightarrow> ('db storage, unit) op" where
  "processBlockWithProcessors E b receipts =
     forEach (\<lambda>processBlock. attempt (processBlock b receipts)) (coProcessors (feCollab E))"

section \<open>Fetching a block\<close>

definition onStorageOf :: "('db storage, 'a) op \<Rightarrow> (('db, 'c, 'f) fetcher, 'a) op" where
  "onStorageOf m = onWorld (onStore m)"

text \<open>What happens to a fetched block between \<^verbatim>\<open>SetBlock\<close> and \<^verbatim>\<open>SetLatestHeight\<close>.\<close>

definition indexBlock :: "('db, 'c, 'f) fenv \<Rightarrow> u64 \<Rightarrow> block \<Rightarrow> receipt option list \<Rightarrow> (('db, 'c, 'f) fetcher, unit) op" where
  "indexBlock E height b receipts =
     andThen (onWorld (processBlockMetadata E b receipts height)) (\<lambda>_.
     andThen (attempt (onStorageOf (coFeeMeta (feCollab E) height))) (\<lambda>_.
     andThen (publish (\<lambda>now. NewBlockEvent now b)) (\<lambda>_.
     andThen (onWorld (storeAndProcessReceipts E b receipts)) (\<lambda>_.
     andThen (\<lambda>f. if fBus f \<noteq> None then publishBlockEvents E b receipts f else (Inr (), f)) (\<lambda>_.
     onStorageOf (processBlockWithProcessors E b receipts))))))"

text \<open>\<open>t0\<close> is the time at which the fetch began.\<close>

definition fetchBlockSince :: "('db, 'c, 'f) fenv \<Rightarrow> u64 \<Rightarrow> gotime \<Rightarrow> (('db, 'c, 'f) fetcher, unit) op" where
  "fetchBlockSince E height t0 =
     andThen (fetchBlockAndReceiptsWithRetry E height t0 0 False) (\<lambda>(block, receipts, hadError).
     andThen (if \<not> hadError then recordReq t0 False else ret ()) (\<lambda>_.
     andThen (onStorageOf (wrapping ''failed to store block'' (SetBlock (feDB E) (feGeth E) block))) (\<lambda>_.
     case block of
       None \<Rightarrow> throw nilReceipt
     | Some b \<Rightarrow>
         andThen (indexBlock E height b receipts) (\<lambda>_.
         andThen (onStorageOf (wrapping ''failed to update latest height'' (SetLatestHeight (feDB E) height))) (\<lambda>_ f.
         (Inr (), f\<lparr>fMetrics := RecordBlockProcessed (feFloats E) (fNow f) (length receipts) (fMetrics f)\<rparr>))))))"

definition FetchBlock :: "('db, 'c, 'f) fenv \<Rightarrow> u64 \<Rightarrow> (('db, 'c, 'f) fetcher, unit) op" where
  "FetchBlock E height = (\<lambda>f. fetchBlockSince E height (fNow f) f)"

section \<open>Ranges\<close>

definition ctxDone :: "('db, 'c, 'f) fenv \<Rightarrow> ('db, 'c, 'f) fetcher \<Rightarrow> bool" where
  "ctxDone E f = cl_done (feClient E) (wNode (fWorld f))"

text \<open>The height is a 64-bit counter: with the largest end the loop has no end, \<open>None\<close>.\<close>

partial_function (option) FetchRange :: "('db, 'c, 'f) fenv \<Rightarrow> u64 \<Rightarrow> u64 \<Rightarrow> ('db, 'c, 'f) fetcher \<Rightarrow>
    ((serror + unit) \<times> ('db, 'c, 'f) fetcher) option" where
  "FetchRange E height hi f =
     (if height \<le> hi then
        if ctxDone E f then Some (Inl (Wrap ''context cancelled at block'' ErrContext), f)
        else case FetchBlock E height f of
            (Inl e, f') \<Rightarrow> Some (Inl (Wrap ''failed to fetch block'' e), f')
          | (Inr _, f') \<Rightarrow> FetchRange E (height + 1) hi f'
      else Some (Inr (), f))"

section \<open>Ranges with a pool of workers\<close>

record jobResult =
  jrHeight :: u64
  jrBlock :: "block option"
  jrReceipts :: "receipt option list"
  jrErr :: "serror option"

text \<open>
  A worker fetches a block with the same retries; it looks at the context before each attempt. It
  works on the node alone; the back-off is left out here, workers have no clock in common.
\<close>

function fetchBlockJob :: "('db, 'c, 'f) fenv \<Rightarrow> u64 \<Rightarrow> int \<Rightarrow> 'c \<Rightarrow> jobResult \<times> 'c" where
  "fetchBlockJob E height att c =
     (let failed = (\<lambda>e. \<lparr>jrHeight = height, jrBlock = None, jrReceipts = [], jrErr = Some e\<rparr>) in
      if att \<le> fcMaxRetries (feConfig E) then
        if cl_done (feClient E) c then (failed ErrContext, c)
        else case cl_block (feClient E) height c of
            (Inl e, c1) \<Rightarrow>
              if att = fcMaxRetries (feConfig E) then (failed (Wrap ''failed to fetch block'' e), c1)
              else fetchBlockJob E height (att + 1) c1
          | (Inr block, c1) \<Rightarrow>
              (case cl_receipts (feClient E) height c1 of
                 (Inl e, c2) \<Rightarrow>
                   if att = fcMaxRetries (feConfig E) then (failed (Wrap ''failed to fetch receipts'' e), c2)
                   else fetchBlockJob E height (att + 1) c2
               | (Inr receipts, c2) \<Rightarrow>
                   (\<lparr>jrHeight = height, jrBlock = block, jrReceipts = receipts, jrErr = None\<rparr>, c2))
      else (\<lparr>jrHeight = height, jrBlock = None, jrReceipts = [], jrErr = None\<rparr>, c))"
  by pat_completeness auto
termination by (relation "measure (\<lambda>(E, h, a, c). nat (fcMaxRetries (feConfig E) + 1 - a))") auto

declare fetchBlockJob.simps [simp del]

text \<open>
  What the collector does with the result for the next height. There is no metadata of the genesis block, no
  handling of large blocks, no parsing of system events, no log event and no block processor here.
\<close>

definition indexJob :: "('db, 'c, 'f) fenv \<Rightarrow> u64 \<Rightarrow> block \<Rightarrow> receipt option list \<Rightarrow> (('db, 'c, 'f) fetcher, unit) op" where
  "indexJob E next b receipts =
     (let P = feDB E; G = feGeth E; H = feCollab E in
      andThen (onStorageOf (wrapping ''failed to process WBFT metadata'' (coWBFT H b))) (\<lambda>_.
      andThen (onStorageOf (wrapping ''failed to process address indexing''
        (processAddressIndexing P G (feJson E) H b receipts))) (\<lambda>_.
      andThen (onWorld (wrapping ''failed to process balance tracking''
        (processBalanceTracking P G (feClient E) b receipts))) (\<lambda>_.
      andThen (attempt (onStorageOf (coFeeMeta H next))) (\<lambda>_.
      andThen (publish (\<lambda>now. NewBlockEvent now b)) (\<lambda>_.
      andThen (onStorageOf (eachReceipt (storeReceipt E) receipts)) (\<lambda>_ f.
      if fBus f \<noteq> None then publishTxEvents b receipts f else (Inr (), f))))))))"

definition storeJob :: "('db, 'c, 'f) fenv \<Rightarrow> u64 \<Rightarrow> jobResult \<Rightarrow> (('db, 'c, 'f) fetcher, unit) op" where
  "storeJob E next res =
     andThen (onStorageOf (wrapping ''failed to store block'' (SetBlock (feDB E) (feGeth E) (jrBlock res)))) (\<lambda>_.
     case jrBlock res of
       None \<Rightarrow> throw nilReceipt
     | Some b \<Rightarrow>
         andThen (indexJob E next b (jrReceipts res)) (\<lambda>_.
         onStorageOf (wrapping ''failed to update latest height'' (SetLatestHeight (feDB E) next))))"

text \<open>
  The inner loop of the collector: results that wait are handled as long as the next height is among
  them. The table of waiting results is an association list without double keys.
\<close>

definition putResult :: "jobResult \<Rightarrow> (u64 \<times> jobResult) list \<Rightarrow> (u64 \<times> jobResult) list" where
  "putResult r m = (jrHeight r, r) # filter (\<lambda>x. fst x \<noteq> jrHeight r) m"

lemma length_filter_map_of: "map_of m n = Some r \<Longrightarrow> length (filter (\<lambda>x. fst x \<noteq> n) m) < length m"
  using length_filter_less [of "(n, r)" m] by (auto dest: map_of_SomeD)

function drainResults :: "('db, 'c, 'f) fenv \<Rightarrow> u64 \<Rightarrow> u64 \<Rightarrow> (u64 \<times> jobResult) list \<Rightarrow>
    (('db, 'c, 'f) fetcher, u64 \<times> (u64 \<times> jobResult) list) op" where
  "drainResults E hi next m f =
     (case map_of m next of
        None \<Rightarrow> (Inr (next, m), f)
      | Some res \<Rightarrow>
          (case storeJob E next res f of
             (Inl e, f') \<Rightarrow> (Inl e, f')
           | (Inr _, f') \<Rightarrow>
               let m' = filter (\<lambda>x. fst x \<noteq> next) m in
               if next + 1 > hi then (Inr (next + 1, m'), f')
               else drainResults E hi (next + 1) m' f'))"
  by pat_completeness auto
termination by (relation "measure (\<lambda>(E, hi, n, m, f). length m)") (auto intro: length_filter_map_of)

declare drainResults.simps [simp del]

text \<open>The collector over the results in the order they arrive; it ends when the channel is closed.\<close>

fun collectResults :: "('db, 'c, 'f) fenv \<Rightarrow> u64 \<Rightarrow> jobResult list \<Rightarrow> u64 \<Rightarrow> (u64 \<times> jobResult) list \<Rightarrow>
    (('db, 'c, 'f) fetcher, unit) op" where
  "collectResults E hi [] next m f = (Inr (), f)"
| "collectResults E hi (r # rs) next m f =
     (case jrErr r of
        Some e \<Rightarrow> (Inl (Wrap ''failed to fetch block'' e), f)
      | None \<Rightarrow>
          (case drainResults E hi next (putResult r m) f of
             (Inl e, f') \<Rightarrow> (Inl e, f')
           | (Inr (next', m'), f') \<Rightarrow> collectResults E hi rs next' m' f'))"

text \<open>\<open>arrivals\<close> are the results the workers send, in the order the collector receives them.\<close>

definition FetchRangeConcurrent :: "('db, 'c, 'f) fenv \<Rightarrow> jobResult list \<Rightarrow> u64 \<Rightarrow> u64 \<Rightarrow>
    (('db, 'c, 'f) fetcher, unit) op" where
  "FetchRangeConcurrent E arrivals lo hi = (\<lambda>f.
     if ctxDone E f then (Inl ErrContext, f) else collectResults E hi arrivals lo [] f)"

section \<open>Gap recovery and the main loop\<close>

text \<open>\<open>arrivals g\<close> is what the workers send while gap \<open>g\<close> is filled.\<close>

definition FillGap :: "('db, 'c, 'f) fenv \<Rightarrow> (GapRange \<Rightarrow> jobResult list) \<Rightarrow> GapRange \<Rightarrow> ('db, 'c, 'f) fetcher \<Rightarrow>
    ((serror + unit) \<times> ('db, 'c, 'f) fetcher) option" where
  "FillGap E arrivals gap f =
     (if GapRange_Size gap > 10 then Some (FetchRangeConcurrent E (arrivals gap) (gStart gap) (gEnd gap) f)
      else FetchRange E (gStart gap) (gEnd gap) f)"

fun FillGaps :: "('db, 'c, 'f) fenv \<Rightarrow> (GapRange \<Rightarrow> jobResult list) \<Rightarrow> GapRange list \<Rightarrow> ('db, 'c, 'f) fetcher \<Rightarrow>
    ((serror + unit) \<times> ('db, 'c, 'f) fetcher) option" where
  "FillGaps E arrivals [] f = Some (Inr (), f)"
| "FillGaps E arrivals (gap # gaps) f =
     (case FillGap E arrivals gap f of
        None \<Rightarrow> None
      | Some (Inl e, f') \<Rightarrow> Some (Inl (Wrap ''failed to fill gap'' e), f')
      | Some (Inr _, f') \<Rightarrow> FillGaps E arrivals gaps f')"

definition GetNextHeight :: "('db, 'c, 'f) fenv \<Rightarrow> ('db, 'c, 'f) fetcher \<Rightarrow> u64" where
  "GetNextHeight E f =
     (case fst (GetLatestHeight (feDB E) (wStore (fWorld f))) of
        Inl e \<Rightarrow> fcStartHeight (feConfig E)
      | Inr latestHeight \<Rightarrow>
          if fcStartHeight (feConfig E) > latestHeight then fcStartHeight (feConfig E) else latestHeight + 1)"

text \<open>One round of \<^verbatim>\<open>Run\<close>: it stops with an error, or goes on with a next height.\<close>

definition runRound :: "('db, 'c, 'f) fenv \<Rightarrow> u64 \<Rightarrow> ('db, 'c, 'f) fetcher \<Rightarrow>
    ((serror + u64) \<times> ('db, 'c, 'f) fetcher) option" where
  "runRound E next f =
     (let pause = (\<lambda>f. snd (sleep (sint (fcRetryDelay (feConfig E))) f)) in
      if ctxDone E f then Some (Inl ErrContext, f)
      else case onWorld (onNode (cl_latest (feClient E))) f of
          (Inl e, f1) \<Rightarrow> Some (Inr next, pause f1)
        | (Inr latest, f1) \<Rightarrow>
            if next > latest then Some (Inr next, pause f1)
            else let batchEnd = next + word_of_int (fcBatchSize (feConfig E)) - 1;
                     batchEnd = (if batchEnd > latest then latest else batchEnd)
                 in case FetchRange E next batchEnd f1 of
                      None \<Rightarrow> None
                    | Some (Inl e, f2) \<Rightarrow> Some (Inr next, pause f2)
                    | Some (Inr _, f2) \<Rightarrow> Some (Inr (batchEnd + 1), f2))"

text \<open>The first \<open>n\<close> rounds of \<^verbatim>\<open>Run\<close>; it goes on until the context is done.\<close>

fun runRounds :: "('db, 'c, 'f) fenv \<Rightarrow> nat \<Rightarrow> u64 \<Rightarrow> ('db, 'c, 'f) fetcher \<Rightarrow>
    ((serror + u64) \<times> ('db, 'c, 'f) fetcher) option" where
  "runRounds E 0 next f = Some (Inr next, f)"
| "runRounds E (Suc n) next f =
     (case runRound E next f of
        None \<Rightarrow> None
      | Some (Inl e, f') \<Rightarrow> Some (Inl e, f')
      | Some (Inr next', f') \<Rightarrow> runRounds E n next' f')"

text \<open>
  \<^verbatim>\<open>RunWithGapRecovery\<close> looks for missing blocks and for missing receipts up to the latest height, fetches
  them and goes on with \<^verbatim>\<open>Run\<close>; errors of the recovery are logged. \<open>cancelled\<close> is the state of the
  context during the scans and before each receipt gap, \<open>getReceipts\<close> the answers of the node while receipts are recovered.
\<close>

record recovery =
  rvScanDone :: "u64 \<Rightarrow> bool"
  rvArrivals :: "GapRange \<Rightarrow> jobResult list"
  rvFillDone :: "nat \<Rightarrow> bool"
  rvReceipts :: "u64 \<Rightarrow> serror + receipt list"

definition recoverBlockGaps :: "('db, 'c, 'f) fenv \<Rightarrow> recovery \<Rightarrow> u64 \<Rightarrow> ('db, 'c, 'f) fetcher \<Rightarrow>
    ('db, 'c, 'f) fetcher option" where
  "recoverBlockGaps E V latestHeight f =
     (case DetectGaps (HasBlock (feDB E)) (rvScanDone V) (fcStartHeight (feConfig E)) latestHeight (wStore (fWorld f)) of
        None \<Rightarrow> None
      | Some ((gaps, Some e), s) \<Rightarrow> Some f
      | Some ((gaps, None), s) \<Rightarrow>
          if gaps \<noteq> [] then map_option snd (FillGaps E (rvArrivals V) gaps f) else Some f)"

definition recoverReceiptGaps :: "('db, 'c, 'f) fenv \<Rightarrow> recovery \<Rightarrow> u64 \<Rightarrow> ('db, 'c, 'f) fetcher \<Rightarrow>
    ('db, 'c, 'f) fetcher option" where
  "recoverReceiptGaps E V latestHeight f =
     (case DetectReceiptGaps (HasBlock (feDB E)) (GetMissingReceipts (feDB E) (feGeth E)) (rvScanDone V)
         (fcStartHeight (feConfig E)) latestHeight (wStore (fWorld f)) of
        None \<Rightarrow> None
      | Some ((gaps, Some e), s) \<Rightarrow> Some f
      | Some ((gaps, None), s) \<Rightarrow>
          if gaps \<noteq> []
          then Some (snd (onStorageOf (FillReceiptGaps (rvReceipts V)
            (\<lambda>r. SetReceipt (feDB E) (feGeth E) (Some r)) (rvFillDone V) 0 gaps) f))
          else Some f)"

definition Run :: "('db, 'c, 'f) fenv \<Rightarrow> nat \<Rightarrow> ('db, 'c, 'f) fetcher \<Rightarrow>
    ((serror + u64) \<times> ('db, 'c, 'f) fetcher) option" where
  "Run E n f = runRounds E n (GetNextHeight E f) f"

definition RunWithGapRecovery :: "('db, 'c, 'f) fenv \<Rightarrow> recovery \<Rightarrow> nat \<Rightarrow> ('db, 'c, 'f) fetcher \<Rightarrow>
    ((serror + u64) \<times> ('db, 'c, 'f) fetcher) option" where
  "RunWithGapRecovery E V n f =
     (case fst (GetLatestHeight (feDB E) (wStore (fWorld f))) of
        Inl e \<Rightarrow> Run E n f
      | Inr latestHeight \<Rightarrow>
          if latestHeight > fcStartHeight (feConfig E)
          then case recoverBlockGaps E V latestHeight f of
              None \<Rightarrow> None
            | Some f1 \<Rightarrow>
                (case recoverReceiptGaps E V latestHeight f1 of
                   None \<Rightarrow> None
                 | Some f2 \<Rightarrow> Run E n f2)
          else Run E n f)"

section \<open>What indexing a block leaves alone\<close>

text \<open>A relation between storages, read on the state of the indexer and of the fetcher.\<close>

definition onW :: "('db storage \<Rightarrow> 'db storage \<Rightarrow> bool) \<Rightarrow> ('db, 'c) world \<Rightarrow> ('db, 'c) world \<Rightarrow> bool" where
  "onW R w w' \<longleftrightarrow> R (wStore w) (wStore w')"

definition onF :: "('db storage \<Rightarrow> 'db storage \<Rightarrow> bool) \<Rightarrow> ('db, 'c, 'f) fetcher \<Rightarrow> ('db, 'c, 'f) fetcher \<Rightarrow> bool" where
  "onF R f f' \<longleftrightarrow> R (wStore (fWorld f)) (wStore (fWorld f'))"

lemma reflp_onW [simp]: "reflp R \<Longrightarrow> reflp (onW R)"
  by (simp add: reflp_def onW_def)

lemma transp_onW [simp]: "transp R \<Longrightarrow> transp (onW R)"
  unfolding transp_def onW_def by blast

lemma reflp_onF [simp]: "reflp R \<Longrightarrow> reflp (onF R)"
  by (simp add: reflp_def onF_def)

lemma transp_onF [simp]: "transp R \<Longrightarrow> transp (onF R)"
  unfolding transp_def onF_def by blast

lemma keeps_onStore: "keeps R m \<Longrightarrow> keeps (onW R) (onStore m)"
  by (auto simp: keeps_def onW_def onStore_def split: prod.splits) (metis snd_conv)

lemma keeps_onNode: "reflp R \<Longrightarrow> keeps (onW R) (onNode m)"
  by (auto simp: keeps_def onW_def onNode_def split: prod.splits dest: reflpD)

lemma keeps_onWorld: "keeps (onW R) m \<Longrightarrow> keeps (onF R) (onWorld m)"
  by (auto simp: keeps_def onW_def onF_def onWorld_def split: prod.splits) (metis snd_conv)

lemma keeps_onStorageOf: "keeps R m \<Longrightarrow> keeps (onF R) (onStorageOf m)"
  unfolding onStorageOf_def by (intro keeps_onWorld keeps_onStore)

lemma keeps_publish: "reflp R \<Longrightarrow> keeps (onF R) (publish e)"
  by (auto simp: keeps_def onF_def publish_def split: option.splits dest: reflpD)

lemma keeps_whenSome: "reflp R \<Longrightarrow> (\<And>y. x = Some y \<Longrightarrow> keeps R (g y)) \<Longrightarrow> keeps R (whenSome x g)"
  by (cases x) (simp_all add: whenSome_def keeps_ret)

text \<open>The pool takes every batch it is given.\<close>

definition fair :: "(nat \<Rightarrow> (nat \<times> nat) list \<Rightarrow> (nat \<times> (nat \<times> nat)) list) \<Rightarrow> bool" where
  "fair schedule \<longleftrightarrow> (\<forall>n bs. set bs \<subseteq> snd ` set (schedule n bs))"

context pebble_db
begin

abbreviation fcore :: "geth \<Rightarrow> ('db, 'c) world \<Rightarrow> ('db, 'c) world \<Rightarrow> bool" where
  "fcore G \<equiv> onW (frame view (core G))"

lemma fcore_refl: "reflp (fcore G)" and fcore_trans: "transp (fcore G)"
  by simp_all

lemmas fcore_seq = keeps_andThen [OF fcore_trans] keeps_ret [OF fcore_refl] keeps_throw [OF fcore_refl]
  keeps_wrapping [OF fcore_refl fcore_trans] keeps_catch [OF fcore_trans] keeps_attempt [OF fcore_refl fcore_trans]
  keeps_forEach [OF fcore_refl fcore_trans] keeps_whenSome [OF fcore_refl] keeps_onNode [OF reflp_frame] keeps_onStore

lemma fcore_ensure: "keeps (fcore G) (ensureAddressBalanceInitialized P G C a n)"
  unfolding ensureAddressBalanceInitialized_def by (simp add: fcore_seq frame_rules)

lemma fcore_processBalanceTracking: "keeps (fcore G) (processBalanceTracking P G C b rs)"
proof -
  have "keeps (fcore G) (trackTx P G C n rm t)" for n rm t
    unfolding trackTx_def Let_def
    by (simp add: fcore_seq frame_rules fcore_ensure split: option.split)
  then show ?thesis unfolding processBalanceTracking_def by (intro fcore_seq)
qed

lemma fcore_initializeGenesisBalances: "keeps (fcore G) (initializeGenesisBalances P G C b)"
  unfolding initializeGenesisBalances_def Let_def by (simp add: fcore_seq frame_rules)

lemma fcore_processBlockMetadata:
  assumes "feDB E = P" "tame view (feGeth E) (feCollab E)"
  shows "keeps (fcore (feGeth E)) (processBlockMetadata E b rs h)"
proof -
  have "keeps (frame view (core (feGeth E))) (coWBFT (feCollab E) b)"
    "keeps (frame view (core (feGeth E))) (coGenesisTokens (feCollab E))"
    using assms(2) by (simp_all add: tame_def)
  then show ?thesis
    unfolding processBlockMetadata_def Let_def assms(1)
    by (simp add: fcore_seq frame_rules fcore_processBalanceTracking fcore_initializeGenesisBalances
        frame_processAddressIndexing [OF assms(2)])
qed


section \<open>Every receipt of an indexed block is stored\<close>

lemma frame_parseSystemEvents:
  assumes "tame view (feGeth E) (feCollab E)"
  shows "keeps (frame view (core (feGeth E))) (parseSystemEvents E r)"
  unfolding parseSystemEvents_def by (intro frame_rules) (use assms in \<open>auto simp: tame_def\<close>)

lemma grow_storeReceipt: "feDB E = P \<Longrightarrow> keeps (receipts_grow view (feGeth E)) (storeReceipt E r)"
  unfolding storeReceipt_def by (simp add: grow_rules keeps_frame_grow [OF frame_IndexLogs])

lemma storeReceipt_stores:
  assumes "feDB E = P" "storeReceipt E r s = (Inr u, s')"
  shows "receipts_grow view (feGeth E) s s' \<and> view (db s') (ReceiptKey (feGeth E) (rTxHash r)) \<noteq> None"
proof -
  let ?logs = "if rLogs r \<noteq> [] then attempt (IndexLogs P (feGeth E) (map Some (rLogs r))) else ret ()"
  obtain s1 where s1: "SetReceipt P (feGeth E) (Some r) s = (Inr (), s1)" "?logs s1 = (Inr u, s')"
    using assms by (auto simp: storeReceipt_def andThen_eq_Inr)
  have "keeps (receipts_grow view (feGeth E)) ?logs" by (intro grow_rules keeps_frame_grow [OF frame_IndexLogs])
  then have "receipts_grow view (feGeth E) s1 s'" using s1(2) unfolding keeps_def by (metis snd_conv)
  moreover have "receipts_grow view (feGeth E) s s'"
    using grow_storeReceipt [OF assms(1), of r] assms(2) unfolding keeps_def by (metis snd_conv)
  ultimately show ?thesis using SetReceipt_stores [OF s1(1)] grow_receipt by blast
qed

text \<open>A loop over receipts whose body stores its receipt and loses none.\<close>

lemma eachReceipt_stores:
  assumes "\<And>r s s'. work r s = (Inr (), s') \<Longrightarrow>
      receipts_grow view G s s' \<and> view (db s') (ReceiptKey G (rTxHash r)) \<noteq> None"
    and "eachReceipt work rs s = (Inr u, s')"
  shows "receipts_grow view G s s' \<and> (\<forall>r. Some r \<in> set rs \<longrightarrow> view (db s') (ReceiptKey G (rTxHash r)) \<noteq> None)"
  using assms(2)
proof (induction rs arbitrary: s)
  case Nil
  then show ?case by (simp add: eachReceipt_def grow_same)
next
  case (Cons x rs)
  then obtain r s1 where x: "x = Some r" and s1: "work r s = (Inr (), s1)" "eachReceipt work rs s1 = (Inr u, s')"
    by (cases x) (auto simp: eachReceipt_def andThen_eq_Inr)
  note one = assms(1) [OF s1(1)]
  note all = Cons.IH [OF s1(2)]
  from one all have "receipts_grow view G s s'" "view (db s') (ReceiptKey G (rTxHash r)) \<noteq> None"
    using grow_trans grow_receipt by blast+
  with all x show ?case by auto
qed

lemma grow_eachReceipt:
  "(\<And>r. keeps (receipts_grow view G) (work r)) \<Longrightarrow> keeps (receipts_grow view G) (eachReceipt work rs)"
  unfolding eachReceipt_def by (intro grow_rules)

lemma storeAndProcessReceipts_stores:
  assumes "feDB E = P" "tame view (feGeth E) (feCollab E)" "fair (feSchedule E)"
    and "storeAndProcessReceipts E b rs w = (Inr u, w')"
  shows "receipts_grow view (feGeth E) (wStore w) (wStore w') \<and>
    (\<forall>r. Some r \<in> set rs \<longrightarrow> view (db (wStore w')) (ReceiptKey (feGeth E) (rTxHash r)) \<noteq> None)"
proof -
  let ?G = "feGeth E"
  let ?par = "ProcessReceiptsParallel P ?G (feJson E) (feCollab E) (fePoolDone E (wNode w)) (feSchedule E) b rs"
  let ?parse = "whenSome (coSysEvents (feCollab E)) (\<lambda>_. eachReceipt (parseSystemEvents E) rs)"
  let ?seq = "eachReceipt (\<lambda>r. andThen (storeReceipt E r) (\<lambda>_. parseSystemEvents E r)) rs"
  have parse: "keeps (receipts_grow view ?G) (parseSystemEvents E r)" for r
    by (rule keeps_frame_grow [OF frame_parseSystemEvents [OF assms(2)]])
  have "snd (ShouldProcessInBatches b rs s) = s" for s :: "'db storage"
    by (auto simp: ShouldProcessInBatches_def split: option.splits)
  then have sh: "ShouldProcessInBatches b rs s = (r, s') \<Longrightarrow> s' = s" for s s' :: "'db storage" and r by (metis snd_conv)
  from assms(4) obtain s1 where "(\<exists>s2. ?par (wStore w) = (Inr (), s2) \<and> ?parse s2 = (Inr u, s1)) \<or> ?seq (wStore w) = (Inr u, s1)"
    and w': "wStore w' = s1"
    by (auto simp: storeAndProcessReceipts_def onStore_def andThen_eq_Inr assms(1) split: prod.splits if_splits dest!: sh)
  then show ?thesis
  proof (elim disjE exE conjE)
    fix s2 assume p: "?par (wStore w) = (Inr (), s2)" "?parse s2 = (Inr u, s1)"
    have "set (batchesFrom (length rs) 0) \<subseteq> snd ` set (feSchedule E (numWorkersFor (length rs)) (batchesFrom (length rs) 0))"
      using assms(3) by (simp add: fair_def)
    note a = ProcessReceiptsParallel_present [OF pebble_db_axioms assms(2) this p(1)]
    have "keeps (receipts_grow view ?G) ?parse" by (intro grow_rules grow_eachReceipt parse)
    then have "receipts_grow view ?G s2 s1" using p(2) unfolding keeps_def by (metis snd_conv)
    with a w' show ?thesis using grow_trans grow_receipt by meson
  next
    assume q: "?seq (wStore w) = (Inr u, s1)"
    have "receipts_grow view ?G s s' \<and> view (db s') (ReceiptKey ?G (rTxHash r)) \<noteq> None"
      if st: "andThen (storeReceipt E r) (\<lambda>_. parseSystemEvents E r) s = (Inr (), s')" for r s s'
    proof -
      obtain s2 where s2: "storeReceipt E r s = (Inr (), s2)" "parseSystemEvents E r s2 = (Inr (), s')"
        using st by (auto simp: andThen_eq_Inr)
      have "receipts_grow view ?G s2 s'" using parse [of r] s2(2) unfolding keeps_def by (metis snd_conv)
      with storeReceipt_stores [OF assms(1) s2(1)] show ?thesis using grow_trans grow_receipt by blast
    qed
    from eachReceipt_stores [OF this q] w' show ?thesis by simp
  qed
qed


lemma grow_storeAndProcessReceipts:
  fixes E :: "('db, 'c, 'f) fenv"
  assumes "feDB E = P" "tame view (feGeth E) (feCollab E)"
  shows "keeps (onW (receipts_grow view (feGeth E))) (storeAndProcessReceipts E b rs)"
proof -
  have "keeps (receipts_grow view (feGeth E)) (ShouldProcessInBatches b rs)"
    by (auto simp: ShouldProcessInBatches_def grow_rules split: option.split)
  note rules = this grow_ProcessReceiptsParallel [OF pebble_db_axioms assms(2)] grow_storeReceipt [OF assms(1)]
    keeps_frame_grow [OF frame_parseSystemEvents [OF assms(2)]]
  show ?thesis unfolding keeps_def
  proof
    fix w :: "('db, 'c) world"
    have "keeps (onW (receipts_grow view (feGeth E))) (onStore
     (andThen (ShouldProcessInBatches b rs) (\<lambda>large.
      if large
      then andThen (wrapping ''failed to process large block receipts''
          (ProcessReceiptsParallel P (feGeth E) (feJson E) (feCollab E) (fePoolDone E (wNode w)) (feSchedule E)
            b rs)) (\<lambda>_.
        whenSome (coSysEvents (feCollab E)) (\<lambda>_. eachReceipt (parseSystemEvents E) rs))
      else eachReceipt (\<lambda>r. andThen (storeReceipt E r) (\<lambda>_. parseSystemEvents E r)) rs)))"
      by (intro keeps_onStore grow_rules grow_eachReceipt rules)
    then show "onW (receipts_grow view (feGeth E)) w (snd (storeAndProcessReceipts E b rs w))"
      unfolding storeAndProcessReceipts_def assms(1) keeps_def by blast
  qed
qed

end

section \<open>What fetching a block does to the core tables\<close>

definition core_grow :: "('db \<Rightarrow> bytes \<Rightarrow> bytes option) \<Rightarrow> geth \<Rightarrow> 'db storage \<Rightarrow> 'db storage \<Rightarrow> bool" where
  "core_grow view G s s' \<longleftrightarrow> frame view (\<lambda>k. k = LatestHeightKey) s s' \<and>
     (\<forall>h. view (db s) (BlockKey h) \<noteq> None \<longrightarrow> view (db s') (BlockKey h) \<noteq> None) \<and>
     (\<forall>x. view (db s) (ReceiptKey G x) \<noteq> None \<longrightarrow> view (db s') (ReceiptKey G x) \<noteq> None)"

lemma core_grow_refl [simp]: "reflp (core_grow view G)"
  by (simp add: reflp_def core_grow_def)

lemma core_grow_trans [simp]: "transp (core_grow view G)"
  unfolding transp_def core_grow_def by (blast intro: frame_trans)

lemma receipts_core_grow: "receipts_grow view G s s' \<Longrightarrow> core_grow view G s s'"
  by (auto simp: core_grow_def receipts_grow_def frame_def)

lemma frame_core_grow: "frame view (core G) s s' \<Longrightarrow> core_grow view G s s'"
  by (rule receipts_core_grow [OF frame_receipts_grow])

lemma keeps_mono: "keeps R m \<Longrightarrow> (\<And>s s'. R s s' \<Longrightarrow> R' s s') \<Longrightarrow> keeps R' m"
  by (simp add: keeps_def)

lemma onF_mono: "onF R f f' \<Longrightarrow> (\<And>s s'. R s s' \<Longrightarrow> R' s s') \<Longrightarrow> onF R' f f'"
  by (simp add: onF_def)

lemmas core_grow_seq = keeps_andThen [OF core_grow_trans] keeps_ret [OF core_grow_refl] keeps_throw [OF core_grow_refl]
  keeps_wrapping [OF core_grow_refl core_grow_trans] keeps_fromOption [OF core_grow_refl]
  keeps_forEach [OF core_grow_refl core_grow_trans]

context pebble_db
begin

lemma core_grow_dbSet: "k \<noteq> LatestHeightKey \<Longrightarrow> keeps (core_grow view G) (dbSet P k v)"
  unfolding keeps_def
proof
  fix s
  assume k: "k \<noteq> LatestHeightKey"
  obtain r s' where s: "dbSet P k v s = (r, s')" by (metis surj_pair)
  show "core_grow view G s (snd (dbSet P k v s))"
    using k s dbSet_Inr [of k v s _ s'] dbSet_Inl [of k v s _ s']
    by (cases r) (auto simp: core_grow_def frame_def only_db_def)
qed

lemma core_grow_guards: "keeps (core_grow view G) ensureNotClosed" "keeps (core_grow view G) ensureNotReadOnly"
  by (auto simp: keeps_def ensureNotClosed_def ensureNotReadOnly_def core_grow_def)

lemma core_grow_SetTransaction: "keeps (core_grow view G) (SetTransaction P G (Some t) (Some loc))"
proof -
  have c: "keeps (core_grow view G) (\<lambda>s. m s (s\<lparr>txCount := g s\<rparr>))" if k: "\<And>s. keeps (core_grow view G) (m s)" for m g
  proof -
    have "core_grow view G (s\<lparr>txCount := g s\<rparr>) (snd (m s (s\<lparr>txCount := g s\<rparr>)))" for s
      using k [of s] unfolding keeps_def by blast
    then show ?thesis by (simp add: keeps_def core_grow_def frame_def)
  qed
  have e: "keeps (core_grow view G) (EncodeTransaction G (Some t))" "keeps (core_grow view G) (EncodeTxLocation G (Some loc))"
    by (simp_all add: EncodeTransaction_def EncodeTxLocation_def core_grow_seq)
  have "keeps (core_grow view G) (\<lambda>s. let newCount = txCount s + 1 in
      wrapping ''failed to update transaction count'' (dbSet P TransactionCountKey (EncodeUint64 newCount)) (s\<lparr>txCount := newCount\<rparr>))"
    unfolding Let_def by (rule c) (intro core_grow_seq core_grow_dbSet, simp)
  then show ?thesis unfolding SetTransaction_def writable_def
    by (simp add: core_grow_seq core_grow_guards core_grow_dbSet e)
qed

lemma core_grow_SetBlock: "keeps (core_grow view G) (SetBlock P G b)"
proof (cases b)
  case (Some x)
  have e: "keeps (core_grow view G) (EncodeBlock G (Some x))" by (simp add: EncodeBlock_def core_grow_seq)
  have "keeps (core_grow view G) (forEach (\<lambda>(txIndex, t). wrapping ''failed to store transaction''
              (SetTransaction P G (Some t) (Some (txLocationOf x txIndex)))) (enumerate 0 (bTxs x)))"
    unfolding case_prod_beta by (intro core_grow_seq core_grow_SetTransaction)
  then show ?thesis unfolding Some SetBlock_def writable_def option.case
    by (simp add: core_grow_seq core_grow_guards core_grow_dbSet e)
qed (simp add: SetBlock_def writable_def core_grow_seq core_grow_guards)

lemma SetBlock_present:
  assumes "SetBlock P G (Some b) s = (Inr u, s')"
  shows "view (db s') (BlockKey (bNumber b)) \<noteq> None"
proof -
  let ?rest = "andThen (wrapping ''failed to set block hash index''
            (dbSet P (BlockHashIndexKey G (bHash b)) (EncodeUint64 (bNumber b)))) (\<lambda>_.
          forEach (\<lambda>(txIndex, t). wrapping ''failed to store transaction''
              (SetTransaction P G (Some t) (Some (txLocationOf b txIndex))))
            (enumerate 0 (bTxs b)))"
  obtain e s1 where s1: "dbSet P (BlockKey (bNumber b)) e s = (Inr (), s1)" "?rest s1 = (Inr u, s')"
    using assms
    by (auto simp: SetBlock_def guard_simps andThen_eq_Inr [of "wrapping ''failed to set block'' _"]
        andThen_eq_Inr [of "wrapping ''failed to encode block'' _"] EncodeBlock_def split: if_splits)
  have "keeps (core_grow view G) ?rest" unfolding case_prod_beta
    by (intro core_grow_seq core_grow_SetTransaction core_grow_dbSet) simp
  then have "core_grow view G s1 s'" using s1(2) unfolding keeps_def by (metis snd_conv)
  then show ?thesis using dbSet_Inr [OF s1(1)] by (simp add: core_grow_def)
qed

end

end
