(* ===== verification/Sync.thy ===== *)
theory Sync
  imports Fetcher
begin

text \<open>
  What the fetcher of \<open>Fetcher\<close> guarantees: retries end with the first answer of the node, a
  worker of the pool and the sequential loop fetch the same, a fetched block is stored with its receipts before
  the latest height moves to it, the main loop never leaves a hole below the latest height, and
  the collector of the pool stores blocks in the order of their heights whatever order they come in.
\<close>

section \<open>Retries\<close>

text \<open>One attempt at the node, and the node after some attempts.\<close>

definition tryNode :: "'c client \<Rightarrow> u64 \<Rightarrow> ('c, block option \<times> receipt option list) op" where
  "tryNode C h = andThen (wrapping ''failed to fetch block'' (cl_block C h)) (\<lambda>b.
     andThen (wrapping ''failed to fetch receipts'' (cl_receipts C h)) (\<lambda>rs. ret (b, rs)))"

primrec nodeAfter :: "'c client \<Rightarrow> u64 \<Rightarrow> nat \<Rightarrow> 'c \<Rightarrow> 'c" where
  "nodeAfter C h 0 c = c"
| "nodeAfter C h (Suc n) c = nodeAfter C h n (snd (tryNode C h c))"

text \<open>The first answer within some attempts, with the number of failures before it, or the last error.\<close>

fun firstAnswer :: "'c client \<Rightarrow> u64 \<Rightarrow> nat \<Rightarrow> ('c, (block option \<times> receipt option list) \<times> nat) op" where
  "firstAnswer C h n c =
     (case tryNode C h c of
        (Inr a, c') \<Rightarrow> (Inr (a, 0), c')
      | (Inl e, c') \<Rightarrow>
          (case n of
             0 \<Rightarrow> (Inl e, c')
           | Suc m \<Rightarrow> (case firstAnswer C h m c' of (Inl e, c2) \<Rightarrow> (Inl e, c2) | (Inr (a, k), c2) \<Rightarrow> (Inr (a, Suc k), c2))))"

declare firstAnswer.simps [simp del]

lemma firstAnswer_first:
  "firstAnswer C h n c = (Inr (a, k), c') \<longleftrightarrow>
   k \<le> n \<and> tryNode C h (nodeAfter C h k c) = (Inr a, c') \<and> (\<forall>i<k. \<exists>e. fst (tryNode C h (nodeAfter C h i c)) = Inl e)"
proof (induction n arbitrary: c k)
  case 0
  then show ?case by (auto simp: firstAnswer.simps split: prod.splits sum.splits)
next
  case (Suc n)
  show ?case
  proof (cases "tryNode C h c")
    case (Pair r c1)
    show ?thesis
    proof (cases r)
      case (Inl e)
      have "firstAnswer C h (Suc n) c = (Inr (a, k), c') \<longleftrightarrow> (\<exists>j. k = Suc j \<and> firstAnswer C h n c1 = (Inr (a, j), c'))"
        using Pair Inl by (auto simp: firstAnswer.simps [of C h "Suc n"] split: prod.splits sum.splits)
      then show ?thesis using Pair Inl Suc.IH [of c1]
        by (cases k) (auto simp: less_Suc_eq_0_disj)
    next
      case (Inr x)
      then show ?thesis using Pair by (cases k) (auto simp: firstAnswer.simps [of C h "Suc n"])
    qed
  qed
qed

text \<open>How long the fetcher waits before attempt \<open>i\<close>.\<close>

definition waitBefore :: "FetchConfig \<Rightarrow> int \<Rightarrow> int" where
  "waitBefore c i = (if i > 0 then max 0 (backoffDelay c i) else 0)"

definition waited :: "FetchConfig \<Rightarrow> int \<Rightarrow> nat \<Rightarrow> int" where
  "waited c att k = (\<Sum>i\<le>k. waitBefore c (att + int i))"

lemma waited_Suc: "waited c att (Suc k) = waitBefore c att + waited c (att + 1) k"
  unfolding waited_def by (subst sum.atMost_Suc_shift) (simp add: add.assoc)

lemma waited_0: "waited c att 0 = waitBefore c att"
  by (simp add: waited_def)

text \<open>The fetcher after a fetch that left the node at \<open>c\<close> and took \<open>d\<close>.\<close>

definition fetchedFrom :: "('db, 'c, 'f) fetcher \<Rightarrow> 'c \<Rightarrow> int \<Rightarrow> ('db, 'c, 'f) fetcher \<Rightarrow> bool" where
  "fetchedFrom f c d f' \<longleftrightarrow> fWorld f' = (fWorld f)\<lparr>wNode := c\<rparr> \<and> fBus f' = fBus f \<and> fNow f' = fNow f + d"

lemma fetchedFrom_step:
  "fetchedFrom f c d f' \<Longrightarrow> fetchedFrom f' c' d' f'' \<Longrightarrow> fetchedFrom f c' (d + d') f''"
  by (simp add: fetchedFrom_def)

definition attemptAt :: "('db, 'c, 'f) fenv \<Rightarrow> u64 \<Rightarrow> gotime \<Rightarrow> int \<Rightarrow>
    (('db, 'c, 'f) fetcher, block option \<times> receipt option list) op" where
  "attemptAt E h t0 att f =
     (let f = (if att > 0 then snd (sleep (backoffDelay (feConfig E) att) f) else f) in
      case tryNode (feClient E) h (wNode (fWorld f)) of
        (Inr a, c) \<Rightarrow> (Inr a, f\<lparr>fWorld := (fWorld f)\<lparr>wNode := c\<rparr>\<rparr>)
      | (Inl e, c) \<Rightarrow> (Inl e, snd (recordReq t0 True (f\<lparr>fWorld := (fWorld f)\<lparr>wNode := c\<rparr>\<rparr>))))"

lemma retry_unfold:
  assumes "att \<le> fcMaxRetries (feConfig E)"
  shows "fetchBlockAndReceiptsWithRetry E h t0 att hadError f =
    (case attemptAt E h t0 att f of
       (Inl e, f') \<Rightarrow> if att = fcMaxRetries (feConfig E) then (Inl e, f')
                     else fetchBlockAndReceiptsWithRetry E h t0 (att + 1) True f'
     | (Inr (b, rs), f') \<Rightarrow> (Inr (b, rs, hadError), f'))"
  using assms
  by (auto simp: fetchBlockAndReceiptsWithRetry.simps [of E h t0 att] attemptAt_def tryNode_def andThen_def wrapping_def
      catch_def throw_def ret_def onWorld_def onNode_def Let_def split: prod.splits sum.splits)

lemma attemptAt_eq:
  assumes "tryNode (feClient E) h (wNode (fWorld f)) = (r, c)"
  shows "\<exists>f'. attemptAt E h t0 att f = (r, f') \<and> fetchedFrom f c (waitBefore (feConfig E) att) f'"
  using assms
  by (cases r) (auto simp: attemptAt_def fetchedFrom_def waitBefore_def sleep_def recordReq_def Let_def)

lemma retry_eq_firstAnswer:
  assumes "att \<le> fcMaxRetries (feConfig E)" "n = nat (fcMaxRetries (feConfig E) - att)"
    "firstAnswer (feClient E) h n (wNode (fWorld f)) = (r, c)"
  shows "\<exists>f'. fetchBlockAndReceiptsWithRetry E h t0 att hadError f =
      (case r of Inl e \<Rightarrow> Inl e | Inr ((b, rs), k) \<Rightarrow> Inr (b, rs, hadError \<or> k > 0), f') \<and>
    fetchedFrom f c (waited (feConfig E) att (case r of Inl e \<Rightarrow> n | Inr (a, k) \<Rightarrow> k)) f'"
  using assms
proof (induction n arbitrary: att f hadError r)
  case 0
  then have last: "att = fcMaxRetries (feConfig E)" by simp
  obtain r1 c1 where t: "tryNode (feClient E) h (wNode (fWorld f)) = (r1, c1)" by (metis surj_pair)
  from attemptAt_eq [OF t, of t0 att] 0 t last show ?case
    by (cases r1) (auto simp: retry_unfold firstAnswer.simps waited_0 split: prod.splits)
next
  case (Suc n)
  let ?C = "feClient E"
  obtain r1 c1 where t: "tryNode ?C h (wNode (fWorld f)) = (r1, c1)" by (metis surj_pair)
  obtain f1 where a: "attemptAt E h t0 att f = (r1, f1)" and f1: "fetchedFrom f c1 (waitBefore (feConfig E) att) f1"
    using attemptAt_eq [OF t] by blast
  note first = Suc.prems(3) [unfolded firstAnswer.simps [of ?C h "Suc n"] t]
  show ?case
  proof (cases r1)
    case (Inr x)
    then show ?thesis using Suc.prems(1) first a f1 by (cases x) (auto simp: retry_unfold waited_0)
  next
    case (Inl e)
    obtain r2 c2 where r2: "firstAnswer ?C h n c1 = (r2, c2)" by (metis surj_pair)
    have c1: "wNode (fWorld f1) = c1" using f1 by (simp add: fetchedFrom_def)
    have le: "att + 1 \<le> fcMaxRetries (feConfig E)" "n = nat (fcMaxRetries (feConfig E) - (att + 1))" using Suc.prems by auto
    obtain f2 where f2: "fetchBlockAndReceiptsWithRetry E h t0 (att + 1) True f1 =
        (case r2 of Inl e \<Rightarrow> Inl e | Inr ((b, rs), k) \<Rightarrow> Inr (b, rs, True \<or> k > 0), f2)"
      "fetchedFrom f1 c2 (waited (feConfig E) (att + 1) (case r2 of Inl e \<Rightarrow> n | Inr (a, k) \<Rightarrow> k)) f2"
      using Suc.IH [OF le, of f1 r2 True] r2 c1 first by (auto simp: Inl split: sum.splits prod.splits)
    show ?thesis using Suc.prems(1) first Inl a f2(1) le(1) r2 fetchedFrom_step [OF f1 f2(2)]
      by (auto simp: retry_unfold [of att] waited_Suc split: sum.splits prod.splits)
  qed
qed

section \<open>Fetching one block\<close>

text \<open>\<open>failing R m\<close>: a run of \<open>m\<close> that fails is a step of \<open>R\<close>.\<close>

definition failing :: "('s \<Rightarrow> 's \<Rightarrow> bool) \<Rightarrow> ('s, 'a) op \<Rightarrow> bool" where
  "failing R m \<longleftrightarrow> (\<forall>s e s'. m s = (Inl e, s') \<longrightarrow> R s s')"

lemma keepsD: "keeps R m \<Longrightarrow> m s = (r, s') \<Longrightarrow> R s s'"
  unfolding keeps_def by (metis snd_conv)

lemma failing_keeps: "keeps R m \<Longrightarrow> failing R m"
  by (auto simp: failing_def dest: keepsD)

lemma failing_andThen: "transp R \<Longrightarrow> keeps R m \<Longrightarrow> (\<And>x. failing R (f x)) \<Longrightarrow> failing R (andThen m f)"
  unfolding failing_def andThen_def by (fastforce split: prod.splits sum.splits dest: keepsD transpD)

lemma failing_last: "failing R m \<Longrightarrow> (\<And>x s e s'. f x s \<noteq> (Inl e, s')) \<Longrightarrow> failing R (andThen m f)"
  unfolding failing_def andThen_def by (auto split: prod.splits sum.splits)

lemma keeps_retry:
  assumes "reflp R"
  shows "onF R f (snd (fetchBlockAndReceiptsWithRetry E h t0 att hadError f))"
proof (cases "att \<le> fcMaxRetries (feConfig E)")
  case True
  obtain r c where "firstAnswer (feClient E) h (nat (fcMaxRetries (feConfig E) - att)) (wNode (fWorld f)) = (r, c)"
    by (metis surj_pair)
  from retry_eq_firstAnswer [OF True refl this, of t0 hadError] assms show ?thesis
    by (auto simp: fetchedFrom_def onF_def dest: reflpD)
qed (use assms in \<open>auto simp: fetchBlockAndReceiptsWithRetry.simps onF_def dest: reflpD\<close>)

lemma keeps_forEach_mem: "reflp R \<Longrightarrow> transp R \<Longrightarrow> (\<And>x. x \<in> set xs \<Longrightarrow> keeps R (f x)) \<Longrightarrow> keeps R (forEach f xs)"
  by (induction xs) (auto intro: keeps_ret keeps_andThen)

lemma core_grow_same [simp]: "core_grow view G s s"
  by (simp add: core_grow_def)

lemma onF_same [simp]: "reflp R \<Longrightarrow> onF R f f"
  by (simp add: onF_def reflpD)

text \<open>Blocks and receipts stay; the latest height may move.\<close>

definition enlarged :: "('db \<Rightarrow> bytes \<Rightarrow> bytes option) \<Rightarrow> geth \<Rightarrow> 'db storage \<Rightarrow> 'db storage \<Rightarrow> bool" where
  "enlarged view G s s' \<longleftrightarrow> closed s' = closed s \<and> config s' = config s \<and>
     (\<forall>h. view (db s) (BlockKey h) \<noteq> None \<longrightarrow> view (db s') (BlockKey h) \<noteq> None) \<and>
     (\<forall>x. view (db s) (ReceiptKey G x) \<noteq> None \<longrightarrow> view (db s') (ReceiptKey G x) \<noteq> None)"

lemma enlarged_trans: "enlarged view G a b \<Longrightarrow> enlarged view G b c \<Longrightarrow> enlarged view G a c"
  by (simp add: enlarged_def)

lemma enlarged_same [simp]: "enlarged view G s s"
  by (simp add: enlarged_def)

lemma core_grow_iff: "core_grow view G s s' \<longleftrightarrow> enlarged view G s s' \<and> view (db s') LatestHeightKey = view (db s) LatestHeightKey"
  by (auto simp: core_grow_def enlarged_def frame_def)

context pebble_db
begin

abbreviation fgrow :: "geth \<Rightarrow> ('db, 'c, 'f) fetcher \<Rightarrow> ('db, 'c, 'f) fetcher \<Rightarrow> bool" where
  "fgrow G \<equiv> onF (core_grow view G)"

lemma fgrow_refl: "reflp (fgrow G)" and fgrow_trans: "transp (fgrow G)"
  by simp_all

lemmas fgrow_seq = keeps_andThen [OF fgrow_trans] keeps_ret [OF fgrow_refl] keeps_throw [OF fgrow_refl]
  keeps_wrapping [OF fgrow_refl fgrow_trans] keeps_attempt [OF fgrow_refl fgrow_trans]
  keeps_forEach [OF fgrow_refl fgrow_trans] keeps_whenSome [OF fgrow_refl] keeps_publish [OF core_grow_refl]

lemma fgrow_frame: "keeps (frame view (core G)) m \<Longrightarrow> keeps (fgrow G) (onStorageOf m)"
  by (rule keeps_onStorageOf [OF keeps_mono [OF _ frame_core_grow]])

lemma fgrow_world: "keeps (onW R) m \<Longrightarrow> (\<And>s s'. R s s' \<Longrightarrow> core_grow view G s s') \<Longrightarrow> keeps (fgrow G) (onWorld m)"
  by (rule keeps_onWorld) (auto simp: onW_def keeps_def)

lemma fgrow_retry: "keeps (fgrow G) (fetchBlockAndReceiptsWithRetry E h t0 att hadError)"
  using keeps_retry [OF core_grow_refl] unfolding keeps_def by blast

lemma fgrow_recordReq: "keeps (fgrow G) (recordReq t0 e)"
  by (simp add: keeps_def recordReq_def onF_def)

lemma fgrow_publishTxEvents: "keeps (fgrow G) (publishTxEvents b rs)"
  unfolding publishTxEvents_def case_prod_beta by (intro fgrow_seq)

lemma fgrow_detectSystemEvents: "keeps (fgrow G) (detectSystemEvents E l)"
  unfolding detectSystemEvents_def by (simp add: fgrow_seq split: option.split)

lemma fgrow_publishBlockEvents: "keeps (fgrow G) (publishBlockEvents E b rs)"
  unfolding publishBlockEvents_def by (intro fgrow_seq fgrow_publishTxEvents fgrow_detectSystemEvents)

lemma fgrow_withBus: "keeps (fgrow G) m \<Longrightarrow> keeps (fgrow G) (\<lambda>f. if fBus f \<noteq> None then m f else (Inr (), f))"
  by (auto simp: keeps_def)

lemma fgrow_SetBlock: "keeps (fgrow G) (onStorageOf (wrapping msg (SetBlock P G b)))"
  by (intro keeps_onStorageOf core_grow_seq core_grow_SetBlock)

lemma fgrow_indexBlock:
  assumes "feDB E = P" "tame view (feGeth E) (feCollab E)"
  shows "keeps (fgrow (feGeth E)) (indexBlock E h b rs)"
proof -
  have "keeps (frame view (core (feGeth E))) (processBlockWithProcessors E b rs)"
    unfolding processBlockWithProcessors_def
    by (rule keeps_forEach_mem) (use assms(2) in \<open>auto simp: tame_def intro: keeps_frame_attempt\<close>)
  moreover have "keeps (frame view (core (feGeth E))) (coFeeMeta (feCollab E) h)"
    using assms(2) by (simp add: tame_def)
  ultimately show ?thesis unfolding indexBlock_def
    by (intro fgrow_seq fgrow_withBus fgrow_publishBlockEvents fgrow_frame
        fgrow_world [OF fcore_processBlockMetadata [OF assms] frame_core_grow]
        fgrow_world [OF grow_storeAndProcessReceipts [OF assms] receipts_core_grow])
qed

lemma failing_SetLatestHeight: "failing (fgrow G) (onStorageOf (wrapping msg (SetLatestHeight P h)))"
  unfolding failing_def
proof (intro allI impI)
  fix f e and f' :: "('db, 'c, 'f) fetcher"
  assume "onStorageOf (wrapping msg (SetLatestHeight P h)) f = (Inl e, f')"
  then obtain e' s' where s: "SetLatestHeight P h (wStore (fWorld f)) = (Inl e', s')" "wStore (fWorld f') = s'"
    by (auto simp: onStorageOf_def onWorld_def onStore_def wrapping_def catch_def split: prod.splits sum.splits)
  have "core_grow view G (wStore (fWorld f)) s'"
    using s(1) unfolding SetLatestHeight_def guard_simps
    by (auto simp: core_grow_def frame_def only_db_def split: if_splits dest!: dbSet_Inl)
  with s(2) show "fgrow G f f'" by (simp add: onF_def)
qed

lemma FetchBlock_failed:
  assumes "feDB E = P" "tame view (feGeth E) (feCollab E)" "FetchBlock E h f = (Inl e, f')"
  shows "fgrow (feGeth E) f f'"
proof -
  let ?done = "\<lambda>rs _ f. (Inr (), f\<lparr>fMetrics := RecordBlockProcessed (feFloats E) (fNow f) (length rs) (fMetrics f)\<rparr>)"
  have "failing (fgrow (feGeth E)) (andThen (onStorageOf (wrapping msg (SetLatestHeight P h))) (?done rs))" for msg rs
    by (rule failing_last [OF failing_SetLatestHeight]) simp
  then have "failing (fgrow (feGeth E)) (andThen (indexBlock E h b rs) (\<lambda>_.
      andThen (onStorageOf (wrapping msg (SetLatestHeight P h))) (?done rs)))" for b rs msg
    by (rule failing_andThen [OF fgrow_trans fgrow_indexBlock [OF assms(1,2)]])
  then have "failing (fgrow (feGeth E)) (fetchBlockSince E h t0)" for t0
    unfolding fetchBlockSince_def assms(1) case_prod_beta
    by (intro failing_andThen [OF fgrow_trans] fgrow_retry fgrow_SetBlock)
      (simp_all add: fgrow_recordReq fgrow_seq failing_keeps split: option.split)
  then show ?thesis using assms(3) unfolding failing_def FetchBlock_def by blast
qed

lemma SetLatestHeight_ok:
  assumes "onStorageOf (wrapping msg (SetLatestHeight P h)) f = (Inr u, f')"
  shows "enlarged view G (wStore (fWorld f)) (wStore (fWorld f')) \<and>
    view (db (wStore (fWorld f'))) LatestHeightKey = Some (EncodeUint64 h)"
proof -
  have "dbSet P LatestHeightKey (EncodeUint64 h) (wStore (fWorld f)) = (Inr u, wStore (fWorld f'))"
    using assms unfolding onStorageOf_def SetLatestHeight_def guard_simps
    by (auto simp: onWorld_def onStore_def wrapping_def catch_def split: prod.splits sum.splits if_splits)
  from dbSet_Inr [OF this] show ?thesis by (auto simp: enlarged_def only_db_def)
qed

lemma indexBlock_ok:
  assumes "feDB E = P" "tame view (feGeth E) (feCollab E)" "fair (feSchedule E)" "indexBlock E h b rs f = (Inr u, f')"
  shows "\<forall>r. Some r \<in> set rs \<longrightarrow> view (db (wStore (fWorld f'))) (ReceiptKey (feGeth E) (rTxHash r)) \<noteq> None"
proof -
  let ?G = "feGeth E"
  let ?events = "\<lambda>f. if fBus f \<noteq> None then publishBlockEvents E b rs f else (Inr (), f)"
  let ?rest = "andThen ?events (\<lambda>_. onStorageOf (processBlockWithProcessors E b rs))"
  obtain f1 f2 where s: "onWorld (storeAndProcessReceipts E b rs) f1 = (Inr (), f2)" "?rest f2 = (Inr u, f')"
    using assms(4) by (auto simp: indexBlock_def andThen_eq_Inr [of "onWorld _"] andThen_eq_Inr [of "attempt _"]
        andThen_eq_Inr [of "publish _"])
  then have "storeAndProcessReceipts E b rs (fWorld f1) = (Inr (), fWorld f2)"
    by (auto simp: onWorld_def split: prod.splits)
  from storeAndProcessReceipts_stores [OF assms(1-3) this]
  have r: "\<forall>r. Some r \<in> set rs \<longrightarrow> view (db (wStore (fWorld f2))) (ReceiptKey ?G (rTxHash r)) \<noteq> None" by blast
  have "keeps (frame view (core ?G)) (processBlockWithProcessors E b rs)"
    unfolding processBlockWithProcessors_def
    by (rule keeps_forEach_mem) (use assms(2) in \<open>auto simp: tame_def intro: keeps_frame_attempt\<close>)
  then have "keeps (fgrow ?G) ?rest" by (intro fgrow_seq fgrow_withBus fgrow_publishBlockEvents fgrow_frame)
  from keepsD [OF this s(2)] r show ?thesis by (simp add: onF_def core_grow_def)
qed

lemma FetchBlock_ok:
  assumes "feDB E = P" "tame view (feGeth E) (feCollab E)" "FetchBlock E h f = (Inr u, f')"
  obtains b rs hadError f1 where
    "fetchBlockAndReceiptsWithRetry E h (fNow f) 0 False f = (Inr (Some b, rs, hadError), f1)"
    "enlarged view (feGeth E) (wStore (fWorld f)) (wStore (fWorld f'))"
    "view (db (wStore (fWorld f'))) LatestHeightKey = Some (EncodeUint64 h)"
    "view (db (wStore (fWorld f'))) (BlockKey (bNumber b)) \<noteq> None"
    "\<forall>r. fair (feSchedule E) \<longrightarrow> Some r \<in> set rs \<longrightarrow> view (db (wStore (fWorld f'))) (ReceiptKey (feGeth E) (rTxHash r)) \<noteq> None"
proof -
  let ?G = "feGeth E"
  let ?st = "\<lambda>f. wStore (fWorld f)"
  obtain b rs he f1 f2 f3 f4 f5 where r: "fetchBlockAndReceiptsWithRetry E h (fNow f) 0 False f = (Inr (Some b, rs, he), f1)"
    and m: "(if \<not> he then recordReq (fNow f) False else ret ()) f1 = (Inr (), f2)"
    and s: "onStorageOf (wrapping ''failed to store block'' (SetBlock P ?G (Some b))) f2 = (Inr (), f3)"
    and i: "indexBlock E h b rs f3 = (Inr (), f4)"
    and l: "onStorageOf (wrapping ''failed to update latest height'' (SetLatestHeight P h)) f4 = (Inr (), f5)"
    and f': "?st f' = ?st f5"
    using assms(3) unfolding FetchBlock_def fetchBlockSince_def assms(1)
    by (auto simp: andThen_eq_Inr split: option.splits)
  have "keeps (fgrow ?G) (if \<not> he then recordReq (fNow f) False else ret ())" by (simp add: fgrow_recordReq fgrow_seq)
  from keepsD [OF this m] have g: "fgrow ?G f f1" "fgrow ?G f1 f2" "fgrow ?G f2 f3" "fgrow ?G f3 f4"
    using keepsD [OF fgrow_retry r] keepsD [OF fgrow_SetBlock s] keepsD [OF fgrow_indexBlock [OF assms(1,2)] i]
    by blast+
  note l' = SetLatestHeight_ok [OF l, of ?G]
  have "SetBlock P ?G (Some b) (?st f2) = (Inr (), ?st f3)"
    using s by (auto simp: onStorageOf_def onWorld_def onStore_def wrapping_def catch_def split: prod.splits sum.splits)
  from SetBlock_present [OF this] g(4) l' have "view (db (?st f')) (BlockKey (bNumber b)) \<noteq> None"
    by (auto simp: f' onF_def core_grow_iff enlarged_def)
  moreover have "enlarged view ?G (?st f) (?st f')"
    using g l' unfolding f' onF_def core_grow_iff by (blast intro: enlarged_trans)
  moreover from indexBlock_ok [OF assms(1,2) _ i] l' have
    "\<forall>r. fair (feSchedule E) \<longrightarrow> Some r \<in> set rs \<longrightarrow> view (db (?st f')) (ReceiptKey ?G (rTxHash r)) \<noteq> None"
    by (auto simp: f' enlarged_def)
  ultimately show ?thesis using that r l' by (simp add: f')
qed

end

section \<open>Ranges and the main loop\<close>

text \<open>A node that answers a request for a height with the block of that height.\<close>

definition truthful :: "'c client \<Rightarrow> bool" where
  "truthful C \<longleftrightarrow> (\<forall>h c b c'. cl_block C h c = (Inr b, c') \<longrightarrow> (\<exists>x. b = Some x \<and> bNumber x = h))"

text \<open>A node whose latest block is below the largest height.\<close>

definition finiteChain :: "'c client \<Rightarrow> bool" where
  "finiteChain C \<longleftrightarrow> (\<forall>c n c'. cl_latest C c = (Inr n, c') \<longrightarrow> n < - 1)"

lemma tryNode_truthful:
  assumes "truthful C" "tryNode C h c = (Inr (b, rs), c')"
  shows "\<exists>x. b = Some x \<and> bNumber x = h"
  using assms by (fastforce simp: tryNode_def truthful_def andThen_eq_Inr)

lemma retry_truthful:
  assumes "truthful (feClient E)" "fetchBlockAndReceiptsWithRetry E h t0 0 False f = (Inr (Some b, rs, hadError), f')"
  shows "bNumber b = h"
proof (cases "0 \<le> fcMaxRetries (feConfig E)")
  case True
  let ?n = "nat (fcMaxRetries (feConfig E) - 0)"
  obtain r c where a: "firstAnswer (feClient E) h ?n (wNode (fWorld f)) = (r, c)" by (metis surj_pair)
  from retry_eq_firstAnswer [OF True refl a, of t0 False] assms(2) obtain k where "r = Inr ((Some b, rs), k)"
    by (cases r) auto
  with a have "firstAnswer (feClient E) h ?n (wNode (fWorld f)) = (Inr ((Some b, rs), k), c)" by simp
  then show ?thesis using tryNode_truthful [OF assms(1)] by (fastforce simp: firstAnswer_first)
qed (use assms(2) in \<open>simp add: fetchBlockAndReceiptsWithRetry.simps\<close>)

definition upTo :: "('db \<Rightarrow> bytes \<Rightarrow> bytes option) \<Rightarrow> u64 \<Rightarrow> u64 \<Rightarrow> 'db storage \<Rightarrow> bool" where
  "upTo view start next s \<longleftrightarrow> (\<forall>h. start \<le> h \<longrightarrow> h < next \<longrightarrow> stored view s h)"

text \<open>No hole between the first height of interest and the latest height.\<close>

definition contiguous :: "'db pebble \<Rightarrow> ('db \<Rightarrow> bytes \<Rightarrow> bytes option) \<Rightarrow> u64 \<Rightarrow> 'db storage \<Rightarrow> bool" where
  "contiguous P view start s \<longleftrightarrow>
     (\<forall>n h. fst (GetLatestHeight P s) = Inr n \<longrightarrow> start \<le> h \<longrightarrow> h \<le> n \<longrightarrow> stored view s h)"

lemma upTo_enlarged: "enlarged view G s s' \<Longrightarrow> upTo view start next s \<Longrightarrow> upTo view start next s'"
  by (simp add: enlarged_def upTo_def stored_def)

lemma upTo_smaller: "upTo view start next s \<Longrightarrow> next' \<le> next \<Longrightarrow> upTo view start next' s"
  by (auto simp: upTo_def)

lemma le_less_succ_u64: "(h :: u64) < n + 1 \<Longrightarrow> n < - 1 \<Longrightarrow> h \<le> n"
  by (auto simp: less_succ_u64)

lemma upTo_Suc: "upTo view start h s \<Longrightarrow> stored view s h \<Longrightarrow> h < - 1 \<Longrightarrow> upTo view start (h + 1) s"
  unfolding upTo_def using le_less_succ_u64 [of _ h] by (metis order_le_imp_less_or_eq)

context pebble_db
begin

lemma GetLatestHeight_cong:
  "closed s' = closed s \<Longrightarrow> view (db s') LatestHeightKey = view (db s) LatestHeightKey \<Longrightarrow>
   fst (GetLatestHeight P s') = fst (GetLatestHeight P s)"
  by (auto simp: GetLatestHeight_def andThen_def ensureNotClosed_def getKey_eq decodeU64_def split: option.split sum.split)

lemma contiguous_core_grow: "core_grow view G s s' \<Longrightarrow> contiguous P view start s \<Longrightarrow> contiguous P view start s'"
  using GetLatestHeight_cong [of s' s] by (auto simp: core_grow_iff enlarged_def contiguous_def stored_def)

lemma contiguous_latest:
  assumes "view (db s) LatestHeightKey = Some (EncodeUint64 n)" "upTo view start (n + 1) s" "n < - 1"
  shows "contiguous P view start s"
proof -
  have "stored view s h" if "fst (GetLatestHeight P s) = Inr m" "start \<le> h" "h \<le> m" for h m
  proof -
    have "\<not> closed s" using that(1) by (auto simp: GetLatestHeight_def guard_simps)
    then have "m = n" using assms(1) that(1) by (simp add: GetLatestHeight_def guard_simps getKey_eq andThen_def)
    then have "h < n + 1" using that(3) by (simp add: less_succ_u64 [OF assms(3)] order_le_less)
    with assms(2) that(2) show ?thesis by (simp add: upTo_def)
  qed
  then show ?thesis by (simp add: contiguous_def)
qed

lemma FetchBlock_next:
  assumes "feDB E = P" "tame view (feGeth E) (feCollab E)" "truthful (feClient E)" "h < - 1"
    and "FetchBlock E h f = (Inr u, f')"
  shows "enlarged view (feGeth E) (wStore (fWorld f)) (wStore (fWorld f'))"
    "upTo view start h (wStore (fWorld f)) \<Longrightarrow>
      upTo view start (h + 1) (wStore (fWorld f')) \<and> contiguous P view start (wStore (fWorld f'))"
proof -
  obtain b rs hadError f1 where r: "fetchBlockAndReceiptsWithRetry E h (fNow f) 0 False f = (Inr (Some b, rs, hadError), f1)"
    and g: "enlarged view (feGeth E) (wStore (fWorld f)) (wStore (fWorld f'))"
    and l: "view (db (wStore (fWorld f'))) LatestHeightKey = Some (EncodeUint64 h)"
    and b: "view (db (wStore (fWorld f'))) (BlockKey (bNumber b)) \<noteq> None"
    using FetchBlock_ok [OF assms(1,2,5)] by metis
  show "enlarged view (feGeth E) (wStore (fWorld f)) (wStore (fWorld f'))" by (rule g)
  assume u: "upTo view start h (wStore (fWorld f))"
  have "stored view (wStore (fWorld f')) h" using b retry_truthful [OF assms(3) r] by (simp add: stored_def)
  then have "upTo view start (h + 1) (wStore (fWorld f'))" by (rule upTo_Suc [OF upTo_enlarged [OF g u] _ assms(4)])
  then show "upTo view start (h + 1) (wStore (fWorld f')) \<and> contiguous P view start (wStore (fWorld f'))"
    using contiguous_latest [OF l _ assms(4)] by blast
qed

lemma FetchRange_keeps:
  assumes "feDB E = P" "tame view (feGeth E) (feCollab E)" "truthful (feClient E)" "hi < - 1" "height \<le> hi + 1"
  shows "\<exists>r f'. FetchRange E height hi f = Some (r, f') \<and>
    enlarged view (feGeth E) (wStore (fWorld f)) (wStore (fWorld f')) \<and>
    (upTo view start height (wStore (fWorld f)) \<longrightarrow>
      (r = Inr () \<longrightarrow> upTo view start (hi + 1) (wStore (fWorld f'))) \<and>
      (contiguous P view start (wStore (fWorld f)) \<longrightarrow> contiguous P view start (wStore (fWorld f'))))"
  using assms(4,5)
proof (induction height arbitrary: f rule: count_up_induct)
  case last
  have "\<not> hi + 1 \<le> hi" using less_succ_u64 [OF assms(4), of hi] by (simp add: not_le)
  then show ?case by (simp add: FetchRange.simps)
next
  case (step h)
  note fetch = FetchRange.simps [of E h hi f]
  show ?case
  proof (cases "ctxDone E f")
    case False
    obtain r f1 where b: "FetchBlock E h f = (r, f1)" by (metis surj_pair)
    show ?thesis
    proof (cases r)
      case (Inl e)
      have "core_grow view (feGeth E) (wStore (fWorld f)) (wStore (fWorld f1))"
        using FetchBlock_failed [OF assms(1,2) b [unfolded Inl]] by (simp add: onF_def)
      moreover from this have "enlarged view (feGeth E) (wStore (fWorld f)) (wStore (fWorld f1))"
        by (simp add: core_grow_iff)
      ultimately show ?thesis using fetch b Inl False step(1) contiguous_core_grow by auto
    next
      case (Inr u)
      note fetched = FetchBlock_next [OF assms(1-3) step(2) b [unfolded Inr]]
      obtain r2 f2 where f2: "FetchRange E (h + 1) hi f1 = Some (r2, f2)"
        "enlarged view (feGeth E) (wStore (fWorld f1)) (wStore (fWorld f2))"
        "upTo view start (h + 1) (wStore (fWorld f1)) \<longrightarrow>
          (r2 = Inr () \<longrightarrow> upTo view start (hi + 1) (wStore (fWorld f2))) \<and>
          (contiguous P view start (wStore (fWorld f1)) \<longrightarrow> contiguous P view start (wStore (fWorld f2)))"
        using step.IH [of f1] by blast
      from f2(1) have "FetchRange E h hi f = Some (r2, f2)" using fetch b Inr False step(1) by simp
      with f2(2,3) fetched show ?thesis by (blast intro: enlarged_trans)
    qed
  qed (simp add: fetch step(1))
qed

text \<open>A round of the main loop keeps what it needs.\<close>

lemma runRound_keeps:
  assumes "feDB E = P" "tame view (feGeth E) (feCollab E)" "truthful (feClient E)" "finiteChain (feClient E)"
    and "upTo view start next (wStore (fWorld f))" "contiguous P view start (wStore (fWorld f))"
  shows "\<exists>r f'. runRound E next f = Some (r, f') \<and> contiguous P view start (wStore (fWorld f')) \<and>
    enlarged view (feGeth E) (wStore (fWorld f)) (wStore (fWorld f')) \<and>
    (\<forall>n. r = Inr n \<longrightarrow> upTo view start n (wStore (fWorld f')))"
proof -
  let ?st = "\<lambda>f. wStore (fWorld f)"
  obtain r f1 where l: "onWorld (onNode (cl_latest (feClient E))) f = (r, f1)" by (metis surj_pair)
  then have f1: "?st f1 = ?st f" by (auto simp: onWorld_def onNode_def split: prod.splits)
  consider "ctxDone E f \<or> (\<exists>e. r = Inl e) \<or> (\<exists>latest. r = Inr latest \<and> next > latest)"
    | latest where "\<not> ctxDone E f" "r = Inr latest" "next \<le> latest"
    by (metis not_le sum.exhaust)
  then show ?thesis
  proof cases
    case 1
    then show ?thesis using assms(5,6) l f1 by (auto simp: runRound_def Let_def sleep_def)
  next
    case (2 latest)
    obtain c c' where "cl_latest (feClient E) c = (Inr latest, c')"
      using l 2(2) by (auto simp: onWorld_def onNode_def split: prod.splits)
    then have bound: "latest < - 1" using assms(4) by (auto simp: finiteChain_def)
    define be where "be = next + word_of_int (fcBatchSize (feConfig E)) - 1"
    define batchEnd where "batchEnd = (if be > latest then latest else be)"
    have be: "batchEnd < - 1" using bound by (auto simp: batchEnd_def)
    note round = 2(1,2) l
    show ?thesis
    proof (cases "next \<le> batchEnd + 1")
      case True
      from FetchRange_keeps [OF assms(1-3) be True, of f1 start] obtain r2 f2 where
        f2: "FetchRange E next batchEnd f1 = Some (r2, f2)" "enlarged view (feGeth E) (?st f1) (?st f2)"
        "upTo view start next (?st f1) \<longrightarrow> (r2 = Inr () \<longrightarrow> upTo view start (batchEnd + 1) (?st f2)) \<and>
          (contiguous P view start (?st f1) \<longrightarrow> contiguous P view start (?st f2))" by blast
      have "runRound E next f = Some (case r2 of Inl e \<Rightarrow> (Inr next, snd (sleep (sint (fcRetryDelay (feConfig E))) f2))
          | Inr _ \<Rightarrow> (Inr (batchEnd + 1), f2))"
        using round 2(3) f2(1) unfolding batchEnd_def be_def
        by (simp add: runRound_def Let_def not_less [symmetric] split: sum.split)
      moreover have "upTo view start next (?st f2)" using upTo_enlarged f2(2) assms(5) f1 by metis
      ultimately show ?thesis using f2(2,3) assms(5,6) f1 by (cases r2) (auto simp: sleep_def)
    next
      case False
      then have "\<not> next \<le> batchEnd" using le_succ_u64 [OF be] by blast
      then have "runRound E next f = Some (Inr (batchEnd + 1), f1)"
        using round 2(3) unfolding batchEnd_def be_def
        by (auto simp: runRound_def Let_def not_less [symmetric] FetchRange.simps)
      moreover have "upTo view start (batchEnd + 1) (?st f1)"
        using upTo_smaller assms(5) f1 False by (metis linear)
      ultimately show ?thesis using assms(6) f1 by simp
    qed
  qed
qed

lemma runRounds_keep:
  assumes "feDB E = P" "tame view (feGeth E) (feCollab E)" "truthful (feClient E)" "finiteChain (feClient E)"
    and "upTo view start nxt (wStore (fWorld f))" "contiguous P view start (wStore (fWorld f))"
  shows "\<exists>r f'. runRounds E n nxt f = Some (r, f') \<and> contiguous P view start (wStore (fWorld f')) \<and>
    enlarged view (feGeth E) (wStore (fWorld f)) (wStore (fWorld f'))"
  using assms(5,6)
proof (induction n arbitrary: nxt f)
  case (Suc n)
  from runRound_keeps [OF assms(1-4) Suc.prems] obtain r f1 where
    f1: "runRound E nxt f = Some (r, f1)" "contiguous P view start (wStore (fWorld f1))"
    "enlarged view (feGeth E) (wStore (fWorld f)) (wStore (fWorld f1))"
    "\<forall>n. r = Inr n \<longrightarrow> upTo view start n (wStore (fWorld f1))" by blast
  show ?case
  proof (cases r)
    case (Inr next')
    with f1 Suc.IH [of next' f1] show ?thesis by (auto intro: enlarged_trans)
  qed (use f1 in simp)
qed simp

lemma Run_keeps:
  assumes "feDB E = P" "tame view (feGeth E) (feCollab E)" "truthful (feClient E)" "finiteChain (feClient E)"
    and "contiguous P view (fcStartHeight (feConfig E)) (wStore (fWorld f))"
  shows "\<exists>r f'. Run E n f = Some (r, f') \<and> contiguous P view (fcStartHeight (feConfig E)) (wStore (fWorld f')) \<and>
    enlarged view (feGeth E) (wStore (fWorld f)) (wStore (fWorld f'))"
  unfolding Run_def
proof (rule runRounds_keep [OF assms(1-4) _ assms(5)])
  let ?s = "wStore (fWorld f)" and ?start = "fcStartHeight (feConfig E)"
  show "upTo view ?start (GetNextHeight E f) ?s"
  proof (cases "fst (GetLatestHeight P ?s)")
    case (Inr n)
    have "stored view ?s h" if "?start \<le> h" "h < n + 1" for h
    proof (cases "n = - 1")
      case False
      then have "n < - 1" using word_order.not_eq_extremum by blast
      with that Inr assms(5) le_less_succ_u64 show ?thesis by (auto simp: contiguous_def)
    qed (use that in simp)
    then show ?thesis using Inr by (simp add: GetNextHeight_def assms(1) upTo_def)
  qed (auto simp: GetNextHeight_def assms(1) upTo_def)
qed

end

section \<open>The collector of the pool\<close>

text \<open>
  Storing the results of a table height after height. The collector is in step with it: what waits
  are results of the table above the next height.
\<close>

definition storeInOrder :: "('db, 'c, 'f) fenv \<Rightarrow> (u64 \<Rightarrow> jobResult) \<Rightarrow> u64 \<Rightarrow> u64 \<Rightarrow> (('db, 'c, 'f) fetcher, unit) op" where
  "storeInOrder E T lo hi = forEach (\<lambda>h. storeJob E h (T h)) (heights lo hi)"

lemma storeInOrder_step:
  "h \<le> hi \<Longrightarrow> hi < - 1 \<Longrightarrow> storeInOrder E T h hi = andThen (storeJob E h (T h)) (\<lambda>_. storeInOrder E T (h + 1) hi)"
  by (simp add: storeInOrder_def heights_step)

definition waiting :: "(u64 \<Rightarrow> jobResult) \<Rightarrow> u64 \<Rightarrow> (u64 \<times> jobResult) list \<Rightarrow> bool" where
  "waiting T hi m \<longleftrightarrow> (\<forall>(h, r)\<in>set m. h \<le> hi \<and> r = T h)"

lemma waiting_map_of: "waiting T hi m \<Longrightarrow> map_of m h = Some r \<Longrightarrow> h \<le> hi \<and> r = T h"
  by (auto simp: waiting_def dest: map_of_SomeD)

lemma drainResults_in_order:
  assumes "waiting T hi m" "hi < - 1"
  shows "case drainResults E hi nxt m f of
      (Inl e, f') \<Rightarrow> storeInOrder E T nxt hi f = (Inl e, f')
    | (Inr (n, m'), f') \<Rightarrow> storeInOrder E T nxt hi f = storeInOrder E T n hi f' \<and> nxt \<le> n \<and>
        {nxt..<n} \<subseteq> fst ` set m \<and> m' = filter (\<lambda>x. fst x < nxt \<or> n \<le> fst x) m \<and> n \<notin> fst ` set m'"
  using assms
proof (induction E hi nxt m f rule: drainResults.induct)
  case (1 E hi nxt m f)
  show ?case
  proof (cases "map_of m nxt")
    case None
    then have "nxt \<notin> fst ` set m" by (simp add: map_of_eq_None_iff)
    moreover have "filter (\<lambda>x. fst x < nxt \<or> nxt \<le> fst x) m = m" by (rule filter_True) auto
    ultimately show ?thesis using None \<open>hi < - 1\<close> by (auto simp: drainResults.simps le_succ_u64)
  next
    case (Some res)
    with waiting_map_of [OF "1.prems"(1)] have res: "nxt \<le> hi" "res = T nxt" by auto
    then have lt: "nxt < - 1" using "1.prems"(2) by auto
    have mem: "nxt \<in> fst ` set m" using Some by (force dest: map_of_SomeD)
    obtain r f1 where st: "storeJob E nxt (T nxt) f = (r, f1)" by (metis surj_pair)
    let ?m = "filter (\<lambda>x. fst x \<noteq> nxt) m"
    have w: "waiting T hi ?m" using "1.prems"(1) by (auto simp: waiting_def)
    note order = storeInOrder_step [OF res(1) "1.prems"(2), of E T]
    have flt: "filter (\<lambda>x. fst x < nxt + 1 \<or> n \<le> fst x) ?m = filter (\<lambda>x. fst x < nxt \<or> n \<le> fst x) m" if "nxt + 1 \<le> n" for n
    proof -
      have "nxt < n" using that less_succ_u64 [OF lt, of nxt] by auto
      then show ?thesis by (auto simp: filter_filter less_succ_u64 [OF lt] intro!: filter_cong)
    qed
    show ?thesis
    proof (cases r)
      case (Inl e)
      then show ?thesis using Some res st order by (simp add: drainResults.simps [of E hi nxt] andThen_def)
    next
      case (Inr u)
      show ?thesis
      proof (cases "nxt + 1 > hi")
        case True
        have "drainResults E hi nxt m f = (Inr (nxt + 1, ?m), f1)"
          using Some res st Inr True by (simp add: drainResults.simps [of E hi nxt])
        moreover have "storeInOrder E T nxt hi f = storeInOrder E T (nxt + 1) hi f1"
          using order st Inr by (simp add: andThen_def)
        moreover have "nxt = hi" using True res(1) less_succ_u64 [OF lt, of hi] by auto
        moreover have "filter (\<lambda>x. fst x < hi \<or> hi + 1 \<le> fst x) m = ?m" if "nxt = hi"
          using "1.prems"(1) that less_succ_u64 [OF "1.prems"(2), of hi] by (auto simp: waiting_def intro!: filter_cong)
        moreover have "hi + 1 \<notin> fst ` set ?m"
          using "1.prems"(1) less_succ_u64 [OF "1.prems"(2), of hi] by (force simp: waiting_def)
        moreover have "{nxt..<nxt + 1} = {nxt}" by (auto simp: less_succ_u64 [OF lt])
        ultimately show ?thesis using mem le_succ_u64 [OF "1.prems"(2), of hi] by simp
      next
        case False
        have eq: "drainResults E hi nxt m f = drainResults E hi (nxt + 1) ?m f1"
          using Some res st Inr False by (simp add: drainResults.simps [of E hi nxt] Let_def)
        have so: "storeInOrder E T nxt hi f = storeInOrder E T (nxt + 1) hi f1"
          using order st Inr by (simp add: andThen_def)
        have ih: "case drainResults E hi (nxt + 1) ?m f1 of
            (Inl e, f') \<Rightarrow> storeInOrder E T (nxt + 1) hi f1 = (Inl e, f')
          | (Inr (n, m'), f') \<Rightarrow> storeInOrder E T (nxt + 1) hi f1 = storeInOrder E T n hi f' \<and> nxt + 1 \<le> n \<and>
              {nxt + 1..<n} \<subseteq> fst ` set ?m \<and> m' = filter (\<lambda>x. fst x < nxt + 1 \<or> n \<le> fst x) ?m \<and> n \<notin> fst ` set m'"
          using "1.IH" [OF Some _ _ refl _ w "1.prems"(2)] st Inr res False by auto
        have "nxt \<le> nxt + 1" by (rule le_succ_u64 [OF lt order_refl])
        obtain d f' where d: "drainResults E hi (nxt + 1) ?m f1 = (d, f')" by (metis surj_pair)
        show ?thesis
        proof (cases d)
          case (Inl e)
          then show ?thesis using ih d unfolding eq so by simp
        next
          case (Inr p)
          obtain n m' where p: "p = (n, m')" by (metis surj_pair)
          with ih d Inr False have n: "storeInOrder E T (nxt + 1) hi f1 = storeInOrder E T n hi f'" "nxt + 1 \<le> n" "{nxt + 1..<n} \<subseteq> fst ` set ?m"
            "m' = filter (\<lambda>x. fst x < nxt + 1 \<or> n \<le> fst x) ?m" "n \<notin> fst ` set m'" by auto
          have "nxt \<le> n" using \<open>nxt \<le> nxt + 1\<close> n(2) by (rule order_trans)
          moreover have "{nxt..<n} \<subseteq> fst ` set m"
          proof
            fix h assume "h \<in> {nxt..<n}"
            then have "h = nxt \<or> h \<in> {nxt + 1..<n}" using less_succ_u64 [OF lt, of h] by (auto simp: not_less [symmetric])
            with n(3) mem show "h \<in> fst ` set m" by auto
          qed
          ultimately show ?thesis using n(1,5) n(4) [unfolded flt [OF n(2)]] d Inr p unfolding eq so by simp
        qed
      qed
    qed
  qed
qed

lemma cut_interval:
  fixes n :: u64
  assumes "K \<union> H = {lo..hi}" "lo \<le> n" "\<And>h. h \<in> H \<Longrightarrow> n \<le> h"
  shows "{k \<in> K. n \<le> k} \<union> H = {n..hi}"
proof (rule set_eqI)
  fix x
  have "x \<in> K \<or> x \<in> H \<longleftrightarrow> lo \<le> x \<and> x \<le> hi" using assms(1) by (metis UnCI UnE atLeastAtMost_iff)
  then show "x \<in> {k \<in> K. n \<le> k} \<union> H \<longleftrightarrow> x \<in> {n..hi}" using assms(2,3) by auto
qed

lemma collectResults_in_order:
  assumes "hi < - 1" "waiting T hi m" "nxt \<notin> fst ` set m" "\<forall>r\<in>set rs. jrErr r = None \<and> r = T (jrHeight r)"
    and "distinct (map jrHeight rs)" "fst ` set m \<inter> jrHeight ` set rs = {}"
    and "fst ` set m \<union> jrHeight ` set rs = {nxt..hi}"
  shows "collectResults E hi rs nxt m f = storeInOrder E T nxt hi f"
  using assms(2-)
proof (induction rs arbitrary: nxt m f)
  case Nil
  then have "\<not> nxt \<le> hi" by auto
  then show ?case by (simp add: storeInOrder_def heights_empty not_le)
next
  case (Cons r rs)
  let ?m = "putResult r m"
  have r: "jrErr r = None" "r = T (jrHeight r)" "jrHeight r \<notin> fst ` set m" "nxt \<le> jrHeight r" "jrHeight r \<le> hi"
    using Cons.prems by auto
  have m: "?m = (jrHeight r, r) # m" unfolding putResult_def using r(3) by (force intro!: filter_True)
  have w: "waiting T hi ?m" using Cons.prems(1) r by (auto simp: m waiting_def)
  obtain d f1 where d: "drainResults E hi nxt ?m f = (d, f1)" by (metis surj_pair)
  note drain = drainResults_in_order [OF w assms(1), of E nxt f, unfolded d]
  show ?case
  proof (cases d)
    case (Inl e)
    then show ?thesis using drain d r(1) by simp
  next
    case (Inr p)
    obtain n m1 where p: "p = (n, m1)" by (metis surj_pair)
    with drain Inr have n: "storeInOrder E T nxt hi f = storeInOrder E T n hi f1" "nxt \<le> n" "{nxt..<n} \<subseteq> fst ` set ?m"
      "m1 = filter (\<lambda>x. fst x < nxt \<or> n \<le> fst x) ?m" "n \<notin> fst ` set m1" by auto
    have keys: "fst ` set ?m \<union> jrHeight ` set rs = {nxt..hi}" "fst ` set ?m \<inter> jrHeight ` set rs = {}"
      using Cons.prems(4,5,6) r(3) by (auto simp: m)
    have ge: "nxt \<le> k" if "k \<in> fst ` set ?m" for k using that keys(1) by auto
    have m1: "fst ` set m1 = {k \<in> fst ` set ?m. n \<le> k}" unfolding n(4) using ge by force
    have "collectResults E hi rs n m1 f1 = storeInOrder E T n hi f1"
    proof (rule Cons.IH)
      show "waiting T hi m1" using w n(4) by (auto simp: waiting_def)
      show "fst ` set m1 \<inter> jrHeight ` set rs = {}" using m1 keys(2) by auto
      have "n \<le> h" if "h \<in> jrHeight ` set rs" for h
        using that keys n(3) by (metis (no_types, lifting) IntI UnCI atLeastAtMost_iff atLeastLessThan_iff empty_iff not_le subsetD)
      then show "fst ` set m1 \<union> jrHeight ` set rs = {n..hi}" unfolding m1 by (rule cut_interval [OF keys(1) n(2)])
    qed (use Cons.prems n(5) in auto)
    then show ?thesis using n(1) d Inr p r(1) by simp
  qed
qed

section \<open>Filling gaps\<close>

text \<open>The results of a pool that ran to its end: one for every height of the range, no error, the right block.\<close>

definition delivered :: "jobResult list \<Rightarrow> u64 \<Rightarrow> u64 \<Rightarrow> bool" where
  "delivered rs lo hi \<longleftrightarrow> distinct (map jrHeight rs) \<and> jrHeight ` set rs = {lo..hi} \<and>
     (\<forall>r\<in>set rs. jrErr r = None \<and> (\<exists>b. jrBlock r = Some b \<and> bNumber b = jrHeight r))"

definition resultFor :: "jobResult list \<Rightarrow> u64 \<Rightarrow> jobResult" where
  "resultFor rs h = (case find (\<lambda>r. jrHeight r = h) rs of Some r \<Rightarrow> r
     | None \<Rightarrow> \<lparr>jrHeight = h, jrBlock = None, jrReceipts = [], jrErr = None\<rparr>)"

lemma resultFor_mem: "distinct (map jrHeight rs) \<Longrightarrow> r \<in> set rs \<Longrightarrow> resultFor rs (jrHeight r) = r"
proof (induction rs)
  case (Cons x rs)
  then show ?case by (cases "x = r") (auto simp: resultFor_def)
qed simp

lemma pool_in_order:
  assumes "hi < - 1" "distinct (map jrHeight rs)" "jrHeight ` set rs = {lo..hi}" "\<forall>r\<in>set rs. jrErr r = None"
  shows "collectResults E hi rs lo [] f = storeInOrder E (resultFor rs) lo hi f"
  using assms by (intro collectResults_in_order) (auto simp: waiting_def resultFor_mem)

context pebble_db
begin

lemma fgrow_indexJob:
  assumes "feDB E = P" "tame view (feGeth E) (feCollab E)"
  shows "keeps (fgrow (feGeth E)) (indexJob E h b rs)"
proof -
  have t: "keeps (frame view (core (feGeth E))) (coWBFT (feCollab E) b)"
    "keeps (frame view (core (feGeth E))) (coFeeMeta (feCollab E) h)"
    using assms(2) by (simp_all add: tame_def)
  have "keeps (core_grow view (feGeth E)) (eachReceipt (storeReceipt E) rs)"
    by (rule keeps_mono [OF grow_eachReceipt [OF grow_storeReceipt [OF assms(1)]] receipts_core_grow])
  note rules = keeps_onStorageOf [OF this] fgrow_frame [OF keeps_frame_seq(5) [OF t(1)]] fgrow_frame [OF t(2)]
    fgrow_frame [OF keeps_frame_seq(5) [OF frame_processAddressIndexing [OF assms(2)]]]
    fgrow_world [OF fcore_seq(4) [OF fcore_processBalanceTracking] frame_core_grow]
  show ?thesis unfolding indexJob_def Let_def assms(1)
    by (intro fgrow_seq rules fgrow_withBus fgrow_publishTxEvents)
qed

lemma storeJob_ok:
  assumes "feDB E = P" "tame view (feGeth E) (feCollab E)" "storeJob E h res f = (Inr u, f')" "jrBlock res = Some b"
  shows "enlarged view (feGeth E) (wStore (fWorld f)) (wStore (fWorld f'))"
    "stored view (wStore (fWorld f')) (bNumber b)"
proof -
  let ?G = "feGeth E"
  let ?st = "\<lambda>f. wStore (fWorld f)"
  obtain f1 f2 where s: "onStorageOf (wrapping ''failed to store block'' (SetBlock P ?G (Some b))) f = (Inr (), f1)"
    and m: "indexJob E h b (jrReceipts res) f1 = (Inr (), f2)"
    and l: "onStorageOf (wrapping ''failed to update latest height'' (SetLatestHeight P h)) f2 = (Inr u, f')"
    using assms(3) by (auto simp: storeJob_def assms(1,4) andThen_eq_Inr)
  note g = keepsD [OF fgrow_SetBlock s] keepsD [OF fgrow_indexJob [OF assms(1,2)] m] and l' = SetLatestHeight_ok [OF l, of ?G]
  show "enlarged view ?G (?st f) (?st f')" using g l' unfolding onF_def core_grow_iff by (blast intro: enlarged_trans)
  have "SetBlock P ?G (Some b) (?st f) = (Inr (), ?st f1)"
    using s by (auto simp: onStorageOf_def onWorld_def onStore_def wrapping_def catch_def split: prod.splits sum.splits)
  from SetBlock_present [OF this] g(2) l' show "stored view (?st f') (bNumber b)"
    by (auto simp: stored_def onF_def core_grow_iff enlarged_def)
qed

lemma storeInOrder_ok:
  assumes "feDB E = P" "tame view (feGeth E) (feCollab E)" "hi < - 1" "lo \<le> hi + 1"
    and "\<And>h. lo \<le> h \<Longrightarrow> h \<le> hi \<Longrightarrow> \<exists>b. jrBlock (T h) = Some b \<and> bNumber b = h"
    and "storeInOrder E T lo hi f = (Inr u, f')"
  shows "enlarged view (feGeth E) (wStore (fWorld f)) (wStore (fWorld f')) \<and>
    (\<forall>h. lo \<le> h \<longrightarrow> h \<le> hi \<longrightarrow> stored view (wStore (fWorld f')) h)"
  using assms(3-)
proof (induction lo arbitrary: f rule: count_up_induct)
  case last
  have gt: "hi < hi + 1" using less_succ_u64 [OF assms(3), of hi] by simp
  have "\<not> (hi + 1 \<le> h \<and> h \<le> hi)" for h using gt by auto
  with last(2) gt show ?case by (simp add: storeInOrder_def heights_empty)
next
  case (step h)
  obtain b where b: "jrBlock (T h) = Some b" "bNumber b = h" using step.prems(1) [of h] step(1) by auto
  obtain f1 where f1: "storeJob E h (T h) f = (Inr (), f1)" "storeInOrder E T (h + 1) hi f1 = (Inr u, f')"
    using step.prems(2) by (auto simp: storeInOrder_step [OF step(1) assms(3)] andThen_eq_Inr)
  note one = storeJob_ok [OF assms(1,2) f1(1) b(1)]
  have le: "h \<le> h + 1" by (rule le_succ_u64 [OF step(2) order_refl])
  have rest: "enlarged view (feGeth E) (wStore (fWorld f1)) (wStore (fWorld f'))"
    "\<forall>k. h + 1 \<le> k \<longrightarrow> k \<le> hi \<longrightarrow> stored view (wStore (fWorld f')) k"
    using step.IH [of f1] step.prems(1) le f1(2) by (meson order_trans)+
  have "stored view (wStore (fWorld f')) h" using one(2) rest(1) b(2) by (auto simp: enlarged_def stored_def)
  moreover have "h < k \<Longrightarrow> h + 1 \<le> k" for k by (rule inc_le)
  ultimately show ?case using rest one(1) enlarged_trans by (metis order_le_less)
qed

lemma FillGap_ok:
  assumes "feDB E = P" "tame view (feGeth E) (feCollab E)" "truthful (feClient E)"
    and "gEnd g < - 1" "gStart g \<le> gEnd g" "GapRange_Size g > 10 \<Longrightarrow> delivered (arrivals g) (gStart g) (gEnd g)"
    and "FillGap E arrivals g f = Some (Inr u, f')"
  shows "enlarged view (feGeth E) (wStore (fWorld f)) (wStore (fWorld f')) \<and>
    (\<forall>h. gStart g \<le> h \<longrightarrow> h \<le> gEnd g \<longrightarrow> stored view (wStore (fWorld f')) h)"
proof (cases "GapRange_Size g > 10")
  case True
  let ?T = "resultFor (arrivals g)"
  note all = assms(6) [OF True]
  have le: "gStart g \<le> gEnd g + 1" using assms(4,5) by (rule le_succ_u64)
  have "collectResults E (gEnd g) (arrivals g) (gStart g) [] f = (Inr u, f')"
    using assms(7) True by (auto simp: FillGap_def FetchRangeConcurrent_def split: if_splits)
  then have "storeInOrder E ?T (gStart g) (gEnd g) f = (Inr u, f')"
    using assms(4) all by (subst pool_in_order [symmetric]) (simp_all add: delivered_def)
  moreover have "\<exists>b. jrBlock (?T h) = Some b \<and> bNumber b = h" if "gStart g \<le> h" "h \<le> gEnd g" for h
  proof -
    from all that obtain r where "r \<in> set (arrivals g)" "jrHeight r = h" by (force simp: delivered_def)
    with all show ?thesis using resultFor_mem by (fastforce simp: delivered_def)
  qed
  ultimately show ?thesis using storeInOrder_ok [OF assms(1,2,4) le] by blast
next
  case False
  have le: "gStart g \<le> gEnd g + 1" using assms(4,5) by (rule le_succ_u64)
  have "FetchRange E (gStart g) (gEnd g) f = Some (Inr u, f')" using assms(7) False by (simp add: FillGap_def)
  moreover have "upTo view (gStart g) (gStart g) s" for s :: "'db storage" by (auto simp: upTo_def)
  moreover have "h < gEnd g + 1" if "h \<le> gEnd g" for h
    using that by (simp add: less_succ_u64 [OF assms(4)] order_le_less)
  ultimately show ?thesis
    using FetchRange_keeps [OF assms(1-4) le, of f "gStart g"] by (auto simp: upTo_def)
qed

lemma FillGaps_ok:
  assumes "feDB E = P" "tame view (feGeth E) (feCollab E)" "truthful (feClient E)"
    and "\<forall>g\<in>set gaps. gEnd g < - 1 \<and> gStart g \<le> gEnd g \<and> (GapRange_Size g > 10 \<longrightarrow> delivered (arrivals g) (gStart g) (gEnd g))"
    and "FillGaps E arrivals gaps f = Some (Inr u, f')"
  shows "enlarged view (feGeth E) (wStore (fWorld f)) (wStore (fWorld f')) \<and>
    (\<forall>h. covered gaps h \<longrightarrow> stored view (wStore (fWorld f')) h)"
  using assms(4,5)
proof (induction gaps arbitrary: f)
  case (Cons g gaps)
  obtain f1 where f1: "FillGap E arrivals g f = Some (Inr (), f1)" "FillGaps E arrivals gaps f1 = Some (Inr u, f')"
    using Cons.prems(2) by (auto split: option.splits sum.splits prod.splits)
  have g: "gEnd g < - 1" "gStart g \<le> gEnd g" "GapRange_Size g > 10 \<Longrightarrow> delivered (arrivals g) (gStart g) (gEnd g)"
    using Cons.prems(1) by auto
  note one = FillGap_ok [OF assms(1-3) g f1(1)]
  have rest: "enlarged view (feGeth E) (wStore (fWorld f1)) (wStore (fWorld f'))"
    "\<forall>h. covered gaps h \<longrightarrow> stored view (wStore (fWorld f')) h"
    using Cons.IH [OF _ f1(2)] Cons.prems(1) by auto
  have "stored view (wStore (fWorld f')) h" if "stored view (wStore (fWorld f1)) h" for h
    using that rest(1) by (simp add: stored_def enlarged_def)
  then show ?case using one rest enlarged_trans by (auto simp: covered_def)
qed (simp add: covered_def)

end

section \<open>Recovery at start-up\<close>

definition latestAtMost :: "'db pebble \<Rightarrow> u64 \<Rightarrow> 'db storage \<Rightarrow> bool" where
  "latestAtMost P n s \<longleftrightarrow> (\<forall>m. fst (GetLatestHeight P s) = Inr m \<longrightarrow> m \<le> n)"

lemma contiguous_if_stored:
  "latestAtMost P n s \<Longrightarrow> (\<And>h. start \<le> h \<Longrightarrow> h \<le> n \<Longrightarrow> stored view s h) \<Longrightarrow> contiguous P view start s"
  unfolding latestAtMost_def contiguous_def by (meson order_trans)

context pebble_db
begin

lemma latestAtMost_set:
  assumes "view (db s) LatestHeightKey = Some (EncodeUint64 h)" "h \<le> n"
  shows "latestAtMost P n s"
proof (cases "closed s")
  case False
  then have "GetLatestHeight P s = (Inr h, s)"
    using assms(1) by (simp add: GetLatestHeight_def guard_simps getKey_eq andThen_def)
  then show ?thesis using assms(2) by (simp add: latestAtMost_def)
qed (simp add: latestAtMost_def GetLatestHeight_def guard_simps)

lemma FetchRange_latest:
  assumes "feDB E = P" "tame view (feGeth E) (feCollab E)" "hi < - 1" "height \<le> hi + 1" "hi \<le> n"
    and "FetchRange E height hi f = Some (Inr u, f')" "latestAtMost P n (wStore (fWorld f))"
  shows "latestAtMost P n (wStore (fWorld f'))"
  using assms(3,4,6,7)
proof (induction height arbitrary: f rule: count_up_induct)
  case last
  have "\<not> hi + 1 \<le> hi" using less_succ_u64 [OF assms(3), of hi] by (simp add: not_le)
  then show ?case using last by (simp add: FetchRange.simps)
next
  case (step h)
  obtain f1 where f1: "FetchBlock E h f = (Inr (), f1)" "FetchRange E (h + 1) hi f1 = Some (Inr u, f')"
    using step.prems(1) step(1) by (auto simp: FetchRange.simps [of E h] split: if_splits prod.splits sum.splits)
  have "view (db (wStore (fWorld f1))) LatestHeightKey = Some (EncodeUint64 h)"
    by (rule FetchBlock_ok [OF assms(1,2) f1(1)])
  then have "latestAtMost P n (wStore (fWorld f1))"
    by (rule latestAtMost_set [OF _ order_trans [OF step(1) assms(5)]])
  then show ?case using step.IH f1(2) by blast
qed

lemma storeInOrder_latest:
  assumes "feDB E = P" "hi < - 1" "lo \<le> hi + 1" "hi \<le> n"
    and "storeInOrder E T lo hi f = (Inr u, f')" "latestAtMost P n (wStore (fWorld f))"
  shows "latestAtMost P n (wStore (fWorld f'))"
  using assms(2,3,5,6)
proof (induction lo arbitrary: f rule: count_up_induct)
  case last
  have "hi < hi + 1" using less_succ_u64 [OF assms(2), of hi] by simp
  then show ?case using last by (simp add: storeInOrder_def heights_empty)
next
  case (step h)
  obtain f1 where f1: "storeJob E h (T h) f = (Inr (), f1)" "storeInOrder E T (h + 1) hi f1 = (Inr u, f')"
    using step.prems(1) by (auto simp: storeInOrder_step [OF step(1) assms(2)] andThen_eq_Inr)
  from f1(1) obtain f0 where "onStorageOf (wrapping ''failed to update latest height'' (SetLatestHeight P h)) f0 = (Inr (), f1)"
    by (cases "jrBlock (T h)") (auto simp: storeJob_def assms(1) andThen_eq_Inr)
  from SetLatestHeight_ok [OF this] have "view (db (wStore (fWorld f1))) LatestHeightKey = Some (EncodeUint64 h)" by blast
  then have "latestAtMost P n (wStore (fWorld f1))"
    by (rule latestAtMost_set [OF _ order_trans [OF step(1) assms(4)]])
  then show ?case using step.IH f1(2) by blast
qed

lemma FillGap_latest:
  assumes "feDB E = P" "tame view (feGeth E) (feCollab E)"
    and "gEnd g < - 1" "gStart g \<le> gEnd g" "GapRange_Size g > 10 \<Longrightarrow> delivered (arrivals g) (gStart g) (gEnd g)" "gEnd g \<le> n"
    and "FillGap E arrivals g f = Some (Inr u, f')" "latestAtMost P n (wStore (fWorld f))"
  shows "latestAtMost P n (wStore (fWorld f'))"
proof (cases "GapRange_Size g > 10")
  case True
  have "collectResults E (gEnd g) (arrivals g) (gStart g) [] f = (Inr u, f')"
    using assms(7) True by (auto simp: FillGap_def FetchRangeConcurrent_def split: if_splits)
  then have "storeInOrder E (resultFor (arrivals g)) (gStart g) (gEnd g) f = (Inr u, f')"
    using assms(3) assms(5) [OF True] by (subst pool_in_order [symmetric]) (simp_all add: delivered_def)
  then show ?thesis by (rule storeInOrder_latest [OF assms(1,3) le_succ_u64 [OF assms(3,4)] assms(6) _ assms(8)])
next
  case False
  then have "FetchRange E (gStart g) (gEnd g) f = Some (Inr u, f')" using assms(7) by (simp add: FillGap_def)
  then show ?thesis by (rule FetchRange_latest [OF assms(1,2,3) le_succ_u64 [OF assms(3,4)] assms(6) _ assms(8)])
qed

lemma FillGaps_latest:
  assumes "feDB E = P" "tame view (feGeth E) (feCollab E)"
    and "\<forall>g\<in>set gaps. gEnd g < - 1 \<and> gStart g \<le> gEnd g \<and> (GapRange_Size g > 10 \<longrightarrow> delivered (arrivals g) (gStart g) (gEnd g))"
    and "\<forall>g\<in>set gaps. gEnd g \<le> n"
    and "FillGaps E arrivals gaps f = Some (Inr u, f')" "latestAtMost P n (wStore (fWorld f))"
  shows "latestAtMost P n (wStore (fWorld f'))"
  using assms(3-)
proof (induction gaps arbitrary: f)
  case (Cons g gaps)
  obtain f1 where f1: "FillGap E arrivals g f = Some (Inr (), f1)" "FillGaps E arrivals gaps f1 = Some (Inr u, f')"
    using Cons.prems(3) by (auto split: option.splits sum.splits prod.splits)
  have "latestAtMost P n (wStore (fWorld f1))"
    using Cons.prems(1,2) by (intro FillGap_latest [OF assms(1,2) _ _ _ _ f1(1) Cons.prems(4)]) auto
  then show ?case using Cons.IH [OF _ _ f1(2)] Cons.prems(1,2) by auto
qed simp

lemma FillReceiptGaps_core_grow:
  "keeps (core_grow view G) (FillReceiptGaps getReceipts (\<lambda>r. SetReceipt P G (Some r)) stop i gaps)"
proof (induction gaps arbitrary: i)
  case (Cons g gaps)
  have set: "keeps (core_grow view G) (SetReceipt P G (Some r))" for r
    by (rule keeps_mono [OF grow_SetReceipt receipts_core_grow])
  have "keeps (core_grow view G) (FillReceiptGap getReceipts (\<lambda>r. SetReceipt P G (Some r)) g)"
    unfolding FillReceiptGap_def storeMissing_def
    by (auto simp: core_grow_seq set split: sum.split option.split intro!: core_grow_seq)
  with Cons show ?case by (auto intro!: core_grow_seq)
qed (simp add: core_grow_seq)

lemma recoverReceiptGaps_core_grow:
  assumes "feDB E = P" "\<not> closed (wStore (fWorld f))" "latest < - 1" "fcStartHeight (feConfig E) \<le> latest"
    and "\<forall>h. \<not> rvScanDone V h"
  shows "\<exists>f'. recoverReceiptGaps E V latest f = Some f' \<and> fgrow (feGeth E) f f'"
proof -
  have le: "fcStartHeight (feConfig E) \<le> latest + 1" by (rule le_succ_u64 [OF assms(3,4)])
  obtain gaps where "DetectReceiptGaps (HasBlock P) (GetMissingReceipts P (feGeth E)) (rvScanDone V)
      (fcStartHeight (feConfig E)) latest (wStore (fWorld f)) = Some ((gaps, None), wStore (fWorld f))"
    using scan.DetectReceiptGaps_loop_exact [OF assms(2,3) le assms(5), of "feGeth E" "[]"] by (simp add: DetectReceiptGaps_def)
  moreover have "fgrow (feGeth E) f (snd (onStorageOf (FillReceiptGaps (rvReceipts V)
      (\<lambda>r. SetReceipt P (feGeth E) (Some r)) (rvFillDone V) 0 gaps) f))"
    using keeps_onStorageOf [OF FillReceiptGaps_core_grow] unfolding keeps_def by blast
  ultimately show ?thesis by (simp add: recoverReceiptGaps_def assms(1))
qed

end

text \<open>What filling the gaps of a scan achieves; the two properties below rest on it.\<close>

lemma filled_gaps:
  assumes "pebble_db (feDB E) view" "tame view (feGeth E) (feCollab E)" "truthful (feClient E)" "hi < - 1"
    and "gaps_exact (stored view (wStore (fWorld f))) lo hi gaps"
    and "\<forall>g\<in>set gaps. GapRange_Size g > 10 \<longrightarrow> delivered (arrivals g) (gStart g) (gEnd g)"
    and "FillGaps E arrivals gaps f = Some (Inr u, f')"
  shows "enlarged view (feGeth E) (wStore (fWorld f)) (wStore (fWorld f'))"
    "\<And>h. lo \<le> h \<Longrightarrow> h \<le> hi \<Longrightarrow> stored view (wStore (fWorld f')) h"
    "latestAtMost (feDB E) hi (wStore (fWorld f)) \<Longrightarrow> latestAtMost (feDB E) hi (wStore (fWorld f'))"
proof -
  have g: "\<forall>g\<in>set gaps. gEnd g < - 1 \<and> gStart g \<le> gEnd g \<and>
      (GapRange_Size g > 10 \<longrightarrow> delivered (arrivals g) (gStart g) (gEnd g))" "\<forall>g\<in>set gaps. gEnd g \<le> hi"
    using assms(4-6) by (auto simp: gaps_exact_def)
  from pebble_db.FillGaps_ok [OF assms(1) refl assms(2,3) g(1) assms(7)]
  have f': "enlarged view (feGeth E) (wStore (fWorld f)) (wStore (fWorld f'))"
    "\<forall>h. covered gaps h \<longrightarrow> stored view (wStore (fWorld f')) h" by auto
  show "enlarged view (feGeth E) (wStore (fWorld f)) (wStore (fWorld f'))" by (rule f'(1))
  show "stored view (wStore (fWorld f')) h" if "lo \<le> h" "h \<le> hi" for h
    using assms(5) f' that by (fastforce simp: gaps_exact_def enlarged_def stored_def)
  show "latestAtMost (feDB E) hi (wStore (fWorld f')) " if "latestAtMost (feDB E) hi (wStore (fWorld f))"
    by (rule pebble_db.FillGaps_latest [OF assms(1) refl assms(2) g assms(7) that])
qed

section \<open>Properties\<close>

lemma fetchBlockJob_eq_firstAnswer:
  assumes "att \<le> fcMaxRetries (feConfig E)" "n = nat (fcMaxRetries (feConfig E) - att)" "\<And>c. \<not> cl_done (feClient E) c"
    "firstAnswer (feClient E) h n c = (r, c')"
  shows "fetchBlockJob E h att c =
    (case r of Inl e \<Rightarrow> \<lparr>jrHeight = h, jrBlock = None, jrReceipts = [], jrErr = Some e\<rparr>
     | Inr ((b, rs), k) \<Rightarrow> \<lparr>jrHeight = h, jrBlock = b, jrReceipts = rs, jrErr = None\<rparr>, c')"
  using assms(1,2,4)
proof (induction n arbitrary: att c r)
  case 0
  then have "att = fcMaxRetries (feConfig E)" by simp
  then show ?case using 0(3)
    by (auto simp: fetchBlockJob.simps [of E h "fcMaxRetries (feConfig E)"] firstAnswer.simps tryNode_def andThen_def wrapping_def catch_def throw_def ret_def
        assms(3) Let_def split: prod.splits sum.splits)
next
  case (Suc n)
  obtain r1 c1 where t: "tryNode (feClient E) h c = (r1, c1)" by (metis surj_pair)
  note first = Suc.prems(3) [unfolded firstAnswer.simps [of "feClient E" h "Suc n"] t]
  have lt: "att + 1 \<le> fcMaxRetries (feConfig E)" "n = nat (fcMaxRetries (feConfig E) - (att + 1))" using Suc.prems(1,2) by auto
  have unfold: "fetchBlockJob E h att c = (case r1 of Inl e \<Rightarrow> fetchBlockJob E h (att + 1) c1
      | Inr (b, rs) \<Rightarrow> (\<lparr>jrHeight = h, jrBlock = b, jrReceipts = rs, jrErr = None\<rparr>, c1))"
    using lt(1) t Suc.prems(1)
    by (auto simp: fetchBlockJob.simps [of E h att] tryNode_def andThen_def wrapping_def catch_def throw_def ret_def
        assms(3) Let_def split: prod.splits sum.splits)
  show ?case
  proof (cases r1)
    case (Inl e)
    obtain r2 c2 where r2: "firstAnswer (feClient E) h n c1 = (r2, c2)" by (metis surj_pair)
    with first Inl have "c2 = c'" by (auto split: sum.splits prod.splits)
    with Suc.IH [OF lt, of c1 r2] r2 first Inl unfold show ?thesis by (auto split: sum.splits prod.splits)
  qed (use first unfold in \<open>auto split: prod.splits\<close>)
qed

text \<open>
  C4: retries. Fetching a block gives the first answer of the node within one attempt more than
  the configured retries, together with whether an attempt failed before it, or else the error of the last
  attempt; it takes the sum of the doubled delays, and storage and event bus are as before. A
  worker of the pool whose context is not cancelled sends the same answer or the same error.
\<close>

theorem fetch_returns_first_answer:
  assumes "0 \<le> fcMaxRetries (feConfig E)" "\<And>c. \<not> cl_done (feClient E) c"
    and "firstAnswer (feClient E) h (nat (fcMaxRetries (feConfig E))) (wNode (fWorld f)) = (r, c)"
  shows "(\<exists>f'. fetchBlockAndReceiptsWithRetry E h t0 0 False f =
        (case r of Inl e \<Rightarrow> Inl e | Inr ((b, rs), k) \<Rightarrow> Inr (b, rs, k > 0), f') \<and>
      fetchedFrom f c (waited (feConfig E) 0 (case r of Inl e \<Rightarrow> nat (fcMaxRetries (feConfig E)) | Inr (a, k) \<Rightarrow> k)) f') \<and>
    fetchBlockJob E h 0 (wNode (fWorld f)) =
      (case r of Inl e \<Rightarrow> \<lparr>jrHeight = h, jrBlock = None, jrReceipts = [], jrErr = Some e\<rparr>
       | Inr ((b, rs), k) \<Rightarrow> \<lparr>jrHeight = h, jrBlock = b, jrReceipts = rs, jrErr = None\<rparr>, c)"
  using retry_eq_firstAnswer [OF assms(1) _ assms(3), of t0 False, unfolded simp_thms]
    fetchBlockJob_eq_firstAnswer [OF assms(1) _ assms(2,3)]
  by simp

text \<open>A node that is busy as often as its state says, then answers with empty blocks.\<close>

definition loneBlock :: block where
  "loneBlock = \<lparr>bNumber = 5, bHash = 55, bTime = 1000, bCoinbase = 9, bGasUsed = 0, bTxs = []\<rparr>"

definition sampleNode :: "nat client" where
  "sampleNode = \<lparr>cl_latest = (\<lambda>c. (Inr 5, c)),
     cl_block = (\<lambda>h c. if c > 0 then (Inl (Errorf ''busy''), c - 1) else (Inr (Some (loneBlock\<lparr>bNumber := h\<rparr>)), c)),
     cl_receipts = (\<lambda>h c. (Inr [Some sampleReceipt], c)), cl_balanceAt = (\<lambda>a n c. (Inr 0, c)), cl_done = (\<lambda>_. False)\<rparr>"

definition sampleFetchEnv :: "((bytes \<times> bytes) list, nat, int) fenv" where
  "sampleFetchEnv = \<lparr>feDB = memPebble, feGeth = refGeth loneBlock sampleTx sampleReceipt sampleLoc, feJson = sampleJson,
     feCollab = quiet, feClient = sampleNode, feFloats = milliFloats,
     feConfig = \<lparr>fcStartHeight = 5, fcBatchSize = 10, fcMaxRetries = 3, fcRetryDelay = 100, fcNumWorkers = 2\<rparr>,
     feAdapter = None, feSigMemberAdded = 1, feSigMemberRemoved = 2, fePoolDone = (\<lambda>_ _. False),
     feSchedule = (\<lambda>n. map (Pair 0))\<rparr>"

definition fetcherOn :: "((bytes \<times> bytes) list) storage \<Rightarrow> ((bytes \<times> bytes) list, nat, int) fetcher" where
  "fetcherOn s = \<lparr>fWorld = \<lparr>wStore = s, wNode = 1\<rparr>, fBus = None,
     fMetrics = NewRPCMetrics milliFloats 100 5 0, fNow = 0\<rparr>"

abbreviation sampleFetcher :: "((bytes \<times> bytes) list, nat, int) fetcher" where
  "sampleFetcher \<equiv> fetcherOn (emptyStorage [])"

lemma sample_answer:
  "firstAnswer (feClient sampleFetchEnv) 5 3 (wNode (fWorld (fetcherOn s))) = (Inr ((Some loneBlock, [Some sampleReceipt]), 1), 0)"
  by (simp add: firstAnswer.simps eval_nat_numeral tryNode_def sampleFetchEnv_def sampleNode_def fetcherOn_def andThen_def
      wrapping_def catch_def throw_def ret_def loneBlock_def)

theorem fetch_returns_first_answer_witness:
  "\<exists>f'. fetchBlockAndReceiptsWithRetry sampleFetchEnv 5 0 0 False sampleFetcher =
      (Inr (Some loneBlock, [Some sampleReceipt], True), f') \<and> fNow f' = 100"
proof -
  have "fcMaxRetries (feConfig sampleFetchEnv) = 3" "\<And>c. \<not> cl_done (feClient sampleFetchEnv) c"
    by (simp_all add: sampleFetchEnv_def sampleNode_def)
  moreover have "waited (feConfig sampleFetchEnv) 0 1 = 100"
    by (simp add: waited_def waitBefore_def backoffDelay_def sampleFetchEnv_def)
  ultimately show ?thesis using fetch_returns_first_answer [of sampleFetchEnv 5 sampleFetcher _ _ 0] sample_answer
    by (auto simp: fetchedFrom_def fetcherOn_def)
qed

text \<open>
  C2: fetching a block. A failed fetch leaves the latest height where it was. A fetch that succeeds
  has stored the block the node returned and every receipt that came with it, and only then moved the
  latest height to the height asked for. Either way no block and no receipt that was there is lost.
\<close>

theorem FetchBlock_indexes:
  assumes "pebble_db (feDB E) view" "tame view (feGeth E) (feCollab E)" "fair (feSchedule E)"
    and "\<not> closed (wStore (fWorld f))" "FetchBlock E h f = (r, f')"
  shows "enlarged view (feGeth E) (wStore (fWorld f)) (wStore (fWorld f')) \<and>
    (case r of
       Inl e \<Rightarrow> fst (GetLatestHeight (feDB E) (wStore (fWorld f'))) = fst (GetLatestHeight (feDB E) (wStore (fWorld f)))
     | Inr _ \<Rightarrow> fst (GetLatestHeight (feDB E) (wStore (fWorld f'))) = Inr h \<and>
         (\<exists>b rs hadError f1. fetchBlockAndReceiptsWithRetry E h (fNow f) 0 False f = (Inr (Some b, rs, hadError), f1) \<and>
           stored view (wStore (fWorld f')) (bNumber b) \<and>
           (\<forall>x. Some x \<in> set rs \<longrightarrow>
             HasReceipt (feDB E) (feGeth E) (rTxHash x) (wStore (fWorld f')) = (Inr True, wStore (fWorld f')))))"
proof (cases r)
  case (Inl e)
  with pebble_db.FetchBlock_failed [OF assms(1) refl assms(2)] assms(5)
  have "core_grow view (feGeth E) (wStore (fWorld f)) (wStore (fWorld f'))" by (simp add: onF_def)
  then have g: "enlarged view (feGeth E) (wStore (fWorld f)) (wStore (fWorld f'))"
    and l: "view (db (wStore (fWorld f'))) LatestHeightKey = view (db (wStore (fWorld f))) LatestHeightKey"
    by (simp_all add: core_grow_iff)
  from g have "closed (wStore (fWorld f')) = closed (wStore (fWorld f))" by (simp add: enlarged_def)
  from pebble_db.GetLatestHeight_cong [OF assms(1) this l] g Inl show ?thesis by simp
next
  case (Inr u)
  with assms(5) have ok: "FetchBlock E h f = (Inr u, f')" by simp
  obtain b rs hadError f1 where r: "fetchBlockAndReceiptsWithRetry E h (fNow f) 0 False f = (Inr (Some b, rs, hadError), f1)"
    and g: "enlarged view (feGeth E) (wStore (fWorld f)) (wStore (fWorld f'))"
    and l: "view (db (wStore (fWorld f'))) LatestHeightKey = Some (EncodeUint64 h)"
    and b: "view (db (wStore (fWorld f'))) (BlockKey (bNumber b)) \<noteq> None"
    and x: "\<forall>r. fair (feSchedule E) \<longrightarrow> Some r \<in> set rs \<longrightarrow>
      view (db (wStore (fWorld f'))) (ReceiptKey (feGeth E) (rTxHash r)) \<noteq> None"
    by (rule pebble_db.FetchBlock_ok [OF assms(1) refl assms(2) ok])
  have o: "\<not> closed (wStore (fWorld f'))" using g assms(4) by (simp add: enlarged_def)
  then have "fst (GetLatestHeight (feDB E) (wStore (fWorld f'))) = Inr h"
    using l by (simp add: GetLatestHeight_def guard_simps pebble_db.getKey_eq [OF assms(1)] andThen_def)
  with Inr r g b x assms(3) pebble_db.HasReceipt_present [OF assms(1) o] show ?thesis by (auto simp: stored_def)
qed

lemma sample_fetch:
  assumes "\<not> closed s" "\<not> ReadOnly (config s)"
  shows "\<exists>f'. FetchBlock sampleFetchEnv 5 (fetcherOn s) = (Inr (), f')"
proof -
  have "fcMaxRetries (feConfig sampleFetchEnv) = 3" by (simp add: sampleFetchEnv_def)
  then obtain f1 where f1: "fetchBlockAndReceiptsWithRetry sampleFetchEnv 5 0 0 False (fetcherOn s) =
      (Inr (Some loneBlock, [Some sampleReceipt], True), f1)" "fetchedFrom (fetcherOn s) 0 100 f1"
    using retry_eq_firstAnswer [of 0 sampleFetchEnv 3 5 "fetcherOn s" _ _ 0 False] sample_answer
    by (auto simp: waited_def waitBefore_def backoffDelay_def sampleFetchEnv_def)
  have f1': "fWorld f1 = \<lparr>wStore = s, wNode = 0\<rparr>" "fBus f1 = None"
    using f1(2) by (auto simp: fetchedFrom_def fetcherOn_def)
  have e: "rLogs sampleReceipt = []" "bTxs loneBlock = []" "bNumber loneBlock = 5" "rTxHash sampleReceipt = 21"
    by (simp_all add: sampleReceipt_def loneBlock_def)
  have large: "ShouldProcessInBatches loneBlock [Some sampleReceipt] s = (Inr False, s)" for s :: "((bytes \<times> bytes) list) storage"
    by (simp add: ShouldProcessInBatches_def IsLargeBlock_def largeBlockThreshold_def EstimateMemoryUsage_def loneBlock_def sampleReceipt_def)
  let ?G = "refGeth loneBlock sampleTx sampleReceipt sampleLoc"
  have env: "feDB sampleFetchEnv = memPebble" "feGeth sampleFetchEnv = ?G" "feCollab sampleFetchEnv = quiet"
    by (simp_all add: sampleFetchEnv_def)
  let ?ready = "\<lambda>s. \<not> closed s \<and> \<not> ReadOnly (config s)"
  have set: "?ready s \<Longrightarrow> \<exists>s'. dbSet memPebble k v s = (Inr (), s') \<and> ?ready s'" for k v and s :: "((bytes \<times> bytes) list) storage"
    by (auto simp: dbSet_def liftWrite_def memPebble_def)
  from assms obtain s0 s1 where s0: "dbSet memPebble (BlockKey 5) ''B'' s = (Inr (), s0)"
    "dbSet memPebble (BlockHashIndexKey ?G (bHash loneBlock)) (EncodeUint64 5) s0 = (Inr (), s1)" and o1: "?ready s1"
    using set by meson
  have s1: "SetBlock memPebble ?G (Some loneBlock) s = (Inr (), s1)"
    using s0 e by (simp add: SetBlock_def guard_simps andThen_def wrapping_def catch_def EncodeBlock_def fromOption_def
        refGeth_def assms)
  from o1 obtain t1 s2 where t1: "dbSet memPebble (ReceiptKey ?G (rTxHash sampleReceipt)) ''R'' s1 = (Inr (), t1)"
    "dbSet memPebble (ContractAddressKey ?G (rTxHash sampleReceipt)) (addrBytes ?G (rContractAddress sampleReceipt)) t1 = (Inr (), s2)"
    and o2: "?ready s2"
    using set by meson
  have "rContractAddress sampleReceipt \<noteq> 0" "rlpEncodeReceipt ?G sampleReceipt = Some ''R''" "validateReceipt (Some sampleReceipt) = None"
    by (simp_all add: sampleReceipt_def refGeth_def validateReceipt_def)
  then have s2: "SetReceipt memPebble ?G (Some sampleReceipt) s1 = (Inr (), s2)"
    using t1 o1 by (simp add: SetReceipt_def guard_simps andThen_def wrapping_def catch_def check_def EncodeReceipt_def fromOption_def)
  from o2 obtain s3 where "dbSet memPebble LatestHeightKey (EncodeUint64 5) s2 = (Inr (), s3)" using set by meson
  with o2 have s3: "SetLatestHeight memPebble 5 s2 = (Inr (), s3)" by (simp add: SetLatestHeight_def guard_simps)
  have proc: "processBlockMetadata sampleFetchEnv loneBlock rs 5 w = (Inr (), w)" for rs w
    by (simp add: processBlockMetadata_def Let_def env quiet_simps onStore_def wrapping_def catch_def andThen_def
        processAddressIndexing_def processBalanceTracking_def e whenSome_def)
  have store: "storeAndProcessReceipts sampleFetchEnv loneBlock [Some sampleReceipt] \<lparr>wStore = s1, wNode = 0\<rparr> =
      (Inr (), \<lparr>wStore = s2, wNode = 0\<rparr>)"
    by (simp add: storeAndProcessReceipts_def onStore_def andThen_def large eachReceipt_def storeReceipt_def env s2
        parseSystemEvents_def quiet_simps whenSome_def wrapping_def catch_def e)
  have "indexBlock sampleFetchEnv 5 loneBlock [Some sampleReceipt] (f1\<lparr>fWorld := \<lparr>wStore = s1, wNode = 0\<rparr>\<rparr>) =
      (Inr (), f1\<lparr>fWorld := \<lparr>wStore = s2, wNode = 0\<rparr>\<rparr>)"
    using f1'(2) by (simp add: indexBlock_def andThen_def onWorld_def onStorageOf_def onStore_def proc store env quiet_simps
        publish_def processBlockWithProcessors_def)
  then show ?thesis
    using f1(1) f1' s1 s3
    by (simp add: FetchBlock_def fetchBlockSince_def andThen_def fetcherOn_def env onStorageOf_def onWorld_def onStore_def
        wrapping_def catch_def)
qed

lemma sample_hyps:
  "pebble_db (feDB sampleFetchEnv) map_of" "tame map_of (feGeth sampleFetchEnv) (feCollab sampleFetchEnv)"
  "fair (feSchedule sampleFetchEnv)" "truthful (feClient sampleFetchEnv)" "finiteChain (feClient sampleFetchEnv)"
  "\<not> closed (wStore (fWorld sampleFetcher))"
  using memPebble.pebble_db_axioms tame_quiet
  by (auto simp: sampleFetchEnv_def fair_def truthful_def finiteChain_def sampleNode_def fetcherOn_def emptyStorage_def
      image_image split: if_splits)

theorem FetchBlock_indexes_witness:
  "\<exists>f'. FetchBlock sampleFetchEnv 5 sampleFetcher = (Inr (), f') \<and>
    fst (GetLatestHeight memPebble (wStore (fWorld f'))) = Inr 5 \<and> enlarged map_of (feGeth sampleFetchEnv)
      (wStore (fWorld sampleFetcher)) (wStore (fWorld f'))"
proof -
  obtain f' where f': "FetchBlock sampleFetchEnv 5 sampleFetcher = (Inr (), f')" using sample_fetch [of "emptyStorage []"] by (auto simp: emptyStorage_def DefaultConfig_def)
  moreover have "feDB sampleFetchEnv = memPebble" by (simp add: sampleFetchEnv_def)
  ultimately show ?thesis using FetchBlock_indexes [OF sample_hyps(1-3,6) f'] by auto
qed



text \<open>
  C3: the order of the pool. Whatever order the results of the workers arrive in, the collector does
  exactly what storing them height after height does: same blocks, same events, same error at the
  same place.
\<close>

theorem FetchRangeConcurrent_in_order:
  assumes "hi < - 1" "\<not> ctxDone E f" "distinct (map jrHeight arrivals)" "jrHeight ` set arrivals = {lo..hi}"
    and "\<forall>r\<in>set arrivals. jrErr r = None"
  shows "FetchRangeConcurrent E arrivals lo hi f = storeInOrder E (resultFor arrivals) lo hi f"
  using assms(2) pool_in_order [OF assms(1,3-5)] by (simp add: FetchRangeConcurrent_def)

definition sampleResult :: "u64 \<Rightarrow> jobResult" where
  "sampleResult h = \<lparr>jrHeight = h, jrBlock = Some (loneBlock\<lparr>bNumber := h\<rparr>), jrReceipts = [], jrErr = None\<rparr>"

theorem FetchRangeConcurrent_in_order_witness:
  "FetchRangeConcurrent sampleFetchEnv [sampleResult 6, sampleResult 5] 5 6 sampleFetcher =
     andThen (storeJob sampleFetchEnv 5 (sampleResult 5)) (\<lambda>_. storeJob sampleFetchEnv 6 (sampleResult 6)) sampleFetcher"
proof -
  have "{5..6 :: u64} = {6, 5}" by (auto simp: order_le_less less_succ_u64 [of 5, simplified])
  moreover have "\<not> ctxDone sampleFetchEnv sampleFetcher"
    by (simp add: ctxDone_def sampleFetchEnv_def sampleNode_def)
  moreover have "heights 5 6 = [5, 6]" by (simp add: heights_def upt_rec)
  moreover have "andThen m ret = m" for m :: "(((bytes \<times> bytes) list, nat, int) fetcher, unit) op"
    by (auto simp: andThen_def fun_eq_iff split: prod.split sum.split)
  ultimately show ?thesis
    using FetchRangeConcurrent_in_order [of 6 sampleFetchEnv sampleFetcher "[sampleResult 6, sampleResult 5]" 5]
    by (simp add: sampleResult_def storeInOrder_def resultFor_def)
qed

text \<open>
  When the context is cancelled before the first height is handed to a worker, the results channel
  closes with that result missing: the collector stores nothing and reports success.
\<close>

lemma FetchRangeConcurrent_stores_nothing:
  assumes "\<not> ctxDone E f" "\<forall>r\<in>set arrivals. jrErr r = None \<and> jrHeight r \<noteq> lo"
  shows "FetchRangeConcurrent E arrivals lo hi f = (Inr (), f)"
proof -
  have "collectResults E hi arrivals lo m f = (Inr (), f)" if "lo \<notin> fst ` set m" for m
    using that assms(2)
  proof (induction arrivals arbitrary: m)
    case (Cons r rs)
    have "lo \<notin> fst ` set (putResult r m)" using Cons.prems by (auto simp: putResult_def)
    then have "map_of (putResult r m) lo = None" by (simp add: map_of_eq_None_iff)
    then show ?case using Cons by (simp add: drainResults.simps \<open>lo \<notin> fst ` set (putResult r m)\<close>)
  qed simp
  with assms(1) show ?thesis by (simp add: FetchRangeConcurrent_def)
qed




definition holed :: "((bytes \<times> bytes) list) storage" where
  "holed = emptyStorage [(LatestHeightKey, EncodeUint64 6), (BlockKey 6, ''B'')]"


end
