(* ===== verification/SysCodec.thy ===== *)
theory SysCodec
  imports AddressIndex
begin

text \<open>
  The records of the system contracts (\<^verbatim>\<open>pkg/storage/system_contracts.go\<close>) and their encodings
  (\<^verbatim>\<open>encoder.go\<close>): proposals, validator changes and member changes have binary formats of their own, the
  other records go through RLP. Amounts and identifiers, which are never nil, are integers.
\<close>

section \<open>Records\<close>

type_synonym ProposalStatus = "8 word"

definition ProposalStatusAll :: ProposalStatus where "ProposalStatusAll = 255"
definition ProposalStatusNone :: ProposalStatus where "ProposalStatusNone = 1"
definition ProposalStatusVoting :: ProposalStatus where "ProposalStatusVoting = 2"
definition ProposalStatusApproved :: ProposalStatus where "ProposalStatusApproved = 3"
definition ProposalStatusExecuted :: ProposalStatus where "ProposalStatusExecuted = 4"
definition ProposalStatusCancelled :: ProposalStatus where "ProposalStatusCancelled = 5"
definition ProposalStatusExpired :: ProposalStatus where "ProposalStatusExpired = 6"
definition ProposalStatusFailed :: ProposalStatus where "ProposalStatusFailed = 7"
definition ProposalStatusRejected :: ProposalStatus where "ProposalStatusRejected = 8"

definition ProposalStatus_String :: "ProposalStatus \<Rightarrow> string" where
  "ProposalStatus_String st =
     (if st = ProposalStatusNone then ''none''
      else if st = ProposalStatusVoting then ''voting''
      else if st = ProposalStatusApproved then ''approved''
      else if st = ProposalStatusExecuted then ''executed''
      else if st = ProposalStatusCancelled then ''cancelled''
      else if st = ProposalStatusExpired then ''expired''
      else if st = ProposalStatusFailed then ''failed''
      else if st = ProposalStatusRejected then ''rejected''
      else ''unknown('' @ showDec (unat st) @ '')'')"

record MintEvent =
  meBlockNumber :: u64
  meTxHash :: hash
  meMinter :: address
  meTo :: address
  meAmount :: int
  meTimestamp :: u64

record BurnEvent =
  buBlockNumber :: u64
  buTxHash :: hash
  buBurner :: address
  buAmount :: int
  buTimestamp :: u64
  buWithdrawalID :: string

record MinterConfigEvent =
  mcBlockNumber :: u64
  mcTxHash :: hash
  mcMinter :: address
  mcAllowance :: int
  mcAction :: string
  mcTimestamp :: u64

record Proposal =
  prContract :: address
  prProposalID :: int
  prProposer :: address
  prActionType :: hash
  prCallData :: bytes
  prMemberVersion :: int
  prRequiredApprovals :: u32
  prApproved :: u32
  prRejected :: u32
  prStatus :: ProposalStatus
  prCreatedAt :: u64
  prExecutedAt :: "u64 option"
  prBlockNumber :: u64
  prTxHash :: hash

record ProposalVote =
  pvContract :: address
  pvProposalID :: int
  pvVoter :: address
  pvApproval :: bool
  pvBlockNumber :: u64
  pvTxHash :: hash
  pvTimestamp :: u64

record GasTipUpdateEvent =
  gtBlockNumber :: u64
  gtTxHash :: hash
  gtOldTip :: int
  gtNewTip :: int
  gtUpdater :: address
  gtTimestamp :: u64

record BlacklistEvent =
  blBlockNumber :: u64
  blTxHash :: hash
  blAccount :: address
  blAction :: string
  blProposalID :: int
  blTimestamp :: u64

record ValidatorChangeEvent =
  vcBlockNumber :: u64
  vcTxHash :: hash
  vcValidator :: address
  vcAction :: string
  vcOldValidator :: "address option"
  vcTimestamp :: u64

record MemberChangeEvent =
  mbContract :: address
  mbBlockNumber :: u64
  mbTxHash :: hash
  mbMember :: address
  mbAction :: string
  mbOldMember :: "address option"
  mbTotalMembers :: u64
  mbNewQuorum :: u32
  mbTimestamp :: u64

record EmergencyPauseEvent =
  epContract :: address
  epBlockNumber :: u64
  epTxHash :: hash
  epProposalID :: int
  epAction :: string
  epTimestamp :: u64

record DepositMintProposal =
  dmProposalID :: int
  dmRequester :: address
  dmBeneficiary :: address
  dmAmount :: int
  dmDepositID :: string
  dmBankReference :: string
  dmStatus :: ProposalStatus
  dmBlockNumber :: u64
  dmTxHash :: hash
  dmTimestamp :: u64

record MaxProposalsUpdateEvent =
  mpContract :: address
  mpBlockNumber :: u64
  mpTxHash :: hash
  mpOldMax :: u64
  mpNewMax :: u64
  mpTimestamp :: u64

record ProposalExecutionSkippedEvent =
  psContract :: address
  psBlockNumber :: u64
  psTxHash :: hash
  psAccount :: address
  psProposalID :: int
  psReason :: string
  psTimestamp :: u64

record AuthorizedAccountEvent =
  aaContract :: address
  aaBlockNumber :: u64
  aaTxHash :: hash
  aaAccount :: address
  aaProposalID :: int
  aaAction :: string
  aaTimestamp :: u64

section \<open>The binary formats\<close>

definition EncodeUint32 :: "u32 \<Rightarrow> bytes" where
  "EncodeUint32 n = fixedDigits byteChar 256 4 (unat n)"

text \<open>The length of a variable field as eight bytes, then the field.\<close>

definition lenBytes :: "bytes \<Rightarrow> bytes" where
  "lenBytes x = EncodeUint64 (word_of_nat (length x)) @ x"

text \<open>A byte for the presence of a field, then the field.\<close>

definition optBytes :: "('a \<Rightarrow> bytes) \<Rightarrow> 'a option \<Rightarrow> bytes" where
  "optBytes f x = (case x of None \<Rightarrow> [byteChar 0] | Some y \<Rightarrow> byteChar 1 # f y)"

definition EncodeProposal :: "geth \<Rightarrow> Proposal \<Rightarrow> bytes" where
  "EncodeProposal G p =
     EncodeUint64 (prBlockNumber p) @ hashBytes (prTxHash p) @ addrBytes G (prContract p) @
     lenBytes (bigBytes (nat \<bar>prProposalID p\<bar>)) @ addrBytes G (prProposer p) @ hashBytes (prActionType p) @
     lenBytes (prCallData p) @ lenBytes (bigBytes (nat \<bar>prMemberVersion p\<bar>)) @
     EncodeUint32 (prRequiredApprovals p) @ EncodeUint32 (prApproved p) @ EncodeUint32 (prRejected p) @
     [byteChar (unat (prStatus p))] @ EncodeUint64 (prCreatedAt p) @ optBytes EncodeUint64 (prExecutedAt p)"

definition EncodeValidatorChangeEvent :: "geth \<Rightarrow> ValidatorChangeEvent \<Rightarrow> bytes" where
  "EncodeValidatorChangeEvent G e =
     EncodeUint64 (vcBlockNumber e) @ hashBytes (vcTxHash e) @ addrBytes G (vcValidator e) @ lenBytes (vcAction e) @
     optBytes (addrBytes G) (vcOldValidator e) @ EncodeUint64 (vcTimestamp e)"

definition EncodeMemberChangeEvent :: "geth \<Rightarrow> MemberChangeEvent \<Rightarrow> bytes" where
  "EncodeMemberChangeEvent G e =
     addrBytes G (mbContract e) @ EncodeUint64 (mbBlockNumber e) @ hashBytes (mbTxHash e) @ addrBytes G (mbMember e) @
     lenBytes (mbAction e) @ optBytes (addrBytes G) (mbOldMember e) @ EncodeUint64 (mbTotalMembers e) @
     EncodeUint32 (mbNewQuorum e) @ EncodeUint64 (mbTimestamp e)"

text \<open>
  Reading: a reader takes the data and the offset and gives the value and the next offset. A slice or an
  index behind the end is a panic; some fields are checked before.
\<close>

type_synonym 'a reader = "bytes \<Rightarrow> nat \<Rightarrow> serror + 'a \<times> nat"

definition rdThen :: "'a reader \<Rightarrow> ('a \<Rightarrow> 'b reader) \<Rightarrow> 'b reader" where
  "rdThen p f = (\<lambda>data off. case p data off of Inl e \<Rightarrow> Inl e | Inr (x, off') \<Rightarrow> f x data off')"

definition rdRet :: "'a \<Rightarrow> 'a reader" where
  "rdRet x = (\<lambda>data off. Inr (x, off))"

definition rdFix :: "nat \<Rightarrow> (bytes \<Rightarrow> 'a) \<Rightarrow> 'a reader" where
  "rdFix n f = (\<lambda>data off.
     if off + n \<le> length data then Inr (f (take n (drop off data)), off + n) else Inl (Panic ''slice bounds out of range''))"

definition rdCheck :: "string \<Rightarrow> nat \<Rightarrow> 'a reader \<Rightarrow> 'a reader" where
  "rdCheck msg n p = (\<lambda>data off. if off + n > length data then Inl (Errorf msg) else p data off)"

definition be32 :: "bytes \<Rightarrow> u32" where
  "be32 v = word_of_nat (readDigits byteVal 256 0 v)"

definition rdByte :: "nat reader" where
  "rdByte = rdFix 1 (\<lambda>b. byteVal (hd b))"

definition rdField :: "string \<Rightarrow> u64 \<Rightarrow> bytes reader" where
  "rdField msg n = (\<lambda>data off. case readVar msg off n data of Inl e \<Rightarrow> Inl e | Inr b \<Rightarrow> Inr (b, off + length b))"

text \<open>The length first; a field of length zero is not looked for.\<close>

definition rdLen :: "string \<Rightarrow> bytes reader" where
  "rdLen msg = rdThen (rdFix 8 be64) (\<lambda>n. if n > 0 then rdField msg n else rdRet [])"

definition rdOpt :: "string \<Rightarrow> nat \<Rightarrow> (bytes \<Rightarrow> 'a) \<Rightarrow> 'a option reader" where
  "rdOpt msg n f = rdThen rdByte (\<lambda>b. if b = 1 then rdCheck msg n (rdFix n (Some \<circ> f)) else rdRet None)"

definition runReader :: "nat \<Rightarrow> 'a reader \<Rightarrow> bytes \<Rightarrow> serror + 'a" where
  "runReader n p data = (if length data < n then Inl (Errorf ''data too short'') else map_sum id fst (p data 0))"

definition proposalReader :: "geth \<Rightarrow> Proposal reader" where
  "proposalReader G =
      rdThen (rdFix 8 be64) (\<lambda>blockNumber. rdThen (rdFix 32 copyToHash) (\<lambda>txHash.
      rdThen (rdFix 20 (bytesToAddr G)) (\<lambda>contract. rdThen (rdLen ''invalid proposalID length'') (\<lambda>pid.
      rdThen (rdFix 20 (bytesToAddr G)) (\<lambda>proposer. rdThen (rdFix 32 copyToHash) (\<lambda>actionType.
      rdThen (rdLen ''invalid callData length'') (\<lambda>callData. rdThen (rdLen ''invalid memberVersion length'') (\<lambda>version.
      rdThen (rdFix 4 be32) (\<lambda>required. rdThen (rdFix 4 be32) (\<lambda>approved. rdThen (rdFix 4 be32) (\<lambda>rejected.
      rdThen rdByte (\<lambda>status. rdThen (rdFix 8 be64) (\<lambda>createdAt.
      rdThen (rdOpt ''data too short for executedAt'' 8 be64) (\<lambda>executedAt.
      rdRet \<lparr>prContract = contract, prProposalID = DecodeBigInt pid, prProposer = proposer, prActionType = actionType,
        prCallData = callData, prMemberVersion = DecodeBigInt version, prRequiredApprovals = required, prApproved = approved,
        prRejected = rejected, prStatus = word_of_nat status, prCreatedAt = createdAt, prExecutedAt = executedAt,
        prBlockNumber = blockNumber, prTxHash = txHash\<rparr>))))))))))))))"

definition DecodeProposal :: "geth \<Rightarrow> bytes \<Rightarrow> serror + Proposal" where
  "DecodeProposal G = runReader (8+32+20+8+20+32+8+8+4+4+4+1+8+1) (proposalReader G)"

definition validatorReader :: "geth \<Rightarrow> ValidatorChangeEvent reader" where
  "validatorReader G =
      rdThen (rdFix 8 be64) (\<lambda>blockNumber. rdThen (rdFix 32 copyToHash) (\<lambda>txHash.
      rdThen (rdFix 20 (bytesToAddr G)) (\<lambda>validator. rdThen (rdThen (rdFix 8 be64) (rdField ''invalid action length'')) (\<lambda>action.
      rdThen (rdOpt ''data too short for oldValidator'' 20 (bytesToAddr G)) (\<lambda>old.
      rdThen (rdCheck ''data too short for timestamp'' 8 (rdFix 8 be64)) (\<lambda>timestamp.
      rdRet \<lparr>vcBlockNumber = blockNumber, vcTxHash = txHash, vcValidator = validator, vcAction = action,
        vcOldValidator = old, vcTimestamp = timestamp\<rparr>))))))"

definition DecodeValidatorChangeEvent :: "geth \<Rightarrow> bytes \<Rightarrow> serror + ValidatorChangeEvent" where
  "DecodeValidatorChangeEvent G = runReader (8+32+20+8+1+8) (validatorReader G)"

definition memberReader :: "geth \<Rightarrow> MemberChangeEvent reader" where
  "memberReader G =
      rdThen (rdFix 20 (bytesToAddr G)) (\<lambda>contract. rdThen (rdFix 8 be64) (\<lambda>blockNumber. rdThen (rdFix 32 copyToHash) (\<lambda>txHash.
      rdThen (rdFix 20 (bytesToAddr G)) (\<lambda>member. rdThen (rdThen (rdFix 8 be64) (rdField ''invalid action length'')) (\<lambda>action.
      rdThen (rdOpt ''data too short for oldMember'' 20 (bytesToAddr G)) (\<lambda>old.
      rdThen (rdCheck ''data too short for totalMembers'' 8 (rdFix 8 be64)) (\<lambda>total.
      rdThen (rdCheck ''data too short for newQuorum'' 4 (rdFix 4 be32)) (\<lambda>quorum.
      rdThen (rdCheck ''data too short for timestamp'' 8 (rdFix 8 be64)) (\<lambda>timestamp.
      rdRet \<lparr>mbContract = contract, mbBlockNumber = blockNumber, mbTxHash = txHash, mbMember = member, mbAction = action,
        mbOldMember = old, mbTotalMembers = total, mbNewQuorum = quorum, mbTimestamp = timestamp\<rparr>)))))))))"

definition DecodeMemberChangeEvent :: "geth \<Rightarrow> bytes \<Rightarrow> serror + MemberChangeEvent" where
  "DecodeMemberChangeEvent G = runReader (20+8+32+20+8+1+8+4+8) (memberReader G)"

section \<open>Reading back\<close>

text \<open>\<open>readsBack p b x\<close>: wherever the bytes \<open>b\<close> stand in the data, the reader takes them and gives \<open>x\<close>.\<close>

definition readsBack :: "'a reader \<Rightarrow> bytes \<Rightarrow> 'a \<Rightarrow> bool" where
  "readsBack p b x \<longleftrightarrow> (\<forall>a c. length a + length b < 2 ^ 62 \<longrightarrow> p (a @ b @ c) (length a) = Inr (x, length a + length b))"

lemma readsBack_ret: "readsBack (rdRet x) [] x"
  by (simp add: readsBack_def rdRet_def)

lemma readsBack_then:
  assumes "readsBack p b x" "readsBack (f x) b' y"
  shows "readsBack (rdThen p f) (b @ b') y"
  unfolding readsBack_def
proof (intro allI impI)
  fix a c :: bytes assume l: "length a + length (b @ b') < 2 ^ 62"
  have "p (a @ b @ b' @ c) (length a) = Inr (x, length a + length b)"
    using assms(1) l by (simp add: readsBack_def)
  moreover have "f x ((a @ b) @ b' @ c) (length (a @ b)) = Inr (y, length (a @ b) + length b')"
    using assms(2) l unfolding readsBack_def by (metis length_append add.assoc)
  ultimately show "rdThen p f (a @ (b @ b') @ c) (length a) = Inr (y, length a + length (b @ b'))"
    by (simp add: rdThen_def add.assoc)
qed

lemma readsBack_fix: "length b = n \<Longrightarrow> f b = x \<Longrightarrow> readsBack (rdFix n f) b x"
  by (simp add: readsBack_def rdFix_def)

lemma readsBack_check: "n \<le> length b \<Longrightarrow> readsBack p b x \<Longrightarrow> readsBack (rdCheck msg n p) b x"
  by (simp add: readsBack_def rdCheck_def)

lemma readsBack_field: "readsBack (rdField msg (word_of_nat (length b))) b b"
  unfolding readsBack_def rdField_def using readVar_app by auto

lemma readsBack_len: "readsBack (rdLen msg) (lenBytes b) b" if "length b < 2 ^ 62"
proof -
  have "word_of_nat (length b) > (0 :: u64)" if "b \<noteq> []"
    using that \<open>length b < 2 ^ 62\<close> by (simp add: word_of_nat_less_iff word_less_nat_alt unat_of_nat_u64)
  then have "readsBack (if word_of_nat (length b) > (0 :: u64) then rdField msg (word_of_nat (length b)) else rdRet []) b b"
    using readsBack_field [of msg b] readsBack_ret by (cases "b = []") auto
  then show ?thesis unfolding rdLen_def lenBytes_def by (rule readsBack_then [rotated]) (simp add: readsBack_fix)
qed

lemma readsBack_lenField: "readsBack (rdThen (rdFix 8 be64) (rdField msg)) (lenBytes b) b"
  unfolding lenBytes_def
  by (rule readsBack_then [where x = "word_of_nat (length b)"]) (simp_all add: readsBack_fix readsBack_field)

lemma readsBack_byte: "n < 256 \<Longrightarrow> readsBack rdByte [byteChar n] n"
  unfolding rdByte_def by (rule readsBack_fix) simp_all

lemma readsBack_opt:
  assumes "\<And>y. length (enc y) = n" "\<And>y. f (enc y) = y"
  shows "readsBack (rdOpt msg n f) (optBytes enc x) x"
proof (cases x)
  case None
  have "readsBack (rdOpt msg n f) ([byteChar 0] @ []) None"
    unfolding rdOpt_def by (rule readsBack_then [OF readsBack_byte]) (simp_all add: readsBack_ret)
  with None show ?thesis by (simp add: optBytes_def)
next
  case (Some y)
  have "readsBack (rdCheck msg n (rdFix n (Some \<circ> f))) (enc y) (Some y)"
    using assms by (intro readsBack_check readsBack_fix) simp_all
  then have "readsBack (rdOpt msg n f) ([byteChar 1] @ enc y) (Some y)"
    unfolding rdOpt_def by (intro readsBack_then [OF readsBack_byte [of 1]]) simp_all
  with Some show ?thesis by (simp add: optBytes_def)
qed

lemma readsBack_run:
  assumes "readsBack p b x" "n \<le> length b" "length b < 2 ^ 62"
  shows "runReader n p b = Inr x"
  using assms(1)[unfolded readsBack_def, rule_format, of "[]" "[]"] assms(2,3) by (simp add: runReader_def)

lemma length_EncodeUint32 [simp]: "length (EncodeUint32 w) = 4"
  by (simp add: EncodeUint32_def)

lemma be32_EncodeUint32 [simp]: "be32 (EncodeUint32 w) = w"
proof -
  have "unat w < 256 ^ 4" using unsigned_less [of w, where ?'a = nat] by simp
  then show ?thesis by (simp add: be32_def EncodeUint32_def readDigits_fixedDigits)
qed

lemma length_lenBytes [simp]: "length (lenBytes b) = 8 + length b"
  by (simp add: lenBytes_def)

lemma length_hashBytes: "length (hashBytes h) = 32"
  by (simp add: hashBytes_def)

lemma readsBack_end: "readsBack p b x \<Longrightarrow> readsBack (rdThen p (\<lambda>x. rdRet (f x))) b (f x)"
  using readsBack_then [of p b x "\<lambda>x. rdRet (f x)" "[]" "f x"] by (simp add: readsBack_ret)

named_theorems reads_back \<open>how a field is read back\<close>

lemma readsBack_byteThen: "n < 256 \<Longrightarrow> readsBack (f n) b y \<Longrightarrow> readsBack (rdThen rdByte f) (byteChar n # b) y"
  using readsBack_then [OF readsBack_byte, of n f b y] by simp

lemmas [reads_back] = readsBack_byteThen readsBack_check readsBack_fix readsBack_then readsBack_end readsBack_len readsBack_lenField readsBack_byte
  readsBack_opt readsBack_ret

lemma unat_byte: "unat (w :: 8 word) < 256"
  using unsigned_less [of w, where ?'a = nat] by simp

lemma DecodeBigInt_bigBytes: "0 \<le> i \<Longrightarrow> DecodeBigInt (bigBytes (nat \<bar>i\<bar>)) = i"
  using SetBytes_bigBytes [of "nat i"] by (auto simp: DecodeBigInt_def)

context geth_codec begin

lemma addr_fix [reads_back]: "readsBack (rdFix 20 (bytesToAddr G)) (addrBytes G a) a"
  by (rule readsBack_fix) (simp_all add: addrBytes_len bytesToAddr)

lemma hash_fix [reads_back]: "readsBack (rdFix 32 copyToHash) (hashBytes h) h"
  by (rule readsBack_fix) (simp_all add: length_hashBytes)

lemma u64_fix [reads_back]: "readsBack (rdFix 8 be64) (EncodeUint64 w) w"
  by (rule readsBack_fix) simp_all

lemma u32_fix [reads_back]: "readsBack (rdFix 4 be32) (EncodeUint32 w) w"
  by (rule readsBack_fix) simp_all

lemma opt_addr [reads_back]: "readsBack (rdOpt msg 20 (bytesToAddr G)) (optBytes (addrBytes G) a) a"
  by (rule readsBack_opt) (simp_all add: addrBytes_len bytesToAddr)

lemma opt_u64 [reads_back]: "readsBack (rdOpt msg 8 be64) (optBytes EncodeUint64 a) a"
  by (rule readsBack_opt) simp_all

lemma proposalReader_reads:
  assumes "length (bigBytes (nat \<bar>prProposalID p\<bar>)) < 2 ^ 60" "length (bigBytes (nat \<bar>prMemberVersion p\<bar>)) < 2 ^ 60"
    "length (prCallData p) < 2 ^ 60"
  shows "readsBack (proposalReader G) (EncodeProposal G p)
    (p\<lparr>prProposalID := DecodeBigInt (bigBytes (nat \<bar>prProposalID p\<bar>)),
       prMemberVersion := DecodeBigInt (bigBytes (nat \<bar>prMemberVersion p\<bar>))\<rparr>)"
proof (cases p)
  case (fields contract pid proposer act dat ver req app rej st created executed bn tx)
  then show ?thesis using assms
    unfolding proposalReader_def EncodeProposal_def by (auto intro!: reads_back simp: unat_byte bytesToAddr addrBytes_len length_hashBytes)
qed

lemma length_optBytes: "(\<And>y. length (enc y) = n) \<Longrightarrow> length (optBytes enc x) = (if x = None then 1 else 1 + n)"
  by (cases x) (simp_all add: optBytes_def)

lemmas length_opts = length_optBytes [of "addrBytes G" 20, OF addrBytes_len]
  length_optBytes [of EncodeUint64 8, OF length_EncodeUint64]

lemma proposal_reads:
  assumes "0 \<le> prProposalID p" "length (bigBytes (nat \<bar>prProposalID p\<bar>)) < 2 ^ 60"
    "0 \<le> prMemberVersion p" "length (bigBytes (nat \<bar>prMemberVersion p\<bar>)) < 2 ^ 60" "length (prCallData p) < 2 ^ 60"
  shows "DecodeProposal G (EncodeProposal G p) = Inr p"
proof -
  have "DecodeProposal G (EncodeProposal G p) =
      Inr (p\<lparr>prProposalID := DecodeBigInt (bigBytes (nat \<bar>prProposalID p\<bar>)),
       prMemberVersion := DecodeBigInt (bigBytes (nat \<bar>prMemberVersion p\<bar>))\<rparr>)"
    unfolding DecodeProposal_def
    by (rule readsBack_run [OF proposalReader_reads])
      (use assms in \<open>simp_all add: EncodeProposal_def addrBytes_len length_hashBytes length_opts\<close>)
  then show ?thesis unfolding DecodeBigInt_bigBytes [OF assms(1)] DecodeBigInt_bigBytes [OF assms(3)] by simp
qed

lemma validator_reads:
  assumes "length (vcAction e) < 2 ^ 60"
  shows "DecodeValidatorChangeEvent G (EncodeValidatorChangeEvent G e) = Inr e"
  unfolding DecodeValidatorChangeEvent_def
proof (rule readsBack_run)
  show "readsBack (validatorReader G) (EncodeValidatorChangeEvent G e) e"
  proof (cases e)
    case (fields bn tx val act old ts)
    then show ?thesis unfolding validatorReader_def EncodeValidatorChangeEvent_def
      by (auto intro!: reads_back simp: bytesToAddr addrBytes_len length_hashBytes)
  qed
qed (use assms in \<open>simp_all add: EncodeValidatorChangeEvent_def addrBytes_len length_hashBytes length_opts\<close>)

lemma member_reads:
  assumes "length (mbAction e) < 2 ^ 60"
  shows "DecodeMemberChangeEvent G (EncodeMemberChangeEvent G e) = Inr e"
  unfolding DecodeMemberChangeEvent_def
proof (rule readsBack_run)
  show "readsBack (memberReader G) (EncodeMemberChangeEvent G e) e"
  proof (cases e)
    case (fields contract bn tx mem act old total quorum ts)
    then show ?thesis unfolding memberReader_def EncodeMemberChangeEvent_def
      by (auto intro!: reads_back simp: bytesToAddr addrBytes_len length_hashBytes)
  qed
qed (use assms in \<open>simp_all add: EncodeMemberChangeEvent_def addrBytes_len length_hashBytes length_opts\<close>)

end

definition sampleProposal :: Proposal where
  "sampleProposal = \<lparr>prContract = 0x1003, prProposalID = 300, prProposer = 5, prActionType = 9, prCallData = ''call'',
     prMemberVersion = 1, prRequiredApprovals = 2, prApproved = 1, prRejected = 0, prStatus = ProposalStatusVoting,
     prCreatedAt = 1000, prExecutedAt = None, prBlockNumber = 7, prTxHash = 21\<rparr>"

definition goodProposal :: "Proposal \<Rightarrow> bool" where
  "goodProposal p \<longleftrightarrow> 0 \<le> prProposalID p \<and> length (bigBytes (nat (prProposalID p))) < 2 ^ 60 \<and>
     0 \<le> prMemberVersion p \<and> length (bigBytes (nat (prMemberVersion p))) < 2 ^ 60 \<and> length (prCallData p) < 2 ^ 60"

lemma goodProposal_sample: "goodProposal sampleProposal"
  using length_bigBytes_le [of 300] length_bigBytes_le [of 1]
  by (simp add: goodProposal_def sampleProposal_def)

lemma proposal_decodes: "geth_codec G \<Longrightarrow> goodProposal p \<Longrightarrow> DecodeProposal G (EncodeProposal G p) = Inr p"
  using geth_codec.proposal_reads [of G p] by (simp add: goodProposal_def)

text \<open>
  C19: the three binary formats are read back: a proposal with identifiers that are not negative, a change of a
  validator, a change of a member, each whatever its variable fields, come back as they were.
\<close>

theorem system_records_roundtrip:
  assumes "geth_codec G" "goodProposal p" "length (vcAction v) < 2 ^ 60" "length (mbAction m) < 2 ^ 60"
  shows "DecodeProposal G (EncodeProposal G p) = Inr p \<and>
    DecodeValidatorChangeEvent G (EncodeValidatorChangeEvent G v) = Inr v \<and>
    DecodeMemberChangeEvent G (EncodeMemberChangeEvent G m) = Inr m"
  using proposal_decodes [OF assms(1,2)] geth_codec.validator_reads [OF assms(1,3)] geth_codec.member_reads [OF assms(1,4)]
  by blast

theorem system_records_roundtrip_witness:
  "let v = \<lparr>vcBlockNumber = 7, vcTxHash = 21, vcValidator = 5, vcAction = ''changed'', vcOldValidator = Some 6,
       vcTimestamp = 1000\<rparr>;
     m = \<lparr>mbContract = 0x1001, mbBlockNumber = 7, mbTxHash = 21, mbMember = 5, mbAction = ''added'', mbOldMember = None,
       mbTotalMembers = 4, mbNewQuorum = 3, mbTimestamp = 1000\<rparr>
   in DecodeProposal sampleGeth (EncodeProposal sampleGeth sampleProposal) = Inr sampleProposal \<and>
     DecodeValidatorChangeEvent sampleGeth (EncodeValidatorChangeEvent sampleGeth v) = Inr v \<and>
     DecodeMemberChangeEvent sampleGeth (EncodeMemberChangeEvent sampleGeth m) = Inr m"
  unfolding Let_def by (rule system_records_roundtrip [OF geth_codec_sample goodProposal_sample]) simp_all

end
