(* ===== verification/SysContracts.thy ===== *)
theory SysContracts
  imports SysCodec
begin

text \<open>
  The tables of the system contracts (\<^verbatim>\<open>pkg/storage/pebble_system_contracts_impl.go\<close>): the events
  of minting, burning and governance, the proposals with their index by status, the votes, and the current
  state: total supply, active minters and validators, blacklist. Events and identifiers are taken as
  not nil. go-ethereum's RLP and \<^verbatim>\<open>encoding/json\<close> are the parameter \<open>sysCodec\<close>.
\<close>

record sysCodec =
  rlpMint :: "MintEvent \<Rightarrow> bytes option"
  rlpBurn :: "BurnEvent \<Rightarrow> bytes option"
  rlpMinterConfig :: "MinterConfigEvent \<Rightarrow> bytes option"
  rlpVote :: "ProposalVote \<Rightarrow> bytes option"
  unrlpVote :: "bytes \<Rightarrow> ProposalVote option"
  rlpGasTip :: "GasTipUpdateEvent \<Rightarrow> bytes option"
  rlpBlacklist :: "BlacklistEvent \<Rightarrow> bytes option"
  rlpEmergency :: "EmergencyPauseEvent \<Rightarrow> bytes option"
  rlpDeposit :: "DepositMintProposal \<Rightarrow> bytes option"
  unjsonMint :: "bytes \<Rightarrow> MintEvent option"
  unjsonBurn :: "bytes \<Rightarrow> BurnEvent option"
  unjsonMinterConfig :: "bytes \<Rightarrow> MinterConfigEvent option"
  unjsonGasTip :: "bytes \<Rightarrow> GasTipUpdateEvent option"
  unjsonBlacklist :: "bytes \<Rightarrow> BlacklistEvent option"
  unjsonValidator :: "bytes \<Rightarrow> ValidatorChangeEvent option"
  unjsonMember :: "bytes \<Rightarrow> MemberChangeEvent option"
  unjsonEmergency :: "bytes \<Rightarrow> EmergencyPauseEvent option"
  unjsonDeposit :: "bytes \<Rightarrow> DepositMintProposal option"
  jsonMaxProposals :: "MaxProposalsUpdateEvent \<Rightarrow> bytes option"
  unjsonMaxProposals :: "bytes \<Rightarrow> MaxProposalsUpdateEvent option"
  jsonSkipped :: "ProposalExecutionSkippedEvent \<Rightarrow> bytes option"
  unjsonSkipped :: "bytes \<Rightarrow> ProposalExecutionSkippedEvent option"
  jsonAuthorized :: "AuthorizedAccountEvent \<Rightarrow> bytes option"
  unjsonAuthorized :: "bytes \<Rightarrow> AuthorizedAccountEvent option"

text \<open>
  What is relied on: RLP of a struct is a list, whose first byte is at least 192; a JSON text starts with
  white space or a printable ASCII character; votes and the three JSON records are read back.
\<close>

definition rlpText :: "bytes \<Rightarrow> bool" where
  "rlpText b \<longleftrightarrow> b \<noteq> [] \<and> 192 \<le> byteVal (hd b)"

definition jsonText :: "bytes \<Rightarrow> bool" where
  "jsonText b \<longleftrightarrow> b \<noteq> [] \<and> 9 \<le> byteVal (hd b) \<and> byteVal (hd b) < 128"

locale sys_codec =
  fixes C :: sysCodec
  assumes rlp_mint: "rlpMint C e1 = Some b \<Longrightarrow> rlpText b"
    and rlp_burn: "rlpBurn C e2 = Some b \<Longrightarrow> rlpText b"
    and rlp_minterConfig: "rlpMinterConfig C e3 = Some b \<Longrightarrow> rlpText b"
    and rlp_gasTip: "rlpGasTip C e4 = Some b \<Longrightarrow> rlpText b"
    and rlp_blacklist: "rlpBlacklist C e5 = Some b \<Longrightarrow> rlpText b"
    and rlp_emergency: "rlpEmergency C e6 = Some b \<Longrightarrow> rlpText b"
    and rlp_deposit: "rlpDeposit C e7 = Some b \<Longrightarrow> rlpText b"
    and rlp_vote: "rlpVote C v = Some b \<Longrightarrow> rlpText b \<and> unrlpVote C b = Some v"
    and json_mint: "unjsonMint C b = Some e1 \<Longrightarrow> jsonText b"
    and json_burn: "unjsonBurn C b = Some e2 \<Longrightarrow> jsonText b"
    and json_minterConfig: "unjsonMinterConfig C b = Some e3 \<Longrightarrow> jsonText b"
    and json_gasTip: "unjsonGasTip C b = Some e4 \<Longrightarrow> jsonText b"
    and json_blacklist: "unjsonBlacklist C b = Some e5 \<Longrightarrow> jsonText b"
    and json_emergency: "unjsonEmergency C b = Some e6 \<Longrightarrow> jsonText b"
    and json_deposit: "unjsonDeposit C b = Some e7 \<Longrightarrow> jsonText b"
    and json_validator: "unjsonValidator C b = Some e8 \<Longrightarrow> jsonText b"
    and json_member: "unjsonMember C b = Some e9 \<Longrightarrow> jsonText b"
    and json_max: "jsonMaxProposals C m = Some b \<Longrightarrow> unjsonMaxProposals C b = Some m"
    and json_skipped: "jsonSkipped C k = Some b \<Longrightarrow> unjsonSkipped C b = Some k"
    and json_authorized: "jsonAuthorized C a = Some b \<Longrightarrow> unjsonAuthorized C b = Some a"

text \<open>An instance: RLP writes one marker byte, and the vote and the authorized accounts of a list are known.\<close>

definition jsonName :: "nat \<Rightarrow> bytes" where
  "jsonName i = CHR ''{'' # showDec i"

definition refSys :: "ProposalVote \<Rightarrow> AuthorizedAccountEvent list \<Rightarrow> sysCodec" where
  "refSys v es =
     \<lparr>rlpMint = (\<lambda>_. Some [byteChar 249]), rlpBurn = (\<lambda>_. Some [byteChar 249]), rlpMinterConfig = (\<lambda>_. Some [byteChar 249]),
      rlpVote = (\<lambda>x. if x = v then Some [byteChar 249] else None), unrlpVote = (\<lambda>_. Some v),
      rlpGasTip = (\<lambda>_. Some [byteChar 249]), rlpBlacklist = (\<lambda>_. Some [byteChar 249]),
      rlpEmergency = (\<lambda>_. Some [byteChar 249]), rlpDeposit = (\<lambda>_. Some [byteChar 249]),
      unjsonMint = (\<lambda>_. None), unjsonBurn = (\<lambda>_. None), unjsonMinterConfig = (\<lambda>_. None), unjsonGasTip = (\<lambda>_. None),
      unjsonBlacklist = (\<lambda>_. None), unjsonValidator = (\<lambda>_. None), unjsonMember = (\<lambda>_. None),
      unjsonEmergency = (\<lambda>_. None), unjsonDeposit = (\<lambda>_. None),
      jsonMaxProposals = (\<lambda>_. None), unjsonMaxProposals = (\<lambda>_. None), jsonSkipped = (\<lambda>_. None), unjsonSkipped = (\<lambda>_. None),
      jsonAuthorized = map_of (zip es (map jsonName [0..<length es])),
      unjsonAuthorized = map_of (zip (map jsonName [0..<length es]) es)\<rparr>"

lemma refSys_authorized:
  assumes "map_of (zip es (map jsonName [0..<length es])) a = Some b"
  shows "map_of (zip (map jsonName [0..<length es]) es) b = Some a"
proof -
  have "(a, b) \<in> set (zip es (map jsonName [0..<length es]))" using assms by (rule map_of_SomeD)
  then obtain i where i: "i < length es" "a = es ! i" "b = map jsonName [0..<length es] ! i"
    by (auto simp: set_zip)
  have "distinct (map jsonName [0..<length es])" by (auto simp: distinct_map inj_on_def jsonName_def)
  then show ?thesis using map_of_zip_nth [of "map jsonName [0..<length es]" es i] i by simp
qed

interpretation refSys: sys_codec "refSys v es"
  by unfold_locales (auto simp: refSys_def rlpText_def refSys_authorized split: if_splits)

section \<open>Storing\<close>

text \<open>An error is wrapped; a panic goes through.\<close>

definition wrapErr :: "string \<Rightarrow> serror \<Rightarrow> serror" where
  "wrapErr msg e = (case e of Panic m \<Rightarrow> Panic m | _ \<Rightarrow> Wrap msg e)"

text \<open>
  An event is stored under a key; the transaction and log index in the keys are always 0. The RLP encoders
  wrap an error of the library, and their callers wrap it once more.
\<close>

definition rlpOr :: "string \<Rightarrow> bytes option \<Rightarrow> serror + bytes" where
  "rlpOr msg r = (case r of None \<Rightarrow> Inl (Wrap msg (Wrap msg (Errorf ''rlp''))) | Some b \<Rightarrow> Inr b)"

definition jsonOr :: "string \<Rightarrow> bytes option \<Rightarrow> serror + bytes" where
  "jsonOr msg r = (case r of None \<Rightarrow> Inl (Wrap msg (Errorf ''json'')) | Some b \<Rightarrow> Inr b)"

definition setEncoded :: "'db pebble \<Rightarrow> string \<Rightarrow> bytes \<Rightarrow> serror + bytes \<Rightarrow> ('db storage, unit) op" where
  "setEncoded P msg key r = (case r of Inl e \<Rightarrow> throw e | Inr data \<Rightarrow> wrapping msg (dbSet P key data))"

definition StoreMintEvent :: "'db pebble \<Rightarrow> sysCodec \<Rightarrow> MintEvent \<Rightarrow> ('db storage, unit) op" where
  "StoreMintEvent P C event = writable (setEncoded P ''failed to store mint event''
     (MintEventKey (meBlockNumber event) 0 0) (rlpOr ''failed to encode mint event'' (rlpMint C event)))"

definition StoreBurnEvent :: "'db pebble \<Rightarrow> sysCodec \<Rightarrow> BurnEvent \<Rightarrow> ('db storage, unit) op" where
  "StoreBurnEvent P C event = writable (setEncoded P ''failed to store burn event''
     (BurnEventKey (buBlockNumber event) 0 0) (rlpOr ''failed to encode burn event'' (rlpBurn C event)))"

definition StoreMinterConfigEvent :: "'db pebble \<Rightarrow> geth \<Rightarrow> sysCodec \<Rightarrow> MinterConfigEvent \<Rightarrow> ('db storage, unit) op" where
  "StoreMinterConfigEvent P G C event = writable (setEncoded P ''failed to store minter config event''
     (MinterConfigEventKey G (mcMinter event) (mcBlockNumber event))
     (rlpOr ''failed to encode minter config event'' (rlpMinterConfig C event)))"

definition StoreProposal :: "'db pebble \<Rightarrow> geth \<Rightarrow> Proposal \<Rightarrow> ('db storage, unit) op" where
  "StoreProposal P G proposal = writable (andThen
     (wrapping ''failed to store proposal''
       (dbSet P (ProposalKey G (prContract proposal) (showInt (prProposalID proposal))) (EncodeProposal G proposal)))
     (\<lambda>_. wrapping ''failed to store proposal status index''
       (dbSet P (ProposalStatusIndexKey G (prContract proposal) (prStatus proposal) (showInt (prProposalID proposal)))
         [byteChar 1])))"

definition UpdateProposalStatus :: "'db pebble \<Rightarrow> geth \<Rightarrow> address \<Rightarrow> int \<Rightarrow> ProposalStatus \<Rightarrow> u64 \<Rightarrow>
    ('db storage, unit) op" where
  "UpdateProposalStatus P G contract proposalID status executedAt = writable
     (let key = ProposalKey G contract (showInt proposalID) in
      andThen (wrapping ''failed to get proposal'' (dbGet P key)) (\<lambda>data.
      case DecodeProposal G data of
        Inl e \<Rightarrow> throw (wrapErr ''failed to decode proposal'' e)
      | Inr proposal \<Rightarrow>
          andThen (wrapping ''failed to delete old status index''
            (dbDelete P (ProposalStatusIndexKey G contract (prStatus proposal) (showInt proposalID)))) (\<lambda>_.
          let proposal = proposal\<lparr>prStatus := status\<rparr>;
              proposal = (if executedAt > 0 then proposal\<lparr>prExecutedAt := Some executedAt\<rparr> else proposal)
          in andThen (wrapping ''failed to store updated proposal'' (dbSet P key (EncodeProposal G proposal))) (\<lambda>_.
          wrapping ''failed to store new status index''
            (dbSet P (ProposalStatusIndexKey G contract status (showInt proposalID)) [byteChar 1])))))"

definition StoreProposalVote :: "'db pebble \<Rightarrow> geth \<Rightarrow> sysCodec \<Rightarrow> ProposalVote \<Rightarrow> ('db storage, unit) op" where
  "StoreProposalVote P G C vote = writable (setEncoded P ''failed to store vote''
     (ProposalVoteKey G (pvContract vote) (showInt (pvProposalID vote)) (pvVoter vote))
     (case rlpVote C vote of
        None \<Rightarrow> Inl (Wrap ''failed to encode vote'' (Wrap ''failed to encode proposal vote'' (Errorf ''rlp'')))
      | Some b \<Rightarrow> Inr b))"

definition StoreGasTipUpdateEvent :: "'db pebble \<Rightarrow> sysCodec \<Rightarrow> GasTipUpdateEvent \<Rightarrow> ('db storage, unit) op" where
  "StoreGasTipUpdateEvent P C event = writable (setEncoded P ''failed to store gas tip update event''
     (GasTipUpdateEventKey (gtBlockNumber event) 0)
     (rlpOr ''failed to encode gas tip update event'' (rlpGasTip C event)))"

definition StoreBlacklistEvent :: "'db pebble \<Rightarrow> geth \<Rightarrow> sysCodec \<Rightarrow> BlacklistEvent \<Rightarrow> ('db storage, unit) op" where
  "StoreBlacklistEvent P G C event = writable (setEncoded P ''failed to store blacklist event''
     (BlacklistEventKey G (blAccount event) (blBlockNumber event))
     (rlpOr ''failed to encode blacklist event'' (rlpBlacklist C event)))"

definition StoreValidatorChangeEvent :: "'db pebble \<Rightarrow> geth \<Rightarrow> ValidatorChangeEvent \<Rightarrow> ('db storage, unit) op" where
  "StoreValidatorChangeEvent P G event = writable (wrapping ''failed to store validator change event''
     (dbSet P (ValidatorChangeEventKey G (vcValidator event) (vcBlockNumber event)) (EncodeValidatorChangeEvent G event)))"

definition StoreMemberChangeEvent :: "'db pebble \<Rightarrow> geth \<Rightarrow> MemberChangeEvent \<Rightarrow> ('db storage, unit) op" where
  "StoreMemberChangeEvent P G event = writable (wrapping ''failed to store member change event''
     (dbSet P (MemberChangeEventKey G (mbContract event) (mbBlockNumber event) 0) (EncodeMemberChangeEvent G event)))"

definition StoreEmergencyPauseEvent :: "'db pebble \<Rightarrow> geth \<Rightarrow> sysCodec \<Rightarrow> EmergencyPauseEvent \<Rightarrow> ('db storage, unit) op" where
  "StoreEmergencyPauseEvent P G C event = writable (setEncoded P ''failed to store emergency pause event''
     (EmergencyPauseEventKey G (epContract event) (epBlockNumber event) 0)
     (rlpOr ''failed to encode emergency pause event'' (rlpEmergency C event)))"

definition StoreDepositMintProposal :: "'db pebble \<Rightarrow> sysCodec \<Rightarrow> DepositMintProposal \<Rightarrow> ('db storage, unit) op" where
  "StoreDepositMintProposal P C proposal = writable (setEncoded P ''failed to store deposit mint proposal''
     (DepositMintProposalKey (showInt (dmProposalID proposal)))
     (rlpOr ''failed to encode deposit mint proposal'' (rlpDeposit C proposal)))"

definition StoreMaxProposalsUpdateEvent :: "'db pebble \<Rightarrow> geth \<Rightarrow> sysCodec \<Rightarrow> MaxProposalsUpdateEvent \<Rightarrow>
    ('db storage, unit) op" where
  "StoreMaxProposalsUpdateEvent P G C event = writable (setEncoded P ''failed to store max proposals update event''
     (MaxProposalsUpdateEventKey G (mpContract event) (mpBlockNumber event) 0)
     (jsonOr ''failed to encode max proposals update event'' (jsonMaxProposals C event)))"

definition StoreProposalExecutionSkippedEvent :: "'db pebble \<Rightarrow> geth \<Rightarrow> sysCodec \<Rightarrow> ProposalExecutionSkippedEvent \<Rightarrow>
    ('db storage, unit) op" where
  "StoreProposalExecutionSkippedEvent P G C event =
     writable (setEncoded P ''failed to store proposal execution skipped event''
       (ProposalExecutionSkippedEventKey G (psContract event) (psBlockNumber event) 0)
       (jsonOr ''failed to encode proposal execution skipped event'' (jsonSkipped C event)))"

text \<open>This one is not refused in read-only mode.\<close>

definition StoreAuthorizedAccountEvent :: "'db pebble \<Rightarrow> geth \<Rightarrow> sysCodec \<Rightarrow> AuthorizedAccountEvent \<Rightarrow>
    ('db storage, unit) op" where
  "StoreAuthorizedAccountEvent P G C event = andThen ensureNotClosed (\<lambda>_.
     setEncoded P ''failed to store authorized account event''
       (AuthorizedAccountEventKey G (aaContract event) (aaBlockNumber event) 0)
       (jsonOr ''failed to marshal authorized account event'' (jsonAuthorized C event)))"

section \<open>The current state\<close>

definition UpdateTotalSupply :: "'db pebble \<Rightarrow> int \<Rightarrow> ('db storage, unit) op" where
  "UpdateTotalSupply P delta = writable
     (andThen (catch (dbGet P TotalSupplyKey)
        (\<lambda>e. if e = FromPebble PNotFound then ret (EncodeBigInt (Some 0))
             else throw (Wrap ''failed to get total supply'' e))) (\<lambda>data.
      let newSupply = DecodeBigInt data + delta in
      wrapping ''failed to update total supply'' (dbSet P TotalSupplyKey (EncodeBigInt (Some newSupply)))))"

definition setActive :: "'db pebble \<Rightarrow> string \<Rightarrow> string \<Rightarrow> bytes \<Rightarrow> bytes \<Rightarrow> bool \<Rightarrow> ('db storage, unit) op" where
  "setActive P setMsg delMsg key data active = writable
     (if active then wrapping setMsg (dbSet P key data) else wrapping delMsg (dbDelete P key))"

definition UpdateActiveMinter :: "'db pebble \<Rightarrow> geth \<Rightarrow> address \<Rightarrow> int option \<Rightarrow> bool \<Rightarrow> ('db storage, unit) op" where
  "UpdateActiveMinter P G minter allowance active =
     setActive P ''failed to set active minter'' ''failed to remove active minter'' (MinterActiveIndexKey G minter)
       (EncodeBigInt allowance) active"

definition UpdateActiveValidator :: "'db pebble \<Rightarrow> geth \<Rightarrow> address \<Rightarrow> bool \<Rightarrow> ('db storage, unit) op" where
  "UpdateActiveValidator P G validator active =
     setActive P ''failed to set active validator'' ''failed to remove active validator''
       (ValidatorActiveIndexKey G validator) [byteChar 1] active"

definition UpdateBlacklistStatus :: "'db pebble \<Rightarrow> geth \<Rightarrow> address \<Rightarrow> bool \<Rightarrow> ('db storage, unit) op" where
  "UpdateBlacklistStatus P G addr blacklisted =
     setActive P ''failed to set blacklist status'' ''failed to remove blacklist status''
       (BlacklistActiveIndexKey G addr) [byteChar 1] blacklisted"

definition IndexSystemContractEvent :: "log \<Rightarrow> ('db storage, unit) op" where
  "IndexSystemContractEvent l =
     writable (throw (Errorf ''IndexSystemContractEvent should be called from events package''))"

definition IndexSystemContractEvents :: "log list \<Rightarrow> ('db storage, unit) op" where
  "IndexSystemContractEvents logs = writable
     (forEach (\<lambda>l. wrapping ''failed to index event at block'' (IndexSystemContractEvent l)) logs)"

definition GetTotalSupply :: "'db pebble \<Rightarrow> ('db storage, int) op" where
  "GetTotalSupply P = andThen ensureNotClosed (\<lambda>_.
     catch (andThen (dbGet P TotalSupplyKey) (\<lambda>data. ret (DecodeBigInt data)))
       (\<lambda>e. if e = FromPebble PNotFound then ret 0 else throw (Wrap ''failed to get total supply'' e)))"

definition GetMinterAllowance :: "'db pebble \<Rightarrow> geth \<Rightarrow> address \<Rightarrow> ('db storage, int) op" where
  "GetMinterAllowance P G minter = andThen ensureNotClosed (\<lambda>_.
     catch (andThen (dbGet P (MinterActiveIndexKey G minter)) (\<lambda>data. ret (DecodeBigInt data)))
       (\<lambda>e. if e = FromPebble PNotFound then ret 0 else throw (Wrap ''failed to get minter allowance'' e)))"

text \<open>The addresses are the rest of the keys behind the prefix.\<close>

definition activeScan :: "'db pebble \<Rightarrow> geth \<Rightarrow> bytes \<Rightarrow> ('db storage, address list) op" where
  "activeScan P G pfx = andThen ensureNotClosed (\<lambda>_. andThen (scanPrefix P pfx) (\<lambda>(es, itErr).
     loopThen (Inr (map (\<lambda>e. hexToAddr G (drop (length pfx) (fst e))) es)) itErr))"

definition GetActiveMinters :: "'db pebble \<Rightarrow> geth \<Rightarrow> ('db storage, address list) op" where
  "GetActiveMinters P G = activeScan P G MinterActiveIndexKeyPrefix"

definition GetActiveValidators :: "'db pebble \<Rightarrow> geth \<Rightarrow> ('db storage, address list) op" where
  "GetActiveValidators P G = activeScan P G ValidatorActiveIndexKeyPrefix"

definition GetBlacklistedAddresses :: "'db pebble \<Rightarrow> geth \<Rightarrow> ('db storage, address list) op" where
  "GetBlacklistedAddresses P G = activeScan P G BlacklistActiveIndexKeyPrefix"

section \<open>Event histories\<close>

text \<open>
  The paged loop of the event and proposal queries: a limit of 0 is none, and \<open>f\<close> makes an item of an entry,
  skips it, or fails.
\<close>

fun eventScan :: "(bytes \<times> bytes \<Rightarrow> ('s, 'a option) op) \<Rightarrow> int \<Rightarrow> int \<Rightarrow> (bytes \<times> bytes) list \<Rightarrow>
    int \<Rightarrow> int \<Rightarrow> 'a list \<Rightarrow> ('s, 'a list) op" where
  "eventScan f limit offset [] cnt skipped acc = ret acc"
| "eventScan f limit offset (e # es) cnt skipped acc =
     (if skipped < offset then eventScan f limit offset es cnt (skipped + 1) acc
      else if limit > 0 \<and> cnt \<ge> limit then ret acc
      else andThen (f e) (\<lambda>r. case r of
          None \<Rightarrow> eventScan f limit offset es cnt skipped acc
        | Some x \<Rightarrow> eventScan f limit offset es (cnt + 1) skipped (acc @ [x])))"

definition jsonItem :: "string \<Rightarrow> (bytes \<Rightarrow> 'a option) \<Rightarrow> bytes \<Rightarrow> ('s, 'a option) op" where
  "jsonItem msg dec v = (case dec v of None \<Rightarrow> throw (Wrap msg (Errorf ''json'')) | Some x \<Rightarrow> ret (Some x))"

text \<open>An entry of an index by address holds the key of the event.\<close>

definition indexedItem :: "'db pebble \<Rightarrow> string \<Rightarrow> string \<Rightarrow> (bytes \<Rightarrow> 'a option) \<Rightarrow> bytes \<Rightarrow> ('db storage, 'a option) op" where
  "indexedItem P getMsg decMsg dec eventKey = (\<lambda>s. case dbGet P eventKey s of
       (Inl e, s') \<Rightarrow> if e = FromPebble PNotFound then (Inr None, s') else (Inl (Wrap getMsg e), s')
     | (Inr data, s') \<Rightarrow> jsonItem decMsg dec data s')"

definition blockBound :: "bytes \<Rightarrow> u64 \<Rightarrow> bytes" where
  "blockBound pfx n = pfx @ padDec 20 (unat n) @ ''/''"

definition scanBlocks :: "'db pebble \<Rightarrow> bytes \<Rightarrow> bytes \<Rightarrow> ('db storage, (bytes \<times> bytes) list \<times> perror option) op" where
  "scanBlocks P lo hi = wrapping ''failed to create iterator'' (dbIter P (Some lo) (Some hi))"

definition GetMintEvents :: "'db pebble \<Rightarrow> geth \<Rightarrow> sysCodec \<Rightarrow> u64 \<Rightarrow> u64 \<Rightarrow> address \<Rightarrow> int \<Rightarrow> int \<Rightarrow>
    ('db storage, MintEvent list) op" where
  "GetMintEvents P G C fromBlock toBlock minter limit offset = andThen ensureNotClosed (\<lambda>_.
     andThen (if minter \<noteq> 0
       then scanBlocks P (MintMinterIndexKey G minter fromBlock) (MintMinterIndexKey G minter (toBlock + 1))
       else scanBlocks P (blockBound MintEventKeyPrefix fromBlock) (blockBound MintEventKeyPrefix (toBlock + 1)))
     (\<lambda>(es, itErr). andThen (eventScan (\<lambda>e. if minter \<noteq> 0
         then indexedItem P ''failed to get mint event'' ''failed to decode mint event'' (unjsonMint C) (snd e)
         else jsonItem ''failed to decode mint event'' (unjsonMint C) (snd e)) limit offset es 0 0 [])
       (\<lambda>xs. loopThen (Inr xs) itErr)))"

definition GetBurnEvents :: "'db pebble \<Rightarrow> geth \<Rightarrow> sysCodec \<Rightarrow> u64 \<Rightarrow> u64 \<Rightarrow> address \<Rightarrow> int \<Rightarrow> int \<Rightarrow>
    ('db storage, BurnEvent list) op" where
  "GetBurnEvents P G C fromBlock toBlock burner limit offset = andThen ensureNotClosed (\<lambda>_.
     andThen (if burner \<noteq> 0
       then scanBlocks P (BurnBurnerIndexKey G burner fromBlock) (BurnBurnerIndexKey G burner (toBlock + 1))
       else scanBlocks P (blockBound BurnEventKeyPrefix fromBlock) (blockBound BurnEventKeyPrefix (toBlock + 1)))
     (\<lambda>(es, itErr). andThen (eventScan (\<lambda>e. if burner \<noteq> 0
         then indexedItem P ''failed to get burn event'' ''failed to decode burn event'' (unjsonBurn C) (snd e)
         else jsonItem ''failed to decode burn event'' (unjsonBurn C) (snd e)) limit offset es 0 0 [])
       (\<lambda>xs. loopThen (Inr xs) itErr)))"

definition GetBurnHistory :: "'db pebble \<Rightarrow> geth \<Rightarrow> sysCodec \<Rightarrow> u64 \<Rightarrow> u64 \<Rightarrow> address \<Rightarrow> ('db storage, BurnEvent list) op" where
  "GetBurnHistory P G C fromBlock toBlock user =
     andThen ensureNotClosed (\<lambda>_. GetBurnEvents P G C fromBlock toBlock user 0 0)"

text \<open>The histories decode every entry, and keep those that pass a filter.\<close>

fun collectJson :: "string \<Rightarrow> (bytes \<Rightarrow> 'a option) \<Rightarrow> ('a \<Rightarrow> bool) \<Rightarrow> (bytes \<times> bytes) list \<Rightarrow> 'a list \<Rightarrow> serror + 'a list" where
  "collectJson msg dec keep [] acc = Inr acc"
| "collectJson msg dec keep ((k, v) # es) acc = (case dec v of
      None \<Rightarrow> Inl (Wrap msg (Errorf ''json''))
    | Some x \<Rightarrow> collectJson msg dec keep es (if keep x then acc @ [x] else acc))"

definition jsonHistory :: "'db pebble \<Rightarrow> bytes \<Rightarrow> string \<Rightarrow> (bytes \<Rightarrow> 'a option) \<Rightarrow> ('a \<Rightarrow> bool) \<Rightarrow> ('db storage, 'a list) op" where
  "jsonHistory P pfx msg dec keep = andThen ensureNotClosed (\<lambda>_.
     andThen (scanPrefix P pfx) (\<lambda>(es, itErr). loopThen (collectJson msg dec keep es []) itErr))"

definition GetMinterHistory :: "'db pebble \<Rightarrow> geth \<Rightarrow> sysCodec \<Rightarrow> address \<Rightarrow> ('db storage, MinterConfigEvent list) op" where
  "GetMinterHistory P G C minter = jsonHistory P (MinterConfigEventKeyPrefix G minter)
     ''failed to decode minter config event'' (unjsonMinterConfig C) (\<lambda>_. True)"

definition GetGasTipHistory :: "'db pebble \<Rightarrow> sysCodec \<Rightarrow> u64 \<Rightarrow> u64 \<Rightarrow> ('db storage, GasTipUpdateEvent list) op" where
  "GetGasTipHistory P C fromBlock toBlock = andThen ensureNotClosed (\<lambda>_.
     andThen (scanBlocks P (blockBound GasTipUpdateEventKeyPrefix fromBlock)
        (blockBound GasTipUpdateEventKeyPrefix (toBlock + 1)))
     (\<lambda>(es, itErr). loopThen (collectJson ''failed to decode gas tip event'' (unjsonGasTip C) (\<lambda>_. True) es []) itErr))"

definition GetValidatorHistory :: "'db pebble \<Rightarrow> geth \<Rightarrow> sysCodec \<Rightarrow> address \<Rightarrow> ('db storage, ValidatorChangeEvent list) op" where
  "GetValidatorHistory P G C validator = jsonHistory P (ValidatorChangeEventKeyPrefix G validator)
     ''failed to decode validator change event'' (unjsonValidator C) (\<lambda>_. True)"

definition GetMinterConfigHistory :: "'db pebble \<Rightarrow> sysCodec \<Rightarrow> u64 \<Rightarrow> u64 \<Rightarrow> ('db storage, MinterConfigEvent list) op" where
  "GetMinterConfigHistory P C fromBlock toBlock = jsonHistory P prefixSysMinterConfig
     ''failed to decode minter config event'' (unjsonMinterConfig C)
     (\<lambda>e. mcBlockNumber e \<ge> fromBlock \<and> mcBlockNumber e \<le> toBlock)"

definition GetEmergencyPauseHistory :: "'db pebble \<Rightarrow> geth \<Rightarrow> sysCodec \<Rightarrow> address \<Rightarrow>
    ('db storage, EmergencyPauseEvent list) op" where
  "GetEmergencyPauseHistory P G C contract = jsonHistory P (EmergencyPauseEventKeyPrefix G contract)
     ''failed to decode emergency pause event'' (unjsonEmergency C) (\<lambda>_. True)"

definition GetDepositMintProposals :: "'db pebble \<Rightarrow> sysCodec \<Rightarrow> u64 \<Rightarrow> u64 \<Rightarrow> ProposalStatus \<Rightarrow>
    ('db storage, DepositMintProposal list) op" where
  "GetDepositMintProposals P C fromBlock toBlock status = jsonHistory P prefixSysDepositMint
     ''failed to decode deposit mint proposal'' (unjsonDeposit C)
     (\<lambda>p. dmBlockNumber p \<ge> fromBlock \<and> dmBlockNumber p \<le> toBlock \<and> (status = ProposalStatusAll \<or> dmStatus p = status))"

definition GetBlacklistHistory :: "'db pebble \<Rightarrow> geth \<Rightarrow> sysCodec \<Rightarrow> address \<Rightarrow> ('db storage, BlacklistEvent list) op" where
  "GetBlacklistHistory P G C addr = jsonHistory P (BlacklistEventKeyPrefix G addr)
     ''failed to decode blacklist event'' (unjsonBlacklist C) (\<lambda>_. True)"

definition GetMemberHistory :: "'db pebble \<Rightarrow> geth \<Rightarrow> sysCodec \<Rightarrow> address \<Rightarrow> ('db storage, MemberChangeEvent list) op" where
  "GetMemberHistory P G C contract = jsonHistory P (MemberChangeEventKeyPrefix G contract)
     ''failed to decode member change event'' (unjsonMember C) (\<lambda>_. True)"

definition GetMaxProposalsUpdateHistory :: "'db pebble \<Rightarrow> geth \<Rightarrow> sysCodec \<Rightarrow> address \<Rightarrow>
    ('db storage, MaxProposalsUpdateEvent list) op" where
  "GetMaxProposalsUpdateHistory P G C contract = jsonHistory P (MaxProposalsUpdateEventKeyPrefix G contract)
     ''failed to decode max proposals update event'' (unjsonMaxProposals C) (\<lambda>_. True)"

definition GetProposalExecutionSkippedEvents :: "'db pebble \<Rightarrow> geth \<Rightarrow> sysCodec \<Rightarrow> address \<Rightarrow> int option \<Rightarrow>
    ('db storage, ProposalExecutionSkippedEvent list) op" where
  "GetProposalExecutionSkippedEvents P G C contract proposalID =
     jsonHistory P (ProposalExecutionSkippedEventKeyPrefix G contract)
       ''failed to decode proposal execution skipped event'' (unjsonSkipped C)
       (\<lambda>e. case proposalID of None \<Rightarrow> True | Some i \<Rightarrow> psProposalID e = i)"

definition GovCouncilAddress :: address where "GovCouncilAddress = 0x1004"

text \<open>The set is a Go map: the accounts come in no particular order.\<close>

definition replayAccount :: "AuthorizedAccountEvent \<Rightarrow> address set \<Rightarrow> address set" where
  "replayAccount event accountSet =
     (if aaAction event = ''added'' then insert (aaAccount event) accountSet
      else if aaAction event = ''removed'' then accountSet - {aaAccount event} else accountSet)"

definition GetAuthorizedAccounts :: "'db pebble \<Rightarrow> geth \<Rightarrow> sysCodec \<Rightarrow> ('db storage, address set) op" where
  "GetAuthorizedAccounts P G C =
     andThen (jsonHistory P (AuthorizedAccountEventKeyPrefix G GovCouncilAddress)
       ''failed to decode authorized account event'' (unjsonAuthorized C) (\<lambda>_. True))
     (\<lambda>events. ret (fold replayAccount events {}))"

section \<open>Proposals and votes\<close>

text \<open>A proposal that is missing or cannot be decoded is skipped; a panic of the decoder is not.\<close>

definition proposalItem :: "'db pebble \<Rightarrow> geth \<Rightarrow> address \<Rightarrow> bytes \<Rightarrow> bytes \<times> bytes \<Rightarrow> ('db storage, Proposal option) op" where
  "proposalItem P G contract pfx e =
     (let proposalID = drop (length pfx) (fst e) in
      catch (andThen (dbGet P (ProposalKey G contract proposalID)) (\<lambda>data. case DecodeProposal G data of
          Inl (Panic m) \<Rightarrow> throw (Panic m)
        | Inl e \<Rightarrow> ret None
        | Inr p \<Rightarrow> ret (Some p)))
        (\<lambda>e. case e of Panic m \<Rightarrow> throw (Panic m) | _ \<Rightarrow> ret None))"

definition GetProposals :: "'db pebble \<Rightarrow> geth \<Rightarrow> address \<Rightarrow> ProposalStatus \<Rightarrow> int \<Rightarrow> int \<Rightarrow> ('db storage, Proposal list) op" where
  "GetProposals P G contract status limit offset = andThen ensureNotClosed (\<lambda>_.
     let pfx = ProposalStatusIndexKeyPrefix G contract status in
     andThen (scanPrefix P pfx) (\<lambda>(es, itErr).
     andThen (eventScan (proposalItem P G contract pfx) limit offset es 0 0 []) (\<lambda>xs. loopThen (Inr xs) itErr)))"

definition GetProposalById :: "'db pebble \<Rightarrow> geth \<Rightarrow> address \<Rightarrow> int \<Rightarrow> ('db storage, Proposal option) op" where
  "GetProposalById P G contract proposalId = andThen ensureNotClosed (\<lambda>_ s.
     case dbGet P (ProposalKey G contract (showInt proposalId)) s of
       (Inl e, s') \<Rightarrow> if e = FromPebble PNotFound then (Inr None, s') else (Inl (Wrap ''failed to get proposal'' e), s')
     | (Inr data, s') \<Rightarrow> (case DecodeProposal G data of
          Inl e \<Rightarrow> (Inl (wrapErr ''failed to decode proposal'' e), s')
        | Inr proposal \<Rightarrow> (Inr (Some proposal), s')))"

definition DecodeProposalVote :: "sysCodec \<Rightarrow> bytes \<Rightarrow> serror + ProposalVote" where
  "DecodeProposalVote C data = (if data = [] then Inl (Errorf ''data cannot be empty'')
     else case unrlpVote C data of None \<Rightarrow> Inl (Errorf ''failed to decode proposal vote'') | Some v \<Rightarrow> Inr v)"

fun validVotes :: "sysCodec \<Rightarrow> (bytes \<times> bytes) list \<Rightarrow> ProposalVote list" where
  "validVotes C [] = []"
| "validVotes C ((k, v) # es) =
     (case DecodeProposalVote C v of Inl _ \<Rightarrow> validVotes C es | Inr vote \<Rightarrow> vote # validVotes C es)"

definition GetProposalVotes :: "'db pebble \<Rightarrow> geth \<Rightarrow> sysCodec \<Rightarrow> address \<Rightarrow> int \<Rightarrow> ('db storage, ProposalVote list) op" where
  "GetProposalVotes P G C contract proposalId = andThen ensureNotClosed (\<lambda>_.
     andThen (scanPrefix P (ProposalVoteKeyPrefix G contract (showInt proposalId)))
       (\<lambda>(es, itErr). loopThen (Inr (validVotes C es)) itErr))"

end
