(* ===== verification/SysState.thy ===== *)
theory SysState
  imports SysContracts
begin

text \<open>
  What the tables of the system contracts promise. The current state refines an abstract record of supply,
  minters, validators and blacklist; the index of proposals by status is exact; authorized accounts are the
  replay of their events; and the histories written in RLP cannot be read.
\<close>

section \<open>The abstract state\<close>

record sysState =
  ssSupply :: int
  ssMinters :: "address \<Rightarrow> int option"
  ssValidators :: "address set"
  ssBlacklist :: "address set"

datatype sysUpdate =
    USupply int
  | UMinter address int bool
  | UValidator address bool
  | UBlacklist address bool

definition putMember :: "'a \<Rightarrow> bool \<Rightarrow> 'a set \<Rightarrow> 'a set" where
  "putMember x b A = (if b then insert x A else A - {x})"

fun sysStep :: "sysUpdate \<Rightarrow> sysState \<Rightarrow> sysState" where
  "sysStep (USupply d) a = a\<lparr>ssSupply := ssSupply a + d\<rparr>"
| "sysStep (UMinter x n b) a = a\<lparr>ssMinters := (ssMinters a)(x := if b then Some n else None)\<rparr>"
| "sysStep (UValidator x b) a = a\<lparr>ssValidators := putMember x b (ssValidators a)\<rparr>"
| "sysStep (UBlacklist x b) a = a\<lparr>ssBlacklist := putMember x b (ssBlacklist a)\<rparr>"

fun sysApply :: "'db pebble \<Rightarrow> geth \<Rightarrow> sysUpdate \<Rightarrow> ('db storage, unit) op" where
  "sysApply P G (USupply d) = UpdateTotalSupply P d"
| "sysApply P G (UMinter x n b) = UpdateActiveMinter P G x (Some n) b"
| "sysApply P G (UValidator x b) = UpdateActiveValidator P G x b"
| "sysApply P G (UBlacklist x b) = UpdateBlacklistStatus P G x b"

text \<open>The supply never falls below zero, and allowances are not negative: both are stored without a sign.\<close>

fun sysOk :: "sysUpdate list \<Rightarrow> sysState \<Rightarrow> bool" where
  "sysOk [] a \<longleftrightarrow> True"
| "sysOk (u # us) a \<longleftrightarrow> (case u of USupply d \<Rightarrow> 0 \<le> ssSupply a + d | UMinter _ n _ \<Rightarrow> 0 \<le> n | _ \<Rightarrow> True) \<and>
     sysOk us (sysStep u a)"

text \<open>A table by address: the keys under the prefix are those of addresses.\<close>

definition addrTable :: "('db \<Rightarrow> bytes \<Rightarrow> bytes option) \<Rightarrow> geth \<Rightarrow> bytes \<Rightarrow> (address \<Rightarrow> bytes option) \<Rightarrow> 'db storage \<Rightarrow> bool" where
  "addrTable view G pfx t s \<longleftrightarrow> (\<forall>x. view (db s) (pfx @ addrHex G x) = t x) \<and>
     (\<forall>k. HasPrefix k pfx \<and> view (db s) k \<noteq> None \<longrightarrow> (\<exists>x. k = pfx @ addrHex G x))"

definition flagTable :: "address set \<Rightarrow> address \<Rightarrow> bytes option" where
  "flagTable A x = (if x \<in> A then Some [byteChar 1] else None)"

definition allowanceTable :: "(address \<Rightarrow> int option) \<Rightarrow> address \<Rightarrow> bytes option" where
  "allowanceTable m x = map_option (\<lambda>n. EncodeBigInt (Some n)) (m x)"

definition sysRep :: "('db \<Rightarrow> bytes \<Rightarrow> bytes option) \<Rightarrow> geth \<Rightarrow> 'db storage \<Rightarrow> sysState \<Rightarrow> bool" where
  "sysRep view G s a \<longleftrightarrow> \<not> closed s \<and> 0 \<le> ssSupply a \<and> (\<forall>x n. ssMinters a x = Some n \<longrightarrow> 0 \<le> n) \<and>
     (case view (db s) TotalSupplyKey of None \<Rightarrow> ssSupply a = 0 | Some d \<Rightarrow> DecodeBigInt d = ssSupply a) \<and>
     addrTable view G prefixIdxMinterActive (allowanceTable (ssMinters a)) s \<and>
     addrTable view G prefixIdxValidatorActive (flagTable (ssValidators a)) s \<and>
     addrTable view G prefixIdxBlacklistActive (flagTable (ssBlacklist a)) s"

section \<open>Tables by address\<close>

lemma flagTable_put: "flagTable (putMember x b A) = (flagTable A)(x := if b then Some [byteChar 1] else None)"
  by (auto simp: flagTable_def putMember_def)

lemma allowanceTable_put:
  "allowanceTable (m(x := if b then Some n else None)) = (allowanceTable m)(x := if b then Some (EncodeBigInt (Some n)) else None)"
  by (auto simp: allowanceTable_def)

lemma dom_allowanceTable [simp]: "dom (allowanceTable m) = dom m"
  by (auto simp: allowanceTable_def)

lemma dom_flagTable [simp]: "dom (flagTable A) = A"
  by (auto simp: flagTable_def split: if_splits)

lemma addrTable_put:
  assumes "geth_codec G" "addrTable view G pfx t s" "view (db s') = (view (db s))(pfx @ addrHex G x := w)"
  shows "addrTable view G pfx (t(x := w)) s'"
  using assms(2) geth_codec.addrHex_inj [OF assms(1)] unfolding addrTable_def assms(3) by auto

lemma addrTable_other:
  assumes "addrTable view G pfx t s" "view (db s') = (view (db s))(k := w)" "\<not> HasPrefix k pfx"
  shows "addrTable view G pfx t s'"
proof -
  have "k \<noteq> pfx @ addrHex G x" for x using assms(3) by (auto simp: HasPrefix_def)
  then show ?thesis using assms(1,3) unfolding addrTable_def assms(2) by auto
qed

text \<open>A table whose keys are a prefix and the name of an item is scanned in the order of the names.\<close>

lemma table_scan:
  assumes "pebble_db P view" "\<And>x y. f x = f y \<Longrightarrow> x = y" "\<And>x. f x < [byteChar 255]"
    and "\<And>k v. HasPrefix k pfx \<and> view (db s) k = Some v \<longleftrightarrow> (\<exists>x. t x = Some v \<and> k = pfx @ f x)"
  shows "\<exists>xs. scanPrefix P pfx s = (Inr (map (\<lambda>x. (pfx @ f x, the (t x))) xs, None), s) \<and>
    sorted_wrt (\<lambda>x y. f x < f y) xs \<and> set xs = dom t"
proof -
  let ?hi = "pfx @ [byteChar 255]"
  obtain es where it: "dbIter P (Some pfx) (Some ?hi) s = (Inr (es, None), s)" "sorted_wrt (<) (map fst es)"
    "\<forall>k v. (k, v) \<in> set es \<longleftrightarrow> inRange (Some pfx) (Some ?hi) k \<and> view (db s) k = Some v"
    using pebble_db.dbIter_eq [OF assms(1)] by blast
  have "inRange (Some pfx) (Some ?hi) (pfx @ f x)" for x
    using assms(3) [of x] by (simp add: inRange_def prefix_imp_le)
  then have mem: "(k, v) \<in> set es \<longleftrightarrow> (\<exists>x. t x = Some v \<and> k = pfx @ f x)" for k v
    using it(3) assms(4) [of k v] inRange_ff_prefix [of pfx k] by blast
  define nm where "nm e = inv_into UNIV f (drop (length pfx) (fst e))" for e :: "bytes \<times> bytes"
  have inj: "inj f" using assms(2) by (auto intro: injI)
  have e: "e = (pfx @ f (nm e), the (t (nm e))) \<and> nm e \<in> dom t" if "e \<in> set es" for e
  proof -
    have "(fst e, snd e) \<in> set es" using that by simp
    then obtain x where x: "t x = Some (snd e)" "fst e = pfx @ f x" unfolding mem by blast
    then have "nm e = x" using inv_into_f_f [OF inj] by (simp add: nm_def)
    with x show ?thesis by (auto simp: prod_eq_iff)
  qed
  let ?xs = "map nm es"
  have "map (\<lambda>x. (pfx @ f x, the (t x))) ?xs = es" using e by (auto intro!: map_idI simp: o_def)
  moreover have "sorted_wrt (\<lambda>e e'. fst e < fst e') es" using it(2) by (simp add: sorted_wrt_map)
  then have "sorted_wrt (\<lambda>e e'. f (nm e) < f (nm e')) es"
    by (rule sorted_wrt_mono_rel [rotated]) (metis e fst_conv less_list_append_same)
  then have "sorted_wrt (\<lambda>x y. f x < f y) ?xs" by (simp add: sorted_wrt_map)
  moreover have "set ?xs = dom t"
  proof
    show "set ?xs \<subseteq> dom t" using e by auto
    show "dom t \<subseteq> set ?xs"
    proof
      fix x assume "x \<in> dom t"
      then obtain v where "(pfx @ f x, v) \<in> set es" using mem by blast
      moreover have "nm (pfx @ f x, v) = x" using inv_into_f_f [OF inj] by (simp add: nm_def)
      ultimately show "x \<in> set ?xs" by (metis image_eqI list.set_map)
    qed
  qed
  ultimately show ?thesis using it(1)
    by (intro exI [of _ ?xs]) (simp add: scanPrefix_def wrapping_def del: map_map)
qed

lemma addrHex_below_ff: "geth_codec G \<Longrightarrow> addrHex G x < [byteChar 255]"
proof -
  assume G: "geth_codec G"
  obtain c cs where c: "addrHex G x = c # cs" using geth_codec.addrHex_len [OF G, of x] by (cases "addrHex G x") auto
  then have "byteVal c < 128" using geth_codec.addrHex_ascii [OF G, of c x] by simp
  with c show ?thesis by (simp add: char_less_iff)
qed

lemma addrTable_scan:
  assumes "pebble_db P view" "geth_codec G" "addrTable view G pfx t s" "\<not> closed s"
  shows "\<exists>xs. activeScan P G pfx s = (Inr xs, s) \<and> sorted_wrt (\<lambda>x y. addrHex G x < addrHex G y) xs \<and> set xs = dom t"
proof -
  have "HasPrefix k pfx \<and> view (db s) k = Some v \<longleftrightarrow> (\<exists>x. t x = Some v \<and> k = pfx @ addrHex G x)" for k v
    using assms(3) unfolding addrTable_def HasPrefix_def by (metis option.distinct(1) prefixI)
  from table_scan [OF assms(1) geth_codec.addrHex_inj [OF assms(2)] addrHex_below_ff [OF assms(2)] this]
  show ?thesis using assms(4) geth_codec.hexToAddr [OF assms(2)]
    by (auto simp: activeScan_def guard_simps andThen_def loopThen_def o_def)
qed

section \<open>Updates\<close>

lemma writable_Inr: "writable m s = (Inr u, s') \<Longrightarrow> \<not> closed s \<and> m s = (Inr u, s')"
  by (simp add: writable_def andThen_eq_Inr ensureNotClosed_def ensureNotReadOnly_def split: if_splits)

lemma put_Inr:
  assumes "pebble_db P view" "wrapping msg (dbSet P k v) s = (Inr u, s')"
  shows "view (db s') = (view (db s))(k := Some v) \<and> closed s' = closed s"
  using assms(2) pebble_db.dbSet_Inr [OF assms(1)] by (auto simp: only_db_def)

lemmas set_Inr = put_Inr [unfolded wrapping_eq_Inr]

lemma setActive_Inr:
  assumes "pebble_db P view" "setActive P m1 m2 k v b s = (Inr u, s')"
  shows "view (db s') = (view (db s))(k := if b then Some v else None) \<and> closed s' = closed s"
proof (cases b)
  case True
  then show ?thesis using put_Inr [OF assms(1), of m1 k v s u s'] writable_Inr assms(2) by (fastforce simp: setActive_def)
next
  case False
  then have "wrapping m2 (dbDelete P k) s = (Inr u, s')" using writable_Inr assms(2) by (fastforce simp: setActive_def)
  then show ?thesis using False pebble_db.dbDelete_Inr [OF assms(1)] by (auto simp: only_db_def)
qed

lemma EncodeBigInt_nat [simp]: "0 \<le> n \<Longrightarrow> DecodeBigInt (EncodeBigInt (Some n)) = n"
  using DecodeBigInt_bigBytes [of n] by (simp add: EncodeBigInt_def)

lemma UpdateTotalSupply_Inr:
  assumes "pebble_db P view" "UpdateTotalSupply P d s = (Inr u, s')"
  shows "closed s' = closed s \<and> view (db s') = (view (db s))(TotalSupplyKey := Some (EncodeBigInt (Some
    ((case view (db s) TotalSupplyKey of None \<Rightarrow> 0 | Some x \<Rightarrow> DecodeBigInt x) + d))))"
proof -
  have z: "DecodeBigInt (EncodeBigInt (Some 0)) = 0" by simp
  show ?thesis
    using writable_Inr [OF assms(2)[unfolded UpdateTotalSupply_def]] z
    by (cases "view (db s) TotalSupplyKey")
      (auto simp: andThen_eq_Inr catch_def pebble_db.dbGet_eq [OF assms(1)] Let_def dest!: set_Inr [OF assms(1)])
qed

lemma sys_keys_apart:
  "\<not> HasPrefix TotalSupplyKey prefixIdxMinterActive" "\<not> HasPrefix TotalSupplyKey prefixIdxValidatorActive"
  "\<not> HasPrefix TotalSupplyKey prefixIdxBlacklistActive"
  "\<not> HasPrefix (MinterActiveIndexKey G x) prefixIdxValidatorActive" "\<not> HasPrefix (MinterActiveIndexKey G x) prefixIdxBlacklistActive"
  "\<not> HasPrefix (ValidatorActiveIndexKey G x) prefixIdxMinterActive" "\<not> HasPrefix (ValidatorActiveIndexKey G x) prefixIdxBlacklistActive"
  "\<not> HasPrefix (BlacklistActiveIndexKey G x) prefixIdxMinterActive" "\<not> HasPrefix (BlacklistActiveIndexKey G x) prefixIdxValidatorActive"
  "MinterActiveIndexKey G x \<noteq> TotalSupplyKey" "ValidatorActiveIndexKey G x \<noteq> TotalSupplyKey" "BlacklistActiveIndexKey G x \<noteq> TotalSupplyKey"
  by (simp_all add: key_defs HasPrefix_def)

lemma sysApply_step:
  assumes "pebble_db P view" "geth_codec G" "sysRep view G s a" "sysOk [u] a" "sysApply P G u s = (Inr x, s')"
  shows "sysRep view G s' (sysStep u a)"
proof (cases u)
  case (USupply d)
  then have v: "closed s' = closed s" "view (db s') = (view (db s))(TotalSupplyKey := Some (EncodeBigInt (Some (ssSupply a + d))))"
    using UpdateTotalSupply_Inr [OF assms(1)] assms(3,5) by (auto simp: sysRep_def split: option.splits)
  show ?thesis using assms(3,4) USupply v(1) unfolding sysRep_def
    by (auto simp: v(2) intro!: addrTable_other [OF _ v(2)] sys_keys_apart)
next
  case (UMinter y n b)
  have v: "view (db s') = (view (db s))(prefixIdxMinterActive @ addrHex G y := if b then Some (EncodeBigInt (Some n)) else None)"
      "closed s' = closed s"
    using setActive_Inr [OF assms(1)] assms(5) UMinter by (auto simp: UpdateActiveMinter_def MinterActiveIndexKey_def)
  note v' = v(1) [folded MinterActiveIndexKey_def]
  have k: "view (db s') TotalSupplyKey = view (db s) TotalSupplyKey"
    using sys_keys_apart unfolding v' by (metis fun_upd_other)
  have t: "addrTable view G prefixIdxMinterActive (allowanceTable (ssMinters a)) s"
    using assms(3) by (simp add: sysRep_def)
  have "addrTable view G prefixIdxMinterActive (allowanceTable (ssMinters (sysStep u a))) s'"
    using addrTable_put [OF assms(2) t v(1)] UMinter by (simp add: allowanceTable_put)
  then show ?thesis using assms(3,4) v(2) unfolding sysRep_def UMinter k sysStep.simps
    by (auto simp: sys_keys_apart intro!: addrTable_other [OF _ v'] split: if_splits cong: option.case_cong)
next
  case (UValidator y b)
  have v: "view (db s') = (view (db s))(prefixIdxValidatorActive @ addrHex G y := if b then Some [byteChar 1] else None)"
      "closed s' = closed s"
    using setActive_Inr [OF assms(1)] assms(5) UValidator by (auto simp: UpdateActiveValidator_def ValidatorActiveIndexKey_def)
  note v' = v(1) [folded ValidatorActiveIndexKey_def]
  have k: "view (db s') TotalSupplyKey = view (db s) TotalSupplyKey"
    using sys_keys_apart unfolding v' by (metis fun_upd_other)
  have t: "addrTable view G prefixIdxValidatorActive (flagTable (ssValidators a)) s" using assms(3) by (simp add: sysRep_def)
  show ?thesis using assms(3) v(2) addrTable_put [OF assms(2) t v(1)] unfolding sysRep_def UValidator k sysStep.simps
    by (auto simp: sys_keys_apart flagTable_put intro!: addrTable_other [OF _ v'] cong: option.case_cong)
next
  case (UBlacklist y b)
  have v: "view (db s') = (view (db s))(prefixIdxBlacklistActive @ addrHex G y := if b then Some [byteChar 1] else None)"
      "closed s' = closed s"
    using setActive_Inr [OF assms(1)] assms(5) UBlacklist by (auto simp: UpdateBlacklistStatus_def BlacklistActiveIndexKey_def)
  note v' = v(1) [folded BlacklistActiveIndexKey_def]
  have k: "view (db s') TotalSupplyKey = view (db s) TotalSupplyKey"
    using sys_keys_apart unfolding v' by (metis fun_upd_other)
  have t: "addrTable view G prefixIdxBlacklistActive (flagTable (ssBlacklist a)) s" using assms(3) by (simp add: sysRep_def)
  show ?thesis using assms(3) v(2) addrTable_put [OF assms(2) t v(1)] unfolding sysRep_def UBlacklist k sysStep.simps
    by (auto simp: sys_keys_apart flagTable_put intro!: addrTable_other [OF _ v'] cong: option.case_cong)
qed

lemma sysApply_run:
  assumes "pebble_db P view" "geth_codec G"
  shows "sysRep view G s a \<Longrightarrow> sysOk us a \<Longrightarrow> forEach (sysApply P G) us s = (Inr x, s') \<Longrightarrow>
    sysRep view G s' (fold sysStep us a)"
proof (induction us arbitrary: s a)
  case (Cons u us)
  obtain y t where t: "sysApply P G u s = (Inr y, t)" "forEach (sysApply P G) us t = (Inr x, s')"
    using Cons.prems(3) by (auto simp: andThen_eq_Inr)
  have "sysRep view G t (sysStep u a)"
    using sysApply_step [OF assms Cons.prems(1) _ t(1)] Cons.prems(2) by simp
  then show ?case using Cons.IH [OF _ _ t(2)] Cons.prems(2) by simp
qed simp

definition sysQueries :: "'db pebble \<Rightarrow> geth \<Rightarrow> 'db storage \<Rightarrow> sysState \<Rightarrow> bool" where
  "sysQueries P G s a \<longleftrightarrow>
     GetTotalSupply P s = (Inr (ssSupply a), s) \<and>
     (\<forall>x. GetMinterAllowance P G x s = (Inr (case ssMinters a x of None \<Rightarrow> 0 | Some n \<Rightarrow> n), s)) \<and>
     (\<exists>xs. GetActiveMinters P G s = (Inr xs, s) \<and> sorted_wrt (\<lambda>x y. addrHex G x < addrHex G y) xs \<and> set xs = dom (ssMinters a)) \<and>
     (\<exists>xs. GetActiveValidators P G s = (Inr xs, s) \<and> sorted_wrt (\<lambda>x y. addrHex G x < addrHex G y) xs \<and> set xs = ssValidators a) \<and>
     (\<exists>xs. GetBlacklistedAddresses P G s = (Inr xs, s) \<and> sorted_wrt (\<lambda>x y. addrHex G x < addrHex G y) xs \<and> set xs = ssBlacklist a)"

lemma sysRep_queries:
  assumes "pebble_db P view" "geth_codec G" "sysRep view G s a"
  shows "sysQueries P G s a"
proof -
  have o: "\<not> closed s" using assms(3) by (simp add: sysRep_def)
  have "GetTotalSupply P s = (Inr (ssSupply a), s)"
    using assms(3) by (cases "view (db s) TotalSupplyKey")
      (simp_all add: GetTotalSupply_def guard_simps andThen_def catch_def pebble_db.dbGet_eq [OF assms(1)] sysRep_def)
  moreover have "GetMinterAllowance P G x s = (Inr (case ssMinters a x of None \<Rightarrow> 0 | Some n \<Rightarrow> n), s)" for x
  proof -
    have v: "view (db s) (MinterActiveIndexKey G x) = map_option (\<lambda>n. EncodeBigInt (Some n)) (ssMinters a x)"
      using assms(3) by (simp add: sysRep_def addrTable_def allowanceTable_def MinterActiveIndexKey_def)
    show ?thesis using assms(3) v by (cases "ssMinters a x")
      (simp_all add: GetMinterAllowance_def guard_simps andThen_def catch_def pebble_db.dbGet_eq [OF assms(1)] sysRep_def)
  qed
  moreover have "\<exists>xs. GetActiveMinters P G s = (Inr xs, s) \<and> sorted_wrt (\<lambda>x y. addrHex G x < addrHex G y) xs \<and> set xs = dom (ssMinters a)"
    using addrTable_scan [OF assms(1,2) _ o, of prefixIdxMinterActive "allowanceTable (ssMinters a)"] assms(3)
    by (simp add: GetActiveMinters_def MinterActiveIndexKeyPrefix_def sysRep_def)
  moreover have "\<exists>xs. GetActiveValidators P G s = (Inr xs, s) \<and> sorted_wrt (\<lambda>x y. addrHex G x < addrHex G y) xs \<and> set xs = ssValidators a"
    using addrTable_scan [OF assms(1,2) _ o, of prefixIdxValidatorActive "flagTable (ssValidators a)"] assms(3)
    by (simp add: GetActiveValidators_def ValidatorActiveIndexKeyPrefix_def sysRep_def)
  moreover have "\<exists>xs. GetBlacklistedAddresses P G s = (Inr xs, s) \<and> sorted_wrt (\<lambda>x y. addrHex G x < addrHex G y) xs \<and> set xs = ssBlacklist a"
    using addrTable_scan [OF assms(1,2) _ o, of prefixIdxBlacklistActive "flagTable (ssBlacklist a)"] assms(3)
    by (simp add: GetBlacklistedAddresses_def BlacklistActiveIndexKeyPrefix_def sysRep_def)
  ultimately show ?thesis unfolding sysQueries_def by blast
qed

definition freshSys :: sysState where
  "freshSys = \<lparr>ssSupply = 0, ssMinters = (\<lambda>_. None), ssValidators = {}, ssBlacklist = {}\<rparr>"

lemma sysRep_empty: "sysRep map_of G (emptyStorage ([] :: (bytes \<times> bytes) list)) freshSys"
  by (auto simp: sysRep_def freshSys_def emptyStorage_def addrTable_def flagTable_def allowanceTable_def)

text \<open>
  C16: the current state of the system contracts refines an abstract record: after any run of updates that keeps
  the supply from falling below zero, the supply is the sum of the changes, an allowance is the last one set,
  and the active minters, the validators and the blacklist are exactly the members put in and not taken out,
  each once, in the order of their hexadecimal addresses.
\<close>

theorem system_state_refines:
  assumes "pebble_db P view" "geth_codec G" "sysRep view G s a" "sysOk us a"
    and "forEach (sysApply P G) us s = (Inr (), s')"
  shows "sysRep view G s' (fold sysStep us a) \<and> sysQueries P G s' (fold sysStep us a)"
  using sysApply_run [OF assms] sysRep_queries [OF assms(1,2)] by blast

theorem system_state_refines_witness:
  "let us = [USupply 500, UMinter 5 900 True, USupply (- 200), UValidator 6 True, UBlacklist 7 True, UMinter 8 40 True,
       UMinter 5 0 False, UBlacklist 7 False];
     s' = snd (forEach (sysApply memPebble sampleGeth) us (emptyStorage ([] :: (bytes \<times> bytes) list)));
     a = fold sysStep us freshSys
   in ssSupply a = 300 \<and> ssMinters a 8 = Some 40 \<and> ssValidators a = {6} \<and> ssBlacklist a = {} \<and>
      sysRep map_of sampleGeth s' a \<and> sysQueries memPebble sampleGeth s' a"
proof -
  let ?us = "[USupply 500, UMinter 5 900 True, USupply (- 200), UValidator 6 True, UBlacklist 7 True, UMinter 8 40 True,
       UMinter 5 0 False, UBlacklist 7 False]"
  let ?r = "forEach (sysApply memPebble sampleGeth) ?us (emptyStorage ([] :: (bytes \<times> bytes) list))"
  have "fst ?r = Inr ()"
    by (simp add: UpdateTotalSupply_def UpdateActiveMinter_def UpdateActiveValidator_def UpdateBlacklistStatus_def setActive_def
      emptyStorage_def DefaultConfig_def guard_simps andThen_def catch_def dbGet_def dbSet_def dbDelete_def liftWrite_def
      memPebble_def wrapping_def Let_def split: option.splits)
  then have r: "?r = (Inr (), snd ?r)" by (simp add: prod_eq_iff)
  show ?thesis
    using system_state_refines [OF memPebble.pebble_db_axioms geth_codec_sample sysRep_empty _ r]
    by (simp add: freshSys_def putMember_def)
qed

section \<open>Proposals by status\<close>

text \<open>
  The table of proposals and its index hold a map: every proposal is stored under its contract and identifier,
  and the index has exactly one entry for each, under its status.
\<close>

definition propRep :: "('db \<Rightarrow> bytes \<Rightarrow> bytes option) \<Rightarrow> geth \<Rightarrow> 'db storage \<Rightarrow> (address \<Rightarrow> int \<Rightarrow> Proposal option) \<Rightarrow> bool" where
  "propRep view G s ps \<longleftrightarrow> \<not> closed s \<and>
     (\<forall>c i. view (db s) (ProposalKey G c (showInt i)) = map_option (EncodeProposal G) (ps c i)) \<and>
     (\<forall>c i p. ps c i = Some p \<longrightarrow> prContract p = c \<and> prProposalID p = i \<and> goodProposal p) \<and>
     (\<forall>c st k v. HasPrefix k (ProposalStatusIndexKeyPrefix G c st) \<and> view (db s) k = Some v \<longleftrightarrow>
        (\<exists>i p. ps c i = Some p \<and> prStatus p = st \<and> k = ProposalStatusIndexKey G c st (showInt i) \<and> v = [byteChar 1]))"

lemma statusKey_eq: "ProposalStatusIndexKey G c st x = ProposalStatusIndexKeyPrefix G c st @ x"
  by (simp add: ProposalStatusIndexKey_def ProposalStatusIndexKeyPrefix_def)

lemma statusPrefix_inject:
  assumes "geth_codec G"
  shows "ProposalStatusIndexKeyPrefix G c st @ x = ProposalStatusIndexKeyPrefix G c' st' @ y \<longleftrightarrow> c = c' \<and> st = st' \<and> x = y"
proof
  assume eq: "ProposalStatusIndexKeyPrefix G c st @ x = ProposalStatusIndexKeyPrefix G c' st' @ y"
  have "length (addrHex G c) = length (addrHex G c')" using geth_codec.addrHex_len [OF assms] by simp
  with eq have "addrHex G c = addrHex G c'" "showDec (unat st) @ CHR ''/'' # x = showDec (unat st') @ CHR ''/'' # y"
    by (simp_all add: ProposalStatusIndexKeyPrefix_def)
  moreover from this(2) have "unat st = unat st' \<and> x = y" by (simp add: sep_append_inject)
  ultimately show "c = c' \<and> st = st' \<and> x = y"
    using geth_codec.addrHex_inj [OF assms] by (metis word_unat_eq_iff)
qed simp

lemma ProposalKey_inject:
  assumes "geth_codec G"
  shows "ProposalKey G c x = ProposalKey G c' y \<longleftrightarrow> c = c' \<and> x = y"
proof
  assume eq: "ProposalKey G c x = ProposalKey G c' y"
  have "length (addrHex G c) = length (addrHex G c')" using geth_codec.addrHex_len [OF assms] by simp
  with eq show "c = c' \<and> x = y" using geth_codec.addrHex_inj [OF assms] by (auto simp: ProposalKey_def)
qed simp

lemma ProposalKey_no_index: "ProposalKey G c x \<noteq> ProposalStatusIndexKeyPrefix G c' st @ y"
  by (simp add: key_defs)

lemma propRep_put:
  assumes "geth_codec G" "propRep view G s ps" "\<And>q. ps c i = Some q \<Longrightarrow> prStatus q = st0"
    and "prContract p = c" "prProposalID p = i" "goodProposal p" "closed s' = closed s"
    and v: "view (db s') = (view (db s))(ProposalStatusIndexKey G c st0 (showInt i) := None,
      ProposalKey G c (showInt i) := Some (EncodeProposal G p),
      ProposalStatusIndexKey G c (prStatus p) (showInt i) := Some [byteChar 1])"
  shows "propRep view G s' (ps(c := (ps c)(i := Some p)))"
proof -
  let ?I = "\<lambda>c st i. ProposalStatusIndexKey G c st (showInt i)" and ?ps = "ps(c := (ps c)(i := Some p))"
  note inj = statusPrefix_inject [OF assms(1)] ProposalKey_inject [OF assms(1)]
  have was: "HasPrefix k (ProposalStatusIndexKeyPrefix G c' st) \<and> view (db s) k = Some w \<longleftrightarrow>
      (\<exists>j q. ps c' j = Some q \<and> prStatus q = st \<and> k = ?I c' st j \<and> w = [byteChar 1])" for c' st k w
    using assms(2) unfolding propRep_def by blast
  have new: "HasPrefix k (ProposalStatusIndexKeyPrefix G c' st) \<and> view (db s') k = Some w \<longleftrightarrow>
      (\<exists>j q. ?ps c' j = Some q \<and> prStatus q = st \<and> k = ?I c' st j \<and> w = [byteChar 1])" for c' st k w
  proof (cases "HasPrefix k (ProposalStatusIndexKeyPrefix G c' st)")
    case False
    then show ?thesis by (auto simp: statusKey_eq HasPrefix_def)
  next
    case True
    then obtain r where k: "k = ProposalStatusIndexKeyPrefix G c' st @ r" by (auto simp: HasPrefix_def prefix_def)
    have "k \<noteq> ProposalKey G c (showInt i)" using ProposalKey_no_index unfolding k by metis
    then have vk: "view (db s') k = (if k = ?I c (prStatus p) i then Some [byteChar 1] else if k = ?I c st0 i then None
        else view (db s) k)" by (simp add: v)
    have here: "k = ?I c st1 i \<longleftrightarrow> c' = c \<and> st = st1 \<and> r = showInt i" for st1
      unfolding k statusKey_eq inj by auto
    have there: "k = ?I c' st j \<longleftrightarrow> r = showInt j" for j unfolding k statusKey_eq by simp
    have upd: "?ps c' j = (if c' = c \<and> j = i then Some p else ps c' j)" for j by simp
    consider (new) "c' = c" "st = prStatus p" "r = showInt i" | (gone) "c' = c" "st = st0" "r = showInt i" "st \<noteq> prStatus p"
      | (old) "\<not> (c' = c \<and> st = prStatus p \<and> r = showInt i)" "\<not> (c' = c \<and> st = st0 \<and> r = showInt i)" by blast
    then show ?thesis
    proof cases
      case old
      have "ps c' j = Some q \<and> prStatus q = st \<and> r = showInt j \<longleftrightarrow> ?ps c' j = Some q \<and> prStatus q = st \<and> r = showInt j" for j q
        unfolding upd using old assms(3) [of q] by auto
      then have "(\<exists>j q. ps c' j = Some q \<and> prStatus q = st \<and> r = showInt j \<and> w = [byteChar 1]) \<longleftrightarrow>
          (\<exists>j q. ?ps c' j = Some q \<and> prStatus q = st \<and> r = showInt j \<and> w = [byteChar 1])" by blast
      moreover have "view (db s') k = view (db s) k" using old unfolding vk here by presburger
      ultimately show ?thesis using was [of k c' st w] unfolding there by presburger
    next
      case gone
      then show ?thesis unfolding there vk here by auto
    qed (use True in \<open>auto simp: vk here there\<close>)
  qed
  show ?thesis using assms(2,4-7) new unfolding propRep_def
    by (auto simp: v inj ProposalKey_no_index [symmetric] statusKey_eq ProposalKey_no_index)
qed

datatype propOp = PStore Proposal | PUpdate address int ProposalStatus u64

definition withStatus :: "ProposalStatus \<Rightarrow> u64 \<Rightarrow> Proposal \<Rightarrow> Proposal" where
  "withStatus st executedAt p =
     p\<lparr>prStatus := st, prExecutedAt := if executedAt > 0 then Some executedAt else prExecutedAt p\<rparr>"

fun propApply :: "'db pebble \<Rightarrow> geth \<Rightarrow> propOp \<Rightarrow> ('db storage, unit) op" where
  "propApply P G (PStore p) = StoreProposal P G p"
| "propApply P G (PUpdate c i st ex) = UpdateProposalStatus P G c i st ex"

fun propStep :: "propOp \<Rightarrow> (address \<Rightarrow> int \<Rightarrow> Proposal option) \<Rightarrow> address \<Rightarrow> int \<Rightarrow> Proposal option" where
  "propStep (PStore p) ps = ps(prContract p := (ps (prContract p))(prProposalID p := Some p))"
| "propStep (PUpdate c i st ex) ps = ps(c := (ps c)(i := map_option (withStatus st ex) (ps c i)))"

text \<open>A proposal that is stored again must have kept its status.\<close>

fun propOk :: "propOp list \<Rightarrow> (address \<Rightarrow> int \<Rightarrow> Proposal option) \<Rightarrow> bool" where
  "propOk [] ps \<longleftrightarrow> True"
| "propOk (x # xs) ps \<longleftrightarrow> (case x of
      PStore p \<Rightarrow> goodProposal p \<and> (case ps (prContract p) (prProposalID p) of None \<Rightarrow> True | Some q \<Rightarrow> prStatus q = prStatus p)
    | PUpdate c i st ex \<Rightarrow> True) \<and> propOk xs (propStep x ps)"

lemma withStatus_fields [simp]:
  "prStatus (withStatus st ex p) = st" "prContract (withStatus st ex p) = prContract p"
  "prProposalID (withStatus st ex p) = prProposalID p" "goodProposal (withStatus st ex p) = goodProposal p"
  by (simp_all add: withStatus_def goodProposal_def)

lemma StoreProposal_rep:
  assumes "pebble_db P view" "geth_codec G" "propRep view G s ps" "propOk [PStore p] ps" "StoreProposal P G p s = (Inr u, s')"
  shows "propRep view G s' (propStep (PStore p) ps)"
proof -
  obtain u1 t where t: "wrapping ''failed to store proposal''
      (dbSet P (ProposalKey G (prContract p) (showInt (prProposalID p))) (EncodeProposal G p)) s = (Inr u1, t)"
    "wrapping ''failed to store proposal status index''
      (dbSet P (ProposalStatusIndexKey G (prContract p) (prStatus p) (showInt (prProposalID p))) [byteChar 1]) t = (Inr u, s')"
    using writable_Inr [OF assms(5)[unfolded StoreProposal_def]] by (auto simp: andThen_eq_Inr)
  note v = put_Inr [OF assms(1) t(1)] put_Inr [OF assms(1) t(2)]
  have "propRep view G s' (ps(prContract p := (ps (prContract p))(prProposalID p := Some p)))"
    by (rule propRep_put [OF assms(2,3), where ?st0.0 = "prStatus p"])
      (use assms(4) v in \<open>auto simp: fun_eq_iff split: option.splits\<close>)
  then show ?thesis by simp
qed

lemma UpdateProposalStatus_rep:
  assumes "pebble_db P view" "geth_codec G" "propRep view G s ps" "UpdateProposalStatus P G c i st ex s = (Inr u, s')"
  shows "propRep view G s' (propStep (PUpdate c i st ex) ps)"
proof -
  let ?K = "ProposalKey G c (showInt i)" and ?I = "\<lambda>st. ProposalStatusIndexKey G c st (showInt i)"
  have k: "view (db s) ?K = map_option (EncodeProposal G) (ps c i)" and o: "\<not> closed s"
    using assms(3) by (auto simp: propRep_def)
  note w = writable_Inr [OF assms(4)[unfolded UpdateProposalStatus_def Let_def]]
  obtain q where q: "ps c i = Some q"
    using w k by (cases "ps c i") (auto simp: andThen_eq_Inr pebble_db.dbGet_eq [OF assms(1)])
  have gq: "prContract q = c" "prProposalID q = i" "goodProposal q" using assms(3) q by (auto simp: propRep_def)
  let ?p = "withStatus st ex q"
  have e: "(if ex > 0 then q\<lparr>prStatus := st\<rparr>\<lparr>prExecutedAt := Some ex\<rparr> else q\<lparr>prStatus := st\<rparr>) = ?p"
    by (simp add: withStatus_def)
  obtain u1 t1 u2 t2 where t:
    "dbDelete P (?I (prStatus q)) s = (Inr u1, t1)"
    "wrapping ''failed to store updated proposal'' (dbSet P ?K (EncodeProposal G ?p)) t1 = (Inr u2, t2)"
    "wrapping ''failed to store new status index'' (dbSet P (?I st) [byteChar 1]) t2 = (Inr u, s')"
    using w q k unfolding andThen_eq_Inr
    by (auto simp: pebble_db.dbGet_eq [OF assms(1)] proposal_decodes [OF assms(2) gq(3)] andThen_eq_Inr e [symmetric])
  have v1: "view (db t1) = (view (db s))(?I (prStatus q) := None) \<and> closed t1 = closed s"
    using pebble_db.dbDelete_Inr [OF assms(1) t(1)] by (auto simp: only_db_def)
  note v = put_Inr [OF assms(1) t(2)] put_Inr [OF assms(1) t(3)]
  have "propRep view G s' (ps(c := (ps c)(i := Some ?p)))"
    by (rule propRep_put [OF assms(2,3), where ?st0.0 = "prStatus q"]) (use q gq v1 v in auto)
  with q show ?thesis by simp
qed

lemma propApply_run:
  assumes "pebble_db P view" "geth_codec G"
  shows "propRep view G s ps \<Longrightarrow> propOk xs ps \<Longrightarrow> forEach (propApply P G) xs s = (Inr u, s') \<Longrightarrow>
    propRep view G s' (fold propStep xs ps)"
proof (induction xs arbitrary: s ps)
  case (Cons x xs)
  obtain y t where t: "propApply P G x s = (Inr y, t)" "forEach (propApply P G) xs t = (Inr u, s')"
    using Cons.prems(3) by (auto simp: andThen_eq_Inr)
  have "propRep view G t (propStep x ps)"
    using StoreProposal_rep [OF assms Cons.prems(1)] UpdateProposalStatus_rep [OF assms Cons.prems(1)] t(1) Cons.prems(2)
    by (cases x) (auto simp del: propStep.simps)
  then show ?case using Cons.IH [OF _ _ t(2)] Cons.prems(2) by simp
qed simp

definition pageOf :: "int \<Rightarrow> int \<Rightarrow> 'a list \<Rightarrow> 'a list" where
  "pageOf limit offset xs = (let ys = drop (nat offset) xs in if limit > 0 then take (nat limit) ys else ys)"

lemma eventScan_eq:
  assumes "\<And>x. x \<in> set xs \<Longrightarrow> f (kv x) s = (Inr (Some (g x)), s)"
  shows "eventScan f limit offset (map kv xs) cnt skipped acc s =
    (Inr (acc @ (let ys = drop (nat (offset - skipped)) (map g xs) in if limit > 0 then take (nat (limit - cnt)) ys else ys)), s)"
  using assms
proof (induction xs arbitrary: cnt skipped acc)
  case (Cons x xs)
  consider (skip) "skipped < offset" | (stop) "offset \<le> skipped" "limit > 0" "limit \<le> cnt"
    | (item) "offset \<le> skipped" "\<not> (limit > 0 \<and> limit \<le> cnt)" by linarith
  then show ?case
  proof cases
    case skip
    then have "nat (offset - skipped) = Suc (nat (offset - (skipped + 1)))" by linarith
    with skip Cons show ?thesis by simp
  next
    case stop
    then show ?thesis by (simp add: Let_def)
  next
    case item
    then have "limit > 0 \<Longrightarrow> nat (limit - cnt) = Suc (nat (limit - (cnt + 1)))" by linarith
    with item Cons show ?thesis by (simp add: andThen_def Let_def)
  qed
qed (simp add: Let_def)

lemma GetProposalById_rep:
  assumes "pebble_db P view" "geth_codec G" "propRep view G s ps"
  shows "GetProposalById P G c i s = (Inr (ps c i), s)"
proof -
  have "view (db s) (ProposalKey G c (showInt i)) = map_option (EncodeProposal G) (ps c i)" "\<not> closed s"
    "\<And>p. ps c i = Some p \<Longrightarrow> goodProposal p"
    using assms(3) by (auto simp: propRep_def)
  then show ?thesis by (cases "ps c i")
    (simp_all add: GetProposalById_def guard_simps pebble_db.dbGet_eq [OF assms(1)] proposal_decodes [OF assms(2)])
qed

lemma showInt_below_ff: "showInt i < [byteChar 255]"
proof -
  have d: "showDec n < [byteChar 255]" for n
  proof -
    obtain c cs where c: "showDec n = c # cs" by (cases "showDec n") auto
    then have "isDecDigit c" using readDec_digits [OF readDec_showDec, of c n] by simp
    with c show ?thesis by (simp add: isDecDigit_def char_less_iff)
  qed
  have "byteVal CHR ''-'' = 45" by (simp add: byteVal_def)
  then show ?thesis using d by (simp add: showInt_def char_less_iff)
qed

lemma GetProposals_rep:
  assumes "pebble_db P view" "geth_codec G" "propRep view G s ps"
  shows "\<exists>xs. (\<forall>limit offset. GetProposals P G c st limit offset s = (Inr (pageOf limit offset xs), s)) \<and>
    sorted_wrt (\<lambda>p q. showInt (prProposalID p) < showInt (prProposalID q)) xs \<and>
    set xs = {p. ps c (prProposalID p) = Some p \<and> prStatus p = st}"
proof -
  let ?pfx = "ProposalStatusIndexKeyPrefix G c st"
  let ?t = "\<lambda>i. case ps c i of None \<Rightarrow> None | Some p \<Rightarrow> if prStatus p = st then Some [byteChar 1] else None"
  have o: "\<not> closed s" and ids: "\<And>i p. ps c i = Some p \<Longrightarrow> prProposalID p = i \<and> goodProposal p"
    using assms(3) by (auto simp: propRep_def)
  have "HasPrefix k ?pfx \<and> view (db s) k = Some v \<longleftrightarrow> (\<exists>i. ?t i = Some v \<and> k = ?pfx @ showInt i)" for k v
  proof -
    have "HasPrefix k ?pfx \<and> view (db s) k = Some v \<longleftrightarrow>
        (\<exists>i p. ps c i = Some p \<and> prStatus p = st \<and> k = ProposalStatusIndexKey G c st (showInt i) \<and> v = [byteChar 1])"
      using assms(3) unfolding propRep_def by blast
    also have "\<dots> \<longleftrightarrow> (\<exists>i. ?t i = Some v \<and> k = ?pfx @ showInt i)"
      by (auto simp: statusKey_eq split: option.splits if_splits) 
    finally show ?thesis .
  qed
  from table_scan [where f = showInt and t = ?t, OF assms(1) _ showInt_below_ff this]
  obtain ks where ks: "scanPrefix P ?pfx s = (Inr (map (\<lambda>i. (?pfx @ showInt i, the (?t i))) ks, None), s)"
    "sorted_wrt (\<lambda>i j. showInt i < showInt j) ks" "set ks = dom ?t" by auto
  let ?g = "\<lambda>i. the (ps c i)"
  have g: "ps c i = Some (?g i) \<and> prStatus (?g i) = st" if "i \<in> set ks" for i
    using that ks(3) by (auto split: option.splits if_splits)
  have item: "proposalItem P G c ?pfx (?pfx @ showInt i, the (?t i)) s = (Inr (Some (?g i)), s)" if "i \<in> set ks" for i
  proof -
    have "view (db s) (ProposalKey G c (showInt i)) = Some (EncodeProposal G (?g i))" "goodProposal (?g i)"
      using assms(3) g [OF that] unfolding propRep_def by (metis option.simps(9), metis)
    then show ?thesis
      by (simp add: proposalItem_def Let_def andThen_def catch_def pebble_db.dbGet_eq [OF assms(1)] proposal_decodes [OF assms(2)])
  qed
  have "GetProposals P G c st limit offset s = (Inr (pageOf limit offset (map ?g ks)), s)" for limit offset
    using eventScan_eq [where f = "proposalItem P G c ?pfx" and g = ?g, OF item] o ks(1)
    by (simp add: GetProposals_def guard_simps Let_def andThen_def loopThen_def pageOf_def)
  moreover have "sorted_wrt (\<lambda>p q. showInt (prProposalID p) < showInt (prProposalID q)) (map ?g ks)"
    unfolding sorted_wrt_map by (rule sorted_wrt_mono_rel [OF _ ks(2)]) (use g ids in metis)
  moreover have "set (map ?g ks) = {p. ps c (prProposalID p) = Some p \<and> prStatus p = st}"
  proof (intro set_eqI iffI)
    fix p assume "p \<in> set (map ?g ks)"
    then obtain i where "i \<in> set ks" "p = ?g i" by auto
    with g [of i] ids [of i p] show "p \<in> {p. ps c (prProposalID p) = Some p \<and> prStatus p = st}" by auto
  next
    fix p assume "p \<in> {p. ps c (prProposalID p) = Some p \<and> prStatus p = st}"
    then have "prProposalID p \<in> set ks" "p = ?g (prProposalID p)" using ks(3) by (auto simp: dom_def)
    then show "p \<in> set (map ?g ks)" by auto
  qed
  ultimately show ?thesis by blast
qed


lemma propRep_empty: "propRep map_of G (emptyStorage ([] :: (bytes \<times> bytes) list)) (\<lambda>_ _. None)"
  by (simp add: propRep_def emptyStorage_def)

lemma mem_ops:
  "dbSet memPebble k v s = (Inr (), s\<lparr>db := (k, v) # db s\<rparr>)"
  "dbDelete memPebble k s = (Inr (), s\<lparr>db := filter (\<lambda>e. fst e \<noteq> k) (db s)\<rparr>)"
  "dbGet memPebble k s = (case map_of (db s) k of None \<Rightarrow> Inl (FromPebble PNotFound) | Some v \<Rightarrow> Inr v, s)"
  by (simp_all add: dbSet_def dbDelete_def dbGet_def liftWrite_def memPebble_def split: option.split)


section \<open>Authorized accounts\<close>

text \<open>The table of the council's events holds at most one event for a block.\<close>

definition authRep :: "('db \<Rightarrow> bytes \<Rightarrow> bytes option) \<Rightarrow> geth \<Rightarrow> sysCodec \<Rightarrow> 'db storage \<Rightarrow>
    (u64 \<Rightarrow> AuthorizedAccountEvent option) \<Rightarrow> bool" where
  "authRep view G C s m \<longleftrightarrow> \<not> closed s \<and> (\<forall>n e. m n = Some e \<longrightarrow> jsonAuthorized C e \<noteq> None) \<and>
     (\<forall>k v. HasPrefix k (AuthorizedAccountEventKeyPrefix G GovCouncilAddress) \<and> view (db s) k = Some v \<longleftrightarrow>
        (\<exists>n e. m n = Some e \<and> k = AuthorizedAccountEventKey G GovCouncilAddress n 0 \<and> jsonAuthorized C e = Some v))"

definition blockName :: "u64 \<Rightarrow> bytes" where
  "blockName n = padDec 20 (unat n) @ CHR ''/'' # showDec 0"

lemma authKey_eq: "AuthorizedAccountEventKey G c n 0 = AuthorizedAccountEventKeyPrefix G c @ blockName n"
  by (simp add: AuthorizedAccountEventKey_def AuthorizedAccountEventKeyPrefix_def blockName_def)

lemma blockName_less: "blockName n < blockName m \<longleftrightarrow> n < m"
  unfolding blockName_def by (subst less_list_append_eqlen) simp_all

lemma blockName_inject: "blockName n = blockName m \<longleftrightarrow> n = m"
  unfolding blockName_def by (subst eqlen_append_inject) simp_all

lemma blockName_below_ff: "blockName n < [byteChar 255]"
proof -
  obtain c cs where c: "padDec 20 (unat n) = c # cs" by (cases "padDec 20 (unat n)") (auto simp: padBase_def)
  then have "isDecDigit c" using readDec_digits [OF readDec_padDec, of c 20 "unat n"] by simp
  then show ?thesis using c by (simp add: blockName_def isDecDigit_def char_less_iff)
qed

lemma collectJson_eq:
  "(\<And>x. x \<in> set xs \<Longrightarrow> dec (v x) = Some (g x)) \<Longrightarrow>
   collectJson msg dec (\<lambda>_. True) (map (\<lambda>x. (k x, v x)) xs) acc = Inr (acc @ map g xs)"
  by (induction xs arbitrary: acc) auto

lemma strict_sorted_set_eq:
  fixes xs ys :: "u64 list"
  shows "sorted_wrt (<) xs \<Longrightarrow> sorted_wrt (<) ys \<Longrightarrow> set xs = set ys \<Longrightarrow> xs = ys"
  by (metis sorted_list_of_set.idem_if_sorted_distinct strict_sorted_iff)

lemma GetAuthorizedAccounts_rep:
  assumes "pebble_db P view" "sys_codec C" "authRep view G C s m" "sorted_wrt (<) ns" "set ns = dom m"
  shows "GetAuthorizedAccounts P G C s = (Inr (fold replayAccount (map (\<lambda>n. the (m n)) ns) {}), s)"
proof -
  let ?pfx = "AuthorizedAccountEventKeyPrefix G GovCouncilAddress"
  let ?t = "\<lambda>n. Option.bind (m n) (jsonAuthorized C)"
  have "HasPrefix k ?pfx \<and> view (db s) k = Some v \<longleftrightarrow> (\<exists>n. ?t n = Some v \<and> k = ?pfx @ blockName n)" for k v
    using assms(3) unfolding authRep_def authKey_eq bind_eq_Some_conv by blast
  from table_scan [where f = blockName and t = ?t, OF assms(1) _ blockName_below_ff this]
  obtain xs where xs: "scanPrefix P ?pfx s = (Inr (map (\<lambda>n. (?pfx @ blockName n, the (?t n))) xs, None), s)"
    "sorted_wrt (<) xs" "set xs = dom ?t" by (auto simp: blockName_inject blockName_less)
  have enc: "\<exists>e v. m n = Some e \<and> jsonAuthorized C e = Some v" if "n \<in> dom m" for n
    using assms(3) that by (auto simp: authRep_def)
  have "n \<in> dom ?t \<longleftrightarrow> n \<in> dom m" for n
    using enc [of n] unfolding dom_def mem_Collect_eq by (cases "m n") auto
  then have "dom ?t = dom m" by blast
  with xs(2,3) assms(4,5) have [simp]: "xs = ns" by (intro strict_sorted_set_eq) auto
  have "unjsonAuthorized C (the (?t n)) = Some (the (m n))" if "n \<in> set xs" for n
    using enc [of n] that assms(5) sys_codec.json_authorized [OF assms(2)] by auto
  from collectJson_eq [where v = "\<lambda>n. the (?t n)" and dec = "unjsonAuthorized C" and g = "\<lambda>n. the (m n)", OF this] xs(1) assms(3)
  show ?thesis by (simp add: GetAuthorizedAccounts_def jsonHistory_def guard_simps andThen_def loopThen_def authRep_def)
qed

lemma StoreAuthorized_rep:
  assumes "pebble_db P view" "authRep view G C s m" "aaContract e = GovCouncilAddress"
    "StoreAuthorizedAccountEvent P G C e s = (Inr u, s')"
  shows "authRep view G C s' (m(aaBlockNumber e \<mapsto> e))"
proof -
  let ?n = "aaBlockNumber e"
  have o: "\<not> closed s" using assms(2) by (simp add: authRep_def)
  obtain b where b: "jsonAuthorized C e = Some b"
    "wrapping ''failed to store authorized account event'' (dbSet P (AuthorizedAccountEventKey G GovCouncilAddress ?n 0) b) s = (Inr u, s')"
    using assms(3,4) o by (auto simp: StoreAuthorizedAccountEvent_def guard_simps setEncoded_def jsonOr_def split: option.splits)
  note v = put_Inr [OF assms(1) b(2)]
  have old: "HasPrefix k (AuthorizedAccountEventKeyPrefix G GovCouncilAddress) \<and> view (db s) k = Some w \<longleftrightarrow>
      (\<exists>n e. m n = Some e \<and> k = AuthorizedAccountEventKey G GovCouncilAddress n 0 \<and> jsonAuthorized C e = Some w)" for k w
    using assms(2) unfolding authRep_def by blast
  have "HasPrefix k (AuthorizedAccountEventKeyPrefix G GovCouncilAddress) \<and> view (db s') k = Some w \<longleftrightarrow>
      (\<exists>n f. (m(?n \<mapsto> e)) n = Some f \<and> k = AuthorizedAccountEventKey G GovCouncilAddress n 0 \<and> jsonAuthorized C f = Some w)" for k w
  proof (cases "k = AuthorizedAccountEventKey G GovCouncilAddress ?n 0")
    case True
    then show ?thesis using v b(1) by (auto simp: authKey_eq blockName_inject HasPrefix_def)
  next
    case False
    then have "view (db s') k = view (db s) k" using v by simp
    then have "HasPrefix k (AuthorizedAccountEventKeyPrefix G GovCouncilAddress) \<and> view (db s') k = Some w \<longleftrightarrow>
        (\<exists>n f. m n = Some f \<and> k = AuthorizedAccountEventKey G GovCouncilAddress n 0 \<and> jsonAuthorized C f = Some w)"
      using old [of k w] by simp
    also have "\<dots> \<longleftrightarrow> (\<exists>n f. (m(?n \<mapsto> e)) n = Some f \<and> k = AuthorizedAccountEventKey G GovCouncilAddress n 0 \<and> jsonAuthorized C f = Some w)"
      using False by (metis fun_upd_other)
    finally show ?thesis .
  qed
  then show ?thesis using assms(2) v b(1) unfolding authRep_def by auto
qed

lemma StoreAuthorized_run:
  assumes "pebble_db P view"
  shows "authRep view G C s m \<Longrightarrow> (\<forall>e\<in>set es. aaContract e = GovCouncilAddress) \<Longrightarrow>
    forEach (StoreAuthorizedAccountEvent P G C) es s = (Inr u, s') \<Longrightarrow>
    authRep view G C s' (fold (\<lambda>e m. m(aaBlockNumber e \<mapsto> e)) es m)"
proof (induction es arbitrary: s m)
  case (Cons e es)
  obtain x t where t: "StoreAuthorizedAccountEvent P G C e s = (Inr x, t)"
    "forEach (StoreAuthorizedAccountEvent P G C) es t = (Inr u, s')"
    using Cons.prems(3) by (auto simp: andThen_eq_Inr)
  then show ?case using Cons.IH [OF StoreAuthorized_rep [OF assms Cons.prems(1) _ t(1)] _ t(2)] Cons.prems(2) by simp
qed simp

lemma fold_events:
  "sorted_wrt (\<lambda>e f. aaBlockNumber e < aaBlockNumber f) es \<Longrightarrow>
   (\<forall>e\<in>set es. fold (\<lambda>e m. m(aaBlockNumber e \<mapsto> e)) es m (aaBlockNumber e) = Some e) \<and>
   dom (fold (\<lambda>e m. m(aaBlockNumber e \<mapsto> e)) es m) = dom m \<union> aaBlockNumber ` set es \<and>
   (\<forall>n. n \<notin> aaBlockNumber ` set es \<longrightarrow> fold (\<lambda>e m. m(aaBlockNumber e \<mapsto> e)) es m n = m n)"
proof (induction es arbitrary: m)
  case (Cons a es)
  then have "aaBlockNumber a \<notin> aaBlockNumber ` set es" by auto
  with Cons show ?case by auto
qed simp

definition lastAction :: "address \<Rightarrow> AuthorizedAccountEvent list \<Rightarrow> string option" where
  "lastAction x es = (case filter (\<lambda>e. aaAccount e = x \<and> aaAction e \<in> {''added'', ''removed''}) es of
     [] \<Rightarrow> None | f # fs \<Rightarrow> Some (aaAction (last (f # fs))))"

lemma lastAction_snoc:
  "lastAction x (es @ [e]) =
     (if aaAccount e = x \<and> aaAction e \<in> {''added'', ''removed''} then Some (aaAction e) else lastAction x es)"
  by (cases "filter (\<lambda>e. aaAccount e = x \<and> aaAction e \<in> {''added'', ''removed''}) es") (auto simp: lastAction_def)

lemma replay_lastAction: "fold replayAccount es {} = {x. lastAction x es = Some ''added''}"
proof (induction es rule: rev_induct)
  case Nil
  then show ?case by (simp add: lastAction_def)
next
  case (snoc e es)
  then show ?case by (auto simp: lastAction_snoc replayAccount_def)
qed

text \<open>
  C18: the authorized accounts are the replay of the events of the council: when the events were stored in the
  order of the blocks, one for a block, the query returns those accounts that were added and not removed since.
\<close>

theorem authorized_accounts_replayed:
  assumes "pebble_db P view" "sys_codec C" "authRep view G C s (\<lambda>_. None)"
    and "\<forall>e\<in>set es. aaContract e = GovCouncilAddress" "sorted_wrt (\<lambda>e f. aaBlockNumber e < aaBlockNumber f) es"
    and "forEach (StoreAuthorizedAccountEvent P G C) es s = (Inr (), s')"
  shows "GetAuthorizedAccounts P G C s' = (Inr {x. lastAction x es = Some ''added''}, s')"
proof -
  let ?m = "fold (\<lambda>e m. m(aaBlockNumber e \<mapsto> e)) es (\<lambda>_. None)"
  have m: "\<forall>e\<in>set es. ?m (aaBlockNumber e) = Some e" "dom ?m = set (map aaBlockNumber es)"
    using fold_events [OF assms(5), of "\<lambda>_. None"] by auto
  have "map (\<lambda>n. the (?m n)) (map aaBlockNumber es) = es" using m(1) by (auto intro!: map_idI simp: o_def)
  moreover have "sorted_wrt (<) (map aaBlockNumber es)" using assms(5) by (simp add: sorted_wrt_map)
  ultimately show ?thesis
    using GetAuthorizedAccounts_rep [OF assms(1,2) StoreAuthorized_run [OF assms(1,3,4,6)], of "map aaBlockNumber es"] m(2)
    by (simp add: replay_lastAction)
qed

definition sampleAuth :: "u64 \<Rightarrow> address \<Rightarrow> string \<Rightarrow> AuthorizedAccountEvent" where
  "sampleAuth n x action = \<lparr>aaContract = GovCouncilAddress, aaBlockNumber = n, aaTxHash = 21, aaAccount = x,
     aaProposalID = 1, aaAction = action, aaTimestamp = 1000\<rparr>"

definition sampleVote :: ProposalVote where
  "sampleVote = \<lparr>pvContract = GovCouncilAddress, pvProposalID = 1, pvVoter = 5, pvApproval = True, pvBlockNumber = 7,
     pvTxHash = 21, pvTimestamp = 1000\<rparr>"

lemma authRep_empty: "authRep map_of G C (emptyStorage ([] :: (bytes \<times> bytes) list)) (\<lambda>_. None)"
  by (simp add: authRep_def emptyStorage_def)

theorem authorized_accounts_replayed_witness:
  "let es = [sampleAuth 100 5 ''added'', sampleAuth 200 6 ''added'', sampleAuth 300 5 ''removed''];
     C = refSys sampleVote es;
     s' = snd (forEach (StoreAuthorizedAccountEvent memPebble sampleGeth C) es (emptyStorage ([] :: (bytes \<times> bytes) list)))
   in GetAuthorizedAccounts memPebble sampleGeth C s' = (Inr {6}, s')"
proof -
  let ?es = "[sampleAuth 100 5 ''added'', sampleAuth 200 6 ''added'', sampleAuth 300 5 ''removed'']"
  let ?C = "refSys sampleVote ?es"
  let ?r = "forEach (StoreAuthorizedAccountEvent memPebble sampleGeth ?C) ?es (emptyStorage ([] :: (bytes \<times> bytes) list))"
  have "fst ?r = Inr ()"
    by (simp add: StoreAuthorizedAccountEvent_def guard_simps emptyStorage_def setEncoded_def jsonOr_def refSys_def mem_ops
      andThen_def wrapping_def sampleAuth_def upt_rec)
  then have r: "?r = (Inr (), snd ?r)" by (simp add: prod_eq_iff)
  have "{x. lastAction x ?es = Some ''added''} = {6}"
    by (auto simp: lastAction_def sampleAuth_def)
  with authorized_accounts_replayed [OF memPebble.pebble_db_axioms refSys.sys_codec_axioms authRep_empty _ _ r]
  show ?thesis by (simp add: sampleAuth_def)
qed

section \<open>What cannot be read\<close>

lemma collectJson_fails:
  "(k, v) \<in> set es \<Longrightarrow> dec v = None \<Longrightarrow> \<exists>e. collectJson msg dec keep es acc = Inl e"
proof (induction es arbitrary: acc)
  case (Cons e es)
  then show ?case by (cases e) (auto split: option.splits)
qed simp

lemma jsonHistory_fails:
  assumes "pebble_db P view" "HasPrefix k pfx" "k < pfx @ [byteChar 255]" "view (db s) k = Some v" "dec v = None"
  shows "\<exists>e. fst (jsonHistory P pfx msg dec keep s) = Inl e"
proof (cases "closed s")
  case False
  obtain es where es: "dbIter P (Some pfx) (Some (pfx @ [byteChar 255])) s = (Inr (es, None), s)"
    "\<forall>k v. (k, v) \<in> set es \<longleftrightarrow> inRange (Some pfx) (Some (pfx @ [byteChar 255])) k \<and> view (db s) k = Some v"
    using pebble_db.dbIter_eq [OF assms(1)] by blast
  have "(k, v) \<in> set es" using es(2) assms(2-4) prefix_imp_le [of pfx k] by (auto simp: inRange_def HasPrefix_def)
  then obtain e where "collectJson msg dec keep es [] = Inl e" using collectJson_fails [of k v es dec] assms(5) by blast
  with es(1) False show ?thesis
    by (simp add: jsonHistory_def guard_simps scanPrefix_def wrapping_def andThen_def loopThen_def)
qed (simp add: jsonHistory_def andThen_def ensureNotClosed_def)

lemma rlp_not_json: "rlpText b \<Longrightarrow> \<not> jsonText b"
  by (simp add: rlpText_def jsonText_def)

text \<open>One stored change of a minter's configuration, and the history of the minter is an error from then on.\<close>

lemma minter_history_unreadable:
  assumes "pebble_db P view" "sys_codec C" "StoreMinterConfigEvent P G C ev s = (Inr u, s')"
  shows "\<exists>e. fst (GetMinterHistory P G C (mcMinter ev) s') = Inl e"
proof -
  obtain b where b: "rlpMinterConfig C ev = Some b" "wrapping ''failed to store minter config event''
      (dbSet P (MinterConfigEventKey G (mcMinter ev) (mcBlockNumber ev)) b) s = (Inr u, s')"
    using writable_Inr [OF assms(3)[unfolded StoreMinterConfigEvent_def]]
    by (auto simp: setEncoded_def rlpOr_def split: option.splits)
  have "unjsonMinterConfig C b = None"
    using sys_codec.rlp_minterConfig [OF assms(2) b(1)] sys_codec.json_minterConfig [OF assms(2), of b] rlp_not_json
    by (cases "unjsonMinterConfig C b") auto
  then show ?thesis unfolding GetMinterHistory_def
    by (intro jsonHistory_fails [OF assms(1), where k = "MinterConfigEventKey G (mcMinter ev) (mcBlockNumber ev)" and v = b])
      (use put_Inr [OF assms(1) b(2)] padDec_less_ff in
        \<open>simp_all add: MinterConfigEventKey_def MinterConfigEventKeyPrefix_def HasPrefix_def\<close>)
qed

lemma hd_fixedDigits: "hd (fixedDigits d b (Suc w) n) = d (n div b ^ w mod b)"
proof (induction w arbitrary: n)
  case (Suc w)
  have "fixedDigits d b (Suc (Suc w)) n = fixedDigits d b (Suc w) (n div b) @ [d (n mod b)]" by simp
  moreover have "fixedDigits d b (Suc w) (n div b) \<noteq> []" by simp
  ultimately show ?case using Suc.IH [of "n div b"] by (metis div_mult2_eq hd_append2 power_Suc)
qed simp

text \<open>A change of a validator is binary, and its first byte is the highest byte of the height.\<close>

lemma validator_history_unreadable:
  assumes "pebble_db P view" "sys_codec C" "StoreValidatorChangeEvent P G ev s = (Inr u, s')" "vcBlockNumber ev < 2 ^ 56"
  shows "\<exists>e. fst (GetValidatorHistory P G C (vcValidator ev) s') = Inl e"
proof -
  let ?b = "EncodeValidatorChangeEvent G ev"
  have st: "wrapping ''failed to store validator change event''
      (dbSet P (ValidatorChangeEventKey G (vcValidator ev) (vcBlockNumber ev)) ?b) s = (Inr u, s')"
    using writable_Inr [OF assms(3)[unfolded StoreValidatorChangeEvent_def]] by simp
  have "unat (vcBlockNumber ev) < 2 ^ 56" using assms(4) by (simp add: word_less_nat_alt)
  then have "hd (EncodeUint64 (vcBlockNumber ev)) = byteChar 0"
    using hd_fixedDigits [of byteChar 256 7 "unat (vcBlockNumber ev)"] by (simp add: EncodeUint64_def)
  then have "hd ?b = byteChar 0"
    unfolding EncodeValidatorChangeEvent_def by (subst hd_append2) (simp_all flip: length_0_conv)
  then have "\<not> jsonText ?b" by (simp add: jsonText_def)
  then have "unjsonValidator C ?b = None"
    using sys_codec.json_validator [OF assms(2), of ?b] by (cases "unjsonValidator C ?b") auto
  then show ?thesis unfolding GetValidatorHistory_def
    by (intro jsonHistory_fails [OF assms(1), where k = "ValidatorChangeEventKey G (vcValidator ev) (vcBlockNumber ev)" and v = ?b])
      (use put_Inr [OF assms(1) st] padDec_less_ff in
        \<open>simp_all add: ValidatorChangeEventKey_def ValidatorChangeEventKeyPrefix_def HasPrefix_def\<close>)
qed

text \<open>The supply is stored without its sign.\<close>

lemma supply_loses_sign:
  "GetTotalSupply memPebble (snd (UpdateTotalSupply memPebble (- 5) (emptyStorage ([] :: (bytes \<times> bytes) list)))) =
    (Inr 5, snd (UpdateTotalSupply memPebble (- 5) (emptyStorage ([] :: (bytes \<times> bytes) list))))"
proof -
  have z: "DecodeBigInt (EncodeBigInt (Some 0)) = 0" "DecodeBigInt (EncodeBigInt (Some (- 5))) = 5"
    using DecodeBigInt_bigBytes [of 5] by (simp_all add: EncodeBigInt_def DecodeBigInt_def)
  show ?thesis
    by (simp add: GetTotalSupply_def UpdateTotalSupply_def guard_simps emptyStorage_def DefaultConfig_def andThen_def catch_def
      mem_ops wrapping_def Let_def z)
qed

text \<open>A query for all proposals looks for those whose status is 255.\<close>

lemma proposals_all_empty:
  assumes "pebble_db P view" "geth_codec G" "propRep view G s ps"
    and "\<And>i p. ps c i = Some p \<Longrightarrow> prStatus p \<noteq> ProposalStatusAll"
  shows "GetProposals P G c ProposalStatusAll limit offset s = (Inr [], s)"
proof -
  obtain xs where xs: "\<forall>limit offset. GetProposals P G c ProposalStatusAll limit offset s = (Inr (pageOf limit offset xs), s)"
    "set xs = {p. ps c (prProposalID p) = Some p \<and> prStatus p = ProposalStatusAll}"
    using GetProposals_rep [OF assms(1-3)] by blast
  have "set xs = {}" using xs(2) assms(4) by auto
  then show ?thesis using xs(1) by (simp add: pageOf_def Let_def)
qed

text \<open>Of two events of the same block only the second is kept.\<close>

lemma authorized_same_block:
  assumes "pebble_db P view" "sys_codec C" "authRep view G C s (\<lambda>_. None)"
    and "aaContract e = GovCouncilAddress" "aaContract f = GovCouncilAddress" "aaBlockNumber f = aaBlockNumber e"
    and "forEach (StoreAuthorizedAccountEvent P G C) [e, f] s = (Inr u, s')"
  shows "GetAuthorizedAccounts P G C s' = (Inr (replayAccount f {}), s')"
proof -
  have "authRep view G C s' [aaBlockNumber e \<mapsto> f]"
    using StoreAuthorized_run [OF assms(1,3) _ assms(7)] assms(4-6) by simp
  from GetAuthorizedAccounts_rep [OF assms(1,2) this, of "[aaBlockNumber e]"] show ?thesis by simp
qed

end
