(* ===== verification/SysEvents.thy ===== *)
theory SysEvents
  imports Frame SysState EventBus
begin

text \<open>
  The parsers of the system contracts' events (\<^verbatim>\<open>pkg/events/system_contracts.go\<close>) with the constants they
  use (\<^verbatim>\<open>internal/constants/system_contracts.go\<close>): a log is routed by its first topic, checked, stored, and
  published. Keccak-256 is the parameter \<open>kec\<close>. The capacity of a slice is taken to be its length.
\<close>

section \<open>Contracts and signatures\<close>

definition NativeCoinAdapterAddress :: address where "NativeCoinAdapterAddress = 0x1000"
definition GovMasterMinterAddress :: address where "GovMasterMinterAddress = 0x1002"
definition GovMinterAddress :: address where "GovMinterAddress = 0x1003"

definition SystemContractName :: "(address \<times> string) list" where
  "SystemContractName =
     [(NativeCoinAdapterAddress, ''NativeCoinAdapter''), (GovValidatorAddress, ''GovValidator''),
      (GovMasterMinterAddress, ''GovMasterMinter''), (GovMinterAddress, ''GovMinter''), (GovCouncilAddress, ''GovCouncil'')]"

definition IsSystemContract :: "address \<Rightarrow> bool" where
  "IsSystemContract addr \<longleftrightarrow> addr \<in> {NativeCoinAdapterAddress, GovValidatorAddress, GovMasterMinterAddress,
     GovMinterAddress, GovCouncilAddress}"

definition GetSystemContractName :: "address \<Rightarrow> string" where
  "GetSystemContractName addr = (case map_of SystemContractName addr of Some name \<Rightarrow> name | None \<Rightarrow> [])"

text \<open>The signature of an event is the hash of its text; here with the names of \<^verbatim>\<open>EventSignatureToName\<close>.\<close>

definition eventSignatures :: "(string \<times> string) list" where
  "eventSignatures =
     [(''Transfer'', ''Transfer(address,address,uint256)''), (''Approval'', ''Approval(address,address,uint256)''),
      (''Mint'', ''Mint(address,address,uint256)''), (''Burn'', ''Burn(address,uint256)''),
      (''MinterConfigured'', ''MinterConfigured(address,uint256)''), (''MinterRemoved'', ''MinterRemoved(address)''),
      (''MasterMinterChanged'', ''MasterMinterChanged(address)''),
      (''ProposalCreated'', ''ProposalCreated(uint256,address,bytes32,bytes,uint256,uint256,uint256)''),
      (''ProposalVoted'', ''ProposalVoted(uint256,address,bool,uint256,uint256)''),
      (''ProposalApproved'', ''ProposalApproved(uint256,address,uint256,uint256)''),
      (''ProposalRejected'', ''ProposalRejected(uint256,address,uint256,uint256)''),
      (''ProposalExecuted'', ''ProposalExecuted(uint256,address,bool)''),
      (''ProposalFailed'', ''ProposalFailed(uint256,address,bytes)''),
      (''ProposalExpired'', ''ProposalExpired(uint256,address)''),
      (''ProposalCancelled'', ''ProposalCancelled(uint256,address)''),
      (''MemberAdded'', ''MemberAdded(address,uint256,uint32)''), (''MemberRemoved'', ''MemberRemoved(address,uint256,uint32)''),
      (''MemberChanged'', ''MemberChanged(address,address)''), (''QuorumUpdated'', ''QuorumUpdated(uint32,uint32)''),
      (''MaxProposalsPerMemberUpdated'', ''MaxProposalsPerMemberUpdated(uint256,uint256)''),
      (''GasTipUpdated'', ''GasTipUpdated(uint256,uint256,address)''),
      (''MaxMinterAllowanceUpdated'', ''MaxMinterAllowanceUpdated(uint256,uint256)''),
      (''EmergencyPaused'', ''EmergencyPaused(uint256)''), (''EmergencyUnpaused'', ''EmergencyUnpaused(uint256)''),
      (''DepositMintProposed'', ''DepositMintProposed(uint256,address,uint256,string)''),
      (''BurnPrepaid'', ''BurnPrepaid(address,uint256)''), (''BurnExecuted'', ''BurnExecuted(address,uint256,string)''),
      (''AddressBlacklisted'', ''AddressBlacklisted(address,uint256)''),
      (''AddressUnblacklisted'', ''AddressUnblacklisted(address,uint256)''),
      (''AuthorizedAccountAdded'', ''AuthorizedAccountAdded(address,uint256)''),
      (''AuthorizedAccountRemoved'', ''AuthorizedAccountRemoved(address,uint256)''),
      (''ProposalExecutionSkipped'', ''ProposalExecutionSkipped(address,uint256,string)'')]"

definition EventSig :: "(string \<Rightarrow> hash) \<Rightarrow> string \<Rightarrow> hash" where
  "EventSig kec name = kec (the (map_of eventSignatures name))"

definition GetEventName :: "(string \<Rightarrow> hash) \<Rightarrow> hash \<Rightarrow> string" where
  "GetEventName kec sig = (case filter (\<lambda>x. kec (snd x) = sig) eventSignatures of x # _ \<Rightarrow> fst x | [] \<Rightarrow> ''Unknown'')"

section \<open>The parser\<close>

record 'db sysParser =
  spStore :: "'db storage"
  spBus :: "EventBus option"
  spNow :: gotime

definition NewSystemContractEventParser :: "'db storage \<Rightarrow> gotime \<Rightarrow> 'db sysParser" where
  "NewSystemContractEventParser s now = \<lparr>spStore = s, spBus = None, spNow = now\<rparr>"

definition SetEventBus :: "EventBus option \<Rightarrow> 'db sysParser \<Rightarrow> 'db sysParser" where
  "SetEventBus eb p = p\<lparr>spBus := eb\<rparr>"

text \<open>A storage operation whose error is wrapped.\<close>

definition storeAs :: "string \<Rightarrow> ('db storage, 'a) op \<Rightarrow> ('db sysParser, 'a) op" where
  "storeAs msg m = (\<lambda>p. case m (spStore p) of
     (Inl e, s') \<Rightarrow> (Inl (wrapErr msg e), p\<lparr>spStore := s'\<rparr>)
   | (Inr x, s') \<Rightarrow> (Inr x, p\<lparr>spStore := s'\<rparr>))"

definition publishEvent :: "log \<Rightarrow> string \<Rightarrow> (string \<times> custom_value) list \<Rightarrow> ('db sysParser, unit) op" where
  "publishEvent l eventName data = (\<lambda>p. (Inr (), case spBus p of
     None \<Rightarrow> p
   | Some eb \<Rightarrow> p\<lparr>spBus := Some (snd (Publish (NewSystemContractEvent (spNow p) (lAddress l) eventName (lBlockNumber l)
        (lTxHash l) (lIndex l) data) eb))\<rparr>))"

definition expectTopics :: "nat \<Rightarrow> log \<Rightarrow> ('s, 'a) op \<Rightarrow> ('s, 'a) op" where
  "expectTopics n l m = (if length (lTopics l) \<noteq> n then throw (Errorf ''invalid event: wrong number of topics'') else m)"

definition expectData :: "nat \<Rightarrow> log \<Rightarrow> ('s, 'a) op \<Rightarrow> ('s, 'a) op" where
  "expectData n l m = (if length (lData l) \<noteq> n then throw (Errorf ''invalid event: wrong length of data'') else m)"

text \<open>Topics and 32-byte words of the data.\<close>

definition topicAddr :: "geth \<Rightarrow> log \<Rightarrow> nat \<Rightarrow> address" where
  "topicAddr G l i = bytesToAddr G (hashBytes (lTopics l ! i))"

definition topicInt :: "log \<Rightarrow> nat \<Rightarrow> int" where
  "topicInt l i = SetBytes (hashBytes (lTopics l ! i))"

definition dataWord :: "log \<Rightarrow> nat \<Rightarrow> bytes" where
  "dataWord l off = take 32 (drop off (lData l))"

definition bigUint64 :: "int \<Rightarrow> u64" where
  "bigUint64 i = word_of_int i"

definition bigUint32 :: "int \<Rightarrow> u32" where
  "bigUint32 i = ucast (bigUint64 i)"

text \<open>
  A string in the data: the offset is read from the head, then its length, in 64-bit arithmetic that wraps;
  a slice whose bounds are out of order or behind the end is a panic.
\<close>

definition slice64 :: "bytes \<Rightarrow> u64 \<Rightarrow> u64 \<Rightarrow> serror + bytes" where
  "slice64 data lo hi = (if lo \<le> hi \<and> hi \<le> word_of_nat (length data)
     then Inr (take (unat hi - unat lo) (drop (unat lo) data)) else Inl (Panic ''slice bounds out of range''))"

definition dynamicBytes :: "bytes \<Rightarrow> u64 \<Rightarrow> serror + bytes" where
  "dynamicBytes data off = (let n = word_of_nat (length data) in
     if off + 32 \<le> n then
       case slice64 data off (off + 32) of
         Inl e \<Rightarrow> Inl e
       | Inr w \<Rightarrow> let len = bigUint64 (SetBytes w); start = off + 32; stop = start + len
           in if stop \<le> n then slice64 data start stop else Inr []
     else Inr [])"

definition guardedBytes :: "bytes \<Rightarrow> u64 \<Rightarrow> serror + bytes" where
  "guardedBytes data off = (if off < word_of_nat (length data) then dynamicBytes data off else Inr [])"

definition orPanic :: "serror + 'a \<Rightarrow> ('s, 'a) op" where
  "orPanic r = (\<lambda>s. (r, s))"

section \<open>The parsers\<close>

definition parseMintEvent :: "'db pebble \<Rightarrow> geth \<Rightarrow> sysCodec \<Rightarrow> log \<Rightarrow> ('db sysParser, unit) op" where
  "parseMintEvent P G C l =
     expectTopics 3 l (expectData 32 l (
     let minter = topicAddr G l 1; to = topicAddr G l 2; amount = SetBytes (lData l);
         event = \<lparr>meBlockNumber = lBlockNumber l, meTxHash = lTxHash l, meMinter = minter, meTo = to,
           meAmount = amount, meTimestamp = 0\<rparr>
     in andThen (storeAs ''failed to store mint event'' (StoreMintEvent P C event)) (\<lambda>_.
        andThen (storeAs ''failed to update total supply'' (UpdateTotalSupply P amount)) (\<lambda>_.
        publishEvent l ''Mint'' [(''minter'', StringValue (addrHex G minter)),
          (''to'', StringValue (addrHex G to)), (''amount'', StringValue (showInt amount))]))))"

definition parseBurnEvent :: "'db pebble \<Rightarrow> geth \<Rightarrow> sysCodec \<Rightarrow> log \<Rightarrow> ('db sysParser, unit) op" where
  "parseBurnEvent P G C l =
     expectTopics 2 l (expectData 32 l (
     let burner = topicAddr G l 1; amount = SetBytes (lData l);
         event = \<lparr>buBlockNumber = lBlockNumber l, buTxHash = lTxHash l, buBurner = burner, buAmount = amount,
           buTimestamp = 0, buWithdrawalID = []\<rparr>
     in andThen (storeAs ''failed to store burn event'' (StoreBurnEvent P C event)) (\<lambda>_.
        andThen (storeAs ''failed to update total supply'' (UpdateTotalSupply P (- amount))) (\<lambda>_.
        publishEvent l ''Burn'' [(''burner'', StringValue (addrHex G burner)),
          (''amount'', StringValue (showInt amount))]))))"

definition parseMinterConfiguredEvent :: "'db pebble \<Rightarrow> geth \<Rightarrow> sysCodec \<Rightarrow> log \<Rightarrow> ('db sysParser, unit) op" where
  "parseMinterConfiguredEvent P G C l =
     expectTopics 2 l (expectData 32 l (
     let minter = topicAddr G l 1; allowance = SetBytes (lData l);
         event = \<lparr>mcBlockNumber = lBlockNumber l, mcTxHash = lTxHash l, mcMinter = minter, mcAllowance = allowance,
           mcAction = ''configured'', mcTimestamp = 0\<rparr>
     in andThen (storeAs ''failed to store minter config event'' (StoreMinterConfigEvent P G C event)) (\<lambda>_.
        andThen (storeAs ''failed to update active minter'' (UpdateActiveMinter P G minter (Some allowance) True)) (\<lambda>_.
        publishEvent l ''MinterConfigured'' [(''minter'', StringValue (addrHex G minter)),
          (''allowance'', StringValue (showInt allowance))]))))"

definition parseMinterRemovedEvent :: "'db pebble \<Rightarrow> geth \<Rightarrow> sysCodec \<Rightarrow> log \<Rightarrow> ('db sysParser, unit) op" where
  "parseMinterRemovedEvent P G C l =
     expectTopics 2 l (
     let minter = topicAddr G l 1;
         event = \<lparr>mcBlockNumber = lBlockNumber l, mcTxHash = lTxHash l, mcMinter = minter, mcAllowance = 0,
           mcAction = ''removed'', mcTimestamp = 0\<rparr>
     in andThen (storeAs ''failed to store minter config event'' (StoreMinterConfigEvent P G C event)) (\<lambda>_.
        andThen (storeAs ''failed to update active minter'' (UpdateActiveMinter P G minter (Some 0) False)) (\<lambda>_.
        publishEvent l ''MinterRemoved'' [(''minter'', StringValue (addrHex G minter))])))"

text \<open>The topics are not counted here.\<close>

definition parseMasterMinterChangedEvent :: "geth \<Rightarrow> log \<Rightarrow> ('db sysParser, unit) op" where
  "parseMasterMinterChangedEvent G l =
     (if length (lTopics l) \<le> 1 then throw (Panic ''index out of range'')
      else publishEvent l ''MasterMinterChanged'' [(''newMasterMinter'', StringValue (addrHex G (topicAddr G l 1)))])"

definition parseProposalCreatedEvent :: "'db pebble \<Rightarrow> geth \<Rightarrow> log \<Rightarrow> ('db sysParser, unit) op" where
  "parseProposalCreatedEvent P G l =
     expectTopics 3 l (
     if length (lData l) < 128 then throw (Errorf ''invalid ProposalCreated event: data too short'') else
     let proposalID = topicInt l 1; proposer = topicAddr G l 2; actionType = copyToHash (dataWord l 0);
         memberVersion = SetBytes (dataWord l 32); requiredApprovals = bigUint32 (SetBytes (dataWord l 64))
     in andThen (orPanic (guardedBytes (lData l) (bigUint64 (SetBytes (dataWord l 96))))) (\<lambda>callData.
        let proposal = \<lparr>prContract = lAddress l, prProposalID = proposalID, prProposer = proposer, prActionType = actionType,
          prCallData = callData, prMemberVersion = memberVersion, prRequiredApprovals = requiredApprovals, prApproved = 0,
          prRejected = 0, prStatus = ProposalStatusVoting, prCreatedAt = 0, prExecutedAt = None,
          prBlockNumber = lBlockNumber l, prTxHash = lTxHash l\<rparr>
        in andThen (storeAs ''failed to store proposal'' (StoreProposal P G proposal)) (\<lambda>_.
           publishEvent l ''ProposalCreated'' [(''proposalId'', StringValue (showInt proposalID)),
          (''proposer'', StringValue (addrHex G proposer)),
          (''actionType'', StringValue (padHex 64 (unat actionType))),
          (''memberVersion'', StringValue (showInt memberVersion)),
          (''requiredApprovals'', NumberValue (ucast requiredApprovals))])))"

definition parseProposalVotedEvent :: "'db pebble \<Rightarrow> geth \<Rightarrow> sysCodec \<Rightarrow> log \<Rightarrow> ('db sysParser, unit) op" where
  "parseProposalVotedEvent P G C l =
     expectTopics 3 l (expectData 96 l (
     let proposalID = topicInt l 1; voter = topicAddr G l 2; approval = (bigUint64 (SetBytes (dataWord l 0)) \<noteq> 0);
         vote = \<lparr>pvContract = lAddress l, pvProposalID = proposalID, pvVoter = voter, pvApproval = approval,
           pvBlockNumber = lBlockNumber l, pvTxHash = lTxHash l, pvTimestamp = 0\<rparr>
     in andThen (storeAs ''failed to store proposal vote'' (StoreProposalVote P G C vote)) (\<lambda>_.
        publishEvent l ''ProposalVoted'' [(''proposalId'', StringValue (showInt proposalID)),
          (''voter'', StringValue (addrHex G voter)), (''approval'', BoolValue approval)])))"

text \<open>The events that change the status of a proposal; \<open>rest\<close> is what else is published.\<close>

definition statusEvent :: "'db pebble \<Rightarrow> geth \<Rightarrow> ProposalStatus \<Rightarrow> u64 \<Rightarrow> string \<Rightarrow> string \<Rightarrow> (string \<times> custom_value) list \<Rightarrow>
    log \<Rightarrow> ('db sysParser, unit) op" where
  "statusEvent P G status executedAt name who rest l =
     expectTopics 3 l (
     let proposalID = topicInt l 1
     in andThen (storeAs ''failed to update proposal status''
          (UpdateProposalStatus P G (lAddress l) proposalID status executedAt)) (\<lambda>_.
        publishEvent l name ([(''proposalId'', StringValue (showInt proposalID)), (who, StringValue (addrHex G (topicAddr G l 2)))] @ rest)))"

definition parseProposalApprovedEvent :: "'db pebble \<Rightarrow> geth \<Rightarrow> log \<Rightarrow> ('db sysParser, unit) op" where
  "parseProposalApprovedEvent P G l =
     statusEvent P G ProposalStatusApproved 0 ''ProposalApproved'' ''approver'' [] l"

definition parseProposalRejectedEvent :: "'db pebble \<Rightarrow> geth \<Rightarrow> log \<Rightarrow> ('db sysParser, unit) op" where
  "parseProposalRejectedEvent P G l =
     statusEvent P G ProposalStatusRejected 0 ''ProposalRejected'' ''rejector'' [] l"

definition parseProposalExecutedEvent :: "'db pebble \<Rightarrow> geth \<Rightarrow> log \<Rightarrow> ('db sysParser, unit) op" where
  "parseProposalExecutedEvent P G l =
     statusEvent P G ProposalStatusExecuted (lBlockNumber l) ''ProposalExecuted'' ''executor'' 
       [(''success'', BoolValue (length (lData l) \<ge> 32 \<and> bigUint64 (SetBytes (dataWord l 0)) \<noteq> 0))] l"

definition parseProposalFailedEvent :: "'db pebble \<Rightarrow> geth \<Rightarrow> log \<Rightarrow> ('db sysParser, unit) op" where
  "parseProposalFailedEvent P G l =
     statusEvent P G ProposalStatusFailed (lBlockNumber l) ''ProposalFailed'' ''executor'' [] l"

definition parseProposalExpiredEvent :: "'db pebble \<Rightarrow> geth \<Rightarrow> log \<Rightarrow> ('db sysParser, unit) op" where
  "parseProposalExpiredEvent P G l =
     statusEvent P G ProposalStatusExpired 0 ''ProposalExpired'' ''executor'' [] l"

definition parseProposalCancelledEvent :: "'db pebble \<Rightarrow> geth \<Rightarrow> log \<Rightarrow> ('db sysParser, unit) op" where
  "parseProposalCancelledEvent P G l =
     statusEvent P G ProposalStatusCancelled 0 ''ProposalCancelled'' ''canceller'' [] l"

definition parseMemberAddedEvent :: "'db pebble \<Rightarrow> geth \<Rightarrow> log \<Rightarrow> ('db sysParser, unit) op" where
  "parseMemberAddedEvent P G l =
     expectTopics 2 l (expectData 64 l (
     let member = topicAddr G l 1; totalMembers = bigUint64 (SetBytes (dataWord l 0));
         newQuorum = bigUint32 (SetBytes (dataWord l 32));
         event = \<lparr>mbContract = lAddress l, mbBlockNumber = lBlockNumber l, mbTxHash = lTxHash l, mbMember = member,
           mbAction = ''added'', mbOldMember = None, mbTotalMembers = totalMembers, mbNewQuorum = newQuorum, mbTimestamp = 0\<rparr>
     in andThen (storeAs ''failed to store member change event'' (StoreMemberChangeEvent P G event)) (\<lambda>_.
        andThen (if lAddress l = GovValidatorAddress
          then storeAs ''failed to update active validator'' (UpdateActiveValidator P G member True) else ret ()) (\<lambda>_.
        publishEvent l ''MemberAdded'' [(''member'', StringValue (addrHex G member)),
          (''totalMembers'', NumberValue totalMembers), (''newQuorum'', NumberValue (ucast newQuorum))]))))"

definition parseMemberRemovedEvent :: "'db pebble \<Rightarrow> geth \<Rightarrow> log \<Rightarrow> ('db sysParser, unit) op" where
  "parseMemberRemovedEvent P G l =
     expectTopics 2 l (expectData 64 l (
     let member = topicAddr G l 1; totalMembers = bigUint64 (SetBytes (dataWord l 0));
         newQuorum = bigUint32 (SetBytes (dataWord l 32));
         event = \<lparr>mbContract = lAddress l, mbBlockNumber = lBlockNumber l, mbTxHash = lTxHash l, mbMember = member,
           mbAction = ''removed'', mbOldMember = None, mbTotalMembers = totalMembers, mbNewQuorum = newQuorum, mbTimestamp = 0\<rparr>
     in andThen (storeAs ''failed to store member change event'' (StoreMemberChangeEvent P G event)) (\<lambda>_.
        andThen (if lAddress l = GovValidatorAddress
          then storeAs ''failed to update active validator'' (UpdateActiveValidator P G member False) else ret ()) (\<lambda>_.
        publishEvent l ''MemberRemoved'' [(''member'', StringValue (addrHex G member)),
          (''totalMembers'', NumberValue totalMembers), (''newQuorum'', NumberValue (ucast newQuorum))]))))"

definition parseMemberChangedEvent :: "'db pebble \<Rightarrow> geth \<Rightarrow> log \<Rightarrow> ('db sysParser, unit) op" where
  "parseMemberChangedEvent P G l =
     expectTopics 3 l (
     let oldMember = topicAddr G l 1; newMember = topicAddr G l 2;
         event = \<lparr>mbContract = lAddress l, mbBlockNumber = lBlockNumber l, mbTxHash = lTxHash l, mbMember = newMember,
           mbAction = ''changed'', mbOldMember = Some oldMember, mbTotalMembers = 0, mbNewQuorum = 0, mbTimestamp = 0\<rparr>;
         change = \<lparr>vcBlockNumber = lBlockNumber l, vcTxHash = lTxHash l, vcValidator = newMember, vcAction = ''changed'',
           vcOldValidator = Some oldMember, vcTimestamp = 0\<rparr>
     in andThen (storeAs ''failed to store member change event'' (StoreMemberChangeEvent P G event)) (\<lambda>_.
        andThen (if lAddress l = GovValidatorAddress
          then andThen (storeAs ''failed to update active validator (old)'' (UpdateActiveValidator P G oldMember False)) (\<lambda>_.
            andThen (storeAs ''failed to update active validator (new)'' (UpdateActiveValidator P G newMember True)) (\<lambda>_.
            storeAs ''failed to store validator change event'' (StoreValidatorChangeEvent P G change)))
          else ret ()) (\<lambda>_.
        publishEvent l ''MemberChanged'' [(''oldMember'', StringValue (addrHex G oldMember)),
          (''newMember'', StringValue (addrHex G newMember))])))"

text \<open>The quorum and the limit on allowances are published only; without the data they are zero.\<close>

definition parseQuorumUpdatedEvent :: "log \<Rightarrow> ('db sysParser, unit) op" where
  "parseQuorumUpdatedEvent  l =
     (let word = (\<lambda>off. if length (lData l) \<ge> 64 then bigUint32 (SetBytes (dataWord l off)) else 0)
      in publishEvent l ''QuorumUpdated'' [(''oldQuorum'', NumberValue (ucast (word 0))),
          (''newQuorum'', NumberValue (ucast (word 32)))])"

definition parseGasTipUpdatedEvent :: "'db pebble \<Rightarrow> geth \<Rightarrow> sysCodec \<Rightarrow> log \<Rightarrow> ('db sysParser, unit) op" where
  "parseGasTipUpdatedEvent P G C l =
     expectTopics 2 l (expectData 64 l (
     let oldTip = SetBytes (dataWord l 0); newTip = SetBytes (dataWord l 32); updater = topicAddr G l 1;
         event = \<lparr>gtBlockNumber = lBlockNumber l, gtTxHash = lTxHash l, gtOldTip = oldTip, gtNewTip = newTip,
           gtUpdater = updater, gtTimestamp = 0\<rparr>
     in andThen (storeAs ''failed to store gas tip update event'' (StoreGasTipUpdateEvent P C event)) (\<lambda>_.
        publishEvent l ''GasTipUpdated'' [(''oldTip'', StringValue (showInt oldTip)),
          (''newTip'', StringValue (showInt newTip)), (''updater'', StringValue (addrHex G updater))])))"

definition parseMaxMinterAllowanceUpdatedEvent :: "log \<Rightarrow> ('db sysParser, unit) op" where
  "parseMaxMinterAllowanceUpdatedEvent  l =
     (let limit = (\<lambda>off. if length (lData l) \<ge> 64 then showInt (SetBytes (dataWord l off)) else ''0'')
      in publishEvent l ''MaxMinterAllowanceUpdated'' [(''oldLimit'', StringValue (limit 0)),
          (''newLimit'', StringValue (limit 32))])"

definition parseEmergencyPausedEvent :: "'db pebble \<Rightarrow> geth \<Rightarrow> sysCodec \<Rightarrow> log \<Rightarrow> ('db sysParser, unit) op" where
  "parseEmergencyPausedEvent P G C l =
     expectTopics 2 l (
     let proposalID = topicInt l 1;
         event = \<lparr>epContract = lAddress l, epBlockNumber = lBlockNumber l, epTxHash = lTxHash l, epProposalID = proposalID,
           epAction = ''paused'', epTimestamp = 0\<rparr>
     in andThen (storeAs ''failed to store emergency pause event'' (StoreEmergencyPauseEvent P G C event)) (\<lambda>_.
        publishEvent l ''EmergencyPaused'' [(''proposalId'', StringValue (showInt proposalID))]))"

definition parseEmergencyUnpausedEvent :: "'db pebble \<Rightarrow> geth \<Rightarrow> sysCodec \<Rightarrow> log \<Rightarrow> ('db sysParser, unit) op" where
  "parseEmergencyUnpausedEvent P G C l =
     expectTopics 2 l (
     let proposalID = topicInt l 1;
         event = \<lparr>epContract = lAddress l, epBlockNumber = lBlockNumber l, epTxHash = lTxHash l, epProposalID = proposalID,
           epAction = ''unpaused'', epTimestamp = 0\<rparr>
     in andThen (storeAs ''failed to store emergency pause event'' (StoreEmergencyPauseEvent P G C event)) (\<lambda>_.
        publishEvent l ''EmergencyUnpaused'' [(''proposalId'', StringValue (showInt proposalID))]))"

definition parseDepositMintProposedEvent :: "'db pebble \<Rightarrow> geth \<Rightarrow> sysCodec \<Rightarrow> log \<Rightarrow> ('db sysParser, unit) op" where
  "parseDepositMintProposedEvent P G C l =
     expectTopics 4 l (
     if length (lData l) < 96 then throw (Errorf ''invalid DepositMintProposed event: data too short'') else
     let proposalID = topicInt l 1; requester = topicAddr G l 3;
         beneficiary = bytesToAddr G (take 20 (drop 12 (lData l))); amount = SetBytes (dataWord l 32)
     in andThen (orPanic (guardedBytes (lData l) (bigUint64 (SetBytes (dataWord l 64))))) (\<lambda>bankReference.
        let proposal = \<lparr>dmProposalID = proposalID, dmRequester = requester, dmBeneficiary = beneficiary, dmAmount = amount,
          dmDepositID = [], dmBankReference = bankReference, dmStatus = ProposalStatusVoting,
          dmBlockNumber = lBlockNumber l, dmTxHash = lTxHash l, dmTimestamp = 0\<rparr>
        in andThen (storeAs ''failed to store deposit mint proposal'' (StoreDepositMintProposal P C proposal)) (\<lambda>_.
           publishEvent l ''DepositMintProposed'' [(''proposalId'', StringValue (showInt proposalID)),
          (''requester'', StringValue (addrHex G requester)),
          (''beneficiary'', StringValue (addrHex G beneficiary)),
          (''amount'', StringValue (showInt amount)), (''bankReference'', StringValue bankReference)])))"

definition parseBurnPrepaidEvent :: "geth \<Rightarrow> log \<Rightarrow> ('db sysParser, unit) op" where
  "parseBurnPrepaidEvent G l =
     expectTopics 2 l (expectData 32 l (
     publishEvent l ''BurnPrepaid'' [(''user'', StringValue (addrHex G (topicAddr G l 1))),
          (''amount'', StringValue (showInt (SetBytes (lData l))))]))"

definition parseBurnExecutedEvent :: "'db pebble \<Rightarrow> geth \<Rightarrow> sysCodec \<Rightarrow> log \<Rightarrow> ('db sysParser, unit) op" where
  "parseBurnExecutedEvent P G C l =
     expectTopics 3 l (
     let burner = topicAddr G l 1; amount = topicInt l 2
     in andThen (orPanic (if length (lData l) \<ge> 64 then dynamicBytes (lData l) (bigUint64 (SetBytes (dataWord l 0))) else Inr [])) (\<lambda>withdrawalID.
        let event = \<lparr>buBlockNumber = lBlockNumber l, buTxHash = lTxHash l, buBurner = burner, buAmount = amount,
          buTimestamp = 0, buWithdrawalID = withdrawalID\<rparr>
        in andThen (storeAs ''failed to store burn event'' (StoreBurnEvent P C event)) (\<lambda>_.
           andThen (storeAs ''failed to update total supply'' (UpdateTotalSupply P (- amount))) (\<lambda>_.
           publishEvent l ''BurnExecuted'' [(''from'', StringValue (addrHex G burner)),
          (''amount'', StringValue (showInt amount)), (''withdrawalId'', StringValue withdrawalID)]))))"

definition parseAddressBlacklistedEvent :: "'db pebble \<Rightarrow> geth \<Rightarrow> sysCodec \<Rightarrow> log \<Rightarrow> ('db sysParser, unit) op" where
  "parseAddressBlacklistedEvent P G C l =
     expectTopics 3 l (
     let account = topicAddr G l 1; proposalID = topicInt l 2;
         event = \<lparr>blBlockNumber = lBlockNumber l, blTxHash = lTxHash l, blAccount = account, blAction = ''blacklisted'',
           blProposalID = proposalID, blTimestamp = 0\<rparr>
     in andThen (storeAs ''failed to store blacklist event'' (StoreBlacklistEvent P G C event)) (\<lambda>_.
        andThen (storeAs ''failed to update blacklist status'' (UpdateBlacklistStatus P G account True)) (\<lambda>_.
        publishEvent l ''AddressBlacklisted'' [(''account'', StringValue (addrHex G account)),
          (''proposalId'', StringValue (showInt proposalID))])))"

definition parseAddressUnblacklistedEvent :: "'db pebble \<Rightarrow> geth \<Rightarrow> sysCodec \<Rightarrow> log \<Rightarrow> ('db sysParser, unit) op" where
  "parseAddressUnblacklistedEvent P G C l =
     expectTopics 3 l (
     let account = topicAddr G l 1; proposalID = topicInt l 2;
         event = \<lparr>blBlockNumber = lBlockNumber l, blTxHash = lTxHash l, blAccount = account, blAction = ''unblacklisted'',
           blProposalID = proposalID, blTimestamp = 0\<rparr>
     in andThen (storeAs ''failed to store blacklist event'' (StoreBlacklistEvent P G C event)) (\<lambda>_.
        andThen (storeAs ''failed to update blacklist status'' (UpdateBlacklistStatus P G account False)) (\<lambda>_.
        publishEvent l ''AddressUnblacklisted'' [(''account'', StringValue (addrHex G account)),
          (''proposalId'', StringValue (showInt proposalID))])))"

definition parseAuthorizedAccountAddedEvent :: "'db pebble \<Rightarrow> geth \<Rightarrow> sysCodec \<Rightarrow> log \<Rightarrow> ('db sysParser, unit) op" where
  "parseAuthorizedAccountAddedEvent P G C l =
     expectTopics 3 l (
     let account = topicAddr G l 1; proposalID = topicInt l 2;
         event = \<lparr>aaContract = lAddress l, aaBlockNumber = lBlockNumber l, aaTxHash = lTxHash l, aaAccount = account,
           aaProposalID = proposalID, aaAction = ''added'', aaTimestamp = 0\<rparr>
     in andThen (storeAs ''failed to store authorized account added event'' (StoreAuthorizedAccountEvent P G C event)) (\<lambda>_.
        publishEvent l ''AuthorizedAccountAdded'' [(''account'', StringValue (addrHex G account)),
          (''proposalId'', StringValue (showInt proposalID))]))"

definition parseAuthorizedAccountRemovedEvent :: "'db pebble \<Rightarrow> geth \<Rightarrow> sysCodec \<Rightarrow> log \<Rightarrow> ('db sysParser, unit) op" where
  "parseAuthorizedAccountRemovedEvent P G C l =
     expectTopics 3 l (
     let account = topicAddr G l 1; proposalID = topicInt l 2;
         event = \<lparr>aaContract = lAddress l, aaBlockNumber = lBlockNumber l, aaTxHash = lTxHash l, aaAccount = account,
           aaProposalID = proposalID, aaAction = ''removed'', aaTimestamp = 0\<rparr>
     in andThen (storeAs ''failed to store authorized account removed event'' (StoreAuthorizedAccountEvent P G C event)) (\<lambda>_.
        publishEvent l ''AuthorizedAccountRemoved'' [(''account'', StringValue (addrHex G account)),
          (''proposalId'', StringValue (showInt proposalID))]))"

definition parseMaxProposalsPerMemberUpdatedEvent :: "'db pebble \<Rightarrow> geth \<Rightarrow> sysCodec \<Rightarrow> log \<Rightarrow> ('db sysParser, unit) op" where
  "parseMaxProposalsPerMemberUpdatedEvent P G C l =
     expectTopics 1 l (expectData 64 l (
     let oldMax = bigUint64 (SetBytes (dataWord l 0)); newMax = bigUint64 (SetBytes (dataWord l 32));
         event = \<lparr>mpContract = lAddress l, mpBlockNumber = lBlockNumber l, mpTxHash = lTxHash l, mpOldMax = oldMax,
           mpNewMax = newMax, mpTimestamp = 0\<rparr>
     in andThen (storeAs ''failed to store max proposals update event'' (StoreMaxProposalsUpdateEvent P G C event)) (\<lambda>_.
        publishEvent l ''MaxProposalsPerMemberUpdated'' [(''oldMax'', NumberValue oldMax),
          (''newMax'', NumberValue newMax)])))"

definition parseProposalExecutionSkippedEvent :: "'db pebble \<Rightarrow> geth \<Rightarrow> sysCodec \<Rightarrow> log \<Rightarrow> ('db sysParser, unit) op" where
  "parseProposalExecutionSkippedEvent P G C l =
     expectTopics 3 l (
     let account = topicAddr G l 1; proposalID = topicInt l 2
     in andThen (orPanic (if length (lData l) \<ge> 64 then dynamicBytes (lData l) (bigUint64 (SetBytes (dataWord l 0))) else Inr [])) (\<lambda>reason.
        let event = \<lparr>psContract = lAddress l, psBlockNumber = lBlockNumber l, psTxHash = lTxHash l, psAccount = account,
          psProposalID = proposalID, psReason = reason, psTimestamp = 0\<rparr>
        in andThen (storeAs ''failed to store proposal execution skipped event''
             (StoreProposalExecutionSkippedEvent P G C event)) (\<lambda>_.
           publishEvent l ''ProposalExecutionSkipped'' [(''account'', StringValue (addrHex G account)),
          (''proposalId'', StringValue (showInt proposalID)), (''reason'', StringValue reason)])))"

section \<open>Routing\<close>

text \<open>The cases of the switch in order: the first signature that is equal decides.\<close>

definition parsers :: "'db pebble \<Rightarrow> geth \<Rightarrow> sysCodec \<Rightarrow> (string \<times> (log \<Rightarrow> ('db sysParser, unit) op)) list" where
  "parsers P G C =
     [(''Mint'', parseMintEvent P G C),
      (''Burn'', parseBurnEvent P G C),
      (''MinterConfigured'', parseMinterConfiguredEvent P G C),
      (''MinterRemoved'', parseMinterRemovedEvent P G C),
      (''MasterMinterChanged'', parseMasterMinterChangedEvent G),
      (''ProposalCreated'', parseProposalCreatedEvent P G),
      (''ProposalVoted'', parseProposalVotedEvent P G C),
      (''ProposalApproved'', parseProposalApprovedEvent P G),
      (''ProposalRejected'', parseProposalRejectedEvent P G),
      (''ProposalExecuted'', parseProposalExecutedEvent P G),
      (''ProposalFailed'', parseProposalFailedEvent P G),
      (''ProposalExpired'', parseProposalExpiredEvent P G),
      (''ProposalCancelled'', parseProposalCancelledEvent P G),
      (''MemberAdded'', parseMemberAddedEvent P G),
      (''MemberRemoved'', parseMemberRemovedEvent P G),
      (''MemberChanged'', parseMemberChangedEvent P G),
      (''QuorumUpdated'', parseQuorumUpdatedEvent),
      (''MaxProposalsPerMemberUpdated'', parseMaxProposalsPerMemberUpdatedEvent P G C),
      (''GasTipUpdated'', parseGasTipUpdatedEvent P G C),
      (''MaxMinterAllowanceUpdated'', parseMaxMinterAllowanceUpdatedEvent),
      (''EmergencyPaused'', parseEmergencyPausedEvent P G C),
      (''EmergencyUnpaused'', parseEmergencyUnpausedEvent P G C),
      (''DepositMintProposed'', parseDepositMintProposedEvent P G C),
      (''BurnPrepaid'', parseBurnPrepaidEvent G),
      (''BurnExecuted'', parseBurnExecutedEvent P G C),
      (''AddressBlacklisted'', parseAddressBlacklistedEvent P G C),
      (''AddressUnblacklisted'', parseAddressUnblacklistedEvent P G C),
      (''AuthorizedAccountAdded'', parseAuthorizedAccountAddedEvent P G C),
      (''AuthorizedAccountRemoved'', parseAuthorizedAccountRemovedEvent P G C),
      (''ProposalExecutionSkipped'', parseProposalExecutionSkippedEvent P G C)]"

fun route :: "(string \<Rightarrow> hash) \<Rightarrow> hash \<Rightarrow> (string \<times> 'a) list \<Rightarrow> (string \<times> 'a) option" where
  "route kec sig [] = None"
| "route kec sig ((name, f) # rs) = (if sig = EventSig kec name then Some (name, f) else route kec sig rs)"

definition parseAndIndexLog :: "'db pebble \<Rightarrow> geth \<Rightarrow> sysCodec \<Rightarrow> (string \<Rightarrow> hash) \<Rightarrow> log \<Rightarrow> ('db sysParser, unit) op" where
  "parseAndIndexLog P G C kec l =
     (if \<not> IsSystemContract (lAddress l) then ret ()
      else if lTopics l = [] then ret ()
      else case route kec (hd (lTopics l)) (parsers P G C) of
          Some (name, parse) \<Rightarrow> parse l
        | None \<Rightarrow> ret ())"

text \<open>A log that cannot be parsed is reported and skipped; a panic ends the run.\<close>

fun ParseAndIndexLogs :: "'db pebble \<Rightarrow> geth \<Rightarrow> sysCodec \<Rightarrow> (string \<Rightarrow> hash) \<Rightarrow> log list \<Rightarrow> ('db sysParser, unit) op" where
  "ParseAndIndexLogs P G C kec [] = ret ()"
| "ParseAndIndexLogs P G C kec (l # ls) = (\<lambda>p. case parseAndIndexLog P G C kec l p of
       (Inl (Panic m), p') \<Rightarrow> (Inl (Panic m), p')
     | (_, p') \<Rightarrow> ParseAndIndexLogs P G C kec ls p')"

text \<open>As the fetcher calls it: the logs of one receipt at a time, on the storage.\<close>

definition systemEvents :: "'db pebble \<Rightarrow> geth \<Rightarrow> sysCodec \<Rightarrow> (string \<Rightarrow> hash) \<Rightarrow> log list \<Rightarrow> ('db storage, unit) op" where
  "systemEvents P G C kec logs = (\<lambda>s.
     let (r, p) = ParseAndIndexLogs P G C kec logs (NewSystemContractEventParser s 0) in (r, spStore p))"

section \<open>What a log means for the current state\<close>

text \<open>The changes of supply, minters, validators and blacklist a log stands for; a malformed log stands for none.\<close>

definition updatesOf :: "geth \<Rightarrow> string \<Rightarrow> log \<Rightarrow> sysUpdate list" where
  "updatesOf G name l =
     (let t = length (lTopics l); d = length (lData l); a = topicAddr G l 1; v = (lAddress l = GovValidatorAddress) in
      if name = ''Mint'' then if t = 3 \<and> d = 32 then [USupply (SetBytes (lData l))] else []
      else if name = ''Burn'' then if t = 2 \<and> d = 32 then [USupply (- SetBytes (lData l))] else []
      else if name = ''MinterConfigured'' then if t = 2 \<and> d = 32 then [UMinter a (SetBytes (lData l)) True] else []
      else if name = ''MinterRemoved'' then if t = 2 then [UMinter a 0 False] else []
      else if name = ''MemberAdded'' then if t = 2 \<and> d = 64 \<and> v then [UValidator a True] else []
      else if name = ''MemberRemoved'' then if t = 2 \<and> d = 64 \<and> v then [UValidator a False] else []
      else if name = ''MemberChanged'' then if t = 3 \<and> v then [UValidator a False, UValidator (topicAddr G l 2) True] else []
      else if name = ''BurnExecuted'' then if t = 3 then [USupply (- topicInt l 2)] else []
      else if name = ''AddressBlacklisted'' then if t = 3 then [UBlacklist a True] else []
      else if name = ''AddressUnblacklisted'' then if t = 3 then [UBlacklist a False] else []
      else [])"

definition parserNames :: "string list" where
  "parserNames =
     [''Mint'', ''Burn'', ''MinterConfigured'', ''MinterRemoved'', ''MasterMinterChanged'',
      ''ProposalCreated'', ''ProposalVoted'', ''ProposalApproved'', ''ProposalRejected'',
      ''ProposalExecuted'', ''ProposalFailed'', ''ProposalExpired'', ''ProposalCancelled'',
      ''MemberAdded'', ''MemberRemoved'', ''MemberChanged'', ''QuorumUpdated'',
      ''MaxProposalsPerMemberUpdated'', ''GasTipUpdated'', ''MaxMinterAllowanceUpdated'',
      ''EmergencyPaused'', ''EmergencyUnpaused'', ''DepositMintProposed'', ''BurnPrepaid'',
      ''BurnExecuted'', ''AddressBlacklisted'', ''AddressUnblacklisted'', ''AuthorizedAccountAdded'',
      ''AuthorizedAccountRemoved'', ''ProposalExecutionSkipped'']"

definition logUpdates :: "geth \<Rightarrow> (string \<Rightarrow> hash) \<Rightarrow> log \<Rightarrow> sysUpdate list" where
  "logUpdates G kec l = (if \<not> IsSystemContract (lAddress l) \<or> lTopics l = [] then []
     else case find (\<lambda>n. hd (lTopics l) = EventSig kec n) parserNames of Some name \<Rightarrow> updatesOf G name l | None \<Rightarrow> [])"

lemma parserNames_eq: "map fst (parsers P G C) = parserNames"
  by (simp add: parsers_def parserNames_def)

lemma route_find: "route kec sig rs = Some (n, f) \<Longrightarrow> find (\<lambda>n. sig = EventSig kec n) (map fst rs) = Some n \<and> (n, f) \<in> set rs"
  by (induction kec sig rs rule: route.induct) (auto split: if_splits)

lemma route_none: "route kec sig rs = None \<Longrightarrow> find (\<lambda>n. sig = EventSig kec n) (map fst rs) = None"
  by (induction kec sig rs rule: route.induct) (auto split: if_splits)

text \<open>
  A hypothesis: RLP encodes a record whose amounts are not negative.
\<close>

definition codecTotal :: "sysCodec \<Rightarrow> bool" where
  "codecTotal C \<longleftrightarrow> (\<forall>e. 0 \<le> meAmount e \<longrightarrow> rlpMint C e \<noteq> None) \<and> (\<forall>e. 0 \<le> buAmount e \<longrightarrow> rlpBurn C e \<noteq> None) \<and>
     (\<forall>e. 0 \<le> mcAllowance e \<longrightarrow> rlpMinterConfig C e \<noteq> None) \<and> (\<forall>e. 0 \<le> blProposalID e \<longrightarrow> rlpBlacklist C e \<noteq> None)"

section \<open>Storage operations\<close>

definition sysKey :: "bytes \<Rightarrow> bool" where
  "sysKey k \<longleftrightarrow> k = TotalSupplyKey \<or> HasPrefix k prefixIdxMinterActive \<or> HasPrefix k prefixIdxValidatorActive \<or>
     HasPrefix k prefixIdxBlacklistActive"

text \<open>The keys of the events, proposals and votes.\<close>

definition eventKey :: "bytes \<Rightarrow> bool" where
  "eventKey k \<longleftrightarrow> HasPrefix k ''/data/syscontracts/'' \<or> HasPrefix k prefixIdxProposalStatus"

lemma eventKeys [simp]:
  "eventKey (MintEventKey n i j)" "eventKey (BurnEventKey n i j)" "eventKey (MinterConfigEventKey G a n)"
  "eventKey (ProposalKey G a x)" "eventKey (ProposalStatusIndexKey G a st x)" "eventKey (ProposalVoteKey G a x b)"
  "eventKey (GasTipUpdateEventKey n i)" "eventKey (BlacklistEventKey G a n)" "eventKey (ValidatorChangeEventKey G a n)"
  "eventKey (MemberChangeEventKey G a n i)" "eventKey (EmergencyPauseEventKey G a n i)" "eventKey (DepositMintProposalKey x)"
  "eventKey (MaxProposalsUpdateEventKey G a n i)" "eventKey (ProposalExecutionSkippedEventKey G a n i)"
  "eventKey (AuthorizedAccountEventKey G a n i)"
  by (simp_all add: eventKey_def key_defs HasPrefix_def)

definition spares :: "(bytes \<Rightarrow> bool) \<Rightarrow> bool" where
  "spares X \<longleftrightarrow> (\<forall>k. eventKey k \<longrightarrow> \<not> X k)"

lemma spares_sysKey: "spares sysKey"
  by (auto simp: spares_def sysKey_def eventKey_def HasPrefix_def prefix_def key_defs)

lemma frame_sysRep:
  assumes "frame view sysKey s s'" "sysRep view G s a"
  shows "sysRep view G s' a"
proof -
  have v: "view (db s') TotalSupplyKey = view (db s) TotalSupplyKey" and c: "closed s' = closed s"
    using assms(1) by (simp_all add: frame_def sysKey_def)
  have "addrTable view G pfx t s'" if "addrTable view G pfx t s"
    and p: "pfx \<in> {prefixIdxMinterActive, prefixIdxValidatorActive, prefixIdxBlacklistActive}" for pfx t
  proof -
    have "view (db s') k = view (db s) k" if "HasPrefix k pfx" for k
      using assms(1) p that by (auto simp: frame_def sysKey_def)
    moreover have "HasPrefix (pfx @ x) pfx" for x by (simp add: HasPrefix_def)
    ultimately show ?thesis using \<open>addrTable view G pfx t s\<close> unfolding addrTable_def by metis
  qed
  then show ?thesis using assms(2) unfolding sysRep_def v c by blast
qed

lemma sysOk_append: "sysOk (us @ vs) a \<longleftrightarrow> sysOk us a \<and> sysOk vs (fold sysStep us a)"
  by (induction us arbitrary: a) auto

context pebble_db
begin

lemma frame_dbDelete [frame_rules]: "\<not> X k \<Longrightarrow> keeps (frame view X) (dbDelete P k)"
  unfolding keeps_def
proof
  fix s
  assume "\<not> X k"
  then show "frame view X s (snd (dbDelete P k s))"
    using dbDelete_Inr [of k s] dbDelete_Inl [of k s]
    by (cases "dbDelete P k s"; cases "fst (dbDelete P k s)") (auto simp: frame_def only_db_def)
qed

lemma frame_setEncoded [frame_rules]: "\<not> X k \<Longrightarrow> keeps (frame view X) (setEncoded P msg k r)"
  unfolding setEncoded_def by (intro frame_sum) (simp_all add: frame_rules)

lemma frame_setActive [frame_rules]: "\<not> X k \<Longrightarrow> keeps (frame view X) (setActive P m m' k v b)"
  unfolding setActive_def by (intro frame_rules) simp_all

lemma frame_UpdateTotalSupply [frame_rules]: "\<not> X TotalSupplyKey \<Longrightarrow> keeps (frame view X) (UpdateTotalSupply P d)"
  unfolding UpdateTotalSupply_def Let_def by (intro frame_rules) simp_all

lemma frame_sysApply [frame_rules]: "keeps (frame view (\<lambda>_. False)) (sysApply P G u)"
  by (cases u) (simp_all add: UpdateActiveMinter_def UpdateActiveValidator_def UpdateBlacklistStatus_def frame_rules)

lemma frame_StoreProposal: "spares X \<Longrightarrow> keeps (frame view X) (StoreProposal P G p)"
  unfolding StoreProposal_def by (intro frame_rules) (simp_all add: spares_def)

lemma frame_UpdateProposalStatus: "spares X \<Longrightarrow> keeps (frame view X) (UpdateProposalStatus P G c i st ex)"
  unfolding UpdateProposalStatus_def Let_def by (intro frame_rules frame_sum) (simp_all add: spares_def)

lemma frame_events:
  "spares X \<Longrightarrow> keeps (frame view X) (StoreProposalVote P G C v)" "spares X \<Longrightarrow> keeps (frame view X) (StoreGasTipUpdateEvent P C e1)"
  "spares X \<Longrightarrow> keeps (frame view X) (StoreEmergencyPauseEvent P G C e2)"
  "spares X \<Longrightarrow> keeps (frame view X) (StoreDepositMintProposal P C e3)"
  "spares X \<Longrightarrow> keeps (frame view X) (StoreMaxProposalsUpdateEvent P G C e4)"
  "spares X \<Longrightarrow> keeps (frame view X) (StoreProposalExecutionSkippedEvent P G C e5)"
  "spares X \<Longrightarrow> keeps (frame view X) (StoreAuthorizedAccountEvent P G C e6)"
  "spares X \<Longrightarrow> keeps (frame view X) (StoreMintEvent P C e7)" "spares X \<Longrightarrow> keeps (frame view X) (StoreBurnEvent P C e8)"
  "spares X \<Longrightarrow> keeps (frame view X) (StoreMinterConfigEvent P G C e9)" "spares X \<Longrightarrow> keeps (frame view X) (StoreBlacklistEvent P G C e10)"
  "spares X \<Longrightarrow> keeps (frame view X) (StoreMemberChangeEvent P G e11)"
  "spares X \<Longrightarrow> keeps (frame view X) (StoreValidatorChangeEvent P G e12)"
  unfolding StoreProposalVote_def StoreGasTipUpdateEvent_def StoreEmergencyPauseEvent_def StoreDepositMintProposal_def
    StoreMaxProposalsUpdateEvent_def StoreProposalExecutionSkippedEvent_def StoreAuthorizedAccountEvent_def
    StoreMintEvent_def StoreBurnEvent_def StoreMinterConfigEvent_def StoreBlacklistEvent_def StoreMemberChangeEvent_def
    StoreValidatorChangeEvent_def
  by (intro frame_rules; simp add: spares_def)+

lemma frame_active:
  "\<not> X (MinterActiveIndexKey G x) \<Longrightarrow> keeps (frame view X) (UpdateActiveMinter P G x n b)"
  "\<not> X (ValidatorActiveIndexKey G x) \<Longrightarrow> keeps (frame view X) (UpdateActiveValidator P G x b)"
  "\<not> X (BlacklistActiveIndexKey G x) \<Longrightarrow> keeps (frame view X) (UpdateBlacklistStatus P G x b)"
  by (simp_all add: UpdateActiveMinter_def UpdateActiveValidator_def UpdateBlacklistStatus_def frame_setActive)

end

text \<open>Under \<open>neverFails\<close> a write to a writable storage succeeds.\<close>

definition writes :: "('db storage \<Rightarrow> bool) \<Rightarrow> ('db storage, unit) op \<Rightarrow> bool" where
  "writes I m \<longleftrightarrow> (\<forall>s. I s \<longrightarrow> fst (m s) = Inr ())"

definition openRW :: "'db storage \<Rightarrow> bool" where
  "openRW s \<longleftrightarrow> \<not> closed s \<and> \<not> ReadOnly (config s)"

lemma fst_wrapping: "fst (m s) = Inr x \<Longrightarrow> fst (wrapping msg m s) = Inr x"
  by (cases "m s") (auto simp: wrapping_def catch_def)

lemma writes_put: "neverFails P \<Longrightarrow> writes openRW (writable (wrapping msg (dbSet P k v)))"
  by (simp add: writes_def openRW_def guard_simps fst_wrapping neverFails_dbSet)

lemma writes_setEncoded: "neverFails P \<Longrightarrow> writes openRW (writable (setEncoded P msg k (Inr b)))"
  using writes_put by (simp add: setEncoded_def)

lemma writes_setActive: "neverFails P \<Longrightarrow> writes openRW (setActive P m m' k v b)"
  by (simp add: setActive_def writes_def openRW_def guard_simps fst_wrapping neverFails_dbSet neverFails_dbDelete)

lemma writes_supply:
  assumes "pebble_db P view" "neverFails P"
  shows "writes openRW (UpdateTotalSupply P d)"
proof -
  have "fst (UpdateTotalSupply P d s) = Inr ()" if "openRW s" for s
    using that by (cases "view (db s) TotalSupplyKey")
      (simp_all add: UpdateTotalSupply_def openRW_def guard_simps andThen_def catch_def pebble_db.dbGet_eq [OF assms(1)]
        Let_def fst_wrapping neverFails_dbSet [OF assms(2)])
  then show ?thesis by (simp add: writes_def)
qed

lemma writes_sysApply: "pebble_db P view \<Longrightarrow> neverFails P \<Longrightarrow> writes openRW (sysApply P G u)"
  by (cases u) (simp_all add: UpdateActiveMinter_def UpdateActiveValidator_def UpdateBlacklistStatus_def writes_setActive writes_supply)

section \<open>Parsers that change the state\<close>

text \<open>
  \<open>runs us m\<close>: in every state that holds \<open>a\<close> and allows the updates, \<open>m\<close> succeeds and the state holds the updated \<open>a\<close>.
  \<open>plays us m\<close>: if \<open>m\<close> does not panic, the state holds the updated \<open>a\<close>.
\<close>

definition holds :: "('db \<Rightarrow> bytes \<Rightarrow> bytes option) \<Rightarrow> geth \<Rightarrow> sysState \<Rightarrow> 'db sysParser \<Rightarrow> bool" where
  "holds view G a p \<longleftrightarrow> sysRep view G (spStore p) a \<and> \<not> ReadOnly (config (spStore p))"

definition runs :: "('db \<Rightarrow> bytes \<Rightarrow> bytes option) \<Rightarrow> geth \<Rightarrow> sysUpdate list \<Rightarrow> ('db sysParser, unit) op \<Rightarrow> bool" where
  "runs view G us m \<longleftrightarrow> (\<forall>p a. holds view G a p \<longrightarrow> sysOk us a \<longrightarrow>
     (\<exists>p'. m p = (Inr (), p') \<and> holds view G (fold sysStep us a) p'))"

definition plays :: "('db \<Rightarrow> bytes \<Rightarrow> bytes option) \<Rightarrow> geth \<Rightarrow> sysUpdate list \<Rightarrow> ('db sysParser, unit) op \<Rightarrow> bool" where
  "plays view G us m \<longleftrightarrow> (\<forall>p a r p'. holds view G a p \<longrightarrow> sysOk us a \<longrightarrow> m p = (r, p') \<longrightarrow>
     (\<exists>x. r = Inl (Panic x)) \<or> holds view G (fold sysStep us a) p')"

lemma plays_runs: "runs view G us m \<Longrightarrow> plays view G us m"
  unfolding plays_def runs_def by (metis prod.inject)

lemma runs_ret: "runs view G [] (ret ())"
  by (simp add: runs_def)

lemma runs_publish: "runs view G [] (publishEvent l name data)"
  by (auto simp: runs_def publishEvent_def holds_def split: option.split)

lemma runs_andThen:
  assumes "runs view G us m" "runs view G vs (f ())" "ws = us @ vs"
  shows "runs view G ws (andThen m f)"
  unfolding runs_def
proof (intro allI impI)
  fix p a assume h: "holds view G a p" "sysOk ws a"
  then have ok: "sysOk us a" "sysOk vs (fold sysStep us a)" by (simp_all add: assms(3) sysOk_append)
  obtain p1 where p1: "m p = (Inr (), p1)" "holds view G (fold sysStep us a) p1"
    using assms(1) h(1) ok(1) unfolding runs_def by blast
  obtain p2 where "f () p1 = (Inr (), p2)" "holds view G (fold sysStep vs (fold sysStep us a)) p2"
    using assms(2) p1(2) ok(2) unfolding runs_def by blast
  with p1 assms(3) show "\<exists>p'. andThen m f p = (Inr (), p') \<and> holds view G (fold sysStep ws a) p'"
    by (simp add: andThen_def)
qed

lemma storeAs_Inr: "fst (m (spStore p)) = Inr () \<Longrightarrow> storeAs msg m p = (Inr (), p\<lparr>spStore := snd (m (spStore p))\<rparr>)"
  by (cases "m (spStore p)") (simp add: storeAs_def)

lemma runs_quiet:
  assumes "writes openRW m" "keeps (frame view sysKey) m"
  shows "runs view G [] (storeAs msg m)"
  unfolding runs_def
proof (intro allI impI)
  fix p a assume h: "holds view G a p"
  then have "openRW (spStore p)" by (simp add: holds_def openRW_def sysRep_def)
  then have r: "fst (m (spStore p)) = Inr ()" using assms(1) by (simp add: writes_def)
  have f: "frame view sysKey (spStore p) (snd (m (spStore p)))" using assms(2) by (simp add: keeps_def)
  then have "holds view G a (p\<lparr>spStore := snd (m (spStore p))\<rparr>)"
    using frame_sysRep [OF f] h by (simp add: holds_def frame_def)
  then show "\<exists>p'. storeAs msg m p = (Inr (), p') \<and> holds view G (fold sysStep [] a) p'" using storeAs_Inr [of m p, OF r] by simp
qed

lemma runs_update:
  assumes "pebble_db P view" "geth_codec G" "neverFails P"
  shows "runs view G [u] (storeAs msg (sysApply P G u))"
  unfolding runs_def
proof (intro allI impI)
  fix p a assume h: "holds view G a p" "sysOk [u] a"
  let ?m = "sysApply P G u"
  have "openRW (spStore p)" using h(1) by (simp add: holds_def openRW_def sysRep_def)
  then have r: "fst (?m (spStore p)) = Inr ()" using writes_sysApply [OF assms(1,3)] by (simp add: writes_def)
  then have m: "?m (spStore p) = (Inr (), snd (?m (spStore p)))" by (simp add: prod_eq_iff)
  have "frame view (\<lambda>_. False) (spStore p) (snd (?m (spStore p)))"
    using pebble_db.frame_sysApply [OF assms(1)] unfolding keeps_def by blast
  then have "holds view G (sysStep u a) (p\<lparr>spStore := snd (?m (spStore p))\<rparr>)"
    using sysApply_step [OF assms(1,2) _ h(2) m] h(1) by (simp add: holds_def frame_def)
  then show "\<exists>p'. storeAs msg ?m p = (Inr (), p') \<and> holds view G (fold sysStep [u] a) p'" using storeAs_Inr [of ?m p, OF r] by simp
qed

text \<open>Parsers that leave the state alone, whatever they return.\<close>

definition pframe :: "('db \<Rightarrow> bytes \<Rightarrow> bytes option) \<Rightarrow> (bytes \<Rightarrow> bool) \<Rightarrow> 'db sysParser \<Rightarrow> 'db sysParser \<Rightarrow> bool" where
  "pframe view X p p' \<longleftrightarrow> frame view X (spStore p) (spStore p')"

lemma pframe_refl: "reflp (pframe view X)"
  by (simp add: reflp_def pframe_def)

lemma pframe_trans: "transp (pframe view X)"
  unfolding transp_def pframe_def by (blast intro: frame_trans)

lemma pframe_storeAs: "keeps (frame view X) m \<Longrightarrow> keeps (pframe view X) (storeAs msg m)"
  unfolding keeps_def pframe_def storeAs_def
proof
  fix p assume "\<forall>s. frame view X s (snd (m s))"
  then have "frame view X (spStore p) (snd (m (spStore p)))" by blast
  then show "frame view X (spStore p) (spStore (snd (case m (spStore p) of
      (Inl e, s') \<Rightarrow> (Inl (wrapErr msg e), p\<lparr>spStore := s'\<rparr>) | (Inr x, s') \<Rightarrow> (Inr x, p\<lparr>spStore := s'\<rparr>))))"
    by (cases "m (spStore p)") (auto split: sum.split)
qed

lemma pframe_publish: "keeps (pframe view X) (publishEvent l name data)"
  by (simp add: keeps_def pframe_def publishEvent_def split: option.split)

lemma pframe_orPanic: "keeps (pframe view X) (orPanic r)"
  by (simp add: keeps_def pframe_def orPanic_def)

lemma pframe_expect:
  "keeps (pframe view X) m \<Longrightarrow> keeps (pframe view X) (expectTopics n l m)"
  "keeps (pframe view X) m \<Longrightarrow> keeps (pframe view X) (expectData n l m)"
  by (auto simp: expectTopics_def expectData_def keeps_throw [OF pframe_refl])

lemmas pframe_rules = keeps_andThen [OF pframe_trans] keeps_ret [OF pframe_refl] keeps_throw [OF pframe_refl]
  pframe_storeAs pframe_publish pframe_orPanic pframe_expect

lemma plays_pframe: "keeps (pframe view sysKey) m \<Longrightarrow> plays view G [] m"
  unfolding plays_def
proof (intro allI impI)
  fix p a r p' assume k: "keeps (pframe view sysKey) m" and h: "holds view G a p" "m p = (r, p')"
  have "pframe view sysKey p (snd (m p))" using k by (simp add: keeps_def)
  then have f: "frame view sysKey (spStore p) (spStore p')" using h(2) by (simp add: pframe_def)
  show "(\<exists>x. r = Inl (Panic x)) \<or> holds view G (fold sysStep [] a) p'"
    using frame_sysRep [OF f] f h(1) by (simp add: holds_def frame_def)
qed

lemma plays_expectTopics:
  "plays view G us m \<Longrightarrow> plays view G (if length (lTopics l) = n then us else []) (expectTopics n l m)"
  by (simp add: expectTopics_def plays_pframe pframe_rules)

lemma plays_expectData:
  "plays view G us m \<Longrightarrow> plays view G (if length (lData l) = n then us else []) (expectData n l m)"
  by (simp add: expectData_def plays_pframe pframe_rules)

lemma plays_orPanic:
  assumes "\<And>e. r = Inl e \<Longrightarrow> \<exists>x. e = Panic x" "\<And>x. plays view G us (f x)"
  shows "plays view G us (andThen (orPanic r) f)"
  using assms by (cases r) (auto simp: plays_def andThen_def orPanic_def)

lemma dynamicBytes_panics: "dynamicBytes data off = Inl e \<Longrightarrow> \<exists>x. e = Panic x"
  by (auto simp: dynamicBytes_def slice64_def Let_def split: if_splits sum.splits)

context pebble_db
begin

lemma pframe_status: "spares X \<Longrightarrow> keeps (pframe view X) (statusEvent P G st ex name who rest l)"
  unfolding statusEvent_def Let_def by (intro pframe_rules frame_UpdateProposalStatus)

lemma pframe_if: "keeps (pframe view X) m \<Longrightarrow> keeps (pframe view X) m' \<Longrightarrow> keeps (pframe view X) (if c then m else m')"
  by simp

lemma pframe_parsers:
  assumes "spares X"
  shows
  "keeps (pframe view X) (parseMasterMinterChangedEvent G l)" "keeps (pframe view X) (parseProposalCreatedEvent P G l)"
  "keeps (pframe view X) (parseProposalVotedEvent P G C l)" "keeps (pframe view X) (parseProposalApprovedEvent P G l)"
  "keeps (pframe view X) (parseProposalRejectedEvent P G l)" "keeps (pframe view X) (parseProposalExecutedEvent P G l)"
  "keeps (pframe view X) (parseProposalFailedEvent P G l)" "keeps (pframe view X) (parseProposalExpiredEvent P G l)"
  "keeps (pframe view X) (parseProposalCancelledEvent P G l)" "keeps (pframe view X) (parseQuorumUpdatedEvent l)"
  "keeps (pframe view X) (parseGasTipUpdatedEvent P G C l)" "keeps (pframe view X) (parseMaxMinterAllowanceUpdatedEvent l)"
  "keeps (pframe view X) (parseEmergencyPausedEvent P G C l)" "keeps (pframe view X) (parseEmergencyUnpausedEvent P G C l)"
  "keeps (pframe view X) (parseDepositMintProposedEvent P G C l)" "keeps (pframe view X) (parseBurnPrepaidEvent G l)"
  "keeps (pframe view X) (parseAuthorizedAccountAddedEvent P G C l)" "keeps (pframe view X) (parseAuthorizedAccountRemovedEvent P G C l)"
  "keeps (pframe view X) (parseMaxProposalsPerMemberUpdatedEvent P G C l)"
  "keeps (pframe view X) (parseProposalExecutionSkippedEvent P G C l)"
  unfolding parseMasterMinterChangedEvent_def parseProposalCreatedEvent_def parseProposalVotedEvent_def
    parseProposalApprovedEvent_def parseProposalRejectedEvent_def parseProposalExecutedEvent_def parseProposalFailedEvent_def
    parseProposalExpiredEvent_def parseProposalCancelledEvent_def parseQuorumUpdatedEvent_def parseGasTipUpdatedEvent_def
    parseMaxMinterAllowanceUpdatedEvent_def parseEmergencyPausedEvent_def parseEmergencyUnpausedEvent_def
    parseDepositMintProposedEvent_def parseBurnPrepaidEvent_def parseAuthorizedAccountAddedEvent_def
    parseAuthorizedAccountRemovedEvent_def parseMaxProposalsPerMemberUpdatedEvent_def parseProposalExecutionSkippedEvent_def Let_def
  by (intro pframe_if pframe_status pframe_rules frame_events frame_StoreProposal assms)+

lemma pframe_updates:
  assumes "spares X" "\<And>k. sysKey k \<Longrightarrow> \<not> X k"
  shows
  "keeps (pframe view X) (parseMintEvent P G C l)" "keeps (pframe view X) (parseBurnEvent P G C l)"
  "keeps (pframe view X) (parseMinterConfiguredEvent P G C l)" "keeps (pframe view X) (parseMinterRemovedEvent P G C l)"
  "keeps (pframe view X) (parseMemberAddedEvent P G l)" "keeps (pframe view X) (parseMemberRemovedEvent P G l)"
  "keeps (pframe view X) (parseMemberChangedEvent P G l)" "keeps (pframe view X) (parseBurnExecutedEvent P G C l)"
  "keeps (pframe view X) (parseAddressBlacklistedEvent P G C l)" "keeps (pframe view X) (parseAddressUnblacklistedEvent P G C l)"
proof -
  have k: "\<not> X TotalSupplyKey" "\<not> X (MinterActiveIndexKey G x)" "\<not> X (ValidatorActiveIndexKey G x)" "\<not> X (BlacklistActiveIndexKey G x)" for x
    by (auto intro!: assms(2) simp: sysKey_def HasPrefix_def MinterActiveIndexKey_def ValidatorActiveIndexKey_def BlacklistActiveIndexKey_def)
  show "keeps (pframe view X) (parseMintEvent P G C l)" "keeps (pframe view X) (parseBurnEvent P G C l)"
    "keeps (pframe view X) (parseMinterConfiguredEvent P G C l)" "keeps (pframe view X) (parseMinterRemovedEvent P G C l)"
    "keeps (pframe view X) (parseMemberAddedEvent P G l)" "keeps (pframe view X) (parseMemberRemovedEvent P G l)"
    "keeps (pframe view X) (parseMemberChangedEvent P G l)" "keeps (pframe view X) (parseBurnExecutedEvent P G C l)"
    "keeps (pframe view X) (parseAddressBlacklistedEvent P G C l)" "keeps (pframe view X) (parseAddressUnblacklistedEvent P G C l)"
    unfolding parseMintEvent_def parseBurnEvent_def parseMinterConfiguredEvent_def parseMinterRemovedEvent_def
      parseMemberAddedEvent_def parseMemberRemovedEvent_def parseMemberChangedEvent_def parseBurnExecutedEvent_def
      parseAddressBlacklistedEvent_def parseAddressUnblacklistedEvent_def Let_def
    by (intro pframe_if pframe_rules frame_events frame_active frame_UpdateTotalSupply k assms(1))+
qed

lemma pframe_ParseAndIndexLogs:
  assumes "spares X" "\<And>k. sysKey k \<Longrightarrow> \<not> X k"
  shows "keeps (pframe view X) (ParseAndIndexLogs P G C kec ls)"
proof -
  note rules = pframe_updates [OF assms] pframe_parsers [OF assms(1)]
  have "list_all (\<lambda>x. keeps (pframe view X) (snd x l)) (parsers P G C)" for l
    unfolding parsers_def by (simp add: rules)
  then have all: "(n, f) \<in> set (parsers P G C) \<Longrightarrow> keeps (pframe view X) (f l)" for n f l
    by (force simp: list_all_iff)
  have one: "keeps (pframe view X) (parseAndIndexLog P G C kec l)" for l
    using all route_find [of kec "hd (lTopics l)" "parsers P G C"]
    by (auto simp: parseAndIndexLog_def pframe_rules split: option.split)
  have "pframe view X p (snd (ParseAndIndexLogs P G C kec ls p))" for p
  proof (induction ls arbitrary: p)
    case Nil
    then show ?case using pframe_refl [of view X] by (simp add: reflp_def)
  next
    case (Cons l ls)
    obtain r p1 where r: "parseAndIndexLog P G C kec l p = (r, p1)" by (metis surj_pair)
    have 1: "pframe view X p p1" using one [of l] r by (metis keeps_def snd_conv)
    have "pframe view X p (snd (ParseAndIndexLogs P G C kec ls p1))"
      using 1 Cons.IH [of p1] pframe_trans [of view X] by (blast dest: transpD)
    then show ?case using r 1 by (auto split: sum.split serror.split)
  qed
  then show ?thesis by (simp add: keeps_def)
qed

text \<open>The parser as the fetcher's collaborator for system events, without an event bus.\<close>

lemma tame_system_events:
  assumes "tame view G H"
  shows "tame view G (H\<lparr>coSysEvents := Some (systemEvents P G C kec)\<rparr>)"
proof -
  have c: "core G k \<Longrightarrow> \<not> eventKey k" "core G k \<Longrightarrow> \<not> sysKey k" for k
    by (auto simp: core_def eventKey_def sysKey_def HasPrefix_def key_defs)
  then have "keeps (pframe view (core G)) (ParseAndIndexLogs P G C kec ls)" for ls
    by (intro pframe_ParseAndIndexLogs) (auto simp: spares_def)
  then have "pframe view (core G) p (snd (ParseAndIndexLogs P G C kec ls p))" for ls p by (simp add: keeps_def)
  from this [of "NewSystemContractEventParser _ 0"] have "keeps (frame view (core G)) (systemEvents P G C kec ls)" for ls
    by (simp add: keeps_def systemEvents_def pframe_def NewSystemContractEventParser_def split_beta)
  then show ?thesis using assms by (simp add: tame_def)
qed

end

locale sys_index = pebble_db P view + geth_codec G for P :: "'db pebble" and view :: "'db \<Rightarrow> bytes \<Rightarrow> bytes option" and G :: geth +
  fixes C :: sysCodec
  assumes writes_succeed: "neverFails P"
    and encodes: "codecTotal C"
begin

lemma runs_supply: "runs view G [USupply d] (storeAs msg (UpdateTotalSupply P d))"
  using runs_update [OF pebble_db_axioms geth_codec_axioms writes_succeed, of "USupply d"] by simp

lemma runs_minter: "runs view G [UMinter x n b] (storeAs msg (UpdateActiveMinter P G x (Some n) b))"
  using runs_update [OF pebble_db_axioms geth_codec_axioms writes_succeed, of "UMinter x n b"] by simp

lemma runs_validator: "runs view G [UValidator x b] (storeAs msg (UpdateActiveValidator P G x b))"
  using runs_update [OF pebble_db_axioms geth_codec_axioms writes_succeed, of "UValidator x b"] by simp

lemma runs_blacklist: "runs view G [UBlacklist x b] (storeAs msg (UpdateBlacklistStatus P G x b))"
  using runs_update [OF pebble_db_axioms geth_codec_axioms writes_succeed, of "UBlacklist x b"] by simp

lemma runs_mint: "0 \<le> meAmount e \<Longrightarrow> runs view G [] (storeAs msg (StoreMintEvent P C e))"
  using encodes unfolding codecTotal_def
  by (intro runs_quiet frame_events spares_sysKey; cases "rlpMint C e")
    (auto simp: StoreMintEvent_def rlpOr_def writes_setEncoded [OF writes_succeed])

lemma runs_burn: "0 \<le> buAmount e \<Longrightarrow> runs view G [] (storeAs msg (StoreBurnEvent P C e))"
  using encodes unfolding codecTotal_def
  by (intro runs_quiet frame_events spares_sysKey; cases "rlpBurn C e")
    (auto simp: StoreBurnEvent_def rlpOr_def writes_setEncoded [OF writes_succeed])

lemma runs_config: "0 \<le> mcAllowance e \<Longrightarrow> runs view G [] (storeAs msg (StoreMinterConfigEvent P G C e))"
  using encodes unfolding codecTotal_def
  by (intro runs_quiet frame_events spares_sysKey; cases "rlpMinterConfig C e")
    (auto simp: StoreMinterConfigEvent_def rlpOr_def writes_setEncoded [OF writes_succeed])

lemma runs_black: "0 \<le> blProposalID e \<Longrightarrow> runs view G [] (storeAs msg (StoreBlacklistEvent P G C e))"
  using encodes unfolding codecTotal_def
  by (intro runs_quiet frame_events spares_sysKey; cases "rlpBlacklist C e")
    (auto simp: StoreBlacklistEvent_def rlpOr_def writes_setEncoded [OF writes_succeed])

lemma runs_member: "runs view G [] (storeAs msg (StoreMemberChangeEvent P G e))"
  by (intro runs_quiet frame_events spares_sysKey) (simp add: StoreMemberChangeEvent_def writes_put [OF writes_succeed])

lemma runs_change: "runs view G [] (storeAs msg (StoreValidatorChangeEvent P G e))"
  by (intro runs_quiet frame_events spares_sysKey) (simp add: StoreValidatorChangeEvent_def writes_put [OF writes_succeed])

lemma amounts [simp]: "0 \<le> SetBytes b" "0 \<le> topicInt l i"
  by (simp_all add: SetBytes_def topicInt_def)

lemmas runs_first = runs_andThen [where vs = "[]", OF _ _ append_Nil2 [symmetric]]

lemmas runs_quietly = runs_andThen [where us = "[]", OF _ _ append_Nil [symmetric]]

lemma plays_Mint: "plays view G (updatesOf G ''Mint'' l) (parseMintEvent P G C l)"
proof -
  have "plays view G (if length (lTopics l) = 3 then if length (lData l) = 32 then [USupply (SetBytes (lData l))] else [] else [])
      (parseMintEvent P G C l)"
    unfolding parseMintEvent_def Let_def
    by (intro plays_expectTopics plays_expectData plays_runs, rule runs_quietly [OF runs_mint], simp,
      rule runs_first [OF runs_supply runs_publish])
  then show ?thesis by (auto simp: updatesOf_def split: if_splits)
qed

lemma plays_Burn: "plays view G (updatesOf G ''Burn'' l) (parseBurnEvent P G C l)"
proof -
  have "plays view G (if length (lTopics l) = 2 then if length (lData l) = 32 then [USupply (- SetBytes (lData l))] else [] else [])
      (parseBurnEvent P G C l)"
    unfolding parseBurnEvent_def Let_def
    by (intro plays_expectTopics plays_expectData plays_runs, rule runs_quietly [OF runs_burn], simp,
      rule runs_first [OF runs_supply runs_publish])
  then show ?thesis by (auto simp: updatesOf_def split: if_splits)
qed

lemma plays_MinterConfigured: "plays view G (updatesOf G ''MinterConfigured'' l) (parseMinterConfiguredEvent P G C l)"
proof -
  have "plays view G (if length (lTopics l) = 2 then if length (lData l) = 32
      then [UMinter (topicAddr G l 1) (SetBytes (lData l)) True] else [] else []) (parseMinterConfiguredEvent P G C l)"
    unfolding parseMinterConfiguredEvent_def Let_def
    by (intro plays_expectTopics plays_expectData plays_runs, rule runs_quietly [OF runs_config], simp,
      rule runs_first [OF runs_minter runs_publish])
  then show ?thesis by (auto simp: updatesOf_def split: if_splits)
qed

lemma plays_MinterRemoved: "plays view G (updatesOf G ''MinterRemoved'' l) (parseMinterRemovedEvent P G C l)"
proof -
  have "plays view G (if length (lTopics l) = 2 then [UMinter (topicAddr G l 1) 0 False] else []) (parseMinterRemovedEvent P G C l)"
    unfolding parseMinterRemovedEvent_def Let_def
    by (intro plays_expectTopics plays_runs, rule runs_quietly [OF runs_config], simp,
      rule runs_first [OF runs_minter runs_publish])
  then show ?thesis by (auto simp: updatesOf_def split: if_splits)
qed

lemma runs_validatorIf:
  "runs view G (if b then us else []) (if b then m else ret ())" if "b \<Longrightarrow> runs view G us m"
  using that by (simp add: runs_ret)

lemma plays_MemberAdded: "plays view G (updatesOf G ''MemberAdded'' l) (parseMemberAddedEvent P G l)"
proof -
  have "plays view G (if length (lTopics l) = 2 then if length (lData l) = 64
      then if lAddress l = GovValidatorAddress then [UValidator (topicAddr G l 1) True] else [] else [] else [])
      (parseMemberAddedEvent P G l)"
    unfolding parseMemberAddedEvent_def Let_def
    by (intro plays_expectTopics plays_expectData plays_runs, rule runs_quietly [OF runs_member],
      rule runs_first [OF runs_validatorIf [OF runs_validator] runs_publish])
  then show ?thesis by (auto simp: updatesOf_def split: if_splits)
qed

lemma plays_MemberRemoved: "plays view G (updatesOf G ''MemberRemoved'' l) (parseMemberRemovedEvent P G l)"
proof -
  have "plays view G (if length (lTopics l) = 2 then if length (lData l) = 64
      then if lAddress l = GovValidatorAddress then [UValidator (topicAddr G l 1) False] else [] else [] else [])
      (parseMemberRemovedEvent P G l)"
    unfolding parseMemberRemovedEvent_def Let_def
    by (intro plays_expectTopics plays_expectData plays_runs, rule runs_quietly [OF runs_member],
      rule runs_first [OF runs_validatorIf [OF runs_validator] runs_publish])
  then show ?thesis by (auto simp: updatesOf_def split: if_splits)
qed

lemma plays_MemberChanged: "plays view G (updatesOf G ''MemberChanged'' l) (parseMemberChangedEvent P G l)"
proof -
  have two: "runs view G [UValidator x False, UValidator y True]
      (andThen (storeAs m1 (UpdateActiveValidator P G x False)) (\<lambda>_. andThen (storeAs m2 (UpdateActiveValidator P G y True))
        (\<lambda>_. storeAs m3 (StoreValidatorChangeEvent P G e))))" for x y m1 m2 m3 e
    by (rule runs_andThen [OF runs_validator runs_first [OF runs_validator runs_change]]) simp
  have "plays view G (if length (lTopics l) = 3 then if lAddress l = GovValidatorAddress
      then [UValidator (topicAddr G l 1) False, UValidator (topicAddr G l 2) True] else [] else []) (parseMemberChangedEvent P G l)"
    unfolding parseMemberChangedEvent_def Let_def
    by (intro plays_expectTopics plays_runs, rule runs_quietly [OF runs_member],
      rule runs_first [OF runs_validatorIf [OF two] runs_publish])
  then show ?thesis by (auto simp: updatesOf_def split: if_splits)
qed

lemma plays_BurnExecuted: "plays view G (updatesOf G ''BurnExecuted'' l) (parseBurnExecutedEvent P G C l)"
proof -
  have "plays view G (if length (lTopics l) = 3 then [USupply (- topicInt l 2)] else []) (parseBurnExecutedEvent P G C l)"
    unfolding parseBurnExecutedEvent_def Let_def
    by (intro plays_expectTopics plays_orPanic plays_runs, use dynamicBytes_panics in \<open>fastforce split: if_splits\<close>,
      rule runs_quietly [OF runs_burn], simp, rule runs_first [OF runs_supply runs_publish])
  then show ?thesis by (auto simp: updatesOf_def split: if_splits)
qed

lemma plays_Blacklisted: "plays view G (updatesOf G ''AddressBlacklisted'' l) (parseAddressBlacklistedEvent P G C l)"
proof -
  have "plays view G (if length (lTopics l) = 3 then [UBlacklist (topicAddr G l 1) True] else []) (parseAddressBlacklistedEvent P G C l)"
    unfolding parseAddressBlacklistedEvent_def Let_def
    by (intro plays_expectTopics plays_runs, rule runs_quietly [OF runs_black], simp,
      rule runs_first [OF runs_blacklist runs_publish])
  then show ?thesis by (auto simp: updatesOf_def split: if_splits)
qed

lemma plays_Unblacklisted: "plays view G (updatesOf G ''AddressUnblacklisted'' l) (parseAddressUnblacklistedEvent P G C l)"
proof -
  have "plays view G (if length (lTopics l) = 3 then [UBlacklist (topicAddr G l 1) False] else []) (parseAddressUnblacklistedEvent P G C l)"
    unfolding parseAddressUnblacklistedEvent_def Let_def
    by (intro plays_expectTopics plays_runs, rule runs_quietly [OF runs_black], simp,
      rule runs_first [OF runs_blacklist runs_publish])
  then show ?thesis by (auto simp: updatesOf_def split: if_splits)
qed

text \<open>Every parser of the table plays the updates of its name.\<close>

lemma plays_parsers: "\<forall>x\<in>set (parsers P G C). plays view G (updatesOf G (fst x) l) (snd x l)"
proof -
  have other: "plays view G (updatesOf G n l) m" if "keeps (pframe view sysKey) m" "updatesOf G n l = []" for n m
    using plays_pframe [OF that(1), where G = G] that(2) by simp
  have "list_all (\<lambda>x. plays view G (updatesOf G (fst x) l) (snd x l)) (parsers P G C)"
    unfolding parsers_def list.pred_inject fst_conv snd_conv
    by (rule conjI TrueI plays_Mint plays_Burn plays_MinterConfigured plays_MinterRemoved plays_MemberAdded
          plays_MemberRemoved plays_MemberChanged plays_BurnExecuted plays_Blacklisted plays_Unblacklisted
        | (rule other, rule pframe_parsers [OF spares_sysKey], simp add: updatesOf_def))+ simp
  then show ?thesis by (simp only: list_all_iff)
qed

lemma plays_log: "plays view G (logUpdates G kec l) (parseAndIndexLog P G C kec l)"
proof (cases "\<not> IsSystemContract (lAddress l) \<or> lTopics l = []")
  case True
  then show ?thesis by (auto simp: parseAndIndexLog_def logUpdates_def intro: plays_runs runs_ret)
next
  case False
  show ?thesis
  proof (cases "route kec (hd (lTopics l)) (parsers P G C)")
    case None
    with False route_none [OF None] show ?thesis
      by (simp add: parseAndIndexLog_def logUpdates_def parserNames_eq plays_runs runs_ret)
  next
    case (Some x)
    obtain n f where x: "x = (n, f)" by (cases x)
    have "find (\<lambda>n. hd (lTopics l) = EventSig kec n) parserNames = Some n" "(n, f) \<in> set (parsers P G C)"
      using route_find [of kec "hd (lTopics l)" "parsers P G C" n f] Some x by (simp_all add: parserNames_eq)
    moreover have "plays view G (updatesOf G n l) (f l)" using plays_parsers calculation(2) by fastforce
    ultimately show ?thesis using False Some x by (simp add: parseAndIndexLog_def logUpdates_def)
  qed
qed

lemma ParseAndIndexLogs_holds:
  "holds view G a p \<Longrightarrow> sysOk (concat (map (logUpdates G kec) ls)) a \<Longrightarrow> ParseAndIndexLogs P G C kec ls p = (Inr u, p') \<Longrightarrow>
   holds view G (fold sysStep (concat (map (logUpdates G kec) ls)) a) p'"
proof (induction ls arbitrary: a p)
  case (Cons l ls)
  obtain r p1 where r: "parseAndIndexLog P G C kec l p = (r, p1)" by (metis surj_pair)
  have ok: "sysOk (logUpdates G kec l) a" "sysOk (concat (map (logUpdates G kec) ls)) (fold sysStep (logUpdates G kec l) a)"
    using Cons.prems(2) by (simp_all add: sysOk_append)
  have np: "r \<noteq> Inl (Panic x)" for x using Cons.prems(3) r by auto
  then have h: "holds view G (fold sysStep (logUpdates G kec l) a) p1"
    using plays_log [of kec l] Cons.prems(1) ok(1) r unfolding plays_def by blast
  have "ParseAndIndexLogs P G C kec ls p1 = (Inr u, p')"
  proof (cases r)
    case (Inl e)
    then show ?thesis using Cons.prems(3) r np by (cases e) auto
  qed (use Cons.prems(3) r in auto)
  from Cons.IH [OF h ok(2) this] show ?case by simp
qed simp

end

lemma codecTotal_ref: "codecTotal (refSys v es)"
  by (simp add: codecTotal_def refSys_def)

lemma sys_index_intro: "pebble_db P view \<Longrightarrow> geth_codec G \<Longrightarrow> neverFails P \<Longrightarrow> codecTotal C \<Longrightarrow> sys_index P view G C"
  by (simp add: sys_index_def sys_index_axioms_def)

interpretation sysMem: sys_index memPebble map_of sampleGeth "refSys v es"
  by (rule sys_index_intro [OF memPebble.pebble_db_axioms geth_codec_sample neverFails_mem codecTotal_ref])


definition sampleKec :: "string \<Rightarrow> hash" where
  "sampleKec x = word_of_nat (length x)"

definition sysLog :: "address \<Rightarrow> hash list \<Rightarrow> bytes \<Rightarrow> log" where
  "sysLog c topics data = \<lparr>lAddress = c, lTopics = topics, lData = data, lBlockNumber = 7, lTxHash = 21, lTxIndex = 0,
     lBlockHash = 77, lIndex = 0, lRemoved = False\<rparr>"

definition abiWord :: "nat \<Rightarrow> bytes" where
  "abiWord n = fixedDigits byteChar 256 32 n"

lemma abiWord_facts: "length (abiWord n) = 32" "n < 256 ^ 32 \<Longrightarrow> SetBytes (abiWord n) = int n"
  by (simp_all add: abiWord_def SetBytes_def readDigits_fixedDigits)

definition sampleParser :: "(bytes \<times> bytes) list sysParser" where
  "sampleParser = NewSystemContractEventParser (emptyStorage []) 0"

lemma sample_signatures:
  "EventSig sampleKec ''Mint'' = 29" "EventSig sampleKec ''Burn'' = 21"
  by (simp_all add: EventSig_def eventSignatures_def sampleKec_def)


text \<open>An offset of \<open>2^64 - 32\<close> in the data passes the check, because the sum wraps, and makes the slice panic.\<close>

lemma burn_executed_panics:
  assumes "length (lTopics l) = 3" "64 \<le> length (lData l)" "bigUint64 (SetBytes (dataWord l 0)) = - 32"
  shows "parseBurnExecutedEvent P G C l p = (Inl (Panic ''slice bounds out of range''), p)"
  using assms by (simp add: parseBurnExecutedEvent_def expectTopics_def andThen_def orPanic_def dynamicBytes_def slice64_def Let_def)

end
