(* ===== verification/PendingPool.thy ===== *)
theory PendingPool
  imports EventFilter
begin

text \<open>
  The pool of pending transactions behind the polling filters of the JSON-RPC server
  (\<^verbatim>\<open>pkg/api/jsonrpc/pending_pool.go\<close>): hashes in the order of their arrival, details by hash, and a
  running index that tells a poller what it has seen.
\<close>

section \<open>State and operations\<close>

record PendingTransaction =
  ptHash :: hash
  ptFrom :: address
  ptTo :: "address option"
  ptValue :: int
  ptNonce :: u64
  ptGasPrice :: int
  ptGas :: u64
  ptData :: bytes
  ptSeenAt :: gotime
  ptSeenIndex :: u64

record PendingPool =
  ppTransactions :: "hash list"
  ppDetails :: "hash \<Rightarrow> PendingTransaction option"
  ppNextIndex :: u64
  ppMaxSize :: int
  ppTTL :: int

definition NewPendingPool :: "int \<Rightarrow> int \<Rightarrow> PendingPool" where
  "NewPendingPool maxSize ttl =
     \<lparr>ppTransactions = [], ppDetails = (\<lambda>_. None), ppNextIndex = 1,
      ppMaxSize = (if maxSize \<le> 0 then 10000 else maxSize),
      ppTTL = (if ttl \<le> 0 then 300000000000 else ttl)\<rparr>"

text \<open>The oldest transaction makes room when the pool is full.\<close>

definition evictFirst :: "PendingPool \<Rightarrow> PendingPool" where
  "evictFirst p =
     (if int (length (ppTransactions p)) \<ge> ppMaxSize p
      then case ppTransactions p of
          [] \<Rightarrow> p
        | oldestHash # rest \<Rightarrow> p\<lparr>ppDetails := (ppDetails p)(oldestHash := None), ppTransactions := rest\<rparr>
      else p)"

definition AddTransaction :: "gotime \<Rightarrow> TransactionEvent \<Rightarrow> PendingPool \<Rightarrow> PendingPool" where
  "AddTransaction now ev p =
     (if ppDetails p (teHash ev) \<noteq> None then p
      else let p = evictFirst p;
               pendingTx = \<lparr>ptHash = teHash ev, ptFrom = teFrom ev, ptTo = teTo ev, ptValue = teValue ev,
                 ptNonce = tNonce (teTx ev), ptGasPrice = tGasPrice (teTx ev), ptGas = tGas (teTx ev),
                 ptData = tData (teTx ev), ptSeenAt = now, ptSeenIndex = ppNextIndex p\<rparr>
           in p\<lparr>ppTransactions := ppTransactions p @ [teHash ev],
                ppDetails := (ppDetails p)(teHash ev := Some pendingTx), ppNextIndex := ppNextIndex p + 1\<rparr>)"

definition RemoveTransaction :: "hash \<Rightarrow> PendingPool \<Rightarrow> PendingPool" where
  "RemoveTransaction h p =
     (if ppDetails p h = None then p
      else p\<lparr>ppDetails := (ppDetails p)(h := None), ppTransactions := remove1 h (ppTransactions p)\<rparr>)"

definition processEvent :: "gotime \<Rightarrow> event \<Rightarrow> PendingPool \<Rightarrow> PendingPool" where
  "processEvent now e p =
     (case e of
        ETransaction txEvent \<Rightarrow>
          if teBlockNumber txEvent = 0 then AddTransaction now txEvent p
          else RemoveTransaction (teHash txEvent) p
      | _ \<Rightarrow> p)"

definition GetTransactionsSince :: "u64 \<Rightarrow> PendingPool \<Rightarrow> hash list \<times> u64" where
  "GetTransactionsSince sinceIndex p =
     foldl (\<lambda>(result, maxIndex) h. case ppDetails p h of
         None \<Rightarrow> (result, maxIndex)
       | Some x \<Rightarrow>
           if ptSeenIndex x > sinceIndex
           then (result @ [h], if ptSeenIndex x > maxIndex then ptSeenIndex x else maxIndex)
           else (result, maxIndex)) ([], sinceIndex) (ppTransactions p)"

definition GetAllTransactions :: "PendingPool \<Rightarrow> hash list" where
  "GetAllTransactions p = ppTransactions p"

definition GetPendingTransaction :: "hash \<Rightarrow> PendingPool \<Rightarrow> PendingTransaction option" where
  "GetPendingTransaction h p = ppDetails p h"

definition PendingPool_Size :: "PendingPool \<Rightarrow> nat" where
  "PendingPool_Size p = length (ppTransactions p)"

definition CurrentIndex :: "PendingPool \<Rightarrow> u64" where
  "CurrentIndex p = ppNextIndex p - 1"

definition txExpired :: "gotime \<Rightarrow> PendingPool \<Rightarrow> hash \<Rightarrow> bool" where
  "txExpired now p h \<longleftrightarrow> (case ppDetails p h of None \<Rightarrow> False | Some x \<Rightarrow> now - ptSeenAt x > ppTTL p)"

definition PendingPool_cleanup :: "gotime \<Rightarrow> PendingPool \<Rightarrow> PendingPool" where
  "PendingPool_cleanup now p =
     (let details = (\<lambda>h. if \<not> txExpired now p h then ppDetails p h else None)
      in p\<lparr>ppDetails := details, ppTransactions := filter (\<lambda>h. details h \<noteq> None) (ppTransactions p)\<rparr>)"

section \<open>Well-formed pools\<close>

definition seenIndex :: "PendingPool \<Rightarrow> hash \<Rightarrow> u64" where
  "seenIndex p h = (case ppDetails p h of None \<Rightarrow> 0 | Some x \<Rightarrow> ptSeenIndex x)"

text \<open>
  The hashes are those with details, each once, in the order of their indexes, which are all below the next one; there are at
  most as many as the pool may hold.
\<close>

definition pool_inv :: "PendingPool \<Rightarrow> bool" where
  "pool_inv p \<longleftrightarrow> 0 < ppMaxSize p \<and> int (length (ppTransactions p)) \<le> ppMaxSize p \<and>
     set (ppTransactions p) = dom (ppDetails p) \<and> sorted_wrt (<) (map (seenIndex p) (ppTransactions p)) \<and>
     (\<forall>h\<in>set (ppTransactions p). seenIndex p h < ppNextIndex p)"

lemma pool_inv_distinct: "pool_inv p \<Longrightarrow> distinct (ppTransactions p)"
  by (simp add: pool_inv_def strict_sorted_iff distinct_map)

lemma pool_inv_New: "pool_inv (NewPendingPool m t)"
  by (simp add: pool_inv_def NewPendingPool_def)

text \<open>Leaving out some hashes, with their details, keeps a pool well formed.\<close>

lemma pool_inv_restrict:
  assumes "pool_inv p" "ppTransactions p' = filter Q (ppTransactions p)"
    "ppDetails p' = (\<lambda>h. if Q h then ppDetails p h else None)" "ppNextIndex p' = ppNextIndex p" "ppMaxSize p' = ppMaxSize p"
  shows "pool_inv p'"
proof -
  have s: "seenIndex p' h = seenIndex p h" if "Q h" for h using that by (simp add: seenIndex_def assms(3))
  have m: "map (seenIndex p') (filter Q xs) = map (seenIndex p) (filter Q xs)" for xs by (simp add: s)
  have "sorted_wrt (<) (map (seenIndex p) (filter Q (ppTransactions p)))"
    using assms(1) by (simp add: pool_inv_def sorted_wrt_map sorted_wrt_filter)
  moreover have "int (length (filter Q (ppTransactions p))) \<le> ppMaxSize p"
    using assms(1) length_filter_le [of Q "ppTransactions p"] unfolding pool_inv_def by linarith
  ultimately show ?thesis using assms by (auto simp: pool_inv_def s m split: if_splits)
qed

lemma filter_not_hd: "distinct (x # xs) \<Longrightarrow> filter (\<lambda>h. h \<noteq> x) (x # xs) = xs"
  by (auto intro!: filter_True)

lemma pool_inv_evictFirst: "pool_inv p \<Longrightarrow> pool_inv (evictFirst p)"
proof (cases "ppTransactions p")
  case (Cons x xs)
  assume p: "pool_inv p"
  then have "distinct (x # xs)" using pool_inv_distinct Cons by metis
  from pool_inv_restrict [OF p, of "evictFirst p" "\<lambda>h. h \<noteq> x"] filter_not_hd [OF this] p show ?thesis
    by (auto simp: evictFirst_def Cons fun_eq_iff)
qed (simp add: evictFirst_def)

lemma evictFirst_room: "pool_inv p \<Longrightarrow> int (length (ppTransactions (evictFirst p))) < ppMaxSize p"
  by (auto simp: evictFirst_def pool_inv_def split: list.split)

lemma evictFirst_fields [simp]: "ppNextIndex (evictFirst p) = ppNextIndex p" "ppMaxSize (evictFirst p) = ppMaxSize p"
  "ppTTL (evictFirst p) = ppTTL p" "ppDetails p h = None \<Longrightarrow> ppDetails (evictFirst p) h = None"
  by (auto simp: evictFirst_def split: list.split)

lemma pool_inv_AddTransaction:
  assumes "pool_inv p" "ppNextIndex p < - 1"
  shows "pool_inv (AddTransaction now ev p)"
proof (cases "ppDetails p (teHash ev)")
  case None
  let ?q = "evictFirst p" and ?r = "AddTransaction now ev p"
  note q = pool_inv_evictFirst [OF assms(1)] and room = evictFirst_room [OF assms(1)]
  have r: "ppTransactions ?r = ppTransactions ?q @ [teHash ev]" "ppNextIndex ?r = ppNextIndex p + 1"
    "ppMaxSize ?r = ppMaxSize p" "seenIndex ?r (teHash ev) = ppNextIndex p" "dom (ppDetails ?r) = insert (teHash ev) (dom (ppDetails ?q))"
    "\<And>h. h \<noteq> teHash ev \<Longrightarrow> seenIndex ?r h = seenIndex ?q h"
    using None by (auto simp: AddTransaction_def Let_def seenIndex_def)
  have new: "teHash ev \<notin> set (ppTransactions ?q)" using q None by (auto simp: pool_inv_def)
  then have m: "map (seenIndex ?r) (ppTransactions ?q) = map (seenIndex ?q) (ppTransactions ?q)"
    by (intro map_cong) (auto intro: r(6))
  have "\<forall>h\<in>set (ppTransactions ?q). seenIndex ?r h = seenIndex ?q h" using new r(6) by metis
  moreover have lt: "x < ppNextIndex p \<Longrightarrow> x < ppNextIndex p + 1" for x
    using less_succ_u64 [OF assms(2), of x] by simp
  ultimately show ?thesis using q room less_succ_u64 [OF assms(2), of "ppNextIndex p"]
    by (auto simp: pool_inv_def r m sorted_wrt_append)
qed (simp add: AddTransaction_def assms(1))

lemma pool_inv_RemoveTransaction: "pool_inv p \<Longrightarrow> pool_inv (RemoveTransaction h p)"
  using pool_inv_restrict [of p "RemoveTransaction h p" "(\<noteq>) h"] pool_inv_distinct [of p]
  by (auto simp: RemoveTransaction_def fun_eq_iff distinct_remove1_removeAll removeAll_filter_not_eq)

lemma pool_inv_cleanup: "pool_inv p \<Longrightarrow> pool_inv (PendingPool_cleanup now p)"
  by (rule pool_inv_restrict [where Q = "\<lambda>h. \<not> txExpired now p h"])
    (auto simp: PendingPool_cleanup_def Let_def pool_inv_def intro!: filter_cong)

section \<open>Polling\<close>

text \<open>Any operation on the pool.\<close>

datatype poolOp = PAdd gotime TransactionEvent | PRemove hash | PEvent gotime event | PCleanup gotime

fun applyPoolOp :: "poolOp \<Rightarrow> PendingPool \<Rightarrow> PendingPool" where
  "applyPoolOp (PAdd now ev) = AddTransaction now ev"
| "applyPoolOp (PRemove h) = RemoveTransaction h"
| "applyPoolOp (PEvent now e) = processEvent now e"
| "applyPoolOp (PCleanup now) = PendingPool_cleanup now"

text \<open>
  A step from \<open>p\<close> to \<open>q\<close>: what is still there with an index below the next index of \<open>p\<close> is there unchanged.
\<close>

definition advances :: "PendingPool \<Rightarrow> PendingPool \<Rightarrow> bool" where
  "advances p q \<longleftrightarrow> ppNextIndex p \<le> ppNextIndex q \<and>
     (\<forall>h x. ppDetails q h = Some x \<longrightarrow> ppDetails p h = Some x \<or> ppNextIndex p \<le> ptSeenIndex x)"

lemma advances_refl: "advances p p"
  by (simp add: advances_def)

lemma advances_trans: "advances p q \<Longrightarrow> advances q r \<Longrightarrow> advances p r"
  unfolding advances_def by (meson order_trans)

lemma AddTransaction_advances: "ppNextIndex p < - 1 \<Longrightarrow> advances p (AddTransaction now ev p)"
  using le_succ_u64 [of "ppNextIndex p" "ppNextIndex p"]
  by (auto simp: advances_def AddTransaction_def Let_def evictFirst_def split: list.splits if_splits)

lemma RemoveTransaction_advances: "advances p (RemoveTransaction h p)"
  by (auto simp: advances_def RemoveTransaction_def split: if_splits)

lemma cleanup_advances: "advances p (PendingPool_cleanup now p)"
  by (auto simp: advances_def PendingPool_cleanup_def Let_def split: if_splits)

lemma nextIndex_step: "ppNextIndex (applyPoolOp x p) \<in> {ppNextIndex p, ppNextIndex p + 1}"
  by (cases x) (auto simp: AddTransaction_def RemoveTransaction_def PendingPool_cleanup_def processEvent_def Let_def split: event.split)

lemma applyPoolOp_step:
  assumes "pool_inv p" "ppNextIndex p < - 1"
  shows "pool_inv (applyPoolOp x p) \<and> advances p (applyPoolOp x p)"
  by (cases x) (auto simp: processEvent_def assms pool_inv_AddTransaction pool_inv_RemoveTransaction pool_inv_cleanup
      AddTransaction_advances RemoveTransaction_advances cleanup_advances advances_refl split: event.split)

lemma applyPoolOps_steps:
  assumes "pool_inv p" "unat (ppNextIndex p) + length ops < 2 ^ 64"
  shows "pool_inv (fold applyPoolOp ops p) \<and> advances p (fold applyPoolOp ops p)"
  using assms
proof (induction ops arbitrary: p)
  case (Cons x ops)
  have lt: "ppNextIndex p < - 1" using Cons.prems(2)
    by (simp add: word_less_nat_alt unsigned_minus_1_eq_mask mask_eq_exp_minus_1)
  note step = applyPoolOp_step [OF Cons.prems(1) lt, of x]
  have "unat (ppNextIndex (applyPoolOp x p)) \<le> unat (ppNextIndex p) + 1"
    using nextIndex_step [of x p] unat_succ_u64 [OF lt] by auto
  then have "unat (ppNextIndex (applyPoolOp x p)) + length ops < 2 ^ 64" using Cons.prems(2) by simp
  from Cons.IH [OF _ this] step show ?case by (auto intro: advances_trans)
qed (simp add: advances_refl)

lemma GetTransactionsSince_eq:
  assumes "pool_inv p"
  shows "fst (GetTransactionsSince i p) = filter (\<lambda>h. i < seenIndex p h) (ppTransactions p)"
    "snd (GetTransactionsSince i p) = Max (insert i (seenIndex p ` set (ppTransactions p)))"
proof -
  let ?f = "\<lambda>(result, maxIndex) h. case ppDetails p h of
         None \<Rightarrow> (result, maxIndex)
       | Some x \<Rightarrow> if ptSeenIndex x > i
           then (result @ [h], if ptSeenIndex x > maxIndex then ptSeenIndex x else maxIndex) else (result, maxIndex)"
  have "foldl ?f (r, m) xs = (r @ filter (\<lambda>h. i < seenIndex p h) xs, Max (insert m (seenIndex p ` set xs)))"
    if "set xs \<subseteq> dom (ppDetails p)" "i \<le> m" for xs r m
    using that
  proof (induction xs arbitrary: r m)
    case (Cons h xs)
    then obtain x where x: "ppDetails p h = Some x" by auto
    have "Max (insert m (insert a S)) = Max (insert (max m a) S)" if "finite S" for a :: u64 and S
      using that by (cases "S = {}") (simp_all add: max.assoc)
    with Cons x show ?case
      by (auto simp: seenIndex_def max_def not_less order.strict_implies_order)
  qed simp
  from this [of "ppTransactions p" i "[]"] assms show
    "fst (GetTransactionsSince i p) = filter (\<lambda>h. i < seenIndex p h) (ppTransactions p)"
    "snd (GetTransactionsSince i p) = Max (insert i (seenIndex p ` set (ppTransactions p)))"
    by (auto simp: GetTransactionsSince_def pool_inv_def)
qed

section \<open>Properties\<close>

text \<open>
  C39: pending transactions are polled once. Starting from any index a poller may hold, a poll of a well-formed pool returns the
  transactions with a larger index in the order of their arrival; after any operations on the pool, the next poll returns
  exactly the transactions that have come, or come back, in between and are still there, again in order. The
  pool stays well formed and within its size. (At most \<open>2\<^sup>6\<^sup>4\<close> transactions are added in all.)
\<close>

theorem pending_polled_once:
  assumes "pool_inv p" "unat (ppNextIndex p) + length ops < 2 ^ 64" "i < ppNextIndex p"
    and "GetTransactionsSince i p = (first, i')" "q = fold applyPoolOp ops p"
  shows "first = filter (\<lambda>h. i < seenIndex p h) (GetAllTransactions p) \<and>
    fst (GetTransactionsSince i' q) = filter (\<lambda>h. ppDetails q h \<noteq> ppDetails p h) (GetAllTransactions q) \<and>
    distinct (GetAllTransactions q) \<and> int (PendingPool_Size q) \<le> ppMaxSize q \<and> i' < ppNextIndex q"
proof -
  from applyPoolOps_steps [OF assms(1,2)] assms(5) have q: "pool_inv q" "advances p q" by simp_all
  have i': "i' = Max (insert i (seenIndex p ` set (ppTransactions p)))"
    using GetTransactionsSince_eq(2) [OF assms(1), of i] assms(4) by simp
  have below: "\<forall>x\<in>insert i (seenIndex p ` set (ppTransactions p)). x < ppNextIndex p"
    using assms(1,3) by (auto simp: pool_inv_def)
  have lt: "i' < ppNextIndex p" unfolding i' using below by (subst Max_less_iff) auto
  have ge: "seenIndex p h \<le> i'" if "ppDetails p h \<noteq> None" for h
    unfolding i' using that assms(1) by (intro Max_ge) (auto simp: pool_inv_def)
  have "i' < seenIndex q h \<longleftrightarrow> ppDetails q h \<noteq> ppDetails p h" if mem: "h \<in> set (ppTransactions q)" for h
  proof -
    obtain x where x: "ppDetails q h = Some x" using mem q(1) by (auto simp: pool_inv_def)
    show ?thesis
    proof (cases "ppDetails p h = Some x")
      case True
      then show ?thesis using ge [of h] x by (auto simp: seenIndex_def)
    next
      case False
      with q(2) x have "ppNextIndex p \<le> ptSeenIndex x" by (auto simp: advances_def)
      with lt False x show ?thesis by (auto simp: seenIndex_def)
    qed
  qed
  then have "fst (GetTransactionsSince i' q) = filter (\<lambda>h. ppDetails q h \<noteq> ppDetails p h) (ppTransactions q)"
    by (simp add: GetTransactionsSince_eq(1) [OF q(1)] cong: filter_cong)
  then show ?thesis using GetTransactionsSince_eq(1) [OF assms(1), of i] assms(4) pool_inv_distinct [OF q(1)] q lt
    by (auto simp: GetAllTransactions_def PendingPool_Size_def pool_inv_def advances_def)
qed

definition samplePending :: "hash \<Rightarrow> TransactionEvent" where
  "samplePending h = \<lparr>teTx = sampleTx, teHash = h, teBlockNumber = 0, teBlockHash = 0, teIndex = 0, teFrom = 5, teTo = None,
     teValue = 0, teReceipt = None, teCreatedAt = 0\<rparr>"

theorem pending_polled_once_witness:
  "\<exists>i. GetTransactionsSince 0 (AddTransaction 3 (samplePending 8) (NewPendingPool 2 0)) = ([8], i) \<and>
     fst (GetTransactionsSince i (fold applyPoolOp [PAdd 4 (samplePending 9), PAdd 5 (samplePending 7)]
       (AddTransaction 3 (samplePending 8) (NewPendingPool 2 0)))) = [9, 7]"
proof -
  let ?p = "AddTransaction 3 (samplePending 8) (NewPendingPool 2 0)"
  have p: "pool_inv ?p" by (rule pool_inv_AddTransaction [OF pool_inv_New]) (simp add: NewPendingPool_def word_less_nat_alt unsigned_minus_1_eq_mask mask_eq_exp_minus_1)
  have n: "ppNextIndex ?p = 2" "GetTransactionsSince 0 ?p = ([8], 1)"
    by (simp_all add: AddTransaction_def GetTransactionsSince_def NewPendingPool_def evictFirst_def samplePending_def)
  let ?q = "fold applyPoolOp [PAdd 4 (samplePending 9), PAdd 5 (samplePending 7)] ?p"
  have q: "GetAllTransactions ?q = [9, 7]" "ppDetails ?q 9 \<noteq> ppDetails ?p 9" "ppDetails ?q 7 \<noteq> ppDetails ?p 7"
    by (simp_all add: AddTransaction_def GetAllTransactions_def NewPendingPool_def evictFirst_def samplePending_def Let_def)
  from pending_polled_once [OF p _ _ n(2) refl, of "[PAdd 4 (samplePending 9), PAdd 5 (samplePending 7)]"] n q
  have "fst (GetTransactionsSince 1 ?q) = [9, 7]" by simp
  with n(2) show ?thesis by blast
qed

end
