(* ===== verification/RpcFilter.thy ===== *)
theory RpcFilter
  imports LogIndex PendingPool
begin

text \<open>
  The polling filters of the JSON-RPC server (\<^verbatim>\<open>pkg/api/jsonrpc/filter_manager.go\<close>) and the handlers that
  create, poll and remove them or query logs (\<^verbatim>\<open>methods_filter.go\<close>, \<^verbatim>\<open>methods_logs.go\<close>). A filter
  remembers the last block it was polled at; a poll brings what came after it. The parameters of a
  request are taken after \<^verbatim>\<open>json.Unmarshal\<close>, and the rendering of logs and hashes as JSON is left out.
\<close>

section \<open>The filter manager\<close>

datatype FilterType = LogFilterType | BlockFilterType | PendingTxFilterType

record rpcFilter =
  rfID :: string
  rfType :: FilterType
  rfLogFilter :: "LogFilter option"
  rfLastPollBlock :: u64
  rfLastPendingTxIndex :: u64
  rfCreatedAt :: gotime
  rfLastPollAt :: gotime
  rfDecode :: bool

record FilterManager =
  fmFilters :: "string \<Rightarrow> rpcFilter option"
  fmNextID :: u64
  fmTimeout :: int
  fmPool :: "PendingPool option"

definition NewFilterManager :: "int \<Rightarrow> PendingPool option \<Rightarrow> FilterManager" where
  "NewFilterManager timeout pool = \<lparr>fmFilters = (\<lambda>_. None), fmNextID = 1, fmTimeout = timeout, fmPool = pool\<rparr>"

text \<open>The identifier is the number of the filter cut to one byte, padded to a hash and printed.\<close>

definition filterID :: "geth \<Rightarrow> u64 \<Rightarrow> string" where
  "filterID G n = hashHex G (ucast (ucast n :: 8 word))"

definition generateID :: "geth \<Rightarrow> FilterManager \<Rightarrow> string \<times> FilterManager" where
  "generateID G fm = (filterID G (fmNextID fm), fm\<lparr>fmNextID := fmNextID fm + 1\<rparr>)"

definition FilterManager_NewFilter :: "geth \<Rightarrow> gotime \<Rightarrow> FilterType \<Rightarrow> LogFilter option \<Rightarrow> u64 \<Rightarrow> bool \<Rightarrow>
    FilterManager \<Rightarrow> string \<times> FilterManager" where
  "FilterManager_NewFilter G now filterType logFilter lastBlock decode fm =
     (case generateID G fm of
        (i, fm) \<Rightarrow>
          (i, fm\<lparr>fmFilters := (fmFilters fm)(i \<mapsto>
            \<lparr>rfID = i, rfType = filterType, rfLogFilter = logFilter, rfLastPollBlock = lastBlock,
             rfLastPendingTxIndex =
               (case fmPool fm of
                  Some pool \<Rightarrow> if filterType = PendingTxFilterType then CurrentIndex pool else 0
                | None \<Rightarrow> 0),
             rfCreatedAt = now, rfLastPollAt = now, rfDecode = decode\<rparr>)\<rparr>))"

definition updateFilter :: "string \<Rightarrow> (rpcFilter \<Rightarrow> rpcFilter) \<Rightarrow> FilterManager \<Rightarrow> FilterManager" where
  "updateFilter i g fm = (case fmFilters fm i of
     None \<Rightarrow> fm
   | Some f \<Rightarrow> fm\<lparr>fmFilters := (fmFilters fm)(i \<mapsto> g f)\<rparr>)"

definition GetFilter :: "gotime \<Rightarrow> string \<Rightarrow> FilterManager \<Rightarrow> rpcFilter option \<times> FilterManager" where
  "GetFilter now i fm =
     (let fm' = updateFilter i (\<lambda>f. f\<lparr>rfLastPollAt := now\<rparr>) fm in (fmFilters fm' i, fm'))"

definition UpdateLastPollBlock :: "gotime \<Rightarrow> string \<Rightarrow> u64 \<Rightarrow> FilterManager \<Rightarrow> FilterManager" where
  "UpdateLastPollBlock now i blockNumber =
     updateFilter i (\<lambda>f. f\<lparr>rfLastPollBlock := blockNumber, rfLastPollAt := now\<rparr>)"

definition UpdateLastPendingTxIndex :: "gotime \<Rightarrow> string \<Rightarrow> u64 \<Rightarrow> FilterManager \<Rightarrow> FilterManager" where
  "UpdateLastPendingTxIndex now i index =
     updateFilter i (\<lambda>f. f\<lparr>rfLastPendingTxIndex := index, rfLastPollAt := now\<rparr>)"

definition RemoveFilter :: "string \<Rightarrow> FilterManager \<Rightarrow> bool \<times> FilterManager" where
  "RemoveFilter i fm =
     (if fmFilters fm i \<noteq> None then (True, fm\<lparr>fmFilters := (fmFilters fm)(i := None)\<rparr>) else (False, fm))"

definition FilterManager_cleanup :: "gotime \<Rightarrow> FilterManager \<Rightarrow> FilterManager" where
  "FilterManager_cleanup now fm = fm\<lparr>fmFilters := (\<lambda>i. case fmFilters fm i of
     None \<Rightarrow> None
   | Some f \<Rightarrow> if now - rfLastPollAt f > fmTimeout fm then None else Some f)\<rparr>"

definition GetPendingPoolSize :: "FilterManager \<Rightarrow> nat" where
  "GetPendingPoolSize fm = (case fmPool fm of None \<Rightarrow> 0 | Some pool \<Rightarrow> PendingPool_Size pool)"

section \<open>Polling\<close>

text \<open>The latest height, with zero for a storage without blocks.\<close>

definition latestOrZero :: "'db pebble \<Rightarrow> ('db storage, u64) op" where
  "latestOrZero P = catch (GetLatestHeight P) (\<lambda>e. if e = ErrNotFound then ret 0 else throw e)"

definition nilFilter :: serror where
  "nilFilter = Panic ''nil pointer dereference''"

definition GetLogsSinceLastPoll :: "'db pebble \<Rightarrow> geth \<Rightarrow> gotime \<Rightarrow> string \<Rightarrow> 'db storage \<Rightarrow> FilterManager \<Rightarrow>
    ((serror + log list \<times> u64) \<times> FilterManager) option" where
  "GetLogsSinceLastPoll P G now i s fm =
     (case GetFilter now i fm of
        (None, fm) \<Rightarrow> Some (Inr ([], 0), fm)
      | (Some f, fm) \<Rightarrow>
          if rfType f \<noteq> LogFilterType then Some (Inr ([], 0), fm)
          else case fst (latestOrZero P s) of
              Inl e \<Rightarrow> Some (Inl e, fm)
            | Inr currentHeight \<Rightarrow>
                if currentHeight \<le> rfLastPollBlock f then Some (Inr ([], currentHeight), fm)
                else (case rfLogFilter f of
                    None \<Rightarrow> Some (Inl nilFilter, fm)
                  | Some lf \<Rightarrow>
                      map_option (\<lambda>(r, s'). (map_sum id (\<lambda>logs. (logs, currentHeight)) r, fm))
                        (GetLogs P G (Some \<lparr>lfFromBlock = rfLastPollBlock f + 1, lfToBlock = currentHeight,
                          lfAddresses = lfAddresses lf, lfTopics = lfTopics lf\<rparr>) s)))"

partial_function (option) blockHashLoop :: "'db pebble \<Rightarrow> geth \<Rightarrow> u64 \<Rightarrow> u64 \<Rightarrow> hash list \<Rightarrow> 'db storage \<Rightarrow>
    (serror + hash list) option" where
  "blockHashLoop P G blockNum currentHeight hashes s =
     (if blockNum \<le> currentHeight then
        case fst (GetBlock P G blockNum s) of
          Inl e \<Rightarrow>
            if e = ErrNotFound then blockHashLoop P G (blockNum + 1) currentHeight hashes s
            else Some (Inl e)
        | Inr b \<Rightarrow> blockHashLoop P G (blockNum + 1) currentHeight (hashes @ [bHash b]) s
      else Some (Inr hashes))"

definition GetBlockHashesSinceLastPoll :: "'db pebble \<Rightarrow> geth \<Rightarrow> gotime \<Rightarrow> string \<Rightarrow> 'db storage \<Rightarrow> FilterManager \<Rightarrow>
    ((serror + hash list \<times> u64) \<times> FilterManager) option" where
  "GetBlockHashesSinceLastPoll P G now i s fm =
     (case GetFilter now i fm of
        (None, fm) \<Rightarrow> Some (Inr ([], 0), fm)
      | (Some f, fm) \<Rightarrow>
          if rfType f \<noteq> BlockFilterType then Some (Inr ([], 0), fm)
          else case fst (latestOrZero P s) of
              Inl e \<Rightarrow> Some (Inl e, fm)
            | Inr currentHeight \<Rightarrow>
                if currentHeight \<le> rfLastPollBlock f then Some (Inr ([], currentHeight), fm)
                else map_option (\<lambda>r. (map_sum id (\<lambda>hashes. (hashes, currentHeight)) r, fm))
                  (blockHashLoop P G (rfLastPollBlock f + 1) currentHeight [] s))"

definition GetPendingTransactionsSinceLastPoll :: "gotime \<Rightarrow> string \<Rightarrow> FilterManager \<Rightarrow> hash list \<times> FilterManager" where
  "GetPendingTransactionsSinceLastPoll now i fm =
     (case GetFilter now i fm of
        (None, fm) \<Rightarrow> ([], fm)
      | (Some f, fm) \<Rightarrow>
          if rfType f \<noteq> PendingTxFilterType then ([], fm)
          else case fmPool fm of
              None \<Rightarrow> ([], fm)
            | Some pool \<Rightarrow>
                (case GetTransactionsSince (rfLastPendingTxIndex f) pool of
                   (hashes, newIndex) \<Rightarrow> (hashes, UpdateLastPendingTxIndex now i newIndex fm)))"

section \<open>Request parameters\<close>

text \<open>
  The values \<^verbatim>\<open>json.Unmarshal\<close> gives for an \<^verbatim>\<open>interface{}\<close>; a number is taken after its conversion from
  \<^verbatim>\<open>float64\<close> to \<^verbatim>\<open>uint64\<close>. A missing field and a null are \<open>None\<close>.
\<close>

datatype jval = JString string | JNumber u64 | JArray "jval list" | JNull | JOther

record filterParam =
  fpFromBlock :: "jval option"
  fpToBlock :: "jval option"
  fpAddress :: "jval option"
  fpTopics :: "jval list"
  fpBlockHash :: "string option"
  fpDecode :: "bool option"

datatype rpcError = RpcError int string

definition InvalidParams :: int where "InvalidParams = - 32602"
definition InternalError :: int where "InternalError = - 32603"
definition FilterNotFound :: int where "FilterNotFound = - 32000"

definition hexDigitVal :: "char \<Rightarrow> nat option" where
  "hexDigitVal c =
     (let n = byteVal c in
      if 48 \<le> n \<and> n \<le> 57 then Some (n - 48)
      else if 97 \<le> n \<and> n \<le> 102 then Some (n - 87)
      else if 65 \<le> n \<and> n \<le> 70 then Some (n - 55) else None)"

text \<open>\<^verbatim>\<open>fmt.Sscanf\<close> with \<^verbatim>\<open>%x\<close>: blanks are skipped, the number has at least one digit and at most 64 bits.\<close>

definition scanHex :: "string \<Rightarrow> u64 option" where
  "scanHex str =
     (let digits = takeWhile (\<lambda>c. hexDigitVal c \<noteq> None) (dropWhile isBlank str);
          n = readDigits (\<lambda>c. the (hexDigitVal c)) 16 0 digits
      in if digits = [] \<or> n \<ge> 2 ^ 64 then None else Some (word_of_nat n))"

definition parseBlockNumber :: "'db pebble \<Rightarrow> jval \<Rightarrow> ('db storage, u64) op" where
  "parseBlockNumber P blockParam =
     (case blockParam of
        JString v \<Rightarrow>
          if v = ''earliest'' then ret 0
          else if v = ''latest'' \<or> v = ''pending'' then wrapping ''failed to get latest height'' (latestOrZero P)
          else if length v > 2 \<and> take 2 v = ''0x''
          then fromOption (Errorf ''invalid block number format'') (scanHex (drop 2 v))
          else fromOption (Errorf ''invalid block number format'') (map_option fst (scanUint (length v) v))
      | JNumber n \<Rightarrow> ret n
      | _ \<Rightarrow> throw (Errorf ''invalid block number type''))"

definition rpcOf :: "int \<Rightarrow> string \<Rightarrow> (serror + 'a) \<Rightarrow> rpcError + 'a" where
  "rpcOf code msg r = (case r of Inl e \<Rightarrow> Inl (RpcError code msg) | Inr x \<Rightarrow> Inr x)"

definition orElse :: "(rpcError + 'a) \<Rightarrow> ('a \<Rightarrow> rpcError + 'b) \<Rightarrow> rpcError + 'b" where
  "orElse r f = (case r of Inl e \<Rightarrow> Inl e | Inr x \<Rightarrow> f x)"

fun strings :: "jval list \<Rightarrow> string list option" where
  "strings [] = Some []"
| "strings (JString x # vs) = map_option ((#) x) (strings vs)"
| "strings (v # vs) = None"

definition parseAddresses :: "geth \<Rightarrow> jval option \<Rightarrow> rpcError + address list" where
  "parseAddresses G v =
     (case v of
        None \<Rightarrow> Inr []
      | Some (JString addr) \<Rightarrow> Inr [hexToAddr G addr]
      | Some (JArray addrs) \<Rightarrow>
          (case strings addrs of
             None \<Rightarrow> Inl (RpcError InvalidParams ''invalid address format'')
           | Some xs \<Rightarrow> Inr (map (hexToAddr G) xs))
      | Some _ \<Rightarrow> Inl (RpcError InvalidParams ''invalid address parameter type''))"

definition parseTopic :: "geth \<Rightarrow> jval \<Rightarrow> rpcError + hash list" where
  "parseTopic G v =
     (case v of
        JNull \<Rightarrow> Inr []
      | JString topic \<Rightarrow> Inr [hexToHash G topic]
      | JArray topics \<Rightarrow>
          (case strings topics of
             None \<Rightarrow> Inl (RpcError InvalidParams ''invalid topic format'')
           | Some xs \<Rightarrow> Inr (map (hexToHash G) xs))
      | _ \<Rightarrow> Inl (RpcError InvalidParams ''invalid topic parameter type''))"

fun parseTopics :: "geth \<Rightarrow> jval list \<Rightarrow> rpcError + hash list list" where
  "parseTopics G [] = Inr []"
| "parseTopics G (v # vs) = orElse (parseTopic G v) (\<lambda>t. orElse (parseTopics G vs) (\<lambda>ts. Inr (t # ts)))"

section \<open>Handlers\<close>

datatype rpcResult = RId string | RBool bool | RLogs "log list" bool | RHashes "hash list"

text \<open>\<open>None\<close> for the parameters is an error of \<^verbatim>\<open>json.Unmarshal\<close>; only the first parameter is looked at.\<close>

definition firstParam :: "string \<Rightarrow> 'a list option \<Rightarrow> rpcError + 'a" where
  "firstParam what params =
     (case params of
        None \<Rightarrow> Inl (RpcError InvalidParams ''invalid params'')
      | Some [] \<Rightarrow> Inl (RpcError InvalidParams what)
      | Some (x # xs) \<Rightarrow> Inr x)"

definition latestRpc :: "'db pebble \<Rightarrow> 'db storage \<Rightarrow> rpcError + u64" where
  "latestRpc P s = rpcOf InternalError ''failed to get latest height'' (fst (latestOrZero P s))"

definition blockParamOr :: "'db pebble \<Rightarrow> string \<Rightarrow> (rpcError + u64) \<Rightarrow> jval option \<Rightarrow> 'db storage \<Rightarrow> rpcError + u64" where
  "blockParamOr P msg dflt v s =
     (case v of None \<Rightarrow> dflt | Some x \<Rightarrow> rpcOf InvalidParams msg (fst (parseBlockNumber P x s)))"

definition ethNewFilter :: "'db pebble \<Rightarrow> geth \<Rightarrow> gotime \<Rightarrow> filterParam list option \<Rightarrow> 'db storage \<Rightarrow> FilterManager \<Rightarrow>
    (rpcError + rpcResult) \<times> FilterManager" where
  "ethNewFilter P G now params s fm =
     (case orElse (firstParam ''missing filter parameter'' params) (\<lambda>p.
        orElse (blockParamOr P ''invalid fromBlock'' (latestRpc P s) (fpFromBlock p) s) (\<lambda>fromBlock.
        orElse (blockParamOr P ''invalid toBlock'' (latestRpc P s) (fpToBlock p) s) (\<lambda>toBlock.
        orElse (parseAddresses G (fpAddress p)) (\<lambda>addrs.
        orElse (parseTopics G (fpTopics p)) (\<lambda>topics.
        orElse (latestRpc P s) (\<lambda>latestHeight.
        Inr (\<lparr>lfFromBlock = fromBlock, lfToBlock = toBlock, lfAddresses = addrs, lfTopics = topics\<rparr>, latestHeight,
          fpDecode p = Some True))))))) of
        Inl e \<Rightarrow> (Inl e, fm)
      | Inr (flt, latestHeight, decode) \<Rightarrow>
          (case FilterManager_NewFilter G now LogFilterType (Some flt) latestHeight decode fm of
             (i, fm) \<Rightarrow> (Inr (RId i), fm)))"

definition newPlainFilter :: "FilterType \<Rightarrow> 'db pebble \<Rightarrow> geth \<Rightarrow> gotime \<Rightarrow> 'db storage \<Rightarrow> FilterManager \<Rightarrow>
    (rpcError + rpcResult) \<times> FilterManager" where
  "newPlainFilter t P G now s fm =
     (case latestRpc P s of
        Inl e \<Rightarrow> (Inl e, fm)
      | Inr latestHeight \<Rightarrow>
          (case FilterManager_NewFilter G now t None latestHeight False fm of (i, fm) \<Rightarrow> (Inr (RId i), fm)))"

definition ethNewBlockFilter :: "'db pebble \<Rightarrow> geth \<Rightarrow> gotime \<Rightarrow> 'db storage \<Rightarrow> FilterManager \<Rightarrow>
    (rpcError + rpcResult) \<times> FilterManager" where
  "ethNewBlockFilter = newPlainFilter BlockFilterType"

definition ethNewPendingTransactionFilter :: "'db pebble \<Rightarrow> geth \<Rightarrow> gotime \<Rightarrow> 'db storage \<Rightarrow> FilterManager \<Rightarrow>
    (rpcError + rpcResult) \<times> FilterManager" where
  "ethNewPendingTransactionFilter = newPlainFilter PendingTxFilterType"

definition ethUninstallFilter :: "string list option \<Rightarrow> FilterManager \<Rightarrow> (rpcError + rpcResult) \<times> FilterManager" where
  "ethUninstallFilter params fm =
     (case firstParam ''missing filter ID'' params of
        Inl e \<Rightarrow> (Inl e, fm)
      | Inr i \<Rightarrow> (case RemoveFilter i fm of (removed, fm) \<Rightarrow> (Inr (RBool removed), fm)))"

definition ethGetFilterChanges :: "'db pebble \<Rightarrow> geth \<Rightarrow> gotime \<Rightarrow> string list option \<Rightarrow> 'db storage \<Rightarrow> FilterManager \<Rightarrow>
    ((rpcError + rpcResult) \<times> FilterManager) option" where
  "ethGetFilterChanges P G now params s fm =
     (case firstParam ''missing filter ID'' params of
        Inl e \<Rightarrow> Some (Inl e, fm)
      | Inr i \<Rightarrow>
          (case GetFilter now i fm of
             (None, fm) \<Rightarrow> Some (Inl (RpcError FilterNotFound ''filter not found''), fm)
           | (Some f, fm) \<Rightarrow>
               (case rfType f of
                  LogFilterType \<Rightarrow>
                    map_option (\<lambda>(r, fm). case r of
                        Inl e \<Rightarrow> (Inl (RpcError InternalError ''failed to get logs''), fm)
                      | Inr (logs, currentHeight) \<Rightarrow>
                          (Inr (RLogs logs (rfDecode f)), UpdateLastPollBlock now i currentHeight fm))
                      (GetLogsSinceLastPoll P G now i s fm)
                | BlockFilterType \<Rightarrow>
                    map_option (\<lambda>(r, fm). case r of
                        Inl e \<Rightarrow> (Inl (RpcError InternalError ''failed to get block hashes''), fm)
                      | Inr (hashes, currentHeight) \<Rightarrow>
                          (Inr (RHashes hashes), UpdateLastPollBlock now i currentHeight fm))
                      (GetBlockHashesSinceLastPoll P G now i s fm)
                | PendingTxFilterType \<Rightarrow>
                    (case GetPendingTransactionsSinceLastPoll now i fm of
                       (hashes, fm) \<Rightarrow> Some (Inr (RHashes hashes), fm)))))"

definition ethGetFilterLogs :: "'db pebble \<Rightarrow> geth \<Rightarrow> gotime \<Rightarrow> string list option \<Rightarrow> 'db storage \<Rightarrow> FilterManager \<Rightarrow>
    ((rpcError + rpcResult) \<times> FilterManager) option" where
  "ethGetFilterLogs P G now params s fm =
     (case firstParam ''missing filter ID'' params of
        Inl e \<Rightarrow> Some (Inl e, fm)
      | Inr i \<Rightarrow>
          (case GetFilter now i fm of
             (None, fm) \<Rightarrow> Some (Inl (RpcError FilterNotFound ''filter not found''), fm)
           | (Some f, fm) \<Rightarrow>
               if rfType f \<noteq> LogFilterType then Some (Inl (RpcError InvalidParams ''filter is not a log filter''), fm)
               else map_option (\<lambda>(r, s'). (map_sum (\<lambda>_. RpcError InternalError ''failed to get logs'')
                   (\<lambda>logs. RLogs logs (rfDecode f)) r, fm)) (GetLogs P G (rfLogFilter f) s)))"

text \<open>A block hash stands for the range of its block, and excludes a range.\<close>

definition ethGetLogs :: "'db pebble \<Rightarrow> geth \<Rightarrow> filterParam list option \<Rightarrow> 'db storage \<Rightarrow>
    (rpcError + rpcResult) option" where
  "ethGetLogs P G params s =
     (case orElse (firstParam ''missing filter parameter'' params) (\<lambda>p.
        orElse (if fpBlockHash p \<noteq> None \<and> (fpFromBlock p \<noteq> None \<or> fpToBlock p \<noteq> None)
          then Inl (RpcError InvalidParams ''cannot specify both blockHash and block range'') else Inr ()) (\<lambda>_.
        orElse (case fpBlockHash p of
            Some h \<Rightarrow>
              (case fst (GetBlockByHash P G (hexToHash G h) s) of
                 Inl e \<Rightarrow> Inl (RpcError InternalError
                   (if e = ErrNotFound then ''block not found'' else ''failed to get block''))
               | Inr b \<Rightarrow> Inr (bNumber b, bNumber b))
          | None \<Rightarrow>
              orElse (blockParamOr P ''invalid fromBlock'' (Inr 0) (fpFromBlock p) s) (\<lambda>fromBlock.
              orElse (blockParamOr P ''invalid toBlock'' (latestRpc P s) (fpToBlock p) s) (\<lambda>toBlock.
              Inr (fromBlock, toBlock)))) (\<lambda>(fromBlock, toBlock).
        orElse (parseAddresses G (fpAddress p)) (\<lambda>addrs.
        orElse (parseTopics G (fpTopics p)) (\<lambda>topics.
        Inr (\<lparr>lfFromBlock = fromBlock, lfToBlock = toBlock, lfAddresses = addrs, lfTopics = topics\<rparr>,
          fpDecode p = Some True)))))) of
        Inl e \<Rightarrow> Some (Inl e)
      | Inr (flt, decode) \<Rightarrow>
          map_option (\<lambda>(r, s'). map_sum (\<lambda>_. RpcError InternalError ''failed to get logs'') (\<lambda>logs. RLogs logs decode) r)
            (GetLogs P G (Some flt) s))"

section \<open>Successive polls of a log filter\<close>

lemma updateFilter_eq: "fmFilters fm i = Some f \<Longrightarrow> updateFilter i g fm = fm\<lparr>fmFilters := (fmFilters fm)(i \<mapsto> g f)\<rparr>"
  by (simp add: updateFilter_def)

lemma GetFilter_eq:
  "fmFilters fm i = Some f \<Longrightarrow>
   GetFilter now i fm = (Some (f\<lparr>rfLastPollAt := now\<rparr>), fm\<lparr>fmFilters := (fmFilters fm)(i \<mapsto> f\<lparr>rfLastPollAt := now\<rparr>)\<rparr>)"
  by (simp add: GetFilter_def updateFilter_eq)

text \<open>The logs a filter asks for.\<close>

definition wanted :: "LogFilter \<Rightarrow> log \<Rightarrow> bool" where
  "wanted lf l \<longleftrightarrow> (lfAddresses lf = [] \<or> lAddress l \<in> set (lfAddresses lf)) \<and>
     (\<forall>i<length (lfTopics lf). lfTopics lf ! i \<noteq> [] \<longrightarrow> i < length (lTopics l) \<and> lTopics l ! i \<in> set (lfTopics lf ! i))"

definition between :: "u64 \<Rightarrow> u64 \<Rightarrow> log \<Rightarrow> bool" where
  "between lo hi l \<longleftrightarrow> lo < lBlockNumber l \<and> lBlockNumber l \<le> hi"

text \<open>A storage at height \<open>n\<close> whose logs up to that height are those of the chain \<open>ls\<close>.\<close>

definition snapshot :: "'db pebble \<Rightarrow> ('db \<Rightarrow> bytes \<Rightarrow> bytes option) \<Rightarrow> geth \<Rightarrow> log list \<Rightarrow> u64 \<Rightarrow> 'db storage \<Rightarrow> bool" where
  "snapshot P view G ls n s \<longleftrightarrow> \<not> closed s \<and> n < - 1 \<and> GetLatestHeight P s = (Inr n, s) \<and>
     (\<exists>ms. log_inv view G s ms \<and> {l \<in> set ms. lBlockNumber l \<le> n} = {l \<in> set ls. lBlockNumber l \<le> n})"

lemma poll_logs:
  assumes "pebble_db P view" "geth_codec G" "snapshot P view G ls n s"
    and "fmFilters fm i = Some f" "rfType f = LogFilterType" "rfLogFilter f = Some lf"
    and "rfLastPollBlock f \<le> n" "n - rfLastPollBlock f \<le> 10001"
  shows "\<exists>logs fm'. ethGetFilterChanges P G now (Some [i]) s fm = Some (Inr (RLogs logs (rfDecode f)), fm') \<and>
    fmFilters fm' i = Some (f\<lparr>rfLastPollBlock := n, rfLastPollAt := now\<rparr>) \<and>
    set logs = {l \<in> set ls. between (rfLastPollBlock f) n l \<and> wanted lf l} \<and>
    (distinct (lfAddresses lf) \<and> (\<forall>ts\<in>set (lfTopics lf). distinct ts) \<longrightarrow> distinct logs)"
proof -
  let ?f1 = "f\<lparr>rfLastPollAt := now\<rparr>"
  let ?fm1 = "fm\<lparr>fmFilters := (fmFilters fm)(i \<mapsto> ?f1)\<rparr>"
  from assms(3) obtain ms where s: "\<not> closed s" "n < - 1" "GetLatestHeight P s = (Inr n, s)" "log_inv view G s ms"
    and ms: "{l \<in> set ms. lBlockNumber l \<le> n} = {l \<in> set ls. lBlockNumber l \<le> n}" by (auto simp: snapshot_def)
  have get: "GetFilter now i fm = (Some ?f1, ?fm1)" "GetFilter now i ?fm1 = (Some ?f1, ?fm1)"
    using GetFilter_eq [OF assms(4)] GetFilter_eq [of ?fm1 i ?f1 now] by simp_all
  have lz: "fst (latestOrZero P s) = Inr n" by (simp add: latestOrZero_def catch_def s(3))
  have upd: "fmFilters (UpdateLastPollBlock now i n ?fm1) i = Some (f\<lparr>rfLastPollBlock := n, rfLastPollAt := now\<rparr>)"
    by (simp add: UpdateLastPollBlock_def updateFilter_eq)
  show ?thesis
  proof (cases "n \<le> rfLastPollBlock f")
    case True
    then have "n = rfLastPollBlock f" using assms(7) by simp
    then have "\<not> between (rfLastPollBlock f) n l" for l by (auto simp: between_def)
    moreover have "ethGetFilterChanges P G now (Some [i]) s fm =
        Some (Inr (RLogs [] (rfDecode f)), UpdateLastPollBlock now i n ?fm1)"
      using get True lz assms(5) by (simp add: ethGetFilterChanges_def firstParam_def GetLogsSinceLastPoll_def)
    ultimately show ?thesis using upd by (intro exI [of _ "[]"] exI [of _ "UpdateLastPollBlock now i n ?fm1"]) simp
  next
    case False
    then have lt: "rfLastPollBlock f < n" by simp
    then have last: "rfLastPollBlock f < - 1" using s(2) by auto
    let ?flt = "\<lparr>lfFromBlock = rfLastPollBlock f + 1, lfToBlock = n, lfAddresses = lfAddresses lf, lfTopics = lfTopics lf\<rparr>"
    have from_le: "lfFromBlock ?flt \<le> n" using lt by (simp add: inc_le)
    have n0: "n \<noteq> 0" using lt by auto
    have "unat (n - (rfLastPollBlock f + 1)) = unat (n - rfLastPollBlock f) - 1"
      using lt from_le unat_succ_u64 [OF last] by (simp add: unat_sub_if' word_le_nat_alt word_less_nat_alt)
    then have size: "n - lfFromBlock ?flt \<le> 10000" using assms(8) by (simp add: word_le_nat_alt)
    have tb: "lfToBlock ?flt \<noteq> 0 \<and> n = lfToBlock ?flt \<or> lfToBlock ?flt = 0 \<and> GetLatestHeight P s = (Inr n, s)" using n0 by simp
    let ?logs = "filter (\<lambda>l. matchesTopicFilter l (lfTopics ?flt)) (candidates ?flt n ms)"
    have logs: "GetLogs P G (Some ?flt) s = Some (Inr ?logs, s)"
      by (rule GetLogs_eq [OF assms(1,2) s(4,1,2) tb from_le size])
    have "rfLastPollBlock f + 1 \<le> b \<longleftrightarrow> rfLastPollBlock f < b" for b
      using less_succ_u64 [OF last, of b] by (auto simp: not_less [symmetric])
    then have "set ?logs = {l \<in> set ls. between (rfLastPollBlock f) n l \<and> wanted lf l}"
      using ms unfolding candidates_set by (auto simp: between_def wanted_def matchesTopicFilter_iff)
    moreover have "distinct ms" using s(4) sorted_logs_distinct by (auto simp: log_inv_def)
    then have "distinct (lfAddresses lf) \<and> (\<forall>ts\<in>set (lfTopics lf). distinct ts) \<longrightarrow> distinct ?logs"
      using candidates_distinct [of ms ?flt n] by simp
    moreover have "ethGetFilterChanges P G now (Some [i]) s fm =
        Some (Inr (RLogs ?logs (rfDecode f)), UpdateLastPollBlock now i n ?fm1)"
      using get False lz assms(5,6) logs by (simp add: ethGetFilterChanges_def firstParam_def GetLogsSinceLastPoll_def)
    ultimately show ?thesis using upd by blast
  qed
qed

text \<open>
  A filter that falls more than 10001 blocks behind is stuck: the poll fails and leaves the last
  polled block where it is, so that every later poll fails too.
\<close>

lemma poll_too_far_behind:
  assumes "GetLatestHeight P s = (Inr n, s)" "\<not> closed s" "n - (rfLastPollBlock f + 1) > 10000" "rfLastPollBlock f < n"
    and "fmFilters fm i = Some f" "rfType f = LogFilterType" "rfLogFilter f = Some lf"
  shows "\<exists>fm'. ethGetFilterChanges P G now (Some [i]) s fm = Some (Inl (RpcError InternalError ''failed to get logs''), fm') \<and>
    fmFilters fm' i = Some (f\<lparr>rfLastPollAt := now\<rparr>)"
proof -
  let ?f1 = "f\<lparr>rfLastPollAt := now\<rparr>"
  let ?fm1 = "fm\<lparr>fmFilters := (fmFilters fm)(i \<mapsto> ?f1)\<rparr>"
  let ?flt = "\<lparr>lfFromBlock = rfLastPollBlock f + 1, lfToBlock = n, lfAddresses = lfAddresses lf, lfTopics = lfTopics lf\<rparr>"
  have n0: "n \<noteq> 0" using assms(4) by auto
  have le: "rfLastPollBlock f + 1 \<le> n" using assms(4) by (rule inc_le)
  have "GetLogs_toBlock P (Some ?flt) s = (Inl (Errorf ''block range too large''), s)"
    using assms(2,3) n0 le by (simp add: GetLogs_toBlock_def guard_simps andThen_def throw_def ret_def not_less)
  then have e: "GetLogs P G (Some ?flt) s = Some (Inl (Errorf ''block range too large''), s)" by (simp add: GetLogs_def)
  have "GetFilter now i fm = (Some ?f1, ?fm1)" "GetFilter now i ?fm1 = (Some ?f1, ?fm1)"
    using GetFilter_eq [OF assms(5)] GetFilter_eq [of ?fm1 i ?f1 now] by simp_all
  then show ?thesis using assms(1,4,6,7) e
    by (simp add: ethGetFilterChanges_def firstParam_def GetLogsSinceLastPoll_def latestOrZero_def catch_def not_le)
qed

text \<open>Polling one filter again and again, each time at some time, on some storage.\<close>

fun pollAll :: "'db pebble \<Rightarrow> geth \<Rightarrow> string \<Rightarrow> (gotime \<times> 'db storage) list \<Rightarrow> FilterManager \<Rightarrow>
    (log list list \<times> FilterManager) option" where
  "pollAll P G i [] fm = Some ([], fm)"
| "pollAll P G i ((now, s) # xs) fm =
     (case ethGetFilterChanges P G now (Some [i]) s fm of
        Some (Inr (RLogs logs d), fm') \<Rightarrow> map_option (\<lambda>(rs, fm''). (logs # rs, fm'')) (pollAll P G i xs fm')
      | _ \<Rightarrow> None)"

text \<open>The storage grows from poll to poll: heights \<open>ns\<close> that do not fall, by at most 10001 blocks at a time.\<close>

fun growing :: "'db pebble \<Rightarrow> ('db \<Rightarrow> bytes \<Rightarrow> bytes option) \<Rightarrow> geth \<Rightarrow> log list \<Rightarrow> u64 \<Rightarrow> (u64 \<times> gotime \<times> 'db storage) list \<Rightarrow> bool" where
  "growing P view G ls seen [] = True"
| "growing P view G ls seen ((n, now, s) # xs) \<longleftrightarrow>
     snapshot P view G ls n s \<and> seen \<le> n \<and> n - seen \<le> 10001 \<and> growing P view G ls n xs"

lemma growing_ge: "growing P view G ls seen xs \<Longrightarrow> seen \<le> foldl (\<lambda>_ x. fst x) seen xs"
  by (induction xs arbitrary: seen) (auto split: prod.splits intro: order_trans)

lemma pollAll_once:
  assumes "pebble_db P view" "geth_codec G" "growing P view G ls (rfLastPollBlock f) xs"
    and "fmFilters fm i = Some f" "rfType f = LogFilterType" "rfLogFilter f = Some lf"
    and "distinct (lfAddresses lf)" "\<forall>ts\<in>set (lfTopics lf). distinct ts"
  shows "\<exists>rs fm'. pollAll P G i (map snd xs) fm = Some (rs, fm') \<and> distinct (concat rs) \<and>
    set (concat rs) = {l \<in> set ls. between (rfLastPollBlock f) (foldl (\<lambda>_ x. fst x) (rfLastPollBlock f) xs) l \<and> wanted lf l}"
  using assms(3-6)
proof (induction xs arbitrary: fm f)
  case Nil
  then show ?case by (auto simp: between_def)
next
  case (Cons x xs)
  obtain n now s where x: "x = (n, now, s)" by (metis prod_cases3)
  let ?f = "f\<lparr>rfLastPollBlock := n, rfLastPollAt := now\<rparr>"
  have g: "snapshot P view G ls n s" "rfLastPollBlock f \<le> n" "n - rfLastPollBlock f \<le> 10001" "growing P view G ls n xs"
    using Cons.prems(1) x by auto
  from poll_logs [OF assms(1,2) g(1) Cons.prems(2-4) g(2,3), of now] assms(7,8) obtain logs fm1 where
    p: "ethGetFilterChanges P G now (Some [i]) s fm = Some (Inr (RLogs logs (rfDecode f)), fm1)"
    "fmFilters fm1 i = Some ?f" "set logs = {l \<in> set ls. between (rfLastPollBlock f) n l \<and> wanted lf l}" "distinct logs"
    by blast
  obtain rs fm2 where r: "pollAll P G i (map snd xs) fm1 = Some (rs, fm2)" "distinct (concat rs)"
    "set (concat rs) = {l \<in> set ls. between n (foldl (\<lambda>_ x. fst x) n xs) l \<and> wanted lf l}"
    using Cons.IH [of ?f fm1] g(4) p(2) Cons.prems(3,4) by auto
  note ge = growing_ge [OF g(4)]
  have "between (rfLastPollBlock f) (foldl (\<lambda>_ x. fst x) n xs) l \<longleftrightarrow>
      between (rfLastPollBlock f) n l \<or> between n (foldl (\<lambda>_ x. fst x) n xs) l" for l
    using ge g(2) by (auto simp: between_def)
  moreover have "\<not> (between (rfLastPollBlock f) n l \<and> between n m l)" for l m by (auto simp: between_def)
  ultimately show ?case using p(1,3,4) r x by (auto simp: r(3) p(3))
qed

section \<open>Identifiers and expiry\<close>

text \<open>The identifiers of a manager are those of the filters it has made.\<close>

definition ids_inv :: "geth \<Rightarrow> FilterManager \<Rightarrow> bool" where
  "ids_inv G fm \<longleftrightarrow> (\<forall>i. fmFilters fm i \<noteq> None \<longrightarrow> (\<exists>k. i = filterID G k \<and> 1 \<le> k \<and> k < fmNextID fm))"

lemma ucast_byte_inject: "(ucast (x :: 8 word) :: hash) = ucast y \<Longrightarrow> x = y"
proof -
  have u: "unat (ucast z :: hash) = unat z" for z :: "8 word"
    using unsigned_less [of z, where ?'a = nat] by (simp add: unsigned_ucast_eq take_bit_nat_eq_self_iff)
  assume "(ucast x :: hash) = ucast y"
  then have "unat x = unat y" by (metis u)
  then show ?thesis by (simp add: word_unat_eq_iff)
qed

lemma filterID_inject:
  assumes "geth_codec G" "n \<le> 255" "m \<le> 255" "filterID G n = filterID G m"
  shows "n = m"
proof -
  have "(ucast n :: 8 word) = ucast m"
    using assms(4) geth_codec.hexToHash [OF assms(1)] unfolding filterID_def by (metis ucast_byte_inject)
  then have "unat n mod 256 = unat m mod 256" by (simp add: word_unat_eq_iff unsigned_ucast_eq take_bit_eq_mod)
  moreover have "unat n < 256" "unat m < 256" using assms(2,3) by (simp_all add: word_le_nat_alt)
  ultimately show ?thesis by (simp add: word_unat_eq_iff)
qed

text \<open>The 257th filter takes the identifier of the first, and with it its place.\<close>

lemma filterID_wraps: "filterID G (n + 256) = filterID G n"
proof -
  have "unat (n + 256) mod 256 = unat n mod 256" by (simp add: unat_word_ariths mod_mod_cancel)
  then have "(ucast (n + 256) :: 8 word) = ucast n" by (simp add: word_unat_eq_iff unsigned_ucast_eq take_bit_eq_mod)
  then show ?thesis by (simp add: filterID_def)
qed

lemma ids_inv_less:
  assumes "ids_inv G fm" "\<And>i. fmFilters fm' i \<noteq> None \<Longrightarrow> fmFilters fm i \<noteq> None" "fmNextID fm' = fmNextID fm"
  shows "ids_inv G fm'"
  using assms unfolding ids_inv_def by simp

lemma ids_inv_steps:
  "ids_inv G (NewFilterManager timeout pool)"
  "ids_inv G fm \<Longrightarrow> ids_inv G (updateFilter i g fm)"
  "ids_inv G fm \<Longrightarrow> ids_inv G (snd (RemoveFilter i fm))"
  "ids_inv G fm \<Longrightarrow> ids_inv G (FilterManager_cleanup now fm)"
proof -
  show "ids_inv G (NewFilterManager timeout pool)" by (simp add: ids_inv_def NewFilterManager_def)
  show "ids_inv G fm \<Longrightarrow> ids_inv G (updateFilter i g fm)"
    by (erule ids_inv_less) (auto simp: updateFilter_def split: option.splits if_splits)
  show "ids_inv G fm \<Longrightarrow> ids_inv G (snd (RemoveFilter i fm))"
    by (erule ids_inv_less) (auto simp: RemoveFilter_def split: if_splits)
  show "ids_inv G fm \<Longrightarrow> ids_inv G (FilterManager_cleanup now fm)"
    by (erule ids_inv_less) (auto simp: FilterManager_cleanup_def split: option.splits if_splits)
qed

text \<open>
  The first 255 filters are kept apart. As long as fewer than 255 filters have been made, a new
  filter gets an identifier that no filter of the manager has, so that creating it changes no other filter, and the
  next poll finds it.
\<close>

theorem NewFilter_fresh:
  assumes "geth_codec G" "ids_inv G fm" "1 \<le> fmNextID fm" "fmNextID fm \<le> 255"
    and "FilterManager_NewFilter G now t lf n d fm = (i, fm')"
  shows "fmFilters fm i = None \<and> (\<forall>j. j \<noteq> i \<longrightarrow> fmFilters fm' j = fmFilters fm j) \<and>
    (\<exists>f. fst (GetFilter now' i fm') = Some f \<and> rfType f = t \<and> rfLogFilter f = lf \<and> rfLastPollBlock f = n) \<and> ids_inv G fm'"
proof -
  have i: "i = filterID G (fmNextID fm)" and fm': "fmNextID fm' = fmNextID fm + 1"
    "\<And>j. j \<noteq> i \<Longrightarrow> fmFilters fm' j = fmFilters fm j"
    "\<exists>f. fmFilters fm' i = Some f \<and> rfType f = t \<and> rfLogFilter f = lf \<and> rfLastPollBlock f = n"
    using assms(5) by (auto simp: FilterManager_NewFilter_def generateID_def)
  have "filterID G k \<noteq> i" if k: "k < fmNextID fm" for k
  proof
    assume "filterID G k = i"
    then have "filterID G k = filterID G (fmNextID fm)" using i by simp
    with filterID_inject [OF assms(1) _ assms(4)] k assms(4) have "k = fmNextID fm" by (meson less_imp_le order_trans)
    with k show False by simp
  qed
  then have "fmFilters fm i = None" using assms(2) unfolding ids_inv_def by metis
  moreover have "ids_inv G fm'"
    unfolding ids_inv_def
  proof (intro allI impI)
    fix j assume j: "fmFilters fm' j \<noteq> None"
    have lt: "fmNextID fm < - 1" using assms(4) by (rule order_le_less_trans) simp
    show "\<exists>k. j = filterID G k \<and> 1 \<le> k \<and> k < fmNextID fm'"
    proof (cases "j = i")
      case True
      then show ?thesis using i assms(3) less_succ_u64 [OF lt, of "fmNextID fm"] fm'(1) by auto
    next
      case False
      with j fm'(2) assms(2) obtain k where "j = filterID G k" "1 \<le> k" "k < fmNextID fm" by (auto simp: ids_inv_def)
      then show ?thesis using less_succ_u64 [OF lt, of k] fm'(1) by auto
    qed
  qed
  moreover have "\<exists>f. fst (GetFilter now' i fm') = Some f \<and> rfType f = t \<and> rfLogFilter f = lf \<and> rfLastPollBlock f = n"
    using fm'(3) by (auto simp: GetFilter_eq)
  ultimately show ?thesis using fm'(2) by blast
qed

theorem NewFilter_fresh_witness:
  "\<exists>fm'. FilterManager_NewFilter sampleGeth 4 BlockFilterType None 9 False (NewFilterManager 60 None) =
      (filterID sampleGeth 1, fm') \<and> ids_inv sampleGeth fm'"
proof -
  obtain i fm' where n: "FilterManager_NewFilter sampleGeth 4 BlockFilterType None 9 False (NewFilterManager 60 None) = (i, fm')"
    by (metis surj_pair)
  have "i = filterID sampleGeth 1" using n by (simp add: FilterManager_NewFilter_def generateID_def NewFilterManager_def)
  moreover have "ids_inv sampleGeth fm'"
    using NewFilter_fresh [OF geth_codec_sample ids_inv_steps(1) _ _ n, of 5] by (simp add: NewFilterManager_def)
  ultimately show ?thesis using n by simp
qed


definition sampleHead :: "((bytes \<times> bytes) list) storage" where
  "sampleHead = snd (dbSet memPebble LatestHeightKey (EncodeUint64 9) (snd sampleLogs))"

lemma sampleHead_snapshot: "snapshot memPebble map_of sampleGeth [sampleLog] 9 sampleHead"
proof -
  obtain s where "dbSet memPebble LatestHeightKey (EncodeUint64 9) (snd sampleLogs) = (Inr (), s)"
    by (simp add: dbSet_def liftWrite_def memPebble_def)
  note d = this memPebble.dbSet_Inr [OF this]
  have s: "s = sampleHead" using d(1) by (simp add: sampleHead_def)
  have o: "\<not> closed s" using d(2) sampleLogs_ok(2) by (simp add: only_db_def)
  have "GetLatestHeight memPebble s = (Inr 9, s)"
    using o d(2) by (simp add: GetLatestHeight_def guard_simps memPebble.getKey_eq andThen_def)
  moreover have "\<not> HasPrefix LatestHeightKey ''/index/logs/''" "\<And>l. logKeyOf l \<noteq> LatestHeightKey"
    by (simp_all add: HasPrefix_def key_defs)
  then have "log_inv map_of sampleGeth s [sampleLog]"
    using sampleLogs_inv d(2) by (auto simp: log_inv_def)
  ultimately show ?thesis using o by (auto simp: snapshot_def s)
qed


end
