(* ===== verification/Resilience.thy ===== *)
theory Resilience
  imports PebbleStorage
begin

text \<open>
  Sessions that survive a lost connection (\<^verbatim>\<open>pkg/resilience\<close>): the session store and the event
  cache over the key-value interface of the storage, and the connection manager that connects,
  disconnects, reconnects, delivers and replays. \<^verbatim>\<open>encoding/json\<close> is a parameter with its
  round-trip law; the clock and the identifiers made from it are arguments.
\<close>

section \<open>Sessions and events\<close>

text \<open>A Go map of a session is the list of its entries in the order of the keys, so that it has one representation.\<close>

record SubState =
  subTopic :: string
  subLastEventID :: string
  subCreatedAt :: gotime
  subActive :: bool

record Session =
  sesID :: string
  sesClientID :: string
  sesState :: string
  sesSubscriptions :: "(string \<times> SubState) list"
  sesLastEventID :: string
  sesLastSeen :: gotime
  sesCreatedAt :: gotime
  sesTTL :: int
  sesMetadata :: "(string \<times> string) list"

text \<open>A time stamp is the nanosecond count of a time, \<open>None\<close> for the zero time.\<close>

record CachedEvent =
  ceID :: string
  ceSessionID :: string
  ceEventType :: string
  cePayload :: bytes
  ceTimestamp :: "u64 option"
  ceDelivered :: bool
  ceTopic :: string

record resConfig =
  rcSessionTTL :: int
  rcCleanupPeriod :: int
  rcCacheWindow :: int
  rcMaxEvents :: int
  rcBackend :: string

definition resDefaultConfig :: resConfig where
  "resDefaultConfig = \<lparr>rcSessionTTL = 86400000000000, rcCleanupPeriod = 3600000000000,
     rcCacheWindow = 3600000000000, rcMaxEvents = 1000, rcBackend = ''pebble''\<rparr>"

text \<open>
  \<^verbatim>\<open>encoding/json\<close> on the values of this package. It replaces what is not UTF-8 in a string, so that what it
  promises to read back are values whose strings are text: ASCII is what is used here.
\<close>

datatype wsMessage = EventMessage string bytes string bool | ReplayStart nat | ReplayEnd

record resJson =
  marshalSession :: "Session \<Rightarrow> bytes option"
  unmarshalSession :: "bytes \<Rightarrow> Session option"
  marshalEvent :: "CachedEvent \<Rightarrow> bytes option"
  unmarshalEvent :: "bytes \<Rightarrow> CachedEvent option"
  marshalMessage :: "wsMessage \<Rightarrow> bytes option"

definition ascii :: "string \<Rightarrow> bool" where
  "ascii x \<longleftrightarrow> (\<forall>c\<in>set x. (of_char c :: nat) < 128)"

definition asciiSession :: "Session \<Rightarrow> bool" where
  "asciiSession x \<longleftrightarrow> ascii (sesID x) \<and> ascii (sesClientID x) \<and> ascii (sesState x) \<and> ascii (sesLastEventID x) \<and>
     list_all (\<lambda>(t, sub). ascii t \<and> ascii (subTopic sub) \<and> ascii (subLastEventID sub)) (sesSubscriptions x) \<and>
     list_all (\<lambda>(k, v). ascii k \<and> ascii v) (sesMetadata x)"

definition asciiEvent :: "CachedEvent \<Rightarrow> bool" where
  "asciiEvent e \<longleftrightarrow> ascii (ceID e) \<and> ascii (ceSessionID e) \<and> ascii (ceEventType e) \<and> ascii (ceTopic e)"

locale res_json =
  fixes J :: resJson
  assumes session_roundtrip: "asciiSession x \<Longrightarrow> marshalSession J x = Some d \<Longrightarrow> unmarshalSession J d = Some x"
    and event_roundtrip: "asciiEvent e \<Longrightarrow> marshalEvent J e = Some d \<Longrightarrow> unmarshalEvent J d = Some e"

definition SessionStateActive :: string where "SessionStateActive = ''active''"
definition SessionStateDisconnected :: string where "SessionStateDisconnected = ''disconnected''"
definition SessionStateExpired :: string where "SessionStateExpired = ''expired''"

definition NewSession :: "gotime \<Rightarrow> string \<Rightarrow> string \<Rightarrow> int \<Rightarrow> Session" where
  "NewSession now i clientID ttl =
     \<lparr>sesID = i, sesClientID = clientID, sesState = SessionStateActive, sesSubscriptions = [], sesLastEventID = [],
      sesLastSeen = now, sesCreatedAt = now, sesTTL = ttl, sesMetadata = []\<rparr>"

definition Session_IsExpired :: "gotime \<Rightarrow> Session \<Rightarrow> bool" where
  "Session_IsExpired now x \<longleftrightarrow> now - sesLastSeen x > sesTTL x"

definition Touch :: "gotime \<Rightarrow> Session \<Rightarrow> Session" where
  "Touch now x = x\<lparr>sesLastSeen := now\<rparr>"

definition AddSubscription :: "gotime \<Rightarrow> string \<Rightarrow> Session \<Rightarrow> Session" where
  "AddSubscription now topic x = x\<lparr>sesSubscriptions :=
     insort_key fst (topic, \<lparr>subTopic = topic, subLastEventID = [], subCreatedAt = now, subActive = True\<rparr>)
       (filter (\<lambda>y. fst y \<noteq> topic) (sesSubscriptions x))\<rparr>"

definition RemoveSubscription :: "string \<Rightarrow> Session \<Rightarrow> Session" where
  "RemoveSubscription topic x = x\<lparr>sesSubscriptions := filter (\<lambda>y. fst y \<noteq> topic) (sesSubscriptions x)\<rparr>"

definition UpdateLastEvent :: "string \<Rightarrow> string \<Rightarrow> Session \<Rightarrow> Session" where
  "UpdateLastEvent eventID topic x = x\<lparr>sesLastEventID := eventID,
     sesSubscriptions := map (\<lambda>(t, sub). (t, if t = topic then sub\<lparr>subLastEventID := eventID\<rparr> else sub)) (sesSubscriptions x)\<rparr>"

text \<open>Six characters from one reading of the clock and six from a second one.\<close>

fun idDigits :: "nat \<Rightarrow> nat \<Rightarrow> nat \<Rightarrow> string" where
  "idDigits divisor 0 n = []"
| "idDigits divisor (Suc k) n = (''abcdefghijklmnopqrstuvwxyz0123456789'' ! (n mod 36)) # idDigits divisor k (n div divisor)"

definition res_generateID :: "nat \<Rightarrow> nat \<Rightarrow> string" where
  "res_generateID now nano = idDigits 36 6 now @ idDigits 17 6 nano"

definition generateSessionID :: "nat \<Rightarrow> nat \<Rightarrow> string" where
  "generateSessionID now nano = ''sess_'' @ res_generateID now nano"

definition generateEventID :: "nat \<Rightarrow> nat \<Rightarrow> string" where
  "generateEventID now nano = ''evt_'' @ res_generateID now nano"

section \<open>The session store\<close>

definition sessionKey :: "string \<Rightarrow> bytes" where
  "sessionKey i = ''/rs/session/'' @ i"

definition sessionClientIndexKey :: "string \<Rightarrow> bytes" where
  "sessionClientIndexKey clientID = ''/rs/session/idx/client/'' @ clientID"

definition sessionStateIndexKey :: "string \<Rightarrow> string \<Rightarrow> bytes" where
  "sessionStateIndexKey state i = ''/rs/session/idx/state/'' @ state @ ''/'' @ i"

definition ErrSessionNotFound :: serror where "ErrSessionNotFound = Errorf ''session not found''"
definition ErrSessionExpired :: serror where "ErrSessionExpired = Errorf ''session has expired''"

definition Session_Save :: "'db pebble \<Rightarrow> resJson \<Rightarrow> Session \<Rightarrow> ('db storage, unit) op" where
  "Session_Save P J x =
     andThen (fromOption (Errorf ''failed to marshal session'') (marshalSession J x)) (\<lambda>data.
     andThen (wrapping ''failed to store session'' (Put P (sessionKey (sesID x)) data)) (\<lambda>_.
     andThen (wrapping ''failed to store client index'' (Put P (sessionClientIndexKey (sesClientID x)) (sesID x))) (\<lambda>_.
     wrapping ''failed to store state index'' (Put P (sessionStateIndexKey (sesState x) (sesID x)) (sesID x)))))"

text \<open>
  An expired session is returned together with \<open>ErrSessionExpired\<close>: \<open>Session_load\<close> returns the session, and
  \<open>Session_Get\<close> is for callers that take every error for a failure.
\<close>

definition Session_load :: "'db pebble \<Rightarrow> resJson \<Rightarrow> string \<Rightarrow> ('db storage, Session) op" where
  "Session_load P J i =
     andThen (catch (Get P (sessionKey i))
       (\<lambda>e. if e = ErrNotFound then throw ErrSessionNotFound else throw (Wrap ''failed to get session'' e))) (\<lambda>data.
     fromOption (Errorf ''failed to unmarshal session'') (unmarshalSession J data))"

definition Session_Get :: "'db pebble \<Rightarrow> resJson \<Rightarrow> gotime \<Rightarrow> string \<Rightarrow> ('db storage, Session) op" where
  "Session_Get P J now i =
     andThen (Session_load P J i) (\<lambda>x. if Session_IsExpired now x then throw ErrSessionExpired else ret x)"

definition GetByClientID :: "'db pebble \<Rightarrow> resJson \<Rightarrow> gotime \<Rightarrow> string \<Rightarrow> ('db storage, Session) op" where
  "GetByClientID P J now clientID =
     andThen (catch (Get P (sessionClientIndexKey clientID))
       (\<lambda>e. if e = ErrNotFound then throw ErrSessionNotFound else throw (Wrap ''failed to lookup client session'' e)))
     (Session_Get P J now)"

definition Session_Delete :: "'db pebble \<Rightarrow> resJson \<Rightarrow> string \<Rightarrow> ('db storage, unit) op" where
  "Session_Delete P J i = (\<lambda>s. case Session_load P J i s of
     (Inl e, s) \<Rightarrow> if e = ErrSessionNotFound then (Inr (), s) else (Inl e, s)
   | (Inr x, s) \<Rightarrow>
       andThen (wrapping ''failed to delete session'' (Delete P (sessionKey i))) (\<lambda>_.
       andThen (attempt (Delete P (sessionClientIndexKey (sesClientID x)))) (\<lambda>_.
       attempt (Delete P (sessionStateIndexKey (sesState x) i)))) s)"

definition UpdateLastSeen :: "'db pebble \<Rightarrow> resJson \<Rightarrow> gotime \<Rightarrow> string \<Rightarrow> ('db storage, unit) op" where
  "UpdateLastSeen P J now i = andThen (Session_load P J i) (\<lambda>x. Session_Save P J (Touch now x))"

definition UpdateState :: "'db pebble \<Rightarrow> resJson \<Rightarrow> string \<Rightarrow> string \<Rightarrow> ('db storage, unit) op" where
  "UpdateState P J i state =
     andThen (Session_load P J i) (\<lambda>x.
     andThen (attempt (Delete P (sessionStateIndexKey (sesState x) i))) (\<lambda>_.
     Session_Save P J (x\<lparr>sesState := state\<rparr>)))"

text \<open>\<^verbatim>\<open>Iterate\<close> with a callback that reads the storage; \<open>dn\<close> is the context.\<close>

definition scanWith :: "'db pebble \<Rightarrow> (nat \<Rightarrow> bool) \<Rightarrow> string \<Rightarrow> bytes \<Rightarrow> ('db storage \<Rightarrow> bytes \<Rightarrow> bytes \<Rightarrow> 'a \<Rightarrow> bool \<times> 'a) \<Rightarrow> 'a \<Rightarrow>
    ('db storage, 'a) op" where
  "scanWith P dn msg pfx fn acc = (\<lambda>s.
     andThen (wrapping msg (Iterate P dn pfx (fn s) acc)) (\<lambda>(err, acc').
       case err of None \<Rightarrow> ret acc' | Some e \<Rightarrow> throw (Wrap msg e)) s)"

definition ListByState :: "'db pebble \<Rightarrow> resJson \<Rightarrow> (nat \<Rightarrow> bool) \<Rightarrow> gotime \<Rightarrow> string \<Rightarrow> ('db storage, Session list) op" where
  "ListByState P J dn now state =
     scanWith P dn ''failed to list sessions'' (''/rs/session/idx/state/'' @ state @ ''/'')
       (\<lambda>s key value sessions. (True, case fst (Session_Get P J now value s) of
            Inr x \<Rightarrow> sessions @ [x] | Inl e \<Rightarrow> sessions)) []"

definition ListDisconnected :: "'db pebble \<Rightarrow> resJson \<Rightarrow> (nat \<Rightarrow> bool) \<Rightarrow> gotime \<Rightarrow> ('db storage, Session list) op" where
  "ListDisconnected P J dn now = ListByState P J dn now SessionStateDisconnected"

text \<open>
  The scan looks at three characters behind the prefix without asking whether the key has so many: a session identifier of
  one or two characters is a panic.
\<close>

definition expiredScan :: "resJson \<Rightarrow> gotime \<Rightarrow> bytes \<Rightarrow> bytes \<Rightarrow> string list option \<Rightarrow> bool \<times> string list option" where
  "expiredScan J now key value acc =
     (case acc of
        None \<Rightarrow> (False, None)
      | Some toDelete \<Rightarrow>
          if length key > 12 \<and> length key < 15 then (False, None)
          else if length key > 12 \<and> take 3 (drop 12 key) = ''idx'' then (True, Some toDelete)
          else case unmarshalSession J value of
              None \<Rightarrow> (True, Some toDelete)
            | Some x \<Rightarrow> (True, Some (if Session_IsExpired now x then toDelete @ [sesID x] else toDelete)))"

fun deleteSessions :: "'db pebble \<Rightarrow> resJson \<Rightarrow> string list \<Rightarrow> nat \<Rightarrow> ('db storage, nat) op" where
  "deleteSessions P J [] n = ret n"
| "deleteSessions P J (i # is) n = (\<lambda>s. case Session_Delete P J i s of
     (Inl e, s) \<Rightarrow> deleteSessions P J is n s
   | (Inr _, s) \<Rightarrow> deleteSessions P J is (Suc n) s)"

definition ExpireOldSessions :: "'db pebble \<Rightarrow> resJson \<Rightarrow> (nat \<Rightarrow> bool) \<Rightarrow> gotime \<Rightarrow> ('db storage, nat) op" where
  "ExpireOldSessions P J dn now =
     andThen (scanWith P dn ''failed to scan sessions'' ''/rs/session/'' (\<lambda>_. expiredScan J now) (Some [])) (\<lambda>r.
     case r of
       None \<Rightarrow> throw (Panic ''slice bounds out of range'')
     | Some toDelete \<Rightarrow> deleteSessions P J toDelete 0)"

section \<open>The event cache\<close>

definition cacheEventKey :: "string \<Rightarrow> string \<Rightarrow> bytes" where
  "cacheEventKey i eventID = ''/rs/cache/'' @ i @ ''/'' @ eventID"

definition cacheSessionPrefix :: "string \<Rightarrow> bytes" where
  "cacheSessionPrefix i = ''/rs/cache/'' @ i @ ''/''"

definition cacheSessionIndexPrefix :: "string \<Rightarrow> bytes" where
  "cacheSessionIndexPrefix i = ''/rs/cache/idx/'' @ i @ ''/''"

text \<open>\<^verbatim>\<open>UnixNano\<close> of the zero time is not used: \<^verbatim>\<open>Store\<close> sets the time stamp first.\<close>

definition cacheIndexKey :: "string \<Rightarrow> u64 \<Rightarrow> string \<Rightarrow> bytes" where
  "cacheIndexKey i timestamp eventID = cacheSessionIndexPrefix i @ padDec 20 (unat timestamp) @ ''/'' @ eventID"

definition isCacheIndex :: "bytes \<Rightarrow> bool" where
  "isCacheIndex key \<longleftrightarrow> length key > 14 \<and> take 14 key = ''/rs/cache/idx/''"

text \<open>\<open>newID\<close> and \<open>now\<close> are the identifier and the time to use where the event has none.\<close>

definition Cache_Store :: "'db pebble \<Rightarrow> resJson \<Rightarrow> string \<Rightarrow> u64 \<Rightarrow> CachedEvent \<Rightarrow> ('db storage, CachedEvent) op" where
  "Cache_Store P J newID now e =
     (let e = (if ceID e = [] then e\<lparr>ceID := newID\<rparr> else e);
          t = (case ceTimestamp e of None \<Rightarrow> now | Some t \<Rightarrow> t);
          e = e\<lparr>ceTimestamp := Some t\<rparr>
      in andThen (fromOption (Errorf ''failed to marshal event'') (marshalEvent J e)) (\<lambda>data.
         andThen (wrapping ''failed to store event'' (Put P (cacheEventKey (ceSessionID e) (ceID e)) data)) (\<lambda>_.
         andThen (wrapping ''failed to store event index''
           (Put P (cacheIndexKey (ceSessionID e) t (ceID e)) (ceID e))) (\<lambda>_. ret e))))"

definition loadEvent :: "'db pebble \<Rightarrow> resJson \<Rightarrow> 'db storage \<Rightarrow> string \<Rightarrow> string \<Rightarrow> CachedEvent option" where
  "loadEvent P J s i eventID = (case fst (Get P (cacheEventKey i eventID) s) of
     Inl e \<Rightarrow> None | Inr data \<Rightarrow> unmarshalEvent J data)"

text \<open>\<^verbatim>\<open>sort.Slice\<close> by time stamp; the order of equal time stamps is not specified and not relied upon.\<close>

definition sortByTime :: "CachedEvent list \<Rightarrow> CachedEvent list" where
  "sortByTime = sort_key (\<lambda>e. case ceTimestamp e of None \<Rightarrow> 0 | Some t \<Rightarrow> Suc (unat t))"

definition keepAfter :: "u64 option \<Rightarrow> string \<Rightarrow> CachedEvent \<Rightarrow> bool" where
  "keepAfter afterTimestamp afterEventID e \<longleftrightarrow>
     (case afterTimestamp of
        None \<Rightarrow> True
      | Some t \<Rightarrow> (case ceTimestamp e of None \<Rightarrow> False | Some t' \<Rightarrow> t < t')) \<and>
     ceID e \<noteq> afterEventID"

definition GetAfter :: "'db pebble \<Rightarrow> resJson \<Rightarrow> (nat \<Rightarrow> bool) \<Rightarrow> string \<Rightarrow> string \<Rightarrow> int \<Rightarrow> ('db storage, CachedEvent list) op" where
  "GetAfter P J dn i afterEventID limit = (\<lambda>s.
     let limit = (if limit \<le> 0 then 100 else limit);
         afterTimestamp = (if afterEventID = [] then None
           else case loadEvent P J s i afterEventID of None \<Rightarrow> None | Some e \<Rightarrow> ceTimestamp e)
     in andThen (scanWith P dn ''failed to iterate events'' (cacheSessionIndexPrefix i)
          (\<lambda>s key value events.
             if int (length events) \<ge> limit then (False, events)
             else case loadEvent P J s i value of
                 None \<Rightarrow> (True, events)
               | Some e \<Rightarrow> (True, if keepAfter afterTimestamp afterEventID e then events @ [e] else events)) [])
        (\<lambda>events. ret (sortByTime events)) s)"

definition GetBySession :: "'db pebble \<Rightarrow> resJson \<Rightarrow> (nat \<Rightarrow> bool) \<Rightarrow> string \<Rightarrow> int \<Rightarrow> ('db storage, CachedEvent list) op" where
  "GetBySession P J dn i limit =
     (let limit = (if limit \<le> 0 then 100 else limit)
      in andThen (scanWith P dn ''failed to iterate events'' (cacheSessionPrefix i)
           (\<lambda>_ key value events.
              if int (length events) \<ge> limit then (False, events)
              else if isCacheIndex key then (True, events)
              else case unmarshalEvent J value of None \<Rightarrow> (True, events) | Some e \<Rightarrow> (True, events @ [e])) [])
         (\<lambda>events. ret (sortByTime events)))"

fun deleteEvents :: "'db pebble \<Rightarrow> (string \<times> string \<times> u64) list \<Rightarrow> nat \<Rightarrow> ('db storage, nat) op" where
  "deleteEvents P [] n = ret n"
| "deleteEvents P ((i, eventID, t) # items) n = (\<lambda>s.
     case Delete P (cacheEventKey i eventID) s of
       (r, s) \<Rightarrow> andThen (attempt (Delete P (cacheIndexKey i t eventID)))
         (\<lambda>_. deleteEvents P items (case r of Inl e \<Rightarrow> n | Inr _ \<Rightarrow> Suc n)) s)"

text \<open>An event with the zero time is older than any other; its index key does not exist.\<close>

definition Cache_Cleanup :: "'db pebble \<Rightarrow> resJson \<Rightarrow> (nat \<Rightarrow> bool) \<Rightarrow> int \<Rightarrow> int \<Rightarrow> ('db storage, nat) op" where
  "Cache_Cleanup P J dn now olderThan =
     andThen (scanWith P dn ''failed to scan events'' ''/rs/cache/''
       (\<lambda>_ key value toDelete. (True,
          if isCacheIndex key then toDelete
          else case unmarshalEvent J value of
              None \<Rightarrow> toDelete
            | Some e \<Rightarrow>
                (case ceTimestamp e of
                   None \<Rightarrow> toDelete @ [(ceSessionID e, ceID e, 0)]
                 | Some t \<Rightarrow> if int (unat t) < now - olderThan then toDelete @ [(ceSessionID e, ceID e, t)] else toDelete))) [])
     (\<lambda>toDelete. deleteEvents P toDelete 0)"

definition MarkDelivered :: "string \<Rightarrow> ('db storage, unit) op" where
  "MarkDelivered eventID = ret ()"

definition DeleteBySession :: "'db pebble \<Rightarrow> (nat \<Rightarrow> bool) \<Rightarrow> string \<Rightarrow> ('db storage, unit) op" where
  "DeleteBySession P dn i =
     andThen (scanWith P dn ''failed to scan session events'' (cacheSessionPrefix i) (\<lambda>_ key value ks. (True, ks @ [key])) []) (\<lambda>keys.
     andThen (scanWith P dn ''failed to scan session indexes'' (cacheSessionIndexPrefix i) (\<lambda>_ key value ks. (True, ks @ [key])) keys) (\<lambda>keys.
     forEach (\<lambda>key. attempt (Delete P key)) keys))"

section \<open>What the session store keeps\<close>

text \<open>
  The sessions and the clients a database holds. Identifiers without a slash are meant: \<^verbatim>\<open>generateID\<close> makes no
  others, and with a slash an identifier can be the key of an index.
\<close>

definition plainID :: "string \<Rightarrow> bool" where
  "plainID i \<longleftrightarrow> CHR ''/'' \<notin> set i"

definition sessionsIn :: "resJson \<Rightarrow> (bytes \<Rightarrow> bytes option) \<Rightarrow> string \<Rightarrow> Session option" where
  "sessionsIn J m i = (if plainID i then Option.bind (m (sessionKey i)) (unmarshalSession J) else None)"

definition clientsIn :: "(bytes \<Rightarrow> bytes option) \<Rightarrow> string \<Rightarrow> string option" where
  "clientsIn m c = m (sessionClientIndexKey c)"

lemma plainID_eq_append [simp]: "plainID (a @ b) \<longleftrightarrow> plainID a \<and> plainID b"
  by (simp add: plainID_def)

lemma session_keys [simp]:
  "sessionKey i = sessionKey j \<longleftrightarrow> i = j"
  "sessionClientIndexKey c = sessionClientIndexKey c' \<longleftrightarrow> c = c'"
  "sessionClientIndexKey c \<noteq> sessionStateIndexKey st i"
  "sessionStateIndexKey st i \<noteq> sessionClientIndexKey c"
  by (simp_all add: sessionKey_def sessionClientIndexKey_def sessionStateIndexKey_def)

lemma session_key_plain [simp]:
  "plainID i \<Longrightarrow> sessionKey i \<noteq> sessionClientIndexKey c"
  "plainID i \<Longrightarrow> sessionKey i \<noteq> sessionStateIndexKey st j"
  "plainID i \<Longrightarrow> sessionClientIndexKey c \<noteq> sessionKey i"
  "plainID i \<Longrightarrow> sessionStateIndexKey st j \<noteq> sessionKey i"
  by (auto simp: plainID_def sessionKey_def sessionClientIndexKey_def sessionStateIndexKey_def)

locale resilience = pebble_db P view + res_json J
  for P :: "'db pebble" and view :: "'db \<Rightarrow> bytes \<Rightarrow> bytes option" and J :: resJson
begin

lemma attempt_Delete:
  "\<not> closed s \<Longrightarrow> attempt (Delete P k) s = (r, s') \<Longrightarrow>
     r = Inr () \<and> \<not> closed s' \<and> (view (db s') = (view (db s))(k := None) \<or> view (db s') = view (db s))"
proof -
  assume o: "\<not> closed s" and a: "attempt (Delete P k) s = (r, s')"
  obtain q s2 where d: "Delete P k s = (q, s2)" by fastforce
  show ?thesis
  proof (cases q)
    case (Inl e)
    with a d o kv.del_Inl [of k s e s2] show ?thesis by (simp add: attempt_def)
  next
    case (Inr u)
    with a d kv.del_Inr [of k s u s2] show ?thesis by (simp add: attempt_def)
  qed
qed

lemma Session_load_eq: "\<not> closed s \<Longrightarrow> Session_load P J i s =
    (case view (db s) (sessionKey i) of
       None \<Rightarrow> Inl ErrSessionNotFound
     | Some d \<Rightarrow> (case unmarshalSession J d of None \<Rightarrow> Inl (Errorf ''failed to unmarshal session'') | Some x \<Rightarrow> Inr x), s)"
  by (simp add: Session_load_def andThen_def catch_def kv.kget_open fromOption_def split: option.splits)

lemma Session_load_sessionsIn:
  assumes "\<not> closed s" "sessionsIn J (view (db s)) i = Some x"
  shows "Session_load P J i s = (Inr x, s)"
  using assms by (auto simp: Session_load_eq sessionsIn_def split: if_splits Option.bind_splits)

lemma Session_Save_Inr:
  assumes "Session_Save P J x s = (Inr u, s')"
  shows "\<exists>d. marshalSession J x = Some d \<and> \<not> closed s' \<and> view (db s') = (view (db s))
    (sessionKey (sesID x) := Some d, sessionClientIndexKey (sesClientID x) := Some (sesID x),
     sessionStateIndexKey (sesState x) (sesID x) := Some (sesID x))"
proof -
  from assms obtain d s1 s2 where d: "marshalSession J x = Some d"
    and p: "Put P (sessionKey (sesID x)) d s = (Inr (), s1)"
      "Put P (sessionClientIndexKey (sesClientID x)) (sesID x) s1 = (Inr (), s2)"
      "Put P (sessionStateIndexKey (sesState x) (sesID x)) (sesID x) s2 = (Inr (), s')"
    by (auto simp: Session_Save_def andThen_eq_Inr)
  from kv.put_Inr [OF p(1)] kv.put_Inr [OF p(2)] kv.put_Inr [OF p(3)] d show ?thesis by simp
qed

lemma Session_Save_refines:
  assumes "Session_Save P J x s = (Inr u, s')" "asciiSession x" "plainID (sesID x)"
  shows "\<not> closed s' \<and> sessionsIn J (view (db s')) = (sessionsIn J (view (db s)))(sesID x \<mapsto> x) \<and>
    clientsIn (view (db s')) = (clientsIn (view (db s)))(sesClientID x \<mapsto> sesID x)"
proof -
  from Session_Save_Inr [OF assms(1)] obtain d where d: "marshalSession J x = Some d" "\<not> closed s'"
    "view (db s') = (view (db s))(sessionKey (sesID x) := Some d,
       sessionClientIndexKey (sesClientID x) := Some (sesID x),
       sessionStateIndexKey (sesState x) (sesID x) := Some (sesID x))" by blast
  with session_roundtrip [OF assms(2) d(1)] assms(3) show ?thesis
    by (auto simp: fun_eq_iff sessionsIn_def clientsIn_def)
qed

lemma GetByClientID_eq:
  assumes "\<not> closed s" "clientsIn (view (db s)) c = Some i" "sessionsIn J (view (db s)) i = Some x"
  shows "GetByClientID P J now c s = ((if Session_IsExpired now x then Inl ErrSessionExpired else Inr x), s)"
proof -
  have "catch (Get P (sessionClientIndexKey c)) h s = (Inr i, s)" for h
    using assms(1,2) by (intro catch_Inr) (simp add: kv.kget_open clientsIn_def)
  with Session_load_sessionsIn [OF assms(1,3)] show ?thesis
    by (simp add: GetByClientID_def Session_Get_def andThen_Inr)
qed

lemma UpdateState_refines:
  assumes o: "\<not> closed s" and x: "sessionsIn J (view (db s)) i = Some x" "asciiSession x" "sesID x = i" "ascii state"
    and u: "UpdateState P J i state s = (Inr v, s')"
  shows "\<not> closed s' \<and> sessionsIn J (view (db s')) = (sessionsIn J (view (db s)))(i \<mapsto> x\<lparr>sesState := state\<rparr>) \<and>
    clientsIn (view (db s')) = (clientsIn (view (db s)))(sesClientID x \<mapsto> i)"
proof -
  let ?k = "sessionStateIndexKey (sesState x) i"
  obtain r s1 where a: "attempt (Delete P ?k) s = (r, s1)" by fastforce
  note a' = attempt_Delete [OF o a]
  have i: "plainID i" using x(1) by (simp add: sessionsIn_def split: if_splits)
  have same: "sessionsIn J (view (db s1)) = sessionsIn J (view (db s))" "clientsIn (view (db s1)) = clientsIn (view (db s))"
    using a' by (auto simp: fun_eq_iff sessionsIn_def clientsIn_def)
  have "Session_Save P J (x\<lparr>sesState := state\<rparr>) s1 = (Inr v, s')"
    using u a a' Session_load_sessionsIn [OF o x(1)] by (simp add: UpdateState_def andThen_Inr)
  from Session_Save_refines [OF this] x i same show ?thesis by (simp add: asciiSession_def)
qed

end

section \<open>What the event cache keeps\<close>

definition eventTime :: "CachedEvent \<Rightarrow> u64" where
  "eventTime e = (case ceTimestamp e of None \<Rightarrow> 0 | Some t \<Rightarrow> t)"

definition indexEntry :: "string \<Rightarrow> CachedEvent \<Rightarrow> bytes \<times> bytes" where
  "indexEntry i e = (cacheIndexKey i (eventTime e) (ceID e), ceID e)"

text \<open>
  \<open>cacheHolds J m i es\<close>: the database \<open>m\<close> caches exactly the events \<open>es\<close> for session \<open>i\<close>, listed by time: every event has
  its record, and the index of the session has one entry for each of them and no other.
\<close>

definition cacheHolds :: "resJson \<Rightarrow> (bytes \<Rightarrow> bytes option) \<Rightarrow> string \<Rightarrow> CachedEvent list \<Rightarrow> bool" where
  "cacheHolds J m i es \<longleftrightarrow>
     sorted_wrt (<) (map eventTime es) \<and>
     (\<forall>k v. HasPrefix k (cacheSessionIndexPrefix i) \<longrightarrow> (m k = Some v \<longleftrightarrow> (k, v) \<in> indexEntry i ` set es)) \<and>
     (\<forall>e\<in>set es. ceTimestamp e \<noteq> None \<and> Option.bind (m (cacheEventKey i (ceID e))) (unmarshalEvent J) = Some e)"

definition goodID :: "string \<Rightarrow> bool" where
  "goodID i \<longleftrightarrow> plainID i \<and> i \<noteq> ''idx''"

lemma cacheEventKey_inject:
  "plainID i \<Longrightarrow> plainID j \<Longrightarrow> cacheEventKey i v = cacheEventKey j w \<longleftrightarrow> i = j \<and> v = w"
  by (simp add: cacheEventKey_def plainID_def sep_append_inject)

lemma cacheEventKey_not_index:
  assumes "goodID i"
  shows "\<not> HasPrefix (cacheEventKey i v) (cacheSessionIndexPrefix j)"
proof
  assume "HasPrefix (cacheEventKey i v) (cacheSessionIndexPrefix j)"
  then obtain z where "i @ CHR ''/'' # v = ''idx'' @ CHR ''/'' # (j @ ''/'' @ z)"
    by (auto simp: HasPrefix_def prefix_def cacheEventKey_def cacheSessionIndexPrefix_def)
  with assms show False unfolding goodID_def plainID_def by (subst (asm) sep_append_inject) auto
qed

lemma cacheIndexKey_prefix:
  "plainID i \<Longrightarrow> plainID j \<Longrightarrow> HasPrefix (cacheIndexKey i t v) (cacheSessionIndexPrefix j) \<longleftrightarrow> i = j"
  by (auto simp: HasPrefix_def prefix_def cacheIndexKey_def cacheSessionIndexPrefix_def plainID_def sep_append_inject)

lemma cacheIndexKey_inject: "cacheIndexKey i t v = cacheIndexKey i t' v' \<longleftrightarrow> t = t' \<and> v = v'"
  by (simp add: cacheIndexKey_def)

lemma cacheIndexKey_less: "t < t' \<Longrightarrow> cacheIndexKey i t v < cacheIndexKey i t' v'"
  by (simp add: cacheIndexKey_def less_list_append_eqlen)

lemma cacheHolds_cong:
  assumes "cacheHolds J m i es" "\<And>k. HasPrefix k (cacheSessionIndexPrefix i) \<Longrightarrow> m' k = m k"
    "\<And>e. e \<in> set es \<Longrightarrow> m' (cacheEventKey i (ceID e)) = m (cacheEventKey i (ceID e))"
  shows "cacheHolds J m' i es"
  using assms by (simp add: cacheHolds_def)

text \<open>What a call of \<^verbatim>\<open>Store\<close> may leave behind: nothing, the record without its index entry, or both.\<close>

definition cacheStored :: "CachedEvent \<Rightarrow> bytes \<Rightarrow> (bytes \<Rightarrow> bytes option) \<Rightarrow> (bytes \<Rightarrow> bytes option)" where
  "cacheStored e d m = m(cacheEventKey (ceSessionID e) (ceID e) := Some d,
     cacheIndexKey (ceSessionID e) (eventTime e) (ceID e) := Some (ceID e))"

definition halfStored :: "CachedEvent \<Rightarrow> bytes \<Rightarrow> (bytes \<Rightarrow> bytes option) \<Rightarrow> (bytes \<Rightarrow> bytes option)" where
  "halfStored e d m = m(cacheEventKey (ceSessionID e) (ceID e) := Some d)"

lemma cacheHolds_stored:
  assumes h: "cacheHolds J m i es" and e: "ceSessionID e = i" "ceTimestamp e \<noteq> None" "unmarshalEvent J d = Some e"
    and i: "goodID i" and fresh: "\<forall>x\<in>set es. ceID x \<noteq> ceID e" and later: "\<forall>x\<in>set es. eventTime x < eventTime e"
  shows "cacheHolds J (cacheStored e d m) i (es @ [e])"
proof -
  have p: "plainID i" using i by (simp add: goodID_def)
  have ne: "cacheEventKey i v \<noteq> cacheIndexKey i t w" for v t w
    using cacheEventKey_not_index [OF i, of v i] cacheIndexKey_prefix [OF p p] by metis
  have "HasPrefix k (cacheSessionIndexPrefix i) \<Longrightarrow> cacheStored e d m k = Some v \<longleftrightarrow> (k, v) \<in> indexEntry i ` set (es @ [e])" for k v
  proof -
    assume k: "HasPrefix k (cacheSessionIndexPrefix i)"
    then have "k \<noteq> cacheEventKey i w" for w using cacheEventKey_not_index [OF i] by metis
    moreover have "(k, v) \<in> indexEntry i ` set es \<Longrightarrow> k \<noteq> cacheIndexKey i (eventTime e) (ceID e)"
      using fresh by (auto simp: indexEntry_def cacheIndexKey_inject)
    ultimately show ?thesis using h k e(1) by (auto simp: cacheStored_def cacheHolds_def indexEntry_def)
  qed
  moreover have "\<forall>x\<in>set (es @ [e]). ceTimestamp x \<noteq> None \<and>
      Option.bind (cacheStored e d m (cacheEventKey i (ceID x))) (unmarshalEvent J) = Some x"
    using h e fresh p ne by (auto simp: cacheHolds_def cacheStored_def cacheEventKey_inject)
  moreover have "sorted_wrt (<) (map eventTime (es @ [e]))"
    using h later by (simp add: cacheHolds_def sorted_wrt_append)
  ultimately show ?thesis unfolding cacheHolds_def by blast
qed

text \<open>An event stored again, with the same identifier and time, replaces itself, index entry or not.\<close>

lemma cacheHolds_again:
  assumes h: "cacheHolds J m i (es @ [e])" and i: "goodID i" and e: "ceSessionID e' = i" "ceID e' = ceID e" "ceTimestamp e' = ceTimestamp e"
    "unmarshalEvent J d = Some e'" and fresh: "\<forall>x\<in>set es. ceID x \<noteq> ceID e"
  shows "cacheHolds J (cacheStored e' d m) i (es @ [e'])" "cacheHolds J (halfStored e' d m) i (es @ [e'])"
proof -
  have p: "plainID i" using i by (simp add: goodID_def)
  have t: "eventTime e' = eventTime e" using e(3) by (simp add: eventTime_def)
  have ix: "indexEntry i ` set (es @ [e']) = indexEntry i ` set (es @ [e])" using e(2) t by (simp add: indexEntry_def)
  have "HasPrefix (cacheIndexKey i (eventTime e) (ceID e)) (cacheSessionIndexPrefix i)" using cacheIndexKey_prefix [OF p p] by simp
  moreover have "(cacheIndexKey i (eventTime e) (ceID e), ceID e) \<in> indexEntry i ` set (es @ [e])" by (simp add: indexEntry_def)
  ultimately have "m (cacheIndexKey i (eventTime e) (ceID e)) = Some (ceID e)" using h unfolding cacheHolds_def by blast
  moreover have "cacheEventKey i v \<noteq> cacheIndexKey i u w" for v u w
    using cacheEventKey_not_index [OF i, of v i] cacheIndexKey_prefix [OF p p] by metis
  ultimately have same: "cacheStored e' d m = halfStored e' d m" using e t by (simp add: cacheStored_def halfStored_def fun_eq_iff)
  have "HasPrefix k (cacheSessionIndexPrefix i) \<Longrightarrow> halfStored e' d m k = m k" for k
    using cacheEventKey_not_index [OF i] e(1) by (auto simp: halfStored_def)
  moreover have "\<forall>x\<in>set (es @ [e']). ceTimestamp x \<noteq> None \<and>
      Option.bind (halfStored e' d m (cacheEventKey i (ceID x))) (unmarshalEvent J) = Some x"
    using h e fresh p by (auto simp: cacheHolds_def halfStored_def cacheEventKey_inject)
  moreover have "sorted_wrt (<) (map eventTime (es @ [e']))" using h t by (simp add: cacheHolds_def)
  ultimately show "cacheHolds J (halfStored e' d m) i (es @ [e'])" using h ix unfolding cacheHolds_def by metis
  then show "cacheHolds J (cacheStored e' d m) i (es @ [e'])" by (simp add: same)
qed

lemma cacheHolds_halfStored:
  assumes "cacheHolds J m i es" "ceSessionID e = i" "goodID i" "\<forall>x\<in>set es. ceID x \<noteq> ceID e"
  shows "cacheHolds J (halfStored e d m) i es"
  using assms(1)
proof (rule cacheHolds_cong)
  show "HasPrefix k (cacheSessionIndexPrefix i) \<Longrightarrow> halfStored e d m k = m k" for k
    using cacheEventKey_not_index [OF assms(3)] assms(2) by (auto simp: halfStored_def)
  show "x \<in> set es \<Longrightarrow> halfStored e d m (cacheEventKey i (ceID x)) = m (cacheEventKey i (ceID x))" for x
    using assms(2,3,4) by (auto simp: halfStored_def cacheEventKey_inject goodID_def)
qed

lemma cacheHolds_other_session:
  assumes "cacheHolds J m j es" "goodID i" "goodID j" "i \<noteq> j" "ceSessionID e = i"
  shows "cacheHolds J (cacheStored e d m) j es" "cacheHolds J (halfStored e d m) j es"
proof -
  have p: "plainID i" "plainID j" using assms(2,3) by (simp_all add: goodID_def)
  have ne: "cacheEventKey j v \<noteq> cacheIndexKey i t w" for v t w
    using cacheEventKey_not_index [OF assms(3), of v i] cacheIndexKey_prefix [OF p(1) p(1)] by metis
  have k: "HasPrefix k (cacheSessionIndexPrefix j) \<Longrightarrow> k \<noteq> cacheEventKey i v \<and> k \<noteq> cacheIndexKey i t v" for k t v
    using cacheEventKey_not_index [OF assms(2)] cacheIndexKey_prefix [OF p] assms(4) by metis
  show "cacheHolds J (cacheStored e d m) j es"
    using assms(1) by (rule cacheHolds_cong) (use k ne p assms(4,5) in \<open>auto simp: cacheStored_def cacheEventKey_inject\<close>)
  show "cacheHolds J (halfStored e d m) j es"
    using assms(1) by (rule cacheHolds_cong) (use k p assms(4,5) in \<open>auto simp: halfStored_def cacheEventKey_inject\<close>)
qed

text \<open>The scan of an index that \<open>cacheHolds\<close> describes meets the events in the order of their times.\<close>

lemma Iterate_loop_take:
  assumes "\<And>e. e \<in> set es \<Longrightarrow> load (g e) = Some e" "length acc \<le> n"
  shows "Iterate_loop (\<lambda>_. False) (\<lambda>key value events. if n \<le> length events then (False, events)
      else case load value of None \<Rightarrow> (True, events) | Some e \<Rightarrow> (True, if Q e then events @ [e] else events))
      c (map (\<lambda>e. (f e, g e)) es) acc = (None, acc @ take (n - length acc) (filter Q es))"
  using assms
proof (induction es arbitrary: c acc)
  case (Cons e es)
  show ?case
  proof (cases "n \<le> length acc")
    case False
    then obtain k where k: "n - length acc = Suc k" by (cases "n - length acc") auto
    then have k': "n - Suc (length acc) = k" by simp
    from Cons.IH [of "if Q e then acc @ [e] else acc" "Suc c"] Cons.prems False k k' show ?thesis by (simp add: not_le)
  qed (use Cons.prems in simp)
qed simp

lemma sortByTime_sorted: "sorted_wrt (<) (map eventTime es) \<Longrightarrow> \<forall>e\<in>set es. ceTimestamp e \<noteq> None \<Longrightarrow> sortByTime es = es"
  unfolding sortByTime_def
proof (rule sort_key_id_if_sorted)
  assume a: "sorted_wrt (<) (map eventTime es)" "\<forall>e\<in>set es. ceTimestamp e \<noteq> None"
  let ?k = "\<lambda>e. case ceTimestamp e of None \<Rightarrow> 0 | Some t \<Rightarrow> Suc (unat t)"
  have "sorted_wrt (\<lambda>x y. ?k x \<le> ?k y) es"
    using a(1)[unfolded sorted_wrt_map] by (rule sorted_wrt_mono_rel [rotated])
      (use a(2) in \<open>auto simp: eventTime_def word_less_nat_alt split: option.splits\<close>)
  then show "sorted (map ?k es)" by (simp add: sorted_wrt_map)
qed

context resilience
begin

lemma Cache_Store_cases:
  assumes "\<not> closed s" "ceID e \<noteq> []" "ceTimestamp e \<noteq> None" "Cache_Store P J newID now e s = (r, s')"
  obtains "view (db s') = view (db s)" "\<not> closed s'" "\<nexists>x. r = Inr x"
  | d where "marshalEvent J e = Some d" "view (db s') = halfStored e d (view (db s))" "\<not> closed s'" "\<nexists>x. r = Inr x"
  | d where "marshalEvent J e = Some d" "view (db s') = cacheStored e d (view (db s))" "\<not> closed s'" "r = Inr e"
proof -
  obtain t where t: "ceTimestamp e = Some t" using assms(3) by blast
  then have e: "e\<lparr>ceTimestamp := Some t\<rparr> = e" by (cases e) simp
  have tm: "eventTime e = t" using t by (simp add: eventTime_def)
  let ?ek = "cacheEventKey (ceSessionID e) (ceID e)" and ?ik = "cacheIndexKey (ceSessionID e) t (ceID e)"
  have C: "Cache_Store P J newID now e = andThen (fromOption (Errorf ''failed to marshal event'') (marshalEvent J e)) (\<lambda>data.
      andThen (wrapping ''failed to store event'' (Put P ?ek data)) (\<lambda>_.
      andThen (wrapping ''failed to store event index'' (Put P ?ik (ceID e))) (\<lambda>_. ret e)))"
    using assms(2) t by (simp add: Cache_Store_def Let_def e)
  show thesis
  proof (cases "marshalEvent J e")
    case None
    with assms(1,4) C that(1) show thesis by auto
  next
    case (Some d)
    obtain q s1 where p: "Put P ?ek d s = (q, s1)" by fastforce
    show thesis
    proof (cases q)
      case (Inl x)
      with p Some C assms(1,4) kv.put_Inl [of ?ek d s x s1] that(1) show thesis by (auto simp: andThen_def fromOption_def)
    next
      case (Inr u)
      note p1 = kv.put_Inr [OF p [unfolded Inr]]
      obtain q2 s2 where p2: "Put P ?ik (ceID e) s1 = (q2, s2)" by fastforce
      show thesis
      proof (cases q2)
        case (Inl x)
        with p p2 \<open>q = Inr u\<close> Some C assms(4) have "s' = s2" "\<nexists>x. r = Inr x" by (auto simp: andThen_def fromOption_def wrapping_def)
        with p1 kv.put_Inl [OF p2 [unfolded Inl]] that(2) [OF Some] show thesis by (simp add: halfStored_def)
      next
        case (Inr v)
        with p p2 \<open>q = Inr u\<close> Some C assms(4) have "s' = s2" "r = Inr e" by (auto simp: andThen_def fromOption_def wrapping_def)
        with p1 kv.put_Inr [OF p2 [unfolded Inr]] that(3) [OF Some] tm show thesis by (simp add: cacheStored_def)
      qed
    qed
  qed
qed

lemma loadEvent_eq: "\<not> closed s \<Longrightarrow> loadEvent P J s i v = Option.bind (view (db s) (cacheEventKey i v)) (unmarshalEvent J)"
  by (simp add: loadEvent_def kv.kget_open split: option.splits)

lemma GetAfter_eq:
  assumes h: "cacheHolds J (view (db s)) i es" and o: "\<not> closed s"
  shows "GetAfter P J (\<lambda>_. False) i lastID limit s =
    (Inr (take (nat (if limit \<le> 0 then 100 else limit)) (filter (keepAfter
       (if lastID = [] then None else (case loadEvent P J s i lastID of None \<Rightarrow> None | Some e \<Rightarrow> ceTimestamp e)) lastID) es)), s)"
proof -
  define n where "n = nat (if limit \<le> 0 then 100 else limit)"
  define Q where "Q = keepAfter (if lastID = [] then None else (case loadEvent P J s i lastID of None \<Rightarrow> None | Some e \<Rightarrow> ceTimestamp e)) lastID"
  define fn where "fn = (\<lambda>key :: bytes. \<lambda>value events. if n \<le> length events then (False, events)
     else case loadEvent P J s i value of None \<Rightarrow> (True, events) | Some e \<Rightarrow> (True, if Q e then events @ [e] else events))"
  from kv.iterate_open [OF o, of "cacheSessionIndexPrefix i" "\<lambda>_. False" fn "[]"]
  obtain kvs where kvs: "sorted_wrt (<) (map fst kvs)"
    "\<forall>k v. (k, v) \<in> set kvs \<longleftrightarrow> HasPrefix k (cacheSessionIndexPrefix i) \<and> view (db s) k = Some v"
    "Iterate P (\<lambda>_. False) (cacheSessionIndexPrefix i) fn [] s = (Inr (Iterate_loop (\<lambda>_. False) fn 0 kvs []), s)"
    by blast
  have code: "GetAfter P J (\<lambda>_. False) i lastID limit s = andThen (\<lambda>s'. andThen (wrapping ''failed to iterate events''
      (Iterate P (\<lambda>_. False) (cacheSessionIndexPrefix i) fn [])) (\<lambda>(err, acc'). case err of None \<Rightarrow> ret acc'
        | Some e \<Rightarrow> throw (Wrap ''failed to iterate events'' e)) s) (\<lambda>events. ret (sortByTime events)) s"
    unfolding GetAfter_def scanWith_def Let_def andThen_def fn_def n_def Q_def
    by (simp only: nat_le_iff)
  have "kvs = map (indexEntry i) es"
  proof (rule sorted_kv_unique)
    have "sorted_wrt (\<lambda>x y. fst (indexEntry i x) < fst (indexEntry i y)) es"
      using h unfolding cacheHolds_def sorted_wrt_map
      by (auto elim!: sorted_wrt_mono_rel [rotated] simp: indexEntry_def cacheIndexKey_less)
    then show "sorted_wrt (<) (map fst (map (indexEntry i) es))" by (simp add: sorted_wrt_map)
    have "HasPrefix (fst (indexEntry i e)) (cacheSessionIndexPrefix i)" for e
      by (simp add: indexEntry_def cacheIndexKey_def HasPrefix_def prefix_def)
    then have "(k, v) \<in> set kvs \<longleftrightarrow> (k, v) \<in> indexEntry i ` set es" for k v
      using kvs(2) h unfolding cacheHolds_def by (metis fst_conv imageE)
    then show "set kvs = set (map (indexEntry i) es)" by auto
  qed (rule kvs(1))
  then have "Iterate_loop (\<lambda>_. False) fn 0 kvs [] = (None, take n (filter Q es))"
    using Iterate_loop_take [of es "loadEvent P J s i" ceID "[]" n Q 0 "\<lambda>e. cacheIndexKey i (eventTime e) (ceID e)"] h o
    by (simp add: indexEntry_def [abs_def] cacheHolds_def loadEvent_eq fn_def)
  moreover have "sortByTime (take n (filter Q es)) = take n (filter Q es)"
    using h by (intro sortByTime_sorted)
      (auto simp: cacheHolds_def sorted_wrt_map sorted_wrt_filter sorted_wrt_take dest: in_set_takeD)
  ultimately show ?thesis using kvs(3) unfolding code
    by (simp add: andThen_def wrapping_def catch_def n_def Q_def)
qed

end

text \<open>A reference codec: it writes the values of two given lists, by their positions.\<close>

fun position :: "'a list \<Rightarrow> 'a \<Rightarrow> nat option" where
  "position [] x = None"
| "position (y # ys) x = (if x = y then Some 0 else map_option Suc (position ys x))"

lemma position_nth: "position xs x = Some n \<Longrightarrow> n < length xs \<and> xs ! n = x"
  by (induction xs arbitrary: n) (auto split: if_splits)

definition refRes :: "Session list \<Rightarrow> CachedEvent list \<Rightarrow> resJson" where
  "refRes xs es =
     \<lparr>marshalSession = (\<lambda>x. map_option (\<lambda>n. replicate n CHR ''x'') (position xs x)),
      unmarshalSession = (\<lambda>d. if length d < length xs then Some (xs ! length d) else None),
      marshalEvent = (\<lambda>e. map_option (\<lambda>n. replicate n CHR ''e'') (position es e)),
      unmarshalEvent = (\<lambda>d. if length d < length es then Some (es ! length d) else None),
      marshalMessage = (\<lambda>w. case w of EventMessage t p i r \<Rightarrow> Some i | ReplayStart n \<Rightarrow> Some ''start'' | ReplayEnd \<Rightarrow> Some ''end'')\<rparr>"

interpretation refRes: resilience memPebble map_of "refRes xs es"
  by unfold_locales (auto simp: refRes_def dest: position_nth)

section \<open>Indexes that outlive what they name\<close>

text \<open>
  \<^verbatim>\<open>Save\<close> writes the entry of the new state and does not remove that of the old one, which \<^verbatim>\<open>UpdateState\<close> alone does: a session
  saved with another state stays listed under its old one.
\<close>

lemma Session_Save_keeps_old_state:
  assumes "resilience P view J" "Session_Save P J x s = (Inr u, s')" "plainID (sesID x)" "plainID st" "plainID (sesState x)"
    "sesState x \<noteq> st" "view (db s) (sessionStateIndexKey st (sesID x)) = Some (sesID x)"
  shows "view (db s') (sessionStateIndexKey st (sesID x)) = Some (sesID x)"
proof -
  have "sessionStateIndexKey st (sesID x) \<noteq> sessionStateIndexKey (sesState x) (sesID x)"
    using assms(4-6) unfolding sessionStateIndexKey_def plainID_def by (simp add: sep_append_inject)
  with resilience.Session_Save_Inr [OF assms(1,2)] assms(3,7) show ?thesis by auto
qed

text \<open>
  Deleting a session removes the entry of its client also when that names a later session of the client.
\<close>

lemma Session_Delete_drops_client:
  assumes "resilience P view J" "\<not> closed s" "sessionsIn J (view (db s)) i = Some x" "Session_Delete P J i s = (Inr u, s')"
    "\<And>k s1. \<not> closed s1 \<Longrightarrow> \<exists>s2. Delete P k s1 = (Inr (), s2)"
  shows "clientsIn (view (db s')) (sesClientID x) = None"
proof -
  have del: "Delete P k s1 = (Inr (), s2) \<Longrightarrow> \<not> closed s2 \<and> view (db s2) = (view (db s1))(k := None)" for k s1 s2
    using kv_store.del_Inr [OF kv_store_of_pebble [OF resilience.axioms(1) [OF assms(1)]]] by blast
  obtain s1 where 1: "Delete P (sessionKey i) s = (Inr (), s1)" using assms(2,5) by blast
  obtain s2 where 2: "Delete P (sessionClientIndexKey (sesClientID x)) s1 = (Inr (), s2)" using del [OF 1] assms(5) by blast
  obtain s3 where 3: "Delete P (sessionStateIndexKey (sesState x) i) s2 = (Inr (), s3)" using del [OF 2] assms(5) by blast
  have "s' = s3"
    using assms(4) 1 2 3 resilience.Session_load_sessionsIn [OF assms(1-3)]
    by (simp add: Session_Delete_def andThen_def wrapping_def catch_def attempt_def)
  with del [OF 2] del [OF 3] show ?thesis by (simp add: clientsIn_def)
qed

end
