(* ===== verification/Connection.thy ===== *)
theory Connection
  imports Resilience
begin

text \<open>
  The connection manager (\<^verbatim>\<open>pkg/resilience/connection.go\<close>) over the session store and the event cache: connecting,
  disconnecting, resuming with the missed events, delivering and replaying. The methods run one after the other; a client takes
  messages from its channel while the manager sends.
\<close>

section \<open>State\<close>

text \<open>A channel: its capacity, what is in it and what the client has taken from it.\<close>

record sendChan =
  chCap :: nat
  chQueue :: "bytes list"
  chTaken :: "bytes list"

definition takeFrom :: "nat \<Rightarrow> sendChan \<Rightarrow> sendChan" where
  "takeFrom n c = c\<lparr>chQueue := drop n (chQueue c), chTaken := chTaken c @ take n (chQueue c)\<rparr>"

definition hasRoom :: "sendChan \<Rightarrow> bool" where
  "hasRoom c \<longleftrightarrow> length (chQueue c) < chCap c"

text \<open>\<^verbatim>\<open>select\<close> with a send and a \<^verbatim>\<open>default\<close>.\<close>

definition sendNow :: "bytes \<Rightarrow> sendChan \<Rightarrow> sendChan" where
  "sendNow x c = (if hasRoom c then c\<lparr>chQueue := chQueue c @ [x]\<rparr> else c)"

record activeSession =
  asSession :: Session
  asConnected :: bool
  asSendChan :: nat

record 'db connManager =
  cmStorage :: "'db storage"
  cmConfig :: resConfig
  cmActive :: "string \<Rightarrow> activeSession option"
  cmChans :: "nat \<Rightarrow> sendChan"

definition NewConnectionManager :: "'db storage \<Rightarrow> resConfig option \<Rightarrow> (nat \<Rightarrow> sendChan) \<Rightarrow> 'db connManager" where
  "NewConnectionManager s cfg chans =
     \<lparr>cmStorage = s, cmConfig = (case cfg of None \<Rightarrow> resDefaultConfig | Some c \<Rightarrow> c), cmActive = (\<lambda>_. None), cmChans = chans\<rparr>"

definition onConnStore :: "('db storage, 'a) op \<Rightarrow> ('db connManager, 'a) op" where
  "onConnStore f = (\<lambda>m. case f (cmStorage m) of (r, s) \<Rightarrow> (r, m\<lparr>cmStorage := s\<rparr>))"

definition activate :: "Session \<Rightarrow> nat \<Rightarrow> 'db connManager \<Rightarrow> 'db connManager" where
  "activate x ch m = m\<lparr>cmActive := (cmActive m)(sesID x := Some \<lparr>asSession = x, asConnected = True, asSendChan = ch\<rparr>)\<rparr>"

section \<open>Connecting and disconnecting\<close>

definition newSession :: "'db pebble \<Rightarrow> resJson \<Rightarrow> gotime \<Rightarrow> string \<Rightarrow> string \<Rightarrow> nat \<Rightarrow> ('db connManager, Session) op" where
  "newSession P J now newID clientID ch = (\<lambda>m.
     let x = NewSession now newID clientID (rcSessionTTL (cmConfig m))
     in andThen (onConnStore (Session_Save P J x)) (\<lambda>_ m. (Inr x, activate x ch m)) m)"

definition HandleConnect :: "'db pebble \<Rightarrow> resJson \<Rightarrow> gotime \<Rightarrow> string \<Rightarrow> string \<Rightarrow> nat \<Rightarrow> ('db connManager, Session) op" where
  "HandleConnect P J now newID clientID ch = (\<lambda>m.
     case onConnStore (GetByClientID P J now clientID) m of
       (Inl e, m) \<Rightarrow> newSession P J now newID clientID ch m
     | (Inr x, m) \<Rightarrow>
         if sesState x = SessionStateDisconnected
         then let x = Touch now (x\<lparr>sesState := SessionStateActive\<rparr>)
              in andThen (onConnStore (attempt (Session_Save P J x))) (\<lambda>_ m. (Inr x, activate x ch m)) m
         else newSession P J now newID clientID ch m)"

definition HandleDisconnect :: "'db pebble \<Rightarrow> resJson \<Rightarrow> string \<Rightarrow> ('db connManager, unit) op" where
  "HandleDisconnect P J i = (\<lambda>m.
     onConnStore (attempt (UpdateState P J i SessionStateDisconnected)) (m\<lparr>cmActive := (cmActive m)(i := None)\<rparr>))"

text \<open>A failed read of the missed events resumes the session without them.\<close>

definition HandleReconnect :: "'db pebble \<Rightarrow> resJson \<Rightarrow> (nat \<Rightarrow> bool) \<Rightarrow> gotime \<Rightarrow> string \<Rightarrow> string \<Rightarrow> nat \<Rightarrow>
    ('db connManager, Session \<times> CachedEvent list) op" where
  "HandleReconnect P J dn now i lastEventID ch =
     andThen (onConnStore (Session_Get P J now i)) (\<lambda>x.
     let x = Touch now (x\<lparr>sesState := SessionStateActive\<rparr>)
     in andThen (onConnStore (Session_Save P J x)) (\<lambda>_ m.
        let m = activate x ch m
        in case onConnStore (GetAfter P J dn (sesID x) lastEventID (rcMaxEvents (cmConfig m))) m of
             (Inl e, m) \<Rightarrow> (Inr (x, []), m)
           | (Inr missed, m) \<Rightarrow> (Inr (x, missed), m)))"

section \<open>Delivering and replaying\<close>

text \<open>\<open>now\<close> and \<open>newID\<close>: the time and the identifier of the event.\<close>

definition newEvent :: "u64 \<Rightarrow> string \<Rightarrow> string \<Rightarrow> string \<Rightarrow> bytes \<Rightarrow> CachedEvent" where
  "newEvent now newID i eventType payload =
     \<lparr>ceID = newID, ceSessionID = i, ceEventType = eventType, cePayload = payload, ceTimestamp = Some now,
      ceDelivered = False, ceTopic = []\<rparr>"

definition eventMessage :: "resJson \<Rightarrow> CachedEvent \<Rightarrow> bool \<Rightarrow> bytes option" where
  "eventMessage J e replay = marshalMessage J (EventMessage (ceEventType e) (cePayload e) (ceID e) replay)"

definition DeliverEvent :: "'db pebble \<Rightarrow> resJson \<Rightarrow> u64 \<Rightarrow> string \<Rightarrow> string \<Rightarrow> string \<Rightarrow> bytes \<Rightarrow> ('db connManager, unit) op" where
  "DeliverEvent P J now newID i eventType payload = (\<lambda>m.
     let e = newEvent now newID i eventType payload;
         m = snd (onConnStore (Cache_Store P J newID now e) m)
     in case cmActive m i of
          None \<Rightarrow> (Inr (), m)
        | Some a \<Rightarrow>
            if \<not> asConnected a then (Inr (), m)
            else case eventMessage J e False of
                None \<Rightarrow> (Inl (Errorf ''json''), m)
              | Some data \<Rightarrow>
                  let c = cmChans m (asSendChan a);
                      m = m\<lparr>cmChans := (cmChans m)(asSendChan a := sendNow data c)\<rparr>;
                      m = (if hasRoom c then snd (onConnStore (Cache_Store P J newID now (e\<lparr>ceDelivered := True\<rparr>)) m) else m);
                      x = (asSession a)\<lparr>sesLastEventID := newID\<rparr>
                  in (Inr (), m\<lparr>cmActive := (cmActive m)(i := Some (a\<lparr>asSession := x\<rparr>))\<rparr>))"

text \<open>
  The \<^verbatim>\<open>break\<close> of the replay loop leaves the \<^verbatim>\<open>select\<close> only, so that the loop goes on with the next event. \<open>rcv n\<close> is the
  number of messages the client takes before the \<open>n\<close>-th send.
\<close>

fun resumeLoop :: "resJson \<Rightarrow> (nat \<Rightarrow> nat) \<Rightarrow> nat \<Rightarrow> CachedEvent list \<Rightarrow> sendChan \<Rightarrow> nat \<times> sendChan" where
  "resumeLoop J rcv n [] c = (n, c)"
| "resumeLoop J rcv n (e # es) c =
     (case eventMessage J e True of
        None \<Rightarrow> resumeLoop J rcv n es c
      | Some data \<Rightarrow> resumeLoop J rcv (Suc n) es (sendNow data (takeFrom (rcv n) c)))"

definition orNil :: "bytes option \<Rightarrow> bytes" where
  "orNil x = (case x of None \<Rightarrow> [] | Some d \<Rightarrow> d)"

definition replayTo :: "resJson \<Rightarrow> (nat \<Rightarrow> nat) \<Rightarrow> CachedEvent list \<Rightarrow> sendChan \<Rightarrow> sendChan" where
  "replayTo J rcv events c =
     (let c = takeFrom (rcv 0) c
      in if \<not> hasRoom c then c
         else case resumeLoop J rcv 1 events (sendNow (orNil (marshalMessage J (ReplayStart (length events)))) c) of
             (n, c) \<Rightarrow> sendNow (orNil (marshalMessage J ReplayEnd)) (takeFrom (rcv n) c))"

definition ReplayEvents :: "resJson \<Rightarrow> (nat \<Rightarrow> nat) \<Rightarrow> string \<Rightarrow> CachedEvent list \<Rightarrow> ('db connManager, unit) op" where
  "ReplayEvents J rcv i events = (\<lambda>m.
     case cmActive m i of
       None \<Rightarrow> (Inl ErrSessionNotFound, m)
     | Some a \<Rightarrow>
         if \<not> asConnected a then (Inl ErrSessionNotFound, m)
         else (Inr (), m\<lparr>cmChans := (cmChans m)(asSendChan a := replayTo J rcv events (cmChans m (asSendChan a)))\<rparr>))"

definition GetSession :: "'db pebble \<Rightarrow> resJson \<Rightarrow> gotime \<Rightarrow> string \<Rightarrow> ('db connManager, Session) op" where
  "GetSession P J now i = onConnStore (Session_Get P J now i)"

definition UpdateSessionSubscription :: "'db pebble \<Rightarrow> resJson \<Rightarrow> gotime \<Rightarrow> string \<Rightarrow> string \<Rightarrow> bool \<Rightarrow> ('db connManager, unit) op" where
  "UpdateSessionSubscription P J now i topic add =
     andThen (onConnStore (Session_Get P J now i)) (\<lambda>x.
     onConnStore (Session_Save P J (if add then AddSubscription now topic x else RemoveSubscription topic x)))"

definition GetActiveSessionCount :: "'db connManager \<Rightarrow> nat" where
  "GetActiveSessionCount m = card (dom (cmActive m))"

section \<open>Clean-up\<close>

text \<open>Errors are logged; a panic ends the process.\<close>

definition logged :: "('s, 'a) op \<Rightarrow> ('s, unit) op" where
  "logged f = (\<lambda>m. case f m of (Inl (Panic x), m) \<Rightarrow> (Inl (Panic x), m) | (_, m) \<Rightarrow> (Inr (), m))"

definition runCleanup :: "'db pebble \<Rightarrow> resJson \<Rightarrow> (nat \<Rightarrow> bool) \<Rightarrow> (nat \<Rightarrow> bool) \<Rightarrow> gotime \<Rightarrow> ('db connManager, unit) op" where
  "runCleanup P J dn dn' now =
     andThen (onConnStore (logged (ExpireOldSessions P J dn now))) (\<lambda>_ m.
     onConnStore (logged (Cache_Cleanup P J dn' now (rcCacheWindow (cmConfig m)))) m)"

text \<open>One clean-up for every tick until the context is done.\<close>

definition resCleanupLoop :: "'db pebble \<Rightarrow> resJson \<Rightarrow> ((nat \<Rightarrow> bool) \<times> (nat \<Rightarrow> bool) \<times> gotime) list \<Rightarrow> ('db connManager, unit) op" where
  "resCleanupLoop P J = forEach (\<lambda>(dn, dn', now). runCleanup P J dn dn' now)"

section \<open>Delivery keeps the cache\<close>

lemma newEvent_simps [simp]:
  "ceID (newEvent now v i ty pl) = v" "ceSessionID (newEvent now v i ty pl) = i" "ceTimestamp (newEvent now v i ty pl) = Some now"
  "ceEventType (newEvent now v i ty pl) = ty" "cePayload (newEvent now v i ty pl) = pl" "eventTime (newEvent now v i ty pl) = now"
  "ceTopic (newEvent now v i ty pl) = []"
  by (simp_all add: newEvent_def eventTime_def)

lemma onConnStore_snd [simp]:
  "cmStorage (snd (onConnStore f m)) = snd (f (cmStorage m))" "cmActive (snd (onConnStore f m)) = cmActive m"
  "cmChans (snd (onConnStore f m)) = cmChans m" "cmConfig (snd (onConnStore f m)) = cmConfig m"
  by (simp_all add: onConnStore_def split: prod.splits)

lemma DeliverEvent_storage:
  fixes m :: "'db connManager" and P J now v i ty pl
  defines "e \<equiv> newEvent now v i ty pl"
  defines "s1 \<equiv> snd (Cache_Store P J v now e (cmStorage m))"
  shows "cmStorage (snd (DeliverEvent P J now v i ty pl m)) = s1 \<or>
    cmStorage (snd (DeliverEvent P J now v i ty pl m)) = snd (Cache_Store P J v now (e\<lparr>ceDelivered := True\<rparr>) s1)"
  by (simp add: DeliverEvent_def Let_def e_def s1_def split: option.splits)

context resilience
begin

lemma Cache_Store_new:
  assumes "\<not> closed s" "cacheHolds J (view (db s)) i es" "goodID i" "ceSessionID e = i" "ceID e \<noteq> []" "asciiEvent e" "ceTimestamp e \<noteq> None"
    "\<forall>x\<in>set es. ceID x \<noteq> ceID e" "\<forall>x\<in>set es. eventTime x < eventTime e" "Cache_Store P J v now e s = (r, s')"
  shows "\<not> closed s' \<and> (cacheHolds J (view (db s')) i (es @ [e]) \<or> (\<nexists>x. r = Inr x) \<and> cacheHolds J (view (db s')) i es)"
  using assms(1,5,7,10)
proof (cases rule: Cache_Store_cases)
  case 1
  with assms show ?thesis by simp
next
  case (2 d)
  with assms cacheHolds_halfStored [of J "view (db s)" i es e d] show ?thesis by simp
next
  case (3 d)
  with assms event_roundtrip [of e d] cacheHolds_stored [of J "view (db s)" i es e d] show ?thesis by simp
qed

lemma Cache_Store_again:
  assumes "\<not> closed s" "cacheHolds J (view (db s)) i (es @ [e])" "goodID i" "ceSessionID e' = i" "ceID e' = ceID e" "ceID e \<noteq> []"
    "asciiEvent e'" "ceTimestamp e' = ceTimestamp e" "ceTimestamp e \<noteq> None" "\<forall>x\<in>set es. ceID x \<noteq> ceID e" "Cache_Store P J v now e' s = (r, s')"
  shows "\<not> closed s' \<and> (cacheHolds J (view (db s')) i (es @ [e]) \<or> cacheHolds J (view (db s')) i (es @ [e']))"
proof -
  have "ceID e' \<noteq> []" "ceTimestamp e' \<noteq> None" using assms by simp_all
  with assms(1) show ?thesis using assms(11)
  proof (cases rule: Cache_Store_cases)
    case 1
    with assms(2) show ?thesis by simp
  next
    case (2 d)
    with cacheHolds_again(2) [OF assms(2,3,4,5,8) event_roundtrip [OF assms(7)] assms(10)] show ?thesis by simp
  next
    case (3 d)
    with cacheHolds_again(1) [OF assms(2,3,4,5,8) event_roundtrip [OF assms(7)] assms(10)] show ?thesis by simp
  qed
qed

lemma DeliverEvent_keeps_cache:
  fixes m :: "'db connManager" and now v i ty pl
  defines "e \<equiv> newEvent now v i ty pl"
  assumes o: "\<not> closed (cmStorage m)" and h: "cacheHolds J (view (db (cmStorage m))) i es" and i: "goodID i"
    and v: "v \<noteq> []" "asciiEvent e" and fresh: "\<forall>x\<in>set es. ceID x \<noteq> v" and later: "\<forall>x\<in>set es. eventTime x < now"
    and d: "DeliverEvent P J now v i ty pl m = (r, m')"
  shows "\<not> closed (cmStorage m') \<and> ((\<exists>b. cacheHolds J (view (db (cmStorage m'))) i (es @ [e\<lparr>ceDelivered := b\<rparr>])) \<or>
    (\<nexists>x. fst (Cache_Store P J v now e (cmStorage m)) = Inr x) \<and> cacheHolds J (view (db (cmStorage m'))) i es)"
proof -
  let ?e' = "e\<lparr>ceDelivered := True\<rparr>"
  obtain q s1 where c: "Cache_Store P J v now e (cmStorage m) = (q, s1)" by fastforce
  obtain q2 s2 where c2: "Cache_Store P J v now ?e' s1 = (q2, s2)" by fastforce
  have one: "\<not> closed s1 \<and> (cacheHolds J (view (db s1)) i (es @ [e]) \<or> (\<nexists>x. q = Inr x) \<and> cacheHolds J (view (db s1)) i es)"
    by (rule Cache_Store_new [OF o h i _ _ v(2) _ _ _ c]) (use v fresh later in \<open>simp_all add: e_def\<close>)
  have a': "asciiEvent ?e'" using v(2) by (simp add: asciiEvent_def)
  have e0: "e = e\<lparr>ceDelivered := False\<rparr>" by (simp add: e_def newEvent_def)
  have two: "\<not> closed s2 \<and> ((\<exists>b. cacheHolds J (view (db s2)) i (es @ [e\<lparr>ceDelivered := b\<rparr>])) \<or> (\<nexists>x. q = Inr x) \<and> cacheHolds J (view (db s2)) i es)"
  proof (cases "cacheHolds J (view (db s1)) i (es @ [e])")
    case True
    have "\<not> closed s2 \<and> (cacheHolds J (view (db s2)) i (es @ [e]) \<or> cacheHolds J (view (db s2)) i (es @ [?e']))"
      by (rule Cache_Store_again [OF _ True i _ _ _ a' _ _ _ c2]) (use one v fresh in \<open>simp_all add: e_def\<close>)
    then show ?thesis using e0 by metis
  next
    case False
    with one have f: "\<not> closed s1" "\<nexists>x. q = Inr x" "cacheHolds J (view (db s1)) i es" by blast+
    have "\<not> closed s2 \<and> (cacheHolds J (view (db s2)) i (es @ [?e']) \<or> (\<nexists>x. q2 = Inr x) \<and> cacheHolds J (view (db s2)) i es)"
      by (rule Cache_Store_new [OF f(1,3) i _ _ a' _ _ _ c2]) (use v fresh later in \<open>simp_all add: e_def eventTime_def\<close>)
    with f(2) show ?thesis by blast
  qed
  have "cmStorage m' = s1 \<or> cmStorage m' = s2"
    using DeliverEvent_storage [of P J now v i ty pl m] c c2 d by (simp add: e_def)
  then show ?thesis
  proof
    assume "cmStorage m' = s1"
    with one e0 c show ?thesis by (metis fst_conv)
  qed (use two c in simp)
qed

end

section \<open>Session operations leave the cache alone\<close>

text \<open>\<open>cacheFrame\<close>: the storage stays open and what is not a key of the session store stays as it is.\<close>

definition cacheFrame :: "('db \<Rightarrow> bytes \<Rightarrow> bytes option) \<Rightarrow> 'db storage \<Rightarrow> 'db storage \<Rightarrow> bool" where
  "cacheFrame view s s' \<longleftrightarrow> (\<not> closed s \<longrightarrow> \<not> closed s' \<and>
     (\<forall>k. \<not> HasPrefix k ''/rs/session/'' \<longrightarrow> view (db s') k = view (db s) k))"

lemma cacheFrame_refl [simp]: "reflp (cacheFrame view)" "cacheFrame view s s"
  by (simp_all add: reflp_def cacheFrame_def)

lemma cacheFrame_transp [simp]: "transp (cacheFrame view)"
  unfolding transp_def cacheFrame_def by metis

lemma cacheFrame_trans: "cacheFrame view s s' \<Longrightarrow> cacheFrame view s' s'' \<Longrightarrow> cacheFrame view s s''"
  using cacheFrame_transp by (rule transpD)

lemma cacheFrame_holds:
  assumes "cacheFrame view s s'" "\<not> closed s" "cacheHolds J (view (db s)) i es"
  shows "\<not> closed s' \<and> cacheHolds J (view (db s')) i es"
proof
  show "\<not> closed s'" using assms(1,2) by (simp add: cacheFrame_def)
  have "view (db s') k = view (db s) k" if "HasPrefix k ''/rs/cache/''" for k
  proof -
    from that have "\<not> HasPrefix k ''/rs/session/''" by (auto simp: HasPrefix_def prefix_def)
    with assms(1,2) show ?thesis by (simp add: cacheFrame_def)
  qed
  then show "cacheHolds J (view (db s')) i es"
    by (intro cacheHolds_cong [OF assms(3)]) (auto simp: HasPrefix_def prefix_def cacheSessionIndexPrefix_def cacheEventKey_def)
qed

context resilience
begin

lemma keeps_Put_session: "HasPrefix k ''/rs/session/'' \<Longrightarrow> keeps (cacheFrame view) (Put P k v)"
proof (simp only: keeps_def, rule allI)
  fix s assume k: "HasPrefix k ''/rs/session/''"
  obtain r s' where p: "Put P k v s = (r, s')" by fastforce
  have "cacheFrame view s s'"
    using kv.put_Inl [of k v s _ s'] kv.put_Inr [of k v s _ s'] p k by (cases r) (auto simp: cacheFrame_def)
  with p show "cacheFrame view s (snd (Put P k v s))" by simp
qed

lemma keeps_Delete_session: "HasPrefix k ''/rs/session/'' \<Longrightarrow> keeps (cacheFrame view) (Delete P k)"
proof (simp only: keeps_def, rule allI)
  fix s assume k: "HasPrefix k ''/rs/session/''"
  obtain r s' where p: "Delete P k s = (r, s')" by fastforce
  have "cacheFrame view s s'"
    using kv.del_Inl [of k s _ s'] kv.del_Inr [of k s _ s'] p k by (cases r) (auto simp: cacheFrame_def)
  with p show "cacheFrame view s (snd (Delete P k s))" by simp
qed

lemma session_key_prefix [simp]:
  "HasPrefix (sessionKey i) ''/rs/session/''" "HasPrefix (sessionClientIndexKey c) ''/rs/session/''"
  "HasPrefix (sessionStateIndexKey st i) ''/rs/session/''"
  by (auto simp: HasPrefix_def prefix_def sessionKey_def sessionClientIndexKey_def sessionStateIndexKey_def)

lemma Get_state [simp]: "snd (Get P k s) = s"
  by (cases "closed s") (simp_all add: Get_def guard_simps catch_def dbGet_eq split: option.splits)

lemma keeps_Get: "keeps (cacheFrame view) (Get P k)"
  by (simp add: keeps_def)

lemma keeps_Session_load: "keeps (cacheFrame view) (Session_load P J i)"
  unfolding Session_load_def by (auto intro!: keeps_andThen keeps_catch keeps_Get keeps_throw keeps_fromOption)

lemma keeps_Session_Get: "keeps (cacheFrame view) (Session_Get P J now i)"
  unfolding Session_Get_def by (auto intro!: keeps_andThen keeps_Session_load keeps_throw keeps_ret)

lemma keeps_GetByClientID: "keeps (cacheFrame view) (GetByClientID P J now c)"
  unfolding GetByClientID_def by (auto intro!: keeps_andThen keeps_catch keeps_Get keeps_throw keeps_Session_Get)

lemma keeps_Session_Save: "keeps (cacheFrame view) (Session_Save P J x)"
  unfolding Session_Save_def by (auto intro!: keeps_andThen keeps_wrapping keeps_fromOption keeps_Put_session)

lemma keeps_UpdateState: "keeps (cacheFrame view) (UpdateState P J i st)"
  unfolding UpdateState_def
  by (auto intro!: keeps_andThen keeps_Session_load keeps_attempt keeps_Delete_session keeps_Session_Save)

lemmas session_frames = keeps_Session_Get keeps_GetByClientID keeps_Session_Save keeps_UpdateState
  keeps_attempt [OF cacheFrame_refl(1) cacheFrame_transp keeps_Session_Save]
  keeps_attempt [OF cacheFrame_refl(1) cacheFrame_transp keeps_UpdateState]

end

section \<open>Runs\<close>

text \<open>
  A run of the manager, seen from session \<open>i\<close>: with every state goes the list of the events delivered to \<open>i\<close> so far. The
  clock moves between two events of the session and their identifiers differ; a delivery belongs to the run when its event could
  be cached.
\<close>

inductive connStep :: "'db pebble \<Rightarrow> resJson \<Rightarrow> string \<Rightarrow> 'db connManager \<times> CachedEvent list \<Rightarrow> 'db connManager \<times> CachedEvent list \<Rightarrow> bool"
  for P J i where
  deliver: "v \<noteq> [] \<Longrightarrow> asciiEvent (newEvent now v i ty pl) \<Longrightarrow> \<forall>x\<in>set es. ceID x \<noteq> v \<and> eventTime x < now \<Longrightarrow>
    fst (Cache_Store P J v now (newEvent now v i ty pl) (cmStorage m)) = Inr e \<Longrightarrow> DeliverEvent P J now v i ty pl m = (r, m') \<Longrightarrow>
    connStep P J i (m, es) (m', es @ [newEvent now v i ty pl])"
| deliverOther: "goodID j \<Longrightarrow> j \<noteq> i \<Longrightarrow> v \<noteq> [] \<Longrightarrow> DeliverEvent P J now v j ty pl m = (r, m') \<Longrightarrow> connStep P J i (m, es) (m', es)"
| connect: "HandleConnect P J now v c ch m = (rs, m') \<Longrightarrow> connStep P J i (m, es) (m', es)"
| disconnect: "HandleDisconnect P J j m = (r, m') \<Longrightarrow> connStep P J i (m, es) (m', es)"
| reconnect: "HandleReconnect P J dn now j lst ch m = (rr, m') \<Longrightarrow> connStep P J i (m, es) (m', es)"
| replay: "ReplayEvents J rcv j events m = (r, m') \<Longrightarrow> connStep P J i (m, es) (m', es)"
| subscribe: "UpdateSessionSubscription P J now j topic add m = (r, m') \<Longrightarrow> connStep P J i (m, es) (m', es)"
| take: "connStep P J i (m, es) (m\<lparr>cmChans := (cmChans m)(ch := takeFrom n (cmChans m ch))\<rparr>, es)"

definition undelivered :: "CachedEvent \<Rightarrow> CachedEvent" where
  "undelivered e = e\<lparr>ceDelivered := False\<rparr>"

lemma undelivered_simps [simp]:
  "ceID (undelivered e) = ceID e" "eventTime (undelivered e) = eventTime e" "ceTimestamp (undelivered e) = ceTimestamp e"
  "undelivered (newEvent now v i ty pl) = newEvent now v i ty pl" "undelivered (e\<lparr>ceDelivered := b\<rparr>) = undelivered e"
  "ceSessionID (undelivered e) = ceSessionID e"
  by (simp_all add: undelivered_def eventTime_def newEvent_def)

text \<open>The cache holds what was delivered, up to the mark that says whether it was sent.\<close>

definition connInv :: "('db \<Rightarrow> bytes \<Rightarrow> bytes option) \<Rightarrow> resJson \<Rightarrow> string \<Rightarrow> 'db connManager \<times> CachedEvent list \<Rightarrow> bool" where
  "connInv view J i = (\<lambda>(m, es). \<not> closed (cmStorage m) \<and>
     (\<forall>e\<in>set es. ceID e \<noteq> []) \<and> (\<exists>es'. cacheHolds J (view (db (cmStorage m))) i es' \<and> map undelivered es' = es))"

lemma connInv_frame:
  "connInv view J i (m, es) \<Longrightarrow> cacheFrame view (cmStorage m) (cmStorage m') \<Longrightarrow> connInv view J i (m', es)"
  using cacheFrame_holds [of view "cmStorage m" "cmStorage m'" J i] by (auto simp: connInv_def)

lemma storage_after_onStore:
  "keeps (cacheFrame view) f \<Longrightarrow> onConnStore f m = (r, m') \<Longrightarrow> cacheFrame view (cmStorage m) (cmStorage m')"
  by (auto simp: onConnStore_def keeps_def split: prod.splits dest!: spec [of _ "cmStorage m"])

context resilience
begin

lemma newSession_frame: "newSession P J now v c ch m = (r, m') \<Longrightarrow> cacheFrame view (cmStorage m) (cmStorage m')"
  using storage_after_onStore [OF keeps_Session_Save]
  by (auto simp: newSession_def Let_def andThen_def activate_def split: prod.splits sum.splits)

lemma HandleConnect_frame:
  assumes "HandleConnect P J now v c ch m = (r, m')"
  shows "cacheFrame view (cmStorage m) (cmStorage m')"
proof -
  obtain q m1 where g: "onConnStore (GetByClientID P J now c) m = (q, m1)" by fastforce
  note f1 = storage_after_onStore [OF keeps_GetByClientID g]
  have "cacheFrame view (cmStorage m1) (cmStorage m')"
  proof (cases "\<exists>x. q = Inr x \<and> sesState x = SessionStateDisconnected")
    case True
    then obtain x where x: "q = Inr x" "sesState x = SessionStateDisconnected" by blast
    let ?x = "Touch now (x\<lparr>sesState := SessionStateActive\<rparr>)"
    obtain q2 m2 where a: "onConnStore (attempt (Session_Save P J ?x)) m1 = (q2, m2)" by fastforce
    then have "cmStorage m' = cmStorage m2"
      using assms g x by (auto simp: HandleConnect_def Let_def andThen_def activate_def split: sum.splits)
    with storage_after_onStore [OF _ a] session_frames show ?thesis by simp
  next
    case False
    then have "newSession P J now v c ch m1 = (r, m')"
      using assms g by (auto simp: HandleConnect_def split: sum.splits if_splits)
    then show ?thesis by (rule newSession_frame)
  qed
  with f1 show ?thesis by (rule cacheFrame_trans)
qed

lemma reads_Iterate: "keeps (=) (Iterate P dn p fn acc)"
proof -
  have "keeps (=) ensureNotClosed" "keeps (=) (dbIter P lo hi)" for lo hi
    by (simp_all add: keeps_def ensureNotClosed_def dbIter_def)
  then show ?thesis unfolding Iterate_def by (auto intro!: keeps_andThen keeps_ret simp: reflp_def transp_def)
qed

lemma reads_scanWith: "keeps (=) (scanWith P dn msg p fn acc)"
proof -
  have "keeps (=) (andThen (wrapping msg (Iterate P dn p (fn s) acc))
      (\<lambda>(err, acc'). case err of None \<Rightarrow> ret acc' | Some e \<Rightarrow> throw (Wrap msg e)))" for s
    by (auto intro!: keeps_andThen keeps_wrapping keeps_ret keeps_throw reads_Iterate simp: reflp_def transp_def split: option.split)
  then show ?thesis by (simp add: scanWith_def keeps_def)
qed

lemma GetAfter_state [simp]: "snd (GetAfter P J dn i lst n s) = s"
proof -
  have "keeps (=) (andThen (scanWith P dn msg p fn acc) (\<lambda>events. ret (sortByTime events)))" for msg p acc
      and fn :: "'db storage \<Rightarrow> bytes \<Rightarrow> bytes \<Rightarrow> CachedEvent list \<Rightarrow> bool \<times> CachedEvent list"
    by (intro keeps_andThen keeps_ret reads_scanWith) (simp_all add: reflp_def transp_def)
  then show ?thesis by (simp add: GetAfter_def Let_def keeps_def)
qed

lemma GetAfter_onStore: "onConnStore (GetAfter P J dn i lst n) m = (r, m') \<Longrightarrow> cmStorage m' = cmStorage m"
  using onConnStore_snd(1) [of "GetAfter P J dn i lst n" m] by simp

lemma HandleReconnect_frame:
  assumes "HandleReconnect P J dn now j lst ch m = (r, m')"
  shows "cacheFrame view (cmStorage m) (cmStorage m')"
proof -
  obtain q m1 where g: "onConnStore (Session_Get P J now j) m = (q, m1)" by fastforce
  note f1 = storage_after_onStore [OF keeps_Session_Get g]
  show ?thesis
  proof (cases q)
    case (Inl e)
    with assms g f1 show ?thesis by (simp add: HandleReconnect_def andThen_def)
  next
    case (Inr x)
    let ?x = "Touch now (x\<lparr>sesState := SessionStateActive\<rparr>)"
    obtain q2 m2 where a: "onConnStore (Session_Save P J ?x) m1 = (q2, m2)" by fastforce
    have "cmStorage (activate ?x ch m2) = cmStorage m2" by (simp add: activate_def)
    then have "cmStorage m' = cmStorage m2"
      using assms g Inr a by (auto simp: HandleReconnect_def Let_def andThen_def split: sum.splits prod.splits dest!: GetAfter_onStore)
    with f1 storage_after_onStore [OF keeps_Session_Save a] show ?thesis by (simp add: cacheFrame_trans)
  qed
qed

lemma DeliverEvent_other:
  fixes m :: "'db connManager"
  assumes "goodID i" "goodID j" "j \<noteq> i" "v \<noteq> []" "DeliverEvent P J now v j ty pl m = (r, m')" "connInv view J i (m, es)"
  shows "connInv view J i (m', es)"
proof -
  let ?e = "newEvent now v j ty pl"
  have keep: "\<not> closed s' \<and> cacheHolds J (view (db s')) i es'"
    if s: "\<not> closed s" "cacheHolds J (view (db s)) i es'" and e: "ceID e \<noteq> []" "ceTimestamp e \<noteq> None" "ceSessionID e = j"
      and c: "Cache_Store P J v now e s = (q, s')" for s s' q e es'
    using s(1) e(1,2) c
  proof (cases rule: Cache_Store_cases)
    case (2 d)
    with cacheHolds_other_session(2) [OF s(2) assms(2,1,3) e(3)] show ?thesis by simp
  next
    case (3 d)
    with cacheHolds_other_session(1) [OF s(2) assms(2,1,3) e(3)] show ?thesis by simp
  qed (use s(2) in simp)
  from assms(6) obtain es' where h: "\<not> closed (cmStorage m)" "cacheHolds J (view (db (cmStorage m))) i es'" "map undelivered es' = es"
    by (auto simp: connInv_def)
  obtain q s1 where c: "Cache_Store P J v now ?e (cmStorage m) = (q, s1)" by fastforce
  obtain q2 s2 where c2: "Cache_Store P J v now (?e\<lparr>ceDelivered := True\<rparr>) s1 = (q2, s2)" by fastforce
  have one: "\<not> closed s1 \<and> cacheHolds J (view (db s1)) i es'" by (rule keep [OF h(1,2) _ _ _ c]) (use assms(4) in simp_all)
  have two: "\<not> closed s2 \<and> cacheHolds J (view (db s2)) i es'"
    by (rule keep [OF _ _ _ _ _ c2]) (use one assms(4) in simp_all)
  have "cmStorage m' = s1 \<or> cmStorage m' = s2"
    using DeliverEvent_storage [of P J now v j ty pl m] c c2 assms(5) by simp
  with one two h(3) assms(6) show ?thesis by (auto simp: connInv_def)
qed

lemma connStep_inv:
  assumes "connStep P J i a b" "goodID i" "connInv view J i a"
  shows "connInv view J i b"
  using assms
proof cases
  case (deliver v now ty pl es m e r m')
  from assms(3) deliver(1) obtain es' where h: "\<not> closed (cmStorage m)" "cacheHolds J (view (db (cmStorage m))) i es'" "map undelivered es' = es"
    by (auto simp: connInv_def)
  have "\<forall>x\<in>set es'. ceID x \<noteq> v" "\<forall>x\<in>set es'. eventTime x < now" using deliver(5) h(3) by auto
  from DeliverEvent_keeps_cache [OF h(1,2) assms(2) deliver(3,4) this deliver(7)] deliver(6)
  obtain b where "\<not> closed (cmStorage m')" "cacheHolds J (view (db (cmStorage m'))) i (es' @ [(newEvent now v i ty pl)\<lparr>ceDelivered := b\<rparr>])" by auto
  with deliver(1,2,3) assms(3) h(3) show ?thesis by (force simp: connInv_def)
next
  case (deliverOther j v now ty pl m r m' es)
  with assms(2,3) DeliverEvent_other [of i j v now ty pl m r m' es] show ?thesis by simp
next
  case (connect now v c ch m rs m' es)
  with assms(3) HandleConnect_frame connInv_frame show ?thesis by metis
next
  case (disconnect j m r m' es)
  then have "onConnStore (attempt (UpdateState P J j SessionStateDisconnected)) (m\<lparr>cmActive := (cmActive m)(j := None)\<rparr>) = (r, m')"
    by (simp add: HandleDisconnect_def)
  from storage_after_onStore [OF _ this] session_frames have "cacheFrame view (cmStorage m) (cmStorage m')" by simp
  with assms(3) disconnect show ?thesis using connInv_frame by metis
next
  case (reconnect dn now j lst ch m rr m' es)
  with assms(3) HandleReconnect_frame connInv_frame show ?thesis by metis
next
  case (replay rcv j events m r m' es)
  then have "cmStorage m' = cmStorage m" by (auto simp: ReplayEvents_def split: option.splits if_splits)
  with assms(3) replay show ?thesis by (simp add: connInv_def)
next
  case (subscribe now j topic add m r m' es)
  obtain q m1 where g: "onConnStore (Session_Get P J now j) m = (q, m1)" by fastforce
  have "cacheFrame view (cmStorage m1) (cmStorage m')"
    using subscribe g by (cases q) (auto simp: UpdateSessionSubscription_def andThen_def intro: storage_after_onStore keeps_Session_Save)
  with storage_after_onStore [OF keeps_Session_Get g] have "cacheFrame view (cmStorage m) (cmStorage m')" by (rule cacheFrame_trans)
  with assms(3) subscribe connInv_frame show ?thesis by metis
next
  case (take m es ch n)
  with assms(3) show ?thesis by (simp add: connInv_def)
qed

lemma connRun_inv:
  "rtranclp (connStep P J i) a b \<Longrightarrow> goodID i \<Longrightarrow> connInv view J i a \<Longrightarrow> connInv view J i b"
  by (induction rule: rtranclp_induct) (auto intro: connStep_inv)

lemma cacheHolds_loadEvent:
  "cacheHolds J (view (db s)) i es \<Longrightarrow> \<not> closed s \<Longrightarrow> e \<in> set es \<Longrightarrow> loadEvent P J s i (ceID e) = Some e"
  by (simp add: cacheHolds_def loadEvent_eq)

lemma GetAfter_last:
  assumes h: "cacheHolds J (view (db s)) i (before @ after)" and o: "\<not> closed s" and ne: "\<forall>e\<in>set (before @ after). ceID e \<noteq> []"
  shows "GetAfter P J (\<lambda>_. False) i (if before = [] then [] else ceID (last before)) limit s =
    (Inr (take (nat (if limit \<le> 0 then 100 else limit)) after), s)"
proof (cases before rule: rev_cases)
  case Nil
  have "filter (keepAfter None []) (before @ after) = after"
    using Nil ne by (simp add: keepAfter_def)
  then show ?thesis using GetAfter_eq [OF h o, of "[]" limit] Nil by simp
next
  case (snoc b e)
  have ts: "\<forall>x\<in>set (before @ after). ceTimestamp x = Some (eventTime x)"
  proof
    fix x assume "x \<in> set (before @ after)"
    with h have "ceTimestamp x \<noteq> None" by (simp add: cacheHolds_def)
    then show "ceTimestamp x = Some (eventTime x)" by (auto simp: eventTime_def)
  qed
  have e: "loadEvent P J s i (ceID e) = Some e" by (rule cacheHolds_loadEvent [OF h o]) (simp add: snoc)
  have uniq: "x = e" if "x \<in> set (before @ after)" "ceID x = ceID e" for x
    using cacheHolds_loadEvent [OF h o that(1)] e unfolding that(2) by (metis option.inject)
  have s: "sorted_wrt (<) (map eventTime (b @ [e] @ after))" using h snoc by (simp add: cacheHolds_def)
  let ?Q = "keepAfter (Some (eventTime e)) (ceID e)"
  have "\<not> ?Q x" if x: "x \<in> set before" for x
  proof (cases "x = e")
    case False
    with x snoc have "x \<in> set b" by simp
    with s have "eventTime x < eventTime e" by (simp add: sorted_wrt_append)
    then have "\<not> eventTime e < eventTime x" by (simp add: order.asym not_less less_imp_le)
    with x ts show ?thesis by (simp add: keepAfter_def)
  qed (simp add: keepAfter_def)
  moreover have "?Q x" if x: "x \<in> set after" for x
  proof -
    have "eventTime e < eventTime x" using x s by (simp add: sorted_wrt_append)
    moreover have "ceID x \<noteq> ceID e" using uniq [of x] x \<open>eventTime e < eventTime x\<close> by auto
    ultimately show ?thesis using x ts by (simp add: keepAfter_def)
  qed
  ultimately have "filter ?Q (before @ after) = after" by (simp add: filter_empty_conv)
  then show ?thesis using GetAfter_eq [OF h o, of "ceID e" limit] e ts snoc ne by simp
qed

lemma HandleReconnect_missed:
  fixes m :: "'db connManager"
  assumes inv: "connInv view J i (m, before @ after)"
    and last: "lst = (if before = [] then [] else ceID (last before))"
    and r: "HandleReconnect P J (\<lambda>_. False) now i lst ch m = (Inr (x, missed), m')" "sesID x = i"
  shows "map undelivered missed = take (nat (if rcMaxEvents (cmConfig m) \<le> 0 then 100 else rcMaxEvents (cmConfig m))) after \<and>
    cmActive m' i = Some \<lparr>asSession = x, asConnected = True, asSendChan = ch\<rparr> \<and> sesState x = SessionStateActive \<and> sesLastSeen x = now"
proof -
  let ?max = "rcMaxEvents (cmConfig m)"
  obtain q m1 where g0: "onConnStore (Session_Get P J now i) m = (q, m1)" by fastforce
  with r(1) obtain y where q: "q = Inr y" by (cases q) (simp_all add: HandleReconnect_def andThen_def)
  note g = g0 [unfolded q]
  obtain q2 m2 where a0: "onConnStore (Session_Save P J (Touch now (y\<lparr>sesState := SessionStateActive\<rparr>))) m1 = (q2, m2)" by fastforce
  with r(1) g have q2: "q2 = Inr ()" by (cases q2) (simp_all add: HandleReconnect_def andThen_def Let_def)
  note a = a0 [unfolded q2]
  let ?x = "Touch now (y\<lparr>sesState := SessionStateActive\<rparr>)"
  have "cacheFrame view (cmStorage m) (cmStorage m2)"
    using storage_after_onStore [OF keeps_Session_Get g] storage_after_onStore [OF keeps_Session_Save a] by (rule cacheFrame_trans)
  with inv have "connInv view J i (m2, before @ after)" by (rule connInv_frame)
  then obtain es where o: "\<not> closed (cmStorage m2)" and h: "cacheHolds J (view (db (cmStorage m2))) i es"
    and es: "map undelivered es = before @ after" and ne0: "\<forall>e\<in>set (before @ after). ceID e \<noteq> []" by (auto simp: connInv_def)
  from ne0 have ne: "\<forall>e\<in>set es. ceID e \<noteq> []" unfolding es [symmetric] by simp
  from es obtain b c where bc: "es = b @ c" "before = map undelivered b" "after = map undelivered c"
    by (auto simp: map_eq_append_conv)
  have lst: "lst = (if b = [] then [] else ceID (last b))" using last bc(2) by (simp add: last_map)
  have cfg: "cmConfig m1 = cmConfig m" "cmConfig m2 = cmConfig m1"
    using g a onConnStore_snd(4) by (metis snd_conv)+
  have "?x = x \<and> missed = take (nat (if ?max \<le> 0 then 100 else ?max)) c \<and> m' = (activate ?x ch m2)\<lparr>cmStorage := cmStorage m2\<rparr>"
  proof -
    let ?m3 = "activate ?x ch m2"
    have i: "sesID ?x = i" using r g a
      by (auto simp: HandleReconnect_def andThen_def Let_def onConnStore_def split: prod.splits sum.splits)
    have "onConnStore (GetAfter P J (\<lambda>_. False) (sesID ?x) lst (rcMaxEvents (cmConfig ?m3))) ?m3 =
        (Inr (take (nat (if ?max \<le> 0 then 100 else ?max)) c), ?m3\<lparr>cmStorage := cmStorage m2\<rparr>)"
      using GetAfter_last [OF h [unfolded bc(1)] o, of ?max] ne i cfg lst bc(1) by (simp add: onConnStore_def activate_def)
    with r(1) g a have "(Inr (?x, take (nat (if ?max \<le> 0 then 100 else ?max)) c), ?m3\<lparr>cmStorage := cmStorage m2\<rparr>) = (Inr (x, missed), m')"
      unfolding HandleReconnect_def Let_def andThen_def by auto
    then show ?thesis by auto
  qed
  with bc(3) r(2) show ?thesis by (auto simp: take_map activate_def Touch_def)
qed

lemma disconnected_then_found:
  fixes m :: "'db connManager"
  assumes o: "\<not> closed (cmStorage m)" and x: "sessionsIn J (view (db (cmStorage m))) (sesID x) = Some x" "asciiSession x"
    and u: "fst (UpdateState P J (sesID x) SessionStateDisconnected (cmStorage m)) = Inr ()"
    and d: "HandleDisconnect P J (sesID x) m = (r, m1)"
  shows "\<not> closed (cmStorage m1) \<and> cmActive m1 (sesID x) = None \<and>
    sessionsIn J (view (db (cmStorage m1))) (sesID x) = Some (x\<lparr>sesState := SessionStateDisconnected\<rparr>) \<and>
    clientsIn (view (db (cmStorage m1))) (sesClientID x) = Some (sesID x)"
proof -
  obtain s where s: "UpdateState P J (sesID x) SessionStateDisconnected (cmStorage m) = (Inr (), s)"
    using u by (metis prod.collapse)
  have a: "ascii SessionStateDisconnected" by (simp add: SessionStateDisconnected_def ascii_def)
  have "cmStorage m1 = s" "cmActive m1 = (cmActive m)(sesID x := None)"
    using d s by (auto simp: HandleDisconnect_def onConnStore_def attempt_def catch_def)
  with UpdateState_refines [OF o x refl a s] show ?thesis by simp
qed

end

section \<open>Replaying\<close>

text \<open>What has gone through a channel: taken by the client, or still in it.\<close>

definition sent :: "sendChan \<Rightarrow> bytes list" where
  "sent c = chTaken c @ chQueue c"

lemma sent_takeFrom [simp]: "sent (takeFrom n c) = sent c"
  by (simp add: sent_def takeFrom_def)

lemma room_takeFrom: "length (chQueue (takeFrom n c)) \<le> length (chQueue c)" "chCap (takeFrom n c) = chCap c"
  by (simp_all add: takeFrom_def)

lemma sendNow_room: "hasRoom c \<Longrightarrow> sent (sendNow x c) = sent c @ [x] \<and> length (chQueue (sendNow x c)) = Suc (length (chQueue c)) \<and> chCap (sendNow x c) = chCap c"
  by (simp add: sendNow_def sent_def)

lemma takeFrom_hasRoom: "length (chQueue c) < chCap c \<Longrightarrow> hasRoom (takeFrom n c)"
  using room_takeFrom [of n c] by (simp add: hasRoom_def)

lemma resumeLoop_room:
  assumes "\<forall>e\<in>set es. eventMessage J e True \<noteq> None" "length (chQueue c) + length es < chCap c"
  shows "\<exists>n' c'. resumeLoop J rcv n es c = (n', c') \<and> sent c' = sent c @ map (\<lambda>e. the (eventMessage J e True)) es \<and>
    length (chQueue c') < chCap c' \<and> chCap c' = chCap c"
  using assms
proof (induction es arbitrary: n c)
  case (Cons e es)
  then obtain x where x: "eventMessage J e True = Some x" by auto
  let ?c = "sendNow x (takeFrom (rcv n) c)"
  have "hasRoom (takeFrom (rcv n) c)" using Cons.prems(2) by (intro takeFrom_hasRoom) simp
  note t = sendNow_room [OF this, of x]
  have "length (chQueue ?c) + length es < chCap ?c" using t Cons.prems(2) room_takeFrom [of "rcv n" c] by simp
  with Cons.IH [of ?c "Suc n"] Cons.prems(1) x t room_takeFrom(2) [of "rcv n" c] show ?case by auto
qed simp

section \<open>Properties\<close>


text \<open>
  C38: a client that was disconnected and connects again before its session expires gets its session back: the same identifier,
  subscriptions and metadata, active, and connected to its new channel.
\<close>

theorem connect_resumes_session:
  fixes m :: "'db connManager"
  assumes "resilience P view J" "\<not> closed (cmStorage m)" "sessionsIn J (view (db (cmStorage m))) (sesID x) = Some x" "asciiSession x"
    "fst (UpdateState P J (sesID x) SessionStateDisconnected (cmStorage m)) = Inr ()"
    "HandleDisconnect P J (sesID x) m = (r, m1)" "\<not> Session_IsExpired now x"
  shows "cmActive m1 (sesID x) = None \<and> (\<exists>m2. HandleConnect P J now v (sesClientID x) ch m1 =
      (Inr (x\<lparr>sesState := SessionStateActive, sesLastSeen := now\<rparr>), m2) \<and>
    cmActive m2 (sesID x) = Some \<lparr>asSession = x\<lparr>sesState := SessionStateActive, sesLastSeen := now\<rparr>, asConnected = True, asSendChan = ch\<rparr>)"
proof -
  note d = resilience.disconnected_then_found [OF assms(1-6)]
  let ?x = "x\<lparr>sesState := SessionStateDisconnected\<rparr>" and ?y = "x\<lparr>sesState := SessionStateActive, sesLastSeen := now\<rparr>"
  have "\<not> Session_IsExpired now ?x" using assms(7) by (simp add: Session_IsExpired_def)
  then have "GetByClientID P J now (sesClientID x) (cmStorage m1) = (Inr ?x, cmStorage m1)"
    using resilience.GetByClientID_eq [OF assms(1), of "cmStorage m1" "sesClientID x" "sesID x" ?x now] d by simp
  then have g: "onConnStore (GetByClientID P J now (sesClientID x)) m1 = (Inr ?x, m1)" by (simp add: onConnStore_def)
  obtain q s where "Session_Save P J ?y (cmStorage m1) = (q, s)" by fastforce
  then have "onConnStore (attempt (Session_Save P J ?y)) m1 = (Inr (), m1\<lparr>cmStorage := s\<rparr>)"
    by (cases q) (simp_all add: onConnStore_def attempt_def catch_def)
  with g d show ?thesis by (simp add: HandleConnect_def Touch_def Let_def andThen_def activate_def)
qed

text \<open>
  A replay into a channel with room for it sends the start message, every event in its order and the end message, whatever
  the client takes from the channel meanwhile.
\<close>

theorem ReplayEvents_in_order:
  assumes "cmActive m i = Some a" "asConnected a" "\<forall>e\<in>set es. eventMessage J e True \<noteq> None"
    "length (chQueue (cmChans m (asSendChan a))) + length es + 2 \<le> chCap (cmChans m (asSendChan a))"
  shows "\<exists>m'. ReplayEvents J rcv i es m = (Inr (), m') \<and> sent (cmChans m' (asSendChan a)) = sent (cmChans m (asSendChan a)) @
    [orNil (marshalMessage J (ReplayStart (length es)))] @ map (\<lambda>e. the (eventMessage J e True)) es @ [orNil (marshalMessage J ReplayEnd)]"
proof -
  let ?c = "cmChans m (asSendChan a)" and ?s = "orNil (marshalMessage J (ReplayStart (length es)))"
  let ?c1 = "sendNow ?s (takeFrom (rcv 0) ?c)"
  have r: "hasRoom (takeFrom (rcv 0) ?c)" using assms(4) by (intro takeFrom_hasRoom) simp
  note t = sendNow_room [OF r, of ?s] room_takeFrom [of "rcv 0" ?c]
  have "length (chQueue ?c1) + length es < chCap ?c1" using t assms(4) by simp
  from resumeLoop_room [OF assms(3) this, of rcv 1] obtain n c2 where l: "resumeLoop J rcv 1 es ?c1 = (n, c2)"
    "sent c2 = sent ?c1 @ map (\<lambda>e. the (eventMessage J e True)) es" "length (chQueue c2) < chCap c2" by blast
  from sendNow_room [OF takeFrom_hasRoom [OF l(3), of "rcv n"]] l(1,2) t(1) r assms(1,2) show ?thesis
    by (simp add: ReplayEvents_def replayTo_def Let_def)
qed

text \<open>
  With a full channel the comment says that the remaining events are skipped; the \<^verbatim>\<open>break\<close> leaves the \<^verbatim>\<open>select\<close> only, and when the
  client takes messages meanwhile a later event follows a skipped one.
\<close>

lemma replay_leaves_hole:
  "sent (replayTo (refRes [] []) (\<lambda>n. if n = 3 then 2 else 0)
     [newEvent 1 ''e1'' i [] [], newEvent 2 ''e2'' i [] [], newEvent 3 ''e3'' i [] []] \<lparr>chCap = 2, chQueue = [], chTaken = []\<rparr>) =
   [''start'', ''e1'', ''e3'', ''end'']"
  by (simp add: replayTo_def refRes_def eventMessage_def newEvent_def orNil_def takeFrom_def sendNow_def hasRoom_def sent_def)

section \<open>Witnesses\<close>

definition demoSession :: Session where
  "demoSession = NewSession 0 ''s'' ''c'' 86400000000000"

definition demoEvent :: "u64 \<Rightarrow> string \<Rightarrow> CachedEvent" where
  "demoEvent t v = newEvent t v ''s'' ''block'' ''p''"

definition demoJson :: resJson where
  "demoJson = refRes [demoSession, demoSession\<lparr>sesState := SessionStateDisconnected\<rparr>, Touch 5 demoSession]
     [demoEvent 1 ''a'', demoEvent 2 ''b'']"

definition demoManager :: "((bytes \<times> bytes) list) connManager" where
  "demoManager = NewConnectionManager (emptyStorage []) None (\<lambda>_. \<lparr>chCap = 0, chQueue = [], chTaken = []\<rparr>)"

lemma demoJson_resilience: "resilience memPebble map_of demoJson"
  unfolding demoJson_def by (rule refRes.resilience_axioms)

lemmas demo_run = demoManager_def NewConnectionManager_def emptyStorage_def DefaultConfig_def resDefaultConfig_def onConnStore_def
  guard_simps Put_def Get_def dbSet_def dbGet_def liftWrite_def memPebble_def andThen_def catch_def wrapping_def attempt_def fromOption_def Let_def
  demoJson_def refRes_def demoSession_def demoEvent_def NewSession_def newEvent_def SessionStateActive_def SessionStateDisconnected_def
  sessionKey_def sessionClientIndexKey_def sessionStateIndexKey_def cacheEventKey_def cacheIndexKey_def cacheSessionIndexPrefix_def
  Touch_def activate_def Session_IsExpired_def

definition demoConnected :: "((bytes \<times> bytes) list) connManager" where
  "demoConnected = activate demoSession 0 (demoManager\<lparr>cmStorage := emptyStorage
     [(sessionStateIndexKey SessionStateActive ''s'', ''s''), (sessionClientIndexKey ''c'', ''s''), (sessionKey ''s'', [])]\<rparr>)"

lemma demo_connect: "HandleConnect memPebble demoJson 0 ''s'' ''c'' 0 demoManager = (Inr demoSession, demoConnected)"
  by (simp add: HandleConnect_def GetByClientID_def newSession_def Session_Save_def demoConnected_def demo_run)

definition demoDelivered :: "((bytes \<times> bytes) list) connManager" where
  "demoDelivered = snd (DeliverEvent memPebble demoJson 2 ''b'' ''s'' ''block'' ''p''
     (snd (DeliverEvent memPebble demoJson 1 ''a'' ''s'' ''block'' ''p'' demoConnected)))"

lemma demo_store: "\<not> closed s \<Longrightarrow> \<not> ReadOnly (config s) \<Longrightarrow> marshalEvent J e = Some d \<Longrightarrow> ceID e \<noteq> [] \<Longrightarrow> ceTimestamp e = Some t \<Longrightarrow>
    Cache_Store memPebble J i now e s = (Inr e, s\<lparr>db := (cacheIndexKey (ceSessionID e) t (ceID e), ceID e) #
      (cacheEventKey (ceSessionID e) (ceID e), d) # db s\<rparr>)"
  by (cases e) (simp add: Cache_Store_def guard_simps Put_def dbSet_def liftWrite_def memPebble_def andThen_def catch_def wrapping_def fromOption_def Let_def)

lemma demo_deliver:
  assumes "\<not> closed (cmStorage m)" "\<not> ReadOnly (config (cmStorage m))" "t = 1 \<and> v = ''a'' \<or> t = 2 \<and> v = ''b''" "\<forall>n. chCap (cmChans m n) = 0"
  shows "\<exists>m' cs. DeliverEvent memPebble demoJson t v ''s'' ''block'' ''p'' m = (Inr (), m') \<and>
    (\<exists>e. fst (Cache_Store memPebble demoJson v t (demoEvent t v) (cmStorage m)) = Inr e) \<and>
    cmStorage m' = (cmStorage m)\<lparr>db := cs @ db (cmStorage m)\<rparr> \<and> cmConfig m' = cmConfig m \<and> cmChans m' = cmChans m \<and>
    (\<forall>c\<in>set cs. HasPrefix (fst c) ''/rs/cache/'')"
proof -
  have "\<exists>d. marshalEvent demoJson (demoEvent t v) = Some d" using assms(3) by (auto simp: demo_run)
  then obtain d where d: "marshalEvent demoJson (demoEvent t v) = Some d" by blast
  have e: "ceID (demoEvent t v) \<noteq> []" "ceTimestamp (demoEvent t v) = Some t" "ceSessionID (demoEvent t v) = ''s''" "ceID (demoEvent t v) = v"
    using assms(3) by (auto simp: demoEvent_def)
  let ?cs = "[(cacheIndexKey ''s'' t v, v), (cacheEventKey ''s'' v, d)]"
  have c: "Cache_Store memPebble demoJson v t (demoEvent t v) (cmStorage m) =
      (Inr (demoEvent t v), (cmStorage m)\<lparr>db := ?cs @ db (cmStorage m)\<rparr>)"
    using demo_store [OF assms(1,2) d e(1,2), of v t] by (simp add: e)
  have p: "\<forall>c\<in>set ?cs. HasPrefix (fst c) ''/rs/cache/''"
    by (simp add: HasPrefix_def prefix_def cacheIndexKey_def cacheSessionIndexPrefix_def cacheEventKey_def)
  have msg: "eventMessage demoJson (demoEvent t v) False = Some v" by (simp add: eventMessage_def demoJson_def refRes_def demoEvent_def)
  have "\<exists>m'. DeliverEvent memPebble demoJson t v ''s'' ''block'' ''p'' m = (Inr (), m') \<and>
      cmStorage m' = (cmStorage m)\<lparr>db := ?cs @ db (cmStorage m)\<rparr> \<and> cmConfig m' = cmConfig m \<and> cmChans m' = cmChans m"
    using c msg assms(4) unfolding DeliverEvent_def demoEvent_def
    by (simp add: onConnStore_def Let_def hasRoom_def sendNow_def fun_upd_idem_iff split: option.splits)
  with c p show ?thesis by (metis fst_conv)
qed

text \<open>
  A run: a client connects, the events \<open>a\<close> and \<open>b\<close> find its channel full, and it resumes after \<open>a\<close>.
\<close>

lemma demo_delivered:
  "\<exists>m1 m2 cs. DeliverEvent memPebble demoJson 1 ''a'' ''s'' ''block'' ''p'' demoConnected = (Inr (), m1) \<and>
     (\<exists>e. fst (Cache_Store memPebble demoJson ''a'' 1 (demoEvent 1 ''a'') (cmStorage demoConnected)) = Inr e) \<and>
     DeliverEvent memPebble demoJson 2 ''b'' ''s'' ''block'' ''p'' m1 = (Inr (), m2) \<and>
     (\<exists>e. fst (Cache_Store memPebble demoJson ''b'' 2 (demoEvent 2 ''b'') (cmStorage m1)) = Inr e) \<and>
     cmStorage m2 = (cmStorage demoConnected)\<lparr>db := cs @ db (cmStorage demoConnected)\<rparr> \<and> cmConfig m2 = resDefaultConfig \<and>
     (\<forall>c\<in>set cs. HasPrefix (fst c) ''/rs/cache/'')"
proof -
  have s: "\<not> closed (cmStorage demoConnected)" "\<not> ReadOnly (config (cmStorage demoConnected))" "\<forall>n. chCap (cmChans demoConnected n) = 0"
    "cmConfig demoConnected = resDefaultConfig"
    by (simp_all add: demoConnected_def activate_def demoManager_def NewConnectionManager_def emptyStorage_def DefaultConfig_def)
  from demo_deliver [OF s(1,2) _ s(3), of 1 "''a''"] obtain m1 cs where
    1: "DeliverEvent memPebble demoJson 1 ''a'' ''s'' ''block'' ''p'' demoConnected = (Inr (), m1)"
    "\<exists>e. fst (Cache_Store memPebble demoJson ''a'' 1 (demoEvent 1 ''a'') (cmStorage demoConnected)) = Inr e"
    "cmStorage m1 = (cmStorage demoConnected)\<lparr>db := cs @ db (cmStorage demoConnected)\<rparr>" "cmConfig m1 = resDefaultConfig"
    "cmChans m1 = cmChans demoConnected" "\<forall>c\<in>set cs. HasPrefix (fst c) ''/rs/cache/''" using s(4) by auto
  have s1: "\<not> closed (cmStorage m1)" "\<not> ReadOnly (config (cmStorage m1))" "\<forall>n. chCap (cmChans m1 n) = 0" using 1 s by simp_all
  from demo_deliver [OF s1(1,2) _ s1(3), of 2 "''b''"] obtain m2 cs2 where
    2: "DeliverEvent memPebble demoJson 2 ''b'' ''s'' ''block'' ''p'' m1 = (Inr (), m2)"
    "\<exists>e. fst (Cache_Store memPebble demoJson ''b'' 2 (demoEvent 2 ''b'') (cmStorage m1)) = Inr e"
    "cmStorage m2 = (cmStorage m1)\<lparr>db := cs2 @ db (cmStorage m1)\<rparr>" "cmConfig m2 = resDefaultConfig"
    "\<forall>c\<in>set cs2. HasPrefix (fst c) ''/rs/cache/''" using 1(4) by auto
  show ?thesis
    by (intro exI [of _ m1] exI [of _ m2] exI [of _ "cs2 @ cs"]) (use 1 2 in auto)
qed

lemma demo_cache_empty: "cacheHolds demoJson (map_of (db (cmStorage demoManager))) ''s'' []"
  by (simp add: cacheHolds_def demoManager_def NewConnectionManager_def emptyStorage_def)

lemma demo_reconnect:
  assumes "cmStorage m = (cmStorage demoConnected)\<lparr>db := cs @ db (cmStorage demoConnected)\<rparr>" "\<forall>c\<in>set cs. HasPrefix (fst c) ''/rs/cache/''"
  shows "\<exists>missed m'. HandleReconnect memPebble demoJson (\<lambda>_. False) 5 ''s'' lst 0 m = (Inr (Touch 5 demoSession, missed), m')"
proof -
  let ?k = "sessionKey ''s''"
  have "map_of cs ?k = None"
    using assms(2) by (force simp: map_of_eq_None_iff HasPrefix_def prefix_def sessionKey_def)
  then have "map_of (db (cmStorage m)) ?k = Some []"
    by (simp add: assms(1) map_add_def demoConnected_def activate_def emptyStorage_def sessionKey_def sessionClientIndexKey_def sessionStateIndexKey_def)
  moreover have o: "\<not> closed (cmStorage m)" "\<not> ReadOnly (config (cmStorage m))"
    by (simp_all add: assms(1) demoConnected_def activate_def emptyStorage_def DefaultConfig_def)
  ultimately have g: "onConnStore (Session_Get memPebble demoJson 5 ''s'') m = (Inr demoSession, m)"
    by (simp add: onConnStore_def Session_Get_def andThen_def refRes.Session_load_eq [of _ "[demoSession, demoSession\<lparr>sesState := SessionStateDisconnected\<rparr>, Touch 5 demoSession]" "[demoEvent 1 ''a'', demoEvent 2 ''b'']", folded demoJson_def])
      (simp add: demoJson_def refRes_def Session_IsExpired_def demoSession_def NewSession_def)
  have st: "Touch 5 (demoSession\<lparr>sesState := SessionStateActive\<rparr>) = Touch 5 demoSession" by (simp add: Touch_def demoSession_def NewSession_def)
  have "\<exists>s. Session_Save memPebble demoJson (Touch 5 demoSession) (cmStorage m) = (Inr (), s)"
    using o by (simp add: Session_Save_def demo_run)
  then obtain s where "Session_Save memPebble demoJson (Touch 5 demoSession) (cmStorage m) = (Inr (), s)" by blast
  then have "onConnStore (Session_Save memPebble demoJson (Touch 5 demoSession)) m = (Inr (), m\<lparr>cmStorage := s\<rparr>)" by (simp add: onConnStore_def)
  with g st show ?thesis by (simp add: HandleReconnect_def andThen_def Let_def split: prod.splits sum.splits)
qed


theorem connect_resumes_session_witness:
  "\<exists>m2. HandleConnect memPebble demoJson 5 ''t'' ''c'' 1 (snd (HandleDisconnect memPebble demoJson ''s'' demoConnected)) = (Inr (Touch 5 demoSession), m2)"
proof -
  have i: "sesID demoSession = ''s''" "sesClientID demoSession = ''c''" by (simp_all add: demoSession_def NewSession_def)
  have k: "map_of (db (cmStorage demoConnected)) (sessionKey ''s'') = Some []"
    by (simp add: demoConnected_def activate_def emptyStorage_def sessionKey_def sessionClientIndexKey_def sessionStateIndexKey_def)
  have x: "sessionsIn demoJson (map_of (db (cmStorage demoConnected))) (sesID demoSession) = Some demoSession"
    using k by (simp add: i sessionsIn_def plainID_def demoJson_def refRes_def)
  have o: "\<not> closed (cmStorage demoConnected)" "\<not> ReadOnly (config (cmStorage demoConnected))"
    by (simp_all add: demoConnected_def activate_def emptyStorage_def DefaultConfig_def)
  have l: "Session_load memPebble demoJson ''s'' (cmStorage demoConnected) = (Inr demoSession, cmStorage demoConnected)"
    using resilience.Session_load_sessionsIn [OF demoJson_resilience o(1) x] by (simp add: i)
  have "UpdateState memPebble demoJson ''s'' SessionStateDisconnected (cmStorage demoConnected) =
      andThen (attempt (Delete memPebble (sessionStateIndexKey (sesState demoSession) ''s'')))
        (\<lambda>_. Session_Save memPebble demoJson (demoSession\<lparr>sesState := SessionStateDisconnected\<rparr>)) (cmStorage demoConnected)"
    unfolding UpdateState_def by (rule andThen_Inr) (rule l)
  then have u: "fst (UpdateState memPebble demoJson ''s'' SessionStateDisconnected (cmStorage demoConnected)) = Inr ()"
    using o by (simp add: Session_Save_def Delete_def dbDelete_def demo_run)
  have a: "asciiSession demoSession" by (simp add: demoSession_def NewSession_def asciiSession_def ascii_def SessionStateActive_def)
  have d: "HandleDisconnect memPebble demoJson (sesID demoSession) demoConnected =
      (fst (HandleDisconnect memPebble demoJson ''s'' demoConnected), snd (HandleDisconnect memPebble demoJson ''s'' demoConnected))"
    by (simp add: i)
  have n: "\<not> Session_IsExpired 5 demoSession" by (simp add: Session_IsExpired_def demoSession_def NewSession_def)
  have t: "demoSession\<lparr>sesState := SessionStateActive, sesLastSeen := 5\<rparr> = Touch 5 demoSession"
    by (simp add: Touch_def demoSession_def NewSession_def)
  from connect_resumes_session [OF demoJson_resilience o(1) x a _ d n, of "''t''" 1] u show ?thesis
    by (auto simp: i t)
qed

definition demoChannel :: "((bytes \<times> bytes) list) connManager" where
  "demoChannel = demoConnected\<lparr>cmChans := (\<lambda>_. \<lparr>chCap = 3, chQueue = [], chTaken = []\<rparr>)\<rparr>"

theorem ReplayEvents_in_order_witness:
  "\<exists>m'. ReplayEvents demoJson (\<lambda>_. 0) ''s'' [demoEvent 1 ''a''] demoChannel = (Inr (), m') \<and> sent (cmChans m' 0) = [''start'', ''a'', ''end'']"
proof -
  have "cmActive demoChannel ''s'' = Some \<lparr>asSession = demoSession, asConnected = True, asSendChan = 0\<rparr>"
    by (simp add: demoChannel_def demoConnected_def activate_def demoSession_def NewSession_def)
  from ReplayEvents_in_order [OF this, of "[demoEvent 1 ''a'']" demoJson "\<lambda>_. 0"] show ?thesis
    by (simp add: demoChannel_def eventMessage_def demoJson_def refRes_def demoEvent_def orNil_def sent_def)
qed

end
