(* ===== verification/RpcCache.thy ===== *)
theory RpcCache
  imports Prelude
begin

text \<open>
  The response cache of the RPC proxy (\<^verbatim>\<open>pkg/rpcproxy/cache.go\<close>): least-recently-used eviction
  with a time to live. The Go list of entries is the list of their keys, most recent first; an
  element pointer is the position of its key. Every method holds the cache's lock, so each is one
  step; the clock is an argument. The refinement shows that the map and the list together are one
  recency-ordered association list.
\<close>

section \<open>State\<close>

record 'v CacheEntry =
  ceKey :: string
  ceValue :: 'v
  ceExpiresAt :: gotime

record CacheConfig =
  cfMaxSize :: int
  cfDefaultTTL :: int
  cfImmutableTTL :: int
  cfBalanceTTL :: int
  cfTokenMetadataTTL :: int

record 'v Cache =
  maxSize :: int
  items :: "string \<Rightarrow> 'v CacheEntry option"
  lru :: "string list"
  cacheConfig :: CacheConfig
  hits :: int
  misses :: int
  evictions :: int

definition DefaultCacheConfig :: CacheConfig where
  "DefaultCacheConfig =
     \<lparr>cfMaxSize = 10000, cfDefaultTTL = 30 * 10 ^ 9, cfImmutableTTL = 24 * 3600 * 10 ^ 9,
      cfBalanceTTL = 15 * 10 ^ 9, cfTokenMetadataTTL = 24 * 3600 * 10 ^ 9\<rparr>"

section \<open>Operations\<close>

definition NewCache :: "CacheConfig option \<Rightarrow> 'v Cache" where
  "NewCache cfg = (let c = (case cfg of None \<Rightarrow> DefaultCacheConfig | Some c \<Rightarrow> c) in
     \<lparr>maxSize = cfMaxSize c, items = (\<lambda>_. None), lru = [], cacheConfig = c,
      hits = 0, misses = 0, evictions = 0\<rparr>)"

definition IsExpired :: "gotime \<Rightarrow> 'v CacheEntry \<Rightarrow> bool" where
  "IsExpired now e \<longleftrightarrow> now > ceExpiresAt e"

definition removeEntry :: "'v CacheEntry \<Rightarrow> 'v Cache \<Rightarrow> 'v Cache" where
  "removeEntry e c = c\<lparr>lru := remove1 (ceKey e) (lru c), items := (items c)(ceKey e := None)\<rparr>"

definition MoveToFront :: "string \<Rightarrow> 'v Cache \<Rightarrow> 'v Cache" where
  "MoveToFront k c = c\<lparr>lru := k # remove1 k (lru c)\<rparr>"

definition evictOldest :: "'v Cache \<Rightarrow> 'v Cache" where
  "evictOldest c =
     (if lru c = [] then c
      else case items c (last (lru c)) of
          None \<Rightarrow> c
        | Some e \<Rightarrow> (removeEntry e c)\<lparr>evictions := evictions c + 1\<rparr>)"

definition Cache_Get :: "gotime \<Rightarrow> string \<Rightarrow> 'v Cache \<Rightarrow> 'v option \<times> 'v Cache" where
  "Cache_Get now key c =
     (case items c key of
        None \<Rightarrow> (None, c\<lparr>misses := misses c + 1\<rparr>)
      | Some e \<Rightarrow>
          if IsExpired now e
          then (let c' = removeEntry e c in (None, c'\<lparr>misses := misses c' + 1\<rparr>))
          else (let c' = MoveToFront key c in (Some (ceValue e), c'\<lparr>hits := hits c' + 1\<rparr>)))"

text \<open>The eviction loop of \<^verbatim>\<open>Set\<close>; a loop that does not end is \<open>None\<close>.\<close>

partial_function (option) evictLoop :: "'v Cache \<Rightarrow> 'v Cache option" where
  "evictLoop c = (if int (length (lru c)) \<ge> maxSize c then evictLoop (evictOldest c) else Some c)"

definition Cache_Set :: "gotime \<Rightarrow> string \<Rightarrow> 'v \<Rightarrow> int \<Rightarrow> 'v Cache \<Rightarrow> 'v Cache option" where
  "Cache_Set now key v ttl c =
     (case items c key of
        Some e \<Rightarrow>
          Some (MoveToFront key
            (c\<lparr>items := (items c)(key := Some (e\<lparr>ceValue := v, ceExpiresAt := now + ttl\<rparr>))\<rparr>))
      | None \<Rightarrow>
          (case evictLoop c of
             None \<Rightarrow> None
           | Some c' \<Rightarrow>
               Some (c'\<lparr>lru := key # lru c',
                  items := (items c')(key := Some \<lparr>ceKey = key, ceValue = v, ceExpiresAt = now + ttl\<rparr>)\<rparr>)))"

definition SetWithDefaultTTL :: "gotime \<Rightarrow> string \<Rightarrow> 'v \<Rightarrow> 'v Cache \<Rightarrow> 'v Cache option" where
  "SetWithDefaultTTL now key v c = Cache_Set now key v (cfDefaultTTL (cacheConfig c)) c"

definition SetImmutable :: "gotime \<Rightarrow> string \<Rightarrow> 'v \<Rightarrow> 'v Cache \<Rightarrow> 'v Cache option" where
  "SetImmutable now key v c = Cache_Set now key v (cfImmutableTTL (cacheConfig c)) c"

definition SetBalance :: "gotime \<Rightarrow> string \<Rightarrow> 'v \<Rightarrow> 'v Cache \<Rightarrow> 'v Cache option" where
  "SetBalance now key v c = Cache_Set now key v (cfBalanceTTL (cacheConfig c)) c"

definition SetTokenMetadata :: "gotime \<Rightarrow> string \<Rightarrow> 'v \<Rightarrow> 'v Cache \<Rightarrow> 'v Cache option" where
  "SetTokenMetadata now key v c = Cache_Set now key v (cfTokenMetadataTTL (cacheConfig c)) c"

definition Cache_Delete :: "string \<Rightarrow> 'v Cache \<Rightarrow> 'v Cache" where
  "Cache_Delete key c = (case items c key of None \<Rightarrow> c | Some e \<Rightarrow> removeEntry e c)"

definition Cache_Clear :: "'v Cache \<Rightarrow> 'v Cache" where
  "Cache_Clear c = c\<lparr>items := (\<lambda>_. None), lru := []\<rparr>"

definition Cache_Size :: "'v Cache \<Rightarrow> nat" where
  "Cache_Size c = card (dom (items c))"

definition Cache_Stats :: "'v Cache \<Rightarrow> int \<times> int \<times> int \<times> nat" where
  "Cache_Stats c = (hits c, misses c, evictions c, card (dom (items c)))"

text \<open>
  \<^verbatim>\<open>cleanup\<close> ranges over the map in an unspecified order and removes the expired entries; the
  order does not matter, so the loop runs over the keys in list order.
\<close>

fun cleanupLoop :: "gotime \<Rightarrow> string list \<Rightarrow> 'v Cache \<Rightarrow> 'v Cache" where
  "cleanupLoop now [] c = c"
| "cleanupLoop now (k # ks) c =
     (case items c k of
        None \<Rightarrow> cleanupLoop now ks c
      | Some e \<Rightarrow>
          if now > ceExpiresAt e then cleanupLoop now ks (removeEntry e c) else cleanupLoop now ks c)"

definition cleanup :: "gotime \<Rightarrow> 'v Cache \<Rightarrow> 'v Cache" where
  "cleanup now c = cleanupLoop now (lru c) c"

text \<open>\<open>fn\<close> is the result of the callback: an error, or a value.\<close>

definition GetOrSet :: "gotime \<Rightarrow> gotime \<Rightarrow> string \<Rightarrow> int \<Rightarrow> 'e + 'v \<Rightarrow> 'v Cache \<Rightarrow>
    (('e + 'v \<times> bool) \<times> 'v Cache) option" where
  "GetOrSet now now' key ttl fn c =
     (case Cache_Get now key c of
        (Some v, c') \<Rightarrow> Some (Inr (v, True), c')
      | (None, c') \<Rightarrow>
          (case fn of
             Inl e \<Rightarrow> Some (Inl e, c')
           | Inr v \<Rightarrow>
               (case Cache_Set now' key v ttl c' of
                  None \<Rightarrow> None
                | Some c'' \<Rightarrow> Some (Inr (v, False), c''))))"

section \<open>Cache keys\<close>

definition key_ContractCall :: "string \<Rightarrow> string \<Rightarrow> string \<Rightarrow> string \<Rightarrow> string" where
  "key_ContractCall p address method params = p @ '':contract:'' @ address @ '':'' @ method @ '':'' @ params"

definition key_TransactionStatus :: "string \<Rightarrow> string \<Rightarrow> string" where
  "key_TransactionStatus p txHash = p @ '':txstatus:'' @ txHash"

definition key_InternalTransactions :: "string \<Rightarrow> string \<Rightarrow> string" where
  "key_InternalTransactions p txHash = p @ '':internaltx:'' @ txHash"

definition key_TokenMetadata :: "string \<Rightarrow> string \<Rightarrow> string \<Rightarrow> string" where
  "key_TokenMetadata p address field = p @ '':token:'' @ address @ '':'' @ field"

definition key_Balance :: "string \<Rightarrow> string \<Rightarrow> string \<Rightarrow> string" where
  "key_Balance p address block = p @ '':balance:'' @ address @ '':'' @ block"

definition key_Nonce :: "string \<Rightarrow> string \<Rightarrow> string \<Rightarrow> string" where
  "key_Nonce p address block = p @ '':nonce:'' @ address @ '':'' @ block"

definition key_Code :: "string \<Rightarrow> string \<Rightarrow> string \<Rightarrow> string" where
  "key_Code p address block = p @ '':code:'' @ address @ '':'' @ block"

section \<open>Invariant and abstraction\<close>

definition cache_inv :: "'v Cache \<Rightarrow> bool" where
  "cache_inv c \<longleftrightarrow> distinct (lru c) \<and> set (lru c) = dom (items c) \<and>
     (\<forall>k e. items c k = Some e \<longrightarrow> ceKey e = k) \<and>
     int (length (lru c)) \<le> maxSize c \<and> 0 < maxSize c"

definition absEntry :: "'v Cache \<Rightarrow> string \<Rightarrow> string \<times> 'v \<times> gotime" where
  "absEntry c k = (k, ceValue (the (items c k)), ceExpiresAt (the (items c k)))"

definition absCache :: "'v Cache \<Rightarrow> (string \<times> 'v \<times> gotime) list" where
  "absCache c = map (absEntry c) (lru c)"

text \<open>The specification: one association list, most recently used first.\<close>

definition spec_remove :: "string \<Rightarrow> (string \<times> 'v \<times> gotime) list \<Rightarrow> (string \<times> 'v \<times> gotime) list" where
  "spec_remove k xs = filter (\<lambda>e. fst e \<noteq> k) xs"

definition spec_get :: "gotime \<Rightarrow> string \<Rightarrow> (string \<times> 'v \<times> gotime) list \<Rightarrow>
    'v option \<times> (string \<times> 'v \<times> gotime) list" where
  "spec_get now k xs =
     (case map_of xs k of
        None \<Rightarrow> (None, xs)
      | Some (v, t) \<Rightarrow>
          if now > t then (None, spec_remove k xs) else (Some v, (k, v, t) # spec_remove k xs))"

definition spec_set :: "nat \<Rightarrow> string \<Rightarrow> 'v \<Rightarrow> gotime \<Rightarrow> (string \<times> 'v \<times> gotime) list \<Rightarrow>
    (string \<times> 'v \<times> gotime) list" where
  "spec_set n k v t xs =
     (k, v, t) # (if k \<in> fst ` set xs then spec_remove k xs else take (n - 1) xs)"

lemma cache_invI [inv_intros]:
  "distinct (lru c) \<Longrightarrow> set (lru c) = dom (items c) \<Longrightarrow>
   (\<And>k e. items c k = Some e \<Longrightarrow> ceKey e = k) \<Longrightarrow>
   int (length (lru c)) \<le> maxSize c \<Longrightarrow> 0 < maxSize c \<Longrightarrow> cache_inv c"
  by (simp add: cache_inv_def)

lemma cache_inv_key: "cache_inv c \<Longrightarrow> items c k = Some e \<Longrightarrow> ceKey e = k"
  by (simp add: cache_inv_def)

lemma cache_inv_mem: "cache_inv c \<Longrightarrow> k \<in> set (lru c) \<longleftrightarrow> items c k \<noteq> None"
  by (auto simp: cache_inv_def dom_def)

lemma map_of_absCache:
  "cache_inv c \<Longrightarrow> map_of (absCache c) k = map_option (\<lambda>e. (ceValue e, ceExpiresAt e)) (items c k)"
proof -
  assume inv: "cache_inv c"
  have "map_of (map (absEntry c) ks) k =
      (if k \<in> set ks then Some (ceValue (the (items c k)), ceExpiresAt (the (items c k))) else None)" for ks
    by (induction ks) (auto simp: absEntry_def)
  then show ?thesis
    using cache_inv_mem [OF inv, of k] by (auto simp: absCache_def)
qed

lemma keys_absCache: "fst ` set (absCache c) = set (lru c)"
  by (simp add: absCache_def absEntry_def image_image)

lemma remove1_distinct: "distinct xs \<Longrightarrow> remove1 k xs = filter (\<lambda>x. x \<noteq> k) xs"
  by (induction xs) (auto intro!: filter_True [symmetric])

lemma absCache_filter:
  "(\<And>k. k \<in> set ks \<Longrightarrow> items c' k = items c k) \<Longrightarrow> map (absEntry c') ks = map (absEntry c) ks"
  by (auto simp: absEntry_def)

text \<open>Removing an entry, as the methods do it.\<close>

lemma removeEntry_inv:
  assumes "cache_inv c" "items c k = Some e"
  shows "cache_inv (removeEntry e c)" "absCache (removeEntry e c) = spec_remove k (absCache c)"
proof -
  have k: "ceKey e = k" using assms by (rule cache_inv_key)
  have d: "distinct (lru c)" using assms(1) by (simp add: cache_inv_def)
  have "length (remove1 k (lru c)) \<le> length (lru c)" by (simp add: length_remove1)
  then show "cache_inv (removeEntry e c)"
    using assms(1) k d by (auto simp: cache_inv_def removeEntry_def split: if_splits)
  show "absCache (removeEntry e c) = spec_remove k (absCache c)"
    using d k
    by (simp add: absCache_def spec_remove_def removeEntry_def remove1_distinct filter_map o_def
        absEntry_def)
qed

lemma removeEntry_fields [simp]:
  "maxSize (removeEntry e c) = maxSize c" "misses (removeEntry e c) = misses c"
  "hits (removeEntry e c) = hits c" "evictions (removeEntry e c) = evictions c"
  by (simp_all add: removeEntry_def)

lemma counters_irrelevant [simp]:
  "absCache (c\<lparr>misses := n\<rparr>) = absCache c" "absCache (c\<lparr>hits := n\<rparr>) = absCache c"
  "absCache (c\<lparr>evictions := n\<rparr>) = absCache c"
  "cache_inv (c\<lparr>misses := n\<rparr>) = cache_inv c" "cache_inv (c\<lparr>hits := n\<rparr>) = cache_inv c"
  "cache_inv (c\<lparr>evictions := n\<rparr>) = cache_inv c"
  by (simp_all add: absCache_def absEntry_def cache_inv_def)

lemma Suc_length_remove1: "k \<in> set xs \<Longrightarrow> Suc (length (remove1 k xs)) = length xs"
  by (induction xs) auto

text \<open>Eviction: at most one entry leaves, the least recently used one.\<close>

lemma evictLoop_inv:
  assumes "cache_inv c"
  shows "\<exists>c'. evictLoop c = Some c' \<and> distinct (lru c') \<and> set (lru c') = dom (items c') \<and>
    (\<forall>k e. items c' k = Some e \<longrightarrow> ceKey e = k) \<and> maxSize c' = maxSize c \<and>
    lru c' = take (nat (maxSize c) - 1) (lru c) \<and>
    (\<forall>k\<in>set (lru c'). items c' k = items c k) \<and> dom (items c') \<subseteq> dom (items c)"
proof (cases "int (length (lru c)) \<ge> maxSize c")
  case False
  then have "length (lru c) \<le> nat (maxSize c) - 1" using assms by (simp add: cache_inv_def)
  with False assms show ?thesis
    by (intro exI [of _ c]) (simp add: evictLoop.simps cache_inv_def)
next
  case True
  then have len: "length (lru c) = nat (maxSize c)" "lru c \<noteq> []"
    using assms by (auto simp: cache_inv_def)
  then obtain e where e: "items c (last (lru c)) = Some e"
    using assms cache_inv_mem [OF assms, of "last (lru c)"] by auto
  let ?c = "(removeEntry e c)\<lparr>evictions := evictions c + 1\<rparr>"
  have key: "ceKey e = last (lru c)" using assms e by (rule cache_inv_key)
  have d: "distinct (lru c)" and maxpos: "0 < maxSize c" using assms by (simp_all add: cache_inv_def)
  have "lru c = butlast (lru c) @ [last (lru c)]" using len(2) by simp
  then have l: "remove1 (last (lru c)) (lru c) = butlast (lru c)"
    using d by (metis append_Nil2 distinct_append disjoint_iff list.set_intros(1) remove1.simps(2)
        remove1_append)
  have "evictLoop c = evictLoop ?c"
    using True e len(2) by (simp add: evictLoop.simps [of c] evictOldest_def)
  also have "\<dots> = Some ?c"
    using len l key maxpos by (subst evictLoop.simps) (auto simp: removeEntry_def)
  finally have run: "evictLoop c = Some ?c" .
  have inv: "cache_inv ?c"
    using removeEntry_inv(1) [OF assms e] by simp
  have "lru ?c = take (nat (maxSize c) - 1) (lru c)"
    using len l key by (simp add: removeEntry_def butlast_conv_take)
  moreover have it: "items ?c = (items c)(last (lru c) := None)" by (simp add: removeEntry_def key)
  then have "\<forall>k\<in>set (lru ?c). items ?c k = items c k"
    using cache_inv_mem [OF inv] by (metis fun_upd_apply)
  moreover have "dom (items ?c) \<subseteq> dom (items c)" using it by (simp add: dom_def) blast
  moreover have "distinct (lru ?c)" "set (lru ?c) = dom (items ?c)" "\<forall>k e. items ?c k = Some e \<longrightarrow> ceKey e = k"
    using inv by (simp_all add: cache_inv_def)
  ultimately show ?thesis using run by (intro exI [of _ ?c]) simp
qed

section \<open>Every operation refines its specification\<close>

lemma Cache_Get_ref:
  assumes "cache_inv c"
  shows "cache_inv (snd (Cache_Get now k c)) \<and>
    (fst (Cache_Get now k c), absCache (snd (Cache_Get now k c))) = spec_get now k (absCache c)"
proof (cases "items c k")
  case None
  then show ?thesis
    using assms map_of_absCache [OF assms, of k]
    by (simp add: Cache_Get_def spec_get_def)
next
  case (Some e)
  note m = map_of_absCache [OF assms, of k]
  show ?thesis
  proof (cases "now > ceExpiresAt e")
    case True
    with Some m removeEntry_inv [OF assms Some] show ?thesis
      by (simp add: Cache_Get_def spec_get_def IsExpired_def Let_def)
  next
    case False
    have d: "distinct (lru c)" and mem: "k \<in> set (lru c)"
      using assms Some cache_inv_mem [OF assms, of k] by (simp_all add: cache_inv_def)
    have "Suc (length (remove1 k (lru c))) = length (lru c)"
      using mem by (rule Suc_length_remove1)
    then have "cache_inv (MoveToFront k c)"
      using assms d mem by (auto simp: cache_inv_def MoveToFront_def)
    moreover have "absCache (MoveToFront k c) = (k, ceValue e, ceExpiresAt e) # spec_remove k (absCache c)"
      using d Some
      by (simp add: absCache_def spec_remove_def MoveToFront_def remove1_distinct filter_map o_def
          absEntry_def)
    ultimately show ?thesis
      using Some m False
      by (simp add: Cache_Get_def spec_get_def IsExpired_def Let_def)
  qed
qed

lemma Cache_Get_fst:
  "cache_inv c \<Longrightarrow> fst (Cache_Get now k c) = fst (spec_get now k (absCache c))"
  using Cache_Get_ref [of c now k] by (metis fst_conv)

lemma spec_get_set:
  "fst (spec_get now k (spec_set n k v t xs)) = (if now > t then None else Some v)"
  by (simp add: spec_get_def spec_set_def)

lemma Cache_Set_ref:
  assumes "cache_inv c"
  shows "\<exists>c'. Cache_Set now k v ttl c = Some c' \<and> cache_inv c' \<and>
    absCache c' = spec_set (nat (maxSize c)) k v (now + ttl) (absCache c) \<and> maxSize c' = maxSize c"
proof (cases "items c k")
  case (Some e)
  let ?c = "MoveToFront k
      (c\<lparr>items := (items c)(k := Some (e\<lparr>ceValue := v, ceExpiresAt := now + ttl\<rparr>))\<rparr>)"
  have d: "distinct (lru c)" and mem: "k \<in> set (lru c)" and key: "ceKey e = k"
    using assms Some cache_inv_mem [OF assms, of k] cache_inv_key [OF assms Some]
    by (simp_all add: cache_inv_def)
  have "Suc (length (remove1 k (lru c))) = length (lru c)"
    using mem by (rule Suc_length_remove1)
  then have "cache_inv ?c"
    using assms d mem key by (auto simp: cache_inv_def MoveToFront_def)
  moreover have "absCache ?c = (k, v, now + ttl) # spec_remove k (absCache c)"
    using d
    by (auto simp: absCache_def spec_remove_def MoveToFront_def remove1_distinct filter_map o_def
        absEntry_def)
  ultimately show ?thesis
    using Some mem by (simp add: Cache_Set_def spec_set_def keys_absCache MoveToFront_def)
next
  case None
  obtain c1 where c1: "evictLoop c = Some c1" "distinct (lru c1)" "set (lru c1) = dom (items c1)"
    "\<forall>k e. items c1 k = Some e \<longrightarrow> ceKey e = k" "maxSize c1 = maxSize c"
    "lru c1 = take (nat (maxSize c) - 1) (lru c)" "\<forall>k\<in>set (lru c1). items c1 k = items c k"
    "dom (items c1) \<subseteq> dom (items c)"
    using evictLoop_inv [OF assms] by blast
  let ?c = "c1\<lparr>lru := k # lru c1,
      items := (items c1)(k := Some \<lparr>ceKey = k, ceValue = v, ceExpiresAt = now + ttl\<rparr>)\<rparr>"
  have fresh: "k \<notin> set (lru c1)" "k \<notin> set (lru c)"
    using c1(3,8) None cache_inv_mem [OF assms, of k] by auto
  have "cache_inv ?c"
  proof (rule cache_invI)
    show "int (length (lru ?c)) \<le> maxSize ?c" "0 < maxSize ?c"
      using c1(5,6) assms by (auto simp: cache_inv_def)
    show "ceKey e = k'" if "items ?c k' = Some e" for k' e
      using that c1(4) by (auto split: if_splits)
  qed (use c1(2,3) fresh in auto)
  moreover have "absCache ?c = (k, v, now + ttl) # map (absEntry c) (lru c1)"
    using c1(7) fresh by (auto simp: absCache_def absEntry_def)
  then have "absCache ?c = (k, v, now + ttl) # take (nat (maxSize c) - 1) (absCache c)"
    using c1(6) by (simp add: absCache_def take_map)
  ultimately show ?thesis
    using None c1(1,5) fresh by (simp add: Cache_Set_def spec_set_def keys_absCache)
qed

lemma cleanupLoop_ref:
  assumes "cache_inv c"
  shows "cache_inv (cleanupLoop now ks c) \<and> absCache (cleanupLoop now ks c) =
    filter (\<lambda>(k, v, t). k \<in> set ks \<longrightarrow> \<not> now > t) (absCache c)"
  using assms
proof (induction ks arbitrary: c)
  case (Cons k ks)
  have mem: "(a, v, t) \<in> set (absCache c) \<longleftrightarrow>
      (\<exists>e. items c a = Some e \<and> v = ceValue e \<and> t = ceExpiresAt e)" for a v t
    using cache_inv_mem [OF Cons.prems, of a] by (auto simp: absCache_def absEntry_def)
  show ?case
  proof (cases "\<exists>e. items c k = Some e \<and> now > ceExpiresAt e")
    case True
    then obtain e where e: "items c k = Some e" "now > ceExpiresAt e" by blast
    note r = removeEntry_inv [OF Cons.prems e(1)]
    have "filter (\<lambda>(a, v, t). a \<in> set ks \<longrightarrow> \<not> now > t) (spec_remove k (absCache c)) =
        filter (\<lambda>(a, v, t). a \<in> set (k # ks) \<longrightarrow> \<not> now > t) (absCache c)"
      unfolding spec_remove_def filter_filter using e mem by (intro filter_cong) auto
    with Cons.IH [OF r(1)] r(2) e show ?thesis by simp
  next
    case False
    then have "cleanupLoop now (k # ks) c = cleanupLoop now ks c" by (auto split: option.splits)
    moreover have "filter (\<lambda>(a, v, t). a \<in> set ks \<longrightarrow> \<not> now > t) (absCache c) =
        filter (\<lambda>(a, v, t). a \<in> set (k # ks) \<longrightarrow> \<not> now > t) (absCache c)"
      using False mem by (intro filter_cong) auto
    ultimately show ?thesis using Cons.IH [OF Cons.prems] by simp
  qed
qed simp

section \<open>Properties\<close>

text \<open>
  C33: \<^verbatim>\<open>Set\<close> returns, keeps the invariant (the map and the list hold the same keys, at most
  \<^verbatim>\<open>maxSize\<close> of them), and is an LRU insertion: the key comes to the front with its new value and
  expiry; an existing key only moves; a new key drops the least recently used entries beyond the
  size, which is at most one.
\<close>

theorem Cache_Set_refines_lru:
  assumes "cache_inv c"
  shows "\<exists>c'. Cache_Set now k v ttl c = Some c' \<and> cache_inv c' \<and>
    absCache c' = spec_set (nat (maxSize c)) k v (now + ttl) (absCache c) \<and>
    length (absCache c') \<le> nat (maxSize c)"
proof -
  obtain c' where "Cache_Set now k v ttl c = Some c'" "cache_inv c'" "maxSize c' = maxSize c"
    "absCache c' = spec_set (nat (maxSize c)) k v (now + ttl) (absCache c)"
    using Cache_Set_ref [OF assms] by blast
  then show ?thesis by (auto simp: cache_inv_def absCache_def)
qed

definition sampleCache :: "nat Cache" where
  "sampleCache = (NewCache (Some (DefaultCacheConfig\<lparr>cfMaxSize := 2\<rparr>)))
     \<lparr>lru := [''b'', ''a''], items := [''a'' \<mapsto> \<lparr>ceKey = ''a'', ceValue = 1, ceExpiresAt = 50\<rparr>,
        ''b'' \<mapsto> \<lparr>ceKey = ''b'', ceValue = 2, ceExpiresAt = 60\<rparr>]\<rparr>"

lemma sampleCache_inv: "cache_inv sampleCache"
  by (auto simp: cache_inv_def sampleCache_def NewCache_def split: if_splits)

lemma sampleCache_abs: "absCache sampleCache = [(''b'', 2, 60), (''a'', 1, 50)]"
  by (simp add: absCache_def absEntry_def sampleCache_def)

theorem Cache_Set_refines_lru_witness:
  "\<exists>c'. Cache_Set 10 ''c'' 3 5 sampleCache = Some c' \<and> cache_inv c' \<and>
     absCache c' = [(''c'', 3, 15), (''b'', 2, 60)]"
proof -
  have "nat (maxSize sampleCache) = 2" by (simp add: sampleCache_def NewCache_def)
  with Cache_Set_refines_lru [OF sampleCache_inv, of 10 "''c''" 3 5] show ?thesis
    by (auto simp: sampleCache_abs spec_set_def)
qed

text \<open>
  \<^verbatim>\<open>Get\<close> keeps the invariant and is the lookup of the specification: a live entry is returned
  and becomes the most recent, an expired one is removed and reported missing, a missing key
  changes nothing.
\<close>

theorem Cache_Get_refines_lru:
  assumes "cache_inv c"
  shows "cache_inv (snd (Cache_Get now k c)) \<and>
    (fst (Cache_Get now k c), absCache (snd (Cache_Get now k c))) = spec_get now k (absCache c)"
  using assms by (rule Cache_Get_ref)

theorem Cache_Get_refines_lru_witness:
  "fst (Cache_Get 55 ''b'' sampleCache) = Some 2 \<and> fst (Cache_Get 55 ''a'' sampleCache) = None \<and>
   absCache (snd (Cache_Get 55 ''a'' sampleCache)) = [(''b'', 2, 60)]"
  using Cache_Get_refines_lru [OF sampleCache_inv, of 55 "''b''"]
    Cache_Get_refines_lru [OF sampleCache_inv, of 55 "''a''"]
  by (simp add: sampleCache_abs spec_get_def spec_remove_def)

text \<open>
  What was set is read back until it expires. Right after \<^verbatim>\<open>Set\<close> the key gives its value at
  every time up to the expiry and nothing after it, and \<^verbatim>\<open>GetOrSet\<close> on a live key returns the
  cached value without the callback's.
\<close>

theorem Cache_get_after_set:
  assumes "cache_inv c" "Cache_Set now k v ttl c = Some c'"
  shows "fst (Cache_Get now' k c') = (if now' > now + ttl then None else Some v)
    \<and> (now' \<le> now + ttl \<longrightarrow> map_option fst (GetOrSet now' now'' k ttl' fn c') = Some (Inr (v, True)))"
proof -
  from Cache_Set_ref [OF assms(1), of now k v ttl] assms(2)
  have inv: "cache_inv c'" and a: "absCache c' = spec_set (nat (maxSize c)) k v (now + ttl) (absCache c)"
    by auto
  have g: "fst (Cache_Get now' k c') = (if now' > now + ttl then None else Some v)"
    by (simp add: Cache_Get_fst [OF inv] a spec_get_set)
  moreover have "map_option fst (GetOrSet now' now'' k ttl' fn c') = Some (Inr (v, True))"
    if "now' \<le> now + ttl"
    using g that by (cases "Cache_Get now' k c'") (simp add: GetOrSet_def)
  ultimately show ?thesis by blast
qed

theorem Cache_get_after_set_witness:
  "\<exists>c'. Cache_Set 10 ''c'' 3 5 sampleCache = Some c' \<and> fst (Cache_Get 15 ''c'' c') = Some 3 \<and>
     fst (Cache_Get 16 ''c'' c') = None"
proof -
  obtain c' where c': "Cache_Set 10 ''c'' 3 5 sampleCache = Some c'"
    using Cache_Set_ref [OF sampleCache_inv] by blast
  from Cache_get_after_set [OF sampleCache_inv c', of 15] Cache_get_after_set [OF sampleCache_inv c', of 16]
  show ?thesis using c' by auto
qed

text \<open>
  \<^verbatim>\<open>Delete\<close> removes exactly its key, \<^verbatim>\<open>Clear\<close> everything and \<^verbatim>\<open>cleanup\<close> exactly the expired
  entries, each in the order of recency of what is left; all keep the invariant, and a new cache
  of positive size has it.
\<close>

theorem Cache_maintenance:
  assumes "cache_inv c"
  shows "cache_inv (Cache_Delete k c) \<and> absCache (Cache_Delete k c) = spec_remove k (absCache c)
    \<and> cache_inv (Cache_Clear c) \<and> absCache (Cache_Clear c) = []
    \<and> cache_inv (cleanup now c)
    \<and> absCache (cleanup now c) = filter (\<lambda>(k, v, t). \<not> now > t) (absCache c)"
proof -
  have "cache_inv (Cache_Delete k c) \<and> absCache (Cache_Delete k c) = spec_remove k (absCache c)"
  proof (cases "items c k")
    case None
    then have "\<forall>e\<in>set (absCache c). fst e \<noteq> k"
      using cache_inv_mem [OF assms, of k] by (auto simp: absCache_def absEntry_def)
    with None assms show ?thesis by (simp add: Cache_Delete_def spec_remove_def)
  next
    case (Some e)
    with removeEntry_inv [OF assms Some] show ?thesis by (simp add: Cache_Delete_def)
  qed
  moreover have "cache_inv (Cache_Clear c) \<and> absCache (Cache_Clear c) = []"
    using assms by (simp add: cache_inv_def Cache_Clear_def absCache_def)
  moreover have "filter (\<lambda>(k, v, t). k \<in> set (lru c) \<longrightarrow> \<not> now > t) (absCache c) =
      filter (\<lambda>(k, v, t). \<not> now > t) (absCache c)"
    by (intro filter_cong) (auto simp: absCache_def absEntry_def)
  ultimately show ?thesis
    using cleanupLoop_ref [OF assms, of now "lru c"] by (simp add: cleanup_def)
qed

theorem Cache_maintenance_witness:
  "absCache (cleanup 55 sampleCache) = [(''b'', 2, 60)] \<and>
   absCache (Cache_Delete ''b'' sampleCache) = [(''a'', 1, 50)]"
  using Cache_maintenance [OF sampleCache_inv, of "''b''" 55]
  by (simp add: sampleCache_abs spec_remove_def)

lemma NewCache_inv: "0 < cfMaxSize cfg \<Longrightarrow> cache_inv (NewCache (Some cfg))"
  by (simp add: NewCache_def cache_inv_def)

text \<open>With a size of zero or less the eviction loop of \<^verbatim>\<open>Set\<close> never ends: a new key hangs, lock held.\<close>

lemma evictLoop_nonpositive_hangs:
  assumes "maxSize c \<le> 0"
  shows "evictLoop c = None"
proof -
  have "maxSize c > 0" if "evictLoop c = Some c'" for c'
  proof (rule evictLoop.raw_induct [of "\<lambda>c _. maxSize c > 0", OF _ that])
    fix loop :: "'a Cache \<Rightarrow> 'a Cache option" and c y
    assume IH: "\<And>c y. loop c = Some y \<Longrightarrow> 0 < maxSize c"
      and "(if int (length (lru c)) \<ge> maxSize c then loop (evictOldest c) else Some c) = Some y"
    then consider "0 < maxSize (evictOldest c)" | "int (length (lru c)) < maxSize c"
      by (auto split: if_splits)
    moreover have "maxSize (evictOldest c) = maxSize c"
      by (simp add: evictOldest_def split: option.splits)
    ultimately show "0 < maxSize c" by cases auto
  qed
  with assms show ?thesis by (cases "evictLoop c") auto
qed

text \<open>
  \<^verbatim>\<open>GetOrSet\<close> is called atomic, but takes the lock twice: two callers that both look first run
  both callbacks, and the second overwrites the value the first returned.
\<close>

lemma GetOrSet_not_atomic:
  assumes "cache_inv c" "items c k = None"
  shows "\<exists>c1 c2 c3 c4. Cache_Get now k c = (None, c1) \<and> Cache_Get now k c1 = (None, c2) \<and>
    Cache_Set now k v ttl c2 = Some c3 \<and> Cache_Set now k w ttl c3 = Some c4 \<and>
    (0 \<le> ttl \<longrightarrow> fst (Cache_Get now k c4) = Some w)"
proof -
  let ?c1 = "c\<lparr>misses := misses c + 1\<rparr>" and ?c2 = "c\<lparr>misses := misses c + 2\<rparr>"
  have 1: "Cache_Get now k c = (None, ?c1)" "Cache_Get now k ?c1 = (None, ?c2)"
    using assms(2) by (simp_all add: Cache_Get_def)
  obtain c3 where c3: "Cache_Set now k v ttl ?c2 = Some c3" "cache_inv c3"
    using Cache_Set_ref [of ?c2 now k v ttl] assms(1) by auto
  obtain c4 where c4: "Cache_Set now k w ttl c3 = Some c4" "cache_inv c4"
    "absCache c4 = spec_set (nat (maxSize c3)) k w (now + ttl) (absCache c3)"
    using Cache_Set_ref [OF c3(2)] by blast
  have "fst (Cache_Get now k c4) = (if now > now + ttl then None else Some w)"
    by (simp add: Cache_Get_fst [OF c4(2)] c4(3) spec_get_set)
  with 1 c3 c4 show ?thesis by auto
qed

end
