(* ===== verification/RpcQueue.thy ===== *)
theory RpcQueue
  imports Prelude "HOL-Library.Multiset" "HOL-Library.Product_Lexorder"
begin

text \<open>
  The request queue of the RPC proxy (\<^verbatim>\<open>pkg/rpcproxy/queue.go\<close>): a binary heap ordered by
  priority and then by age, bounded in size. The heap algorithms are those of the standard
  library's \<^verbatim>\<open>container/heap\<close>, on the slice of requests. Every method holds the queue's lock, so
  each is one step. The contract of a priority queue is the locale \<open>min_queue\<close>, which the heap is
  shown to meet.
\<close>

section \<open>Requests and their order\<close>

text \<open>A request carries its priority (lower is more urgent) and the time it was created.\<close>

record Request =
  reqID :: string
  reqPriority :: int
  reqCreatedAt :: gotime
  reqTimeout :: int

definition PriorityCritical :: int where [simp]:
  "PriorityCritical = 0"

definition PriorityHigh :: int where [simp]:
  "PriorityHigh = 1"

definition PriorityNormal :: int where [simp]:
  "PriorityNormal = 2"


definition Less :: "Request list \<Rightarrow> nat \<Rightarrow> nat \<Rightarrow> bool" where
  "Less h i j =
     (if reqPriority (h ! i) \<noteq> reqPriority (h ! j)
      then reqPriority (h ! i) < reqPriority (h ! j)
      else reqCreatedAt (h ! i) < reqCreatedAt (h ! j))"

definition Swap :: "Request list \<Rightarrow> nat \<Rightarrow> nat \<Rightarrow> Request list" where
  "Swap h i j = h[i := h ! j, j := h ! i]"

definition urgency :: "Request \<Rightarrow> int \<times> gotime" where
  "urgency r = (reqPriority r, reqCreatedAt r)"

lemma Less_iff: "Less h i j \<longleftrightarrow> urgency (h ! i) < urgency (h ! j)"
  by (auto simp: Less_def urgency_def)

section \<open>The heap\<close>

text \<open>The parent of index 0 is 0, in Go by truncating division, here by subtraction on nat.\<close>

definition par :: "nat \<Rightarrow> nat" where
  "par j = (j - 1) div 2"

lemma par_less: "0 < i \<Longrightarrow> par i < i"
  by (auto simp: par_def)

lemma par_0 [simp]: "par 0 = 0"
  by (simp add: par_def)

lemma par_eq_iff: "0 < k \<Longrightarrow> par k = i \<longleftrightarrow> k = 2 * i + 1 \<or> k = 2 * i + 2"
  by (auto simp: par_def)

function up :: "Request list \<Rightarrow> nat \<Rightarrow> Request list" where
  "up h j = (let i = par j in
     if i = j \<or> \<not> Less h j i then h else up (Swap h i j) i)"
  by auto
termination by (relation "measure snd") (auto, metis gr0I par_0 par_less)

function down :: "Request list \<Rightarrow> nat \<Rightarrow> nat \<Rightarrow> Request list" where
  "down h i n = (let j1 = 2 * i + 1 in
     if j1 \<ge> n then h
     else let j2 = j1 + 1; j = (if j2 < n \<and> Less h j2 j1 then j2 else j1) in
       if \<not> Less h j i then h else down (Swap h i j) j n)"
  by auto
termination by (relation "measure (\<lambda>(h, i, n). n - i)") (auto simp: Let_def split: if_splits)

declare up.simps [simp del] down.simps [simp del]

definition heapPush :: "Request \<Rightarrow> Request list \<Rightarrow> Request list" where
  "heapPush x h = (let h' = h @ [x] in up h' (length h' - 1))"

text \<open>\<^verbatim>\<open>heap.Pop\<close> of a non-empty heap: the request and the rest.\<close>

definition heapPop :: "Request list \<Rightarrow> Request \<times> Request list" where
  "heapPop h = (let n = length h - 1; h' = down (Swap h 0 n) 0 n in
     (h' ! (length h' - 1), take (length h' - 1) h'))"

section \<open>The queue\<close>

record PriorityQueue =
  qItems :: "Request list"
  qMaxSize :: int
  qClosed :: bool
  qEnqueued :: int
  qDequeued :: int
  qDropped :: int

definition NewPriorityQueue :: "int \<Rightarrow> PriorityQueue" where
  "NewPriorityQueue maxSize =
     \<lparr>qItems = [], qMaxSize = maxSize, qClosed = False, qEnqueued = 0, qDequeued = 0, qDropped = 0\<rparr>"

definition Enqueue :: "Request \<Rightarrow> PriorityQueue \<Rightarrow> bool \<times> PriorityQueue" where
  "Enqueue req q =
     (if qClosed q then (False, q)
      else if int (length (qItems q)) \<ge> qMaxSize q then (False, q\<lparr>qDropped := qDropped q + 1\<rparr>)
      else (True, q\<lparr>qItems := heapPush req (qItems q), qEnqueued := qEnqueued q + 1\<rparr>))"

definition popRequest :: "PriorityQueue \<Rightarrow> Request option \<times> PriorityQueue" where
  "popRequest q = (case heapPop (qItems q) of
     (r, h) \<Rightarrow> (Some r, q\<lparr>qItems := h, qDequeued := qDequeued q + 1\<rparr>))"

text \<open>
  \<^verbatim>\<open>Dequeue\<close> waits on a condition while the queue is open and empty: \<open>None\<close> is the call that
  still waits, \<open>Some (None, q)\<close> the one that returns no request.
\<close>

definition Dequeue :: "PriorityQueue \<Rightarrow> (Request option \<times> PriorityQueue) option" where
  "Dequeue q =
     (if qItems q = [] \<and> \<not> qClosed q then None
      else if qClosed q \<and> qItems q = [] then Some (None, q)
      else Some (popRequest q))"

definition TryDequeue :: "PriorityQueue \<Rightarrow> Request option \<times> PriorityQueue" where
  "TryDequeue q = (if qItems q = [] \<or> qClosed q then (None, q) else popRequest q)"

text \<open>
  \<^verbatim>\<open>DequeueWithTimeout\<close> waits at most until a deadline. The list of wake-ups says, for each wait,
  the time at which the remaining time was computed, what other goroutines did to the queue
  during the wait, and the time after it. \<open>None\<close> is a call that still waits.
\<close>

fun DequeueWithTimeout :: "gotime \<Rightarrow> (gotime \<times> (PriorityQueue \<Rightarrow> PriorityQueue) \<times> gotime) list \<Rightarrow>
    PriorityQueue \<Rightarrow> (Request option \<times> PriorityQueue) option" where
  "DequeueWithTimeout deadline [] q =
     (if qItems q = [] \<and> \<not> qClosed q then None
      else if qClosed q \<and> qItems q = [] then Some (None, q)
      else Some (popRequest q))"
| "DequeueWithTimeout deadline ((t, env, t') # ws) q =
     (if qItems q = [] \<and> \<not> qClosed q
      then if deadline - t \<le> 0 then Some (None, q)
           else let q' = env q in
             if t' > deadline then Some (None, q') else DequeueWithTimeout deadline ws q'
      else if qClosed q \<and> qItems q = [] then Some (None, q)
      else Some (popRequest q))"

definition Queue_Close :: "PriorityQueue \<Rightarrow> PriorityQueue" where
  "Queue_Close q = q\<lparr>qClosed := True\<rparr>"

definition Queue_Size :: "PriorityQueue \<Rightarrow> nat" where
  "Queue_Size q = length (qItems q)"

definition Queue_IsClosed :: "PriorityQueue \<Rightarrow> bool" where
  "Queue_IsClosed q = qClosed q"

definition Queue_Stats :: "PriorityQueue \<Rightarrow> int \<times> int \<times> int \<times> nat" where
  "Queue_Stats q = (qEnqueued q, qDequeued q, qDropped q, length (qItems q))"

text \<open>Sizes along the heap algorithms, on which the loop of \<^verbatim>\<open>Drain\<close> rests.\<close>

lemma length_Swap [simp]: "length (Swap h i j) = length h"
  by (simp add: Swap_def)

lemma length_up [simp]: "length (up h j) = length h"
  by (induction h j rule: up.induct) (subst up.simps, simp add: Let_def)

lemma length_down [simp]: "length (down h i n) = length h"
proof (induction h i n rule: down.induct)
  case (1 h i n)
  then show ?case by (subst down.simps) (simp add: Let_def)
qed

lemma length_heapPush [simp]: "length (heapPush x h) = Suc (length h)"
  by (simp add: heapPush_def Let_def)

lemma length_heapPop [simp]: "length (snd (heapPop h)) = length h - 1"
  by (simp add: heapPop_def Let_def)

function drainHeap :: "Request list \<Rightarrow> Request list" where
  "drainHeap h = (if h = [] then [] else case heapPop h of (r, h') \<Rightarrow> r # drainHeap h')"
  by auto
termination
  by (relation "measure length") (auto, metis diff_less length_greater_0_conv length_heapPop less_numeral_extra(1) snd_conv)

declare drainHeap.simps [simp del]

definition Drain :: "PriorityQueue \<Rightarrow> Request list \<times> PriorityQueue" where
  "Drain q = (drainHeap (qItems q), q\<lparr>qItems := []\<rparr>)"

section \<open>One queue per priority\<close>

type_synonym MultiPriorityQueue = "int \<Rightarrow> PriorityQueue option"

definition NewMultiPriorityQueue :: "int \<Rightarrow> MultiPriorityQueue" where
  "NewMultiPriorityQueue n = [PriorityCritical \<mapsto> NewPriorityQueue n, PriorityHigh \<mapsto> NewPriorityQueue n,
     PriorityNormal \<mapsto> NewPriorityQueue n]"

definition Multi_Enqueue :: "Request \<Rightarrow> MultiPriorityQueue \<Rightarrow> bool \<times> MultiPriorityQueue" where
  "Multi_Enqueue req m =
     (case m (reqPriority req) of
        None \<Rightarrow> (False, m)
      | Some q \<Rightarrow> (case Enqueue req q of (ok, q') \<Rightarrow> (ok, m(reqPriority req \<mapsto> q'))))"

text \<open>The queues of the three priorities are made with the map and never removed from it.\<close>

fun Multi_Dequeue_loop :: "int list \<Rightarrow> MultiPriorityQueue \<Rightarrow> Request option \<times> MultiPriorityQueue" where
  "Multi_Dequeue_loop [] m = (None, m)"
| "Multi_Dequeue_loop (p # ps) m =
     (case m p of
        None \<Rightarrow> Multi_Dequeue_loop ps m
      | Some q \<Rightarrow>
          (case TryDequeue q of
             (Some r, q') \<Rightarrow> (Some r, m(p \<mapsto> q'))
           | (None, q') \<Rightarrow> Multi_Dequeue_loop ps (m(p \<mapsto> q'))))"

definition Multi_Dequeue :: "MultiPriorityQueue \<Rightarrow> Request option \<times> MultiPriorityQueue" where
  "Multi_Dequeue m = Multi_Dequeue_loop [PriorityCritical, PriorityHigh, PriorityNormal] m"

definition Multi_TotalSize :: "MultiPriorityQueue \<Rightarrow> nat" where
  "Multi_TotalSize m = (\<Sum>p\<in>dom m. Queue_Size (the (m p)))"

definition Multi_Close :: "MultiPriorityQueue \<Rightarrow> MultiPriorityQueue" where
  "Multi_Close m = (\<lambda>p. map_option Queue_Close (m p))"

section \<open>The heap order\<close>

definition heap_upto :: "nat \<Rightarrow> Request list \<Rightarrow> bool" where
  "heap_upto n h \<longleftrightarrow> (\<forall>i. 0 < i \<and> i < n \<longrightarrow> urgency (h ! par i) \<le> urgency (h ! i))"

definition is_heap :: "Request list \<Rightarrow> bool" where
  "is_heap h \<longleftrightarrow> heap_upto (length h) h"

lemma nth_Swap:
  "i < length h \<Longrightarrow> j < length h \<Longrightarrow> k < length h \<Longrightarrow>
   Swap h i j ! k = (if k = j then h ! i else if k = i then h ! j else h ! k)"
  by (simp add: Swap_def nth_list_update)

lemma mset_Swap [simp]: "i < length h \<Longrightarrow> j < length h \<Longrightarrow> mset (Swap h i j) = mset h"
  by (cases "i = j") (simp_all add: Swap_def list_update_swap mset_swap)

lemma up_heap:
  assumes "j < length h"
    and "\<And>i. 0 < i \<Longrightarrow> i < length h \<Longrightarrow> i \<noteq> j \<Longrightarrow> urgency (h ! par i) \<le> urgency (h ! i)"
    and "\<And>i. 0 < i \<Longrightarrow> i < length h \<Longrightarrow> par i = j \<Longrightarrow> 0 < j \<Longrightarrow> urgency (h ! par j) \<le> urgency (h ! i)"
  shows "is_heap (up h j) \<and> mset (up h j) = mset h"
  using assms
proof (induction h j rule: up.induct)
  case (1 h j)
  let ?i = "par j" and ?h = "Swap h (par j) j"
  show ?case
  proof (cases "?i = j \<or> \<not> Less h j ?i")
    case True
    then have "up h j = h" by (subst up.simps) (simp add: Let_def)
    moreover have "urgency (h ! par k) \<le> urgency (h ! k)" if "0 < k" "k < length h" for k
    proof (cases "k = j")
      case True
      with that \<open>?i = j \<or> \<not> Less h j ?i\<close> show ?thesis by (auto simp: Less_iff not_less)
    qed (use "1.prems"(2) that in blast)
    ultimately show ?thesis by (simp add: is_heap_def heap_upto_def)
  next
    case False
    then have j: "0 < j" and less: "urgency (h ! j) < urgency (h ! ?i)"
      by (auto simp: Less_iff intro: gr0I)
    have i: "?i < length h" "?i < j" using par_less [OF j] "1.prems"(1) by auto
    note nth = nth_Swap [OF i(1) "1.prems"(1)]
    have "is_heap (up ?h ?i) \<and> mset (up ?h ?i) = mset ?h"
    proof (rule "1.IH" [OF refl])
      show "\<not> (?i = j \<or> \<not> Less h j ?i)" "?i < length ?h" using False i by simp_all
      show "urgency (?h ! par k) \<le> urgency (?h ! k)" if "0 < k" "k < length ?h" "k \<noteq> ?i" for k
      proof -
        have kl: "k < length h" "par k < length h" using that par_less [of k] by auto
        consider "k = j" | "k \<noteq> j" "par k = ?i" | "k \<noteq> j" "par k = j" | "k \<noteq> j" "par k \<noteq> ?i" "par k \<noteq> j"
          by blast
        then show ?thesis
        proof cases
          case 1
          then show ?thesis using kl less i by (simp add: nth)
        next
          case 2
          then have "urgency (h ! ?i) \<le> urgency (h ! k)" using "1.prems"(2) [of k] that kl by simp
          then show ?thesis using 2 kl less that i by (simp add: nth)
        next
          case 3
          then show ?thesis using kl that i "1.prems"(3) [of k] j by (simp add: nth)
        next
          case 4
          then show ?thesis using kl that "1.prems"(2) [of k] by (simp add: nth)
        qed
      qed
      show "urgency (?h ! par ?i) \<le> urgency (?h ! k)"
        if "0 < k" "k < length ?h" "par k = ?i" "0 < ?i" for k
      proof -
        have pi: "par ?i < ?i" "par ?i < length h" using par_less [OF that(4)] i by linarith+
        have a: "urgency (h ! par ?i) \<le> urgency (h ! ?i)" using "1.prems"(2) [of ?i] i that(4) by simp
        have kl: "k < length h" using that(2) by simp
        show ?thesis
        proof (cases "k = j")
          case True
          then show ?thesis using a pi i kl by (simp add: nth)
        next
          case False
          then have "urgency (h ! ?i) \<le> urgency (h ! k)"
            using "1.prems"(2) [of k] that(1,3) kl by simp
          moreover have "k \<noteq> ?i" using par_less [OF that(1)] that(3) by simp
          ultimately show ?thesis using False a pi i kl by (simp add: nth)
        qed
      qed
    qed
    moreover have "up h j = up ?h ?i" using False by (subst up.simps) (simp add: Let_def)
    ultimately show ?thesis using i "1.prems"(1) by simp
  qed
qed

lemma down_heap:
  assumes "n \<le> length h"
    and "\<And>k. 0 < k \<Longrightarrow> k < n \<Longrightarrow> par k \<noteq> i \<Longrightarrow> urgency (h ! par k) \<le> urgency (h ! k)"
    and "\<And>k. 0 < k \<Longrightarrow> k < n \<Longrightarrow> par k = i \<Longrightarrow> 0 < i \<Longrightarrow> urgency (h ! par i) \<le> urgency (h ! k)"
  shows "heap_upto n (down h i n) \<and> mset (down h i n) = mset h \<and>
    (\<forall>k. n \<le> k \<and> k < length h \<longrightarrow> down h i n ! k = h ! k)"
  using assms
proof (induction h i n rule: down.induct)
  case (1 h i n)
  let ?j1 = "2 * i + 1"
  let ?j = "if ?j1 + 1 < n \<and> Less h (?j1 + 1) ?j1 then ?j1 + 1 else ?j1"
  let ?h = "Swap h i ?j"
  consider (leaf) "?j1 \<ge> n" | (stop) "?j1 < n" "\<not> Less h ?j i" | (go) "?j1 < n" "Less h ?j i"
    by linarith
  then show ?case
  proof cases
    case leaf
    then have "down h i n = h" by (subst down.simps) (simp add: Let_def)
    moreover have "par k \<noteq> i" if "0 < k" "k < n" for k using that leaf par_eq_iff [of k i] by auto
    ultimately show ?thesis using "1.prems"(2) by (simp add: heap_upto_def)
  next
    case stop
    then have "down h i n = h" by (subst down.simps) (auto simp: Let_def split: if_splits)
    moreover have "urgency (h ! i) \<le> urgency (h ! k)" if "0 < k" "k < n" "par k = i" for k
      using that stop par_eq_iff [of k i] by (auto simp: Less_iff split: if_splits)
    ultimately show ?thesis using "1.prems"(2) unfolding heap_upto_def by (metis order_refl)
  next
    case go
    define j where "j = ?j"
    have j: "j < n" "0 < j" "par j = i" "i < j"
      using go(1) by (auto simp: j_def par_eq_iff)
    have less: "urgency (h ! j) < urgency (h ! i)" using go(2) by (simp add: Less_iff j_def)
    have min: "urgency (h ! j) \<le> urgency (h ! k)" if "0 < k" "k < n" "par k = i" for k
      using that par_eq_iff [of k i] by (auto simp: Less_iff j_def split: if_splits)
    have il: "i < length h" "j < length h" using j "1.prems"(1) by auto
    note nth = nth_Swap [OF il]
    have "heap_upto n (down (Swap h i j) j n) \<and> mset (down (Swap h i j) j n) = mset (Swap h i j) \<and>
        (\<forall>k. n \<le> k \<and> k < length (Swap h i j) \<longrightarrow> down (Swap h i j) j n ! k = Swap h i j ! k)"
      unfolding j_def
    proof (rule "1.IH" [OF refl _ refl refl], goal_cases)
      case 1
      then show ?case using go by simp
    next
      case 2
      then show ?case using go by simp
    next
      case 3
      then show ?case using "1.prems"(1) by simp
    next
      case (4 k)
      then have k: "0 < k" "k < n" "par k \<noteq> j" by (simp_all add: j_def)
      have kl: "k < length h" "par k < length h" "par k < k"
        using k "1.prems"(1) par_less [of k] by auto
      show ?case unfolding j_def [symmetric]
      proof (cases "par k = i")
        case True
        then show "urgency (Swap h i j ! par k) \<le> urgency (Swap h i j ! k)"
          using k kl min [OF k(1,2)] less j by (auto simp: nth)
      next
        case False
        note a = "1.prems"(2) [OF k(1,2) False]
        show "urgency (Swap h i j ! par k) \<le> urgency (Swap h i j ! k)"
        proof (cases "k = i")
          case True
          then show ?thesis using k kl False j "1.prems"(3) [OF j(2,1,3)] by (auto simp: nth)
        next
          case False
          then show ?thesis using k kl a j \<open>par k \<noteq> i\<close> by (auto simp: nth)
        qed
      qed
    next
      case (5 k)
      then have k: "0 < k" "k < n" "par k = j" by (simp_all add: j_def)
      then have "j < k" using par_less by blast
      then show ?case unfolding j_def [symmetric]
        using "1.prems"(1) "1.prems"(2) [of k] k j il by (simp add: nth)
    qed
    moreover have "down h i n = down (Swap h i j) j n"
      using go by (subst down.simps) (auto simp: Let_def j_def split: if_splits)
    moreover have "Swap h i j ! k = h ! k" if "n \<le> k" "k < length h" for k
      using that j by (auto simp: nth)
    ultimately show ?thesis using il by simp
  qed
qed

section \<open>The priority-queue contract\<close>

text \<open>
  What a client of a priority queue relies on: pushing adds one element, popping removes one of
  smallest key, both keep the representation invariant. Draining then yields all elements, in
  ascending order of their keys.
\<close>

locale min_queue =
  fixes push :: "'a \<Rightarrow> 'h \<Rightarrow> 'h" and pop :: "'h \<Rightarrow> 'a \<times> 'h" and drain :: "'h \<Rightarrow> 'a list"
    and inv :: "'h \<Rightarrow> bool" and contents :: "'h \<Rightarrow> 'a multiset" and key :: "'a \<Rightarrow> 'k::linorder"
  assumes push_inv: "inv h \<Longrightarrow> inv (push x h)"
    and push_contents: "inv h \<Longrightarrow> contents (push x h) = add_mset x (contents h)"
    and pop_inv: "inv h \<Longrightarrow> contents h \<noteq> {#} \<Longrightarrow> inv (snd (pop h))"
    and pop_contents: "inv h \<Longrightarrow> contents h \<noteq> {#} \<Longrightarrow>
      contents h = add_mset (fst (pop h)) (contents (snd (pop h)))"
    and pop_min: "inv h \<Longrightarrow> contents h \<noteq> {#} \<Longrightarrow> y \<in># contents h \<Longrightarrow> key (fst (pop h)) \<le> key y"
    and drain_eq: "drain h = (if contents h = {#} then [] else fst (pop h) # drain (snd (pop h)))"
begin

lemma drain_contents_sorted:
  "inv h \<Longrightarrow> mset (drain h) = contents h \<and> sorted (map key (drain h))"
proof (induction "size (contents h)" arbitrary: h)
  case 0
  then have "contents h = {#}" by simp
  moreover from this have "drain h = []" by (subst drain_eq) simp
  ultimately show ?case by simp
next
  case (Suc n)
  then have ne: "contents h \<noteq> {#}" by auto
  note c = pop_contents [OF Suc.prems ne]
  have "n = size (contents (snd (pop h)))" using Suc.hyps(2) c by (metis size_add_mset nat.inject)
  from Suc.hyps(1) [OF this pop_inv [OF Suc.prems ne]]
  have IH: "mset (drain (snd (pop h))) = contents (snd (pop h))"
    "sorted (map key (drain (snd (pop h))))" by auto
  have "key (fst (pop h)) \<le> key y" if "y \<in> set (drain (snd (pop h)))" for y
  proof (rule pop_min [OF Suc.prems ne])
    have "y \<in># contents (snd (pop h))" using that IH(1) by (metis set_mset_mset)
    then show "y \<in># contents h" by (subst c) simp
  qed
  moreover have "drain h = fst (pop h) # drain (snd (pop h))" using ne by (subst drain_eq) simp
  moreover have "add_mset (fst (pop h)) (contents (snd (pop h))) = contents h" by (rule c [symmetric])
  ultimately show ?case using IH by simp
qed

lemma push_then_pop_min:
  "inv h \<Longrightarrow> y \<in># contents h \<or> y = x \<Longrightarrow> key (fst (pop (push x h))) \<le> key y"
  by (rule pop_min) (auto simp: push_inv push_contents)

end

section \<open>The heap is a priority queue\<close>

lemma heap_root_min:
  assumes "is_heap h" "i < length h"
  shows "urgency (h ! 0) \<le> urgency (h ! i)"
  using assms(2)
proof (induction i rule: less_induct)
  case (less i)
  show ?case
  proof (cases "i = 0")
    case False
    then have "urgency (h ! 0) \<le> urgency (h ! par i)"
      using less.IH [of "par i"] par_less [of i] less.prems by simp
    also have "\<dots> \<le> urgency (h ! i)"
      using assms(1) False less.prems by (simp add: is_heap_def heap_upto_def)
    finally show ?thesis .
  qed simp
qed

lemma heapPush_heap:
  assumes "is_heap h"
  shows "is_heap (heapPush x h) \<and> mset (heapPush x h) = add_mset x (mset h)"
proof -
  have "is_heap (up (h @ [x]) (length h)) \<and> mset (up (h @ [x]) (length h)) = mset (h @ [x])"
  proof (rule up_heap)
    show "urgency ((h @ [x]) ! par i) \<le> urgency ((h @ [x]) ! i)"
      if "0 < i" "i < length (h @ [x])" "i \<noteq> length h" for i
      using that assms par_less [of i] by (simp add: nth_append is_heap_def heap_upto_def)
    show "urgency ((h @ [x]) ! par (length h)) \<le> urgency ((h @ [x]) ! i)"
      if "0 < i" "i < length (h @ [x])" "par i = length h" for i
      using that par_less [of i] by simp
  qed simp
  then show ?thesis by (simp add: heapPush_def Let_def)
qed

lemma heapPop_heap:
  assumes "is_heap h" "h \<noteq> []"
  shows "fst (heapPop h) = h ! 0 \<and> is_heap (snd (heapPop h)) \<and>
    mset h = add_mset (h ! 0) (mset (snd (heapPop h)))"
proof -
  obtain n where n: "length h = Suc n" using assms(2) by (cases h) auto
  let ?s = "Swap h 0 n"
  let ?d = "down ?s 0 n"
  have nth: "?s ! k = (if k = n then h ! 0 else if k = 0 then h ! n else h ! k)" if "k \<le> n" for k
    using n that by (simp add: nth_Swap)
  have "heap_upto n ?d \<and> mset ?d = mset ?s \<and> (\<forall>k. n \<le> k \<and> k < length ?s \<longrightarrow> ?d ! k = ?s ! k)"
  proof (rule down_heap)
    show "urgency (?s ! par k) \<le> urgency (?s ! k)" if "0 < k" "k < n" "par k \<noteq> 0" for k
      using that assms(1) par_less [of k] n by (simp add: nth is_heap_def heap_upto_def)
  qed (simp_all add: n)
  then have d: "heap_upto n ?d" "mset ?d = mset h" "?d ! n = h ! 0"
    using n by (simp_all add: nth)
  have "?d = take n ?d @ [?d ! n]"
    using n take_Suc_conv_app_nth [of n ?d] by simp
  then have m: "mset h = add_mset (h ! 0) (mset (take n ?d))"
    using d(2,3) by (metis add_mset_add_single mset_append mset_single_iff)
  have "urgency (take n ?d ! par k) \<le> urgency (take n ?d ! k)" if "0 < k" "k < n" for k
    using that d(1) par_less [of k] by (simp add: heap_upto_def)
  then have "is_heap (take n ?d)" using n by (simp add: is_heap_def heap_upto_def)
  with m d(3) n show ?thesis by (simp add: heapPop_def Let_def)
qed

interpretation rq: min_queue heapPush heapPop drainHeap is_heap mset urgency
proof
  fix h :: "Request list" and x y
  show "is_heap h \<Longrightarrow> is_heap (heapPush x h)"
    and "is_heap h \<Longrightarrow> mset (heapPush x h) = add_mset x (mset h)"
    using heapPush_heap by blast+
  show "is_heap h \<Longrightarrow> mset h \<noteq> {#} \<Longrightarrow> is_heap (snd (heapPop h))"
    and "is_heap h \<Longrightarrow> mset h \<noteq> {#} \<Longrightarrow>
      mset h = add_mset (fst (heapPop h)) (mset (snd (heapPop h)))"
    using heapPop_heap [of h] by auto
  show "is_heap h \<Longrightarrow> mset h \<noteq> {#} \<Longrightarrow> y \<in># mset h \<Longrightarrow> urgency (fst (heapPop h)) \<le> urgency y"
  proof -
    assume a: "is_heap h" "mset h \<noteq> {#}" "y \<in># mset h"
    then obtain i where "i < length h" "y = h ! i" by (auto simp: in_set_conv_nth)
    with a heapPop_heap [of h] heap_root_min [of h i] show ?thesis by simp
  qed
  show "drainHeap h = (if mset h = {#} then [] else fst (heapPop h) # drainHeap (snd (heapPop h)))"
    by (subst drainHeap.simps) (simp split: prod.splits)
qed

section \<open>Properties\<close>

text \<open>The queue holds a heap of at most \<^verbatim>\<open>maxSize\<close> requests.\<close>

definition queue_inv :: "PriorityQueue \<Rightarrow> bool" where
  "queue_inv q \<longleftrightarrow> is_heap (qItems q) \<and> int (length (qItems q)) \<le> max 0 (qMaxSize q)"

lemma popRequest_eq:
  "popRequest q = (Some (fst (heapPop (qItems q))),
     q\<lparr>qItems := snd (heapPop (qItems q)), qDequeued := qDequeued q + 1\<rparr>)"
  by (simp add: popRequest_def split: prod.splits)

lemma popRequest_inv:
  assumes "queue_inv q" "qItems q \<noteq> []"
  obtains r where "popRequest q = (Some r, snd (popRequest q))" "queue_inv (snd (popRequest q))"
    "mset (qItems q) = add_mset r (mset (qItems (snd (popRequest q))))"
    "\<forall>x\<in>set (qItems q). urgency r \<le> urgency x"
    "qClosed (snd (popRequest q)) = qClosed q" "qMaxSize (snd (popRequest q)) = qMaxSize q"
proof -
  have h: "is_heap (qItems q)" and ne: "mset (qItems q) \<noteq> {#}"
    using assms by (simp_all add: queue_inv_def)
  have "queue_inv (snd (popRequest q))"
    using assms(1) rq.pop_inv [OF h ne]
    by (simp add: queue_inv_def popRequest_eq) linarith
  moreover have "mset (qItems q) =
      add_mset (fst (heapPop (qItems q))) (mset (qItems (snd (popRequest q))))"
    using rq.pop_contents [OF h ne] by (simp add: popRequest_eq)
  moreover have "\<forall>x\<in>set (qItems q). urgency (fst (heapPop (qItems q))) \<le> urgency x"
    using rq.pop_min [OF h ne] by simp
  ultimately show ?thesis
    using that [of "fst (heapPop (qItems q))"] by (simp add: popRequest_eq)
qed

text \<open>
  C34: the queue serves the most urgent request. A \<^verbatim>\<open>Dequeue\<close>, \<^verbatim>\<open>TryDequeue\<close> or
  \<^verbatim>\<open>DequeueWithTimeout\<close> that finds requests returns one whose priority, and among equal priorities
  whose age, no other request in the queue beats, removes exactly that one, and keeps the heap.
\<close>

theorem dequeue_most_urgent:
  assumes "queue_inv q" "qItems q \<noteq> []"
  shows "\<exists>r q'. Dequeue q = Some (Some r, q') \<and>
    DequeueWithTimeout deadline ws q = Some (Some r, q') \<and>
    (\<not> qClosed q \<longrightarrow> TryDequeue q = (Some r, q')) \<and>
    queue_inv q' \<and> mset (qItems q) = add_mset r (mset (qItems q')) \<and>
    (\<forall>x\<in>set (qItems q). urgency r \<le> urgency x)"
proof -
  obtain r where r: "popRequest q = (Some r, snd (popRequest q))" "queue_inv (snd (popRequest q))"
    "mset (qItems q) = add_mset r (mset (qItems (snd (popRequest q))))"
    "\<forall>x\<in>set (qItems q). urgency r \<le> urgency x"
    using popRequest_inv [OF assms] by blast
  have "DequeueWithTimeout deadline ws q = Some (popRequest q)"
    using assms(2) by (cases ws rule: list.exhaust) auto
  moreover have "Dequeue q = Some (popRequest q)" using assms(2) by (simp add: Dequeue_def)
  moreover have "\<not> qClosed q \<longrightarrow> TryDequeue q = popRequest q" using assms(2) by (simp add: TryDequeue_def)
  ultimately show ?thesis
    using r by (intro exI [of _ r] exI [of _ "snd (popRequest q)"]) simp
qed

definition reqA :: Request where
  "reqA = \<lparr>reqID = ''a'', reqPriority = PriorityNormal, reqCreatedAt = 1, reqTimeout = 9\<rparr>"

definition reqB :: Request where
  "reqB = \<lparr>reqID = ''b'', reqPriority = PriorityCritical, reqCreatedAt = 2, reqTimeout = 9\<rparr>"

definition sampleQueue :: PriorityQueue where
  "sampleQueue = (NewPriorityQueue 5)\<lparr>qItems := [reqB, reqA]\<rparr>"

lemma sampleQueue_inv: "queue_inv sampleQueue"
  by (auto simp: queue_inv_def sampleQueue_def NewPriorityQueue_def is_heap_def heap_upto_def
      less_Suc_eq par_def urgency_def reqA_def reqB_def)

theorem dequeue_most_urgent_witness:
  "\<exists>r q'. Dequeue sampleQueue = Some (Some r, q') \<and> mset (qItems q') = {#reqA#} \<and> r = reqB"
proof -
  have "qItems sampleQueue \<noteq> []" by (simp add: sampleQueue_def)
  from dequeue_most_urgent [OF sampleQueue_inv this] obtain r q' where
    d: "Dequeue sampleQueue = Some (Some r, q')"
    and m: "mset (qItems sampleQueue) = add_mset r (mset (qItems q'))"
    and u: "\<forall>x\<in>set (qItems sampleQueue). urgency r \<le> urgency x"
    by blast
  have "r \<in># mset (qItems sampleQueue)" by (simp add: m)
  then have "r = reqA \<or> r = reqB" by (auto simp: sampleQueue_def)
  moreover have "urgency r \<le> urgency reqB" using u by (simp add: sampleQueue_def)
  ultimately have r: "r = reqB" by (auto simp: urgency_def reqA_def reqB_def)
  with m have "mset (qItems q') = {#reqA#}" by (simp add: sampleQueue_def add_mset_commute)
  with d r show ?thesis by blast
qed

text \<open>
  \<^verbatim>\<open>Enqueue\<close> accepts a request exactly when the queue is open and below its size; then it adds
  that request and nothing else. A refused request leaves the requests alone, a full queue counts
  it as dropped. The heap and the bound on its size are kept.
\<close>

theorem Enqueue_bounded:
  assumes "queue_inv q"
  shows "(fst (Enqueue r q) \<longleftrightarrow> \<not> qClosed q \<and> int (length (qItems q)) < qMaxSize q) \<and>
      queue_inv (snd (Enqueue r q)) \<and>
      mset (qItems (snd (Enqueue r q))) =
        (if fst (Enqueue r q) then add_mset r (mset (qItems q)) else mset (qItems q)) \<and>
      qDropped (snd (Enqueue r q)) = qDropped q +
        (if \<not> qClosed q \<and> int (length (qItems q)) \<ge> qMaxSize q then 1 else 0)"
  using assms heapPush_heap [of "qItems q" r]
  by (auto simp: Enqueue_def queue_inv_def)

theorem Enqueue_bounded_witness:
  "fst (Enqueue reqA sampleQueue) \<and> queue_inv (snd (Enqueue reqA sampleQueue)) \<and>
   mset (qItems (snd (Enqueue reqA sampleQueue))) = {#reqA, reqA, reqB#}"
  using Enqueue_bounded [OF sampleQueue_inv, of reqA]
  by (simp add: sampleQueue_def NewPriorityQueue_def)

text \<open>
  \<^verbatim>\<open>Drain\<close> returns every request of the queue once, by priority and then by age, and leaves
  the queue empty.
\<close>

theorem Drain_sorted:
  assumes "queue_inv q"
  shows "mset (fst (Drain q)) = mset (qItems q) \<and> sorted (map urgency (fst (Drain q))) \<and>
    qItems (snd (Drain q)) = [] \<and> queue_inv (snd (Drain q))"
  using assms rq.drain_contents_sorted [of "qItems q"]
  by (simp add: Drain_def queue_inv_def is_heap_def heap_upto_def)

theorem Drain_sorted_witness:
  "mset (fst (Drain sampleQueue)) = {#reqA, reqB#} \<and> sorted (map urgency (fst (Drain sampleQueue)))"
  using Drain_sorted [OF sampleQueue_inv] by (simp add: sampleQueue_def add_mset_commute)

text \<open>
  The queue of queues: each priority's queue holds requests of that priority only.
\<close>

definition multi_inv :: "MultiPriorityQueue \<Rightarrow> bool" where
  "multi_inv m \<longleftrightarrow> dom m = {PriorityCritical, PriorityHigh, PriorityNormal} \<and>
     (\<forall>p q. m p = Some q \<longrightarrow> queue_inv q \<and> \<not> qClosed q \<and> (\<forall>r\<in>set (qItems q). reqPriority r = p))"

definition multi_contents :: "MultiPriorityQueue \<Rightarrow> Request set" where
  "multi_contents m = (\<Union>q\<in>ran m. set (qItems q))"

lemma TryDequeue_cases:
  assumes "queue_inv q" "\<not> qClosed q"
  obtains "qItems q = []" "TryDequeue q = (None, q)"
  | r q' where "TryDequeue q = (Some r, q')" "r \<in> set (qItems q)"
    "\<forall>x\<in>set (qItems q). urgency r \<le> urgency x"
proof (cases "qItems q = []")
  case True
  then show ?thesis by (intro that(1)) (simp_all add: TryDequeue_def)
next
  case False
  obtain r where r: "popRequest q = (Some r, snd (popRequest q))"
    "mset (qItems q) = add_mset r (mset (qItems (snd (popRequest q))))"
    "\<forall>x\<in>set (qItems q). urgency r \<le> urgency x"
    using popRequest_inv [OF assms(1) False] by blast
  moreover have "r \<in> set (qItems q)" using r(2) by (metis set_mset_mset union_single_eq_member)
  ultimately show ?thesis
    using False assms(2) that(2) [of r "snd (popRequest q)"] by (simp add: TryDequeue_def)
qed

lemma Multi_Dequeue_loop_min:
  assumes "sorted_wrt (<) ps" "set ps \<subseteq> dom m"
    and "\<And>p q. m p = Some q \<Longrightarrow> queue_inv q \<and> \<not> qClosed q \<and> (\<forall>r\<in>set (qItems q). reqPriority r = p)"
  shows "case fst (Multi_Dequeue_loop ps m) of
      None \<Rightarrow> \<forall>p\<in>set ps. qItems (the (m p)) = []
    | Some r \<Rightarrow> (\<exists>p\<in>set ps. r \<in> set (qItems (the (m p)))) \<and>
        (\<forall>p\<in>set ps. \<forall>x\<in>set (qItems (the (m p))). urgency r \<le> urgency x)"
  using assms
proof (induction ps arbitrary: m)
  case (Cons p ps)
  then obtain q where q: "m p = Some q" by auto
  note inv = Cons.prems(3) [OF q]
  from inv have "queue_inv q" "\<not> qClosed q" by simp_all
  then show ?case
  proof (cases rule: TryDequeue_cases)
    case 1
    have "m(p \<mapsto> q) = m" using q by auto
    moreover have "sorted_wrt (<) ps" "set ps \<subseteq> dom m" using Cons.prems(1,2) by simp_all
    ultimately show ?thesis
      using Cons.IH [of m] Cons.prems(3) 1 q by (auto split: option.splits)
  next
    case (2 r q')
    have "urgency r \<le> urgency x" if "p' \<in> set ps" "x \<in> set (qItems (the (m p')))" for p' x
    proof -
      have "p' \<in> dom m" using that(1) Cons.prems(2) by (meson list.set_intros(2) subsetD)
      then obtain q2 where q2: "m p' = Some q2" by blast
      have "reqPriority x = p'" using Cons.prems(3) [OF q2] that(2) q2 by simp
      moreover have "reqPriority r = p" using inv 2(2) by simp
      moreover have "p < p'" using Cons.prems(1) that(1) by simp
      ultimately show ?thesis by (simp add: urgency_def)
    qed
    with 2 q show ?thesis by auto
  qed
qed simp

text \<open>
  Over all its queues, \<^verbatim>\<open>MultiPriorityQueue.Dequeue\<close> returns a request no other request beats
  in priority, and among equal priorities in age; it returns none only when every queue is empty.
\<close>

theorem Multi_Dequeue_most_urgent:
  assumes "multi_inv m"
  shows "case fst (Multi_Dequeue m) of
      None \<Rightarrow> multi_contents m = {}
    | Some r \<Rightarrow> r \<in> multi_contents m \<and> (\<forall>x\<in>multi_contents m. urgency r \<le> urgency x)"
proof -
  let ?ps = "[PriorityCritical, PriorityHigh, PriorityNormal]"
  have dom: "dom m = set ?ps" using assms by (simp add: multi_inv_def)
  have "ran m = (\<lambda>p. the (m p)) ` dom m" by (force simp: ran_def)
  then have c: "multi_contents m = (\<Union>p\<in>set ?ps. set (qItems (the (m p))))"
    by (simp only: multi_contents_def dom image_image UN_simps)
  have "sorted_wrt (<) ?ps" by simp
  moreover have "set ?ps \<subseteq> dom m" using dom by simp
  moreover have "queue_inv q \<and> \<not> qClosed q \<and> (\<forall>r\<in>set (qItems q). reqPriority r = p)"
    if "m p = Some q" for p q
    using assms that by (simp add: multi_inv_def)
  ultimately have "case fst (Multi_Dequeue_loop ?ps m) of
      None \<Rightarrow> \<forall>p\<in>set ?ps. qItems (the (m p)) = []
    | Some r \<Rightarrow> (\<exists>p\<in>set ?ps. r \<in> set (qItems (the (m p)))) \<and>
        (\<forall>p\<in>set ?ps. \<forall>x\<in>set (qItems (the (m p))). urgency r \<le> urgency x)"
    by (rule Multi_Dequeue_loop_min)
  then show ?thesis
    unfolding Multi_Dequeue_def c by (auto split: option.splits)
qed

definition sampleMulti :: MultiPriorityQueue where
  "sampleMulti = (NewMultiPriorityQueue 5)
     (PriorityCritical \<mapsto> (NewPriorityQueue 5)\<lparr>qItems := [reqB]\<rparr>,
      PriorityNormal \<mapsto> (NewPriorityQueue 5)\<lparr>qItems := [reqA]\<rparr>)"

theorem Multi_Dequeue_most_urgent_witness:
  "fst (Multi_Dequeue sampleMulti) = Some reqB \<and> reqB \<in> multi_contents sampleMulti \<and>
     urgency reqB \<le> urgency reqA"
proof -
  have inv: "multi_inv sampleMulti"
    by (auto simp: multi_inv_def sampleMulti_def NewMultiPriorityQueue_def NewPriorityQueue_def
        queue_inv_def is_heap_def heap_upto_def reqA_def reqB_def split: if_splits)
  have "fst (Multi_Dequeue sampleMulti) = Some reqB"
    by code_simp
  moreover have "reqA \<in> multi_contents sampleMulti"
  proof -
    have "sampleMulti PriorityNormal = Some ((NewPriorityQueue 5)\<lparr>qItems := [reqA]\<rparr>)"
      by (simp add: sampleMulti_def)
    then have "(NewPriorityQueue 5)\<lparr>qItems := [reqA]\<rparr> \<in> ran sampleMulti" by (rule ranI)
    then have "set (qItems ((NewPriorityQueue 5)\<lparr>qItems := [reqA]\<rparr>)) \<subseteq> multi_contents sampleMulti"
      unfolding multi_contents_def by blast
    then show ?thesis by simp
  qed
  ultimately show ?thesis using Multi_Dequeue_most_urgent [OF inv] by simp
qed

end
