(* ===== verification/CircuitBreaker.thy ===== *)
theory CircuitBreaker
  imports Prelude
begin

text \<open>
  The circuit breaker of the RPC proxy and the retry loop of its workers
  (\<^verbatim>\<open>pkg/rpcproxy/worker.go\<close>). Every method of the breaker holds its lock, so the breaker is a state
  machine whose steps are the calls; the clock is an argument.
\<close>

section \<open>State and operations\<close>

datatype CircuitState = CircuitClosed | CircuitOpen | CircuitHalfOpen

record CircuitBreakerConfig =
  MaxFailures :: int
  ResetTimeout :: int
  HalfOpenRequests :: int

record CircuitBreaker =
  cbConfig :: CircuitBreakerConfig
  cbState :: CircuitState
  failures :: int
  successes :: int
  lastFailure :: gotime
  lastStateChange :: gotime

definition DefaultCircuitBreakerConfig :: CircuitBreakerConfig where
  "DefaultCircuitBreakerConfig = \<lparr>MaxFailures = 5, ResetTimeout = 30 * 10 ^ 9, HalfOpenRequests = 3\<rparr>"

definition CircuitState_String :: "CircuitState \<Rightarrow> string" where
  "CircuitState_String s = (case s of
     CircuitClosed \<Rightarrow> ''closed'' | CircuitOpen \<Rightarrow> ''open'' | CircuitHalfOpen \<Rightarrow> ''half-open'')"

definition NewCircuitBreaker :: "gotime \<Rightarrow> CircuitBreakerConfig option \<Rightarrow> CircuitBreaker" where
  "NewCircuitBreaker now cfg =
     \<lparr>cbConfig = (case cfg of None \<Rightarrow> DefaultCircuitBreakerConfig | Some c \<Rightarrow> c),
      cbState = CircuitClosed, failures = 0, successes = 0, lastFailure = 0, lastStateChange = now\<rparr>"

definition Allow :: "gotime \<Rightarrow> CircuitBreaker \<Rightarrow> bool \<times> CircuitBreaker" where
  "Allow now cb =
     (case cbState cb of
        CircuitClosed \<Rightarrow> (True, cb)
      | CircuitOpen \<Rightarrow>
          if now - lastStateChange cb > ResetTimeout (cbConfig cb)
          then (True, cb\<lparr>cbState := CircuitHalfOpen, successes := 0, lastStateChange := now\<rparr>)
          else (False, cb)
      | CircuitHalfOpen \<Rightarrow> (successes cb < HalfOpenRequests (cbConfig cb), cb))"

definition RecordSuccess :: "gotime \<Rightarrow> CircuitBreaker \<Rightarrow> CircuitBreaker" where
  "RecordSuccess now cb =
     (let cb = cb\<lparr>failures := 0\<rparr> in
      if cbState cb = CircuitHalfOpen
      then let cb = cb\<lparr>successes := successes cb + 1\<rparr> in
        if successes cb \<ge> HalfOpenRequests (cbConfig cb)
        then cb\<lparr>cbState := CircuitClosed, lastStateChange := now\<rparr>
        else cb
      else cb)"

definition RecordFailure :: "gotime \<Rightarrow> CircuitBreaker \<Rightarrow> CircuitBreaker" where
  "RecordFailure now cb =
     (let cb = cb\<lparr>failures := failures cb + 1, lastFailure := now\<rparr> in
      if cbState cb = CircuitClosed \<and> failures cb \<ge> MaxFailures (cbConfig cb)
      then cb\<lparr>cbState := CircuitOpen, lastStateChange := now\<rparr>
      else if cbState cb = CircuitHalfOpen
      then cb\<lparr>cbState := CircuitOpen, lastStateChange := now\<rparr>
      else cb)"

definition cb_Reset :: "gotime \<Rightarrow> CircuitBreaker \<Rightarrow> CircuitBreaker" where
  "cb_Reset now cb =
     cb\<lparr>cbState := CircuitClosed, failures := 0, successes := 0, lastStateChange := now\<rparr>"

section \<open>The state machine\<close>

datatype cb_event =
    EAllow gotime bool
  | ESuccess gotime
  | EFailure gotime
  | EReset gotime

inductive cb_step :: "CircuitBreaker \<Rightarrow> cb_event \<Rightarrow> CircuitBreaker \<Rightarrow> bool" where
  step_allow: "Allow now cb = (b, cb') \<Longrightarrow> cb_step cb (EAllow now b) cb'"
| step_success: "cb_step cb (ESuccess now) (RecordSuccess now cb)"
| step_failure: "cb_step cb (EFailure now) (RecordFailure now cb)"
| step_reset: "cb_step cb (EReset now) (cb_Reset now cb)"

inductive_cases cb_step_AllowE: "cb_step cb (EAllow now b) cb'"
inductive_cases cb_step_SuccessE: "cb_step cb (ESuccess now) cb'"
inductive_cases cb_step_FailureE: "cb_step cb (EFailure now) cb'"
inductive_cases cb_step_ResetE: "cb_step cb (EReset now) cb'"

inductive cb_run :: "CircuitBreaker \<Rightarrow> cb_event list \<Rightarrow> CircuitBreaker \<Rightarrow> bool" where
  run_nil: "cb_run cb [] cb"
| run_snoc: "cb_run cb es cb' \<Longrightarrow> cb_step cb' e cb'' \<Longrightarrow> cb_run cb (es @ [e]) cb''"

text \<open>
  The invariant: closed means fewer failures than the limit since the last success, and half-open
  means fewer successes than needed to close.
\<close>

definition cb_inv :: "CircuitBreaker \<Rightarrow> bool" where
  "cb_inv cb \<longleftrightarrow> 0 < MaxFailures (cbConfig cb) \<and> 0 < HalfOpenRequests (cbConfig cb) \<and>
     0 \<le> failures cb \<and> 0 \<le> successes cb \<and>
     (cbState cb = CircuitClosed \<longrightarrow> failures cb < MaxFailures (cbConfig cb)) \<and>
     (cbState cb = CircuitHalfOpen \<longrightarrow> successes cb < HalfOpenRequests (cbConfig cb))"

lemma cb_step_inv [inv_intros]: "cb_step cb e cb' \<Longrightarrow> cb_inv cb \<Longrightarrow> cb_inv cb'"
  by (induction rule: cb_step.induct)
     (auto simp: cb_inv_def Allow_def RecordSuccess_def RecordFailure_def Let_def
       cb_Reset_def split: CircuitState.splits if_splits)

lemma cb_step_config: "cb_step cb e cb' \<Longrightarrow> cbConfig cb' = cbConfig cb"
  by (induction rule: cb_step.induct)
     (auto simp: Allow_def RecordSuccess_def RecordFailure_def cb_Reset_def Let_def
       split: CircuitState.splits if_splits)

lemma cb_run_inv:
  "cb_run cb es cb' \<Longrightarrow> cb_inv cb \<Longrightarrow> cb_inv cb' \<and> cbConfig cb' = cbConfig cb"
  by (induction rule: cb_run.induct) (auto intro: cb_step_inv simp: cb_step_config)

lemma NewCircuitBreaker_inv:
  "0 < MaxFailures c \<Longrightarrow> 0 < HalfOpenRequests c \<Longrightarrow> cb_inv (NewCircuitBreaker now (Some c))"
  by (simp add: cb_inv_def NewCircuitBreaker_def)

section \<open>Properties\<close>



text \<open>Consecutive failures, without a success or a reset between them.\<close>

fun fail_all :: "gotime list \<Rightarrow> CircuitBreaker \<Rightarrow> CircuitBreaker" where
  "fail_all [] cb = cb"
| "fail_all (t # ts) cb = fail_all ts (RecordFailure t cb)"

lemma RecordFailure_open:
  "cbState cb = CircuitOpen \<Longrightarrow>
   cbState (RecordFailure t cb) = CircuitOpen \<and> lastStateChange (RecordFailure t cb) = lastStateChange cb \<and>
   cbConfig (RecordFailure t cb) = cbConfig cb"
  by (simp add: RecordFailure_def Let_def)

lemma fail_all_open:
  "cbState cb = CircuitOpen \<Longrightarrow>
   cbState (fail_all ts cb) = CircuitOpen \<and> lastStateChange (fail_all ts cb) = lastStateChange cb \<and>
   cbConfig (fail_all ts cb) = cbConfig cb"
  by (induction ts arbitrary: cb) (auto simp: RecordFailure_open)

lemma fail_all_trips:
  assumes "cbState cb = CircuitClosed" "ts \<noteq> []"
    "failures cb + int (length ts) \<ge> MaxFailures (cbConfig cb)"
  shows "cbState (fail_all ts cb) = CircuitOpen \<and> cbConfig (fail_all ts cb) = cbConfig cb \<and>
    lastStateChange (fail_all ts cb) \<in> set ts"
  using assms
proof (induction ts arbitrary: cb)
  case (Cons t ts)
  show ?case
  proof (cases "failures cb + 1 \<ge> MaxFailures (cbConfig cb)")
    case True
    then have "cbState (RecordFailure t cb) = CircuitOpen" "lastStateChange (RecordFailure t cb) = t"
      "cbConfig (RecordFailure t cb) = cbConfig cb"
      using Cons.prems(1) by (simp_all add: RecordFailure_def Let_def)
    then show ?thesis by (simp add: fail_all_open)
  next
    case False
    then have r: "RecordFailure t cb = cb\<lparr>failures := failures cb + 1, lastFailure := t\<rparr>"
      using Cons.prems(1) by (simp add: RecordFailure_def Let_def)
    have "ts \<noteq> []" using False Cons.prems(3) by auto
    with Cons.IH [of "RecordFailure t cb"] Cons.prems r show ?thesis by simp
  qed
qed simp

fun succeed_all :: "gotime list \<Rightarrow> CircuitBreaker \<Rightarrow> CircuitBreaker" where
  "succeed_all [] cb = cb"
| "succeed_all (t # ts) cb = succeed_all ts (RecordSuccess t cb)"

lemma succeed_all_closes:
  assumes "cbState cb = CircuitHalfOpen" "ts \<noteq> []"
    "successes cb + int (length ts) = HalfOpenRequests (cbConfig cb)"
  shows "cbState (succeed_all ts cb) = CircuitClosed \<and> failures (succeed_all ts cb) = 0"
  using assms
proof (induction ts arbitrary: cb)
  case (Cons t ts)
  show ?case
  proof (cases "ts = []")
    case True
    with Cons.prems show ?thesis by (simp add: RecordSuccess_def Let_def)
  next
    case False
    then have r: "RecordSuccess t cb = cb\<lparr>failures := 0, successes := successes cb + 1\<rparr>"
      using Cons.prems by (cases ts) (auto simp: RecordSuccess_def Let_def)
    with Cons.IH [of "RecordSuccess t cb"] Cons.prems False show ?thesis by simp
  qed
qed simp

text \<open>
  The breaker trips and recovers. After as many consecutive failures as the limit a closed
  circuit is open; from then on every request is refused until the reset timeout has passed, no
  matter how many more failures are reported, and the first one after it is admitted and makes
  the circuit half-open; then one failure opens it again, and \<^verbatim>\<open>HalfOpenRequests\<close> successes close it.
\<close>

theorem breaker_trips_and_recovers:
  assumes "cbState cb = CircuitClosed" "ts \<noteq> []"
    and "failures cb + int (length ts) \<ge> MaxFailures (cbConfig cb)"
  defines "op \<equiv> fail_all ts cb"
  shows "cbState op = CircuitOpen \<and>
    (\<forall>now. now - lastStateChange op \<le> ResetTimeout (cbConfig cb) \<longrightarrow> Allow now op = (False, op)) \<and>
    (\<forall>now. now - lastStateChange op > ResetTimeout (cbConfig cb) \<longrightarrow>
       (let (ok, half) = Allow now op in ok \<and> cbState half = CircuitHalfOpen \<and>
          (\<forall>t. cbState (RecordFailure t half) = CircuitOpen) \<and>
          (\<forall>us. us \<noteq> [] \<and> int (length us) = HalfOpenRequests (cbConfig cb) \<longrightarrow>
             cbState (succeed_all us half) = CircuitClosed)))"
proof -
  have "cbState op = CircuitOpen" "cbConfig op = cbConfig cb"
    using fail_all_trips [OF assms(1-3)] by (simp_all add: op_def)
  moreover have "cbState (succeed_all us (op\<lparr>cbState := CircuitHalfOpen, successes := 0, lastStateChange := now\<rparr>))
      = CircuitClosed" if "us \<noteq> []" "int (length us) = HalfOpenRequests (cbConfig cb)" for us now
    using that calculation by (simp add: succeed_all_closes)
  ultimately show ?thesis by (auto simp: Allow_def RecordFailure_def Let_def)
qed

theorem breaker_trips_and_recovers_witness:
  "cbState (fail_all [1, 2, 3, 4, 5] (NewCircuitBreaker 0 None)) = CircuitOpen \<and>
   \<not> fst (Allow 6 (fail_all [1, 2, 3, 4, 5] (NewCircuitBreaker 0 None)))"
proof -
  have h: "cbState (NewCircuitBreaker 0 None) = CircuitClosed" "[1, 2, 3, 4, 5 :: int] \<noteq> []"
    "failures (NewCircuitBreaker 0 None) + int (length [1, 2, 3, 4, 5 :: int])
       \<ge> MaxFailures (cbConfig (NewCircuitBreaker 0 None))"
    by (simp_all add: NewCircuitBreaker_def DefaultCircuitBreakerConfig_def)
  have "6 - lastStateChange (fail_all [1, 2, 3, 4, 5] (NewCircuitBreaker 0 None))
      \<le> ResetTimeout (cbConfig (NewCircuitBreaker 0 None))"
    by (simp add: NewCircuitBreaker_def DefaultCircuitBreakerConfig_def RecordFailure_def Let_def)
  with breaker_trips_and_recovers [OF h] show ?thesis by auto
qed

section \<open>The retry loop of a worker\<close>

text \<open>
  \<^verbatim>\<open>processRequest\<close> for one request. The handler's answer at each attempt, whether the context was
  found done while waiting before an attempt, and whether the context has an error after it are
  given by functions of the attempt. \<^verbatim>\<open>break\<close> inside \<^verbatim>\<open>select\<close> leaves only the \<^verbatim>\<open>select\<close>, so a done
  context does not keep the handler from being called. The result is the success flag of the last
  response (none when the handler was never called) and the number of calls.
\<close>

function retry_loop :: "int \<Rightarrow> (nat \<Rightarrow> bool) \<Rightarrow> (nat \<Rightarrow> bool) \<Rightarrow> (nat \<Rightarrow> bool) \<Rightarrow> nat \<Rightarrow> bool option \<Rightarrow>
    bool option \<times> nat" where
  "retry_loop maxRetries handler waitDone ctxErr attempt resp =
     (if int attempt \<le> maxRetries
      then let resp' = (if attempt > 0 \<and> waitDone attempt then Some False else resp);
               ok = handler attempt
           in if ok then (Some True, Suc attempt)
              else if ctxErr attempt then (Some False, Suc attempt)
              else retry_loop maxRetries handler waitDone ctxErr (Suc attempt) (Some ok)
      else (resp, attempt))"
  by auto
termination by (relation "measure (\<lambda>(m, h, w, c, a, r). nat (m + 1 - int a))") auto

declare retry_loop.simps [simp del]

definition processRequest :: "int \<Rightarrow> (nat \<Rightarrow> bool) \<Rightarrow> (nat \<Rightarrow> bool) \<Rightarrow> (nat \<Rightarrow> bool) \<Rightarrow> bool option \<times> nat" where
  "processRequest maxRetries handler waitDone ctxErr =
     retry_loop maxRetries handler waitDone ctxErr 0 None"

lemma retry_loop_end: "\<not> int a \<le> m \<Longrightarrow> retry_loop m h w c a r = (r, a)"
  by (subst retry_loop.simps) simp

lemma retry_loop_spec:
  assumes "int a \<le> m"
  shows "\<exists>n. a < n \<and> int n \<le> m + 1 \<and> retry_loop m h w c a r = (Some (h (n - 1)), n) \<and>
    (\<forall>i. a \<le> i \<and> Suc i < n \<longrightarrow> \<not> h i \<and> \<not> c i) \<and>
    (h (n - 1) \<or> c (n - 1) \<or> int n = m + 1)"
  using assms
proof (induction m h w c a r rule: retry_loop.induct)
  case (1 m h w c a r)
  show ?case
  proof (cases "h a \<or> c a \<or> int a = m")
    case True
    then have "retry_loop m h w c a r = (Some (h a), Suc a)"
      using "1.prems" by (subst retry_loop.simps) (auto simp: Let_def retry_loop_end)
    with True "1.prems" show ?thesis by (intro exI [of _ "Suc a"]) auto
  next
    case False
    then have step: "retry_loop m h w c a r = retry_loop m h w c (Suc a) (Some False)"
      using "1.prems" by (subst retry_loop.simps) (simp add: Let_def)
    have "int (Suc a) \<le> m" using False "1.prems" by simp
    then obtain n where n: "Suc a < n" "int n \<le> m + 1"
      "retry_loop m h w c (Suc a) (Some False) = (Some (h (n - 1)), n)"
      "\<forall>i. Suc a \<le> i \<and> Suc i < n \<longrightarrow> \<not> h i \<and> \<not> c i" "h (n - 1) \<or> c (n - 1) \<or> int n = m + 1"
      using "1.IH" [OF "1.prems" refl refl] False by auto
    have "\<not> h i \<and> \<not> c i" if "a \<le> i" "Suc i < n" for i
      using that n(4) False by (cases "i = a") auto
    with n step show ?thesis by (intro exI [of _ n]) auto
  qed
qed

text \<open>
  A worker calls the handler at least once and at most \<^verbatim>\<open>MaxRetries + 1\<close> times, stops at the
  first success or at the first failure under a finished context, and reports success exactly when
  the last call succeeded.
\<close>

theorem processRequest_retries:
  assumes "0 \<le> maxRetries"
  shows "\<exists>n. 0 < n \<and> int n \<le> maxRetries + 1 \<and>
    processRequest maxRetries handler waitDone ctxErr = (Some (handler (n - 1)), n) \<and>
    (\<forall>i. Suc i < n \<longrightarrow> \<not> handler i \<and> \<not> ctxErr i) \<and>
    (handler (n - 1) \<or> ctxErr (n - 1) \<or> int n = maxRetries + 1)"
  using retry_loop_spec [of 0 maxRetries handler waitDone ctxErr None] assms
  by (simp add: processRequest_def)

theorem processRequest_retries_witness:
  "\<exists>n. 0 < n \<and> n \<le> 4 \<and> processRequest 3 (\<lambda>i. i = 2) (\<lambda>_. False) (\<lambda>_. False) = (Some (n - 1 = 2), n)"
  using processRequest_retries [of 3 "\<lambda>i. i = 2" "\<lambda>_. False" "\<lambda>_. False"] by auto

text \<open>A context found done during the back-off does not stop the loop: the handler runs once more.\<close>

lemma done_context_still_calls_handler:
  "processRequest 3 (\<lambda>i. i = 1) (\<lambda>_. True) (\<lambda>_. False) = (Some True, 2)"
  by (simp add: processRequest_def retry_loop.simps [of 3 _ _ _ 0] retry_loop.simps [of 3 _ _ _ "Suc 0"])

end
