(* ===== verification/Bloom.thy ===== *)
theory Bloom
  imports Schema
begin

unbundle bit_operations_syntax

text \<open>
  The Bloom filter of the watch list (\<^verbatim>\<open>pkg/watchlist/bloom.go\<close>): a set of addresses with no false
  negatives. The bit set is a list of 64-bit words; an index out of range panics in Go and is
  \<open>None\<close> here. The size and the number of hash functions come from floating-point formulas of the
  configuration, which are arguments; the statistics that are floating-point numbers are left out.
\<close>

record BloomFilter =
  bitset :: "u64 list"
  bfSize :: u64
  hashCount :: nat
  bfCount :: u64

definition mkBloomFilter :: "nat \<Rightarrow> nat \<Rightarrow> BloomFilter" where
  "mkBloomFilter ws k = \<lparr>bitset = replicate ws 0, bfSize = word_of_nat (64 * ws), hashCount = k, bfCount = 0\<rparr>"

section \<open>Hashing\<close>

text \<open>\<^verbatim>\<open>hash/fnv.New64a\<close>: FNV-1a with its offset basis and prime.\<close>

definition fnvHash :: "bytes \<Rightarrow> u64" where
  "fnvHash data = foldl (\<lambda>h c. (h XOR word_of_nat (byteVal c)) * 1099511628211)
     14695981039346656037 data"

text \<open>\<^verbatim>\<open>byte(i)\<close> keeps the low eight bits; a size of zero would be a division by zero.\<close>

definition bloomHash :: "geth \<Rightarrow> BloomFilter \<Rightarrow> address \<Rightarrow> nat \<Rightarrow> u64" where
  "bloomHash G bf addr i =
     (let h1 = fnvHash (addrBytes G addr);
          h2 = fnvHash (addrBytes G addr @ [byteChar (i mod 256)])
      in (h1 + word_of_nat i * h2) mod bfSize bf)"

section \<open>Bits\<close>

definition setBit :: "u64 \<Rightarrow> BloomFilter \<Rightarrow> BloomFilter option" where
  "setBit idx bf =
     (let wordIdx = unat (idx div 64); bitIdx = unat (idx mod 64) in
      if wordIdx < length (bitset bf)
      then Some (bf\<lparr>bitset := (bitset bf)[wordIdx := bitset bf ! wordIdx OR push_bit bitIdx 1]\<rparr>)
      else None)"

definition getBit :: "u64 \<Rightarrow> BloomFilter \<Rightarrow> bool option" where
  "getBit idx bf =
     (let wordIdx = unat (idx div 64); bitIdx = unat (idx mod 64) in
      if wordIdx < length (bitset bf)
      then Some (bitset bf ! wordIdx AND push_bit bitIdx 1 \<noteq> 0)
      else None)"

section \<open>Operations\<close>

fun addBits :: "geth \<Rightarrow> address \<Rightarrow> nat list \<Rightarrow> BloomFilter \<Rightarrow> BloomFilter option" where
  "addBits G addr [] bf = Some bf"
| "addBits G addr (i # is) bf =
     (case setBit (bloomHash G bf addr i) bf of
        None \<Rightarrow> None
      | Some bf' \<Rightarrow> addBits G addr is bf')"

definition Bloom_Add :: "geth \<Rightarrow> address \<Rightarrow> BloomFilter \<Rightarrow> BloomFilter option" where
  "Bloom_Add G addr bf =
     map_option (\<lambda>b. b\<lparr>bfCount := bfCount b + 1\<rparr>) (addBits G addr [0..<hashCount bf] bf)"

fun Bloom_AddBatch :: "geth \<Rightarrow> address list \<Rightarrow> BloomFilter \<Rightarrow> BloomFilter option" where
  "Bloom_AddBatch G [] bf = Some bf"
| "Bloom_AddBatch G (a # as) bf =
     (case Bloom_Add G a bf of None \<Rightarrow> None | Some bf' \<Rightarrow> Bloom_AddBatch G as bf')"

fun allBits :: "geth \<Rightarrow> address \<Rightarrow> nat list \<Rightarrow> BloomFilter \<Rightarrow> bool option" where
  "allBits G addr [] bf = Some True"
| "allBits G addr (i # is) bf =
     (case getBit (bloomHash G bf addr i) bf of
        None \<Rightarrow> None
      | Some b \<Rightarrow> if b then allBits G addr is bf else Some False)"

definition MightContain :: "geth \<Rightarrow> address \<Rightarrow> BloomFilter \<Rightarrow> bool option" where
  "MightContain G addr bf = allBits G addr [0..<hashCount bf] bf"

fun MightContainAny :: "geth \<Rightarrow> address list \<Rightarrow> BloomFilter \<Rightarrow> bool option" where
  "MightContainAny G [] bf = Some False"
| "MightContainAny G (a # as) bf =
     (case allBits G a [0..<hashCount bf] bf of
        None \<Rightarrow> None
      | Some b \<Rightarrow> if b then Some True else MightContainAny G as bf)"

definition Bloom_Clear :: "BloomFilter \<Rightarrow> BloomFilter" where
  "Bloom_Clear bf = bf\<lparr>bitset := map (\<lambda>_. 0) (bitset bf), bfCount := 0\<rparr>"

definition Bloom_Bytes :: "BloomFilter \<Rightarrow> bytes" where
  "Bloom_Bytes bf = concat (map EncodeUint64 (bitset bf))"

fun readWords :: "nat \<Rightarrow> bytes \<Rightarrow> u64 list" where
  "readWords 0 data = []"
| "readWords (Suc n) data =
     word_of_nat (readDigits byteVal 256 0 (take 8 data)) # readWords n (drop 8 data)"

text \<open>\<open>dflt\<close> is the filter of the default configuration, used for empty data.\<close>

definition NewBloomFilterFromBytes :: "BloomFilter \<Rightarrow> bytes \<Rightarrow> nat \<Rightarrow> BloomFilter" where
  "NewBloomFilterFromBytes dflt data k =
     (if data = [] then dflt
      else \<lparr>bitset = readWords (length data div 8) data, bfSize = word_of_nat (length data * 8),
            hashCount = k, bfCount = 0\<rparr>)"

datatype bloom_error = ErrBloomFilterSizeMismatch

definition Bloom_Merge :: "BloomFilter \<Rightarrow> BloomFilter \<Rightarrow> bloom_error + BloomFilter" where
  "Bloom_Merge bf other =
     (if bfSize bf \<noteq> bfSize other then Inl ErrBloomFilterSizeMismatch
      else Inr (bf\<lparr>bitset := map2 (OR) (bitset bf) (bitset other)\<rparr>))"

section \<open>Well-formed filters\<close>

definition bloom_wf :: "BloomFilter \<Rightarrow> bool" where
  "bloom_wf bf \<longleftrightarrow> 0 < length (bitset bf) \<and> 64 * length (bitset bf) < 2 ^ 64 \<and>
     bfSize bf = word_of_nat (64 * length (bitset bf))"

definition hasBit :: "BloomFilter \<Rightarrow> u64 \<Rightarrow> bool" where
  "hasBit bf idx \<longleftrightarrow> bit (bitset bf ! unat (idx div 64)) (unat (idx mod 64))"

lemma bloomHash_bound:
  assumes "bloom_wf bf"
  shows "unat (bloomHash G bf addr i div 64) < length (bitset bf)"
proof -
  have s: "unat (bfSize bf) = 64 * length (bitset bf)"
    using assms unat_of_nat_u64 [of "64 * length (bitset bf)"] unfolding bloom_wf_def by metis
  have "unat (bloomHash G bf addr i) < unat (bfSize bf)"
    using assms s by (simp add: bloomHash_def Let_def unat_mod bloom_wf_def)
  then show ?thesis using s by (simp add: unat_div less_mult_imp_div_less mult.commute)
qed

lemma unat_mod_64: "unat ((idx :: u64) mod 64) < 64"
  by (simp add: unat_mod)

lemma getBit_wf: "bloom_wf bf \<Longrightarrow> getBit (bloomHash G bf addr i) bf = Some (hasBit bf (bloomHash G bf addr i))"
  using bloomHash_bound [of bf G addr i]
  by (simp add: getBit_def hasBit_def Let_def bit_iff_and_push_bit_not_eq_0)

lemma allBits_wf:
  "bloom_wf bf \<Longrightarrow> allBits G addr is bf = Some (\<forall>i\<in>set is. hasBit bf (bloomHash G bf addr i))"
  by (induction "is") (simp_all add: getBit_wf)

lemma MightContain_wf:
  "bloom_wf bf \<Longrightarrow> MightContain G addr bf = Some (\<forall>i<hashCount bf. hasBit bf (bloomHash G bf addr i))"
  by (simp add: MightContain_def allBits_wf atLeast0LessThan Ball_def)

section \<open>Adding bits\<close>

text \<open>\<open>more_bits bf bf'\<close>: same shape, and every bit of \<open>bf\<close> is in \<open>bf'\<close>.\<close>

definition more_bits :: "BloomFilter \<Rightarrow> BloomFilter \<Rightarrow> bool" where
  "more_bits bf bf' \<longleftrightarrow> length (bitset bf') = length (bitset bf) \<and> bfSize bf' = bfSize bf \<and>
     hashCount bf' = hashCount bf \<and> (\<forall>w<length (bitset bf). \<forall>n. bit (bitset bf ! w) n \<longrightarrow> bit (bitset bf' ! w) n)"

lemma more_bits_refl [simp]: "more_bits bf bf"
  by (simp add: more_bits_def)

lemma more_bits_trans: "more_bits a b \<Longrightarrow> more_bits b c \<Longrightarrow> more_bits a c"
  by (simp add: more_bits_def)

lemma more_bits_wf: "more_bits a b \<Longrightarrow> bloom_wf b = bloom_wf a"
  by (simp add: more_bits_def bloom_wf_def)

lemma more_bits_hash: "more_bits a b \<Longrightarrow> bloomHash G b = bloomHash G a"
  by (simp add: more_bits_def bloomHash_def fun_eq_iff Let_def)

lemma more_bits_hasBit:
  "more_bits a b \<Longrightarrow> unat (idx div 64) < length (bitset a) \<Longrightarrow> hasBit a idx \<Longrightarrow> hasBit b idx"
  by (simp add: more_bits_def hasBit_def)

lemma setBit_wf:
  assumes "unat (idx div 64) < length (bitset bf)"
  shows "\<exists>bf'. setBit idx bf = Some bf' \<and> more_bits bf bf' \<and> hasBit bf' idx \<and> bfCount bf' = bfCount bf"
proof -
  let ?w = "unat (idx div 64)" and ?n = "unat (idx mod 64)"
  let ?b = "bf\<lparr>bitset := (bitset bf)[?w := bitset bf ! ?w OR push_bit ?n 1]\<rparr>"
  have "setBit idx bf = Some ?b" using assms by (simp add: setBit_def Let_def)
  moreover have "more_bits bf ?b"
    using assms by (simp add: more_bits_def nth_list_update bit_or_iff)
  moreover have "hasBit ?b idx"
    using assms unat_mod_64 [of idx]
    by (simp add: hasBit_def bit_or_iff bit_push_bit_iff bit_exp_iff)
  ultimately show ?thesis by auto
qed

lemma addBits_wf:
  assumes "bloom_wf bf"
  shows "\<exists>bf'. addBits G addr is bf = Some bf' \<and> more_bits bf bf' \<and> bfCount bf' = bfCount bf \<and>
    (\<forall>i\<in>set is. hasBit bf' (bloomHash G bf addr i))"
  using assms
proof (induction "is" arbitrary: bf)
  case (Cons i "is")
  obtain b1 where b1: "setBit (bloomHash G bf addr i) bf = Some b1" "more_bits bf b1"
    "hasBit b1 (bloomHash G bf addr i)" "bfCount b1 = bfCount bf"
    using setBit_wf [OF bloomHash_bound [OF Cons.prems]] by blast
  have wf1: "bloom_wf b1" using more_bits_wf [OF b1(2)] Cons.prems by simp
  from Cons.IH [OF wf1] obtain b2 where b2: "addBits G addr is b1 = Some b2" "more_bits b1 b2"
    "bfCount b2 = bfCount b1" "\<forall>j\<in>set is. hasBit b2 (bloomHash G b1 addr j)" by blast
  have h: "bloomHash G b1 = bloomHash G bf" by (rule more_bits_hash [OF b1(2)])
  have "hasBit b2 (bloomHash G bf addr i)"
    using more_bits_hasBit [OF b2(2) _ b1(3)] bloomHash_bound [OF wf1, of G addr i] h by simp
  with b1 b2 h more_bits_trans [OF b1(2) b2(2)] show ?case by auto
qed simp

lemma Bloom_Add_wf:
  assumes "bloom_wf bf"
  shows "\<exists>bf'. Bloom_Add G addr bf = Some bf' \<and> more_bits bf bf' \<and> bloom_wf bf' \<and>
    bfCount bf' = bfCount bf + 1 \<and> MightContain G addr bf' = Some True"
proof -
  obtain b where b: "addBits G addr [0..<hashCount bf] bf = Some b" "more_bits bf b"
    "bfCount b = bfCount bf" "\<forall>i<hashCount bf. hasBit b (bloomHash G bf addr i)"
    using addBits_wf [OF assms, of G addr "[0..<hashCount bf]"] by auto
  let ?b = "b\<lparr>bfCount := bfCount b + 1\<rparr>"
  have m: "more_bits bf ?b" using b(2) by (simp add: more_bits_def)
  then have wf: "bloom_wf ?b" using more_bits_wf [OF m] assms by blast
  have k: "hashCount ?b = hashCount bf" using m by (simp add: more_bits_def)
  have "MightContain G addr ?b = Some True"
    using b(4) more_bits_hash [OF m, of G] k
    by (simp add: MightContain_wf [OF wf] hasBit_def)
  with b(1,3) m wf show ?thesis by (simp add: Bloom_Add_def)
qed

lemma more_bits_MightContain:
  assumes "bloom_wf a" "more_bits a b" "MightContain G addr a = Some True"
  shows "MightContain G addr b = Some True"
proof -
  have wf: "bloom_wf b" using more_bits_wf [OF assms(2)] assms(1) by simp
  have "hashCount b = hashCount a" using assms(2) by (simp add: more_bits_def)
  then show ?thesis
    using assms(3) more_bits_hash [OF assms(2), of G] bloomHash_bound [OF assms(1)]
      more_bits_hasBit [OF assms(2)]
    by (simp add: MightContain_wf [OF wf] MightContain_wf [OF assms(1)])
qed

section \<open>Properties\<close>

text \<open>
  No false negatives. Adding addresses to a well-formed filter does not panic, every added
  address is reported as possibly present from then on, and so is every address that was before.
\<close>

theorem bloom_no_false_negatives:
  assumes "bloom_wf bf"
  shows "\<exists>bf'. Bloom_AddBatch G addrs bf = Some bf' \<and> bloom_wf bf' \<and>
    (\<forall>a\<in>set addrs. MightContain G a bf' = Some True) \<and>
    (\<forall>a. MightContain G a bf = Some True \<longrightarrow> MightContain G a bf' = Some True)"
proof -
  have "\<exists>bf'. Bloom_AddBatch G addrs bf = Some bf' \<and> bloom_wf bf' \<and> more_bits bf bf' \<and>
      (\<forall>a\<in>set addrs. MightContain G a bf' = Some True)"
    using assms
  proof (induction addrs arbitrary: bf)
    case (Cons a as)
    obtain b1 where b1: "Bloom_Add G a bf = Some b1" "more_bits bf b1" "bloom_wf b1"
      "MightContain G a b1 = Some True"
      using Bloom_Add_wf [OF Cons.prems] by blast
    from Cons.IH [OF b1(3)] obtain b2 where b2: "Bloom_AddBatch G as b1 = Some b2" "bloom_wf b2"
      "more_bits b1 b2" "\<forall>x\<in>set as. MightContain G x b2 = Some True" by blast
    have "MightContain G a b2 = Some True"
      by (rule more_bits_MightContain [OF b1(3) b2(3) b1(4)])
    with b1 b2 more_bits_trans [OF b1(2) b2(3)] show ?case by auto
  qed simp
  then show ?thesis using more_bits_MightContain [OF assms] by blast
qed

lemma mkBloomFilter_wf: "0 < ws \<Longrightarrow> 64 * ws < 2 ^ 64 \<Longrightarrow> bloom_wf (mkBloomFilter ws k)"
  by (simp add: bloom_wf_def mkBloomFilter_def)

theorem bloom_no_false_negatives_witness:
  "\<exists>bf'. Bloom_AddBatch sampleGeth [5, 9] (mkBloomFilter 2 3) = Some bf' \<and>
     MightContain sampleGeth 9 bf' = Some True"
  using bloom_no_false_negatives [OF mkBloomFilter_wf [of 2 3], of sampleGeth "[5, 9]"] by auto

lemma readWords_concat: "readWords (length ws) (concat (map EncodeUint64 ws)) = ws"
proof (induction ws)
  case (Cons w ws)
  have "word_of_nat (readDigits byteVal 256 0 (EncodeUint64 w)) = w"
    using DecodeUint64_EncodeUint64 [of w] by (simp add: DecodeUint64_def)
  with Cons show ?case by simp
qed simp

lemma length_Bloom_Bytes: "length (Bloom_Bytes bf) = 8 * length (bitset bf)"
  by (simp add: Bloom_Bytes_def length_concat o_def sum_list_triv)

text \<open>
  A well-formed filter survives serialisation: read back from its bytes with the same number of
  hash functions it has the same bits and answers every query the same way.
\<close>

theorem bloom_bytes_roundtrip:
  assumes "bloom_wf bf" "bf' = NewBloomFilterFromBytes dflt (Bloom_Bytes bf) (hashCount bf)"
  shows "bitset bf' = bitset bf \<and> bloom_wf bf' \<and>
    (\<forall>a. MightContain G a bf' = MightContain G a bf)"
proof -
  have ne: "Bloom_Bytes bf \<noteq> []"
    using assms(1) length_Bloom_Bytes [of bf] by (auto simp: bloom_wf_def)
  have r: "readWords (length (bitset bf)) (Bloom_Bytes bf) = bitset bf"
    by (simp add: Bloom_Bytes_def readWords_concat)
  then have e: "bf' = bf\<lparr>bfCount := 0\<rparr>"
    using ne assms(1) length_Bloom_Bytes [of bf]
    by (simp add: assms(2) NewBloomFilterFromBytes_def bloom_wf_def mult.commute)
  then have wf: "bloom_wf bf'" using assms(1) by (simp add: bloom_wf_def)
  have "bloomHash G bf' = bloomHash G bf" using e by (simp add: bloomHash_def fun_eq_iff)
  moreover have "hasBit bf' idx = hasBit bf idx" "hashCount bf' = hashCount bf" for idx
    using e by (simp_all add: hasBit_def)
  ultimately have "MightContain G a bf' = MightContain G a bf" for a
    by (simp add: MightContain_wf [OF wf] MightContain_wf [OF assms(1)])
  with e wf show ?thesis by simp
qed

theorem bloom_bytes_roundtrip_witness:
  "bitset (NewBloomFilterFromBytes (mkBloomFilter 1 1) (Bloom_Bytes (mkBloomFilter 2 3)) 3) = [0, 0]"
proof -
  have "bloom_wf (mkBloomFilter 2 3)" by (rule mkBloomFilter_wf) simp_all
  moreover have "bitset (mkBloomFilter 2 3) = [0, 0]" "hashCount (mkBloomFilter 2 3) = 3"
    by (simp_all add: mkBloomFilter_def numeral_2_eq_2)
  ultimately show ?thesis
    using bloom_bytes_roundtrip [OF _ refl, of "mkBloomFilter 2 3" "mkBloomFilter 1 1"] by simp
qed

text \<open>
  Merging two well-formed filters of the same size and number of hash functions reports every
  address either of them reported; filters of different sizes are refused.
\<close>

theorem bloom_merge_union:
  assumes "bloom_wf bf" "bloom_wf other"
  shows "(bfSize bf \<noteq> bfSize other \<longrightarrow> Bloom_Merge bf other = Inl ErrBloomFilterSizeMismatch) \<and>
    (bfSize bf = bfSize other \<and> hashCount bf = hashCount other \<longrightarrow>
      (\<exists>m. Bloom_Merge bf other = Inr m \<and> bloom_wf m \<and>
        (\<forall>a. MightContain G a bf = Some True \<or> MightContain G a other = Some True \<longrightarrow>
           MightContain G a m = Some True)))"
proof -
  have "\<exists>m. Bloom_Merge bf other = Inr m \<and> bloom_wf m \<and>
        (\<forall>a. MightContain G a bf = Some True \<or> MightContain G a other = Some True \<longrightarrow>
           MightContain G a m = Some True)"
    if eq: "bfSize bf = bfSize other" "hashCount bf = hashCount other"
  proof -
    have "length (bitset bf) = length (bitset other)"
    proof -
      have "64 * length (bitset bf) = 64 * length (bitset other)"
        using assms eq(1) unat_of_nat_u64 unfolding bloom_wf_def by metis
      then show ?thesis by simp
    qed
    then have "more_bits bf (bf\<lparr>bitset := map2 (OR) (bitset bf) (bitset other)\<rparr>)"
      "more_bits other (bf\<lparr>bitset := map2 (OR) (bitset bf) (bitset other)\<rparr>)"
      using eq by (simp_all add: more_bits_def bit_or_iff)
    then show ?thesis
      using eq(1) more_bits_MightContain [OF assms(1)] more_bits_MightContain [OF assms(2)]
        more_bits_wf assms(1)
      by (intro exI [of _ "bf\<lparr>bitset := map2 (OR) (bitset bf) (bitset other)\<rparr>"])
         (auto simp: Bloom_Merge_def)
  qed
  then show ?thesis by (auto simp: Bloom_Merge_def)
qed

theorem bloom_merge_union_witness:
  "\<exists>m. Bloom_Merge (mkBloomFilter 2 3) (mkBloomFilter 2 3) = Inr m \<and> bloom_wf m"
  using bloom_merge_union [OF mkBloomFilter_wf [of 2 3] mkBloomFilter_wf [of 2 3]] by auto

text \<open>
  Merging does not compare the numbers of hash functions. An address the other filter reports can
  be missing from the union: here when the merged filter asks for a bit that neither of them has.
\<close>

lemma merge_different_hash_counts_loses_address:
  assumes "bloom_wf bf" "bloom_wf other" "bfSize bf = bfSize other" "Bloom_Merge bf other = Inr m"
    and "i < hashCount bf" "\<not> hasBit bf (bloomHash G bf a i)" "\<not> hasBit other (bloomHash G bf a i)"
  shows "MightContain G a m = Some False"
proof -
  have len: "length (bitset bf) = length (bitset other)"
  proof -
    have "64 * length (bitset bf) = 64 * length (bitset other)"
      using assms(1-3) unat_of_nat_u64 unfolding bloom_wf_def by metis
    then show ?thesis by simp
  qed
  have m: "m = bf\<lparr>bitset := map2 (OR) (bitset bf) (bitset other)\<rparr>"
    using assms(3,4) by (simp add: Bloom_Merge_def)
  then have "bloom_wf m" using assms(1) len by (simp add: bloom_wf_def)
  moreover have "bloomHash G m = bloomHash G bf" using m by (simp add: bloomHash_def fun_eq_iff)
  moreover have "\<not> hasBit m (bloomHash G bf a i)"
    using assms(6,7) m len bloomHash_bound [OF assms(1), of G a i]
    by (simp add: hasBit_def bit_or_iff)
  ultimately show ?thesis using assms(5) m by (auto simp: MightContain_wf)
qed

end
