(* ===== verification/WatchMatch.thy ===== *)
theory WatchMatch
  imports AddressIndex Bloom
begin

text \<open>
  The matcher of the watch list (\<^verbatim>\<open>pkg/watchlist/types.go\<close>, \<^verbatim>\<open>filter.go\<close>): which events of a block concern a
  watched address. A Bloom filter of every chain is asked first, the table of addresses decides. The sender
  that go-ethereum recovers from a signature and the transaction index of a receipt are parameters, as is the
  filter that \<^verbatim>\<open>NewBloomFilter(nil)\<close> makes with its floating-point formulas. A time is its nanosecond count,
  \<open>None\<close> the zero time.
\<close>

section \<open>Watched addresses and events\<close>

definition WatchEventTypeTxFrom :: string where "WatchEventTypeTxFrom = ''tx_from''"
definition WatchEventTypeTxTo :: string where "WatchEventTypeTxTo = ''tx_to''"
definition WatchEventTypeERC20Transfer :: string where "WatchEventTypeERC20Transfer = ''erc20_transfer''"
definition WatchEventTypeERC721Transfer :: string where "WatchEventTypeERC721Transfer = ''erc721_transfer''"
definition WatchEventTypeLog :: string where "WatchEventTypeLog = ''log''"

lemmas watch_type_defs = WatchEventTypeTxFrom_def WatchEventTypeTxTo_def WatchEventTypeERC20Transfer_def
  WatchEventTypeERC721Transfer_def WatchEventTypeLog_def

record WatchFilter =
  wfTxFrom :: bool
  wfTxTo :: bool
  wfERC20 :: bool
  wfERC721 :: bool
  wfLogs :: bool
  wfMinValue :: string

definition DefaultWatchFilter :: WatchFilter where
  "DefaultWatchFilter = \<lparr>wfTxFrom = True, wfTxTo = True, wfERC20 = True, wfERC721 = True, wfLogs = False, wfMinValue = []\<rparr>"

record WatchStats =
  wsTotalEvents :: u64
  wsTxFromCount :: u64
  wsTxToCount :: u64
  wsERC20Count :: u64
  wsERC721Count :: u64
  wsLogCount :: u64
  wsLastEventAt :: "u64 option"
  wsLastBlockNumber :: u64

record WatchedAddress =
  waID :: string
  waAddress :: address
  waChainID :: string
  waLabel :: string
  waFilter :: "WatchFilter option"
  waCreatedAt :: u64
  waUpdatedAt :: u64
  waStats :: "WatchStats option"

record TxEventData =
  tdFrom :: address
  tdTo :: address
  tdValue :: string
  tdGasUsed :: u64
  tdGasPrice :: string
  tdNonce :: u64

record ERC20EventData =
  edToken :: address
  edFrom :: address
  edTo :: address
  edAmount :: string

record ERC721EventData =
  ndToken :: address
  ndFrom :: address
  ndTo :: address
  ndTokenID :: string

record LogEventData =
  ldAddress :: address
  ldTopics :: "hash list"
  ldData :: string

datatype watch_data = TxData TxEventData | ERC20Data ERC20EventData | ERC721Data ERC721EventData | LogData LogEventData

text \<open>The matcher leaves identifier and time empty; the service fills them in.\<close>

record WatchEvent =
  weID :: string
  weAddressID :: string
  weAddress :: address
  weChainID :: string
  weEventType :: string
  weBlockNumber :: u64
  weBlockHash :: hash
  weTxHash :: hash
  weTxIndex :: u64
  weLogIndex :: "u64 option"
  weData :: watch_data
  weTimestamp :: "u64 option"
  weValue :: string
  weFrom :: address
  weTo :: address
  weTokenID :: string
  weTokenAmount :: string

section \<open>The table of addresses\<close>

record EventMatcher =
  bloomFilters :: "string \<Rightarrow> BloomFilter option"
  addresses :: "string \<Rightarrow> (address \<Rightarrow> WatchedAddress option) option"

definition NewEventMatcher :: EventMatcher where
  "NewEventMatcher = \<lparr>bloomFilters = (\<lambda>_. None), addresses = (\<lambda>_. None)\<rparr>"

text \<open>\<open>bf0\<close> is a fresh filter; an index out of range in the filter is a panic.\<close>

definition AddAddress :: "geth \<Rightarrow> BloomFilter \<Rightarrow> WatchedAddress \<Rightarrow> EventMatcher \<Rightarrow> serror + EventMatcher" where
  "AddAddress G bf0 w m =
     (let chainID = waChainID w;
          chainMap = (case addresses m chainID of None \<Rightarrow> (\<lambda>_. None) | Some t \<Rightarrow> t);
          m = m\<lparr>addresses := (addresses m)(chainID := Some (chainMap(waAddress w := Some w)))\<rparr>;
          bf = (case bloomFilters m chainID of None \<Rightarrow> bf0 | Some bf \<Rightarrow> bf)
      in case Bloom_Add G (waAddress w) bf of
           None \<Rightarrow> Inl (Panic ''index out of range'')
         | Some bf' \<Rightarrow> Inr (m\<lparr>bloomFilters := (bloomFilters m)(chainID := Some bf')\<rparr>))"

definition RemoveAddress :: "string \<Rightarrow> address \<Rightarrow> EventMatcher \<Rightarrow> EventMatcher" where
  "RemoveAddress chainID a m = (case addresses m chainID of
     None \<Rightarrow> m
   | Some chainMap \<Rightarrow> m\<lparr>addresses := (addresses m)(chainID := Some (chainMap(a := None)))\<rparr>)"

definition SetBloomFilter :: "string \<Rightarrow> BloomFilter \<Rightarrow> EventMatcher \<Rightarrow> EventMatcher" where
  "SetBloomFilter chainID bf m = m\<lparr>bloomFilters := (bloomFilters m)(chainID := Some bf)\<rparr>"

definition GetBloomFilter :: "string \<Rightarrow> EventMatcher \<Rightarrow> BloomFilter option" where
  "GetBloomFilter chainID m = bloomFilters m chainID"

definition HasWatchedAddresses :: "string \<Rightarrow> EventMatcher \<Rightarrow> bool" where
  "HasWatchedAddresses chainID m = (case addresses m chainID of None \<Rightarrow> False | Some t \<Rightarrow> t \<noteq> (\<lambda>_. None))"

definition GetWatchedAddressCount :: "string \<Rightarrow> EventMatcher \<Rightarrow> nat" where
  "GetWatchedAddressCount chainID m = (case addresses m chainID of None \<Rightarrow> 0 | Some t \<Rightarrow> card (dom t))"

section \<open>Matching\<close>

text \<open>\<^verbatim>\<open>SetString(s, 10)\<close>: an optional sign, then digits.\<close>

definition decDigits :: "string \<Rightarrow> int option" where
  "decDigits ds = (if ds \<noteq> [] \<and> list_all (\<lambda>c. 48 \<le> byteVal c \<and> byteVal c \<le> 57) ds
     then Some (int (readDigits (\<lambda>c. byteVal c - 48) 10 0 ds)) else None)"

definition SetString10 :: "string \<Rightarrow> int option" where
  "SetString10 x = (case x of
       [] \<Rightarrow> None
     | c # ds \<Rightarrow> if c = CHR ''-'' then map_option uminus (decDigits ds)
         else if c = CHR ''+'' then decDigits ds else decDigits x)"

definition matchesValueFilter :: "int \<Rightarrow> string \<Rightarrow> bool" where
  "matchesValueFilter value minValue = (if minValue = [] then True
     else case SetString10 minValue of None \<Rightarrow> True | Some m \<Rightarrow> value \<ge> m)"

text \<open>
  What the code repeats for every address it looks at: the filter, the table, the option of the address, and
  then an event. A watched address without a filter is a nil pointer.
\<close>

definition eventIf :: "geth \<Rightarrow> BloomFilter \<Rightarrow> (address \<Rightarrow> WatchedAddress option) \<Rightarrow> address \<Rightarrow> (WatchFilter \<Rightarrow> bool) \<Rightarrow>
    (WatchedAddress \<Rightarrow> WatchEvent) \<Rightarrow> serror + WatchEvent list" where
  "eventIf G bf chainAddrs a wanted mk = (case MightContain G a bf of
       None \<Rightarrow> Inl (Panic ''index out of range'')
     | Some b \<Rightarrow> if \<not> b then Inr [] else (case chainAddrs a of
          None \<Rightarrow> Inr []
        | Some watched \<Rightarrow> (case waFilter watched of
             None \<Rightarrow> Inl (Panic ''nil pointer dereference'')
           | Some f \<Rightarrow> Inr (if wanted f then [mk watched] else []))))"

definition andEvents :: "serror + 'a list \<Rightarrow> serror + 'a list \<Rightarrow> serror + 'a list" where
  "andEvents x y = (case x of Inl e \<Rightarrow> Inl e | Inr xs \<Rightarrow> (case y of Inl e \<Rightarrow> Inl e | Inr ys \<Rightarrow> Inr (xs @ ys)))"

definition createTxEvent :: "(receipt \<Rightarrow> u64) \<Rightarrow> WatchedAddress \<Rightarrow> string \<Rightarrow> tx \<Rightarrow> receipt \<Rightarrow> address \<Rightarrow> address option \<Rightarrow>
    u64 \<Rightarrow> hash \<Rightarrow> WatchEvent" where
  "createTxEvent txIndex watched eventType t r sender to blockNumber blockHash =
     (let to = (case to of None \<Rightarrow> 0 | Some a \<Rightarrow> a) in
      \<lparr>weID = [], weAddressID = waID watched, weAddress = waAddress watched, weChainID = waChainID watched,
       weEventType = eventType, weBlockNumber = blockNumber, weBlockHash = blockHash, weTxHash = tHash t,
       weTxIndex = txIndex r, weLogIndex = None,
       weData = TxData \<lparr>tdFrom = sender, tdTo = to, tdValue = showInt (tValue t), tdGasUsed = rGasUsed r,
         tdGasPrice = showInt (tGasPrice t), tdNonce = tNonce t\<rparr>,
       weTimestamp = None, weValue = showInt (tValue t), weFrom = sender, weTo = to, weTokenID = [], weTokenAmount = []\<rparr>)"

text \<open>\<^verbatim>\<open>common.Bytes2Hex\<close>: two digits for every byte.\<close>

definition Bytes2Hex :: "bytes \<Rightarrow> string" where
  "Bytes2Hex data = concat (map (\<lambda>c. fixedDigits digitChar 16 2 (byteVal c)) data)"

definition createLogEvent :: "WatchedAddress \<Rightarrow> string \<Rightarrow> log \<Rightarrow> u64 \<Rightarrow> hash \<Rightarrow> WatchEvent" where
  "createLogEvent watched eventType l blockNumber blockHash =
     \<lparr>weID = [], weAddressID = waID watched, weAddress = waAddress watched, weChainID = waChainID watched,
      weEventType = eventType, weBlockNumber = blockNumber, weBlockHash = blockHash, weTxHash = lTxHash l,
      weTxIndex = lTxIndex l, weLogIndex = Some (lIndex l),
      weData = LogData \<lparr>ldAddress = lAddress l, ldTopics = lTopics l, ldData = Bytes2Hex (lData l)\<rparr>,
      weTimestamp = None, weValue = [], weFrom = 0, weTo = 0, weTokenID = [], weTokenAmount = []\<rparr>"

definition createERC20Event :: "WatchedAddress \<Rightarrow> log \<Rightarrow> address \<Rightarrow> address \<Rightarrow> u64 \<Rightarrow> hash \<Rightarrow> WatchEvent" where
  "createERC20Event watched l sender to blockNumber blockHash =
     (let amount = showInt (SetBytes (lData l)) in
      (createLogEvent watched WatchEventTypeERC20Transfer l blockNumber blockHash)
        \<lparr>weFrom := sender, weTo := to, weTokenAmount := amount,
         weData := ERC20Data \<lparr>edToken = lAddress l, edFrom = sender, edTo = to, edAmount = amount\<rparr>\<rparr>)"

definition createERC721Event :: "WatchedAddress \<Rightarrow> log \<Rightarrow> address \<Rightarrow> address \<Rightarrow> u64 \<Rightarrow> hash \<Rightarrow> WatchEvent" where
  "createERC721Event watched l sender to blockNumber blockHash =
     (let tokenID = showInt (SetBytes (hashBytes (lTopics l ! 3))) in
      (createLogEvent watched WatchEventTypeERC721Transfer l blockNumber blockHash)
        \<lparr>weFrom := sender, weTo := to, weTokenID := tokenID,
         weData := ERC721Data \<lparr>ndToken = lAddress l, ndFrom = sender, ndTo = to, ndTokenID = tokenID\<rparr>\<rparr>)"

definition Matcher_MatchTransaction :: "geth \<Rightarrow> (tx \<Rightarrow> address option) \<Rightarrow> (receipt \<Rightarrow> u64) \<Rightarrow> EventMatcher \<Rightarrow> string \<Rightarrow> tx \<Rightarrow> receipt \<Rightarrow>
    u64 \<Rightarrow> hash \<Rightarrow> serror + WatchEvent list" where
  "Matcher_MatchTransaction G sender txIndex m chainID t r blockNumber blockHash =
     (case (bloomFilters m chainID, addresses m chainID) of
        (Some bf, Some chainAddrs) \<Rightarrow> (case sender t of
            None \<Rightarrow> Inr []
          | Some frm \<Rightarrow> andEvents
              (eventIf G bf chainAddrs frm (\<lambda>f. wfTxFrom f \<and> matchesValueFilter (tValue t) (wfMinValue f))
                (\<lambda>w. createTxEvent txIndex w WatchEventTypeTxFrom t r frm (tTo t) blockNumber blockHash))
              (case tTo t of None \<Rightarrow> Inr [] | Some to \<Rightarrow>
                eventIf G bf chainAddrs to (\<lambda>f. wfTxTo f \<and> matchesValueFilter (tValue t) (wfMinValue f))
                  (\<lambda>w. createTxEvent txIndex w WatchEventTypeTxTo t r frm (tTo t) blockNumber blockHash)))
      | _ \<Rightarrow> Inr [])"

definition WatchTransferTopic :: hash where
  "WatchTransferTopic = 0xddf252ad1be2c89b69c2b068fc378daa952ba7f163c4a11628f55a4df523b3ef"

definition matchLog1 :: "geth \<Rightarrow> BloomFilter \<Rightarrow> (address \<Rightarrow> WatchedAddress option) \<Rightarrow> u64 \<Rightarrow> hash \<Rightarrow> log \<Rightarrow> serror + WatchEvent list" where
  "matchLog1 G bf chainAddrs blockNumber blockHash l = andEvents
     (eventIf G bf chainAddrs (lAddress l) wfLogs (\<lambda>w. createLogEvent w WatchEventTypeLog l blockNumber blockHash))
     (if length (lTopics l) \<ge> 3 \<and> lTopics l ! 0 = WatchTransferTopic then
        let frm = bytesToAddr G (hashBytes (lTopics l ! 1)); to = bytesToAddr G (hashBytes (lTopics l ! 2)) in
        if length (lTopics l) = 4 then andEvents
          (eventIf G bf chainAddrs frm wfERC721 (\<lambda>w. createERC721Event w l frm to blockNumber blockHash))
          (eventIf G bf chainAddrs to wfERC721 (\<lambda>w. createERC721Event w l frm to blockNumber blockHash))
        else andEvents
          (eventIf G bf chainAddrs frm wfERC20 (\<lambda>w. createERC20Event w l frm to blockNumber blockHash))
          (eventIf G bf chainAddrs to wfERC20 (\<lambda>w. createERC20Event w l frm to blockNumber blockHash))
      else Inr [])"

definition MatchLogs :: "geth \<Rightarrow> EventMatcher \<Rightarrow> string \<Rightarrow> log list \<Rightarrow> u64 \<Rightarrow> hash \<Rightarrow> serror + WatchEvent list" where
  "MatchLogs G m chainID logs blockNumber blockHash =
     (case (bloomFilters m chainID, addresses m chainID) of
        (Some bf, Some chainAddrs) \<Rightarrow> foldr (\<lambda>l. andEvents (matchLog1 G bf chainAddrs blockNumber blockHash l)) logs (Inr [])
      | _ \<Rightarrow> Inr [])"

section \<open>The matcher is exact\<close>

text \<open>
  Matching against the table alone, without a Bloom filter: the events of a block for the addresses \<open>tbl\<close>
  watched on a chain.
\<close>

definition wantedBy :: "(address \<Rightarrow> WatchedAddress option) \<Rightarrow> address \<Rightarrow> (WatchFilter \<Rightarrow> bool) \<Rightarrow> (WatchedAddress \<Rightarrow> WatchEvent) \<Rightarrow>
    WatchEvent list" where
  "wantedBy tbl a p mk = (case tbl a of Some w \<Rightarrow> if (case waFilter w of Some f \<Rightarrow> p f | None \<Rightarrow> False) then [mk w] else [] | None \<Rightarrow> [])"

definition txMatches :: "(tx \<Rightarrow> address option) \<Rightarrow> (receipt \<Rightarrow> u64) \<Rightarrow> (address \<Rightarrow> WatchedAddress option) \<Rightarrow> u64 \<Rightarrow> hash \<Rightarrow>
    tx \<Rightarrow> receipt \<Rightarrow> WatchEvent list" where
  "txMatches sender txIndex tbl n h t r = (case sender t of None \<Rightarrow> [] | Some frm \<Rightarrow>
     wantedBy tbl frm (\<lambda>f. wfTxFrom f \<and> matchesValueFilter (tValue t) (wfMinValue f))
       (\<lambda>w. createTxEvent txIndex w WatchEventTypeTxFrom t r frm (tTo t) n h) @
     concat (map (\<lambda>to. wantedBy tbl to (\<lambda>f. wfTxTo f \<and> matchesValueFilter (tValue t) (wfMinValue f))
       (\<lambda>w. createTxEvent txIndex w WatchEventTypeTxTo t r frm (tTo t) n h)) (case tTo t of None \<Rightarrow> [] | Some to \<Rightarrow> [to])))"

definition logMatches :: "geth \<Rightarrow> (address \<Rightarrow> WatchedAddress option) \<Rightarrow> u64 \<Rightarrow> hash \<Rightarrow> log \<Rightarrow> WatchEvent list" where
  "logMatches G tbl n h l =
     wantedBy tbl (lAddress l) wfLogs (\<lambda>w. createLogEvent w WatchEventTypeLog l n h) @
     (case lTopics l of
        sig # x # y # rest \<Rightarrow> if sig \<noteq> WatchTransferTopic then [] else
          (let frm = bytesToAddr G (hashBytes x); to = bytesToAddr G (hashBytes y); nft = (length rest = 1) in
           concat (map (\<lambda>a. wantedBy tbl a (if nft then wfERC721 else wfERC20) (\<lambda>w.
             if nft then createERC721Event w l frm to n h else createERC20Event w l frm to n h)) [frm, to]))
      | _ \<Rightarrow> [])"

text \<open>
  The invariant of the matcher: a chain has a table exactly when it has a filter, the filter is well formed
  and knows the addresses of the table, and every watched address has its options.
\<close>

definition matcher_ok :: "geth \<Rightarrow> EventMatcher \<Rightarrow> bool" where
  "matcher_ok G m \<longleftrightarrow> (\<forall>c. case (bloomFilters m c, addresses m c) of
       (None, None) \<Rightarrow> True
     | (Some bf, Some tbl) \<Rightarrow> bloom_wf bf \<and>
         (\<forall>a w. tbl a = Some w \<longrightarrow> MightContain G a bf = Some True \<and> waFilter w \<noteq> None)
     | _ \<Rightarrow> False)"

definition watchTable :: "EventMatcher \<Rightarrow> string \<Rightarrow> address \<Rightarrow> WatchedAddress option" where
  "watchTable m c = (case addresses m c of None \<Rightarrow> (\<lambda>_. None) | Some t \<Rightarrow> t)"

lemma matcher_ok_new [simp]: "matcher_ok G NewEventMatcher" "watchTable NewEventMatcher c = (\<lambda>_. None)"
  by (simp_all add: matcher_ok_def NewEventMatcher_def watchTable_def)

lemma matcher_ok_cases:
  assumes "matcher_ok G m"
  obtains (none) "bloomFilters m c = None" "addresses m c = None"
  | (some) bf tbl where "bloomFilters m c = Some bf" "addresses m c = Some tbl" "bloom_wf bf"
      "\<And>a w. tbl a = Some w \<Longrightarrow> MightContain G a bf = Some True \<and> waFilter w \<noteq> None"
  using assms unfolding matcher_ok_def
  by (cases "bloomFilters m c"; cases "addresses m c") (force dest: spec [of _ c])+

lemma AddAddress_ok:
  assumes "matcher_ok G m" "bloom_wf bf0" "waFilter w \<noteq> None"
  shows "\<exists>m'. AddAddress G bf0 w m = Inr m' \<and> matcher_ok G m' \<and>
    watchTable m' = (watchTable m)(waChainID w := (watchTable m (waChainID w))(waAddress w := Some w))"
proof -
  let ?c = "waChainID w"
  define bf where "bf = (case bloomFilters m ?c of None \<Rightarrow> bf0 | Some bf \<Rightarrow> bf)"
  have bf: "bloom_wf bf" "\<And>a x. watchTable m ?c a = Some x \<Longrightarrow> MightContain G a bf = Some True \<and> waFilter x \<noteq> None"
    using assms(1) by (rule matcher_ok_cases [where c = ?c]; simp add: bf_def assms(2) watchTable_def)+
  obtain bf' where b: "Bloom_Add G (waAddress w) bf = Some bf'" "more_bits bf bf'" "bloom_wf bf'"
    "MightContain G (waAddress w) bf' = Some True"
    using Bloom_Add_wf [OF bf(1)] by blast
  let ?m = "m\<lparr>addresses := (addresses m)(?c := Some ((watchTable m ?c)(waAddress w := Some w))),
              bloomFilters := (bloomFilters m)(?c := Some bf')\<rparr>"
  have "AddAddress G bf0 w m = Inr ?m"
    using b(1) by (simp add: AddAddress_def Let_def watchTable_def bf_def)
  moreover have "matcher_ok G ?m"
    using assms(1,3) bf(2) b(3,4) more_bits_MightContain [OF bf(1) b(2)] by (auto simp: matcher_ok_def)
  ultimately show ?thesis by (auto simp: watchTable_def)
qed

lemma RemoveAddress_ok:
  assumes "matcher_ok G m"
  shows "matcher_ok G (RemoveAddress c a m) \<and>
    watchTable (RemoveAddress c a m) = (watchTable m)(c := (watchTable m c)(a := None))"
proof (rule matcher_ok_cases [OF assms, where c = c])
  assume "bloomFilters m c = None" "addresses m c = None"
  then show ?thesis using assms by (simp add: RemoveAddress_def watchTable_def fun_eq_iff)
next
  fix bf tbl
  assume "bloomFilters m c = Some bf" "addresses m c = Some tbl"
  then show ?thesis using assms by (auto simp: RemoveAddress_def watchTable_def matcher_ok_def split: if_splits dest: spec [of _ c])
qed

lemma eventIf_exact:
  "bloom_wf bf \<Longrightarrow> (\<And>w. tbl a = Some w \<Longrightarrow> MightContain G a bf = Some True \<and> waFilter w \<noteq> None) \<Longrightarrow>
   eventIf G bf tbl a p mk = Inr (wantedBy tbl a p mk)"
  using MightContain_wf [of bf G a]
  by (cases "tbl a") (auto simp: eventIf_def wantedBy_def split: option.split)

lemma andEvents_Inr [simp]: "andEvents (Inr xs) (Inr ys) = Inr (xs @ ys)"
  by (simp add: andEvents_def)

lemma MatchTransaction_exact:
  assumes "matcher_ok G m"
  shows "Matcher_MatchTransaction G sender txIndex m c t r n h = Inr (txMatches sender txIndex (watchTable m c) n h t r)"
  using assms
proof (rule matcher_ok_cases [where c = c])
  assume "bloomFilters m c = None" "addresses m c = None"
  then show ?thesis
    by (simp add: Matcher_MatchTransaction_def txMatches_def watchTable_def wantedBy_def split: option.split)
next
  fix bf tbl
  assume a: "bloomFilters m c = Some bf" "addresses m c = Some tbl" "bloom_wf bf"
    "\<And>a w. tbl a = Some w \<Longrightarrow> MightContain G a bf = Some True \<and> waFilter w \<noteq> None"
  note e = eventIf_exact [OF a(3) a(4)]
  from a(1,2) show ?thesis
    by (simp add: Matcher_MatchTransaction_def txMatches_def watchTable_def e split: option.split)
qed

lemma matchLog1_exact:
  assumes "bloom_wf bf" "\<And>a w. tbl a = Some w \<Longrightarrow> MightContain G a bf = Some True \<and> waFilter w \<noteq> None"
  shows "matchLog1 G bf tbl n h l = Inr (logMatches G tbl n h l)"
proof -
  note e = eventIf_exact [OF assms]
  consider "length (lTopics l) < 3" | sig x y rest where "lTopics l = sig # x # y # rest"
    by (metis (no_types) length_Cons less_Suc_eq list.exhaust list.size(3) not_less numeral_3_eq_3 zero_less_Suc)
  then show ?thesis
  proof cases
    case 1
    then show ?thesis by (auto simp: matchLog1_def logMatches_def e split: list.split)
  next
    case 2
    then show ?thesis by (simp add: matchLog1_def logMatches_def e Let_def)
  qed
qed

lemma MatchLogs_exact:
  assumes "matcher_ok G m"
  shows "MatchLogs G m c logs n h = Inr (concat (map (logMatches G (watchTable m c) n h) logs))"
  using assms
proof (rule matcher_ok_cases [where c = c])
  assume n: "bloomFilters m c = None" "addresses m c = None"
  have "logMatches G (\<lambda>_. None) n h l = []" for l
    by (simp add: logMatches_def wantedBy_def Let_def split: list.split)
  with n show ?thesis by (simp add: MatchLogs_def watchTable_def)
next
  fix bf tbl
  assume a: "bloomFilters m c = Some bf" "addresses m c = Some tbl" "bloom_wf bf"
    "\<And>a w. tbl a = Some w \<Longrightarrow> MightContain G a bf = Some True \<and> waFilter w \<noteq> None"
  have "foldr (\<lambda>l. andEvents (matchLog1 G bf tbl n h l)) logs (Inr []) = Inr (concat (map (logMatches G tbl n h) logs))"
    by (induction logs) (simp_all add: matchLog1_exact [OF a(3,4)])
  with a(1,2) show ?thesis by (simp add: MatchLogs_def watchTable_def)
qed

section \<open>A matcher in use\<close>

datatype matcherOp = OpAdd WatchedAddress | OpRemove string address

text \<open>The calls of the service on its matcher, and the table of addresses they stand for.\<close>

fun matcherRun :: "geth \<Rightarrow> BloomFilter \<Rightarrow> matcherOp list \<Rightarrow> EventMatcher \<Rightarrow> serror + EventMatcher" where
  "matcherRun G bf0 [] m = Inr m"
| "matcherRun G bf0 (OpAdd w # ops) m = (case AddAddress G bf0 w m of Inl e \<Rightarrow> Inl e | Inr m \<Rightarrow> matcherRun G bf0 ops m)"
| "matcherRun G bf0 (OpRemove c a # ops) m = matcherRun G bf0 ops (RemoveAddress c a m)"

fun tableRun :: "matcherOp list \<Rightarrow> (string \<Rightarrow> address \<Rightarrow> WatchedAddress option) \<Rightarrow> string \<Rightarrow> address \<Rightarrow> WatchedAddress option" where
  "tableRun [] t = t"
| "tableRun (OpAdd w # ops) t = tableRun ops (t(waChainID w := (t (waChainID w))(waAddress w := Some w)))"
| "tableRun (OpRemove c a # ops) t = tableRun ops (t(c := (t c)(a := None)))"

lemma matcherRun_ok:
  "matcher_ok G m \<Longrightarrow> bloom_wf bf0 \<Longrightarrow> \<forall>w. OpAdd w \<in> set ops \<longrightarrow> waFilter w \<noteq> None \<Longrightarrow>
   \<exists>m'. matcherRun G bf0 ops m = Inr m' \<and> matcher_ok G m' \<and> watchTable m' = tableRun ops (watchTable m)"
proof (induction ops arbitrary: m)
  case (Cons q ops)
  show ?case
  proof (cases q)
    case (OpAdd w)
    with Cons.prems obtain m1 where m1: "AddAddress G bf0 w m = Inr m1" "matcher_ok G m1"
      "watchTable m1 = (watchTable m)(waChainID w := (watchTable m (waChainID w))(waAddress w := Some w))"
      using AddAddress_ok [of G m bf0 w] by auto
    from Cons.IH [OF m1(2) Cons.prems(2)] Cons.prems(3) obtain m2 where
      "matcherRun G bf0 ops m1 = Inr m2" "matcher_ok G m2" "watchTable m2 = tableRun ops (watchTable m1)" by auto
    then show ?thesis unfolding m1(3) by (intro exI [of _ m2]) (simp add: OpAdd m1(1))
  next
    case (OpRemove c a)
    note r = RemoveAddress_ok [OF Cons.prems(1), of c a]
    have "\<forall>w. OpAdd w \<in> set ops \<longrightarrow> waFilter w \<noteq> None" using Cons.prems(3) by simp
    from Cons.IH [OF conjunct1 [OF r] Cons.prems(2) this] obtain m2 where
      "matcherRun G bf0 ops (RemoveAddress c a m) = Inr m2" "matcher_ok G m2"
      "watchTable m2 = tableRun ops (watchTable (RemoveAddress c a m))" by blast
    then show ?thesis unfolding conjunct2 [OF r] by (intro exI [of _ m2]) (simp add: OpRemove)
  qed
qed simp

text \<open>
  C40: the Bloom filters of the matcher never change its answer. After any additions and removals, in any order, a
  transaction yields exactly the events that the table of watched addresses alone asks for, first that of the sender and then that
  of the receiver, and a list of logs those of its logs in their order; none of the matcher's accesses panics.
\<close>

theorem matcher_filters_exact:
  assumes "bloom_wf bf0" "\<forall>w. OpAdd w \<in> set ops \<longrightarrow> waFilter w \<noteq> None"
  shows "\<exists>m. matcherRun G bf0 ops NewEventMatcher = Inr m \<and>
    Matcher_MatchTransaction G sender txIndex m c t r n h = Inr (txMatches sender txIndex (tableRun ops (\<lambda>_ _. None) c) n h t r) \<and>
    MatchLogs G m c logs n h = Inr (concat (map (logMatches G (tableRun ops (\<lambda>_ _. None) c) n h) logs))"
proof -
  have "watchTable NewEventMatcher = (\<lambda>_ _. None)" by (rule ext) simp
  with matcherRun_ok [OF matcher_ok_new(1) assms] MatchTransaction_exact MatchLogs_exact show ?thesis by metis
qed

definition sampleWatched :: WatchedAddress where
  "sampleWatched = \<lparr>waID = ''w'', waAddress = 7, waChainID = ''c'', waLabel = [], waFilter = Some DefaultWatchFilter,
     waCreatedAt = 0, waUpdatedAt = 0, waStats = None\<rparr>"

theorem matcher_filters_exact_witness:
  "\<exists>m e. matcherRun sampleGeth (mkBloomFilter 2 3) [OpAdd sampleWatched, OpRemove ''c'' 8] NewEventMatcher = Inr m \<and>
     Matcher_MatchTransaction sampleGeth (\<lambda>t. Some (tFrom t)) (\<lambda>_. 0) m ''c''
       \<lparr>tType = 0, tHash = 6, tFrom = 5, tTo = Some 7, tValue = 9, tGasPrice = 1, tGas = 1, tNonce = 0, tData = []\<rparr>
       \<lparr>rTxHash = 6, rStatus = 1, rCumulativeGasUsed = 1, rGasUsed = 1, rContractAddress = 0, rLogs = []\<rparr> 3 4 = Inr [e] \<and>
     weEventType e = WatchEventTypeTxTo \<and> MatchLogs sampleGeth m ''c'' [] 3 4 = Inr []"
proof -
  let ?ops = "[OpAdd sampleWatched, OpRemove ''c'' 8]"
  have ops: "bloom_wf (mkBloomFilter 2 3)" "\<forall>w. OpAdd w \<in> set ?ops \<longrightarrow> waFilter w \<noteq> None"
    by (simp_all add: mkBloomFilter_wf sampleWatched_def)
  have "tableRun ?ops (\<lambda>_ _. None) ''c'' 7 = Some sampleWatched" "tableRun ?ops (\<lambda>_ _. None) ''c'' 5 = None"
    by (simp_all add: sampleWatched_def)
  then have "\<exists>e. txMatches (\<lambda>t. Some (tFrom t)) (\<lambda>_. 0) (tableRun ?ops (\<lambda>_ _. None) ''c'') 3 4
       \<lparr>tType = 0, tHash = 6, tFrom = 5, tTo = Some 7, tValue = 9, tGasPrice = 1, tGas = 1, tNonce = 0, tData = []\<rparr>
       \<lparr>rTxHash = 6, rStatus = 1, rCumulativeGasUsed = 1, rGasUsed = 1, rContractAddress = 0, rLogs = []\<rparr> = [e] \<and>
     weEventType e = WatchEventTypeTxTo"
    by (simp add: txMatches_def wantedBy_def createTxEvent_def matchesValueFilter_def DefaultWatchFilter_def sampleWatched_def
        del: tableRun.simps)
  with matcher_filters_exact [OF ops, of sampleGeth "\<lambda>t. Some (tFrom t)" "\<lambda>_. 0" "''c''"
      "\<lparr>tType = 0, tHash = 6, tFrom = 5, tTo = Some 7, tValue = 9, tGasPrice = 1, tGas = 1, tNonce = 0, tData = []\<rparr>"
      "\<lparr>rTxHash = 6, rStatus = 1, rCumulativeGasUsed = 1, rGasUsed = 1, rContractAddress = 0, rLogs = []\<rparr>" 3 4 "[]"]
  show ?thesis by (auto simp del: tableRun.simps)
qed

end
