(* ===== verification/Watchlist.thy ===== *)
theory Watchlist
  imports WatchMatch Resilience EventBus
begin

text \<open>
  The watch list (\<^verbatim>\<open>pkg/watchlist/storage.go\<close>, \<^verbatim>\<open>service.go\<close>): watched addresses are kept in the storage and
  in the matcher, a block is turned into events, and the events are stored, counted, published and handed to
  subscribers. \<^verbatim>\<open>encoding/json\<close>, the clock and the random identifiers are parameters; the clock and the
  identifiers are read in the order of a counter. A method holds its mutex throughout and is one step.
\<close>

section \<open>Keys\<close>

definition WatchedAddressKeyPrefix :: bytes where "WatchedAddressKeyPrefix = ''/wl/addr/''"

definition WatchedAddressKey :: "string \<Rightarrow> bytes" where
  "WatchedAddressKey addressID = ''/wl/addr/'' @ addressID"

definition ChainAddressesKeyPrefix :: "string \<Rightarrow> bytes" where
  "ChainAddressesKeyPrefix chainID = ''/wl/chain/'' @ chainID @ ''/''"

definition ChainAddressesKey :: "string \<Rightarrow> string \<Rightarrow> bytes" where
  "ChainAddressesKey chainID addressID = ''/wl/chain/'' @ chainID @ ''/'' @ addressID"

definition BloomFilterKey :: "string \<Rightarrow> bytes" where
  "BloomFilterKey chainID = ''/wl/bloom/'' @ chainID"

definition WatchEventKey :: "geth \<Rightarrow> string \<Rightarrow> u64 \<Rightarrow> hash \<Rightarrow> u64 \<Rightarrow> bytes" where
  "WatchEventKey G chainID blockNumber txHash logIndex =
     ''/wl/event/'' @ chainID @ ''/'' @ padDec 20 (unat blockNumber) @ ''/'' @ hashHex G txHash @ ''/'' @ padDec 6 (unat logIndex)"

definition EventIndexKeyPrefix :: "string \<Rightarrow> bytes" where
  "EventIndexKeyPrefix addressID = ''/wl/eventidx/'' @ addressID @ ''/''"

definition EventIndexKey :: "string \<Rightarrow> u64 \<Rightarrow> string \<Rightarrow> bytes" where
  "EventIndexKey addressID timestamp eventID =
     ''/wl/eventidx/'' @ addressID @ ''/'' @ padDec 20 (unat timestamp) @ ''/'' @ eventID"

definition AddressByEthAddressKey :: "geth \<Rightarrow> string \<Rightarrow> address \<Rightarrow> bytes" where
  "AddressByEthAddressKey G chainID a = ''/wl/idx/addr/'' @ chainID @ ''/'' @ addrHex G a"

lemmas watch_key_defs = WatchedAddressKeyPrefix_def WatchedAddressKey_def ChainAddressesKeyPrefix_def ChainAddressesKey_def
  BloomFilterKey_def WatchEventKey_def EventIndexKeyPrefix_def EventIndexKey_def AddressByEthAddressKey_def

section \<open>State\<close>

record watchJson =
  marshalWatched :: "WatchedAddress \<Rightarrow> bytes option"
  unmarshalWatched :: "bytes \<Rightarrow> WatchedAddress option"
  marshalWatchEvent :: "WatchEvent \<Rightarrow> bytes option"
  unmarshalWatchEvent :: "bytes \<Rightarrow> WatchEvent option"

record WatchRequest =
  wrAddress :: address
  wrChainID :: string
  wrLabel :: string
  wrFilter :: "WatchFilter option"

record ListFilter =
  lsChainID :: string
  lsLimit :: int
  lsOffset :: int

record Subscriber =
  sbID :: string
  sbAddressID :: string
  sbWebSocketID :: string
  sbCreatedAt :: u64
  sbLastDelivery :: "u64 option"

text \<open>\<open>wvStop\<close> is the context of an iteration; \<open>wvBloom\<close> a fresh filter of the default configuration.\<close>

record 'db watchEnv =
  wvDB :: "'db pebble"
  wvGeth :: geth
  wvJson :: watchJson
  wvSender :: "tx \<Rightarrow> address option"
  wvTxIndex :: "receipt \<Rightarrow> u64"
  wvBloom :: BloomFilter
  wvUuid :: "nat \<Rightarrow> string"
  wvClock :: "nat \<Rightarrow> u64"
  wvStop :: "nat \<Rightarrow> bool"

record 'db WatchlistService =
  wlStore :: "'db storage"
  wlBus :: "EventBus option"
  wlMatcher :: EventMatcher
  wlSubscribers :: "string \<Rightarrow> Subscriber option"
  wlAddrSubs :: "string \<Rightarrow> string list"
  wlRunning :: bool
  wlTick :: nat

definition NewService :: "'db storage \<Rightarrow> EventBus option \<Rightarrow> nat \<Rightarrow> 'db WatchlistService" where
  "NewService st eb tick = \<lparr>wlStore = st, wlBus = eb, wlMatcher = NewEventMatcher, wlSubscribers = (\<lambda>_. None),
     wlAddrSubs = (\<lambda>_. []), wlRunning = False, wlTick = tick\<rparr>"

definition onWatchStore :: "('db storage, 'a) op \<Rightarrow> ('db WatchlistService, 'a) op" where
  "onWatchStore m = (\<lambda>s. case m (wlStore s) of (r, st) \<Rightarrow> (r, s\<lparr>wlStore := st\<rparr>))"

definition onMatcher :: "(EventMatcher \<Rightarrow> serror + EventMatcher) \<Rightarrow> ('db WatchlistService, unit) op" where
  "onMatcher f = (\<lambda>s. case f (wlMatcher s) of Inl e \<Rightarrow> (Inl e, s) | Inr m \<Rightarrow> (Inr (), s\<lparr>wlMatcher := m\<rparr>))"

definition newUuid :: "'db watchEnv \<Rightarrow> ('db WatchlistService, string) op" where
  "newUuid E = (\<lambda>s. (Inr (wvUuid E (wlTick s)), s\<lparr>wlTick := Suc (wlTick s)\<rparr>))"

definition watchNow :: "'db watchEnv \<Rightarrow> ('db WatchlistService, u64) op" where
  "watchNow E = (\<lambda>s. (Inr (wvClock E (wlTick s)), s\<lparr>wlTick := Suc (wlTick s)\<rparr>))"

definition ErrAddressNotFound :: serror where "ErrAddressNotFound = Errorf ''watched address not found''"
definition ErrAddressAlreadyExists :: serror where "ErrAddressAlreadyExists = Errorf ''address already being watched''"
definition ErrInvalidAddress :: serror where "ErrInvalidAddress = Errorf ''invalid address''"
definition ErrSubscriberNotFound :: serror where "ErrSubscriberNotFound = Errorf ''subscriber not found''"
definition ErrServiceNotRunning :: serror where "ErrServiceNotRunning = Errorf ''watchlist service is not running''"

text \<open>A \<^verbatim>\<open>WatchlistError\<close> wraps its cause under the name of the operation.\<close>

definition NewWatchlistError :: "string \<Rightarrow> serror \<Rightarrow> serror" where
  "NewWatchlistError what e = Wrap what e"

definition watchFailing :: "string \<Rightarrow> ('s, 'a) op \<Rightarrow> ('s, 'a) op" where
  "watchFailing what m = catch m (\<lambda>e. throw (NewWatchlistError what e))"

section \<open>Stored addresses\<close>

definition getWatchedAddressLocked :: "'db pebble \<Rightarrow> watchJson \<Rightarrow> string \<Rightarrow> ('db storage, WatchedAddress) op" where
  "getWatchedAddressLocked P J addressID =
     andThen (catch (Get P (WatchedAddressKey addressID))
       (\<lambda>e. if e = ErrNotFound then throw ErrAddressNotFound else throw (NewWatchlistError ''get'' e)))
     (\<lambda>data. fromOption (NewWatchlistError ''unmarshal'' (Errorf ''json'')) (unmarshalWatched J data))"

definition getWatchedAddressByEthAddressLocked :: "'db pebble \<Rightarrow> geth \<Rightarrow> watchJson \<Rightarrow> string \<Rightarrow> address \<Rightarrow> ('db storage, WatchedAddress) op" where
  "getWatchedAddressByEthAddressLocked P G J chainID a =
     andThen (catch (Get P (AddressByEthAddressKey G chainID a))
       (\<lambda>e. if e = ErrNotFound then throw ErrAddressNotFound else throw (NewWatchlistError ''lookup'' e)))
     (getWatchedAddressLocked P J)"

definition storeWatchedAddress :: "'db pebble \<Rightarrow> geth \<Rightarrow> watchJson \<Rightarrow> WatchedAddress \<Rightarrow> ('db storage, unit) op" where
  "storeWatchedAddress P G J watched =
     andThen (fromOption (NewWatchlistError ''marshal'' (Errorf ''json'')) (marshalWatched J watched)) (\<lambda>data.
     andThen (watchFailing ''store'' (Put P (WatchedAddressKey (waID watched)) data)) (\<lambda>_.
     andThen (watchFailing ''store_index'' (Put P (ChainAddressesKey (waChainID watched) (waID watched)) (waID watched))) (\<lambda>_.
     watchFailing ''store_addr_index'' (Put P (AddressByEthAddressKey G (waChainID watched) (waAddress watched)) (waID watched)))))"

definition deleteWatchedAddress :: "'db pebble \<Rightarrow> geth \<Rightarrow> WatchedAddress \<Rightarrow> ('db storage, unit) op" where
  "deleteWatchedAddress P G watched =
     andThen (watchFailing ''delete'' (Delete P (WatchedAddressKey (waID watched)))) (\<lambda>_.
     andThen (attempt (Delete P (ChainAddressesKey (waChainID watched) (waID watched)))) (\<lambda>_.
     attempt (Delete P (AddressByEthAddressKey G (waChainID watched) (waAddress watched)))))"

definition storeBloomFilter :: "'db pebble \<Rightarrow> string \<Rightarrow> BloomFilter \<Rightarrow> ('db storage, unit) op" where
  "storeBloomFilter P chainID bf = Put P (BloomFilterKey chainID) (Bloom_Bytes bf)"

section \<open>Life cycle\<close>

text \<open>The callback adds every readable address to the matcher, and the matcher keeps them also when the iteration fails.\<close>

definition loadStep :: "geth \<Rightarrow> watchJson \<Rightarrow> BloomFilter \<Rightarrow> bytes \<Rightarrow> bytes \<Rightarrow> serror + EventMatcher \<Rightarrow> bool \<times> (serror + EventMatcher)" where
  "loadStep G J bf0 key value acc = (case acc of
       Inl e \<Rightarrow> (False, Inl e)
     | Inr m \<Rightarrow> (case unmarshalWatched J value of
          None \<Rightarrow> (True, Inr m)
        | Some watched \<Rightarrow> (case AddAddress G bf0 watched m of Inl e \<Rightarrow> (False, Inl e) | Inr m' \<Rightarrow> (True, Inr m'))))"

definition loadWatchedAddresses :: "'db watchEnv \<Rightarrow> ('db WatchlistService, unit) op" where
  "loadWatchedAddresses E = (\<lambda>s.
     case Iterate (wvDB E) (wvStop E) WatchedAddressKeyPrefix (loadStep (wvGeth E) (wvJson E) (wvBloom E)) (Inr (wlMatcher s)) (wlStore s) of
       (Inl e, st) \<Rightarrow> (Inl (NewWatchlistError ''load'' e), s\<lparr>wlStore := st\<rparr>)
     | (Inr (err, Inl e), st) \<Rightarrow> (Inl e, s\<lparr>wlStore := st\<rparr>)
     | (Inr (Some e, Inr m), st) \<Rightarrow> (Inl (NewWatchlistError ''load'' e), s\<lparr>wlStore := st, wlMatcher := m\<rparr>)
     | (Inr (None, Inr m), st) \<Rightarrow> (Inr (), s\<lparr>wlStore := st, wlMatcher := m\<rparr>))"

definition Watchlist_Start :: "'db watchEnv \<Rightarrow> ('db WatchlistService, unit) op" where
  "Watchlist_Start E = (\<lambda>s. if wlRunning s then (Inr (), s)
     else andThen (loadWatchedAddresses E) (\<lambda>_ s. (Inr (), s\<lparr>wlRunning := True\<rparr>)) s)"

definition Watchlist_Stop :: "('db WatchlistService, unit) op" where
  "Watchlist_Stop = (\<lambda>s. (Inr (), if wlRunning s then s\<lparr>wlRunning := False\<rparr> else s))"

section \<open>Watching\<close>

definition WatchAddress :: "'db watchEnv \<Rightarrow> WatchRequest \<Rightarrow> ('db WatchlistService, WatchedAddress) op" where
  "WatchAddress E req =
     (if wrAddress req = 0 then throw ErrInvalidAddress
      else let f = (case wrFilter req of None \<Rightarrow> DefaultWatchFilter | Some f \<Rightarrow> f);
               P = wvDB E; G = wvGeth E; J = wvJson E; chainID = wrChainID req in
      (\<lambda>s. case onWatchStore (getWatchedAddressByEthAddressLocked P G J chainID (wrAddress req)) s of
           (Inr _, s) \<Rightarrow> (Inl ErrAddressAlreadyExists, s)
         | (Inl _, s) \<Rightarrow>
             andThen (watchNow E) (\<lambda>now. andThen (newUuid E) (\<lambda>uuid.
             let watched = \<lparr>waID = uuid, waAddress = wrAddress req, waChainID = chainID, waLabel = wrLabel req,
                   waFilter = Some f, waCreatedAt = now, waUpdatedAt = now,
                   waStats = Some \<lparr>wsTotalEvents = 0, wsTxFromCount = 0, wsTxToCount = 0, wsERC20Count = 0,
                     wsERC721Count = 0, wsLogCount = 0, wsLastEventAt = None, wsLastBlockNumber = 0\<rparr>\<rparr>
             in andThen (onWatchStore (storeWatchedAddress P G J watched)) (\<lambda>_.
                andThen (onMatcher (AddAddress G (wvBloom E) watched)) (\<lambda>_.
                andThen (\<lambda>s. case GetBloomFilter chainID (wlMatcher s) of
                    None \<Rightarrow> (Inr (), s)
                  | Some bf \<Rightarrow> attempt (onWatchStore (storeBloomFilter P chainID bf)) s) (\<lambda>_.
                ret watched))))) s))"

definition UnwatchAddress :: "'db watchEnv \<Rightarrow> string \<Rightarrow> ('db WatchlistService, unit) op" where
  "UnwatchAddress E addressID =
     andThen (onWatchStore (getWatchedAddressLocked (wvDB E) (wvJson E) addressID)) (\<lambda>watched.
     andThen (onMatcher (\<lambda>m. Inr (RemoveAddress (waChainID watched) (waAddress watched) m))) (\<lambda>_.
     andThen (onWatchStore (deleteWatchedAddress (wvDB E) (wvGeth E) watched)) (\<lambda>_ s.
       (Inr (), s\<lparr>wlSubscribers := (\<lambda>i. if i \<in> set (wlAddrSubs s addressID) then None else wlSubscribers s i),
                  wlAddrSubs := (wlAddrSubs s)(addressID := [])\<rparr>))))"

definition GetWatchedAddress :: "'db watchEnv \<Rightarrow> string \<Rightarrow> ('db WatchlistService, WatchedAddress) op" where
  "GetWatchedAddress E addressID = onWatchStore (getWatchedAddressLocked (wvDB E) (wvJson E) addressID)"

definition GetWatchedAddressByEthAddress :: "'db watchEnv \<Rightarrow> string \<Rightarrow> address \<Rightarrow> ('db WatchlistService, WatchedAddress) op" where
  "GetWatchedAddressByEthAddress E chainID a =
     onWatchStore (getWatchedAddressByEthAddressLocked (wvDB E) (wvGeth E) (wvJson E) chainID a)"

text \<open>The callback of the listing: how many were skipped, and the addresses so far.\<close>

definition listStep :: "'db watchEnv \<Rightarrow> string \<Rightarrow> int \<Rightarrow> int \<Rightarrow> 'db storage \<Rightarrow> bytes \<Rightarrow> bytes \<Rightarrow> int \<times> WatchedAddress list \<Rightarrow>
    bool \<times> int \<times> WatchedAddress list" where
  "listStep E chainID limit offset st key value acc =
     (let (skipped, xs) = acc in
      if skipped < offset then (True, skipped + 1, xs)
      else if int (length xs) \<ge> limit then (False, skipped, xs)
      else case (if chainID \<noteq> [] then (case fst (getWatchedAddressLocked (wvDB E) (wvJson E) value st) of Inr w \<Rightarrow> Some w | Inl _ \<Rightarrow> None)
                 else unmarshalWatched (wvJson E) value) of
          None \<Rightarrow> (True, skipped, xs)
        | Some w \<Rightarrow> (True, skipped, xs @ [w]))"

definition ListWatchedAddresses :: "'db watchEnv \<Rightarrow> ListFilter option \<Rightarrow> ('db WatchlistService, WatchedAddress list) op" where
  "ListWatchedAddresses E flt =
     (let f = (case flt of None \<Rightarrow> \<lparr>lsChainID = [], lsLimit = 100, lsOffset = 0\<rparr> | Some f \<Rightarrow> f);
          limit = (if lsLimit f \<le> 0 then 100 else lsLimit f);
          pfx = (if lsChainID f \<noteq> [] then ChainAddressesKeyPrefix (lsChainID f) else WatchedAddressKeyPrefix)
      in andThen (onWatchStore (scanWith (wvDB E) (wvStop E) ''list'' pfx (listStep E (lsChainID f) limit (lsOffset f)) (0, [])))
           (\<lambda>(_, xs). ret xs))"

section \<open>Subscribers\<close>

definition Watchlist_Subscribe :: "'db watchEnv \<Rightarrow> string \<Rightarrow> Subscriber \<Rightarrow> ('db WatchlistService, string) op" where
  "Watchlist_Subscribe E addressID subscriber =
     andThen (onWatchStore (getWatchedAddressLocked (wvDB E) (wvJson E) addressID)) (\<lambda>_.
     andThen (if sbID subscriber = [] then newUuid E else ret (sbID subscriber)) (\<lambda>i.
     andThen (watchNow E) (\<lambda>now s.
       (Inr i, s\<lparr>wlSubscribers := (wlSubscribers s)(i := Some (subscriber\<lparr>sbID := i, sbAddressID := addressID, sbCreatedAt := now\<rparr>)),
                 wlAddrSubs := (wlAddrSubs s)(addressID := wlAddrSubs s addressID @ [i])\<rparr>))))"

definition Watchlist_Unsubscribe :: "string \<Rightarrow> ('db WatchlistService, unit) op" where
  "Watchlist_Unsubscribe subscriptionID = (\<lambda>s. case wlSubscribers s subscriptionID of
       None \<Rightarrow> (Inl ErrSubscriberNotFound, s)
     | Some sub \<Rightarrow> (Inr (), s\<lparr>wlSubscribers := (wlSubscribers s)(subscriptionID := None),
         wlAddrSubs := (wlAddrSubs s)(sbAddressID sub := filter (\<lambda>i. i \<noteq> subscriptionID) (wlAddrSubs s (sbAddressID sub)))\<rparr>))"

section \<open>Events\<close>

definition storeEvent :: "'db watchEnv \<Rightarrow> WatchEvent \<Rightarrow> ('db storage, unit) op" where
  "storeEvent E event =
     andThen (fromOption (NewWatchlistError ''marshal_event'' (Errorf ''json'')) (marshalWatchEvent (wvJson E) event)) (\<lambda>data.
     let logIndex = (case weLogIndex event of None \<Rightarrow> 0 | Some i \<Rightarrow> i);
         timestamp = (case weTimestamp event of None \<Rightarrow> 0 | Some t \<Rightarrow> t) in
     andThen (watchFailing ''store_event''
       (Put (wvDB E) (WatchEventKey (wvGeth E) (weChainID event) (weBlockNumber event) (weTxHash event) logIndex) data)) (\<lambda>_.
     watchFailing ''store_event_index'' (Put (wvDB E) (EventIndexKey (weAddressID event) timestamp (weID event)) data)))"

definition countEvent :: "string \<Rightarrow> WatchStats \<Rightarrow> WatchStats" where
  "countEvent eventType st =
     (if eventType = WatchEventTypeTxFrom then st\<lparr>wsTxFromCount := wsTxFromCount st + 1\<rparr>
      else if eventType = WatchEventTypeTxTo then st\<lparr>wsTxToCount := wsTxToCount st + 1\<rparr>
      else if eventType = WatchEventTypeERC20Transfer then st\<lparr>wsERC20Count := wsERC20Count st + 1\<rparr>
      else if eventType = WatchEventTypeERC721Transfer then st\<lparr>wsERC721Count := wsERC721Count st + 1\<rparr>
      else if eventType = WatchEventTypeLog then st\<lparr>wsLogCount := wsLogCount st + 1\<rparr>
      else st)"

definition updateAddressStats :: "'db watchEnv \<Rightarrow> string \<Rightarrow> string \<Rightarrow> ('db WatchlistService, unit) op" where
  "updateAddressStats E addressID eventType =
     andThen (onWatchStore (getWatchedAddressLocked (wvDB E) (wvJson E) addressID)) (\<lambda>watched.
     let stats = (case waStats watched of None \<Rightarrow> \<lparr>wsTotalEvents = 0, wsTxFromCount = 0, wsTxToCount = 0, wsERC20Count = 0,
            wsERC721Count = 0, wsLogCount = 0, wsLastEventAt = None, wsLastBlockNumber = 0\<rparr> | Some st \<Rightarrow> st) in
     andThen (watchNow E) (\<lambda>t1. andThen (watchNow E) (\<lambda>t2.
     let stats = countEvent eventType (stats\<lparr>wsTotalEvents := wsTotalEvents stats + 1, wsLastEventAt := Some t1\<rparr>);
         watched = watched\<lparr>waStats := Some stats, waUpdatedAt := t2\<rparr> in
     andThen (fromOption (Errorf ''json'') (marshalWatched (wvJson E) watched)) (\<lambda>data.
     onWatchStore (Put (wvDB E) (WatchedAddressKey addressID) data)))))"

definition publishWatchEvent :: "('db WatchlistService, unit) op" where
  "publishWatchEvent = (\<lambda>s. (Inr (), case wlBus s of None \<Rightarrow> s
     | Some eb \<Rightarrow> s\<lparr>wlBus := Some (snd (Publish (OtherEvent ''watch_event'') eb))\<rparr>))"

fun notifySubscribers :: "'db watchEnv \<Rightarrow> string list \<Rightarrow> ('db WatchlistService, unit) op" where
  "notifySubscribers E [] = ret ()"
| "notifySubscribers E (i # is) = (\<lambda>s. case wlSubscribers s i of
     None \<Rightarrow> notifySubscribers E is s
   | Some sub \<Rightarrow> andThen (watchNow E) (\<lambda>now s.
       notifySubscribers E is (s\<lparr>wlSubscribers := (wlSubscribers s)(i := Some (sub\<lparr>sbLastDelivery := Some now\<rparr>))\<rparr>)) s)"

definition processMatchedEvent :: "'db watchEnv \<Rightarrow> WatchEvent \<Rightarrow> ('db WatchlistService, unit) op" where
  "processMatchedEvent E event =
     andThen (newUuid E) (\<lambda>uuid. andThen (watchNow E) (\<lambda>now.
     let event = event\<lparr>weID := uuid, weTimestamp := Some now\<rparr> in
     andThen (onWatchStore (storeEvent E event)) (\<lambda>_.
     andThen (attempt (updateAddressStats E (weAddressID event) (weEventType event))) (\<lambda>_.
     andThen publishWatchEvent (\<lambda>_ s.
     notifySubscribers E (wlAddrSubs s (weAddressID event)) s)))))"

definition fromSum :: "serror + 'a \<Rightarrow> ('s, 'a) op" where
  "fromSum r = (\<lambda>s. (r, s))"

definition processTx :: "'db watchEnv \<Rightarrow> string \<Rightarrow> block \<Rightarrow> (hash \<Rightarrow> receipt option) \<Rightarrow> tx \<Rightarrow> ('db WatchlistService, unit) op" where
  "processTx E chainID b receiptMap t = (case receiptMap (tHash t) of
       None \<Rightarrow> ret ()
     | Some r \<Rightarrow>
         andThen (\<lambda>s. fromSum (Matcher_MatchTransaction (wvGeth E) (wvSender E) (wvTxIndex E) (wlMatcher s) chainID t r
           (bNumber b) (bHash b)) s) (\<lambda>txEvents.
         andThen (forEach (\<lambda>e. attempt (processMatchedEvent E e)) txEvents) (\<lambda>_.
         andThen (\<lambda>s. fromSum (MatchLogs (wvGeth E) (wlMatcher s) chainID (rLogs r) (bNumber b) (bHash b)) s) (\<lambda>logEvents.
         forEach (\<lambda>e. attempt (processMatchedEvent E e)) logEvents))))"

definition ProcessBlock :: "'db watchEnv \<Rightarrow> string \<Rightarrow> block \<Rightarrow> receipt list \<Rightarrow> ('db WatchlistService, unit) op" where
  "ProcessBlock E chainID b receipts = (\<lambda>s.
     if \<not> wlRunning s then (Inl ErrServiceNotRunning, s)
     else if \<not> HasWatchedAddresses chainID (wlMatcher s) then (Inr (), s)
     else forEach (processTx E chainID b (map_of (rev (map (\<lambda>r. (rTxHash r, r)) receipts)))) (bTxs b) s)"

definition Watchlist_GetRecentEvents :: "'db watchEnv \<Rightarrow> string \<Rightarrow> int \<Rightarrow> ('db WatchlistService, WatchEvent list) op" where
  "Watchlist_GetRecentEvents E addressID limit =
     (let limit = (if limit \<le> 0 then 50 else limit) in
      onWatchStore (scanWith (wvDB E) (wvStop E) ''get_events'' (EventIndexKeyPrefix addressID)
        (\<lambda>_ key value events. if int (length events) \<ge> limit then (False, events)
           else case unmarshalWatchEvent (wvJson E) value of None \<Rightarrow> (True, events) | Some e \<Rightarrow> (True, events @ [e])) []))"

end
