(* ===== verification/WatchState.thy ===== *)
theory WatchState
  imports Watchlist
begin

text \<open>
  What the watch list promises: a registry of watched addresses by chain and address and a log of the events
  that concern them. Every run of the service, with restarts in it, follows the registry and the log, and the
  queries return them.
\<close>

section \<open>JSON and keys\<close>

definition asciiFilter :: "WatchFilter option \<Rightarrow> bool" where
  "asciiFilter f = (case f of None \<Rightarrow> True | Some x \<Rightarrow> ascii (wfMinValue x))"

definition asciiWatched :: "WatchedAddress \<Rightarrow> bool" where
  "asciiWatched w \<longleftrightarrow> ascii (waID w) \<and> ascii (waChainID w) \<and> ascii (waLabel w) \<and> asciiFilter (waFilter w)"

definition asciiData :: "watch_data \<Rightarrow> bool" where
  "asciiData d = (case d of
     TxData x \<Rightarrow> ascii (tdValue x) \<and> ascii (tdGasPrice x)
   | ERC20Data x \<Rightarrow> ascii (edAmount x)
   | ERC721Data x \<Rightarrow> ascii (ndTokenID x)
   | LogData x \<Rightarrow> ascii (ldData x))"

definition asciiWatchEvent :: "WatchEvent \<Rightarrow> bool" where
  "asciiWatchEvent e \<longleftrightarrow> ascii (weID e) \<and> ascii (weAddressID e) \<and> ascii (weChainID e) \<and> ascii (weEventType e) \<and>
     ascii (weValue e) \<and> ascii (weTokenID e) \<and> ascii (weTokenAmount e) \<and> asciiData (weData e)"

text \<open>
  \<^verbatim>\<open>encoding/json\<close> encodes these types without an error, and reads them back when their strings are text. The
  data of an event comes back as a map with the entries of the struct it was, which is not told apart from it here.
\<close>

locale watch_json =
  fixes J :: watchJson
  assumes watched_roundtrip: "asciiWatched w \<Longrightarrow> \<exists>d. marshalWatched J w = Some d \<and> unmarshalWatched J d = Some w"
    and watch_event_roundtrip: "asciiWatchEvent e \<Longrightarrow> \<exists>d. marshalWatchEvent J e = Some d \<and> unmarshalWatchEvent J d = Some e"

text \<open>
  The surroundings of a service: writes succeed, no iteration is cancelled, identifiers are fresh and have no slash.
\<close>

locale watch_env = pebble_db P view + geth_codec G + watch_json J
  for P :: "'db pebble" and view :: "'db \<Rightarrow> bytes \<Rightarrow> bytes option" and G :: geth and J :: watchJson +
  fixes E :: "'db watchEnv"
  assumes env: "wvDB E = P" "wvGeth E = G" "wvJson E = J" "wvStop E = (\<lambda>_. False)"
    and bloom0: "bloom_wf (wvBloom E)"
    and uuid: "inj (wvUuid E)" "plainID (wvUuid E n)" "ascii (wvUuid E n)"
    and writes_ok: "neverFails P"

lemma watch_keys_inject [simp]:
  "WatchedAddressKey i = WatchedAddressKey j \<longleftrightarrow> i = j"
  "plainID i \<Longrightarrow> plainID j \<Longrightarrow> EventIndexKey i t x = EventIndexKey j u y \<longleftrightarrow> i = j \<and> t = u \<and> x = y"
  by (auto simp: watch_key_defs plainID_def sep_append_inject)

lemma watch_keys_apart [simp]:
  "WatchedAddressKey i \<noteq> ChainAddressesKey c j" "ChainAddressesKey c j \<noteq> WatchedAddressKey i"
  "WatchedAddressKey i \<noteq> AddressByEthAddressKey G c a" "AddressByEthAddressKey G c a \<noteq> WatchedAddressKey i"
  "WatchedAddressKey i \<noteq> BloomFilterKey c" "BloomFilterKey c \<noteq> WatchedAddressKey i"
  "WatchedAddressKey i \<noteq> WatchEventKey G c n h l" "WatchEventKey G c n h l \<noteq> WatchedAddressKey i"
  "WatchedAddressKey i \<noteq> EventIndexKey j t x" "EventIndexKey j t x \<noteq> WatchedAddressKey i"
  "AddressByEthAddressKey G c a \<noteq> ChainAddressesKey c' j" "ChainAddressesKey c' j \<noteq> AddressByEthAddressKey G c a"
  "AddressByEthAddressKey G c a \<noteq> BloomFilterKey c'" "BloomFilterKey c' \<noteq> AddressByEthAddressKey G c a"
  "AddressByEthAddressKey G c a \<noteq> WatchEventKey G' c' n h l" "WatchEventKey G' c' n h l \<noteq> AddressByEthAddressKey G c a"
  "AddressByEthAddressKey G c a \<noteq> EventIndexKey j t x" "EventIndexKey j t x \<noteq> AddressByEthAddressKey G c a"
  "WatchEventKey G c n h l \<noteq> EventIndexKey j t x" "EventIndexKey j t x \<noteq> WatchEventKey G c n h l"
  by (simp_all add: watch_key_defs)

lemma event_index_prefix [simp]:
  "\<not> HasPrefix (WatchedAddressKey i) (EventIndexKeyPrefix j)" "\<not> HasPrefix (ChainAddressesKey c i) (EventIndexKeyPrefix j)"
  "\<not> HasPrefix (AddressByEthAddressKey G c a) (EventIndexKeyPrefix j)" "\<not> HasPrefix (BloomFilterKey c) (EventIndexKeyPrefix j)"
  "\<not> HasPrefix (WatchEventKey G c n h l) (EventIndexKeyPrefix j)"
  "plainID i \<Longrightarrow> plainID j \<Longrightarrow> HasPrefix (EventIndexKey i t x) (EventIndexKeyPrefix j) \<longleftrightarrow> i = j"
  by (auto simp: HasPrefix_def prefix_def watch_key_defs plainID_def sep_append_inject)

lemma watched_prefix [simp]: "HasPrefix k WatchedAddressKeyPrefix \<longleftrightarrow> (\<exists>i. k = WatchedAddressKey i)"
  by (auto simp: HasPrefix_def prefix_def watch_key_defs)

lemma eth_key_inject: "geth_codec G \<Longrightarrow> AddressByEthAddressKey G c a = AddressByEthAddressKey G c' a' \<longleftrightarrow> c = c' \<and> a = a'"
proof -
  assume g: "geth_codec G"
  have "length (''/'' @ addrHex G a) = length (''/'' @ addrHex G a')" by (simp add: geth_codec.addrHex_len [OF g])
  then show ?thesis
    using append_eq_append_conv [of "c" "c'" "''/'' @ addrHex G a" "''/'' @ addrHex G a'"] geth_codec.addrHex_inj [OF g, of a a']
    by (auto simp: AddressByEthAddressKey_def)
qed

section \<open>The registry\<close>

text \<open>Statistics and time of update are not part of the registry.\<close>

definition waCore :: "WatchedAddress \<Rightarrow> WatchedAddress" where
  "waCore w = w\<lparr>waStats := None, waUpdatedAt := 0\<rparr>"

lemma waCore_label: "waLabel (waCore w) = waLabel w"
  by (simp add: waCore_def)

lemma waCore_fields [simp]:
  "waID (waCore w) = waID w" "waChainID (waCore w) = waChainID w" "waAddress (waCore w) = waAddress w"
  "waFilter (waCore w) = waFilter w" "asciiWatched (waCore w) = asciiWatched w" "waCore (waCore w) = waCore w"
  by (simp_all add: waCore_def asciiWatched_def)

type_synonym registry = "string \<Rightarrow> address \<Rightarrow> WatchedAddress option"

definition idFree :: "registry \<Rightarrow> string \<Rightarrow> bool" where
  "idFree reg i \<longleftrightarrow> (\<forall>c a w. reg c a = Some w \<longrightarrow> waID w \<noteq> i)"

definition regOk :: "registry \<Rightarrow> bool" where
  "regOk reg \<longleftrightarrow> (\<forall>c a w. reg c a = Some w \<longrightarrow>
     waChainID w = c \<and> waAddress w = a \<and> waFilter w \<noteq> None \<and> asciiWatched w \<and> plainID (waID w) \<and> waCore w = w)"

lemma regOk_D:
  "regOk reg \<Longrightarrow> reg c a = Some w \<Longrightarrow> waChainID w = c \<and> waAddress w = a \<and> waFilter w \<noteq> None \<and> asciiWatched w \<and>
     plainID (waID w) \<and> waCore w = w"
  unfolding regOk_def by blast

text \<open>The database holds a registry: a record for every identifier in use, and the index from addresses to identifiers.\<close>

definition recordOf :: "watchJson \<Rightarrow> registry \<Rightarrow> string \<Rightarrow> bytes \<Rightarrow> bool" where
  "recordOf J reg i d \<longleftrightarrow> (\<exists>w. unmarshalWatched J d = Some w \<and> waID w = i \<and> reg (waChainID w) (waAddress w) = Some (waCore w) \<and>
     (\<forall>c a x. reg c a = Some x \<and> waID x = i \<longrightarrow> x = waCore w))"

lemma recordOfI:
  assumes "unmarshalWatched J d = Some w" "waID w = i" "reg (waChainID w) (waAddress w) = Some (waCore w)"
    "\<And>c a x. reg c a = Some x \<Longrightarrow> waID x = i \<Longrightarrow> x = waCore w"
  shows "recordOf J reg i d"
  using assms unfolding recordOf_def by blast

definition regHolds :: "geth \<Rightarrow> watchJson \<Rightarrow> (bytes \<Rightarrow> bytes option) \<Rightarrow> registry \<Rightarrow> bool" where
  "regHolds G J m reg \<longleftrightarrow> regOk reg \<and>
     (\<forall>i. m (WatchedAddressKey i) = None \<longleftrightarrow> idFree reg i) \<and>
     (\<forall>i d. m (WatchedAddressKey i) = Some d \<longrightarrow> recordOf J reg i d) \<and>
     (\<forall>c a. m (AddressByEthAddressKey G c a) = map_option waID (reg c a))"

lemma regHoldsI:
  "regOk reg \<Longrightarrow> (\<And>i. m (WatchedAddressKey i) = None \<longleftrightarrow> idFree reg i) \<Longrightarrow>
   (\<And>i d. m (WatchedAddressKey i) = Some d \<Longrightarrow> recordOf J reg i d) \<Longrightarrow>
   (\<And>c a. m (AddressByEthAddressKey G c a) = map_option waID (reg c a)) \<Longrightarrow> regHolds G J m reg"
  by (simp add: regHolds_def)

lemma regHolds_record:
  assumes "regHolds G J m reg" "m (WatchedAddressKey i) = Some d"
  obtains w where "unmarshalWatched J d = Some w" "waID w = i" "reg (waChainID w) (waAddress w) = Some (waCore w)"
    "\<And>c a x. reg c a = Some x \<Longrightarrow> waID x = i \<Longrightarrow> x = waCore w"
  using assms that unfolding regHolds_def recordOf_def by meson

lemma regHolds_free: "regHolds G J m reg \<Longrightarrow> m (WatchedAddressKey i) = None \<longleftrightarrow> idFree reg i"
  by (simp add: regHolds_def)

lemma regHolds_lookup:
  assumes "regHolds G J m reg" "reg c a = Some w"
  shows "\<exists>d x. m (WatchedAddressKey (waID w)) = Some d \<and> unmarshalWatched J d = Some x \<and> waID x = waID w \<and> waCore x = w"
proof -
  have "\<not> idFree reg (waID w)" using assms(2) by (auto simp: idFree_def)
  then obtain d where d: "m (WatchedAddressKey (waID w)) = Some d" using regHolds_free [OF assms(1)] by fastforce
  show ?thesis by (rule regHolds_record [OF assms(1) d]) (use d assms(2) in blast)
qed

lemma regHolds_cong:
  "regHolds G J m reg \<Longrightarrow> (\<And>i. m' (WatchedAddressKey i) = m (WatchedAddressKey i)) \<Longrightarrow>
   (\<And>c a. m' (AddressByEthAddressKey G c a) = m (AddressByEthAddressKey G c a)) \<Longrightarrow> regHolds G J m' reg"
  by (simp add: regHolds_def)

lemma regHolds_insert:
  assumes h: "regHolds G J m reg" and g: "geth_codec G" and d: "unmarshalWatched J d = Some w"
    and w: "idFree reg (waID w)" "reg (waChainID w) (waAddress w) = None" "waFilter w \<noteq> None" "asciiWatched w" "plainID (waID w)"
  shows "regHolds G J (m(WatchedAddressKey (waID w) \<mapsto> d, ChainAddressesKey (waChainID w) (waID w) \<mapsto> v,
      AddressByEthAddressKey G (waChainID w) (waAddress w) \<mapsto> waID w))
    (reg(waChainID w := (reg (waChainID w))(waAddress w \<mapsto> waCore w)))" (is "regHolds G J ?m ?reg")
proof (rule regHoldsI)
  have reg: "?reg c a = (if c = waChainID w \<and> a = waAddress w then Some (waCore w) else reg c a)" for c a by simp
  have ok: "regOk reg" using h by (simp add: regHolds_def)
  then show "regOk ?reg" using w(3-5) unfolding regOk_def reg by (auto split: if_splits)
  show "?m (WatchedAddressKey i) = None \<longleftrightarrow> idFree ?reg i" for i
  proof -
    have "idFree ?reg i \<longleftrightarrow> idFree reg i \<and> i \<noteq> waID w"
    proof
      assume f: "idFree ?reg i"
      then have "waID (waCore w) \<noteq> i" unfolding idFree_def reg by metis
      moreover have "waID x \<noteq> i" if x: "reg c a = Some x" for c a x
      proof -
        have "?reg c a = Some x" using x w(2) unfolding reg by auto
        with f show ?thesis unfolding idFree_def by blast
      qed
      ultimately show "idFree reg i \<and> i \<noteq> waID w" by (auto simp: idFree_def)
    qed (auto simp: idFree_def)
    then show ?thesis using regHolds_free [OF h, of i] by auto
  qed
  show "recordOf J ?reg i e" if e: "?m (WatchedAddressKey i) = Some e" for i e
  proof (cases "i = waID w")
    case True
    with e d w(1) show ?thesis unfolding recordOf_def reg by (intro exI [of _ w]) (auto simp: idFree_def split: if_splits)
  next
    case False
    then have "m (WatchedAddressKey i) = Some e" using e by simp
    then obtain x where x: "unmarshalWatched J e = Some x" "waID x = i" "reg (waChainID x) (waAddress x) = Some (waCore x)"
      "\<And>c a y. reg c a = Some y \<Longrightarrow> waID y = i \<Longrightarrow> y = waCore x" by (rule regHolds_record [OF h]) blast
    have "\<not> (waChainID x = waChainID w \<and> waAddress x = waAddress w)" using x(3) w(2) by auto
    then have at: "?reg (waChainID x) (waAddress x) = Some (waCore x)" using x(3) unfolding reg by auto
    have un: "y = waCore x" if y: "?reg c a = Some y" "waID y = i" for c a y
    proof (cases "c = waChainID w \<and> a = waAddress w")
      case True
      then have "waID y = waID w" using y(1) unfolding reg by auto
      then show ?thesis using y(2) False by simp
    next
      case False
      then have "reg c a = Some y" using y(1) unfolding reg by auto
      then show ?thesis using x(4) y(2) by blast
    qed
    show ?thesis by (rule recordOfI [of J e x i ?reg, OF x(1,2) at]) (rule un)
  qed
  show "?m (AddressByEthAddressKey G c a) = map_option waID (?reg c a)" for c a
  proof -
    have "m (AddressByEthAddressKey G c a) = map_option waID (reg c a)" using h by (simp add: regHolds_def)
    then show ?thesis unfolding reg by (simp add: eth_key_inject [OF g])
  qed
qed

definition regDrop :: "string \<Rightarrow> registry \<Rightarrow> registry" where
  "regDrop i reg = (\<lambda>c a. case reg c a of None \<Rightarrow> None | Some w \<Rightarrow> if waID w = i then None else Some w)"

lemma regDrop_Some [simp]: "regDrop i reg c a = Some w \<longleftrightarrow> reg c a = Some w \<and> waID w \<noteq> i"
  by (auto simp: regDrop_def split: option.split)

lemma regHolds_delete:
  assumes h: "regHolds G J m reg" and g: "geth_codec G" and d: "m (WatchedAddressKey i) = Some d" "unmarshalWatched J d = Some w"
  shows "regHolds G J (m(WatchedAddressKey i := None, ChainAddressesKey (waChainID w) i := v,
      AddressByEthAddressKey G (waChainID w) (waAddress w) := None)) (regDrop i reg)" (is "regHolds G J ?m ?reg")
proof (rule regHoldsI)
  from d(1) obtain x where "unmarshalWatched J d = Some x" "waID x = i" "reg (waChainID x) (waAddress x) = Some (waCore x)"
    "\<And>c a y. reg c a = Some y \<Longrightarrow> waID y = i \<Longrightarrow> y = waCore x" by (rule regHolds_record [OF h]) blast
  moreover from this(1) d(2) have "x = w" by simp
  ultimately have w: "waID w = i" "reg (waChainID w) (waAddress w) = Some (waCore w)"
    "\<And>c a x. reg c a = Some x \<Longrightarrow> waID x = i \<Longrightarrow> x = waCore w" by blast+
  have ok: "regOk reg" using h by (simp add: regHolds_def)
  then show "regOk ?reg" unfolding regOk_def by (simp, blast)
  show "?m (WatchedAddressKey j) = None \<longleftrightarrow> idFree ?reg j" for j
    using regHolds_free [OF h, of j] by (cases "j = i") (auto simp: idFree_def)
  show "recordOf J ?reg j e" if e: "?m (WatchedAddressKey j) = Some e" for j e
  proof -
    have j: "j \<noteq> i" "m (WatchedAddressKey j) = Some e" using e by (simp_all split: if_splits)
    from j(2) obtain x where "unmarshalWatched J e = Some x" "waID x = j" "reg (waChainID x) (waAddress x) = Some (waCore x)"
      "\<And>c a y. reg c a = Some y \<Longrightarrow> waID y = j \<Longrightarrow> y = waCore x" by (rule regHolds_record [OF h]) blast
    note x = this
    have at: "?reg (waChainID x) (waAddress x) = Some (waCore x)" using x(2,3) j(1) by simp
    have un: "y = waCore x" if "?reg c a = Some y" "waID y = j" for c a y
      by (rule x(4) [of c a]) (use that in \<open>simp_all\<close>)
    show ?thesis by (rule recordOfI [of J e x j ?reg, OF x(1,2) at]) (rule un)
  qed
  show "?m (AddressByEthAddressKey G c a) = map_option waID (?reg c a)" for c a
  proof (cases "c = waChainID w \<and> a = waAddress w")
    case True
    then show ?thesis using w(1,2) by (simp add: regDrop_def)
  next
    case False
    have "waID x \<noteq> i" if x: "reg c a = Some x" for x
    proof
      assume "waID x = i"
      then have "x = waCore w" using w(3) x by blast
      then show False using regOk_D [OF ok x] False by simp
    qed
    then have "?reg c a = reg c a" by (auto simp: regDrop_def split: option.split)
    moreover have "m (AddressByEthAddressKey G c a) = map_option waID (reg c a)" using h by (simp add: regHolds_def)
    ultimately show ?thesis using False by (auto simp: eth_key_inject [OF g])
  qed
qed

lemma regHolds_again:
  assumes h: "regHolds G J m reg" and d: "m (WatchedAddressKey i) = Some d" "unmarshalWatched J d = Some w"
    and d': "unmarshalWatched J d' = Some w'" "waCore w' = waCore w"
  shows "regHolds G J (m(WatchedAddressKey i \<mapsto> d')) reg" (is "regHolds G J ?m reg")
proof (rule regHoldsI)
  from d(1) obtain x where x: "unmarshalWatched J d = Some x" "waID x = i" "reg (waChainID x) (waAddress x) = Some (waCore x)"
    "\<And>c a y. reg c a = Some y \<Longrightarrow> waID y = i \<Longrightarrow> y = waCore x" by (rule regHolds_record [OF h]) blast
  have "x = w" using x(1) d(2) by simp
  have same: "waID w' = waID w" "waChainID w' = waChainID w" "waAddress w' = waAddress w"
    using d'(2) by (metis waCore_fields(1), metis waCore_fields(2), metis waCore_fields(3))
  have "\<not> idFree reg i" using x(2,3) by (fastforce simp: idFree_def)
  then show "?m (WatchedAddressKey j) = None \<longleftrightarrow> idFree reg j" for j
    using regHolds_free [OF h, of j] by simp
  show "recordOf J reg j e" if "?m (WatchedAddressKey j) = Some e" for j e
  proof (cases "j = i")
    case True
    then have e: "e = d'" using that by simp
    have "reg (waChainID w') (waAddress w') = Some (waCore w')" using x(3) \<open>x = w\<close> d'(2) same by simp
    moreover have "y = waCore w'" if "reg c a = Some y" "waID y = j" for c a y
      using x(4) [OF that(1)] that(2) True \<open>x = w\<close> d'(2) by simp
    ultimately show ?thesis using d'(1) x(2) \<open>x = w\<close> same(1) True unfolding recordOf_def e by blast
  next
    case False
    with that h show ?thesis by (simp add: regHolds_def)
  qed
qed (use h in \<open>simp_all add: regHolds_def\<close>)

section \<open>The log of events\<close>

definition eventAt :: "WatchEvent \<Rightarrow> u64" where
  "eventAt e = (case weTimestamp e of None \<Rightarrow> 0 | Some t \<Rightarrow> t)"

definition indexPair :: "watchJson \<Rightarrow> WatchEvent \<Rightarrow> bytes \<times> bytes" where
  "indexPair J e = (EventIndexKey (weAddressID e) (eventAt e) (weID e), (case marshalWatchEvent J e of Some d \<Rightarrow> d | None \<Rightarrow> []))"

text \<open>
  Events get their identifiers and times in the order of their numbers, and the service has given out the numbers below
  \<open>now\<close>. The database indexes the events \<open>evs\<close>: an address has an entry for each of its events and no other.
\<close>

definition stamped :: "'db watchEnv \<Rightarrow> nat \<Rightarrow> WatchEvent list \<Rightarrow> bool" where
  "stamped E now evs \<longleftrightarrow> (\<exists>ts. sorted_wrt (<) ts \<and> (\<forall>t\<in>set ts. Suc t < now) \<and>
     map (\<lambda>e. (weID e, eventAt e)) evs = map (\<lambda>t. (wvUuid E t, wvClock E (Suc t))) ts)"

definition logHolds :: "'db watchEnv \<Rightarrow> (bytes \<Rightarrow> bytes option) \<Rightarrow> nat \<Rightarrow> WatchEvent list \<Rightarrow> bool" where
  "logHolds E m now evs \<longleftrightarrow>
     (\<forall>e\<in>set evs. asciiWatchEvent e \<and> plainID (weAddressID e)) \<and> stamped E now evs \<and>
     (\<forall>i k v. plainID i \<and> HasPrefix k (EventIndexKeyPrefix i) \<longrightarrow>
        (m k = Some v \<longleftrightarrow> (\<exists>e\<in>set evs. weAddressID e = i \<and> (k, v) = indexPair (wvJson E) e)))"

lemma stamped_Nil [simp]: "stamped E n []"
  by (auto simp: stamped_def)

lemma stamped_mono: "stamped E n evs \<Longrightarrow> n \<le> n' \<Longrightarrow> stamped E n' evs"
  unfolding stamped_def by (meson order.strict_trans2)

lemma stamped_append:
  assumes "stamped E n evs" "n \<le> t" "Suc t < n'" "weID e = wvUuid E t" "eventAt e = wvClock E (Suc t)"
  shows "stamped E n' (evs @ [e])"
proof -
  from assms(1) obtain ts where ts: "sorted_wrt (<) ts" "\<forall>t\<in>set ts. Suc t < n"
    "map (\<lambda>e. (weID e, eventAt e)) evs = map (\<lambda>t. (wvUuid E t, wvClock E (Suc t))) ts" unfolding stamped_def by blast
  have old: "u < t" "Suc u < n'" if "u \<in> set ts" for u using ts(2) that assms(2,3) by force+
  show ?thesis unfolding stamped_def
    by (rule exI [of _ "ts @ [t]"]) (use ts(1,3) old assms(3-5) in \<open>auto simp: sorted_wrt_append\<close>)
qed

lemma stamped_ids:
  assumes "stamped E n evs" "inj (wvUuid E)" "n \<le> t" "e \<in> set evs"
  shows "weID e \<noteq> wvUuid E t"
proof -
  from assms(1) obtain ts where ts: "\<forall>t\<in>set ts. Suc t < n"
    "map (\<lambda>e. (weID e, eventAt e)) evs = map (\<lambda>t. (wvUuid E t, wvClock E (Suc t))) ts" unfolding stamped_def by blast
  have "(weID e, eventAt e) \<in> set (map (\<lambda>e. (weID e, eventAt e)) evs)" using assms(4) by auto
  then obtain u where u: "u \<in> set ts" "weID e = wvUuid E u" unfolding ts(2) by auto
  from u(1) have "u \<noteq> t" using ts(1) assms(3) by force
  with u(2) show ?thesis using inj_eq [OF assms(2), of u t] by simp
qed

text \<open>While the clock advances, the events are in the order of their times.\<close>

lemma stamped_sorted:
  assumes "stamped E n evs" "\<And>i j. i < j \<Longrightarrow> j < n \<Longrightarrow> wvClock E i < wvClock E j"
  shows "sorted_wrt (<) (map eventAt evs)"
proof -
  from assms(1) obtain ts where ts: "sorted_wrt (<) ts" "\<forall>t\<in>set ts. Suc t < n"
    "map (\<lambda>e. (weID e, eventAt e)) evs = map (\<lambda>t. (wvUuid E t, wvClock E (Suc t))) ts" unfolding stamped_def by blast
  have "map eventAt evs = map snd (map (\<lambda>e. (weID e, eventAt e)) evs)" by simp
  also have "\<dots> = map (\<lambda>t. wvClock E (Suc t)) ts" unfolding ts(3) by simp
  finally have "map eventAt evs = map (\<lambda>t. wvClock E (Suc t)) ts" .
  moreover have "sorted_wrt (<) (map (\<lambda>t. wvClock E (Suc t)) ts)"
    unfolding sorted_wrt_map by (rule sorted_wrt_mono_rel [OF _ ts(1)]) (use ts(2) assms(2) in auto)
  ultimately show ?thesis by simp
qed

lemma logHolds_cong:
  "logHolds E m now evs \<Longrightarrow> now \<le> now' \<Longrightarrow> (\<And>i k. plainID i \<Longrightarrow> HasPrefix k (EventIndexKeyPrefix i) \<Longrightarrow> m' k = m k) \<Longrightarrow>
   logHolds E m' now' evs"
proof -
  assume h: "logHolds E m now evs" and le: "now \<le> now'"
    and same: "\<And>i k. plainID i \<Longrightarrow> HasPrefix k (EventIndexKeyPrefix i) \<Longrightarrow> m' k = m k"
  have "m' k = Some v \<longleftrightarrow> (\<exists>e\<in>set evs. weAddressID e = i \<and> (k, v) = indexPair (wvJson E) e)"
    if i: "plainID i" "HasPrefix k (EventIndexKeyPrefix i)" for i k v
  proof -
    have "m k = Some v \<longleftrightarrow> (\<exists>e\<in>set evs. weAddressID e = i \<and> (k, v) = indexPair (wvJson E) e)"
      using h i unfolding logHolds_def by blast
    with same [OF i] show ?thesis by simp
  qed
  with h stamped_mono [OF _ le] show ?thesis unfolding logHolds_def by blast
qed

lemma logHolds_append:
  assumes h: "logHolds E m now evs" and u: "inj (wvUuid E)" "\<And>n. plainID (wvUuid E n)"
    and e: "asciiWatchEvent e" "plainID (weAddressID e)" "now \<le> t" "Suc t < now'"
    "weID e = wvUuid E t" "eventAt e = wvClock E (Suc t)" "marshalWatchEvent (wvJson E) e = Some d"
  shows "logHolds E (m(EventIndexKey (weAddressID e) (eventAt e) (weID e) \<mapsto> d)) now' (evs @ [e])" (is "logHolds E ?m now' _")
proof -
  let ?J = "wvJson E"
  have st: "stamped E now evs" using h by (simp add: logHolds_def)
  have old: "asciiWatchEvent x \<and> plainID (weAddressID x) \<and> weID x \<noteq> weID e" if "x \<in> set evs" for x
    using h stamped_ids [OF st u(1) e(3) that] that e(5) unfolding logHolds_def by auto
  have pair: "indexPair ?J e = (EventIndexKey (weAddressID e) (eventAt e) (weID e), d)" using e(7) by (simp add: indexPair_def)
  have "?m k = Some v \<longleftrightarrow> (\<exists>x\<in>set (evs @ [e]). weAddressID x = i \<and> (k, v) = indexPair ?J x)"
    if i: "plainID i" "HasPrefix k (EventIndexKeyPrefix i)" for i k v
  proof (cases "k = EventIndexKey (weAddressID e) (eventAt e) (weID e)")
    case True
    then have "weAddressID e = i" using i e(2) by simp
    moreover have "(k, v) \<noteq> indexPair ?J x" if "x \<in> set evs" for x
      using old [OF that] e(2) True by (auto simp: indexPair_def)
    ultimately show ?thesis using True pair by auto
  next
    case False
    then have "m k = Some v \<longleftrightarrow> (\<exists>x\<in>set evs. weAddressID x = i \<and> (k, v) = indexPair ?J x)"
      using h i unfolding logHolds_def by blast
    with False pair show ?thesis by auto
  qed
  moreover have "stamped E now' (evs @ [e])" by (rule stamped_append [OF st e(3-6)])
  moreover have "asciiWatchEvent x \<and> plainID (weAddressID x)" if "x \<in> set (evs @ [e])" for x
    using old [of x] that e(1,2) by auto
  ultimately show ?thesis unfolding logHolds_def by blast
qed

section \<open>What an operation on the storage does\<close>

context watch_env
begin

text \<open>\<open>does st m st'\<close>: the storage goes on, and the database has become \<open>m\<close>.\<close>

definition does :: "'db storage \<Rightarrow> (bytes \<Rightarrow> bytes option) \<Rightarrow> bool" where
  "does st m \<longleftrightarrow> ready st \<and> view (db st) = m"

lemma Put_does: "does st m \<Longrightarrow> \<exists>st'. Put P k v st = (Inr (), st') \<and> does st' (m(k \<mapsto> v))"
proof -
  assume st: "does st m"
  obtain st' where s: "dbSet P k v st = (Inr (), st')" using neverFails_dbSet [OF writes_ok, of k v st] by (cases "dbSet P k v st") auto
  have "only_db st st' \<and> view (db st') = (view (db st))(k := Some v)" by (rule dbSet_Inr [OF s])
  with s st show ?thesis by (simp add: Put_def does_def ready_def only_db_def guard_simps)
qed

lemma Delete_does: "does st m \<Longrightarrow> \<exists>st'. Delete P k st = (Inr (), st') \<and> does st' (m(k := None))"
proof -
  assume st: "does st m"
  obtain st' where s: "dbDelete P k st = (Inr (), st')" using neverFails_dbDelete [OF writes_ok, of k st] by (cases "dbDelete P k st") auto
  have "only_db st st' \<and> view (db st') = (view (db st))(k := None)" by (rule dbDelete_Inr [OF s])
  with s st show ?thesis by (simp add: Delete_def does_def ready_def only_db_def guard_simps)
qed

lemma Get_does: "does st m \<Longrightarrow> Get P k st = (case m k of None \<Rightarrow> Inl ErrNotFound | Some v \<Rightarrow> Inr v, st)"
  by (simp add: does_def ready_def kv.kget_open)

lemma getWatched_does:
  "does st m \<Longrightarrow> getWatchedAddressLocked P J i st =
     (case m (WatchedAddressKey i) of None \<Rightarrow> Inl ErrAddressNotFound
      | Some d \<Rightarrow> (case unmarshalWatched J d of None \<Rightarrow> Inl (NewWatchlistError ''unmarshal'' (Errorf ''json'')) | Some w \<Rightarrow> Inr w), st)"
  by (simp add: getWatchedAddressLocked_def andThen_def catch_def Get_does fromOption_def split: option.split)

lemma storeWatched_does:
  assumes st: "does st m" and w: "asciiWatched w"
  shows "\<exists>d st'. storeWatchedAddress P G J w st = (Inr (), st') \<and> unmarshalWatched J d = Some w \<and>
    does st' (m(WatchedAddressKey (waID w) \<mapsto> d, ChainAddressesKey (waChainID w) (waID w) \<mapsto> waID w,
      AddressByEthAddressKey G (waChainID w) (waAddress w) \<mapsto> waID w))"
proof -
  obtain d where d: "marshalWatched J w = Some d" "unmarshalWatched J d = Some w" using watched_roundtrip [OF w] by blast
  from Put_does [OF st, of "WatchedAddressKey (waID w)" d] obtain s1 where
    1: "Put P (WatchedAddressKey (waID w)) d st = (Inr (), s1)" "does s1 (m(WatchedAddressKey (waID w) \<mapsto> d))" by blast
  from Put_does [OF 1(2), of "ChainAddressesKey (waChainID w) (waID w)" "waID w"] obtain s2 where
    2: "Put P (ChainAddressesKey (waChainID w) (waID w)) (waID w) s1 = (Inr (), s2)"
      "does s2 (m(WatchedAddressKey (waID w) \<mapsto> d, ChainAddressesKey (waChainID w) (waID w) \<mapsto> waID w))" by blast
  from Put_does [OF 2(2), of "AddressByEthAddressKey G (waChainID w) (waAddress w)" "waID w"] obtain s3 where
    3: "Put P (AddressByEthAddressKey G (waChainID w) (waAddress w)) (waID w) s2 = (Inr (), s3)"
      "does s3 (m(WatchedAddressKey (waID w) \<mapsto> d, ChainAddressesKey (waChainID w) (waID w) \<mapsto> waID w,
        AddressByEthAddressKey G (waChainID w) (waAddress w) \<mapsto> waID w))" by blast
  have "storeWatchedAddress P G J w st = (Inr (), s3)"
    by (simp add: storeWatchedAddress_def andThen_def fromOption_def watchFailing_def catch_def d(1) 1(1) 2(1) 3(1))
  with d(2) 3(2) show ?thesis by blast
qed

lemma deleteWatched_does:
  assumes st: "does st m"
  shows "\<exists>st'. deleteWatchedAddress P G w st = (Inr (), st') \<and>
    does st' (m(WatchedAddressKey (waID w) := None, ChainAddressesKey (waChainID w) (waID w) := None,
      AddressByEthAddressKey G (waChainID w) (waAddress w) := None))"
proof -
  from Delete_does [OF st, of "WatchedAddressKey (waID w)"] obtain s1 where
    1: "Delete P (WatchedAddressKey (waID w)) st = (Inr (), s1)" "does s1 (m(WatchedAddressKey (waID w) := None))" by blast
  from Delete_does [OF 1(2), of "ChainAddressesKey (waChainID w) (waID w)"] obtain s2 where
    2: "Delete P (ChainAddressesKey (waChainID w) (waID w)) s1 = (Inr (), s2)"
      "does s2 (m(WatchedAddressKey (waID w) := None, ChainAddressesKey (waChainID w) (waID w) := None))" by blast
  from Delete_does [OF 2(2), of "AddressByEthAddressKey G (waChainID w) (waAddress w)"] obtain s3 where
    3: "Delete P (AddressByEthAddressKey G (waChainID w) (waAddress w)) s2 = (Inr (), s3)"
      "does s3 (m(WatchedAddressKey (waID w) := None, ChainAddressesKey (waChainID w) (waID w) := None,
        AddressByEthAddressKey G (waChainID w) (waAddress w) := None))" by blast
  have "deleteWatchedAddress P G w st = (Inr (), s3)"
    by (simp add: deleteWatchedAddress_def andThen_def watchFailing_def attempt_def catch_def 1(1) 2(1) 3(1))
  with 3(2) show ?thesis by blast
qed

lemma storeEvent_does:
  assumes st: "does st m" and e: "asciiWatchEvent e"
  shows "\<exists>d n st'. storeEvent E e st = (Inr (), st') \<and> marshalWatchEvent J e = Some d \<and>
    does st' (m(WatchEventKey G (weChainID e) (weBlockNumber e) (weTxHash e) n \<mapsto> d,
      EventIndexKey (weAddressID e) (eventAt e) (weID e) \<mapsto> d))"
proof -
  obtain d where d: "marshalWatchEvent J e = Some d" using watch_event_roundtrip [OF e] by blast
  define n where "n = (case weLogIndex e of None \<Rightarrow> 0 | Some i \<Rightarrow> i)"
  let ?k = "WatchEventKey G (weChainID e) (weBlockNumber e) (weTxHash e) n" and ?l = "EventIndexKey (weAddressID e) (eventAt e) (weID e)"
  from Put_does [OF st, of ?k d] obtain s1 where 1: "Put P ?k d st = (Inr (), s1)" "does s1 (m(?k \<mapsto> d))" by blast
  from Put_does [OF 1(2), of ?l d] obtain s2 where 2: "Put P ?l d s1 = (Inr (), s2)" "does s2 (m(?k \<mapsto> d, ?l \<mapsto> d))" by blast
  have "storeEvent E e st = (Inr (), s2)"
    using 1(1) 2(1) by (simp add: storeEvent_def Let_def andThen_def fromOption_def watchFailing_def catch_def env d n_def eventAt_def)
  with d 2(2) show ?thesis by blast
qed

end

end
