(* ===== verification/WatchRefine.thy ===== *)
theory WatchRefine
  imports WatchState
begin

text \<open>
  The service refines the registry and the log of \<open>WatchState\<close>: every operation with its response is a step of the
  abstract state, blocks append the events that concern the registered addresses, and a restart loses nothing.
\<close>

section \<open>The abstract state\<close>

record watchAbs =
  abRunning :: bool
  abReg :: registry
  abLog :: "WatchEvent list"

definition eventCore :: "WatchEvent \<Rightarrow> WatchEvent" where
  "eventCore e = e\<lparr>weID := [], weTimestamp := None\<rparr>"

lemma eventCore_fields [simp]:
  "weAddressID (eventCore e) = weAddressID e" "eventCore (e\<lparr>weID := i, weTimestamp := t\<rparr>) = eventCore e"
  by (simp_all add: eventCore_def)

text \<open>The events of a block for the addresses \<open>tbl\<close> of a chain, from the transactions whose receipt is given.\<close>

definition txEventsOf :: "'db watchEnv \<Rightarrow> (address \<Rightarrow> WatchedAddress option) \<Rightarrow> block \<Rightarrow> (hash \<Rightarrow> receipt option) \<Rightarrow> tx \<Rightarrow> WatchEvent list" where
  "txEventsOf E tbl b rm t = (case rm (tHash t) of
       None \<Rightarrow> []
     | Some r \<Rightarrow> txMatches (wvSender E) (wvTxIndex E) tbl (bNumber b) (bHash b) t r @
         concat (map (logMatches (wvGeth E) tbl (bNumber b) (bHash b)) (rLogs r)))"

definition blockMatches :: "'db watchEnv \<Rightarrow> (address \<Rightarrow> WatchedAddress option) \<Rightarrow> block \<Rightarrow> receipt list \<Rightarrow> WatchEvent list" where
  "blockMatches E tbl b rs =
     concat (map (txEventsOf E tbl b (map_of (rev (map (\<lambda>r. (rTxHash r, r)) rs)))) (bTxs b))"

datatype watchCall =
    CallWatch WatchRequest
  | CallUnwatch string
  | CallBlock string block "receipt list"
  | CallStart
  | CallStop
  | CallRestart

text \<open>The step of the abstract state that a call with its response stands for.\<close>

fun watchSpec :: "'db watchEnv \<Rightarrow> watchCall \<Rightarrow> serror + WatchedAddress option \<Rightarrow> watchAbs \<Rightarrow> watchAbs \<Rightarrow> bool" where
  "watchSpec E (CallWatch req) r A A' =
     (if wrAddress req = 0 then r = Inl ErrInvalidAddress \<and> A' = A
      else if abReg A (wrChainID req) (wrAddress req) \<noteq> None then r = Inl ErrAddressAlreadyExists \<and> A' = A
      else \<exists>w. r = Inr (Some w) \<and> waAddress w = wrAddress req \<and> waChainID w = wrChainID req \<and> waLabel w = wrLabel req \<and>
        waFilter w = Some (case wrFilter req of None \<Rightarrow> DefaultWatchFilter | Some f \<Rightarrow> f) \<and> idFree (abReg A) (waID w) \<and>
        plainID (waID w) \<and> A' = A\<lparr>abReg := (abReg A)(waChainID w := (abReg A (waChainID w))(waAddress w \<mapsto> waCore w))\<rparr>)"
| "watchSpec E (CallUnwatch i) r A A' =
     (if idFree (abReg A) i then r = Inl ErrAddressNotFound \<and> A' = A
      else r = Inr None \<and> A' = A\<lparr>abReg := regDrop i (abReg A)\<rparr>)"
| "watchSpec E (CallBlock c b rs) r A A' =
     (if \<not> abRunning A then r = Inl ErrServiceNotRunning \<and> A' = A
      else r = Inr None \<and> A' = A\<lparr>abLog := abLog A @ blockMatches E (abReg A c) b rs\<rparr>)"
| "watchSpec E CallStart r A A' = (r = Inr None \<and> A' = A\<lparr>abRunning := True\<rparr>)"
| "watchSpec E CallStop r A A' = (r = Inr None \<and> A' = A\<lparr>abRunning := False\<rparr>)"
| "watchSpec E CallRestart r A A' = (r = Inr None \<and> A' = A\<lparr>abRunning := True\<rparr>)"

text \<open>A restart is a new service on the same storage, started.\<close>

fun watchExec :: "'db watchEnv \<Rightarrow> watchCall \<Rightarrow> ('db WatchlistService, WatchedAddress option) op" where
  "watchExec E (CallWatch req) = andThen (WatchAddress E req) (\<lambda>w. ret (Some w))"
| "watchExec E (CallUnwatch i) = andThen (UnwatchAddress E i) (\<lambda>_. ret None)"
| "watchExec E (CallBlock c b rs) = andThen (ProcessBlock E c b rs) (\<lambda>_. ret None)"
| "watchExec E CallStart = andThen (Watchlist_Start E) (\<lambda>_. ret None)"
| "watchExec E CallStop = andThen Watchlist_Stop (\<lambda>_. ret None)"
| "watchExec E CallRestart = (\<lambda>s. andThen (Watchlist_Start E) (\<lambda>_. ret None) (NewService (wlStore s) (wlBus s) (wlTick s)))"

definition goodRequest :: "WatchRequest \<Rightarrow> bool" where
  "goodRequest req \<longleftrightarrow> ascii (wrChainID req) \<and> ascii (wrLabel req) \<and> asciiFilter (wrFilter req)"

fun goodCall :: "watchCall \<Rightarrow> bool" where
  "goodCall (CallWatch req) = goodRequest req"
| "goodCall _ = True"

definition watchRep :: "('db \<Rightarrow> bytes \<Rightarrow> bytes option) \<Rightarrow> 'db watchEnv \<Rightarrow> watchAbs \<Rightarrow> WatchEvent list \<Rightarrow> 'db WatchlistService \<Rightarrow> bool" where
  "watchRep view E A evs s \<longleftrightarrow> ready (wlStore s) \<and> wlRunning s = abRunning A \<and> map eventCore evs = abLog A \<and>
     regHolds (wvGeth E) (wvJson E) (view (db (wlStore s))) (abReg A) \<and>
     logHolds E (view (db (wlStore s))) (wlTick s) evs \<and>
     matcher_ok (wvGeth E) (wlMatcher s) \<and> (\<forall>c a. map_option waCore (watchTable (wlMatcher s) c a) = abReg A c a) \<and>
     (\<forall>c a w. abReg A c a = Some w \<longrightarrow> (\<exists>n<wlTick s. waID w = wvUuid E n))"

section \<open>Matches\<close>

lemma created_waCore [simp]:
  "createTxEvent ti (waCore w) ty t r frm dest n h = createTxEvent ti w ty t r frm dest n h"
  "createLogEvent (waCore w) ty l n h = createLogEvent w ty l n h"
  "createERC20Event (waCore w) l frm to n h = createERC20Event w l frm to n h"
  "createERC721Event (waCore w) l frm to n h = createERC721Event w l frm to n h"
  by (simp_all add: createTxEvent_def createLogEvent_def createERC20Event_def createERC721Event_def)

lemma wantedBy_core:
  "(\<And>w. mk (waCore w) = mk w) \<Longrightarrow> wantedBy (\<lambda>a. map_option waCore (tbl a)) a p mk = wantedBy tbl a p mk"
  by (cases "tbl a") (auto simp: wantedBy_def split: option.split)

lemma matches_core:
  "txMatches sd ti (\<lambda>a. map_option waCore (tbl a)) n h t r = txMatches sd ti tbl n h t r"
  "logMatches G (\<lambda>a. map_option waCore (tbl a)) n h l = logMatches G tbl n h l"
  unfolding txMatches_def logMatches_def by (auto simp: wantedBy_core Let_def split: option.split list.split)

lemma ascii_digits: "n < 16 \<Longrightarrow> (of_char (digitChar n) :: nat) < 128"
  using byteVal_digitChar [of n] by (simp add: byteVal_def split: if_splits)

lemma ascii_showBase: "2 \<le> b \<Longrightarrow> b \<le> 16 \<Longrightarrow> ascii (showBase b n)"
proof (induction b n rule: showBase.induct)
  case (1 b n)
  then have "n mod b < 16" by (intro less_le_trans [OF mod_less_divisor]) auto
  with 1 show ?case by (subst showBase.simps) (auto simp: ascii_def ascii_digits)
qed

lemma ascii_showInt: "ascii (showInt i)"
  using ascii_showBase [of 10 "nat i"] ascii_showBase [of 10 "nat (- i)"] by (simp add: showInt_def ascii_def)

lemma ascii_Bytes2Hex: "ascii (Bytes2Hex d)"
proof -
  have "c \<in> set (fixedDigits digitChar 16 w n) \<Longrightarrow> (of_char c :: nat) < 128" for c w n
    by (induction w arbitrary: n) (auto simp: ascii_digits)
  then show ?thesis by (auto simp: ascii_def Bytes2Hex_def)
qed

definition goodEvent :: "WatchEvent \<Rightarrow> bool" where
  "goodEvent e \<longleftrightarrow> asciiWatchEvent e \<and> plainID (weAddressID e) \<and> eventCore e = e"

lemma ascii_Nil [simp]: "ascii []"
  by (simp add: ascii_def)

lemma watch_types_ascii: "ascii WatchEventTypeTxFrom" "ascii WatchEventTypeTxTo" "ascii WatchEventTypeERC20Transfer"
  "ascii WatchEventTypeERC721Transfer" "ascii WatchEventTypeLog"
  by (simp_all add: watch_type_defs ascii_def)

lemma created_good:
  "asciiWatched w \<Longrightarrow> plainID (waID w) \<Longrightarrow> ascii ty \<Longrightarrow> goodEvent (createTxEvent ti w ty t r frm dest n h)"
  "asciiWatched w \<Longrightarrow> plainID (waID w) \<Longrightarrow> ascii ty \<Longrightarrow> goodEvent (createLogEvent w ty l n h)"
  "asciiWatched w \<Longrightarrow> plainID (waID w) \<Longrightarrow> goodEvent (createERC20Event w l frm to n h)"
  "asciiWatched w \<Longrightarrow> plainID (waID w) \<Longrightarrow> goodEvent (createERC721Event w l frm to n h)"
  by (simp_all add: goodEvent_def asciiWatchEvent_def asciiWatched_def eventCore_def asciiData_def createTxEvent_def Let_def
      createLogEvent_def createERC20Event_def createERC721Event_def ascii_showInt ascii_Bytes2Hex watch_types_ascii)

lemma wantedBy_good:
  "(\<And>w. tbl a = Some w \<Longrightarrow> goodEvent (mk w)) \<Longrightarrow> e \<in> set (wantedBy tbl a p mk) \<Longrightarrow> goodEvent e"
  by (auto simp: wantedBy_def split: option.splits if_splits)

lemma matches_good:
  assumes "\<And>a w. tbl a = Some w \<Longrightarrow> asciiWatched w \<and> plainID (waID w)"
  shows "e \<in> set (txMatches sd ti tbl n h t r) \<Longrightarrow> goodEvent e" "e \<in> set (logMatches G tbl n h l) \<Longrightarrow> goodEvent e"
proof -
  show "e \<in> set (txMatches sd ti tbl n h t r) \<Longrightarrow> goodEvent e"
    unfolding txMatches_def
    by (auto split: option.splits elim!: wantedBy_good [rotated] intro!: created_good simp: watch_types_ascii dest: assms)
  show "e \<in> set (logMatches G tbl n h l) \<Longrightarrow> goodEvent e"
    unfolding logMatches_def Let_def
    by (auto split: list.splits if_splits elim!: wantedBy_good [rotated] intro!: created_good simp: watch_types_ascii dest: assms)
qed

section \<open>Simulation\<close>

context watch_env
begin

lemma repD:
  assumes "watchRep view E A evs s"
  shows "ready (wlStore s)" "wlRunning s = abRunning A" "map eventCore evs = abLog A"
    "regHolds G J (view (db (wlStore s))) (abReg A)" "logHolds E (view (db (wlStore s))) (wlTick s) evs"
    "matcher_ok G (wlMatcher s)" "map_option waCore (watchTable (wlMatcher s) c a) = abReg A c a"
    "abReg A c a = Some w \<Longrightarrow> \<exists>n<wlTick s. waID w = wvUuid E n"
  using assms by (simp_all add: watchRep_def env)

lemma repI:
  assumes "ready (wlStore s)" "wlRunning s = abRunning A" "map eventCore evs = abLog A"
    "regHolds G J (view (db (wlStore s))) (abReg A)" "logHolds E (view (db (wlStore s))) (wlTick s) evs"
    "matcher_ok G (wlMatcher s)" "\<And>c a. map_option waCore (watchTable (wlMatcher s) c a) = abReg A c a"
    "\<And>c a w. abReg A c a = Some w \<Longrightarrow> \<exists>n<wlTick s. waID w = wvUuid E n"
  shows "watchRep view E A evs s"
  using assms by (simp add: watchRep_def env)

text \<open>An operation that leaves alone what the representation looks at, but for the counter, which may grow.\<close>

lemma rep_same:
  assumes r: "watchRep view E A evs s" and "wlStore s' = wlStore s" "wlRunning s' = wlRunning s" "wlMatcher s' = wlMatcher s"
    and t: "wlTick s \<le> wlTick s'"
  shows "watchRep view E A evs s'"
proof (rule repI)
  show "logHolds E (view (db (wlStore s'))) (wlTick s') evs"
    using logHolds_cong [OF repD(5) [OF r] t] assms(2) by simp
  show "\<exists>n<wlTick s'. waID w = wvUuid E n" if "abReg A c a = Some w" for c a w
    using repD(8) [OF r that] t by (meson order.strict_trans2)
qed (use repD [OF r] assms in simp_all)

lemma rep_does: "watchRep view E A evs s \<Longrightarrow> does (wlStore s) (view (db (wlStore s)))"
  by (simp add: does_def repD(1))

text \<open>A change of the storage alone.\<close>

lemma rep_store:
  assumes r: "watchRep view E A evs s" and st: "does st m" "regHolds G J m (abReg A)" "logHolds E m (wlTick s) evs"
  shows "watchRep view E A evs (s\<lparr>wlStore := st\<rparr>)"
  using st by (intro repI) (use repD [OF r] in \<open>simp_all add: does_def\<close>)

lemma onWatchStore_eq: "m (wlStore s) = (r, st) \<Longrightarrow> onWatchStore m s = (r, s\<lparr>wlStore := st\<rparr>)"
  by (simp add: onWatchStore_def)

lemma notify_keeps:
  "\<exists>s'. notifySubscribers E is s = (Inr (), s') \<and> wlStore s' = wlStore s \<and> wlRunning s' = wlRunning s \<and>
     wlMatcher s' = wlMatcher s \<and> wlTick s \<le> wlTick s'"
proof (induction "is" arbitrary: s)
  case (Cons i "is")
  show ?case
  proof (cases "wlSubscribers s i")
    case None
    then show ?thesis using Cons.IH by simp
  next
    case (Some sub)
    let ?s = "s\<lparr>wlTick := Suc (wlTick s), wlSubscribers := (wlSubscribers s)(i \<mapsto> sub\<lparr>sbLastDelivery := Some (wvClock E (wlTick s))\<rparr>)\<rparr>"
    from Cons.IH [of ?s] obtain s' where "notifySubscribers E is ?s = (Inr (), s')" "wlStore s' = wlStore s" "wlRunning s' = wlRunning s"
      "wlMatcher s' = wlMatcher s" "Suc (wlTick s) \<le> wlTick s'" by auto
    with Some show ?thesis by (simp add: andThen_def watchNow_def)
  qed
qed simp

lemma updateStats_rep:
  assumes r: "watchRep view E A evs s"
  shows "\<exists>s'. attempt (updateAddressStats E i ty) s = (Inr (), s') \<and> watchRep view E A evs s' \<and> wlMatcher s' = wlMatcher s \<and>
    wlTick s \<le> wlTick s'"
proof (cases "view (db (wlStore s)) (WatchedAddressKey i)")
  case None
  then have "updateAddressStats E i ty s = (Inl ErrAddressNotFound, s)"
    by (simp add: updateAddressStats_def andThen_def onWatchStore_def env getWatched_does [OF rep_does [OF r]])
  then show ?thesis using r by (simp add: attempt_def catch_def)
next
  case (Some d)
  let ?m = "view (db (wlStore s))"
  obtain w where w: "unmarshalWatched J d = Some w" "waID w = i" "abReg A (waChainID w) (waAddress w) = Some (waCore w)"
    by (rule regHolds_record [OF repD(4) [OF r] Some]) blast
  have asc: "asciiWatched w"
    using regOk_D [of "abReg A" "waChainID w" "waAddress w" "waCore w"] w(3) repD(4) [OF r] by (simp add: regHolds_def)
  have g: "getWatchedAddressLocked P J i (wlStore s) = (Inr w, wlStore s)"
    using Some w(1) by (simp add: getWatched_does [OF rep_does [OF r]])
  define t where "t = wlTick s"
  define stats where "stats = countEvent ty ((case waStats w of None \<Rightarrow> \<lparr>wsTotalEvents = 0, wsTxFromCount = 0, wsTxToCount = 0,
    wsERC20Count = 0, wsERC721Count = 0, wsLogCount = 0, wsLastEventAt = None, wsLastBlockNumber = 0\<rparr> | Some st \<Rightarrow> st)
    \<lparr>wsTotalEvents := wsTotalEvents (case waStats w of None \<Rightarrow> \<lparr>wsTotalEvents = 0, wsTxFromCount = 0, wsTxToCount = 0,
    wsERC20Count = 0, wsERC721Count = 0, wsLogCount = 0, wsLastEventAt = None, wsLastBlockNumber = 0\<rparr> | Some st \<Rightarrow> st) + 1,
     wsLastEventAt := Some (wvClock E t)\<rparr>)"
  define w' where "w' = w\<lparr>waStats := Some stats, waUpdatedAt := wvClock E (Suc t)\<rparr>"
  have "asciiWatched w'" using asc by (simp add: w'_def asciiWatched_def)
  then obtain d' where d': "marshalWatched J w' = Some d'" "unmarshalWatched J d' = Some w'" using watched_roundtrip by blast
  let ?s = "s\<lparr>wlTick := Suc (Suc t)\<rparr>"
  have r2: "watchRep view E A evs ?s" by (rule rep_same [OF r]) (simp_all add: t_def)
  from Put_does [OF rep_does [OF r], of "WatchedAddressKey i" d'] obtain st where
    p: "Put P (WatchedAddressKey i) d' (wlStore s) = (Inr (), st)" "does st (?m(WatchedAddressKey i \<mapsto> d'))" by blast
  have "updateAddressStats E i ty s = (Inr (), ?s\<lparr>wlStore := st\<rparr>)"
    using g p(1) d'(1)
    by (simp add: updateAddressStats_def andThen_def onWatchStore_def env watchNow_def Let_def fromOption_def flip: t_def stats_def w'_def)
  moreover have "watchRep view E A evs (?s\<lparr>wlStore := st\<rparr>)"
  proof (rule rep_store [OF r2 p(2)])
    show "regHolds G J (?m(WatchedAddressKey i \<mapsto> d')) (abReg A)"
      by (rule regHolds_again [OF repD(4) [OF r] Some w(1) d'(2)]) (simp add: w'_def waCore_def)
    show "logHolds E (?m(WatchedAddressKey i \<mapsto> d')) (wlTick ?s) evs"
      by (rule logHolds_cong [OF repD(5) [OF r2]]) auto
  qed
  ultimately show ?thesis by (simp add: attempt_def catch_def t_def)
qed

lemma processMatched_rep:
  assumes r: "watchRep view E A evs s" and e: "goodEvent e"
  shows "\<exists>s' e'. attempt (processMatchedEvent E e) s = (Inr (), s') \<and> eventCore e' = e \<and>
    watchRep view E (A\<lparr>abLog := abLog A @ [e]\<rparr>) (evs @ [e']) s' \<and> wlMatcher s' = wlMatcher s"
proof -
  define t where "t = wlTick s"
  define e' where "e' = e\<lparr>weID := wvUuid E t, weTimestamp := Some (wvClock E (Suc t))\<rparr>"
  have e': "asciiWatchEvent e'" "plainID (weAddressID e')" "eventCore e' = e" "eventAt e' = wvClock E (Suc t)"
    "weAddressID e' = weAddressID e" "weEventType e' = weEventType e"
    using e uuid(3) by (simp_all add: e'_def goodEvent_def asciiWatchEvent_def eventAt_def)
  let ?s = "s\<lparr>wlTick := Suc (Suc t)\<rparr>" and ?m = "view (db (wlStore s))"
  from storeEvent_does [OF rep_does [OF r] e'(1)] obtain d n st where
    st: "storeEvent E e' (wlStore s) = (Inr (), st)" "marshalWatchEvent J e' = Some d"
      "does st (?m(WatchEventKey G (weChainID e') (weBlockNumber e') (weTxHash e') n \<mapsto> d,
        EventIndexKey (weAddressID e') (eventAt e') (weID e') \<mapsto> d))" (is "does st (?m1(_ \<mapsto> d))") by blast
  have r1: "watchRep view E (A\<lparr>abLog := abLog A @ [e]\<rparr>) (evs @ [e']) (?s\<lparr>wlStore := st\<rparr>)"
  proof (rule repI)
    have "logHolds E ?m1 t evs"
      unfolding t_def by (rule logHolds_cong [OF repD(5) [OF r]]) auto
    then have "logHolds E (?m1(EventIndexKey (weAddressID e') (eventAt e') (weID e') \<mapsto> d)) (Suc (Suc t)) (evs @ [e'])"
      by (rule logHolds_append [where t = t]) (use e' uuid st(2) in \<open>simp_all add: env e'_def\<close>)
    then show "logHolds E (view (db (wlStore (?s\<lparr>wlStore := st\<rparr>)))) (wlTick (?s\<lparr>wlStore := st\<rparr>)) (evs @ [e'])"
      using st(3) by (simp add: does_def)
    show "regHolds G J (view (db (wlStore (?s\<lparr>wlStore := st\<rparr>)))) (abReg (A\<lparr>abLog := abLog A @ [e]\<rparr>))"
      using st(3) regHolds_cong [OF repD(4) [OF r]] by (simp add: does_def)
    show "\<exists>n<wlTick (?s\<lparr>wlStore := st\<rparr>). waID w = wvUuid E n" if "abReg (A\<lparr>abLog := abLog A @ [e]\<rparr>) c a = Some w" for c a w
    proof -
      from repD(8) [OF r, of c a w] that obtain n where "n < wlTick s" "waID w = wvUuid E n" by auto
      then show ?thesis by (intro exI [of _ n]) (simp add: t_def)
    qed
  qed (use repD [OF r] st(3) e'(3) in \<open>simp_all add: does_def\<close>)
  from updateStats_rep [OF r1, of "weAddressID e'" "weEventType e'"] obtain s2 where
    s2: "attempt (updateAddressStats E (weAddressID e') (weEventType e')) (?s\<lparr>wlStore := st\<rparr>) = (Inr (), s2)"
      "watchRep view E (A\<lparr>abLog := abLog A @ [e]\<rparr>) (evs @ [e']) s2" "wlMatcher s2 = wlMatcher s" by auto
  obtain s3 where s3: "publishWatchEvent s2 = (Inr (), s3)" "wlStore s3 = wlStore s2" "wlRunning s3 = wlRunning s2"
    "wlMatcher s3 = wlMatcher s2" "wlTick s3 = wlTick s2"
    by (cases "wlBus s2") (simp_all add: publishWatchEvent_def)
  have r3: "watchRep view E (A\<lparr>abLog := abLog A @ [e]\<rparr>) (evs @ [e']) s3" by (rule rep_same [OF s2(2)]) (simp_all add: s3)
  from notify_keeps [of "wlAddrSubs s3 (weAddressID e')" s3] obtain s4 where
    s4: "notifySubscribers E (wlAddrSubs s3 (weAddressID e')) s3 = (Inr (), s4)" "wlStore s4 = wlStore s3" "wlRunning s4 = wlRunning s3"
      "wlMatcher s4 = wlMatcher s3" "wlTick s3 \<le> wlTick s4" by blast
  have "watchRep view E (A\<lparr>abLog := abLog A @ [e]\<rparr>) (evs @ [e']) s4" by (rule rep_same [OF r3]) (use s4 in simp_all)
  moreover have "processMatchedEvent E e s = (Inr (), s4)"
    using st(1) s2(1) s3(1) s4(1) e'(5,6)
    by (simp add: processMatchedEvent_def andThen_def newUuid_def watchNow_def Let_def onWatchStore_def flip: t_def e'_def)
  ultimately show ?thesis using e'(3) s4(4) s3(4) s2(3) by (auto simp: attempt_def catch_def)
qed

lemma processEvents_rep:
  assumes "watchRep view E A evs s" "\<And>e. e \<in> set es \<Longrightarrow> goodEvent e"
  shows "\<exists>s' evs'. forEach (\<lambda>e. attempt (processMatchedEvent E e)) es s = (Inr (), s') \<and>
    watchRep view E (A\<lparr>abLog := abLog A @ es\<rparr>) evs' s' \<and> wlMatcher s' = wlMatcher s"
  using assms
proof (induction es arbitrary: A evs s)
  case Nil
  then show ?case by auto
next
  case (Cons e es)
  from processMatched_rep [OF Cons.prems(1)] Cons.prems(2) obtain s1 e' where
    1: "attempt (processMatchedEvent E e) s = (Inr (), s1)" "watchRep view E (A\<lparr>abLog := abLog A @ [e]\<rparr>) (evs @ [e']) s1"
      "wlMatcher s1 = wlMatcher s" by fastforce
  from Cons.IH [OF 1(2)] Cons.prems(2) obtain s2 evs2 where
    "forEach (\<lambda>e. attempt (processMatchedEvent E e)) es s1 = (Inr (), s2)"
    "watchRep view E (A\<lparr>abLog := abLog A @ e # es\<rparr>) evs2 s2" "wlMatcher s2 = wlMatcher s1" by auto
  with 1(1,3) show ?case by (auto simp: andThen_def)
qed

lemma table_core:
  "watchRep view E A evs s \<Longrightarrow> (\<lambda>a. map_option waCore (watchTable (wlMatcher s) c a)) = abReg A c"
  using repD(7) by (rule ext)

lemma rep_matches:
  assumes r: "watchRep view E A evs s"
  shows "txMatches sd ti (watchTable (wlMatcher s) c) n h t rc = txMatches sd ti (abReg A c) n h t rc"
    "logMatches G (watchTable (wlMatcher s) c) n h = logMatches G (abReg A c) n h"
    "e \<in> set (txMatches sd ti (abReg A c) n h t rc) \<Longrightarrow> goodEvent e"
    "e \<in> set (logMatches G (abReg A c) n h l) \<Longrightarrow> goodEvent e"
proof -
  show "txMatches sd ti (watchTable (wlMatcher s) c) n h t rc = txMatches sd ti (abReg A c) n h t rc"
    "logMatches G (watchTable (wlMatcher s) c) n h = logMatches G (abReg A c) n h"
    using matches_core [where tbl = "watchTable (wlMatcher s) c"] unfolding table_core [OF r] by (simp_all add: fun_eq_iff)
  have "asciiWatched w \<and> plainID (waID w)" if "abReg A c a = Some w" for a w
    using regOk_D [of "abReg A" c a w] that repD(4) [OF r] by (simp add: regHolds_def)
  note g = matches_good [of "abReg A c", OF this]
  show "e \<in> set (txMatches sd ti (abReg A c) n h t rc) \<Longrightarrow> goodEvent e" by (rule g(1))
  show "e \<in> set (logMatches G (abReg A c) n h l) \<Longrightarrow> goodEvent e" by (rule g(2))
qed

lemma processTx_rep:
  assumes r: "watchRep view E A evs s"
  shows "\<exists>s' evs'. processTx E c b rm t s = (Inr (), s') \<and>
    watchRep view E (A\<lparr>abLog := abLog A @ txEventsOf E (abReg A c) b rm t\<rparr>) evs' s' \<and> wlMatcher s' = wlMatcher s"
proof (cases "rm (tHash t)")
  case None
  then show ?thesis using r by (auto simp: processTx_def txEventsOf_def)
next
  case (Some rc)
  let ?tx = "txMatches (wvSender E) (wvTxIndex E) (abReg A c) (bNumber b) (bHash b) t rc"
  let ?lg = "concat (map (logMatches G (abReg A c) (bNumber b) (bHash b)) (rLogs rc))"
  note ok = repD(6) [OF r]
  have tx: "Matcher_MatchTransaction G (wvSender E) (wvTxIndex E) (wlMatcher s) c t rc (bNumber b) (bHash b) = Inr ?tx"
    by (simp add: MatchTransaction_exact [OF ok] rep_matches(1) [OF r])
  from processEvents_rep [OF r, of ?tx] rep_matches(3) [OF r] obtain s1 evs1 where
    1: "forEach (\<lambda>e. attempt (processMatchedEvent E e)) ?tx s = (Inr (), s1)" "watchRep view E (A\<lparr>abLog := abLog A @ ?tx\<rparr>) evs1 s1"
      "wlMatcher s1 = wlMatcher s" by blast
  have lg: "MatchLogs G (wlMatcher s1) c (rLogs rc) (bNumber b) (bHash b) = Inr ?lg"
    by (simp add: 1(3) MatchLogs_exact [OF ok] rep_matches(2) [OF r])
  have good: "\<And>e. e \<in> set ?lg \<Longrightarrow> goodEvent e" using rep_matches(4) [OF r] by auto
  have app: "A\<lparr>abLog := abLog A @ ?tx\<rparr>\<lparr>abLog := abLog (A\<lparr>abLog := abLog A @ ?tx\<rparr>) @ ?lg\<rparr> = A\<lparr>abLog := abLog A @ ?tx @ ?lg\<rparr>" by simp
  from processEvents_rep [OF 1(2), of ?lg] good obtain s2 evs2 where
    2: "forEach (\<lambda>e. attempt (processMatchedEvent E e)) ?lg s1 = (Inr (), s2)"
      "watchRep view E (A\<lparr>abLog := abLog A @ ?tx @ ?lg\<rparr>) evs2 s2" "wlMatcher s2 = wlMatcher s1" unfolding app by blast
  have "processTx E c b rm t s = (Inr (), s2)"
    by (simp add: processTx_def Some andThen_def fromSum_def env tx 1(1) lg 2(1))
  moreover have "txEventsOf E (abReg A c) b rm t = ?tx @ ?lg" by (simp add: txEventsOf_def Some env)
  ultimately show ?thesis using 1(3) 2(2,3) by auto
qed

lemma processTxs_rep:
  assumes "watchRep view E A evs s"
  shows "\<exists>s' evs'. forEach (processTx E c b rm) ts s = (Inr (), s') \<and>
    watchRep view E (A\<lparr>abLog := abLog A @ concat (map (txEventsOf E (abReg A c) b rm) ts)\<rparr>) evs' s'"
  using assms
proof (induction ts arbitrary: A evs s)
  case Nil
  then show ?case by auto
next
  case (Cons t ts)
  from processTx_rep [OF Cons.prems] obtain s1 evs1 where
    1: "processTx E c b rm t s = (Inr (), s1)" "watchRep view E (A\<lparr>abLog := abLog A @ txEventsOf E (abReg A c) b rm t\<rparr>) evs1 s1" by blast
  from Cons.IH [OF 1(2)] 1(1) show ?case by (auto simp: andThen_def)
qed

lemma no_matches:
  assumes "tbl = (\<lambda>_. None)"
  shows "blockMatches E' tbl b rs = []"
proof -
  have "txMatches sd ti (\<lambda>_. None) n h t r = []" "logMatches G' (\<lambda>_. None) n h l = []" for sd ti n h t r G' l
    by (auto simp: txMatches_def logMatches_def wantedBy_def Let_def split: option.split list.split)
  with assms show ?thesis by (auto simp: blockMatches_def txEventsOf_def split: option.split)
qed

lemma CallBlock_rep:
  assumes r: "watchRep view E A evs s"
  shows "\<exists>rsp s' A' evs'. watchExec E (CallBlock c b rs) s = (rsp, s') \<and> watchSpec E (CallBlock c b rs) rsp A A' \<and> watchRep view E A' evs' s'"
proof -
  let ?rm = "map_of (rev (map (\<lambda>r. (rTxHash r, r)) rs))"
  consider "\<not> wlRunning s" | "wlRunning s" "\<not> HasWatchedAddresses c (wlMatcher s)" | "wlRunning s" "HasWatchedAddresses c (wlMatcher s)"
    by blast
  then show ?thesis
  proof cases
    case 1
    then show ?thesis using r repD(2) [OF r] by (auto simp: ProcessBlock_def andThen_def)
  next
    case 2
    have "watchTable (wlMatcher s) c = (\<lambda>_. None)"
      using 2(2) by (auto simp: HasWatchedAddresses_def watchTable_def split: option.splits)
    then have "abReg A c = (\<lambda>_. None)" using table_core [OF r, of c] by (metis option.simps(8))
    then have n: "blockMatches E (abReg A c) b rs = []" by (rule no_matches)
    have "watchExec E (CallBlock c b rs) s = (Inr None, s)" using 2 by (simp add: ProcessBlock_def andThen_def)
    moreover have "watchSpec E (CallBlock c b rs) (Inr None) A A" using n 2(1) repD(2) [OF r] by simp
    ultimately show ?thesis using r by blast
  next
    case 3
    from processTxs_rep [OF r, of c b ?rm "bTxs b"] obtain s' evs' where
      x: "forEach (processTx E c b ?rm) (bTxs b) s = (Inr (), s')"
        "watchRep view E (A\<lparr>abLog := abLog A @ blockMatches E (abReg A c) b rs\<rparr>) evs' s'"
      unfolding blockMatches_def by blast
    have "watchExec E (CallBlock c b rs) s = (Inr None, s')" using 3 x(1) by (simp add: ProcessBlock_def andThen_def)
    moreover have "watchSpec E (CallBlock c b rs) (Inr None) A (A\<lparr>abLog := abLog A @ blockMatches E (abReg A c) b rs\<rparr>)"
      using 3 repD(2) [OF r] by simp
    ultimately show ?thesis using x(2) by blast
  qed
qed

lemma getByEth_rep:
  assumes r: "watchRep view E A evs s"
  shows "\<exists>q. getWatchedAddressByEthAddressLocked P G J c a (wlStore s) = (q, wlStore s) \<and>
    (case abReg A c a of None \<Rightarrow> q = Inl ErrAddressNotFound | Some w \<Rightarrow> \<exists>x. q = Inr x \<and> waCore x = w)"
proof -
  let ?m = "view (db (wlStore s))"
  note d = rep_does [OF r]
  have k: "?m (AddressByEthAddressKey G c a) = map_option waID (abReg A c a)"
    using repD(4) [OF r] by (simp add: regHolds_def)
  show ?thesis
  proof (cases "abReg A c a")
    case None
    with k show ?thesis by (simp add: getWatchedAddressByEthAddressLocked_def andThen_def catch_def Get_does [OF d])
  next
    case (Some w)
    from regHolds_lookup [OF repD(4) [OF r] Some] obtain e x where
      x: "?m (WatchedAddressKey (waID w)) = Some e" "unmarshalWatched J e = Some x" "waCore x = w" by blast
    then have "getWatchedAddressLocked P J (waID w) (wlStore s) = (Inr x, wlStore s)" by (simp add: getWatched_does [OF d])
    then have "getWatchedAddressByEthAddressLocked P G J c a (wlStore s) = (Inr x, wlStore s)"
      using k Some by (simp add: getWatchedAddressByEthAddressLocked_def andThen_def catch_def Get_does [OF d])
    with x(3) Some show ?thesis by auto
  qed
qed

lemma CallWatch_rep:
  assumes r: "watchRep view E A evs s" and g: "goodRequest req"
  shows "\<exists>rsp s' A' evs'. watchExec E (CallWatch req) s = (rsp, s') \<and> watchSpec E (CallWatch req) rsp A A' \<and> watchRep view E A' evs' s'"
proof -
  let ?c = "wrChainID req" and ?a = "wrAddress req" and ?m = "view (db (wlStore s))"
  obtain q where q: "getWatchedAddressByEthAddressLocked P G J ?c ?a (wlStore s) = (q, wlStore s)"
    "case abReg A ?c ?a of None \<Rightarrow> q = Inl ErrAddressNotFound | Some w \<Rightarrow> \<exists>x. q = Inr x \<and> waCore x = w"
    using getByEth_rep [OF r] by blast
  have on: "onWatchStore (getWatchedAddressByEthAddressLocked P G J ?c ?a) s = (q, s)" using q(1) by (simp add: onWatchStore_def)
  consider "?a = 0" | w where "?a \<noteq> 0" "abReg A ?c ?a = Some w" | "?a \<noteq> 0" "abReg A ?c ?a = None" by fastforce
  then show ?thesis
  proof cases
    case 1
    then show ?thesis using r by (auto simp: WatchAddress_def andThen_def)
  next
    case 2
    with q(2) on have "watchExec E (CallWatch req) s = (Inl ErrAddressAlreadyExists, s)"
      by (auto simp: WatchAddress_def andThen_def env Let_def)
    then show ?thesis using r 2 by auto
  next
    case 3
    define t where "t = wlTick s"
    define f where "f = (case wrFilter req of None \<Rightarrow> DefaultWatchFilter | Some f \<Rightarrow> f)"
    define w where "w = \<lparr>waID = wvUuid E (Suc t), waAddress = ?a, waChainID = ?c, waLabel = wrLabel req, waFilter = Some f,
      waCreatedAt = wvClock E t, waUpdatedAt = wvClock E t, waStats = Some \<lparr>wsTotalEvents = 0, wsTxFromCount = 0, wsTxToCount = 0,
      wsERC20Count = 0, wsERC721Count = 0, wsLogCount = 0, wsLastEventAt = None, wsLastBlockNumber = 0\<rparr>\<rparr>"
    have w: "waID w = wvUuid E (Suc t)" "waAddress w = ?a" "waChainID w = ?c" "waLabel w = wrLabel req" "waFilter w = Some f"
      by (simp_all add: w_def)
    have asc: "asciiWatched w"
      using g uuid(3) by (auto simp: asciiWatched_def w goodRequest_def asciiFilter_def f_def DefaultWatchFilter_def split: option.splits)
    let ?A = "A\<lparr>abReg := (abReg A)(?c := (abReg A ?c)(?a \<mapsto> waCore w))\<rparr>"
    let ?s = "s\<lparr>wlTick := Suc (Suc t)\<rparr>"
    have r1: "watchRep view E A evs ?s" by (rule rep_same [OF r]) (simp_all add: t_def)
    have free: "idFree (abReg A) (waID w)"
      using repD(8) [OF r] uuid(1) unfolding idFree_def w(1) t_def by (metis injD less_irrefl less_SucI)
    from storeWatched_does [OF rep_does [OF r] asc] obtain d st where
      st: "storeWatchedAddress P G J w (wlStore s) = (Inr (), st)" "unmarshalWatched J d = Some w"
        "does st (?m(WatchedAddressKey (waID w) \<mapsto> d, ChainAddressesKey (waChainID w) (waID w) \<mapsto> waID w,
          AddressByEthAddressKey G (waChainID w) (waAddress w) \<mapsto> waID w))" (is "does st ?m1") by blast
    have h1: "regHolds G J ?m1 (abReg ?A)"
      using regHolds_insert [OF repD(4) [OF r] geth_codec_axioms st(2) free _ _ asc, of "waID w"] 3(2) uuid(2) by (simp add: w)
    from AddAddress_ok [OF repD(6) [OF r] bloom0, of w] obtain m' where
      m': "AddAddress G (wvBloom E) w (wlMatcher s) = Inr m'" "matcher_ok G m'"
        "watchTable m' = (watchTable (wlMatcher s))(?c := (watchTable (wlMatcher s) ?c)(?a := Some w))" by (auto simp: w)
    let ?s1 = "s\<lparr>wlTick := Suc (Suc t), wlStore := st, wlMatcher := m'\<rparr>"
    have lh: "logHolds E ?m1 (Suc (Suc t)) evs"
      by (rule logHolds_cong [OF repD(5) [OF r]]) (auto simp: t_def)
    have r2: "watchRep view E ?A evs ?s1"
    proof (rule repI)
      show "map_option waCore (watchTable (wlMatcher ?s1) c a) = abReg ?A c a" for c a
        using repD(7) [OF r, of c a] by (auto simp: m'(3))
      show "\<exists>n<wlTick ?s1. waID x = wvUuid E n" if "abReg ?A c a = Some x" for c a x
      proof (cases "c = ?c \<and> a = ?a")
        case True
        then have "waID x = wvUuid E (Suc t)" using that w(1) by auto
        then show ?thesis by (intro exI [of _ "Suc t"]) simp
      next
        case False
        then have "abReg A c a = Some x" using that by (auto split: if_splits)
        then obtain n where "n < wlTick s" "waID x = wvUuid E n" using repD(8) [OF r] by blast
        then show ?thesis by (intro exI [of _ n]) (simp add: t_def)
      qed
    qed (use repD [OF r] st(3) h1 lh m'(2) in \<open>simp_all add: does_def\<close>)
    obtain bf where bf: "bloomFilters m' ?c = Some bf"
      using m'(2,3) matcher_ok_cases [OF m'(2), of ?c] by (metis fun_upd_same option.distinct(1) watchTable_def option.simps(4))
    from Put_does [OF rep_does [OF r2], of "BloomFilterKey ?c" "Bloom_Bytes bf"] obtain st2 where
      p: "Put P (BloomFilterKey ?c) (Bloom_Bytes bf) st = (Inr (), st2)" "does st2 ((view (db st))(BloomFilterKey ?c \<mapsto> Bloom_Bytes bf))"
      by auto
    have r3: "watchRep view E ?A evs (?s1\<lparr>wlStore := st2\<rparr>)"
    proof (rule rep_store [OF r2 p(2)])
      show "regHolds G J ((view (db st))(BloomFilterKey ?c \<mapsto> Bloom_Bytes bf)) (abReg ?A)"
        by (rule regHolds_cong [OF repD(4) [OF r2]]) simp_all
      show "logHolds E ((view (db st))(BloomFilterKey ?c \<mapsto> Bloom_Bytes bf)) (wlTick ?s1) evs"
        by (rule logHolds_cong [OF repD(5) [OF r2]]) auto
    qed
    have "WatchAddress E req s = (Inr w, ?s1\<lparr>wlStore := st2\<rparr>)"
      using 3 q(2) on st(1) m'(1) bf p(1)
      by (simp add: WatchAddress_def andThen_def env watchNow_def newUuid_def onWatchStore_def onMatcher_def GetBloomFilter_def
          storeBloomFilter_def attempt_def catch_def Let_def flip: t_def f_def w_def)
    then have "watchExec E (CallWatch req) s = (Inr (Some w), ?s1\<lparr>wlStore := st2\<rparr>)" by (simp add: andThen_def)
    moreover have "watchSpec E (CallWatch req) (Inr (Some w)) A ?A" using 3 w free uuid(2) by (simp add: f_def)
    ultimately show ?thesis using r3 by blast
  qed
qed

lemma CallUnwatch_rep:
  assumes r: "watchRep view E A evs s"
  shows "\<exists>rsp s' A' evs'. watchExec E (CallUnwatch i) s = (rsp, s') \<and> watchSpec E (CallUnwatch i) rsp A A' \<and> watchRep view E A' evs' s'"
proof (cases "view (db (wlStore s)) (WatchedAddressKey i)")
  case None
  then have "idFree (abReg A) i" using regHolds_free [OF repD(4) [OF r]] by blast
  moreover have "watchExec E (CallUnwatch i) s = (Inl ErrAddressNotFound, s)"
    using None by (simp add: UnwatchAddress_def andThen_def onWatchStore_def env getWatched_does [OF rep_does [OF r]])
  ultimately show ?thesis using r by auto
next
  case (Some d)
  let ?m = "view (db (wlStore s))"
  obtain w where w: "unmarshalWatched J d = Some w" "waID w = i" "abReg A (waChainID w) (waAddress w) = Some (waCore w)"
    "\<And>c a x. abReg A c a = Some x \<Longrightarrow> waID x = i \<Longrightarrow> x = waCore w"
    by (rule regHolds_record [OF repD(4) [OF r] Some]) blast
  have nf: "\<not> idFree (abReg A) i" using regHolds_free [OF repD(4) [OF r], of i] Some by simp
  from deleteWatched_does [OF rep_does [OF r], of w] obtain st where
    st: "deleteWatchedAddress P G w (wlStore s) = (Inr (), st)" "does st (?m(WatchedAddressKey i := None,
      ChainAddressesKey (waChainID w) i := None, AddressByEthAddressKey G (waChainID w) (waAddress w) := None))" (is "does st ?m1")
    unfolding w(2) by blast
  let ?mt = "RemoveAddress (waChainID w) (waAddress w) (wlMatcher s)"
  note mt = RemoveAddress_ok [OF repD(6) [OF r], of "waChainID w" "waAddress w"]
  let ?s = "s\<lparr>wlMatcher := ?mt, wlStore := st, wlSubscribers := (\<lambda>j. if j \<in> set (wlAddrSubs s i) then None else wlSubscribers s j),
    wlAddrSubs := (wlAddrSubs s)(i := [])\<rparr>"
  let ?A = "A\<lparr>abReg := regDrop i (abReg A)\<rparr>"
  have "watchExec E (CallUnwatch i) s = (Inr None, ?s)"
    using Some w(1) st(1)
    by (simp add: UnwatchAddress_def andThen_def onWatchStore_def onMatcher_def env getWatched_does [OF rep_does [OF r]] cong: if_cong)
  moreover have "watchRep view E ?A evs ?s"
  proof (rule repI)
    show "regHolds G J (view (db (wlStore ?s))) (abReg ?A)"
      using regHolds_delete [OF repD(4) [OF r] geth_codec_axioms Some w(1), of None] st(2) by (simp add: does_def)
    have "logHolds E ?m1 (wlTick s) evs" by (rule logHolds_cong [OF repD(5) [OF r]]) auto
    then show "logHolds E (view (db (wlStore ?s))) (wlTick ?s) evs" using st(2) by (simp add: does_def)
    show "map_option waCore (watchTable (wlMatcher ?s) c a) = abReg ?A c a" for c a
    proof (cases "c = waChainID w \<and> a = waAddress w")
      case True
      then show ?thesis using mt w(2,3) by (simp add: regDrop_def)
    next
      case False
      have ok: "regOk (abReg A)" using repD(4) [OF r] by (simp add: regHolds_def)
      have "waID x \<noteq> i" if x: "abReg A c a = Some x" for x
      proof
        assume "waID x = i"
        then have "x = waCore w" using w(4) x by blast
        then show False using regOk_D [OF ok x] False by simp
      qed
      then have "regDrop i (abReg A) c a = abReg A c a" by (auto simp: regDrop_def split: option.split)
      with mt False repD(7) [OF r, of c a] show ?thesis by auto
    qed
    show "\<exists>n<wlTick ?s. waID x = wvUuid E n" if "abReg ?A c a = Some x" for c a x
      using repD(8) [OF r, of c a x] that by simp
  qed (use repD [OF r] st(2) mt in \<open>simp_all add: does_def\<close>)
  ultimately show ?thesis using nf by auto
qed

text \<open>Loading: every record of the registry is in the table afterwards, and the table has nothing else.\<close>

definition tableOf :: "registry \<Rightarrow> EventMatcher \<Rightarrow> bool" where
  "tableOf reg m \<longleftrightarrow> matcher_ok G m \<and> (\<forall>c a w. watchTable m c a = Some w \<longrightarrow> reg c a = Some (waCore w))"

lemma load_loop:
  assumes "regOk reg" "tableOf reg m"
    and "\<And>k d. (k, d) \<in> set es \<Longrightarrow> \<exists>w. unmarshalWatched J d = Some w \<and> reg (waChainID w) (waAddress w) = Some (waCore w)"
  shows "\<exists>m'. Iterate_loop (\<lambda>_. False) (loadStep G J (wvBloom E)) n es (Inr m) = (None, Inr m') \<and> tableOf reg m' \<and>
    (\<forall>c a. watchTable m c a \<noteq> None \<longrightarrow> watchTable m' c a \<noteq> None) \<and>
    (\<forall>k d w. (k, d) \<in> set es \<and> unmarshalWatched J d = Some w \<longrightarrow> watchTable m' (waChainID w) (waAddress w) \<noteq> None)"
  using assms(2,3)
proof (induction es arbitrary: m n)
  case Nil
  then show ?case by auto
next
  case (Cons e es)
  obtain k d where e: "e = (k, d)" by force
  with Cons.prems(2) [of k d] obtain w where w: "unmarshalWatched J d = Some w" "reg (waChainID w) (waAddress w) = Some (waCore w)"
    by auto
  have "waFilter w \<noteq> None" using regOk_D [of reg "waChainID w" "waAddress w" "waCore w"] assms(1) w(2) by simp
  moreover have "matcher_ok G m" using Cons.prems(1) by (simp add: tableOf_def)
  ultimately obtain m1 where m1: "AddAddress G (wvBloom E) w m = Inr m1" "matcher_ok G m1"
    "watchTable m1 = (watchTable m)(waChainID w := (watchTable m (waChainID w))(waAddress w := Some w))"
    using AddAddress_ok [OF _ bloom0] by blast
  have t1: "tableOf reg m1" using Cons.prems(1) m1(2) w(2) unfolding tableOf_def m1(3) by (auto split: if_splits)
  from Cons.IH [OF t1, of "Suc n"] Cons.prems(2) obtain m2 where
    m2: "Iterate_loop (\<lambda>_. False) (loadStep G J (wvBloom E)) (Suc n) es (Inr m1) = (None, Inr m2)" "tableOf reg m2"
      "\<And>c a. watchTable m1 c a \<noteq> None \<Longrightarrow> watchTable m2 c a \<noteq> None"
      "\<And>k d w. (k, d) \<in> set es \<Longrightarrow> unmarshalWatched J d = Some w \<Longrightarrow> watchTable m2 (waChainID w) (waAddress w) \<noteq> None"
    by (metis (no_types, lifting) list.set_intros(2))
  have "Iterate_loop (\<lambda>_. False) (loadStep G J (wvBloom E)) n (e # es) (Inr m) = (None, Inr m2)"
    using m2(1) w(1) m1(1) by (simp add: e loadStep_def)
  moreover have "watchTable m2 c a \<noteq> None" if "watchTable m c a \<noteq> None" for c a
    by (rule m2(3)) (use that in \<open>auto simp: m1(3)\<close>)
  moreover have "watchTable m2 (waChainID w) (waAddress w) \<noteq> None" using m2(3) [of "waChainID w" "waAddress w"] by (simp add: m1(3))
  ultimately show ?case using m2(2,4) w(1) by (intro exI [of _ m2]) (auto simp: e)
qed

lemma load_rep:
  assumes st: "ready (wlStore s)" "regHolds G J (view (db (wlStore s))) reg" and t: "tableOf reg (wlMatcher s)"
  shows "\<exists>m'. loadWatchedAddresses E s = (Inr (), s\<lparr>wlMatcher := m'\<rparr>) \<and> matcher_ok G m' \<and>
    (\<forall>c a. map_option waCore (watchTable m' c a) = reg c a)"
proof -
  have o: "\<not> closed (wlStore s)" using st(1) by (simp add: ready_def)
  let ?m = "view (db (wlStore s))"
  have ok: "regOk reg" using st(2) by (simp add: regHolds_def)
  from kv.iterate_open [OF o, of WatchedAddressKeyPrefix "\<lambda>_. False" "loadStep G J (wvBloom E)" "Inr (wlMatcher s)"]
  obtain es where es: "\<And>k v. (k, v) \<in> set es \<longleftrightarrow> HasPrefix k WatchedAddressKeyPrefix \<and> ?m k = Some v"
    "Iterate P (\<lambda>_. False) WatchedAddressKeyPrefix (loadStep G J (wvBloom E)) (Inr (wlMatcher s)) (wlStore s) =
      (Inr (Iterate_loop (\<lambda>_. False) (loadStep G J (wvBloom E)) 0 es (Inr (wlMatcher s))), wlStore s)" by blast
  have rec: "\<exists>w. unmarshalWatched J d = Some w \<and> reg (waChainID w) (waAddress w) = Some (waCore w)" if kd: "(k, d) \<in> set es" for k d
  proof -
    from kd obtain i where "?m (WatchedAddressKey i) = Some d" unfolding es(1) by auto
    then show ?thesis by (rule regHolds_record [OF st(2)]) blast
  qed
  from load_loop [OF ok t, of es 0] rec obtain m' where
    m': "Iterate_loop (\<lambda>_. False) (loadStep G J (wvBloom E)) 0 es (Inr (wlMatcher s)) = (None, Inr m')" "tableOf reg m'"
      "\<And>k d w. (k, d) \<in> set es \<Longrightarrow> unmarshalWatched J d = Some w \<Longrightarrow> watchTable m' (waChainID w) (waAddress w) \<noteq> None" by blast
  have "map_option waCore (watchTable m' c a) = reg c a" for c a
  proof (cases "reg c a")
    case None
    then show ?thesis using m'(2) by (cases "watchTable m' c a") (auto simp: tableOf_def)
  next
    case (Some w)
    from regHolds_lookup [OF st(2) Some] obtain d x where
      x: "?m (WatchedAddressKey (waID w)) = Some d" "unmarshalWatched J d = Some x" "waCore x = w" by blast
    have "(WatchedAddressKey (waID w), d) \<in> set es" using x(1) by (simp add: es(1))
    from m'(3) [OF this x(2)] have "watchTable m' (waChainID x) (waAddress x) \<noteq> None" .
    moreover have "waChainID x = c" "waAddress x = a" using regOk_D [OF ok Some] x(3) by auto
    ultimately show ?thesis using m'(2) Some unfolding tableOf_def by force
  qed
  moreover have "loadWatchedAddresses E s = (Inr (), s\<lparr>wlMatcher := m'\<rparr>)"
    using es(2) m'(1) by (simp add: loadWatchedAddresses_def env)
  ultimately show ?thesis using m'(2) by (auto simp: tableOf_def)
qed

lemma start_rep:
  assumes r: "watchRep view E A evs s" and n: "wlStore s' = wlStore s" "wlTick s' = wlTick s" "\<not> wlRunning s'"
    and t: "tableOf (abReg A) (wlMatcher s')"
  shows "\<exists>s2. Watchlist_Start E s' = (Inr (), s2) \<and> watchRep view E (A\<lparr>abRunning := True\<rparr>) evs s2"
proof -
  from load_rep [of s' "abReg A"] repD(1,4) [OF r] t n(1) obtain m' where
    m': "loadWatchedAddresses E s' = (Inr (), s'\<lparr>wlMatcher := m'\<rparr>)" "matcher_ok G m'"
      "\<And>c a. map_option waCore (watchTable m' c a) = abReg A c a" by metis
  let ?s = "s'\<lparr>wlMatcher := m', wlRunning := True\<rparr>"
  have "Watchlist_Start E s' = (Inr (), ?s)" using n(3) m'(1) by (simp add: Watchlist_Start_def andThen_def)
  moreover have "watchRep view E (A\<lparr>abRunning := True\<rparr>) evs ?s"
    by (rule repI) (use repD [OF r] n m' in simp_all)
  ultimately show ?thesis by blast
qed

lemma rep_tableOf: "watchRep view E A evs s \<Longrightarrow> tableOf (abReg A) (wlMatcher s)"
proof -
  assume r: "watchRep view E A evs s"
  have "abReg A c a = Some (waCore w)" if "watchTable (wlMatcher s) c a = Some w" for c a w
    using repD(7) [OF r, of c a] that by simp
  then show ?thesis using repD(6) [OF r] by (simp add: tableOf_def)
qed

lemma tableOf_new: "tableOf reg NewEventMatcher"
  by (simp add: tableOf_def)

text \<open>Every call is a step of the abstract state.\<close>

lemma watch_simulation:
  assumes r: "watchRep view E A evs s" and g: "goodCall call"
  shows "\<exists>rsp s' A' evs'. watchExec E call s = (rsp, s') \<and> watchSpec E call rsp A A' \<and> watchRep view E A' evs' s'"
proof (cases call)
  case (CallWatch req)
  with CallWatch_rep [OF r, of req] g show ?thesis by simp
next
  case (CallUnwatch i)
  with CallUnwatch_rep [OF r, of i] show ?thesis by blast
next
  case (CallBlock c b rs)
  with CallBlock_rep [OF r, of c b rs] show ?thesis by blast
next
  case CallStart
  show ?thesis
  proof (cases "wlRunning s")
    case True
    then have "A\<lparr>abRunning := True\<rparr> = A" using repD(2) [OF r] by simp
    with True r CallStart show ?thesis by (auto simp: Watchlist_Start_def andThen_def)
  next
    case False
    from start_rep [OF r refl refl False rep_tableOf [OF r]] CallStart show ?thesis by (auto simp: andThen_def)
  qed
next
  case CallStop
  let ?s = "if wlRunning s then s\<lparr>wlRunning := False\<rparr> else s"
  have "watchRep view E (A\<lparr>abRunning := False\<rparr>) evs ?s"
    by (rule repI) (use repD [OF r] in auto)
  with CallStop show ?thesis by (auto simp: Watchlist_Stop_def andThen_def)
next
  case CallRestart
  from start_rep [OF r, of "NewService (wlStore s) (wlBus s) (wlTick s)"] tableOf_new [of "abReg A"] CallRestart
  show ?thesis by (auto simp: NewService_def andThen_def)
qed

end

end
