(* ===== verification/WatchCodec.thy ===== *)
theory WatchCodec
  imports WatchState
begin

text \<open>
  A codec that keeps what \<^verbatim>\<open>watch_json\<close> asks of \<^verbatim>\<open>encoding/json\<close>: a prefix-free code put together by combinators. It
  stands for the library in the runs below.
\<close>

section \<open>Codecs\<close>

type_synonym 'a codec = "('a \<Rightarrow> bytes) \<times> (bytes \<Rightarrow> ('a \<times> bytes) option)"

definition codecOk :: "'a codec \<Rightarrow> bool" where
  "codecOk c \<longleftrightarrow> (\<forall>x r. snd c (fst c x @ r) = Some (x, r))"

lemma codecOkD [simp]: "codecOk c \<Longrightarrow> snd c (fst c x @ r) = Some (x, r)"
  by (simp add: codecOk_def)

definition cUnit :: "unit codec" where
  "cUnit = (\<lambda>_. [], \<lambda>r. Some ((), r))"

definition cChar :: "char codec" where
  "cChar = (\<lambda>x. [x], \<lambda>r. case r of [] \<Rightarrow> None | x # r \<Rightarrow> Some (x, r))"

definition cPair :: "'a codec \<Rightarrow> 'b codec \<Rightarrow> ('a \<times> 'b) codec" where
  "cPair c d = (\<lambda>(x, y). fst c x @ fst d y,
     \<lambda>r. case snd c r of None \<Rightarrow> None | Some (x, r) \<Rightarrow> map_option (\<lambda>(y, r). ((x, y), r)) (snd d r))"

definition cMap :: "('a \<Rightarrow> 'b) \<Rightarrow> ('b \<Rightarrow> 'a) \<Rightarrow> 'b codec \<Rightarrow> 'a codec" where
  "cMap f g c = (\<lambda>x. fst c (f x), \<lambda>r. map_option (\<lambda>(y, r). (g y, r)) (snd c r))"

text \<open>A sum: the first character tells the sides apart.\<close>

definition cSum :: "'a codec \<Rightarrow> 'b codec \<Rightarrow> ('a + 'b) codec" where
  "cSum c d = (\<lambda>x. case x of Inl y \<Rightarrow> CHR ''0'' # fst c y | Inr y \<Rightarrow> CHR ''1'' # fst d y,
     \<lambda>r. case r of [] \<Rightarrow> None
       | t # r \<Rightarrow> if t = CHR ''0'' then map_option (\<lambda>(y, r). (Inl y, r)) (snd c r) else map_option (\<lambda>(y, r). (Inr y, r)) (snd d r))"

fun decList :: "'a codec \<Rightarrow> nat \<Rightarrow> bytes \<Rightarrow> ('a list \<times> bytes) option" where
  "decList c n [] = None"
| "decList c 0 (t # r) = (if t = CHR ''0'' then Some ([], r) else None)"
| "decList c (Suc n) (t # r) = (if t = CHR ''0'' then Some ([], r)
     else case snd c r of None \<Rightarrow> None | Some (x, r) \<Rightarrow> map_option (\<lambda>(xs, r). (x # xs, r)) (decList c n r))"

definition cList :: "'a codec \<Rightarrow> 'a list codec" where
  "cList c = (\<lambda>xs. concat (map (\<lambda>x. CHR ''1'' # fst c x) xs) @ ''0'', \<lambda>r. decList c (length r) r)"

lemma cUnit_ok: "codecOk cUnit" and cChar_ok: "codecOk cChar"
  by (simp_all add: codecOk_def cUnit_def cChar_def)

lemma cPair_ok: "codecOk c \<Longrightarrow> codecOk d \<Longrightarrow> codecOk (cPair c d)"
  by (simp add: codecOk_def cPair_def)

lemma cMap_ok: "codecOk c \<Longrightarrow> (\<And>x. g (f x) = x) \<Longrightarrow> codecOk (cMap f g c)"
  by (simp add: codecOk_def cMap_def)

lemma cSum_ok: "codecOk c \<Longrightarrow> codecOk d \<Longrightarrow> codecOk (cSum c d)"
  by (simp add: codecOk_def cSum_def split: sum.split)

lemma decList_ok:
  "codecOk c \<Longrightarrow> length xs \<le> n \<Longrightarrow> decList c n (concat (map (\<lambda>x. CHR ''1'' # fst c x) xs) @ CHR ''0'' # r) = Some (xs, r)"
proof (induction xs arbitrary: n)
  case Nil
  then show ?case by (cases n) simp_all
next
  case (Cons x xs)
  then obtain k where "n = Suc k" "length xs \<le> k" by (cases n) auto
  with Cons show ?case by simp
qed

lemma cList_ok: "codecOk c \<Longrightarrow> codecOk (cList c)"
proof -
  assume c: "codecOk c"
  have "length xs \<le> length (concat (map (\<lambda>x. CHR ''1'' # fst c x) xs) @ CHR ''0'' # r)" for xs r
    by (induction xs) auto
  then show ?thesis unfolding codecOk_def cList_def using decList_ok [OF c] by simp
qed

section \<open>The types of the watch list\<close>

definition cNat :: "nat codec" where "cNat = cMap (\<lambda>n. replicate n ()) length (cList cUnit)"
definition cString :: "string codec" where "cString = cList cChar"
definition cWord :: "'a::len word codec" where "cWord = cMap unat of_nat cNat"
definition cBool :: "bool codec" where
  "cBool = cMap (\<lambda>b. if b then Inr () else Inl ()) (\<lambda>s. case s of Inl _ \<Rightarrow> False | Inr _ \<Rightarrow> True) (cSum cUnit cUnit)"
definition cOption :: "'a codec \<Rightarrow> 'a option codec" where
  "cOption c = cMap (\<lambda>x. case x of None \<Rightarrow> Inl () | Some y \<Rightarrow> Inr y) (\<lambda>s. case s of Inl _ \<Rightarrow> None | Inr y \<Rightarrow> Some y) (cSum cUnit c)"

lemma cNat_ok: "codecOk cNat" and cString_ok: "codecOk cString" and cBool_ok: "codecOk cBool"
  by (simp_all add: cNat_def cString_def cBool_def cMap_ok cList_ok cUnit_ok cChar_ok cSum_ok)

lemma cWord_ok: "codecOk (cWord :: 'a::len word codec)"
  unfolding cWord_def by (rule cMap_ok [OF cNat_ok]) simp

lemma cOption_ok: "codecOk c \<Longrightarrow> codecOk (cOption c)"
  unfolding cOption_def by (intro cMap_ok cSum_ok cUnit_ok) (auto split: option.split)

lemmas codec_ok = cNat_ok cString_ok cBool_ok cWord_ok cOption_ok cPair_ok cSum_ok cList_ok

definition cFilter :: "WatchFilter codec" where
  "cFilter = cMap (\<lambda>x. (wfTxFrom x, wfTxTo x, wfERC20 x, wfERC721 x, wfLogs x, wfMinValue x))
     (\<lambda>(a, b, c, d, e, f). \<lparr>wfTxFrom = a, wfTxTo = b, wfERC20 = c, wfERC721 = d, wfLogs = e, wfMinValue = f\<rparr>)
     (cPair cBool (cPair cBool (cPair cBool (cPair cBool (cPair cBool cString)))))"

definition cStats :: "WatchStats codec" where
  "cStats = cMap (\<lambda>x. (wsTotalEvents x, wsTxFromCount x, wsTxToCount x, wsERC20Count x, wsERC721Count x, wsLogCount x,
       wsLastEventAt x, wsLastBlockNumber x))
     (\<lambda>(a, b, c, d, e, f, g, h). \<lparr>wsTotalEvents = a, wsTxFromCount = b, wsTxToCount = c, wsERC20Count = d, wsERC721Count = e,
       wsLogCount = f, wsLastEventAt = g, wsLastBlockNumber = h\<rparr>)
     (cPair cWord (cPair cWord (cPair cWord (cPair cWord (cPair cWord (cPair cWord (cPair (cOption cWord) cWord)))))))"

definition cWatched :: "WatchedAddress codec" where
  "cWatched = cMap (\<lambda>x. (waID x, waAddress x, waChainID x, waLabel x, waFilter x, waCreatedAt x, waUpdatedAt x, waStats x))
     (\<lambda>(a, b, c, d, e, f, g, h). \<lparr>waID = a, waAddress = b, waChainID = c, waLabel = d, waFilter = e, waCreatedAt = f,
       waUpdatedAt = g, waStats = h\<rparr>)
     (cPair cString (cPair cWord (cPair cString (cPair cString (cPair (cOption cFilter) (cPair cWord (cPair cWord (cOption cStats))))))))"

definition cTxData :: "TxEventData codec" where
  "cTxData = cMap (\<lambda>x. (tdFrom x, tdTo x, tdValue x, tdGasUsed x, tdGasPrice x, tdNonce x))
     (\<lambda>(a, b, c, d, e, f). \<lparr>tdFrom = a, tdTo = b, tdValue = c, tdGasUsed = d, tdGasPrice = e, tdNonce = f\<rparr>)
     (cPair cWord (cPair cWord (cPair cString (cPair cWord (cPair cString cWord)))))"

definition cERC20Data :: "ERC20EventData codec" where
  "cERC20Data = cMap (\<lambda>x. (edToken x, edFrom x, edTo x, edAmount x))
     (\<lambda>(a, b, c, d). \<lparr>edToken = a, edFrom = b, edTo = c, edAmount = d\<rparr>) (cPair cWord (cPair cWord (cPair cWord cString)))"

definition cERC721Data :: "ERC721EventData codec" where
  "cERC721Data = cMap (\<lambda>x. (ndToken x, ndFrom x, ndTo x, ndTokenID x))
     (\<lambda>(a, b, c, d). \<lparr>ndToken = a, ndFrom = b, ndTo = c, ndTokenID = d\<rparr>) (cPair cWord (cPair cWord (cPair cWord cString)))"

definition cLogData :: "LogEventData codec" where
  "cLogData = cMap (\<lambda>x. (ldAddress x, ldTopics x, ldData x))
     (\<lambda>(a, b, c). \<lparr>ldAddress = a, ldTopics = b, ldData = c\<rparr>) (cPair cWord (cPair (cList cWord) cString))"

definition cData :: "watch_data codec" where
  "cData = cMap (\<lambda>x. case x of TxData d \<Rightarrow> Inl (Inl d) | ERC20Data d \<Rightarrow> Inl (Inr d) | ERC721Data d \<Rightarrow> Inr (Inl d) | LogData d \<Rightarrow> Inr (Inr d))
     (\<lambda>s. case s of Inl (Inl d) \<Rightarrow> TxData d | Inl (Inr d) \<Rightarrow> ERC20Data d | Inr (Inl d) \<Rightarrow> ERC721Data d | Inr (Inr d) \<Rightarrow> LogData d)
     (cSum (cSum cTxData cERC20Data) (cSum cERC721Data cLogData))"

definition cWatchEvent :: "WatchEvent codec" where
  "cWatchEvent = cMap (\<lambda>x. (weID x, weAddressID x, weAddress x, weChainID x, weEventType x, weBlockNumber x, weBlockHash x,
       weTxHash x, weTxIndex x, weLogIndex x, weData x, weTimestamp x, weValue x, weFrom x, weTo x, weTokenID x, weTokenAmount x))
     (\<lambda>(a, b, c, d, e, f, g, h, i, j, k, l, m, n, o', p, q). \<lparr>weID = a, weAddressID = b, weAddress = c, weChainID = d,
       weEventType = e, weBlockNumber = f, weBlockHash = g, weTxHash = h, weTxIndex = i, weLogIndex = j, weData = k,
       weTimestamp = l, weValue = m, weFrom = n, weTo = o', weTokenID = p, weTokenAmount = q\<rparr>)
     (cPair cString (cPair cString (cPair cWord (cPair cString (cPair cString (cPair cWord (cPair cWord (cPair cWord
       (cPair cWord (cPair (cOption cWord) (cPair cData (cPair (cOption cWord) (cPair cString (cPair cWord (cPair cWord
       (cPair cString cString))))))))))))))))"

lemma cFilter_ok: "codecOk cFilter" and cStats_ok: "codecOk cStats" and cTxData_ok: "codecOk cTxData"
  and cERC20Data_ok: "codecOk cERC20Data" and cERC721Data_ok: "codecOk cERC721Data" and cLogData_ok: "codecOk cLogData"
  unfolding cFilter_def cStats_def cTxData_def cERC20Data_def cERC721Data_def cLogData_def
  by (intro cMap_ok codec_ok; simp)+

lemma cWatched_ok: "codecOk cWatched"
  unfolding cWatched_def by (intro cMap_ok codec_ok cFilter_ok cStats_ok) simp

lemma cData_ok: "codecOk cData"
  unfolding cData_def
  by (intro cMap_ok codec_ok cTxData_ok cERC20Data_ok cERC721Data_ok cLogData_ok) (simp split: watch_data.split)

lemma cWatchEvent_ok: "codecOk cWatchEvent"
  unfolding cWatchEvent_def by (intro cMap_ok codec_ok cData_ok) simp

section \<open>The codec of the watch list\<close>

definition refWatch :: watchJson where
  "refWatch = \<lparr>marshalWatched = (\<lambda>w. Some (fst cWatched w)), unmarshalWatched = (\<lambda>d. map_option fst (snd cWatched d)),
     marshalWatchEvent = (\<lambda>e. Some (fst cWatchEvent e)), unmarshalWatchEvent = (\<lambda>d. map_option fst (snd cWatchEvent d))\<rparr>"

interpretation refWatch: watch_json refWatch
  by unfold_locales (use codecOkD [OF cWatched_ok, where r = "[]"] codecOkD [OF cWatchEvent_ok, where r = "[]"] in
    \<open>simp_all add: refWatch_def\<close>)

end
