(* ===== verification/WatchQuery.thy ===== *)
theory WatchQuery
  imports WatchRefine WatchCodec
begin

text \<open>
  Runs of the watch list with restarts in them, and what its queries return afterwards: the registry of the watched
  addresses and the log of their events, oldest first. At the end a concrete run.
\<close>

section \<open>Runs\<close>

fun watchRun :: "'db watchEnv \<Rightarrow> watchCall list \<Rightarrow> 'db WatchlistService \<Rightarrow>
    (watchCall \<times> (serror + WatchedAddress option)) list \<times> 'db WatchlistService" where
  "watchRun E [] s = ([], s)"
| "watchRun E (c # cs) s = (let (r, s1) = watchExec E c s; (tr, s2) = watchRun E cs s1 in ((c, r) # tr, s2))"

inductive watchTrace :: "'db watchEnv \<Rightarrow> watchAbs \<Rightarrow> (watchCall \<times> (serror + WatchedAddress option)) list \<Rightarrow> watchAbs \<Rightarrow> bool" for E where
  traceNil: "watchTrace E A [] A"
| traceStep: "watchSpec E c r A A' \<Longrightarrow> watchTrace E A' tr A'' \<Longrightarrow> watchTrace E A ((c, r) # tr) A''"

inductive_cases watchTrace_Cons [elim]: "watchTrace E A ((c, r) # tr) A''"
inductive_simps watchTrace_simps: "watchTrace E A [] A'" "watchTrace E A ((c, r) # tr) A'"

definition watchEmpty :: watchAbs where
  "watchEmpty = \<lparr>abRunning = False, abReg = (\<lambda>_ _. None), abLog = []\<rparr>"

lemma watchRun_calls: "map fst (fst (watchRun E cs s)) = cs"
  by (induction cs arbitrary: s) (auto simp: Let_def split: prod.split, metis fst_conv)

context watch_env
begin

lemma run_rep:
  "watchRep view E A evs s \<Longrightarrow> \<forall>c\<in>set cs. goodCall c \<Longrightarrow> watchRun E cs s = (tr, s') \<Longrightarrow>
   \<exists>A' evs'. watchTrace E A tr A' \<and> watchRep view E A' evs' s'"
proof (induction cs arbitrary: A evs s tr)
  case Nil
  then show ?case by (auto intro: traceNil)
next
  case (Cons c cs)
  from watch_simulation [OF Cons.prems(1), of c] Cons.prems(2) obtain r s1 A1 evs1 where
    1: "watchExec E c s = (r, s1)" "watchSpec E c r A A1" "watchRep view E A1 evs1 s1" by auto
  obtain tr1 s2 where 2: "watchRun E cs s1 = (tr1, s2)" by force
  with Cons.prems(3) 1(1) have tr: "tr = (c, r) # tr1" "s2 = s'" by simp_all
  from Cons.IH [OF 1(3) _ 2 [unfolded tr(2)]] Cons.prems(2) obtain A' evs' where
    "watchTrace E A1 tr1 A'" "watchRep view E A' evs' s'" by auto
  with 1(2) show ?case unfolding tr(1) by (blast intro: traceStep)
qed

lemma empty_rep:
  assumes "ready st" "\<And>k. HasPrefix k ''/wl/'' \<Longrightarrow> view (db st) k = None"
  shows "watchRep view E watchEmpty [] (NewService st bus t)"
proof (rule repI)
  let ?m = "view (db st)"
  have k: "?m (WatchedAddressKey i) = None" "?m (AddressByEthAddressKey G c a) = None" for i c a
    by (rule assms(2), simp add: HasPrefix_def prefix_def watch_key_defs)+
  show "regHolds G J (view (db (wlStore (NewService st bus t)))) (abReg watchEmpty)"
    by (rule regHoldsI) (simp_all add: k NewService_def watchEmpty_def regOk_def idFree_def)
  have "?m k = None" if "HasPrefix k (EventIndexKeyPrefix i)" for i k
    by (rule assms(2)) (use that in \<open>auto simp: HasPrefix_def prefix_def watch_key_defs\<close>)
  then show "logHolds E (view (db (wlStore (NewService st bus t)))) (wlTick (NewService st bus t)) []"
    by (auto simp: logHolds_def NewService_def)
  show "matcher_ok G (wlMatcher (NewService st bus t))"
    using tableOf_new [of "\<lambda>_ _. None"] by (simp add: tableOf_def NewService_def)
  show "map_option waCore (watchTable (wlMatcher (NewService st bus t)) c a) = abReg watchEmpty c a" for c a
    using tableOf_new [of "\<lambda>_ _. None"] by (cases "watchTable NewEventMatcher c a") (auto simp: tableOf_def NewService_def watchEmpty_def)
qed (use assms(1) in \<open>simp_all add: NewService_def watchEmpty_def\<close>)

text \<open>The index of an address, in the order of the keys, is the log of its events.\<close>

lemma EventIndexKey_less: "t < t' \<Longrightarrow> EventIndexKey i t v < EventIndexKey i t' v'"
  by (simp add: EventIndexKey_def less_list_append_eqlen)

lemma recent_eq:
  assumes r: "watchRep view E A evs s" and i: "plainID i"
    and clock: "\<And>n m. n < m \<Longrightarrow> m < wlTick s \<Longrightarrow> wvClock E n < wvClock E m"
  shows "Watchlist_GetRecentEvents E i limit s =
    (Inr (take (nat (if limit \<le> 0 then 50 else limit)) (filter (\<lambda>e. weAddressID e = i) evs)), s)"
proof -
  define n where "n = nat (if limit \<le> 0 then 50 else limit)"
  define es where "es = filter (\<lambda>e. weAddressID e = i) evs"
  define fn where "fn = (\<lambda>key :: bytes. \<lambda>value events. if n \<le> length events then (False, events)
     else case unmarshalWatchEvent J value of None \<Rightarrow> (True, events) | Some e \<Rightarrow> (True, if True then events @ [e] else events))"
  have o: "\<not> closed (wlStore s)" using repD(1) [OF r] by (simp add: ready_def)
  have h: "logHolds E (view (db (wlStore s))) (wlTick s) evs" by (rule repD(5) [OF r])
  from kv.iterate_open [OF o, of "EventIndexKeyPrefix i" "\<lambda>_. False" fn "[]"]
  obtain kvs where kvs: "sorted_wrt (<) (map fst kvs)"
    "\<forall>k v. (k, v) \<in> set kvs \<longleftrightarrow> HasPrefix k (EventIndexKeyPrefix i) \<and> view (db (wlStore s)) k = Some v"
    "Iterate P (\<lambda>_. False) (EventIndexKeyPrefix i) fn [] (wlStore s) = (Inr (Iterate_loop (\<lambda>_. False) fn 0 kvs []), wlStore s)"
    by blast
  have good: "asciiWatchEvent e \<and> weAddressID e = i" if "e \<in> set es" for e
    using h that by (auto simp: logHolds_def es_def)
  have "kvs = map (indexPair J) es"
  proof (rule sorted_kv_unique)
    have "sorted_wrt (\<lambda>x y. eventAt x < eventAt y) evs"
      using stamped_sorted [OF _ clock] h unfolding logHolds_def sorted_wrt_map by blast
    then have "sorted_wrt (\<lambda>x y. eventAt x < eventAt y) es" unfolding es_def by (rule sorted_wrt_filter)
    then have "sorted_wrt (\<lambda>x y. fst (indexPair J x) < fst (indexPair J y)) es"
      by (rule sorted_wrt_mono_rel [rotated]) (simp add: indexPair_def good EventIndexKey_less)
    then show "sorted_wrt (<) (map fst (map (indexPair J) es))" by (simp add: sorted_wrt_map)
    have pre: "HasPrefix (fst (indexPair J e)) (EventIndexKeyPrefix i)" if "e \<in> set es" for e
      using good [OF that] i by (simp add: indexPair_def)
    have at: "view (db (wlStore s)) k = Some v \<longleftrightarrow> (\<exists>e\<in>set evs. weAddressID e = i \<and> (k, v) = indexPair J e)"
      if "HasPrefix k (EventIndexKeyPrefix i)" for k v
      using h i that by (simp add: logHolds_def env)
    have "(k, v) \<in> set kvs \<longleftrightarrow> (k, v) \<in> indexPair J ` set es" for k v
    proof -
      have "(k, v) \<in> set kvs \<longleftrightarrow> HasPrefix k (EventIndexKeyPrefix i) \<and> (\<exists>e\<in>set es. (k, v) = indexPair J e)"
        using kvs(2) at by (auto simp: es_def)
      then show ?thesis using pre by (force simp: prod_eq_iff)
    qed
    then show "set kvs = set (map (indexPair J) es)" by auto
  qed (rule kvs(1))
  moreover have "unmarshalWatchEvent J (snd (indexPair J e)) = Some e" if "e \<in> set es" for e
    using watch_event_roundtrip [of e] good [OF that] by (auto simp: indexPair_def)
  ultimately have "Iterate_loop (\<lambda>_. False) fn 0 kvs [] = (None, take n es)"
    using Iterate_loop_take [of es "unmarshalWatchEvent J" "\<lambda>e. snd (indexPair J e)" "[]" n "\<lambda>_. True" 0 "\<lambda>e. fst (indexPair J e)"]
    by (simp add: fn_def)
  moreover have "Watchlist_GetRecentEvents E i limit s =
      onWatchStore (scanWith P (\<lambda>_. False) ''get_events'' (EventIndexKeyPrefix i) (\<lambda>_. fn) []) s"
    unfolding Watchlist_GetRecentEvents_def Let_def fn_def n_def env by (simp only: nat_le_iff if_True)
  ultimately show ?thesis using kvs(3)
    by (simp add: onWatchStore_def scanWith_def andThen_def wrapping_def catch_def n_def es_def)
qed

lemma lookup_eq:
  assumes "watchRep view E A evs s"
  shows "case abReg A c a of None \<Rightarrow> fst (GetWatchedAddressByEthAddress E c a s) = Inl ErrAddressNotFound
    | Some w \<Rightarrow> \<exists>x. fst (GetWatchedAddressByEthAddress E c a s) = Inr x \<and> waCore x = w"
  using getByEth_rep [OF assms, of c a] by (auto simp: GetWatchedAddressByEthAddress_def onWatchStore_def env split: option.splits)

end

section \<open>Readings of the clock\<close>

text \<open>How often an operation may read the clock or draw an identifier while nobody subscribes.\<close>

definition quiet :: "'db WatchlistService \<Rightarrow> bool" where
  "quiet s \<longleftrightarrow> (\<forall>a. wlAddrSubs s a = [])"

definition costs :: "nat \<Rightarrow> ('db WatchlistService, 'a) op \<Rightarrow> bool" where
  "costs n m \<longleftrightarrow> (\<forall>s. quiet s \<longrightarrow> quiet (snd (m s)) \<and> wlTick (snd (m s)) \<le> wlTick s + n)"

named_theorems costs

lemma costsD: "costs n m \<Longrightarrow> quiet s \<Longrightarrow> m s = (r, s') \<Longrightarrow> quiet s' \<and> wlTick s' \<le> wlTick s + n"
  unfolding costs_def by (metis snd_conv)

lemma costs_mono: "costs n m \<Longrightarrow> n \<le> k \<Longrightarrow> costs k m"
  unfolding costs_def by (meson add_left_mono order_trans)

lemma costs_andThen [costs]: "costs n m \<Longrightarrow> (\<And>x. costs k (f x)) \<Longrightarrow> costs (n + k) (andThen m f)"
  unfolding costs_def
proof (intro allI impI)
  fix s :: "'a WatchlistService"
  assume m: "\<forall>s. quiet s \<longrightarrow> quiet (snd (m s)) \<and> wlTick (snd (m s)) \<le> wlTick s + n"
    and f: "\<And>x. \<forall>s. quiet s \<longrightarrow> quiet (snd (f x s)) \<and> wlTick (snd (f x s)) \<le> wlTick s + k" and q: "quiet s"
  obtain r s1 where r: "m s = (r, s1)" by force
  then have 1: "quiet s1" "wlTick s1 \<le> wlTick s + n" using m q by (metis snd_conv)+
  show "quiet (snd (andThen m f s)) \<and> wlTick (snd (andThen m f s)) \<le> wlTick s + (n + k)"
  proof (cases r)
    case (Inr x)
    with 1 f [of x] r show ?thesis by (auto simp: andThen_def dest!: spec [of _ s1])
  qed (use 1 r in \<open>simp add: andThen_def\<close>)
qed

lemma costs_match:
  "(\<And>s xs. g s = Inr xs \<Longrightarrow> costs k (f xs)) \<Longrightarrow> costs k (andThen (\<lambda>s. fromSum (g s) s) f)"
  unfolding costs_def andThen_def fromSum_def by (auto split: sum.split)

lemma costs_attempt [costs]: "costs n m \<Longrightarrow> costs n (attempt m)"
  unfolding costs_def attempt_def catch_def ret_def by (fastforce split: prod.split sum.split dest: spec)

lemma costs_base [costs]:
  "costs 0 (ret x)" "costs 0 (throw e)" "costs 0 (onWatchStore st)" "costs 0 (onMatcher h)" "costs 0 (fromOption e y)"
  "costs (Suc 0) (newUuid E)" "costs (Suc 0) (watchNow E)" "costs 0 publishWatchEvent" "costs 0 Watchlist_Stop"
  by (auto simp: costs_def quiet_def onWatchStore_def onMatcher_def fromOption_def newUuid_def watchNow_def publishWatchEvent_def
      Watchlist_Stop_def ret_def throw_def split: prod.split sum.split option.split)

lemma costs_start: "costs 0 (Watchlist_Start E)"
proof -
  have "costs 0 (loadWatchedAddresses E)"
    by (auto simp: costs_def quiet_def loadWatchedAddresses_def split: prod.split sum.split option.split)
  moreover have "costs 0 (\<lambda>s. (Inr (), s\<lparr>wlRunning := True\<rparr>) :: _ \<times> 'a WatchlistService)" by (simp add: costs_def quiet_def)
  ultimately have "costs (0 + 0) (andThen (loadWatchedAddresses E) (\<lambda>_ s. (Inr (), s\<lparr>wlRunning := True\<rparr>)))" by (rule costs_andThen)
  then show ?thesis by (simp add: costs_def Watchlist_Start_def)
qed

lemma costs_processMatched: "costs 4 (processMatchedEvent E e)"
proof -
  have stats: "costs (Suc 0 + Suc 0) (updateAddressStats E i ty)" for i ty
    unfolding updateAddressStats_def Let_def by (rule costs_mono, (rule costs)+) simp
  have "costs 0 (\<lambda>s. notifySubscribers E (wlAddrSubs s a) s)" for a
    by (simp add: costs_def quiet_def ret_def)
  then show ?thesis unfolding processMatchedEvent_def Let_def
    by (intro costs_mono [OF costs_andThen [OF costs_base(6) costs_andThen [OF costs_base(7)
        costs_andThen [OF costs_base(3) costs_andThen [OF costs_attempt [OF stats] costs_andThen [OF costs_base(8)]]]]]]) simp_all
qed

lemma costs_forEach: "(\<And>x. x \<in> set xs \<Longrightarrow> costs (k x) (f x)) \<Longrightarrow> costs (sum_list (map k xs)) (forEach f xs)"
  by (induction xs) (simp_all add: costs)

lemma costs_events: "length es \<le> n \<Longrightarrow> costs (4 * n) (forEach (\<lambda>e. attempt (processMatchedEvent E e)) es)"
  by (rule costs_mono [OF costs_forEach [of _ "\<lambda>_. 4"]]) (simp_all add: costs costs_processMatched sum_list_triv)

lemma andEvents_length: "andEvents x y = Inr zs \<Longrightarrow> \<exists>xs ys. x = Inr xs \<and> y = Inr ys \<and> length zs = length xs + length ys"
  by (auto simp: andEvents_def split: sum.splits)

lemma eventIf_length: "eventIf G bf tbl a p mk = Inr xs \<Longrightarrow> length xs \<le> 1"
  by (auto simp: eventIf_def split: option.splits if_splits)

lemma MatchTransaction_length: "Matcher_MatchTransaction G sd ti m c t r n h = Inr es \<Longrightarrow> length es \<le> 2"
  by (fastforce simp: Matcher_MatchTransaction_def split: option.splits dest!: andEvents_length eventIf_length)

lemma matchLog1_length: "matchLog1 G bf tbl n h l = Inr es \<Longrightarrow> length es \<le> 3"
  by (fastforce simp: matchLog1_def Let_def split: if_splits dest!: andEvents_length dest: eventIf_length)

lemma MatchLogs_length: "MatchLogs G m c ls n h = Inr es \<Longrightarrow> length es \<le> 3 * length ls"
proof -
  have "foldr (\<lambda>l. andEvents (matchLog1 G bf tbl n h l)) ls (Inr []) = Inr es \<Longrightarrow> length es \<le> 3 * length ls" for bf tbl
    by (induction ls arbitrary: es) (fastforce dest!: andEvents_length dest: matchLog1_length)+
  then show "MatchLogs G m c ls n h = Inr es \<Longrightarrow> ?thesis" by (auto simp: MatchLogs_def split: option.splits)
qed

text \<open>A bound for a call: two readings to watch an address, four for every event a block may bring.\<close>

fun callTicks :: "watchCall \<Rightarrow> nat" where
  "callTicks (CallWatch req) = 2"
| "callTicks (CallBlock c b rs) = sum_list (map (\<lambda>t. case map_of (rev (map (\<lambda>r. (rTxHash r, r)) rs)) (tHash t) of
     None \<Rightarrow> 0 | Some r \<Rightarrow> 8 + 12 * length (rLogs r)) (bTxs b))"
| "callTicks _ = 0"

lemma costs_processTx: "costs (case rm (tHash t) of None \<Rightarrow> 0 | Some r \<Rightarrow> 8 + 12 * length (rLogs r)) (processTx E c b rm t)"
proof (cases "rm (tHash t)")
  case (Some r)
  have "costs (4 * 2 + 4 * (3 * length (rLogs r))) (processTx E c b rm t)"
    unfolding processTx_def Some option.case
    by (intro costs_match costs_andThen costs_events) (auto dest: MatchTransaction_length MatchLogs_length)
  then show ?thesis using Some by simp
qed (simp add: processTx_def costs)

lemma costs_block: "costs (callTicks (CallBlock c b rs)) (ProcessBlock E c b rs)"
proof -
  define rm where "rm = map_of (rev (map (\<lambda>r. (rTxHash r, r)) rs))"
  have "costs (callTicks (CallBlock c b rs)) (forEach (processTx E c b rm) (bTxs b))"
    unfolding callTicks.simps rm_def [symmetric] by (rule costs_forEach) (rule costs_processTx)
  then show ?thesis by (simp add: costs_def ProcessBlock_def rm_def)
qed

lemma costs_orElse:
  "costs 0 m \<Longrightarrow> costs n f \<Longrightarrow> costs n (\<lambda>s. case m s of (Inr _, s) \<Rightarrow> (Inl e, s) | (Inl _, s) \<Rightarrow> f s)"
  unfolding costs_def by (fastforce split: prod.split sum.split)

lemma costs_watch: "costs 2 (WatchAddress E req)"
proof -
  have bloom: "costs 0 (\<lambda>s. case GetBloomFilter c (wlMatcher s) of None \<Rightarrow> (Inr (), s)
      | Some bf \<Rightarrow> attempt (onWatchStore (storeBloomFilter P c bf)) s)" for c and P :: "'a pebble"
    using costs_attempt [OF costs_base(3)] by (auto simp: costs_def split: option.split)
  show ?thesis
    unfolding WatchAddress_def Let_def
    by (cases "wrAddress req = 0"; simp only: if_True if_False simp_thms; intro costs_mono [OF costs_base(2)] costs_orElse costs_base(3)
      costs_mono [OF costs_andThen [OF costs_base(7) costs_andThen [OF costs_base(6) costs_andThen [OF costs_base(3)
        costs_andThen [OF costs_base(4) costs_andThen [OF bloom costs_base(1)]]]]]]) simp_all
qed

lemma costs_unwatch: "costs 0 (UnwatchAddress E i)"
proof -
  have "costs 0 (\<lambda>s. (Inr (), s\<lparr>wlSubscribers := f s, wlAddrSubs := (wlAddrSubs s)(i := [])\<rparr>))"
    for f :: "'a WatchlistService \<Rightarrow> _" by (simp add: costs_def quiet_def)
  then show ?thesis unfolding UnwatchAddress_def
    by (intro costs_mono [OF costs_andThen [OF costs_base(3) costs_andThen [OF costs_base(4) costs_andThen [OF costs_base(3)]]]]) simp_all
qed

lemma costs_thenRet:
  assumes "costs n m" "quiet s"
  shows "quiet (snd (andThen m (\<lambda>x. ret (y x)) s)) \<and> wlTick (snd (andThen m (\<lambda>x. ret (y x)) s)) \<le> wlTick s + n"
  using costs_andThen [OF assms(1) costs_base(1), of y] assms(2) by (simp add: costs_def)

lemma watchExec_costs: "quiet s \<Longrightarrow> quiet (snd (watchExec E c s)) \<and> wlTick (snd (watchExec E c s)) \<le> wlTick s + callTicks c"
proof -
  assume q: "quiet s"
  have "quiet (NewService (wlStore s) (wlBus s) (wlTick s))" by (simp add: quiet_def NewService_def)
  note new = costs_thenRet [OF costs_start [of E] this]
  show ?thesis
    using costs_thenRet [OF costs_watch q] costs_thenRet [OF costs_unwatch q] costs_thenRet [OF costs_block q]
      costs_thenRet [OF costs_start q] costs_thenRet [OF costs_base(9) q] new
    by (cases c) (simp_all add: NewService_def)
qed

lemma watchRun_ticks: "quiet s \<Longrightarrow> wlTick (snd (watchRun E cs s)) \<le> wlTick s + sum_list (map callTicks cs)"
proof (induction cs arbitrary: s)
  case (Cons c cs)
  have "snd (watchRun E (c # cs) s) = snd (watchRun E cs (snd (watchExec E c s)))" by (simp add: Let_def split: prod.split)
  with watchExec_costs [OF Cons.prems, of E c] Cons.IH [of "snd (watchExec E c s)"] show ?case by simp
qed simp

section \<open>The contract\<close>


section \<open>A run\<close>

definition demoWatch :: "((bytes \<times> bytes) list) watchEnv" where
  "demoWatch = \<lparr>wvDB = memPebble, wvGeth = sampleGeth, wvJson = refWatch, wvSender = (\<lambda>t. Some (tFrom t)),
     wvTxIndex = (\<lambda>_. 0), wvBloom = mkBloomFilter 2 3, wvUuid = showBase 10, wvClock = of_nat, wvStop = (\<lambda>_. False)\<rparr>"

lemma demoWatch_env: "watch_env memPebble map_of sampleGeth refWatch demoWatch"
proof (rule watch_env.intro [OF memPebble.pebble_db_axioms geth_codec_sample refWatch.watch_json_axioms], rule watch_env_axioms.intro)
  show "bloom_wf (wvBloom demoWatch)" by (simp add: demoWatch_def mkBloomFilter_wf)
  show "inj (wvUuid demoWatch)" by (simp add: demoWatch_def inj_def)
  show "ascii (wvUuid demoWatch n)" for n by (simp add: demoWatch_def ascii_showBase)
qed (simp_all add: demoWatch_def plainID_def neverFails_mem)

interpretation demoWatch: watch_env memPebble map_of sampleGeth refWatch demoWatch
  by (rule demoWatch_env)

definition demoCalls :: "watchCall list" where
  "demoCalls = [CallStart, CallWatch \<lparr>wrAddress = 7, wrChainID = ''c'', wrLabel = ''l'', wrFilter = None\<rparr>,
     CallBlock ''c'' \<lparr>bNumber = 3, bHash = 4, bTime = 1, bCoinbase = 2, bGasUsed = 0,
       bTxs = [\<lparr>tType = 0, tHash = 6, tFrom = 5, tTo = Some 7, tValue = 9, tGasPrice = 1, tGas = 1, tNonce = 0, tData = []\<rparr>]\<rparr>
       [\<lparr>rTxHash = 6, rStatus = 1, rCumulativeGasUsed = 1, rGasUsed = 1, rContractAddress = 0, rLogs = []\<rparr>], CallRestart]"

definition demoWatched :: "(watchCall \<times> (serror + WatchedAddress option)) list \<times> ((bytes \<times> bytes) list) WatchlistService" where
  "demoWatched = watchRun demoWatch demoCalls (NewService (emptyStorage []) None 0)"

lemma demoWatched_clock: "n < m \<Longrightarrow> m < wlTick (snd demoWatched) \<Longrightarrow> wvClock demoWatch n < wvClock demoWatch m"
proof -
  have "wlTick (snd demoWatched) \<le> 10"
    using watchRun_ticks [of "NewService (emptyStorage []) None 0" demoWatch demoCalls]
    by (simp add: demoWatched_def demoCalls_def quiet_def NewService_def)
  moreover assume "n < m" "m < wlTick (snd demoWatched)"
  ultimately have "n < m" "m < 2 ^ 64" by simp_all
  then show ?thesis by (simp add: demoWatch_def word_less_nat_alt unat_of_nat_u64)
qed


end
