(* ===== verification/Spec2Isabelle.thy ===== *)
theory Spec2Isabelle
  imports BlockBatch Gaps Sync SysEvents RpcFilter Connection RpcCache RpcQueue CircuitBreaker WatchQuery EventBus
begin

text \<open>
  \<^bold>\<open>A verification library for indexer-go.\<close>

  The program indexes an EVM chain: a fetcher reads blocks and receipts from a node, a storage
  engine keeps them in an embedded key-value database together with secondary indexes, an event bus
  tells subscribers about new blocks, transactions and logs, and APIs answer queries, partly
  through a proxy that calls the node behind a cache, a priority queue and a circuit breaker. The
  library models the storage engine with its block, log, address, balance, token-transfer and
  system-contract tables, the parsers of system-contract events, the fetcher from the retries up to its main loop, the event bus, the filters of the JSON-RPC
  interface, resumable sessions, the proxy machinery and the watch list.

  \<^bold>\<open>Theories and sources.\<close>

  \<^item> \<open>Prelude\<close>: words, bytes and strings as Go renders them (fixed-width decimal and hexadecimal,
    big-endian integers, splitting at slashes), and their order and injectivity lemmas.
  \<^item> \<open>Chain\<close>: blocks, transactions, receipts and logs as the sources read them, and go-ethereum
    (hexadecimal rendering and RLP), which is not part of the repository, as a record \<open>geth\<close> of
    functions with the laws of the locale \<open>geth_codec\<close>; \<open>refGeth\<close> satisfies them.
  \<^item> \<open>Schema\<close>: \<^verbatim>\<open>pkg/storage/schema.go\<close> and the scan bounds of \<^verbatim>\<open>pebble.go\<close>. Keys are injective,
    the numeric parts sort as numbers, keys parse back, and a scan between the computed bounds
    visits exactly the keys with the prefix.
  \<^item> \<open>Store\<close>: errors, operations (a function from the state to a result and a state, so that a
    failure keeps the effects made before it) and the database of \<^verbatim>\<open>cockroachdb/pebble\<close> as a record
    of functions with the laws of the locale \<open>pebble_db\<close>: reads see a finite map, a write that
    reports an error has no effect, a batch is applied as a whole or not at all. \<open>memPebble\<close>
    satisfies them.
  \<^item> \<open>PebbleStorage\<close>: \<^verbatim>\<open>storage.go\<close> and \<^verbatim>\<open>pebble.go\<close>: configuration, state, opening, guards and the
    raw key-value operations. The locale \<open>kv_store\<close> is the contract of the \<^verbatim>\<open>KVStore\<close> interface;
    the storage refines it over every database that satisfies \<open>pebble_db\<close>.
  \<^item> \<open>BlockStore\<close>: \<^verbatim>\<open>pebble_blocks.go\<close>, \<^verbatim>\<open>pebble_transactions.go\<close>, \<^verbatim>\<open>pebble_receipts.go\<close> and the
    encoders they use. A successful write has committed exactly the list \<open>blockOps\<close>; all readers
    find what was written; a failed write has changed no key.
  \<^item> \<open>BlockIndex\<close>: the transaction counter across restarts, ranges of blocks, missing receipts,
    deletion and the paged index of transactions by address.
  \<^item> \<open>BlockBatch\<close>: \<^verbatim>\<open>pebble_batch.go\<close> and the writers that go through it.
  \<^item> \<open>Balances\<close>: \<^verbatim>\<open>pebble_historical.go\<close>: balance snapshots and histories by address, the balance
    at a block, the time index and counts over ranges of blocks.
  \<^item> \<open>LogIndex\<close>: \<^verbatim>\<open>pebble_logs.go\<close>: logs and their indexes by block, address and topic; queries
    return exactly the stored logs that match, in chain order, with a limit and an offset.
  \<^item> \<open>AddressIndex\<close>: \<^verbatim>\<open>pebble_address_index.go\<close>: contract creations, internal transactions, token
    transfers and the ownership of tokens. The JSON codec is a parameter with a round-trip law.
  \<^item> \<open>SysCodec\<close>, \<open>SysContracts\<close>, \<open>SysState\<close>: \<^verbatim>\<open>system_contracts.go\<close>, \<^verbatim>\<open>pebble_system_contracts_impl.go\<close>
    and their part of \<^verbatim>\<open>encoder.go\<close>: the events, proposals and votes of the system contracts. The binary
    formats read back; the updates of supply, minters, validators and blacklist refine a small abstract
    state; the pages of proposals by status are exact; authorized accounts are replayed from their events.
    RLP and JSON of the event records are a record \<open>sysCodec\<close> with the laws of the locale \<open>sys_codec\<close>.
  \<^item> \<open>SysEvents\<close>: \<^verbatim>\<open>pkg/events/system_contracts.go\<close> and \<^verbatim>\<open>internal/constants/system_contracts.go\<close>: the
    routing of a log by its signature and every parser. What the logs of a chain mean determines the
    stored state, unless a parser panics; the parser keeps the contract \<open>tame\<close> that the fetcher needs of
    its collaborators. Keccak-256 is a parameter.
  \<^item> \<open>Indexing\<close>: \<^verbatim>\<open>pkg/fetch/fetcher_indexing.go\<close>: which entries a block adds to the address
    indexes, and the tracking of balances, which refines a ledger. The node is a record \<open>client\<close> of
    operations on an unknown state; the token indexer, the set-code and user-operation processors,
    consensus and fee-delegation metadata, system-contract parser and block processors are a record
    \<open>collab\<close> of optional operations on the storage.
  \<^item> \<open>Gaps\<close>: \<^verbatim>\<open>pkg/fetch/fetcher_gaps.go\<close>. The locale \<open>presence\<close> says what the scans need of the
    storage, and \<open>pebble_db\<close> is a sublocale of it.
  \<^item> \<open>Metrics\<close>: \<^verbatim>\<open>metrics.go\<close> and \<^verbatim>\<open>optimizer.go\<close>: request statistics, the adaptive optimizer and
    its bounds, with \<^verbatim>\<open>float64\<close> as a record \<open>floats\<close> of operations, and the read-write mutex as a step
    relation.
  \<^item> \<open>Frame\<close>, \<open>LargeBlock\<close>: what the derived data leaves alone of blocks, receipts and latest
    height, and \<^verbatim>\<open>large_block.go\<close>, whose pool of receipt workers is a schedule of batches.
  \<^item> \<open>Fetcher\<close>, \<open>Sync\<close>: \<^verbatim>\<open>fetcher.go\<close>, \<^verbatim>\<open>fetcher_processing.go\<close>, \<^verbatim>\<open>fetcher_events.go\<close> and
    the recovery of \<^verbatim>\<open>fetcher_gaps.go\<close>, over storage, node, event bus and metrics together. Retries
    return the first answer; a fetched block is stored with its receipts before the latest height moves;
    the main loop leaves no hole below the latest height; the collector of the worker pool stores
    in the order of heights whatever the order of arrival; filled gaps are gone.
  \<^item> \<open>RpcCache\<close>, \<open>RpcQueue\<close>, \<open>CircuitBreaker\<close>: \<^verbatim>\<open>cache.go\<close>, \<^verbatim>\<open>queue.go\<close> and \<^verbatim>\<open>worker.go\<close> of
    \<^verbatim>\<open>pkg/rpcproxy\<close>. The cache refines an abstract least-recently-used list; the binary heap,
    with \<^verbatim>\<open>container/heap\<close> written out, meets the locale \<open>min_queue\<close>; the breaker is a state machine
    with an invariant; the retry loop is bounded.
  \<^item> \<open>Bloom\<close>: \<^verbatim>\<open>pkg/watchlist/bloom.go\<close> on 64-bit words.
  \<^item> \<open>WatchMatch\<close>, \<open>Watchlist\<close>: \<^verbatim>\<open>types.go\<close>, \<^verbatim>\<open>filter.go\<close>, \<^verbatim>\<open>storage.go\<close>, \<^verbatim>\<open>errors.go\<close> and \<^verbatim>\<open>service.go\<close> of
    \<^verbatim>\<open>pkg/watchlist\<close>: the matcher, whose answers do not depend on its Bloom filters, and the service over storage,
    matcher and bus. The JSON codec, the recovery of senders, the clock and the random identifiers are parameters.
  \<^item> \<open>WatchState\<close>, \<open>WatchRefine\<close>, \<open>WatchQuery\<close>, \<open>WatchCodec\<close>: the registry of watched addresses and the log of their
    events that the service refines, with restarts, and what its queries return. The locales \<open>watch_json\<close> and
    \<open>watch_env\<close> state what is asked of the surroundings; the codec of \<open>WatchCodec\<close> satisfies the first one.
  \<^item> \<open>EventFilter\<close>, \<open>EventBus\<close>: \<^verbatim>\<open>types.go\<close>, \<^verbatim>\<open>filter.go\<close> and \<^verbatim>\<open>bus.go\<close> of \<^verbatim>\<open>pkg/events\<close>: filters,
    the ring buffer for replay, delivery without blocking, and the bus as a step relation in which
    publishers, subscribers, consumers and the main loop interleave freely.
  \<^item> \<open>PendingPool\<close>, \<open>RpcFilter\<close>: \<^verbatim>\<open>pending_pool.go\<close>, \<^verbatim>\<open>filter_manager.go\<close>, \<^verbatim>\<open>methods_filter.go\<close> and
    \<^verbatim>\<open>methods_logs.go\<close> of \<^verbatim>\<open>pkg/api/jsonrpc\<close>: polls of a log filter deliver every log of the growing
    chain once, polls of the pending pool every transaction once.
  \<^item> \<open>Resilience\<close>, \<open>Connection\<close>: \<^verbatim>\<open>pkg/resilience\<close>: the session store and the event cache over the
    key-value operations, and the connection manager, whose runs are the step relation \<open>connStep\<close>. A
    resumed session gets exactly the events it missed.

  \<^bold>\<open>Conventions.\<close> Heights, indexes and counters are 64-bit words and wrap around; Go ints that may be
  negative are integers. A mutex makes a method one step. A run-time panic is the error \<open>Panic\<close>.
  There is no fuel: loops whose end depends on their input are partial functions with \<open>None\<close> for a
  run that does not end, and the theorems about them state that they return; the other loops are
  structural or have a termination proof.

  The main loop of the fetcher runs until its context is cancelled; its theorems hold for every
  number of rounds.

  \<^bold>\<open>What is not modelled.\<close> Logging, goroutine start and stop, network transports, ABI and signature
  decoding, and the conversions of the HTTP APIs. The worker pool of the fetcher is seen through the
  order in which its results arrive, that of the large-block processor through the order of its
  batches; a batch takes effect as a whole. The remaining secondary indexes (tokens, consensus data,
  set-code authorizations, user operations, fee delegation), the proxy front end
  and the generic ABI parser are not modelled; they build on the storage and bus theories here.
\<close>

section \<open>Indexing and gap detection together\<close>

lemma SetBlockWithReceipts_stored:
  assumes "pebble_db P view" "geth_codec G" "SetBlockWithReceipts P G (Some b) rs s = (Inr u, s')"
  shows "stored view s' = (stored view s)(bNumber b := True)"
proof
  fix h
  note cs = chain_store_intro [OF assms(1,2)]
  let ?ops = "blockOps G b (receiptMapOf rs (\<lambda>_. None)) (txCount s + word_of_nat (length (bTxs b)))"
  have v: "view (db s') = apply_ops (view (db s)) ?ops"
    using chain_store.SetBlockWithReceipts_Inr [OF cs assms(3)] by simp
  show "stored view s' h = ((stored view s)(bNumber b := True)) h"
  proof (cases "h = bNumber b")
    case True
    then show ?thesis using v chain_store.blockOps_meta(1) [OF cs] by (simp add: stored_def)
  next
    case False
    then have "apply_ops (view (db s)) ?ops (BlockKey h) = view (db s) (BlockKey h)"
      by (intro apply_ops_other)
        (auto simp: chain_store.blockOps_BSet [OF cs] chain_store.blockOps_no_delete [OF cs]
          dest!: chain_store.receiptOps_keys [OF cs])
    with False v show ?thesis by (simp add: stored_def)
  qed
qed

text \<open>
  Progress. After a block has been indexed, gap detection over any range reports the same
  missing heights as before, without the height of that block.
\<close>

theorem indexing_closes_gap:
  assumes "pebble_db P view" "geth_codec G" "SetBlockWithReceipts P G (Some b) rs s = (Inr u, s')"
    and "hi < - 1" "lo \<le> hi + 1" "\<forall>h. \<not> cancelled h"
  shows "\<exists>gaps gaps'. DetectGaps (HasBlock P) cancelled lo hi s = Some ((gaps, None), s) \<and>
    DetectGaps (HasBlock P) cancelled lo hi s' = Some ((gaps', None), s') \<and>
    (\<forall>h. lo \<le> h \<and> h \<le> hi \<longrightarrow> covered gaps' h = (covered gaps h \<and> h \<noteq> bNumber b))"
proof -
  have o: "\<not> closed s" "\<not> closed s'"
    using chain_store.SetBlockWithReceipts_Inr [OF chain_store_intro [OF assms(1,2)] assms(3)]
    by (simp_all add: ready_def)
  note scan = presence.DetectGaps_exact [OF presence_of_storage [OF assms(1)] _ assms(4-6)]
  obtain gaps gaps' where g: "DetectGaps (HasBlock P) cancelled lo hi s = Some ((gaps, None), s)"
    "DetectGaps (HasBlock P) cancelled lo hi s' = Some ((gaps', None), s')"
    "gaps_exact (stored view s) lo hi gaps" "gaps_exact (stored view s') lo hi gaps'"
    using scan [OF o(1)] scan [OF o(2)] by blast
  have "covered gaps' h = (covered gaps h \<and> h \<noteq> bNumber b)" if "lo \<le> h" "h \<le> hi" for h
  proof -
    have "covered gaps h = (\<not> stored view s h)" "covered gaps' h = (\<not> stored view s' h)"
      using that g(3,4) by (simp_all add: gaps_exact_def)
    then show ?thesis using SetBlockWithReceipts_stored [OF assms(1-3)] by simp
  qed
  with g(1,2) show ?thesis by blast
qed

theorem indexing_closes_gap_witness:
  "\<exists>gaps gaps'. DetectGaps (HasBlock memPebble) (\<lambda>_. False) 5 9 (emptyStorage []) = Some ((gaps, None), emptyStorage []) \<and>
    DetectGaps (HasBlock memPebble) (\<lambda>_. False) 5 9 (snd sampleStored) = Some ((gaps', None), snd sampleStored) \<and>
    covered gaps' 7 = (covered gaps 7 \<and> (7 :: u64) \<noteq> 7) \<and> covered gaps' 8 = covered gaps 8"
proof -
  have "(9 :: u64) < - 1" "(5 :: u64) \<le> 9 + 1" "\<forall>h :: u64. \<not> (\<lambda>_. False) h" by simp_all
  from indexing_closes_gap [OF memPebble.pebble_db_axioms geth_codec_sample sampleStored_ok this]
  show ?thesis by (fastforce simp: sampleBlock_def)
qed

end
